(* ===== verification/Prelude.thy ===== *)
theory Prelude
  imports Main "HOL-Library.Word" "HOL-Library.AList" "HOL-Library.List_Lexorder"
    "HOL-Library.Sublist"
begin

text \<open>
  Shared vocabulary of the development: machine integers at their width, byte strings, the error
  type of \<^verbatim>\<open>sochdb-core/src/error.rs\<close> with Rust panics beside it, the standard-library routines the
  engine calls (binary search by \<^verbatim>\<open>partition_point\<close>, slicing, little-endian byte conversion,
  reading from a byte stream), and the concurrent map \<^verbatim>\<open>DashMap\<close> as an association list whose order
  stands for the map's unspecified iteration order.  The collections \<open>wf_intros\<close> and \<open>dash_simps\<close>
  carry the proofs of the component theories.
\<close>

named_theorems wf_intros \<open>every operation keeps its component's invariant\<close>
named_theorems dash_simps \<open>lookup after an update of a concurrent map\<close>

subsection \<open>Scalars, byte strings, errors\<close>

type_synonym byte = "8 word"
type_synonym u32 = "32 word"
type_synonym u64 = "64 word"
type_synonym bytes = "byte list"
type_synonym key = bytes
type_synonym val = bytes

datatype io_error = UnexpectedEof | OtherIo string

datatype SochDBError =
    Io io_error
  | Serialization string
  | DataCorruption string string string
  | Corruption string
  | NotFound string
  | InvalidArgument string
  | InvalidTimestampDetailed string u64 string u64 u64
  | InvalidTimestamp string
  | ResourceExhausted string
  | Internal string
  | Compaction string
  | Index string
  | Backup string
  | Validation string
  | InvalidData string
  | InvalidReference string
  | CircuitOpen string
  | WriteStall string
  | SchemaEvolution string
  | LockError string
  | DatabaseLocked
  | EpochMismatch u64 u64
  | SplitBrain string
  | Encryption string

text \<open>A call either returns, returns an error value, or panics.\<close>

datatype failure = Err SochDBError | Panic string

type_synonym 'a result = "failure + 'a"

text \<open>Rust's \<^verbatim>\<open>?\<close>: stop at the first error.\<close>

definition try_bind :: "'a result \<Rightarrow> ('a \<Rightarrow> 'b result) \<Rightarrow> 'b result" where
  "try_bind r f = (case r of Inl e \<Rightarrow> Inl e | Inr x \<Rightarrow> f x)"

lemma try_bind_simps [simp]:
  "try_bind (Inl e) f = Inl e"
  "try_bind (Inr x) f = f x"
  by (simp_all add: try_bind_def)

lemma try_bind_eq_Inr: "try_bind r f = Inr y \<longleftrightarrow> (\<exists>x. r = Inr x \<and> f x = Inr y)"
  by (cases r) auto

text \<open>Decimal rendering, for the numbers in messages.\<close>

fun show_nat :: "nat \<Rightarrow> string" where
  "show_nat n =
     (if n < 10 then [char_of (48 + n)] else show_nat (n div 10) @ [char_of (48 + n mod 10)])"

declare show_nat.simps [simp del]

subsection \<open>Binary search of the standard library\<close>

text \<open>
  \<^verbatim>\<open>slice::partition_point\<close>: the base moves to the middle while the predicate holds there, the size
  halves, and one last probe decides between the base and its successor.
\<close>

function pp_loop :: "('a \<Rightarrow> bool) \<Rightarrow> 'a list \<Rightarrow> nat \<Rightarrow> nat \<Rightarrow> nat" where
  "pp_loop p xs base sz =
     (if sz > 1
      then let half = sz div 2; mid = base + half
           in pp_loop p xs (if p (xs ! mid) then mid else base) (sz - half)
      else base)"
  by pat_completeness auto
termination
  by (relation "measure (\<lambda>(p, xs, base, sz). sz)") auto

declare pp_loop.simps [simp del]

definition partition_point :: "('a \<Rightarrow> bool) \<Rightarrow> 'a list \<Rightarrow> nat" where
  "partition_point p xs =
     (if xs = [] then 0
      else let base = pp_loop p xs 0 (length xs)
           in if p (xs ! base) then base + 1 else base)"

definition partitioned :: "('a \<Rightarrow> bool) \<Rightarrow> 'a list \<Rightarrow> bool" where
  "partitioned p xs \<longleftrightarrow> (\<forall>i j. i < j \<and> j < length xs \<and> p (xs ! j) \<longrightarrow> p (xs ! i))"

lemma partitioned_nth_iff:
  assumes "partitioned p xs" "i < length xs"
  shows "p (xs ! i) \<longleftrightarrow> i < length (takeWhile p xs)"
proof
  assume pi: "p (xs ! i)"
  show "i < length (takeWhile p xs)"
  proof (rule ccontr)
    let ?n = "length (takeWhile p xs)"
    assume "\<not> i < ?n"
    with assms(2) have n: "?n \<le> i" "?n < length xs" by auto
    then have "\<not> p (xs ! ?n)" by (simp add: nth_length_takeWhile)
    with pi n assms show False
      unfolding partitioned_def by (metis le_neq_implies_less)
  qed
next
  assume "i < length (takeWhile p xs)"
  then show "p (xs ! i)" by (metis nth_mem set_takeWhileD takeWhile_nth)
qed

lemma pp_loop_bracket:
  assumes "\<forall>i < length xs. p (xs ! i) \<longleftrightarrow> i < n"
    and "0 < sz" "base + sz \<le> length xs" "base = 0 \<or> base < n" "n \<le> base + sz"
  shows "pp_loop p xs base sz < length xs \<and>
    (pp_loop p xs base sz = 0 \<or> pp_loop p xs base sz < n) \<and> n \<le> pp_loop p xs base sz + 1"
  using assms
proof (induction p xs base sz rule: pp_loop.induct [case_names step])
  case (step p xs base sz)
  let ?half = "sz div 2"
  let ?mid = "base + ?half"
  show ?case
  proof (cases "sz > 1")
    case False
    with step.prems have "sz = 1" by simp
    moreover have "pp_loop p xs base 1 = base" by (simp add: pp_loop.simps)
    ultimately show ?thesis using step.prems by simp
  next
    case True
    then have half: "0 < ?half" "?half < sz" by auto
    then have "?mid < length xs" using step.prems(3) by linarith
    then have mid: "p (xs ! ?mid) \<longleftrightarrow> ?mid < n" using step.prems(1) by blast
    have eq: "pp_loop p xs base sz =
        pp_loop p xs (if p (xs ! ?mid) then ?mid else base) (sz - ?half)"
      using True by (simp add: pp_loop.simps [of p xs base sz] Let_def)
    show ?thesis
      unfolding eq
      by (rule step.IH [OF True refl refl])
        (use step.prems half mid in \<open>auto split: if_splits\<close>)
  qed
qed

lemma partition_point_eq:
  assumes "partitioned p xs"
  shows "partition_point p xs = length (takeWhile p xs)"
proof (cases "xs = []")
  case True
  then show ?thesis by (simp add: partition_point_def)
next
  case False
  let ?n = "length (takeWhile p xs)"
  let ?b = "pp_loop p xs 0 (length xs)"
  have all: "\<forall>i < length xs. p (xs ! i) \<longleftrightarrow> i < ?n"
    using assms partitioned_nth_iff by blast
  have b: "?b < length xs \<and> (?b = 0 \<or> ?b < ?n) \<and> ?n \<le> ?b + 1"
    by (rule pp_loop_bracket [OF all]) (use False length_takeWhile_le in auto)
  with all False show ?thesis by (auto simp: partition_point_def Let_def)
qed

subsection \<open>Slices\<close>

text \<open>\<^verbatim>\<open>&xs[i..j]\<close> panics unless the bounds are ordered and inside the slice.\<close>

definition slice :: "'a list \<Rightarrow> nat \<Rightarrow> nat \<Rightarrow> 'a list result" where
  "slice xs i j =
     (if i \<le> j \<and> j \<le> length xs then Inr (take (j - i) (drop i xs))
      else Inl (Panic ''slice index out of range''))"

text \<open>\<^verbatim>\<open>Vec::get\<close> and \<^verbatim>\<open>Vec::insert\<close> (which panics past the end; every call of the engine is in range).\<close>

definition vec_get :: "'a list \<Rightarrow> nat \<Rightarrow> 'a option" where
  "vec_get xs i = (if i < length xs then Some (xs ! i) else None)"

definition vec_insert :: "nat \<Rightarrow> 'a \<Rightarrow> 'a list \<Rightarrow> 'a list" where
  "vec_insert i x xs = take i xs @ x # drop i xs"

lemma vec_get_takeWhile:
  "vec_get xs (length (takeWhile (\<lambda>x. \<not> p x) xs)) = find p xs"
  unfolding vec_get_def by (induction xs) auto

lemma vec_insert_takeWhile:
  "vec_insert (length (takeWhile p xs)) x xs = takeWhile p xs @ x # dropWhile p xs"
  by (simp add: vec_insert_def takeWhile_eq_take [symmetric] dropWhile_eq_drop [symmetric])

lemma find_take_Suc:
  assumes "n = length (takeWhile (\<lambda>x. \<not> q x) xs)" and "\<And>x. q x \<Longrightarrow> p x"
  shows "find p (take (Suc n) xs) = find p xs"
  using assms(1)
proof (induction xs arbitrary: n)
  case (Cons x xs)
  show ?case
  proof (cases "q x")
    case True
    with Cons.prems assms(2) show ?thesis by simp
  next
    case False
    with Cons.prems have n: "n = Suc (length (takeWhile (\<lambda>x. \<not> q x) xs))" by simp
    from Cons.IH [OF refl] show ?thesis by (simp add: n)
  qed
qed simp

subsection \<open>Little-endian bytes\<close>

fun le_bytes :: "nat \<Rightarrow> nat \<Rightarrow> bytes" where
  "le_bytes 0 x = []"
| "le_bytes (Suc n) x = word_of_nat (x mod 256) # le_bytes n (x div 256)"

fun of_le_bytes :: "bytes \<Rightarrow> nat" where
  "of_le_bytes [] = 0"
| "of_le_bytes (b # bs) = unat b + 256 * of_le_bytes bs"

definition u32_le :: "u32 \<Rightarrow> bytes" where
  "u32_le x = le_bytes 4 (unat x)"

definition u64_le :: "u64 \<Rightarrow> bytes" where
  "u64_le x = le_bytes 8 (unat x)"

lemma length_le_bytes [simp]: "length (le_bytes n x) = n"
  by (induction n arbitrary: x) auto

lemma length_u32_le [simp]: "length (u32_le x) = 4"
  by (simp add: u32_le_def)

lemma length_u64_le [simp]: "length (u64_le x) = 8"
  by (simp add: u64_le_def)

lemma of_le_bytes_le_bytes: "of_le_bytes (le_bytes n x) = x mod 256 ^ n"
proof (induction n arbitrary: x)
  case 0
  then show ?case by simp
next
  case (Suc n)
  have "unat (word_of_nat (x mod 256) :: byte) = x mod 256"
    by (simp add: unat_of_nat)
  with Suc show ?case by (simp add: mod_mult2_eq mult.commute)
qed

lemma of_le_bytes_u32 [simp]: "word_of_nat (of_le_bytes (u32_le x)) = x"
  using unsigned_less [of x, where ?'a = nat] by (simp add: u32_le_def of_le_bytes_le_bytes)

lemma of_le_bytes_u64 [simp]: "word_of_nat (of_le_bytes (u64_le x)) = x"
  using unsigned_less [of x, where ?'a = nat] by (simp add: u64_le_def of_le_bytes_le_bytes)

subsection \<open>Reading from a byte stream\<close>

text \<open>
  \<^verbatim>\<open>Read::read_exact\<close> and the \<^verbatim>\<open>byteorder\<close> readers built on it: a short stream is
  \<^verbatim>\<open>ErrorKind::UnexpectedEof\<close>.
\<close>

definition read_exact :: "nat \<Rightarrow> bytes \<Rightarrow> (bytes \<times> bytes) result" where
  "read_exact n bs =
     (if n \<le> length bs then Inr (take n bs, drop n bs) else Inl (Err (Io UnexpectedEof)))"

definition read_u8 :: "bytes \<Rightarrow> (byte \<times> bytes) result" where
  "read_u8 bs = try_bind (read_exact 1 bs) (\<lambda>(b, rest). Inr (hd b, rest))"

definition read_u32 :: "bytes \<Rightarrow> (u32 \<times> bytes) result" where
  "read_u32 bs = try_bind (read_exact 4 bs) (\<lambda>(b, rest). Inr (word_of_nat (of_le_bytes b), rest))"

definition read_u64 :: "bytes \<Rightarrow> (u64 \<times> bytes) result" where
  "read_u64 bs = try_bind (read_exact 8 bs) (\<lambda>(b, rest). Inr (word_of_nat (of_le_bytes b), rest))"

lemma read_exact_append: "length xs = n \<Longrightarrow> read_exact n (xs @ ys) = Inr (xs, ys)"
  by (auto simp: read_exact_def)

lemma read_u8_Cons [simp]: "read_u8 (b # bs) = Inr (b, bs)"
  by (simp add: read_u8_def read_exact_def)

lemma read_u32_append [simp]: "read_u32 (u32_le x @ bs) = Inr (x, bs)"
  by (simp add: read_u32_def read_exact_append)

lemma read_u64_append [simp]: "read_u64 (u64_le x @ bs) = Inr (x, bs)"
  by (simp add: read_u64_def read_exact_append)

lemma read_u32_short: "length bs < 4 \<Longrightarrow> read_u32 bs = Inl (Err (Io UnexpectedEof))"
  by (simp add: read_u32_def read_exact_def)

subsection \<open>Concurrent maps\<close>

text \<open>
  A \<^verbatim>\<open>DashMap\<close> is an association list with distinct keys; its order stands for the map's
  iteration order, which the library leaves unspecified.  Operations on one key are atomic.
\<close>

type_synonym ('k, 'v) dashmap = "('k \<times> 'v) list"

definition dm_wf :: "('k, 'v) dashmap \<Rightarrow> bool" where
  "dm_wf m \<longleftrightarrow> distinct (map fst m)"

definition dm_insert :: "'k \<Rightarrow> 'v \<Rightarrow> ('k, 'v) dashmap \<Rightarrow> ('k, 'v) dashmap" where
  "dm_insert k v m = AList.update k v m"

definition dm_remove :: "'k \<Rightarrow> ('k, 'v) dashmap \<Rightarrow> ('k, 'v) dashmap" where
  "dm_remove k m = AList.delete k m"

text \<open>\<^verbatim>\<open>get_mut\<close> followed by an update of the value in place.\<close>

definition dm_alter :: "'k \<Rightarrow> ('v \<Rightarrow> 'v) \<Rightarrow> ('k, 'v) dashmap \<Rightarrow> ('k, 'v) dashmap" where
  "dm_alter k f m = map (\<lambda>(k', v). (k', if k' = k then f v else v)) m"

text \<open>\<^verbatim>\<open>iter_mut\<close> with an update of every value.\<close>

definition dm_map :: "('v \<Rightarrow> 'v) \<Rightarrow> ('k, 'v) dashmap \<Rightarrow> ('k, 'v) dashmap" where
  "dm_map f m = map (\<lambda>(k, v). (k, f v)) m"

text \<open>\<^verbatim>\<open>retain\<close>.\<close>

definition dm_retain :: "('v \<Rightarrow> bool) \<Rightarrow> ('k, 'v) dashmap \<Rightarrow> ('k, 'v) dashmap" where
  "dm_retain p m = filter (\<lambda>(k, v). p v) m"

lemma map_of_dm_insert [simp, dash_simps]: "map_of (dm_insert k v m) = (map_of m)(k \<mapsto> v)"
  by (simp add: dm_insert_def update_conv')

lemma map_of_dm_remove [simp, dash_simps]: "map_of (dm_remove k m) = (map_of m)(k := None)"
  by (simp add: dm_remove_def delete_conv')

lemma map_of_dm_alter [simp, dash_simps]:
  "map_of (dm_alter k f m) = (map_of m)(k := map_option f (map_of m k))"
  unfolding dm_alter_def by (induction m) (auto simp: fun_eq_iff)

lemma map_of_dm_map [simp, dash_simps]: "map_of (dm_map f m) k = map_option f (map_of m k)"
  unfolding dm_map_def by (induction m) auto

lemma map_of_dm_retain [dash_simps]:
  "dm_wf m \<Longrightarrow> map_of (dm_retain p m) k = (case map_of m k of Some v \<Rightarrow> (if p v then Some v else None) | None \<Rightarrow> None)"
  unfolding dm_wf_def dm_retain_def
proof (induction m)
  case (Cons a m)
  obtain k0 v0 where a: "a = (k0, v0)" by fastforce
  have "map_of m k0 = None" using Cons.prems a by (simp add: map_of_eq_None_iff)
  with Cons a show ?case by (auto split: option.splits)
qed simp

lemma keys_dm_alter [simp]: "map fst (dm_alter k f m) = map fst m"
  by (auto simp: dm_alter_def)

lemma keys_dm_map [simp]: "map fst (dm_map f m) = map fst m"
  by (auto simp: dm_map_def)

lemma set_keys_dm_insert [simp]: "fst ` set (dm_insert k v m) = insert k (fst ` set m)"
  by (simp add: dm_insert_def dom_update)

lemma set_keys_dm_remove [simp]: "fst ` set (dm_remove k m) = fst ` set m - {k}"
proof -
  have "set (map fst (AList.delete k m)) = set (map fst m) - {k}"
    by (simp only: delete_keys set_removeAll)
  then show ?thesis by (simp add: dm_remove_def)
qed

lemma dm_wf_Nil [simp, wf_intros]: "dm_wf []"
  by (simp add: dm_wf_def)

lemma dm_wf_insert [wf_intros]: "dm_wf m \<Longrightarrow> dm_wf (dm_insert k v m)"
  by (simp add: dm_wf_def dm_insert_def distinct_update)

lemma dm_wf_remove [wf_intros]: "dm_wf m \<Longrightarrow> dm_wf (dm_remove k m)"
  by (simp add: dm_wf_def dm_remove_def distinct_delete)

lemma dm_wf_alter [simp]: "dm_wf (dm_alter k f m) \<longleftrightarrow> dm_wf m"
  by (simp add: dm_wf_def)

lemma dm_wf_map [simp]: "dm_wf (dm_map f m) \<longleftrightarrow> dm_wf m"
  by (simp add: dm_wf_def)

lemma dm_wf_retain [wf_intros]: "dm_wf m \<Longrightarrow> dm_wf (dm_retain p m)"
  by (simp add: dm_wf_def dm_retain_def distinct_map_filter)

lemma dm_in_set_iff: "dm_wf m \<Longrightarrow> (k, v) \<in> set m \<longleftrightarrow> map_of m k = Some v"
  by (simp add: dm_wf_def)

end
