(* ===== verification/Ssi_Bloom.thy ===== *)
theory Ssi_Bloom
  imports Prelude
begin

text \<open>
  \<^verbatim>\<open>SsiBloomFilter\<close> of \<^verbatim>\<open>sochdb-storage/src/durable_storage.rs\<close>: the lazily allocated Bloom filter that
  serializable validation consults before it compares key sets.  The two hash functions
  (\<^verbatim>\<open>DefaultHasher\<close>, whose algorithm the standard library leaves unspecified, and the crate
  \<^verbatim>\<open>twox_hash\<close>) are a parameter \<open>H\<close>.  The contract of a filter without false negatives is the locale
  \<open>approximate_set\<close>, interpreted on the filter.
\<close>

unbundle bit_operations_syntax

record hashers =
  hash1 :: "key \<Rightarrow> u64"
  hash2 :: "key \<Rightarrow> u64"

record SsiBloomFilter =
  bf_bits :: "u64 list option"
  bf_expected_capacity :: nat
  bf_num_hashes :: nat

definition DEFAULT_NUM_HASHES :: nat where
  "DEFAULT_NUM_HASHES = 7"

definition MIN_CAPACITY :: nat where
  "MIN_CAPACITY = 64"

definition bf_new :: "nat \<Rightarrow> SsiBloomFilter" where
  "bf_new expected_items =
     \<lparr>bf_bits = None, bf_expected_capacity = max expected_items MIN_CAPACITY,
      bf_num_hashes = DEFAULT_NUM_HASHES\<rparr>"

definition bf_with_word_capacity :: "nat \<Rightarrow> SsiBloomFilter" where
  "bf_with_word_capacity words =
     \<lparr>bf_bits = None, bf_expected_capacity = max words 1 * 64 div 10,
      bf_num_hashes = DEFAULT_NUM_HASHES\<rparr>"

text \<open>
  The number of words of a filter: the ceiling of \<open>capacity * 9.6\<close> bits, in words of 64 bits.  The
  source computes the product in \<^verbatim>\<open>f64\<close>; for capacities below \<open>2^48\<close> rounding to nearest gives the
  exact ceiling \<open>(96 * capacity + 9) div 10\<close> (the error of the constant 9.6 is below half a unit in
  the last place of the product).
\<close>

definition bf_num_words :: "nat \<Rightarrow> nat" where
  "bf_num_words capacity = (let num_bits = (96 * capacity + 9) div 10 in (num_bits + 63) div 64)"

definition bf_ensure_allocated :: "SsiBloomFilter \<Rightarrow> SsiBloomFilter" where
  "bf_ensure_allocated f =
     (case bf_bits f of
        None \<Rightarrow> f\<lparr>bf_bits := Some (replicate (bf_num_words (bf_expected_capacity f)) 0)\<rparr>
      | Some _ \<Rightarrow> f)"

text \<open>Double hashing: the \<open>i\<close>-th probe is \<open>h1 + i * h2\<close> with wrapping arithmetic, modulo the number of bits.\<close>

definition bf_probes :: "hashers \<Rightarrow> nat \<Rightarrow> nat \<Rightarrow> key \<Rightarrow> nat list" where
  "bf_probes H num_hashes num_bits k =
     map (\<lambda>i. unat (hash1 H k + word_of_nat i * hash2 H k) mod num_bits) [0..<num_hashes]"

definition bf_set_bit :: "nat \<Rightarrow> u64 list \<Rightarrow> u64 list" where
  "bf_set_bit bit_idx bits =
     bits[bit_idx div 64 := (bits ! (bit_idx div 64)) OR push_bit (bit_idx mod 64) 1]"

definition bf_test_bit :: "u64 list \<Rightarrow> nat \<Rightarrow> bool" where
  "bf_test_bit bits bit_idx \<longleftrightarrow> (bits ! (bit_idx div 64)) AND push_bit (bit_idx mod 64) 1 \<noteq> 0"

definition bf_insert :: "hashers \<Rightarrow> key \<Rightarrow> SsiBloomFilter \<Rightarrow> SsiBloomFilter" where
  "bf_insert H k f =
     (let f' = bf_ensure_allocated f
      in case bf_bits f' of
           None \<Rightarrow> f'
         | Some bits \<Rightarrow>
             (let num_bits = length bits * 64
              in if num_bits = 0 then f'
                 else f'\<lparr>bf_bits := Some (fold bf_set_bit (bf_probes H (bf_num_hashes f') num_bits k) bits)\<rparr>))"

definition bf_may_contain :: "hashers \<Rightarrow> SsiBloomFilter \<Rightarrow> key \<Rightarrow> bool" where
  "bf_may_contain H f k =
     (case bf_bits f of
        None \<Rightarrow> False
      | Some bits \<Rightarrow>
          (let num_bits = length bits * 64
           in if num_bits = 0 then False
              else list_all (bf_test_bit bits) (bf_probes H (bf_num_hashes f) num_bits k)))"

definition bf_may_intersect :: "SsiBloomFilter \<Rightarrow> SsiBloomFilter \<Rightarrow> bool" where
  "bf_may_intersect f g =
     (case (bf_bits f, bf_bits g) of
        (Some xs, Some ys) \<Rightarrow> list_ex (\<lambda>(x, y). x AND y \<noteq> 0) (zip xs ys)
      | _ \<Rightarrow> False)"

text \<open>\<open>struct_size\<close> is \<^verbatim>\<open>size_of::<SsiBloomFilter>()\<close>.\<close>

definition bf_size_bytes :: "nat \<Rightarrow> SsiBloomFilter \<Rightarrow> nat" where
  "bf_size_bytes struct_size f =
     (case bf_bits f of Some bits \<Rightarrow> length bits * 8 | None \<Rightarrow> 0) + struct_size"

definition bf_is_empty :: "SsiBloomFilter \<Rightarrow> bool" where
  "bf_is_empty f = (case bf_bits f of Some bits \<Rightarrow> list_all (\<lambda>w. w = 0) bits | None \<Rightarrow> True)"

subsection \<open>The contract of an approximate set\<close>

text \<open>
  \<open>covers f S\<close>: every element of \<open>S\<close> was inserted into \<open>f\<close>.  A filter may report more than \<open>S\<close>, never
  less; two filters of the same shape that cover a common element report an intersection.
\<close>

locale approximate_set =
  fixes ins :: "'k \<Rightarrow> 'f \<Rightarrow> 'f"
    and mem :: "'f \<Rightarrow> 'k \<Rightarrow> bool"
    and meet :: "'f \<Rightarrow> 'f \<Rightarrow> bool"
    and covers :: "'f \<Rightarrow> 'k set \<Rightarrow> bool"
  assumes covers_insert: "covers f S \<Longrightarrow> covers (ins k f) (insert k S)"
    and mem_covered: "covers f S \<Longrightarrow> k \<in> S \<Longrightarrow> mem f k"
    and meet_covered: "covers f S \<Longrightarrow> covers g T \<Longrightarrow> k \<in> S \<Longrightarrow> k \<in> T \<Longrightarrow> meet f g"
begin

text \<open>Filtering an exact membership test through the filter changes nothing.\<close>

lemma prefiltered_test:
  "covers f S \<Longrightarrow> (\<exists>k \<in> set ks. mem f k \<and> k \<in> S) \<longleftrightarrow> (\<exists>k \<in> set ks. k \<in> S)"
  using mem_covered by blast

lemma disjoint_if_no_meet: "covers f S \<Longrightarrow> covers g T \<Longrightarrow> \<not> meet f g \<Longrightarrow> S \<inter> T = {}"
  using meet_covered by blast

lemma covers_inserts: "covers f S \<Longrightarrow> covers (fold ins ks f) (set ks \<union> S)"
proof (induction ks arbitrary: f S)
  case (Cons k ks)
  then show ?case using Cons.IH [OF covers_insert [OF Cons.prems, of k]] by simp
qed simp

end

subsection \<open>The filter meets the contract\<close>

lemma bf_test_bit_iff: "bf_test_bit bits p \<longleftrightarrow> bit (bits ! (p div 64)) (p mod 64)"
  by (simp add: bf_test_bit_def push_bit_eq_mult and_exp_eq_0_iff_not_bit)

lemma length_bf_set_bit [simp]: "length (bf_set_bit p bits) = length bits"
  by (simp add: bf_set_bit_def)

lemma length_fold_bf_set_bit [simp]: "length (fold bf_set_bit ps bits) = length bits"
  by (induction ps arbitrary: bits) simp_all

lemma bf_test_set_bit:
  assumes "p < length bits * 64"
  shows "bf_test_bit (bf_set_bit p bits) q \<longleftrightarrow> q = p \<or> bf_test_bit bits q"
proof -
  have "p div 64 < length bits" using assms by (simp add: less_mult_imp_div_less)
  moreover have "bit (push_bit (p mod 64) 1 :: u64) (q mod 64) \<longleftrightarrow> p mod 64 = q mod 64"
    by (auto simp: bit_simps)
  moreover have "q = p \<longleftrightarrow> q div 64 = p div 64 \<and> q mod 64 = p mod 64"
    by (metis div_mult_mod_eq)
  ultimately show ?thesis
    by (auto simp: bf_test_bit_iff bf_set_bit_def bit_or_iff nth_list_update)
qed

lemma bf_test_fold_set_bit:
  assumes "\<forall>p \<in> set ps. p < length bits * 64"
  shows "bf_test_bit (fold bf_set_bit ps bits) q \<longleftrightarrow> q \<in> set ps \<or> bf_test_bit bits q"
  using assms
proof (induction ps arbitrary: bits)
  case (Cons p ps)
  then show ?case by (auto simp: bf_test_set_bit)
qed simp

lemma bf_probes_bound: "0 < n \<Longrightarrow> p \<in> set (bf_probes H h n k) \<Longrightarrow> p < n"
  by (auto simp: bf_probes_def)

lemma bf_num_words_pos: "0 < c \<Longrightarrow> 0 < bf_num_words c"
  by (simp add: bf_num_words_def Let_def)

text \<open>
  The filters of one shape (the capacity every transaction uses, seven probes) that have all keys of
  \<open>S\<close> set.
\<close>

definition bf_covers :: "hashers \<Rightarrow> SsiBloomFilter \<Rightarrow> key set \<Rightarrow> bool" where
  "bf_covers H f S \<longleftrightarrow>
     bf_num_hashes f = DEFAULT_NUM_HASHES \<and> bf_expected_capacity f = MIN_CAPACITY \<and>
     (\<forall>bits. bf_bits f = Some bits \<longrightarrow> length bits = bf_num_words MIN_CAPACITY) \<and>
     (S \<noteq> {} \<longrightarrow> (\<exists>bits. bf_bits f = Some bits \<and>
        (\<forall>k \<in> S. \<forall>p \<in> set (bf_probes H DEFAULT_NUM_HASHES (length bits * 64) k). bf_test_bit bits p)))"

lemma bf_covers_new: "n \<le> MIN_CAPACITY \<Longrightarrow> bf_covers H (bf_new n) {}"
  by (simp add: bf_covers_def bf_new_def)

lemma bf_covers_insert:
  assumes "bf_covers H f S"
  shows "bf_covers H (bf_insert H k f) (insert k S)"
proof -
  define bits where "bits = (case bf_bits f of None \<Rightarrow> replicate (bf_num_words MIN_CAPACITY) 0 | Some b \<Rightarrow> b)"
  have len: "length bits = bf_num_words MIN_CAPACITY" and pos: "0 < length bits * 64"
    using assms bf_num_words_pos [of MIN_CAPACITY]
    by (auto simp: bits_def bf_covers_def MIN_CAPACITY_def split: option.split)
  let ?n = "bf_num_words MIN_CAPACITY * 64"
  let ?ps = "bf_probes H DEFAULT_NUM_HASHES ?n k"
  have ins: "bf_insert H k f = f\<lparr>bf_bits := Some (fold bf_set_bit ?ps bits)\<rparr>"
    using assms pos len
    by (cases "bf_bits f")
      (auto simp: bf_insert_def bf_ensure_allocated_def bits_def bf_covers_def Let_def)
  have bound: "\<forall>p \<in> set ?ps. p < length bits * 64"
    using bf_probes_bound pos len by auto
  have "\<forall>k' \<in> S. \<forall>p \<in> set (bf_probes H DEFAULT_NUM_HASHES ?n k'). bf_test_bit bits p"
    using assms by (auto simp: bf_covers_def bits_def split: option.split)
  then show ?thesis
    using assms len by (auto simp: bf_covers_def ins bf_test_fold_set_bit [OF bound])
qed

lemma bf_may_contain_covered:
  assumes "bf_covers H f S" "k \<in> S"
  shows "bf_may_contain H f k"
  using assms bf_num_words_pos [of MIN_CAPACITY]
  by (auto simp: bf_covers_def bf_may_contain_def Let_def list_all_iff MIN_CAPACITY_def)

lemma bf_may_intersect_common_bit:
  assumes "bf_bits f = Some xs" "bf_bits g = Some ys" "length xs = length ys"
    and "p < length xs * 64" "bf_test_bit xs p" "bf_test_bit ys p"
  shows "bf_may_intersect f g"
proof -
  let ?i = "p div 64"
  have i: "?i < length xs" using assms(4) by (simp add: less_mult_imp_div_less)
  have "bit (xs ! ?i AND ys ! ?i) (p mod 64)"
    using assms(5,6) by (simp add: bf_test_bit_iff bit_and_iff)
  then have "xs ! ?i AND ys ! ?i \<noteq> 0" by auto
  moreover have "(xs ! ?i, ys ! ?i) \<in> set (zip xs ys)"
    using i assms(3) by (auto simp: set_zip)
  ultimately show ?thesis
    using assms(1,2) by (force simp: bf_may_intersect_def list_ex_iff)
qed

lemma bf_may_intersect_covered:
  assumes "bf_covers H f S" "bf_covers H g T" "k \<in> S" "k \<in> T"
  shows "bf_may_intersect f g"
proof -
  obtain xs where xs: "bf_bits f = Some xs" "length xs = bf_num_words MIN_CAPACITY"
    "\<forall>p \<in> set (bf_probes H DEFAULT_NUM_HASHES (length xs * 64) k). bf_test_bit xs p"
    using assms(1,3) by (auto simp: bf_covers_def)
  obtain ys where ys: "bf_bits g = Some ys" "length ys = bf_num_words MIN_CAPACITY"
    "\<forall>p \<in> set (bf_probes H DEFAULT_NUM_HASHES (length ys * 64) k). bf_test_bit ys p"
    using assms(2,4) by (auto simp: bf_covers_def)
  have pos: "0 < length xs * 64" using xs(2) bf_num_words_pos [of MIN_CAPACITY] by (simp add: MIN_CAPACITY_def)
  define p where "p = hd (bf_probes H DEFAULT_NUM_HASHES (length xs * 64) k)"
  have p: "p \<in> set (bf_probes H DEFAULT_NUM_HASHES (length xs * 64) k)"
    by (simp add: p_def bf_probes_def DEFAULT_NUM_HASHES_def upt_rec)
  show ?thesis
    by (rule bf_may_intersect_common_bit [OF xs(1) ys(1)])
      (use p xs ys bf_probes_bound [OF pos p] in auto)
qed

interpretation bloom: approximate_set "bf_insert H" "bf_may_contain H" bf_may_intersect "bf_covers H"
  for H
  by unfold_locales (rule bf_covers_insert bf_may_contain_covered bf_may_intersect_covered; assumption)+

end
