(* ===== verification/Mvcc_Manager.thy ===== *)
theory Mvcc_Manager
  imports Ssi_Bloom
begin

text \<open>
  \<^verbatim>\<open>MvccTransaction\<close> and \<^verbatim>\<open>MvccManager\<close> of \<^verbatim>\<open>sochdb-storage/src/durable_storage.rs\<close>: snapshots, read and
  write tracking, serializable validation at commit and the garbage-collection watermark.  Hash sets
  of keys are lists without repetition.  Each method is one atomic step.
\<close>

datatype TxnState = Active | Committed | Aborted

datatype TransactionMode = ReadOnly | WriteOnly | ReadWrite

datatype ConflictType = CReadWrite | CWriteRead

record ConflictEdge =
  ce_from_txn :: u64
  ce_to_txn :: u64
  ce_conflict_type :: ConflictType

definition tracks_reads :: "TransactionMode \<Rightarrow> bool" where
  "tracks_reads mode = (case mode of ReadWrite \<Rightarrow> True | _ \<Rightarrow> False)"

definition tracks_writes :: "TransactionMode \<Rightarrow> bool" where
  "tracks_writes mode = (case mode of WriteOnly \<Rightarrow> True | ReadWrite \<Rightarrow> True | _ \<Rightarrow> False)"

definition needs_ssi_validation :: "TransactionMode \<Rightarrow> bool" where
  "needs_ssi_validation mode = (case mode of ReadWrite \<Rightarrow> True | _ \<Rightarrow> False)"

definition WRITE_SET_INITIAL_CAPACITY :: nat where
  "WRITE_SET_INITIAL_CAPACITY = 32"

definition READ_SET_INITIAL_CAPACITY :: nat where
  "READ_SET_INITIAL_CAPACITY = 64"

subsection \<open>Transactions\<close>

record MvccTransaction =
  mt_txn_id :: u64
  mt_snapshot_ts :: u64
  mt_write_set :: "key list"
  mt_read_set :: "key list"
  mt_write_bloom :: SsiBloomFilter
  mt_read_bloom :: SsiBloomFilter
  mt_state :: TxnState
  mt_mode :: TransactionMode

definition mt_with_capacity :: "u64 \<Rightarrow> u64 \<Rightarrow> nat \<Rightarrow> nat \<Rightarrow> TransactionMode \<Rightarrow> MvccTransaction" where
  "mt_with_capacity t snap write_capacity read_capacity mode =
     \<lparr>mt_txn_id = t, mt_snapshot_ts = snap, mt_write_set = [], mt_read_set = [],
      mt_write_bloom = bf_new (max write_capacity 1), mt_read_bloom = bf_new (max read_capacity 1),
      mt_state = Active, mt_mode = mode\<rparr>"

definition mt_with_mode :: "u64 \<Rightarrow> u64 \<Rightarrow> TransactionMode \<Rightarrow> MvccTransaction" where
  "mt_with_mode t snap mode =
     (case mode of
        ReadOnly \<Rightarrow> mt_with_capacity t snap 0 0 mode
      | WriteOnly \<Rightarrow> mt_with_capacity t snap WRITE_SET_INITIAL_CAPACITY 0 mode
      | ReadWrite \<Rightarrow> mt_with_capacity t snap WRITE_SET_INITIAL_CAPACITY READ_SET_INITIAL_CAPACITY mode)"

definition mt_new :: "u64 \<Rightarrow> u64 \<Rightarrow> MvccTransaction" where
  "mt_new t snap = mt_with_mode t snap ReadWrite"

definition mt_read_only :: "u64 \<Rightarrow> u64 \<Rightarrow> MvccTransaction" where
  "mt_read_only t snap = mt_with_mode t snap ReadOnly"

definition mt_write_only :: "u64 \<Rightarrow> u64 \<Rightarrow> MvccTransaction" where
  "mt_write_only t snap = mt_with_mode t snap WriteOnly"

definition mt_is_read_only :: "MvccTransaction \<Rightarrow> bool" where
  "mt_is_read_only txn \<longleftrightarrow> mt_write_set txn = []"

definition mt_is_single_key_write :: "MvccTransaction \<Rightarrow> bool" where
  "mt_is_single_key_write txn \<longleftrightarrow> length (mt_write_set txn) = 1 \<and> length (mt_read_set txn) \<le> 1"

subsection \<open>The manager\<close>

record CommitInfo =
  ci_commit_ts :: u64
  ci_read_bloom :: SsiBloomFilter
  ci_write_bloom :: SsiBloomFilter
  ci_read_set :: "key list"
  ci_write_set :: "key list"

record MvccManager =
  mm_active_txns :: "(u64, MvccTransaction) dashmap"
  mm_ts_counter :: u64
  mm_min_active_ts :: u64
  mm_recent_commits :: "(u64, CommitInfo) dashmap"
  mm_max_recent_commits :: nat

definition mm_new :: MvccManager where
  "mm_new =
     \<lparr>mm_active_txns = [], mm_ts_counter = 1, mm_min_active_ts = 0, mm_recent_commits = [],
      mm_max_recent_commits = 1000\<rparr>"

definition mm_update_min_active_ts :: "MvccManager \<Rightarrow> MvccManager" where
  "mm_update_min_active_ts m =
     m\<lparr>mm_min_active_ts :=
        (case map (\<lambda>(t, txn). mt_snapshot_ts txn) (mm_active_txns m) of
           [] \<Rightarrow> mm_ts_counter m
         | x # xs \<Rightarrow> fold min xs x)\<rparr>"

definition mm_begin_with_mode :: "u64 \<Rightarrow> TransactionMode \<Rightarrow> MvccManager \<Rightarrow> MvccManager \<times> MvccTransaction" where
  "mm_begin_with_mode t mode m =
     (let txn = mt_with_mode t (mm_ts_counter m) mode
      in (mm_update_min_active_ts (m\<lparr>mm_active_txns := dm_insert t txn (mm_active_txns m)\<rparr>), txn))"

definition mm_begin :: "u64 \<Rightarrow> MvccManager \<Rightarrow> MvccManager \<times> MvccTransaction" where
  "mm_begin t m = mm_begin_with_mode t ReadWrite m"

definition mm_begin_read_only :: "u64 \<Rightarrow> MvccManager \<Rightarrow> MvccManager \<times> MvccTransaction" where
  "mm_begin_read_only t m = mm_begin_with_mode t ReadOnly m"

definition mm_begin_write_only :: "u64 \<Rightarrow> MvccManager \<Rightarrow> MvccManager \<times> MvccTransaction" where
  "mm_begin_write_only t m = mm_begin_with_mode t WriteOnly m"

definition mm_get :: "u64 \<Rightarrow> MvccManager \<Rightarrow> MvccTransaction option" where
  "mm_get t m = map_of (mm_active_txns m) t"

definition mm_get_snapshot_ts :: "u64 \<Rightarrow> MvccManager \<Rightarrow> u64 option" where
  "mm_get_snapshot_ts t m = map_option mt_snapshot_ts (map_of (mm_active_txns m) t)"

definition mt_record_read :: "hashers \<Rightarrow> key \<Rightarrow> MvccTransaction \<Rightarrow> MvccTransaction" where
  "mt_record_read H k txn =
     (if \<not> tracks_reads (mt_mode txn) then txn
      else if length (mt_read_set txn) < 10000
      then txn\<lparr>mt_read_set := List.insert k (mt_read_set txn),
               mt_read_bloom := bf_insert H k (mt_read_bloom txn)\<rparr>
      else txn)"

definition mm_record_read :: "hashers \<Rightarrow> u64 \<Rightarrow> key \<Rightarrow> MvccManager \<Rightarrow> MvccManager" where
  "mm_record_read H t k m =
     m\<lparr>mm_active_txns := dm_alter t (mt_record_read H k) (mm_active_txns m)\<rparr>"

definition mt_record_write :: "hashers \<Rightarrow> key \<Rightarrow> MvccTransaction \<Rightarrow> MvccTransaction" where
  "mt_record_write H k txn =
     txn\<lparr>mt_write_set := List.insert k (mt_write_set txn),
         mt_write_bloom := bf_insert H k (mt_write_bloom txn)\<rparr>"

definition mm_record_write :: "hashers \<Rightarrow> u64 \<Rightarrow> key \<Rightarrow> MvccManager \<Rightarrow> MvccManager" where
  "mm_record_write H t k m =
     m\<lparr>mm_active_txns := dm_alter t (mt_record_write H k) (mm_active_txns m)\<rparr>"

text \<open>\<^verbatim>\<open>fetch_add\<close> on an atomic counter wraps around and returns the old value.\<close>

definition mm_alloc_commit_ts :: "MvccManager \<Rightarrow> MvccManager \<times> u64" where
  "mm_alloc_commit_ts m = (m\<lparr>mm_ts_counter := mm_ts_counter m + 1\<rparr>, mm_ts_counter m)"

text \<open>
  Serializable validation: four fast paths, then the search for a transaction that has both an
  inbound and an outbound read-write edge.
\<close>

definition ssi_may_conflict :: "MvccTransaction \<Rightarrow> CommitInfo \<Rightarrow> bool" where
  "ssi_may_conflict txn other \<longleftrightarrow>
     \<not> ci_commit_ts other < mt_snapshot_ts txn \<and>
     (bf_may_intersect (mt_write_bloom txn) (ci_read_bloom other) \<or>
      bf_may_intersect (ci_write_bloom other) (mt_read_bloom txn))"

definition ssi_in_conflict :: "hashers \<Rightarrow> MvccTransaction \<Rightarrow> CommitInfo \<Rightarrow> bool" where
  "ssi_in_conflict H txn other \<longleftrightarrow>
     \<not> ci_commit_ts other < mt_snapshot_ts txn \<and>
     list_ex (\<lambda>k. bf_may_contain H (ci_write_bloom other) k \<and> k \<in> set (ci_write_set other))
       (mt_read_set txn)"

definition ssi_out_conflict :: "hashers \<Rightarrow> MvccTransaction \<Rightarrow> CommitInfo \<Rightarrow> bool" where
  "ssi_out_conflict H txn other \<longleftrightarrow>
     \<not> ci_commit_ts other < mt_snapshot_ts txn \<and>
     list_ex (\<lambda>k. bf_may_contain H (mt_write_bloom txn) k \<and> k \<in> set (mt_write_set txn))
       (ci_read_set other)"

definition mm_validate_ssi :: "hashers \<Rightarrow> MvccTransaction \<Rightarrow> MvccManager \<Rightarrow> bool" where
  "mm_validate_ssi H txn m =
     (if mt_write_set txn = [] then True
      else if mm_recent_commits m = [] then True
      else if length (mt_write_set txn) = 1 \<and> length (mt_read_set txn) \<le> 1 then True
      else if \<not> list_ex (\<lambda>(t, other). ssi_may_conflict txn other) (mm_recent_commits m) then True
      else let in_conflict_with = map fst (filter (\<lambda>(t, other). ssi_in_conflict H txn other) (mm_recent_commits m));
               out_conflict_to = map fst (filter (\<lambda>(t, other). ssi_out_conflict H txn other) (mm_recent_commits m))
           in if in_conflict_with \<noteq> [] \<and> out_conflict_to \<noteq> [] then False else True)"

definition mm_track_commit_owned ::
    "u64 \<Rightarrow> u64 \<Rightarrow> SsiBloomFilter \<Rightarrow> SsiBloomFilter \<Rightarrow> key list \<Rightarrow> key list \<Rightarrow> MvccManager \<Rightarrow> MvccManager" where
  "mm_track_commit_owned t cts rb wb rs ws m =
     (if rs = [] \<or> ws = [] then m
      else let m' = m\<lparr>mm_recent_commits :=
                 dm_insert t \<lparr>ci_commit_ts = cts, ci_read_bloom = rb, ci_write_bloom = wb,
                              ci_read_set = rs, ci_write_set = ws\<rparr> (mm_recent_commits m)\<rparr>
           in if length (mm_recent_commits m') > mm_max_recent_commits m' * 2
              then m'\<lparr>mm_recent_commits :=
                       dm_retain (\<lambda>ci. ci_commit_ts ci \<ge> mm_min_active_ts m') (mm_recent_commits m')\<rparr>
              else m')"

definition mm_commit :: "hashers \<Rightarrow> u64 \<Rightarrow> MvccManager \<Rightarrow> MvccManager \<times> (u64 \<times> key list) option" where
  "mm_commit H t m =
     (case map_of (mm_active_txns m) t of
        None \<Rightarrow> (m, None)
      | Some txn \<Rightarrow>
          (if (mt_mode txn \<noteq> ReadWrite \<or> \<not> mm_validate_ssi H txn m) \<and>
              (mt_mode txn = ReadWrite \<and> \<not> mm_validate_ssi H txn m)
           then (mm_update_min_active_ts (m\<lparr>mm_active_txns := dm_remove t (mm_active_txns m)\<rparr>), None)
           else
             let (m1, cts) = mm_alloc_commit_ts m;
                 m2 = m1\<lparr>mm_active_txns := dm_remove t (mm_active_txns m1)\<rparr>;
                 needs_ssi_tracking =
                   (mt_mode txn = ReadWrite \<and> mt_read_set txn \<noteq> [] \<and> mt_write_set txn \<noteq> []);
                 m3 = (if needs_ssi_tracking
                       then mm_track_commit_owned t cts (mt_read_bloom txn) (mt_write_bloom txn)
                              (mt_read_set txn) (mt_write_set txn) m2
                       else m2)
             in (mm_update_min_active_ts m3, Some (cts, mt_write_set txn))))"

definition mm_abort :: "u64 \<Rightarrow> MvccManager \<Rightarrow> MvccManager" where
  "mm_abort t m = mm_update_min_active_ts (m\<lparr>mm_active_txns := dm_remove t (mm_active_txns m)\<rparr>)"

definition mm_min_active_snapshot :: "MvccManager \<Rightarrow> u64" where
  "mm_min_active_snapshot m = mm_min_active_ts m"

definition mm_active_transaction_count :: "MvccManager \<Rightarrow> nat" where
  "mm_active_transaction_count m = length (mm_active_txns m)"

subsection \<open>The manager as a state machine\<close>

datatype mvcc_op =
    MBegin u64 TransactionMode
  | MRead u64 key
  | MWrite u64 key
  | MAlloc
  | MCommit u64
  | MAbort u64

fun mvcc_step :: "hashers \<Rightarrow> mvcc_op \<Rightarrow> MvccManager \<Rightarrow> MvccManager" where
  "mvcc_step H (MBegin t mode) m = fst (mm_begin_with_mode t mode m)"
| "mvcc_step H (MRead t k) m = mm_record_read H t k m"
| "mvcc_step H (MWrite t k) m = mm_record_write H t k m"
| "mvcc_step H MAlloc m = fst (mm_alloc_commit_ts m)"
| "mvcc_step H (MCommit t) m = fst (mm_commit H t m)"
| "mvcc_step H (MAbort t) m = mm_abort t m"

text \<open>
  Reachable managers, as long as the timestamp counter has not reached its largest value (it is a
  64-bit counter that starts at 1 and grows by one per commit).
\<close>

inductive mvcc_reachable :: "hashers \<Rightarrow> MvccManager \<Rightarrow> bool" for H where
  start: "mvcc_reachable H mm_new"
| step: "mvcc_reachable H m \<Longrightarrow> mm_ts_counter m < - 1 \<Longrightarrow> mvcc_reachable H (mvcc_step H op m)"

subsection \<open>Invariant of the manager\<close>

definition mt_wf :: "hashers \<Rightarrow> u64 \<Rightarrow> u64 \<Rightarrow> MvccTransaction \<Rightarrow> bool" where
  "mt_wf H now t txn \<longleftrightarrow>
     mt_txn_id txn = t \<and> mt_snapshot_ts txn \<le> now \<and>
     distinct (mt_write_set txn) \<and> distinct (mt_read_set txn) \<and>
     bf_covers H (mt_write_bloom txn) (set (mt_write_set txn)) \<and>
     bf_covers H (mt_read_bloom txn) (set (mt_read_set txn))"

definition ci_wf :: "hashers \<Rightarrow> u64 \<Rightarrow> CommitInfo \<Rightarrow> bool" where
  "ci_wf H now ci \<longleftrightarrow>
     ci_commit_ts ci < now \<and>
     bf_covers H (ci_write_bloom ci) (set (ci_write_set ci)) \<and>
     bf_covers H (ci_read_bloom ci) (set (ci_read_set ci))"

definition mm_wf :: "hashers \<Rightarrow> MvccManager \<Rightarrow> bool" where
  "mm_wf H m \<longleftrightarrow>
     dm_wf (mm_active_txns m) \<and> dm_wf (mm_recent_commits m) \<and>
     (\<forall>t txn. map_of (mm_active_txns m) t = Some txn \<longrightarrow>
        mt_wf H (mm_ts_counter m) t txn \<and> mm_min_active_ts m \<le> mt_snapshot_ts txn) \<and>
     (\<forall>t ci. map_of (mm_recent_commits m) t = Some ci \<longrightarrow> ci_wf H (mm_ts_counter m) ci) \<and>
     mm_min_active_ts m \<le> mm_ts_counter m"

lemma u64_less_succ: "(x :: u64) < - 1 \<Longrightarrow> x < x + 1"
  by (metis inc_less_eq_triv_imp not_less order_less_irrefl)

lemma mt_wf_with_mode: "snap \<le> now \<Longrightarrow> mt_wf H now t (mt_with_mode t snap mode)"
  by (cases mode)
    (auto simp: mt_wf_def mt_with_mode_def mt_with_capacity_def WRITE_SET_INITIAL_CAPACITY_def
      READ_SET_INITIAL_CAPACITY_def MIN_CAPACITY_def intro!: bf_covers_new)

lemma mt_snapshot_with_mode [simp]: "mt_snapshot_ts (mt_with_mode t snap mode) = snap"
  by (cases mode) (auto simp: mt_with_mode_def mt_with_capacity_def)

lemma mt_wf_record_read: "mt_wf H now t txn \<Longrightarrow> mt_wf H now t (mt_record_read H k txn)"
  by (auto simp: mt_wf_def mt_record_read_def intro: bloom.covers_insert)

lemma mt_wf_record_write: "mt_wf H now t txn \<Longrightarrow> mt_wf H now t (mt_record_write H k txn)"
  by (auto simp: mt_wf_def mt_record_write_def intro: bloom.covers_insert)

lemma mt_wf_mono: "mt_wf H now t txn \<Longrightarrow> now \<le> now' \<Longrightarrow> mt_wf H now' t txn"
  by (auto simp: mt_wf_def)

lemma ci_wf_mono: "ci_wf H now ci \<Longrightarrow> now \<le> now' \<Longrightarrow> ci_wf H now' ci"
  by (auto simp: ci_wf_def)

lemma snapshot_record [simp]:
  "mt_snapshot_ts (mt_record_read H k txn) = mt_snapshot_ts txn"
  "mt_snapshot_ts (mt_record_write H k txn) = mt_snapshot_ts txn"
  by (simp_all add: mt_record_read_def mt_record_write_def)

text \<open>The watermark: below every active snapshot, or the clock when nothing is active.\<close>

lemma update_min_eq:
  "mm_min_active_ts (mm_update_min_active_ts m) =
     (if mm_active_txns m = [] then mm_ts_counter m
      else Min ((\<lambda>(t, txn). mt_snapshot_ts txn) ` set (mm_active_txns m)))"
  by (cases "mm_active_txns m")
    (auto simp: mm_update_min_active_ts_def Min.set_eq_fold [symmetric])

lemma update_min_other [simp]:
  "mm_active_txns (mm_update_min_active_ts m) = mm_active_txns m"
  "mm_ts_counter (mm_update_min_active_ts m) = mm_ts_counter m"
  "mm_recent_commits (mm_update_min_active_ts m) = mm_recent_commits m"
  "mm_max_recent_commits (mm_update_min_active_ts m) = mm_max_recent_commits m"
  by (simp_all add: mm_update_min_active_ts_def)

text \<open>What the watermark update needs of the rest of the state, and re-establishes.\<close>

definition mm_pre_wf :: "hashers \<Rightarrow> MvccManager \<Rightarrow> bool" where
  "mm_pre_wf H m \<longleftrightarrow>
     dm_wf (mm_active_txns m) \<and> dm_wf (mm_recent_commits m) \<and>
     (\<forall>t txn. map_of (mm_active_txns m) t = Some txn \<longrightarrow> mt_wf H (mm_ts_counter m) t txn) \<and>
     (\<forall>t ci. map_of (mm_recent_commits m) t = Some ci \<longrightarrow> ci_wf H (mm_ts_counter m) ci)"

lemma mm_wf_pre: "mm_wf H m \<Longrightarrow> mm_pre_wf H m"
  by (auto simp: mm_wf_def mm_pre_wf_def)

lemma mm_wf_update_min:
  assumes "mm_pre_wf H m"
  shows "mm_wf H (mm_update_min_active_ts m)"
proof -
  let ?S = "(\<lambda>(t, txn). mt_snapshot_ts txn) ` set (mm_active_txns m)"
  have in_S: "mt_snapshot_ts txn \<in> ?S" if "map_of (mm_active_txns m) t = Some txn" for t txn
    using map_of_SomeD [OF that] by force
  have S_le: "x \<le> mm_ts_counter m" if "x \<in> ?S" for x
    using that assms by (auto simp: mm_pre_wf_def mt_wf_def dm_in_set_iff)
  have "Min ?S \<le> mm_ts_counter m" if "mm_active_txns m \<noteq> []"
    using that S_le by (metis (no_types, lifting) Min_in finite_imageI finite_set image_is_empty set_empty)
  with in_S assms show ?thesis
    by (auto simp: mm_wf_def mm_pre_wf_def update_min_eq intro!: Min_le)
qed

lemma mm_wf_new [wf_intros]: "mm_wf H mm_new"
  by (simp add: mm_wf_def mm_new_def)

lemma mm_wf_begin [wf_intros]:
  assumes "mm_wf H m"
  shows "mm_wf H (fst (mm_begin_with_mode t mode m))"
proof -
  have "mm_pre_wf H (m\<lparr>mm_active_txns := dm_insert t (mt_with_mode t (mm_ts_counter m) mode) (mm_active_txns m)\<rparr>)"
    using mm_wf_pre [OF assms] by (auto simp: mm_pre_wf_def mt_wf_with_mode intro!: dm_wf_insert)
  then show ?thesis by (simp add: mm_begin_with_mode_def Let_def mm_wf_update_min)
qed

lemma mm_wf_record_read [wf_intros]: "mm_wf H m \<Longrightarrow> mm_wf H (mm_record_read H t k m)"
  by (auto simp: mm_wf_def mm_record_read_def mt_wf_record_read)

lemma mm_wf_record_write [wf_intros]: "mm_wf H m \<Longrightarrow> mm_wf H (mm_record_write H t k m)"
  by (auto simp: mm_wf_def mm_record_write_def mt_wf_record_write)

lemma mm_wf_abort [wf_intros]:
  assumes "mm_wf H m"
  shows "mm_wf H (mm_abort t m)"
proof -
  have "mm_pre_wf H (m\<lparr>mm_active_txns := dm_remove t (mm_active_txns m)\<rparr>)"
    using mm_wf_pre [OF assms] by (auto simp: mm_pre_wf_def intro!: dm_wf_remove split: if_splits)
  then show ?thesis by (simp add: mm_abort_def mm_wf_update_min)
qed

lemma mm_wf_alloc [wf_intros]:
  assumes "mm_wf H m" "mm_ts_counter m < - 1"
  shows "mm_wf H (fst (mm_alloc_commit_ts m))"
proof -
  have le: "mm_ts_counter m \<le> mm_ts_counter m + 1"
    using u64_less_succ [OF assms(2)] by simp
  have "mt_wf H (mm_ts_counter m + 1) t txn" if "mt_wf H (mm_ts_counter m) t txn" for t txn
    using mt_wf_mono [OF that le] .
  moreover have "ci_wf H (mm_ts_counter m + 1) ci" if "ci_wf H (mm_ts_counter m) ci" for ci
    using ci_wf_mono [OF that le] .
  moreover have "mm_min_active_ts m \<le> mm_ts_counter m + 1"
    using assms(1) le by (auto simp: mm_wf_def intro: order.trans)
  ultimately show ?thesis
    using assms(1) unfolding mm_wf_def mm_alloc_commit_ts_def by simp
qed

lemma mm_pre_wf_track:
  assumes "mm_pre_wf H m" "cts < mm_ts_counter m" "bf_covers H rb (set rs)" "bf_covers H wb (set ws)"
  shows "mm_pre_wf H (mm_track_commit_owned t cts rb wb rs ws m)"
  using assms
  by (auto simp: mm_track_commit_owned_def Let_def mm_pre_wf_def ci_wf_def map_of_dm_retain dm_wf_insert
      intro!: dm_wf_retain split: option.splits if_splits)

text \<open>The two outcomes of a commit.\<close>

lemma mm_commit_None:
  "mm_get t m = None \<Longrightarrow> mm_commit H t m = (m, None)"
  by (simp add: mm_commit_def mm_get_def)

lemma mm_commit_rejected:
  assumes "mm_get t m = Some txn" "mt_mode txn = ReadWrite" "\<not> mm_validate_ssi H txn m"
  shows "mm_commit H t m = (mm_abort t m, None)"
  using assms by (simp add: mm_commit_def mm_get_def mm_abort_def)

lemma mm_commit_accepted:
  assumes "mm_get t m = Some txn" "mt_mode txn = ReadWrite \<Longrightarrow> mm_validate_ssi H txn m"
  shows "snd (mm_commit H t m) = Some (mm_ts_counter m, mt_write_set txn)"
    and "mm_ts_counter (fst (mm_commit H t m)) = mm_ts_counter m + 1"
    and "mm_active_txns (fst (mm_commit H t m)) = dm_remove t (mm_active_txns m)"
  using assms
  by (auto simp: mm_commit_def mm_get_def mm_alloc_commit_ts_def mm_track_commit_owned_def Let_def)

lemma mm_wf_commit [wf_intros]:
  assumes "mm_wf H m" "mm_ts_counter m < - 1"
  shows "mm_wf H (fst (mm_commit H t m))"
proof (cases "map_of (mm_active_txns m) t")
  case None
  then show ?thesis using assms by (simp add: mm_commit_def)
next
  case (Some txn)
  let ?m2 = "m\<lparr>mm_ts_counter := mm_ts_counter m + 1, mm_active_txns := dm_remove t (mm_active_txns m)\<rparr>"
  have txn: "mt_wf H (mm_ts_counter m) t txn" using assms(1) Some by (simp add: mm_wf_def)
  have m2: "mm_pre_wf H ?m2"
    using mm_wf_alloc [OF assms] by (auto simp: mm_wf_def mm_pre_wf_def mm_alloc_commit_ts_def
        intro!: dm_wf_remove split: if_splits)
  have m3: "mm_pre_wf H (mm_track_commit_owned t (mm_ts_counter m) (mt_read_bloom txn) (mt_write_bloom txn)
      (mt_read_set txn) (mt_write_set txn) ?m2)"
    by (rule mm_pre_wf_track [OF m2]) (use txn u64_less_succ [OF assms(2)] in \<open>auto simp: mt_wf_def\<close>)
  show ?thesis
    using Some m2 m3 mm_wf_abort [OF assms(1), of t]
    by (auto simp: mm_commit_def mm_abort_def mm_alloc_commit_ts_def Let_def intro!: mm_wf_update_min)
qed

lemma mvcc_reachable_wf: "mvcc_reachable H m \<Longrightarrow> mm_wf H m"
proof (induction rule: mvcc_reachable.induct)
  case (step m op)
  then show ?case by (cases op) (simp_all add: wf_intros)
qed (rule mm_wf_new)

subsection \<open>What serializable validation decides\<close>

text \<open>
  The specification, over key sets only.  A tracked commit is concurrent with a transaction when the
  transaction's snapshot cannot see it.  A transaction is a pivot when some concurrent commit wrote
  what it read and some concurrent commit read what it writes.
\<close>

definition ssi_concurrent :: "MvccTransaction \<Rightarrow> MvccManager \<Rightarrow> CommitInfo set" where
  "ssi_concurrent txn m = {ci \<in> snd ` set (mm_recent_commits m). mt_snapshot_ts txn \<le> ci_commit_ts ci}"

definition ssi_pivot :: "MvccTransaction \<Rightarrow> MvccManager \<Rightarrow> bool" where
  "ssi_pivot txn m \<longleftrightarrow>
     (\<exists>ci \<in> ssi_concurrent txn m. set (mt_read_set txn) \<inter> set (ci_write_set ci) \<noteq> {}) \<and>
     (\<exists>ci \<in> ssi_concurrent txn m. set (mt_write_set txn) \<inter> set (ci_read_set ci) \<noteq> {})"

definition ssi_spec :: "MvccTransaction \<Rightarrow> MvccManager \<Rightarrow> bool" where
  "ssi_spec txn m \<longleftrightarrow> mt_is_single_key_write txn \<or> \<not> ssi_pivot txn m"

lemma mm_wf_active: "mm_wf H m \<Longrightarrow> mm_get t m = Some txn \<Longrightarrow> mt_wf H (mm_ts_counter m) t txn"
  by (simp add: mm_wf_def mm_get_def)

lemma mm_wf_watermark: "mm_wf H m \<Longrightarrow> mm_get t m = Some txn \<Longrightarrow> mm_min_active_snapshot m \<le> mt_snapshot_ts txn"
  by (simp add: mm_wf_def mm_get_def mm_min_active_snapshot_def)

lemma mm_wf_recent: "mm_wf H m \<Longrightarrow> ci \<in> snd ` set (mm_recent_commits m) \<Longrightarrow> ci_wf H (mm_ts_counter m) ci"
  by (auto simp: mm_wf_def dm_in_set_iff)

text \<open>Each Bloom-accelerated test is the exact test on the key sets.\<close>

lemma ssi_in_conflict_eq:
  assumes "ci_wf H now ci"
  shows "ssi_in_conflict H txn ci \<longleftrightarrow>
    mt_snapshot_ts txn \<le> ci_commit_ts ci \<and> set (mt_read_set txn) \<inter> set (ci_write_set ci) \<noteq> {}"
  using bloom.prefiltered_test [of H "ci_write_bloom ci" "set (ci_write_set ci)" "mt_read_set txn"] assms
  by (auto simp: ssi_in_conflict_def ci_wf_def list_ex_iff not_less)

lemma ssi_out_conflict_eq:
  assumes "mt_wf H now t txn"
  shows "ssi_out_conflict H txn ci \<longleftrightarrow>
    mt_snapshot_ts txn \<le> ci_commit_ts ci \<and> set (mt_write_set txn) \<inter> set (ci_read_set ci) \<noteq> {}"
  using bloom.prefiltered_test [of H "mt_write_bloom txn" "set (mt_write_set txn)" "ci_read_set ci"] assms
  by (auto simp: ssi_out_conflict_def mt_wf_def list_ex_iff not_less)

lemma ssi_may_conflict_complete:
  assumes "mt_wf H now t txn" "ci_wf H now ci" "mt_snapshot_ts txn \<le> ci_commit_ts ci"
    and "set (mt_write_set txn) \<inter> set (ci_read_set ci) \<noteq> {}"
  shows "ssi_may_conflict txn ci"
  using assms bloom.disjoint_if_no_meet [of H "mt_write_bloom txn" "set (mt_write_set txn)"
      "ci_read_bloom ci" "set (ci_read_set ci)"]
  by (auto simp: ssi_may_conflict_def mt_wf_def ci_wf_def)

lemma ssi_full_check:
  assumes "mm_wf H m" "mm_get t m = Some txn"
  shows "(map fst (filter (\<lambda>(t, other). ssi_in_conflict H txn other) (mm_recent_commits m)) \<noteq> [] \<and>
          map fst (filter (\<lambda>(t, other). ssi_out_conflict H txn other) (mm_recent_commits m)) \<noteq> [])
    \<longleftrightarrow> ssi_pivot txn m"
proof -
  have "(\<exists>x \<in> set (mm_recent_commits m). ssi_in_conflict H txn (snd x)) \<longleftrightarrow>
      (\<exists>ci \<in> ssi_concurrent txn m. set (mt_read_set txn) \<inter> set (ci_write_set ci) \<noteq> {})"
    using ssi_in_conflict_eq [OF mm_wf_recent [OF assms(1)], of _ txn]
    by (fastforce simp: ssi_concurrent_def)
  moreover have "(\<exists>x \<in> set (mm_recent_commits m). ssi_out_conflict H txn (snd x)) \<longleftrightarrow>
      (\<exists>ci \<in> ssi_concurrent txn m. set (mt_write_set txn) \<inter> set (ci_read_set ci) \<noteq> {})"
    using ssi_out_conflict_eq [OF mm_wf_active [OF assms]]
    by (fastforce simp: ssi_concurrent_def)
  ultimately show ?thesis
    by (simp add: ssi_pivot_def filter_empty_conv case_prod_unfold)
qed

lemma ssi_no_bloom_no_pivot:
  assumes "mm_wf H m" "mm_get t m = Some txn"
    and "\<not> list_ex (\<lambda>(t, other). ssi_may_conflict txn other) (mm_recent_commits m)"
  shows "\<not> ssi_pivot txn m"
proof
  assume "ssi_pivot txn m"
  then obtain t' ci where ci: "(t', ci) \<in> set (mm_recent_commits m)" "mt_snapshot_ts txn \<le> ci_commit_ts ci"
    "set (mt_write_set txn) \<inter> set (ci_read_set ci) \<noteq> {}"
    unfolding ssi_pivot_def ssi_concurrent_def by force
  have "ci_wf H (mm_ts_counter m) ci" by (rule mm_wf_recent [OF assms(1)]) (use ci in force)
  then have "ssi_may_conflict txn ci"
    by (rule ssi_may_conflict_complete [OF mm_wf_active [OF assms(1,2)]]) (use ci in auto)
  with ci(1) assms(3) show False by (auto simp: list_ex_iff)
qed

lemma validate_ssi_spec:
  assumes "mm_wf H m" "mm_get t m = Some txn"
  shows "mm_validate_ssi H txn m \<longleftrightarrow> ssi_spec txn m"
proof -
  have empty: "\<not> ssi_pivot txn m" if "mt_write_set txn = [] \<or> mm_recent_commits m = []"
    using that by (auto simp: ssi_pivot_def ssi_concurrent_def)
  show ?thesis
    using empty ssi_full_check [OF assms] ssi_no_bloom_no_pivot [OF assms]
    by (auto simp: mm_validate_ssi_def ssi_spec_def mt_is_single_key_write_def Let_def)
qed

text \<open>
  Lazy pruning drops only commits below the watermark, which no active transaction and no later one
  (its snapshot is the clock) can be concurrent with.
\<close>

lemma ssi_concurrent_retain:
  "w \<le> mt_snapshot_ts txn \<Longrightarrow>
   ssi_concurrent txn (m\<lparr>mm_recent_commits := dm_retain (\<lambda>ci. w \<le> ci_commit_ts ci) (mm_recent_commits m)\<rparr>)
     = ssi_concurrent txn m"
  by (force simp: ssi_concurrent_def dm_retain_def)

lemma mm_commit_cases:
  assumes "mm_wf H m"
  shows "snd (mm_commit H t m) =
    (case mm_get t m of
       None \<Rightarrow> None
     | Some txn \<Rightarrow> if mt_mode txn = ReadWrite \<and> \<not> ssi_spec txn m then None
                   else Some (mm_ts_counter m, mt_write_set txn))"
  using mm_commit_None [of t m H] mm_commit_rejected [of t m _ H] mm_commit_accepted(1) [of t m _ H]
    validate_ssi_spec [OF assms, of t]
  by (auto split: option.split)

lemma mm_commit_order:
  assumes wf: "mm_wf H m" and "mm_ts_counter m < - 1" and c: "snd (mm_commit H t m) = Some (cts, ws)"
  shows "cts = mm_ts_counter m" "mm_ts_counter (fst (mm_commit H t m)) = mm_ts_counter m + 1"
    and "mm_get t' m = Some txn \<Longrightarrow> mt_snapshot_ts txn \<le> cts"
    and "cts < mt_snapshot_ts (snd (mm_begin_with_mode t' mode (fst (mm_commit H t m))))"
proof -
  obtain txn where txn: "mm_get t m = Some txn" "mt_mode txn = ReadWrite \<Longrightarrow> mm_validate_ssi H txn m"
    using c mm_commit_cases [OF wf, of t] validate_ssi_spec [OF wf, of t]
    by (auto split: option.splits if_splits)
  show cts: "cts = mm_ts_counter m" and now: "mm_ts_counter (fst (mm_commit H t m)) = mm_ts_counter m + 1"
    using c mm_commit_accepted [OF txn] by auto
  show "mt_snapshot_ts txn \<le> cts" if "mm_get t' m = Some txn" for txn
    using mm_wf_active [OF wf that] cts by (simp add: mt_wf_def)
  show "cts < mt_snapshot_ts (snd (mm_begin_with_mode t' mode (fst (mm_commit H t m))))"
    using cts now u64_less_succ [OF assms(2)] by (simp add: mm_begin_with_mode_def Let_def)
qed

subsection \<open>A concrete history\<close>

text \<open>
  Two transactions on one snapshot; the first reads key 0 and writes key 1, the second reads keys 1
  and 2 and writes key 0.  After the first commits, the second is a pivot.
\<close>

definition demo_hashers :: hashers where
  "demo_hashers = \<lparr>hash1 = (\<lambda>k. word_of_nat (of_le_bytes k)), hash2 = (\<lambda>k. word_of_nat (length k))\<rparr>"

definition demo_mgr :: "hashers \<Rightarrow> MvccManager" where
  "demo_mgr H = fold (mvcc_step H)
     [MBegin 1 ReadWrite, MBegin 2 ReadWrite, MRead 1 [0], MWrite 1 [1], MRead 2 [1], MRead 2 [2],
      MWrite 2 [0], MCommit 1] mm_new"

lemmas manager_eval =
  mm_new_def mm_begin_def mm_begin_with_mode_def mm_update_min_active_ts_def Let_def
  mt_with_mode_def mt_with_capacity_def mm_record_read_def mt_record_read_def mm_record_write_def
  mt_record_write_def dm_insert_def dm_alter_def dm_remove_def mm_commit_def mm_validate_ssi_def
  mm_alloc_commit_ts_def mm_track_commit_owned_def tracks_reads_def

lemma u64_max_numerals: "(1 :: u64) < - 1" "(2 :: u64) < - 1" "(3 :: u64) < - 1" "(4 :: u64) < - 1"
  by (simp_all add: word_less_nat_alt unsigned_minus_1_eq_mask mask_eq_exp_minus_1)

lemma demo_reachable: "mvcc_reachable H (demo_mgr H)"
  unfolding demo_mgr_def fold_simps
  by (intro mvcc_reachable.step mvcc_reachable.start; simp add: manager_eval u64_max_numerals)

lemma demo_view:
  "\<exists>txn. mm_get 2 (demo_mgr H) = Some txn \<and> mt_read_set txn = [[2], [1]] \<and> mt_write_set txn = [[0]] \<and>
     mt_snapshot_ts txn = 1 \<and> mt_mode txn = ReadWrite"
  "\<exists>ci. mm_recent_commits (demo_mgr H) = [(1, ci)] \<and> ci_read_set ci = [[0]] \<and> ci_write_set ci = [[1]] \<and>
     ci_commit_ts ci = 1"
  "mm_ts_counter (demo_mgr H) = 2"
  by (simp_all add: demo_mgr_def mm_get_def manager_eval)

lemma demo_pivot:
  obtains txn where "mm_get 2 (demo_mgr H) = Some txn" "\<not> ssi_spec txn (demo_mgr H)"
    "mt_mode txn = ReadWrite"
  using demo_view [of H] by (auto simp: ssi_spec_def mt_is_single_key_write_def ssi_pivot_def ssi_concurrent_def)

subsection \<open>Properties of the manager\<close>

text \<open>
  C18: In every state the manager can reach, the four fast paths, the Bloom filters and the exact
  comparison together decide exactly the specification: an active transaction passes validation iff
  it writes one key having read at most one, or it is not a pivot between concurrent tracked commits.
  No Bloom filter ever hides a conflict.
\<close>

theorem ssi_validation_exact:
  assumes "mvcc_reachable H m" "mm_get t m = Some txn"
  shows "mm_validate_ssi H txn m \<longleftrightarrow> ssi_spec txn m"
  by (rule validate_ssi_spec [OF mvcc_reachable_wf [OF assms(1)] assms(2)])

theorem ssi_validation_exact_witness:
  "\<exists>txn. mm_get 2 (demo_mgr demo_hashers) = Some txn \<and>
     \<not> mm_validate_ssi demo_hashers txn (demo_mgr demo_hashers)"
  using demo_pivot [of demo_hashers] ssi_validation_exact [OF demo_reachable [of demo_hashers]] by metis

text \<open>
  A commit is refused exactly for an unknown transaction and for a read-write transaction the
  specification rejects; otherwise it returns the clock as commit timestamp, which no active snapshot
  exceeds and which every snapshot taken afterwards does.
\<close>

lemma commit_outcome_and_order:
  assumes "mvcc_reachable H m" "mm_ts_counter m < - 1"
  shows "snd (mm_commit H t m) =
      (case mm_get t m of
         None \<Rightarrow> None
       | Some txn \<Rightarrow> if mt_mode txn = ReadWrite \<and> \<not> ssi_spec txn m then None
                     else Some (mm_ts_counter m, mt_write_set txn)) \<and>
    (\<forall>cts ws. snd (mm_commit H t m) = Some (cts, ws) \<longrightarrow>
      (\<forall>t' txn. mm_get t' m = Some txn \<longrightarrow> mt_snapshot_ts txn \<le> cts) \<and>
      (\<forall>t' mode. cts < mt_snapshot_ts (snd (mm_begin_with_mode t' mode (fst (mm_commit H t m))))))"
  using mm_commit_cases [OF mvcc_reachable_wf [OF assms(1)], of t]
    mm_commit_order(3,4) [OF mvcc_reachable_wf [OF assms(1)] assms(2), of t] by blast



text \<open>
  Dropping the tracked commits below the watermark, which is what a commit does once the history
  holds more than twice its limit, changes no validation result of an active transaction.
\<close>

lemma pruning_keeps_validation:
  assumes "mvcc_reachable H m" "mm_get t m = Some txn"
  shows "mm_validate_ssi H txn (m\<lparr>mm_recent_commits :=
      dm_retain (\<lambda>ci. ci_commit_ts ci \<ge> mm_min_active_ts m) (mm_recent_commits m)\<rparr>)
    = mm_validate_ssi H txn m"
proof -
  let ?m = "m\<lparr>mm_recent_commits :=
      dm_retain (\<lambda>ci. ci_commit_ts ci \<ge> mm_min_active_ts m) (mm_recent_commits m)\<rparr>"
  note wf = mvcc_reachable_wf [OF assms(1)]
  have "mm_wf H ?m"
    using wf by (auto simp: mm_wf_def map_of_dm_retain intro: dm_wf_retain split: option.splits if_splits)
  moreover have "mm_get t ?m = Some txn" using assms(2) by (simp add: mm_get_def)
  moreover have "ssi_concurrent txn ?m = ssi_concurrent txn m"
    using mm_wf_watermark [OF wf assms(2)] by (intro ssi_concurrent_retain) (simp add: mm_min_active_snapshot_def)
  ultimately show ?thesis
    using wf assms(2) by (simp add: validate_ssi_spec ssi_spec_def ssi_pivot_def)
qed

text \<open>An accepted read-write commit is tracked, and the history keeps it while it is the newest one.\<close>

lemma mm_commit_tracks:
  assumes "mm_wf H m" "mm_get t m = Some txn" "mt_mode txn = ReadWrite" "mm_validate_ssi H txn m"
    and "mt_read_set txn \<noteq> []" "mt_write_set txn \<noteq> []"
  shows "\<exists>ci \<in> snd ` set (mm_recent_commits (fst (mm_commit H t m))). ci_commit_ts ci = mm_ts_counter m \<and>
    ci_read_set ci = mt_read_set txn \<and> ci_write_set ci = mt_write_set txn"
proof -
  let ?ci = "\<lparr>ci_commit_ts = mm_ts_counter m, ci_read_bloom = mt_read_bloom txn, ci_write_bloom = mt_write_bloom txn,
    ci_read_set = mt_read_set txn, ci_write_set = mt_write_set txn\<rparr>"
  have "mm_min_active_ts m \<le> mm_ts_counter m" using assms(1) by (simp add: mm_wf_def)
  moreover have "(t, ?ci) \<in> set (dm_insert t ?ci d)" for d by (rule map_of_SomeD) (simp add: dm_insert_def update_conv')
  ultimately have "(t, ?ci) \<in> set (mm_recent_commits (fst (mm_commit H t m)))"
    using assms(2-) by (auto simp: mm_commit_def mm_get_def mm_alloc_commit_ts_def mm_track_commit_owned_def Let_def dm_retain_def)
  then show ?thesis by (force intro: rev_bexI)
qed

text \<open>
  Write skew of two transactions that read and write one key each is admitted.  In every reachable
  manager (its counter not at the end), take two active read-write transactions, the one having read
  \<open>x\<close> and written \<open>y\<close>, the other having read \<open>y\<close> and written \<open>x\<close>: both commits succeed, in either order,
  although the second one is then a pivot between conflicting concurrent commits, which the
  validation refuses to transactions with larger sets.  Fast path 3 returns before the conflict is
  looked at.
\<close>

lemma single_key_write_skew_commits:
  assumes "mvcc_reachable H m" "mm_ts_counter m < - 1" "t1 \<noteq> t2" "mm_get t1 m = Some a" "mm_get t2 m = Some b"
    and "mt_mode a = ReadWrite" "mt_read_set a = [x]" "mt_write_set a = [y]"
    and "mt_mode b = ReadWrite" "mt_read_set b = [y]" "mt_write_set b = [x]"
  shows "snd (mm_commit H t1 m) = Some (mm_ts_counter m, [y]) \<and>
    mm_get t2 (fst (mm_commit H t1 m)) = Some b \<and> ssi_pivot b (fst (mm_commit H t1 m)) \<and>
    snd (mm_commit H t2 (fst (mm_commit H t1 m))) = Some (mm_ts_counter m + 1, [x])"
proof -
  note wf = mvcc_reachable_wf [OF assms(1)]
  let ?m = "fst (mm_commit H t1 m)"
  have fast: "mm_validate_ssi H a m'" "mm_validate_ssi H b m'" for m'
    using assms(7,8,10,11) by (simp_all add: mm_validate_ssi_def)
  note first = mm_commit_accepted [OF assms(4) fast(1)]
  have get: "mm_get t2 ?m = Some b" using first(3) assms(3,5) by (simp add: mm_get_def)
  obtain ci where ci: "ci \<in> snd ` set (mm_recent_commits ?m)" "ci_commit_ts ci = mm_ts_counter m" "ci_read_set ci = [x]" "ci_write_set ci = [y]"
    using mm_commit_tracks [OF wf assms(4,6) fast(1)] assms(7,8) by auto
  have "mt_snapshot_ts b \<le> mm_ts_counter m" using mm_wf_active [OF wf assms(5)] by (simp add: mt_wf_def)
  then have "ci \<in> ssi_concurrent b ?m" using ci(1,2) by (simp add: ssi_concurrent_def)
  then have "ssi_pivot b ?m" using ci(3,4) assms(10,11) by (auto simp: ssi_pivot_def intro!: bexI [of _ ci])
  then show ?thesis using first(1,2) get mm_commit_accepted(1) [OF get fast(2)] assms(8,11) by simp
qed

definition demo_skew :: "hashers \<Rightarrow> MvccManager" where
  "demo_skew H = fold (mvcc_step H)
     [MBegin 1 ReadWrite, MBegin 2 ReadWrite, MRead 1 [0], MWrite 1 [1], MRead 2 [1], MWrite 2 [0]] mm_new"

lemma single_key_write_skew_demo:
  "snd (mm_commit demo_hashers 1 (demo_skew demo_hashers)) = Some (1, [[1]]) \<and>
   snd (mm_commit demo_hashers 2 (fst (mm_commit demo_hashers 1 (demo_skew demo_hashers)))) = Some (2, [[0]])"
proof -
  have reach: "mvcc_reachable demo_hashers (demo_skew demo_hashers)"
    unfolding demo_skew_def fold_simps
    by (intro mvcc_reachable.step mvcc_reachable.start; simp add: manager_eval u64_max_numerals)
  have counter: "mm_ts_counter (demo_skew demo_hashers) = 1"
    "\<exists>a. mm_get 1 (demo_skew demo_hashers) = Some a \<and> mt_mode a = ReadWrite \<and> mt_read_set a = [[0]] \<and> mt_write_set a = [[1]]"
    "\<exists>b. mm_get 2 (demo_skew demo_hashers) = Some b \<and> mt_mode b = ReadWrite \<and> mt_read_set b = [[1]] \<and> mt_write_set b = [[0]]"
    by (simp_all add: demo_skew_def mm_get_def manager_eval)
  then show ?thesis using single_key_write_skew_commits [OF reach, of 1 2] u64_max_numerals(1) by auto
qed

end
