(* ===== verification/Version_Chain.thy ===== *)
theory Version_Chain
  imports Prelude
begin

text \<open>
  Multi-version storage of one key: \<^verbatim>\<open>sochdb-core/src/version_chain.rs\<close> (visibility rules, the generic
  binary-search chain) and its instance \<^verbatim>\<open>Version\<close>/\<^verbatim>\<open>VersionChain\<close> of
  \<^verbatim>\<open>sochdb-storage/src/durable_storage.rs\<close>.  The trait \<^verbatim>\<open>ChainEntry\<close> is a dictionary of its methods;
  its laws are the locale \<open>chain_entry\<close>, in which the chain's correctness is proved once.
\<close>

subsection \<open>Visibility rules\<close>

record VisibilityContext =
  ctx_reader_txn_id :: u64
  ctx_snapshot_ts :: u64
  ctx_active_txn_ids :: "u64 list"

definition visibility_context_new :: "u64 \<Rightarrow> u64 \<Rightarrow> VisibilityContext" where
  "visibility_context_new reader ts =
     \<lparr>ctx_reader_txn_id = reader, ctx_snapshot_ts = ts, ctx_active_txn_ids = []\<rparr>"

definition with_active_txns :: "u64 \<Rightarrow> u64 \<Rightarrow> u64 list \<Rightarrow> VisibilityContext" where
  "with_active_txns reader ts active =
     \<lparr>ctx_reader_txn_id = reader, ctx_snapshot_ts = ts, ctx_active_txn_ids = active\<rparr>"

definition is_committed_before :: "VisibilityContext \<Rightarrow> u64 \<Rightarrow> u64 option \<Rightarrow> bool" where
  "is_committed_before ctx t cts =
     (case cts of
        Some ts \<Rightarrow> ts < ctx_snapshot_ts ctx \<and> t \<notin> set (ctx_active_txn_ids ctx)
      | None \<Rightarrow> False)"

record VersionMeta =
  vm_created_by :: u64
  vm_created_ts :: u64
  vm_deleted_by :: u64
  vm_deleted_ts :: u64
  vm_commit_ts :: u64

definition new_uncommitted :: "u64 \<Rightarrow> u64 \<Rightarrow> VersionMeta" where
  "new_uncommitted by ts =
     \<lparr>vm_created_by = by, vm_created_ts = ts, vm_deleted_by = 0, vm_deleted_ts = 0, vm_commit_ts = 0\<rparr>"

definition is_visible :: "VersionMeta \<Rightarrow> VisibilityContext \<Rightarrow> bool" where
  "is_visible m ctx =
     (if vm_commit_ts m = 0 then vm_created_by m = ctx_reader_txn_id ctx
      else if vm_commit_ts m \<ge> ctx_snapshot_ts ctx then False
      else if vm_deleted_by m \<noteq> 0 \<and> vm_deleted_ts m < ctx_snapshot_ts ctx then False
      else True)"

definition vm_commit :: "u64 \<Rightarrow> VersionMeta \<Rightarrow> VersionMeta" where
  "vm_commit ts m = m\<lparr>vm_commit_ts := ts\<rparr>"

definition vm_delete :: "u64 \<Rightarrow> u64 \<Rightarrow> VersionMeta \<Rightarrow> VersionMeta" where
  "vm_delete by ts m = m\<lparr>vm_deleted_by := by, vm_deleted_ts := ts\<rparr>"

definition is_committed :: "VersionMeta \<Rightarrow> bool" where
  "is_committed m \<longleftrightarrow> vm_commit_ts m \<noteq> 0"

definition is_deleted :: "VersionMeta \<Rightarrow> bool" where
  "is_deleted m \<longleftrightarrow> vm_deleted_by m \<noteq> 0"

subsection \<open>The generic binary-search chain\<close>

text \<open>The methods of the trait \<^verbatim>\<open>ChainEntry\<close>.\<close>

record 'e ChainEntry =
  ce_commit_ts :: "'e \<Rightarrow> u64"
  ce_txn_id :: "'e \<Rightarrow> u64"
  ce_set_commit_ts :: "u64 \<Rightarrow> 'e \<Rightarrow> 'e"

text \<open>Committed versions, newest first, and at most one uncommitted version.\<close>

record 'e BinarySearchChain =
  bsc_committed :: "'e list"
  bsc_uncommitted :: "'e option"

definition bsc_new :: "'e BinarySearchChain" where
  "bsc_new = \<lparr>bsc_committed = [], bsc_uncommitted = None\<rparr>"

definition bsc_set_uncommitted :: "'e \<Rightarrow> 'e BinarySearchChain \<Rightarrow> 'e BinarySearchChain \<times> 'e option" where
  "bsc_set_uncommitted e c = (c\<lparr>bsc_uncommitted := Some e\<rparr>, bsc_uncommitted c)"

definition bsc_commit ::
    "'e ChainEntry \<Rightarrow> u64 \<Rightarrow> u64 \<Rightarrow> 'e BinarySearchChain \<Rightarrow> 'e BinarySearchChain \<times> bool" where
  "bsc_commit D t cts c =
     (case bsc_uncommitted c of
        Some v \<Rightarrow>
          (if ce_txn_id D v = t \<and> ce_commit_ts D v = 0
           then let v' = ce_set_commit_ts D cts v;
                    insert_pos = partition_point (\<lambda>e. ce_commit_ts D e > cts) (bsc_committed c)
                in (c\<lparr>bsc_committed := vec_insert insert_pos v' (bsc_committed c),
                      bsc_uncommitted := None\<rparr>, True)
           else (c, False))
      | None \<Rightarrow> (c, False))"

definition bsc_abort :: "'e ChainEntry \<Rightarrow> u64 \<Rightarrow> 'e BinarySearchChain \<Rightarrow> 'e BinarySearchChain" where
  "bsc_abort D t c =
     (case bsc_uncommitted c of
        Some v \<Rightarrow> (if ce_txn_id D v = t then c\<lparr>bsc_uncommitted := None\<rparr> else c)
      | None \<Rightarrow> c)"

definition bsc_read_at ::
    "'e ChainEntry \<Rightarrow> u64 \<Rightarrow> u64 option \<Rightarrow> 'e BinarySearchChain \<Rightarrow> 'e option" where
  "bsc_read_at D snap cur c =
     (let committed_read =
        vec_get (bsc_committed c)
          (partition_point (\<lambda>v. ce_commit_ts D v \<ge> snap) (bsc_committed c))
      in case cur of
           Some t \<Rightarrow>
             (case bsc_uncommitted c of
                Some v \<Rightarrow> (if ce_txn_id D v = t then Some v else committed_read)
              | None \<Rightarrow> committed_read)
         | None \<Rightarrow> committed_read)"

definition bsc_has_write_conflict :: "'e ChainEntry \<Rightarrow> u64 \<Rightarrow> 'e BinarySearchChain \<Rightarrow> bool" where
  "bsc_has_write_conflict D t c =
     (case bsc_uncommitted c of Some v \<Rightarrow> ce_txn_id D v \<noteq> t | None \<Rightarrow> False)"

definition bsc_gc_by_ts :: "'e ChainEntry \<Rightarrow> u64 \<Rightarrow> 'e BinarySearchChain \<Rightarrow> 'e BinarySearchChain" where
  "bsc_gc_by_ts D min_ts c =
     (if length (bsc_committed c) \<le> 1 then c
      else let split_idx = partition_point (\<lambda>v. ce_commit_ts D v \<ge> min_ts) (bsc_committed c);
               keep_count = (if split_idx < length (bsc_committed c) then split_idx + 1 else split_idx)
           in c\<lparr>bsc_committed := take keep_count (bsc_committed c)\<rparr>)"

definition bsc_version_count :: "'e BinarySearchChain \<Rightarrow> nat" where
  "bsc_version_count c =
     length (bsc_committed c) + (if bsc_uncommitted c = None then 0 else 1)"

definition bsc_is_empty :: "'e BinarySearchChain \<Rightarrow> bool" where
  "bsc_is_empty c \<longleftrightarrow> bsc_committed c = [] \<and> bsc_uncommitted c = None"

definition bsc_latest_committed :: "'e BinarySearchChain \<Rightarrow> 'e option" where
  "bsc_latest_committed c = (case bsc_committed c of [] \<Rightarrow> None | v # _ \<Rightarrow> Some v)"

definition bsc_latest :: "'e BinarySearchChain \<Rightarrow> 'e option" where
  "bsc_latest c =
     (case bsc_uncommitted c of Some v \<Rightarrow> Some v | None \<Rightarrow> bsc_latest_committed c)"

text \<open>
  Invariant: committed versions descend in commit timestamp, and the slot holds a version whose
  timestamp is still the marker 0.
\<close>

definition bsc_wf :: "'e ChainEntry \<Rightarrow> 'e BinarySearchChain \<Rightarrow> bool" where
  "bsc_wf D c \<longleftrightarrow>
     sorted_wrt (\<lambda>a b. ce_commit_ts D b \<le> ce_commit_ts D a) (bsc_committed c) \<and>
     (\<forall>v. bsc_uncommitted c = Some v \<longrightarrow> ce_commit_ts D v = 0)"

lemma partitioned_ge:
  "sorted_wrt (\<lambda>a b. (f b :: u64) \<le> f a) xs \<Longrightarrow> partitioned (\<lambda>v. f v \<ge> n) xs"
  by (fastforce simp: partitioned_def sorted_wrt_iff_nth_less intro: order.trans)

lemma partitioned_gt:
  "sorted_wrt (\<lambda>a b. (f b :: u64) \<le> f a) xs \<Longrightarrow> partitioned (\<lambda>v. f v > n) xs"
  by (fastforce simp: partitioned_def sorted_wrt_iff_nth_less intro: order.strict_trans2)

subsection \<open>Correctness of the chain, from the laws of the trait\<close>

locale chain_entry =
  fixes D :: "'e ChainEntry"
  assumes commit_ts_set: "ce_commit_ts D (ce_set_commit_ts D ts e) = ts"
    and txn_id_set: "ce_txn_id D (ce_set_commit_ts D ts e) = ce_txn_id D e"
begin

lemma read_committed_eq:
  assumes "bsc_wf D c"
  shows "vec_get (bsc_committed c) (partition_point (\<lambda>v. ce_commit_ts D v \<ge> s) (bsc_committed c))
       = find (\<lambda>v. ce_commit_ts D v < s) (bsc_committed c)"
proof -
  have "partition_point (\<lambda>v. s \<le> ce_commit_ts D v) (bsc_committed c)
      = length (takeWhile (\<lambda>v. \<not> ce_commit_ts D v < s) (bsc_committed c))"
    using assms partitioned_ge [of "ce_commit_ts D"]
    by (simp add: bsc_wf_def partition_point_eq not_less)
  then show ?thesis by (simp add: vec_get_takeWhile)
qed

lemma read_at_eq:
  "bsc_wf D c \<Longrightarrow> bsc_read_at D s cur c =
     (case (cur, bsc_uncommitted c) of
        (Some t, Some v) \<Rightarrow> (if ce_txn_id D v = t then Some v
                              else find (\<lambda>v. ce_commit_ts D v < s) (bsc_committed c))
      | _ \<Rightarrow> find (\<lambda>v. ce_commit_ts D v < s) (bsc_committed c))"
  by (simp add: bsc_read_at_def read_committed_eq Let_def split: option.split)

lemma gc_committed:
  assumes "bsc_wf D c"
  shows "\<exists>n. bsc_committed (bsc_gc_by_ts D m c) = take n (bsc_committed c) \<and>
     (n = Suc (length (takeWhile (\<lambda>v. \<not> ce_commit_ts D v < m) (bsc_committed c)))
      \<or> length (bsc_committed c) \<le> n)"
proof -
  have "partition_point (\<lambda>v. m \<le> ce_commit_ts D v) (bsc_committed c)
      = length (takeWhile (\<lambda>v. \<not> ce_commit_ts D v < m) (bsc_committed c))"
    using assms partitioned_ge [of "ce_commit_ts D"]
    by (simp add: bsc_wf_def partition_point_eq not_less)
  then show ?thesis
    by (cases "length (bsc_committed c) \<le> 1")
      (auto simp: bsc_gc_by_ts_def Let_def intro: exI [of _ "length (bsc_committed c)"])
qed

lemma gc_uncommitted: "bsc_uncommitted (bsc_gc_by_ts D m c) = bsc_uncommitted c"
  by (simp add: bsc_gc_by_ts_def Let_def)

lemma wf_new: "bsc_wf D bsc_new"
  by (simp add: bsc_wf_def bsc_new_def)

lemma wf_set_uncommitted:
  "bsc_wf D c \<Longrightarrow> ce_commit_ts D e = 0 \<Longrightarrow> bsc_wf D (fst (bsc_set_uncommitted e c))"
  by (simp add: bsc_wf_def bsc_set_uncommitted_def)

lemma wf_abort: "bsc_wf D c \<Longrightarrow> bsc_wf D (bsc_abort D t c)"
  by (auto simp: bsc_wf_def bsc_abort_def split: option.split)

lemma wf_gc: "bsc_wf D c \<Longrightarrow> bsc_wf D (bsc_gc_by_ts D m c)"
  by (auto simp: bsc_wf_def bsc_gc_by_ts_def Let_def intro: sorted_wrt_take)

lemma commit_eq:
  assumes "bsc_wf D c"
  shows "bsc_commit D t cts c =
    (case bsc_uncommitted c of
       Some v \<Rightarrow>
         (if ce_txn_id D v = t
          then (\<lparr>bsc_committed = takeWhile (\<lambda>e. ce_commit_ts D e > cts) (bsc_committed c)
                   @ ce_set_commit_ts D cts v # dropWhile (\<lambda>e. ce_commit_ts D e > cts) (bsc_committed c),
                 bsc_uncommitted = None\<rparr>, True)
          else (c, False))
     | None \<Rightarrow> (c, False))"
  using assms partitioned_gt [of "ce_commit_ts D"]
  by (auto simp: bsc_commit_def bsc_wf_def Let_def partition_point_eq vec_insert_takeWhile
      split: option.split)

lemma wf_commit:
  assumes "bsc_wf D c"
  shows "bsc_wf D (fst (bsc_commit D t cts c))"
proof -
  let ?xs = "bsc_committed c"
  let ?gt = "\<lambda>e. ce_commit_ts D e > cts"
  have sorted: "sorted_wrt (\<lambda>a b. ce_commit_ts D b \<le> ce_commit_ts D a) (takeWhile ?gt ?xs @ dropWhile ?gt ?xs)"
    using assms by (simp add: bsc_wf_def)
  have low: "ce_commit_ts D e \<le> cts" if "e \<in> set (dropWhile ?gt ?xs)" for e
  proof -
    have "dropWhile ?gt ?xs \<noteq> []" using that by fastforce
    then obtain y ys where y: "dropWhile ?gt ?xs = y # ys" by (meson neq_Nil_conv)
    then have "ce_commit_ts D y \<le> cts" by (metis dropWhile_eq_Cons_conv not_less)
    with sorted that y show ?thesis by (auto simp: sorted_wrt_append intro: order.trans)
  qed
  have high: "cts \<le> ce_commit_ts D e" if "e \<in> set (takeWhile ?gt ?xs)" for e
    using that by (auto dest: set_takeWhileD)
  show ?thesis
    unfolding commit_eq [OF assms]
    using assms sorted low high
    by (auto simp: bsc_wf_def commit_ts_set sorted_wrt_append intro: order.trans [OF low high]
        split: option.split)
qed

text \<open>A read at a snapshot returns a newest version strictly below it.\<close>

lemma read_at_newest:
  assumes "bsc_wf D c"
  shows "(case bsc_read_at D s None c of
      None \<Rightarrow> (\<forall>v \<in> set (bsc_committed c). s \<le> ce_commit_ts D v)
    | Some v \<Rightarrow> v \<in> set (bsc_committed c) \<and> ce_commit_ts D v < s \<and>
        (\<forall>w \<in> set (bsc_committed c). ce_commit_ts D w < s \<longrightarrow> ce_commit_ts D w \<le> ce_commit_ts D v))"
proof (cases "find (\<lambda>v. ce_commit_ts D v < s) (bsc_committed c)")
  case None
  then have "\<forall>v \<in> set (bsc_committed c). s \<le> ce_commit_ts D v"
    by (auto simp: find_None_iff not_less)
  with None assms show ?thesis by (simp add: read_at_eq)
next
  case (Some v)
  then obtain i where i: "i < length (bsc_committed c)" "bsc_committed c ! i = v"
      "ce_commit_ts D v < s" "\<forall>j<i. \<not> ce_commit_ts D (bsc_committed c ! j) < s"
    by (auto simp: find_Some_iff)
  have "ce_commit_ts D w \<le> ce_commit_ts D v"
    if "w \<in> set (bsc_committed c)" "ce_commit_ts D w < s" for w
  proof -
    obtain j where j: "j < length (bsc_committed c)" "bsc_committed c ! j = w"
      using \<open>w \<in> _\<close> by (auto simp: in_set_conv_nth)
    with i that have "i \<le> j" by (metis not_less)
    with i j assms show ?thesis
      by (cases "i = j") (auto simp: bsc_wf_def sorted_wrt_iff_nth_less)
  qed
  with Some i assms show ?thesis by (auto simp: read_at_eq)
qed

text \<open>Garbage collection keeps what any snapshot at or above the watermark can read.\<close>

lemma read_at_gc:
  assumes wf: "bsc_wf D c" and "m \<le> s"
  shows "bsc_read_at D s cur (bsc_gc_by_ts D m c) = bsc_read_at D s cur c"
proof -
  obtain n where n: "bsc_committed (bsc_gc_by_ts D m c) = take n (bsc_committed c)"
    and "n = Suc (length (takeWhile (\<lambda>v. \<not> ce_commit_ts D v < m) (bsc_committed c)))
      \<or> length (bsc_committed c) \<le> n"
    using gc_committed [OF wf] by blast
  then have "find (\<lambda>v. ce_commit_ts D v < s) (bsc_committed (bsc_gc_by_ts D m c))
      = find (\<lambda>v. ce_commit_ts D v < s) (bsc_committed c)"
    using \<open>m \<le> s\<close> unfolding n by (auto intro!: find_take_Suc)
  then show ?thesis using wf wf_gc [OF wf, of m] 
    by (simp add: read_at_eq gc_uncommitted split: option.split)
qed

text \<open>A commit at or above a snapshot is invisible to it, unless it was the reader's own write.\<close>

lemma read_at_commit_later:
  assumes wf: "bsc_wf D c" and "s \<le> cts" and "cur \<noteq> Some t"
  shows "bsc_read_at D s cur (fst (bsc_commit D t cts c)) = bsc_read_at D s cur c"
proof -
  let ?gt = "\<lambda>e. ce_commit_ts D e > cts"
  have "find (\<lambda>v. ce_commit_ts D v < s) (takeWhile ?gt xs @ y # dropWhile ?gt xs)
      = find (\<lambda>v. ce_commit_ts D v < s) xs" if "ce_commit_ts D y = cts" for y xs
    using that \<open>s \<le> cts\<close> by (induction xs) auto
  then show ?thesis
    using wf wf_commit [OF wf, of t cts] assms(3)
    by (auto simp: read_at_eq commit_eq commit_ts_set split: option.split)
qed

text \<open>A reader whose snapshot is above the new version, which is the newest, sees it.\<close>

lemma read_at_commit_visible:
  assumes wf: "bsc_wf D c" and "bsc_uncommitted c = Some v" "ce_txn_id D v = t"
    and "cts < s" and "\<forall>w \<in> set (bsc_committed c). ce_commit_ts D w \<le> cts"
  shows "bsc_read_at D s cur (fst (bsc_commit D t cts c)) = Some (ce_set_commit_ts D cts v)"
proof -
  have "takeWhile (\<lambda>e. ce_commit_ts D e > cts) (bsc_committed c) = []"
    using assms(5) by (cases "bsc_committed c") auto
  then show ?thesis
    using assms wf_commit [OF wf, of t cts]
    by (auto simp: read_at_eq commit_eq commit_ts_set split: option.split)
qed

end

subsection \<open>The chain of the durable engine\<close>

text \<open>\<^verbatim>\<open>durable_storage::Version\<close>: no value is a tombstone, timestamp 0 is uncommitted.\<close>

record Version =
  ver_value :: "val option"
  ver_txn_id :: u64
  ver_commit_ts :: u64

definition version_entry :: "Version ChainEntry" where
  "version_entry =
     \<lparr>ce_commit_ts = ver_commit_ts, ce_txn_id = ver_txn_id,
      ce_set_commit_ts = (\<lambda>ts v. v\<lparr>ver_commit_ts := ts\<rparr>)\<rparr>"

type_synonym VersionChain = "Version BinarySearchChain"

definition vc_new :: VersionChain where
  "vc_new = bsc_new"

definition vc_add_uncommitted :: "val option \<Rightarrow> u64 \<Rightarrow> VersionChain \<Rightarrow> VersionChain" where
  "vc_add_uncommitted x t c =
     (let fresh = fst (bsc_set_uncommitted \<lparr>ver_value = x, ver_txn_id = t, ver_commit_ts = 0\<rparr> c)
      in case bsc_uncommitted c of
           Some v \<Rightarrow> (if ver_txn_id v = t then c\<lparr>bsc_uncommitted := Some (v\<lparr>ver_value := x\<rparr>)\<rparr> else fresh)
         | None \<Rightarrow> fresh)"

definition vc_commit :: "u64 \<Rightarrow> u64 \<Rightarrow> VersionChain \<Rightarrow> VersionChain \<times> bool" where
  "vc_commit t cts c = bsc_commit version_entry t cts c"

definition vc_abort :: "u64 \<Rightarrow> VersionChain \<Rightarrow> VersionChain" where
  "vc_abort t c = bsc_abort version_entry t c"

definition vc_read_at :: "u64 \<Rightarrow> u64 option \<Rightarrow> VersionChain \<Rightarrow> Version option" where
  "vc_read_at snap cur c = bsc_read_at version_entry snap cur c"

definition vc_has_write_conflict :: "u64 \<Rightarrow> VersionChain \<Rightarrow> bool" where
  "vc_has_write_conflict t c = bsc_has_write_conflict version_entry t c"

definition vc_gc :: "u64 \<Rightarrow> VersionChain \<Rightarrow> VersionChain" where
  "vc_gc min_ts c = bsc_gc_by_ts version_entry min_ts c"

definition vc_version_count :: "VersionChain \<Rightarrow> nat" where
  "vc_version_count c = bsc_version_count c"

text \<open>The trait implementations over the same chain; \<open>sz\<close> is \<^verbatim>\<open>size_of::<Version>()\<close>.\<close>

definition vc_get_visible :: "VisibilityContext \<Rightarrow> VersionChain \<Rightarrow> val option option" where
  "vc_get_visible ctx c =
     map_option ver_value
       (bsc_read_at version_entry (ctx_snapshot_ts ctx) (Some (ctx_reader_txn_id ctx)) c)"

definition vc_get_latest :: "VersionChain \<Rightarrow> val option option" where
  "vc_get_latest c = map_option ver_value (bsc_latest c)"

definition vc_delete_version :: "u64 \<Rightarrow> VersionChain \<Rightarrow> VersionChain \<times> bool" where
  "vc_delete_version t c = (vc_add_uncommitted None t c, True)"

definition vc_gc_stats :: "nat \<Rightarrow> u64 \<Rightarrow> VersionChain \<Rightarrow> VersionChain \<times> nat \<times> nat" where
  "vc_gc_stats sz min_ts c =
     (let c' = bsc_gc_by_ts version_entry min_ts c;
          removed = length (bsc_committed c) - length (bsc_committed c')
      in (c', removed, removed * sz))"

definition vc_wf :: "VersionChain \<Rightarrow> bool" where
  "vc_wf c = bsc_wf version_entry c"

lemma version_entry_simps [simp]:
  "ce_commit_ts version_entry = ver_commit_ts"
  "ce_txn_id version_entry = ver_txn_id"
  "ce_set_commit_ts version_entry ts v = v\<lparr>ver_commit_ts := ts\<rparr>"
  by (simp_all add: version_entry_def)

interpretation ver: chain_entry version_entry
  by unfold_locales simp_all

lemma vc_wf_new [simp, wf_intros]: "vc_wf vc_new"
  by (simp add: vc_wf_def vc_new_def ver.wf_new)

lemma vc_wf_add_uncommitted [wf_intros]: "vc_wf c \<Longrightarrow> vc_wf (vc_add_uncommitted x t c)"
  using ver.wf_set_uncommitted [of c]
  by (auto simp: vc_wf_def vc_add_uncommitted_def bsc_wf_def bsc_set_uncommitted_def Let_def
      split: option.split)

lemma vc_wf_commit [wf_intros]: "vc_wf c \<Longrightarrow> vc_wf (fst (vc_commit t cts c))"
  by (simp add: vc_wf_def vc_commit_def ver.wf_commit)

lemma vc_wf_abort [wf_intros]: "vc_wf c \<Longrightarrow> vc_wf (vc_abort t c)"
  by (simp add: vc_wf_def vc_abort_def ver.wf_abort)

lemma vc_wf_gc [wf_intros]: "vc_wf c \<Longrightarrow> vc_wf (vc_gc m c)"
  by (simp add: vc_wf_def vc_gc_def ver.wf_gc)

lemma vc_read_at_eq:
  "vc_wf c \<Longrightarrow> vc_read_at s cur c =
     (case (cur, bsc_uncommitted c) of
        (Some t, Some v) \<Rightarrow> (if ver_txn_id v = t then Some v
                              else find (\<lambda>v. ver_commit_ts v < s) (bsc_committed c))
      | _ \<Rightarrow> find (\<lambda>v. ver_commit_ts v < s) (bsc_committed c))"
  by (simp add: vc_wf_def vc_read_at_def ver.read_at_eq split: option.split)

text \<open>Reads after a write, an abort and a commit.\<close>

lemma vc_add_uncommitted_fields:
  "bsc_committed (vc_add_uncommitted x t c) = bsc_committed c"
  "\<exists>v. bsc_uncommitted (vc_add_uncommitted x t c) = Some v \<and> ver_value v = x \<and> ver_txn_id v = t"
  by (auto simp: vc_add_uncommitted_def bsc_set_uncommitted_def Let_def split: option.split)

lemma vc_read_own_write:
  "vc_wf c \<Longrightarrow> \<exists>v. vc_read_at s (Some t) (vc_add_uncommitted x t c) = Some v \<and> ver_value v = x"
  using vc_add_uncommitted_fields [of x t c] vc_wf_add_uncommitted [of c x t]
  by (auto simp: vc_read_at_eq)

lemma vc_read_others_write:
  assumes "vc_wf c" "cur \<noteq> Some t" "\<not> vc_has_write_conflict t c"
  shows "vc_read_at s cur (vc_add_uncommitted x t c) = vc_read_at s cur c"
  using assms vc_add_uncommitted_fields [of x t c] vc_wf_add_uncommitted [of c x t]
  by (auto simp: vc_read_at_eq vc_has_write_conflict_def bsc_has_write_conflict_def
      split: option.splits)

lemma vc_read_abort:
  assumes "vc_wf c" "cur \<noteq> Some t"
  shows "vc_read_at s cur (vc_abort t c) = vc_read_at s cur c"
  using assms vc_wf_abort [of c t]
  by (auto simp: vc_read_at_eq vc_abort_def bsc_abort_def split: option.splits)

lemma vc_read_gc: "vc_wf c \<Longrightarrow> m \<le> s \<Longrightarrow> vc_read_at s cur (vc_gc m c) = vc_read_at s cur c"
  by (simp add: vc_wf_def vc_gc_def vc_read_at_def ver.read_at_gc)

lemma vc_read_commit_later:
  "vc_wf c \<Longrightarrow> s \<le> cts \<Longrightarrow> cur \<noteq> Some t \<Longrightarrow>
     vc_read_at s cur (fst (vc_commit t cts c)) = vc_read_at s cur c"
  by (simp add: vc_wf_def vc_commit_def vc_read_at_def ver.read_at_commit_later)

lemma vc_read_commit_visible:
  assumes "vc_wf c" "bsc_uncommitted c = Some v" "ver_txn_id v = t"
    and "cts < s" "\<forall>w \<in> set (bsc_committed c). ver_commit_ts w \<le> cts"
  shows "vc_read_at s cur (fst (vc_commit t cts c)) = Some (v\<lparr>ver_commit_ts := cts\<rparr>)"
  using ver.read_at_commit_visible [of c v t cts s cur] assms
  by (simp add: vc_wf_def vc_commit_def vc_read_at_def)

end
