(* ===== verification/Deferred_Index.thy ===== *)
theory Deferred_Index
  imports Prelude
begin

text \<open>
  \<^verbatim>\<open>sochdb-storage/src/deferred_index.rs\<close>: the sorted key index that appends writes to a hot buffer and
  sorts on the first scan.  The contract of an ordered key index is the locale \<open>ordered_index\<close>; it is
  interpreted on the deferred index and on the \<^verbatim>\<open>SkipMap\<close> that the memtable uses instead when
  deferred sorting is off (an ordered set of keys: a strictly ascending list).
\<close>

record DeferredIndexConfig =
  dic_max_unsorted_entries :: nat
  dic_enabled :: bool

definition deferred_index_config_default :: DeferredIndexConfig where
  "deferred_index_config_default = \<lparr>dic_max_unsorted_entries = 10000, dic_enabled = True\<rparr>"

record DeferredSortedIndex =
  dsi_config :: DeferredIndexConfig
  dsi_sorted_vec :: "key list"
  dsi_hot_buffer :: "key list"
  dsi_needs_compaction :: bool
  dsi_total_inserts :: u64
  dsi_total_compactions :: u64

definition dsi_with_config :: "DeferredIndexConfig \<Rightarrow> DeferredSortedIndex" where
  "dsi_with_config config =
     \<lparr>dsi_config = config, dsi_sorted_vec = [], dsi_hot_buffer = [], dsi_needs_compaction = False,
      dsi_total_inserts = 0, dsi_total_compactions = 0\<rparr>"

definition dsi_new :: DeferredSortedIndex where
  "dsi_new = dsi_with_config deferred_index_config_default"

definition dsi_insert :: "key \<Rightarrow> DeferredSortedIndex \<Rightarrow> DeferredSortedIndex" where
  "dsi_insert k i =
     (let buffer = dsi_hot_buffer i @ [k]
      in i\<lparr>dsi_total_inserts := dsi_total_inserts i + 1, dsi_hot_buffer := buffer,
           dsi_needs_compaction :=
             (if length buffer \<ge> dic_max_unsorted_entries (dsi_config i) then True
              else dsi_needs_compaction i)\<rparr>)"

definition dsi_insert_ref :: "key \<Rightarrow> DeferredSortedIndex \<Rightarrow> DeferredSortedIndex" where
  "dsi_insert_ref k i = dsi_insert k i"

text \<open>The two-pointer merge; a key present on both sides is taken once.\<close>

fun merge_sorted_vecs :: "key list \<Rightarrow> key list \<Rightarrow> key list" where
  "merge_sorted_vecs (a # as) (b # bs) =
     (if a < b then a # merge_sorted_vecs as (b # bs)
      else if b < a then b # merge_sorted_vecs (a # as) bs
      else a # merge_sorted_vecs as bs)"
| "merge_sorted_vecs as [] = as"
| "merge_sorted_vecs [] bs = bs"

text \<open>\<^verbatim>\<open>sort_unstable\<close> on equal byte strings is \<open>sort\<close>; \<^verbatim>\<open>dedup\<close> drops adjacent repetitions.\<close>

definition dsi_compact :: "DeferredSortedIndex \<Rightarrow> DeferredSortedIndex" where
  "dsi_compact i =
     (if dsi_hot_buffer i = [] then i
      else let new_entries = remdups_adj (sort (dsi_hot_buffer i))
           in i\<lparr>dsi_hot_buffer := [],
                dsi_sorted_vec :=
                  (if dsi_sorted_vec i = [] then new_entries
                   else merge_sorted_vecs (dsi_sorted_vec i) new_entries),
                dsi_needs_compaction := False,
                dsi_total_compactions := dsi_total_compactions i + 1\<rparr>)"

definition dsi_ensure_compacted :: "DeferredSortedIndex \<Rightarrow> DeferredSortedIndex" where
  "dsi_ensure_compacted i =
     (if dsi_needs_compaction i \<or> dsi_hot_buffer i \<noteq> [] then dsi_compact i else i)"

definition dsi_range_from :: "key \<Rightarrow> DeferredSortedIndex \<Rightarrow> DeferredSortedIndex \<times> key list" where
  "dsi_range_from start i =
     (let i' = dsi_ensure_compacted i;
          sorted_vec = dsi_sorted_vec i';
          start_idx = partition_point (\<lambda>k. k < start) sorted_vec
      in (i', drop start_idx sorted_vec))"

definition dsi_range :: "key \<Rightarrow> key \<Rightarrow> DeferredSortedIndex \<Rightarrow> DeferredSortedIndex \<times> key list result" where
  "dsi_range start stop i =
     (let i' = dsi_ensure_compacted i;
          sorted_vec = dsi_sorted_vec i';
          start_idx = partition_point (\<lambda>k. k < start) sorted_vec;
          end_idx = partition_point (\<lambda>k. k < stop) sorted_vec
      in (i', slice sorted_vec start_idx end_idx))"

text \<open>
  \<^verbatim>\<open>slice::binary_search_by\<close>: the base moves to the middle unless the element there is greater, and
  the search succeeds when the last probe is equal.
\<close>

definition binary_search_is_ok :: "key \<Rightarrow> key list \<Rightarrow> bool" where
  "binary_search_is_ok k xs \<longleftrightarrow> xs \<noteq> [] \<and> xs ! pp_loop (\<lambda>x. \<not> x > k) xs 0 (length xs) = k"

definition dsi_contains :: "key \<Rightarrow> DeferredSortedIndex \<Rightarrow> bool" where
  "dsi_contains k i \<longleftrightarrow>
     (if list_ex (\<lambda>k'. k' = k) (dsi_hot_buffer i) then True
      else binary_search_is_ok k (dsi_sorted_vec i))"

record DeferredIndexStats =
  dst_sorted_entries :: nat
  dst_hot_buffer_entries :: nat
  dst_total_inserts :: u64
  dst_total_compactions :: u64

definition dsi_stats :: "DeferredSortedIndex \<Rightarrow> DeferredIndexStats" where
  "dsi_stats i =
     \<lparr>dst_sorted_entries = length (dsi_sorted_vec i), dst_hot_buffer_entries = length (dsi_hot_buffer i),
      dst_total_inserts = dsi_total_inserts i, dst_total_compactions = dsi_total_compactions i\<rparr>"

definition dsi_clear :: "DeferredSortedIndex \<Rightarrow> DeferredSortedIndex" where
  "dsi_clear i = i\<lparr>dsi_sorted_vec := [], dsi_hot_buffer := [], dsi_needs_compaction := False\<rparr>"

definition dsi_len :: "DeferredSortedIndex \<Rightarrow> DeferredSortedIndex \<times> nat" where
  "dsi_len i = (let i' = dsi_ensure_compacted i in (i', length (dsi_sorted_vec i')))"

definition dsi_is_empty :: "DeferredSortedIndex \<Rightarrow> bool" where
  "dsi_is_empty i \<longleftrightarrow> dsi_sorted_vec i = [] \<and> dsi_hot_buffer i = []"

subsection \<open>The ordered set of the skip list\<close>

type_synonym skip_set = "key list"

definition skip_insert :: "key \<Rightarrow> skip_set \<Rightarrow> skip_set" where
  "skip_insert k s = insort_insert k s"

definition skip_range_from :: "key \<Rightarrow> skip_set \<Rightarrow> key list" where
  "skip_range_from start s = filter (\<lambda>k. start \<le> k) s"

definition skip_range :: "key \<Rightarrow> key \<Rightarrow> skip_set \<Rightarrow> key list" where
  "skip_range start stop s = filter (\<lambda>k. start \<le> k \<and> k < stop) s"

subsection \<open>Prefixes in lexicographic order\<close>

text \<open>The keys with a given prefix are contiguous, and none is below the prefix itself.\<close>

lemma prefix_imp_le: "prefix p k \<Longrightarrow> p \<le> (k :: 'a :: linorder list)"
proof (induction p arbitrary: k)
  case (Cons x p)
  then show ?case by (cases k) auto
qed simp

lemma prefix_upward_gap:
  "p \<le> k \<Longrightarrow> \<not> prefix p k \<Longrightarrow> k \<le> k' \<Longrightarrow> \<not> prefix p (k' :: 'a :: linorder list)"
proof (induction p arbitrary: k k')
  case (Cons x p)
  from Cons.prems obtain y ks where k: "k = y # ks" by (cases k) auto
  show ?case
  proof
    assume pre: "prefix (x # p) k'"
    then obtain ks' where k': "k' = x # ks'" "prefix p ks'" by (cases k') auto
    from Cons.prems k k' have "x = y" by auto
    with Cons k k' show False by auto
  qed
qed simp

lemma takeWhile_prefix_sorted:
  assumes "sorted xs" "\<forall>x \<in> set xs. p \<le> x"
  shows "takeWhile (prefix p) xs = filter (prefix p) (xs :: 'a :: linorder list list)"
  using assms
proof (induction xs)
  case (Cons x xs)
  show ?case
  proof (cases "prefix p x")
    case False
    then have "\<forall>y \<in> set xs. \<not> prefix p y"
      using Cons.prems by (auto dest: prefix_upward_gap [of p x])
    with False show ?thesis by simp
  qed (use Cons in auto)
qed simp

lemma sorted_list_of_filter:
  assumes "finite A"
  shows "sorted_list_of_set {x \<in> A. P x} = filter P (sorted_list_of_set A)"
  using assms by (intro sorted_distinct_set_unique) (auto intro: sorted_wrt_filter)

subsection \<open>The contract of an ordered key index\<close>

text \<open>
  Two indexes that were given the same keys answer scans alike: ascending, without repetition, every
  inserted key in range and nothing else.  A scan may reorganise the index but not change its keys.
\<close>

locale ordered_index =
  fixes ins :: "key \<Rightarrow> 'i \<Rightarrow> 'i"
    and ifrom :: "key \<Rightarrow> 'i \<Rightarrow> 'i \<times> key list"
    and between :: "key \<Rightarrow> key \<Rightarrow> 'i \<Rightarrow> 'i \<times> key list result"
    and keys :: "'i \<Rightarrow> key set"
    and inv :: "'i \<Rightarrow> bool"
  assumes finite_keys: "finite (keys i)"
    and inv_ins: "inv i \<Longrightarrow> inv (ins k i)"
    and keys_ins: "keys (ins k i) = insert k (keys i)"
    and inv_from: "inv i \<Longrightarrow> inv (fst (ifrom lo i))"
    and keys_from: "inv i \<Longrightarrow> keys (fst (ifrom lo i)) = keys i"
    and from_eq: "inv i \<Longrightarrow> snd (ifrom lo i) = sorted_list_of_set {k \<in> keys i. lo \<le> k}"
    and inv_between: "inv i \<Longrightarrow> inv (fst (between lo hi i))"
    and keys_between: "inv i \<Longrightarrow> keys (fst (between lo hi i)) = keys i"
    and between_eq: "inv i \<Longrightarrow> lo \<le> hi \<Longrightarrow>
      snd (between lo hi i) = Inr (sorted_list_of_set {k \<in> keys i. lo \<le> k \<and> k < hi})"
begin

lemma prefix_scan:
  assumes "inv i"
  shows "takeWhile (prefix p) (snd (ifrom p i)) = sorted_list_of_set {k \<in> keys i. prefix p k}"
proof -
  have fin: "finite {k \<in> keys i. p \<le> k}" using finite_keys by simp
  have "takeWhile (prefix p) (snd (ifrom p i)) = filter (prefix p) (sorted_list_of_set {k \<in> keys i. p \<le> k})"
    unfolding from_eq [OF assms] by (rule takeWhile_prefix_sorted) (use fin in auto)
  also have "\<dots> = sorted_list_of_set {k \<in> {k \<in> keys i. p \<le> k}. prefix p k}"
    by (rule sorted_list_of_filter [OF fin, symmetric])
  also have "{k \<in> {k \<in> keys i. p \<le> k}. prefix p k} = {k \<in> keys i. prefix p k}"
    using prefix_imp_le by auto
  finally show ?thesis .
qed

lemma keys_fold_ins: "keys (fold ins ks i) = set ks \<union> keys i"
  by (induction ks arbitrary: i) (auto simp: keys_ins)

lemma inv_fold_ins: "inv i \<Longrightarrow> inv (fold ins ks i)"
  by (induction ks arbitrary: i) (auto simp: inv_ins)

end

subsection \<open>The deferred index meets the contract\<close>

definition dsi_keys :: "DeferredSortedIndex \<Rightarrow> key set" where
  "dsi_keys i = set (dsi_sorted_vec i) \<union> set (dsi_hot_buffer i)"

definition dsi_wf :: "DeferredSortedIndex \<Rightarrow> bool" where
  "dsi_wf i \<longleftrightarrow> sorted_wrt (<) (dsi_sorted_vec i) \<and> (dsi_needs_compaction i \<longrightarrow> dsi_hot_buffer i \<noteq> [])"

lemma set_merge_sorted_vecs: "set (merge_sorted_vecs as bs) = set as \<union> set bs"
  by (induction as bs rule: merge_sorted_vecs.induct) auto

lemma sorted_merge_sorted_vecs:
  "sorted_wrt (<) as \<Longrightarrow> sorted_wrt (<) bs \<Longrightarrow> sorted_wrt (<) (merge_sorted_vecs as bs)"
proof (induction as bs rule: merge_sorted_vecs.induct)
  case (1 a as b bs)
  consider "a < b" | "b < a" | "a = b" by fastforce
  then show ?case by cases (use 1 in \<open>auto simp: set_merge_sorted_vecs intro: less_trans\<close>)
qed auto

lemma strict_sorted_remdups_adj: "sorted xs \<Longrightarrow> sorted_wrt (<) (remdups_adj (xs :: key list))"
  by (induction xs rule: remdups_adj.induct) (auto simp: order_less_le)

lemma sorted_new_entries: "sorted_wrt (<) (remdups_adj (sort (xs :: key list)))"
  by (simp add: strict_sorted_remdups_adj)

lemma dsi_compact_sorted:
  "dsi_wf i \<Longrightarrow> sorted_wrt (<) (dsi_sorted_vec (dsi_compact i))"
  by (auto simp: dsi_wf_def dsi_compact_def Let_def sorted_new_entries sorted_merge_sorted_vecs)

lemma dsi_compact_keys: "dsi_keys (dsi_compact i) = dsi_keys i"
  by (auto simp: dsi_keys_def dsi_compact_def Let_def set_merge_sorted_vecs)

lemma dsi_compact_empties: "dsi_hot_buffer (dsi_compact i) = []"
  by (simp add: dsi_compact_def Let_def)

lemma dsi_ensure_compacted_eq: "dsi_wf i \<Longrightarrow> dsi_ensure_compacted i = dsi_compact i"
  by (auto simp: dsi_ensure_compacted_def dsi_wf_def dsi_compact_def)

lemma dsi_wf_compact [wf_intros]: "dsi_wf i \<Longrightarrow> dsi_wf (dsi_compact i)"
  using dsi_compact_sorted [of i] by (auto simp: dsi_wf_def dsi_compact_def Let_def)

lemma dsi_compact_eq: "dsi_wf i \<Longrightarrow> dsi_sorted_vec (dsi_compact i) = sorted_list_of_set (dsi_keys i)"
  using dsi_compact_sorted [of i] dsi_compact_keys [of i] dsi_compact_empties [of i]
  by (intro sorted_distinct_set_unique) (auto simp: dsi_keys_def strict_sorted_iff)

lemma partitioned_downward:
  "sorted_wrt (<) xs \<Longrightarrow> (\<And>x y. x < y \<Longrightarrow> p y \<Longrightarrow> p x) \<Longrightarrow> partitioned p (xs :: 'a :: linorder list)"
  unfolding partitioned_def sorted_wrt_iff_nth_less by blast

lemma partitioned_less: "sorted_wrt (<) xs \<Longrightarrow> partitioned (\<lambda>k. k < lo) (xs :: 'a :: linorder list)"
  by (rule partitioned_downward) auto

lemma drop_partition_point:
  assumes "sorted_wrt (<) (xs :: key list)"
  shows "drop (partition_point (\<lambda>k. k < lo) xs) xs = filter (\<lambda>k. lo \<le> k) xs"
proof -
  have "dropWhile (\<lambda>k. k < lo) xs = filter (\<lambda>k. lo \<le> k) xs"
    using assms
  proof (induction xs)
    case (Cons x xs)
    have "filter (\<lambda>k. lo \<le> k) xs = xs" if "lo \<le> x"
      using that Cons.prems by (auto intro!: filter_True)
    with Cons show ?case by auto
  qed simp
  then show ?thesis
    using partition_point_eq [OF partitioned_less [OF assms]] by (simp add: dropWhile_eq_drop)
qed

lemma takeWhile_less_sorted:
  "sorted_wrt (<) xs \<Longrightarrow> takeWhile (\<lambda>k. k < hi) xs = filter (\<lambda>k. k < hi) (xs :: 'a :: linorder list)"
proof (induction xs)
  case (Cons x xs)
  have "filter (\<lambda>k. k < hi) xs = []" if "hi \<le> x"
    using that Cons.prems by (auto intro!: filter_False)
  with Cons show ?case by (auto simp: not_less)
qed simp

lemma takeWhile_takeWhile_imp:
  "(\<And>x. P x \<Longrightarrow> Q x) \<Longrightarrow> takeWhile P (takeWhile Q xs) = takeWhile P xs"
  by (induction xs) auto

lemma partition_point_mono:
  assumes "sorted_wrt (<) (xs :: key list)" "lo \<le> hi"
  shows "partition_point (\<lambda>k. k < lo) xs \<le> partition_point (\<lambda>k. k < hi) xs"
    and "partition_point (\<lambda>k. k < hi) xs \<le> length xs"
proof -
  have "length (takeWhile (\<lambda>k. k < lo) ys) \<le> length (takeWhile (\<lambda>k. k < hi) ys)" for ys :: "key list"
    using assms(2) by (induction ys) (auto dest: less_le_trans)
  with partition_point_eq [OF partitioned_less [OF assms(1)]]
  show "partition_point (\<lambda>k. k < lo) xs \<le> partition_point (\<lambda>k. k < hi) xs"
    and "partition_point (\<lambda>k. k < hi) xs \<le> length xs" by (simp_all add: length_takeWhile_le)
qed

lemma slice_partition_points:
  assumes "sorted_wrt (<) (xs :: key list)" "lo \<le> hi"
  shows "slice xs (partition_point (\<lambda>k. k < lo) xs) (partition_point (\<lambda>k. k < hi) xs)
       = Inr (filter (\<lambda>k. lo \<le> k \<and> k < hi) xs)"
proof -
  let ?i = "partition_point (\<lambda>k. k < lo) xs" and ?j = "partition_point (\<lambda>k. k < hi) xs"
  have "take (?j - ?i) (drop ?i xs) = drop ?i (take ?j xs)" by (simp add: drop_take)
  also have "take ?j xs = takeWhile (\<lambda>k. k < hi) xs"
    using partition_point_eq [OF partitioned_less [OF assms(1)], of hi] by (simp add: takeWhile_eq_take [symmetric])
  also have "drop ?i \<dots> = filter (\<lambda>k. lo \<le> k) (takeWhile (\<lambda>k. k < hi) xs)"
  proof -
    have s: "sorted_wrt (<) (takeWhile (\<lambda>k. k < hi) xs)"
      using assms(1) by (simp add: takeWhile_less_sorted sorted_wrt_filter)
    have "takeWhile (\<lambda>k. k < lo) (takeWhile (\<lambda>k. k < hi) xs) = takeWhile (\<lambda>k. k < lo) xs"
      by (rule takeWhile_takeWhile_imp) (use assms(2) in auto)
    then have "partition_point (\<lambda>k. k < lo) (takeWhile (\<lambda>k. k < hi) xs) = ?i"
      by (simp add: partition_point_eq partitioned_less s assms(1))
    with drop_partition_point [OF s, of lo] show ?thesis by simp
  qed
  also have "\<dots> = filter (\<lambda>k. lo \<le> k \<and> k < hi) xs"
    using assms(1) by (simp add: takeWhile_less_sorted conj_commute)
  finally show ?thesis using partition_point_mono [OF assms] by (simp add: slice_def)
qed

lemma finite_dsi_keys [simp]: "finite (dsi_keys i)"
  by (simp add: dsi_keys_def)

lemma dsi_range_from_eq:
  assumes "dsi_wf i"
  shows "dsi_range_from lo i = (dsi_compact i, sorted_list_of_set {k \<in> dsi_keys i. lo \<le> k})"
  using dsi_compact_sorted [OF assms] dsi_compact_eq [OF assms]
  by (simp add: dsi_range_from_def Let_def dsi_ensure_compacted_eq [OF assms] drop_partition_point
      sorted_list_of_filter)

lemma dsi_range_eq:
  assumes "dsi_wf i" "lo \<le> hi"
  shows "dsi_range lo hi i = (dsi_compact i, Inr (sorted_list_of_set {k \<in> dsi_keys i. lo \<le> k \<and> k < hi}))"
  using dsi_compact_sorted [OF assms(1)] dsi_compact_eq [OF assms(1)]
  by (simp add: dsi_range_def Let_def dsi_ensure_compacted_eq [OF assms(1)] slice_partition_points [OF _ assms(2)]
      sorted_list_of_filter)

lemma dsi_wf_new [wf_intros]: "dsi_wf (dsi_with_config config)"
  by (simp add: dsi_wf_def dsi_with_config_def)

lemma dsi_wf_insert [wf_intros]: "dsi_wf i \<Longrightarrow> dsi_wf (dsi_insert k i)"
  by (simp add: dsi_wf_def dsi_insert_def Let_def)

lemma dsi_keys_insert: "dsi_keys (dsi_insert k i) = insert k (dsi_keys i)"
  by (auto simp: dsi_keys_def dsi_insert_def Let_def)

lemma dsi_wf_clear [wf_intros]: "dsi_wf (dsi_clear i)"
  by (simp add: dsi_wf_def dsi_clear_def)

lemma fst_dsi_range: "dsi_wf i \<Longrightarrow> fst (dsi_range lo hi i) = dsi_compact i"
  by (simp add: dsi_range_def Let_def dsi_ensure_compacted_eq)

interpretation deferred: ordered_index dsi_insert dsi_range_from dsi_range dsi_keys dsi_wf
  by unfold_locales
    (simp_all add: dsi_wf_insert dsi_keys_insert dsi_range_from_eq dsi_range_eq dsi_wf_compact
      dsi_compact_keys fst_dsi_range)

lemma binary_search_is_ok_iff:
  assumes "sorted_wrt (<) (xs :: key list)"
  shows "binary_search_is_ok k xs \<longleftrightarrow> k \<in> set xs"
proof (cases "xs = []")
  case False
  let ?n = "length (takeWhile (\<lambda>x. \<not> x > k) xs)"
  let ?b = "pp_loop (\<lambda>x. \<not> x > k) xs 0 (length xs)"
  have "partitioned (\<lambda>x. \<not> x > k) xs"
    using assms by (rule partitioned_downward) auto
  then have all: "\<forall>i < length xs. \<not> xs ! i > k \<longleftrightarrow> i < ?n"
    using partitioned_nth_iff [of "\<lambda>x. \<not> x > k"] by blast
  have b: "?b < length xs \<and> (?b = 0 \<or> ?b < ?n) \<and> ?n \<le> ?b + 1"
    by (rule pp_loop_bracket [OF all]) (use False length_takeWhile_le in auto)
  have "xs ! ?b = k" if mem: "k \<in> set xs"
  proof -
    obtain j where j: "j < length xs" "xs ! j = k" using mem by (auto simp: in_set_conv_nth)
    with all have "j < ?n" by auto
    with b j have "j \<le> ?b" "xs ! ?b \<le> k" using all by (auto simp: not_less)
    moreover have "xs ! j < xs ! ?b" if "j < ?b"
      using assms b that by (auto simp: sorted_wrt_iff_nth_less)
    ultimately show ?thesis using j(2) by (cases "j = ?b") auto
  qed
  moreover have "xs ! ?b \<in> set xs" using b by simp
  ultimately show ?thesis using False by (auto simp: binary_search_is_ok_def)
qed (simp add: binary_search_is_ok_def)

lemma dsi_contains_iff: "dsi_wf i \<Longrightarrow> dsi_contains k i \<longleftrightarrow> k \<in> dsi_keys i"
  by (auto simp: dsi_contains_def dsi_wf_def dsi_keys_def binary_search_is_ok_iff list_ex_iff)

subsection \<open>The skip list meets the contract\<close>

lemma skip_from_eq:
  "sorted_wrt (<) s \<Longrightarrow> filter P s = sorted_list_of_set {k \<in> set (s :: key list). P k}"
  by (intro sorted_distinct_set_unique) (auto simp: strict_sorted_iff intro: sorted_wrt_filter)

interpretation skip: ordered_index skip_insert "\<lambda>lo s. (s, skip_range_from lo s)"
  "\<lambda>lo hi s. (s, Inr (skip_range lo hi s))" set "sorted_wrt (<)"
  by unfold_locales
    (auto simp: skip_insert_def skip_range_from_def skip_range_def skip_from_eq strict_sorted_iff
      set_insort_insert distinct_insort_insert sorted_insort_insert)

subsection \<open>Properties of the deferred index\<close>

text \<open>Any sequence of insertions and scans (each scan reorganises the index).\<close>

datatype index_op = IInsert key | IScanFrom key | IScan key key | ICompact

fun index_step :: "index_op \<Rightarrow> DeferredSortedIndex \<Rightarrow> DeferredSortedIndex" where
  "index_step (IInsert k) i = dsi_insert k i"
| "index_step (IScanFrom lo) i = fst (dsi_range_from lo i)"
| "index_step (IScan lo hi) i = fst (dsi_range lo hi i)"
| "index_step ICompact i = dsi_compact i"

fun inserted_keys :: "index_op list \<Rightarrow> key set" where
  "inserted_keys [] = {}"
| "inserted_keys (IInsert k # ops) = insert k (inserted_keys ops)"
| "inserted_keys (_ # ops) = inserted_keys ops"

lemma index_run:
  "dsi_wf i \<Longrightarrow> dsi_wf (fold index_step ops i) \<and> dsi_keys (fold index_step ops i) = inserted_keys ops \<union> dsi_keys i"
proof (induction ops arbitrary: i)
  case (Cons op ops)
  then show ?case
    by (cases op) (simp_all add: dsi_wf_insert dsi_keys_insert dsi_range_from_eq fst_dsi_range
        dsi_wf_compact dsi_compact_keys)
qed simp

lemma dsi_keys_new: "dsi_keys (dsi_with_config config) = {}"
  by (simp add: dsi_keys_def dsi_with_config_def)

lemma index_run_new:
  "dsi_wf (fold index_step ops (dsi_with_config config))"
  "dsi_keys (fold index_step ops (dsi_with_config config)) = inserted_keys ops"
  using index_run [OF dsi_wf_new, of ops config] by (simp_all add: dsi_keys_new)

text \<open>
  After any sequence of insertions, scans and compactions of a deferred index, whatever its
  compaction threshold, a scan from \<open>lo\<close> returns exactly the inserted keys at or above \<open>lo\<close>, ascending
  and without repetition, and membership is membership among the inserted keys.
\<close>

lemma deferred_index_scan:
  "snd (dsi_range_from lo (fold index_step ops (dsi_with_config config)))
     = sorted_list_of_set {k \<in> inserted_keys ops. lo \<le> k} \<and>
   (dsi_contains k (fold index_step ops (dsi_with_config config)) \<longleftrightarrow> k \<in> inserted_keys ops)"
  using deferred.from_eq [OF index_run_new(1)] dsi_contains_iff [OF index_run_new(1)] index_run_new(2)
  by simp

text \<open>
  The bounded scan of the deferred index: for ordered bounds it is the inserted keys in \<open>[lo, hi)\<close>,
  ascending; for reversed bounds it panics as soon as some inserted key lies between them.
\<close>

lemma deferred_index_range:
  "snd (dsi_range lo hi (fold index_step ops (dsi_with_config config))) =
     (if lo \<le> hi then Inr (sorted_list_of_set {k \<in> inserted_keys ops. lo \<le> k \<and> k < hi})
      else if \<exists>k \<in> inserted_keys ops. hi \<le> k \<and> k < lo then Inl (Panic ''slice index out of range'')
      else Inr [])"
proof -
  let ?i = "fold index_step ops (dsi_with_config config)"
  let ?xs = "sorted_list_of_set (inserted_keys ops)"
  note wf = index_run_new(1) [of ops config] and keys = index_run_new(2) [of ops config]
  show ?thesis
  proof (cases "lo \<le> hi")
    case True
    then show ?thesis using deferred.between_eq [OF wf] keys by simp
  next
    case False
    have xs: "dsi_sorted_vec (dsi_compact ?i) = ?xs" "sorted_wrt (<) ?xs" and fin: "finite (inserted_keys ops)"
      using dsi_compact_eq [OF wf] dsi_compact_sorted [OF wf] keys finite_dsi_keys [of ?i] by auto
    have "snd (dsi_range lo hi ?i) =
        slice ?xs (length (filter (\<lambda>k. k < lo) ?xs)) (length (filter (\<lambda>k. k < hi) ?xs))"
      using xs by (simp add: dsi_range_def Let_def dsi_ensure_compacted_eq [OF wf]
          partition_point_eq partitioned_less takeWhile_less_sorted)
    moreover have "length (filter (\<lambda>k. k < lo) ys) =
        length (filter (\<lambda>k. k < hi) ys) + length (filter (\<lambda>k. hi \<le> k \<and> k < lo) ys)" for ys
      using False by (induction ys) auto
    moreover have "filter (\<lambda>k. hi \<le> k \<and> k < lo) ?xs = [] \<longleftrightarrow> \<not> (\<exists>k \<in> inserted_keys ops. hi \<le> k \<and> k < lo)"
      using fin by (auto simp: filter_empty_conv)
    moreover have "length (filter (\<lambda>k. k < hi) ?xs) \<le> length ?xs" by (rule length_filter_le)
    ultimately show ?thesis using False by (auto simp: slice_def simp del: length_sorted_list_of_set)
  qed
qed

end
