(* ===== verification/Mem_Table.thy ===== *)
theory Mem_Table
  imports Version_Chain Deferred_Index
begin

text \<open>
  \<^verbatim>\<open>EpochDirtyList\<close>, \<^verbatim>\<open>MvccMemTable\<close> and \<^verbatim>\<open>ScanRangeIterator\<close> of
  \<^verbatim>\<open>sochdb-storage/src/durable_storage.rs\<close>: the in-memory multi-version table, its optional ordered
  index and its epoch-based garbage collection.  What a table promises its client is the locale
  \<open>mvcc_table\<close>: every operation acts on one version chain per key.
\<close>

subsection \<open>Dirty keys by epoch\<close>

text \<open>A ring of four lists; the current epoch selects the list that writes append to.\<close>

record 'k EpochDirtyList =
  edl_epochs :: "'k list list"
  edl_current_epoch :: u64

definition EPOCH_RING_SIZE :: nat where
  "EPOCH_RING_SIZE = 4"

definition edl_new :: "'k EpochDirtyList" where
  "edl_new = \<lparr>edl_epochs = [[], [], [], []], edl_current_epoch = 0\<rparr>"

definition edl_record_version :: "'k \<Rightarrow> 'k EpochDirtyList \<Rightarrow> 'k EpochDirtyList" where
  "edl_record_version k d =
     (let idx = unat (edl_current_epoch d) mod EPOCH_RING_SIZE
      in d\<lparr>edl_epochs := (edl_epochs d)[idx := edl_epochs d ! idx @ [k]]\<rparr>)"

definition edl_record_versions_batch :: "'k list \<Rightarrow> 'k EpochDirtyList \<Rightarrow> 'k EpochDirtyList" where
  "edl_record_versions_batch ks d =
     (let idx = unat (edl_current_epoch d) mod EPOCH_RING_SIZE
      in d\<lparr>edl_epochs := (edl_epochs d)[idx := edl_epochs d ! idx @ ks]\<rparr>)"

definition edl_advance_epoch :: "'k EpochDirtyList \<Rightarrow> 'k EpochDirtyList \<times> u64 \<times> 'k list" where
  "edl_advance_epoch d =
     (let old_epoch = edl_current_epoch d;
          old_idx = unat old_epoch mod EPOCH_RING_SIZE
      in (d\<lparr>edl_current_epoch := old_epoch + 1, edl_epochs := (edl_epochs d)[old_idx := []]\<rparr>,
          old_epoch, edl_epochs d ! old_idx))"

definition edl_current :: "'k EpochDirtyList \<Rightarrow> u64" where
  "edl_current d = edl_current_epoch d"

subsection \<open>The table\<close>

record MvccMemTable =
  mmt_data :: "(key, VersionChain) dashmap"
  mmt_deferred_index :: "DeferredSortedIndex option"
  mmt_ordered_index :: "skip_set option"
  mmt_use_deferred :: bool
  mmt_size_bytes :: u64
  mmt_dirty_list :: "key EpochDirtyList"

definition mmt_with_index_mode :: "bool \<Rightarrow> bool \<Rightarrow> MvccMemTable" where
  "mmt_with_index_mode enable_ordered_index use_deferred =
     \<lparr>mmt_data = [],
      mmt_deferred_index =
        (if enable_ordered_index \<and> use_deferred
         then Some (dsi_with_config \<lparr>dic_max_unsorted_entries = 10000, dic_enabled = True\<rparr>) else None),
      mmt_ordered_index = (if enable_ordered_index \<and> \<not> use_deferred then Some [] else None),
      mmt_use_deferred = use_deferred, mmt_size_bytes = 0, mmt_dirty_list = edl_new\<rparr>"

definition mmt_with_ordered_index :: "bool \<Rightarrow> MvccMemTable" where
  "mmt_with_ordered_index enable_ordered_index = mmt_with_index_mode enable_ordered_index True"

definition mmt_new :: MvccMemTable where
  "mmt_new = mmt_with_ordered_index True"

definition value_size :: "val option \<Rightarrow> nat" where
  "value_size x = (case x of Some v \<Rightarrow> length v | None \<Rightarrow> 0)"

definition mmt_index_insert :: "key \<Rightarrow> MvccMemTable \<Rightarrow> MvccMemTable" where
  "mmt_index_insert k t =
     (case mmt_deferred_index t of
        Some idx \<Rightarrow> t\<lparr>mmt_deferred_index := Some (dsi_insert k idx)\<rparr>
      | None \<Rightarrow>
          (case mmt_ordered_index t of
             Some idx \<Rightarrow> t\<lparr>mmt_ordered_index := Some (skip_insert k idx)\<rparr>
           | None \<Rightarrow> t))"

text \<open>
  The entry interface: \<^verbatim>\<open>entry(key).or_default()\<close> creates an empty chain for an absent key, and a
  version of another transaction in its slot is a conflict.
\<close>

definition data_put :: "'k \<Rightarrow> val option \<Rightarrow> u64 \<Rightarrow> ('k, VersionChain) dashmap \<Rightarrow> ('k, VersionChain) dashmap \<times> bool" where
  "data_put k x t d =
     (let d1 = (case map_of d k of Some _ \<Rightarrow> d | None \<Rightarrow> dm_insert k vc_new d);
          entry = (case map_of d1 k of Some c \<Rightarrow> c | None \<Rightarrow> vc_new)
      in if vc_has_write_conflict t entry then (d1, False)
         else (dm_insert k (vc_add_uncommitted x t entry) d1, True))"

definition ww_conflict :: failure where
  "ww_conflict = Err (Internal ''Write-write conflict detected'')"

definition mmt_write :: "key \<Rightarrow> val option \<Rightarrow> u64 \<Rightarrow> MvccMemTable \<Rightarrow> MvccMemTable \<times> unit result" where
  "mmt_write k x txn t =
     (let t1 = t\<lparr>mmt_dirty_list := edl_record_version k (mmt_dirty_list t)\<rparr>;
          t2 = mmt_index_insert k t1;
          (d, ok) = data_put k x txn (mmt_data t2);
          t3 = t2\<lparr>mmt_data := d\<rparr>
      in if \<not> ok then (t3, Inl ww_conflict)
         else (t3\<lparr>mmt_size_bytes := mmt_size_bytes t3 + word_of_nat (length k + value_size x)\<rparr>, Inr ()))"

fun mmt_write_batch_loop ::
    "(key \<times> val option) list \<Rightarrow> u64 \<Rightarrow> u64 \<Rightarrow> MvccMemTable \<Rightarrow> MvccMemTable \<times> u64 result" where
  "mmt_write_batch_loop [] txn total_size t = (t, Inr total_size)"
| "mmt_write_batch_loop ((k, x) # ws) txn total_size t =
     (let t1 = mmt_index_insert k t;
          (d, ok) = data_put k x txn (mmt_data t1);
          t2 = t1\<lparr>mmt_data := d\<rparr>
      in if \<not> ok then (t2, Inl ww_conflict)
         else mmt_write_batch_loop ws txn (total_size + word_of_nat (length k + value_size x)) t2)"

definition mmt_write_batch :: "(key \<times> val option) list \<Rightarrow> u64 \<Rightarrow> MvccMemTable \<Rightarrow> MvccMemTable \<times> unit result" where
  "mmt_write_batch ws txn t =
     (let t1 = t\<lparr>mmt_dirty_list := edl_record_versions_batch (map fst ws) (mmt_dirty_list t)\<rparr>
      in case mmt_write_batch_loop ws txn 0 t1 of
           (t2, Inl e) \<Rightarrow> (t2, Inl e)
         | (t2, Inr total_size) \<Rightarrow> (t2\<lparr>mmt_size_bytes := mmt_size_bytes t2 + total_size\<rparr>, Inr ()))"

definition chain_value :: "u64 \<Rightarrow> u64 option \<Rightarrow> VersionChain \<Rightarrow> val option" where
  "chain_value snap cur c = Option.bind (vc_read_at snap cur c) ver_value"

definition mmt_read :: "key \<Rightarrow> u64 \<Rightarrow> u64 option \<Rightarrow> MvccMemTable \<Rightarrow> val option" where
  "mmt_read k snap cur t = Option.bind (map_of (mmt_data t) k) (chain_value snap cur)"

definition data_commit :: "u64 \<Rightarrow> u64 \<Rightarrow> 'k list \<Rightarrow> ('k, VersionChain) dashmap \<Rightarrow> ('k, VersionChain) dashmap" where
  "data_commit txn cts ws d = fold (\<lambda>k. dm_alter k (\<lambda>c. fst (vc_commit txn cts c))) ws d"

definition mmt_commit :: "u64 \<Rightarrow> u64 \<Rightarrow> key list \<Rightarrow> MvccMemTable \<Rightarrow> MvccMemTable" where
  "mmt_commit txn cts ws t = t\<lparr>mmt_data := data_commit txn cts ws (mmt_data t)\<rparr>"

definition mmt_commit_all :: "u64 \<Rightarrow> u64 \<Rightarrow> MvccMemTable \<Rightarrow> MvccMemTable" where
  "mmt_commit_all txn cts t = t\<lparr>mmt_data := dm_map (\<lambda>c. fst (vc_commit txn cts c)) (mmt_data t)\<rparr>"

definition mmt_abort :: "u64 \<Rightarrow> MvccMemTable \<Rightarrow> MvccMemTable" where
  "mmt_abort txn t = t\<lparr>mmt_data := dm_map (vc_abort txn) (mmt_data t)\<rparr>"

subsection \<open>Scans\<close>

text \<open>The loop body of the indexed scans: keep a key whose visible version has a value.\<close>

definition collect_visible :: "('k \<Rightarrow> val option) \<Rightarrow> 'k list \<Rightarrow> ('k \<times> val) list" where
  "collect_visible look ks = List.map_filter (\<lambda>k. map_option (\<lambda>v. (k, v)) (look k)) ks"

text \<open>The loop over the map itself, in its iteration order.\<close>

definition data_scan ::
    "('k \<Rightarrow> bool) \<Rightarrow> u64 \<Rightarrow> u64 option \<Rightarrow> ('k, VersionChain) dashmap \<Rightarrow> ('k \<times> val) list" where
  "data_scan p snap cur d =
     List.map_filter (\<lambda>(k, c). if p k then map_option (\<lambda>v. (k, v)) (chain_value snap cur c) else None) d"

definition mmt_scan_prefix ::
    "key \<Rightarrow> u64 \<Rightarrow> u64 option \<Rightarrow> MvccMemTable \<Rightarrow> MvccMemTable \<times> (key \<times> val) list" where
  "mmt_scan_prefix p snap cur t =
     (case mmt_deferred_index t of
        Some idx \<Rightarrow>
          (let (idx', ks) = dsi_range_from p idx
           in (t\<lparr>mmt_deferred_index := Some idx'\<rparr>,
               collect_visible (\<lambda>k. mmt_read k snap cur t) (takeWhile (prefix p) ks)))
      | None \<Rightarrow>
          (case mmt_ordered_index t of
             Some idx \<Rightarrow>
               (t, collect_visible (\<lambda>k. mmt_read k snap cur t) (takeWhile (prefix p) (skip_range_from p idx)))
           | None \<Rightarrow> (t, data_scan (prefix p) snap cur (mmt_data t))))"

definition mmt_scan_all :: "u64 \<Rightarrow> u64 option \<Rightarrow> MvccMemTable \<Rightarrow> (key \<times> val) list" where
  "mmt_scan_all snap cur t = data_scan (\<lambda>_. True) snap cur (mmt_data t)"

definition mmt_scan_prefix_iter :: "key \<Rightarrow> u64 \<Rightarrow> u64 option \<Rightarrow> MvccMemTable \<Rightarrow> (key \<times> val) list" where
  "mmt_scan_prefix_iter p snap cur t = data_scan (prefix p) snap cur (mmt_data t)"

text \<open>An empty upper bound stands for no bound.\<close>

definition in_range :: "key \<Rightarrow> key \<Rightarrow> key \<Rightarrow> bool" where
  "in_range lo hi k \<longleftrightarrow> \<not> k < lo \<and> \<not> (hi \<noteq> [] \<and> k \<ge> hi)"

definition mmt_scan_range ::
    "key \<Rightarrow> key \<Rightarrow> u64 \<Rightarrow> u64 option \<Rightarrow> MvccMemTable \<Rightarrow> MvccMemTable \<times> (key \<times> val) list result" where
  "mmt_scan_range lo hi snap cur t =
     (case mmt_deferred_index t of
        Some idx \<Rightarrow>
          (if hi = []
           then let (idx', ks) = dsi_range_from lo idx
                in (t\<lparr>mmt_deferred_index := Some idx'\<rparr>, Inr (collect_visible (\<lambda>k. mmt_read k snap cur t) ks))
           else let (idx', r) = dsi_range lo hi idx
                in (t\<lparr>mmt_deferred_index := Some idx'\<rparr>,
                    try_bind r (\<lambda>ks. Inr (collect_visible (\<lambda>k. mmt_read k snap cur t) ks))))
      | None \<Rightarrow>
          (case mmt_ordered_index t of
             Some idx \<Rightarrow>
               (t, Inr (collect_visible (\<lambda>k. mmt_read k snap cur t)
                     (if hi = [] then skip_range_from lo idx else skip_range lo hi idx)))
           | None \<Rightarrow> (t, Inr (data_scan (in_range lo hi) snap cur (mmt_data t)))))"

subsection \<open>The streaming range scan\<close>

text \<open>
  The iterator is lazy: the first call of \<^verbatim>\<open>next\<close> chooses the source and fixes the keys to visit, each
  call looks at the table until it finds a visible value.
\<close>

record ScanRangeIterator =
  sri_start :: key
  sri_end :: key
  sri_snapshot_ts :: u64
  sri_current_txn_id :: "u64 option"
  sri_use_ordered :: bool
  sri_ordered_iter :: "key list option"
  sri_unordered_iter :: "(key \<times> VersionChain) list option"
  sri_initialized :: bool

definition mmt_scan_range_iter ::
    "key \<Rightarrow> key \<Rightarrow> u64 \<Rightarrow> u64 option \<Rightarrow> MvccMemTable \<Rightarrow> MvccMemTable \<times> ScanRangeIterator" where
  "mmt_scan_range_iter lo hi snap cur t =
     (t\<lparr>mmt_deferred_index := map_option dsi_compact (mmt_deferred_index t)\<rparr>,
      \<lparr>sri_start = lo, sri_end = hi, sri_snapshot_ts = snap, sri_current_txn_id = cur,
       sri_use_ordered = (mmt_ordered_index t \<noteq> None \<or> mmt_deferred_index t \<noteq> None),
       sri_ordered_iter = None, sri_unordered_iter = None, sri_initialized = False\<rparr>)"

definition sri_init :: "MvccMemTable \<Rightarrow> ScanRangeIterator \<Rightarrow> (MvccMemTable \<times> ScanRangeIterator) result" where
  "sri_init t it =
     (if sri_initialized it then Inr (t, it)
      else let it = it\<lparr>sri_initialized := True\<rparr>
           in if sri_use_ordered it
              then (case mmt_deferred_index t of
                      Some idx \<Rightarrow>
                        (let (idx', r) =
                               (if sri_end it = []
                                then (let (i, ks) = dsi_range_from (sri_start it) idx in (i, Inr ks))
                                else dsi_range (sri_start it) (sri_end it) idx)
                         in try_bind r (\<lambda>ks. Inr (t\<lparr>mmt_deferred_index := Some idx'\<rparr>, it\<lparr>sri_ordered_iter := Some ks\<rparr>)))
                    | None \<Rightarrow>
                        (case mmt_ordered_index t of
                           Some idx \<Rightarrow>
                             Inr (t, it\<lparr>sri_ordered_iter := Some
                               (if sri_end it = [] then skip_range_from (sri_start it) idx
                                else skip_range (sri_start it) (sri_end it) idx)\<rparr>)
                         | None \<Rightarrow> Inr (t, it)))
              else Inr (t, it\<lparr>sri_unordered_iter := Some (mmt_data t)\<rparr>))"

fun next_ordered :: "(key \<Rightarrow> val option) \<Rightarrow> key list \<Rightarrow> key list \<times> (key \<times> val) option" where
  "next_ordered look [] = ([], None)"
| "next_ordered look (k # ks) =
     (case look k of Some v \<Rightarrow> (ks, Some (k, v)) | None \<Rightarrow> next_ordered look ks)"

fun next_unordered ::
    "(key \<Rightarrow> bool) \<Rightarrow> (VersionChain \<Rightarrow> val option) \<Rightarrow> (key \<times> VersionChain) list \<Rightarrow>
     (key \<times> VersionChain) list \<times> (key \<times> val) option" where
  "next_unordered p look [] = ([], None)"
| "next_unordered p look ((k, c) # es) =
     (if \<not> p k then next_unordered p look es
      else case look c of Some v \<Rightarrow> (es, Some (k, v)) | None \<Rightarrow> next_unordered p look es)"

definition sri_next ::
    "MvccMemTable \<Rightarrow> ScanRangeIterator \<Rightarrow> (MvccMemTable \<times> ScanRangeIterator \<times> (key \<times> val) option) result" where
  "sri_next t it =
     try_bind (sri_init t it) (\<lambda>(t, it).
       case sri_ordered_iter it of
         Some ks \<Rightarrow>
           (let (ks', item) = next_ordered (\<lambda>k. mmt_read k (sri_snapshot_ts it) (sri_current_txn_id it) t) ks
            in Inr (t, it\<lparr>sri_ordered_iter := Some ks'\<rparr>, item))
       | None \<Rightarrow>
           (case sri_unordered_iter it of
              Some es \<Rightarrow>
                (let (es', item) =
                       next_unordered (in_range (sri_start it) (sri_end it))
                         (chain_value (sri_snapshot_ts it) (sri_current_txn_id it)) es
                 in Inr (t, it\<lparr>sri_unordered_iter := Some es'\<rparr>, item))
            | None \<Rightarrow> Inr (t, it, None)))"

text \<open>A client loop that calls \<^verbatim>\<open>next\<close> at most \<open>n\<close> times.\<close>

fun sri_collect :: "nat \<Rightarrow> MvccMemTable \<Rightarrow> ScanRangeIterator \<Rightarrow> (key \<times> val) list result" where
  "sri_collect 0 t it = Inr []"
| "sri_collect (Suc n) t it =
     try_bind (sri_next t it) (\<lambda>(t', it', item).
       case item of
         None \<Rightarrow> Inr []
       | Some kv \<Rightarrow> try_bind (sri_collect n t' it') (\<lambda>rest. Inr (kv # rest)))"

subsection \<open>Size and garbage collection\<close>

definition mmt_size :: "MvccMemTable \<Rightarrow> u64" where
  "mmt_size t = mmt_size_bytes t"

text \<open>Collect one entry, counting what it dropped.\<close>

definition gc_entry :: "u64 \<Rightarrow> 'k \<Rightarrow> ('k, VersionChain) dashmap \<times> nat \<Rightarrow> ('k, VersionChain) dashmap \<times> nat" where
  "gc_entry min_ts k s =
     (case map_of (fst s) k of
        Some c \<Rightarrow>
          (dm_alter k (vc_gc min_ts) (fst s),
           snd s + (vc_version_count c - vc_version_count (vc_gc min_ts c)))
      | None \<Rightarrow> s)"

definition mmt_gc :: "u64 \<Rightarrow> MvccMemTable \<Rightarrow> MvccMemTable \<times> nat" where
  "mmt_gc min_ts t =
     (let (dl, _, dirty_keys) = edl_advance_epoch (mmt_dirty_list t);
          t1 = t\<lparr>mmt_dirty_list := dl\<rparr>
      in if dirty_keys = [] then (t1, 0)
         else let (d, n) = fold (gc_entry min_ts) (remdups dirty_keys) (mmt_data t1, 0)
              in (t1\<lparr>mmt_data := d\<rparr>, n))"

definition mmt_gc_full_scan :: "u64 \<Rightarrow> MvccMemTable \<Rightarrow> MvccMemTable \<times> nat" where
  "mmt_gc_full_scan min_ts t =
     (t\<lparr>mmt_data := dm_map (vc_gc min_ts) (mmt_data t)\<rparr>,
      sum_list (map (\<lambda>(k, c). vc_version_count c - vc_version_count (vc_gc min_ts c)) (mmt_data t)))"

subsection \<open>The trait \<^verbatim>\<open>MvccStore\<close>\<close>

datatype MvccStoreError = WriteConflict

record MvccGcStats =
  gcs_versions_removed :: nat
  gcs_keys_scanned :: nat

definition mvcc_get :: "key \<Rightarrow> u64 \<Rightarrow> u64 option \<Rightarrow> MvccMemTable \<Rightarrow> val option" where
  "mvcc_get k snap cur t = mmt_read k snap cur t"

definition mvcc_put :: "key \<Rightarrow> val option \<Rightarrow> u64 \<Rightarrow> MvccMemTable \<Rightarrow> MvccMemTable \<times> (MvccStoreError + unit)" where
  "mvcc_put k x txn t =
     (let (d, ok) = data_put k x txn (mmt_data t)
      in (t\<lparr>mmt_data := d\<rparr>, if ok then Inr () else Inl WriteConflict))"

definition mvcc_commit_key :: "key \<Rightarrow> u64 \<Rightarrow> u64 \<Rightarrow> MvccMemTable \<Rightarrow> MvccMemTable \<times> bool" where
  "mvcc_commit_key k txn cts t =
     (case map_of (mmt_data t) k of
        Some c \<Rightarrow> (t\<lparr>mmt_data := dm_insert k (fst (vc_commit txn cts c)) (mmt_data t)\<rparr>, snd (vc_commit txn cts c))
      | None \<Rightarrow> (t, False))"

definition mvcc_abort_key :: "key \<Rightarrow> u64 \<Rightarrow> MvccMemTable \<Rightarrow> MvccMemTable" where
  "mvcc_abort_key k txn t = t\<lparr>mmt_data := dm_alter k (vc_abort txn) (mmt_data t)\<rparr>"

definition mvcc_has_conflict :: "key \<Rightarrow> u64 \<Rightarrow> MvccMemTable \<Rightarrow> bool" where
  "mvcc_has_conflict k txn t =
     (case map_of (mmt_data t) k of Some c \<Rightarrow> vc_has_write_conflict txn c | None \<Rightarrow> False)"

definition mvcc_gc :: "u64 \<Rightarrow> MvccMemTable \<Rightarrow> MvccMemTable \<times> MvccGcStats" where
  "mvcc_gc min_ts t =
     (let (t', n) = mmt_gc_full_scan min_ts t
      in (t', \<lparr>gcs_versions_removed = n, gcs_keys_scanned = length (mmt_data t)\<rparr>))"

definition mvcc_key_count :: "MvccMemTable \<Rightarrow> nat" where
  "mvcc_key_count t = length (mmt_data t)"

subsection \<open>The contract of a multi-version table\<close>

text \<open>
  A table is a map from keys to version chains; \<open>chain_of\<close> is that map, with the empty chain for a key
  never written.  Every operation is described by what it does to the chains.
\<close>

locale mvcc_table =
  fixes chain_of :: "'t \<Rightarrow> key \<Rightarrow> VersionChain"
    and inv :: "'t \<Rightarrow> bool"
    and twrite :: "key \<Rightarrow> val option \<Rightarrow> u64 \<Rightarrow> 't \<Rightarrow> 't \<times> unit result"
    and tread :: "key \<Rightarrow> u64 \<Rightarrow> u64 option \<Rightarrow> 't \<Rightarrow> val option"
    and tcommit :: "u64 \<Rightarrow> u64 \<Rightarrow> key list \<Rightarrow> 't \<Rightarrow> 't"
    and tabort :: "u64 \<Rightarrow> 't \<Rightarrow> 't"
    and tgc :: "u64 \<Rightarrow> 't \<Rightarrow> 't \<times> nat"
    and tscan :: "key \<Rightarrow> u64 \<Rightarrow> u64 option \<Rightarrow> 't \<Rightarrow> 't \<times> (key \<times> val) list"
  assumes chain_wf: "inv t \<Longrightarrow> vc_wf (chain_of t k)"
    and inv_write: "inv t \<Longrightarrow> inv (fst (twrite k x u t))"
    and chain_write: "inv t \<Longrightarrow> chain_of (fst (twrite k x u t)) k' =
      (if k' = k \<and> \<not> vc_has_write_conflict u (chain_of t k) then vc_add_uncommitted x u (chain_of t k)
       else chain_of t k')"
    and write_result: "inv t \<Longrightarrow> snd (twrite k x u t) =
      (if vc_has_write_conflict u (chain_of t k) then Inl ww_conflict else Inr ())"
    and read_eq: "inv t \<Longrightarrow> tread k s cur t = chain_value s cur (chain_of t k)"
    and inv_commit: "inv t \<Longrightarrow> inv (tcommit u cts ws t)"
    and chain_commit: "inv t \<Longrightarrow> chain_of (tcommit u cts ws t) k =
      (if k \<in> set ws then fst (vc_commit u cts (chain_of t k)) else chain_of t k)"
    and inv_abort: "inv t \<Longrightarrow> inv (tabort u t)"
    and chain_abort: "inv t \<Longrightarrow> chain_of (tabort u t) k = vc_abort u (chain_of t k)"
    and inv_gc: "inv t \<Longrightarrow> inv (fst (tgc m t))"
    and chain_gc: "inv t \<Longrightarrow> chain_of (fst (tgc m t)) k = chain_of t k \<or>
      chain_of (fst (tgc m t)) k = vc_gc m (chain_of t k)"
    and inv_scan: "inv t \<Longrightarrow> inv (fst (tscan p s cur t))"
    and chain_scan: "inv t \<Longrightarrow> chain_of (fst (tscan p s cur t)) k = chain_of t k"
    and scan_set: "inv t \<Longrightarrow> set (snd (tscan p s cur t)) = {(k, v). prefix p k \<and> tread k s cur t = Some v}"
    and scan_distinct: "inv t \<Longrightarrow> distinct (map fst (snd (tscan p s cur t)))"
begin

lemma read_own_write:
  assumes "inv t" "\<not> vc_has_write_conflict u (chain_of t k)"
  shows "tread k s (Some u) (fst (twrite k x u t)) = x"
  using assms vc_read_own_write [OF chain_wf [OF assms(1)], of s u x k]
  by (auto simp: read_eq inv_write chain_write chain_value_def)

lemma read_others_write:
  assumes "inv t" "cur \<noteq> Some u"
  shows "tread k' s cur (fst (twrite k x u t)) = tread k' s cur t"
  using assms by (simp add: read_eq inv_write chain_write chain_value_def vc_read_others_write chain_wf)

lemma read_abort:
  "inv t \<Longrightarrow> cur \<noteq> Some u \<Longrightarrow> tread k s cur (tabort u t) = tread k s cur t"
  by (simp add: read_eq inv_abort chain_abort chain_value_def vc_read_abort chain_wf)

lemma read_gc: "inv t \<Longrightarrow> m \<le> s \<Longrightarrow> tread k s cur (fst (tgc m t)) = tread k s cur t"
  using chain_gc [of t m k] by (auto simp: read_eq inv_gc chain_value_def vc_read_gc chain_wf)

lemma read_commit_later:
  "inv t \<Longrightarrow> s \<le> cts \<Longrightarrow> cur \<noteq> Some u \<Longrightarrow> tread k s cur (tcommit u cts ws t) = tread k s cur t"
  by (simp add: read_eq inv_commit chain_commit chain_value_def vc_read_commit_later chain_wf)

lemma read_commit_visible:
  assumes "inv t" "k \<in> set ws" "bsc_uncommitted (chain_of t k) = Some v" "ver_txn_id v = u"
    and "cts < s" "\<forall>w \<in> set (bsc_committed (chain_of t k)). ver_commit_ts w \<le> cts"
  shows "tread k s cur (tcommit u cts ws t) = ver_value v"
  using assms vc_read_commit_visible [OF chain_wf [OF assms(1)] assms(3-6), of cur]
  by (simp add: read_eq inv_commit chain_commit chain_value_def)

lemma read_commit_other_key:
  "inv t \<Longrightarrow> k \<notin> set ws \<Longrightarrow> tread k s cur (tcommit u cts ws t) = tread k s cur t"
  by (simp add: read_eq inv_commit chain_commit)

lemma read_scan: "inv t \<Longrightarrow> tread k s cur (fst (tscan p s' cur' t)) = tread k s cur t"
  by (simp add: read_eq inv_scan chain_scan)

text \<open>A second writer of a key is refused until the first one commits or aborts.\<close>

lemma second_writer_refused:
  assumes "inv t" "u \<noteq> w" "snd (twrite k x u t) = Inr ()"
  shows "snd (twrite k y w (fst (twrite k x u t))) = Inl ww_conflict"
  using assms vc_add_uncommitted_fields(2) [of x u "chain_of t k"]
  by (auto simp: write_result inv_write chain_write vc_has_write_conflict_def bsc_has_write_conflict_def
      split: if_splits)

end

subsection \<open>Chains behind a concurrent map\<close>

definition data_chain :: "('k, VersionChain) dashmap \<Rightarrow> 'k \<Rightarrow> VersionChain" where
  "data_chain d k = (case map_of d k of Some c \<Rightarrow> c | None \<Rightarrow> vc_new)"

definition data_wf :: "('k, VersionChain) dashmap \<Rightarrow> bool" where
  "data_wf d \<longleftrightarrow> dm_wf d \<and> (\<forall>k c. map_of d k = Some c \<longrightarrow> vc_wf c)"

lemma vc_new_fixed [simp]:
  "vc_commit u cts vc_new = (vc_new, False)" "vc_abort u vc_new = vc_new" "vc_gc m vc_new = vc_new"
  "vc_read_at s cur vc_new = None" "\<not> vc_has_write_conflict u vc_new"
  by (simp_all add: vc_new_def bsc_new_def vc_commit_def bsc_commit_def vc_abort_def bsc_abort_def
      vc_gc_def bsc_gc_by_ts_def vc_read_at_def bsc_read_at_def vec_get_def vc_has_write_conflict_def
      bsc_has_write_conflict_def split: option.split)

lemma data_wf_chain: "data_wf d \<Longrightarrow> vc_wf (data_chain d k)"
  by (auto simp: data_wf_def data_chain_def split: option.split)

lemma data_wf_alter: "data_wf d \<Longrightarrow> (\<And>c. vc_wf c \<Longrightarrow> vc_wf (f c)) \<Longrightarrow> data_wf (dm_alter k f d)"
  by (auto simp: data_wf_def split: if_splits)

lemma data_put_eq:
  "snd (data_put k x u d) \<longleftrightarrow> \<not> vc_has_write_conflict u (data_chain d k)"
  "data_chain (fst (data_put k x u d)) k' =
     (if k' = k \<and> \<not> vc_has_write_conflict u (data_chain d k) then vc_add_uncommitted x u (data_chain d k)
      else data_chain d k')"
  "fst ` set (fst (data_put k x u d)) = insert k (fst ` set d)"
proof -
  have dom: "k \<in> fst ` set d" if "map_of d k = Some c" for c
    using map_of_SomeD [OF that] by force
  show "snd (data_put k x u d) \<longleftrightarrow> \<not> vc_has_write_conflict u (data_chain d k)"
    by (simp add: data_put_def data_chain_def Let_def split: option.split)
  show "data_chain (fst (data_put k x u d)) k' =
     (if k' = k \<and> \<not> vc_has_write_conflict u (data_chain d k) then vc_add_uncommitted x u (data_chain d k)
      else data_chain d k')"
    by (simp add: data_put_def data_chain_def Let_def split: option.split)
  show "fst ` set (fst (data_put k x u d)) = insert k (fst ` set d)"
    using dom by (auto simp: data_put_def Let_def split: option.split)
qed

lemma data_wf_put [wf_intros]: "data_wf d \<Longrightarrow> data_wf (fst (data_put k x u d))"
  by (auto simp: data_wf_def data_put_def Let_def dm_wf_insert vc_wf_add_uncommitted split: option.splits)

lemma vc_commit_twice: "fst (vc_commit u cts (fst (vc_commit u cts c))) = fst (vc_commit u cts c)"
  by (auto simp: vc_commit_def bsc_commit_def Let_def split: option.split)

lemma data_chain_commit:
  "data_chain (data_commit u cts ws d) k =
     (if k \<in> set ws then fst (vc_commit u cts (data_chain d k)) else data_chain d k)"
  unfolding data_commit_def
proof (induction ws arbitrary: d)
  case (Cons w ws)
  then show ?case by (auto simp: data_chain_def vc_commit_twice split: option.split)
qed simp

lemma data_wf_commit [wf_intros]: "data_wf d \<Longrightarrow> data_wf (data_commit u cts ws d)"
  unfolding data_commit_def
  by (induction ws arbitrary: d) (simp_all add: data_wf_alter vc_wf_commit)

lemma keys_data_commit [simp]: "map fst (data_commit u cts ws d) = map fst d"
  unfolding data_commit_def by (induction ws arbitrary: d) simp_all

lemma data_chain_map:
  "f vc_new = vc_new \<Longrightarrow> data_chain (dm_map f d) k = f (data_chain d k)"
  by (simp add: data_chain_def split: option.split)

lemma data_wf_map: "data_wf d \<Longrightarrow> (\<And>c. vc_wf c \<Longrightarrow> vc_wf (f c)) \<Longrightarrow> data_wf (dm_map f d)"
  by (auto simp: data_wf_def)

lemma gc_entry_fold:
  assumes "distinct ks"
  shows "data_chain (fst (fold (gc_entry m) ks s)) k =
      (if k \<in> set ks then vc_gc m (data_chain (fst s) k) else data_chain (fst s) k)"
    and "map fst (fst (fold (gc_entry m) ks s)) = map fst (fst s)"
  using assms
  by (induction ks arbitrary: s) (auto simp: gc_entry_def data_chain_def split: option.split)

lemma data_wf_gc_fold: "data_wf (fst s) \<Longrightarrow> data_wf (fst (fold (gc_entry m) ks s))"
  by (induction ks arbitrary: s) (simp_all add: gc_entry_def data_wf_alter vc_wf_gc split: option.split)

lemma set_collect_visible: "set (collect_visible look ks) = {(k, v). k \<in> set ks \<and> look k = Some v}"
  by (force simp: collect_visible_def List.map_filter_def)

lemma keys_collect_visible: "map fst (collect_visible look ks) = filter (\<lambda>k. look k \<noteq> None) ks"
  by (induction ks) (auto simp: collect_visible_def List.map_filter_def split: option.split)

lemma data_scan_eq:
  assumes "data_wf d"
  shows "set (data_scan p s cur d) = {(k, v). p k \<and> chain_value s cur (data_chain d k) = Some v}"
    and "distinct (map fst (data_scan p s cur d))"
proof -
  have dw: "dm_wf d" using assms by (simp add: data_wf_def)
  show "set (data_scan p s cur d) = {(k, v). p k \<and> chain_value s cur (data_chain d k) = Some v}"
  proof (intro set_eqI iffI)
    fix kv
    assume "kv \<in> set (data_scan p s cur d)"
    then show "kv \<in> {(k, v). p k \<and> chain_value s cur (data_chain d k) = Some v}"
      by (auto simp: data_scan_def List.map_filter_def dm_in_set_iff [OF dw] data_chain_def split: if_splits)
  next
    fix kv
    assume "kv \<in> {(k, v). p k \<and> chain_value s cur (data_chain d k) = Some v}"
    then obtain k v c where kv: "kv = (k, v)" "p k" "chain_value s cur c = Some v" "(k, c) \<in> set d"
      by (auto simp: data_chain_def chain_value_def dm_in_set_iff [OF dw] split: option.splits)
    then show "kv \<in> set (data_scan p s cur d)"
      by (force simp: data_scan_def List.map_filter_def)
  qed
  have "map fst (data_scan p s cur d) =
      map fst (filter (\<lambda>(k, c). p k \<and> chain_value s cur c \<noteq> None) d)"
    unfolding data_scan_def by (induction d) (auto simp: List.map_filter_simps split: option.splits if_splits)
  with dw show "distinct (map fst (data_scan p s cur d))"
    by (simp add: dm_wf_def distinct_map_filter)
qed

subsection \<open>The table meets the contract\<close>

definition mmt_chain :: "MvccMemTable \<Rightarrow> key \<Rightarrow> VersionChain" where
  "mmt_chain t k = data_chain (mmt_data t) k"

text \<open>Every key with a chain is in the index, if there is one.\<close>

definition mmt_index_wf :: "MvccMemTable \<Rightarrow> bool" where
  "mmt_index_wf t \<longleftrightarrow>
     (case mmt_deferred_index t of
        Some idx \<Rightarrow> dsi_wf idx \<and> fst ` set (mmt_data t) \<subseteq> dsi_keys idx
      | None \<Rightarrow>
          (case mmt_ordered_index t of
             Some idx \<Rightarrow> sorted_wrt (<) idx \<and> fst ` set (mmt_data t) \<subseteq> set idx
           | None \<Rightarrow> True))"

definition mmt_wf :: "MvccMemTable \<Rightarrow> bool" where
  "mmt_wf t \<longleftrightarrow> data_wf (mmt_data t) \<and> mmt_index_wf t"

lemma mmt_wf_new [wf_intros]: "mmt_wf (mmt_with_index_mode enable deferred)"
  by (auto simp: mmt_wf_def mmt_with_index_mode_def mmt_index_wf_def data_wf_def dsi_wf_new)

lemma mmt_index_insert_other [simp]:
  "mmt_data (mmt_index_insert k t) = mmt_data t" "mmt_size_bytes (mmt_index_insert k t) = mmt_size_bytes t"
  "mmt_dirty_list (mmt_index_insert k t) = mmt_dirty_list t"
  by (simp_all add: mmt_index_insert_def split: option.split)

text \<open>Inserting the key before the entry keeps the index complete.\<close>

lemma mmt_wf_put:
  assumes "mmt_wf t"
  shows "mmt_wf ((mmt_index_insert k t)\<lparr>mmt_data := fst (data_put k x u (mmt_data t))\<rparr>)"
  using assms data_wf_put [of "mmt_data t" k x u] data_put_eq(3) [of k x u "mmt_data t"]
  by (simp add: mmt_wf_def mmt_index_wf_def mmt_index_insert_def dsi_wf_insert dsi_keys_insert
      skip.inv_ins skip.keys_ins subset_insertI2 split: option.splits)

lemma mmt_wf_same_keys:
  assumes "mmt_wf t" "data_wf d" "map fst d = map fst (mmt_data t)"
  shows "mmt_wf (t\<lparr>mmt_data := d\<rparr>)"
proof -
  have "fst ` set d = fst ` set (mmt_data t)" using assms(3) by (metis set_map)
  with assms(1,2) show ?thesis by (simp add: mmt_wf_def mmt_index_wf_def split: option.splits)
qed

lemma mmt_wf_bookkeeping [simp]:
  "mmt_wf (t\<lparr>mmt_dirty_list := dl\<rparr>) \<longleftrightarrow> mmt_wf t" "mmt_wf (t\<lparr>mmt_size_bytes := n\<rparr>) \<longleftrightarrow> mmt_wf t"
  by (simp_all add: mmt_wf_def mmt_index_wf_def split: option.split)

lemma mmt_write_eq:
  "mmt_write k x u t =
     (let t' = (mmt_index_insert k (t\<lparr>mmt_dirty_list := edl_record_version k (mmt_dirty_list t)\<rparr>))
                 \<lparr>mmt_data := fst (data_put k x u (mmt_data t))\<rparr>
      in if vc_has_write_conflict u (mmt_chain t k) then (t', Inl ww_conflict)
         else (t'\<lparr>mmt_size_bytes := mmt_size_bytes t + word_of_nat (length k + value_size x)\<rparr>, Inr ()))"
  using data_put_eq(1) [of k x u "mmt_data t"]
  by (simp add: mmt_write_def Let_def case_prod_unfold mmt_chain_def)

lemma mmt_wf_write [wf_intros]: "mmt_wf t \<Longrightarrow> mmt_wf (fst (mmt_write k x u t))"
  using mmt_wf_put [of "t\<lparr>mmt_dirty_list := edl_record_version k (mmt_dirty_list t)\<rparr>" k x u]
  by (simp add: mmt_write_eq Let_def)

lemma mmt_chain_write:
  "mmt_chain (fst (mmt_write k x u t)) k' =
     (if k' = k \<and> \<not> vc_has_write_conflict u (mmt_chain t k) then vc_add_uncommitted x u (mmt_chain t k)
      else mmt_chain t k')"
  by (simp add: mmt_write_eq Let_def mmt_chain_def data_put_eq(2))

lemma mmt_read_eq: "mmt_read k s cur t = chain_value s cur (mmt_chain t k)"
  by (simp add: mmt_read_def mmt_chain_def data_chain_def chain_value_def split: option.split)

lemma mmt_read_in_data: "mmt_read k s cur t = Some v \<Longrightarrow> k \<in> fst ` set (mmt_data t)"
  by (force simp: mmt_read_def bind_eq_Some_conv dest: map_of_SomeD)

lemma mmt_gc_chain:
  "mmt_chain (fst (mmt_gc m t)) k =
     (if k \<in> set (snd (snd (edl_advance_epoch (mmt_dirty_list t)))) then vc_gc m (mmt_chain t k) else mmt_chain t k)"
  by (simp add: mmt_gc_def Let_def case_prod_unfold mmt_chain_def gc_entry_fold(1))

lemma mmt_wf_gc [wf_intros]: "mmt_wf t \<Longrightarrow> mmt_wf (fst (mmt_gc m t))"
  by (auto simp: mmt_gc_def Let_def case_prod_unfold gc_entry_fold(2)
      intro!: mmt_wf_same_keys data_wf_gc_fold) (simp add: mmt_wf_def)

text \<open>The index path of a scan is the sorted list of the visible keys in range.\<close>

lemma mmt_scan_prefix_fst:
  "fst (mmt_scan_prefix p s cur t) = t\<lparr>mmt_deferred_index := map_option (\<lambda>i. fst (dsi_range_from p i)) (mmt_deferred_index t)\<rparr>"
  by (simp add: mmt_scan_prefix_def case_prod_unfold Let_def split: option.split)

lemma mmt_wf_compacted:
  assumes "mmt_wf t" "\<And>i. dsi_wf i \<Longrightarrow> dsi_wf (f i) \<and> dsi_keys (f i) = dsi_keys i"
  shows "mmt_wf (t\<lparr>mmt_deferred_index := map_option f (mmt_deferred_index t)\<rparr>)"
  using assms by (auto simp: mmt_wf_def mmt_index_wf_def split: option.splits)

lemma mmt_scan_prefix_eq:
  assumes "mmt_wf t"
  shows "set (snd (mmt_scan_prefix p s cur t)) = {(k, v). prefix p k \<and> mmt_read k s cur t = Some v}"
    and "distinct (map fst (snd (mmt_scan_prefix p s cur t)))"
    and "mmt_deferred_index t \<noteq> None \<or> mmt_ordered_index t \<noteq> None \<Longrightarrow>
      sorted (map fst (snd (mmt_scan_prefix p s cur t)))"
proof -
  have indexed: "set (collect_visible (\<lambda>k. mmt_read k s cur t) (sorted_list_of_set {k \<in> ks. prefix p k}))
      = {(k, v). prefix p k \<and> mmt_read k s cur t = Some v}"
    if "finite ks" "fst ` set (mmt_data t) \<subseteq> ks" for ks
    using that mmt_read_in_data [of _ s cur t] by (auto simp: set_collect_visible)
  note scan = mmt_scan_prefix_def case_prod_unfold Let_def deferred.prefix_scan skip.prefix_scan [simplified]
    mmt_wf_def mmt_index_wf_def
  show "set (snd (mmt_scan_prefix p s cur t)) = {(k, v). prefix p k \<and> mmt_read k s cur t = Some v}"
    using assms indexed data_scan_eq(1) [of "mmt_data t" "prefix p" s cur]
    by (auto simp: scan mmt_read_eq mmt_chain_def split: option.splits)
  show "distinct (map fst (snd (mmt_scan_prefix p s cur t)))"
    using assms data_scan_eq(2) [of "mmt_data t" "prefix p" s cur]
    by (auto simp: scan keys_collect_visible split: option.splits)
  show "sorted (map fst (snd (mmt_scan_prefix p s cur t)))"
    if "mmt_deferred_index t \<noteq> None \<or> mmt_ordered_index t \<noteq> None"
    using assms that by (auto simp: scan keys_collect_visible sorted_wrt_filter split: option.splits)
qed

interpretation std: mvcc_table mmt_chain mmt_wf mmt_write mmt_read mmt_commit mmt_abort mmt_gc mmt_scan_prefix
proof (unfold_locales, goal_cases)
  case (1 t k) then show ?case by (simp add: mmt_wf_def mmt_chain_def data_wf_chain)
next
  case (2 t k x u) then show ?case by (rule mmt_wf_write)
next
  case (3 t k x u k') show ?case by (rule mmt_chain_write)
next
  case (4 t k x u) show ?case by (simp add: mmt_write_eq Let_def)
next
  case (5 t k s cur) show ?case by (rule mmt_read_eq)
next
  case (6 t u cts ws)
  then show ?case by (auto simp: mmt_commit_def mmt_wf_def [of t] intro!: mmt_wf_same_keys data_wf_commit)
next
  case (7 t u cts ws k) show ?case by (simp add: mmt_commit_def mmt_chain_def data_chain_commit)
next
  case (8 t u)
  then show ?case by (auto simp: mmt_abort_def mmt_wf_def [of t] vc_wf_abort intro!: mmt_wf_same_keys data_wf_map)
next
  case (9 t u k) show ?case by (simp add: mmt_abort_def mmt_chain_def data_chain_map)
next
  case (10 t m) then show ?case by (rule mmt_wf_gc)
next
  case (11 t m k) show ?case by (simp add: mmt_gc_chain)
next
  case (12 t p s cur)
  then show ?case unfolding mmt_scan_prefix_fst
    by (rule mmt_wf_compacted) (simp add: dsi_range_from_eq dsi_wf_compact dsi_compact_keys)
next
  case (13 t p s cur k) show ?case by (simp add: mmt_scan_prefix_fst mmt_chain_def)
next
  case (14 t p s cur) then show ?case by (rule mmt_scan_prefix_eq)
next
  case (15 t p s cur) then show ?case by (rule mmt_scan_prefix_eq)
qed

subsection \<open>Range scans\<close>

lemma in_range_simps:
  "in_range lo [] k \<longleftrightarrow> lo \<le> k"
  "hi \<noteq> [] \<Longrightarrow> in_range lo hi k \<longleftrightarrow> lo \<le> k \<and> k < hi"
  by (auto simp: in_range_def)

lemma indexed_range_scan:
  assumes "finite ks" "fst ` set (mmt_data t) \<subseteq> ks"
    and "res = collect_visible (\<lambda>k. mmt_read k s cur t) (sorted_list_of_set {k \<in> ks. in_range lo hi k})"
  shows "set res = {(k, v). in_range lo hi k \<and> mmt_read k s cur t = Some v}"
    and "distinct (map fst res)" and "sorted (map fst res)"
  using assms mmt_read_in_data [of _ s cur t]
  by (auto simp: set_collect_visible keys_collect_visible sorted_wrt_filter)

text \<open>Either index answers from the keys it holds.\<close>

lemma mmt_scan_range_indexed:
  assumes "mmt_wf t" "lo \<le> hi \<or> hi = []" "mmt_deferred_index t \<noteq> None \<or> mmt_ordered_index t \<noteq> None"
  shows "\<exists>ks. finite ks \<and> fst ` set (mmt_data t) \<subseteq> ks \<and>
    snd (mmt_scan_range lo hi s cur t)
      = Inr (collect_visible (\<lambda>k. mmt_read k s cur t) (sorted_list_of_set {k \<in> ks. in_range lo hi k}))"
proof (cases "mmt_deferred_index t")
  case (Some idx)
  then have idx: "dsi_wf idx" "fst ` set (mmt_data t) \<subseteq> dsi_keys idx"
    using assms(1) by (auto simp: mmt_wf_def mmt_index_wf_def)
  show ?thesis
    by (rule exI [of _ "dsi_keys idx"])
      (use Some idx assms(2) in \<open>auto simp: mmt_scan_range_def dsi_range_from_eq dsi_range_eq in_range_simps\<close>)
next
  case None
  with assms(3) obtain idx where o: "mmt_ordered_index t = Some idx" by auto
  then have idx: "sorted_wrt (<) idx" "fst ` set (mmt_data t) \<subseteq> set idx"
    using assms(1) None by (auto simp: mmt_wf_def mmt_index_wf_def)
  show ?thesis
    by (rule exI [of _ "set idx"])
      (use None o idx in \<open>auto simp: mmt_scan_range_def skip_range_from_def skip_range_def skip_from_eq in_range_simps\<close>)
qed

lemma mmt_scan_range_eq:
  assumes "mmt_wf t" "lo \<le> hi \<or> hi = []"
  obtains res where "snd (mmt_scan_range lo hi s cur t) = Inr res"
    and "set res = {(k, v). in_range lo hi k \<and> mmt_read k s cur t = Some v}"
    and "distinct (map fst res)"
    and "mmt_deferred_index t \<noteq> None \<or> mmt_ordered_index t \<noteq> None \<Longrightarrow> sorted (map fst res)"
proof (cases "mmt_deferred_index t \<noteq> None \<or> mmt_ordered_index t \<noteq> None")
  case True
  obtain ks where "finite ks" "fst ` set (mmt_data t) \<subseteq> ks"
    and res: "snd (mmt_scan_range lo hi s cur t)
      = Inr (collect_visible (\<lambda>k. mmt_read k s cur t) (sorted_list_of_set {k \<in> ks. in_range lo hi k}))"
    using mmt_scan_range_indexed [OF assms True, of s cur] by blast
  note ix = indexed_range_scan [OF this(1,2) refl, of s cur lo hi]
  show ?thesis by (rule that [OF res]) (use ix in auto)
next
  case False
  then show ?thesis
    using assms(1) data_scan_eq [of "mmt_data t" "in_range lo hi" s cur]
    by (intro that) (simp_all add: mmt_scan_range_def mmt_wf_def mmt_read_eq mmt_chain_def)
qed

text \<open>Draining an initialised iterator.\<close>

lemma next_ordered_eq:
  "collect_visible look ks =
     (case next_ordered look ks of (ks', None) \<Rightarrow> [] | (ks', Some kv) \<Rightarrow> kv # collect_visible look ks')"
  by (induction ks) (auto simp: collect_visible_def List.map_filter_simps split: option.splits prod.splits)

lemma next_unordered_eq:
  "data_scan p s cur es =
     (case next_unordered p (chain_value s cur) es of
        (es', None) \<Rightarrow> [] | (es', Some kv) \<Rightarrow> kv # data_scan p s cur es')"
proof (induction es)
  case (Cons e es)
  obtain k c where "e = (k, c)" by fastforce
  with Cons show ?case
    by (auto simp: data_scan_def List.map_filter_simps split: option.splits prod.splits)
qed (simp add: data_scan_def List.map_filter_simps)

lemma sri_collect_ordered:
  assumes "sri_initialized it" "sri_ordered_iter it = Some ks"
    and "length (collect_visible (\<lambda>k. mmt_read k (sri_snapshot_ts it) (sri_current_txn_id it) t) ks) < n"
  shows "sri_collect n t it
    = Inr (collect_visible (\<lambda>k. mmt_read k (sri_snapshot_ts it) (sri_current_txn_id it) t) ks)"
  using assms
proof (induction n arbitrary: it ks)
  case (Suc n)
  let ?look = "\<lambda>k. mmt_read k (sri_snapshot_ts it) (sri_current_txn_id it) t"
  obtain ks' item where nx: "next_ordered ?look ks = (ks', item)" by fastforce
  have nxt: "sri_next t it = Inr (t, it\<lparr>sri_ordered_iter := Some ks'\<rparr>, item)"
    using Suc.prems nx by (simp add: sri_next_def sri_init_def)
  show ?case
  proof (cases item)
    case None
    with nx nxt next_ordered_eq [of ?look ks] show ?thesis by simp
  next
    case (Some kv)
    then have cv: "collect_visible ?look ks = kv # collect_visible ?look ks'"
      using nx next_ordered_eq [of ?look ks] by simp
    have "sri_collect n t (it\<lparr>sri_ordered_iter := Some ks'\<rparr>) = Inr (collect_visible ?look ks')"
      using Suc.IH [of "it\<lparr>sri_ordered_iter := Some ks'\<rparr>" ks'] Suc.prems cv by simp
    with Some cv nxt show ?thesis by simp
  qed
qed simp

lemma sri_collect_unordered:
  assumes "sri_initialized it" "sri_ordered_iter it = None" "sri_unordered_iter it = Some es"
    and "length (data_scan (in_range (sri_start it) (sri_end it)) (sri_snapshot_ts it) (sri_current_txn_id it) es) < n"
  shows "sri_collect n t it
    = Inr (data_scan (in_range (sri_start it) (sri_end it)) (sri_snapshot_ts it) (sri_current_txn_id it) es)"
  using assms
proof (induction n arbitrary: it es)
  case (Suc n)
  let ?p = "in_range (sri_start it) (sri_end it)"
  let ?s = "sri_snapshot_ts it" and ?cur = "sri_current_txn_id it"
  obtain es' item where nx: "next_unordered ?p (chain_value ?s ?cur) es = (es', item)" by fastforce
  have nxt: "sri_next t it = Inr (t, it\<lparr>sri_unordered_iter := Some es'\<rparr>, item)"
    using Suc.prems nx by (simp add: sri_next_def sri_init_def)
  show ?case
  proof (cases item)
    case None
    with nx nxt next_unordered_eq [of ?p ?s ?cur es] show ?thesis by simp
  next
    case (Some kv)
    then have cv: "data_scan ?p ?s ?cur es = kv # data_scan ?p ?s ?cur es'"
      using nx next_unordered_eq [of ?p ?s ?cur es] by simp
    have "sri_collect n t (it\<lparr>sri_unordered_iter := Some es'\<rparr>) = Inr (data_scan ?p ?s ?cur es')"
      using Suc.IH [of "it\<lparr>sri_unordered_iter := Some es'\<rparr>" es'] Suc.prems cv by simp
    with Some cv nxt show ?thesis by simp
  qed
qed simp

lemma sri_init_initialized: "sri_init t it = Inr (t', it') \<Longrightarrow> sri_initialized it'"
  by (auto simp: sri_init_def Let_def try_bind_eq_Inr case_prod_unfold split: if_splits option.splits)

lemma sri_collect_init:
  "0 < n \<Longrightarrow> sri_collect n t it = try_bind (sri_init t it) (\<lambda>(t', it'). sri_collect n t' it')"
proof (cases "sri_init t it")
  case (Inr r)
  assume "0 < n"
  then obtain m where n: "n = Suc m" by (cases n) auto
  obtain t' it' where r: "r = (t', it')" by fastforce
  with Inr have "sri_init t' it' = Inr (t', it')"
    using sri_init_initialized [of t it t' it'] by (simp add: sri_init_def)
  then have "sri_next t it = sri_next t' it'" using Inr r by (simp add: sri_next_def)
  with Inr r n show ?thesis by simp
qed (auto simp: sri_next_def gr0_conv_Suc)

lemma dsi_range_compacted:
  assumes "dsi_wf i"
  shows "snd (dsi_range lo hi (dsi_compact i)) = snd (dsi_range lo hi i)"
    and "snd (dsi_range_from lo (dsi_compact i)) = snd (dsi_range_from lo i)"
proof -
  have "dsi_ensure_compacted (dsi_compact i) = dsi_compact i"
    using assms by (auto simp: dsi_ensure_compacted_def dsi_wf_def dsi_compact_def Let_def)
  then show "snd (dsi_range lo hi (dsi_compact i)) = snd (dsi_range lo hi i)"
    using assms by (simp add: dsi_range_def Let_def dsi_ensure_compacted_eq)
  show "snd (dsi_range_from lo (dsi_compact i)) = snd (dsi_range_from lo i)"
    using assms by (simp add: dsi_range_from_eq dsi_wf_compact dsi_compact_keys)
qed

subsection \<open>Batches and epochs\<close>

text \<open>Writing a batch one key at a time, stopping at the first conflict.\<close>

fun mmt_write_seq :: "(key \<times> val option) list \<Rightarrow> u64 \<Rightarrow> MvccMemTable \<Rightarrow> MvccMemTable \<times> unit result" where
  "mmt_write_seq [] u t = (t, Inr ())"
| "mmt_write_seq ((k, x) # ws) u t =
     (case mmt_write k x u t of (t', Inl e) \<Rightarrow> (t', Inl e) | (t', Inr _) \<Rightarrow> mmt_write_seq ws u t')"

lemma write_batch_loop_seq:
  "mmt_data t = mmt_data t' \<Longrightarrow>
   mmt_data (fst (mmt_write_batch_loop ws u n t)) = mmt_data (fst (mmt_write_seq ws u t')) \<and>
   map_sum (\<lambda>e. e) (\<lambda>_. ()) (snd (mmt_write_batch_loop ws u n t)) = snd (mmt_write_seq ws u t')"
proof (induction ws arbitrary: t t' n)
  case (Cons kx ws)
  obtain k x where "kx = (k, x)" by fastforce
  with Cons.prems show ?case
    by (auto simp: mmt_write_def Let_def case_prod_unfold intro!: Cons.IH [THEN conjunct1] Cons.IH [THEN conjunct2])
qed simp

lemma mmt_write_batch_data:
  "mmt_data (fst (mmt_write_batch ws u t)) = mmt_data (fst (mmt_write_seq ws u t))"
  "snd (mmt_write_batch ws u t) = snd (mmt_write_seq ws u t)"
  using write_batch_loop_seq [of "t\<lparr>mmt_dirty_list := edl_record_versions_batch (map fst ws) (mmt_dirty_list t)\<rparr>" t ws u 0]
  by (auto simp: mmt_write_batch_def Let_def split: prod.splits sum.splits)

lemma mmt_wf_write_batch_loop: "mmt_wf t \<Longrightarrow> mmt_wf (fst (mmt_write_batch_loop ws u n t))"
proof (induction ws arbitrary: t n)
  case (Cons kx ws)
  obtain k x where "kx = (k, x)" by fastforce
  with Cons mmt_wf_put [OF Cons.prems, of k x u] show ?case
    by (simp add: Let_def case_prod_unfold)
qed simp

lemma mmt_wf_write_batch [wf_intros]: "mmt_wf t \<Longrightarrow> mmt_wf (fst (mmt_write_batch ws u t))"
  using mmt_wf_write_batch_loop [of "t\<lparr>mmt_dirty_list := edl_record_versions_batch (map fst ws) (mmt_dirty_list t)\<rparr>" ws u 0]
  by (auto simp: mmt_write_batch_def Let_def split: prod.split sum.split)

text \<open>A ring of the right size; a key that no epoch lists is not visited by collection.\<close>

definition edl_dirty :: "'k EpochDirtyList \<Rightarrow> 'k set" where
  "edl_dirty d = \<Union> (set ` set (edl_epochs d))"

definition edl_wf :: "'k EpochDirtyList \<Rightarrow> bool" where
  "edl_wf d \<longleftrightarrow> length (edl_epochs d) = EPOCH_RING_SIZE"

lemma edl_wf_ops [wf_intros]:
  "edl_wf edl_new" "edl_wf d \<Longrightarrow> edl_wf (edl_record_version k d)"
  "edl_wf d \<Longrightarrow> edl_wf (edl_record_versions_batch ks d)" "edl_wf d \<Longrightarrow> edl_wf (fst (edl_advance_epoch d))"
  by (simp_all add: edl_wf_def edl_new_def edl_record_version_def edl_record_versions_batch_def
      edl_advance_epoch_def Let_def EPOCH_RING_SIZE_def)

lemma edl_advance_dirty:
  assumes "edl_wf d"
  shows "set (snd (snd (edl_advance_epoch d))) \<subseteq> edl_dirty d"
    and "edl_dirty (fst (edl_advance_epoch d)) \<subseteq> edl_dirty d"
proof -
  have "unat (edl_current_epoch d) mod EPOCH_RING_SIZE < length (edl_epochs d)"
    using assms by (simp add: edl_wf_def EPOCH_RING_SIZE_def)
  then show "set (snd (snd (edl_advance_epoch d))) \<subseteq> edl_dirty d"
    by (auto simp: edl_dirty_def edl_advance_epoch_def Let_def intro!: bexI [OF _ nth_mem])
  show "edl_dirty (fst (edl_advance_epoch d)) \<subseteq> edl_dirty d"
    by (auto simp: edl_dirty_def edl_advance_epoch_def Let_def dest!: set_update_subset_insert [THEN subsetD])
qed

lemma mmt_gc_dirty: "mmt_dirty_list (fst (mmt_gc m t)) = fst (edl_advance_epoch (mmt_dirty_list t))"
  by (simp add: mmt_gc_def Let_def case_prod_unfold)

lemma gc_clean_key:
  assumes "edl_wf (mmt_dirty_list t)" "k \<notin> edl_dirty (mmt_dirty_list t)"
  shows "mmt_chain (fst (mmt_gc m t)) k = mmt_chain t k"
    and "edl_wf (mmt_dirty_list (fst (mmt_gc m t)))"
    and "k \<notin> edl_dirty (mmt_dirty_list (fst (mmt_gc m t)))"
  using assms edl_advance_dirty [OF assms(1)]
  by (auto simp: mmt_gc_chain mmt_gc_dirty edl_wf_ops)

lemma gc_clean_key_fold:
  "edl_wf (mmt_dirty_list t) \<Longrightarrow> k \<notin> edl_dirty (mmt_dirty_list t) \<Longrightarrow>
     mmt_chain (fold (\<lambda>m t. fst (mmt_gc m t)) ms t) k = mmt_chain t k"
proof (induction ms arbitrary: t)
  case (Cons m ms)
  then show ?case using gc_clean_key [OF Cons.prems, of m] by simp
qed simp

subsection \<open>A concrete table\<close>

text \<open>Two keys written and committed at timestamp 1 by transaction 1.\<close>

definition demo_table :: "bool \<Rightarrow> bool \<Rightarrow> MvccMemTable" where
  "demo_table enable deferred =
     mmt_commit 1 1 [[1], [2]] (fst (mmt_write [2] (Some [20]) 1
       (fst (mmt_write [1] (Some [10]) 1 (mmt_with_index_mode enable deferred)))))"

lemma demo_table_wf: "mmt_wf (demo_table enable deferred)"
  by (simp add: demo_table_def std.inv_commit mmt_wf_write mmt_wf_new)

lemma demo_table_dirty:
  "edl_wf (mmt_dirty_list (demo_table enable deferred))"
  "k \<notin> edl_dirty (fst (edl_advance_epoch (mmt_dirty_list (demo_table enable deferred))))"
  "snd (snd (edl_advance_epoch (mmt_dirty_list (demo_table enable deferred)))) = [[1], [2]]"
  by (simp_all add: demo_table_def mmt_commit_def mmt_write_eq Let_def mmt_with_index_mode_def edl_new_def
      edl_record_version_def edl_advance_epoch_def edl_dirty_def edl_wf_def EPOCH_RING_SIZE_def)

lemma demo_table_index: "mmt_deferred_index (demo_table True True) \<noteq> None"
  by (simp add: demo_table_def mmt_commit_def mmt_write_eq Let_def mmt_with_index_mode_def mmt_index_insert_def)

lemma demo_table_scan:
  "snd (mmt_scan_range [0] [5] 2 None (demo_table False False)) = Inr [([1], [10]), ([2], [20])]"
  by code_simp

subsection \<open>Properties of the table\<close>

text \<open>
  The streaming range scan yields exactly what the materialised range scan returns, in the same
  order and with the same panic, for every index mode, once \<^verbatim>\<open>next\<close> has been called more often than the
  scan has results.
\<close>

lemma scan_range_iter_equals_scan_range:
  assumes "mmt_wf t" "\<forall>res. snd (mmt_scan_range lo hi s cur t) = Inr res \<longrightarrow> length res < n" "0 < n"
  shows "(case mmt_scan_range_iter lo hi s cur t of (t', it) \<Rightarrow> sri_collect n t' it)
    = snd (mmt_scan_range lo hi s cur t)"
proof -
  obtain t' it where it: "mmt_scan_range_iter lo hi s cur t = (t', it)" by fastforce
  note start = sri_collect_init [OF assms(3), of t' it]
  note drain = sri_collect_ordered sri_collect_unordered mmt_read_def
  note init = sri_init_def mmt_scan_range_def case_prod_unfold Let_def
  have "sri_collect n t' it = snd (mmt_scan_range lo hi s cur t)"
  proof (cases "mmt_deferred_index t")
    case (Some idx)
    then have "dsi_wf idx" using assms(1) by (simp add: mmt_wf_def mmt_index_wf_def)
    note compacted = dsi_range_compacted [OF this]
    show ?thesis
      unfolding start using it Some assms(2) compacted
      by (cases "snd (dsi_range lo hi idx)") (auto simp: init drain mmt_scan_range_iter_def)
  next
    case None
    then show ?thesis
      unfolding start using it assms(2)
      by (cases "mmt_ordered_index t") (auto simp: init drain mmt_scan_range_iter_def)
  qed
  with it show ?thesis by simp
qed

text \<open>
  A prefix scan and a range scan with ordered bounds return exactly the keys in range whose visible
  version has a value, each once, with that value; with either ordered index the keys ascend.  The
  three index modes therefore agree, and every scan agrees with point reads.
\<close>

lemma scans_agree_with_reads:
  assumes "mmt_wf t" "lo \<le> hi \<or> hi = []"
  shows "\<exists>pre res. snd (mmt_scan_prefix p s cur t) = pre \<and> snd (mmt_scan_range lo hi s cur t) = Inr res \<and>
    set pre = {(k, v). prefix p k \<and> mmt_read k s cur t = Some v} \<and> distinct (map fst pre) \<and>
    set res = {(k, v). in_range lo hi k \<and> mmt_read k s cur t = Some v} \<and> distinct (map fst res) \<and>
    (mmt_deferred_index t \<noteq> None \<or> mmt_ordered_index t \<noteq> None \<longrightarrow>
       sorted (map fst pre) \<and> sorted (map fst res))"
proof -
  obtain res where "snd (mmt_scan_range lo hi s cur t) = Inr res"
    and "set res = {(k, v). in_range lo hi k \<and> mmt_read k s cur t = Some v}" "distinct (map fst res)"
    and "mmt_deferred_index t \<noteq> None \<or> mmt_ordered_index t \<noteq> None \<Longrightarrow> sorted (map fst res)"
    by (rule mmt_scan_range_eq [OF assms, of s cur]) blast
  with mmt_scan_prefix_eq [OF assms(1), of p s cur] show ?thesis by blast
qed

text \<open>
  The batched write is the sequence of its single writes: same result, same version chain for
  every key.  On a conflict both stop there and keep what was written before.
\<close>

lemma write_batch_is_write_sequence:
  "snd (mmt_write_batch ws u t) = snd (mmt_write_seq ws u t) \<and>
   mmt_chain (fst (mmt_write_batch ws u t)) = mmt_chain (fst (mmt_write_seq ws u t))"
  by (simp add: mmt_write_batch_data mmt_chain_def fun_eq_iff)

text \<open>
  Epoch-based collection visits a key once per epoch in which it was written: after a collection
  at watermark \<open>m\<close> that drained the only epoch listing a key, no later collection, at any watermarks,
  changes that key's chain until it is written again.  Versions that a snapshot still pinned at that
  time are never reclaimed by it.
\<close>

lemma epoch_gc_visits_once:
  assumes "edl_wf (mmt_dirty_list t)" "k \<notin> edl_dirty (fst (edl_advance_epoch (mmt_dirty_list t)))"
  shows "mmt_chain (fold (\<lambda>m t. fst (mmt_gc m t)) (m # ms) t) k
    = (if k \<in> set (snd (snd (edl_advance_epoch (mmt_dirty_list t)))) then vc_gc m (mmt_chain t k)
       else mmt_chain t k)"
  using gc_clean_key_fold [of "fst (mmt_gc m t)" k ms] assms
  by (simp add: mmt_gc_dirty edl_wf_ops mmt_gc_chain)

text \<open>
  A key stored through the trait \<^verbatim>\<open>MvccStore\<close> is not entered into the ordered index: after a put and
  a commit, a point read at a later snapshot finds the value, the prefix scan of the default table
  does not.
\<close>

lemma mvcc_put_missing_from_index:
  "let t = fst (mvcc_commit_key k 1 1 (fst (mvcc_put k (Some v) 1 mmt_new)))
   in mvcc_get k 2 None t = Some v \<and> snd (mmt_scan_prefix [] 2 None t) = []"
proof -
  have "mmt_deferred_index (fst (mvcc_commit_key k 1 1 (fst (mvcc_put k (Some v) 1 mmt_new))))
      = mmt_deferred_index mmt_new"
    by (simp add: mvcc_commit_key_def mvcc_put_def Let_def case_prod_unfold split: option.split)
  moreover have "mvcc_get k 2 None (fst (mvcc_commit_key k 1 1 (fst (mvcc_put k (Some v) 1 mmt_new)))) = Some v"
    by (simp add: mvcc_get_def mmt_read_def mvcc_commit_key_def mvcc_put_def data_put_def mmt_new_def
        mmt_with_ordered_index_def mmt_with_index_mode_def Let_def vc_add_uncommitted_def vc_new_def
        bsc_new_def bsc_set_uncommitted_def vc_commit_def bsc_commit_def partition_point_def vec_insert_def
        chain_value_def vc_read_at_def bsc_read_at_def pp_loop.simps vec_get_def vc_has_write_conflict_def
        bsc_has_write_conflict_def word_le_nat_alt)
  ultimately show ?thesis
    by (simp add: Let_def mmt_scan_prefix_def case_prod_unfold mmt_new_def mmt_with_ordered_index_def
        mmt_with_index_mode_def dsi_range_from_eq [OF dsi_wf_new] dsi_keys_new collect_visible_def
        List.map_filter_simps)
qed

end
