(* ===== verification/Arena_Table.thy ===== *)
theory Arena_Table
  imports Mem_Table
begin

text \<open>
  \<^verbatim>\<open>ArenaKeyHandle\<close> of \<^verbatim>\<open>sochdb-storage/src/key_buffer.rs\<close>, and \<^verbatim>\<open>ArenaEpochDirtyList\<close>,
  \<^verbatim>\<open>ArenaMvccMemTable\<close> and \<^verbatim>\<open>MemTableKind\<close> of \<^verbatim>\<open>sochdb-storage/src/durable_storage.rs\<close>.  The arena table
  keys everything by handles with a stored hash; it refines the standard table with a skip-list index,
  and the enum over both tables meets the contract \<open>mvcc_table\<close>.
\<close>

unbundle bit_operations_syntax

subsection \<open>Key handles\<close>

datatype KeyData =
    Inline byte bytes
  | Heap bytes

record ArenaKeyHandle =
  akh_hash :: u64
  akh_data :: KeyData

definition INLINE_MAX :: nat where
  "INLINE_MAX = 24"

definition compute_hash :: "bytes \<Rightarrow> u64" where
  "compute_hash data = fold (\<lambda>b h. (h XOR ucast b) * 0x00000100000001B3) data 0xcbf29ce484222325"

definition akh_new :: "bytes \<Rightarrow> ArenaKeyHandle" where
  "akh_new data =
     \<lparr>akh_hash = compute_hash data,
      akh_data =
        (if length data \<le> INLINE_MAX
         then Inline (word_of_nat (length data)) (data @ replicate (24 - length data) 0)
         else Heap data)\<rparr>"

definition akh_as_bytes :: "ArenaKeyHandle \<Rightarrow> bytes" where
  "akh_as_bytes h = (case akh_data h of Inline len bytes \<Rightarrow> take (unat len) bytes | Heap v \<Rightarrow> v)"

definition akh_len :: "ArenaKeyHandle \<Rightarrow> nat" where
  "akh_len h = (case akh_data h of Inline len _ \<Rightarrow> unat len | Heap v \<Rightarrow> length v)"

definition akh_is_empty :: "ArenaKeyHandle \<Rightarrow> bool" where
  "akh_is_empty h \<longleftrightarrow> akh_len h = 0"

definition akh_is_inline :: "ArenaKeyHandle \<Rightarrow> bool" where
  "akh_is_inline h = (case akh_data h of Inline _ _ \<Rightarrow> True | Heap _ \<Rightarrow> False)"

definition akh_eq :: "ArenaKeyHandle \<Rightarrow> ArenaKeyHandle \<Rightarrow> bool" where
  "akh_eq a b \<longleftrightarrow> akh_hash a = akh_hash b \<and> akh_len a = akh_len b \<and> akh_as_bytes a = akh_as_bytes b"

definition akh_less :: "ArenaKeyHandle \<Rightarrow> ArenaKeyHandle \<Rightarrow> bool" where
  "akh_less a b \<longleftrightarrow> akh_as_bytes a < akh_as_bytes b"

text \<open>
  The fields of a handle are private and every constructor goes through \<open>akh_new\<close>, so a handle is
  determined by its bytes and the equality of the code is equality of handles.
\<close>

lemma akh_bytes_new [simp]: "akh_as_bytes (akh_new k) = k" "akh_len (akh_new k) = length k"
proof -
  have "unat (word_of_nat (length k) :: byte) = length k" if "length k \<le> 24"
    using that by (simp add: unat_of_nat take_bit_nat_eq_self_iff)
  then show "akh_as_bytes (akh_new k) = k" "akh_len (akh_new k) = length k"
    by (simp_all add: akh_new_def akh_as_bytes_def akh_len_def INLINE_MAX_def)
qed

lemma akh_new_inject [simp]: "akh_new a = akh_new b \<longleftrightarrow> a = b"
  by (metis akh_bytes_new(1))

lemma akh_eq_new: "akh_eq (akh_new a) (akh_new b) \<longleftrightarrow> akh_new a = akh_new b"
  by (auto simp: akh_eq_def)

subsection \<open>The arena table\<close>

definition aedl_new :: "ArenaKeyHandle EpochDirtyList" where
  "aedl_new = \<lparr>edl_epochs = [[], [], [], []], edl_current_epoch = 0\<rparr>"

definition aedl_record_version :: "ArenaKeyHandle \<Rightarrow> ArenaKeyHandle EpochDirtyList \<Rightarrow> ArenaKeyHandle EpochDirtyList" where
  "aedl_record_version h d =
     (let idx = unat (edl_current_epoch d) mod EPOCH_RING_SIZE
      in d\<lparr>edl_epochs := (edl_epochs d)[idx := edl_epochs d ! idx @ [h]]\<rparr>)"

definition aedl_advance_epoch ::
    "ArenaKeyHandle EpochDirtyList \<Rightarrow> ArenaKeyHandle EpochDirtyList \<times> u64 \<times> ArenaKeyHandle list" where
  "aedl_advance_epoch d =
     (let old_epoch = edl_current_epoch d;
          old_idx = unat old_epoch mod EPOCH_RING_SIZE
      in (d\<lparr>edl_current_epoch := old_epoch + 1, edl_epochs := (edl_epochs d)[old_idx := []]\<rparr>,
          old_epoch, edl_epochs d ! old_idx))"

text \<open>The skip map orders handles by their bytes.\<close>

definition askip_insert :: "ArenaKeyHandle \<Rightarrow> ArenaKeyHandle list \<Rightarrow> ArenaKeyHandle list" where
  "askip_insert h s = insort_insert_key akh_as_bytes h s"

definition askip_range_from :: "ArenaKeyHandle \<Rightarrow> ArenaKeyHandle list \<Rightarrow> ArenaKeyHandle list" where
  "askip_range_from start s = filter (\<lambda>h. \<not> akh_less h start) s"

definition askip_range :: "ArenaKeyHandle \<Rightarrow> ArenaKeyHandle \<Rightarrow> ArenaKeyHandle list \<Rightarrow> ArenaKeyHandle list" where
  "askip_range start stop s = filter (\<lambda>h. \<not> akh_less h start \<and> akh_less h stop) s"

record ArenaMvccMemTable =
  amt_data :: "(ArenaKeyHandle, VersionChain) dashmap"
  amt_ordered_index :: "ArenaKeyHandle list option"
  amt_size_bytes :: u64
  amt_dirty_list :: "ArenaKeyHandle EpochDirtyList"

definition amt_with_ordered_index :: "bool \<Rightarrow> ArenaMvccMemTable" where
  "amt_with_ordered_index enable_ordered_index =
     \<lparr>amt_data = [], amt_ordered_index = (if enable_ordered_index then Some [] else None),
      amt_size_bytes = 0, amt_dirty_list = aedl_new\<rparr>"

definition amt_new :: ArenaMvccMemTable where
  "amt_new = amt_with_ordered_index True"

definition amt_write :: "key \<Rightarrow> val option \<Rightarrow> u64 \<Rightarrow> ArenaMvccMemTable \<Rightarrow> ArenaMvccMemTable \<times> unit result" where
  "amt_write k x txn t =
     (let h = akh_new k;
          t1 = t\<lparr>amt_dirty_list := aedl_record_version h (amt_dirty_list t)\<rparr>;
          t2 = t1\<lparr>amt_ordered_index := map_option (askip_insert h) (amt_ordered_index t1)\<rparr>;
          (d, ok) = data_put h x txn (amt_data t2);
          t3 = t2\<lparr>amt_data := d\<rparr>
      in if \<not> ok then (t3, Inl ww_conflict)
         else (t3\<lparr>amt_size_bytes := amt_size_bytes t3 + word_of_nat (length k + value_size x)\<rparr>, Inr ()))"

fun amt_write_batch_loop ::
    "(key \<times> val option) list \<Rightarrow> u64 \<Rightarrow> u64 \<Rightarrow> ArenaMvccMemTable \<Rightarrow> ArenaMvccMemTable \<times> u64 result" where
  "amt_write_batch_loop [] txn total_size t = (t, Inr total_size)"
| "amt_write_batch_loop ((k, x) # ws) txn total_size t =
     (let h = akh_new k;
          t1 = t\<lparr>amt_dirty_list := aedl_record_version h (amt_dirty_list t)\<rparr>;
          t2 = t1\<lparr>amt_ordered_index := map_option (askip_insert h) (amt_ordered_index t1)\<rparr>;
          (d, ok) = data_put h x txn (amt_data t2);
          t3 = t2\<lparr>amt_data := d\<rparr>
      in if \<not> ok then (t3, Inl ww_conflict)
         else amt_write_batch_loop ws txn (total_size + word_of_nat (length k + value_size x)) t3)"

definition amt_write_batch ::
    "(key \<times> val option) list \<Rightarrow> u64 \<Rightarrow> ArenaMvccMemTable \<Rightarrow> ArenaMvccMemTable \<times> unit result" where
  "amt_write_batch ws txn t =
     (case amt_write_batch_loop ws txn 0 t of
        (t1, Inl e) \<Rightarrow> (t1, Inl e)
      | (t1, Inr total_size) \<Rightarrow> (t1\<lparr>amt_size_bytes := amt_size_bytes t1 + total_size\<rparr>, Inr ()))"

definition amt_read :: "key \<Rightarrow> u64 \<Rightarrow> u64 option \<Rightarrow> ArenaMvccMemTable \<Rightarrow> val option" where
  "amt_read k snap cur t = Option.bind (map_of (amt_data t) (akh_new k)) (chain_value snap cur)"

definition amt_commit :: "u64 \<Rightarrow> u64 \<Rightarrow> key list \<Rightarrow> ArenaMvccMemTable \<Rightarrow> ArenaMvccMemTable" where
  "amt_commit txn cts ws t = t\<lparr>amt_data := data_commit txn cts (map akh_new ws) (amt_data t)\<rparr>"

definition amt_abort :: "u64 \<Rightarrow> ArenaMvccMemTable \<Rightarrow> ArenaMvccMemTable" where
  "amt_abort txn t = t\<lparr>amt_data := dm_map (vc_abort txn) (amt_data t)\<rparr>"

text \<open>The loop body of the scans: \<^verbatim>\<open>data.get(handle)\<close>, then the visible value.\<close>

definition amt_look :: "u64 \<Rightarrow> u64 option \<Rightarrow> ArenaMvccMemTable \<Rightarrow> ArenaKeyHandle \<Rightarrow> val option" where
  "amt_look snap cur t h = Option.bind (map_of (amt_data t) h) (chain_value snap cur)"

definition amt_scan_prefix :: "key \<Rightarrow> u64 \<Rightarrow> u64 option \<Rightarrow> ArenaMvccMemTable \<Rightarrow> (key \<times> val) list" where
  "amt_scan_prefix p snap cur t =
     map (apfst akh_as_bytes)
       (case amt_ordered_index t of
          Some idx \<Rightarrow>
            collect_visible (amt_look snap cur t)
              (takeWhile (\<lambda>h. prefix p (akh_as_bytes h)) (askip_range_from (akh_new p) idx))
        | None \<Rightarrow> data_scan (\<lambda>h. prefix p (akh_as_bytes h)) snap cur (amt_data t))"

definition amt_scan_range :: "key \<Rightarrow> key \<Rightarrow> u64 \<Rightarrow> u64 option \<Rightarrow> ArenaMvccMemTable \<Rightarrow> (key \<times> val) list" where
  "amt_scan_range lo hi snap cur t =
     map (apfst akh_as_bytes)
       (case amt_ordered_index t of
          Some idx \<Rightarrow>
            collect_visible (amt_look snap cur t)
              (if hi = [] then askip_range_from (akh_new lo) idx else askip_range (akh_new lo) (akh_new hi) idx)
        | None \<Rightarrow> data_scan (\<lambda>h. in_range lo hi (akh_as_bytes h)) snap cur (amt_data t))"

definition amt_size :: "ArenaMvccMemTable \<Rightarrow> u64" where
  "amt_size t = amt_size_bytes t"

definition amt_gc :: "u64 \<Rightarrow> ArenaMvccMemTable \<Rightarrow> ArenaMvccMemTable \<times> nat" where
  "amt_gc min_ts t =
     (let (dl, _, dirty_keys) = aedl_advance_epoch (amt_dirty_list t);
          t1 = t\<lparr>amt_dirty_list := dl\<rparr>
      in if dirty_keys = [] then (t1, 0)
         else let (d, n) = fold (gc_entry min_ts) (remdups dirty_keys) (amt_data t1, 0)
              in (t1\<lparr>amt_data := d\<rparr>, n))"

subsection \<open>Renaming the keys of a map\<close>

definition dm_rename :: "('a \<Rightarrow> 'b) \<Rightarrow> ('a, 'v) dashmap \<Rightarrow> ('b, 'v) dashmap" where
  "dm_rename f m = map (apfst f) m"

lemma keys_dm_rename [simp]: "map fst (dm_rename f m) = map f (map fst m)"
  by (simp add: dm_rename_def)

lemma map_of_dm_rename: "inj_on f (insert k (fst ` set m)) \<Longrightarrow> map_of (dm_rename f m) (f k) = map_of m k"
  unfolding dm_rename_def by (induction m) (auto simp: inj_on_def)

lemma dm_insert_rename:
  "inj_on f (insert k (fst ` set m)) \<Longrightarrow> dm_insert (f k) v (dm_rename f m) = dm_rename f (dm_insert k v m)"
  unfolding dm_rename_def dm_insert_def by (induction m) (auto simp: inj_on_def)

lemma dm_alter_rename:
  "inj_on f (insert k (fst ` set m)) \<Longrightarrow> dm_alter (f k) g (dm_rename f m) = dm_rename f (dm_alter k g m)"
  unfolding dm_rename_def dm_alter_def by (induction m) (auto simp: inj_on_def)

lemma dm_map_rename: "dm_map g (dm_rename f m) = dm_rename f (dm_map g m)"
  by (auto simp: dm_rename_def dm_map_def)

lemma data_put_rename:
  assumes "inj_on f (insert k (fst ` set d))"
  shows "data_put (f k) x u (dm_rename f d) = (dm_rename f (fst (data_put k x u d)), snd (data_put k x u d))"
proof -
  have ins: "inj_on f (insert k (fst ` set (dm_insert k v d)))" for v using assms by simp
  show ?thesis
    by (simp add: data_put_def Let_def map_of_dm_rename [OF assms] map_of_dm_rename [OF ins] dm_insert_rename [OF assms]
        dm_insert_rename [OF ins] split: option.split)
qed

lemma data_commit_rename:
  "inj_on f (set ws \<union> fst ` set d) \<Longrightarrow> data_commit u cts (map f ws) (dm_rename f d) = dm_rename f (data_commit u cts ws d)"
  unfolding data_commit_def
proof (induction ws arbitrary: d)
  case (Cons w ws)
  let ?d = "dm_alter w (\<lambda>c. fst (vc_commit u cts c)) d"
  have keys: "fst ` set ?d = fst ` set d" by (metis keys_dm_alter set_map)
  have "inj_on f (insert w (fst ` set d))" by (rule inj_on_subset [OF Cons.prems]) auto
  moreover have "inj_on f (set ws \<union> fst ` set ?d)" unfolding keys by (rule inj_on_subset [OF Cons.prems]) auto
  ultimately show ?case using Cons.IH by (simp add: dm_alter_rename)
qed simp

lemma gc_entry_rename:
  "inj_on f (insert k (fst ` set (fst s))) \<Longrightarrow>
    gc_entry m (f k) (apfst (dm_rename f) s) = apfst (dm_rename f) (gc_entry m k s)"
  by (cases s) (simp add: gc_entry_def map_of_dm_rename dm_alter_rename split: option.split)

lemma gc_fold_rename:
  "inj_on f (set ks \<union> fst ` set (fst s)) \<Longrightarrow>
    fold (gc_entry m) (map f ks) (apfst (dm_rename f) s) = apfst (dm_rename f) (fold (gc_entry m) ks s)"
proof (induction ks arbitrary: s)
  case (Cons k ks)
  have keys: "fst ` set (fst (gc_entry m k s)) = fst ` set (fst s)"
    by (simp add: gc_entry_def split: option.split) (metis keys_dm_alter set_map)
  have "inj_on f (insert k (fst ` set (fst s)))" by (rule inj_on_subset [OF Cons.prems]) auto
  moreover have "inj_on f (set ks \<union> fst ` set (fst (gc_entry m k s)))"
    unfolding keys by (rule inj_on_subset [OF Cons.prems]) auto
  ultimately show ?case using Cons.IH by (simp add: gc_entry_rename)
qed simp

lemma data_scan_rename: "data_scan p s cur (dm_rename f d) = map (apfst f) (data_scan (\<lambda>h. p (f h)) s cur d)"
  unfolding data_scan_def dm_rename_def
  by (induction d) (auto simp: List.map_filter_simps split: option.splits if_splits)

lemma collect_visible_rename:
  "(\<And>h. h \<in> set hs \<Longrightarrow> look (f h) = look' h) \<Longrightarrow>
    collect_visible look (map f hs) = map (apfst f) (collect_visible look' hs)"
  unfolding collect_visible_def by (induction hs) (auto simp: List.map_filter_simps split: option.split)

subsection \<open>The standard table that an arena table stands for\<close>

definition edl_rename :: "('a \<Rightarrow> 'b) \<Rightarrow> 'a EpochDirtyList \<Rightarrow> 'b EpochDirtyList" where
  "edl_rename f d = \<lparr>edl_epochs = map (map f) (edl_epochs d), edl_current_epoch = edl_current_epoch d\<rparr>"

definition amt_abs :: "ArenaMvccMemTable \<Rightarrow> MvccMemTable" where
  "amt_abs t =
     \<lparr>mmt_data = dm_rename akh_as_bytes (amt_data t), mmt_deferred_index = None,
      mmt_ordered_index = map_option (map akh_as_bytes) (amt_ordered_index t), mmt_use_deferred = False,
      mmt_size_bytes = amt_size_bytes t, mmt_dirty_list = edl_rename akh_as_bytes (amt_dirty_list t)\<rparr>"

definition canonical :: "ArenaKeyHandle \<Rightarrow> bool" where
  "canonical h \<longleftrightarrow> h = akh_new (akh_as_bytes h)"

definition amt_wf :: "ArenaMvccMemTable \<Rightarrow> bool" where
  "amt_wf t \<longleftrightarrow>
     mmt_wf (amt_abs t) \<and> edl_wf (amt_dirty_list t) \<and>
     (\<forall>h \<in> fst ` set (amt_data t). canonical h) \<and>
     (\<forall>hs \<in> set (edl_epochs (amt_dirty_list t)). \<forall>h \<in> set hs. canonical h) \<and>
     (\<forall>idx. amt_ordered_index t = Some idx \<longrightarrow> (\<forall>h \<in> set idx. canonical h))"

lemma canonical_new [simp]: "canonical (akh_new k)"
  by (simp add: canonical_def)

lemma canonical_inj: "(\<And>h. h \<in> A \<Longrightarrow> canonical h) \<Longrightarrow> inj_on akh_as_bytes A"
  unfolding canonical_def by (metis inj_onI)

lemma amt_canonical_inj: "amt_wf t \<Longrightarrow> inj_on akh_as_bytes (insert (akh_new k) (fst ` set (amt_data t)))"
  by (rule canonical_inj) (auto simp: amt_wf_def)

lemma map_askip_insert: "map akh_as_bytes (askip_insert h s) = skip_insert (akh_as_bytes h) (map akh_as_bytes s)"
proof -
  have "map akh_as_bytes (insort_key akh_as_bytes h s) = insort (akh_as_bytes h) (map akh_as_bytes s)"
    by (induction s) auto
  then show ?thesis by (simp add: askip_insert_def skip_insert_def insort_insert_key_def)
qed

lemma set_askip_insert: "set (askip_insert h s) \<subseteq> insert h (set s)"
  by (auto simp: askip_insert_def insort_insert_key_def set_insort_key)

lemma map_askip_range:
  "map akh_as_bytes (askip_range_from h s) = skip_range_from (akh_as_bytes h) (map akh_as_bytes s)"
  "map akh_as_bytes (askip_range h h' s) = skip_range (akh_as_bytes h) (akh_as_bytes h') (map akh_as_bytes s)"
  by (simp_all add: askip_range_from_def askip_range_def skip_range_from_def skip_range_def akh_less_def filter_map
      o_def not_less)

lemma edl_rename_record:
  "edl_wf d \<Longrightarrow> edl_rename f (edl_record_version h d) = edl_record_version (f h) (edl_rename f d)"
  by (simp add: edl_rename_def edl_record_version_def Let_def edl_wf_def EPOCH_RING_SIZE_def map_update)

lemma edl_rename_advance:
  "edl_wf d \<Longrightarrow> edl_advance_epoch (edl_rename f d) =
     (edl_rename f (fst (edl_advance_epoch d)), fst (snd (edl_advance_epoch d)), map f (snd (snd (edl_advance_epoch d))))"
  by (simp add: edl_rename_def edl_advance_epoch_def Let_def edl_wf_def EPOCH_RING_SIZE_def map_update)

lemma aedl_eq: "aedl_record_version = edl_record_version" "aedl_advance_epoch = edl_advance_epoch" "aedl_new = edl_new"
  by (auto simp: fun_eq_iff aedl_record_version_def edl_record_version_def aedl_advance_epoch_def edl_advance_epoch_def
      aedl_new_def edl_new_def)

lemma edl_slot_mem: "edl_wf d \<Longrightarrow> edl_epochs d ! (unat (edl_current_epoch d) mod EPOCH_RING_SIZE) \<in> set (edl_epochs d)"
  by (simp add: edl_wf_def EPOCH_RING_SIZE_def)

text \<open>One write step, without the size: dirty list, index and entry.\<close>

definition amt_put :: "key \<Rightarrow> val option \<Rightarrow> u64 \<Rightarrow> ArenaMvccMemTable \<Rightarrow> ArenaMvccMemTable" where
  "amt_put k x u t =
     t\<lparr>amt_dirty_list := aedl_record_version (akh_new k) (amt_dirty_list t),
       amt_ordered_index := map_option (askip_insert (akh_new k)) (amt_ordered_index t),
       amt_data := fst (data_put (akh_new k) x u (amt_data t))\<rparr>"

definition mmt_put :: "key \<Rightarrow> val option \<Rightarrow> u64 \<Rightarrow> MvccMemTable \<Rightarrow> MvccMemTable" where
  "mmt_put k x u t =
     (mmt_index_insert k (t\<lparr>mmt_dirty_list := edl_record_version k (mmt_dirty_list t)\<rparr>))
       \<lparr>mmt_data := fst (data_put k x u (mmt_data t))\<rparr>"

lemma amt_put_abs:
  assumes "amt_wf t"
  shows "amt_abs (amt_put k x u t) = mmt_put k x u (amt_abs t)"
    and "snd (data_put (akh_new k) x u (amt_data t)) \<longleftrightarrow> \<not> vc_has_write_conflict u (mmt_chain (amt_abs t) k)"
proof -
  note put = data_put_rename [OF amt_canonical_inj [OF assms, of k], of x u, simplified]
  show "amt_abs (amt_put k x u t) = mmt_put k x u (amt_abs t)"
    using assms
    by (simp add: amt_abs_def amt_put_def mmt_put_def mmt_index_insert_def put aedl_eq edl_rename_record amt_wf_def
        map_askip_insert option.map_comp o_def split: option.split)
  show "snd (data_put (akh_new k) x u (amt_data t)) \<longleftrightarrow> \<not> vc_has_write_conflict u (mmt_chain (amt_abs t) k)"
    using data_put_eq(1) [of k x u "mmt_data (amt_abs t)"] put by (simp add: mmt_chain_def amt_abs_def)
qed

lemma amt_wf_put:
  assumes "amt_wf t"
  shows "amt_wf (amt_put k x u t)"
proof -
  have "mmt_wf (amt_abs (amt_put k x u t))"
    using assms mmt_wf_put [of "(amt_abs t)\<lparr>mmt_dirty_list := edl_record_version k (mmt_dirty_list (amt_abs t))\<rparr>" k x u]
    by (simp add: amt_put_abs(1) mmt_put_def) (simp add: amt_wf_def)
  moreover have "edl_wf (edl_record_version (akh_new k) (amt_dirty_list t))"
    using assms by (simp add: amt_wf_def edl_wf_ops)
  moreover have "\<forall>hs \<in> set (edl_epochs (edl_record_version (akh_new k) (amt_dirty_list t))). \<forall>h \<in> set hs. canonical h"
    using assms edl_slot_mem [of "amt_dirty_list t"]
    by (auto simp: amt_wf_def edl_record_version_def Let_def dest!: subsetD [OF set_update_subset_insert])
  ultimately show ?thesis
    using assms
    by (auto simp: amt_wf_def amt_put_def aedl_eq data_put_eq(3) dest!: subsetD [OF set_askip_insert])
qed

subsection \<open>The arena table refines the standard table\<close>

lemma amt_write_put:
  "amt_wf t \<Longrightarrow> amt_write k x u t =
     (if vc_has_write_conflict u (mmt_chain (amt_abs t) k) then (amt_put k x u t, Inl ww_conflict)
      else ((amt_put k x u t)\<lparr>amt_size_bytes := amt_size_bytes t + word_of_nat (length k + value_size x)\<rparr>, Inr ()))"
  using amt_put_abs(2) [of t k x u] by (simp add: amt_write_def Let_def case_prod_unfold amt_put_def)

lemma mmt_write_put:
  "mmt_write k x u t =
     (if vc_has_write_conflict u (mmt_chain t k) then (mmt_put k x u t, Inl ww_conflict)
      else ((mmt_put k x u t)\<lparr>mmt_size_bytes := mmt_size_bytes t + word_of_nat (length k + value_size x)\<rparr>, Inr ()))"
  by (simp add: mmt_write_eq Let_def mmt_put_def)

lemma amt_abs_size [simp]: "amt_abs (t\<lparr>amt_size_bytes := n\<rparr>) = (amt_abs t)\<lparr>mmt_size_bytes := n\<rparr>"
  by (simp add: amt_abs_def)

lemma amt_wf_size [simp]: "amt_wf (t\<lparr>amt_size_bytes := n\<rparr>) \<longleftrightarrow> amt_wf t"
  by (simp add: amt_wf_def)

lemma amt_write_abs:
  assumes "amt_wf t"
  shows "mmt_write k x u (amt_abs t) = (amt_abs (fst (amt_write k x u t)), snd (amt_write k x u t))"
    and "amt_wf (fst (amt_write k x u t))"
  using assms amt_put_abs(1) [OF assms, of k x u] amt_wf_put [OF assms, of k x u]
  by (simp_all add: amt_write_put mmt_write_put) (simp add: amt_abs_def)

lemma amt_read_abs: "amt_wf t \<Longrightarrow> amt_read k s cur t = mmt_read k s cur (amt_abs t)"
  using map_of_dm_rename [OF amt_canonical_inj [of t k]]
  by (simp add: amt_read_def mmt_read_def amt_abs_def)

lemma amt_wf_data:
  assumes "amt_wf t" "map fst d = map fst (amt_data t)" "\<And>k c. map_of d k = Some c \<Longrightarrow> vc_wf c"
  shows "amt_wf (t\<lparr>amt_data := d\<rparr>)"
proof -
  have keys: "fst ` set d = fst ` set (amt_data t)" using assms(2) by (metis set_map)
  have inj: "inj_on akh_as_bytes (insert h (fst ` set d))" if "h \<in> fst ` set d" for h
    using assms(1) keys that by (intro canonical_inj) (auto simp: amt_wf_def)
  have wf: "mmt_wf (amt_abs t)" using assms(1) by (simp add: amt_wf_def)
  have "vc_wf c" if c: "map_of (dm_rename akh_as_bytes d) k = Some c" for k c
  proof -
    obtain h where h: "h \<in> fst ` set d" "k = akh_as_bytes h"
      using map_of_SomeD [OF c] by (force simp: dm_rename_def)
    with c assms(3) show ?thesis by (simp add: map_of_dm_rename [OF inj [OF h(1)]])
  qed
  moreover have fsts: "map fst (dm_rename akh_as_bytes d) = map fst (mmt_data (amt_abs t))"
    by (simp add: assms(2) amt_abs_def)
  ultimately have "data_wf (dm_rename akh_as_bytes d)"
    using wf by (simp add: mmt_wf_def data_wf_def dm_wf_def)
  from mmt_wf_same_keys [OF wf this fsts] have "mmt_wf (amt_abs (t\<lparr>amt_data := d\<rparr>))" by (simp add: amt_abs_def)
  then show ?thesis using assms(1) keys by (simp add: amt_wf_def)
qed

lemma amt_chains_wf:
  assumes "amt_wf t" "map_of (amt_data t) h = Some c"
  shows "vc_wf c"
proof -
  have "h \<in> fst ` set (amt_data t)" using map_of_SomeD [OF assms(2)] by force
  then have "map_of (mmt_data (amt_abs t)) (akh_as_bytes h) = Some c"
    using assms amt_canonical_inj [OF assms(1), of "akh_as_bytes h"]
    by (simp add: amt_abs_def map_of_dm_rename insert_absorb amt_wf_def inj_on_subset [OF _ subset_insertI])
  then show ?thesis using assms(1) by (auto simp: amt_wf_def mmt_wf_def data_wf_def)
qed

lemma amt_data_wf:
  assumes "amt_wf t"
  shows "data_wf (amt_data t)"
proof -
  have "distinct (map akh_as_bytes (map fst (amt_data t)))"
    using assms unfolding keys_dm_rename [symmetric] by (simp add: amt_wf_def data_wf_def mmt_wf_def amt_abs_def dm_wf_def)
  then show ?thesis using amt_chains_wf [OF assms] unfolding data_wf_def dm_wf_def by (metis distinct_map)
qed

lemma amt_commit_abs:
  assumes "amt_wf t"
  shows "amt_abs (amt_commit u cts ws t) = mmt_commit u cts ws (amt_abs t)"
    and "amt_wf (amt_commit u cts ws t)"
proof -
  have "inj_on akh_as_bytes (set (map akh_new ws) \<union> fst ` set (amt_data t))"
    using assms by (intro canonical_inj) (auto simp: amt_wf_def)
  from data_commit_rename [OF this, of u cts]
  show "amt_abs (amt_commit u cts ws t) = mmt_commit u cts ws (amt_abs t)"
    by (simp add: amt_abs_def amt_commit_def mmt_commit_def o_def)
  from data_wf_commit [OF amt_data_wf [OF assms], of u cts "map akh_new ws"] show "amt_wf (amt_commit u cts ws t)"
    unfolding amt_commit_def by (intro amt_wf_data [OF assms]) (auto simp: data_wf_def)
qed

lemma amt_abort_abs:
  assumes "amt_wf t"
  shows "amt_abs (amt_abort u t) = mmt_abort u (amt_abs t)" and "amt_wf (amt_abort u t)"
proof -
  show "amt_abs (amt_abort u t) = mmt_abort u (amt_abs t)"
    by (simp add: amt_abs_def amt_abort_def mmt_abort_def dm_map_rename)
  show "amt_wf (amt_abort u t)"
    unfolding amt_abort_def
    by (rule amt_wf_data [OF assms]) (auto simp: vc_wf_abort dest: amt_chains_wf [OF assms])
qed

lemma amt_look_abs:
  assumes "amt_wf t" "canonical h"
  shows "mmt_read (akh_as_bytes h) s cur (amt_abs t) = amt_look s cur t h"
  using amt_read_abs [OF assms(1), of "akh_as_bytes h" s cur] assms(2)
  by (simp add: canonical_def amt_read_def amt_look_def)

lemma amt_collect_abs:
  assumes "amt_wf t" "\<And>h. h \<in> set hs \<Longrightarrow> canonical h"
  shows "collect_visible (\<lambda>k. mmt_read k s cur (amt_abs t)) (map akh_as_bytes hs)
    = map (apfst akh_as_bytes) (collect_visible (amt_look s cur t) hs)"
  by (rule collect_visible_rename) (simp add: amt_look_abs assms)

lemma amt_index_canonical: "amt_wf t \<Longrightarrow> amt_ordered_index t = Some idx \<Longrightarrow> h \<in> set idx \<Longrightarrow> canonical h"
  by (auto simp: amt_wf_def)

lemma amt_scan_prefix_abs:
  assumes "amt_wf t"
  shows "mmt_scan_prefix p s cur (amt_abs t) = (amt_abs t, amt_scan_prefix p s cur t)"
proof (cases "amt_ordered_index t")
  case None
  then show ?thesis by (simp add: mmt_scan_prefix_def amt_scan_prefix_def amt_abs_def data_scan_rename)
next
  case (Some idx)
  have "takeWhile (prefix p) (skip_range_from p (map akh_as_bytes idx))
      = map akh_as_bytes (takeWhile (\<lambda>h. prefix p (akh_as_bytes h)) (askip_range_from (akh_new p) idx))"
    unfolding map_askip_range(1) [of "akh_new p" idx, simplified, symmetric] by (simp add: takeWhile_map o_def)
  moreover have "canonical h" if "h \<in> set (takeWhile (\<lambda>h. prefix p (akh_as_bytes h)) (askip_range_from (akh_new p) idx))" for h
    using amt_index_canonical [OF assms Some] set_takeWhileD [OF that] by (simp add: askip_range_from_def)
  ultimately show ?thesis
    using Some amt_collect_abs [OF assms, of "takeWhile (\<lambda>h. prefix p (akh_as_bytes h)) (askip_range_from (akh_new p) idx)" s cur]
    by (simp add: mmt_scan_prefix_def amt_scan_prefix_def) (simp add: amt_abs_def)
qed

lemma amt_scan_range_abs:
  assumes "amt_wf t"
  shows "mmt_scan_range lo hi s cur (amt_abs t) = (amt_abs t, Inr (amt_scan_range lo hi s cur t))"
proof (cases "amt_ordered_index t")
  case None
  then show ?thesis by (simp add: mmt_scan_range_def amt_scan_range_def amt_abs_def data_scan_rename)
next
  case (Some idx)
  note can = amt_index_canonical [OF assms Some]
  have "collect_visible (\<lambda>k. mmt_read k s cur (amt_abs t)) (skip_range_from lo (map akh_as_bytes idx))
      = map (apfst akh_as_bytes) (collect_visible (amt_look s cur t) (askip_range_from (akh_new lo) idx))"
    "collect_visible (\<lambda>k. mmt_read k s cur (amt_abs t)) (skip_range lo hi (map akh_as_bytes idx))
      = map (apfst akh_as_bytes) (collect_visible (amt_look s cur t) (askip_range (akh_new lo) (akh_new hi) idx))"
    using amt_collect_abs [OF assms, of "askip_range_from (akh_new lo) idx" s cur] can
      amt_collect_abs [OF assms, of "askip_range (akh_new lo) (akh_new hi) idx" s cur]
    by (simp_all add: map_askip_range) (simp_all add: askip_range_from_def askip_range_def)
  then show ?thesis using Some by (simp add: mmt_scan_range_def amt_scan_range_def) (simp add: amt_abs_def)
qed

lemma remdups_map_inj: "inj_on f (set ks) \<Longrightarrow> remdups (map f ks) = map f (remdups ks)"
  by (induction ks) (auto simp: inj_on_def)

lemma amt_wf_dirty:
  assumes "amt_wf t" "edl_wf dl" "\<And>hs h. hs \<in> set (edl_epochs dl) \<Longrightarrow> h \<in> set hs \<Longrightarrow> canonical h"
  shows "amt_wf (t\<lparr>amt_dirty_list := dl\<rparr>)"
proof -
  have "amt_abs (t\<lparr>amt_dirty_list := dl\<rparr>) = (amt_abs t)\<lparr>mmt_dirty_list := edl_rename akh_as_bytes dl\<rparr>"
    by (simp add: amt_abs_def)
  with assms show ?thesis by (auto simp: amt_wf_def)
qed

lemma amt_gc_abs:
  assumes "amt_wf t"
  shows "mmt_gc m (amt_abs t) = (amt_abs (fst (amt_gc m t)), snd (amt_gc m t))" and "amt_wf (fst (amt_gc m t))"
proof -
  obtain dl ep ks where adv: "edl_advance_epoch (amt_dirty_list t) = (dl, ep, ks)" by (metis prod_cases3)
  have wf: "edl_wf (amt_dirty_list t)" using assms by (simp add: amt_wf_def)
  have can: "canonical h" if "h \<in> set ks" for h
    using adv that assms edl_slot_mem [OF wf] by (auto simp: edl_advance_epoch_def Let_def amt_wf_def)
  have dl: "edl_epochs dl = (edl_epochs (amt_dirty_list t))[unat (edl_current_epoch (amt_dirty_list t)) mod EPOCH_RING_SIZE := []]"
    using adv by (auto simp: edl_advance_epoch_def Let_def)
  have t1: "amt_wf (t\<lparr>amt_dirty_list := dl\<rparr>)"
    using assms wf
    by (intro amt_wf_dirty) (auto simp: dl edl_wf_def amt_wf_def dest!: subsetD [OF set_update_subset_insert])
  have inj: "inj_on akh_as_bytes (set ks \<union> fst ` set (amt_data t))"
    using assms can by (intro canonical_inj) (auto simp: amt_wf_def)
  have rd: "remdups (map akh_as_bytes ks) = map akh_as_bytes (remdups ks)"
    by (rule remdups_map_inj, rule inj_on_subset [OF inj]) simp
  have "fold (gc_entry m) (map akh_as_bytes (remdups ks)) (dm_rename akh_as_bytes (amt_data t), 0)
      = apfst (dm_rename akh_as_bytes) (fold (gc_entry m) (remdups ks) (amt_data t, 0))"
    using gc_fold_rename [of akh_as_bytes "remdups ks" "(amt_data t, 0)" m] inj by simp
  then show "mmt_gc m (amt_abs t) = (amt_abs (fst (amt_gc m t)), snd (amt_gc m t))"
    using edl_rename_advance [OF wf, of akh_as_bytes]
    by (simp add: mmt_gc_def amt_gc_def aedl_eq adv amt_abs_def Let_def case_prod_unfold rd apfst_def map_prod_def)
  have "amt_wf ((t\<lparr>amt_dirty_list := dl\<rparr>)\<lparr>amt_data := fst (fold (gc_entry m) (remdups ks) (amt_data t, 0))\<rparr>)"
  proof (rule amt_wf_data [OF t1])
    show "map fst (fst (fold (gc_entry m) (remdups ks) (amt_data t, 0))) = map fst (amt_data (t\<lparr>amt_dirty_list := dl\<rparr>))"
      by (simp add: gc_entry_fold(2))
    have "data_wf (amt_data t)" by (rule amt_data_wf [OF assms])
    then show "vc_wf c" if "map_of (fst (fold (gc_entry m) (remdups ks) (amt_data t, 0))) k = Some c" for k c
      using data_wf_gc_fold [of "(amt_data t, 0)" m "remdups ks"] that by (auto simp: data_wf_def)
  qed
  with t1 show "amt_wf (fst (amt_gc m t))" by (simp add: amt_gc_def aedl_eq adv Let_def case_prod_unfold)
qed

text \<open>
  Batches: the standard table enters all keys of a batch into the dirty list before the first write, the
  arena table one by one, so on a conflict their dirty lists differ; everything else agrees.
\<close>

lemma mmt_put_step:
  "(mmt_index_insert k (t\<lparr>mmt_dirty_list := dl\<rparr>))\<lparr>mmt_data := fst (data_put k x u (mmt_data t))\<rparr>
     = (mmt_put k x u t)\<lparr>mmt_dirty_list := dl\<rparr>"
  by (simp add: mmt_put_def mmt_index_insert_def split: option.split)

lemma amt_write_batch_loop_abs:
  assumes "amt_wf t"
  shows "mmt_write_batch_loop ws u n ((amt_abs t)\<lparr>mmt_dirty_list := dl\<rparr>) =
      ((amt_abs (fst (amt_write_batch_loop ws u n t)))\<lparr>mmt_dirty_list := dl\<rparr>, snd (amt_write_batch_loop ws u n t)) \<and>
    amt_wf (fst (amt_write_batch_loop ws u n t))"
  using assms
proof (induction ws arbitrary: t n)
  case (Cons w ws)
  obtain k x where w: "w = (k, x)" by (cases w)
  have std: "mmt_write_batch_loop (w # ws) u n ((amt_abs t)\<lparr>mmt_dirty_list := dl\<rparr>) =
      (let t2 = (mmt_put k x u (amt_abs t))\<lparr>mmt_dirty_list := dl\<rparr>
       in if vc_has_write_conflict u (mmt_chain (amt_abs t) k) then (t2, Inl ww_conflict)
          else mmt_write_batch_loop ws u (n + word_of_nat (length k + value_size x)) t2)"
    using data_put_eq(1) [of k x u "mmt_data (amt_abs t)"] mmt_put_step [where k = k and t = "amt_abs t" and dl = dl and x = x and u = u]
    by (simp add: w Let_def case_prod_unfold mmt_chain_def)
  have "amt_write_batch_loop (w # ws) u n t =
      (if vc_has_write_conflict u (mmt_chain (amt_abs t) k) then (amt_put k x u t, Inl ww_conflict)
       else amt_write_batch_loop ws u (n + word_of_nat (length k + value_size x)) (amt_put k x u t))"
    using amt_put_abs(2) [OF Cons.prems, of k x u] by (simp add: w Let_def case_prod_unfold amt_put_def)
  then show ?case
    using std Cons.IH [OF amt_wf_put [OF Cons.prems, of k x u]] amt_wf_put [OF Cons.prems, of k x u]
    by (simp add: amt_put_abs(1) [OF Cons.prems] Let_def)
qed simp

lemma amt_write_batch_abs:
  assumes "amt_wf t"
  shows "snd (amt_write_batch ws u t) = snd (mmt_write_batch ws u (amt_abs t))"
    and "\<exists>dl. fst (mmt_write_batch ws u (amt_abs t)) = (amt_abs (fst (amt_write_batch ws u t)))\<lparr>mmt_dirty_list := dl\<rparr>"
    and "amt_wf (fst (amt_write_batch ws u t))"
proof -
  let ?dl = "edl_record_versions_batch (map fst ws) (mmt_dirty_list (amt_abs t))"
  obtain t1 r where r: "amt_write_batch_loop ws u 0 t = (t1, r)" by fastforce
  have std: "mmt_write_batch_loop ws u 0 ((amt_abs t)\<lparr>mmt_dirty_list := ?dl\<rparr>) = ((amt_abs t1)\<lparr>mmt_dirty_list := ?dl\<rparr>, r)"
    and wf: "amt_wf t1"
    using amt_write_batch_loop_abs [OF assms, of ws u 0 ?dl] r by simp_all
  note batch = mmt_write_batch_def amt_write_batch_def Let_def r std
  show "snd (amt_write_batch ws u t) = snd (mmt_write_batch ws u (amt_abs t))" by (simp add: batch split: sum.split)
  show "\<exists>dl. fst (mmt_write_batch ws u (amt_abs t)) = (amt_abs (fst (amt_write_batch ws u t)))\<lparr>mmt_dirty_list := dl\<rparr>"
    by (rule exI [of _ ?dl]) (simp add: batch split: sum.split, simp add: amt_abs_def)
  show "amt_wf (fst (amt_write_batch ws u t))" using wf by (simp add: batch split: sum.split)
qed

lemma edl_record_batch_Cons:
  "edl_wf d \<Longrightarrow> edl_record_versions_batch (k # ks) d = edl_record_versions_batch ks (edl_record_version k d)"
  by (simp add: edl_record_versions_batch_def edl_record_version_def Let_def edl_wf_def EPOCH_RING_SIZE_def)

lemma edl_record_batch_Nil [simp]: "edl_record_versions_batch [] d = d"
  by (simp add: edl_record_versions_batch_def Let_def)

lemma amt_write_batch_loop_dirty:
  assumes "amt_wf t" "snd (amt_write_batch_loop ws u n t) = Inr m"
  shows "mmt_dirty_list (amt_abs (fst (amt_write_batch_loop ws u n t))) =
    edl_record_versions_batch (map fst ws) (mmt_dirty_list (amt_abs t))"
  using assms
proof (induction ws arbitrary: t n)
  case (Cons w ws)
  obtain k x where w: "w = (k, x)" by (cases w)
  have loop: "amt_write_batch_loop (w # ws) u n t =
      (if vc_has_write_conflict u (mmt_chain (amt_abs t) k) then (amt_put k x u t, Inl ww_conflict)
       else amt_write_batch_loop ws u (n + word_of_nat (length k + value_size x)) (amt_put k x u t))"
    using amt_put_abs(2) [OF Cons.prems(1), of k x u] by (simp add: w Let_def case_prod_unfold amt_put_def)
  have "mmt_dirty_list (amt_abs (amt_put k x u t)) = edl_record_version k (mmt_dirty_list (amt_abs t))"
    unfolding amt_put_abs(1) [OF Cons.prems(1)] by (simp add: mmt_put_def mmt_index_insert_def split: option.split)
  moreover have "edl_wf (mmt_dirty_list (amt_abs t))"
    using Cons.prems(1) by (simp add: amt_wf_def amt_abs_def edl_rename_def edl_wf_def)
  ultimately show ?case
    using Cons.IH [OF amt_wf_put [OF Cons.prems(1), of k x u]] Cons.prems(2) w
    by (simp add: loop [unfolded w] edl_record_batch_Cons del: amt_write_batch_loop.simps split: if_splits)
qed simp

lemma amt_write_batch_ok:
  assumes "amt_wf t" "snd (amt_write_batch ws u t) = Inr ()"
  shows "mmt_write_batch ws u (amt_abs t) = (amt_abs (fst (amt_write_batch ws u t)), Inr ())"
proof -
  let ?dl = "edl_record_versions_batch (map fst ws) (mmt_dirty_list (amt_abs t))"
  obtain t1 n where r: "amt_write_batch_loop ws u 0 t = (t1, Inr n)"
    using assms(2) by (auto simp: amt_write_batch_def split: prod.splits sum.splits)
  have std: "mmt_write_batch_loop ws u 0 ((amt_abs t)\<lparr>mmt_dirty_list := ?dl\<rparr>) = ((amt_abs t1)\<lparr>mmt_dirty_list := ?dl\<rparr>, Inr n)"
    using amt_write_batch_loop_abs [OF assms(1), of ws u 0 ?dl] r by simp
  have "(amt_abs t1)\<lparr>mmt_dirty_list := ?dl\<rparr> = amt_abs t1"
    using amt_write_batch_loop_dirty [OF assms(1), of ws u 0] r by simp
  then show ?thesis using r std by (simp add: mmt_write_batch_def amt_write_batch_def Let_def) (simp add: amt_abs_def)
qed

lemma mmt_batch_loop_dirty:
  "mmt_write_batch_loop ws u n (t\<lparr>mmt_dirty_list := dl\<rparr>) =
     apfst (mmt_dirty_list_update (\<lambda>_. dl)) (mmt_write_batch_loop ws u n t)"
proof (induction ws arbitrary: t n)
  case (Cons w ws)
  obtain k x where w: "w = (k, x)" by (cases w)
  have "mmt_index_insert k (t\<lparr>mmt_dirty_list := dl\<rparr>) = (mmt_index_insert k t)\<lparr>mmt_dirty_list := dl\<rparr>"
    by (simp add: mmt_index_insert_def split: option.split)
  moreover have "(t'\<lparr>mmt_dirty_list := dl\<rparr>)\<lparr>mmt_data := d\<rparr> = (t'\<lparr>mmt_data := d\<rparr>)\<lparr>mmt_dirty_list := dl\<rparr>"
    for t' :: MvccMemTable and d
    by simp
  ultimately show ?case by (simp only: w mmt_write_batch_loop.simps Let_def case_prod_unfold) (simp add: Cons.IH)
qed simp

lemma amt_new_abs: "amt_wf (amt_with_ordered_index b)" "amt_abs (amt_with_ordered_index b) = mmt_with_index_mode b False"
proof -
  show abs: "amt_abs (amt_with_ordered_index b) = mmt_with_index_mode b False"
    by (simp add: amt_abs_def amt_with_ordered_index_def mmt_with_index_mode_def aedl_eq edl_rename_def edl_new_def
        dm_rename_def)
  show "amt_wf (amt_with_ordered_index b)"
    using mmt_wf_new [of b False] unfolding amt_wf_def abs
    by (auto simp: amt_with_ordered_index_def aedl_eq edl_new_def edl_wf_def EPOCH_RING_SIZE_def)
qed

subsection \<open>Either table\<close>

datatype MemTableType = StandardType | ArenaType

datatype MemTableKind = Standard MvccMemTable | Arena ArenaMvccMemTable

definition mtk_new :: "MemTableType \<Rightarrow> bool \<Rightarrow> MemTableKind" where
  "mtk_new kind enable_ordered_index =
     (case kind of
        StandardType \<Rightarrow> Standard (mmt_with_ordered_index enable_ordered_index)
      | ArenaType \<Rightarrow> Arena (amt_with_ordered_index enable_ordered_index))"

definition mtk_write :: "key \<Rightarrow> val option \<Rightarrow> u64 \<Rightarrow> MemTableKind \<Rightarrow> MemTableKind \<times> unit result" where
  "mtk_write k x txn m =
     (case m of
        Standard t \<Rightarrow> apfst Standard (mmt_write k x txn t)
      | Arena t \<Rightarrow> apfst Arena (amt_write k x txn t))"

definition mtk_write_batch :: "(key \<times> val option) list \<Rightarrow> u64 \<Rightarrow> MemTableKind \<Rightarrow> MemTableKind \<times> unit result" where
  "mtk_write_batch ws txn m =
     (case m of
        Standard t \<Rightarrow> apfst Standard (mmt_write_batch ws txn t)
      | Arena t \<Rightarrow> apfst Arena (amt_write_batch ws txn t))"

definition mtk_read :: "key \<Rightarrow> u64 \<Rightarrow> u64 option \<Rightarrow> MemTableKind \<Rightarrow> val option" where
  "mtk_read k snap cur m = (case m of Standard t \<Rightarrow> mmt_read k snap cur t | Arena t \<Rightarrow> amt_read k snap cur t)"

definition mtk_commit :: "u64 \<Rightarrow> u64 \<Rightarrow> key list \<Rightarrow> MemTableKind \<Rightarrow> MemTableKind" where
  "mtk_commit txn cts ws m =
     (case m of Standard t \<Rightarrow> Standard (mmt_commit txn cts ws t) | Arena t \<Rightarrow> Arena (amt_commit txn cts ws t))"

definition mtk_abort :: "u64 \<Rightarrow> MemTableKind \<Rightarrow> MemTableKind" where
  "mtk_abort txn m = (case m of Standard t \<Rightarrow> Standard (mmt_abort txn t) | Arena t \<Rightarrow> Arena (amt_abort txn t))"

definition mtk_scan_prefix :: "key \<Rightarrow> u64 \<Rightarrow> u64 option \<Rightarrow> MemTableKind \<Rightarrow> MemTableKind \<times> (key \<times> val) list" where
  "mtk_scan_prefix p snap cur m =
     (case m of
        Standard t \<Rightarrow> apfst Standard (mmt_scan_prefix p snap cur t)
      | Arena t \<Rightarrow> (m, amt_scan_prefix p snap cur t))"

definition mtk_scan_range ::
    "key \<Rightarrow> key \<Rightarrow> u64 \<Rightarrow> u64 option \<Rightarrow> MemTableKind \<Rightarrow> MemTableKind \<times> (key \<times> val) list result" where
  "mtk_scan_range lo hi snap cur m =
     (case m of
        Standard t \<Rightarrow> apfst Standard (mmt_scan_range lo hi snap cur t)
      | Arena t \<Rightarrow> (m, Inr (amt_scan_range lo hi snap cur t)))"

text \<open>The boxed iterator: the streaming iterator of the standard table, or a materialised result.\<close>

datatype RangeIterator = StreamIter ScanRangeIterator | VecIter "(key \<times> val) list"

definition mtk_scan_range_iter ::
    "key \<Rightarrow> key \<Rightarrow> u64 \<Rightarrow> u64 option \<Rightarrow> MemTableKind \<Rightarrow> (MemTableKind \<times> RangeIterator) result" where
  "mtk_scan_range_iter lo hi snap cur m =
     (case m of
        Standard t \<Rightarrow> (let (t', it) = mmt_scan_range_iter lo hi snap cur t in Inr (Standard t', StreamIter it))
      | Arena t \<Rightarrow>
          (let (m', r) = mtk_scan_range lo hi snap cur m in try_bind r (\<lambda>results. Inr (m', VecIter results))))"

definition mtk_size :: "MemTableKind \<Rightarrow> u64" where
  "mtk_size m = (case m of Standard t \<Rightarrow> mmt_size t | Arena t \<Rightarrow> amt_size t)"

definition mtk_gc :: "u64 \<Rightarrow> MemTableKind \<Rightarrow> MemTableKind \<times> nat" where
  "mtk_gc min_ts m =
     (case m of Standard t \<Rightarrow> apfst Standard (mmt_gc min_ts t) | Arena t \<Rightarrow> apfst Arena (amt_gc min_ts t))"

definition mtk_kind :: "MemTableKind \<Rightarrow> MemTableType" where
  "mtk_kind m = (case m of Standard _ \<Rightarrow> StandardType | Arena _ \<Rightarrow> ArenaType)"

text \<open>Every kind of table is read as a standard table.\<close>

definition mtk_abs :: "MemTableKind \<Rightarrow> MvccMemTable" where
  "mtk_abs m = (case m of Standard t \<Rightarrow> t | Arena t \<Rightarrow> amt_abs t)"

definition mtk_wf :: "MemTableKind \<Rightarrow> bool" where
  "mtk_wf m = (case m of Standard t \<Rightarrow> mmt_wf t | Arena t \<Rightarrow> amt_wf t)"

definition mtk_chain :: "MemTableKind \<Rightarrow> key \<Rightarrow> VersionChain" where
  "mtk_chain m = mmt_chain (mtk_abs m)"

lemma mtk_wf_abs: "mtk_wf m \<Longrightarrow> mmt_wf (mtk_abs m)"
  by (auto simp: mtk_wf_def mtk_abs_def amt_wf_def split: MemTableKind.splits)

lemma mtk_wf_new: "mtk_wf (mtk_new kind b)"
  by (auto simp: mtk_wf_def mtk_new_def amt_new_abs mmt_with_ordered_index_def mmt_wf_new split: MemTableType.split)

lemma mtk_write_abs:
  "mtk_wf m \<Longrightarrow> mmt_write k x u (mtk_abs m) = (mtk_abs (fst (mtk_write k x u m)), snd (mtk_write k x u m))"
  by (simp add: mtk_write_def mtk_abs_def mtk_wf_def amt_write_abs split: MemTableKind.splits)

lemma mtk_wf_write: "mtk_wf m \<Longrightarrow> mtk_wf (fst (mtk_write k x u m))"
  by (simp add: mtk_write_def mtk_wf_def amt_write_abs mmt_wf_write split: MemTableKind.splits)

lemma mtk_read_abs: "mtk_wf m \<Longrightarrow> mtk_read k s cur m = mmt_read k s cur (mtk_abs m)"
  by (simp add: mtk_read_def mtk_abs_def mtk_wf_def amt_read_abs split: MemTableKind.splits)

lemma mtk_commit_abs: "mtk_wf m \<Longrightarrow> mtk_abs (mtk_commit u cts ws m) = mmt_commit u cts ws (mtk_abs m)"
  by (simp add: mtk_commit_def mtk_abs_def mtk_wf_def amt_commit_abs split: MemTableKind.splits)

lemma mtk_wf_commit: "mtk_wf m \<Longrightarrow> mtk_wf (mtk_commit u cts ws m)"
  by (simp add: mtk_commit_def mtk_wf_def amt_commit_abs std.inv_commit split: MemTableKind.splits)

lemma mtk_abort_abs: "mtk_wf m \<Longrightarrow> mtk_abs (mtk_abort u m) = mmt_abort u (mtk_abs m)"
  by (simp add: mtk_abort_def mtk_abs_def mtk_wf_def amt_abort_abs split: MemTableKind.splits)

lemma mtk_wf_abort: "mtk_wf m \<Longrightarrow> mtk_wf (mtk_abort u m)"
  by (simp add: mtk_abort_def mtk_wf_def amt_abort_abs std.inv_abort split: MemTableKind.splits)

lemma mtk_gc_abs: "mtk_wf m \<Longrightarrow> mmt_gc ts (mtk_abs m) = (mtk_abs (fst (mtk_gc ts m)), snd (mtk_gc ts m))"
  by (simp add: mtk_gc_def mtk_abs_def mtk_wf_def amt_gc_abs split: MemTableKind.splits)

lemma mtk_wf_gc: "mtk_wf m \<Longrightarrow> mtk_wf (fst (mtk_gc ts m))"
  by (simp add: mtk_gc_def mtk_wf_def amt_gc_abs mmt_wf_gc split: MemTableKind.splits)

lemma mtk_scan_prefix_abs:
  "mtk_wf m \<Longrightarrow> mmt_scan_prefix p s cur (mtk_abs m) = (mtk_abs (fst (mtk_scan_prefix p s cur m)), snd (mtk_scan_prefix p s cur m))"
  by (simp add: mtk_scan_prefix_def mtk_abs_def mtk_wf_def amt_scan_prefix_abs split: MemTableKind.splits)

lemma mtk_wf_scan_prefix: "mtk_wf m \<Longrightarrow> mtk_wf (fst (mtk_scan_prefix p s cur m))"
  by (simp add: mtk_scan_prefix_def mtk_wf_def std.inv_scan split: MemTableKind.splits)

lemma mtk_write_snd: "mtk_wf m \<Longrightarrow> snd (mtk_write k x u m) = snd (mmt_write k x u (mtk_abs m))"
  by (simp add: mtk_write_abs)

interpretation kind: mvcc_table mtk_chain mtk_wf mtk_write mtk_read mtk_commit mtk_abort mtk_gc mtk_scan_prefix
proof (unfold_locales, goal_cases)
  case (1 t k) then show ?case by (simp add: mtk_chain_def std.chain_wf mtk_wf_abs)
next
  case (2 t k x u) then show ?case by (rule mtk_wf_write)
next
  case (3 t k x u k')
  then show ?case using std.chain_write [OF mtk_wf_abs [OF 3], of k x u k'] by (simp add: mtk_chain_def mtk_write_abs)
next
  case (4 t k x u)
  then show ?case using std.write_result [OF mtk_wf_abs [OF 4], of k x u] by (simp add: mtk_chain_def mtk_write_abs)
next
  case (5 t k s cur) then show ?case by (simp add: mtk_chain_def mtk_read_abs mmt_read_eq)
next
  case (6 t u cts ws) then show ?case by (rule mtk_wf_commit)
next
  case (7 t u cts ws k) then show ?case by (simp add: mtk_chain_def mtk_commit_abs std.chain_commit mtk_wf_abs)
next
  case (8 t u) then show ?case by (rule mtk_wf_abort)
next
  case (9 t u k) then show ?case by (simp add: mtk_chain_def mtk_abort_abs std.chain_abort mtk_wf_abs)
next
  case (10 t m) then show ?case by (rule mtk_wf_gc)
next
  case (11 t m k)
  then show ?case using std.chain_gc [OF mtk_wf_abs [OF 11], of m k] by (simp add: mtk_chain_def mtk_gc_abs)
next
  case (12 t p s cur) then show ?case by (rule mtk_wf_scan_prefix)
next
  case (13 t p s cur k)
  then show ?case using std.chain_scan [OF mtk_wf_abs [OF 13], of p s cur k] by (simp add: mtk_chain_def mtk_scan_prefix_abs)
next
  case (14 t p s cur)
  then show ?case using std.scan_set [OF mtk_wf_abs [OF 14], of p s cur] by (simp add: mtk_read_abs mtk_scan_prefix_abs)
next
  case (15 t p s cur)
  then show ?case using std.scan_distinct [OF mtk_wf_abs [OF 15], of p s cur] by (simp add: mtk_scan_prefix_abs)
qed

subsection \<open>Properties of the arena table\<close>

text \<open>A client of a table: any sequence of operations and what each of them returns.\<close>

datatype table_op =
    OpWrite key "val option" u64
  | OpBatch "(key \<times> val option) list" u64
  | OpRead key u64 "u64 option"
  | OpCommit u64 u64 "key list"
  | OpAbort u64
  | OpGc u64
  | OpScanPrefix key u64 "u64 option"
  | OpScanRange key key u64 "u64 option"
  | OpSize

datatype table_obs =
    Done
  | Wrote "unit result"
  | Batched "unit result"
  | Value "val option"
  | Collected nat
  | Rows "(key \<times> val) list result"
  | Bytes u64

definition mtk_step :: "table_op \<Rightarrow> MemTableKind \<Rightarrow> MemTableKind \<times> table_obs" where
  "mtk_step oper m =
     (case oper of
        OpWrite k x u \<Rightarrow> apsnd Wrote (mtk_write k x u m)
      | OpBatch ws u \<Rightarrow> apsnd Batched (mtk_write_batch ws u m)
      | OpRead k s cur \<Rightarrow> (m, Value (mtk_read k s cur m))
      | OpCommit u cts ws \<Rightarrow> (mtk_commit u cts ws m, Done)
      | OpAbort u \<Rightarrow> (mtk_abort u m, Done)
      | OpGc ts \<Rightarrow> apsnd Collected (mtk_gc ts m)
      | OpScanPrefix p s cur \<Rightarrow> apsnd (\<lambda>r. Rows (Inr r)) (mtk_scan_prefix p s cur m)
      | OpScanRange lo hi s cur \<Rightarrow> apsnd Rows (mtk_scan_range lo hi s cur m)
      | OpSize \<Rightarrow> (m, Bytes (mtk_size m)))"

fun mtk_run :: "table_op list \<Rightarrow> MemTableKind \<Rightarrow> MemTableKind \<times> table_obs list" where
  "mtk_run [] m = (m, [])"
| "mtk_run (oper # ops) m =
     (let (m1, r) = mtk_step oper m; (m2, rs) = mtk_run ops m1 in (m2, r # rs))"

lemma mtk_run_append:
  "snd (mtk_run (ops @ ops') m) = snd (mtk_run ops m) @ snd (mtk_run ops' (fst (mtk_run ops m)))"
  by (induction ops arbitrary: m) (simp_all add: Let_def case_prod_unfold)

lemmas mtk_defs = mtk_step_def mtk_write_def mtk_write_batch_def mtk_read_def mtk_commit_def mtk_abort_def mtk_gc_def
  mtk_scan_prefix_def mtk_scan_range_def mtk_size_def

lemmas amt_ops_abs = amt_write_abs amt_read_abs amt_commit_abs amt_abort_abs amt_gc_abs amt_scan_prefix_abs
  amt_scan_range_abs

text \<open>Without a refused batch the standard table is the image of the arena table, dirty list included.\<close>

lemma arena_step:
  assumes "amt_wf t" "\<And>e. snd (mtk_step oper (Arena t)) \<noteq> Batched (Inl e)"
  shows "\<exists>t'. fst (mtk_step oper (Arena t)) = Arena t' \<and> amt_wf t' \<and>
    mtk_step oper (Standard (amt_abs t)) = (Standard (amt_abs t'), snd (mtk_step oper (Arena t)))"
proof (cases oper)
  case (OpBatch ws u)
  with assms(2) [of "projl (snd (amt_write_batch ws u t))"] have "snd (amt_write_batch ws u t) = Inr ()"
    by (cases "snd (amt_write_batch ws u t)") (simp_all add: mtk_defs)
  with assms(1) OpBatch show ?thesis by (simp add: mtk_defs amt_write_batch_ok amt_write_batch_abs)
next
  case OpSize
  with assms show ?thesis by (simp add: mtk_defs mmt_size_def amt_size_def) (simp add: amt_abs_def)
qed (use assms in \<open>simp_all add: mtk_defs amt_ops_abs\<close>)

lemma arena_run:
  assumes "amt_wf t" "\<And>e. Batched (Inl e) \<notin> set (snd (mtk_run ops (Arena t)))"
  shows "\<exists>t'. fst (mtk_run ops (Arena t)) = Arena t' \<and> amt_wf t' \<and>
    mtk_run ops (Standard (amt_abs t)) = (Standard (amt_abs t'), snd (mtk_run ops (Arena t)))"
  using assms
proof (induction ops arbitrary: t)
  case (Cons oper ops)
  have run: "snd (mtk_run (oper # ops) (Arena t)) =
      snd (mtk_step oper (Arena t)) # snd (mtk_run ops (fst (mtk_step oper (Arena t))))"
    by (simp add: Let_def case_prod_unfold)
  have "snd (mtk_step oper (Arena t)) \<noteq> Batched (Inl e)" for e using Cons.prems(2) [of e] unfolding run by auto
  then obtain t1 where t1: "fst (mtk_step oper (Arena t)) = Arena t1" "amt_wf t1"
    "mtk_step oper (Standard (amt_abs t)) = (Standard (amt_abs t1), snd (mtk_step oper (Arena t)))"
    using arena_step [OF Cons.prems(1)] by blast
  have "Batched (Inl e) \<notin> set (snd (mtk_run ops (Arena t1)))" for e using Cons.prems(2) [of e] unfolding run t1(1) by simp
  then obtain t2 where "fst (mtk_run ops (Arena t1)) = Arena t2" "amt_wf t2"
    "mtk_run ops (Standard (amt_abs t1)) = (Standard (amt_abs t2), snd (mtk_run ops (Arena t1)))"
    using Cons.IH [OF t1(2)] by blast
  with t1 show ?case by (simp add: Let_def case_prod_unfold)
qed simp

text \<open>Whatever the dirty list of the standard table holds, only a collection reads it.\<close>

lemma mmt_dirty_list_frame:
  "mmt_write k x u (t\<lparr>mmt_dirty_list := dl\<rparr>) =
     ((fst (mmt_write k x u t))\<lparr>mmt_dirty_list := edl_record_version k dl\<rparr>, snd (mmt_write k x u t))"
  "mmt_write_batch ws u (t\<lparr>mmt_dirty_list := dl\<rparr>) =
     ((fst (mmt_write_batch ws u t))\<lparr>mmt_dirty_list := edl_record_versions_batch (map fst ws) dl\<rparr>,
      snd (mmt_write_batch ws u t))"
  "mmt_read k s cur (t\<lparr>mmt_dirty_list := dl\<rparr>) = mmt_read k s cur t"
  "mmt_commit u cts ks (t\<lparr>mmt_dirty_list := dl\<rparr>) = (mmt_commit u cts ks t)\<lparr>mmt_dirty_list := dl\<rparr>"
  "mmt_abort u (t\<lparr>mmt_dirty_list := dl\<rparr>) = (mmt_abort u t)\<lparr>mmt_dirty_list := dl\<rparr>"
  "mmt_scan_prefix p s cur (t\<lparr>mmt_dirty_list := dl\<rparr>) = apfst (mmt_dirty_list_update (\<lambda>_. dl)) (mmt_scan_prefix p s cur t)"
  "mmt_scan_range lo hi s cur (t\<lparr>mmt_dirty_list := dl\<rparr>) =
     apfst (mmt_dirty_list_update (\<lambda>_. dl)) (mmt_scan_range lo hi s cur t)"
  "mmt_size (t\<lparr>mmt_dirty_list := dl\<rparr>) = mmt_size t"
proof -
  have read: "mmt_read k s cur (t\<lparr>mmt_dirty_list := dl\<rparr>) = mmt_read k s cur t" for k
    by (simp add: mmt_read_def)
  show "mmt_write k x u (t\<lparr>mmt_dirty_list := dl\<rparr>) =
     ((fst (mmt_write k x u t))\<lparr>mmt_dirty_list := edl_record_version k dl\<rparr>, snd (mmt_write k x u t))"
    by (simp add: mmt_write_put mmt_chain_def mmt_put_def mmt_index_insert_def split: option.split)
  show "mmt_write_batch ws u (t\<lparr>mmt_dirty_list := dl\<rparr>) =
     ((fst (mmt_write_batch ws u t))\<lparr>mmt_dirty_list := edl_record_versions_batch (map fst ws) dl\<rparr>,
      snd (mmt_write_batch ws u t))"
    using mmt_batch_loop_dirty [of ws u 0 "edl_record_versions_batch (map fst ws) dl" t]
      mmt_batch_loop_dirty [of ws u 0 "edl_record_versions_batch (map fst ws) (mmt_dirty_list t)" t]
    by (simp add: mmt_write_batch_def Let_def case_prod_unfold split: sum.split)
  show "mmt_read k s cur (t\<lparr>mmt_dirty_list := dl\<rparr>) = mmt_read k s cur t" by (rule read)
  show "mmt_scan_prefix p s cur (t\<lparr>mmt_dirty_list := dl\<rparr>) =
      apfst (mmt_dirty_list_update (\<lambda>_. dl)) (mmt_scan_prefix p s cur t)"
    by (simp add: mmt_scan_prefix_def read Let_def case_prod_unfold split: option.split)
  show "mmt_scan_range lo hi s cur (t\<lparr>mmt_dirty_list := dl\<rparr>) =
      apfst (mmt_dirty_list_update (\<lambda>_. dl)) (mmt_scan_range lo hi s cur t)"
    by (simp add: mmt_scan_range_def read Let_def case_prod_unfold split: option.split)
qed (simp_all add: mmt_commit_def mmt_abort_def mmt_size_def)

lemma arena_step_any_batch:
  assumes "amt_wf t" "\<And>ts. oper \<noteq> OpGc ts"
  shows "\<exists>t' dl'. fst (mtk_step oper (Arena t)) = Arena t' \<and> amt_wf t' \<and>
    mtk_step oper (Standard ((amt_abs t)\<lparr>mmt_dirty_list := dl\<rparr>)) =
      (Standard ((amt_abs t')\<lparr>mmt_dirty_list := dl'\<rparr>), snd (mtk_step oper (Arena t)))"
proof (cases oper)
  case (OpBatch ws u)
  obtain dl' where "fst (mmt_write_batch ws u (amt_abs t)) = (amt_abs (fst (amt_write_batch ws u t)))\<lparr>mmt_dirty_list := dl'\<rparr>"
    using amt_write_batch_abs(2) [OF assms(1)] by blast
  with assms(1) OpBatch show ?thesis by (auto simp: mtk_defs mmt_dirty_list_frame amt_write_batch_abs)
next
  case OpSize
  with assms show ?thesis by (auto simp: mtk_defs mmt_dirty_list_frame mmt_size_def amt_size_def) (simp add: amt_abs_def)
qed (use assms in \<open>auto simp: mtk_defs mmt_dirty_list_frame amt_ops_abs\<close>)

lemma arena_run_any_batch:
  assumes "amt_wf t" "\<And>ts. OpGc ts \<notin> set ops"
  shows "snd (mtk_run ops (Standard ((amt_abs t)\<lparr>mmt_dirty_list := dl\<rparr>))) = snd (mtk_run ops (Arena t))"
  using assms
proof (induction ops arbitrary: t dl)
  case (Cons oper ops)
  then have "oper \<noteq> OpGc ts" for ts by auto
  then obtain t1 dl1 where "fst (mtk_step oper (Arena t)) = Arena t1" "amt_wf t1"
    "mtk_step oper (Standard ((amt_abs t)\<lparr>mmt_dirty_list := dl\<rparr>)) =
      (Standard ((amt_abs t1)\<lparr>mmt_dirty_list := dl1\<rparr>), snd (mtk_step oper (Arena t)))"
    using arena_step_any_batch [OF Cons.prems(1), of oper dl] by blast
  with Cons.IH [of t1 dl1] Cons.prems(2) show ?case by (simp add: Let_def case_prod_unfold)
qed simp

text \<open>
  C9: The arena table refines the standard table with a skip-list index.  For every sequence of writes,
  batches, reads, commits, aborts, collections and scans from the empty tables, both return the same
  results up to the first collection after a refused batch: \<open>ops\<close> is any part of the sequence in which no
  batch was refused, \<open>later\<close> any continuation without a collection, in which batches may be refused.  After a
  refused batch the standard table has marked every key of the batch as dirty and the arena table only the
  keys up to the conflict (\<^verbatim>\<open>write_batch\<close> of the two tables), so a later collection may visit, and count,
  different versions.  The stored hashes and the inline representation of short keys are invisible.
\<close>

theorem arena_refines_standard:
  assumes "\<And>e. Batched (Inl e) \<notin> set (snd (mtk_run ops (mtk_new ArenaType b)))" "\<And>ts. OpGc ts \<notin> set later"
  shows "snd (mtk_run (ops @ later) (mtk_new ArenaType b)) =
    snd (mtk_run (ops @ later) (Standard (mmt_with_index_mode b False)))"
proof -
  obtain t' where "fst (mtk_run ops (mtk_new ArenaType b)) = Arena t'" "amt_wf t'"
    "mtk_run ops (Standard (mmt_with_index_mode b False)) = (Standard (amt_abs t'), snd (mtk_run ops (mtk_new ArenaType b)))"
    using arena_run [OF amt_new_abs(1), of ops b] assms(1) by (auto simp: amt_new_abs mtk_new_def)
  with arena_run_any_batch [of t' later "mmt_dirty_list (amt_abs t')"] assms(2) show ?thesis
    by (simp add: mtk_run_append)
qed

text \<open>
  Transaction 1 writes, commits at 10 and collects; a batch of transaction 3 is then refused because
  transaction 2 holds one of its keys.  Both tables report the same, and the last scan finds the committed
  value.
\<close>

theorem arena_refines_standard_witness:
  "let ops = [OpBatch [([1], Some [7]), ([2], None)] 1, OpCommit 1 10 [[1], [2]], OpGc 5, OpWrite [4] (Some [8]) 2];
       later = [OpBatch [([3], Some [9]), ([4], Some [9])] 3, OpScanPrefix [] 11 None]
   in snd (mtk_run (ops @ later) (mtk_new ArenaType True)) =
        snd (mtk_run (ops @ later) (Standard (mmt_with_index_mode True False))) \<and>
      drop 4 (snd (mtk_run (ops @ later) (mtk_new ArenaType True))) =
        [Batched (Inl ww_conflict), Rows (Inr [([1], [7])])]"
proof -
  let ?ops = "[OpBatch [([1], Some [7]), ([2], None)] 1, OpCommit 1 10 [[1], [2]], OpGc 5, OpWrite [4] (Some [8]) 2]"
  let ?later = "[OpBatch [([3], Some [9]), ([4], Some [9])] 3, OpScanPrefix [] 11 None]"
  have first: "snd (mtk_run ?ops (mtk_new ArenaType True)) = [Batched (Inr ()), Done, Collected 0, Wrote (Inr ())]"
    by code_simp
  have "drop 4 (snd (mtk_run (?ops @ ?later) (mtk_new ArenaType True))) =
        [Batched (Inl ww_conflict), Rows (Inr [([1], [7])])]"
    by code_simp
  moreover have "snd (mtk_run (?ops @ ?later) (mtk_new ArenaType True)) =
      snd (mtk_run (?ops @ ?later) (Standard (mmt_with_index_mode True False)))"
    by (rule arena_refines_standard) (simp_all add: first del: mtk_run.simps)
  ultimately show ?thesis by (simp add: Let_def)
qed

end
