(* ===== verification/Encryption.thy ===== *)
theory Encryption
  imports Prelude
begin

text \<open>
  \<^verbatim>\<open>sochdb-storage/src/encryption.rs\<close>: the at-rest encryption envelope.  The cipher (the crate
  \<^verbatim>\<open>aes_gcm_siv\<close>) is a parameter: a pair of functions of nonce, text and associated data.  What the
  engine relies on is the named hypothesis \<open>aead_ok\<close>.  The random nonce is an argument.
\<close>

record aead =
  aead_encrypt :: "bytes \<Rightarrow> bytes \<Rightarrow> bytes \<Rightarrow> bytes option"
  aead_decrypt :: "bytes \<Rightarrow> bytes \<Rightarrow> bytes \<Rightarrow> bytes option"

text \<open>
  Documented behaviour of the AEAD: decryption inverts encryption under the same nonce and associated
  data, and a ciphertext carries a 16-byte tag.
\<close>

definition aead_ok :: "aead \<Rightarrow> bool" where
  "aead_ok c \<longleftrightarrow>
     (\<forall>n m a ct. aead_encrypt c n m a = Some ct \<longrightarrow>
        length ct = length m + 16 \<and> aead_decrypt c n ct a = Some m)"

record EncryptionEngine =
  ee_cipher :: aead
  ee_enabled :: bool

datatype EncryptionError =
    EncryptFailed
  | DecryptFailed
  | InvalidFormat string
  | UnsupportedVersion byte

definition ENCRYPTION_VERSION :: byte where
  "ENCRYPTION_VERSION = 1"

definition NONCE_SIZE :: nat where
  "NONCE_SIZE = 12"

definition HEADER_SIZE :: nat where
  "HEADER_SIZE = 1 + NONCE_SIZE"

definition ee_new :: "aead \<Rightarrow> EncryptionEngine" where
  "ee_new keyed_cipher = \<lparr>ee_cipher = keyed_cipher, ee_enabled = True\<rparr>"

definition ee_disabled :: "aead \<Rightarrow> EncryptionEngine" where
  "ee_disabled dummy_cipher = \<lparr>ee_cipher = dummy_cipher, ee_enabled = False\<rparr>"

definition ee_is_enabled :: "EncryptionEngine \<Rightarrow> bool" where
  "ee_is_enabled e = ee_enabled e"

definition encrypt_with_aad :: "EncryptionEngine \<Rightarrow> bytes \<Rightarrow> bytes \<Rightarrow> bytes \<Rightarrow> EncryptionError + bytes" where
  "encrypt_with_aad e nonce plaintext aad =
     (if \<not> ee_enabled e then Inr plaintext
      else case aead_encrypt (ee_cipher e) nonce plaintext aad of
             None \<Rightarrow> Inl EncryptFailed
           | Some ciphertext \<Rightarrow> Inr (ENCRYPTION_VERSION # nonce @ ciphertext))"

definition encrypt :: "EncryptionEngine \<Rightarrow> bytes \<Rightarrow> bytes \<Rightarrow> EncryptionError + bytes" where
  "encrypt e nonce plaintext = encrypt_with_aad e nonce plaintext []"

definition decrypt_with_aad :: "EncryptionEngine \<Rightarrow> bytes \<Rightarrow> bytes \<Rightarrow> EncryptionError + bytes" where
  "decrypt_with_aad e encrypted aad =
     (if \<not> ee_enabled e then Inr encrypted
      else if length encrypted < HEADER_SIZE + 16
      then Inl (InvalidFormat ''Data too short for encrypted block'')
      else if hd encrypted \<noteq> ENCRYPTION_VERSION then Inl (UnsupportedVersion (hd encrypted))
      else case aead_decrypt (ee_cipher e) (take NONCE_SIZE (drop 1 encrypted)) (drop HEADER_SIZE encrypted) aad of
             None \<Rightarrow> Inl DecryptFailed
           | Some m \<Rightarrow> Inr m)"

definition decrypt :: "EncryptionEngine \<Rightarrow> bytes \<Rightarrow> EncryptionError + bytes" where
  "decrypt e encrypted = decrypt_with_aad e encrypted []"

definition encrypt_in_place :: "EncryptionEngine \<Rightarrow> bytes \<Rightarrow> bytes \<Rightarrow> bytes \<times> (EncryptionError + unit)" where
  "encrypt_in_place e nonce buffer =
     (if \<not> ee_enabled e then (buffer, Inr ())
      else case encrypt e nonce buffer of Inl err \<Rightarrow> (buffer, Inl err) | Inr out \<Rightarrow> (out, Inr ()))"

definition enc_display :: "EncryptionError \<Rightarrow> string" where
  "enc_display err =
     (case err of
        EncryptFailed \<Rightarrow> ''Encryption failed''
      | DecryptFailed \<Rightarrow> ''Decryption failed (wrong key or tampered data)''
      | InvalidFormat msg \<Rightarrow> ''Invalid format: '' @ msg
      | UnsupportedVersion v \<Rightarrow> ''Unsupported encryption version: '' @ show_nat (unat v))"

definition is_integrity_failure :: "EncryptionError \<Rightarrow> bool" where
  "is_integrity_failure err =
     (case err of DecryptFailed \<Rightarrow> True | InvalidFormat _ \<Rightarrow> True | UnsupportedVersion _ \<Rightarrow> True | _ \<Rightarrow> False)"

text \<open>The conversion that \<^verbatim>\<open>?\<close> applies: an authentication failure never looks like the end of a file.\<close>

definition enc_error :: "EncryptionError \<Rightarrow> SochDBError" where
  "enc_error err = SochDBError.Encryption (enc_display err)"

definition lift_enc :: "EncryptionError + 'a \<Rightarrow> 'a result" where
  "lift_enc r = (case r of Inl err \<Rightarrow> Inl (Err (enc_error err)) | Inr x \<Rightarrow> Inr x)"

lemma lift_enc_simps [simp]:
  "lift_enc (Inr x) = Inr x" "lift_enc (Inl err) = Inl (Err (enc_error err))"
  by (simp_all add: lift_enc_def)

lemma decrypt_encrypt:
  assumes "aead_ok (ee_cipher e)" "length nonce = NONCE_SIZE" "encrypt_with_aad e nonce m aad = Inr env"
  shows "decrypt_with_aad e env aad = Inr m"
  using assms
  by (auto simp: encrypt_with_aad_def decrypt_with_aad_def aead_ok_def HEADER_SIZE_def NONCE_SIZE_def
      split: if_splits option.splits)

end
