(* ===== verification/Wal_Record.thy ===== *)
theory Wal_Record
  imports Encryption
begin

text \<open>
  The records of the write-ahead log: \<^verbatim>\<open>WalRecordType\<close> of \<^verbatim>\<open>sochdb-core/src/txn.rs\<close> and
  \<^verbatim>\<open>TxnWalEntry\<close>/\<^verbatim>\<open>TxnWalBuffer\<close> of \<^verbatim>\<open>sochdb-storage/src/txn_wal.rs\<close> with their byte layout and
  the two readers.  The checksum function (the crate \<^verbatim>\<open>crc32fast\<close>, a function of the concatenated
  updates), the process id, the clock and the random generator are the fields of \<open>platform\<close>; the
  clock and the generator are streams indexed by the number of readings so far.
\<close>

record platform =
  pf_crc32 :: "bytes \<Rightarrow> u32"
  pf_pid :: u32
  pf_clock :: "nat \<Rightarrow> u64"
  pf_rng :: "nat \<Rightarrow> bytes"

text \<open>The generator fills a 12-byte nonce at each reading.\<close>

definition platform_ok :: "platform \<Rightarrow> bool" where
  "platform_ok P \<longleftrightarrow> (\<forall>i. length (pf_rng P i) = NONCE_SIZE)"

subsection \<open>Record types\<close>

datatype WalRecordType =
    Data | PageUpdate | Delete | TxnBegin | TxnCommit | TxnAbort | Savepoint | RollbackToSavepoint
  | TxnEnd | Checkpoint | CheckpointEnd | SchemaChange | CompensationLogRecord | WalCompaction | Flush
  | BatchBegin | BatchCommit

fun wal_record_code :: "WalRecordType \<Rightarrow> byte" where
  "wal_record_code Data = 0x01"
| "wal_record_code PageUpdate = 0x02"
| "wal_record_code Delete = 0x03"
| "wal_record_code TxnBegin = 0x10"
| "wal_record_code TxnCommit = 0x11"
| "wal_record_code TxnAbort = 0x12"
| "wal_record_code Savepoint = 0x13"
| "wal_record_code RollbackToSavepoint = 0x14"
| "wal_record_code TxnEnd = 0x15"
| "wal_record_code Checkpoint = 0x20"
| "wal_record_code CheckpointEnd = 0x21"
| "wal_record_code SchemaChange = 0x30"
| "wal_record_code CompensationLogRecord = 0x40"
| "wal_record_code WalCompaction = 0x50"
| "wal_record_code Flush = 0x51"
| "wal_record_code BatchBegin = 0x60"
| "wal_record_code BatchCommit = 0x61"

definition wal_record_try_from :: "byte \<Rightarrow> WalRecordType option" where
  "wal_record_try_from b =
     (if b = 0x01 then Some Data else if b = 0x02 then Some PageUpdate else if b = 0x03 then Some Delete
      else if b = 0x10 then Some TxnBegin else if b = 0x11 then Some TxnCommit
      else if b = 0x12 then Some TxnAbort else if b = 0x13 then Some Savepoint
      else if b = 0x14 then Some RollbackToSavepoint else if b = 0x15 then Some TxnEnd
      else if b = 0x20 then Some Checkpoint else if b = 0x21 then Some CheckpointEnd
      else if b = 0x30 then Some SchemaChange else if b = 0x40 then Some CompensationLogRecord
      else if b = 0x50 then Some WalCompaction else if b = 0x51 then Some Flush
      else if b = 0x60 then Some BatchBegin else if b = 0x61 then Some BatchCommit else None)"

lemma wal_record_try_from_code [simp]: "wal_record_try_from (wal_record_code rt) = Some rt"
  by (cases rt) (simp_all add: wal_record_try_from_def)

lemma wal_record_code_try_from: "wal_record_try_from b = Some rt \<Longrightarrow> wal_record_code rt = b"
  by (auto simp: wal_record_try_from_def split: if_splits)

subsection \<open>Entries and their layout\<close>

record TxnWalEntry =
  we_record_type :: WalRecordType
  we_txn_id :: u64
  we_timestamp_us :: u64
  we_key :: key
  we_value :: val

text \<open>The constructors; \<open>now\<close> is the reading of the cached clock that each of them takes.\<close>

definition entry_data :: "u64 \<Rightarrow> u64 \<Rightarrow> key \<Rightarrow> val \<Rightarrow> TxnWalEntry" where
  "entry_data now t k v =
     \<lparr>we_record_type = Data, we_txn_id = t, we_timestamp_us = now, we_key = k, we_value = v\<rparr>"

definition txn_begin :: "u64 \<Rightarrow> u64 \<Rightarrow> TxnWalEntry" where
  "txn_begin now t =
     \<lparr>we_record_type = TxnBegin, we_txn_id = t, we_timestamp_us = now, we_key = [], we_value = []\<rparr>"

definition txn_commit :: "u64 \<Rightarrow> u64 \<Rightarrow> TxnWalEntry" where
  "txn_commit now t =
     \<lparr>we_record_type = TxnCommit, we_txn_id = t, we_timestamp_us = now, we_key = [], we_value = []\<rparr>"

definition txn_abort :: "u64 \<Rightarrow> u64 \<Rightarrow> TxnWalEntry" where
  "txn_abort now t =
     \<lparr>we_record_type = TxnAbort, we_txn_id = t, we_timestamp_us = now, we_key = [], we_value = []\<rparr>"

definition entry_checkpoint :: "u64 \<Rightarrow> u64 \<Rightarrow> TxnWalEntry" where
  "entry_checkpoint now t =
     \<lparr>we_record_type = Checkpoint, we_txn_id = t, we_timestamp_us = now, we_key = [], we_value = []\<rparr>"

definition schema_change :: "u64 \<Rightarrow> u64 \<Rightarrow> bytes \<Rightarrow> TxnWalEntry" where
  "schema_change now t schema_data =
     \<lparr>we_record_type = SchemaChange, we_txn_id = t, we_timestamp_us = now, we_key = [], we_value = schema_data\<rparr>"

definition RECORD_HEADER_SIZE :: nat where
  "RECORD_HEADER_SIZE = 4 + 1 + 8 + 8 + 4 + 4"

definition CHECKSUM_SIZE :: nat where
  "CHECKSUM_SIZE = 4"

definition MAX_WAL_FRAME_LEN :: u32 where
  "MAX_WAL_FRAME_LEN = 512 * 1024 * 1024"

text \<open>The fields in the order in which the checksum and the body take them; lengths truncate to 32 bits.\<close>

definition record_fields :: "WalRecordType \<Rightarrow> u64 \<Rightarrow> u64 \<Rightarrow> key \<Rightarrow> val \<Rightarrow> bytes" where
  "record_fields rt t ts k v =
     wal_record_code rt # u64_le t @ u64_le ts @ u32_le (word_of_nat (length k))
       @ u32_le (word_of_nat (length v)) @ k @ v"

definition checksum :: "platform \<Rightarrow> TxnWalEntry \<Rightarrow> u32" where
  "checksum P e =
     pf_crc32 P (record_fields (we_record_type e) (we_txn_id e) (we_timestamp_us e) (we_key e) (we_value e))"

definition encode_record_body :: "platform \<Rightarrow> WalRecordType \<Rightarrow> u64 \<Rightarrow> u64 \<Rightarrow> key \<Rightarrow> val \<Rightarrow> bytes" where
  "encode_record_body P rt t ts k v =
     record_fields rt t ts k v @ u32_le (pf_crc32 P (record_fields rt t ts k v))"

definition to_bytes :: "platform \<Rightarrow> TxnWalEntry \<Rightarrow> bytes" where
  "to_bytes P e =
     (let total_len = RECORD_HEADER_SIZE + length (we_key e) + length (we_value e) + CHECKSUM_SIZE;
          content_len = (word_of_nat (total_len - 4) :: u32);
          fields = record_fields (we_record_type e) (we_txn_id e) (we_timestamp_us e) (we_key e) (we_value e)
      in u32_le content_len @ fields @ u32_le (pf_crc32 P fields))"

definition body_bytes :: "platform \<Rightarrow> TxnWalEntry \<Rightarrow> bytes" where
  "body_bytes P e = drop 4 (to_bytes P e)"

subsection \<open>Reading\<close>

definition parse_body :: "platform \<Rightarrow> bytes \<Rightarrow> TxnWalEntry result" where
  "parse_body P body =
     try_bind (read_u8 body) (\<lambda>(b, r).
     try_bind (case wal_record_try_from b of
                 Some rt \<Rightarrow> Inr rt
               | None \<Rightarrow> Inl (Err (Corruption (''Invalid record type: '' @ show_nat (unat b))))) (\<lambda>rt.
     try_bind (read_u64 r) (\<lambda>(t, r).
     try_bind (read_u64 r) (\<lambda>(ts, r).
     try_bind (read_u32 r) (\<lambda>(key_len, r).
     try_bind (read_u32 r) (\<lambda>(value_len, r).
     try_bind (read_exact (unat key_len) r) (\<lambda>(k, r).
     try_bind (read_exact (unat value_len) r) (\<lambda>(v, r).
     try_bind (read_u32 r) (\<lambda>(stored_checksum, r).
       let e = \<lparr>we_record_type = rt, we_txn_id = t, we_timestamp_us = ts, we_key = k, we_value = v\<rparr>
       in if checksum P e \<noteq> stored_checksum
          then Inl (Err (Corruption (''WAL checksum mismatch for txn_id '' @ show_nat (unat t) @ '': expected ''
                 @ show_nat (unat (checksum P e)) @ '', got '' @ show_nat (unat stored_checksum))))
          else Inr e)))))))))"

definition from_reader :: "platform \<Rightarrow> bytes \<Rightarrow> (TxnWalEntry \<times> bytes) result" where
  "from_reader P bs =
     try_bind (read_u32 bs) (\<lambda>(content_len, r).
       if content_len < word_of_nat (RECORD_HEADER_SIZE - 4 + CHECKSUM_SIZE)
       then Inl (Err (Corruption ''WAL entry too short''))
       else if content_len > MAX_WAL_FRAME_LEN
       then Inl (Err (Corruption (''WAL entry length '' @ show_nat (unat content_len) @ '' exceeds maximum ''
              @ show_nat (unat MAX_WAL_FRAME_LEN))))
       else try_bind (read_exact (unat content_len) r) (\<lambda>(body, r).
            try_bind (parse_body P body) (\<lambda>e. Inr (e, r))))"

subsection \<open>The transaction-local buffer\<close>

record TxnWalBuffer =
  tb_txn_id :: u64
  tb_buffer :: bytes
  tb_entry_count :: nat

definition tb_new :: "u64 \<Rightarrow> TxnWalBuffer" where
  "tb_new t = \<lparr>tb_txn_id = t, tb_buffer = [], tb_entry_count = 0\<rparr>"

definition tb_with_capacity :: "u64 \<Rightarrow> nat \<Rightarrow> TxnWalBuffer" where
  "tb_with_capacity t capacity = \<lparr>tb_txn_id = t, tb_buffer = [], tb_entry_count = 0\<rparr>"

text \<open>
  The entry is serialised in place behind a placeholder for its length, which is filled in at the end.
\<close>

definition tb_append :: "platform \<Rightarrow> u64 \<Rightarrow> key \<Rightarrow> val \<Rightarrow> TxnWalBuffer \<Rightarrow> TxnWalBuffer" where
  "tb_append P now k v b =
     (let total_len = RECORD_HEADER_SIZE + length k + length v + CHECKSUM_SIZE;
          entry_start = length (tb_buffer b);
          fields = record_fields Data (tb_txn_id b) now k v;
          buffer = tb_buffer b @ [0, 0, 0, 0] @ fields @ u32_le (pf_crc32 P fields);
          content_len = (word_of_nat (total_len - 4) :: u32)
      in b\<lparr>tb_buffer := take entry_start buffer @ u32_le content_len @ drop (entry_start + 4) buffer,
           tb_entry_count := tb_entry_count b + 1\<rparr>)"

definition tb_clear :: "TxnWalBuffer \<Rightarrow> TxnWalBuffer" where
  "tb_clear b = b\<lparr>tb_buffer := [], tb_entry_count := 0\<rparr>"

definition tb_bytes_buffered :: "TxnWalBuffer \<Rightarrow> nat" where
  "tb_bytes_buffered b = length (tb_buffer b)"

definition tb_is_empty :: "TxnWalBuffer \<Rightarrow> bool" where
  "tb_is_empty b \<longleftrightarrow> tb_buffer b = []"

subsection \<open>The layout round trip\<close>

text \<open>An entry within the frame limit that both sides of the log enforce.\<close>

definition entry_len :: "TxnWalEntry \<Rightarrow> nat" where
  "entry_len e = 29 + length (we_key e) + length (we_value e)"

definition entry_fits :: "TxnWalEntry \<Rightarrow> bool" where
  "entry_fits e \<longleftrightarrow> entry_len e \<le> unat MAX_WAL_FRAME_LEN"

lemma unat_MAX_WAL_FRAME_LEN: "unat MAX_WAL_FRAME_LEN = 536870912"
  by (simp add: MAX_WAL_FRAME_LEN_def)

lemma length_record_fields [simp]: "length (record_fields rt t ts k v) = 25 + length k + length v"
  by (simp add: record_fields_def)

lemma to_bytes_eq: "to_bytes P e = u32_le (word_of_nat (entry_len e)) @ body_bytes P e"
  by (simp add: to_bytes_def body_bytes_def Let_def RECORD_HEADER_SIZE_def CHECKSUM_SIZE_def entry_len_def
      add.assoc)

lemma body_bytes_eq:
  "body_bytes P e =
     record_fields (we_record_type e) (we_txn_id e) (we_timestamp_us e) (we_key e) (we_value e) @ u32_le (checksum P e)"
  by (simp add: to_bytes_def body_bytes_def Let_def checksum_def)

lemma encode_record_body_eq:
  "encode_record_body P rt t ts k v =
     body_bytes P \<lparr>we_record_type = rt, we_txn_id = t, we_timestamp_us = ts, we_key = k, we_value = v\<rparr>"
  by (simp add: encode_record_body_def body_bytes_eq checksum_def)

lemma length_body_bytes [simp]: "length (body_bytes P e) = entry_len e"
  by (simp add: body_bytes_eq entry_len_def)

lemma length_to_bytes [simp]: "length (to_bytes P e) = 4 + entry_len e"
  by (simp add: to_bytes_eq)

lemma unat_of_nat_u32: "n \<le> 536870912 \<Longrightarrow> unat (word_of_nat n :: u32) = n"
  by (simp add: unat_of_nat take_bit_nat_eq_self)

lemma parse_body_bytes:
  assumes "entry_fits e"
  shows "parse_body P (body_bytes P e) = Inr e"
proof -
  have "length (we_key e) \<le> 536870912" "length (we_value e) \<le> 536870912"
    using assms by (simp_all add: entry_fits_def entry_len_def unat_MAX_WAL_FRAME_LEN)
  then show ?thesis
    using read_u32_append [of "checksum P e" "[]"]
    by (cases e) (simp add: parse_body_def body_bytes_eq record_fields_def read_exact_append unat_of_nat_u32 Let_def)
qed

lemma from_reader_to_bytes:
  assumes "entry_fits e"
  shows "from_reader P (to_bytes P e @ rest) = Inr (e, rest)"
proof -
  have len: "unat (word_of_nat (entry_len e) :: u32) = entry_len e"
    using assms by (simp add: entry_fits_def unat_MAX_WAL_FRAME_LEN unat_of_nat_u32)
  have "\<not> (word_of_nat (entry_len e) :: u32) < 29" "\<not> MAX_WAL_FRAME_LEN < (word_of_nat (entry_len e) :: u32)"
    using assms len by (simp_all add: word_less_nat_alt entry_fits_def entry_len_def)
  then show ?thesis
    using parse_body_bytes [OF assms, of P] len
    by (simp add: from_reader_def to_bytes_eq RECORD_HEADER_SIZE_def CHECKSUM_SIZE_def read_exact_append)
qed

text \<open>A record cut anywhere reads as the end of the file.\<close>

lemma from_reader_torn:
  assumes "entry_fits e" "strict_prefix bs (to_bytes P e)"
  shows "from_reader P bs = Inl (Err (Io UnexpectedEof))"
proof (cases "length bs < 4")
  case True
  then show ?thesis by (simp add: from_reader_def read_u32_short)
next
  case False
  have len: "unat (word_of_nat (entry_len e) :: u32) = entry_len e"
    using assms(1) by (simp add: entry_fits_def unat_MAX_WAL_FRAME_LEN unat_of_nat_u32)
  have fits: "\<not> (word_of_nat (entry_len e) :: u32) < 29" "\<not> MAX_WAL_FRAME_LEN < (word_of_nat (entry_len e) :: u32)"
    using assms(1) len by (simp_all add: word_less_nat_alt entry_fits_def entry_len_def)
  from assms(2) obtain zs where zs: "to_bytes P e = bs @ zs" "zs \<noteq> []"
    by (auto simp: strict_prefix_def prefix_def)
  then have bs: "bs = u32_le (word_of_nat (entry_len e)) @ drop 4 bs"
    using False by (metis (no_types, lifting) append_eq_append_conv_if append_take_drop_id length_u32_le
        linorder_not_less to_bytes_eq append_eq_conv_conj take_append)
  have "length (drop 4 bs) < entry_len e"
    using zs length_to_bytes [of P e] False by (cases zs) auto
  then show ?thesis
    by (subst bs) (simp add: from_reader_def fits RECORD_HEADER_SIZE_def CHECKSUM_SIZE_def len read_exact_def)
qed

lemma tb_append_eq:
  "tb_append P now k v b =
     b\<lparr>tb_buffer := tb_buffer b @ to_bytes P (entry_data now (tb_txn_id b) k v),
       tb_entry_count := tb_entry_count b + 1\<rparr>"
  by (simp add: tb_append_def to_bytes_def entry_data_def Let_def)

end
