(* ===== verification/Txn_Wal.thy ===== *)
theory Txn_Wal
  imports Wal_Record
begin

text \<open>
  \<^verbatim>\<open>TxnWal\<close> of \<^verbatim>\<open>sochdb-storage/src/txn_wal.rs\<close>: the state of the log, its write operations and the
  record reader.  The file, the bytes still in the 256 KiB \<^verbatim>\<open>BufWriter\<close> and the length of the prefix
  that an \<^verbatim>\<open>fsync\<close> has made durable are explicit; writes to the file succeed.  A crash leaves a prefix
  of the file that is at least as long as the durable one.  \<open>wal_tick\<close> counts the readings of the
  clock and of the random generator.
\<close>

unbundle bit_operations_syntax

record TxnWal =
  wal_file :: bytes
  wal_synced :: nat
  wal_buf :: bytes
  wal_next_txn_id :: u64
  wal_sequence :: u64
  wal_bytes_since_sync :: u64
  wal_cached_timestamp_us :: u64
  wal_encryption :: EncryptionEngine
  wal_db_uuid :: bytes
  wal_dek_epoch :: u32
  wal_records_in_file :: u64
  wal_tick :: nat

subsection \<open>The buffered writer and the platform\<close>

definition BUF_WRITER_CAPACITY :: nat where
  "BUF_WRITER_CAPACITY = 256 * 1024"

definition bw_flush :: "TxnWal \<Rightarrow> TxnWal" where
  "bw_flush w = w\<lparr>wal_file := wal_file w @ wal_buf w, wal_buf := []\<rparr>"

definition bw_write_all :: "bytes \<Rightarrow> TxnWal \<Rightarrow> TxnWal" where
  "bw_write_all data w =
     (let w1 = (if length (wal_buf w) + length data > BUF_WRITER_CAPACITY then bw_flush w else w)
      in if length data \<ge> BUF_WRITER_CAPACITY
         then w1\<lparr>wal_file := wal_file w1 @ data\<rparr>
         else w1\<lparr>wal_buf := wal_buf w1 @ data\<rparr>)"

definition cached_timestamp_us :: "platform \<Rightarrow> TxnWal \<Rightarrow> TxnWal \<times> u64" where
  "cached_timestamp_us P w = (w\<lparr>wal_tick := wal_tick w + 1\<rparr>, pf_clock P (wal_tick w))"

definition get_cached_timestamp :: "platform \<Rightarrow> TxnWal \<Rightarrow> TxnWal \<times> u64" where
  "get_cached_timestamp P w =
     (if wal_sequence w AND 0x3FF = 0
      then let (w1, now_us) = cached_timestamp_us P w
           in (w1\<lparr>wal_cached_timestamp_us := now_us\<rparr>, now_us)
      else (w, wal_cached_timestamp_us w))"

subsection \<open>Frames\<close>

definition WAL_AAD_VERSION :: byte where
  "WAL_AAD_VERSION = 1"

definition record_aad :: "TxnWal \<Rightarrow> u64 \<Rightarrow> bytes" where
  "record_aad w ordinal =
     WAL_AAD_VERSION # wal_db_uuid w @ u32_le (wal_dek_epoch w) @ u64_le ordinal"

definition encrypt_frame :: "platform \<Rightarrow> bytes \<Rightarrow> u64 \<Rightarrow> TxnWal \<Rightarrow> TxnWal \<times> bytes result" where
  "encrypt_frame P body ordinal w =
     (w\<lparr>wal_tick := wal_tick w + 1\<rparr>,
      try_bind (lift_enc (encrypt_with_aad (wal_encryption w) (pf_rng P (wal_tick w)) body (record_aad w ordinal)))
        (\<lambda>env. Inr (u32_le (word_of_nat (length env)) @ env)))"

definition frame_for_write :: "platform \<Rightarrow> TxnWalEntry \<Rightarrow> TxnWal \<Rightarrow> TxnWal \<times> bytes result" where
  "frame_for_write P e w =
     (if ee_is_enabled (wal_encryption w) then encrypt_frame P (body_bytes P e) (wal_records_in_file w) w
      else (w, Inr (to_bytes P e)))"

definition commit_record_ordinal :: "TxnWal \<Rightarrow> TxnWal" where
  "commit_record_ordinal w =
     (if ee_is_enabled (wal_encryption w) then w\<lparr>wal_records_in_file := wal_records_in_file w + 1\<rparr> else w)"

definition read_record :: "platform \<Rightarrow> TxnWal \<Rightarrow> bytes \<Rightarrow> u64 \<Rightarrow> (TxnWalEntry \<times> bytes \<times> u64) result" where
  "read_record P w bs ordinal =
     (if \<not> ee_is_enabled (wal_encryption w)
      then try_bind (from_reader P bs) (\<lambda>(e, r). Inr (e, r, ordinal + 1))
      else try_bind (read_u32 bs) (\<lambda>(outer_len, r).
             if outer_len > MAX_WAL_FRAME_LEN
             then Inl (Err (Corruption (''encrypted WAL frame length '' @ show_nat (unat outer_len)
                    @ '' exceeds maximum '' @ show_nat (unat MAX_WAL_FRAME_LEN))))
             else try_bind (read_exact (unat outer_len) r) (\<lambda>(env, r).
                  try_bind (lift_enc (decrypt_with_aad (wal_encryption w) env (record_aad w ordinal))) (\<lambda>body.
                  try_bind (parse_body P body) (\<lambda>e. Inr (e, r, ordinal + 1))))))"

subsection \<open>Writing\<close>

definition wal_append :: "platform \<Rightarrow> TxnWalEntry \<Rightarrow> TxnWal \<Rightarrow> TxnWal \<times> u64 result" where
  "wal_append P e w =
     (case frame_for_write P e w of
        (w1, Inl err) \<Rightarrow> (w1, Inl err)
      | (w1, Inr bytes) \<Rightarrow>
          (let w2 = commit_record_ordinal (bw_write_all bytes w1)
           in (w2\<lparr>wal_sequence := wal_sequence w2 + 1,
                  wal_bytes_since_sync := wal_bytes_since_sync w2 + word_of_nat (length bytes)\<rparr>,
               Inr (wal_sequence w2))))"

text \<open>\<^verbatim>\<open>append_no_flush\<close> has the same body.\<close>

definition wal_append_no_flush :: "platform \<Rightarrow> TxnWalEntry \<Rightarrow> TxnWal \<Rightarrow> TxnWal \<times> u64 result" where
  "wal_append_no_flush P e w = wal_append P e w"

definition wal_write_no_flush :: "platform \<Rightarrow> u64 \<Rightarrow> key \<Rightarrow> val \<Rightarrow> TxnWal \<Rightarrow> TxnWal \<times> u64 result" where
  "wal_write_no_flush P t k v w =
     (let (w1, now) = cached_timestamp_us P w in wal_append_no_flush P (entry_data now t k v) w1)"

text \<open>The streaming writer hands each field to the buffered writer separately.\<close>

definition wal_write_no_flush_refs :: "platform \<Rightarrow> u64 \<Rightarrow> key \<Rightarrow> val \<Rightarrow> TxnWal \<Rightarrow> TxnWal \<times> u64 result" where
  "wal_write_no_flush_refs P t k v w =
     (let (w1, timestamp_us) = get_cached_timestamp P w;
          total_len = RECORD_HEADER_SIZE + length k + length v + CHECKSUM_SIZE
      in if ee_is_enabled (wal_encryption w1)
         then (case encrypt_frame P (encode_record_body P Data t timestamp_us k v) (wal_records_in_file w1) w1 of
                 (w2, Inl err) \<Rightarrow> (w2, Inl err)
               | (w2, Inr frame) \<Rightarrow>
                   (let w3 = bw_write_all frame w2
                    in (w3\<lparr>wal_records_in_file := wal_records_in_file w3 + 1,
                           wal_sequence := wal_sequence w3 + 1,
                           wal_bytes_since_sync := wal_bytes_since_sync w3 + word_of_nat (length frame)\<rparr>,
                        Inr (wal_sequence w3))))
         else let pieces =
                    [u32_le (word_of_nat (total_len - 4)), [wal_record_code Data], u64_le t, u64_le timestamp_us,
                     u32_le (word_of_nat (length k)), u32_le (word_of_nat (length v)), k, v,
                     u32_le (pf_crc32 P (record_fields Data t timestamp_us k v))];
                  w2 = fold bw_write_all pieces w1
              in (w2\<lparr>wal_sequence := wal_sequence w2 + 1,
                     wal_bytes_since_sync := wal_bytes_since_sync w2 + word_of_nat total_len\<rparr>,
                  Inr (wal_sequence w2)))"

definition wal_flush :: "TxnWal \<Rightarrow> TxnWal \<times> unit result" where
  "wal_flush w = (bw_flush w, Inr ())"

text \<open>\<^verbatim>\<open>sync_all\<close> makes the file durable as it is now.\<close>

definition wal_sync :: "TxnWal \<Rightarrow> TxnWal \<times> unit result" where
  "wal_sync w =
     (let w1 = bw_flush w
      in (w1\<lparr>wal_synced := length (wal_file w1), wal_bytes_since_sync := 0\<rparr>, Inr ()))"

definition wal_append_sync :: "platform \<Rightarrow> TxnWalEntry \<Rightarrow> TxnWal \<Rightarrow> TxnWal \<times> u64 result" where
  "wal_append_sync P e w =
     (case wal_append P e w of
        (w1, Inl err) \<Rightarrow> (w1, Inl err)
      | (w1, Inr seq) \<Rightarrow> (case wal_sync w1 of (w2, Inl err) \<Rightarrow> (w2, Inl err) | (w2, Inr _) \<Rightarrow> (w2, Inr seq)))"

text \<open>The encrypting loop of \<^verbatim>\<open>flush_buffer\<close>: one envelope per buffered record.\<close>

function flush_frames :: "platform \<Rightarrow> bytes \<Rightarrow> u64 \<Rightarrow> TxnWal \<Rightarrow> TxnWal \<times> u64 result" where
  "flush_frames P buf total_written w =
     (if length buf < 4 then (w, Inr total_written)
      else let content_len = of_le_bytes (take 4 buf);
               r = drop 4 buf
           in if content_len > length r
              then (w, Inl (Err (Corruption ''txn buffer truncated mid-record during encrypted flush'')))
              else (case encrypt_frame P (take content_len r) (wal_records_in_file w) w of
                      (w1, Inl err) \<Rightarrow> (w1, Inl err)
                    | (w1, Inr frame) \<Rightarrow>
                        (let w2 = bw_write_all frame w1
                         in flush_frames P (drop content_len r) (total_written + word_of_nat (length frame))
                              (w2\<lparr>wal_records_in_file := wal_records_in_file w2 + 1\<rparr>))))"
  by pat_completeness auto
termination
  by (relation "measure (\<lambda>(P, buf, n, w). length buf)") auto

declare flush_frames.simps [simp del]

definition wal_flush_buffer :: "platform \<Rightarrow> TxnWalBuffer \<Rightarrow> TxnWal \<Rightarrow> TxnWal \<times> u64 result" where
  "wal_flush_buffer P b w =
     (if tb_is_empty b then (w, Inr 0)
      else if ee_is_enabled (wal_encryption w)
      then (case flush_frames P (tb_buffer b) 0 w of
              (w1, Inl err) \<Rightarrow> (w1, Inl err)
            | (w1, Inr total_written) \<Rightarrow>
                (w1\<lparr>wal_sequence := wal_sequence w1 + word_of_nat (tb_entry_count b),
                    wal_bytes_since_sync := wal_bytes_since_sync w1 + total_written\<rparr>,
                 Inr (wal_sequence w1)))
      else let w1 = bw_write_all (tb_buffer b) w
           in (w1\<lparr>wal_sequence := wal_sequence w1 + word_of_nat (tb_entry_count b),
                  wal_bytes_since_sync := wal_bytes_since_sync w1 + word_of_nat (length (tb_buffer b))\<rparr>,
               Inr (wal_sequence w1)))"

definition tb_flush_to_wal :: "platform \<Rightarrow> TxnWalBuffer \<Rightarrow> TxnWal \<Rightarrow> TxnWal \<times> u64 result" where
  "tb_flush_to_wal P b w = wal_flush_buffer P b w"

definition wal_size_bytes :: "TxnWal \<Rightarrow> u64" where
  "wal_size_bytes w = word_of_nat (length (wal_file w))"

definition wal_alloc_txn_id :: "TxnWal \<Rightarrow> TxnWal \<times> u64" where
  "wal_alloc_txn_id w = (w\<lparr>wal_next_txn_id := wal_next_txn_id w + 1\<rparr>, wal_next_txn_id w)"

definition wal_begin_transaction :: "platform \<Rightarrow> TxnWal \<Rightarrow> TxnWal \<times> u64 result" where
  "wal_begin_transaction P w =
     (let (w1, t) = wal_alloc_txn_id w;
          (w2, now) = cached_timestamp_us P w1
      in case wal_append P (txn_begin now t) w2 of
           (w3, Inl err) \<Rightarrow> (w3, Inl err)
         | (w3, Inr _) \<Rightarrow> (w3, Inr t))"

definition wal_commit_transaction :: "platform \<Rightarrow> u64 \<Rightarrow> TxnWal \<Rightarrow> TxnWal \<times> unit result" where
  "wal_commit_transaction P t w =
     (case wal_flush w of
        (w1, Inl err) \<Rightarrow> (w1, Inl err)
      | (w1, Inr _) \<Rightarrow>
          (let (w2, now) = cached_timestamp_us P w1
           in case wal_append_sync P (txn_commit now t) w2 of
                (w3, Inl err) \<Rightarrow> (w3, Inl err)
              | (w3, Inr _) \<Rightarrow> (w3, Inr ())))"

fun append_commits :: "platform \<Rightarrow> u64 list \<Rightarrow> TxnWal \<Rightarrow> TxnWal \<times> unit result" where
  "append_commits P [] w = (w, Inr ())"
| "append_commits P (t # ts) w =
     (let (w1, now) = cached_timestamp_us P w
      in case wal_append_no_flush P (txn_commit now t) w1 of
           (w2, Inl err) \<Rightarrow> (w2, Inl err)
         | (w2, Inr _) \<Rightarrow> append_commits P ts w2)"

definition wal_commit_durable_batch :: "platform \<Rightarrow> u64 list \<Rightarrow> TxnWal \<Rightarrow> TxnWal \<times> unit result" where
  "wal_commit_durable_batch P ts w =
     (case append_commits P ts w of
        (w1, Inl err) \<Rightarrow> (w1, Inl err)
      | (w1, Inr _) \<Rightarrow>
          (case wal_flush w1 of (w2, Inl err) \<Rightarrow> (w2, Inl err) | (w2, Inr _) \<Rightarrow> wal_sync w2))"

definition wal_abort_transaction :: "platform \<Rightarrow> u64 \<Rightarrow> TxnWal \<Rightarrow> TxnWal \<times> unit result" where
  "wal_abort_transaction P t w =
     (let (w1, now) = cached_timestamp_us P w
      in case wal_append P (txn_abort now t) w1 of
           (w2, Inl err) \<Rightarrow> (w2, Inl err)
         | (w2, Inr _) \<Rightarrow> (w2, Inr ()))"

definition wal_write :: "platform \<Rightarrow> u64 \<Rightarrow> key \<Rightarrow> val \<Rightarrow> TxnWal \<Rightarrow> TxnWal \<times> u64 result" where
  "wal_write P t k v w =
     (let (w1, now) = cached_timestamp_us P w in wal_append P (entry_data now t k v) w1)"

definition wal_truncate :: "TxnWal \<Rightarrow> TxnWal \<times> unit result" where
  "wal_truncate w =
     ((bw_flush w)\<lparr>wal_file := [], wal_synced := 0, wal_sequence := 0, wal_bytes_since_sync := 0,
                   wal_records_in_file := 0\<rparr>, Inr ())"

definition wal_write_checkpoint :: "platform \<Rightarrow> TxnWal \<Rightarrow> TxnWal \<times> u64 result" where
  "wal_write_checkpoint P w =
     (let (w1, now) = cached_timestamp_us P w in wal_append_sync P (entry_checkpoint now 0) w1)"

definition wal_append_clr :: "platform \<Rightarrow> u64 \<Rightarrow> u64 \<Rightarrow> u64 option \<Rightarrow> bytes \<Rightarrow> TxnWal \<Rightarrow> TxnWal \<times> u64 result" where
  "wal_append_clr P t original_lsn undo_next_lsn undo_data w =
     (let (w1, now) = cached_timestamp_us P w
      in wal_append P
           \<lparr>we_record_type = CompensationLogRecord, we_txn_id = t, we_timestamp_us = now,
            we_key = u64_le (case undo_next_lsn of Some l \<Rightarrow> l | None \<Rightarrow> 0), we_value = undo_data\<rparr> w1)"

definition wal_write_checkpoint_with_data :: "platform \<Rightarrow> bytes \<Rightarrow> TxnWal \<Rightarrow> TxnWal \<times> u64 result" where
  "wal_write_checkpoint_with_data P checkpoint_data w =
     (let (w1, now) = cached_timestamp_us P w
      in wal_append_sync P
           \<lparr>we_record_type = Checkpoint, we_txn_id = 0, we_timestamp_us = now, we_key = [],
            we_value = checkpoint_data\<rparr> w1)"

definition wal_write_checkpoint_end :: "platform \<Rightarrow> bytes \<Rightarrow> TxnWal \<Rightarrow> TxnWal \<times> u64 result" where
  "wal_write_checkpoint_end P checkpoint_data w =
     (let (w1, now) = cached_timestamp_us P w
      in wal_append_sync P
           \<lparr>we_record_type = CheckpointEnd, we_txn_id = 0, we_timestamp_us = now, we_key = [],
            we_value = checkpoint_data\<rparr> w1)"

record TxnWalStats =
  ws_entries_written :: u64
  ws_bytes_since_sync :: u64
  ws_next_txn_id :: u64

definition wal_stats :: "TxnWal \<Rightarrow> TxnWalStats" where
  "wal_stats w =
     \<lparr>ws_entries_written = wal_sequence w, ws_bytes_since_sync = wal_bytes_since_sync w,
      ws_next_txn_id = wal_next_txn_id w\<rparr>"

text \<open>What a crash may leave of the file.\<close>

definition crash_image :: "TxnWal \<Rightarrow> bytes \<Rightarrow> bool" where
  "crash_image w img \<longleftrightarrow> (\<exists>n. wal_synced w \<le> n \<and> n \<le> length (wal_file w) \<and> img = take n (wal_file w))"

subsection \<open>The contract of a framing\<close>

text \<open>
  A frame of a record at an ordinal decodes to that record whatever follows it, and any cut inside it
  reads as the end of the file.  \<open>is_log\<close>: a byte string is the concatenation of frames at
  consecutive ordinals.
\<close>

fun is_log :: "(u64 \<Rightarrow> 'e \<Rightarrow> bytes \<Rightarrow> bool) \<Rightarrow> u64 \<Rightarrow> 'e list \<Rightarrow> bytes \<Rightarrow> bool" where
  "is_log fr ord [] bs \<longleftrightarrow> bs = []"
| "is_log fr ord (e # es) bs \<longleftrightarrow> (\<exists>f rest. bs = f @ rest \<and> fr ord e f \<and> is_log fr (ord + 1) es rest)"

lemma is_log_append:
  "is_log fr ord es bs \<Longrightarrow> is_log fr (ord + word_of_nat (length es)) es' bs' \<Longrightarrow> is_log fr ord (es @ es') (bs @ bs')"
proof (induction es arbitrary: ord bs)
  case (Cons e es)
  then obtain f rest where f: "bs = f @ rest" "fr ord e f" "is_log fr (ord + 1) es rest" by auto
  have "is_log fr (ord + 1) (es @ es') (rest @ bs')"
    by (rule Cons.IH [OF f(3)]) (use Cons.prems(2) in \<open>simp add: add.assoc\<close>)
  with f show ?case by auto
qed simp

lemma is_log_single: "fr ord e f \<Longrightarrow> is_log fr ord [e] f"
  by simp

locale framing =
  fixes is_frame :: "u64 \<Rightarrow> 'e \<Rightarrow> bytes \<Rightarrow> bool"
    and rd :: "bytes \<Rightarrow> u64 \<Rightarrow> ('e \<times> bytes \<times> u64) result"
  assumes read_frame: "is_frame ord e f \<Longrightarrow> rd (f @ rest) ord = Inr (e, rest, ord + 1)"
    and read_torn: "is_frame ord e f \<Longrightarrow> strict_prefix tail f \<Longrightarrow> rd tail ord = Inl (Err (Io UnexpectedEof))"
    and read_nil: "rd [] ord = Inl (Err (Io UnexpectedEof))"
begin

lemma frame_nonempty: "is_frame ord e f \<Longrightarrow> f \<noteq> []"
  using read_frame [of ord e f "[]"] read_nil [of ord] by auto

lemma log_unique: "is_log is_frame ord es bs \<Longrightarrow> is_log is_frame ord es' bs \<Longrightarrow> es = es'"
proof (induction es arbitrary: ord bs es')
  case Nil
  then show ?case using frame_nonempty [of ord] by (cases es') auto
next
  case (Cons e es)
  then obtain f rest where f: "bs = f @ rest" "is_frame ord e f" "is_log is_frame (ord + 1) es rest" by auto
  then have "rd bs ord = Inr (e, rest, ord + 1)" using read_frame by blast
  with Cons.prems(2) read_nil [of ord] obtain e' es'' where es': "es' = e' # es''" by (cases es') auto
  with Cons.prems(2) obtain f' rest' where f': "bs = f' @ rest'" "is_frame ord e' f'"
    "is_log is_frame (ord + 1) es'' rest'" by auto
  then have "rd bs ord = Inr (e', rest', ord + 1)" using read_frame by blast
  with \<open>rd bs ord = Inr (e, rest, ord + 1)\<close> have "e' = e" "rest' = rest" by auto
  with Cons.IH [OF f(3)] f'(3) es' show ?case by simp
qed

text \<open>A prefix of a log is a shorter log followed by a cut that reads as the end of the file.\<close>

lemma log_prefix:
  assumes "is_log is_frame ord es bs" "prefix img bs"
  shows "\<exists>n b tail. n \<le> length es \<and> img = b @ tail \<and> is_log is_frame ord (take n es) b \<and>
    rd tail (ord + word_of_nat n) = Inl (Err (Io UnexpectedEof)) \<and> (img = bs \<longrightarrow> n = length es)"
  using assms
proof (induction es arbitrary: ord bs img)
  case Nil
  then show ?case using read_nil by (auto intro!: exI [of _ "[]"])
next
  case (Cons e es)
  then obtain f rest where f: "bs = f @ rest" "is_frame ord e f" "is_log is_frame (ord + 1) es rest" by auto
  show ?case
  proof (cases "strict_prefix img f")
    case True
    have "rd img ord = Inl (Err (Io UnexpectedEof))" by (rule read_torn [OF f(2) True])
    moreover have "img \<noteq> bs" using True f(1) by (auto simp: strict_prefix_def prefix_def)
    ultimately show ?thesis by (intro exI [of _ 0] exI [of _ "[]"] exI [of _ img]) simp
  next
    case False
    with Cons.prems(2) f(1) obtain img' where img': "img = f @ img'" "prefix img' rest"
      by (metis prefix_append append_eq_append_conv2 prefixI strict_prefixI prefix_order.eq_iff append_Nil2)
    obtain n b tail where n: "n \<le> length es" "img' = b @ tail" "is_log is_frame (ord + 1) (take n es) b"
      "rd tail (ord + 1 + word_of_nat n) = Inl (Err (Io UnexpectedEof))" "img' = rest \<longrightarrow> n = length es"
      using Cons.IH [OF f(3) img'(2)] by blast
    have "is_log is_frame ord (take (Suc n) (e # es)) (f @ b)" using f(2) n(3) by auto
    with n img' f(1) show ?thesis
      by (intro exI [of _ "Suc n"] exI [of _ "f @ b"] exI [of _ tail]) (auto simp: add.assoc)
  qed
qed

end

subsection \<open>The log of the engine\<close>

text \<open>Both framings: the plain record, and an envelope whose associated data names the ordinal.\<close>

definition frame_fits :: "TxnWal \<Rightarrow> TxnWalEntry \<Rightarrow> bool" where
  "frame_fits w e \<longleftrightarrow>
     entry_len e + (if ee_is_enabled (wal_encryption w) then HEADER_SIZE + 16 else 0) \<le> unat MAX_WAL_FRAME_LEN"

definition cipher_ok :: "TxnWal \<Rightarrow> bool" where
  "cipher_ok w \<longleftrightarrow> (ee_is_enabled (wal_encryption w) \<longrightarrow> aead_ok (ee_cipher (wal_encryption w)))"

definition wal_is_frame :: "platform \<Rightarrow> TxnWal \<Rightarrow> u64 \<Rightarrow> TxnWalEntry \<Rightarrow> bytes \<Rightarrow> bool" where
  "wal_is_frame P w ord e f \<longleftrightarrow>
     frame_fits w e \<and> cipher_ok w \<and>
     (if ee_is_enabled (wal_encryption w)
      then \<exists>nonce env. length nonce = NONCE_SIZE \<and>
             encrypt_with_aad (wal_encryption w) nonce (body_bytes P e) (record_aad w ord) = Inr env \<and>
             f = u32_le (word_of_nat (length env)) @ env
      else f = to_bytes P e)"

lemma frame_fits_entry: "frame_fits w e \<Longrightarrow> entry_fits e"
  by (auto simp: frame_fits_def entry_fits_def split: if_splits)

lemma envelope_length:
  assumes "aead_ok (ee_cipher eng)" "ee_enabled eng" "length nonce = NONCE_SIZE"
    and "encrypt_with_aad eng nonce m aad = Inr env"
  shows "length env = length m + HEADER_SIZE + 16"
  using assms by (auto simp: encrypt_with_aad_def aead_ok_def HEADER_SIZE_def split: option.splits)

lemma wal_read_frame:
  assumes "wal_is_frame P w ord e f"
  shows "read_record P w (f @ rest) ord = Inr (e, rest, ord + 1)"
proof (cases "ee_is_enabled (wal_encryption w)")
  case False
  with assms have "entry_fits e" "f = to_bytes P e" by (auto simp: wal_is_frame_def intro: frame_fits_entry)
  with False show ?thesis by (simp add: read_record_def from_reader_to_bytes)
next
  case True
  with assms obtain nonce env where env: "length nonce = NONCE_SIZE" "aead_ok (ee_cipher (wal_encryption w))"
    "encrypt_with_aad (wal_encryption w) nonce (body_bytes P e) (record_aad w ord) = Inr env"
    "f = u32_le (word_of_nat (length env)) @ env" "frame_fits w e"
    by (auto simp: wal_is_frame_def cipher_ok_def)
  then have len: "length env \<le> 536870912"
    using True envelope_length [OF env(2) _ env(1,3)]
    by (simp add: frame_fits_def ee_is_enabled_def unat_MAX_WAL_FRAME_LEN)
  then have "\<not> MAX_WAL_FRAME_LEN < (word_of_nat (length env) :: u32)"
    by (simp add: word_less_nat_alt unat_MAX_WAL_FRAME_LEN unat_of_nat_u32)
  with True env len show ?thesis
    by (simp add: read_record_def read_exact_append unat_of_nat_u32 decrypt_encrypt
        parse_body_bytes frame_fits_entry)
qed

lemma wal_read_torn:
  assumes "wal_is_frame P w ord e f" "strict_prefix tail f"
  shows "read_record P w tail ord = Inl (Err (Io UnexpectedEof))"
proof (cases "ee_is_enabled (wal_encryption w)")
  case False
  with assms have "entry_fits e" "strict_prefix tail (to_bytes P e)"
    by (auto simp: wal_is_frame_def intro: frame_fits_entry)
  with False show ?thesis by (simp add: read_record_def from_reader_torn)
next
  case True
  with assms(1) obtain nonce env where env: "length nonce = NONCE_SIZE" "aead_ok (ee_cipher (wal_encryption w))"
    "encrypt_with_aad (wal_encryption w) nonce (body_bytes P e) (record_aad w ord) = Inr env"
    "f = u32_le (word_of_nat (length env)) @ env" "frame_fits w e"
    by (auto simp: wal_is_frame_def cipher_ok_def)
  then have len: "length env \<le> 536870912"
    using True envelope_length [OF env(2) _ env(1,3)]
    by (simp add: frame_fits_def ee_is_enabled_def unat_MAX_WAL_FRAME_LEN)
  then have small: "\<not> MAX_WAL_FRAME_LEN < (word_of_nat (length env) :: u32)"
    by (simp add: word_less_nat_alt unat_MAX_WAL_FRAME_LEN unat_of_nat_u32)
  show ?thesis
  proof (cases "length tail < 4")
    case short: True
    with True show ?thesis by (simp add: read_record_def read_u32_short)
  next
    case False
    have "take 4 tail = take 4 f" and "length tail < length f"
      using assms(2) False by (auto simp: strict_prefix_def prefix_def)
    then obtain d where d: "tail = u32_le (word_of_nat (length env)) @ d" "length d < length env"
      using env(4) append_take_drop_id [of 4 tail] False
      by (metis (no_types, lifting) append_eq_conv_conj length_append length_u32_le nat_add_left_cancel_less)
    then show ?thesis
      using True small len by (simp add: read_record_def read_exact_def unat_of_nat_u32)
  qed
qed

interpretation wal: framing "wal_is_frame P w" "read_record P w" for P w
proof
  show "read_record P w [] ord = Inl (Err (Io UnexpectedEof))" for ord
    by (simp add: read_record_def from_reader_def read_u32_short)
qed (rule wal_read_frame wal_read_torn; assumption)+

subsection \<open>The log as a list of entries\<close>

text \<open>
  The abstract state of a log is the list of entries written since it was last empty: the file and the
  writer's buffer together hold their frames, and the counters agree.
\<close>

definition wal_repr :: "platform \<Rightarrow> TxnWal \<Rightarrow> TxnWalEntry list \<Rightarrow> bool" where
  "wal_repr P w es \<longleftrightarrow>
     is_log (wal_is_frame P w) 0 es (wal_file w @ wal_buf w) \<and>
     wal_sequence w = word_of_nat (length es) \<and>
     (ee_is_enabled (wal_encryption w) \<longrightarrow> wal_records_in_file w = word_of_nat (length es)) \<and>
     wal_synced w \<le> length (wal_file w)"

text \<open>The part of the state that frames depend on; no write operation changes it.\<close>

definition wal_key :: "TxnWal \<Rightarrow> EncryptionEngine \<times> bytes \<times> u32" where
  "wal_key w = (wal_encryption w, wal_db_uuid w, wal_dek_epoch w)"

lemma wal_is_frame_cong: "wal_key w = wal_key w' \<Longrightarrow> wal_is_frame P w = wal_is_frame P w'"
  by (simp add: wal_key_def wal_is_frame_def frame_fits_def cipher_ok_def record_aad_def fun_eq_iff)

lemma frame_fits_cong: "wal_key w = wal_key w' \<Longrightarrow> frame_fits w = frame_fits w'"
  by (simp add: wal_key_def frame_fits_def fun_eq_iff)

lemma cipher_ok_cong: "wal_key w = wal_key w' \<Longrightarrow> cipher_ok w = cipher_ok w'"
  by (simp add: wal_key_def cipher_ok_def)

lemma bw_write_all_log:
  "wal_file (bw_write_all d w) @ wal_buf (bw_write_all d w) = (wal_file w @ wal_buf w) @ d"
  by (cases "wal_buf w") (auto simp: bw_write_all_def bw_flush_def Let_def BUF_WRITER_CAPACITY_def)

lemma bw_write_all_other [simp]:
  "wal_synced (bw_write_all d w) = wal_synced w" "wal_sequence (bw_write_all d w) = wal_sequence w"
  "wal_records_in_file (bw_write_all d w) = wal_records_in_file w" "wal_key (bw_write_all d w) = wal_key w"
  "wal_encryption (bw_write_all d w) = wal_encryption w" "wal_next_txn_id (bw_write_all d w) = wal_next_txn_id w"
  "wal_bytes_since_sync (bw_write_all d w) = wal_bytes_since_sync w" "wal_tick (bw_write_all d w) = wal_tick w"
  by (simp_all add: bw_write_all_def bw_flush_def Let_def wal_key_def)

lemma bw_write_all_file: "prefix (wal_file w) (wal_file (bw_write_all d w))"
  by (auto simp: bw_write_all_def bw_flush_def Let_def)

lemma wal_repr_bytes:
  assumes "wal_repr P w es" "is_log (wal_is_frame P w) (word_of_nat (length es)) es' d" "wal_key w' = wal_key w"
    and "wal_file w' @ wal_buf w' = (wal_file w @ wal_buf w) @ d" "wal_synced w' \<le> length (wal_file w')"
    and "wal_sequence w' = wal_sequence w + word_of_nat (length es')"
    and "ee_is_enabled (wal_encryption w) \<Longrightarrow> wal_records_in_file w' = wal_records_in_file w + word_of_nat (length es')"
  shows "wal_repr P w' (es @ es')"
proof -
  have "is_log (wal_is_frame P w') 0 (es @ es') (wal_file w' @ wal_buf w')"
    unfolding assms(4) wal_is_frame_cong [OF assms(3)]
    by (rule is_log_append) (use assms(1,2) in \<open>auto simp: wal_repr_def\<close>)
  with assms show ?thesis by (auto simp: wal_repr_def wal_key_def)
qed

text \<open>The frame that a write produces is a frame at the next ordinal.\<close>

lemma encrypt_frame_is_frame:
  assumes "platform_ok P" "cipher_ok w" "frame_fits w e" "ee_is_enabled (wal_encryption w)"
    and "encrypt_frame P (body_bytes P e) ord w = (w1, Inr f)"
  shows "wal_is_frame P w ord e f"
  using assms
  by (auto simp: encrypt_frame_def wal_is_frame_def try_bind_eq_Inr lift_enc_def platform_ok_def
      split: sum.splits)

lemma encrypt_frame_state: "fst (encrypt_frame P body ord w) = w\<lparr>wal_tick := wal_tick w + 1\<rparr>"
  by (simp add: encrypt_frame_def)

lemma wal_key_update [simp]:
  "wal_key (w\<lparr>wal_tick := n\<rparr>) = wal_key w" "wal_key (w\<lparr>wal_sequence := s\<rparr>) = wal_key w"
  "wal_key (w\<lparr>wal_bytes_since_sync := s\<rparr>) = wal_key w" "wal_key (w\<lparr>wal_records_in_file := s\<rparr>) = wal_key w"
  "wal_key (w\<lparr>wal_synced := n\<rparr>) = wal_key w" "wal_key (w\<lparr>wal_next_txn_id := s\<rparr>) = wal_key w"
  "wal_key (w\<lparr>wal_cached_timestamp_us := s\<rparr>) = wal_key w"
  by (simp_all add: wal_key_def)

lemma wal_repr_tick: "wal_repr P w es \<Longrightarrow> wal_repr P (w\<lparr>wal_tick := n\<rparr>) es"
  using wal_is_frame_cong [of "w\<lparr>wal_tick := n\<rparr>" w P] by (simp add: wal_repr_def)

lemma wal_append_repr:
  assumes "platform_ok P" "cipher_ok w" "wal_repr P w es" "frame_fits w e"
  shows "case wal_append P e w of
      (w', Inr seq) \<Rightarrow> wal_repr P w' (es @ [e]) \<and> seq = word_of_nat (length es) \<and> wal_key w' = wal_key w
    | (w', Inl _) \<Rightarrow> wal_repr P w' es \<and> wal_key w' = wal_key w"
proof (cases "frame_for_write P e w")
  case (Pair w1 r)
  have w1: "w1 = w \<or> w1 = w\<lparr>wal_tick := wal_tick w + 1\<rparr>"
    using Pair encrypt_frame_state [of P "body_bytes P e" "wal_records_in_file w" w]
    by (auto simp: frame_for_write_def split: if_splits)
  then have repr: "wal_repr P w1 es" and key: "wal_key w1 = wal_key w"
    using assms(3) wal_repr_tick by auto
  show ?thesis
  proof (cases r)
    case (Inl err)
    with Pair repr key show ?thesis by (simp add: wal_append_def)
  next
    case (Inr f)
    have frame: "wal_is_frame P w (word_of_nat (length es)) e f"
    proof (cases "ee_is_enabled (wal_encryption w)")
      case True
      then have "encrypt_frame P (body_bytes P e) (word_of_nat (length es)) w = (w1, Inr f)"
        using Pair Inr assms(3) by (simp add: frame_for_write_def wal_repr_def)
      with True assms show ?thesis by (intro encrypt_frame_is_frame)
    next
      case False
      with Pair Inr assms show ?thesis by (auto simp: frame_for_write_def wal_is_frame_def)
    qed
    let ?w2 = "commit_record_ordinal (bw_write_all f w1)"
    have seq: "wal_sequence ?w2 = word_of_nat (length es)"
      using repr by (simp add: commit_record_ordinal_def wal_repr_def)
    have "wal_repr P (?w2\<lparr>wal_sequence := wal_sequence ?w2 + 1,
        wal_bytes_since_sync := wal_bytes_since_sync ?w2 + word_of_nat (length f)\<rparr>) (es @ [e])"
    proof (rule wal_repr_bytes [OF repr is_log_single])
      show "wal_is_frame P w1 (word_of_nat (length es)) e f"
        using frame wal_is_frame_cong [OF key] by simp
      show "wal_synced (?w2\<lparr>wal_sequence := wal_sequence ?w2 + 1,
          wal_bytes_since_sync := wal_bytes_since_sync ?w2 + word_of_nat (length f)\<rparr>)
        \<le> length (wal_file (?w2\<lparr>wal_sequence := wal_sequence ?w2 + 1,
          wal_bytes_since_sync := wal_bytes_since_sync ?w2 + word_of_nat (length f)\<rparr>))"
        using repr bw_write_all_file [of w1 f]
        by (auto simp: commit_record_ordinal_def wal_repr_def dest!: prefix_length_le)
    qed (auto simp: commit_record_ordinal_def bw_write_all_log)
    then show ?thesis
      using Pair Inr seq key
      by (simp add: wal_append_def Let_def commit_record_ordinal_def)
  qed
qed

lemma wal_repr_flush: "wal_repr P w es \<Longrightarrow> wal_repr P (bw_flush w) es"
  using wal_is_frame_cong [of "bw_flush w" w P] by (auto simp: wal_repr_def bw_flush_def wal_key_def)

lemma wal_sync_repr:
  assumes "wal_repr P w es"
  shows "wal_repr P (fst (wal_sync w)) es" "wal_file (fst (wal_sync w)) = wal_file w @ wal_buf w"
    "wal_buf (fst (wal_sync w)) = []" "wal_synced (fst (wal_sync w)) = length (wal_file (fst (wal_sync w)))"
    "snd (wal_sync w) = Inr ()" "wal_key (fst (wal_sync w)) = wal_key w"
  using wal_repr_flush [OF assms] wal_is_frame_cong [of "fst (wal_sync w)" "bw_flush w" P]
  by (auto simp: wal_sync_def bw_flush_def wal_repr_def Let_def wal_key_def)

lemma wal_truncate_repr:
  "wal_repr P (fst (wal_truncate w)) []" "wal_key (fst (wal_truncate w)) = wal_key w"
  by (simp_all add: wal_truncate_def bw_flush_def wal_repr_def wal_key_def)

lemma wal_repr_next_txn_id [simp]: "wal_repr P (w\<lparr>wal_next_txn_id := n\<rparr>) es \<longleftrightarrow> wal_repr P w es"
  using wal_is_frame_cong [of "w\<lparr>wal_next_txn_id := n\<rparr>" w P] by (simp add: wal_repr_def)

text \<open>The transaction buffer holds the plain frames of its entries.\<close>

definition tb_repr :: "platform \<Rightarrow> TxnWalBuffer \<Rightarrow> TxnWalEntry list \<Rightarrow> bool" where
  "tb_repr P b es \<longleftrightarrow> tb_buffer b = concat (map (to_bytes P) es) \<and> tb_entry_count b = length es"

lemma tb_repr_new: "tb_repr P (tb_new t) []"
  by (simp add: tb_repr_def tb_new_def)

lemma tb_repr_append:
  "tb_repr P b es \<Longrightarrow> tb_repr P (tb_append P now k v b) (es @ [entry_data now (tb_txn_id b) k v])"
  by (simp add: tb_repr_def tb_append_eq)

lemma tb_repr_empty: "tb_repr P b es \<Longrightarrow> tb_is_empty b \<longleftrightarrow> es = []"
proof -
  have "to_bytes P e \<noteq> []" for e using length_to_bytes [of P e] by (metis add_is_0 list.size(3) zero_neq_numeral)
  then show "tb_repr P b es \<Longrightarrow> tb_is_empty b \<longleftrightarrow> es = []"
    by (cases es) (auto simp: tb_repr_def tb_is_empty_def)
qed

lemma is_log_plain:
  assumes "\<not> ee_is_enabled (wal_encryption w)" "\<forall>e \<in> set es. frame_fits w e"
  shows "is_log (wal_is_frame P w) ord es (concat (map (to_bytes P) es))"
  using assms(2)
proof (induction es arbitrary: ord)
  case (Cons e es)
  have "wal_is_frame P w ord e (to_bytes P e)"
    using assms(1) Cons.prems by (simp add: wal_is_frame_def cipher_ok_def)
  with Cons show ?case by auto
qed simp

text \<open>One step of the encrypting loop, on a buffer that starts with a record.\<close>

lemma flush_frames_step:
  assumes "frame_fits w e"
  shows "flush_frames P (to_bytes P e @ rest) n w =
    (case encrypt_frame P (body_bytes P e) (wal_records_in_file w) w of
       (w1, Inl err) \<Rightarrow> (w1, Inl err)
     | (w1, Inr f) \<Rightarrow>
         (let w2 = bw_write_all f w1
          in flush_frames P rest (n + word_of_nat (length f)) (w2\<lparr>wal_records_in_file := wal_records_in_file w2 + 1\<rparr>)))"
proof -
  have fits: "entry_len e \<le> 536870912"
    using frame_fits_entry [OF assms] by (simp add: entry_fits_def unat_MAX_WAL_FRAME_LEN)
  have "of_le_bytes (u32_le (word_of_nat (entry_len e))) = entry_len e"
    using fits by (simp add: u32_le_def of_le_bytes_le_bytes unat_of_nat_u32)
  then have "take 4 (to_bytes P e @ rest) = u32_le (word_of_nat (entry_len e))"
    "drop 4 (to_bytes P e @ rest) = body_bytes P e @ rest"
    "of_le_bytes (take 4 (to_bytes P e @ rest)) = entry_len e"
    by (simp_all add: to_bytes_eq)
  then show ?thesis
    by (subst flush_frames.simps) (simp add: Let_def split: prod.split sum.split)
qed

lemma flush_frames_repr:
  assumes "platform_ok P" "cipher_ok w" "ee_is_enabled (wal_encryption w)" "\<forall>e \<in> set es'. frame_fits w e"
    and "wal_repr P (w\<lparr>wal_sequence := word_of_nat (length es)\<rparr>) es"
    and "flush_frames P (concat (map (to_bytes P) es')) n w = (w', Inr m)"
  shows "wal_repr P (w'\<lparr>wal_sequence := word_of_nat (length (es @ es'))\<rparr>) (es @ es') \<and>
    wal_sequence w' = wal_sequence w \<and> wal_key w' = wal_key w"
  using assms
proof (induction es' arbitrary: w es n)
  case Nil
  then show ?case by (simp add: flush_frames.simps)
next
  case (Cons e es')
  let ?ws = "w\<lparr>wal_sequence := word_of_nat (length es)\<rparr>"
  have ord: "wal_records_in_file w = word_of_nat (length es)"
    using Cons.prems(3,5) by (simp add: wal_repr_def)
  obtain w1 f where f: "encrypt_frame P (body_bytes P e) (wal_records_in_file w) w = (w1, Inr f)"
    using Cons.prems(4,6) flush_frames_step [of w e P "concat (map (to_bytes P) es')" n]
    by (auto split: prod.splits sum.splits)
  then have w1: "w1 = w\<lparr>wal_tick := wal_tick w + 1\<rparr>"
    using encrypt_frame_state [of P "body_bytes P e" "wal_records_in_file w" w] by simp
  let ?w2 = "bw_write_all f w1"
  let ?w3 = "?w2\<lparr>wal_records_in_file := wal_records_in_file ?w2 + 1\<rparr>"
  have key: "wal_key ?w3 = wal_key w" by (simp add: w1)
  have rec: "flush_frames P (concat (map (to_bytes P) es')) (n + word_of_nat (length f)) ?w3 = (w', Inr m)"
    using Cons.prems(4,6) flush_frames_step [of w e P "concat (map (to_bytes P) es')" n] f
    by (simp add: Let_def)
  have frame: "wal_is_frame P w (word_of_nat (length es)) e f"
    using Cons.prems f ord by (intro encrypt_frame_is_frame) auto
  have repr: "wal_repr P (?w3\<lparr>wal_sequence := word_of_nat (length (es @ [e]))\<rparr>) (es @ [e])"
  proof (rule wal_repr_bytes [OF Cons.prems(5) is_log_single])
    show "wal_is_frame P ?ws (word_of_nat (length es)) e f"
      using frame wal_is_frame_cong [of ?ws w] by simp
    show "wal_synced (?w3\<lparr>wal_sequence := word_of_nat (length (es @ [e]))\<rparr>)
        \<le> length (wal_file (?w3\<lparr>wal_sequence := word_of_nat (length (es @ [e]))\<rparr>))"
      using Cons.prems(5) bw_write_all_file [of w1 f]
      by (auto simp: w1 wal_repr_def dest!: prefix_length_le)
  qed (use ord key in \<open>auto simp: w1 bw_write_all_log\<close>)
  have "cipher_ok ?w3" "ee_is_enabled (wal_encryption ?w3)" "\<forall>x \<in> set es'. frame_fits ?w3 x"
    using Cons.prems(2-4) unfolding cipher_ok_cong [OF key] frame_fits_cong [OF key] by (simp_all add: w1)
  from Cons.IH [OF Cons.prems(1) this repr rec] show ?case
    using key by (simp add: w1)
qed

lemma wal_flush_buffer_repr:
  assumes "platform_ok P" "cipher_ok w" "wal_repr P w es" "tb_repr P b es'" "\<forall>e \<in> set es'. frame_fits w e"
    and "wal_flush_buffer P b w = (w', Inr seq)"
  shows "wal_repr P w' (es @ es') \<and> wal_key w' = wal_key w"
proof (cases "tb_is_empty b")
  case True
  with assms tb_repr_empty [OF assms(4)] show ?thesis by (auto simp: wal_flush_buffer_def)
next
  case False
  note buf = assms(4) [unfolded tb_repr_def]
  show ?thesis
  proof (cases "ee_is_enabled (wal_encryption w)")
    case True
    with False assms(6) obtain w1 m where m: "flush_frames P (tb_buffer b) 0 w = (w1, Inr m)"
      and w': "w' = w1\<lparr>wal_sequence := wal_sequence w1 + word_of_nat (tb_entry_count b),
        wal_bytes_since_sync := wal_bytes_since_sync w1 + m\<rparr>"
      by (auto simp: wal_flush_buffer_def split: prod.splits sum.splits)
    have "wal_repr P (w\<lparr>wal_sequence := word_of_nat (length es)\<rparr>) es"
      using assms(3) wal_is_frame_cong [of "w\<lparr>wal_sequence := word_of_nat (length es)\<rparr>" w P]
      by (simp add: wal_repr_def)
    from flush_frames_repr [OF assms(1,2) True assms(5) this, of 0 w1 m] m buf assms(3)
    show ?thesis
      using wal_is_frame_cong [of w' "w1\<lparr>wal_sequence := word_of_nat (length (es @ es'))\<rparr>" P]
      by (auto simp: w' wal_repr_def wal_key_def)
  next
    case plain: False
    have "wal_repr P w' (es @ es')"
      by (rule wal_repr_bytes [OF assms(3) is_log_plain [OF plain assms(5)]])
        (use False plain assms(3,6) buf bw_write_all_file [of w "tb_buffer b"] in
          \<open>auto simp: wal_flush_buffer_def Let_def bw_write_all_log wal_repr_def dest!: prefix_length_le\<close>)
    moreover have "wal_key w' = wal_key w"
      using False plain assms(6) by (auto simp: wal_flush_buffer_def Let_def)
    ultimately show ?thesis ..
  qed
qed

end
