(* ===== verification/Wal_Replay.thy ===== *)
theory Wal_Replay
  imports Txn_Wal
begin

text \<open>
  Opening and replaying the log (\<^verbatim>\<open>sochdb-storage/src/txn_wal.rs\<close>): \<^verbatim>\<open>recover_state\<close>,
  \<^verbatim>\<open>replay_for_recovery\<close>, \<^verbatim>\<open>replay_to_target\<close>, \<^verbatim>\<open>replay\<close> and \<^verbatim>\<open>crash_recovery\<close>.  All of them are one
  loop over \<^verbatim>\<open>read_record\<close> with different bodies; the loop terminates because each record read
  shortens the rest of the file.  What a replay returns is specified over the list of entries.
\<close>

subsection \<open>The reading loop\<close>

datatype 's flow = Continue 's | Break 's | Return failure

lemma from_reader_shorter: "from_reader P bs = Inr (e, r) \<Longrightarrow> length r < length bs"
  by (auto simp: from_reader_def try_bind_eq_Inr read_u32_def read_exact_def split: if_splits prod.splits)

lemma read_record_shorter: "read_record P w bs ord = Inr (e, r, ord') \<Longrightarrow> length r < length bs"
  by (auto simp: read_record_def try_bind_eq_Inr read_u32_def read_exact_def
      split: if_splits prod.splits dest: from_reader_shorter)

text \<open>
  \<^verbatim>\<open>loop { match self.read_record(..) }\<close>: the end of the file stops the loop; another error aborts the
  whole call on an encrypted log and stops the loop on a plain one (\<open>torn\<close> is what the body does
  then).
\<close>

function wal_loop ::
    "platform \<Rightarrow> TxnWal \<Rightarrow> (TxnWalEntry \<Rightarrow> u64 \<Rightarrow> 's \<Rightarrow> 's flow) \<Rightarrow> ('s \<Rightarrow> 's) \<Rightarrow> bytes \<Rightarrow> u64 \<Rightarrow> 's \<Rightarrow> 's result" where
  "wal_loop P w body torn bs ord s =
     (case read_record P w bs ord of
        Inr (e, r, ord') \<Rightarrow>
          (case body e ord' s of
             Continue s' \<Rightarrow> wal_loop P w body torn r ord' s'
           | Break s' \<Rightarrow> Inr s'
           | Return f \<Rightarrow> Inl f)
      | Inl f \<Rightarrow>
          (if f = Err (Io UnexpectedEof) then Inr s
           else if ee_is_enabled (wal_encryption w) then Inl f
           else Inr (torn s)))"
  by pat_completeness auto
termination
  by (relation "measure (\<lambda>(P, w, body, torn, bs, ord, s). length bs)") (auto dest: read_record_shorter)

declare wal_loop.simps [simp del]

subsection \<open>Opening a log\<close>

definition recover_body :: "platform \<Rightarrow> TxnWalEntry \<Rightarrow> u64 \<Rightarrow> u64 \<times> u64 \<Rightarrow> (u64 \<times> u64) flow" where
  "recover_body P e ord s =
     (let (count, max_our_counter) = s;
          our_pid = (ucast (pf_pid P) :: u64);
          entry_pid = drop_bit 32 (we_txn_id e);
          entry_counter = we_txn_id e AND 0xFFFFFFFF
      in Continue (count + 1,
           if entry_pid = our_pid \<and> entry_counter > max_our_counter then entry_counter else max_our_counter))"

definition recover_state :: "platform \<Rightarrow> TxnWal \<Rightarrow> TxnWal result" where
  "recover_state P w =
     try_bind (wal_loop P w (recover_body P) id (wal_file w) 0 (0, 0)) (\<lambda>(count, max_our_counter).
       let pid_base = push_bit 32 (ucast (pf_pid P) :: u64)
       in Inr (w\<lparr>wal_next_txn_id := pid_base + max_our_counter + 1, wal_sequence := count,
                 wal_records_in_file := count\<rparr>))"

text \<open>Opening a file whose contents are \<open>img\<close>, which are on disk.\<close>

definition new_with_encryption ::
    "platform \<Rightarrow> bytes \<Rightarrow> EncryptionEngine \<Rightarrow> bytes \<Rightarrow> u32 \<Rightarrow> nat \<Rightarrow> TxnWal result" where
  "new_with_encryption P img encryption db_uuid dek_epoch tick =
     recover_state P
       \<lparr>wal_file = img, wal_synced = length img, wal_buf = [], wal_next_txn_id = 1, wal_sequence = 0,
        wal_bytes_since_sync = 0, wal_cached_timestamp_us = pf_clock P tick, wal_encryption = encryption,
        wal_db_uuid = db_uuid, wal_dek_epoch = dek_epoch, wal_records_in_file = 0, wal_tick = tick + 1\<rparr>"

definition wal_new :: "platform \<Rightarrow> aead \<Rightarrow> bytes \<Rightarrow> nat \<Rightarrow> TxnWal result" where
  "wal_new P dummy_cipher img tick =
     new_with_encryption P img (ee_disabled dummy_cipher) (replicate 16 0) 0 tick"

subsection \<open>Replay\<close>

record replay_state =
  rp_pending :: "(u64, (key \<times> val) list) dashmap"
  rp_result :: "(key \<times> val) list"
  rp_count :: nat

definition replay_start :: replay_state where
  "replay_start = \<lparr>rp_pending = [], rp_result = [], rp_count = 0\<rparr>"

definition pend_begin :: "u64 \<Rightarrow> replay_state \<Rightarrow> replay_state" where
  "pend_begin t s = s\<lparr>rp_pending := dm_insert t [] (rp_pending s)\<rparr>"

definition pend_data :: "u64 \<Rightarrow> key \<Rightarrow> val \<Rightarrow> replay_state \<Rightarrow> replay_state" where
  "pend_data t k v s =
     s\<lparr>rp_pending :=
        dm_insert t ((case map_of (rp_pending s) t of Some ws \<Rightarrow> ws | None \<Rightarrow> []) @ [(k, v)]) (rp_pending s)\<rparr>"

definition pend_commit :: "u64 \<Rightarrow> replay_state \<Rightarrow> replay_state" where
  "pend_commit t s =
     (case map_of (rp_pending s) t of
        Some ws \<Rightarrow>
          s\<lparr>rp_pending := dm_remove t (rp_pending s), rp_result := rp_result s @ ws, rp_count := rp_count s + 1\<rparr>
      | None \<Rightarrow> s)"

definition pend_abort :: "u64 \<Rightarrow> replay_state \<Rightarrow> replay_state" where
  "pend_abort t s = s\<lparr>rp_pending := dm_remove t (rp_pending s)\<rparr>"

definition replay_body :: "TxnWalEntry \<Rightarrow> u64 \<Rightarrow> replay_state \<Rightarrow> replay_state flow" where
  "replay_body e ord s =
     Continue
       (case we_record_type e of
          TxnBegin \<Rightarrow> pend_begin (we_txn_id e) s
        | Data \<Rightarrow> pend_data (we_txn_id e) (we_key e) (we_value e) s
        | TxnCommit \<Rightarrow> pend_commit (we_txn_id e) s
        | TxnAbort \<Rightarrow> pend_abort (we_txn_id e) s
        | _ \<Rightarrow> s)"

definition replay_for_recovery :: "platform \<Rightarrow> TxnWal \<Rightarrow> ((key \<times> val) list \<times> nat) result" where
  "replay_for_recovery P w =
     try_bind (wal_loop P w replay_body id (wal_file w) 0 replay_start) (\<lambda>s. Inr (rp_result s, rp_count s))"

datatype RecoveryTarget = Lsn u64 | Timestamp u64

definition target_body :: "RecoveryTarget \<Rightarrow> TxnWalEntry \<Rightarrow> u64 \<Rightarrow> replay_state \<Rightarrow> replay_state flow" where
  "target_body target e ord s =
     (if (case target of Lsn l \<Rightarrow> ord > l | Timestamp t \<Rightarrow> False) then Break s
      else case we_record_type e of
             TxnBegin \<Rightarrow> Continue (pend_begin (we_txn_id e) s)
           | Data \<Rightarrow> Continue (pend_data (we_txn_id e) (we_key e) (we_value e) s)
           | TxnCommit \<Rightarrow>
               (if (case target of Timestamp t \<Rightarrow> we_timestamp_us e > t | Lsn l \<Rightarrow> False) then Break s
                else Continue (pend_commit (we_txn_id e) s))
           | TxnAbort \<Rightarrow> Continue (pend_abort (we_txn_id e) s)
           | _ \<Rightarrow> Continue s)"

definition replay_to_target :: "platform \<Rightarrow> TxnWal \<Rightarrow> RecoveryTarget \<Rightarrow> ((key \<times> val) list \<times> nat) result" where
  "replay_to_target P w target =
     try_bind (wal_loop P w (target_body target) id (wal_file w) 0 replay_start) (\<lambda>s. Inr (rp_result s, rp_count s))"

text \<open>\<^verbatim>\<open>replay\<close> with a callback that threads a state of its own and may fail.\<close>

definition callback_body ::
    "('c \<Rightarrow> TxnWalEntry \<Rightarrow> 'c result) \<Rightarrow> TxnWalEntry \<Rightarrow> u64 \<Rightarrow> 'c \<times> u64 \<Rightarrow> ('c \<times> u64) flow" where
  "callback_body callback e ord s =
     (case callback (fst s) e of Inl f \<Rightarrow> Return f | Inr c \<Rightarrow> Continue (c, snd s + 1))"

definition replay :: "platform \<Rightarrow> TxnWal \<Rightarrow> ('c \<Rightarrow> TxnWalEntry \<Rightarrow> 'c result) \<Rightarrow> 'c \<Rightarrow> ('c \<times> u64) result" where
  "replay P w callback c = wal_loop P w (callback_body callback) id (wal_file w) 0 (c, 0)"

subsection \<open>Recovery with statistics\<close>

record CrashRecoveryStats =
  crs_total_records :: u64
  crs_committed_txns :: u64
  crs_rolled_back_txns :: u64
  crs_aborted_txns :: u64
  crs_recovered_writes :: u64
  crs_torn_records :: u64
  crs_bytes_read :: u64
  crs_recovery_duration_us :: u64
  crs_max_txn_id :: u64

record crash_state =
  cs_stats :: CrashRecoveryStats
  cs_committed :: "u64 list"
  cs_aborted :: "u64 list"
  cs_pending :: "(u64, (key \<times> val) list) dashmap"
  cs_all :: "u64 list"

definition crash_body :: "TxnWalEntry \<Rightarrow> u64 \<Rightarrow> crash_state \<Rightarrow> crash_state flow" where
  "crash_body e ord s =
     (let t = we_txn_id e;
          st = cs_stats s;
          s = s\<lparr>cs_stats := st\<lparr>crs_total_records := crs_total_records st + 1,
                              crs_max_txn_id := (if t > crs_max_txn_id st then t else crs_max_txn_id st)\<rparr>\<rparr>
      in Continue
           (case we_record_type e of
              TxnBegin \<Rightarrow> s\<lparr>cs_pending := dm_insert t [] (cs_pending s), cs_all := List.insert t (cs_all s)\<rparr>
            | Data \<Rightarrow> s\<lparr>cs_pending := dm_alter t (\<lambda>ws. ws @ [(we_key e, we_value e)]) (cs_pending s)\<rparr>
            | TxnCommit \<Rightarrow> s\<lparr>cs_committed := List.insert t (cs_committed s)\<rparr>
            | TxnAbort \<Rightarrow> s\<lparr>cs_pending := dm_remove t (cs_pending s), cs_aborted := List.insert t (cs_aborted s)\<rparr>
            | _ \<Rightarrow> s))"

definition crash_torn :: "crash_state \<Rightarrow> crash_state" where
  "crash_torn s = s\<lparr>cs_stats := (cs_stats s)\<lparr>crs_torn_records := crs_torn_records (cs_stats s) + 1\<rparr>\<rparr>"

text \<open>
  The pending map is iterated in its own order; the differences of unsigned counters wrap around (in a
  build with overflow checks they panic instead).  \<open>elapsed\<close> is the measured duration.
\<close>

definition crash_collect :: "crash_state \<Rightarrow> u64 \<Rightarrow> (key \<times> val) list \<times> CrashRecoveryStats" where
  "crash_collect s elapsed =
     (let st = cs_stats s;
          winners = filter (\<lambda>(t, ws). t \<in> set (cs_committed s)) (cs_pending s);
          st1 = st\<lparr>crs_committed_txns := crs_committed_txns st + word_of_nat (length winners),
                   crs_recovered_writes :=
                     crs_recovered_writes st + word_of_nat (sum_list (map (\<lambda>(t, ws). length ws) winners))\<rparr>;
          st2 = st1\<lparr>crs_aborted_txns := word_of_nat (length (cs_aborted s))\<rparr>;
          st3 = st2\<lparr>crs_rolled_back_txns :=
                      word_of_nat (length (cs_all s)) - crs_committed_txns st2 - crs_aborted_txns st2\<rparr>
      in (concat (map snd winners), st3\<lparr>crs_recovery_duration_us := elapsed\<rparr>))"

definition crash_recovery ::
    "platform \<Rightarrow> TxnWal \<Rightarrow> u64 \<Rightarrow> ((key \<times> val) list \<times> CrashRecoveryStats) result" where
  "crash_recovery P w elapsed =
     try_bind
       (wal_loop P w crash_body crash_torn (wal_file w) 0
          \<lparr>cs_stats = \<lparr>crs_total_records = 0, crs_committed_txns = 0, crs_rolled_back_txns = 0,
                       crs_aborted_txns = 0, crs_recovered_writes = 0, crs_torn_records = 0,
                       crs_bytes_read = word_of_nat (length (wal_file w)), crs_recovery_duration_us = 0,
                       crs_max_txn_id = 0\<rparr>,
           cs_committed = [], cs_aborted = [], cs_pending = [], cs_all = []\<rparr>)
       (\<lambda>s. Inr (crash_collect s elapsed))"

subsection \<open>The loop over a log\<close>

fun run_entries :: "(TxnWalEntry \<Rightarrow> u64 \<Rightarrow> 's \<Rightarrow> 's flow) \<Rightarrow> u64 \<Rightarrow> TxnWalEntry list \<Rightarrow> 's \<Rightarrow> 's flow" where
  "run_entries body ord [] s = Continue s"
| "run_entries body ord (e # es) s =
     (case body e (ord + 1) s of
        Continue s' \<Rightarrow> run_entries body (ord + 1) es s'
      | Break s' \<Rightarrow> Break s'
      | Return f \<Rightarrow> Return f)"

definition flow_result :: "'s flow \<Rightarrow> 's result" where
  "flow_result fl = (case fl of Continue s \<Rightarrow> Inr s | Break s \<Rightarrow> Inr s | Return f \<Rightarrow> Inl f)"

lemma wal_loop_log:
  assumes "is_log (wal_is_frame P w) ord es bs"
  shows "wal_loop P w body torn (bs @ tail) ord s =
    (case run_entries body ord es s of
       Continue s' \<Rightarrow> wal_loop P w body torn tail (ord + word_of_nat (length es)) s'
     | Break s' \<Rightarrow> Inr s'
     | Return f \<Rightarrow> Inl f)"
  using assms
proof (induction es arbitrary: ord bs s)
  case (Cons e es)
  then obtain f rest where f: "bs = f @ rest" "wal_is_frame P w ord e f" "is_log (wal_is_frame P w) (ord + 1) es rest"
    by auto
  then have "read_record P w (bs @ tail) ord = Inr (e, rest @ tail, ord + 1)"
    using wal.read_frame [OF f(2), of "rest @ tail"] by simp
  then show ?case
    using Cons.IH [OF f(3)]
    by (subst wal_loop.simps) (simp add: add.assoc split: flow.split)
qed simp

text \<open>
  Reading back what a crash left of a log: the image is a shorter log and a cut, and every loop runs
  over exactly the entries whose frames are complete.
\<close>

definition wal_cut :: "platform \<Rightarrow> TxnWal \<Rightarrow> TxnWalEntry list \<Rightarrow> bytes \<Rightarrow> nat \<Rightarrow> bool" where
  "wal_cut P w es img n \<longleftrightarrow>
     n \<le> length es \<and>
     (\<exists>b tail. img = b @ tail \<and> is_log (wal_is_frame P w) 0 (take n es) b \<and>
        read_record P w tail (word_of_nat n) = Inl (Err (Io UnexpectedEof)))"

lemma wal_cut_exists:
  assumes "is_log (wal_is_frame P w) 0 es bs" "prefix img bs"
  shows "\<exists>n. wal_cut P w es img n \<and> (img = bs \<longrightarrow> n = length es)"
  using wal.log_prefix [OF assms] by (auto simp: wal_cut_def)

lemma wal_loop_cut:
  assumes "wal_cut P w es img n"
  shows "wal_loop P w body torn img 0 s = flow_result (run_entries body 0 (take n es) s)"
proof -
  obtain b tail where b: "n \<le> length es" "img = b @ tail" "is_log (wal_is_frame P w) 0 (take n es) b"
    "read_record P w tail (word_of_nat n) = Inl (Err (Io UnexpectedEof))"
    using assms by (auto simp: wal_cut_def)
  have "wal_loop P w body torn tail (word_of_nat n) s = Inr s" for s
    using b(4) by (subst wal_loop.simps) simp
  then show ?thesis
    using b(1) unfolding b(2) wal_loop_log [OF b(3)] by (simp add: flow_result_def split: flow.split)
qed

lemma read_record_cong:
  assumes "wal_key w = wal_key w'"
  shows "read_record P w bs ord = read_record P w' bs ord"
proof -
  have enc: "wal_encryption w = wal_encryption w'" and aad: "record_aad w ord = record_aad w' ord"
    using assms by (simp_all add: wal_key_def record_aad_def)
  show ?thesis unfolding read_record_def enc aad by (rule refl)
qed

lemma wal_cut_cong: "wal_key w = wal_key w' \<Longrightarrow> wal_cut P w es img n = wal_cut P w' es img n"
  by (simp add: wal_cut_def wal_is_frame_cong [of w w' P] read_record_cong [of w w' P])

text \<open>Counting records: the entries of a log that the image contains are all read.\<close>

abbreviation count_body :: "TxnWalEntry \<Rightarrow> u64 \<Rightarrow> nat \<Rightarrow> nat flow" where
  "count_body e ord n \<equiv> Continue (Suc n)"

lemma run_count: "run_entries count_body ord es n = Continue (n + length es)"
  by (induction es arbitrary: ord n) simp_all

lemma wal_loop_count_mono: "wal_loop P w count_body torn bs ord n = Inr m \<Longrightarrow> (\<And>k. k \<le> torn k) \<Longrightarrow> n \<le> m"
proof (induction "length bs" arbitrary: bs ord n rule: less_induct)
  case less
  show ?case
  proof (cases "read_record P w bs ord")
    case (Inl f)
    with less.prems show ?thesis
      by (subst (asm) wal_loop.simps) (auto split: if_splits)
  next
    case (Inr r)
    obtain e rest ord' where r: "r = (e, rest, ord')" by (metis prod_cases3)
    have "wal_loop P w count_body torn rest ord' (Suc n) = Inr m"
      using less.prems(1) Inr r by (subst (asm) wal_loop.simps) simp
    then have "Suc n \<le> m"
      using Inr r by (intro less.hyps) (auto intro: read_record_shorter less.prems)
    then show ?thesis by simp
  qed
qed

lemma wal_cut_covers:
  assumes "wal_cut P w es img n" "is_log (wal_is_frame P w) 0 es0 b0" "prefix b0 img"
  shows "length es0 \<le> n"
proof -
  obtain rest where img: "img = b0 @ rest" using assms(3) by (auto simp: prefix_def)
  have "wal_loop P w count_body id img 0 0 = Inr n"
    using wal_loop_cut [OF assms(1), of count_body id 0] assms(1)
    by (simp add: run_count flow_result_def wal_cut_def)
  then have "wal_loop P w count_body id rest (0 + word_of_nat (length es0)) (length es0) = Inr n"
    using wal_loop_log [OF assms(2), of count_body id rest 0] by (simp add: img run_count)
  then show ?thesis by (rule wal_loop_count_mono) simp
qed

subsection \<open>What a replay returns\<close>

text \<open>
  Specification over the list of entries.  The open writes of a transaction are its data records since
  its last begin, commit or abort; each commit contributes the writes open at that point.
\<close>

definition is_boundary :: "u64 \<Rightarrow> TxnWalEntry \<Rightarrow> bool" where
  "is_boundary t e \<longleftrightarrow> we_txn_id e = t \<and> we_record_type e \<in> {TxnBegin, TxnCommit, TxnAbort}"

definition open_writes :: "u64 \<Rightarrow> TxnWalEntry list \<Rightarrow> (key \<times> val) list" where
  "open_writes t es =
     rev (map (\<lambda>e. (we_key e, we_value e))
       (filter (\<lambda>e. we_record_type e = Data \<and> we_txn_id e = t) (takeWhile (\<lambda>e. \<not> is_boundary t e) (rev es))))"

definition committed_writes :: "TxnWalEntry list \<Rightarrow> (key \<times> val) list" where
  "committed_writes es =
     concat (map (\<lambda>i. if we_record_type (es ! i) = TxnCommit then open_writes (we_txn_id (es ! i)) (take i es) else [])
       [0..<length es])"

definition replay_step :: "TxnWalEntry \<Rightarrow> replay_state \<Rightarrow> replay_state" where
  "replay_step e s = (case replay_body e 0 s of Continue s' \<Rightarrow> s' | _ \<Rightarrow> s)"

lemma replay_body_step: "replay_body e ord s = Continue (replay_step e s)"
  by (simp add: replay_body_def replay_step_def)

lemma run_replay: "run_entries replay_body ord es s = Continue (fold replay_step es s)"
  by (induction es arbitrary: ord s) (simp_all add: replay_body_step)

lemma open_writes_snoc:
  "open_writes t (es @ [e]) =
     (if is_boundary t e then []
      else if we_record_type e = Data \<and> we_txn_id e = t then open_writes t es @ [(we_key e, we_value e)]
      else open_writes t es)"
  by (simp add: open_writes_def)

lemma committed_writes_snoc:
  "committed_writes (es @ [e]) =
     committed_writes es @ (if we_record_type e = TxnCommit then open_writes (we_txn_id e) es else [])"
proof -
  have "map (\<lambda>i. if we_record_type ((es @ [e]) ! i) = TxnCommit
        then open_writes (we_txn_id ((es @ [e]) ! i)) (take i (es @ [e])) else []) [0..<length es]
      = map (\<lambda>i. if we_record_type (es ! i) = TxnCommit then open_writes (we_txn_id (es ! i)) (take i es) else [])
        [0..<length es]"
    by (intro map_cong) (auto simp: nth_append)
  then show ?thesis unfolding committed_writes_def by (simp del: map_eq_conv)
qed

lemma replay_step_result:
  "rp_result (replay_step e s) =
     rp_result s @ (if we_record_type e = TxnCommit
                    then (case map_of (rp_pending s) (we_txn_id e) of Some ws \<Rightarrow> ws | None \<Rightarrow> []) else [])"
  by (simp add: replay_step_def replay_body_def pend_begin_def pend_data_def pend_commit_def pend_abort_def
      split: WalRecordType.split option.split)

lemma replay_step_pending:
  "(case map_of (rp_pending (replay_step e s)) t of Some ws \<Rightarrow> ws | None \<Rightarrow> []) =
     (if is_boundary t e then []
      else if we_record_type e = Data \<and> we_txn_id e = t
      then (case map_of (rp_pending s) t of Some ws \<Rightarrow> ws | None \<Rightarrow> []) @ [(we_key e, we_value e)]
      else (case map_of (rp_pending s) t of Some ws \<Rightarrow> ws | None \<Rightarrow> []))"
  by (auto simp: replay_step_def replay_body_def is_boundary_def pend_begin_def pend_data_def
      pend_commit_def pend_abort_def split: WalRecordType.split option.split)

lemma replay_fold:
  "rp_result (fold replay_step es replay_start) = committed_writes es \<and>
   (\<forall>t. (case map_of (rp_pending (fold replay_step es replay_start)) t of Some ws \<Rightarrow> ws | None \<Rightarrow> [])
        = open_writes t es)"
proof (induction es rule: rev_induct)
  case Nil
  then show ?case by (simp add: replay_start_def committed_writes_def open_writes_def)
next
  case (snoc e es)
  then show ?case
    by (simp add: replay_step_result replay_step_pending committed_writes_snoc open_writes_snoc)
qed

lemma replay_cut:
  assumes "wal_cut P w es (wal_file w) n"
  shows "\<exists>c. replay_for_recovery P w = Inr (committed_writes (take n es), c)"
  using replay_fold [of "take n es"]
  by (simp add: replay_for_recovery_def wal_loop_cut [OF assms] run_replay flow_result_def)

end
