(* ===== verification/Wal_Properties.thy ===== *)
theory Wal_Properties
  imports Wal_Replay
begin

text \<open>
  Properties of the write-ahead log: round trip of its records, what survives a crash, durability of
  commits, point-in-time recovery, freshness of transaction ids after a restart, and the inputs on
  which recovery loses or misreports data.
\<close>

subsection \<open>Opening after a crash\<close>

definition max_counter :: "platform \<Rightarrow> TxnWalEntry list \<Rightarrow> u64 \<Rightarrow> u64" where
  "max_counter P es m =
     fold (\<lambda>e m. if drop_bit 32 (we_txn_id e) = (ucast (pf_pid P) :: u64) \<and> (we_txn_id e AND 0xFFFFFFFF) > m
                 then we_txn_id e AND 0xFFFFFFFF else m) es m"

lemma run_recover:
  "run_entries (recover_body P) ord es (c, m) = Continue (c + word_of_nat (length es), max_counter P es m)"
  by (induction es arbitrary: ord c m) (simp_all add: recover_body_def max_counter_def Let_def add.assoc)

text \<open>The state that opening a file produces, before it is scanned.\<close>

definition wal_fresh :: "platform \<Rightarrow> bytes \<Rightarrow> TxnWal \<Rightarrow> nat \<Rightarrow> TxnWal" where
  "wal_fresh P img w tick =
     \<lparr>wal_file = img, wal_synced = length img, wal_buf = [], wal_next_txn_id = 1, wal_sequence = 0,
      wal_bytes_since_sync = 0, wal_cached_timestamp_us = pf_clock P tick, wal_encryption = wal_encryption w,
      wal_db_uuid = wal_db_uuid w, wal_dek_epoch = wal_dek_epoch w, wal_records_in_file = 0, wal_tick = tick + 1\<rparr>"

text \<open>Reopening the file of a log with the key of that log.\<close>

definition wal_reopen :: "platform \<Rightarrow> bytes \<Rightarrow> TxnWal \<Rightarrow> nat \<Rightarrow> TxnWal result" where
  "wal_reopen P img w tick =
     new_with_encryption P img (wal_encryption w) (wal_db_uuid w) (wal_dek_epoch w) tick"

lemma wal_key_fresh: "wal_key (wal_fresh P img w tick) = wal_key w"
  by (simp add: wal_fresh_def wal_key_def)

lemma wal_reopen_cut:
  assumes "wal_cut P w es img n"
  shows "wal_reopen P img w tick = Inr ((wal_fresh P img w tick)\<lparr>
      wal_next_txn_id := push_bit 32 (ucast (pf_pid P)) + max_counter P (take n es) 0 + 1,
      wal_sequence := word_of_nat n, wal_records_in_file := word_of_nat n\<rparr>)"
proof -
  have "wal_cut P (wal_fresh P img w tick) es img n"
    using assms wal_cut_cong [OF wal_key_fresh] by blast
  then show ?thesis
    using assms wal_loop_cut [of P "wal_fresh P img w tick" es img n "recover_body P" id "(0, 0)"]
    by (simp add: wal_reopen_def new_with_encryption_def recover_state_def wal_fresh_def [symmetric] run_recover
        flow_result_def wal_cut_def) (simp add: wal_fresh_def)
qed

lemma wal_reopen_replay:
  assumes "wal_cut P w es img n" "wal_reopen P img w tick = Inr w'"
  shows "\<exists>c. replay_for_recovery P w' = Inr (committed_writes (take n es), c)"
    and "wal_sequence w' = word_of_nat n" "wal_key w' = wal_key w" "wal_file w' = img"
proof -
  have w': "w' = (wal_fresh P img w tick)\<lparr>
      wal_next_txn_id := push_bit 32 (ucast (pf_pid P)) + max_counter P (take n es) 0 + 1,
      wal_sequence := word_of_nat n, wal_records_in_file := word_of_nat n\<rparr>"
    using assms wal_reopen_cut by simp
  show key: "wal_key w' = wal_key w" by (simp add: w' wal_key_fresh)
  show contents: "wal_file w' = img" by (simp add: w' wal_fresh_def)
  show "wal_sequence w' = word_of_nat n" by (simp add: w')
  show "\<exists>c. replay_for_recovery P w' = Inr (committed_writes (take n es), c)"
    by (rule replay_cut) (use assms(1) contents wal_cut_cong [OF key] in simp)
qed

lemma wal_image_cut:
  assumes "wal_repr P w es" "crash_image w img"
  shows "\<exists>n. wal_cut P w es img n \<and> (img = wal_file w @ wal_buf w \<longrightarrow> n = length es) \<and>
    (\<forall>es0 b0. is_log (wal_is_frame P w) 0 es0 b0 \<and> prefix b0 (take (wal_synced w) (wal_file w)) \<longrightarrow> length es0 \<le> n)"
proof -
  obtain k where k: "wal_synced w \<le> k" "img = take k (wal_file w)"
    using assms(2) by (auto simp: crash_image_def)
  then have "prefix img (wal_file w @ wal_buf w)"
    by (metis prefix_order.trans prefixI take_is_prefix)
  then obtain n where n: "wal_cut P w es img n" "img = wal_file w @ wal_buf w \<longrightarrow> n = length es"
    using assms(1) wal_cut_exists [of P w es] by (auto simp: wal_repr_def)
  have "prefix (take (wal_synced w) (wal_file w)) img"
    using k by (metis take_is_prefix min_def take_take)
  then show ?thesis
    using n wal_cut_covers [OF n(1)] by (blast intro: prefix_order.trans)
qed

subsection \<open>Prefixes of the log and targets\<close>

lemma target_lsn_below: "ord \<le> l \<Longrightarrow> target_body (Lsn l) e ord s = Continue (replay_step e s)"
  by (simp add: target_body_def replay_step_def replay_body_def not_less split: WalRecordType.split)

lemma target_lsn_above: "l < ord \<Longrightarrow> target_body (Lsn l) e ord s = Break s"
  by (simp add: target_body_def)

lemma unat_of_nat_u64: "n < 2 ^ 64 \<Longrightarrow> unat (word_of_nat n :: u64) = n"
  by (simp add: unat_of_nat take_bit_nat_eq_self)

lemma run_target_lsn:
  assumes "m + length es < 2 ^ 64" "m \<le> unat l"
  shows "flow_result (run_entries (target_body (Lsn l)) (word_of_nat m) es s)
    = Inr (fold replay_step (take (unat l - m) es) s)"
  using assms
proof (induction es arbitrary: m s)
  case Nil
  then show ?case by (simp add: flow_result_def)
next
  case (Cons e es)
  have succ: "unat (word_of_nat (Suc m) :: u64) = Suc m"
    using Cons.prems(1) by (intro unat_of_nat_u64) simp
  have ord: "word_of_nat m + 1 = (word_of_nat (Suc m) :: u64)" by simp
  show ?case
  proof (cases "Suc m \<le> unat l")
    case True
    then have "(word_of_nat (Suc m) :: u64) \<le> l" using succ by (simp add: word_le_nat_alt)
    moreover have "take (unat l - m) (e # es) = e # take (unat l - Suc m) es"
      using True by (simp add: Suc_diff_Suc [symmetric] Suc_le_eq)
    ultimately show ?thesis
      using Cons.IH [of "Suc m"] Cons.prems True unfolding run_entries.simps ord
      by (simp add: target_lsn_below)
  next
    case False
    then have "l < (word_of_nat (Suc m) :: u64)" using succ by (simp add: word_less_nat_alt)
    with False Cons.prems show ?thesis
      unfolding run_entries.simps ord by (simp add: target_lsn_above flow_result_def)
  qed
qed

definition commits_after :: "u64 \<Rightarrow> TxnWalEntry \<Rightarrow> bool" where
  "commits_after t e \<longleftrightarrow> we_record_type e = TxnCommit \<and> we_timestamp_us e > t"

lemma run_target_timestamp:
  "flow_result (run_entries (target_body (Timestamp t)) ord es s)
    = Inr (fold replay_step (takeWhile (\<lambda>e. \<not> commits_after t e) es) s)"
proof (induction es arbitrary: ord s)
  case (Cons e es)
  have "target_body (Timestamp t) e (ord + 1) s =
      (if commits_after t e then Break s else Continue (replay_step e s))"
    by (simp add: target_body_def commits_after_def replay_step_def replay_body_def split: WalRecordType.split)
  with Cons show ?case by (simp add: flow_result_def)
qed (simp add: flow_result_def)

lemma replay_to_target_cut:
  assumes "wal_cut P w es (wal_file w) n" "n < 2 ^ 64"
  shows "\<exists>c. replay_to_target P w (Lsn l) = Inr (committed_writes (take (unat l) (take n es)), c)"
    and "\<exists>c. replay_to_target P w (Timestamp t)
      = Inr (committed_writes (takeWhile (\<lambda>e. \<not> commits_after t e) (take n es)), c)"
proof -
  have "length (take n es) < 2 ^ 64" using assms(2) by simp
  from run_target_lsn [of 0 "take n es" l replay_start] this
  show "\<exists>c. replay_to_target P w (Lsn l) = Inr (committed_writes (take (unat l) (take n es)), c)"
    using replay_fold [of "take (unat l) (take n es)"]
    by (simp add: replay_to_target_def wal_loop_cut [OF assms(1)])
  show "\<exists>c. replay_to_target P w (Timestamp t)
      = Inr (committed_writes (takeWhile (\<lambda>e. \<not> commits_after t e) (take n es)), c)"
    using replay_fold [of "takeWhile (\<lambda>e. \<not> commits_after t e) (take n es)"]
    by (simp add: replay_to_target_def wal_loop_cut [OF assms(1)] run_target_timestamp)
qed

subsection \<open>Freshness of transaction ids\<close>

lemma unat_low_32: "unat (x AND 0xFFFFFFFF :: u64) < 2 ^ 32"
proof -
  have "x AND 0xFFFFFFFF \<le> (0xFFFFFFFF :: u64)" by (rule word_and_le1)
  then show ?thesis by (simp add: word_le_nat_alt)
qed

lemma max_counter_32: "unat m < 2 ^ 32 \<Longrightarrow> unat (max_counter P es m) < 2 ^ 32"
proof (induction es arbitrary: m)
  case (Cons e es)
  then show ?case using unat_low_32 [of "we_txn_id e"] by (simp add: max_counter_def)
qed (simp add: max_counter_def)

lemma max_counter_bounds:
  "m \<le> max_counter P es m"
  "e \<in> set es \<Longrightarrow> drop_bit 32 (we_txn_id e) = (ucast (pf_pid P) :: u64) \<Longrightarrow>
     we_txn_id e AND 0xFFFFFFFF \<le> max_counter P es m"
proof -
  show mono: "m \<le> max_counter P es m" for es m
  proof (induction es arbitrary: m)
    case (Cons e es)
    then show ?case
      by (auto simp: max_counter_def intro: order.trans [OF less_imp_le])
  qed (simp add: max_counter_def)
  show "we_txn_id e AND 0xFFFFFFFF \<le> max_counter P es m"
    if "e \<in> set es" "drop_bit 32 (we_txn_id e) = (ucast (pf_pid P) :: u64)"
    using that
  proof (induction es arbitrary: m)
    case (Cons e' es)
    show ?case
    proof (cases "e = e'")
      case True
      let ?m = "if (we_txn_id e AND 0xFFFFFFFF) > m then we_txn_id e AND 0xFFFFFFFF else m"
      have "we_txn_id e AND 0xFFFFFFFF \<le> ?m" by auto
      also have "?m \<le> max_counter P es ?m" by (rule mono)
      also have "\<dots> = max_counter P (e' # es) m"
        using True Cons.prems by (simp add: max_counter_def)
      finally show ?thesis .
    next
      case False
      with Cons show ?thesis by (auto simp: max_counter_def)
    qed
  qed simp
qed

text \<open>An id made of a process id and a small counter has these two halves.\<close>

lemma pid_id_parts:
  assumes "unat y < 2 ^ 32"
  shows "drop_bit 32 (push_bit 32 (ucast (p :: u32)) + y :: u64) = ucast p"
    and "(push_bit 32 (ucast p) + y :: u64) AND 0xFFFFFFFF = y"
proof -
  have p: "unat p < 2 ^ 32" using unsigned_less [of p, where ?'a = nat] by simp
  have up: "unat (ucast p :: u64) = unat p"
    using p by (simp add: unsigned_ucast_eq take_bit_nat_eq_self)
  have pb: "unat (push_bit 32 (ucast p) :: u64) = unat p * 2 ^ 32"
    using p by (simp add: push_bit_eq_mult unat_word_ariths up take_bit_eq_mod)
  have x: "unat (push_bit 32 (ucast p) + y :: u64) = unat p * 2 ^ 32 + unat y"
    using p assms by (simp add: unat_word_ariths pb take_bit_eq_mod)
  have "unat (drop_bit 32 (push_bit 32 (ucast p) + y :: u64)) = unat (ucast p :: u64)"
    using assms by (simp add: drop_bit_eq_div unat_div x up)
  then show "drop_bit 32 (push_bit 32 (ucast p) + y :: u64) = ucast p" by (simp only: word_unat_eq_iff)
  have "(push_bit 32 (ucast p) + y :: u64) AND 0xFFFFFFFF = take_bit 32 (push_bit 32 (ucast p) + y)"
    by (simp add: take_bit_eq_mask mask_eq_exp_minus_1)
  moreover have "unat (take_bit 32 (push_bit 32 (ucast p) + y :: u64)) = unat y"
    using assms by (simp add: take_bit_eq_mod unat_mod x)
  ultimately show "(push_bit 32 (ucast p) + y :: u64) AND 0xFFFFFFFF = y" by (simp only: word_unat_eq_iff)
qed

subsection \<open>A concrete platform and log\<close>

definition demo_platform :: platform where
  "demo_platform =
     \<lparr>pf_crc32 = (\<lambda>bs. word_of_nat (sum_list (map unat bs))), pf_pid = 7, pf_clock = (\<lambda>n. word_of_nat n),
      pf_rng = (\<lambda>n. replicate 12 0)\<rparr>"

text \<open>A toy cipher whose tag depends on the associated data.\<close>

definition demo_tag :: "bytes \<Rightarrow> bytes" where
  "demo_tag aad = take 16 (rev aad @ replicate 16 0)"

definition demo_cipher :: aead where
  "demo_cipher =
     \<lparr>aead_encrypt = (\<lambda>n m a. Some (m @ demo_tag a)),
      aead_decrypt = (\<lambda>n c a. if drop (length c - 16) c = demo_tag a then Some (take (length c - 16) c) else None)\<rparr>"

lemma demo_cipher_ok: "aead_ok demo_cipher"
  by (auto simp: aead_ok_def demo_cipher_def demo_tag_def min_def)

lemma demo_platform_ok: "platform_ok demo_platform"
  by (simp add: platform_ok_def demo_platform_def NONCE_SIZE_def)

definition demo_wal :: "EncryptionEngine \<Rightarrow> TxnWal" where
  "demo_wal eng =
     \<lparr>wal_file = [], wal_synced = 0, wal_buf = [], wal_next_txn_id = 1, wal_sequence = 0,
      wal_bytes_since_sync = 0, wal_cached_timestamp_us = 0, wal_encryption = eng, wal_db_uuid = replicate 16 0,
      wal_dek_epoch = 1, wal_records_in_file = 0, wal_tick = 0\<rparr>"

lemma demo_wal_repr: "wal_repr P (demo_wal eng) []"
  by (simp add: wal_repr_def demo_wal_def)

lemma demo_wal_cipher: "cipher_ok (demo_wal (ee_new demo_cipher))"
  by (simp add: cipher_ok_def demo_wal_def ee_new_def demo_cipher_ok)

text \<open>One committed transaction in a plain log, synced.\<close>

definition demo_entries :: "TxnWalEntry list" where
  "demo_entries = [txn_begin 0 1, entry_data 1 1 [1] [2], txn_commit 2 1]"

definition demo_log :: "platform \<Rightarrow> TxnWal" where
  "demo_log P =
     (demo_wal (ee_disabled demo_cipher))\<lparr>wal_file := concat (map (to_bytes P) demo_entries),
       wal_synced := length (concat (map (to_bytes P) demo_entries)), wal_sequence := 3\<rparr>"

lemma demo_entries_fit: "\<forall>e \<in> set demo_entries. frame_fits w e"
  by (simp add: demo_entries_def frame_fits_def entry_len_def txn_begin_def entry_data_def txn_commit_def
      unat_MAX_WAL_FRAME_LEN HEADER_SIZE_def NONCE_SIZE_def)

lemma demo_log_repr: "wal_repr P (demo_log P) demo_entries"
proof -
  have plain: "\<not> ee_is_enabled (wal_encryption (demo_log P))"
    by (simp add: demo_log_def demo_wal_def ee_disabled_def ee_is_enabled_def)
  have "is_log (wal_is_frame P (demo_log P)) 0 demo_entries (wal_file (demo_log P) @ wal_buf (demo_log P))"
    using is_log_plain [OF plain demo_entries_fit, of P 0] by (simp add: demo_log_def demo_wal_def)
  with plain show ?thesis
    unfolding wal_repr_def by (simp add: demo_log_def demo_wal_def demo_entries_def)
qed

lemma demo_log_image: "crash_image (demo_log P) (wal_file (demo_log P))"
  by (auto simp: crash_image_def demo_log_def)

lemma demo_log_flushed: "wal_buf (demo_log P) = []"
  by (simp add: demo_log_def demo_wal_def)

lemma demo_log_length: "length demo_entries = 3"
  by (simp add: demo_entries_def)

lemma demo_log_writes: "committed_writes demo_entries = [([1], [2])]"
  by (simp add: committed_writes_def demo_entries_def open_writes_def is_boundary_def txn_begin_def
      entry_data_def txn_commit_def upt_rec)

subsection \<open>Synced logs and damaged tails\<close>

text \<open>A log with everything on disk replays in full whatever the crash point.\<close>

lemma synced_replay:
  assumes "wal_repr P w es" "wal_buf w = []" "wal_synced w = length (wal_file w)" "crash_image w img"
  shows "\<exists>w' c. wal_reopen P img w tick = Inr w' \<and> replay_for_recovery P w' = Inr (committed_writes es, c)"
proof -
  have "img = wal_file w @ wal_buf w" using assms(2-4) by (auto simp: crash_image_def)
  then obtain n where n: "wal_cut P w es img n" "n = length es"
    using wal_image_cut [OF assms(1,4)] by auto
  then obtain w' where "wal_reopen P img w tick = Inr w'" using wal_reopen_cut by blast
  with n wal_reopen_replay(1) [OF n(1)] show ?thesis by fastforce
qed

lemma wal_tick_state:
  "wal_repr P (fst (cached_timestamp_us P w)) es \<longleftrightarrow> wal_repr P w es"
  "wal_key (fst (cached_timestamp_us P w)) = wal_key w"
  using wal_repr_tick [of P w es] wal_repr_tick [of P "w\<lparr>wal_tick := wal_tick w + 1\<rparr>" es "wal_tick w"]
  by (auto simp: cached_timestamp_us_def)

lemma append_commits_repr:
  assumes "platform_ok P" "cipher_ok w" "wal_repr P w es" "append_commits P ts w = (w', Inr ())"
  shows "\<exists>nows. length nows = length ts \<and> wal_repr P w' (es @ map2 txn_commit nows ts) \<and> wal_key w' = wal_key w"
  using assms
proof (induction ts arbitrary: w es)
  case (Cons t ts)
  let ?w1 = "w\<lparr>wal_tick := wal_tick w + 1\<rparr>" and ?now = "pf_clock P (wal_tick w)"
  have fits: "frame_fits ?w1 (txn_commit ?now t)"
    by (simp add: frame_fits_def entry_len_def txn_commit_def unat_MAX_WAL_FRAME_LEN HEADER_SIZE_def NONCE_SIZE_def)
  have c: "cipher_ok ?w1" using Cons.prems(2) cipher_ok_cong [of ?w1 w] by simp
  note app = wal_append_repr [OF Cons.prems(1) c wal_repr_tick [OF Cons.prems(3)] fits]
  obtain w2 seq where w2: "wal_append P (txn_commit ?now t) ?w1 = (w2, Inr seq)"
    using Cons.prems(4) by (auto simp: cached_timestamp_us_def wal_append_no_flush_def split: prod.splits sum.splits)
  with app have r2: "wal_repr P w2 (es @ [txn_commit ?now t])" and k2: "wal_key w2 = wal_key w" by auto
  have "append_commits P ts w2 = (w', Inr ())"
    using Cons.prems(4) w2 by (simp add: cached_timestamp_us_def wal_append_no_flush_def)
  with Cons.IH [OF Cons.prems(1) _ r2] Cons.prems(2) cipher_ok_cong [OF k2]
  obtain nows where "length nows = length ts" "wal_repr P w' ((es @ [txn_commit ?now t]) @ map2 txn_commit nows ts)"
    "wal_key w' = wal_key w" using k2 by auto
  then show ?case by (intro exI [of _ "?now # nows"]) simp
qed auto

lemma commit_durable_batch_repr:
  assumes "platform_ok P" "cipher_ok w" "wal_repr P w es" "wal_commit_durable_batch P ts w = (w', Inr ())"
  shows "\<exists>nows. length nows = length ts \<and> wal_repr P w' (es @ map2 txn_commit nows ts) \<and> wal_buf w' = [] \<and>
    wal_synced w' = length (wal_file w') \<and> wal_key w' = wal_key w"
proof -
  obtain w1 where w1: "append_commits P ts w = (w1, Inr ())" and w': "w' = fst (wal_sync (bw_flush w1))"
    using assms(4) by (auto simp: wal_commit_durable_batch_def wal_flush_def wal_sync_def Let_def split: prod.splits sum.splits)
  obtain nows where nows: "length nows = length ts" "wal_repr P w1 (es @ map2 txn_commit nows ts)" "wal_key w1 = wal_key w"
    using append_commits_repr [OF assms(1-3) w1] by blast
  with wal_sync_repr [OF wal_repr_flush [OF nows(2)]] show ?thesis
    by (intro exI [of _ nows]) (auto simp: w' bw_flush_def wal_key_def)
qed

text \<open>On a plain log the loop stops at the first record that does not read, whatever the error.\<close>

lemma plain_replay_stops:
  assumes "\<not> ee_is_enabled (wal_encryption w)" "is_log (wal_is_frame P w) 0 es bs" "wal_file w = bs @ tail"
    and "read_record P w tail (word_of_nat (length es)) = Inl f"
  shows "\<exists>c. replay_for_recovery P w = Inr (committed_writes es, c)"
proof -
  have stop: "wal_loop P w replay_body id tail (word_of_nat (length es)) s = Inr s" for s
    using assms(1,4) by (subst wal_loop.simps) simp
  show ?thesis
    using replay_fold [of es]
    by (simp add: replay_for_recovery_def assms(3) wal_loop_log [OF assms(2)] run_replay stop)
qed

lemma run_entries_continue:
  assumes "\<And>e ord s. \<exists>s'. body e ord s = Continue s'"
  shows "\<exists>s'. run_entries body ord es s = Continue s'"
proof (induction es arbitrary: ord s)
  case (Cons e es)
  obtain s' where "body e (ord + 1) s = Continue s'" using assms by blast
  with Cons.IH show ?case by simp
qed simp

text \<open>On an encrypted log a frame that fails to authenticate ends every loop with its error.\<close>

lemma encrypted_loop_fails:
  assumes "ee_is_enabled (wal_encryption w)" "is_log (wal_is_frame P w) 0 es bs"
    and "wal_file w = bs @ u32_le (word_of_nat (length env)) @ env @ later" "length env \<le> unat MAX_WAL_FRAME_LEN"
    and "decrypt_with_aad (wal_encryption w) env (record_aad w (word_of_nat (length es))) = Inl err"
    and key: "wal_key w' = wal_key w" and run: "\<exists>s'. run_entries body 0 es s = Continue s'"
  shows "wal_loop P w' body torn (wal_file w) 0 s = Inl (Err (enc_error err))"
proof -
  have len: "unat (word_of_nat (length env) :: u32) = length env"
    using assms(4) by (simp add: unat_MAX_WAL_FRAME_LEN unat_of_nat_u32)
  have "\<not> MAX_WAL_FRAME_LEN < (word_of_nat (length env) :: u32)" using assms(4) len by (simp add: word_less_nat_alt)
  then have read: "read_record P w (u32_le (word_of_nat (length env)) @ env @ later) (word_of_nat (length es)) =
      Inl (Err (enc_error err))"
    using assms(1,5) by (simp add: read_record_def len read_exact_def)
  obtain s' where s': "run_entries body 0 es s = Continue s'" using run by blast
  have w': "is_log (wal_is_frame P w') 0 es bs" "ee_is_enabled (wal_encryption w')"
    using assms(1,2) key wal_is_frame_cong [OF key, of P] by (auto simp: wal_key_def)
  have "wal_loop P w' body torn (u32_le (word_of_nat (length env)) @ env @ later) (word_of_nat (length es)) s'
      = Inl (Err (enc_error err))"
    using read read_record_cong [OF key, of P] w'(2) by (subst wal_loop.simps) (simp add: enc_error_def)
  then show ?thesis unfolding assms(3) wal_loop_log [OF w'(1)] by (simp add: s')
qed

definition plain_log :: "platform \<Rightarrow> TxnWalEntry list \<Rightarrow> TxnWal" where
  "plain_log P es = (demo_wal (ee_disabled demo_cipher))\<lparr>wal_file := concat (map (to_bytes P) es)\<rparr>"

lemma plain_log_cut:
  assumes "\<forall>e \<in> set es. frame_fits (plain_log P es) e"
  shows "wal_cut P (plain_log P es) es (wal_file (plain_log P es)) (length es)"
proof -
  have "\<not> ee_is_enabled (wal_encryption (plain_log P es))"
    by (simp add: plain_log_def demo_wal_def ee_disabled_def ee_is_enabled_def)
  from is_log_plain [OF this assms] have "is_log (wal_is_frame P (plain_log P es)) 0 es (wal_file (plain_log P es))"
    by (simp add: plain_log_def)
  from wal_cut_exists [OF this prefix_order.refl] show ?thesis by auto
qed

subsection \<open>Properties of the log\<close>

text \<open>
  Every record within the frame limit survives serialisation: the reader returns it and leaves
  exactly the bytes that follow, for any checksum function; cut anywhere, it reads as the end of the
  file.
\<close>

lemma wal_record_round_trip:
  assumes "entry_fits e"
  shows "from_reader P (to_bytes P e @ rest) = Inr (e, rest) \<and>
    (\<forall>n < length (to_bytes P e). from_reader P (take n (to_bytes P e)) = Inl (Err (Io UnexpectedEof)))"
proof -
  have "strict_prefix (take n (to_bytes P e)) (to_bytes P e)" if "n < length (to_bytes P e)" for n
    using that take_is_prefix [of n "to_bytes P e"] by (auto simp: strict_prefix_def dest: arg_cong [where f = length])
  then show ?thesis using from_reader_to_bytes [OF assms] from_reader_torn [OF assms] by blast
qed

text \<open>
  C19: Crash recovery, plain or encrypted.  Whatever prefix of the file a crash leaves, the log reopens
  under its key, and replay returns exactly the writes of the transactions committed in a prefix of
  the entries written.  That prefix contains every entry whose frame the last sync covered, and is the
  whole log if everything was synced.
\<close>

theorem crash_recovery_is_committed_prefix:
  assumes "wal_repr P w es" "crash_image w img"
  shows "\<exists>n w' c. n \<le> length es \<and> wal_reopen P img w tick = Inr w' \<and> wal_sequence w' = word_of_nat n \<and>
    replay_for_recovery P w' = Inr (committed_writes (take n es), c) \<and>
    (\<forall>es0 b0. is_log (wal_is_frame P w) 0 es0 b0 \<and> prefix b0 (take (wal_synced w) (wal_file w)) \<longrightarrow> length es0 \<le> n) \<and>
    (wal_buf w = [] \<and> wal_synced w = length (wal_file w) \<longrightarrow> n = length es)"
proof -
  obtain n where n: "wal_cut P w es img n" "img = wal_file w @ wal_buf w \<longrightarrow> n = length es"
    "\<forall>es0 b0. is_log (wal_is_frame P w) 0 es0 b0 \<and> prefix b0 (take (wal_synced w) (wal_file w)) \<longrightarrow> length es0 \<le> n"
    using wal_image_cut [OF assms] by blast
  obtain w' where w': "wal_reopen P img w tick = Inr w'" using wal_reopen_cut [OF n(1)] by blast
  obtain c where "replay_for_recovery P w' = Inr (committed_writes (take n es), c)"
    using wal_reopen_replay(1) [OF n(1) w'] by blast
  moreover have "n = length es" if "wal_buf w = []" "wal_synced w = length (wal_file w)"
    using n(2) that assms(2) by (auto simp: crash_image_def)
  ultimately show ?thesis
    using n w' wal_reopen_replay(2) [OF n(1) w'] by (intro exI [of _ n] exI [of _ w'] exI [of _ c]) (auto simp: wal_cut_def)
qed

theorem crash_recovery_is_committed_prefix_witness:
  "\<exists>w' c. wal_reopen demo_platform (wal_file (demo_log demo_platform)) (demo_log demo_platform) 9 = Inr w' \<and>
     replay_for_recovery demo_platform w' = Inr ([([1], [2])], c)"
  using crash_recovery_is_committed_prefix [OF demo_log_repr demo_log_image, of demo_platform 9]
  by (auto simp: demo_log_writes) (auto simp: demo_log_def demo_wal_def demo_log_writes)

text \<open>
  A group commit that returns success is durable: after it, for every crash point, recovery returns
  the writes of all transactions committed before and of every transaction of the batch whose data is
  in the log.  (A single \<^verbatim>\<open>commit_transaction\<close> writes the same records as a batch of one.)
\<close>

lemma durable_batch_survives_crash:
  assumes "platform_ok P" "cipher_ok w" "wal_repr P w es"
    and "wal_commit_durable_batch P ts w = (w', Inr ())" "crash_image w' img"
  shows "\<exists>nows w'' c. length nows = length ts \<and> wal_reopen P img w' tick = Inr w'' \<and>
    replay_for_recovery P w'' = Inr (committed_writes (es @ map2 txn_commit nows ts), c)"
proof -
  obtain nows where "length nows = length ts" "wal_repr P w' (es @ map2 txn_commit nows ts)" "wal_buf w' = []"
    "wal_synced w' = length (wal_file w')"
    using commit_durable_batch_repr [OF assms(1-4)] by blast
  with synced_replay [OF _ _ _ assms(5), of P "es @ map2 txn_commit nows ts" tick] show ?thesis by blast
qed

text \<open>
  Point-in-time recovery is replay of a prefix of the log.  A target LSN \<open>l\<close> replays the first \<open>l\<close>
  entries; a target time \<open>t\<close> replays the entries before the first commit record stamped after \<open>t\<close>.  In
  both cases a transaction is applied whole or not at all.
\<close>

lemma point_in_time_is_prefix_replay:
  assumes "wal_repr P w es" "wal_buf w = []" "length es < 2 ^ 64"
  shows "(\<exists>c. replay_to_target P w (Lsn l) = Inr (committed_writes (take (unat l) es), c)) \<and>
    (\<exists>c. replay_to_target P w (Timestamp t) = Inr (committed_writes (takeWhile (\<lambda>e. \<not> commits_after t e) es), c))"
proof -
  obtain n where "wal_cut P w es (wal_file w) n" "n = length es"
    using assms(1,2) wal_cut_exists [of P w es "wal_file w" "wal_file w"] by (auto simp: wal_repr_def)
  with replay_to_target_cut(1) [of P w es n l] replay_to_target_cut(2) [of P w es n t] assms(3) show ?thesis by auto
qed

text \<open>
  After a restart the ids that the log hands out differ from the id of every record in the file, for
  as long as the 32-bit counter below the process id does not overflow.
\<close>

lemma restart_ids_fresh:
  assumes "wal_repr P w es" "crash_image w img" "wal_reopen P img w tick = Inr w'"
    and "unat (wal_next_txn_id w' - push_bit 32 (ucast (pf_pid P))) + k < 2 ^ 32"
  shows "\<exists>n \<le> length es. wal_sequence w' = word_of_nat n \<and>
    (\<forall>e \<in> set (take n es). we_txn_id e \<noteq> wal_next_txn_id w' + word_of_nat k)"
proof -
  obtain n where n: "wal_cut P w es img n" using wal_image_cut [OF assms(1,2)] by blast
  let ?m = "max_counter P (take n es) 0"
  have nid: "wal_next_txn_id w' = push_bit 32 (ucast (pf_pid P)) + ?m + 1"
    using wal_reopen_cut [OF n, of tick] assms(3) by auto
  define y where "y = ?m + 1 + word_of_nat k"
  have bound: "unat (?m + 1) + k < 2 ^ 32" using assms(4) by (simp add: nid)
  have k: "unat (word_of_nat k :: u64) = k" using bound by (intro unat_of_nat_u64) simp
  have y: "unat y = unat (?m + 1) + k"
    using bound k by (simp add: y_def unat_word_ariths)
  have "we_txn_id e \<noteq> wal_next_txn_id w' + word_of_nat k" if e: "e \<in> set (take n es)" for e
  proof
    assume "we_txn_id e = wal_next_txn_id w' + word_of_nat k"
    then have id: "we_txn_id e = push_bit 32 (ucast (pf_pid P)) + y" by (simp add: nid y_def)
    have parts: "drop_bit 32 (we_txn_id e) = ucast (pf_pid P)" "we_txn_id e AND 0xFFFFFFFF = y"
      unfolding id using pid_id_parts [of y "pf_pid P"] y bound by auto
    have "y \<le> ?m" using max_counter_bounds(2) [OF e parts(1), of 0] parts(2) by simp
    moreover have "unat (?m + 1) = unat ?m + 1" using max_counter_32 [of 0 P "take n es"] by (simp add: unat_word_ariths)
    ultimately show False using y by (simp add: word_le_nat_alt)
  qed
  with n wal_reopen_replay(2) [OF n assms(3)] show ?thesis by (auto simp: wal_cut_def)
qed

text \<open>
  A torn record is not removed when the log is reopened, so what is appended after it can be hidden:
  on a plain log that continues after a cut record with fewer bytes than the cut record still claims,
  replay returns only the transactions before the cut.  Committed and synced transactions after it are
  not recovered.
\<close>

lemma torn_tail_hides_later_commits:
  assumes "\<not> ee_is_enabled (wal_encryption w)" "is_log (wal_is_frame P w) 0 es bs"
    and "entry_fits e" "prefix torn (to_bytes P e)" "4 \<le> length torn" "length torn + length later < 4 + entry_len e"
    and "wal_file w = bs @ torn @ later"
  shows "\<exists>c. replay_for_recovery P w = Inr (committed_writes es, c)"
proof (rule plain_replay_stops [OF assms(1,2)])
  show "wal_file w = bs @ (torn @ later)" using assms(7) .
  have len: "unat (word_of_nat (entry_len e) :: u32) = entry_len e"
    using assms(3) by (simp add: entry_fits_def unat_MAX_WAL_FRAME_LEN unat_of_nat_u32)
  have fits: "\<not> (word_of_nat (entry_len e) :: u32) < 29" "\<not> MAX_WAL_FRAME_LEN < (word_of_nat (entry_len e) :: u32)"
    using assms(3) len by (simp_all add: word_less_nat_alt entry_fits_def entry_len_def)
  have "take 4 torn = u32_le (word_of_nat (entry_len e))"
    using assms(4,5) by (auto simp: prefix_def to_bytes_eq append_eq_append_conv_if)
  then have torn: "torn @ later = u32_le (word_of_nat (entry_len e)) @ (drop 4 torn @ later)"
    by (metis append.assoc append_take_drop_id)
  have "length (drop 4 torn @ later) < entry_len e" using assms(5,6) by simp
  then show "read_record P w (torn @ later) (word_of_nat (length es)) = Inl (Err (Io UnexpectedEof))"
    unfolding torn using assms(1)
    by (simp add: read_record_def from_reader_def fits RECORD_HEADER_SIZE_def CHECKSUM_SIZE_def len read_exact_def)
qed

text \<open>
  The writer does not check the frame limit of the reader.  On a plain log a record whose body is
  longer than \<^verbatim>\<open>MAX_WAL_FRAME_LEN\<close> and still has a 32-bit length is written in full, and every reader
  stops in front of it: that record and all records after it are never replayed.
\<close>

lemma oversized_record_hides_later_commits:
  assumes "\<not> ee_is_enabled (wal_encryption w)" "is_log (wal_is_frame P w) 0 es bs"
    and "unat MAX_WAL_FRAME_LEN < entry_len e" "entry_len e < 2 ^ 32"
    and "wal_file w = bs @ to_bytes P e @ later"
  shows "\<exists>c. replay_for_recovery P w = Inr (committed_writes es, c)"
proof (rule plain_replay_stops [OF assms(1,2)])
  show "wal_file w = bs @ (to_bytes P e @ later)" using assms(5) .
  have len: "unat (word_of_nat (entry_len e) :: u32) = entry_len e"
    using assms(4) by (simp add: unat_of_nat take_bit_nat_eq_self_iff)
  then have "MAX_WAL_FRAME_LEN < (word_of_nat (entry_len e) :: u32)" using assms(3) by (simp add: word_less_nat_alt)
  then show "read_record P w (to_bytes P e @ later) (word_of_nat (length es)) =
      Inl (Err (Corruption (''WAL entry length '' @ show_nat (entry_len e) @ '' exceeds maximum ''
        @ show_nat (unat MAX_WAL_FRAME_LEN))))"
    using assms(1) by (simp add: read_record_def from_reader_def to_bytes_eq RECORD_HEADER_SIZE_def CHECKSUM_SIZE_def
        word_less_nat_alt len) (simp add: entry_len_def)
qed

text \<open>
  An encrypted log fails loudly.  When the first frame after a readable prefix does not authenticate
  under the associated data of its position (a flipped bit, a frame moved or copied from elsewhere),
  replay, recovery with statistics and reopening all return that error instead of a shorter history.
\<close>

lemma encrypted_log_fails_loud:
  assumes "ee_is_enabled (wal_encryption w)" "is_log (wal_is_frame P w) 0 es bs"
    and "wal_file w = bs @ u32_le (word_of_nat (length env)) @ env @ later" "length env \<le> unat MAX_WAL_FRAME_LEN"
    and "decrypt_with_aad (wal_encryption w) env (record_aad w (word_of_nat (length es))) = Inl err"
  shows "replay_for_recovery P w = Inl (Err (enc_error err)) \<and>
    crash_recovery P w elapsed = Inl (Err (enc_error err)) \<and>
    wal_reopen P (wal_file w) w tick = Inl (Err (enc_error err))"
proof -
  note stop = encrypted_loop_fails [OF assms]
  have "\<exists>s'. run_entries crash_body ord es s = Continue s'" for ord s
    by (rule run_entries_continue) (simp add: crash_body_def Let_def)
  then show ?thesis
    using stop [OF refl, where body = replay_body and torn = id] stop [OF refl, where body = crash_body and torn = crash_torn]
      stop [OF wal_key_fresh [of P "wal_file w" w tick], where body = "recover_body P" and torn = id and s = "(0, 0)"]
    by (simp add: replay_for_recovery_def run_replay crash_recovery_def wal_reopen_def new_with_encryption_def
        recover_state_def wal_fresh_def [symmetric] run_recover) (simp add: wal_fresh_def)
qed

text \<open>
  Recovery with statistics disagrees with replay on logs without begin records, which a truncation in
  the middle of a transaction leaves behind.  Replay returns the committed write and recovery with
  statistics drops it; and an abort without its begin makes the count of rolled back transactions wrap
  around to \<open>2 ^ 64 - 1\<close>.
\<close>

lemma crash_recovery_needs_begin_records:
  shows "(\<exists>c. replay_for_recovery P (plain_log P [entry_data 0 1 [1] [2], txn_commit 0 1]) = Inr ([([1], [2])], c)) \<and>
    (\<exists>st. crash_recovery P (plain_log P [entry_data 0 1 [1] [2], txn_commit 0 1]) elapsed = Inr ([], st)) \<and>
    (\<exists>ws st. crash_recovery P (plain_log P [txn_abort 0 1]) elapsed = Inr (ws, st) \<and> crs_rolled_back_txns st = - 1)"
proof -
  have fits: "frame_fits w (entry_data 0 1 [1] [2])" "frame_fits w (txn_commit 0 1)" "frame_fits w (txn_abort 0 1)" for w
    by (simp_all add: frame_fits_def entry_len_def entry_data_def txn_commit_def txn_abort_def
        unat_MAX_WAL_FRAME_LEN HEADER_SIZE_def NONCE_SIZE_def)
  have "committed_writes [entry_data 0 1 [1] [2], txn_commit 0 1] = [([1], [2])]"
    by (simp add: committed_writes_def open_writes_def is_boundary_def entry_data_def txn_commit_def upt_rec)
  then have "\<exists>c. replay_for_recovery P (plain_log P [entry_data 0 1 [1] [2], txn_commit 0 1]) = Inr ([([1], [2])], c)"
    using replay_cut [OF plain_log_cut, of "[entry_data 0 1 [1] [2], txn_commit 0 1]" P] fits by simp
  then show ?thesis
    using fits
    by (simp add: crash_recovery_def wal_loop_cut [OF plain_log_cut] flow_result_def crash_body_def crash_collect_def
        dm_alter_def entry_data_def txn_commit_def txn_abort_def Let_def)
qed

end
