(* ===== verification/Durable_Storage.thy ===== *)
theory Durable_Storage
  imports Mvcc_Manager Arena_Table Wal_Properties
begin

text \<open>
  \<^verbatim>\<open>DurableStorage\<close> of \<^verbatim>\<open>sochdb-storage/src/durable_storage.rs\<close>: the storage engine that composes the
  write-ahead log, the MVCC manager and the memtable; with the manifest of
  \<^verbatim>\<open>sochdb-storage/src/wal_manifest.rs\<close> and the rendering of errors of \<^verbatim>\<open>sochdb-core/src/error.rs\<close>.
  Every method is one atomic step on the whole state.  The result of the keyring and of the directory
  lock, the clocks and the floating-point square root are parameters.
\<close>

subsection \<open>Rendering of errors\<close>

definition io_display :: "io_error \<Rightarrow> string" where
  "io_display e = (case e of UnexpectedEof \<Rightarrow> ''failed to fill whole buffer'' | OtherIo m \<Rightarrow> m)"

definition sochdb_display :: "SochDBError \<Rightarrow> string" where
  "sochdb_display err =
     (case err of
        Io e \<Rightarrow> ''IO error: '' @ io_display e
      | Serialization m \<Rightarrow> ''Serialization error: '' @ m
      | DataCorruption details location hint \<Rightarrow>
          ''Data corruption detected: '' @ details @ ''. Location: '' @ location @ ''. Recommendation: '' @ hint
      | Corruption m \<Rightarrow> ''Corruption detected: '' @ m
      | NotFound m \<Rightarrow> ''Key not found: '' @ m
      | InvalidArgument m \<Rightarrow> ''Invalid argument: '' @ m
      | InvalidTimestampDetailed field value reason lo hi \<Rightarrow>
          ''Invalid timestamp in '' @ field @ '': '' @ show_nat (unat value) @ '' is '' @ reason @ ''. Valid range: ''
          @ show_nat (unat lo) @ '' to '' @ show_nat (unat hi)
      | InvalidTimestamp m \<Rightarrow> ''Invalid timestamp: '' @ m
      | ResourceExhausted m \<Rightarrow> ''Resource exhausted: '' @ m
      | Internal m \<Rightarrow> ''Internal error: '' @ m
      | Compaction m \<Rightarrow> ''Compaction error: '' @ m
      | Index m \<Rightarrow> ''Index error: '' @ m
      | Backup m \<Rightarrow> ''Backup error: '' @ m
      | Validation m \<Rightarrow> ''Validation error: '' @ m
      | InvalidData m \<Rightarrow> ''Invalid data: '' @ m
      | InvalidReference m \<Rightarrow> ''Invalid reference: '' @ m
      | CircuitOpen m \<Rightarrow> ''Circuit breaker open: '' @ m
      | WriteStall m \<Rightarrow> ''Write stall timeout: '' @ m
      | SchemaEvolution m \<Rightarrow> ''Schema evolution error: '' @ m
      | LockError m \<Rightarrow> ''Lock error: '' @ m
      | DatabaseLocked \<Rightarrow> ''Database is locked by another process''
      | EpochMismatch expected actual \<Rightarrow>
          ''WAL epoch mismatch: expected '' @ show_nat (unat expected) @ '', got '' @ show_nat (unat actual)
      | SplitBrain m \<Rightarrow> ''Split-brain detected in WAL: '' @ m
      | SochDBError.Encryption m \<Rightarrow> ''Encryption error: '' @ m)"

text \<open>\<^verbatim>\<open>map_err(|e| e.to_string())\<close> in the flush closure, then \<^verbatim>\<open>map_err(SochDBError::Internal)\<close>.\<close>

definition as_internal :: "'a result \<Rightarrow> 'a result" where
  "as_internal r = (case r of Inl (Err e) \<Rightarrow> Inl (Err (Internal (sochdb_display e))) | x \<Rightarrow> x)"

subsection \<open>The manifest\<close>

text \<open>The file is written atomically and holds one serialised record.\<close>

record WalManifest =
  wm_format_version :: u32
  wm_db_uuid :: string
  wm_last_checkpoint_lsn :: u64

definition WAL_MANIFEST_FORMAT_VERSION :: u32 where
  "WAL_MANIFEST_FORMAT_VERSION = 1"

definition wm_new :: "string \<Rightarrow> u64 \<Rightarrow> WalManifest" where
  "wm_new random_uuid last_checkpoint_lsn =
     \<lparr>wm_format_version = WAL_MANIFEST_FORMAT_VERSION, wm_db_uuid = random_uuid,
      wm_last_checkpoint_lsn = last_checkpoint_lsn\<rparr>"

definition wm_exists :: "WalManifest option \<Rightarrow> bool" where
  "wm_exists f \<longleftrightarrow> f \<noteq> None"

definition wm_load :: "WalManifest option \<Rightarrow> WalManifest result" where
  "wm_load f =
     (case f of
        None \<Rightarrow> Inl (Err (Io (OtherIo ''No such file or directory'')))
      | Some m \<Rightarrow>
          (if wm_format_version m \<noteq> WAL_MANIFEST_FORMAT_VERSION
           then Inl (Err (Corruption (''unsupported wal.manifest version '' @ show_nat (unat (wm_format_version m))
                  @ '' (expected '' @ show_nat (unat WAL_MANIFEST_FORMAT_VERSION) @ '')'')))
           else Inr m))"

subsection \<open>The engine\<close>

record ds_env =
  de_platform :: platform
  de_hashers :: hashers
  de_n_opt :: "u64 \<Rightarrow> u64 \<Rightarrow> u64"
  de_elapsed :: "nat \<Rightarrow> u64"
  de_uuid :: "nat \<Rightarrow> string"

record DurableStorage =
  ds_wal :: TxnWal
  ds_mvcc :: MvccManager
  ds_memtable :: MemTableKind
  ds_txn_write_buffers :: "(u64, TxnWalBuffer) dashmap"
  ds_group_commit :: bool
  ds_needs_recovery :: u64
  ds_last_checkpoint_lsn :: u64
  ds_sync_mode :: u64
  ds_commits_since_sync :: u64
  ds_arrival_rate_ema :: u64
  ds_last_commit_us :: u64
  ds_fsync_latency_us :: u64
  ds_at_rest_encrypted :: bool
  ds_pitr_enabled :: bool
  ds_manifest_file :: "WalManifest option"
  ds_clean_shutdown_file :: bool

text \<open>What the keyring resolves: whether the database is encrypted, the engine, its uuid and key epoch.\<close>

record enc_state =
  es_is_encrypted :: bool
  es_engine :: EncryptionEngine
  es_db_uuid :: bytes
  es_key_epoch :: u32

text \<open>The files of the database directory.\<close>

record ds_disk =
  dk_wal_log :: bytes
  dk_manifest :: "WalManifest option"
  dk_clean_shutdown :: bool

definition ds_check_recovery_needed :: "DurableStorage \<Rightarrow> DurableStorage \<times> bool" where
  "ds_check_recovery_needed s =
     (if ds_clean_shutdown_file s then s\<lparr>ds_clean_shutdown_file := False\<rparr> else s, True)"

definition ds_open ::
    "ds_env \<Rightarrow> bool \<Rightarrow> MemTableType \<Rightarrow> unit result \<Rightarrow> enc_state result \<Rightarrow> ds_disk \<Rightarrow> nat \<Rightarrow> DurableStorage result" where
  "ds_open E enable_ordered_index memtable_type lock keyring disk tick =
     try_bind lock (\<lambda>_.
     try_bind keyring (\<lambda>es.
     try_bind (new_with_encryption (de_platform E) (dk_wal_log disk) (es_engine es) (es_db_uuid es) (es_key_epoch es) tick) (\<lambda>wal.
     try_bind (if wm_exists (dk_manifest disk)
               then try_bind (wm_load (dk_manifest disk)) (\<lambda>m. Inr (True, wm_last_checkpoint_lsn m))
               else Inr (False, 0)) (\<lambda>(pitr_enabled, initial_checkpoint_lsn).
     let storage =
           \<lparr>ds_wal = wal, ds_mvcc = mm_new, ds_memtable = mtk_new memtable_type enable_ordered_index,
            ds_txn_write_buffers = [], ds_group_commit = False, ds_needs_recovery = 0,
            ds_last_checkpoint_lsn = initial_checkpoint_lsn, ds_sync_mode = 1, ds_commits_since_sync = 0,
            ds_arrival_rate_ema = 1000000, ds_last_commit_us = 0, ds_fsync_latency_us = 5000,
            ds_at_rest_encrypted = es_is_encrypted es, ds_pitr_enabled = pitr_enabled,
            ds_manifest_file = dk_manifest disk, ds_clean_shutdown_file = dk_clean_shutdown disk\<rparr>;
         (storage, needed) = ds_check_recovery_needed storage
     in Inr (if needed then storage\<lparr>ds_needs_recovery := 1\<rparr> else storage)))))"

datatype IndexPolicy = WriteOptimized | Balanced | ScanOptimized | AppendOnly

definition policy_config :: "IndexPolicy \<Rightarrow> bool \<times> MemTableType" where
  "policy_config policy =
     (case policy of
        WriteOptimized \<Rightarrow> (False, ArenaType)
      | AppendOnly \<Rightarrow> (False, ArenaType)
      | Balanced \<Rightarrow> (True, StandardType)
      | ScanOptimized \<Rightarrow> (True, StandardType))"

definition ds_open_with_policy ::
    "ds_env \<Rightarrow> IndexPolicy \<Rightarrow> bool \<Rightarrow> unit result \<Rightarrow> enc_state result \<Rightarrow> ds_disk \<Rightarrow> nat \<Rightarrow> DurableStorage result" where
  "ds_open_with_policy E policy group_commit lock keyring disk tick =
     (let (enable_ordered_index, memtable_type) = policy_config policy
      in try_bind (ds_open E enable_ordered_index memtable_type lock keyring disk tick) (\<lambda>storage.
           Inr (if group_commit then storage\<lparr>ds_group_commit := True\<rparr> else storage)))"

subsection \<open>Recovery\<close>

record RecoveryStats =
  rs_transactions_recovered :: nat
  rs_writes_recovered :: nat
  rs_commit_ts :: u64

fun apply_writes :: "u64 \<Rightarrow> (key \<times> val) list \<Rightarrow> MemTableKind \<Rightarrow> MemTableKind \<times> unit result" where
  "apply_writes txn [] m = (m, Inr ())"
| "apply_writes txn ((k, v) # ws) m =
     (case mtk_write k (Some v) txn m of
        (m1, Inl e) \<Rightarrow> (m1, Inl e)
      | (m1, Inr _) \<Rightarrow> apply_writes txn ws m1)"

text \<open>The common tail of the two recoveries: one transaction that writes everything and commits.\<close>

definition ds_apply_recovered :: "(key \<times> val) list \<Rightarrow> nat \<Rightarrow> DurableStorage \<Rightarrow> DurableStorage \<times> RecoveryStats result" where
  "ds_apply_recovered writes txn_count s =
     (let (wal, recovery_txn_id) = wal_alloc_txn_id (ds_wal s);
          (mvcc, commit_ts) = mm_alloc_commit_ts (ds_mvcc s);
          s = s\<lparr>ds_wal := wal, ds_mvcc := mvcc\<rparr>
      in case apply_writes recovery_txn_id writes (ds_memtable s) of
           (m, Inl e) \<Rightarrow> (s\<lparr>ds_memtable := m\<rparr>, Inl e)
         | (m, Inr _) \<Rightarrow>
             (s\<lparr>ds_memtable := mtk_commit recovery_txn_id commit_ts (remdups (map fst writes)) m, ds_needs_recovery := 0\<rparr>,
              Inr \<lparr>rs_transactions_recovered = txn_count, rs_writes_recovered = length writes, rs_commit_ts = commit_ts\<rparr>))"

definition ds_recover :: "ds_env \<Rightarrow> DurableStorage \<Rightarrow> DurableStorage \<times> RecoveryStats result" where
  "ds_recover E s =
     (if ds_needs_recovery s = 0
      then (s, Inr \<lparr>rs_transactions_recovered = 0, rs_writes_recovered = 0, rs_commit_ts = 0\<rparr>)
      else case replay_for_recovery (de_platform E) (ds_wal s) of
             Inl e \<Rightarrow> (s, Inl e)
           | Inr (writes, txn_count) \<Rightarrow> ds_apply_recovered writes txn_count s)"

definition ds_recover_to :: "ds_env \<Rightarrow> RecoveryTarget \<Rightarrow> DurableStorage \<Rightarrow> DurableStorage \<times> RecoveryStats result" where
  "ds_recover_to E target s =
     (if \<not> ds_pitr_enabled s
      then (s, Inl (Err (InvalidArgument (''recover_to requires Point-in-Time Recovery to be enabled ''
             @ ''(the full WAL must be retained); call enable_point_in_time_recovery first''))))
      else if ds_needs_recovery s = 0
      then (s, Inl (Err (InvalidArgument (''recover_to must be the sole recovery on a fresh open, but state ''
             @ ''was already recovered; reopen the database and call recover_to first''))))
      else case wal_flush (ds_wal s) of
             (w1, Inl e) \<Rightarrow> (s\<lparr>ds_wal := w1\<rparr>, Inl e)
           | (w1, Inr _) \<Rightarrow>
               (case wal_sync w1 of
                  (w2, Inl e) \<Rightarrow> (s\<lparr>ds_wal := w2\<rparr>, Inl e)
                | (w2, Inr _) \<Rightarrow>
                    (let s = s\<lparr>ds_wal := w2\<rparr>
                     in case replay_to_target (de_platform E) w2 target of
                          Inl e \<Rightarrow> (s, Inl e)
                        | Inr (writes, txn_count) \<Rightarrow> ds_apply_recovered writes txn_count s)))"

subsection \<open>Transactions\<close>

definition ds_begin_with_mode :: "ds_env \<Rightarrow> TransactionMode \<Rightarrow> DurableStorage \<Rightarrow> DurableStorage \<times> u64 result" where
  "ds_begin_with_mode E mode s =
     (case wal_begin_transaction (de_platform E) (ds_wal s) of
        (w, Inl e) \<Rightarrow> (s\<lparr>ds_wal := w\<rparr>, Inl e)
      | (w, Inr t) \<Rightarrow> (s\<lparr>ds_wal := w, ds_mvcc := fst (mm_begin_with_mode t mode (ds_mvcc s))\<rparr>, Inr t))"

definition ds_begin_transaction :: "ds_env \<Rightarrow> DurableStorage \<Rightarrow> DurableStorage \<times> u64 result" where
  "ds_begin_transaction E s =
     (case wal_begin_transaction (de_platform E) (ds_wal s) of
        (w, Inl e) \<Rightarrow> (s\<lparr>ds_wal := w\<rparr>, Inl e)
      | (w, Inr t) \<Rightarrow> (s\<lparr>ds_wal := w, ds_mvcc := fst (mm_begin t (ds_mvcc s))\<rparr>, Inr t))"

definition ds_begin_read_only_fast :: "DurableStorage \<Rightarrow> DurableStorage \<times> u64" where
  "ds_begin_read_only_fast s =
     (let (w, t) = wal_alloc_txn_id (ds_wal s)
      in (s\<lparr>ds_wal := w, ds_mvcc := fst (mm_begin_read_only t (ds_mvcc s))\<rparr>, t))"

definition ds_abort_read_only_fast :: "u64 \<Rightarrow> DurableStorage \<Rightarrow> DurableStorage" where
  "ds_abort_read_only_fast t s = s\<lparr>ds_mvcc := mm_abort t (ds_mvcc s)\<rparr>"

definition ds_read_latest :: "key \<Rightarrow> DurableStorage \<Rightarrow> val option" where
  "ds_read_latest k s = mtk_read k (mm_ts_counter (ds_mvcc s)) None (ds_memtable s)"

definition ds_scan_latest :: "key \<Rightarrow> DurableStorage \<Rightarrow> DurableStorage \<times> (key \<times> val) list" where
  "ds_scan_latest p s =
     (let (m, rows) = mtk_scan_prefix p (mm_ts_counter (ds_mvcc s)) None (ds_memtable s)
      in (s\<lparr>ds_memtable := m\<rparr>, rows))"

definition txn_not_found :: failure where
  "txn_not_found = Err (Internal ''Transaction not found'')"

definition ds_read :: "ds_env \<Rightarrow> u64 \<Rightarrow> key \<Rightarrow> DurableStorage \<Rightarrow> DurableStorage \<times> val option result" where
  "ds_read E t k s =
     (case mm_get_snapshot_ts t (ds_mvcc s) of
        None \<Rightarrow> (s, Inl txn_not_found)
      | Some snapshot_ts \<Rightarrow>
          (s\<lparr>ds_mvcc := mm_record_read (de_hashers E) t k (ds_mvcc s)\<rparr>,
           Inr (mtk_read k snapshot_ts (Some t) (ds_memtable s))))"

text \<open>\<^verbatim>\<open>entry(txn_id).or_insert_with(|| TxnWalBuffer::new(txn_id)).append(key, value)\<close>.\<close>

definition ds_buffer_append :: "ds_env \<Rightarrow> u64 \<Rightarrow> key \<Rightarrow> val \<Rightarrow> DurableStorage \<Rightarrow> DurableStorage" where
  "ds_buffer_append E t k v s =
     (let b = (case map_of (ds_txn_write_buffers s) t of Some b \<Rightarrow> b | None \<Rightarrow> tb_new t);
          (w, now) = cached_timestamp_us (de_platform E) (ds_wal s)
      in s\<lparr>ds_wal := w,
           ds_txn_write_buffers := dm_insert t (tb_append (de_platform E) now k v b) (ds_txn_write_buffers s)\<rparr>)"

definition ds_record_write :: "ds_env \<Rightarrow> u64 \<Rightarrow> key \<Rightarrow> DurableStorage \<Rightarrow> DurableStorage" where
  "ds_record_write E t k s = s\<lparr>ds_mvcc := mm_record_write (de_hashers E) t k (ds_mvcc s)\<rparr>"

definition ds_write_refs :: "ds_env \<Rightarrow> u64 \<Rightarrow> key \<Rightarrow> val \<Rightarrow> DurableStorage \<Rightarrow> DurableStorage \<times> unit result" where
  "ds_write_refs E t k v s =
     (let s = ds_buffer_append E t k v (ds_record_write E t k s);
          (m, r) = mtk_write k (Some v) t (ds_memtable s)
      in (s\<lparr>ds_memtable := m\<rparr>, r))"

definition ds_write :: "ds_env \<Rightarrow> u64 \<Rightarrow> key \<Rightarrow> val \<Rightarrow> DurableStorage \<Rightarrow> DurableStorage \<times> unit result" where
  "ds_write E t k v s = ds_write_refs E t k v s"

definition ds_delete :: "ds_env \<Rightarrow> u64 \<Rightarrow> key \<Rightarrow> DurableStorage \<Rightarrow> DurableStorage \<times> unit result" where
  "ds_delete E t k s =
     (let s = ds_buffer_append E t k [] (ds_record_write E t k s);
          (m, r) = mtk_write k None t (ds_memtable s)
      in (s\<lparr>ds_memtable := m\<rparr>, r))"

definition ds_write_batch_refs :: "ds_env \<Rightarrow> u64 \<Rightarrow> (key \<times> val) list \<Rightarrow> DurableStorage \<Rightarrow> DurableStorage \<times> unit result" where
  "ds_write_batch_refs E t writes s =
     (if writes = [] then (s, Inr ())
      else let s = fold (\<lambda>(k, v) s. ds_buffer_append E t k v (ds_record_write E t k s)) writes s;
               (m, r) = mtk_write_batch (map (\<lambda>(k, v). (k, Some v)) writes) t (ds_memtable s)
           in (s\<lparr>ds_memtable := m\<rparr>, r))"

subsection \<open>Commit\<close>

definition ds_update_arrival_rate :: "ds_env \<Rightarrow> DurableStorage \<Rightarrow> DurableStorage" where
  "ds_update_arrival_rate E s =
     (let (w, now_us) = cached_timestamp_us (de_platform E) (ds_wal s);
          last = ds_last_commit_us s;
          s = s\<lparr>ds_wal := w, ds_last_commit_us := now_us\<rparr>
      in if last > 0
         then let delta_us = (if now_us \<ge> last then now_us - last else 0)
              in if delta_us > 0 \<and> delta_us < 10000000
                 then let instant_rate = 1000000000 div delta_us
                      in s\<lparr>ds_arrival_rate_ema := (ds_arrival_rate_ema s * 9 + instant_rate) div 10\<rparr>
                 else s
         else s)"

text \<open>\<open>de_n_opt\<close> is the truncated square root \<open>\<surd>(2 \<tau> \<lambda>)\<close> in floating point.\<close>

definition ds_adaptive_batch_threshold :: "ds_env \<Rightarrow> DurableStorage \<Rightarrow> u64" where
  "ds_adaptive_batch_threshold E s =
     (if ds_arrival_rate_ema s = 0 \<or> ds_fsync_latency_us s = 0 then 100
      else max 1 (min 1000 (de_n_opt E (ds_arrival_rate_ema s) (ds_fsync_latency_us s))))"

text \<open>The flush closure of group commit on the batch of this transaction alone.\<close>

definition ds_group_submit :: "ds_env \<Rightarrow> u64 \<Rightarrow> DurableStorage \<Rightarrow> DurableStorage \<times> unit result" where
  "ds_group_submit E t s =
     (let (w, r) = wal_commit_durable_batch (de_platform E) [t] (ds_wal s)
      in (s\<lparr>ds_wal := w\<rparr>, as_internal r))"

definition ds_should_sync :: "ds_env \<Rightarrow> u64 \<Rightarrow> u64 \<Rightarrow> DurableStorage \<Rightarrow> bool" where
  "ds_should_sync E sync_mode commits s =
     (if sync_mode = 0 then False
      else if sync_mode = 1 then commits \<ge> ds_adaptive_batch_threshold E s
      else True)"

definition ds_direct_commit :: "ds_env \<Rightarrow> u64 \<Rightarrow> DurableStorage \<Rightarrow> DurableStorage \<times> unit result" where
  "ds_direct_commit E t s =
     (let sync_mode = ds_sync_mode s;
          commits = ds_commits_since_sync s;
          s = ds_update_arrival_rate E (s\<lparr>ds_commits_since_sync := commits + 1\<rparr>);
          (w, now) = cached_timestamp_us (de_platform E) (ds_wal s)
      in case wal_append_no_flush (de_platform E) (txn_commit now t) w of
           (w1, Inl e) \<Rightarrow> (s\<lparr>ds_wal := w1\<rparr>, Inl e)
         | (w1, Inr _) \<Rightarrow>
             (let s = s\<lparr>ds_wal := w1\<rparr>
              in if ds_should_sync E sync_mode commits s
                 then (case wal_flush w1 of
                         (w2, Inl e) \<Rightarrow> (s\<lparr>ds_wal := w2\<rparr>, Inl e)
                       | (w2, Inr _) \<Rightarrow>
                           (case wal_sync w2 of
                              (w3, Inl e) \<Rightarrow> (s\<lparr>ds_wal := w3\<rparr>, Inl e)
                            | (w3, Inr _) \<Rightarrow>
                                (s\<lparr>ds_wal := w3,
                                   ds_fsync_latency_us := (ds_fsync_latency_us s * 9 + de_elapsed E (wal_tick w3)) div 10,
                                   ds_commits_since_sync := 0\<rparr>, Inr ())))
                 else (s, Inr ())))"

definition ds_log_commit :: "ds_env \<Rightarrow> u64 \<Rightarrow> DurableStorage \<Rightarrow> DurableStorage \<times> unit result" where
  "ds_log_commit E t s = (if ds_group_commit s then ds_group_submit E t s else ds_direct_commit E t s)"

definition commit_refused :: failure where
  "commit_refused = Err (Validation (''transaction aborted: SSI validation failed (serialization conflict) ''
     @ ''or transaction not found''))"

definition ds_flush_data :: "ds_env \<Rightarrow> u64 \<Rightarrow> DurableStorage \<Rightarrow> DurableStorage \<times> unit result" where
  "ds_flush_data E t s =
     (case map_of (ds_txn_write_buffers s) t of
        None \<Rightarrow> (s, Inr ())
      | Some b \<Rightarrow>
          (let s = s\<lparr>ds_txn_write_buffers := dm_remove t (ds_txn_write_buffers s)\<rparr>
           in if tb_is_empty b then (s, Inr ())
              else case wal_flush_buffer (de_platform E) b (ds_wal s) of
                     (w, Inl e) \<Rightarrow> (s\<lparr>ds_wal := w\<rparr>, Inl e)
                   | (w, Inr _) \<Rightarrow> (s\<lparr>ds_wal := w\<rparr>, Inr ())))"

definition ds_commit :: "ds_env \<Rightarrow> u64 \<Rightarrow> DurableStorage \<Rightarrow> DurableStorage \<times> u64 result" where
  "ds_commit E t s =
     (case ds_flush_data E t s of
        (s1, Inl e) \<Rightarrow> (s1, Inl e)
      | (s1, Inr _) \<Rightarrow>
          (case mm_commit (de_hashers E) t (ds_mvcc s1) of
             (mvcc, None) \<Rightarrow> (s1\<lparr>ds_mvcc := mvcc\<rparr>, Inl commit_refused)
           | (mvcc, Some (commit_ts, write_set)) \<Rightarrow>
               (case ds_log_commit E t (s1\<lparr>ds_mvcc := mvcc\<rparr>) of
                  (s2, Inl e) \<Rightarrow> (s2, Inl e)
                | (s2, Inr _) \<Rightarrow>
                    (s2\<lparr>ds_memtable := mtk_commit t commit_ts write_set (ds_memtable s2)\<rparr>, Inr commit_ts))))"

definition ds_set_sync_mode :: "u64 \<Rightarrow> DurableStorage \<Rightarrow> DurableStorage" where
  "ds_set_sync_mode mode s = s\<lparr>ds_sync_mode := min mode 2\<rparr>"

definition ds_abort :: "ds_env \<Rightarrow> u64 \<Rightarrow> DurableStorage \<Rightarrow> DurableStorage \<times> unit result" where
  "ds_abort E t s =
     (let had_writes = (map_of (ds_txn_write_buffers s) t \<noteq> None);
          s = s\<lparr>ds_txn_write_buffers := dm_remove t (ds_txn_write_buffers s)\<rparr>
      in if had_writes
         then (case wal_abort_transaction (de_platform E) t (ds_wal s) of
                 (w, Inl e) \<Rightarrow> (s\<lparr>ds_wal := w\<rparr>, Inl e)
               | (w, Inr _) \<Rightarrow>
                   (s\<lparr>ds_wal := w, ds_memtable := mtk_abort t (ds_memtable s), ds_mvcc := mm_abort t (ds_mvcc s)\<rparr>, Inr ()))
         else (s\<lparr>ds_mvcc := mm_abort t (ds_mvcc s)\<rparr>, Inr ()))"

subsection \<open>Scans\<close>

definition ds_scan :: "u64 \<Rightarrow> key \<Rightarrow> DurableStorage \<Rightarrow> DurableStorage \<times> (key \<times> val) list result" where
  "ds_scan t p s =
     (case mm_get_snapshot_ts t (ds_mvcc s) of
        None \<Rightarrow> (s, Inl txn_not_found)
      | Some snapshot_ts \<Rightarrow>
          (let (m, rows) = mtk_scan_prefix p snapshot_ts (Some t) (ds_memtable s)
           in (s\<lparr>ds_memtable := m\<rparr>, Inr rows)))"

definition ds_scan_range :: "u64 \<Rightarrow> key \<Rightarrow> key \<Rightarrow> DurableStorage \<Rightarrow> DurableStorage \<times> (key \<times> val) list result" where
  "ds_scan_range t lo hi s =
     (case mm_get_snapshot_ts t (ds_mvcc s) of
        None \<Rightarrow> (s, Inl txn_not_found)
      | Some snapshot_ts \<Rightarrow>
          (let (m, r) = mtk_scan_range lo hi snapshot_ts (Some t) (ds_memtable s)
           in (s\<lparr>ds_memtable := m\<rparr>, r)))"

definition ds_scan_range_iter :: "u64 \<Rightarrow> key \<Rightarrow> key \<Rightarrow> DurableStorage \<Rightarrow> (DurableStorage \<times> RangeIterator) result" where
  "ds_scan_range_iter t lo hi s =
     (let snapshot_ts = (case mm_get_snapshot_ts t (ds_mvcc s) of Some ts \<Rightarrow> ts | None \<Rightarrow> 0)
      in try_bind (mtk_scan_range_iter lo hi snapshot_ts (Some t) (ds_memtable s)) (\<lambda>(m, it).
           Inr (s\<lparr>ds_memtable := m\<rparr>, it)))"

subsection \<open>Maintenance\<close>

definition ds_flush_wal :: "DurableStorage \<Rightarrow> DurableStorage \<times> unit result" where
  "ds_flush_wal s = (let (w, r) = wal_flush (ds_wal s) in (s\<lparr>ds_wal := w\<rparr>, r))"

definition ds_fsync :: "DurableStorage \<Rightarrow> DurableStorage \<times> unit result" where
  "ds_fsync s = (let (w, r) = wal_sync (ds_wal s) in (s\<lparr>ds_wal := w\<rparr>, r))"

definition ds_persist_pitr_manifest :: "ds_env \<Rightarrow> u64 \<Rightarrow> DurableStorage \<Rightarrow> DurableStorage" where
  "ds_persist_pitr_manifest E lsn s =
     s\<lparr>ds_manifest_file := Some
        (case wm_load (ds_manifest_file s) of
           Inr m \<Rightarrow> m\<lparr>wm_last_checkpoint_lsn := lsn\<rparr>
         | Inl _ \<Rightarrow> wm_new (de_uuid E (wal_tick (ds_wal s))) lsn)\<rparr>"

definition ds_checkpoint :: "ds_env \<Rightarrow> DurableStorage \<Rightarrow> DurableStorage \<times> u64 result" where
  "ds_checkpoint E s =
     (let (w, now) = cached_timestamp_us (de_platform E) (ds_wal s)
      in case wal_append_sync (de_platform E) (entry_checkpoint now 0) w of
           (w1, Inl e) \<Rightarrow> (s\<lparr>ds_wal := w1\<rparr>, Inl e)
         | (w1, Inr lsn) \<Rightarrow>
             (let s = s\<lparr>ds_wal := w1, ds_last_checkpoint_lsn := lsn\<rparr>
              in (if ds_pitr_enabled s then ds_persist_pitr_manifest E lsn s else s, Inr lsn)))"

definition ds_current_lsn :: "DurableStorage \<Rightarrow> u64" where
  "ds_current_lsn s = wal_sequence (ds_wal s)"

definition ds_is_pitr_enabled :: "DurableStorage \<Rightarrow> bool" where
  "ds_is_pitr_enabled s = ds_pitr_enabled s"

definition ds_enable_point_in_time_recovery :: "ds_env \<Rightarrow> DurableStorage \<Rightarrow> DurableStorage \<times> unit result" where
  "ds_enable_point_in_time_recovery E s =
     (if ds_pitr_enabled s then (s, Inr ())
      else let lsn = ds_last_checkpoint_lsn s;
               s = (if wm_exists (ds_manifest_file s) then ds_persist_pitr_manifest E lsn s
                    else s\<lparr>ds_manifest_file := Some (wm_new (de_uuid E (wal_tick (ds_wal s))) lsn)\<rparr>)
           in (s\<lparr>ds_pitr_enabled := True\<rparr>, Inr ()))"

definition ds_truncate_wal :: "DurableStorage \<Rightarrow> DurableStorage \<times> unit result" where
  "ds_truncate_wal s =
     (if ds_pitr_enabled s
      then (s, Inl (Err (InvalidArgument (''truncate_wal is disabled while Point-in-Time Recovery is enabled ''
             @ ''(it would reset the durable LSN); use segment sealing to reclaim space''))))
      else let (w, r) = wal_truncate (ds_wal s) in (s\<lparr>ds_wal := w\<rparr>, r))"

record StorageStats =
  st_memtable_size_bytes :: u64
  st_wal_size_bytes :: u64
  st_active_transactions :: nat
  st_min_active_snapshot :: u64
  st_last_checkpoint_lsn :: u64

definition ds_stats :: "DurableStorage \<Rightarrow> StorageStats" where
  "ds_stats s =
     \<lparr>st_memtable_size_bytes = mtk_size (ds_memtable s), st_wal_size_bytes = wal_size_bytes (ds_wal s),
      st_active_transactions = mm_active_transaction_count (ds_mvcc s),
      st_min_active_snapshot = mm_min_active_snapshot (ds_mvcc s),
      st_last_checkpoint_lsn = ds_last_checkpoint_lsn s\<rparr>"

definition ds_gc :: "DurableStorage \<Rightarrow> DurableStorage \<times> nat" where
  "ds_gc s =
     (let (m, n) = mtk_gc (mm_min_active_snapshot (ds_mvcc s)) (ds_memtable s) in (s\<lparr>ds_memtable := m\<rparr>, n))"

definition ds_shutdown :: "DurableStorage \<Rightarrow> DurableStorage \<times> unit result" where
  "ds_shutdown s =
     (case ds_fsync s of
        (s1, Inl e) \<Rightarrow> (s1, Inl e)
      | (s1, Inr _) \<Rightarrow> (s1\<lparr>ds_clean_shutdown_file := True\<rparr>, Inr ()))"

end
