(* ===== verification/Storage_Isolation.thy ===== *)
theory Storage_Isolation
  imports Durable_Storage
begin

text \<open>
  The engine as a state machine: the operations that clients interleave, the invariant that ties the
  clock of the manager to the versions of the memtable, and isolation: what an active transaction
  reads does not depend on the others.
\<close>

subsection \<open>Versions are older than the clock\<close>

definition chain_below :: "u64 \<Rightarrow> VersionChain \<Rightarrow> bool" where
  "chain_below now c \<longleftrightarrow> (\<forall>v \<in> set (bsc_committed c). ver_commit_ts v < now)"

lemma chain_below_new [simp]: "chain_below now vc_new"
  by (simp add: chain_below_def vc_new_def bsc_new_def)

lemma chain_below_mono: "chain_below now c \<Longrightarrow> now \<le> now' \<Longrightarrow> chain_below now' c"
  by (auto simp: chain_below_def)

lemma chain_below_write [simp]: "chain_below now (vc_add_uncommitted x u c) \<longleftrightarrow> chain_below now c"
  by (simp add: chain_below_def vc_add_uncommitted_fields(1))

lemma chain_below_abort [simp]: "chain_below now (vc_abort u c) \<longleftrightarrow> chain_below now c"
  by (auto simp: chain_below_def vc_abort_def bsc_abort_def split: option.split)

lemma chain_below_gc:
  assumes "vc_wf c" "chain_below now c"
  shows "chain_below now (vc_gc m c)"
proof -
  obtain n where "bsc_committed (vc_gc m c) = take n (bsc_committed c)"
    using ver.gc_committed [of c m] assms(1) by (auto simp: vc_wf_def vc_gc_def)
  with assms(2) set_take_subset [of n "bsc_committed c"] show ?thesis by (auto simp: chain_below_def)
qed

lemma chain_below_commit:
  "vc_wf c \<Longrightarrow> chain_below now c \<Longrightarrow> cts < now \<Longrightarrow> chain_below now (fst (vc_commit u cts c))"
  using ver.commit_eq [of c u cts]
  by (auto simp: chain_below_def vc_wf_def vc_commit_def version_entry_def
      dest: set_takeWhileD set_dropWhileD split: option.splits if_splits)

definition table_below :: "u64 \<Rightarrow> MemTableKind \<Rightarrow> bool" where
  "table_below now m \<longleftrightarrow> (\<forall>k. chain_below now (mtk_chain m k))"

lemma table_below_mono: "table_below now m \<Longrightarrow> now \<le> now' \<Longrightarrow> table_below now' m"
  by (auto simp: table_below_def intro: chain_below_mono)

lemma table_below_write: "mtk_wf m \<Longrightarrow> table_below now m \<Longrightarrow> table_below now (fst (mtk_write k x u m))"
  by (simp add: table_below_def kind.chain_write)

lemma table_below_abort: "mtk_wf m \<Longrightarrow> table_below now m \<Longrightarrow> table_below now (mtk_abort u m)"
  by (simp add: table_below_def kind.chain_abort)

lemma table_below_commit:
  "mtk_wf m \<Longrightarrow> table_below now m \<Longrightarrow> cts < now \<Longrightarrow> table_below now (mtk_commit u cts ws m)"
  by (simp add: table_below_def kind.chain_commit chain_below_commit kind.chain_wf)

lemma table_below_gc: "mtk_wf m \<Longrightarrow> table_below now m \<Longrightarrow> table_below now (fst (mtk_gc ts m))"
  unfolding table_below_def by (metis chain_below_gc kind.chain_gc kind.chain_wf)

lemma table_below_scan: "mtk_wf m \<Longrightarrow> table_below now m \<Longrightarrow> table_below now (fst (mtk_scan_prefix p s cur m))"
  by (simp add: table_below_def kind.chain_scan)

subsection \<open>Batches and range scans of either table\<close>

lemma mmt_write_seq_inv:
  assumes "mmt_wf t"
  shows "mmt_wf (fst (mmt_write_seq ws u t)) \<and>
    bsc_committed (mmt_chain (fst (mmt_write_seq ws u t)) k) = bsc_committed (mmt_chain t k) \<and>
    (cur \<noteq> Some u \<longrightarrow> mmt_read k s cur (fst (mmt_write_seq ws u t)) = mmt_read k s cur t)"
  using assms
proof (induction ws arbitrary: t)
  case (Cons w ws)
  obtain k' x where w: "w = (k', x)" by fastforce
  obtain t' r where r: "mmt_write k' x u t = (t', r)" by fastforce
  have t': "mmt_wf t'" "bsc_committed (mmt_chain t' k) = bsc_committed (mmt_chain t k)"
    "cur \<noteq> Some u \<longrightarrow> mmt_read k s cur t' = mmt_read k s cur t"
    using mmt_wf_write [OF Cons.prems, of k' x u] mmt_chain_write [of k' x u t k]
      std.read_others_write [OF Cons.prems, of cur u k s k' x]
    by (simp_all add: r vc_add_uncommitted_fields(1))
  show ?case using Cons.IH [OF t'(1)] t' by (cases r) (simp_all add: w r)
qed simp

lemma mtk_write_batch_abs:
  assumes "mtk_wf m"
  shows "mmt_data (mtk_abs (fst (mtk_write_batch ws u m))) = mmt_data (fst (mmt_write_seq ws u (mtk_abs m)))"
    and "mtk_wf (fst (mtk_write_batch ws u m))"
proof -
  show "mmt_data (mtk_abs (fst (mtk_write_batch ws u m))) = mmt_data (fst (mmt_write_seq ws u (mtk_abs m)))"
  proof (cases m)
    case (Standard t)
    then show ?thesis by (simp add: mtk_write_batch_def mtk_abs_def mmt_write_batch_data)
  next
    case (Arena t)
    then have "amt_wf t" using assms by (simp add: mtk_wf_def)
    then obtain dl where "fst (mmt_write_batch ws u (amt_abs t)) = (amt_abs (fst (amt_write_batch ws u t)))\<lparr>mmt_dirty_list := dl\<rparr>"
      using amt_write_batch_abs(2) by blast
    then have "mmt_data (fst (mmt_write_batch ws u (amt_abs t))) = mmt_data (amt_abs (fst (amt_write_batch ws u t)))"
      by simp
    with Arena show ?thesis by (simp add: mtk_write_batch_def mtk_abs_def mmt_write_batch_data)
  qed
  show "mtk_wf (fst (mtk_write_batch ws u m))"
    using assms by (auto simp: mtk_wf_def mtk_write_batch_def mmt_wf_write_batch amt_write_batch_abs split: MemTableKind.splits)
qed

lemma mtk_write_batch_inv:
  assumes "mtk_wf m"
  shows "bsc_committed (mtk_chain (fst (mtk_write_batch ws u m)) k) = bsc_committed (mtk_chain m k)"
    and "cur \<noteq> Some u \<Longrightarrow> mtk_read k s cur (fst (mtk_write_batch ws u m)) = mtk_read k s cur m"
proof -
  note data = mtk_write_batch_abs [OF assms, of ws u]
  have inv: "bsc_committed (mmt_chain (fst (mmt_write_seq ws u (mtk_abs m))) k) = bsc_committed (mmt_chain (mtk_abs m) k)"
    "cur \<noteq> Some u \<longrightarrow> mmt_read k s cur (fst (mmt_write_seq ws u (mtk_abs m))) = mmt_read k s cur (mtk_abs m)"
    using mmt_write_seq_inv [OF mtk_wf_abs [OF assms], of ws u k cur s] by simp_all
  show "bsc_committed (mtk_chain (fst (mtk_write_batch ws u m)) k) = bsc_committed (mtk_chain m k)"
    using inv(1) by (simp add: mtk_chain_def mmt_chain_def data(1))
  show "mtk_read k s cur (fst (mtk_write_batch ws u m)) = mtk_read k s cur m" if "cur \<noteq> Some u"
    using inv(2) that by (simp add: mtk_read_abs assms data(2)) (simp add: mmt_read_def data(1))
qed

lemma table_below_batch: "mtk_wf m \<Longrightarrow> table_below now m \<Longrightarrow> table_below now (fst (mtk_write_batch ws u m))"
  by (simp add: table_below_def chain_below_def mtk_write_batch_inv(1))

lemma mmt_scan_range_fst:
  "fst (mmt_scan_range lo hi s cur t) = t\<lparr>mmt_deferred_index := map_option dsi_ensure_compacted (mmt_deferred_index t)\<rparr>"
  by (simp add: mmt_scan_range_def dsi_range_from_def dsi_range_def Let_def split: option.split)

lemma mmt_index_only:
  "mmt_chain (t\<lparr>mmt_deferred_index := i\<rparr>) k = mmt_chain t k" "mmt_read k s cur (t\<lparr>mmt_deferred_index := i\<rparr>) = mmt_read k s cur t"
  by (simp_all add: mmt_chain_def mmt_read_def)

lemma mtk_scan_range_inv:
  assumes "mtk_wf m"
  shows "mtk_wf (fst (mtk_scan_range lo hi s cur m))" "mtk_chain (fst (mtk_scan_range lo hi s cur m)) k = mtk_chain m k"
proof -
  show "mtk_wf (fst (mtk_scan_range lo hi s cur m))"
    using assms
    by (auto simp: mtk_wf_def mtk_scan_range_def mmt_scan_range_fst dsi_ensure_compacted_eq dsi_wf_compact dsi_compact_keys
        intro!: mmt_wf_compacted split: MemTableKind.splits)
  show "mtk_chain (fst (mtk_scan_range lo hi s cur m)) k = mtk_chain m k"
    by (simp add: mtk_chain_def mtk_abs_def mtk_scan_range_def mmt_scan_range_fst mmt_index_only split: MemTableKind.split)
qed

lemma mtk_read_scan_range:
  "mtk_wf m \<Longrightarrow> mtk_read k s' cur' (fst (mtk_scan_range lo hi s cur m)) = mtk_read k s' cur' m"
  by (simp add: kind.read_eq mtk_scan_range_inv)

subsection \<open>The operations that clients interleave\<close>

datatype ds_op =
    DBegin TransactionMode
  | DBeginFast
  | DRead u64 key
  | DWrite u64 key val
  | DDelete u64 key
  | DBatch u64 "(key \<times> val) list"
  | DScan u64 key
  | DScanRange u64 key key
  | DScanLatest key
  | DCommit u64
  | DAbort u64
  | DAbortFast u64
  | DGc
  | DCheckpoint
  | DFlush
  | DFsync
  | DTruncate
  | DSyncMode u64
  | DEnablePitr
  | DRecover

fun ds_step :: "ds_env \<Rightarrow> ds_op \<Rightarrow> DurableStorage \<Rightarrow> DurableStorage" where
  "ds_step E (DBegin mode) s = fst (ds_begin_with_mode E mode s)"
| "ds_step E DBeginFast s = fst (ds_begin_read_only_fast s)"
| "ds_step E (DRead t k) s = fst (ds_read E t k s)"
| "ds_step E (DWrite t k v) s = fst (ds_write E t k v s)"
| "ds_step E (DDelete t k) s = fst (ds_delete E t k s)"
| "ds_step E (DBatch t ws) s = fst (ds_write_batch_refs E t ws s)"
| "ds_step E (DScan t p) s = fst (ds_scan t p s)"
| "ds_step E (DScanRange t lo hi) s = fst (ds_scan_range t lo hi s)"
| "ds_step E (DScanLatest p) s = fst (ds_scan_latest p s)"
| "ds_step E (DCommit t) s = fst (ds_commit E t s)"
| "ds_step E (DAbort t) s = fst (ds_abort E t s)"
| "ds_step E (DAbortFast t) s = ds_abort_read_only_fast t s"
| "ds_step E DGc s = fst (ds_gc s)"
| "ds_step E DCheckpoint s = fst (ds_checkpoint E s)"
| "ds_step E DFlush s = fst (ds_flush_wal s)"
| "ds_step E DFsync s = fst (ds_fsync s)"
| "ds_step E DTruncate s = fst (ds_truncate_wal s)"
| "ds_step E (DSyncMode n) s = ds_set_sync_mode n s"
| "ds_step E DEnablePitr s = fst (ds_enable_point_in_time_recovery E s)"
| "ds_step E DRecover s = fst (ds_recover E s)"

text \<open>The transaction on whose behalf an operation runs.\<close>

fun ds_op_txn :: "ds_op \<Rightarrow> u64 option" where
  "ds_op_txn (DRead t k) = Some t"
| "ds_op_txn (DWrite t k v) = Some t"
| "ds_op_txn (DDelete t k) = Some t"
| "ds_op_txn (DBatch t ws) = Some t"
| "ds_op_txn (DScan t p) = Some t"
| "ds_op_txn (DScanRange t lo hi) = Some t"
| "ds_op_txn (DCommit t) = Some t"
| "ds_op_txn (DAbort t) = Some t"
| "ds_op_txn (DAbortFast t) = Some t"
| "ds_op_txn _ = None"

text \<open>
  Reachable states, while neither the clock nor the transaction counter (64 bits, the counter below the
  process id) is exhausted.
\<close>

definition ds_room :: "DurableStorage \<Rightarrow> bool" where
  "ds_room s \<longleftrightarrow> mm_ts_counter (ds_mvcc s) < - 1 \<and> wal_next_txn_id (ds_wal s) < - 1"

inductive ds_reachable :: "ds_env \<Rightarrow> DurableStorage \<Rightarrow> bool" for E where
  opened: "ds_open E ordered kind lock keyring disk tick = Inr s \<Longrightarrow> ds_reachable E s"
| grouped: "ds_open E ordered kind lock keyring disk tick = Inr s \<Longrightarrow> ds_reachable E (s\<lparr>ds_group_commit := True\<rparr>)"
| step: "ds_reachable E s \<Longrightarrow> ds_room s \<Longrightarrow> ds_reachable E (ds_step E op s)"

text \<open>The invariant: each component's own, versions older than the clock, ids below the counter.\<close>

definition ds_wf :: "ds_env \<Rightarrow> DurableStorage \<Rightarrow> bool" where
  "ds_wf E s \<longleftrightarrow>
     mm_wf (de_hashers E) (ds_mvcc s) \<and> mtk_wf (ds_memtable s) \<and>
     table_below (mm_ts_counter (ds_mvcc s)) (ds_memtable s) \<and>
     (\<forall>t. mm_get t (ds_mvcc s) \<noteq> None \<longrightarrow> t < wal_next_txn_id (ds_wal s))"

subsection \<open>What each operation changes\<close>

lemma bw_flush_next [simp]: "wal_next_txn_id (bw_flush w) = wal_next_txn_id w"
  by (simp add: bw_flush_def)

lemma frame_next: "frame_for_write P e w = (w', r) \<Longrightarrow> wal_next_txn_id w' = wal_next_txn_id w"
  by (auto simp: frame_for_write_def encrypt_frame_def split: if_splits)

lemma wal_append_next [simp]: "wal_next_txn_id (fst (wal_append P e w)) = wal_next_txn_id w"
  by (auto simp: wal_append_def commit_record_ordinal_def Let_def dest: frame_next split: prod.split sum.split)

lemma wal_append_nextD: "wal_append P e w = (w', r) \<Longrightarrow> wal_next_txn_id w' = wal_next_txn_id w"
  using wal_append_next [of P e w] by simp

lemma flush_frames_next: "flush_frames P buf n w = (w', r) \<Longrightarrow> wal_next_txn_id w' = wal_next_txn_id w"
proof (induction P buf n w rule: flush_frames.induct)
  case (1 P buf n w)
  note prem = 1(2) [unfolded flush_frames.simps [of P buf n w]]
  show ?case
    using 1(1) prem by (auto simp: Let_def encrypt_frame_def split: if_splits prod.splits sum.splits)
qed

lemma wal_flush_buffer_next [simp]: "wal_next_txn_id (fst (wal_flush_buffer P b w)) = wal_next_txn_id w"
  by (auto simp: wal_flush_buffer_def Let_def dest: flush_frames_next split: prod.split sum.split)

lemma wal_next_simps [simp]:
  "wal_next_txn_id (fst (wal_flush w)) = wal_next_txn_id w" "wal_next_txn_id (fst (wal_sync w)) = wal_next_txn_id w"
  "wal_next_txn_id (fst (wal_truncate w)) = wal_next_txn_id w"
  "wal_next_txn_id (fst (cached_timestamp_us P w)) = wal_next_txn_id w"
  by (simp_all add: wal_flush_def wal_sync_def wal_truncate_def cached_timestamp_us_def Let_def)

lemma wal_append_sync_next [simp]: "wal_next_txn_id (fst (wal_append_sync P e w)) = wal_next_txn_id w"
  by (auto simp: wal_append_sync_def wal_sync_def Let_def dest!: wal_append_nextD split: prod.split sum.split)

lemma append_commits_next: "append_commits P ts w = (w', r) \<Longrightarrow> wal_next_txn_id w' = wal_next_txn_id w"
proof (induction ts arbitrary: w)
  case (Cons t ts)
  then show ?case
    by (auto simp: wal_append_no_flush_def cached_timestamp_us_def dest!: wal_append_nextD split: prod.splits sum.splits)
qed simp

lemma wal_batch_next [simp]: "wal_next_txn_id (fst (wal_commit_durable_batch P ts w)) = wal_next_txn_id w"
  by (auto simp: wal_commit_durable_batch_def wal_flush_def wal_sync_def Let_def dest: append_commits_next
      split: prod.split sum.split)

lemma wal_abort_next [simp]: "wal_next_txn_id (fst (wal_abort_transaction P t w)) = wal_next_txn_id w"
  by (auto simp: wal_abort_transaction_def cached_timestamp_us_def dest!: wal_append_nextD split: prod.split sum.split)

lemma wal_begin_next:
  "wal_next_txn_id (fst (wal_begin_transaction P w)) = wal_next_txn_id w + 1"
  "snd (wal_begin_transaction P w) = Inr t \<Longrightarrow> t = wal_next_txn_id w"
  by (auto simp: wal_begin_transaction_def wal_alloc_txn_id_def cached_timestamp_us_def dest!: wal_append_nextD
      split: prod.splits sum.splits)

text \<open>The manager, transaction by transaction.\<close>

lemma mm_get_begin: "mm_get t (fst (mm_begin_with_mode u mode m)) = (if t = u then Some (mt_with_mode u (mm_ts_counter m) mode) else mm_get t m)"
  by (simp add: mm_get_def mm_begin_with_mode_def Let_def)

lemma mm_get_abort: "mm_get t (mm_abort u m) = (if t = u then None else mm_get t m)"
  by (simp add: mm_get_def mm_abort_def)

lemma mm_get_commit: "mm_get t (fst (mm_commit H u m)) = (if t = u then None else mm_get t m)"
  by (auto simp: mm_get_def mm_commit_def mm_alloc_commit_ts_def mm_track_commit_owned_def Let_def split: option.split)

lemma mm_get_record:
  "mm_get t (mm_record_read H u k m) = (if t = u then map_option (mt_record_read H k) (mm_get t m) else mm_get t m)"
  "mm_get t (mm_record_write H u k m) = (if t = u then map_option (mt_record_write H k) (mm_get t m) else mm_get t m)"
  by (auto simp: mm_get_def mm_record_read_def mm_record_write_def)

lemma mm_counter_simps [simp]:
  "mm_ts_counter (fst (mm_begin_with_mode u mode m)) = mm_ts_counter m" "mm_ts_counter (mm_abort u m) = mm_ts_counter m"
  "mm_ts_counter (mm_record_read H u k m) = mm_ts_counter m" "mm_ts_counter (mm_record_write H u k m) = mm_ts_counter m"
  by (simp_all add: mm_begin_with_mode_def mm_abort_def mm_record_read_def mm_record_write_def Let_def)

lemma mm_commit_counter:
  "mm_ts_counter (fst (mm_commit H u m)) = (if snd (mm_commit H u m) = None then mm_ts_counter m else mm_ts_counter m + 1)"
  "snd (mm_commit H u m) = Some (cts, ws) \<Longrightarrow> cts = mm_ts_counter m"
  "snd (mm_commit H u m) = Some (cts, ws) \<Longrightarrow> \<exists>txn. mm_get u m = Some txn \<and> ws = mt_write_set txn"
  by (auto simp: mm_commit_def mm_get_def mm_alloc_commit_ts_def mm_track_commit_owned_def Let_def
      split: option.splits if_splits)

text \<open>The fields that writing to the log leaves alone.\<close>

definition same_core :: "DurableStorage \<Rightarrow> DurableStorage \<Rightarrow> bool" where
  "same_core s s' \<longleftrightarrow> ds_mvcc s' = ds_mvcc s \<and> ds_memtable s' = ds_memtable s \<and>
     wal_next_txn_id (ds_wal s') = wal_next_txn_id (ds_wal s)"

lemma same_core_buffer: "same_core s (ds_buffer_append E t k v s)"
  by (simp add: same_core_def ds_buffer_append_def cached_timestamp_us_def Let_def)

lemma same_core_flush_data: "same_core s (fst (ds_flush_data E t s))"
proof (cases "map_of (ds_txn_write_buffers s) t")
  case (Some b)
  then show ?thesis
    by (simp add: same_core_def ds_flush_data_def Let_def case_prod_unfold split: sum.split)
qed (simp add: same_core_def ds_flush_data_def)

lemma same_core_group: "same_core s (fst (ds_group_submit E t s))"
  using wal_batch_next [of "de_platform E" "[t]" "ds_wal s"]
  by (simp add: same_core_def ds_group_submit_def Let_def case_prod_unfold)

lemma same_core_arrival: "same_core s (ds_update_arrival_rate E s)"
  by (simp add: same_core_def ds_update_arrival_rate_def cached_timestamp_us_def Let_def)

lemma same_core_direct: "same_core s (fst (ds_direct_commit E t s))"
proof -
  let ?s = "ds_update_arrival_rate E (s\<lparr>ds_commits_since_sync := ds_commits_since_sync s + 1\<rparr>)"
  let ?w = "fst (cached_timestamp_us (de_platform E) (ds_wal ?s))"
  have "same_core s ?s" using same_core_arrival [of "s\<lparr>ds_commits_since_sync := ds_commits_since_sync s + 1\<rparr>" E]
    by (simp add: same_core_def)
  then show ?thesis
    using wal_append_next [of "de_platform E" "txn_commit (snd (cached_timestamp_us (de_platform E) (ds_wal ?s))) t" ?w]
    by (auto simp: same_core_def ds_direct_commit_def wal_append_no_flush_def wal_flush_def wal_sync_def Let_def
        case_prod_unfold split: sum.split)
qed

lemma same_core_log_commit: "same_core s (fst (ds_log_commit E t s))"
  by (simp add: ds_log_commit_def same_core_group same_core_direct)

subsection \<open>The invariant holds in every reachable state\<close>

lemma ds_wf_core: "same_core s s' \<Longrightarrow> ds_wf E s' \<longleftrightarrow> ds_wf E s"
  by (simp add: same_core_def ds_wf_def)

lemma ds_wf_memtable:
  "ds_wf E s \<Longrightarrow> mtk_wf m \<Longrightarrow> table_below (mm_ts_counter (ds_mvcc s)) m \<Longrightarrow> ds_wf E (s\<lparr>ds_memtable := m\<rparr>)"
  by (simp add: ds_wf_def)

lemma ds_wf_parts:
  assumes "ds_wf E s"
  shows "mtk_wf (ds_memtable s)" "table_below (mm_ts_counter (ds_mvcc s)) (ds_memtable s)"
    "mm_wf (de_hashers E) (ds_mvcc s)" "mm_get t (ds_mvcc s) \<noteq> None \<Longrightarrow> t < wal_next_txn_id (ds_wal s)"
  using assms by (simp_all add: ds_wf_def)

lemma ds_wf_mvcc:
  assumes "ds_wf E s" "mm_wf (de_hashers E) m" "mm_ts_counter (ds_mvcc s) \<le> mm_ts_counter m"
    and "\<And>t. mm_get t m \<noteq> None \<Longrightarrow> mm_get t (ds_mvcc s) \<noteq> None"
  shows "ds_wf E (s\<lparr>ds_mvcc := m\<rparr>)"
  using assms by (auto simp: ds_wf_def intro: table_below_mono)

lemma ds_wf_record_write: "ds_wf E s \<Longrightarrow> ds_wf E (ds_record_write E t k s)"
  unfolding ds_record_write_def
  by (rule ds_wf_mvcc) (auto simp: mm_wf_record_write ds_wf_parts mm_get_record split: if_splits)

lemma ds_wf_buffered: "ds_wf E s \<Longrightarrow> ds_wf E (ds_buffer_append E t k v (ds_record_write E t k' s))"
  using ds_wf_core [OF same_core_buffer, of E] ds_wf_record_write by blast

lemma ds_wf_buffered_fold:
  "ds_wf E s \<Longrightarrow> ds_wf E (fold (\<lambda>(k, v) s. ds_buffer_append E t k v (ds_record_write E t k s)) ws s)"
  by (induction ws arbitrary: s) (auto simp: ds_wf_buffered)

lemma ds_wf_fresh_id:
  assumes "ds_wf E s" "ds_room s" "wal_next_txn_id w = wal_next_txn_id (ds_wal s) + 1"
  shows "ds_wf E (s\<lparr>ds_wal := w\<rparr>)"
    and "ds_wf E (s\<lparr>ds_wal := w, ds_mvcc := fst (mm_begin_with_mode (wal_next_txn_id (ds_wal s)) mode (ds_mvcc s))\<rparr>)"
proof -
  have lt: "wal_next_txn_id (ds_wal s) < wal_next_txn_id (ds_wal s) + 1"
    using assms(2) by (intro u64_less_succ) (simp add: ds_room_def)
  then show "ds_wf E (s\<lparr>ds_wal := w\<rparr>)"
    using assms(1,3) by (auto simp: ds_wf_def)
  show "ds_wf E (s\<lparr>ds_wal := w, ds_mvcc := fst (mm_begin_with_mode (wal_next_txn_id (ds_wal s)) mode (ds_mvcc s))\<rparr>)"
    using assms(1,3) lt by (auto simp: ds_wf_def mm_wf_begin mm_get_begin split: if_splits)
qed

lemma ds_wf_begin: "ds_wf E s \<Longrightarrow> ds_room s \<Longrightarrow> ds_wf E (fst (ds_begin_with_mode E mode s))"
  using ds_wf_fresh_id [of E s "fst (wal_begin_transaction (de_platform E) (ds_wal s))"]
    wal_begin_next [of "de_platform E" "ds_wal s"]
  by (auto simp: ds_begin_with_mode_def split: prod.splits sum.splits)

text \<open>A commit, stage by stage: flush the data, validate, write the commit record, publish.\<close>

lemma ds_commit_eq:
  "ds_commit E t s =
     (let f = ds_flush_data E t s;
          c = mm_commit (de_hashers E) t (ds_mvcc (fst f));
          p = ds_log_commit E t ((fst f)\<lparr>ds_mvcc := fst c\<rparr>)
      in case snd f of
           Inl e \<Rightarrow> (fst f, Inl e)
         | Inr _ \<Rightarrow>
             (case snd c of
                None \<Rightarrow> ((fst f)\<lparr>ds_mvcc := fst c\<rparr>, Inl commit_refused)
              | Some (cts, ws) \<Rightarrow>
                  (case snd p of
                     Inl e \<Rightarrow> (fst p, Inl e)
                   | Inr _ \<Rightarrow> ((fst p)\<lparr>ds_memtable := mtk_commit t cts ws (ds_memtable (fst p))\<rparr>, Inr cts))))"
proof -
  obtain s1 r where f: "ds_flush_data E t s = (s1, r)" by fastforce
  obtain m c where c: "mm_commit (de_hashers E) t (ds_mvcc s1) = (m, c)" by fastforce
  obtain s2 q where p: "ds_log_commit E t (s1\<lparr>ds_mvcc := m\<rparr>) = (s2, q)" by fastforce
  show ?thesis by (simp add: ds_commit_def Let_def f c p split: sum.split option.split)
qed

lemma ds_wf_commit:
  assumes "ds_wf E s" "ds_room s"
  shows "ds_wf E (fst (ds_commit E t s))"
proof -
  define s1 where "s1 = fst (ds_flush_data E t s)"
  have s1: "ds_wf E s1" "ds_mvcc s1 = ds_mvcc s"
    using assms(1) ds_wf_core [OF same_core_flush_data, of E E t s] same_core_flush_data [of s E t]
    by (simp_all add: s1_def same_core_def)
  define m where "m = fst (mm_commit (de_hashers E) t (ds_mvcc s1))"
  have lt: "mm_ts_counter (ds_mvcc s) < mm_ts_counter (ds_mvcc s) + 1"
    using assms(2) by (intro u64_less_succ) (simp add: ds_room_def)
  have m: "mm_wf (de_hashers E) m" "mm_ts_counter (ds_mvcc s1) \<le> mm_ts_counter m"
    using assms(2) less_imp_le [OF lt] ds_wf_parts(3) [OF s1(1)] mm_wf_commit [of "de_hashers E" "ds_mvcc s1" t]
    by (simp_all add: m_def s1(2) ds_room_def mm_commit_counter)
  have wf2: "ds_wf E (s1\<lparr>ds_mvcc := m\<rparr>)"
    by (rule ds_wf_mvcc [OF s1(1) m]) (simp add: m_def mm_get_commit split: if_splits)
  define s2 where "s2 = ds_log_commit E t (s1\<lparr>ds_mvcc := m\<rparr>)"
  have core: "same_core (s1\<lparr>ds_mvcc := m\<rparr>) (fst s2)" by (simp add: s2_def same_core_log_commit)
  have wf3: "ds_wf E (fst s2)" using ds_wf_core [OF core] wf2 by blast
  have "ds_wf E ((fst s2)\<lparr>ds_memtable := mtk_commit t cts ws (ds_memtable (fst s2))\<rparr>)"
    if "snd (mm_commit (de_hashers E) t (ds_mvcc s1)) = Some (cts, ws)" for cts ws
  proof (rule ds_wf_memtable [OF wf3])
    have "cts < mm_ts_counter (ds_mvcc (fst s2))"
      using core that lt s1(2) mm_commit_counter(1,2) [of "de_hashers E" t "ds_mvcc s1"] by (simp add: same_core_def m_def)
    then show "table_below (mm_ts_counter (ds_mvcc (fst s2))) (mtk_commit t cts ws (ds_memtable (fst s2)))"
      using ds_wf_parts(1,2) [OF wf3] by (intro table_below_commit)
  qed (use ds_wf_parts(1) [OF wf3] mtk_wf_commit in blast)
  then show ?thesis
    using s1(1) wf2 wf3 unfolding ds_commit_eq Let_def s1_def [symmetric] m_def [symmetric] s2_def [symmetric]
    by (simp split: sum.split option.split)
qed

lemma apply_writes_inv:
  assumes "mtk_wf m" "table_below now m"
  shows "mtk_wf (fst (apply_writes u ws m)) \<and> table_below now (fst (apply_writes u ws m))"
  using assms
proof (induction ws arbitrary: m)
  case (Cons w ws)
  obtain k v where w: "w = (k, v)" by fastforce
  obtain m' r where m': "mtk_write k (Some v) u m = (m', r)" by fastforce
  have "mtk_wf m'" "table_below now m'"
    using mtk_wf_write [OF Cons.prems(1), of k "Some v" u] table_below_write [OF Cons.prems, of k "Some v" u]
    by (simp_all add: m')
  with Cons.IH [of m'] show ?case by (cases r) (simp_all add: w m')
qed simp

lemma ds_wf_recover:
  assumes "ds_wf E s" "ds_room s"
  shows "ds_wf E (fst (ds_apply_recovered ws n s))" and "ds_wf E (fst (ds_recover E s))"
proof -
  let ?w = "fst (wal_alloc_txn_id (ds_wal s))"
  let ?m = "fst (mm_alloc_commit_ts (ds_mvcc s))"
  let ?s = "s\<lparr>ds_wal := ?w, ds_mvcc := ?m\<rparr>"
  have lt: "mm_ts_counter (ds_mvcc s) < mm_ts_counter (ds_mvcc s) + 1"
    using assms(2) by (intro u64_less_succ) (simp add: ds_room_def)
  have "ds_wf E (s\<lparr>ds_wal := ?w\<rparr>)"
    by (rule ds_wf_fresh_id(1) [OF assms]) (simp add: wal_alloc_txn_id_def)
  then have wf: "ds_wf E ?s"
  proof (rule ds_wf_mvcc)
    show "mm_wf (de_hashers E) ?m"
      using assms by (intro mm_wf_alloc) (auto simp: ds_wf_def ds_room_def)
  qed (use lt in \<open>auto simp: mm_alloc_commit_ts_def mm_get_def\<close>)
  show "ds_wf E (fst (ds_apply_recovered ws n s))" for ws n
  proof -
    let ?u = "snd (wal_alloc_txn_id (ds_wal s))"
    let ?a = "apply_writes ?u ws (ds_memtable s)"
    have a: "mtk_wf (fst ?a)" "table_below (mm_ts_counter ?m) (fst ?a)"
      using apply_writes_inv [of "ds_memtable s" "mm_ts_counter ?m" ?u ws] ds_wf_parts(1,2) [OF wf] by simp_all
    have "snd (mm_alloc_commit_ts (ds_mvcc s)) < mm_ts_counter ?m"
      using lt by (simp add: mm_alloc_commit_ts_def)
    then have "ds_wf E (?s\<lparr>ds_memtable :=
        mtk_commit ?u (snd (mm_alloc_commit_ts (ds_mvcc s))) (remdups (map fst ws)) (fst ?a)\<rparr>)"
      using a by (intro ds_wf_memtable [OF wf] mtk_wf_commit table_below_commit) simp_all
    moreover have "ds_wf E (?s\<lparr>ds_memtable := fst ?a\<rparr>)"
      using a by (intro ds_wf_memtable [OF wf]) simp_all
    ultimately show ?thesis
      unfolding ds_apply_recovered_def Let_def case_prod_unfold by (simp split: sum.split) (simp add: ds_wf_def)
  qed
  then show "ds_wf E (fst (ds_recover E s))"
    using assms(1) by (simp add: ds_recover_def case_prod_unfold split: sum.split)
qed

lemma ds_open_fields:
  assumes "ds_open E ordered kind lock keyring disk tick = Inr s"
  shows "ds_mvcc s = mm_new" "ds_memtable s = mtk_new kind ordered" "ds_txn_write_buffers s = []"
    and "ds_needs_recovery s = 1" "\<not> ds_group_commit s" "ds_sync_mode s = 1"
    and "\<exists>es. keyring = Inr es \<and> new_with_encryption (de_platform E) (dk_wal_log disk) (es_engine es) (es_db_uuid es)
      (es_key_epoch es) tick = Inr (ds_wal s)"
  using assms by (auto simp: ds_open_def ds_check_recovery_needed_def try_bind_eq_Inr Let_def split: if_splits)

lemma mtk_chain_new [simp]: "mtk_chain (mtk_new kind ordered) k = vc_new"
  by (cases kind) (simp_all add: mtk_new_def mtk_chain_def mtk_abs_def mmt_chain_def data_chain_def amt_new_abs
      mmt_with_ordered_index_def mmt_with_index_mode_def)

lemma ds_wf_open: "ds_open E ordered kind lock keyring disk tick = Inr s \<Longrightarrow> ds_wf E s"
  by (simp add: ds_wf_def mm_wf_new mtk_wf_new table_below_def ds_open_fields) (simp add: mm_get_def mm_new_def)

lemma same_core_trivial [simp]:
  "same_core s (s\<lparr>ds_wal := w\<rparr>) \<longleftrightarrow> wal_next_txn_id w = wal_next_txn_id (ds_wal s)"
  "same_core s (s\<lparr>ds_sync_mode := x\<rparr>)" "same_core s (s\<lparr>ds_txn_write_buffers := b\<rparr>)" "same_core s s"
  by (simp_all add: same_core_def)

lemma same_core_checkpoint: "same_core s (fst (ds_checkpoint E s))"
proof -
  let ?c = "cached_timestamp_us (de_platform E) (ds_wal s)"
  show ?thesis
    using wal_append_sync_next [of "de_platform E" "entry_checkpoint (snd ?c) 0" "fst ?c"]
    by (simp add: ds_checkpoint_def same_core_def ds_persist_pitr_manifest_def Let_def case_prod_unfold split: sum.split)
qed

lemma same_core_maintenance:
  "same_core s (fst (ds_flush_wal s))" "same_core s (fst (ds_fsync s))" "same_core s (fst (ds_truncate_wal s))"
  "same_core s (ds_set_sync_mode n s)" "same_core s (fst (ds_enable_point_in_time_recovery E s))"
  by (simp_all add: ds_flush_wal_def ds_fsync_def ds_truncate_wal_def ds_set_sync_mode_def case_prod_unfold Let_def
      ds_enable_point_in_time_recovery_def ds_persist_pitr_manifest_def, simp_all add: same_core_def)

lemma ds_wf_abort:
  assumes "ds_wf E s"
  shows "ds_wf E (fst (ds_abort E t s))"
proof -
  let ?s = "s\<lparr>ds_txn_write_buffers := dm_remove t (ds_txn_write_buffers s)\<rparr>"
  let ?w = "fst (wal_abort_transaction (de_platform E) t (ds_wal s))"
  have mvcc: "ds_wf E (x\<lparr>ds_mvcc := mm_abort t (ds_mvcc x)\<rparr>)" if "ds_wf E x" for x
    by (rule ds_wf_mvcc [OF that]) (use that in \<open>auto simp: mm_get_abort mm_wf_abort ds_wf_parts(3) split: if_splits\<close>)
  have s: "ds_wf E ?s" "ds_wf E (?s\<lparr>ds_wal := ?w\<rparr>)"
    using assms ds_wf_core [of s "?s"] ds_wf_core [of s "?s\<lparr>ds_wal := ?w\<rparr>"] by (simp_all add: same_core_def)
  have "ds_wf E (?s\<lparr>ds_wal := ?w, ds_memtable := mtk_abort t (ds_memtable ?s)\<rparr>)"
    using ds_wf_memtable [OF s(2), of "mtk_abort t (ds_memtable s)"] ds_wf_parts(1,2) [OF s(2)]
    by (simp add: mtk_wf_abort table_below_abort)
  from mvcc [OF this] mvcc [OF s(1)] s show ?thesis
    by (simp add: ds_abort_def Let_def case_prod_unfold split: sum.split)
qed

lemma ds_wf_step:
  assumes "ds_wf E s" "ds_room s"
  shows "ds_wf E (ds_step E op s)"
proof (cases op)
  case (DBegin mode)
  then show ?thesis using assms by (simp add: ds_wf_begin)
next
  case DBeginFast
  then show ?thesis
    using ds_wf_fresh_id(2) [OF assms, of "fst (wal_alloc_txn_id (ds_wal s))" ReadOnly]
    by (simp add: ds_begin_read_only_fast_def mm_begin_read_only_def wal_alloc_txn_id_def)
next
  case (DRead t k)
  have "ds_wf E (s\<lparr>ds_mvcc := mm_record_read (de_hashers E) t k (ds_mvcc s)\<rparr>)"
    by (rule ds_wf_mvcc [OF assms(1)])
      (use assms in \<open>auto simp: mm_get_record mm_wf_record_read ds_wf_parts split: if_splits\<close>)
  with DRead assms show ?thesis by (simp add: ds_read_def split: option.split)
next
  case (DWrite t k v)
  have "ds_wf E (ds_buffer_append E t k v (ds_record_write E t k s))" by (rule ds_wf_buffered [OF assms(1)])
  from ds_wf_memtable [OF this, of "fst (mtk_write k (Some v) t _)"] ds_wf_parts(1,2) [OF this] DWrite show ?thesis
    by (simp add: ds_write_def ds_write_refs_def Let_def case_prod_unfold mtk_wf_write table_below_write)
next
  case (DDelete t k)
  have "ds_wf E (ds_buffer_append E t k [] (ds_record_write E t k s))" by (rule ds_wf_buffered [OF assms(1)])
  from ds_wf_memtable [OF this, of "fst (mtk_write k None t _)"] ds_wf_parts(1,2) [OF this] DDelete show ?thesis
    by (simp add: ds_delete_def Let_def case_prod_unfold mtk_wf_write table_below_write)
next
  case (DBatch t ws)
  have "ds_wf E (fold (\<lambda>(k, v) s. ds_buffer_append E t k v (ds_record_write E t k s)) ws s)"
    by (rule ds_wf_buffered_fold [OF assms(1)])
  from ds_wf_memtable [OF this, of "fst (mtk_write_batch _ t _)"] ds_wf_parts(1,2) [OF this] DBatch assms show ?thesis
    by (simp add: ds_write_batch_refs_def Let_def case_prod_unfold mtk_write_batch_abs(2) table_below_batch)
next
  case (DScan t p)
  then show ?thesis
    using assms ds_wf_parts(1,2) [OF assms(1)]
    by (simp add: ds_scan_def Let_def case_prod_unfold ds_wf_memtable mtk_wf_scan_prefix table_below_scan split: option.split)
next
  case (DScanRange t lo hi)
  then show ?thesis
    using assms ds_wf_parts(1,2) [OF assms(1)] mtk_scan_range_inv [of "ds_memtable s" lo hi]
    by (simp add: ds_scan_range_def Let_def case_prod_unfold ds_wf_memtable table_below_def split: option.split)
next
  case (DScanLatest p)
  then show ?thesis
    using assms ds_wf_parts(1,2) [OF assms(1)]
    by (simp add: ds_scan_latest_def Let_def case_prod_unfold ds_wf_memtable mtk_wf_scan_prefix table_below_scan)
next
  case (DAbortFast t)
  have "ds_wf E (s\<lparr>ds_mvcc := mm_abort t (ds_mvcc s)\<rparr>)"
    by (rule ds_wf_mvcc [OF assms(1)]) (use assms in \<open>auto simp: mm_get_abort mm_wf_abort ds_wf_parts split: if_splits\<close>)
  with DAbortFast show ?thesis by (simp add: ds_abort_read_only_fast_def)
next
  case DGc
  then show ?thesis
    using assms ds_wf_parts(1,2) [OF assms(1)]
    by (simp add: ds_gc_def Let_def case_prod_unfold ds_wf_memtable mtk_wf_gc table_below_gc)
qed (use assms ds_wf_core [OF same_core_maintenance(1)] ds_wf_core [OF same_core_maintenance(2)]
    ds_wf_core [OF same_core_maintenance(3)] ds_wf_core [OF same_core_maintenance(4)]
    ds_wf_core [OF same_core_maintenance(5)] ds_wf_core [OF same_core_checkpoint] in
    \<open>simp_all add: ds_wf_commit ds_wf_abort ds_wf_recover(2)\<close>)

lemma ds_reachable_wf: "ds_reachable E s \<Longrightarrow> ds_wf E s"
proof (induction rule: ds_reachable.induct)
  case (grouped ordered kind lock keyring disk tick s)
  then show ?case using ds_wf_open by (simp add: ds_wf_def)
qed (auto intro: ds_wf_open ds_wf_step)

lemma ds_open_with_policy_reachable: "ds_open_with_policy E policy gc lock keyring disk tick = Inr s \<Longrightarrow> ds_reachable E s"
  by (auto simp: ds_open_with_policy_def try_bind_eq_Inr intro: ds_reachable.opened ds_reachable.grouped split: prod.splits if_splits)

subsection \<open>Other transactions are invisible\<close>

text \<open>One operation leaves transaction \<open>t\<close>, its snapshot and all it can read alone.\<close>

definition isolated :: "u64 \<Rightarrow> DurableStorage \<Rightarrow> DurableStorage \<Rightarrow> bool" where
  "isolated t s s' \<longleftrightarrow>
     mm_get t (ds_mvcc s') = mm_get t (ds_mvcc s) \<and>
     (\<forall>ts k. mm_get_snapshot_ts t (ds_mvcc s) = Some ts \<longrightarrow>
        mtk_read k ts (Some t) (ds_memtable s') = mtk_read k ts (Some t) (ds_memtable s))"

lemma snapshot_get: "mm_get_snapshot_ts t m = map_option mt_snapshot_ts (mm_get t m)"
  by (simp add: mm_get_snapshot_ts_def mm_get_def)

lemma isolated_refl [simp]: "isolated t s s"
  by (simp add: isolated_def)

lemma isolated_trans: "isolated t s s' \<Longrightarrow> isolated t s' s'' \<Longrightarrow> isolated t s s''"
  by (simp add: isolated_def snapshot_get)

lemma isolated_core: "same_core s s' \<Longrightarrow> isolated t s s'"
  by (simp add: isolated_def same_core_def)

lemma isolated_record_write: "u \<noteq> t \<Longrightarrow> isolated t s (ds_record_write E u k s)"
  by (simp add: isolated_def ds_record_write_def mm_get_record)

lemma isolated_buffered: "u \<noteq> t \<Longrightarrow> isolated t s (ds_buffer_append E u k v (ds_record_write E u k' s))"
  using isolated_trans isolated_record_write isolated_core same_core_buffer by blast

lemma isolated_buffered_fold:
  "u \<noteq> t \<Longrightarrow> isolated t s (fold (\<lambda>(k, v) s. ds_buffer_append E u k v (ds_record_write E u k s)) ws s)"
proof (induction ws arbitrary: s)
  case (Cons w ws)
  then show ?case
    using isolated_trans [OF isolated_buffered [of u t s E "fst w" "snd w" "fst w"]]
    by (simp add: case_prod_unfold)
qed simp

lemma isolated_memtable:
  "(\<And>ts k. mm_get_snapshot_ts t (ds_mvcc s) = Some ts \<Longrightarrow> mtk_read k ts (Some t) m = mtk_read k ts (Some t) (ds_memtable s)) \<Longrightarrow>
     isolated t s (s\<lparr>ds_memtable := m\<rparr>)"
  by (simp add: isolated_def)

lemma isolated_write:
  assumes "ds_wf E s" "u \<noteq> t"
  shows "isolated t s ((ds_buffer_append E u k v (ds_record_write E u k s))
      \<lparr>ds_memtable := fst (mtk_write k x u (ds_memtable (ds_buffer_append E u k v (ds_record_write E u k s))))\<rparr>)"
proof (rule isolated_trans [OF isolated_buffered [OF assms(2)] isolated_memtable])
  have "mtk_wf (ds_memtable (ds_buffer_append E u k v (ds_record_write E u k s)))"
    using ds_wf_parts(1) [OF ds_wf_buffered [OF assms(1)]] .
  then show "mtk_read k' ts (Some t) (fst (mtk_write k x u (ds_memtable (ds_buffer_append E u k v (ds_record_write E u k s)))))
      = mtk_read k' ts (Some t) (ds_memtable (ds_buffer_append E u k v (ds_record_write E u k s)))" for ts k'
    using assms(2) by (simp add: kind.read_others_write)
qed

lemma snapshot_le_counter: "ds_wf E s \<Longrightarrow> mm_get_snapshot_ts t (ds_mvcc s) = Some ts \<Longrightarrow> ts \<le> mm_ts_counter (ds_mvcc s)"
  using mm_wf_active [of "de_hashers E" "ds_mvcc s" t] by (auto simp: ds_wf_def snapshot_get mt_wf_def)

lemma isolated_commit:
  assumes "ds_wf E s" "u \<noteq> t"
  shows "isolated t s (fst (ds_commit E u s))"
proof -
  let ?s1 = "fst (ds_flush_data E u s)"
  let ?c = "mm_commit (de_hashers E) u (ds_mvcc ?s1)"
  let ?p = "ds_log_commit E u (?s1\<lparr>ds_mvcc := fst ?c\<rparr>)"
  have s1: "isolated t s ?s1" "same_core s ?s1" by (simp_all add: isolated_core same_core_flush_data)
  have c: "isolated t s (?s1\<lparr>ds_mvcc := fst ?c\<rparr>)"
    using s1(1) assms(2) by (simp add: isolated_def mm_get_commit)
  have p: "isolated t s (fst ?p)" by (rule isolated_trans [OF c isolated_core [OF same_core_log_commit]])
  have mem: "ds_memtable (fst ?p) = ds_memtable s"
    using same_core_log_commit [of "?s1\<lparr>ds_mvcc := fst ?c\<rparr>" E u] s1(2) by (simp add: same_core_def)
  have "isolated t s ((fst ?p)\<lparr>ds_memtable := mtk_commit u cts ws (ds_memtable (fst ?p))\<rparr>)" if "snd ?c = Some (cts, ws)" for cts ws
  proof (rule isolated_trans [OF p isolated_memtable])
    fix ts k
    assume "mm_get_snapshot_ts t (ds_mvcc (fst ?p)) = Some ts"
    then have "mm_get_snapshot_ts t (ds_mvcc s) = Some ts" using p by (simp add: isolated_def snapshot_get)
    then have "ts \<le> cts"
      using snapshot_le_counter [OF assms(1)] mm_commit_counter(2) [OF that] s1(2) by (simp add: same_core_def)
    then show "mtk_read k ts (Some t) (mtk_commit u cts ws (ds_memtable (fst ?p))) = mtk_read k ts (Some t) (ds_memtable (fst ?p))"
      using ds_wf_parts(1) [OF assms(1)] assms(2) mem by (simp add: kind.read_commit_later)
  qed
  with s1(1) c p show ?thesis unfolding ds_commit_eq Let_def by (simp split: sum.split option.split)
qed

lemma isolated_abort:
  assumes "ds_wf E s" "u \<noteq> t"
  shows "isolated t s (fst (ds_abort E u s))"
  using ds_wf_parts(1) [OF assms(1)] assms(2)
  by (auto simp: ds_abort_def isolated_def Let_def case_prod_unfold mm_get_abort kind.read_abort split: sum.split)

lemma apply_writes_others:
  assumes "mtk_wf m" "cur \<noteq> Some u"
  shows "mtk_read k ts cur (fst (apply_writes u ws m)) = mtk_read k ts cur m"
  using assms(1)
proof (induction ws arbitrary: m)
  case (Cons w ws)
  obtain k' v where w: "w = (k', v)" by fastforce
  obtain m' r where m': "mtk_write k' (Some v) u m = (m', r)" by fastforce
  have "mtk_wf m'" "mtk_read k ts cur m' = mtk_read k ts cur m"
    using mtk_wf_write [OF Cons.prems, of k' "Some v" u] kind.read_others_write [OF Cons.prems assms(2), of k ts k' "Some v"]
    by (simp_all add: m')
  with Cons.IH [of m'] show ?case by (cases r) (simp_all add: w m')
qed simp

lemma isolated_recover:
  assumes "ds_wf E s" "mm_get t (ds_mvcc s) \<noteq> None"
  shows "isolated t s (fst (ds_recover E s))"
proof -
  have "t < wal_next_txn_id (ds_wal s)" using ds_wf_parts(4) [OF assms] .
  then have u: "Some t \<noteq> Some (wal_next_txn_id (ds_wal s))" by auto
  have "isolated t s (fst (ds_apply_recovered ws n s))" for ws n
  proof -
    let ?u = "wal_next_txn_id (ds_wal s)"
    let ?a = "apply_writes ?u ws (ds_memtable s)"
    have a: "mtk_wf (fst ?a)" using apply_writes_inv ds_wf_parts(1,2) [OF assms(1)] by blast
    have "mtk_read k ts (Some t) (mtk_commit ?u (mm_ts_counter (ds_mvcc s)) ks (fst ?a)) = mtk_read k ts (Some t) (ds_memtable s)"
      if "mm_get_snapshot_ts t (ds_mvcc s) = Some ts" for ts k ks
      using kind.read_commit_later [OF a snapshot_le_counter [OF assms(1) that] u]
        apply_writes_others [OF ds_wf_parts(1) [OF assms(1)] u] by simp
    then show ?thesis
      using apply_writes_others [OF ds_wf_parts(1) [OF assms(1)] u]
      unfolding ds_apply_recovered_def Let_def case_prod_unfold
      by (simp add: isolated_def wal_alloc_txn_id_def mm_alloc_commit_ts_def mm_get_def split: sum.split)
  qed
  then show ?thesis by (simp add: ds_recover_def case_prod_unfold split: sum.split)
qed

lemma isolated_begin:
  assumes "ds_wf E s" "mm_get t (ds_mvcc s) \<noteq> None"
  shows "isolated t s (fst (ds_begin_with_mode E mode s))" "isolated t s (fst (ds_begin_read_only_fast s))"
proof -
  have t: "t \<noteq> wal_next_txn_id (ds_wal s)" using ds_wf_parts(4) [OF assms] by auto
  then show "isolated t s (fst (ds_begin_with_mode E mode s))"
    using wal_begin_next(2) [of "de_platform E" "ds_wal s"]
    by (auto simp: isolated_def ds_begin_with_mode_def mm_get_begin case_prod_unfold split: sum.split)
  show "isolated t s (fst (ds_begin_read_only_fast s))"
    using t by (simp add: isolated_def ds_begin_read_only_fast_def mm_begin_read_only_def mm_get_begin wal_alloc_txn_id_def)
qed

lemma isolated_reads:
  assumes "ds_wf E s"
  shows "u \<noteq> t \<Longrightarrow> isolated t s (fst (ds_read E u k s))" "isolated t s (fst (ds_scan u p s))"
    and "isolated t s (fst (ds_scan_range u lo hi s))" "isolated t s (fst (ds_scan_latest p s))"
    and "u \<noteq> t \<Longrightarrow> isolated t s (ds_abort_read_only_fast u s)"
  using ds_wf_parts(1) [OF assms]
  by (simp_all add: isolated_def ds_read_def ds_scan_def ds_scan_range_def ds_scan_latest_def ds_abort_read_only_fast_def
      mm_get_record mm_get_abort kind.read_scan mtk_read_scan_range Let_def case_prod_unfold split: option.split)

lemma isolated_step:
  assumes "ds_wf E s" "mm_get t (ds_mvcc s) \<noteq> None" "ds_op_txn op \<noteq> Some t"
  shows "isolated t s (ds_step E op s)"
proof (cases op)
  case (DWrite u k v)
  then show ?thesis
    using isolated_write [OF assms(1), where u = u and t = t and k = k and v = v and x = "Some v"] assms(3)
    by (simp only: ds_step.simps ds_op_txn.simps option.inject ds_write_def ds_write_refs_def Let_def case_prod_unfold fst_conv) blast
next
  case (DDelete u k)
  then show ?thesis
    using isolated_write [OF assms(1), where u = u and t = t and k = k and v = "[]" and x = None] assms(3)
    by (simp only: ds_step.simps ds_op_txn.simps option.inject ds_delete_def Let_def case_prod_unfold fst_conv) blast
next
  case (DBatch u ws)
  then have u: "u \<noteq> t" using assms(3) by simp
  let ?s = "fold (\<lambda>(k, v) s. ds_buffer_append E u k v (ds_record_write E u k s)) ws s"
  have "isolated t ?s (?s\<lparr>ds_memtable := fst (mtk_write_batch (map (\<lambda>(k, v). (k, Some v)) ws) u (ds_memtable ?s))\<rparr>)"
    by (rule isolated_memtable)
      (use u ds_wf_parts(1) [OF ds_wf_buffered_fold [OF assms(1)]] in \<open>simp add: mtk_write_batch_inv(2)\<close>)
  from isolated_trans [OF isolated_buffered_fold [OF u] this] DBatch show ?thesis
    by (simp add: ds_write_batch_refs_def Let_def case_prod_unfold)
next
  case DGc
  have "mm_min_active_snapshot (ds_mvcc s) \<le> ts" if "mm_get_snapshot_ts t (ds_mvcc s) = Some ts" for ts
    using that mm_wf_watermark [OF ds_wf_parts(3) [OF assms(1)]] by (auto simp: snapshot_get)
  with DGc show ?thesis
    using ds_wf_parts(1) [OF assms(1)] by (simp add: isolated_def ds_gc_def Let_def case_prod_unfold kind.read_gc)
next
  case (DBegin mode) then show ?thesis using isolated_begin(1) [OF assms(1,2)] by simp
next
  case DBeginFast then show ?thesis using isolated_begin(2) [OF assms(1,2)] by simp
next
  case (DRead u k) then show ?thesis using isolated_reads(1) [OF assms(1)] assms(3) by simp
next
  case (DScan u p) then show ?thesis using isolated_reads(2) [OF assms(1)] by simp
next
  case (DScanRange u lo hi) then show ?thesis using isolated_reads(3) [OF assms(1)] by simp
next
  case (DScanLatest p) then show ?thesis using isolated_reads(4) [OF assms(1)] by simp
next
  case (DAbortFast u) then show ?thesis using isolated_reads(5) [OF assms(1)] assms(3) by simp
next
  case (DCommit u) then show ?thesis using isolated_commit [OF assms(1)] assms(3) by simp
next
  case (DAbort u) then show ?thesis using isolated_abort [OF assms(1)] assms(3) by simp
next
  case DCheckpoint then show ?thesis using isolated_core [OF same_core_checkpoint] by simp
next
  case DRecover then show ?thesis using isolated_recover [OF assms(1,2)] by simp
qed (simp_all add: isolated_core same_core_maintenance)

fun ds_run :: "ds_env \<Rightarrow> ds_op list \<Rightarrow> DurableStorage \<Rightarrow> DurableStorage option" where
  "ds_run E [] s = Some s"
| "ds_run E (op # ops) s = (if ds_room s then ds_run E ops (ds_step E op s) else None)"

lemma isolated_run:
  assumes "ds_wf E s" "mm_get t (ds_mvcc s) \<noteq> None" "\<forall>op \<in> set ops. ds_op_txn op \<noteq> Some t" "ds_run E ops s = Some s'"
  shows "isolated t s s' \<and> ds_wf E s'"
  using assms
proof (induction ops arbitrary: s)
  case (Cons op ops)
  have step: "isolated t s (ds_step E op s)" "ds_wf E (ds_step E op s)" "ds_run E ops (ds_step E op s) = Some s'"
    using Cons.prems isolated_step [OF Cons.prems(1,2), of op] ds_wf_step [OF Cons.prems(1)] by (auto split: if_splits)
  then have "mm_get t (ds_mvcc (ds_step E op s)) \<noteq> None" using Cons.prems(2) by (simp add: isolated_def)
  with Cons.IH [OF step(2) this _ step(3)] Cons.prems(3) isolated_trans [OF step(1)] show ?case by auto
qed simp

subsection \<open>A concrete engine\<close>

definition demo_env :: ds_env where
  "demo_env =
     \<lparr>de_platform = demo_platform, de_hashers = demo_hashers, de_n_opt = (\<lambda>_ _. 1), de_elapsed = (\<lambda>_. 0),
      de_uuid = (\<lambda>_. ''00'')\<rparr>"

definition demo_keyring :: enc_state where
  "demo_keyring =
     \<lparr>es_is_encrypted = False, es_engine = ee_disabled demo_cipher, es_db_uuid = replicate 16 0, es_key_epoch = 0\<rparr>"

definition demo_wal_fresh :: TxnWal where
  "demo_wal_fresh =
     \<lparr>wal_file = [], wal_synced = 0, wal_buf = [], wal_next_txn_id = push_bit 32 7 + 1, wal_sequence = 0,
      wal_bytes_since_sync = 0, wal_cached_timestamp_us = 0, wal_encryption = ee_disabled demo_cipher,
      wal_db_uuid = replicate 16 0, wal_dek_epoch = 0, wal_records_in_file = 0, wal_tick = 1\<rparr>"

definition demo_store :: DurableStorage where
  "demo_store =
     \<lparr>ds_wal = demo_wal_fresh, ds_mvcc = mm_new, ds_memtable = mtk_new StandardType True, ds_txn_write_buffers = [],
      ds_group_commit = False, ds_needs_recovery = 1, ds_last_checkpoint_lsn = 0, ds_sync_mode = 1,
      ds_commits_since_sync = 0, ds_arrival_rate_ema = 1000000, ds_last_commit_us = 0, ds_fsync_latency_us = 5000,
      ds_at_rest_encrypted = False, ds_pitr_enabled = False, ds_manifest_file = None, ds_clean_shutdown_file = False\<rparr>"

lemma demo_open:
  "ds_open demo_env True StandardType (Inr ()) (Inr demo_keyring)
     \<lparr>dk_wal_log = [], dk_manifest = None, dk_clean_shutdown = False\<rparr> 0 = Inr demo_store"
  by (simp add: ds_open_def demo_env_def demo_keyring_def new_with_encryption_def recover_state_def wal_loop.simps
      read_record_def from_reader_def read_u32_short ds_check_recovery_needed_def wm_exists_def demo_store_def
      demo_wal_fresh_def demo_platform_def)

lemma demo_store_reachable: "ds_reachable demo_env demo_store"
  by (rule ds_reachable.opened [OF demo_open])

lemma demo_store_room: "ds_room demo_store"
  by (simp add: ds_room_def demo_store_def mm_new_def demo_wal_fresh_def u64_max_numerals)

text \<open>The first transaction of the demonstration engine.\<close>

definition demo_txn :: u64 where
  "demo_txn = push_bit 32 7 + 1"

definition demo_begun :: DurableStorage where
  "demo_begun = ds_step demo_env (DBegin ReadWrite) demo_store"

lemma demo_begin_txn: "snd (wal_begin_transaction demo_platform demo_wal_fresh) = Inr demo_txn"
  by (simp add: wal_begin_transaction_def wal_alloc_txn_id_def cached_timestamp_us_def wal_append_def frame_for_write_def
      demo_wal_fresh_def ee_disabled_def ee_is_enabled_def Let_def demo_txn_def)

lemma demo_begun:
  "ds_reachable demo_env demo_begun" "mm_get demo_txn (ds_mvcc demo_begun) = Some (mt_with_mode demo_txn 1 ReadWrite)"
  "ds_room demo_begun"
proof -
  show "ds_reachable demo_env demo_begun"
    unfolding demo_begun_def by (rule ds_reachable.step [OF demo_store_reachable demo_store_room])
  show "mm_get demo_txn (ds_mvcc demo_begun) = Some (mt_with_mode demo_txn 1 ReadWrite)"
    using demo_begin_txn
    by (simp add: demo_begun_def ds_begin_with_mode_def demo_env_def demo_store_def case_prod_unfold mm_get_begin, simp add: mm_new_def)
  have "wal_next_txn_id demo_wal_fresh = demo_txn" by (simp add: demo_wal_fresh_def demo_txn_def)
  then show "ds_room demo_begun"
    using demo_begin_txn wal_begin_next(1) [of demo_platform demo_wal_fresh]
    by (simp add: ds_room_def demo_begun_def ds_begin_with_mode_def demo_env_def demo_store_def case_prod_unfold)
      (simp add: mm_new_def demo_txn_def u64_max_numerals)
qed

end
