(* ===== verification/Storage_Durability.thy ===== *)
theory Storage_Durability
  imports Storage_Isolation
begin

text \<open>
  What survives a crash: the engine's log across commits, reopening with recovery, the end-to-end
  durability of commits, and the cases in which the recovered state differs from the one that
  clients saw.
\<close>

subsection \<open>Applying recovered writes\<close>

lemma no_conflict_after_write: "\<not> vc_has_write_conflict u (vc_add_uncommitted x u c)"
  using vc_add_uncommitted_fields(2) [of x u c] by (auto simp: vc_has_write_conflict_def bsc_has_write_conflict_def)

lemma no_conflict_new: "\<not> vc_has_write_conflict u vc_new"
  by (simp add: vc_has_write_conflict_def bsc_has_write_conflict_def vc_new_def bsc_new_def)

lemma committed_vc_new: "bsc_committed vc_new = []"
  by (simp add: vc_new_def bsc_new_def)

lemma apply_writes_result:
  assumes "mtk_wf m" "\<forall>k. \<not> vc_has_write_conflict u (mtk_chain m k)"
  shows "snd (apply_writes u ws m) = Inr () \<and> mtk_wf (fst (apply_writes u ws m)) \<and>
    bsc_committed (mtk_chain (fst (apply_writes u ws m)) k) = bsc_committed (mtk_chain m k) \<and>
    (case map_of (rev ws) k of
       None \<Rightarrow> mtk_chain (fst (apply_writes u ws m)) k = mtk_chain m k
     | Some v \<Rightarrow> \<exists>ver. bsc_uncommitted (mtk_chain (fst (apply_writes u ws m)) k) = Some ver \<and>
         ver_value ver = Some v \<and> ver_txn_id ver = u)"
  using assms
proof (induction ws arbitrary: m)
  case (Cons w ws)
  obtain k' v where w: "w = (k', v)" by fastforce
  let ?m = "fst (mtk_write k' (Some v) u m)"
  have m: "mtk_write k' (Some v) u m = (?m, Inr ())"
    using kind.write_result [OF Cons.prems(1), of k' "Some v" u] Cons.prems(2) by (metis prod.collapse)
  have chain: "mtk_chain ?m j = (if j = k' then vc_add_uncommitted (Some v) u (mtk_chain m k') else mtk_chain m j)" for j
    using kind.chain_write [OF Cons.prems(1), of k' "Some v" u j] Cons.prems(2) by auto
  have ok: "mtk_wf ?m" "\<forall>k. \<not> vc_has_write_conflict u (mtk_chain ?m k)"
    using mtk_wf_write [OF Cons.prems(1)] Cons.prems(2) by (simp_all add: chain no_conflict_after_write)
  have "apply_writes u (w # ws) m = apply_writes u ws ?m" unfolding w apply_writes.simps
    by (subst m) (simp only: prod.case sum.case)
  then show ?case
    using Cons.IH [OF ok] vc_add_uncommitted_fields [of "Some v" u "mtk_chain m k'"]
    by (auto simp: w map_add_def chain split: option.splits if_splits)
qed simp

text \<open>A fresh engine whose log replays to \<open>ws\<close> recovers to the state with the last write of each key.\<close>

lemma recover_fresh:
  assumes "ds_mvcc s = mm_new" "ds_memtable s = mtk_new kind ordered" "ds_needs_recovery s \<noteq> 0"
    and "replay_for_recovery (de_platform E) (ds_wal s) = Inr (ws, c)"
  shows "snd (ds_recover E s) = Inr \<lparr>rs_transactions_recovered = c, rs_writes_recovered = length ws, rs_commit_ts = 1\<rparr>"
    and "ds_read_latest k (fst (ds_recover E s)) = map_of (rev ws) k"
proof -
  let ?u = "wal_next_txn_id (ds_wal s)"
  let ?m = "fst (apply_writes ?u ws (mtk_new kind ordered))"
  note res = apply_writes_result [OF mtk_wf_new, of ?u kind ordered ws, unfolded mtk_chain_new, simplified no_conflict_new committed_vc_new, simplified]
  have app: "snd (apply_writes ?u ws (mtk_new kind ordered)) = Inr ()" "mtk_wf ?m"
    "bsc_committed (mtk_chain ?m k) = []" for k
    using res [of k] by simp_all
  then have rec: "ds_recover E s =
      (s\<lparr>ds_wal := (ds_wal s)\<lparr>wal_next_txn_id := ?u + 1\<rparr>, ds_mvcc := mm_new\<lparr>mm_ts_counter := 2\<rparr>,
         ds_memtable := mtk_commit ?u 1 (remdups (map fst ws)) ?m, ds_needs_recovery := 0\<rparr>,
       Inr \<lparr>rs_transactions_recovered = c, rs_writes_recovered = length ws, rs_commit_ts = 1\<rparr>)"
    using assms unfolding ds_recover_def ds_apply_recovered_def
    by (simp add: wal_alloc_txn_id_def mm_alloc_commit_ts_def mm_new_def Let_def case_prod_unfold)
  then show "snd (ds_recover E s) = Inr \<lparr>rs_transactions_recovered = c, rs_writes_recovered = length ws, rs_commit_ts = 1\<rparr>"
    by simp
  show "ds_read_latest k (fst (ds_recover E s)) = map_of (rev ws) k"
  proof (cases "map_of (rev ws) k")
    case None
    then have "k \<notin> set (remdups (map fst ws))" by (simp add: map_of_eq_None_iff)
    moreover have "mtk_chain ?m k = vc_new" using res [of k] None by simp
    ultimately show ?thesis
      using None app(2) by (simp add: rec ds_read_latest_def kind.read_commit_other_key kind.read_eq chain_value_def)
  next
    case (Some v)
    then obtain ver where ver: "bsc_uncommitted (mtk_chain ?m k) = Some ver" "ver_value ver = Some v" "ver_txn_id ver = ?u"
      using res [of k] by auto
    have "k \<in> set (remdups (map fst ws))" using map_of_SomeD [OF Some] by force
    from kind.read_commit_visible [OF app(2) this ver(1,3), of 1 2 None] show ?thesis
      using Some ver(2) app(3) [of k] by (simp add: rec ds_read_latest_def)
  qed
qed

subsection \<open>Restarting\<close>

text \<open>
  A restart after a crash: open the directory with the file contents \<open>img\<close> and the same key, then
  recover.
\<close>

definition ds_restart ::
    "ds_env \<Rightarrow> MemTableType \<Rightarrow> bool \<Rightarrow> nat \<Rightarrow> bytes \<Rightarrow> DurableStorage \<Rightarrow> DurableStorage result" where
  "ds_restart E kind ordered tick img s =
     try_bind
       (ds_open E ordered kind (Inr ())
          (Inr \<lparr>es_is_encrypted = ds_at_rest_encrypted s, es_engine = wal_encryption (ds_wal s),
                es_db_uuid = wal_db_uuid (ds_wal s), es_key_epoch = wal_dek_epoch (ds_wal s)\<rparr>)
          \<lparr>dk_wal_log = img, dk_manifest = ds_manifest_file s, dk_clean_shutdown = ds_clean_shutdown_file s\<rparr> tick)
       (\<lambda>s1. case ds_recover E s1 of (s2, Inl e) \<Rightarrow> Inl e | (s2, Inr st) \<Rightarrow> Inr s2)"

definition manifest_ok :: "DurableStorage \<Rightarrow> bool" where
  "manifest_ok s \<longleftrightarrow> (\<forall>m. ds_manifest_file s = Some m \<longrightarrow> wm_format_version m = WAL_MANIFEST_FORMAT_VERSION)"

lemma ds_restart_cut:
  assumes "wal_cut (de_platform E) (ds_wal s) es img n" "manifest_ok s"
  shows "\<exists>s2. ds_restart E kind ordered tick img s = Inr s2 \<and>
    (\<forall>k. ds_read_latest k s2 = map_of (rev (committed_writes (take n es))) k)"
proof -
  let ?P = "de_platform E"
  obtain w' where w': "wal_reopen ?P img (ds_wal s) tick = Inr w'" using wal_reopen_cut [OF assms(1)] by blast
  obtain c where c: "replay_for_recovery ?P w' = Inr (committed_writes (take n es), c)"
    using wal_reopen_replay(1) [OF assms(1) w'] by blast
  let ?es = "\<lparr>es_is_encrypted = ds_at_rest_encrypted s, es_engine = wal_encryption (ds_wal s),
      es_db_uuid = wal_db_uuid (ds_wal s), es_key_epoch = wal_dek_epoch (ds_wal s)\<rparr>"
  let ?disk = "\<lparr>dk_wal_log = img, dk_manifest = ds_manifest_file s, dk_clean_shutdown = ds_clean_shutdown_file s\<rparr>"
  have "\<exists>s1. ds_open E ordered kind (Inr ()) (Inr ?es) ?disk tick = Inr s1"
    using w' assms(2)
    by (cases "ds_manifest_file s")
      (simp_all add: ds_open_def wal_reopen_def ds_check_recovery_needed_def wm_exists_def wm_load_def manifest_ok_def Let_def)
  then obtain s1 where s1: "ds_open E ordered kind (Inr ()) (Inr ?es) ?disk tick = Inr s1" by blast
  note f = ds_open_fields [OF s1]
  have "ds_wal s1 = w'" using f(7) w' by (simp add: wal_reopen_def)
  then have r: "replay_for_recovery ?P (ds_wal s1) = Inr (committed_writes (take n es), c)" using c by simp
  have "ds_needs_recovery s1 \<noteq> 0" using f(4) by simp
  note rec = recover_fresh [OF f(1,2) this r]
  have "ds_restart E kind ordered tick img s = Inr (fst (ds_recover E s1))"
    using rec(1) by (simp add: ds_restart_def s1 case_prod_unfold split: sum.split)
  with rec(2) show ?thesis by blast
qed

subsection \<open>Committed transactions of a log\<close>

text \<open>The writes of each commit record, transaction by transaction.\<close>

definition commits_of :: "TxnWalEntry list \<Rightarrow> (key \<times> val) list list" where
  "commits_of es =
     map (\<lambda>i. open_writes (we_txn_id (es ! i)) (take i es)) (filter (\<lambda>i. we_record_type (es ! i) = TxnCommit) [0..<length es])"

lemma commits_of_Nil [simp]: "commits_of [] = []"
  by (simp add: commits_of_def)

lemma commits_of_snoc:
  "commits_of (es @ [e]) =
     commits_of es @ (if we_record_type e = TxnCommit then [open_writes (we_txn_id e) es] else [])"
proof -
  have "filter (\<lambda>i. we_record_type ((es @ [e]) ! i) = TxnCommit) [0..<length es]
      = filter (\<lambda>i. we_record_type (es ! i) = TxnCommit) [0..<length es]"
    by (intro filter_cong) (auto simp: nth_append)
  then show ?thesis unfolding commits_of_def by (auto simp: nth_append)
qed

lemma concat_commits_of: "concat (commits_of es) = committed_writes es"
  by (induction es rule: rev_induct) (simp_all add: commits_of_snoc committed_writes_snoc, simp add: committed_writes_def)

lemma commits_of_take: "\<exists>m. commits_of (take n es) = take m (commits_of es)"
proof -
  have "prefix (commits_of as) (commits_of (as @ bs))" for as bs
    by (induction bs rule: rev_induct) (auto simp: commits_of_snoc simp flip: append_assoc intro: prefix_order.trans)
  then have "prefix (commits_of (take n es)) (commits_of es)" by (metis append_take_drop_id)
  then show ?thesis by (metis append_eq_conv_conj prefix_def)
qed

text \<open>Records of one transaction's writes.\<close>

definition data_entries :: "u64 \<Rightarrow> u64 list \<Rightarrow> (key \<times> val) list \<Rightarrow> TxnWalEntry list" where
  "data_entries t nows ws = map2 (\<lambda>now (k, v). entry_data now t k v) nows ws"

lemma data_entries_snoc:
  "length nows = length ws \<Longrightarrow> data_entries t (nows @ [now]) (ws @ [(k, v)]) = data_entries t nows ws @ [entry_data now t k v]"
  by (simp add: data_entries_def)

lemma data_entries_log:
  "length nows = length ws \<Longrightarrow> commits_of (es @ data_entries t nows ws) = commits_of es"
  "length nows = length ws \<Longrightarrow> open_writes u (es @ data_entries t nows ws) = open_writes u es @ (if u = t then ws else [])"
proof -
  show "commits_of (es @ data_entries t nows ws) = commits_of es" if "length nows = length ws"
    using that
    by (induction nows ws rule: rev_induct2)
      (auto simp: data_entries_snoc commits_of_snoc entry_data_def simp flip: append_assoc, simp add: data_entries_def)
  show "open_writes u (es @ data_entries t nows ws) = open_writes u es @ (if u = t then ws else [])" if "length nows = length ws"
    using that
    by (induction nows ws rule: rev_induct2)
      (auto simp: data_entries_snoc open_writes_snoc entry_data_def is_boundary_def simp flip: append_assoc, simp add: data_entries_def)
qed

subsection \<open>The engine's log\<close>

text \<open>The records of a key-value write are readable: their frame stays within the limit.\<close>

definition write_fits :: "TxnWal \<Rightarrow> key \<times> val \<Rightarrow> bool" where
  "write_fits w kv \<longleftrightarrow> frame_fits w (entry_data 0 0 (fst kv) (snd kv))"

lemma write_fits_entry: "write_fits w (k, v) \<longleftrightarrow> frame_fits w (entry_data now t k v)"
  by (simp add: write_fits_def frame_fits_def entry_len_def entry_data_def)

lemma write_fits_cong: "wal_key w = wal_key w' \<Longrightarrow> write_fits w = write_fits w'"
  using frame_fits_cong [of w w'] by (simp add: write_fits_def fun_eq_iff)

text \<open>
  \<open>es\<close> are the records in the log and \<open>B t\<close> the writes buffered for transaction \<open>t\<close>.
\<close>

definition buffer_repr :: "platform \<Rightarrow> TxnWal \<Rightarrow> u64 \<Rightarrow> TxnWalBuffer option \<Rightarrow> (key \<times> val) list \<Rightarrow> bool" where
  "buffer_repr P w t ob ws \<longleftrightarrow>
     (case ob of
        None \<Rightarrow> ws = []
      | Some b \<Rightarrow> tb_txn_id b = t \<and> (\<forall>kv \<in> set ws. write_fits w kv) \<and>
          (\<exists>nows. length nows = length ws \<and> tb_repr P b (data_entries t nows ws)))"

definition ds_log :: "ds_env \<Rightarrow> DurableStorage \<Rightarrow> TxnWalEntry list \<Rightarrow> (u64 \<Rightarrow> (key \<times> val) list) \<Rightarrow> bool" where
  "ds_log E s es B \<longleftrightarrow>
     cipher_ok (ds_wal s) \<and> wal_repr (de_platform E) (ds_wal s) es \<and> manifest_ok s \<and>
     (\<forall>t. buffer_repr (de_platform E) (ds_wal s) t (map_of (ds_txn_write_buffers s) t) (B t))"

lemma ds_log_parts:
  assumes "ds_log E s es B"
  shows "cipher_ok (ds_wal s)" "wal_repr (de_platform E) (ds_wal s) es" "manifest_ok s"
    "buffer_repr (de_platform E) (ds_wal s) t (map_of (ds_txn_write_buffers s) t) (B t)"
  using assms by (simp_all add: ds_log_def)

lemma buffer_repr_cong: "wal_key w = wal_key w' \<Longrightarrow> buffer_repr P w = buffer_repr P w'"
  using write_fits_cong [of w w'] by (intro ext) (simp add: buffer_repr_def split: option.split)

lemma ds_log_wal:
  assumes "ds_log E s es B" "wal_repr (de_platform E) (ds_wal s') es'" "wal_key (ds_wal s') = wal_key (ds_wal s)"
    and "ds_manifest_file s' = ds_manifest_file s" "ds_txn_write_buffers s' = ds_txn_write_buffers s"
  shows "ds_log E s' es' B"
  using assms cipher_ok_cong [OF assms(3)] buffer_repr_cong [OF assms(3)] by (simp add: ds_log_def manifest_ok_def)

lemma ds_log_same:
  assumes "ds_log E s es B" "ds_wal s' = ds_wal s" "ds_manifest_file s' = ds_manifest_file s"
    "ds_txn_write_buffers s' = ds_txn_write_buffers s"
  shows "ds_log E s' es B"
  using ds_log_wal [OF assms(1), of s' es] ds_log_parts(2) [OF assms(1)] assms(2-4) by simp

text \<open>Appending one record, in whichever way the engine does it.\<close>

lemma wal_append_log:
  assumes "platform_ok P" "cipher_ok w" "wal_repr P w es" "frame_fits w e" "wal_append P e w = (w', Inr seq)"
  shows "wal_repr P w' (es @ [e])" "wal_key w' = wal_key w" "seq = word_of_nat (length es)"
  using wal_append_repr [OF assms(1-4)] assms(5) by simp_all

lemma control_fits: "frame_fits w (txn_begin now t)" "frame_fits w (txn_commit now t)" "frame_fits w (txn_abort now t)"
  "frame_fits w (entry_checkpoint now t)"
  by (simp_all add: frame_fits_def entry_len_def txn_begin_def txn_commit_def txn_abort_def entry_checkpoint_def
      unat_MAX_WAL_FRAME_LEN HEADER_SIZE_def NONCE_SIZE_def)

lemma ds_log_buffer_append:
  assumes "ds_log E s es B" "write_fits (ds_wal s) (k, v)"
  shows "ds_log E (ds_buffer_append E t k v s) es (B(t := B t @ [(k, v)]))"
proof -
  let ?P = "de_platform E" and ?w = "(ds_wal s)\<lparr>wal_tick := wal_tick (ds_wal s) + 1\<rparr>"
  let ?now = "snd (cached_timestamp_us ?P (ds_wal s))"
  let ?b = "case map_of (ds_txn_write_buffers s) t of Some b \<Rightarrow> b | None \<Rightarrow> tb_new t"
  have id: "tb_txn_id ?b = t" and fits: "\<forall>kv \<in> set (B t). write_fits (ds_wal s) kv"
    using ds_log_parts(4) [OF assms(1), of t] by (auto simp: buffer_repr_def tb_new_def split: option.splits)
  obtain nows where nows: "length nows = length (B t)" "tb_repr ?P ?b (data_entries t nows (B t))"
    using ds_log_parts(4) [OF assms(1), of t] tb_repr_new [of ?P t]
    by (auto simp: buffer_repr_def data_entries_def split: option.splits)
  have "tb_repr ?P (tb_append ?P ?now k v ?b) (data_entries t (nows @ [?now]) (B t @ [(k, v)]))"
    using tb_repr_append [OF nows(2), of ?now k v] id by (simp add: data_entries_snoc [OF nows(1)])
  moreover have "tb_txn_id (tb_append ?P ?now k v ?b) = t" using id by (simp add: tb_append_def Let_def)
  ultimately have "buffer_repr ?P (ds_wal s) t (Some (tb_append ?P ?now k v ?b)) (B t @ [(k, v)])"
    using fits assms(2) nows(1) unfolding buffer_repr_def option.case
    by (auto intro!: exI [of _ "nows @ [?now]"])
  moreover have "wal_repr ?P ?w es" "wal_key ?w = wal_key (ds_wal s)" using ds_log_parts(2) [OF assms(1)] wal_repr_tick by auto
  ultimately show ?thesis
    using assms(1) cipher_ok_cong [of ?w "ds_wal s"] buffer_repr_cong [of ?w "ds_wal s" ?P]
    by (simp add: ds_log_def manifest_ok_def ds_buffer_append_def cached_timestamp_us_def Let_def)
qed

lemma ds_log_flush_data:
  assumes "platform_ok (de_platform E)" "ds_log E s es B" "ds_flush_data E t s = (s', Inr ())"
  shows "\<exists>nows. length nows = length (B t) \<and> ds_log E s' (es @ data_entries t nows (B t)) (B(t := []))"
    "ds_sync_mode s' = ds_sync_mode s \<and> ds_group_commit s' = ds_group_commit s"
proof -
  let ?P = "de_platform E"
  note rep = ds_log_parts [OF assms(2)]
  show "ds_sync_mode s' = ds_sync_mode s \<and> ds_group_commit s' = ds_group_commit s"
    using assms(3) by (auto simp: ds_flush_data_def Let_def split: option.splits if_splits prod.splits sum.splits)
  show "\<exists>nows. length nows = length (B t) \<and> ds_log E s' (es @ data_entries t nows (B t)) (B(t := []))"
  proof (cases "map_of (ds_txn_write_buffers s) t")
    case None
    then have "B t = []" using rep(4) [of t] by (simp add: buffer_repr_def)
    with None assms show ?thesis by (simp add: ds_flush_data_def data_entries_def fun_upd_idem)
  next
    case (Some b)
    obtain nows where nows: "length nows = length (B t)" "tb_repr ?P b (data_entries t nows (B t))"
      and fits: "\<forall>kv \<in> set (B t). write_fits (ds_wal s) kv"
      using rep(4) [of t] Some by (auto simp: buffer_repr_def)
    have fits': "\<forall>e \<in> set (data_entries t nows (B t)). frame_fits (ds_wal s) e"
      using fits by (auto simp: data_entries_def write_fits_entry [symmetric] dest: set_zip_rightD)
    have flush: "\<exists>seq. wal_flush_buffer ?P b (ds_wal s) = (ds_wal s', Inr seq)"
      using assms(3) Some
      by (auto simp: ds_flush_data_def wal_flush_buffer_def Let_def split: if_splits prod.splits sum.splits)
    then have repr: "wal_repr ?P (ds_wal s') (es @ data_entries t nows (B t))" and key: "wal_key (ds_wal s') = wal_key (ds_wal s)"
      using wal_flush_buffer_repr [OF assms(1) rep(1,2) nows(2) fits'] by blast+
    have other: "ds_manifest_file s' = ds_manifest_file s" "ds_txn_write_buffers s' = dm_remove t (ds_txn_write_buffers s)"
      using assms(3) Some by (auto simp: ds_flush_data_def Let_def split: if_splits prod.splits sum.splits)
    have "ds_log E s' (es @ data_entries t nows (B t)) (B(t := []))"
      using repr rep(1,3,4) cipher_ok_cong [OF key] buffer_repr_cong [OF key, of ?P]
      by (auto simp: ds_log_def manifest_ok_def other buffer_repr_def)
    with nows(1) show ?thesis by blast
  qed
qed

text \<open>The commit record: with full sync or group commit everything is synced when it is acknowledged.\<close>

definition wal_all_synced :: "TxnWal \<Rightarrow> bool" where
  "wal_all_synced w \<longleftrightarrow> wal_buf w = [] \<and> wal_synced w = length (wal_file w)"

definition syncs_commits :: "DurableStorage \<Rightarrow> bool" where
  "syncs_commits s \<longleftrightarrow> ds_group_commit s \<or> ds_sync_mode s \<notin> {0, 1}"

lemma ds_update_arrival_rate_wal:
  "ds_wal (ds_update_arrival_rate E s) = (ds_wal s)\<lparr>wal_tick := wal_tick (ds_wal s) + 1\<rparr>"
  "ds_manifest_file (ds_update_arrival_rate E s) = ds_manifest_file s"
  "ds_txn_write_buffers (ds_update_arrival_rate E s) = ds_txn_write_buffers s"
  by (simp_all add: ds_update_arrival_rate_def cached_timestamp_us_def Let_def)

lemma wal_flush_sync_repr:
  assumes "wal_repr P w es"
  shows "wal_repr P (fst (wal_sync (fst (wal_flush w)))) es" "wal_key (fst (wal_sync (fst (wal_flush w)))) = wal_key w"
    "wal_all_synced (fst (wal_sync (fst (wal_flush w))))"
  using wal_sync_repr [OF wal_repr_flush [OF assms]] by (simp_all add: wal_flush_def wal_all_synced_def bw_flush_def wal_key_def)

lemma ds_log_log_commit:
  assumes "platform_ok (de_platform E)" "ds_log E s es B" "ds_log_commit E t s = (s', Inr ())"
  shows "\<exists>now. ds_log E s' (es @ [txn_commit now t]) B" "syncs_commits s \<Longrightarrow> wal_all_synced (ds_wal s')"
proof -
  let ?P = "de_platform E"
  note rep = ds_log_parts [OF assms(2)]
  have "(\<exists>now. ds_log E s' (es @ [txn_commit now t]) B) \<and> (syncs_commits s \<longrightarrow> wal_all_synced (ds_wal s'))"
  proof (cases "ds_group_commit s")
    case True
    then have w: "wal_commit_durable_batch ?P [t] (ds_wal s) = (ds_wal s', Inr ())"
      and other: "ds_manifest_file s' = ds_manifest_file s" "ds_txn_write_buffers s' = ds_txn_write_buffers s"
      using assms(3) by (auto simp: ds_log_commit_def ds_group_submit_def Let_def as_internal_def split: prod.splits sum.splits failure.splits)
    obtain nows where nows: "length nows = length [t]" "wal_repr ?P (ds_wal s') (es @ map2 txn_commit nows [t])"
      "wal_all_synced (ds_wal s')" "wal_key (ds_wal s') = wal_key (ds_wal s)"
      using commit_durable_batch_repr [OF assms(1) rep(1,2) w] by (auto simp: wal_all_synced_def)
    from nows(1) obtain now where "nows = [now]" by (auto simp: length_Suc_conv)
    with nows ds_log_wal [OF assms(2) _ nows(4) other] show ?thesis by auto
  next
    case False
    let ?s = "ds_update_arrival_rate E (s\<lparr>ds_commits_since_sync := ds_commits_since_sync s + 1\<rparr>)"
    let ?w = "fst (cached_timestamp_us ?P (ds_wal ?s))" and ?now = "snd (cached_timestamp_us ?P (ds_wal ?s))"
    have w: "wal_repr ?P ?w es" "wal_key ?w = wal_key (ds_wal s)"
      using rep(2) by (simp_all add: ds_update_arrival_rate_wal cached_timestamp_us_def wal_repr_tick)
    obtain w1 r where r: "wal_append ?P (txn_commit ?now t) ?w = (w1, r)" by fastforce
    then obtain seq where w1: "wal_append ?P (txn_commit ?now t) ?w = (w1, Inr seq)"
      using assms(3) False by (cases r) (auto simp: ds_log_commit_def ds_direct_commit_def wal_append_no_flush_def Let_def case_prod_unfold)
    have repr1: "wal_repr ?P w1 (es @ [txn_commit ?now t])" "wal_key w1 = wal_key (ds_wal s)"
      using wal_append_log [OF assms(1) _ w(1) control_fits(2) w1] rep(1) cipher_ok_cong [OF w(2)] w(2) by simp_all
    have s': "ds_wal s' = w1 \<and> ds_sync_mode s \<in> {0, 1} \<or> ds_wal s' = fst (wal_sync (fst (wal_flush w1)))"
      "ds_manifest_file s' = ds_manifest_file s" "ds_txn_write_buffers s' = ds_txn_write_buffers s"
      using assms(3) False w1
      by (auto simp: ds_log_commit_def ds_direct_commit_def wal_append_no_flush_def ds_should_sync_def ds_update_arrival_rate_wal
          wal_flush_def wal_sync_def Let_def case_prod_unfold split: sum.splits if_splits)
    from s'(1) wal_flush_sync_repr [OF repr1(1)] repr1
    have "wal_repr ?P (ds_wal s') (es @ [txn_commit ?now t])" "wal_key (ds_wal s') = wal_key (ds_wal s)"
      "ds_sync_mode s \<notin> {0, 1} \<longrightarrow> wal_all_synced (ds_wal s')" by auto
    with ds_log_wal [OF assms(2) _ _ s'(2,3)] False show ?thesis by (auto simp: syncs_commits_def)
  qed
  then show "\<exists>now. ds_log E s' (es @ [txn_commit now t]) B" "syncs_commits s \<Longrightarrow> wal_all_synced (ds_wal s')" by blast+
qed

lemma ds_log_commit_ok:
  assumes "platform_ok (de_platform E)" "ds_log E s es B" "ds_commit E t s = (s', Inr cts)"
  shows "\<exists>nows now. length nows = length (B t) \<and>
      ds_log E s' (es @ data_entries t nows (B t) @ [txn_commit now t]) (B(t := []))"
    "syncs_commits s \<Longrightarrow> wal_all_synced (ds_wal s')"
proof -
  let ?c = "mm_commit (de_hashers E) t (ds_mvcc (fst (ds_flush_data E t s)))"
  obtain s1 where s1: "ds_flush_data E t s = (s1, Inr ())"
    using assms(3) unfolding ds_commit_eq Let_def by (cases "ds_flush_data E t s") (auto split: sum.splits)
  obtain s2 where s2: "ds_log_commit E t (s1\<lparr>ds_mvcc := fst ?c\<rparr>) = (s2, Inr ())"
      and s': "ds_wal s' = ds_wal s2" "ds_manifest_file s' = ds_manifest_file s2" "ds_txn_write_buffers s' = ds_txn_write_buffers s2"
    using assms(3) s1 unfolding ds_commit_eq Let_def
    by (cases "ds_log_commit E t (s1\<lparr>ds_mvcc := fst ?c\<rparr>)") (auto split: sum.splits option.splits)
  obtain nows where nows: "length nows = length (B t)" "ds_log E s1 (es @ data_entries t nows (B t)) (B(t := []))"
    using ds_log_flush_data(1) [OF assms(1,2) s1] by blast
  from ds_log_same [OF this(2), of "s1\<lparr>ds_mvcc := fst ?c\<rparr>"]
  have log: "ds_log E (s1\<lparr>ds_mvcc := fst ?c\<rparr>) (es @ data_entries t nows (B t)) (B(t := []))" by simp
  note lc = ds_log_log_commit [OF assms(1) log s2]
  from lc(1) nows(1) ds_log_same [OF _ s'] show "\<exists>nows now. length nows = length (B t) \<and>
      ds_log E s' (es @ data_entries t nows (B t) @ [txn_commit now t]) (B(t := []))"
    by (metis append_assoc)
  show "wal_all_synced (ds_wal s')" if "syncs_commits s"
    using lc(2) that ds_log_flush_data(2) [OF assms(1,2) s1] s'(1) by (simp add: syncs_commits_def)
qed

text \<open>No logging failure looks like a refused commit.\<close>

lemma wal_append_error: "wal_append P e w = (w', Inl err) \<Longrightarrow> err \<noteq> commit_refused"
  by (auto simp: wal_append_def frame_for_write_def encrypt_frame_def try_bind_def lift_enc_def enc_error_def commit_refused_def Let_def
      split: if_splits prod.splits sum.splits)

lemma flush_frames_error: "flush_frames P buf n w = (w', Inl err) \<Longrightarrow> err \<noteq> commit_refused"
proof (induction P buf n w rule: flush_frames.induct)
  case (1 P buf n w)
  note prem = 1(2) [unfolded flush_frames.simps [of P buf n w]]
  show ?case
    using 1(1) prem
    by (auto simp: Let_def encrypt_frame_def try_bind_def lift_enc_def enc_error_def commit_refused_def split: if_splits prod.splits sum.splits)
qed

lemma ds_log_commit_error: "ds_log_commit E t s = (s', Inl err) \<Longrightarrow> err \<noteq> commit_refused"
proof (cases "ds_group_commit s")
  case True
  then show "ds_log_commit E t s = (s', Inl err) \<Longrightarrow> err \<noteq> commit_refused"
    by (auto simp: ds_log_commit_def ds_group_submit_def as_internal_def commit_refused_def Let_def
        split: prod.splits sum.splits failure.splits)
next
  case False
  then show "ds_log_commit E t s = (s', Inl err) \<Longrightarrow> err \<noteq> commit_refused"
    by (auto simp: ds_log_commit_def ds_direct_commit_def wal_append_no_flush_def wal_flush_def wal_sync_def Let_def
        dest: wal_append_error split: prod.splits sum.splits if_splits)
qed

lemma ds_flush_data_error: "ds_flush_data E t s = (s', Inl err) \<Longrightarrow> err \<noteq> commit_refused"
  by (auto simp: ds_flush_data_def wal_flush_buffer_def Let_def dest: flush_frames_error
      split: option.splits if_splits prod.splits sum.splits)

text \<open>A refused commit has moved the writes from the buffer to the log and forgotten the transaction.\<close>

lemma ds_commit_refused:
  assumes "ds_commit E t s = (s', Inl commit_refused)"
  shows "\<exists>s1. ds_flush_data E t s = (s1, Inr ()) \<and> s' = s1\<lparr>ds_mvcc := fst (mm_commit (de_hashers E) t (ds_mvcc s1))\<rparr>"
proof -
  obtain s1 r1 where s1: "ds_flush_data E t s = (s1, r1)" by fastforce
  let ?c = "mm_commit (de_hashers E) t (ds_mvcc s1)"
  obtain s2 r2 where s2: "ds_log_commit E t (s1\<lparr>ds_mvcc := fst ?c\<rparr>) = (s2, r2)" by fastforce
  show ?thesis
    using assms s1 s2 unfolding ds_commit_eq Let_def
    by (auto dest: ds_flush_data_error ds_log_commit_error split: sum.splits option.splits)
qed

subsection \<open>Histories\<close>

text \<open>
  What clients did to an engine that was created on an empty directory, and truncated and restarted since.  \<open>W\<close> lists, in order, what each
  acknowledged commit since the last truncation has put in the log, and \<open>Q t\<close> what a commit of \<open>t\<close> would add.  The log counts, not the answer to
  the client: a write that the memtable refused is in \<open>Q t\<close> like any other, and a delete is a write of the empty value, because
  \<^verbatim>\<open>write\<close> and \<^verbatim>\<open>delete\<close> append to the log buffer before they ask the memtable.  Operations that touch neither are silent.  A history does not go on
  after an operation that failed to write its log record, after a record over the frame limit (\<open>write_fits\<close>), and after a restart over a torn
  tail, behind which later commits are lost (\<open>torn_tail_hides_later_commits\<close>).
\<close>

text \<open>How many writes of a transaction are still in its memory buffer; truncation drops the others, a restart these.\<close>

definition buffered_writes :: "DurableStorage \<Rightarrow> u64 \<Rightarrow> nat" where
  "buffered_writes s t = (case map_of (ds_txn_write_buffers s) t of None \<Rightarrow> 0 | Some b \<Rightarrow> tb_entry_count b)"

fun silent_op :: "ds_op \<Rightarrow> DurableStorage \<Rightarrow> bool" where
  "silent_op DBeginFast s = True"
| "silent_op (DRead t k) s = True"
| "silent_op (DScan t p) s = True"
| "silent_op (DScanRange t lo hi) s = True"
| "silent_op (DScanLatest p) s = True"
| "silent_op (DAbortFast t) s = True"
| "silent_op DGc s = True"
| "silent_op DFlush s = True"
| "silent_op DFsync s = True"
| "silent_op (DSyncMode n) s = True"
| "silent_op DEnablePitr s = True"
| "silent_op DRecover s = True"
| "silent_op DTruncate s = ds_pitr_enabled s"
| "silent_op _ s = False"

inductive ds_history :: "ds_env \<Rightarrow> DurableStorage \<Rightarrow> (key \<times> val) list list \<Rightarrow> (u64 \<Rightarrow> (key \<times> val) list) \<Rightarrow> bool" for E where
  created: "ds_open E ordered kind lock (Inr ks) \<lparr>dk_wal_log = [], dk_manifest = None, dk_clean_shutdown = c\<rparr> tick = Inr s \<Longrightarrow>
     cipher_ok (ds_wal s) \<Longrightarrow> ds_history E s [] (\<lambda>_. [])"
| grouped: "ds_history E s W Q \<Longrightarrow> ds_history E (s\<lparr>ds_group_commit := True\<rparr>) W Q"
| silent: "ds_history E s W Q \<Longrightarrow> silent_op op s \<Longrightarrow> ds_history E (ds_step E op s) W Q"
| begun: "ds_history E s W Q \<Longrightarrow> ds_begin_with_mode E mode s = (s', Inr t) \<Longrightarrow> map_of (ds_txn_write_buffers s) t = None \<Longrightarrow>
     ds_history E s' W (Q(t := []))"
| written: "ds_history E s W Q \<Longrightarrow> write_fits (ds_wal s) (k, v) \<Longrightarrow>
     ds_history E (fst (ds_write E t k v s)) W (Q(t := Q t @ [(k, v)]))"
| deleted: "ds_history E s W Q \<Longrightarrow> write_fits (ds_wal s) (k, []) \<Longrightarrow>
     ds_history E (fst (ds_delete E t k s)) W (Q(t := Q t @ [(k, [])]))"
| batch: "ds_history E s W Q \<Longrightarrow> \<forall>kv \<in> set ws. write_fits (ds_wal s) kv \<Longrightarrow>
     ds_history E (fst (ds_write_batch_refs E t ws s)) W (Q(t := Q t @ ws))"
| committed: "ds_history E s W Q \<Longrightarrow> ds_commit E t s = (s', Inr cts) \<Longrightarrow> ds_history E s' (W @ [Q t]) (Q(t := []))"
| refused: "ds_history E s W Q \<Longrightarrow> ds_commit E t s = (s', Inl commit_refused) \<Longrightarrow> ds_history E s' W Q"
| aborted: "ds_history E s W Q \<Longrightarrow> map_of (ds_txn_write_buffers s) t \<noteq> None \<Longrightarrow> ds_abort E t s = (s', Inr ()) \<Longrightarrow>
     ds_history E s' W (Q(t := []))"
| aborted_unlogged: "ds_history E s W Q \<Longrightarrow> map_of (ds_txn_write_buffers s) t = None \<Longrightarrow> ds_history E (fst (ds_abort E t s)) W Q"
| checkpointed: "ds_history E s W Q \<Longrightarrow> ds_checkpoint E s = (s', Inr lsn) \<Longrightarrow> ds_history E s' W Q"
| truncated: "ds_history E s W Q \<Longrightarrow> \<not> ds_pitr_enabled s \<Longrightarrow>
     ds_history E (fst (ds_truncate_wal s)) [] (\<lambda>t. drop (length (Q t) - buffered_writes s t) (Q t))"
| restarted: "ds_history E s W Q \<Longrightarrow> wal_buf (ds_wal s) = [] \<Longrightarrow> ds_restart E kind ordered tick (wal_file (ds_wal s)) s = Inr s' \<Longrightarrow>
     ds_history E s' W (\<lambda>t. take (length (Q t) - buffered_writes s t) (Q t))"

text \<open>The log holds the history.\<close>

definition ds_logged :: "ds_env \<Rightarrow> DurableStorage \<Rightarrow> (key \<times> val) list list \<Rightarrow> (u64 \<Rightarrow> (key \<times> val) list) \<Rightarrow> bool" where
  "ds_logged E s W Q \<longleftrightarrow> (\<exists>es B. ds_log E s es B \<and> W = commits_of es \<and> Q = (\<lambda>t. open_writes t es @ B t))"

lemma ds_logged_same:
  assumes "ds_logged E s W Q" "ds_wal s' = ds_wal s" "ds_manifest_file s' = ds_manifest_file s"
    "ds_txn_write_buffers s' = ds_txn_write_buffers s"
  shows "ds_logged E s' W Q"
  using assms(1) ds_log_same [OF _ assms(2-4)] unfolding ds_logged_def by blast

lemma ds_logged_silent:
  assumes "ds_logged E s W Q" "silent_op op s"
  shows "ds_logged E (ds_step E op s) W Q"
proof -
  obtain es B where log: "ds_log E s es B" "W = commits_of es" "Q = (\<lambda>t. open_writes t es @ B t)"
    using assms(1) by (auto simp: ds_logged_def)
  have "ds_log E (ds_step E op s) es B"
  proof (cases op)
    case DFlush
    then show ?thesis
      using ds_log_wal [OF log(1)] wal_repr_flush [OF ds_log_parts(2) [OF log(1)]]
      by (simp add: ds_flush_wal_def wal_flush_def bw_flush_def wal_key_def)
  next
    case DFsync
    then show ?thesis
      using ds_log_wal [OF log(1)] wal_sync_repr [OF ds_log_parts(2) [OF log(1)]] by (simp add: ds_fsync_def case_prod_unfold Let_def)
  next
    case DEnablePitr
    then show ?thesis
      using log(1)
      by (auto simp: ds_log_def manifest_ok_def ds_enable_point_in_time_recovery_def ds_persist_pitr_manifest_def wm_load_def
          wm_exists_def wm_new_def Let_def split: option.splits)
  next
    case DRecover
    have "ds_wal (fst (ds_recover E s)) = ds_wal s \<or> (\<exists>n. ds_wal (fst (ds_recover E s)) = (ds_wal s)\<lparr>wal_next_txn_id := n\<rparr>)"
      "ds_manifest_file (fst (ds_recover E s)) = ds_manifest_file s"
      "ds_txn_write_buffers (fst (ds_recover E s)) = ds_txn_write_buffers s"
      by (auto simp: ds_recover_def ds_apply_recovered_def wal_alloc_txn_id_def mm_alloc_commit_ts_def Let_def case_prod_unfold
          split: sum.split)
    with DRecover show ?thesis
      using ds_log_wal [OF log(1)] ds_log_parts(2) [OF log(1)] by auto
  next
    case DBeginFast
    then show ?thesis
      using ds_log_wal [OF log(1)] ds_log_parts(2) [OF log(1)]
      by (simp add: ds_begin_read_only_fast_def wal_alloc_txn_id_def case_prod_unfold Let_def)
  qed (use ds_log_same [OF log(1)] assms(2) log(1) in
      \<open>simp_all add: ds_read_def ds_scan_def ds_scan_range_def ds_scan_latest_def ds_abort_read_only_fast_def ds_gc_def
        ds_truncate_wal_def ds_set_sync_mode_def Let_def case_prod_unfold split: option.split\<close>)
  with log(2,3) show ?thesis by (auto simp: ds_logged_def)
qed

lemma wal_loop_empty [simp]: "wal_loop P w body torn [] ord st = Inr st"
proof -
  have "read_record P w [] ord = Inl (Err (Io UnexpectedEof))" by (simp add: read_record_def from_reader_def read_u32_short)
  then show ?thesis by (subst wal_loop.simps) simp
qed

lemma wal_repr_created: "new_with_encryption P [] engine uuid ep tick = Inr w \<Longrightarrow> wal_repr P w []"
  by (auto simp: new_with_encryption_def recover_state_def wal_repr_def)

lemma ds_logged_created:
  assumes "ds_open E ordered kind lock (Inr ks) \<lparr>dk_wal_log = [], dk_manifest = None, dk_clean_shutdown = c\<rparr> tick = Inr s"
    and "cipher_ok (ds_wal s)"
  shows "ds_logged E s [] (\<lambda>_. [])"
proof -
  have "new_with_encryption (de_platform E) [] (es_engine ks) (es_db_uuid ks) (es_key_epoch ks) tick = Inr (ds_wal s)"
    and s: "ds_manifest_file s = None" "ds_txn_write_buffers s = []"
    using assms(1) by (auto simp: ds_open_def ds_check_recovery_needed_def wm_exists_def Let_def try_bind_eq_Inr split: sum.splits if_splits)
  then have "wal_repr (de_platform E) (ds_wal s) []" by (blast intro: wal_repr_created)
  with s assms(2) have "ds_log E s [] (\<lambda>_. [])" by (simp add: ds_log_def manifest_ok_def buffer_repr_def)
  then show ?thesis by (auto simp: ds_logged_def open_writes_def intro!: exI [of _ "[]"])
qed

text \<open>A record appended through the log: the state keeps everything but the log.\<close>

lemma ds_logged_append:
  assumes "ds_logged E s W Q" "platform_ok (de_platform E)" "frame_fits (ds_wal s) e" "we_record_type e \<noteq> TxnCommit"
    and "we_record_type e \<noteq> Data" "wal_append (de_platform E) e w = (w', Inr seq)" "wal_key w = wal_key (ds_wal s)"
    and "\<And>es. wal_repr (de_platform E) (ds_wal s) es \<Longrightarrow> wal_repr (de_platform E) w es"
    and "\<And>es. wal_repr (de_platform E) w' es \<Longrightarrow> wal_repr (de_platform E) (ds_wal s') es"
    and "wal_key (ds_wal s') = wal_key w'" "ds_manifest_file s' = ds_manifest_file s"
    and "ds_txn_write_buffers s' = ds_txn_write_buffers s"
  shows "\<exists>es B. ds_log E s (es :: TxnWalEntry list) B \<and> ds_log E s' (es @ [e]) B \<and> W = commits_of (es @ [e]) \<and>
    Q = (\<lambda>t. open_writes t es @ B t)"
proof -
  obtain es B where log: "ds_log E s es B" "W = commits_of es" "Q = (\<lambda>t. open_writes t es @ B t)"
    using assms(1) by (auto simp: ds_logged_def)
  have c: "cipher_ok w" "frame_fits w e"
    using ds_log_parts(1) [OF log(1)] cipher_ok_cong [OF assms(7)] frame_fits_cong [OF assms(7)] assms(3) by simp_all
  note app = wal_append_log [OF assms(2) c(1) assms(8) [OF ds_log_parts(2) [OF log(1)]] c(2) assms(6)]
  have "ds_log E s' (es @ [e]) B"
    by (rule ds_log_wal [OF log(1) assms(9) [OF app(1)] _ assms(11,12)]) (simp add: assms(7,10) app(2))
  with log assms(4) show ?thesis by (intro exI [of _ es] exI [of _ B]) (simp add: commits_of_snoc)
qed

lemma ds_logged_begin:
  assumes "ds_logged E s W Q" "platform_ok (de_platform E)" "ds_begin_with_mode E mode s = (s', Inr t)"
    and "map_of (ds_txn_write_buffers s) t = None"
  shows "ds_logged E s' W (Q(t := []))"
proof -
  let ?P = "de_platform E"
  let ?w = "(ds_wal s)\<lparr>wal_next_txn_id := wal_next_txn_id (ds_wal s) + 1, wal_tick := wal_tick (ds_wal s) + 1\<rparr>"
  let ?e = "txn_begin (pf_clock ?P (wal_tick (ds_wal s))) t"
  obtain w' where b: "wal_begin_transaction ?P (ds_wal s) = (w', Inr t)"
    and s': "s' = s\<lparr>ds_wal := w', ds_mvcc := fst (mm_begin_with_mode t mode (ds_mvcc s))\<rparr>"
    using assms(3) by (auto simp: ds_begin_with_mode_def split: prod.splits sum.splits)
  then obtain seq where app: "wal_append ?P ?e ?w = (w', Inr seq)"
    by (auto simp: wal_begin_transaction_def wal_alloc_txn_id_def cached_timestamp_us_def split: prod.splits sum.splits)
  obtain es B where log: "ds_log E s es B" "ds_log E s' (es @ [?e]) B" "W = commits_of (es @ [?e])"
    "Q = (\<lambda>t. open_writes t es @ B t)"
    using ds_logged_append [OF assms(1,2) control_fits(1) _ _ app, of s'] wal_repr_tick
    by (auto simp: s' txn_begin_def)
  have "B t = []" using ds_log_parts(4) [OF log(1), of t] assms(4) by (simp add: buffer_repr_def)
  then have "Q(t := []) = (\<lambda>u. open_writes u (es @ [?e]) @ B u)"
    by (auto simp: log(4) open_writes_snoc is_boundary_def txn_begin_def)
  then show ?thesis using log(2,3) by (auto simp: ds_logged_def)
qed

lemma ds_logged_abort:
  assumes "ds_logged E s W Q" "platform_ok (de_platform E)" "ds_abort E t s = (s', Inr ())"
    and "map_of (ds_txn_write_buffers s) t \<noteq> None"
  shows "ds_logged E s' W (Q(t := []))"
proof -
  let ?P = "de_platform E" and ?w = "(ds_wal s)\<lparr>wal_tick := wal_tick (ds_wal s) + 1\<rparr>"
  let ?e = "txn_abort (pf_clock ?P (wal_tick (ds_wal s))) t"
  obtain w' where w': "wal_abort_transaction ?P t (ds_wal s) = (w', Inr ())"
    and s': "ds_wal s' = w'" "ds_manifest_file s' = ds_manifest_file s" "ds_txn_write_buffers s' = dm_remove t (ds_txn_write_buffers s)"
    using assms(3,4) by (auto simp: ds_abort_def Let_def split: prod.splits sum.splits)
  then obtain seq where app: "wal_append ?P ?e ?w = (w', Inr seq)"
    by (auto simp: wal_abort_transaction_def cached_timestamp_us_def split: prod.splits sum.splits)
  obtain es B where log: "ds_log E s es B" "ds_log E (s\<lparr>ds_wal := w'\<rparr>) (es @ [?e]) B" "W = commits_of (es @ [?e])"
    "Q = (\<lambda>t. open_writes t es @ B t)"
    using ds_logged_append [OF assms(1,2) control_fits(3) _ _ app, of "s\<lparr>ds_wal := w'\<rparr>"] wal_repr_tick
    by (auto simp: txn_abort_def)
  have "ds_log E s' (es @ [?e]) (B(t := []))"
    using log(2) s' by (auto simp: ds_log_def manifest_ok_def buffer_repr_def)
  moreover have "Q(t := []) = (\<lambda>u. open_writes u (es @ [?e]) @ (B(t := [])) u)"
    by (auto simp: log(4) open_writes_snoc is_boundary_def txn_abort_def)
  ultimately show ?thesis using log(3) unfolding ds_logged_def by blast
qed

lemma ds_logged_checkpoint:
  assumes "ds_logged E s W Q" "platform_ok (de_platform E)" "ds_checkpoint E s = (s', Inr lsn)"
  shows "ds_logged E s' W Q"
proof -
  let ?P = "de_platform E" and ?w = "(ds_wal s)\<lparr>wal_tick := wal_tick (ds_wal s) + 1\<rparr>"
  let ?e = "entry_checkpoint (pf_clock ?P (wal_tick (ds_wal s))) 0"
  obtain w1 where app: "wal_append ?P ?e ?w = (w1, Inr lsn)" and s': "ds_wal s' = fst (wal_sync w1)"
    and other: "ds_txn_write_buffers s' = ds_txn_write_buffers s" "manifest_ok s \<Longrightarrow> manifest_ok s'"
    using assms(3)
    by (auto simp: ds_checkpoint_def wal_append_sync_def cached_timestamp_us_def manifest_ok_def ds_persist_pitr_manifest_def wm_load_def wm_new_def
        Let_def split: prod.splits sum.splits if_splits option.splits)
  obtain es B where log: "ds_log E s es B" "ds_log E (s\<lparr>ds_wal := fst (wal_sync w1)\<rparr>) (es @ [?e]) B" "W = commits_of (es @ [?e])"
    "Q = (\<lambda>t. open_writes t es @ B t)"
    using ds_logged_append [OF assms(1,2) control_fits(4) _ _ app, of "s\<lparr>ds_wal := fst (wal_sync w1)\<rparr>"] wal_repr_tick wal_sync_repr(1)
    by (auto simp: entry_checkpoint_def wal_sync_def bw_flush_def wal_key_def Let_def)
  have "ds_log E s' (es @ [?e]) B"
    using log(2) other ds_log_parts(3) [OF log(1)] s' by (auto simp: ds_log_def)
  moreover have "Q = (\<lambda>u. open_writes u (es @ [?e]) @ B u)"
    by (auto simp: log(4) open_writes_snoc is_boundary_def entry_checkpoint_def)
  ultimately show ?thesis using log(3) unfolding ds_logged_def by blast
qed

lemma ds_logged_buffered:
  assumes "ds_logged E s W Q" "write_fits (ds_wal s) (k, v)"
  shows "ds_logged E (ds_buffer_append E t k v (ds_record_write E t k' s)) W (Q(t := Q t @ [(k, v)]))"
proof -
  obtain es B where log: "ds_log E (ds_record_write E t k' s) es B" "W = commits_of es" "Q = (\<lambda>t. open_writes t es @ B t)"
    using ds_logged_same [OF assms(1), of "ds_record_write E t k' s"] by (auto simp: ds_logged_def ds_record_write_def)
  with ds_log_buffer_append [OF log(1), of k v t] assms(2)
  have "ds_log E (ds_buffer_append E t k v (ds_record_write E t k' s)) es (B(t := B t @ [(k, v)]))" by (simp add: ds_record_write_def)
  moreover have "Q(t := Q t @ [(k, v)]) = (\<lambda>u. open_writes u es @ (B(t := B t @ [(k, v)])) u)" by (auto simp: log(3))
  ultimately show ?thesis using log(2) unfolding ds_logged_def by blast
qed

lemma ds_buffer_append_key: "wal_key (ds_wal (ds_buffer_append E t k v (ds_record_write E t k' s))) = wal_key (ds_wal s)"
  by (simp add: ds_buffer_append_def ds_record_write_def cached_timestamp_us_def Let_def)

lemma ds_logged_buffered_fold:
  assumes "ds_logged E s W Q" "\<forall>kv \<in> set ws. write_fits (ds_wal s) kv"
  shows "ds_logged E (fold (\<lambda>(k, v) s. ds_buffer_append E t k v (ds_record_write E t k s)) ws s) W (Q(t := Q t @ ws))"
  using assms
proof (induction ws arbitrary: s Q)
  case (Cons w ws)
  let ?s = "ds_buffer_append E t (fst w) (snd w) (ds_record_write E t (fst w) s)"
  have "ds_logged E ?s W (Q(t := Q t @ [w]))" using ds_logged_buffered [OF Cons.prems(1), of "fst w" "snd w"] Cons.prems(2) by simp
  moreover have "\<forall>kv \<in> set ws. write_fits (ds_wal ?s) kv" using Cons.prems(2) by (simp add: write_fits_cong [OF ds_buffer_append_key])
  ultimately have "ds_logged E (fold (\<lambda>(k, v) s. ds_buffer_append E t k v (ds_record_write E t k s)) ws ?s) W
      ((Q(t := Q t @ [w]))(t := (Q(t := Q t @ [w])) t @ ws))" by (rule Cons.IH)
  then show ?case by (simp only: fun_upd_upd fun_upd_same append_assoc append_Cons append_Nil fold_simps case_prod_unfold)
qed simp

lemma ds_logged_written:
  assumes "ds_logged E s W Q" "write_fits (ds_wal s) (k, v)"
  shows "ds_logged E (fst (ds_write E t k v s)) W (Q(t := Q t @ [(k, v)]))"
  by (rule ds_logged_same [OF ds_logged_buffered [OF assms]])
    (simp_all add: ds_write_def ds_write_refs_def Let_def case_prod_unfold)

lemma ds_logged_deleted:
  assumes "ds_logged E s W Q" "write_fits (ds_wal s) (k, [])"
  shows "ds_logged E (fst (ds_delete E t k s)) W (Q(t := Q t @ [(k, [])]))"
  by (rule ds_logged_same [OF ds_logged_buffered [OF assms]]) (simp_all add: ds_delete_def Let_def case_prod_unfold)

lemma ds_logged_batch:
  assumes "ds_logged E s W Q" "\<forall>kv \<in> set ws. write_fits (ds_wal s) kv"
  shows "ds_logged E (fst (ds_write_batch_refs E t ws s)) W (Q(t := Q t @ ws))"
proof (cases "ws = []")
  case False
  show ?thesis
    by (rule ds_logged_same [OF ds_logged_buffered_fold [OF assms]])
      (simp_all add: False ds_write_batch_refs_def Let_def case_prod_unfold)
qed (use assms in \<open>simp add: ds_write_batch_refs_def\<close>)

lemma ds_logged_committed:
  assumes "ds_logged E s W Q" "platform_ok (de_platform E)" "ds_commit E t s = (s', Inr cts)"
  shows "ds_logged E s' (W @ [Q t]) (Q(t := []))"
proof -
  obtain es B where log: "ds_log E s es B" "W = commits_of es" "Q = (\<lambda>t. open_writes t es @ B t)"
    using assms(1) by (auto simp: ds_logged_def)
  obtain nows now where n: "length nows = length (B t)"
    "ds_log E s' ((es @ data_entries t nows (B t)) @ [txn_commit now t]) (B(t := []))"
    using ds_log_commit_ok(1) [OF assms(2) log(1) assms(3)] by (auto simp flip: append_assoc)
  have "W @ [Q t] = commits_of ((es @ data_entries t nows (B t)) @ [txn_commit now t])"
    unfolding commits_of_snoc by (simp add: data_entries_log [OF n(1)] log(2,3) txn_commit_def)
  moreover have "Q(t := []) = (\<lambda>u. open_writes u ((es @ data_entries t nows (B t)) @ [txn_commit now t]) @ (B(t := [])) u)"
    unfolding open_writes_snoc by (auto simp: data_entries_log [OF n(1)] log(3) is_boundary_def txn_commit_def)
  ultimately show ?thesis using n(2) unfolding ds_logged_def by blast
qed

lemma ds_logged_refused:
  assumes "ds_logged E s W Q" "platform_ok (de_platform E)" "ds_commit E t s = (s', Inl commit_refused)"
  shows "ds_logged E s' W Q"
proof -
  obtain es B where log: "ds_log E s es B" "W = commits_of es" "Q = (\<lambda>t. open_writes t es @ B t)"
    using assms(1) by (auto simp: ds_logged_def)
  obtain s1 where s1: "ds_flush_data E t s = (s1, Inr ())" "s' = s1\<lparr>ds_mvcc := fst (mm_commit (de_hashers E) t (ds_mvcc s1))\<rparr>"
    using ds_commit_refused [OF assms(3)] by blast
  obtain nows where n: "length nows = length (B t)" "ds_log E s1 (es @ data_entries t nows (B t)) (B(t := []))"
    using ds_log_flush_data(1) [OF assms(2) log(1) s1(1)] by blast
  have "ds_logged E s1 W Q"
    using n(2) log(2) unfolding ds_logged_def
    by (intro exI [of _ "es @ data_entries t nows (B t)"] exI [of _ "B(t := [])"]) (auto simp: data_entries_log [OF n(1)] log(3))
  then show ?thesis by (rule ds_logged_same) (simp_all add: s1(2))
qed

lemma buffered_writes_log: "ds_log E s es B \<Longrightarrow> buffered_writes s t = length (B t)"
  using ds_log_parts(4) [of E s es B t]
  by (auto simp: buffered_writes_def buffer_repr_def tb_repr_def data_entries_def split: option.splits)

lemma ds_logged_truncated:
  assumes "ds_logged E s W Q" "\<not> ds_pitr_enabled s"
  shows "ds_logged E (fst (ds_truncate_wal s)) [] (\<lambda>t. drop (length (Q t) - buffered_writes s t) (Q t))"
proof -
  obtain es B where log: "ds_log E s es B" "Q = (\<lambda>t. open_writes t es @ B t)" using assms(1) by (auto simp: ds_logged_def)
  have "ds_log E (fst (ds_truncate_wal s)) [] B"
    by (rule ds_log_wal [OF log(1)])
      (use assms(2) in \<open>simp_all add: ds_truncate_wal_def wal_truncate_def wal_repr_def bw_flush_def wal_key_def\<close>)
  moreover have "(\<lambda>t. drop (length (Q t) - buffered_writes s t) (Q t)) = (\<lambda>t. open_writes t [] @ B t)"
    by (simp add: log(2) buffered_writes_log [OF log(1)] open_writes_def)
  ultimately show ?thesis unfolding ds_logged_def by (metis commits_of_Nil)
qed

lemma ds_restart_fields:
  assumes "ds_restart E kind ordered tick img s = Inr s'"
  shows "\<exists>w n. wal_reopen (de_platform E) img (ds_wal s) tick = Inr w \<and> ds_wal s' = w\<lparr>wal_next_txn_id := n\<rparr>"
    and "ds_manifest_file s' = ds_manifest_file s" "ds_txn_write_buffers s' = []"
proof -
  let ?es = "\<lparr>es_is_encrypted = ds_at_rest_encrypted s, es_engine = wal_encryption (ds_wal s),
      es_db_uuid = wal_db_uuid (ds_wal s), es_key_epoch = wal_dek_epoch (ds_wal s)\<rparr>"
  let ?disk = "\<lparr>dk_wal_log = img, dk_manifest = ds_manifest_file s, dk_clean_shutdown = ds_clean_shutdown_file s\<rparr>"
  obtain s1 where s1: "ds_open E ordered kind (Inr ()) (Inr ?es) ?disk tick = Inr s1"
    and r: "(case ds_recover E s1 of (s2, Inl e) \<Rightarrow> Inl e | (s2, Inr st) \<Rightarrow> Inr s2) = Inr s'"
    using assms by (auto simp: ds_restart_def try_bind_eq_Inr)
  have s': "s' = fst (ds_recover E s1)"
    using r by (cases "snd (ds_recover E s1)") (simp_all add: case_prod_unfold)
  note f = ds_open_fields [OF s1]
  have "ds_manifest_file s1 = ds_manifest_file s"
    using s1 by (auto simp: ds_open_def ds_check_recovery_needed_def try_bind_eq_Inr Let_def split: if_splits)
  moreover have "(\<exists>n. ds_wal (fst (ds_recover E s1)) = (ds_wal s1)\<lparr>wal_next_txn_id := n\<rparr>) \<and>
      ds_manifest_file (fst (ds_recover E s1)) = ds_manifest_file s1 \<and>
      ds_txn_write_buffers (fst (ds_recover E s1)) = ds_txn_write_buffers s1"
    by (auto simp: ds_recover_def ds_apply_recovered_def wal_alloc_txn_id_def mm_alloc_commit_ts_def Let_def case_prod_unfold
        split: sum.split intro: exI [of _ "wal_next_txn_id (ds_wal s1)"])
  ultimately show "\<exists>w n. wal_reopen (de_platform E) img (ds_wal s) tick = Inr w \<and> ds_wal s' = w\<lparr>wal_next_txn_id := n\<rparr>"
    "ds_manifest_file s' = ds_manifest_file s" "ds_txn_write_buffers s' = []"
    using f(3,7) by (auto simp: s' wal_reopen_def)
qed

lemma ds_logged_restarted:
  assumes "ds_logged E s W Q" "wal_buf (ds_wal s) = []" "ds_restart E kind ordered tick (wal_file (ds_wal s)) s = Inr s'"
  shows "ds_logged E s' W (\<lambda>t. take (length (Q t) - buffered_writes s t) (Q t))"
proof -
  let ?P = "de_platform E" and ?w = "ds_wal s"
  obtain es B where log: "ds_log E s es B" "W = commits_of es" "Q = (\<lambda>t. open_writes t es @ B t)"
    using assms(1) by (auto simp: ds_logged_def)
  have repr: "wal_repr ?P ?w es" by (rule ds_log_parts(2) [OF log(1)])
  then have whole: "is_log (wal_is_frame ?P ?w) 0 es (wal_file ?w)" using assms(2) by (simp add: wal_repr_def)
  then obtain n where n: "wal_cut ?P ?w es (wal_file ?w) n" "n = length es" using wal_cut_exists [OF whole, of "wal_file ?w"] by auto
  obtain w m where w: "wal_reopen ?P (wal_file ?w) ?w tick = Inr w" "ds_wal s' = w\<lparr>wal_next_txn_id := m\<rparr>"
    using ds_restart_fields(1) [OF assms(3)] by blast
  have key: "wal_key (ds_wal s') = wal_key ?w" using wal_reopen_replay(3) [OF n(1) w(1)] by (simp add: w(2) wal_key_def)
  have "wal_repr ?P (ds_wal s') es"
    using whole wal_is_frame_cong [OF key, of ?P] wal_reopen_cut [OF n(1), of tick] w n(2)
    by (auto simp: wal_repr_def wal_fresh_def)
  then have "ds_log E s' es (\<lambda>_. [])"
    using log(1) cipher_ok_cong [OF key] ds_restart_fields(2,3) [OF assms(3)] by (simp add: ds_log_def manifest_ok_def buffer_repr_def)
  moreover have "(\<lambda>t. take (length (Q t) - buffered_writes s t) (Q t)) = (\<lambda>t. open_writes t es @ [])"
    by (simp add: log(3) buffered_writes_log [OF log(1)])
  ultimately show ?thesis using log(2) unfolding ds_logged_def by (intro exI [of _ es] exI [of _ "\<lambda>_. []"]) simp
qed

lemma dm_remove_none: "map_of m k = None \<Longrightarrow> dm_remove k m = m"
  by (simp add: dm_remove_def map_of_eq_None_iff delete_idem)

lemma ds_history_logged: "platform_ok (de_platform E) \<Longrightarrow> ds_history E s W Q \<Longrightarrow> ds_logged E s W Q"
proof (rotate_tac, induction rule: ds_history.induct)
  case (aborted_unlogged s W Q t)
  show ?case
    by (rule ds_logged_same [OF aborted_unlogged.IH])
      (use aborted_unlogged in \<open>simp_all add: ds_abort_def dm_remove_none\<close>)
next
  case (grouped s Q)
  show ?case by (rule ds_logged_same [OF grouped.IH]) (use grouped in simp_all)
qed (auto intro: ds_logged_created ds_logged_silent ds_logged_begin ds_logged_written ds_logged_deleted ds_logged_batch
    ds_logged_committed ds_logged_refused ds_logged_abort ds_logged_checkpoint ds_logged_truncated ds_logged_restarted)

end
