(* ===== verification/Storage_Properties.thy ===== *)
theory Storage_Properties
  imports Storage_Durability
begin

text \<open>
  The guarantees of the engine across commit, crash and restart, and the cases in which a restarted
  engine answers differently from the one that crashed.
\<close>

subsection \<open>What a successful commit does\<close>

lemma ds_commit_success:
  assumes "ds_commit E t s = (s', Inr cts)"
  shows "cts = mm_ts_counter (ds_mvcc s)" "mm_ts_counter (ds_mvcc s') = mm_ts_counter (ds_mvcc s) + 1"
    and "\<exists>txn. mm_get t (ds_mvcc s) = Some txn \<and> ds_memtable s' = mtk_commit t cts (mt_write_set txn) (ds_memtable s)"
proof -
  let ?f = "ds_flush_data E t s"
  let ?c = "mm_commit (de_hashers E) t (ds_mvcc (fst ?f))"
  let ?p = "ds_log_commit E t ((fst ?f)\<lparr>ds_mvcc := fst ?c\<rparr>)"
  have f: "ds_mvcc (fst ?f) = ds_mvcc s" "ds_memtable (fst ?f) = ds_memtable s"
    using same_core_flush_data [of s E t] by (simp_all add: same_core_def)
  have p: "ds_mvcc (fst ?p) = fst ?c" "ds_memtable (fst ?p) = ds_memtable s"
    using same_core_log_commit [of "(fst ?f)\<lparr>ds_mvcc := fst ?c\<rparr>" E t] f by (simp_all add: same_core_def)
  obtain ws where c: "snd ?c = Some (cts, ws)" and s': "s' = (fst ?p)\<lparr>ds_memtable := mtk_commit t cts ws (ds_memtable (fst ?p))\<rparr>"
    using assms unfolding ds_commit_eq Let_def by (auto split: sum.splits option.splits)
  show "cts = mm_ts_counter (ds_mvcc s)" using mm_commit_counter(2) [OF c] f by simp
  show "mm_ts_counter (ds_mvcc s') = mm_ts_counter (ds_mvcc s) + 1" using mm_commit_counter(1) [of "de_hashers E" t "ds_mvcc (fst ?f)"] c f p s' by simp
  show "\<exists>txn. mm_get t (ds_mvcc s) = Some txn \<and> ds_memtable s' = mtk_commit t cts (mt_write_set txn) (ds_memtable s)"
    using mm_commit_counter(3) [OF c] f p s' by auto
qed

lemma commit_visible:
  assumes "ds_wf E s" "ds_room s" "ds_commit E t s = (s', Inr cts)" "mm_get t (ds_mvcc s) = Some txn" "k \<in> set (mt_write_set txn)"
    and "bsc_uncommitted (mtk_chain (ds_memtable s) k) = Some v" "ver_txn_id v = t"
  shows "ds_read_latest k s' = ver_value v"
proof -
  note c = ds_commit_success [OF assms(3)]
  have "cts < mm_ts_counter (ds_mvcc s')" using assms(2) c(1,2) by (simp add: ds_room_def u64_less_succ)
  moreover have "\<forall>w \<in> set (bsc_committed (mtk_chain (ds_memtable s) k)). ver_commit_ts w \<le> cts"
    using ds_wf_parts(2) [OF assms(1)] by (auto simp: table_below_def chain_below_def c(1) intro: order_less_imp_le)
  ultimately show ?thesis
    using kind.read_commit_visible [OF ds_wf_parts(1) [OF assms(1)] assms(5-7)] c(3) assms(4) by (auto simp: ds_read_latest_def)
qed

text \<open>The write that a write or a delete leaves pending.\<close>

lemma put_pending:
  assumes "ds_wf E s" "snd (mtk_write k x t (ds_memtable s)) = Inr ()"
    and "ds_memtable s1 = fst (mtk_write k x t (ds_memtable s))"
  shows "\<exists>v. bsc_uncommitted (mtk_chain (ds_memtable s1) k) = Some v \<and> ver_txn_id v = t \<and> ver_value v = x"
  using assms(2,3) kind.write_result [OF ds_wf_parts(1) [OF assms(1)], of k x t]
    kind.chain_write [OF ds_wf_parts(1) [OF assms(1)], of k x t k] vc_add_uncommitted_fields [of x t "mtk_chain (ds_memtable s) k"]
  by (auto split: if_splits)

lemma ds_put_fields:
  "ds_memtable (fst (ds_write E t k v s)) = fst (mtk_write k (Some v) t (ds_memtable s))"
  "snd (ds_write E t k v s) = snd (mtk_write k (Some v) t (ds_memtable s))"
  "ds_mvcc (fst (ds_write E t k v s)) = mm_record_write (de_hashers E) t k (ds_mvcc s)"
  "ds_memtable (fst (ds_delete E t k s)) = fst (mtk_write k None t (ds_memtable s))"
  "snd (ds_delete E t k s) = snd (mtk_write k None t (ds_memtable s))"
  "ds_mvcc (fst (ds_delete E t k s)) = mm_record_write (de_hashers E) t k (ds_mvcc s)"
  by (simp_all add: ds_write_def ds_write_refs_def ds_delete_def ds_buffer_append_def ds_record_write_def Let_def case_prod_unfold)

lemma ds_put_config:
  "ds_sync_mode (fst (ds_write E t k v s)) = ds_sync_mode s" "ds_group_commit (fst (ds_write E t k v s)) = ds_group_commit s"
  "ds_sync_mode (fst (ds_delete E t k s)) = ds_sync_mode s" "ds_group_commit (fst (ds_delete E t k s)) = ds_group_commit s"
  "wal_next_txn_id (ds_wal (fst (ds_write E t k v s))) = wal_next_txn_id (ds_wal s)"
  "wal_next_txn_id (ds_wal (fst (ds_delete E t k s))) = wal_next_txn_id (ds_wal s)"
  by (simp_all add: ds_write_def ds_write_refs_def ds_delete_def ds_buffer_append_def ds_record_write_def cached_timestamp_us_def
      Let_def case_prod_unfold)

lemma ds_put_room:
  "ds_room s \<Longrightarrow> ds_room (fst (ds_write E t k v s))" "ds_room s \<Longrightarrow> ds_room (fst (ds_delete E t k s))"
  by (simp_all add: ds_room_def ds_put_config ds_put_fields)

lemma ds_put_write_set:
  assumes "mm_get t (mm_record_write H t k m) = Some txn"
  shows "k \<in> set (mt_write_set txn)"
  using assms by (auto simp: mm_get_record mt_record_write_def)

lemma written_visible:
  assumes "ds_wf E s" "ds_room s" "snd (ds_write E t k v s) = Inr ()" "ds_commit E t (fst (ds_write E t k v s)) = (s', Inr cts)"
  shows "ds_read_latest k s' = Some v"
proof -
  let ?s = "fst (ds_write E t k v s)"
  have wf: "ds_wf E ?s" using ds_wf_step [OF assms(1,2), of "DWrite t k v"] by simp
  obtain ver where ver: "bsc_uncommitted (mtk_chain (ds_memtable ?s) k) = Some ver" "ver_txn_id ver = t" "ver_value ver = Some v"
    using put_pending [OF assms(1), of k "Some v" t ?s] assms(3) by (auto simp: ds_put_fields)
  obtain txn where txn: "mm_get t (ds_mvcc ?s) = Some txn" using ds_commit_success(3) [OF assms(4)] by blast
  show ?thesis
    using commit_visible [OF wf ds_put_room(1) [OF assms(2)] assms(4) txn _ ver(1,2)] ds_put_write_set txn ver(3) by (auto simp: ds_put_fields)
qed

lemma deleted_invisible:
  assumes "ds_wf E s" "ds_room s" "snd (ds_delete E t k s) = Inr ()" "ds_commit E t (fst (ds_delete E t k s)) = (s', Inr cts)"
  shows "ds_read_latest k s' = None"
proof -
  let ?s = "fst (ds_delete E t k s)"
  have wf: "ds_wf E ?s" using ds_wf_step [OF assms(1,2), of "DDelete t k"] by simp
  obtain ver where ver: "bsc_uncommitted (mtk_chain (ds_memtable ?s) k) = Some ver" "ver_txn_id ver = t" "ver_value ver = None"
    using put_pending [OF assms(1), of k None t ?s] assms(3) by (auto simp: ds_put_fields)
  obtain txn where txn: "mm_get t (ds_mvcc ?s) = Some txn" using ds_commit_success(3) [OF assms(4)] by blast
  show ?thesis
    using commit_visible [OF wf ds_put_room(2) [OF assms(2)] assms(4) txn _ ver(1,2)] ds_put_write_set txn ver(3) by (auto simp: ds_put_fields)
qed

subsection \<open>Restarting after a history\<close>

lemma restart_history:
  assumes "platform_ok (de_platform E)" "ds_history E s W Q" "crash_image (ds_wal s) img"
  shows "\<exists>m s2. ds_restart E kind ordered tick img s = Inr s2 \<and>
    (\<forall>k. ds_read_latest k s2 = map_of (rev (concat (take m W))) k) \<and> (wal_all_synced (ds_wal s) \<longrightarrow> take m W = W)"
proof -
  obtain es B where log: "ds_log E s es B" "W = commits_of es"
    using ds_history_logged [OF assms(1,2)] by (auto simp: ds_logged_def)
  obtain n where n: "wal_cut (de_platform E) (ds_wal s) es img n" "img = wal_file (ds_wal s) @ wal_buf (ds_wal s) \<longrightarrow> n = length es"
    using wal_image_cut [OF ds_log_parts(2) [OF log(1)] assms(3)] by blast
  have all: "n = length es" if "wal_all_synced (ds_wal s)"
    using n(2) that assms(3) by (auto simp: crash_image_def wal_all_synced_def)
  obtain m where m: "commits_of (take n es) = take m W" using commits_of_take log(2) by blast
  from ds_restart_cut [OF n(1) ds_log_parts(3) [OF log(1)]] obtain s2 where
    "ds_restart E kind ordered tick img s = Inr s2" "\<forall>k. ds_read_latest k s2 = map_of (rev (committed_writes (take n es))) k" by blast
  moreover have "committed_writes (take n es) = concat (take m W)" by (simp flip: m concat_commits_of)
  moreover have "wal_all_synced (ds_wal s) \<longrightarrow> take m W = W" using all m log(2) by (metis take_all order_refl)
  ultimately show ?thesis by auto
qed

lemma commit_syncs:
  assumes "platform_ok (de_platform E)" "ds_history E s W Q" "syncs_commits s" "ds_commit E t s = (s', Inr cts)"
  shows "wal_all_synced (ds_wal s')"
proof -
  obtain es B where log: "ds_log E s es B" using ds_history_logged [OF assms(1,2)] by (auto simp: ds_logged_def)
  show ?thesis by (rule ds_log_commit_ok(2) [OF assms(1) log assms(4,3)])
qed

lemma restart_after_commit:
  assumes "platform_ok (de_platform E)" "ds_history E s W Q" "syncs_commits s" "ds_commit E t s = (s', Inr cts)"
    and "crash_image (ds_wal s') img"
  shows "\<exists>s2. ds_restart E kind ordered tick img s' = Inr s2 \<and> (\<forall>k. ds_read_latest k s2 = map_of (rev (concat W @ Q t)) k)"
  using restart_history [OF assms(1) ds_history.committed [OF assms(2,4)] assms(5)] commit_syncs [OF assms(1-4)]
  by (metis concat.simps concat_append append_Nil2)

subsection \<open>Without encryption logging does not fail\<close>

lemma ds_flush_data_plain:
  assumes "\<not> ee_is_enabled (wal_encryption (ds_wal s))"
  shows "snd (ds_flush_data E t s) = Inr ()" "wal_encryption (ds_wal (fst (ds_flush_data E t s))) = wal_encryption (ds_wal s)"
  using assms by (simp_all add: ds_flush_data_def wal_flush_buffer_def Let_def split: option.split)

lemma wal_append_plain: "\<not> ee_is_enabled (wal_encryption w) \<Longrightarrow> snd (wal_append P e w) \<noteq> Inl err"
  by (simp add: wal_append_def frame_for_write_def Let_def)

lemma ds_log_commit_plain:
  assumes "\<not> ee_is_enabled (wal_encryption (ds_wal s))"
  shows "snd (ds_log_commit E t s) = Inr ()"
proof -
  let ?s = "ds_update_arrival_rate E (s\<lparr>ds_commits_since_sync := ds_commits_since_sync s + 1\<rparr>)"
  have "\<not> ee_is_enabled (wal_encryption (fst (cached_timestamp_us (de_platform E) (ds_wal ?s))))"
    "\<not> ee_is_enabled (wal_encryption (fst (cached_timestamp_us (de_platform E) (ds_wal s))))"
    using assms by (simp_all add: ds_update_arrival_rate_wal cached_timestamp_us_def)
  from this [THEN wal_append_plain] show ?thesis
    unfolding ds_log_commit_def ds_group_submit_def ds_direct_commit_def wal_commit_durable_batch_def append_commits.simps
      wal_append_no_flush_def Let_def case_prod_unfold
    by (auto simp: as_internal_def wal_flush_def wal_sync_def Let_def split: sum.split)
qed

lemma ds_commit_plain:
  assumes "\<not> ee_is_enabled (wal_encryption (ds_wal s))"
  shows "snd (ds_commit E t s) =
    (case snd (mm_commit (de_hashers E) t (ds_mvcc s)) of None \<Rightarrow> Inl commit_refused | Some (cts, ws) \<Rightarrow> Inr cts)"
proof -
  have "ds_mvcc (fst (ds_flush_data E t s)) = ds_mvcc s" using same_core_flush_data [of s E t] by (simp add: same_core_def)
  moreover have "snd (ds_log_commit E t ((fst (ds_flush_data E t s))\<lparr>ds_mvcc := m\<rparr>)) = Inr ()" for m
    by (rule ds_log_commit_plain) (use assms ds_flush_data_plain(2) [OF assms] in simp)
  ultimately show ?thesis
    unfolding ds_commit_eq Let_def using ds_flush_data_plain(1) [OF assms, of E t] by (simp split: option.split)
qed

lemma quiet_commit:
  assumes "\<not> ee_is_enabled (wal_encryption (ds_wal s))" "mm_recent_commits (ds_mvcc s) = []" "mm_get t (ds_mvcc s) \<noteq> None"
  shows "\<exists>s' cts. ds_commit E t s = (s', Inr cts)"
proof -
  have "snd (mm_commit H t (ds_mvcc s)) \<noteq> None" for H
    using assms(2,3) by (auto simp: mm_commit_def mm_get_def mm_validate_ssi_def mm_alloc_commit_ts_def Let_def)
  then show ?thesis using ds_commit_plain [OF assms(1), of E t] by (cases "ds_commit E t s") (auto split: option.splits)
qed

text \<open>The demonstration engine with one open transaction and a sync at every commit.\<close>

definition demo_ready :: DurableStorage where
  "demo_ready = ds_step demo_env (DSyncMode 2) demo_begun"

lemma demo_begin: "\<exists>s. ds_begin_with_mode demo_env ReadWrite demo_store = (s, Inr demo_txn)"
  using demo_begin_txn
  by (cases "wal_begin_transaction demo_platform demo_wal_fresh") (simp add: ds_begin_with_mode_def demo_env_def demo_store_def)

lemma demo_ready_history: "ds_history demo_env demo_ready [] (\<lambda>_. [])"
proof -
  have "cipher_ok (ds_wal demo_store)" by (simp add: cipher_ok_def demo_store_def demo_wal_fresh_def ee_disabled_def ee_is_enabled_def)
  then have "ds_history demo_env demo_store [] (\<lambda>_. [])" using demo_open by (auto intro: ds_history.created)
  moreover have "ds_begin_with_mode demo_env ReadWrite demo_store = (demo_begun, Inr demo_txn)"
    using demo_begin by (auto simp: demo_begun_def)
  moreover have "map_of (ds_txn_write_buffers demo_store) demo_txn = None" by (simp add: demo_store_def)
  ultimately have "ds_history demo_env demo_begun [] ((\<lambda>_. [])(demo_txn := []))" by (rule ds_history.begun)
  then have "ds_history demo_env demo_begun [] (\<lambda>_. [])" by (simp add: fun_upd_idem)
  then show ?thesis unfolding demo_ready_def by (rule ds_history.silent) simp
qed

lemma wal_append_encryption: "wal_append P e w = (w', r) \<Longrightarrow> wal_encryption w' = wal_encryption w"
  by (auto simp: wal_append_def frame_for_write_def encrypt_frame_def commit_record_ordinal_def bw_write_all_def bw_flush_def Let_def
      split: if_splits prod.splits sum.splits)

lemma demo_ready_state:
  "\<not> ee_is_enabled (wal_encryption (ds_wal demo_ready))" "mm_recent_commits (ds_mvcc demo_ready) = []"
  "mm_get demo_txn (ds_mvcc demo_ready) \<noteq> None" "syncs_commits demo_ready" "ds_wf demo_env demo_ready" "ds_room demo_ready"
  "ds_reachable demo_env demo_ready"
proof -
  have "wal_encryption (fst (wal_begin_transaction demo_platform demo_wal_fresh)) = wal_encryption demo_wal_fresh"
    by (auto simp: wal_begin_transaction_def wal_alloc_txn_id_def cached_timestamp_us_def dest!: wal_append_encryption
        split: prod.split sum.split)
  then show "\<not> ee_is_enabled (wal_encryption (ds_wal demo_ready))" "mm_recent_commits (ds_mvcc demo_ready) = []"
    using demo_begin_txn
    by (simp_all add: demo_ready_def demo_begun_def ds_set_sync_mode_def ds_begin_with_mode_def demo_env_def demo_store_def
        case_prod_unfold mm_begin_with_mode_def Let_def mm_new_def demo_wal_fresh_def ee_disabled_def ee_is_enabled_def)
  show "mm_get demo_txn (ds_mvcc demo_ready) \<noteq> None" "syncs_commits demo_ready" "ds_room demo_ready"
    using demo_begun(2,3) by (simp_all add: demo_ready_def ds_set_sync_mode_def syncs_commits_def ds_room_def)
  show "ds_reachable demo_env demo_ready" unfolding demo_ready_def by (rule ds_reachable.step [OF demo_begun(1,3)])
  then show "ds_wf demo_env demo_ready" by (rule ds_reachable_wf)
qed

lemma demo_fits: "length k + length v \<le> 4 \<Longrightarrow> write_fits w (k, v)"
  by (simp add: write_fits_def frame_fits_def entry_len_def entry_data_def unat_MAX_WAL_FRAME_LEN HEADER_SIZE_def NONCE_SIZE_def)

lemma demo_env_ok: "platform_ok (de_platform demo_env)"
  using demo_platform_ok by (simp add: demo_env_def)

lemma put_quiet:
  "wal_encryption (ds_wal (fst (ds_write E t k v s))) = wal_encryption (ds_wal s)"
  "wal_encryption (ds_wal (fst (ds_delete E t k s))) = wal_encryption (ds_wal s)"
  "mm_recent_commits (mm_record_write H t k m) = mm_recent_commits m"
  by (simp_all add: ds_write_def ds_write_refs_def ds_delete_def ds_buffer_append_def ds_record_write_def cached_timestamp_us_def
      Let_def case_prod_unfold mm_record_write_def)

lemma demo_write_commit: "\<exists>s' cts. ds_commit demo_env demo_txn (fst (ds_write demo_env demo_txn k v demo_ready)) = (s', Inr cts)"
  by (rule quiet_commit) (use demo_ready_state in \<open>simp_all add: put_quiet ds_put_fields mm_get_record\<close>)

lemma demo_delete_commit: "\<exists>s' cts. ds_commit demo_env demo_txn (fst (ds_delete demo_env demo_txn k demo_ready)) = (s', Inr cts)"
  by (rule quiet_commit) (use demo_ready_state in \<open>simp_all add: put_quiet ds_put_fields mm_get_record\<close>)

lemma whole_file_image: "wal_synced w \<le> length (wal_file w) \<Longrightarrow> crash_image w (wal_file w)"
  by (auto simp: crash_image_def)

lemma history_image:
  assumes "platform_ok (de_platform E)" "ds_history E s W Q"
  shows "crash_image (ds_wal s) (wal_file (ds_wal s))"
  using ds_history_logged [OF assms] by (auto simp: ds_logged_def ds_log_def wal_repr_def intro: whole_file_image)

subsection \<open>Properties\<close>

text \<open>
  C1: Atomic, prefix-consistent recovery of the engine.  Take any history (\<open>ds_history\<close>) of an engine created in an empty directory, in any sync mode,
  plain or encrypted: interleaved transactions, maintenance, truncations of the log, restarts of the whole log, records within the
  frame limit; and take any contents that a crash may leave in the log.  Reopening with recovery succeeds, and every key reads the last value
  logged by the first \<open>m\<close> transactions acknowledged since the last truncation, each of them whole; when the log was synced these are all of
  them.  What counts is what a transaction has logged, which includes writes that the memtable refused, and deletes as empty values.
\<close>

theorem restart_recovers_committed_prefix:
  assumes "platform_ok (de_platform E)" "ds_history E s W Q" "crash_image (ds_wal s) img"
  shows "\<exists>m s2. ds_restart E kind ordered tick img s = Inr s2 \<and>
    (\<forall>k. ds_read_latest k s2 = map_of (rev (concat (take m W))) k) \<and>
    (wal_all_synced (ds_wal s) \<longrightarrow> take m W = W)"
  by (rule restart_history [OF assms])

theorem restart_recovers_committed_prefix_witness:
  "\<exists>s' cts s2. ds_commit demo_env demo_txn (fst (ds_write demo_env demo_txn [1] [2] demo_ready)) = (s', Inr cts) \<and>
     ds_restart demo_env ArenaType False 9 (wal_file (ds_wal s')) s' = Inr s2 \<and> ds_read_latest [1] s2 = Some [2] \<and> ds_read_latest [3] s2 = None"
proof -
  obtain s' cts where c: "ds_commit demo_env demo_txn (fst (ds_write demo_env demo_txn [1] [2] demo_ready)) = (s', Inr cts)"
    using demo_write_commit by blast
  note h = ds_history.written [OF demo_ready_history demo_fits, of "[1]" "[2]" demo_txn, simplified]
  have "syncs_commits (fst (ds_write demo_env demo_txn [1] [2] demo_ready))"
    using demo_ready_state(4) by (simp add: syncs_commits_def ds_put_config)
  note synced = commit_syncs [OF demo_env_ok h this c]
  note h' = ds_history.committed [OF h c, simplified]
  from restart_recovers_committed_prefix [OF demo_env_ok h' history_image [OF demo_env_ok h'], where kind = ArenaType and ordered = False and tick = 9]
    synced c show ?thesis by auto
qed

text \<open>
  C2: Durability of acknowledged commits.  At the end of any history of an engine that syncs at every commit or uses group commit (see C1 for what a
  history is), a commit that returned success survives every crash: the restarted engine reads, for every key, the last of the values logged by
  the transactions acknowledged since the last truncation of the log, followed by those of the committed one.
\<close>

theorem acknowledged_commit_is_durable:
  assumes "platform_ok (de_platform E)" "ds_history E s W Q" "syncs_commits s" "ds_commit E t s = (s', Inr cts)"
    and "crash_image (ds_wal s') img"
  shows "\<exists>s2. ds_restart E kind ordered tick img s' = Inr s2 \<and> (\<forall>k. ds_read_latest k s2 = map_of (rev (concat W @ Q t)) k)"
  by (rule restart_after_commit [OF assms])

theorem acknowledged_commit_is_durable_witness:
  "\<exists>s' cts s2. ds_commit demo_env demo_txn (fst (ds_write demo_env demo_txn [1] [2] demo_ready)) = (s', Inr cts) \<and>
     ds_restart demo_env StandardType True 9 (wal_file (ds_wal s')) s' = Inr s2 \<and> ds_read_latest [1] s2 = Some [2]"
proof -
  obtain s' cts where c: "ds_commit demo_env demo_txn (fst (ds_write demo_env demo_txn [1] [2] demo_ready)) = (s', Inr cts)"
    using demo_write_commit by blast
  note h = ds_history.written [OF demo_ready_history demo_fits, of "[1]" "[2]" demo_txn, simplified]
  have sync: "syncs_commits (fst (ds_write demo_env demo_txn [1] [2] demo_ready))"
    using demo_ready_state(4) by (simp add: syncs_commits_def ds_put_config)
  from acknowledged_commit_is_durable [OF demo_env_ok h sync c history_image [OF demo_env_ok ds_history.committed [OF h c]],
      where kind = StandardType and ordered = True and tick = 9] c show ?thesis by auto
qed

text \<open>
  C5: A committed write is visible.  In every reachable state, a write that was accepted and committed is
  the value that the latest-snapshot read of its key returns; a committed delete makes it return nothing.
\<close>

theorem committed_write_is_visible:
  assumes "ds_reachable E s" "ds_room s"
  shows "(snd (ds_write E t k v s) = Inr () \<and> ds_commit E t (fst (ds_write E t k v s)) = (s', Inr cts) \<longrightarrow>
      ds_read_latest k s' = Some v) \<and>
    (snd (ds_delete E t k s) = Inr () \<and> ds_commit E t (fst (ds_delete E t k s)) = (s', Inr cts) \<longrightarrow> ds_read_latest k s' = None)"
  using written_visible [OF ds_reachable_wf [OF assms(1)] assms(2)] deleted_invisible [OF ds_reachable_wf [OF assms(1)] assms(2)]
  by auto

lemma fresh_write_accepted:
  "mtk_wf m \<Longrightarrow> bsc_uncommitted (mtk_chain m k) = None \<Longrightarrow> snd (mtk_write k x t m) = Inr ()"
  using kind.write_result [of m k x t] by (simp add: vc_has_write_conflict_def bsc_has_write_conflict_def)

lemma demo_ready_empty: "mtk_chain (ds_memtable demo_ready) k = vc_new"
  by (simp add: demo_ready_def demo_begun_def ds_set_sync_mode_def ds_begin_with_mode_def demo_store_def case_prod_unfold split: sum.split)

lemma demo_write_accepted: "snd (mtk_write k x t (ds_memtable demo_ready)) = Inr ()"
  using fresh_write_accepted [OF ds_wf_parts(1) [OF demo_ready_state(5)], of k x t] by (simp add: demo_ready_empty vc_new_def bsc_new_def)

theorem committed_write_is_visible_witness:
  "\<exists>s' cts. ds_commit demo_env demo_txn (fst (ds_write demo_env demo_txn [1] [2] demo_ready)) = (s', Inr cts) \<and>
     ds_read_latest [1] s' = Some [2]"
proof -
  obtain s' cts where c: "ds_commit demo_env demo_txn (fst (ds_write demo_env demo_txn [1] [2] demo_ready)) = (s', Inr cts)"
    using demo_write_commit by blast
  then show ?thesis
    using committed_write_is_visible [OF demo_ready_state(7,6), of demo_txn "[1]" "[2]" s' cts] demo_write_accepted
    by (simp add: ds_put_fields)
qed

text \<open>
  C39: Deleted keys come back after a restart.  A delete is logged as a write of the empty value, and
  recovery applies it as one: the running engine reads nothing, the restarted one the empty value.
\<close>

theorem deleted_key_returns_after_restart:
  assumes "platform_ok (de_platform E)" "ds_history E s W Q" "ds_reachable E s" "ds_room s" "write_fits (ds_wal s) (k, [])"
    and "snd (ds_delete E t k s) = Inr ()" "syncs_commits s" "ds_commit E t (fst (ds_delete E t k s)) = (s', Inr cts)"
    and "crash_image (ds_wal s') img"
  shows "ds_read_latest k s' = None \<and>
    (\<exists>s2. ds_restart E kind ordered tick img s' = Inr s2 \<and> ds_read_latest k s2 = Some [])"
proof -
  have "syncs_commits (fst (ds_delete E t k s))" using assms(7) by (simp add: syncs_commits_def ds_put_config)
  from restart_after_commit [OF assms(1) ds_history.deleted [OF assms(2,5)] this assms(8,9), of kind ordered tick]
    deleted_invisible [OF ds_reachable_wf [OF assms(3)] assms(4,6,8)]
  show ?thesis by auto
qed

theorem deleted_key_returns_after_restart_witness:
  "\<exists>s' cts. ds_commit demo_env demo_txn (fst (ds_delete demo_env demo_txn [1] demo_ready)) = (s', Inr cts) \<and>
     ds_read_latest [1] s' = None \<and>
     (\<exists>s2. ds_restart demo_env StandardType True 9 (wal_file (ds_wal s')) s' = Inr s2 \<and> ds_read_latest [1] s2 = Some [])"
proof -
  obtain s' cts where c: "ds_commit demo_env demo_txn (fst (ds_delete demo_env demo_txn [1] demo_ready)) = (s', Inr cts)"
    using demo_delete_commit by blast
  have fits: "write_fits (ds_wal demo_ready) ([1], [])" by (simp add: demo_fits)
  note h = ds_history.committed [OF ds_history.deleted [OF demo_ready_history fits] c]
  from deleted_key_returns_after_restart [OF demo_env_ok demo_ready_history demo_ready_state(7,6) fits _ demo_ready_state(4) c
      history_image [OF demo_env_ok h], where kind = StandardType and ordered = True and tick = 9] c demo_write_accepted
  show ?thesis by (auto simp: ds_put_fields)
qed

text \<open>
  A refused write is recovered.  A write that the engine refuses (write-write conflict) has already
  been added to the transaction's log buffer: if the transaction commits nevertheless, the restarted
  engine has the refused value.
\<close>

lemma refused_write_is_recovered:
  assumes "platform_ok (de_platform E)" "ds_history E s W Q" "write_fits (ds_wal s) (k, v)"
    and "snd (ds_write E t k v s) = Inl e" "syncs_commits s" "ds_commit E t (fst (ds_write E t k v s)) = (s', Inr cts)"
    and "crash_image (ds_wal s') img"
  shows "\<exists>s2. ds_restart E kind ordered tick img s' = Inr s2 \<and> ds_read_latest k s2 = Some v"
proof -
  have "syncs_commits (fst (ds_write E t k v s))" using assms(5) by (simp add: syncs_commits_def ds_put_config)
  from restart_after_commit [OF assms(1) ds_history.written [OF assms(2,3)] this assms(6,7), of kind ordered tick] show ?thesis by auto
qed

text \<open>The demonstration: a write by transaction 5 blocks the key, and the open transaction's write is refused.\<close>

definition demo_blocked :: DurableStorage where
  "demo_blocked = fst (ds_write demo_env 5 [1] [3] demo_ready)"

lemma demo_blocked_history: "ds_history demo_env demo_blocked [] ((\<lambda>_. [])(5 := [([1], [3])]))"
  using ds_history.written [OF demo_ready_history demo_fits, of "[1]" "[3]" 5] by (simp add: demo_blocked_def)

lemma demo_blocked_refuses: "u \<noteq> 5 \<Longrightarrow> snd (ds_write demo_env u [1] y demo_blocked) = Inl ww_conflict"
  using kind.second_writer_refused [OF ds_wf_parts(1) [OF demo_ready_state(5)], of 5 u "[1]" "Some [3]" "Some y"] demo_write_accepted
  by (simp add: ds_put_fields demo_blocked_def)

text \<open>
  A refused commit locks its keys.  A commit refused by serialisation leaves the transaction's
  versions in the memtable and has already taken its log buffer; a following abort finds no buffer and
  leaves them there, so that every other writer of such a key is refused.
\<close>

lemma refused_commit_locks_keys:
  assumes "ds_reachable E s" "ds_commit E t s = (s', Inl commit_refused)"
    and "bsc_uncommitted (mtk_chain (ds_memtable s) k) = Some v" "ver_txn_id v = t" "u \<noteq> t"
  shows "snd (ds_write E u k x (fst (ds_abort E t s'))) = Inl ww_conflict"
proof -
  obtain s1 where s1: "ds_flush_data E t s = (s1, Inr ())" "s' = s1\<lparr>ds_mvcc := fst (mm_commit (de_hashers E) t (ds_mvcc s1))\<rparr>"
    using ds_commit_refused [OF assms(2)] by blast
  have "ds_memtable s' = ds_memtable s" using same_core_flush_data [of s E t] s1 by (simp add: same_core_def)
  moreover have "map_of (ds_txn_write_buffers s') t = None"
    using s1 by (auto simp: ds_flush_data_def Let_def split: option.splits if_splits prod.splits sum.splits)
  ultimately have "ds_memtable (fst (ds_abort E t s')) = ds_memtable s" by (simp add: ds_abort_def)
  then show ?thesis
    using kind.write_result [OF ds_wf_parts(1) [OF ds_reachable_wf [OF assms(1)]], of k "Some x" u] assms(3-5)
    by (simp add: ds_put_fields vc_has_write_conflict_def bsc_has_write_conflict_def)
qed

end
