(* ===== verification/Packed_Row.thy ===== *)
theory Packed_Row
  imports Prelude
begin

unbundle bit_operations_syntax

text \<open>
  \<^verbatim>\<open>sochdb-storage/src/packed_row.rs\<close> with the value type of \<^verbatim>\<open>sochdb-core/src/soch.rs\<close>: a row is one
  byte string, a null bitmap, 32-bit offsets and the column data.  Rust strings are their UTF-8 bytes
  and 64-bit floats their bits; signed integers are words.  Indexing and slicing out of range panics.
\<close>

subsection \<open>The standard library\<close>

definition div_ceil :: "nat \<Rightarrow> nat \<Rightarrow> nat" where
  "div_ceil a b = (a + b - 1) div b"

definition vec_index :: "'a list \<Rightarrow> nat \<Rightarrow> 'a result" where
  "vec_index xs i = (if i < length xs then Inr (xs ! i) else Inl (Panic ''index out of bounds''))"

text \<open>\<^verbatim>\<open>buf[p..p + bs.len()].copy_from_slice(bs)\<close>.\<close>

definition copy_at :: "nat \<Rightarrow> 'a list \<Rightarrow> 'a list \<Rightarrow> 'a list result" where
  "copy_at p bs buf =
     (if p + length bs \<le> length buf then Inr (take p buf @ bs @ drop (p + length bs) buf)
      else Inl (Panic ''range end index out of range''))"

text \<open>\<^verbatim>\<open>str::from_utf8\<close>: the well-formed byte sequences of Unicode.\<close>

definition utf8_cont :: "byte \<Rightarrow> bool" where
  "utf8_cont b \<longleftrightarrow> 0x80 \<le> b \<and> b \<le> 0xBF"

fun utf8_valid :: "bytes \<Rightarrow> bool" where
  "utf8_valid [] = True"
| "utf8_valid (b # bs) =
     (if b \<le> 0x7F then utf8_valid bs
      else if 0xC2 \<le> b \<and> b \<le> 0xDF
      then (case bs of c1 # r \<Rightarrow> utf8_cont c1 \<and> utf8_valid r | _ \<Rightarrow> False)
      else if 0xE0 \<le> b \<and> b \<le> 0xEF
      then (case bs of
              c1 # c2 # r \<Rightarrow>
                (if b = 0xE0 then 0xA0 \<le> c1 \<and> c1 \<le> 0xBF else if b = 0xED then 0x80 \<le> c1 \<and> c1 \<le> 0x9F else utf8_cont c1) \<and>
                utf8_cont c2 \<and> utf8_valid r
            | _ \<Rightarrow> False)
      else if 0xF0 \<le> b \<and> b \<le> 0xF4
      then (case bs of
              c1 # c2 # c3 # r \<Rightarrow>
                (if b = 0xF0 then 0x90 \<le> c1 \<and> c1 \<le> 0xBF else if b = 0xF4 then 0x80 \<le> c1 \<and> c1 \<le> 0x8F else utf8_cont c1) \<and>
                utf8_cont c2 \<and> utf8_cont c3 \<and> utf8_valid r
            | _ \<Rightarrow> False)
      else False)"

subsection \<open>Values, columns, schemas\<close>

datatype SochValue =
    VNull
  | VBool bool
  | VInt u64
  | VUInt u64
  | VFloat u64
  | VText bytes
  | VBinary bytes
  | VArray "SochValue list"
  | VObject "(bytes \<times> SochValue) list"
  | VRef bytes u64

datatype PackedColumnType = PBool | PInt64 | PUInt64 | PFloat64 | PText | PBinary | PNull

definition pct_from_byte :: "byte \<Rightarrow> PackedColumnType option" where
  "pct_from_byte b =
     (if b = 0 then Some PNull else if b = 1 then Some PBool else if b = 2 then Some PInt64 else if b = 3 then Some PUInt64
      else if b = 4 then Some PFloat64 else if b = 5 then Some PText else if b = 6 then Some PBinary else None)"

definition pct_to_byte :: "PackedColumnType \<Rightarrow> byte" where
  "pct_to_byte t =
     (case t of PNull \<Rightarrow> 0 | PBool \<Rightarrow> 1 | PInt64 \<Rightarrow> 2 | PUInt64 \<Rightarrow> 3 | PFloat64 \<Rightarrow> 4 | PText \<Rightarrow> 5 | PBinary \<Rightarrow> 6)"

record PackedColumnDef =
  pc_name :: bytes
  pc_type :: PackedColumnType
  pc_nullable :: bool

record PackedTableSchema =
  ps_name :: bytes
  ps_columns :: "PackedColumnDef list"

definition ps_new :: "bytes \<Rightarrow> PackedColumnDef list \<Rightarrow> PackedTableSchema" where
  "ps_new name columns = \<lparr>ps_name = name, ps_columns = columns\<rparr>"

text \<open>\<^verbatim>\<open>Iterator::position\<close>.\<close>

fun position :: "('a \<Rightarrow> bool) \<Rightarrow> 'a list \<Rightarrow> nat option" where
  "position p [] = None"
| "position p (x # xs) = (if p x then Some 0 else map_option Suc (position p xs))"

definition ps_column_index :: "bytes \<Rightarrow> PackedTableSchema \<Rightarrow> nat option" where
  "ps_column_index name schema = position (\<lambda>c. pc_name c = name) (ps_columns schema)"

definition ps_column :: "nat \<Rightarrow> PackedTableSchema \<Rightarrow> PackedColumnDef option" where
  "ps_column idx schema = vec_get (ps_columns schema) idx"

definition ps_num_columns :: "PackedTableSchema \<Rightarrow> nat" where
  "ps_num_columns schema = length (ps_columns schema)"

subsection \<open>Writing\<close>

record PackedRow =
  pr_data :: bytes
  pr_num_cols :: "16 word"
  pr_null_bitmap_size :: nat

definition value_size :: "SochValue option \<Rightarrow> nat" where
  "value_size v =
     (case v of
        None \<Rightarrow> 0
      | Some VNull \<Rightarrow> 0
      | Some (VBool _) \<Rightarrow> 1
      | Some (VInt _) \<Rightarrow> 8
      | Some (VUInt _) \<Rightarrow> 8
      | Some (VFloat _) \<Rightarrow> 8
      | Some (VText s) \<Rightarrow> 4 + length s
      | Some (VBinary b) \<Rightarrow> 4 + length b
      | _ \<Rightarrow> 0)"

definition buffer_size :: "PackedTableSchema \<Rightarrow> (bytes \<Rightarrow> SochValue option) \<Rightarrow> nat" where
  "buffer_size schema values =
     (let k = length (ps_columns schema)
      in div_ceil k 8 + k * 4 + sum_list (map (\<lambda>col. value_size (values (pc_name col))) (ps_columns schema)))"

definition write_value :: "bytes \<Rightarrow> SochValue \<Rightarrow> bytes" where
  "write_value buf v =
     (case v of
        VNull \<Rightarrow> buf
      | VBool b \<Rightarrow> buf @ [if b then 1 else 0]
      | VInt i \<Rightarrow> buf @ u64_le i
      | VUInt u \<Rightarrow> buf @ u64_le u
      | VFloat f \<Rightarrow> buf @ u64_le f
      | VText s \<Rightarrow> (buf @ u32_le (word_of_nat (length s))) @ s
      | VBinary b \<Rightarrow> (buf @ u32_le (word_of_nat (length b))) @ b
      | _ \<Rightarrow> buf)"

definition is_null :: "SochValue option \<Rightarrow> bool" where
  "is_null v = (case v of None \<Rightarrow> True | Some VNull \<Rightarrow> True | _ \<Rightarrow> False)"

text \<open>The loop that sets the null bits, from index \<open>i\<close> on.\<close>

fun null_bits :: "nat \<Rightarrow> SochValue option list \<Rightarrow> bytes \<Rightarrow> bytes result" where
  "null_bits i [] bits = Inr bits"
| "null_bits i (v # vs) bits =
     (if is_null v
      then try_bind (vec_index bits (i div 8)) (\<lambda>b.
           null_bits (i + 1) vs (bits[i div 8 := b OR push_bit (i mod 8) 1]))
      else null_bits (i + 1) vs bits)"

text \<open>The loop that records offsets and appends values.\<close>

fun write_columns :: "nat \<Rightarrow> nat \<Rightarrow> nat \<Rightarrow> SochValue option list \<Rightarrow> bytes \<Rightarrow> bytes result" where
  "write_columns offsets_start data_start i [] data = Inr data"
| "write_columns offsets_start data_start i (v # vs) data =
     (let offset = (word_of_nat (length data - data_start) :: u32)
      in try_bind (copy_at (offsets_start + i * 4) (u32_le offset) data) (\<lambda>data.
         write_columns offsets_start data_start (i + 1) vs
           (case v of Some value \<Rightarrow> write_value data value | None \<Rightarrow> data)))"

text \<open>Rows built on the heap; \<^verbatim>\<open>pack\<close> looks the values up by column name, \<^verbatim>\<open>pack_slice_large\<close> takes them in order.\<close>

definition pack_values :: "nat \<Rightarrow> SochValue option list \<Rightarrow> PackedRow result" where
  "pack_values k vs =
     (let null_bitmap_size = div_ceil k 8
      in try_bind (null_bits 0 vs (replicate null_bitmap_size 0)) (\<lambda>data.
         let offsets_start = length data;
             data = data @ replicate (k * 4) 0;
             data_start = offsets_start + k * 4
         in try_bind (write_columns offsets_start data_start 0 vs data) (\<lambda>data.
            Inr \<lparr>pr_data = data, pr_num_cols = word_of_nat k, pr_null_bitmap_size = null_bitmap_size\<rparr>)))"

definition pr_pack :: "PackedTableSchema \<Rightarrow> (bytes \<Rightarrow> SochValue option) \<Rightarrow> PackedRow result" where
  "pr_pack schema values =
     pack_values (length (ps_columns schema)) (map (\<lambda>col. values (pc_name col)) (ps_columns schema))"

definition pack_slice_large :: "SochValue option list \<Rightarrow> nat \<Rightarrow> PackedRow result" where
  "pack_slice_large values k = pack_values k values"

text \<open>Writing into a slice that starts at \<open>p\<close>; the number of bytes written.\<close>

definition write_value_to_slice :: "nat \<Rightarrow> bytes \<Rightarrow> SochValue \<Rightarrow> (bytes \<times> nat) result" where
  "write_value_to_slice p buf v =
     (case v of
        VNull \<Rightarrow> Inr (buf, 0)
      | VBool b \<Rightarrow> try_bind (copy_at p [if b then 1 else 0] buf) (\<lambda>buf. Inr (buf, 1))
      | VInt i \<Rightarrow> try_bind (copy_at p (u64_le i) buf) (\<lambda>buf. Inr (buf, 8))
      | VUInt u \<Rightarrow> try_bind (copy_at p (u64_le u) buf) (\<lambda>buf. Inr (buf, 8))
      | VFloat f \<Rightarrow> try_bind (copy_at p (u64_le f) buf) (\<lambda>buf. Inr (buf, 8))
      | VText s \<Rightarrow>
          try_bind (copy_at p (u32_le (word_of_nat (length s))) buf) (\<lambda>buf.
          try_bind (copy_at (p + 4) s buf) (\<lambda>buf. Inr (buf, 4 + length s)))
      | VBinary b \<Rightarrow>
          try_bind (copy_at p (u32_le (word_of_nat (length b))) buf) (\<lambda>buf.
          try_bind (copy_at (p + 4) b buf) (\<lambda>buf. Inr (buf, 4 + length b)))
      | _ \<Rightarrow> Inr (buf, 0))"

definition buffer_size_slice :: "nat \<Rightarrow> SochValue option list \<Rightarrow> nat" where
  "buffer_size_slice k vs = div_ceil k 8 + k * 4 + sum_list (map value_size vs)"

fun write_columns_slice :: "nat \<Rightarrow> nat \<Rightarrow> nat \<Rightarrow> nat \<Rightarrow> SochValue option list \<Rightarrow> bytes \<Rightarrow> bytes result" where
  "write_columns_slice offsets_start data_start i data_pos [] buf = Inr buf"
| "write_columns_slice offsets_start data_start i data_pos (v # vs) buf =
     (let offset = (word_of_nat (data_pos - data_start) :: u32)
      in try_bind (copy_at (offsets_start + i * 4) (u32_le offset) buf) (\<lambda>buf.
         case v of
           Some value \<Rightarrow>
             (if data_pos \<le> length buf
              then try_bind (write_value_to_slice data_pos buf value) (\<lambda>(buf, n).
                   write_columns_slice offsets_start data_start (i + 1) (data_pos + n) vs buf)
              else Inl (Panic ''range start index out of range''))
         | None \<Rightarrow> write_columns_slice offsets_start data_start (i + 1) data_pos vs buf))"

definition pack_slice_small :: "SochValue option list \<Rightarrow> nat \<Rightarrow> nat \<Rightarrow> PackedRow result" where
  "pack_slice_small values k total_size =
     (let null_bitmap_size = div_ceil k 8
      in try_bind (null_bits 0 values (replicate total_size 0)) (\<lambda>buf.
         let offsets_start = null_bitmap_size;
             data_start = offsets_start + k * 4
         in try_bind (write_columns_slice offsets_start data_start 0 data_start values buf) (\<lambda>buf.
            Inr \<lparr>pr_data = take total_size buf, pr_num_cols = word_of_nat k, pr_null_bitmap_size = null_bitmap_size\<rparr>)))"

definition pr_pack_slice :: "PackedTableSchema \<Rightarrow> SochValue option list \<Rightarrow> PackedRow result" where
  "pr_pack_slice schema values =
     (let k = length (ps_columns schema);
          total_size = buffer_size_slice k values
      in if total_size \<le> 512 then pack_slice_small values k total_size else pack_slice_large values k)"

subsection \<open>Reading\<close>

definition read_value :: "bytes \<Rightarrow> PackedColumnType \<Rightarrow> SochValue" where
  "read_value data col_type =
     (case col_type of
        PNull \<Rightarrow> VNull
      | PBool \<Rightarrow> if data = [] then VNull else VBool (hd data \<noteq> 0)
      | PInt64 \<Rightarrow> if length data < 8 then VNull else VInt (word_of_nat (of_le_bytes (take 8 data)))
      | PUInt64 \<Rightarrow> if length data < 8 then VNull else VUInt (word_of_nat (of_le_bytes (take 8 data)))
      | PFloat64 \<Rightarrow> if length data < 8 then VNull else VFloat (word_of_nat (of_le_bytes (take 8 data)))
      | PText \<Rightarrow>
          if length data < 4 then VNull
          else let len = of_le_bytes (take 4 data)
               in if length data < 4 + len then VNull
                  else let s = take len (drop 4 data) in if utf8_valid s then VText s else VNull
      | PBinary \<Rightarrow>
          if length data < 4 then VNull
          else let len = of_le_bytes (take 4 data)
               in if length data < 4 + len then VNull else VBinary (take len (drop 4 data)))"

definition get_column :: "nat \<Rightarrow> PackedColumnType \<Rightarrow> PackedRow \<Rightarrow> SochValue option result" where
  "get_column idx col_type row =
     (if idx \<ge> unat (pr_num_cols row) then Inr None
      else try_bind (vec_index (pr_data row) (idx div 8)) (\<lambda>null_byte.
        if null_byte AND push_bit (idx mod 8) 1 \<noteq> 0 then Inr (Some VNull)
        else let offset_pos = pr_null_bitmap_size row + idx * 4
             in try_bind (vec_index (pr_data row) offset_pos) (\<lambda>b0.
                try_bind (vec_index (pr_data row) (offset_pos + 1)) (\<lambda>b1.
                try_bind (vec_index (pr_data row) (offset_pos + 2)) (\<lambda>b2.
                try_bind (vec_index (pr_data row) (offset_pos + 3)) (\<lambda>b3.
                  let offset = of_le_bytes [b0, b1, b2, b3];
                      data_start = pr_null_bitmap_size row + unat (pr_num_cols row) * 4;
                      value_start = data_start + offset
                  in if value_start \<ge> length (pr_data row) then Inr (Some VNull)
                     else Inr (Some (read_value (drop value_start (pr_data row)) col_type))))))))"

text \<open>\<^verbatim>\<open>unwrap_or(SochValue::Null)\<close> for every column, in order, from column \<open>i\<close> on.\<close>

fun unpack_columns :: "nat \<Rightarrow> PackedColumnDef list \<Rightarrow> PackedRow \<Rightarrow> SochValue list result" where
  "unpack_columns i [] row = Inr []"
| "unpack_columns i (col # cols) row =
     try_bind (get_column i (pc_type col) row) (\<lambda>ov.
     try_bind (unpack_columns (i + 1) cols row) (\<lambda>vs.
       Inr ((case ov of Some v \<Rightarrow> v | None \<Rightarrow> VNull) # vs)))"

definition unpack_to_vec :: "PackedTableSchema \<Rightarrow> PackedRow \<Rightarrow> SochValue list result" where
  "unpack_to_vec schema row = unpack_columns 0 (ps_columns schema) row"

definition get_by_name :: "PackedTableSchema \<Rightarrow> bytes \<Rightarrow> PackedRow \<Rightarrow> SochValue option result" where
  "get_by_name schema name row =
     (case ps_column_index name schema of
        None \<Rightarrow> Inr None
      | Some idx \<Rightarrow>
          (case ps_column idx schema of None \<Rightarrow> Inr None | Some col \<Rightarrow> get_column idx (pc_type col) row))"

definition pr_as_bytes :: "PackedRow \<Rightarrow> bytes" where
  "pr_as_bytes row = pr_data row"

definition pr_into_bytes :: "PackedRow \<Rightarrow> bytes" where
  "pr_into_bytes row = pr_data row"

definition pr_from_bytes :: "bytes \<Rightarrow> nat \<Rightarrow> PackedRow result" where
  "pr_from_bytes data num_cols =
     (let null_bitmap_size = div_ceil num_cols 8;
          min_size = null_bitmap_size + num_cols * 4
      in if length data < min_size
         then Inl (Err (Internal (''PackedRow data too short: '' @ show_nat (length data) @ '' < '' @ show_nat min_size)))
         else Inr \<lparr>pr_data = data, pr_num_cols = word_of_nat num_cols, pr_null_bitmap_size = null_bitmap_size\<rparr>)"

text \<open>The columns of the resulting map, in schema order; a repeated name keeps the last value.\<close>

fun unpack_map :: "nat \<Rightarrow> PackedColumnDef list \<Rightarrow> PackedRow \<Rightarrow> (bytes, SochValue) dashmap \<Rightarrow> (bytes, SochValue) dashmap result" where
  "unpack_map i [] row m = Inr m"
| "unpack_map i (col # cols) row m =
     try_bind (get_column i (pc_type col) row) (\<lambda>ov.
       unpack_map (i + 1) cols row
         (case ov of
            Some v \<Rightarrow> if v \<noteq> VNull \<or> pc_nullable col then dm_insert (pc_name col) v m else m
          | None \<Rightarrow> m))"

definition pr_unpack :: "PackedTableSchema \<Rightarrow> PackedRow \<Rightarrow> (bytes, SochValue) dashmap result" where
  "pr_unpack schema row = unpack_map 0 (ps_columns schema) row []"

definition pr_num_columns :: "PackedRow \<Rightarrow> nat" where
  "pr_num_columns row = unat (pr_num_cols row)"

definition pr_size :: "PackedRow \<Rightarrow> nat" where
  "pr_size row = length (pr_data row)"

subsection \<open>The builder\<close>

record PackedRowBuilder =
  rb_schema :: PackedTableSchema
  rb_values :: "bytes \<Rightarrow> SochValue option"

definition rb_new :: "PackedTableSchema \<Rightarrow> PackedRowBuilder" where
  "rb_new schema = \<lparr>rb_schema = schema, rb_values = (\<lambda>_. None)\<rparr>"

definition rb_set :: "bytes \<Rightarrow> SochValue \<Rightarrow> PackedRowBuilder \<Rightarrow> PackedRowBuilder" where
  "rb_set name v b = b\<lparr>rb_values := (rb_values b)(name := Some v)\<rparr>"

definition rb_set_int :: "bytes \<Rightarrow> u64 \<Rightarrow> PackedRowBuilder \<Rightarrow> PackedRowBuilder" where
  "rb_set_int name v b = rb_set name (VInt v) b"

definition rb_set_text :: "bytes \<Rightarrow> bytes \<Rightarrow> PackedRowBuilder \<Rightarrow> PackedRowBuilder" where
  "rb_set_text name v b = rb_set name (VText v) b"

definition rb_set_float :: "bytes \<Rightarrow> u64 \<Rightarrow> PackedRowBuilder \<Rightarrow> PackedRowBuilder" where
  "rb_set_float name v b = rb_set name (VFloat v) b"

definition rb_set_bool :: "bytes \<Rightarrow> bool \<Rightarrow> PackedRowBuilder \<Rightarrow> PackedRowBuilder" where
  "rb_set_bool name v b = rb_set name (VBool v) b"

definition rb_build :: "PackedRowBuilder \<Rightarrow> PackedRow result" where
  "rb_build b = pr_pack (rb_schema b) (rb_values b)"

subsection \<open>The layout of a row\<close>

definition encoded :: "SochValue option \<Rightarrow> bytes" where
  "encoded v = (case v of None \<Rightarrow> [] | Some x \<Rightarrow> write_value [] x)"

lemma write_value_encoded: "write_value buf x = buf @ encoded (Some x)"
  by (cases x) (simp_all add: write_value_def encoded_def)

lemma encoded_None [simp]: "encoded None = []"
  by (simp add: encoded_def)

lemma length_encoded [simp]: "length (encoded v) = value_size v"
  by (simp add: encoded_def value_size_def write_value_def split: option.split SochValue.split)

fun offset_bytes :: "nat \<Rightarrow> SochValue option list \<Rightarrow> bytes" where
  "offset_bytes n [] = []"
| "offset_bytes n (v # vs) = u32_le (word_of_nat n) @ offset_bytes (n + value_size v) vs"

lemma length_offset_bytes [simp]: "length (offset_bytes n vs) = length vs * 4"
  by (induction vs arbitrary: n) auto

lemma copy_at_middle: "length c = length b \<Longrightarrow> p = length a \<Longrightarrow> copy_at p b (a @ c @ d) = Inr (a @ b @ d)"
  by (simp add: copy_at_def)

lemma write_columns_layout:
  assumes "length pre = offsets_start + i * 4" "data_start = length pre + length vs * 4"
  shows "write_columns offsets_start data_start i vs (pre @ replicate (length vs * 4) 0 @ dat) =
    Inr (pre @ offset_bytes (length dat) vs @ dat @ concat (map encoded vs))"
  using assms
proof (induction vs arbitrary: i pre dat)
  case (Cons v vs)
  let ?off = "u32_le (word_of_nat (length dat))"
  have zeros: "replicate (length (v # vs) * 4) 0 = replicate 4 (0 :: byte) @ replicate (length vs * 4) 0"
    by (simp flip: replicate_add)
  have copy: "copy_at (offsets_start + i * 4) ?off (pre @ replicate 4 0 @ replicate (length vs * 4) 0 @ dat)
      = Inr (pre @ ?off @ replicate (length vs * 4) 0 @ dat)"
    by (rule copy_at_middle) (use Cons.prems(1) in simp_all)
  have len: "length (pre @ replicate 4 0 @ replicate (length vs * 4) 0 @ dat) - data_start = length dat"
    using Cons.prems(2) by simp
  have wr: "(case v of Some value \<Rightarrow> write_value d value | None \<Rightarrow> d) = d @ encoded v" for d
    by (cases v) (simp_all add: write_value_encoded)
  have "write_columns offsets_start data_start (i + 1) vs ((pre @ ?off) @ replicate (length vs * 4) 0 @ (dat @ encoded v)) =
      Inr ((pre @ ?off) @ offset_bytes (length (dat @ encoded v)) vs @ (dat @ encoded v) @ concat (map encoded vs))"
    by (rule Cons.IH) (use Cons.prems in simp_all)
  then show ?case
    unfolding zeros write_columns.simps(2) [of offsets_start data_start i v vs] Let_def append_assoc len copy try_bind_simps wr
    by (simp only: append_assoc length_append length_encoded offset_bytes.simps list.map concat.simps)
qed simp

lemma write_value_to_slice_layout:
  assumes "length gap = value_size (Some x)"
  shows "write_value_to_slice (length pre) (pre @ gap @ post) x = Inr (pre @ encoded (Some x) @ post, value_size (Some x))"
proof -
  have str: "try_bind (copy_at (length pre) (u32_le (word_of_nat (length s))) (pre @ gap @ post)) (\<lambda>buf.
      try_bind (copy_at (length pre + 4) s buf) (\<lambda>buf. Inr (buf, 4 + length s)))
      = Inr (pre @ (u32_le (word_of_nat (length s)) @ s) @ post, 4 + length s)" if "length gap = 4 + length s" for s :: bytes
  proof -
    have "gap = take 4 gap @ drop 4 gap" "length (take 4 gap) = 4" "length (drop 4 gap) = length s" using that by simp_all
    then obtain g1 g2 where gap: "gap = g1 @ g2" "length g1 = 4" "length g2 = length s" by blast
    have "copy_at (length pre) (u32_le (word_of_nat (length s))) (pre @ g1 @ (g2 @ post))
        = Inr (pre @ u32_le (word_of_nat (length s)) @ (g2 @ post))"
      by (rule copy_at_middle) (use gap in simp_all)
    moreover have "copy_at (length pre + 4) s ((pre @ u32_le (word_of_nat (length s))) @ g2 @ post)
        = Inr ((pre @ u32_le (word_of_nat (length s))) @ s @ post)"
      by (rule copy_at_middle) (use gap in simp_all)
    ultimately show ?thesis by (simp add: gap(1))
  qed
  show ?thesis
    using assms
    by (cases x) (simp_all add: write_value_to_slice_def encoded_def write_value_def value_size_def copy_at_middle str)
qed

lemma write_columns_slice_layout:
  assumes "length pre = offsets_start + i * 4" "data_start = length pre + length vs * 4"
  shows "write_columns_slice offsets_start data_start i (data_start + length dat) vs
      (pre @ replicate (length vs * 4) 0 @ dat @ replicate (sum_list (map value_size vs)) 0) =
    Inr (pre @ offset_bytes (length dat) vs @ dat @ concat (map encoded vs))"
  using assms
proof (induction vs arbitrary: i pre dat)
  case (Cons v vs)
  let ?off = "u32_le (word_of_nat (length dat))" and ?n = "sum_list (map value_size vs)"
  let ?buf = "(pre @ ?off @ replicate (length vs * 4) 0 @ dat) @ replicate (value_size v) 0 @ replicate ?n 0"
  have zeros: "replicate (length (v # vs) * 4) 0 = replicate 4 (0 :: byte) @ replicate (length vs * 4) 0"
    "replicate (sum_list (map value_size (v # vs))) (0 :: byte) = replicate (value_size v) 0 @ replicate ?n 0"
    by (simp_all flip: replicate_add)
  have copy: "copy_at (offsets_start + i * 4) ?off
      (pre @ replicate 4 0 @ replicate (length vs * 4) 0 @ dat @ replicate (value_size v) 0 @ replicate ?n 0) = Inr ?buf"
    by (subst copy_at_middle) (use Cons.prems(1) in simp_all)
  have IH: "write_columns_slice offsets_start data_start (i + 1) (data_start + length (dat @ encoded v)) vs
      ((pre @ ?off) @ replicate (length vs * 4) 0 @ (dat @ encoded v) @ replicate ?n 0)
    = Inr ((pre @ ?off) @ offset_bytes (length (dat @ encoded v)) vs @ (dat @ encoded v) @ concat (map encoded vs))"
    by (rule Cons.IH) (use Cons.prems in simp_all)
  have pos: "length (pre @ ?off @ replicate (length vs * 4) 0 @ dat) = data_start + length dat"
    using Cons.prems(2) by simp
  note step = write_columns_slice.simps(2) [of offsets_start data_start i "data_start + length dat" v vs]
  show ?case
  proof (cases v)
    case None
    then have e: "encoded v = []" "value_size v = 0" by (simp_all add: encoded_def value_size_def)
    show ?thesis
      unfolding zeros step Let_def diff_add_inverse append_assoc copy [unfolded append_assoc] try_bind_simps
      using IH by (simp add: None) (simp add: None [symmetric] e)
  next
    case (Some x)
    have "write_value_to_slice (data_start + length dat) ?buf x
        = Inr ((pre @ ?off @ replicate (length vs * 4) 0 @ dat) @ encoded v @ replicate ?n 0, value_size v)"
      unfolding pos [symmetric] Some by (rule write_value_to_slice_layout) simp
    moreover have "data_start + length dat \<le> length ?buf" unfolding pos [symmetric] by simp
    ultimately show ?thesis
      unfolding zeros step Let_def diff_add_inverse append_assoc copy [unfolded append_assoc] try_bind_simps
      using IH by (simp add: Some) (simp add: Some [symmetric] add.assoc)
  qed
qed simp

text \<open>The null bitmap.\<close>

lemma bit_set_bit: "b < 8 \<Longrightarrow> bit (x OR push_bit m 1 :: byte) b \<longleftrightarrow> bit x b \<or> b = m"
  by (auto simp: bit_or_iff bit_exp_iff)

lemma test_bit: "m < 8 \<Longrightarrow> (x :: byte) AND push_bit m 1 \<noteq> 0 \<longleftrightarrow> bit x m"
proof -
  assume m: "m < 8"
  have "bit (x AND push_bit m 1) n \<longleftrightarrow> n = m \<and> bit x m" for n
    using m by (auto simp: bit_and_iff bit_exp_iff)
  then show ?thesis by (metis bit_0_eq bot_apply bot_bool_def bit_eq_iff)
qed

lemma null_bits_append: "null_bits i vs bits = Inr bits' \<Longrightarrow> null_bits i vs (bits @ rest) = Inr (bits' @ rest)"
proof (induction vs arbitrary: i bits)
  case (Cons v vs)
  then show ?case
    by (auto simp: vec_index_def nth_append list_update_append try_bind_eq_Inr split: if_splits)
qed simp

lemma null_bits_result:
  assumes "i + length vs \<le> 8 * length bits"
  shows "\<exists>bits'. null_bits i vs bits = Inr bits' \<and> length bits' = length bits \<and>
    (\<forall>j b. j < length bits \<longrightarrow> b < 8 \<longrightarrow>
       (bit (bits' ! j) b \<longleftrightarrow> bit (bits ! j) b \<or> (\<exists>m < length vs. i + m = 8 * j + b \<and> is_null (vs ! m))))"
  using assms
proof (induction vs arbitrary: i bits)
  case (Cons v vs)
  let ?bits = "if is_null v then bits[i div 8 := bits ! (i div 8) OR push_bit (i mod 8) 1] else bits"
  have "i div 8 < length bits" using Cons.prems by (simp add: less_mult_imp_div_less)
  then have step: "null_bits i (v # vs) bits = null_bits (i + 1) vs ?bits" by (simp add: vec_index_def)
  have old: "bit (?bits ! j) b \<longleftrightarrow> bit (bits ! j) b \<or> (is_null v \<and> i = 8 * j + b)" if "j < length bits" "b < 8" for j b
  proof (cases "j = i div 8")
    case True
    then have eq: "i = 8 * j + b \<longleftrightarrow> b = i mod 8" using that(2) by presburger
    have new: "?bits ! j = (if is_null v then bits ! j OR push_bit (i mod 8) 1 else bits ! j)" using that(1) True by simp
    show ?thesis
      unfolding new eq by (cases "is_null v") (simp_all only: if_True if_False bit_set_bit [OF that(2)] simp_thms)
  next
    case False
    have "(8 * j + b) div 8 = j" using that(2) by simp
    with False have "i \<noteq> 8 * j + b" by metis
    with that False show ?thesis by simp
  qed
  have len: "length ?bits = length bits" by simp
  from Cons.prems have "i + 1 + length vs \<le> 8 * length ?bits" unfolding len by simp
  from Cons.IH [OF this, unfolded len] obtain bits' where IH: "null_bits (i + 1) vs ?bits = Inr bits'" "length bits' = length bits"
    "\<forall>j b. j < length bits \<longrightarrow> b < 8 \<longrightarrow>
       (bit (bits' ! j) b \<longleftrightarrow> bit (?bits ! j) b \<or> (\<exists>m < length vs. i + 1 + m = 8 * j + b \<and> is_null (vs ! m)))"
    by blast
  have shift: "(\<exists>m < length (v # vs). i + m = n \<and> is_null ((v # vs) ! m)) \<longleftrightarrow>
      (is_null v \<and> i = n) \<or> (\<exists>m < length vs. i + 1 + m = n \<and> is_null (vs ! m))" for n
    by (auto simp: less_Suc_eq_0_disj)
  show ?case unfolding step shift using IH(1,2) by (intro exI [of _ bits'] conjI allI impI) (simp_all only: IH(3) old simp_thms disj_assoc)
qed simp

definition null_bitmap :: "SochValue option list \<Rightarrow> bytes" where
  "null_bitmap vs = (case null_bits 0 vs (replicate (div_ceil (length vs) 8) 0) of Inr bits \<Rightarrow> bits | Inl _ \<Rightarrow> [])"

lemma div_ceil_8: "k \<le> 8 * div_ceil k 8"
  by (simp add: div_ceil_def)

lemma null_bitmap:
  "null_bits 0 vs (replicate (div_ceil (length vs) 8) 0) = Inr (null_bitmap vs)"
  "length (null_bitmap vs) = div_ceil (length vs) 8"
  "i < length vs \<Longrightarrow> bit (null_bitmap vs ! (i div 8)) (i mod 8) \<longleftrightarrow> is_null (vs ! i)"
proof -
  obtain bits where bits: "null_bits 0 vs (replicate (div_ceil (length vs) 8) 0) = Inr bits"
    "length bits = div_ceil (length vs) 8"
    "\<forall>j b. j < div_ceil (length vs) 8 \<longrightarrow> b < 8 \<longrightarrow> (bit (bits ! j) b \<longleftrightarrow> (\<exists>m < length vs. m = 8 * j + b \<and> is_null (vs ! m)))"
    using null_bits_result [of 0 vs "replicate (div_ceil (length vs) 8) 0"] div_ceil_8 [of "length vs"] by auto
  then have [simp]: "null_bitmap vs = bits" by (simp add: null_bitmap_def)
  show "null_bits 0 vs (replicate (div_ceil (length vs) 8) 0) = Inr (null_bitmap vs)"
    "length (null_bitmap vs) = div_ceil (length vs) 8" using bits by simp_all
  show "bit (null_bitmap vs ! (i div 8)) (i mod 8) \<longleftrightarrow> is_null (vs ! i)" if "i < length vs"
  proof -
    have "i div 8 < div_ceil (length vs) 8" using that div_ceil_8 [of "length vs"] by (simp add: less_mult_imp_div_less)
    then show ?thesis using bits(3) that by simp
  qed
qed

text \<open>The three ways to pack a row produce the same bytes.\<close>

definition row_layout :: "SochValue option list \<Rightarrow> bytes" where
  "row_layout vs = null_bitmap vs @ offset_bytes 0 vs @ concat (map encoded vs)"

definition row_of :: "SochValue option list \<Rightarrow> PackedRow" where
  "row_of vs = \<lparr>pr_data = row_layout vs, pr_num_cols = word_of_nat (length vs), pr_null_bitmap_size = div_ceil (length vs) 8\<rparr>"

lemma pack_values_layout: "k = length vs \<Longrightarrow> pack_values k vs = Inr (row_of vs)"
proof -
  let ?d = "null_bitmap vs @ replicate (length vs * 4) 0 @ []"
  have "write_columns (length (null_bitmap vs)) (length (null_bitmap vs) + length vs * 4) 0 vs ?d = Inr (row_layout vs)"
    by (subst write_columns_layout) (simp_all add: row_layout_def)
  then show "k = length vs \<Longrightarrow> pack_values k vs = Inr (row_of vs)"
    by (simp add: pack_values_def null_bitmap Let_def row_of_def)
qed

lemma length_concat_encoded: "length (concat (map encoded vs)) = sum_list (map value_size vs)"
  by (induction vs) auto

lemma pack_slice_small_layout:
  assumes "k = length vs" "total_size = buffer_size_slice k vs"
  shows "pack_slice_small vs k total_size = Inr (row_of vs)"
proof -
  let ?n = "sum_list (map value_size vs)"
  have zeros: "replicate total_size (0 :: byte) = replicate (div_ceil k 8) 0 @ replicate (k * 4) 0 @ replicate ?n 0"
    by (simp add: assms(2) buffer_size_slice_def add.assoc flip: replicate_add)
  have "null_bits 0 vs (replicate total_size 0) = Inr (null_bitmap vs @ replicate (k * 4) 0 @ replicate ?n 0)"
    unfolding zeros assms(1) by (rule null_bits_append [OF null_bitmap(1)])
  moreover have "write_columns_slice (div_ceil k 8) (div_ceil k 8 + k * 4) 0 (div_ceil k 8 + k * 4) vs
      (null_bitmap vs @ replicate (k * 4) 0 @ replicate ?n 0) = Inr (row_layout vs)"
    using write_columns_slice_layout [of "null_bitmap vs" "div_ceil k 8" 0 "div_ceil k 8 + k * 4" vs "[]"]
    by (simp add: assms(1) null_bitmap row_layout_def)
  moreover have "length (row_layout vs) = total_size"
    by (simp add: row_layout_def null_bitmap assms buffer_size_slice_def length_concat_encoded)
  ultimately show ?thesis by (simp add: pack_slice_small_def Let_def row_of_def assms(1))
qed

lemma pack_layout:
  "pr_pack schema values = Inr (row_of (map (\<lambda>col. values (pc_name col)) (ps_columns schema)))"
  "length vs = length (ps_columns schema) \<Longrightarrow> pr_pack_slice schema vs = Inr (row_of vs)"
  by (simp_all add: pr_pack_def pr_pack_slice_def pack_slice_large_def pack_values_layout pack_slice_small_layout Let_def)

subsection \<open>Reading back\<close>

text \<open>A value that a column of the given type holds, small enough for its length prefix.\<close>

definition value_fits :: "PackedColumnType \<Rightarrow> SochValue option \<Rightarrow> bool" where
  "value_fits t v =
     (case v of
        None \<Rightarrow> True
      | Some VNull \<Rightarrow> True
      | Some (VBool _) \<Rightarrow> t = PBool
      | Some (VInt _) \<Rightarrow> t = PInt64
      | Some (VUInt _) \<Rightarrow> t = PUInt64
      | Some (VFloat _) \<Rightarrow> t = PFloat64
      | Some (VText s) \<Rightarrow> t = PText \<and> utf8_valid s \<and> length s < 2 ^ 32
      | Some (VBinary b) \<Rightarrow> t = PBinary \<and> length b < 2 ^ 32
      | _ \<Rightarrow> False)"

definition or_null :: "SochValue option \<Rightarrow> SochValue" where
  "or_null v = (case v of Some x \<Rightarrow> x | None \<Rightarrow> VNull)"

lemma of_le_bytes_u32_nat: "n < 2 ^ 32 \<Longrightarrow> of_le_bytes (u32_le (word_of_nat n)) = n"
  by (simp add: u32_le_def of_le_bytes_le_bytes unat_of_nat take_bit_nat_eq_self_iff)

lemma read_value_encoded:
  assumes "value_fits t (Some x)" "\<not> is_null (Some x)"
  shows "read_value (encoded (Some x) @ rest) t = x"
  using assms
  by (cases x) (auto simp: value_fits_def is_null_def read_value_def encoded_def write_value_def of_le_bytes_u32_nat)

lemma encoded_nonempty: "value_fits t v \<Longrightarrow> \<not> is_null v \<Longrightarrow> 0 < value_size v"
  by (auto simp: value_fits_def is_null_def value_size_def split: option.splits SochValue.splits)

lemma offset_bytes_nth:
  "i < length vs \<Longrightarrow> take 4 (drop (i * 4) (offset_bytes n vs)) = u32_le (word_of_nat (n + sum_list (map value_size (take i vs))))"
proof (induction vs arbitrary: i n)
  case (Cons v vs)
  then show ?case by (cases i) (auto simp: add.assoc)
qed simp

lemma take_4_nth: "p + 3 < length xs \<Longrightarrow> take 4 (drop p xs) = [xs ! p, xs ! (p + 1), xs ! (p + 2), xs ! (p + 3)]"
  by (simp add: numeral_eq_Suc take_Suc_conv_app_nth)

lemma get_column_inside:
  assumes "idx < unat (pr_num_cols row)" "idx div 8 < length (pr_data row)"
    and "pr_null_bitmap_size row + idx * 4 + 3 < length (pr_data row)"
  shows "get_column idx t row =
    (if bit (pr_data row ! (idx div 8)) (idx mod 8) then Inr (Some VNull)
     else let start = pr_null_bitmap_size row + unat (pr_num_cols row) * 4 +
                of_le_bytes (take 4 (drop (pr_null_bitmap_size row + idx * 4) (pr_data row)))
          in Inr (Some (if start \<ge> length (pr_data row) then VNull else read_value (drop start (pr_data row)) t)))"
  using assms test_bit [of "idx mod 8" "pr_data row ! (idx div 8)"] take_4_nth [OF assms(3)]
  by (simp add: get_column_def vec_index_def Let_def del: push_bit_of_1)

lemma get_column_row_of:
  assumes "i < length vs" "length vs < 2 ^ 16" "sum_list (map value_size vs) < 2 ^ 32" "value_fits t (vs ! i)"
  shows "get_column i t (row_of vs) = Inr (Some (or_null (vs ! i)))"
proof -
  let ?n = "div_ceil (length vs) 8" and ?sz = "sum_list (map value_size (take i vs))"
  have cols: "unat (pr_num_cols (row_of vs)) = length vs"
    using assms(2) by (simp add: row_of_def unat_of_nat take_bit_nat_eq_self_iff)
  have len: "length (row_layout vs) = ?n + length vs * 4 + sum_list (map value_size vs)"
    by (simp add: row_layout_def null_bitmap length_concat_encoded)
  have i8: "i div 8 < ?n" using assms(1) div_ceil_8 [of "length vs"] by (simp add: less_mult_imp_div_less)
  then have b: "row_layout vs ! (i div 8) = null_bitmap vs ! (i div 8)" by (simp add: row_layout_def nth_append null_bitmap)
  have split: "vs = take i vs @ vs ! i # drop (i + 1) vs" using assms(1) by (simp add: id_take_nth_drop)
  have "sum_list (map value_size vs) = ?sz + sum_list (map value_size (vs ! i # drop (i + 1) vs))"
    by (subst split) simp
  then have sz: "?sz + value_size (vs ! i) \<le> sum_list (map value_size vs)" by simp
  have "take 4 (drop (?n + i * 4) (row_layout vs)) = take 4 (drop (i * 4) (offset_bytes 0 vs))"
    using assms(1) by (simp add: row_layout_def null_bitmap)
  then have off: "of_le_bytes (take 4 (drop (?n + i * 4) (row_layout vs))) = ?sz"
    using offset_bytes_nth [OF assms(1), of 0] sz assms(3) by (simp add: of_le_bytes_u32_nat)
  have "drop (?n + length vs * 4 + ?sz) (row_layout vs) = drop ?sz (concat (map encoded vs))"
    by (simp add: row_layout_def null_bitmap)
  also have "\<dots> = encoded (vs ! i) @ concat (map encoded (drop (i + 1) vs))"
    by (subst split) (simp add: length_concat_encoded [symmetric])
  finally have dat: "drop (?n + length vs * 4 + ?sz) (row_layout vs) = encoded (vs ! i) @ concat (map encoded (drop (i + 1) vs))" .
  have null: "bit (row_layout vs ! (i div 8)) (i mod 8) \<longleftrightarrow> is_null (vs ! i)" using null_bitmap(3) [OF assms(1)] b by simp
  have row: "pr_data (row_of vs) = row_layout vs" "pr_null_bitmap_size (row_of vs) = ?n" by (simp_all add: row_of_def)
  have "get_column i t (row_of vs) = (if is_null (vs ! i) then Inr (Some VNull)
      else Inr (Some (if ?n + length vs * 4 + ?sz \<ge> length (row_layout vs) then VNull
        else read_value (encoded (vs ! i) @ concat (map encoded (drop (i + 1) vs))) t)))"
    by (subst get_column_inside) (use assms(1) i8 in \<open>simp_all add: row cols len null off dat Let_def\<close>)
  also have "\<dots> = Inr (Some (or_null (vs ! i)))"
    using read_value_encoded [of t] encoded_nonempty [OF assms(4)] assms(4) sz
    by (cases "vs ! i") (auto simp: len or_null_def is_null_def split: SochValue.splits)
  finally show ?thesis .
qed

lemma unpack_columns_row_of:
  assumes "length vs = length cols + i" "length vs < 2 ^ 16" "sum_list (map value_size vs) < 2 ^ 32"
    and "\<forall>j < length cols. value_fits (pc_type (cols ! j)) (vs ! (i + j))"
  shows "unpack_columns i cols (row_of vs) = Inr (map or_null (drop i vs))"
  using assms
proof (induction cols arbitrary: i)
  case (Cons c cols)
  have g: "get_column i (pc_type c) (row_of vs) = Inr (Some (or_null (vs ! i)))"
    by (rule get_column_row_of) (use Cons.prems in force)+
  have "unpack_columns (i + 1) cols (row_of vs) = Inr (map or_null (drop (i + 1) vs))"
    by (rule Cons.IH) (use Cons.prems in force)+
  moreover have "drop i vs = vs ! i # drop (i + 1) vs" using Cons.prems(1) by (simp add: Cons_nth_drop_Suc)
  ultimately show ?case using g by simp
qed simp

lemma from_bytes_row_of: "pr_from_bytes (pr_into_bytes (row_of vs)) (length vs) = Inr (row_of vs)"
  by (simp add: pr_from_bytes_def pr_into_bytes_def row_of_def row_layout_def null_bitmap Let_def)

lemma of_le_bytes_bound: "of_le_bytes bs < 256 ^ length bs"
proof (induction bs)
  case (Cons b bs)
  have "unat b < 256" using unsigned_less [of b, where ?'a = nat] by simp
  with Cons show ?case by simp
qed simp

lemma read_value_type: "value_fits t (Some (read_value data t))"
proof -
  have "of_le_bytes (take 4 data) < 2 ^ 32" if "\<not> length data < 4"
    using of_le_bytes_bound [of "take 4 data"] that by simp
  then show ?thesis
    by (cases t) (auto simp: value_fits_def read_value_def Let_def min_def)
qed

lemma pack_length: "length (pr_data (row_of (map (\<lambda>col. values (pc_name col)) (ps_columns schema)))) = buffer_size schema values"
  using length_concat_encoded [of "map (\<lambda>col. values (pc_name col)) (ps_columns schema)"]
  by (simp add: row_of_def row_layout_def null_bitmap buffer_size_def comp_def Let_def)

lemma get_column_typed:
  assumes "pr_from_bytes data k = Inr row"
  shows "\<exists>ov. get_column idx t row = Inr ov \<and> (ov = None \<longleftrightarrow> k mod 2 ^ 16 \<le> idx) \<and> (\<forall>v. ov = Some v \<longrightarrow> value_fits t (Some v))"
proof -
  have row: "pr_data row = data" "pr_num_cols row = word_of_nat k" "pr_null_bitmap_size row = div_ceil k 8"
    and len: "div_ceil k 8 + k * 4 \<le> length data"
    using assms by (auto simp: pr_from_bytes_def Let_def split: if_splits)
  have cols: "unat (pr_num_cols row) = k mod 2 ^ 16" by (simp add: row unat_of_nat take_bit_nat_def)
  show ?thesis
  proof (cases "k mod 2 ^ 16 \<le> idx")
    case True
    then show ?thesis using cols by (simp add: get_column_def)
  next
    case False
    then have idx: "idx < k mod 2 ^ 16" "idx < k" by (auto intro: less_le_trans [OF _ mod_less_eq_dividend])
    have "idx div 8 < div_ceil k 8" using idx(2) div_ceil_8 [of k] by (simp add: less_mult_imp_div_less)
    then have "idx div 8 < length (pr_data row)" "pr_null_bitmap_size row + idx * 4 + 3 < length (pr_data row)"
      using len idx(2) by (simp_all add: row)
    with get_column_inside [of idx row] idx(1) cols False show ?thesis
      by (simp add: Let_def read_value_type) (simp add: value_fits_def)
  qed
qed

lemma get_column_total: "pr_from_bytes data k = Inr row \<Longrightarrow> \<exists>ov. get_column idx t row = Inr ov"
  using get_column_typed by blast

subsection \<open>Properties\<close>

text \<open>
  C20: Row round trip.  A row whose values have the types of their columns (strings valid UTF-8, fewer
  than 65536 columns, less than 4 GiB of data) packs without a panic, its bytes are accepted again, and
  unpacking them returns every value, with null for the missing ones.
\<close>

theorem packed_row_round_trip:
  assumes "length (ps_columns schema) < 2 ^ 16"
    and "sum_list (map (\<lambda>col. value_size (values (pc_name col))) (ps_columns schema)) < 2 ^ 32"
    and "\<forall>col \<in> set (ps_columns schema). value_fits (pc_type col) (values (pc_name col))"
  shows "\<exists>row r. pr_pack schema values = Inr row \<and> pr_from_bytes (pr_into_bytes row) (ps_num_columns schema) = Inr r \<and>
    unpack_to_vec schema r = Inr (map (\<lambda>col. or_null (values (pc_name col))) (ps_columns schema))"
proof -
  let ?vs = "map (\<lambda>col. values (pc_name col)) (ps_columns schema)"
  have "unpack_columns 0 (ps_columns schema) (row_of ?vs) = Inr (map or_null (drop 0 ?vs))"
    by (rule unpack_columns_row_of) (use assms in \<open>simp_all add: comp_def\<close>)
  then show ?thesis
    using from_bytes_row_of [of ?vs] by (auto simp: pack_layout(1) ps_num_columns_def unpack_to_vec_def comp_def)
qed

definition demo_schema :: PackedTableSchema where
  "demo_schema = ps_new [117]
     [\<lparr>pc_name = [105], pc_type = PInt64, pc_nullable = False\<rparr>, \<lparr>pc_name = [110], pc_type = PText, pc_nullable = True\<rparr>,
      \<lparr>pc_name = [98], pc_type = PBool, pc_nullable = True\<rparr>]"

definition demo_row :: "bytes \<Rightarrow> SochValue option" where
  "demo_row = [[105] \<mapsto> VInt 7, [110] \<mapsto> VText [97, 98]]"

theorem packed_row_round_trip_witness:
  "\<exists>row r. pr_pack demo_schema demo_row = Inr row \<and> pr_from_bytes (pr_into_bytes row) 3 = Inr r \<and>
     unpack_to_vec demo_schema r = Inr [VInt 7, VText [97, 98], VNull]"
  using packed_row_round_trip [of demo_schema demo_row]
  by (simp add: demo_schema_def demo_row_def ps_new_def value_size_def value_fits_def or_null_def ps_num_columns_def
      numeral_3_eq_3)

text \<open>
  One format, three writers.  Packing values given in column order (on a stack buffer for rows of at
  most 512 bytes, on the heap otherwise) and packing values looked up by column name give the same row,
  without a panic, and the row has exactly the size that was computed in advance.
\<close>

lemma pack_slice_equals_pack:
  "pr_pack_slice schema (map (\<lambda>col. values (pc_name col)) (ps_columns schema)) = pr_pack schema values \<and>
   (\<exists>row. pr_pack schema values = Inr row \<and> length (pr_data row) = buffer_size schema values)"
  by (simp add: pack_layout pack_length)

text \<open>
  C23: Type safety of reading.  For any bytes that are accepted as a row of \<open>k\<close> columns, reading any column
  as any type does not panic and returns a value of that type or null; it returns nothing exactly beyond
  the column count, which is kept modulo 65536.
\<close>

theorem get_column_type_safe:
  assumes "pr_from_bytes data k = Inr row"
  shows "\<exists>ov. get_column idx t row = Inr ov \<and> (ov = None \<longleftrightarrow> k mod 2 ^ 16 \<le> idx) \<and> (\<forall>v. ov = Some v \<longrightarrow> value_fits t (Some v))"
  by (rule get_column_typed [OF assms])

theorem get_column_type_safe_witness:
  "\<exists>row ov. pr_from_bytes [0, 9, 0, 0, 0] 1 = Inr row \<and> get_column 0 PText row = Inr ov \<and> (ov = None \<longleftrightarrow> 1 \<le> (0 :: nat))"
  using get_column_type_safe [of "[0, 9, 0, 0, 0]" 1 _ 0 PText] by (auto simp: pr_from_bytes_def div_ceil_def)

end
