(* ===== verification/Key_Buffer.thy ===== *)
theory Key_Buffer
  imports Prelude
begin

unbundle bit_operations_syntax

text \<open>
  The first half of \<^verbatim>\<open>sochdb-storage/src/key_buffer.rs\<close>: row and column keys built in a buffer of 63
  bytes on the stack, table prefixes interned in 32 bytes, and the batch generator over them.  The
  length byte never exceeds 63, so it is a natural number here.
\<close>

subsection \<open>The buffer\<close>

definition MAX_KEY_LENGTH :: nat where
  "MAX_KEY_LENGTH = 63"

record KeyBuffer =
  kb_len :: nat
  kb_data :: bytes

definition kb_new :: KeyBuffer where
  "kb_new = \<lparr>kb_len = 0, kb_data = replicate MAX_KEY_LENGTH 0\<rparr>"

text \<open>\<^verbatim>\<open>data[p..p + bs.len()].copy_from_slice(bs)\<close>; that it stays inside is part of the invariant below.\<close>

definition overwrite :: "nat \<Rightarrow> bytes \<Rightarrow> bytes \<Rightarrow> bytes" where
  "overwrite p bs data = take p data @ bs @ drop (p + length bs) data"

text \<open>The two loops of \<^verbatim>\<open>write_u64\<close>.\<close>

fun count_digits :: "nat \<Rightarrow> nat" where
  "count_digits temp = (if temp > 0 then 1 + count_digits (temp div 10) else 0)"

fun write_digits :: "nat \<Rightarrow> nat \<Rightarrow> bytes \<Rightarrow> bytes" where
  "write_digits pos v data =
     (if v > 0 then write_digits (pos - 1) (v div 10) (data[pos - 1 := 48 + word_of_nat (v mod 10)]) else data)"

declare count_digits.simps [simp del] write_digits.simps [simp del]

definition kb_write_u64 :: "u64 \<Rightarrow> KeyBuffer \<Rightarrow> KeyBuffer" where
  "kb_write_u64 v buf =
     (if v = 0
      then (if kb_len buf < MAX_KEY_LENGTH
            then buf\<lparr>kb_data := (kb_data buf)[kb_len buf := 48], kb_len := kb_len buf + 1\<rparr> else buf)
      else let digit_count = count_digits (unat v)
           in if kb_len buf + digit_count > MAX_KEY_LENGTH then buf
              else let end_pos = kb_len buf + digit_count
                   in buf\<lparr>kb_len := end_pos, kb_data := write_digits end_pos (unat v) (kb_data buf)\<rparr>)"

definition kb_push :: "byte \<Rightarrow> KeyBuffer \<Rightarrow> KeyBuffer" where
  "kb_push b buf =
     (if kb_len buf < MAX_KEY_LENGTH
      then buf\<lparr>kb_data := (kb_data buf)[kb_len buf := b], kb_len := kb_len buf + 1\<rparr> else buf)"

definition kb_append :: "bytes \<Rightarrow> KeyBuffer \<Rightarrow> KeyBuffer" where
  "kb_append bs buf =
     (let available = MAX_KEY_LENGTH - kb_len buf;
          copy_len = min (length bs) available
      in buf\<lparr>kb_data := overwrite (kb_len buf) (take copy_len bs) (kb_data buf), kb_len := kb_len buf + copy_len\<rparr>)"

text \<open>\<^verbatim>\<open>format_row_key\<close> keeps 43 bytes of the table name; the separator is the byte 47.\<close>

definition format_row_key :: "bytes \<Rightarrow> u64 \<Rightarrow> KeyBuffer" where
  "format_row_key table row_id =
     (let table_len = min (length table) (MAX_KEY_LENGTH - 20);
          buf = kb_new\<lparr>kb_data := overwrite 0 (take table_len table) (kb_data kb_new), kb_len := table_len\<rparr>
      in kb_write_u64 row_id (kb_push 47 buf))"

definition format_column_key :: "bytes \<Rightarrow> u64 \<Rightarrow> bytes \<Rightarrow> KeyBuffer" where
  "format_column_key table row_id column = kb_append column (kb_push 47 (format_row_key table row_id))"

definition kb_as_bytes :: "KeyBuffer \<Rightarrow> bytes" where
  "kb_as_bytes buf = take (kb_len buf) (kb_data buf)"

definition kb_is_empty :: "KeyBuffer \<Rightarrow> bool" where
  "kb_is_empty buf \<longleftrightarrow> kb_len buf = 0"

definition kb_clear :: "KeyBuffer \<Rightarrow> KeyBuffer" where
  "kb_clear buf = buf\<lparr>kb_len := 0\<rparr>"

definition kb_remaining :: "KeyBuffer \<Rightarrow> nat" where
  "kb_remaining buf = MAX_KEY_LENGTH - kb_len buf"

subsection \<open>Interned prefixes\<close>

record InternedTablePrefix =
  itp_prefix :: bytes
  itp_prefix_len :: nat
  itp_hash :: u64

definition itp_compute_hash :: "bytes \<Rightarrow> u64" where
  "itp_compute_hash bs = fold (\<lambda>b hash. (word_rotl 5 hash XOR ucast b) * 0x517cc1b727220a95) bs 0"

definition itp_new :: "bytes \<Rightarrow> InternedTablePrefix" where
  "itp_new table =
     (let len = min (length table) 30;
          prefix = (overwrite 0 (take len table) (replicate 32 0))[len := 47]
      in \<lparr>itp_prefix = prefix, itp_prefix_len = len + 1, itp_hash = itp_compute_hash (take (len + 1) prefix)\<rparr>)"

definition itp_make_row_key :: "u64 \<Rightarrow> InternedTablePrefix \<Rightarrow> KeyBuffer" where
  "itp_make_row_key row_id p =
     kb_write_u64 row_id
       (kb_new\<lparr>kb_data := overwrite 0 (take (itp_prefix_len p) (itp_prefix p)) (kb_data kb_new), kb_len := itp_prefix_len p\<rparr>)"

definition itp_make_column_key :: "u64 \<Rightarrow> bytes \<Rightarrow> InternedTablePrefix \<Rightarrow> KeyBuffer" where
  "itp_make_column_key row_id column p = kb_append column (kb_push 47 (itp_make_row_key row_id p))"

definition itp_prefix_bytes :: "InternedTablePrefix \<Rightarrow> bytes" where
  "itp_prefix_bytes p = take (itp_prefix_len p) (itp_prefix p)"

definition itp_same_table :: "InternedTablePrefix \<Rightarrow> InternedTablePrefix \<Rightarrow> bool" where
  "itp_same_table p q \<longleftrightarrow> itp_hash p = itp_hash q \<and> itp_prefix_len p = itp_prefix_len q \<and> itp_prefix_bytes p = itp_prefix_bytes q"

record BatchKeyGenerator =
  bkg_prefix :: InternedTablePrefix
  bkg_buffer :: KeyBuffer

definition bkg_new :: "bytes \<Rightarrow> BatchKeyGenerator" where
  "bkg_new table = \<lparr>bkg_prefix = itp_new table, bkg_buffer = kb_new\<rparr>"

definition bkg_row_key :: "u64 \<Rightarrow> BatchKeyGenerator \<Rightarrow> BatchKeyGenerator \<times> bytes" where
  "bkg_row_key row_id g =
     (let g = g\<lparr>bkg_buffer := itp_make_row_key row_id (bkg_prefix g)\<rparr> in (g, kb_as_bytes (bkg_buffer g)))"

definition bkg_column_key :: "u64 \<Rightarrow> bytes \<Rightarrow> BatchKeyGenerator \<Rightarrow> BatchKeyGenerator \<times> bytes" where
  "bkg_column_key row_id column g =
     (let g = g\<lparr>bkg_buffer := itp_make_column_key row_id column (bkg_prefix g)\<rparr> in (g, kb_as_bytes (bkg_buffer g)))"

subsection \<open>What a buffer holds\<close>

definition kb_wf :: "KeyBuffer \<Rightarrow> bool" where
  "kb_wf buf \<longleftrightarrow> length (kb_data buf) = MAX_KEY_LENGTH \<and> kb_len buf \<le> MAX_KEY_LENGTH"

lemma kb_push_bytes:
  assumes "kb_wf buf"
  shows "kb_wf (kb_push b buf)" "kb_len buf < MAX_KEY_LENGTH \<Longrightarrow> kb_as_bytes (kb_push b buf) = kb_as_bytes buf @ [b]"
    "kb_len (kb_push b buf) = min (kb_len buf + 1) MAX_KEY_LENGTH"
  using assms by (auto simp: kb_wf_def kb_push_def kb_as_bytes_def take_Suc_conv_app_nth)

lemma kb_append_bytes:
  assumes "kb_wf buf"
  shows "kb_wf (kb_append bs buf)" "kb_as_bytes (kb_append bs buf) = kb_as_bytes buf @ take (MAX_KEY_LENGTH - kb_len buf) bs"
  using assms by (auto simp: kb_wf_def kb_append_def kb_as_bytes_def overwrite_def Let_def min_def)

lemma kb_start:
  assumes "length bs \<le> MAX_KEY_LENGTH"
  shows "kb_wf (kb_new\<lparr>kb_data := overwrite 0 bs (kb_data kb_new), kb_len := length bs\<rparr>)"
    "kb_as_bytes (kb_new\<lparr>kb_data := overwrite 0 bs (kb_data kb_new), kb_len := length bs\<rparr>) = bs"
  using assms by (simp_all add: kb_wf_def kb_new_def kb_as_bytes_def overwrite_def)

text \<open>Decimal digits, most significant first.\<close>

fun digits_rev :: "nat \<Rightarrow> bytes" where
  "digits_rev v = (if v > 0 then (48 + word_of_nat (v mod 10)) # digits_rev (v div 10) else [])"

declare digits_rev.simps [simp del]

definition decimal :: "u64 \<Rightarrow> bytes" where
  "decimal v = (if v = 0 then [48] else rev (digits_rev (unat v)))"

lemma digits_rev_0 [simp]: "digits_rev 0 = []"
  by (simp add: digits_rev.simps)

lemma digit_loops_0 [simp]: "count_digits 0 = 0" "write_digits pos 0 data = data"
  by (simp_all add: count_digits.simps write_digits.simps)

lemma length_digits: "length (digits_rev v) = count_digits v"
proof (induction v rule: count_digits.induct)
  case (1 v)
  then show ?case by (cases "v > 0") (simp_all add: digits_rev.simps [of v] count_digits.simps [of v])
qed

lemma write_digits_result:
  "count_digits v \<le> pos \<Longrightarrow> pos \<le> length data \<Longrightarrow>
     write_digits pos v data = overwrite (pos - count_digits v) (rev (digits_rev v)) data"
proof (induction pos v data rule: write_digits.induct)
  case (1 pos v data)
  show ?case
  proof (cases "v > 0")
    case True
    let ?d = "48 + word_of_nat (v mod 10) :: byte" and ?n = "count_digits (v div 10)"
    have n: "count_digits v = 1 + ?n" using True by (simp add: count_digits.simps [of v])
    with "1.prems" have pos: "0 < pos" "?n \<le> pos - 1" by simp_all
    have "write_digits pos v data = write_digits (pos - 1) (v div 10) (data[pos - 1 := ?d])"
      using True by (simp add: write_digits.simps [of pos v])
    also have "\<dots> = overwrite (pos - 1 - ?n) (rev (digits_rev (v div 10))) (data[pos - 1 := ?d])"
      by (rule "1.IH" [OF True]) (use pos "1.prems"(2) in simp_all)
    also have "\<dots> = overwrite (pos - count_digits v) (rev (digits_rev v)) data"
    proof -
      have split: "data[pos - 1 := ?d] = take (pos - 1) data @ [?d] @ drop pos data"
        using pos(1) "1.prems"(2) by (simp add: upd_conv_take_nth_drop)
      have "pos - 1 - ?n + ?n = pos - 1" using pos by simp
      then show ?thesis
        using pos "1.prems"(2) True unfolding split
        by (simp add: overwrite_def n digits_rev.simps [of v] length_digits min_def)
    qed
    finally show ?thesis .
  next
    case False
    then show ?thesis by (simp add: write_digits.simps [of pos v] count_digits.simps [of v] overwrite_def)
  qed
qed

lemma kb_write_u64_bytes:
  assumes "kb_wf buf"
  shows "kb_wf (kb_write_u64 v buf)"
    "kb_len buf + length (decimal v) \<le> MAX_KEY_LENGTH \<Longrightarrow> kb_as_bytes (kb_write_u64 v buf) = kb_as_bytes buf @ decimal v"
    "MAX_KEY_LENGTH < kb_len buf + length (decimal v) \<Longrightarrow> kb_write_u64 v buf = buf"
  using assms
  by (auto simp: kb_wf_def kb_write_u64_def kb_as_bytes_def decimal_def take_Suc_conv_app_nth length_digits Let_def
      write_digits_result overwrite_def not_le)

text \<open>Digits determine the number.\<close>

fun digits_value :: "bytes \<Rightarrow> nat" where
  "digits_value [] = 0"
| "digits_value (d # ds) = (unat d - 48) + 10 * digits_value ds"

lemma digit_byte: "m < 10 \<Longrightarrow> unat (48 + word_of_nat m :: byte) = 48 + m"
  by (simp add: unat_word_ariths unat_of_nat take_bit_nat_eq_self_iff)

lemma digits_value_rev: "digits_value (digits_rev v) = v"
proof (induction v rule: digits_rev.induct)
  case (1 v)
  then show ?case by (cases "v > 0") (simp_all add: digits_rev.simps [of v] digit_byte)
qed

lemma digits_no_slash: "47 \<notin> set (digits_rev v)"
proof (induction v rule: digits_rev.induct)
  case (1 v)
  have "unat (48 + word_of_nat (v mod 10) :: byte) \<noteq> unat (47 :: byte)" by (simp add: digit_byte)
  then have "(47 :: byte) \<noteq> 48 + word_of_nat (v mod 10)" by metis
  with 1 show ?case by (cases "v > 0") (simp_all add: digits_rev.simps [of v])
qed

lemma count_digits_bound: "v < 10 ^ n \<Longrightarrow> count_digits v \<le> n"
proof (induction n arbitrary: v)
  case (Suc n)
  then have "v div 10 < 10 ^ n" by (simp add: less_mult_imp_div_less)
  from Suc.IH [OF this] show ?case by (simp add: count_digits.simps [of v])
qed simp

lemma count_digits_lower: "10 ^ n \<le> v \<Longrightarrow> n < count_digits v"
proof (induction n arbitrary: v)
  case (Suc n)
  then have "10 ^ n \<le> v div 10" "0 < v" by (simp_all add: less_eq_div_iff_mult_less_eq) (use Suc.prems in \<open>metis zero_less_power less_le_trans zero_less_numeral\<close>)
  from Suc.IH [OF this(1)] this(2) show ?case by (simp add: count_digits.simps [of v])
qed (simp add: count_digits.simps)

lemma length_decimal: "length (decimal v) \<le> 20"
proof -
  have "unat v < 10 ^ 20" using unsigned_less [of v, where ?'a = nat] by simp
  from count_digits_bound [OF this] show ?thesis by (simp add: decimal_def length_digits)
qed

lemma decimal_no_slash: "47 \<notin> set (decimal v)"
  by (simp add: decimal_def digits_no_slash)

lemma decimal_inject: "decimal v = decimal w \<longleftrightarrow> v = w"
proof -
  have val: "digits_value (rev (decimal u)) = unat u" for u by (simp add: decimal_def digits_value_rev)
  show ?thesis
  proof
    assume "decimal v = decimal w"
    then have "unat v = unat w" using val [of v] val [of w] by simp
    then show "v = w" by (rule unsigned_word_eqI)
  qed simp
qed

text \<open>The row key before the number is written.\<close>

definition kb_table :: "bytes \<Rightarrow> KeyBuffer" where
  "kb_table table =
     kb_push 47 (kb_new\<lparr>kb_data := overwrite 0 (take 43 table) (kb_data kb_new), kb_len := length (take 43 table)\<rparr>)"

lemma kb_table:
  "format_row_key table row_id = kb_write_u64 row_id (kb_table table)" "kb_wf (kb_table table)"
  "kb_as_bytes (kb_table table) = take 43 table @ [47]" "kb_len (kb_table table) = min (length table) 43 + 1"
proof -
  let ?st = "kb_new\<lparr>kb_data := overwrite 0 (take 43 table) (kb_data kb_new), kb_len := length (take 43 table)\<rparr>"
  have st: "kb_wf ?st" "kb_as_bytes ?st = take 43 table"
    using kb_start [of "take 43 table"] by (simp_all add: MAX_KEY_LENGTH_def)
  show "format_row_key table row_id = kb_write_u64 row_id (kb_table table)"
    by (cases "length table \<le> 43") (simp_all add: format_row_key_def kb_table_def MAX_KEY_LENGTH_def min_def Let_def)
  show "kb_wf (kb_table table)" "kb_as_bytes (kb_table table) = take 43 table @ [47]"
    "kb_len (kb_table table) = min (length table) 43 + 1"
    using kb_push_bytes [OF st(1), of 47] st(2) by (simp_all add: kb_table_def MAX_KEY_LENGTH_def)
qed

lemma row_key_bytes:
  assumes "length table \<le> 42"
  shows "kb_as_bytes (format_row_key table row_id) = table @ [47] @ decimal row_id"
  using kb_write_u64_bytes(2) [OF kb_table(2), of table row_id] assms length_decimal [of row_id]
  by (simp add: kb_table MAX_KEY_LENGTH_def)

lemma split_last_separator:
  assumes "xs @ [c] @ ys = xs' @ [c] @ ys'" "c \<notin> set ys" "c \<notin> set ys'"
  shows "xs = xs' \<and> ys = ys'"
proof -
  have last: "takeWhile (\<lambda>x. x \<noteq> c) (rev ((as @ [c]) @ bs)) = rev bs" if "c \<notin> set bs" for as bs
    by (subst rev_append, subst takeWhile_append2) (use that in auto)
  have "rev ys = rev ys'" using last [OF assms(2), of xs] last [OF assms(3), of xs'] assms(1) by (simp only: append_assoc)
  with assms(1) show ?thesis by simp
qed

lemma row_key_inject:
  assumes "length t1 \<le> 42" "length t2 \<le> 42"
  shows "kb_as_bytes (format_row_key t1 id1) = kb_as_bytes (format_row_key t2 id2) \<longleftrightarrow> t1 = t2 \<and> id1 = id2"
  using split_last_separator [of t1 47 "decimal id1" t2 "decimal id2"] decimal_no_slash
  by (auto simp: row_key_bytes assms decimal_inject)

subsection \<open>Properties\<close>

text \<open>
  C40: Long table names collide.  Only 43 bytes of the table name enter a row key, so tables that agree on
  them share all row keys; and for a name of 43 bytes or more every row id of 20 digits is dropped, so
  all these rows share one key.
\<close>

theorem long_table_names_collide:
  "(take 43 t1 = take 43 t2 \<longrightarrow> kb_as_bytes (format_row_key t1 row_id) = kb_as_bytes (format_row_key t2 row_id)) \<and>
   (43 \<le> length t1 \<and> 10 ^ 19 \<le> unat id1 \<and> 10 ^ 19 \<le> unat id2 \<longrightarrow>
      kb_as_bytes (format_row_key t1 id1) = kb_as_bytes (format_row_key t1 id2))"
proof -
  have "kb_table t1 = kb_table t2" if "take 43 t1 = take 43 t2"
    using that by (simp only: kb_table_def)
  moreover have "kb_write_u64 v (kb_table t1) = kb_table t1" if "43 \<le> length t1" "10 ^ 19 \<le> unat v" for v
  proof (rule kb_write_u64_bytes(3) [OF kb_table(2)])
    have "v \<noteq> 0" using that(2) by auto
    then show "MAX_KEY_LENGTH < kb_len (kb_table t1) + length (decimal v)"
      using that count_digits_lower [OF that(2)] by (simp add: kb_table MAX_KEY_LENGTH_def decimal_def length_digits)
  qed
  ultimately show ?thesis by (simp add: kb_table(1))
qed

theorem long_table_names_collide_witness:
  "kb_as_bytes (format_row_key (replicate 43 97 @ [98]) 1) = kb_as_bytes (format_row_key (replicate 43 97 @ [99]) 1)"
  using long_table_names_collide [of "replicate 43 97 @ [98]" "replicate 43 97 @ [99]" 1] by simp

end
