(* ===== verification/Database_Kernel.thy ===== *)
theory Database_Kernel
  imports Storage_Properties Packed_Row Key_Buffer
begin

text \<open>
  \<^verbatim>\<open>sochdb-storage/src/database.rs\<close>: the database kernel over the storage engine, in the mode with an
  exclusive lock: key-value and path operations, registered tables with packed rows, queries; and the
  registry of index policies of \<^verbatim>\<open>sochdb-storage/src/index_policy.rs\<close>.  Strings are their UTF-8 bytes.
  Maps that the code iterates over are association lists whose order stands for the unspecified one.
\<close>

subsection \<open>Strings of the standard library\<close>

definition show_str :: "bytes \<Rightarrow> string" where
  "show_str s = map (\<lambda>b. char_of (unat b)) s"

definition quoted :: "bytes \<Rightarrow> string" where
  "quoted s = [CHR 0x27] @ show_str s @ [CHR 0x27]"

text \<open>\<^verbatim>\<open>str::split\<close> by one byte.\<close>

fun split_on :: "byte \<Rightarrow> bytes \<Rightarrow> bytes list" where
  "split_on c [] = [[]]"
| "split_on c (x # xs) =
     (if x = c then [] # split_on c xs
      else case split_on c xs of p # ps \<Rightarrow> (x # p) # ps | [] \<Rightarrow> [[x]])"

fun join_with :: "byte \<Rightarrow> bytes list \<Rightarrow> bytes" where
  "join_with c [] = []"
| "join_with c [p] = p"
| "join_with c (p # q # ps) = p @ [c] @ join_with c (q # ps)"

text \<open>
  \<^verbatim>\<open>String::from_utf8_lossy\<close>: a maximal ill-formed subsequence becomes U+FFFD.  \<open>utf8_width\<close> is the number
  of bytes of the well-formed character in front, \<open>utf8_bad\<close> the length of the ill-formed part otherwise.
\<close>

definition utf8_second :: "byte \<Rightarrow> byte \<Rightarrow> bool" where
  "utf8_second b c =
     (if b = 0xE0 then 0xA0 \<le> c \<and> c \<le> 0xBF else if b = 0xED then 0x80 \<le> c \<and> c \<le> 0x9F
      else if b = 0xF0 then 0x90 \<le> c \<and> c \<le> 0xBF else if b = 0xF4 then 0x80 \<le> c \<and> c \<le> 0x8F else utf8_cont c)"

definition utf8_width :: "byte \<Rightarrow> nat" where
  "utf8_width b =
     (if b \<le> 0x7F then 1 else if 0xC2 \<le> b \<and> b \<le> 0xDF then 2 else if 0xE0 \<le> b \<and> b \<le> 0xEF then 3
      else if 0xF0 \<le> b \<and> b \<le> 0xF4 then 4 else 0)"

definition utf8_good :: "byte \<Rightarrow> bytes \<Rightarrow> nat" where
  "utf8_good b rest =
     (case rest of
        c1 # r \<Rightarrow>
          if \<not> utf8_second b c1 then 1
          else (case r of c2 # r2 \<Rightarrow>
                  if \<not> utf8_cont c2 then 2
                  else (case r2 of c3 # _ \<Rightarrow> if \<not> utf8_cont c3 then 3 else 4 | [] \<Rightarrow> 3)
                | [] \<Rightarrow> 2)
      | [] \<Rightarrow> 1)"

function utf8_lossy :: "bytes \<Rightarrow> bytes" where
  "utf8_lossy [] = []"
| "utf8_lossy (b # bs) =
     (let w = utf8_width b; g = min w (utf8_good b bs)
      in if w = 1 then b # utf8_lossy bs
         else if w \<noteq> 0 \<and> g = w then b # take (w - 1) bs @ utf8_lossy (drop (w - 1) bs)
         else [0xEF, 0xBF, 0xBD] @ utf8_lossy (drop (g - 1) bs))"
  by pat_completeness auto
termination
  by (relation "measure length") auto

subsection \<open>Index policies per table\<close>

record TableIndexConfig =
  tic_table_name :: bytes
  tic_policy :: IndexPolicy
  tic_max_sorted_runs :: nat
  tic_target_run_size :: nat
  tic_enable_bloom_filter :: bool

definition tic_new :: "bytes \<Rightarrow> IndexPolicy \<Rightarrow> TableIndexConfig" where
  "tic_new name policy =
     \<lparr>tic_table_name = name, tic_policy = policy, tic_max_sorted_runs = 4, tic_target_run_size = 16 * 1024 * 1024,
      tic_enable_bloom_filter = True\<rparr>"

definition tic_with_max_sorted_runs :: "nat \<Rightarrow> TableIndexConfig \<Rightarrow> TableIndexConfig" where
  "tic_with_max_sorted_runs n c = c\<lparr>tic_max_sorted_runs := n\<rparr>"

definition tic_with_target_run_size :: "nat \<Rightarrow> TableIndexConfig \<Rightarrow> TableIndexConfig" where
  "tic_with_target_run_size n c = c\<lparr>tic_target_run_size := n\<rparr>"

definition tic_with_bloom_filter :: "bool \<Rightarrow> TableIndexConfig \<Rightarrow> TableIndexConfig" where
  "tic_with_bloom_filter enable c = c\<lparr>tic_enable_bloom_filter := enable\<rparr>"

record TableIndexRegistry =
  tir_configs :: "(bytes, TableIndexConfig) dashmap"
  tir_default_policy :: IndexPolicy

definition tir_with_default_policy :: "IndexPolicy \<Rightarrow> TableIndexRegistry" where
  "tir_with_default_policy policy = \<lparr>tir_configs = [], tir_default_policy = policy\<rparr>"

definition tir_new :: TableIndexRegistry where
  "tir_new = tir_with_default_policy Balanced"

definition tir_set_default_policy :: "IndexPolicy \<Rightarrow> TableIndexRegistry \<Rightarrow> TableIndexRegistry" where
  "tir_set_default_policy policy r = r\<lparr>tir_default_policy := policy\<rparr>"

definition tir_configure_table :: "TableIndexConfig \<Rightarrow> TableIndexRegistry \<Rightarrow> TableIndexRegistry" where
  "tir_configure_table c r = r\<lparr>tir_configs := dm_insert (tic_table_name c) c (tir_configs r)\<rparr>"

definition tir_get_policy :: "bytes \<Rightarrow> TableIndexRegistry \<Rightarrow> IndexPolicy" where
  "tir_get_policy name r = (case map_of (tir_configs r) name of Some c \<Rightarrow> tic_policy c | None \<Rightarrow> tir_default_policy r)"

definition tir_get_config :: "bytes \<Rightarrow> TableIndexRegistry \<Rightarrow> TableIndexConfig" where
  "tir_get_config name r = (case map_of (tir_configs r) name of Some c \<Rightarrow> c | None \<Rightarrow> tic_new name (tir_default_policy r))"

definition tir_has_explicit_config :: "bytes \<Rightarrow> TableIndexRegistry \<Rightarrow> bool" where
  "tir_has_explicit_config name r \<longleftrightarrow> map_of (tir_configs r) name \<noteq> None"

definition tir_remove_config :: "bytes \<Rightarrow> TableIndexRegistry \<Rightarrow> TableIndexRegistry \<times> TableIndexConfig option" where
  "tir_remove_config name r = (r\<lparr>tir_configs := dm_remove name (tir_configs r)\<rparr>, map_of (tir_configs r) name)"

definition tir_configured_tables :: "TableIndexRegistry \<Rightarrow> bytes list" where
  "tir_configured_tables r = map fst (tir_configs r)"

definition has_ordered_index :: "IndexPolicy \<Rightarrow> bool" where
  "has_ordered_index policy \<longleftrightarrow> policy = ScanOptimized"

definition supports_efficient_scans :: "IndexPolicy \<Rightarrow> bool" where
  "supports_efficient_scans policy \<longleftrightarrow> policy = ScanOptimized \<or> policy = Balanced"

subsection \<open>Configuration\<close>

datatype SyncMode = SyncOff | SyncNormal | SyncFull

definition sync_from_sqlite_pragma :: "u32 \<Rightarrow> SyncMode" where
  "sync_from_sqlite_pragma v = (if v = 0 then SyncOff else if v = 1 then SyncNormal else SyncFull)"

definition sync_to_sqlite_pragma :: "SyncMode \<Rightarrow> u32" where
  "sync_to_sqlite_pragma m = (case m of SyncOff \<Rightarrow> 0 | SyncNormal \<Rightarrow> 1 | SyncFull \<Rightarrow> 2)"

definition ascii_upper :: "byte \<Rightarrow> byte" where
  "ascii_upper b = (if 97 \<le> b \<and> b \<le> 122 then b - 32 else b)"

definition sync_parse :: "bytes \<Rightarrow> SyncMode option" where
  "sync_parse s =
     (let u = map ascii_upper s
      in if u = [79, 70, 70] \<or> u = [48] then Some SyncOff
         else if u = [78, 79, 82, 77, 65, 76] \<or> u = [49] then Some SyncNormal
         else if u = [70, 85, 76, 76] \<or> u = [50] then Some SyncFull
         else None)"

record GroupCommitSettings =
  gcs_min_batch_size :: nat
  gcs_max_batch_size :: nat
  gcs_max_wait_us :: u64
  gcs_fsync_latency_us :: u64

definition gcs_default :: GroupCommitSettings where
  "gcs_default = \<lparr>gcs_min_batch_size = 1, gcs_max_batch_size = 1000, gcs_max_wait_us = 10000, gcs_fsync_latency_us = 5000\<rparr>"

definition gcs_high_throughput :: GroupCommitSettings where
  "gcs_high_throughput =
     \<lparr>gcs_min_batch_size = 50, gcs_max_batch_size = 5000, gcs_max_wait_us = 50000, gcs_fsync_latency_us = 5000\<rparr>"

definition gcs_low_latency :: GroupCommitSettings where
  "gcs_low_latency = \<lparr>gcs_min_batch_size = 1, gcs_max_batch_size = 10, gcs_max_wait_us = 1000, gcs_fsync_latency_us = 5000\<rparr>"

record DatabaseConfig =
  cfg_group_commit :: bool
  cfg_memtable_size_limit :: nat
  cfg_wal_enabled :: bool
  cfg_sync_mode :: SyncMode
  cfg_read_only :: bool
  cfg_enable_ordered_index :: bool
  cfg_group_commit_config :: GroupCommitSettings
  cfg_default_index_policy :: IndexPolicy

definition cfg_default :: DatabaseConfig where
  "cfg_default =
     \<lparr>cfg_group_commit = True, cfg_memtable_size_limit = 64 * 1024 * 1024, cfg_wal_enabled = True, cfg_sync_mode = SyncNormal,
      cfg_read_only = False, cfg_enable_ordered_index = True, cfg_group_commit_config = gcs_default,
      cfg_default_index_policy = Balanced\<rparr>"

definition cfg_throughput_optimized :: DatabaseConfig where
  "cfg_throughput_optimized =
     \<lparr>cfg_group_commit = True, cfg_memtable_size_limit = 128 * 1024 * 1024, cfg_wal_enabled = True, cfg_sync_mode = SyncNormal,
      cfg_read_only = False, cfg_enable_ordered_index = False, cfg_group_commit_config = gcs_high_throughput,
      cfg_default_index_policy = WriteOptimized\<rparr>"

definition cfg_latency_optimized :: DatabaseConfig where
  "cfg_latency_optimized =
     \<lparr>cfg_group_commit = True, cfg_memtable_size_limit = 32 * 1024 * 1024, cfg_wal_enabled = True, cfg_sync_mode = SyncFull,
      cfg_read_only = False, cfg_enable_ordered_index = True, cfg_group_commit_config = gcs_low_latency,
      cfg_default_index_policy = ScanOptimized\<rparr>"

definition cfg_sqlite_compatible :: DatabaseConfig where
  "cfg_sqlite_compatible =
     \<lparr>cfg_group_commit = False, cfg_memtable_size_limit = 64 * 1024 * 1024, cfg_wal_enabled = True, cfg_sync_mode = SyncNormal,
      cfg_read_only = False, cfg_enable_ordered_index = True, cfg_group_commit_config = gcs_default,
      cfg_default_index_policy = Balanced\<rparr>"

definition cfg_effective_ordered_index :: "DatabaseConfig \<Rightarrow> bool" where
  "cfg_effective_ordered_index c \<longleftrightarrow> cfg_default_index_policy c = ScanOptimized"

subsection \<open>The kernel\<close>

datatype ColumnType = CInt64 | CUInt64 | CFloat64 | CText | CBinary | CBool

record ColumnDef =
  cd_name :: bytes
  cd_type :: ColumnType
  cd_nullable :: bool

record TableSchema =
  ts_name :: bytes
  ts_columns :: "ColumnDef list"

record TxnHandle =
  th_txn_id :: u64
  th_snapshot_ts :: u64

record Stats =
  stat_transactions_started :: u64
  stat_transactions_committed :: u64
  stat_transactions_aborted :: u64
  stat_queries_executed :: u64
  stat_bytes_written :: u64
  stat_bytes_read :: u64

definition database_stats_new :: Stats where
  "database_stats_new =
     \<lparr>stat_transactions_started = 0, stat_transactions_committed = 0, stat_transactions_aborted = 0,
      stat_queries_executed = 0, stat_bytes_written = 0, stat_bytes_read = 0\<rparr>"

record Database =
  db_storage :: DurableStorage
  db_tables :: "(bytes, TableSchema) dashmap"
  db_packed_schemas :: "(bytes, PackedTableSchema) dashmap"
  db_index_registry :: TableIndexRegistry
  db_config :: DatabaseConfig
  db_stat :: Stats
  db_shutdown_flag :: u64

definition db_open_with_config_and_encryption ::
    "ds_env \<Rightarrow> DatabaseConfig \<Rightarrow> unit result \<Rightarrow> enc_state result \<Rightarrow> ds_disk \<Rightarrow> nat \<Rightarrow> Database result" where
  "db_open_with_config_and_encryption E config lock keyring disk tick =
     try_bind (ds_open_with_policy E (cfg_default_index_policy config) (cfg_group_commit config) lock keyring disk tick) (\<lambda>storage.
       let storage = ds_set_sync_mode (ucast (sync_to_sqlite_pragma (cfg_sync_mode config))) storage;
           db = \<lparr>db_storage = storage, db_tables = [], db_packed_schemas = [],
                 db_index_registry = tir_with_default_policy (cfg_default_index_policy config), db_config = config,
                 db_stat = database_stats_new, db_shutdown_flag = 0\<rparr>
       in case ds_recover E storage of
            (_, Inl e) \<Rightarrow> Inl e
          | (storage, Inr _) \<Rightarrow> Inr (db\<lparr>db_storage := storage\<rparr>))"

text \<open>A call of the storage engine, whose state changes also when it fails.\<close>

definition on_storage :: "(DurableStorage \<Rightarrow> DurableStorage \<times> 'a) \<Rightarrow> Database \<Rightarrow> Database \<times> 'a" where
  "on_storage f db = (let (s, r) = f (db_storage db) in (db\<lparr>db_storage := s\<rparr>, r))"

definition as_handle :: "u64 result \<Rightarrow> TxnHandle result" where
  "as_handle r = try_bind r (\<lambda>t. Inr \<lparr>th_txn_id = t, th_snapshot_ts = t\<rparr>)"

definition count_started :: "Database \<Rightarrow> Database" where
  "count_started db = db\<lparr>db_stat := (db_stat db)\<lparr>stat_transactions_started := stat_transactions_started (db_stat db) + 1\<rparr>\<rparr>"

definition db_begin_transaction :: "ds_env \<Rightarrow> Database \<Rightarrow> Database \<times> TxnHandle result" where
  "db_begin_transaction E db = apsnd as_handle (on_storage (ds_begin_transaction E) (count_started db))"

definition db_begin_read_only :: "ds_env \<Rightarrow> Database \<Rightarrow> Database \<times> TxnHandle result" where
  "db_begin_read_only E db = apsnd as_handle (on_storage (ds_begin_with_mode E ReadOnly) (count_started db))"

definition db_begin_write_only :: "ds_env \<Rightarrow> Database \<Rightarrow> Database \<times> TxnHandle result" where
  "db_begin_write_only E db = apsnd as_handle (on_storage (ds_begin_with_mode E WriteOnly) (count_started db))"

definition db_begin_read_only_fast :: "Database \<Rightarrow> Database \<times> TxnHandle" where
  "db_begin_read_only_fast db = apsnd (\<lambda>t. \<lparr>th_txn_id = t, th_snapshot_ts = t\<rparr>) (on_storage ds_begin_read_only_fast db)"

definition db_abort_read_only_fast :: "TxnHandle \<Rightarrow> Database \<Rightarrow> Database" where
  "db_abort_read_only_fast txn db = db\<lparr>db_storage := ds_abort_read_only_fast (th_txn_id txn) (db_storage db)\<rparr>"

definition db_get_raw_read :: "key \<Rightarrow> Database \<Rightarrow> val option" where
  "db_get_raw_read k db = ds_read_latest k (db_storage db)"

definition db_scan_raw :: "key \<Rightarrow> Database \<Rightarrow> Database \<times> (key \<times> val) list" where
  "db_scan_raw p db = on_storage (ds_scan_latest p) db"

definition db_commit :: "ds_env \<Rightarrow> TxnHandle \<Rightarrow> Database \<Rightarrow> Database \<times> u64 result" where
  "db_commit E txn db =
     on_storage (ds_commit E (th_txn_id txn))
       (db\<lparr>db_stat := (db_stat db)\<lparr>stat_transactions_committed := stat_transactions_committed (db_stat db) + 1\<rparr>\<rparr>)"

definition db_abort :: "ds_env \<Rightarrow> TxnHandle \<Rightarrow> Database \<Rightarrow> Database \<times> unit result" where
  "db_abort E txn db =
     on_storage (ds_abort E (th_txn_id txn))
       (db\<lparr>db_stat := (db_stat db)\<lparr>stat_transactions_aborted := stat_transactions_aborted (db_stat db) + 1\<rparr>\<rparr>)"

definition db_set_table_index_policy :: "bytes \<Rightarrow> IndexPolicy \<Rightarrow> Database \<Rightarrow> Database" where
  "db_set_table_index_policy table policy db =
     db\<lparr>db_index_registry := tir_configure_table (tic_new table policy) (db_index_registry db)\<rparr>"

definition db_get_table_index_policy :: "bytes \<Rightarrow> Database \<Rightarrow> IndexPolicy" where
  "db_get_table_index_policy table db = tir_get_policy table (db_index_registry db)"

subsection \<open>Keys and values\<close>

definition count_written :: "nat \<Rightarrow> Database \<Rightarrow> Database" where
  "count_written n db = db\<lparr>db_stat := (db_stat db)\<lparr>stat_bytes_written := stat_bytes_written (db_stat db) + of_nat n\<rparr>\<rparr>"

definition count_read :: "nat \<Rightarrow> Database \<Rightarrow> Database" where
  "count_read n db = db\<lparr>db_stat := (db_stat db)\<lparr>stat_bytes_read := stat_bytes_read (db_stat db) + of_nat n\<rparr>\<rparr>"

definition count_query :: "Database \<Rightarrow> Database" where
  "count_query db = db\<lparr>db_stat := (db_stat db)\<lparr>stat_queries_executed := stat_queries_executed (db_stat db) + 1\<rparr>\<rparr>"

definition pair_bytes :: "(key \<times> val) list \<Rightarrow> nat" where
  "pair_bytes kvs = sum_list (map (\<lambda>(k, v). length k + length v) kvs)"

definition db_put :: "ds_env \<Rightarrow> TxnHandle \<Rightarrow> key \<Rightarrow> val \<Rightarrow> Database \<Rightarrow> Database \<times> unit result" where
  "db_put E txn k v db = on_storage (ds_write_refs E (th_txn_id txn) k v) (count_written (length k + length v) db)"

definition db_put_batch :: "ds_env \<Rightarrow> TxnHandle \<Rightarrow> (key \<times> val) list \<Rightarrow> Database \<Rightarrow> Database \<times> unit result" where
  "db_put_batch E txn writes db = on_storage (ds_write_batch_refs E (th_txn_id txn) writes) (count_written (pair_bytes writes) db)"

definition db_get :: "ds_env \<Rightarrow> TxnHandle \<Rightarrow> key \<Rightarrow> Database \<Rightarrow> Database \<times> val option result" where
  "db_get E txn k db =
     (case on_storage (ds_read E (th_txn_id txn) k) db of
        (db, Inl e) \<Rightarrow> (db, Inl e)
      | (db, Inr None) \<Rightarrow> (db, Inr None)
      | (db, Inr (Some data)) \<Rightarrow> (count_read (length data) db, Inr (Some data)))"

definition db_delete :: "ds_env \<Rightarrow> TxnHandle \<Rightarrow> key \<Rightarrow> Database \<Rightarrow> Database \<times> unit result" where
  "db_delete E txn k db = on_storage (ds_delete E (th_txn_id txn) k) db"

definition MIN_SCAN_PREFIX_LEN :: nat where
  "MIN_SCAN_PREFIX_LEN = 2"

definition prefix_too_short :: "nat \<Rightarrow> failure" where
  "prefix_too_short n =
     Err (InvalidArgument (''Prefix too short: '' @ show_nat n @ '' bytes (minimum '' @ show_nat MIN_SCAN_PREFIX_LEN
       @ '' required). Use scan_unchecked() for unrestricted scans.''))"

definition counted_rows :: "Database \<times> (key \<times> val) list result \<Rightarrow> Database \<times> (key \<times> val) list result" where
  "counted_rows p =
     (case p of (db, Inl e) \<Rightarrow> (db, Inl e) | (db, Inr rows) \<Rightarrow> (count_read (pair_bytes rows) db, Inr rows))"

definition db_scan_unchecked :: "TxnHandle \<Rightarrow> key \<Rightarrow> Database \<Rightarrow> Database \<times> (key \<times> val) list result" where
  "db_scan_unchecked txn p db = counted_rows (on_storage (ds_scan (th_txn_id txn) p) db)"

definition db_scan :: "TxnHandle \<Rightarrow> key \<Rightarrow> Database \<Rightarrow> Database \<times> (key \<times> val) list result" where
  "db_scan txn p db =
     (if length p < MIN_SCAN_PREFIX_LEN then (db, Inl (prefix_too_short (length p))) else db_scan_unchecked txn p db)"

definition db_scan_range :: "TxnHandle \<Rightarrow> key \<Rightarrow> key \<Rightarrow> Database \<Rightarrow> Database \<times> (key \<times> val) list result" where
  "db_scan_range txn lo hi db = counted_rows (on_storage (ds_scan_range (th_txn_id txn) lo hi) db)"

text \<open>The streaming scan: the iterator of the storage engine, and one call of its \<^verbatim>\<open>next\<close> with the count of bytes.\<close>

definition db_scan_range_iter :: "TxnHandle \<Rightarrow> key \<Rightarrow> key \<Rightarrow> Database \<Rightarrow> (Database \<times> RangeIterator) result" where
  "db_scan_range_iter txn lo hi db =
     try_bind (ds_scan_range_iter (th_txn_id txn) lo hi (db_storage db)) (\<lambda>(s, it). Inr (db\<lparr>db_storage := s\<rparr>, it))"

definition range_next :: "RangeIterator \<Rightarrow> MemTableKind \<Rightarrow> (MemTableKind \<times> RangeIterator \<times> (key \<times> val) option) result" where
  "range_next it m =
     (case it of
        StreamIter sri \<Rightarrow>
          (case m of
             Standard t \<Rightarrow> try_bind (sri_next t sri) (\<lambda>(t', sri', item). Inr (Standard t', StreamIter sri', item))
           | Arena _ \<Rightarrow> Inr (m, it, None))
      | VecIter [] \<Rightarrow> Inr (m, it, None)
      | VecIter (kv # kvs) \<Rightarrow> Inr (m, VecIter kvs, Some kv))"

definition db_scan_range_next :: "RangeIterator \<Rightarrow> Database \<Rightarrow> (Database \<times> RangeIterator \<times> (key \<times> val) option) result" where
  "db_scan_range_next it db =
     try_bind (range_next it (ds_memtable (db_storage db))) (\<lambda>(m, it', item).
       let db = db\<lparr>db_storage := (db_storage db)\<lparr>ds_memtable := m\<rparr>\<rparr>
       in Inr (case item of Some (k, v) \<Rightarrow> count_read (length k + length v) db | None \<Rightarrow> db, it', item))"

definition db_flush :: "Database \<Rightarrow> Database \<times> unit result" where
  "db_flush db = on_storage ds_fsync db"

definition db_storage_stats :: "Database \<Rightarrow> StorageStats" where
  "db_storage_stats db = ds_stats (db_storage db)"

subsection \<open>Paths\<close>

definition db_put_path :: "ds_env \<Rightarrow> TxnHandle \<Rightarrow> bytes \<Rightarrow> val \<Rightarrow> Database \<Rightarrow> Database \<times> unit result" where
  "db_put_path E txn path v db = db_put E txn path v db"

definition db_get_path :: "ds_env \<Rightarrow> TxnHandle \<Rightarrow> bytes \<Rightarrow> Database \<Rightarrow> Database \<times> val option result" where
  "db_get_path E txn path db = db_get E txn path db"

definition db_delete_path :: "ds_env \<Rightarrow> TxnHandle \<Rightarrow> bytes \<Rightarrow> Database \<Rightarrow> Database \<times> unit result" where
  "db_delete_path E txn path db = db_delete E txn path db"

text \<open>Keys that are not UTF-8 are left out of the result.\<close>

definition db_scan_path :: "TxnHandle \<Rightarrow> bytes \<Rightarrow> Database \<Rightarrow> Database \<times> (bytes \<times> val) list result" where
  "db_scan_path txn p db =
     (case db_scan txn p (count_query db) of
        (db, Inl e) \<Rightarrow> (db, Inl e)
      | (db, Inr results) \<Rightarrow> (db, Inr (filter (\<lambda>(k, v). utf8_valid k) results)))"

subsection \<open>Tables\<close>

definition table_not_found :: "bytes \<Rightarrow> failure" where
  "table_not_found table = Err (InvalidArgument (''Table '' @ quoted table @ '' not found''))"

definition packed_type :: "ColumnType \<Rightarrow> PackedColumnType" where
  "packed_type t =
     (case t of
        CInt64 \<Rightarrow> PInt64 | CUInt64 \<Rightarrow> PUInt64 | CFloat64 \<Rightarrow> PFloat64 | CText \<Rightarrow> PText | CBinary \<Rightarrow> PBinary | CBool \<Rightarrow> PBool)"

definition to_packed_schema :: "TableSchema \<Rightarrow> PackedTableSchema" where
  "to_packed_schema schema =
     ps_new (ts_name schema)
       (map (\<lambda>col. \<lparr>pc_name = cd_name col, pc_type = packed_type (cd_type col), pc_nullable = cd_nullable col\<rparr>) (ts_columns schema))"

definition put_schema :: "TableSchema \<Rightarrow> Database \<Rightarrow> Database" where
  "put_schema schema db =
     db\<lparr>db_packed_schemas := dm_insert (ts_name schema) (to_packed_schema schema) (db_packed_schemas db),
        db_tables := dm_insert (ts_name schema) schema (db_tables db)\<rparr>"

definition db_register_table :: "TableSchema \<Rightarrow> Database \<Rightarrow> Database \<times> unit result" where
  "db_register_table schema db =
     (if map_of (db_tables db) (ts_name schema) \<noteq> None
      then (db, Inl (Err (InvalidArgument (''Table '' @ quoted (ts_name schema) @ '' already exists''))))
      else (put_schema schema db, Inr ()))"

definition db_get_table_schema :: "bytes \<Rightarrow> Database \<Rightarrow> TableSchema option" where
  "db_get_table_schema name db = map_of (db_tables db) name"

definition db_update_table_schema :: "bytes \<Rightarrow> TableSchema \<Rightarrow> Database \<Rightarrow> Database \<times> unit result" where
  "db_update_table_schema old_name schema db =
     (if map_of (db_tables db) old_name = None then (db, Inl (table_not_found old_name))
      else (put_schema schema
              (db\<lparr>db_tables := dm_remove old_name (db_tables db), db_packed_schemas := dm_remove old_name (db_packed_schemas db)\<rparr>),
            Inr ()))"

definition db_list_tables :: "Database \<Rightarrow> bytes list" where
  "db_list_tables db = map fst (db_tables db)"

definition row_key :: "bytes \<Rightarrow> u64 \<Rightarrow> key" where
  "row_key table row_id = kb_as_bytes (format_row_key table row_id)"

definition put_row :: "ds_env \<Rightarrow> TxnHandle \<Rightarrow> bytes \<Rightarrow> u64 \<Rightarrow> PackedRow result \<Rightarrow> Database \<Rightarrow> Database \<times> unit result" where
  "put_row E txn table row_id packed db =
     (case packed of
        Inl e \<Rightarrow> (db, Inl e)
      | Inr row \<Rightarrow> db_put E txn (row_key table row_id) (pr_as_bytes row) db)"

definition db_insert_row ::
    "ds_env \<Rightarrow> TxnHandle \<Rightarrow> bytes \<Rightarrow> u64 \<Rightarrow> (bytes \<Rightarrow> SochValue option) \<Rightarrow> Database \<Rightarrow> Database \<times> unit result" where
  "db_insert_row E txn table row_id values db =
     (case map_of (db_packed_schemas db) table of
        None \<Rightarrow> (db, Inl (table_not_found table))
      | Some ps \<Rightarrow> put_row E txn table row_id (pr_pack ps values) db)"

text \<open>
  The columns of a row by name: \<^verbatim>\<open>column_index\<close>, \<^verbatim>\<open>column\<close> and \<^verbatim>\<open>get_column\<close> as in \<^verbatim>\<open>get_by_name\<close>, collected
  in a map; names that are not columns are left out.
\<close>

fun project_row :: "PackedTableSchema \<Rightarrow> PackedRow \<Rightarrow> bytes list \<Rightarrow> (bytes, SochValue) dashmap \<Rightarrow> (bytes, SochValue) dashmap result" where
  "project_row ps row [] m = Inr m"
| "project_row ps row (c # cs) m =
     try_bind (get_by_name ps c row) (\<lambda>ov.
       project_row ps row cs (case ov of Some v \<Rightarrow> dm_insert c v m | None \<Rightarrow> m))"

definition decode_row ::
    "PackedTableSchema \<Rightarrow> bytes list \<Rightarrow> bytes \<Rightarrow> (bytes, SochValue) dashmap result" where
  "decode_row ps cols data = try_bind (pr_from_bytes data (ps_num_columns ps)) (\<lambda>row. project_row ps row cols [])"

definition db_read_row ::
    "ds_env \<Rightarrow> TxnHandle \<Rightarrow> bytes \<Rightarrow> u64 \<Rightarrow> bytes list option \<Rightarrow> Database \<Rightarrow> Database \<times> (bytes, SochValue) dashmap option result" where
  "db_read_row E txn table row_id columns db =
     (case map_of (db_tables db) table of
        None \<Rightarrow> (db, Inl (table_not_found table))
      | Some schema \<Rightarrow>
          (case db_get E txn (row_key table row_id) db of
             (db, Inl e) \<Rightarrow> (db, Inl e)
           | (db, Inr None) \<Rightarrow> (db, Inr None)
           | (db, Inr (Some data)) \<Rightarrow>
               (case map_of (db_packed_schemas db) table of
                  None \<Rightarrow> (db, Inl (Err (Internal ''Packed schema not found'')))
                | Some ps \<Rightarrow>
                    (db, try_bind (decode_row ps (case columns of Some cs \<Rightarrow> cs | None \<Rightarrow> map cd_name (ts_columns schema)) data)
                           (\<lambda>row. Inr (Some row))))))"

fun insert_rows ::
    "ds_env \<Rightarrow> TxnHandle \<Rightarrow> bytes \<Rightarrow> PackedTableSchema \<Rightarrow> nat \<Rightarrow> (u64 \<times> (bytes \<Rightarrow> SochValue option)) list \<Rightarrow> Database \<Rightarrow>
     Database \<times> nat result" where
  "insert_rows E txn table ps count [] db = (db, Inr count)"
| "insert_rows E txn table ps count ((row_id, values) # rows) db =
     (case put_row E txn table row_id (pr_pack ps values) db of
        (db, Inl e) \<Rightarrow> (db, Inl e)
      | (db, Inr _) \<Rightarrow> insert_rows E txn table ps (count + 1) rows db)"

definition db_insert_rows_batch ::
    "ds_env \<Rightarrow> TxnHandle \<Rightarrow> bytes \<Rightarrow> (u64 \<times> (bytes \<Rightarrow> SochValue option)) list \<Rightarrow> Database \<Rightarrow> Database \<times> nat result" where
  "db_insert_rows_batch E txn table rows db =
     (case map_of (db_packed_schemas db) table of
        None \<Rightarrow> (db, Inl (table_not_found table))
      | Some ps \<Rightarrow> insert_rows E txn table ps 0 rows db)"

definition db_put_raw :: "ds_env \<Rightarrow> TxnHandle \<Rightarrow> key \<Rightarrow> val \<Rightarrow> Database \<Rightarrow> Database \<times> unit result" where
  "db_put_raw E txn k v db = on_storage (ds_write_refs E (th_txn_id txn) k v) db"

definition db_insert_row_slice ::
    "ds_env \<Rightarrow> TxnHandle \<Rightarrow> bytes \<Rightarrow> u64 \<Rightarrow> SochValue option list \<Rightarrow> Database \<Rightarrow> Database \<times> unit result" where
  "db_insert_row_slice E txn table row_id values db =
     (case map_of (db_packed_schemas db) table of
        None \<Rightarrow> (db, Inl (table_not_found table))
      | Some ps \<Rightarrow>
          if length values \<noteq> ps_num_columns ps
          then (db, Inl (Err (InvalidArgument (''Expected '' @ show_nat (ps_num_columns ps) @ '' columns, got ''
                  @ show_nat (length values)))))
          else put_row E txn table row_id (pr_pack_slice ps values) db)"

subsection \<open>Maintenance\<close>

definition db_fsync :: "Database \<Rightarrow> Database \<times> unit result" where
  "db_fsync db = on_storage ds_fsync db"

definition db_checkpoint :: "ds_env \<Rightarrow> Database \<Rightarrow> Database \<times> u64 result" where
  "db_checkpoint E db = on_storage (ds_checkpoint E) db"

definition db_truncate_wal :: "Database \<Rightarrow> Database \<times> unit result" where
  "db_truncate_wal db = on_storage ds_truncate_wal db"

definition db_gc :: "Database \<Rightarrow> Database \<times> nat" where
  "db_gc db = on_storage ds_gc db"

definition db_stats :: "Database \<Rightarrow> Stats" where
  "db_stats db = db_stat db"

definition mark_clean :: "Database \<Rightarrow> Database" where
  "mark_clean db = db\<lparr>db_storage := (db_storage db)\<lparr>ds_clean_shutdown_file := True\<rparr>\<rparr>"

definition db_shutdown :: "Database \<Rightarrow> Database \<times> unit result" where
  "db_shutdown db =
     (let already = (db_shutdown_flag db = 1); db = db\<lparr>db_shutdown_flag := 1\<rparr>
      in if already then (db, Inr ())
         else case db_fsync db of
                (db, Inl e) \<Rightarrow> (db, Inl e)
              | (db, Inr _) \<Rightarrow> (mark_clean db, Inr ()))"

definition db_drop :: "Database \<Rightarrow> Database" where
  "db_drop db = (if db_shutdown_flag db = 0 then mark_clean (fst (db_fsync db)) else db)"

end
