(* ===== verification/Balanced_Index.thy ===== *)
theory Balanced_Index
  imports Database_Kernel "HOL-Library.Product_Lexorder" "HOL-Library.Multiset"
begin

text \<open>
  \<^verbatim>\<open>SortedRun\<close> and \<^verbatim>\<open>BalancedTableIndex\<close> of \<^verbatim>\<open>sochdb-storage/src/index_policy.rs\<close>: an unsorted table for
  writes, immutable sorted runs, and a merge of runs.  A key handle is determined by its bytes (theory
  \<open>Arena_Table\<close>), which stand for it here.
\<close>

subsection \<open>Sorted runs\<close>

record ('k, 'v) SortedRun =
  sr_entries :: "('k \<times> 'v) list"
  sr_min_key :: "'k option"
  sr_max_key :: "'k option"
  sr_size_bytes :: nat
  sr_level :: nat

text \<open>\<^verbatim>\<open>size_of_val(&entries)\<close> is the size of the vector header: pointer, capacity, length.\<close>

definition VEC_HEADER :: nat where
  "VEC_HEADER = 24"

definition sr_from_sorted :: "('k \<times> 'v) list \<Rightarrow> nat \<Rightarrow> ('k, 'v) SortedRun" where
  "sr_from_sorted entries level =
     \<lparr>sr_entries = entries, sr_min_key = (if entries = [] then None else Some (fst (hd entries))),
      sr_max_key = (if entries = [] then None else Some (fst (last entries))), sr_size_bytes = VEC_HEADER, sr_level = level\<rparr>"

definition sr_from_unsorted :: "('k :: linorder \<times> 'v) list \<Rightarrow> nat \<Rightarrow> ('k, 'v) SortedRun" where
  "sr_from_unsorted entries level = sr_from_sorted (sort_key fst entries) level"

definition sr_len :: "('k, 'v) SortedRun \<Rightarrow> nat" where
  "sr_len r = length (sr_entries r)"

definition sr_is_empty :: "('k, 'v) SortedRun \<Rightarrow> bool" where
  "sr_is_empty r \<longleftrightarrow> sr_entries r = []"

text \<open>\<^verbatim>\<open>slice::binary_search_by\<close>: \<open>Inr\<close> an index with an equal key, or \<open>Inl\<close> the place to insert it.\<close>

definition binary_search :: "'k :: linorder \<Rightarrow> ('k \<times> 'v) list \<Rightarrow> nat + nat" where
  "binary_search k xs =
     (if xs = [] then Inl 0
      else let base = pp_loop (\<lambda>x. \<not> fst x > k) xs 0 (length xs)
           in if fst (xs ! base) = k then Inr base
              else if fst (xs ! base) < k then Inl (base + 1) else Inl base)"

definition search_point :: "nat + nat \<Rightarrow> nat" where
  "search_point r = (case r of Inr i \<Rightarrow> i | Inl i \<Rightarrow> i)"

definition sr_get :: "'k :: linorder \<Rightarrow> ('k, 'v) SortedRun \<Rightarrow> 'v option" where
  "sr_get k r =
     (case binary_search k (sr_entries r) of Inr idx \<Rightarrow> Some (snd (sr_entries r ! idx)) | Inl _ \<Rightarrow> None)"

definition sr_range_from :: "'k :: linorder \<Rightarrow> ('k, 'v) SortedRun \<Rightarrow> ('k \<times> 'v) list" where
  "sr_range_from start r = drop (search_point (binary_search start (sr_entries r))) (sr_entries r)"

definition sr_range :: "'k :: linorder \<Rightarrow> 'k \<Rightarrow> ('k, 'v) SortedRun \<Rightarrow> ('k \<times> 'v) list result" where
  "sr_range start stop r =
     slice (sr_entries r) (search_point (binary_search start (sr_entries r))) (search_point (binary_search stop (sr_entries r)))"

definition sr_overlaps_prefix :: "'k :: linorder \<Rightarrow> ('k, 'v) SortedRun \<Rightarrow> bool" where
  "sr_overlaps_prefix p r = (case sr_max_key r of Some mx \<Rightarrow> \<not> mx < p | None \<Rightarrow> True)"

definition sr_overlaps_range :: "'k :: linorder \<Rightarrow> 'k \<Rightarrow> ('k, 'v) SortedRun \<Rightarrow> bool" where
  "sr_overlaps_range start stop r =
     (if (case sr_min_key r of Some mn \<Rightarrow> mn \<ge> stop | None \<Rightarrow> False) then False
      else if (case sr_max_key r of Some mx \<Rightarrow> mx < start | None \<Rightarrow> False) then False
      else True)"

subsection \<open>The index\<close>

text \<open>The size of a value, \<^verbatim>\<open>size_of::<V>()\<close>, is the parameter \<open>vsize\<close>.\<close>

record 'v BalancedTableIndex =
  bti_memtable :: "(key, 'v) dashmap"
  bti_sorted_runs :: "(key, 'v) SortedRun list"
  bti_config :: TableIndexConfig
  bti_memtable_size :: nat

definition bti_new :: "TableIndexConfig \<Rightarrow> 'v BalancedTableIndex" where
  "bti_new config = \<lparr>bti_memtable = [], bti_sorted_runs = [], bti_config = config, bti_memtable_size = 0\<rparr>"

definition bti_insert :: "nat \<Rightarrow> key \<Rightarrow> 'v \<Rightarrow> 'v BalancedTableIndex \<Rightarrow> 'v BalancedTableIndex" where
  "bti_insert vsize k v b =
     b\<lparr>bti_memtable := dm_insert k v (bti_memtable b), bti_memtable_size := bti_memtable_size b + (length k + vsize)\<rparr>"

fun get_in_runs :: "key \<Rightarrow> (key, 'v) SortedRun list \<Rightarrow> 'v option" where
  "get_in_runs k [] = None"
| "get_in_runs k (r # rs) =
     (if sr_overlaps_prefix k r then (case sr_get k r of Some v \<Rightarrow> Some v | None \<Rightarrow> get_in_runs k rs) else get_in_runs k rs)"

definition bti_get :: "key \<Rightarrow> 'v BalancedTableIndex \<Rightarrow> 'v option" where
  "bti_get k b =
     (case map_of (bti_memtable b) k of Some v \<Rightarrow> Some v | None \<Rightarrow> get_in_runs k (rev (bti_sorted_runs b)))"

text \<open>
  The binary heaps hold entries ordered by key and source; a heap is kept as the list of its entries in
  the order in which they are popped.
\<close>

record 'v heap_entry =
  he_key :: key
  he_value :: 'v
  he_source :: nat

definition he_rank :: "'v heap_entry \<Rightarrow> key \<times> nat" where
  "he_rank e = (he_key e, he_source e)"

definition heap_push :: "'v heap_entry \<Rightarrow> 'v heap_entry list \<Rightarrow> 'v heap_entry list" where
  "heap_push e heap = insort_key he_rank e heap"

text \<open>Popping until the heap is empty, keeping the first entry of every key.\<close>

fun drain_heap :: "key option \<Rightarrow> 'v heap_entry list \<Rightarrow> (key \<times> 'v) list" where
  "drain_heap last_key [] = []"
| "drain_heap last_key (e # heap) =
     (if last_key \<noteq> Some (he_key e) then (he_key e, he_value e) # drain_heap (Some (he_key e)) heap
      else drain_heap last_key heap)"

definition prefix_entries :: "key \<Rightarrow> nat \<Rightarrow> (key \<times> 'v) list \<Rightarrow> 'v heap_entry list" where
  "prefix_entries p source kvs = map (\<lambda>(k, v). \<lparr>he_key = k, he_value = v, he_source = source\<rparr>) kvs"

definition prefix_run :: "key \<Rightarrow> nat \<Rightarrow> (key, 'v) SortedRun \<Rightarrow> 'v heap_entry list" where
  "prefix_run p source r =
     (if \<not> sr_overlaps_prefix p r then []
      else prefix_entries p source (takeWhile (\<lambda>(k, v). prefix p k) (sr_range_from p r)))"

definition bti_scan_prefix :: "key \<Rightarrow> 'v BalancedTableIndex \<Rightarrow> (key \<times> 'v) list" where
  "bti_scan_prefix p b =
     drain_heap None (fold heap_push
       (prefix_entries p 0 (filter (\<lambda>(k, v). prefix p k) (bti_memtable b)) @
        concat (map (\<lambda>(i, r). prefix_run p (i + 1) r) (enumerate 0 (bti_sorted_runs b)))) [])"

definition bti_needs_compaction :: "'v BalancedTableIndex \<Rightarrow> bool" where
  "bti_needs_compaction b \<longleftrightarrow>
     bti_memtable_size b \<ge> tic_target_run_size (bti_config b) \<or> length (bti_sorted_runs b) \<ge> tic_max_sorted_runs (bti_config b)"

definition bti_compact_memtable :: "'v BalancedTableIndex \<Rightarrow> 'v BalancedTableIndex" where
  "bti_compact_memtable b =
     (if bti_memtable b = [] then b
      else b\<lparr>bti_memtable := [], bti_memtable_size := 0,
             bti_sorted_runs := bti_sorted_runs b @ [sr_from_unsorted (bti_memtable b) 0]\<rparr>)"

subsection \<open>Merging runs\<close>

text \<open>
  The heap holds the entry at the current position of every run that has one; popping an entry advances
  its run.  The loop ends because an iteration either consumes an entry of a run or shrinks the heap.
\<close>

definition left_in_runs :: "(key \<times> 'v) list list \<Rightarrow> nat list \<Rightarrow> nat" where
  "left_in_runs runs pos = (\<Sum>j<length runs. length (runs ! j) - pos ! j)"

lemma left_in_runs_update:
  "left_in_runs runs (pos[i := Suc (pos ! i)]) \<le> left_in_runs runs pos"
  "i < length runs \<Longrightarrow> i < length pos \<Longrightarrow> pos ! i < length (runs ! i) \<Longrightarrow>
     left_in_runs runs (pos[i := Suc (pos ! i)]) < left_in_runs runs pos"
proof -
  have le: "length (runs ! j) - pos[i := Suc (pos ! i)] ! j \<le> length (runs ! j) - pos ! j" for j
    by (cases "i < length pos") (auto simp: nth_list_update list_update_beyond)
  then show "left_in_runs runs (pos[i := Suc (pos ! i)]) \<le> left_in_runs runs pos" unfolding left_in_runs_def by (intro sum_mono)
  assume i: "i < length runs" "i < length pos" "pos ! i < length (runs ! i)"
  then have "length (runs ! i) - pos[i := Suc (pos ! i)] ! i < length (runs ! i) - pos ! i" by simp
  with le i(1) show "left_in_runs runs (pos[i := Suc (pos ! i)]) < left_in_runs runs pos"
    unfolding left_in_runs_def by (intro sum_strict_mono_ex1) auto
qed

lemma length_heap_push [simp]: "length (heap_push e heap) = length heap + 1"
  by (simp add: heap_push_def)

function merge_loop ::
    "(key \<times> 'v) list list \<Rightarrow> nat list \<Rightarrow> key option \<Rightarrow> 'v heap_entry list \<Rightarrow> (key \<times> 'v) list" where
  "merge_loop runs pos last_key [] = []"
| "merge_loop runs pos last_key (e # heap) =
     (let fresh = (last_key \<noteq> Some (he_key e));
          i = he_source e;
          next_idx = pos ! i + 1;
          pos' = pos[i := next_idx];
          heap' = (if i < length runs \<and> i < length pos \<and> next_idx < length (runs ! i)
                   then heap_push \<lparr>he_key = fst (runs ! i ! next_idx), he_value = snd (runs ! i ! next_idx), he_source = i\<rparr> heap
                   else heap);
          rest = merge_loop runs pos' (if fresh then Some (he_key e) else last_key) heap'
      in if fresh then (he_key e, he_value e) # rest else rest)"
  by pat_completeness auto

termination
  by (relation "measure (\<lambda>(runs, pos, last_key, heap). left_in_runs runs pos + length heap)")
    (auto simp: less_Suc_eq_le Suc_le_eq intro: left_in_runs_update)

declare merge_loop.simps(2) [simp del]

definition k_way_merge :: "(key, 'v) SortedRun list \<Rightarrow> (key \<times> 'v) list" where
  "k_way_merge runs =
     merge_loop (map sr_entries runs) (replicate (length runs) 0) None
       (fold heap_push
         (concat (map (\<lambda>(i, r). case sr_entries r of [] \<Rightarrow> [] | kv # _ \<Rightarrow> [\<lparr>he_key = fst kv, he_value = snd kv, he_source = i\<rparr>])
           (enumerate 0 runs))) [])"

definition bti_merge_runs :: "nat \<Rightarrow> 'v BalancedTableIndex \<Rightarrow> 'v BalancedTableIndex" where
  "bti_merge_runs levels_to_merge b =
     (if length (bti_sorted_runs b) < levels_to_merge then b
      else let to_merge = take levels_to_merge (bti_sorted_runs b)
           in b\<lparr>bti_sorted_runs := sr_from_sorted (k_way_merge to_merge) (length to_merge) # drop levels_to_merge (bti_sorted_runs b)\<rparr>)"

definition bti_run_count :: "'v BalancedTableIndex \<Rightarrow> nat" where
  "bti_run_count b = length (bti_sorted_runs b)"

subsection \<open>Looking up a key\<close>

definition run_wf :: "('k :: linorder, 'v) SortedRun \<Rightarrow> bool" where
  "run_wf r \<longleftrightarrow> sorted_wrt (<) (map fst (sr_entries r)) \<and>
     sr_max_key r = (if sr_entries r = [] then None else Some (fst (last (sr_entries r))))"

lemma run_wf_from_sorted: "run_wf (sr_from_sorted xs n) \<longleftrightarrow> sorted_wrt (<) (map fst xs)"
  by (simp add: run_wf_def sr_from_sorted_def)

lemma sort_distinct_keys: "distinct (map fst xs) \<Longrightarrow> sorted_wrt (<) (map fst (sort_key fst xs))"
  by (simp add: strict_sorted_iff distinct_map inj_on_def)

lemma run_wf_from_unsorted: "dm_wf m \<Longrightarrow> run_wf (sr_from_unsorted m n)"
  by (simp add: sr_from_unsorted_def run_wf_from_sorted sort_distinct_keys dm_wf_def)

lemma binary_search_spec:
  assumes "sorted_wrt (<) (map fst xs)"
  shows "case binary_search k xs of
      Inr i \<Rightarrow> i < length xs \<and> fst (xs ! i) = k
    | Inl i \<Rightarrow> k \<notin> fst ` set xs \<and> i = length (takeWhile (\<lambda>x. fst x < k) xs)"
proof (cases "xs = []")
  case False
  let ?p = "\<lambda>x. \<not> fst x > k" and ?b = "pp_loop (\<lambda>x. \<not> fst x > k) xs 0 (length xs)"
  let ?n = "length (takeWhile ?p xs)"
  have mono: "fst (xs ! i) < fst (xs ! j)" if "i < j" "j < length xs" for i j
    using assms that by (simp add: sorted_wrt_iff_nth_less)
  then have part: "partitioned ?p xs" unfolding partitioned_def by (meson leI less_trans not_less_iff_gr_or_eq order.strict_trans1)
  then have all: "\<forall>i < length xs. ?p (xs ! i) \<longleftrightarrow> i < ?n" using partitioned_nth_iff by blast
  have b: "?b < length xs" "?b = 0 \<or> ?b < ?n" "?n \<le> ?b + 1"
    using pp_loop_bracket [OF all, of "length xs" 0] False length_takeWhile_le [of ?p xs] by auto
  show ?thesis
  proof (cases "fst (xs ! ?b) = k")
    case True
    with b(1) False show ?thesis by (simp add: binary_search_def)
  next
    case ne: False
    have out: "k \<notin> fst ` set xs"
    proof
      assume "k \<in> fst ` set xs"
      then obtain j where j: "j < length xs" "fst (xs ! j) = k" by (auto simp: in_set_conv_nth)
      then have "j < ?n" using all by auto
      then have "j < ?b" using b(3) ne j(2) by (cases "j = ?b") auto
      with b mono [of j ?b] j(2) all show False by auto
    qed
    then have "?n = length (takeWhile (\<lambda>x. fst x < k) xs)"
      by (intro arg_cong [where f = length] takeWhile_cong) (auto simp: image_iff not_less)
    with b all ne out False show ?thesis by (auto simp: binary_search_def Let_def not_less)
  qed
qed (simp add: binary_search_def)

lemma sr_get_spec:
  assumes "run_wf r"
  shows "sr_get k r = map_of (sr_entries r) k"
proof -
  have sorted: "sorted_wrt (<) (map fst (sr_entries r))" using assms by (simp add: run_wf_def)
  then have dist: "distinct (map fst (sr_entries r))" by (simp add: strict_sorted_iff)
  show ?thesis
    using binary_search_spec [OF sorted, of k]
    by (auto simp: sr_get_def split: sum.splits)
      (use dist in \<open>auto simp: map_of_eq_None_iff eq_commute [of None] in_set_conv_nth intro!: map_of_is_SomeI [symmetric]\<close>)
qed

lemma pruned_run_empty: "run_wf r \<Longrightarrow> \<not> sr_overlaps_prefix k r \<Longrightarrow> x \<in> set (sr_entries r) \<Longrightarrow> fst x < k"
  by (cases "sr_entries r" rule: rev_cases)
    (auto simp: run_wf_def sr_overlaps_prefix_def sorted_wrt_append split: if_splits dest: less_trans)

lemma get_in_runs_spec: "\<forall>r \<in> set rs. run_wf r \<Longrightarrow> get_in_runs k rs = map_of (concat (map sr_entries rs)) k"
proof (induction rs)
  case (Cons r rs)
  have "map_of (sr_entries r) k = None" if "\<not> sr_overlaps_prefix k r"
    using pruned_run_empty [of r k] that Cons.prems by (force simp: map_of_eq_None_iff)
  with Cons show ?case by (auto simp: sr_get_spec map_add_def split: option.split)
qed simp

definition bti_wf :: "'v BalancedTableIndex \<Rightarrow> bool" where
  "bti_wf b \<longleftrightarrow> dm_wf (bti_memtable b) \<and> (\<forall>r \<in> set (bti_sorted_runs b). run_wf r)"

lemma bti_get_spec:
  "bti_wf b \<Longrightarrow> bti_get k b = map_of (bti_memtable b @ concat (map sr_entries (rev (bti_sorted_runs b)))) k"
  by (simp add: bti_get_def bti_wf_def get_in_runs_spec map_add_def split: option.split)

lemma bti_wf_ops:
  "bti_wf (bti_new c)" "bti_wf b \<Longrightarrow> bti_wf (bti_insert n k v b)" "bti_wf b \<Longrightarrow> bti_wf (bti_compact_memtable b)"
  by (auto simp: bti_wf_def bti_new_def bti_insert_def bti_compact_memtable_def dm_wf_def dm_insert_def distinct_update
      run_wf_from_unsorted [unfolded dm_wf_def])

lemma bti_get_new: "bti_get k (bti_new c) = None"
  by (simp add: bti_get_def bti_new_def)

lemma bti_get_insert: "bti_get k' (bti_insert n k v b) = (if k' = k then Some v else bti_get k' b)"
  by (simp add: bti_get_def bti_insert_def split: option.split)

lemma map_of_sort_key: "distinct (map fst xs) \<Longrightarrow> map_of (sort_key fst xs) = map_of xs"
  using sort_distinct_keys [of xs] by (simp add: map_of_inject_set strict_sorted_iff)

lemma bti_get_compact: "bti_wf b \<Longrightarrow> bti_get k (bti_compact_memtable b) = bti_get k b"
  using bti_wf_ops(3) [of b]
  by (simp add: bti_get_spec) (simp add: bti_compact_memtable_def sr_from_unsorted_def sr_from_sorted_def map_of_sort_key bti_wf_def dm_wf_def)

subsection \<open>What merging and scanning keep\<close>

definition kv_of :: "'v heap_entry \<Rightarrow> key \<times> 'v" where
  "kv_of e = (he_key e, he_value e)"

definition tail_entries :: "(key \<times> 'v) list list \<Rightarrow> nat list \<Rightarrow> nat \<Rightarrow> 'v heap_entry list" where
  "tail_entries runs pos i = map (\<lambda>(k, v). \<lparr>he_key = k, he_value = v, he_source = i\<rparr>) (drop (pos ! i) (runs ! i))"

definition remaining :: "(key \<times> 'v) list list \<Rightarrow> nat list \<Rightarrow> 'v heap_entry list" where
  "remaining runs pos = concat (map (tail_entries runs pos) [0..<length runs])"

definition heads :: "(key \<times> 'v) list list \<Rightarrow> nat list \<Rightarrow> 'v heap_entry list" where
  "heads runs pos = concat (map (\<lambda>i. take 1 (tail_entries runs pos i)) [0..<length runs])"

lemma mset_concat_upt: "mset (concat (map g [0..<n])) = (\<Sum>j<n. mset (g j))"
  by (induction n) (simp_all add: add.commute)

lemma mset_concat_change:
  assumes "i < n" "\<And>j. j < n \<Longrightarrow> j \<noteq> i \<Longrightarrow> g' j = g j"
  shows "mset (concat (map g [0..<n])) + mset (g' i) = mset (concat (map g' [0..<n])) + mset (g i)"
proof -
  have "(\<Sum>j\<in>{..<n} - {i}. mset (g' j)) = (\<Sum>j\<in>{..<n} - {i}. mset (g j))" using assms(2) by (intro sum.cong) auto
  then show ?thesis
    using assms(1) by (simp add: mset_concat_upt sum.remove [of "{..<n}" i] ac_simps)
qed

lemma tail_entries_source: "e \<in> set (tail_entries runs pos i) \<Longrightarrow> he_source e = i"
  by (auto simp: tail_entries_def)

lemma tail_mem: "e \<in> set (tail_entries runs pos i) \<Longrightarrow> (he_key e, he_value e) \<in> set (runs ! i)"
  by (auto simp: tail_entries_def dest: in_set_dropD)

lemma tail_sources: "map he_source (tail_entries runs pos i) = replicate (length (tail_entries runs pos i)) i"
  by (simp add: tail_entries_def map_replicate_const comp_def case_prod_unfold)

lemma tail_entries_update: "j \<noteq> i \<Longrightarrow> tail_entries runs (pos[i := p]) j = tail_entries runs pos j"
  by (simp add: tail_entries_def)

lemma tail_entries_step:
  assumes "i < length pos" "pos ! i < length (runs ! i)"
  shows "tail_entries runs pos i = \<lparr>he_key = fst (runs ! i ! (pos ! i)), he_value = snd (runs ! i ! (pos ! i)), he_source = i\<rparr> #
    tail_entries runs (pos[i := pos ! i + 1]) i"
  using assms by (simp add: tail_entries_def Cons_nth_drop_Suc [symmetric] case_prod_unfold)

lemma sorted_tail:
  assumes "sorted_wrt (<) (map fst (runs ! i))"
  shows "sorted_wrt (\<lambda>a b. he_rank a < he_rank b) (tail_entries runs pos i)"
proof -
  have "sorted_wrt (<) (map fst (drop (pos ! i) (runs ! i)))" using assms by (simp add: drop_map [symmetric] sorted_wrt_drop)
  then show ?thesis
    by (simp add: tail_entries_def sorted_wrt_map case_prod_unfold he_rank_def less_prod_def')
qed

lemma remaining_mem: "e \<in> set (remaining runs pos) \<longleftrightarrow> (\<exists>i < length runs. e \<in> set (tail_entries runs pos i))"
  by (auto simp: remaining_def)

lemma remaining_rank_inj:
  assumes "\<forall>r \<in> set runs. distinct (map fst r)"
  shows "inj_on he_rank (set (remaining runs pos))"
proof (rule inj_onI)
  fix a b assume a: "a \<in> set (remaining runs pos)" and b: "b \<in> set (remaining runs pos)" and rank: "he_rank a = he_rank b"
  from a b obtain i where i: "i < length runs" "a \<in> set (tail_entries runs pos i)" "b \<in> set (tail_entries runs pos i)"
    using rank tail_entries_source unfolding remaining_mem he_rank_def by (metis prod.inject)
  have dist: "distinct (map fst (runs ! i))" using assms i(1) by simp
  have key: "he_key a = he_key b" using rank by (simp add: he_rank_def)
  have "he_value a = he_value b" using eq_key_imp_eq_value [OF dist] tail_mem [OF i(2)] tail_mem [OF i(3)] key by simp
  with key tail_entries_source [OF i(2)] tail_entries_source [OF i(3)] show "a = b" by simp
qed

lemma head_minimal:
  assumes "\<forall>r \<in> set runs. sorted_wrt (<) (map fst r)" "x \<in> set (remaining runs pos)"
  shows "\<exists>h \<in> set (heads runs pos). he_rank h \<le> he_rank x"
proof -
  obtain i where i: "i < length runs" "x \<in> set (tail_entries runs pos i)" using assms(2) by (auto simp: remaining_mem)
  then obtain h hs where t: "tail_entries runs pos i = h # hs" by (cases "tail_entries runs pos i") auto
  have "sorted_wrt (\<lambda>a b. he_rank a < he_rank b) (h # hs)" unfolding t [symmetric] by (rule sorted_tail) (use assms(1) i(1) in auto)
  then have "he_rank h \<le> he_rank x" using i(2) t by (auto intro: less_imp_le)
  moreover have "h \<in> set (heads runs pos)" using i(1) t by (force simp: heads_def)
  ultimately show ?thesis by blast
qed

lemma head_mem:
  assumes "e \<in> set (heads runs pos)"
  shows "he_source e < length runs" "\<exists>es. tail_entries runs pos (he_source e) = e # es"
proof -
  obtain i where i: "i < length runs" "e \<in> set (take 1 (tail_entries runs pos i))" using assms by (auto simp: heads_def)
  then obtain es where es: "tail_entries runs pos i = e # es" by (cases "tail_entries runs pos i") auto
  then have "he_source e = i" using tail_entries_source [of e runs pos i] by simp
  with i(1) es show "he_source e < length runs" "\<exists>es. tail_entries runs pos (he_source e) = e # es" by auto
qed

lemma heap_push_props:
  "mset (heap_push e heap) = {#e#} + mset heap" "sorted (map he_rank heap) \<Longrightarrow> sorted (map he_rank (heap_push e heap))"
  by (simp_all add: heap_push_def sorted_insort_key)

lemma merge_step:
  assumes runs: "\<forall>r \<in> set runs. sorted_wrt (<) (map fst r)" and len: "length pos = length runs"
    and sorted: "sorted (map he_rank (e # heap))" and heads: "mset (e # heap) = mset (heads runs pos)"
    and heap': "heap' = (if he_source e < length runs \<and> he_source e < length pos \<and> pos ! he_source e + 1 < length (runs ! he_source e)
      then heap_push \<lparr>he_key = fst (runs ! he_source e ! (pos ! he_source e + 1)), he_value = snd (runs ! he_source e ! (pos ! he_source e + 1)),
        he_source = he_source e\<rparr> heap else heap)"
  shows "sorted (map he_rank heap')" "mset heap' = mset (heads runs (pos[he_source e := pos ! he_source e + 1]))"
    "sort_key he_rank (remaining runs pos) = e # sort_key he_rank (remaining runs (pos[he_source e := pos ! he_source e + 1]))"
proof -
  let ?i = "he_source e" and ?pos = "pos[he_source e := pos ! he_source e + 1]"
  have e: "e \<in> set (heads runs pos)" using heads by (metis list.set_intros(1) set_mset_mset)
  note i = head_mem(1) [OF e]
  obtain es where es: "tail_entries runs pos ?i = e # es" using head_mem(2) [OF e] by blast
  then have inside: "pos ! ?i < length (runs ! ?i)" by (auto simp: tail_entries_def intro: ccontr)
  have step: "tail_entries runs pos ?i = e # tail_entries runs ?pos ?i"
    using tail_entries_step [of ?i pos runs] i len inside es by simp
  show "sorted (map he_rank heap')" using sorted by (auto simp: heap' intro: heap_push_props(2))
  have "mset (heads runs pos) + mset (take 1 (tail_entries runs ?pos ?i)) = mset (heads runs ?pos) + mset (take 1 (tail_entries runs pos ?i))"
    unfolding heads_def by (rule mset_concat_change [OF i]) (simp add: tail_entries_update)
  moreover have "mset heap' = mset heap + mset (take 1 (tail_entries runs ?pos ?i))"
  proof (cases "pos ! ?i + 1 < length (runs ! ?i)")
    case True
    have p: "?i < length ?pos" "?pos ! ?i = pos ! ?i + 1" using i len by simp_all
    then have "take 1 (tail_entries runs ?pos ?i) = [\<lparr>he_key = fst (runs ! ?i ! (pos ! ?i + 1)), he_value = snd (runs ! ?i ! (pos ! ?i + 1)), he_source = ?i\<rparr>]"
      using tail_entries_step [OF p(1), of runs] True by simp
    with True i len show ?thesis by (simp add: heap' heap_push_props)
  next
    case False
    with i len show ?thesis by (simp add: heap' tail_entries_def)
  qed
  ultimately show "mset heap' = mset (heads runs ?pos)" by (simp add: step flip: heads)
  have rem: "mset (remaining runs pos) = {#e#} + mset (remaining runs ?pos)"
  proof -
    have "mset (remaining runs pos) + mset (tail_entries runs ?pos ?i) = mset (remaining runs ?pos) + mset (tail_entries runs pos ?i)"
      unfolding remaining_def by (rule mset_concat_change [OF i]) (simp add: tail_entries_update)
    then show ?thesis by (simp add: step)
  qed
  have "he_rank e \<le> he_rank x" if x: "x \<in> set (remaining runs pos)" for x
  proof -
    obtain h where h: "h \<in> set (heads runs pos)" "he_rank h \<le> he_rank x" using head_minimal [OF runs x] by blast
    then have "h \<in> set (e # heap)" using heads by (metis set_mset_mset)
    with sorted h(2) show ?thesis by auto
  qed
  moreover have "set (remaining runs ?pos) \<subseteq> set (remaining runs pos)" using rem by (metis add_mset_add_single mset_subset_eqD set_mset_mset subsetI union_iff)
  ultimately show "sort_key he_rank (remaining runs pos) = e # sort_key he_rank (remaining runs ?pos)"
    by (intro sort_key_inj_key_eq remaining_rank_inj) (use rem runs in \<open>auto simp: strict_sorted_iff\<close>)
qed

lemma merge_loop_spec:
  assumes "\<forall>r \<in> set runs. sorted_wrt (<) (map fst r)" "length pos = length runs" "sorted (map he_rank heap)"
    and "mset heap = mset (heads runs pos)"
  shows "merge_loop runs pos last_key heap = drain_heap last_key (sort_key he_rank (remaining runs pos))"
  using assms
proof (induction runs pos last_key heap rule: merge_loop.induct)
  case (1 runs pos last_key)
  then have "tail_entries runs pos i = []" if "i < length runs" for i
    using that by (cases "tail_entries runs pos i") (auto simp: heads_def)
  then have "remaining runs pos = []" by (auto simp: remaining_def)
  then show ?case by simp
next
  case (2 runs pos last_key e heap)
  note step = merge_step [OF 2(2-5) refl]
  have "length (pos[he_source e := pos ! he_source e + 1]) = length runs" using 2(3) by simp
  note IH = 2(1) [OF refl refl refl refl refl 2(2) this step(1,2)]
  show ?case unfolding merge_loop.simps(2) Let_def IH step(3) drain_heap.simps(2) by simp
qed

subsection \<open>Draining\<close>

lemma fold_heap_push:
  "mset (fold heap_push es heap) = mset es + mset heap"
  "sorted (map he_rank heap) \<Longrightarrow> sorted (map he_rank (fold heap_push es heap))"
  by (induction es arbitrary: heap) (simp_all add: heap_push_props)

lemma sorted_rank_keys: "sorted (map he_rank es) \<Longrightarrow> sorted (map he_key es)"
  by (induction es) (auto simp: he_rank_def less_eq_prod_def)

lemma drain_heap_map_of:
  "sorted (map he_key es) \<Longrightarrow> \<forall>l. last_key = Some l \<longrightarrow> (\<forall>e \<in> set es. l \<le> he_key e) \<Longrightarrow>
     map_of (drain_heap last_key es) k = (if last_key = Some k then None else map_of (map kv_of es) k)"
proof (induction es arbitrary: last_key)
  case (Cons e es)
  have key: "map_of (drain_heap (Some (he_key e)) es) k = (if he_key e = k then None else map_of (map kv_of es) k)"
    using Cons.IH [of "Some (he_key e)"] Cons.prems(1) by auto
  show ?case
  proof (cases "last_key = Some (he_key e)")
    case True
    with key show ?thesis by (auto simp: kv_of_def [of e])
  next
    case False
    have "k \<notin> he_key ` set (e # es)" if "last_key = Some k"
      using that False Cons.prems by (force simp: image_iff)
    then have "map_of (map kv_of es) k = None" "k \<noteq> he_key e" if "last_key = Some k"
      using that by (auto simp: map_of_eq_None_iff kv_of_def image_iff)
    with False key show ?thesis by (auto simp: kv_of_def [of e])
  qed
qed simp

lemma drain_heap_sorted:
  "sorted (map he_key es) \<Longrightarrow> \<forall>l. last_key = Some l \<longrightarrow> (\<forall>e \<in> set es. l \<le> he_key e) \<Longrightarrow>
     sorted_wrt (<) (map fst (drain_heap last_key es)) \<and> (\<forall>x \<in> set (drain_heap last_key es). last_key \<noteq> Some (fst x) \<and> fst x \<in> he_key ` set es)"
proof (induction es arbitrary: last_key)
  case (Cons e es)
  have IH: "sorted_wrt (<) (map fst (drain_heap (Some (he_key e)) es))"
    "\<forall>x \<in> set (drain_heap (Some (he_key e)) es). he_key e \<noteq> fst x \<and> fst x \<in> he_key ` set es"
    using Cons.IH [of "Some (he_key e)"] Cons.prems(1) by auto
  then have less: "\<forall>x \<in> set (drain_heap (Some (he_key e)) es). he_key e < fst x"
    using Cons.prems(1) by (force simp: order_less_le)
  show ?case
  proof (cases "last_key = Some (he_key e)")
    case True
    with IH show ?thesis by auto
  next
    case False
    have "last_key \<noteq> Some (fst x)" if "x \<in> set (drain_heap (Some (he_key e)) es)" for x
      using less that Cons.prems(2) by (metis leD list.set_intros(1))
    with IH less False show ?thesis by auto
  qed
qed simp

text \<open>Entries in the order of their sources; sorting by rank keeps the first one of every key in front.\<close>

lemma filter_kv: "map_of (map kv_of es) k = map_of (map kv_of (filter (\<lambda>e. he_key e = k) es)) k"
  by (induction es) (auto simp: kv_of_def)

lemma sort_rank_map_of:
  assumes "sorted (map he_source es)"
  shows "map_of (map kv_of (sort_key he_rank es)) k = map_of (map kv_of es) k"
proof -
  have "sorted (map he_rank (filter (\<lambda>e. he_key e = k) es))"
    using assms by (induction es) (auto simp: he_rank_def less_eq_prod_def)
  then have "sort_key he_rank (filter (\<lambda>e. he_key e = k) es) = filter (\<lambda>e. he_key e = k) es" by (rule sort_key_id_if_sorted)
  then show ?thesis using filter_kv [of "sort_key he_rank es" k] filter_kv [of es k] by (simp add: filter_sort)
qed

text \<open>Draining lists of entries, the first list first: sorted, and the first list with a key decides.\<close>

lemma remaining_start:
  "remaining srcs (replicate (length srcs) 0) =
     concat (map (\<lambda>i. map (\<lambda>(k, v). \<lparr>he_key = k, he_value = v, he_source = i\<rparr>) (srcs ! i)) [0..<length srcs])"
  unfolding remaining_def by (intro arg_cong [where f = concat] map_cong refl) (simp add: tail_entries_def)

lemma drain_all:
  shows "map_of (drain_heap None (sort_key he_rank (remaining srcs (replicate (length srcs) 0)))) k = map_of (concat srcs) k"
    and "sorted_wrt (<) (map fst (drain_heap None (sort_key he_rank (remaining srcs (replicate (length srcs) 0)))))"
proof -
  let ?rem = "remaining srcs (replicate (length srcs) 0)"
  have keys: "sorted (map he_key (sort_key he_rank ?rem))" by (rule sorted_rank_keys) simp
  show "sorted_wrt (<) (map fst (drain_heap None (sort_key he_rank ?rem)))" using drain_heap_sorted [OF keys, of None] by simp
  have src: "sorted (map he_source (concat (map (tail_entries srcs pos) [0..<n])))" for n pos
    by (induction n) (auto simp: sorted_append tail_sources, metis tail_entries_source less_imp_le)
  have "map kv_of ?rem = concat (map (\<lambda>i. srcs ! i) [0..<length srcs])"
    unfolding remaining_start map_concat map_map
    by (intro arg_cong [where f = concat] map_cong refl) (simp add: kv_of_def comp_def case_prod_unfold)
  also have "\<dots> = concat srcs" by (simp add: map_nth)
  finally show "map_of (drain_heap None (sort_key he_rank ?rem)) k = map_of (concat srcs) k"
    using drain_heap_map_of [OF keys, of None k] sort_rank_map_of [of ?rem k] src [where n = "length srcs"] by (simp add: remaining_def)
qed

lemma k_way_merge_spec:
  assumes "\<forall>r \<in> set runs. run_wf r"
  shows "map_of (k_way_merge runs) k = map_of (concat (map sr_entries runs)) k" "sorted_wrt (<) (map fst (k_way_merge runs))"
proof -
  let ?rs = "map sr_entries runs"
  have runs: "\<forall>r \<in> set ?rs. sorted_wrt (<) (map fst r)" using assms by (auto simp: run_wf_def)
  have "concat (map (\<lambda>(i, r). case sr_entries r of [] \<Rightarrow> [] | kv # _ \<Rightarrow> [\<lparr>he_key = fst kv, he_value = snd kv, he_source = i\<rparr>])
      (enumerate 0 runs)) = heads ?rs (replicate (length runs) 0)"
    unfolding heads_def enumerate_eq_zip
    by (intro arg_cong [where f = concat] nth_equalityI) (auto simp: tail_entries_def split: list.split)
  then have "k_way_merge runs = drain_heap None (sort_key he_rank (remaining ?rs (replicate (length ?rs) 0)))"
    unfolding k_way_merge_def using merge_loop_spec [OF runs, of "replicate (length runs) 0"] by (simp add: fold_heap_push)
  then show "map_of (k_way_merge runs) k = map_of (concat ?rs) k" "sorted_wrt (<) (map fst (k_way_merge runs))"
    by (simp_all only: drain_all)
qed

lemma bti_wf_merge: "bti_wf b \<Longrightarrow> bti_wf (bti_merge_runs n b)"
  using k_way_merge_spec(2) [of "take n (bti_sorted_runs b)"]
  by (auto simp: bti_wf_def bti_merge_runs_def Let_def run_wf_from_sorted dest: in_set_takeD in_set_dropD)

lemma bti_get_merge:
  assumes "bti_wf b" "n \<le> length (bti_sorted_runs b)"
  shows "bti_get k (bti_merge_runs n b) =
    map_of (bti_memtable b @ concat (map sr_entries (rev (drop n (bti_sorted_runs b)))) @ concat (map sr_entries (take n (bti_sorted_runs b)))) k"
proof -
  have "map_of (k_way_merge (take n (bti_sorted_runs b))) k = map_of (concat (map sr_entries (take n (bti_sorted_runs b)))) k"
    by (rule k_way_merge_spec(1)) (use assms(1) in \<open>auto simp: bti_wf_def dest: in_set_takeD\<close>)
  with assms(2) show ?thesis
    by (simp add: bti_get_spec [OF bti_wf_merge [OF assms(1)]]) (simp add: bti_merge_runs_def sr_from_sorted_def Let_def map_add_def split: option.split)
qed

subsection \<open>Prefix scans\<close>

lemma sr_range_from_spec:
  assumes "run_wf (r :: (key, 'v) SortedRun)"
  shows "sr_range_from p r = filter (\<lambda>x. p \<le> fst x) (sr_entries r)"
proof -
  let ?xs = "sr_entries r"
  have sorted: "sorted_wrt (<) (map fst ?xs)" using assms by (simp add: run_wf_def)
  have n: "search_point (binary_search p ?xs) = length (takeWhile (\<lambda>x. fst x < p) ?xs)"
  proof (cases "binary_search p ?xs")
    case (Inr i)
    then have i: "i < length ?xs" "fst (?xs ! i) = p" using binary_search_spec [OF sorted, of p] by auto
    have "takeWhile (\<lambda>x. fst x < p) ?xs = take i ?xs"
      using sorted i by (intro takeWhile_eq_take_P_nth) (auto simp: sorted_wrt_iff_nth_less)
    with Inr i show ?thesis by (simp add: search_point_def)
  qed (use binary_search_spec [OF sorted, of p] in \<open>auto simp: search_point_def\<close>)
  have "dropWhile (\<lambda>x. fst x < p) xs = filter (\<lambda>x. p \<le> fst x) xs" if "sorted_wrt (<) (map fst xs)" for xs :: "(key \<times> 'v) list"
    using that
  proof (induction xs)
    case (Cons x xs)
    have "filter (\<lambda>y. p \<le> fst y) xs = xs" if "p \<le> fst x" using that Cons.prems by (auto intro!: filter_True)
    with Cons show ?case by auto
  qed simp
  from this [OF sorted] show ?thesis by (simp add: sr_range_from_def n dropWhile_eq_drop)
qed

lemma takeWhile_prefix:
  assumes "sorted_wrt (<) (map fst xs)" "\<forall>x \<in> set xs. p \<le> fst x"
  shows "takeWhile (\<lambda>x. prefix p (fst x)) xs = filter (\<lambda>x. prefix p (fst x)) (xs :: (key \<times> 'v) list)"
  using assms
proof (induction xs)
  case (Cons x xs)
  have "filter (\<lambda>y. prefix p (fst y)) xs = []" if "\<not> prefix p (fst x)"
    using that Cons.prems prefix_upward_gap [of p "fst x"] by (fastforce simp: filter_empty_conv intro: less_imp_le)
  with Cons show ?case by auto
qed simp

definition scan_sources :: "key \<Rightarrow> 'v BalancedTableIndex \<Rightarrow> (key \<times> 'v) list list" where
  "scan_sources p b = map (filter (\<lambda>x. prefix p (fst x))) (bti_memtable b # map sr_entries (bti_sorted_runs b))"

lemma prefix_run_spec:
  assumes "run_wf r"
  shows "prefix_run p i r = prefix_entries p i (filter (\<lambda>x. prefix p (fst x)) (sr_entries r))"
proof (cases "sr_overlaps_prefix p r")
  case False
  then have "filter (\<lambda>x. prefix p (fst x)) (sr_entries r) = []"
    using pruned_run_empty [OF assms False] prefix_imp_le by (fastforce simp: filter_empty_conv)
  with False show ?thesis by (simp add: prefix_run_def prefix_entries_def)
next
  case True
  have sorted: "sorted_wrt (<) (map fst (filter (\<lambda>x. p \<le> fst x) (sr_entries r)))"
    using assms by (simp add: run_wf_def sorted_wrt_map sorted_wrt_filter)
  have "filter (\<lambda>x. prefix p (fst x) \<and> p \<le> fst x) (sr_entries r) = filter (\<lambda>x. prefix p (fst x)) (sr_entries r)"
    by (rule filter_cong) (auto dest: prefix_imp_le)
  with True takeWhile_prefix [OF sorted, of p] show ?thesis
    by (simp add: prefix_run_def sr_range_from_spec [OF assms] case_prod_unfold conj_commute)
qed

lemma scan_entries:
  assumes "bti_wf b"
  shows "prefix_entries p 0 (filter (\<lambda>(k, v). prefix p k) (bti_memtable b)) @
      concat (map (\<lambda>(i, r). prefix_run p (i + 1) r) (enumerate 0 (bti_sorted_runs b))) =
    remaining (scan_sources p b) (replicate (length (scan_sources p b)) 0)"
proof -
  let ?mk = "\<lambda>i. map (\<lambda>(k, v). \<lparr>he_key = k, he_value = v, he_source = i\<rparr>)"
  have len: "[0..<length (scan_sources p b)] = 0 # map Suc [0..<length (bti_sorted_runs b)]"
    by (simp add: scan_sources_def map_Suc_upt upt_conv_Cons del: upt_Suc)
  have runs: "prefix_run p (Suc i) (bti_sorted_runs b ! i) = ?mk (Suc i) (scan_sources p b ! Suc i)" if "i < length (bti_sorted_runs b)" for i
  proof -
    have "run_wf (bti_sorted_runs b ! i)" using assms that by (simp add: bti_wf_def)
    with that show ?thesis by (simp add: prefix_run_spec prefix_entries_def scan_sources_def)
  qed
  have "map (\<lambda>(i, r). prefix_run p (i + 1) r) (enumerate 0 (bti_sorted_runs b)) =
    map (\<lambda>i. ?mk (Suc i) (scan_sources p b ! Suc i)) [0..<length (bti_sorted_runs b)]"
    by (rule nth_equalityI) (use runs in \<open>simp_all add: enumerate_eq_zip\<close>)
  then show ?thesis
    unfolding remaining_start len by (simp add: comp_def prefix_entries_def scan_sources_def case_prod_unfold)
qed

lemma bti_scan_prefix_spec:
  assumes "bti_wf b"
  shows "map_of (bti_scan_prefix p b) k =
      (if prefix p k then map_of (bti_memtable b @ concat (map sr_entries (bti_sorted_runs b))) k else None)"
    and "sorted_wrt (<) (map fst (bti_scan_prefix p b))"
proof -
  let ?rem = "remaining (scan_sources p b) (replicate (length (scan_sources p b)) 0)"
  have "\<forall>r \<in> set (scan_sources p b). distinct (map fst r)"
    using assms by (auto simp: scan_sources_def bti_wf_def dm_wf_def run_wf_def strict_sorted_iff distinct_map_filter)
  then have "sort_key he_rank ?rem = fold heap_push ?rem []"
    by (intro sort_key_inj_key_eq remaining_rank_inj) (simp_all add: fold_heap_push)
  then have scan: "bti_scan_prefix p b = drain_heap None (sort_key he_rank ?rem)"
    by (simp only: bti_scan_prefix_def scan_entries [OF assms])
  show "sorted_wrt (<) (map fst (bti_scan_prefix p b))" unfolding scan by (rule drain_all)
  have fil: "map_of (filter (\<lambda>x. prefix p (fst x)) xs) k = (if prefix p k then map_of xs k else None)" for xs :: "(key \<times> 'a) list"
    by (induction xs) auto
  have "concat (scan_sources p b) = filter (\<lambda>x. prefix p (fst x)) (bti_memtable b @ concat (map sr_entries (bti_sorted_runs b)))"
    by (simp add: scan_sources_def filter_concat comp_def)
  then show "map_of (bti_scan_prefix p b) k =
      (if prefix p k then map_of (bti_memtable b @ concat (map sr_entries (bti_sorted_runs b))) k else None)"
    unfolding scan drain_all by (simp only: fil)
qed

subsection \<open>Properties\<close>

datatype 'v bti_op = BInsert key 'v | BCompact

fun bti_step :: "nat \<Rightarrow> 'v bti_op \<Rightarrow> 'v BalancedTableIndex \<Rightarrow> 'v BalancedTableIndex" where
  "bti_step vsize (BInsert k v) b = bti_insert vsize k v b"
| "bti_step vsize BCompact b = bti_compact_memtable b"

fun map_step :: "'v bti_op \<Rightarrow> (key \<rightharpoonup> 'v) \<Rightarrow> (key \<rightharpoonup> 'v)" where
  "map_step (BInsert k v) m = m(k \<mapsto> v)"
| "map_step BCompact m = m"

lemma bti_step_get: "bti_wf b \<Longrightarrow> bti_wf (bti_step n op b) \<and> (\<lambda>k. bti_get k (bti_step n op b)) = map_step op (\<lambda>k. bti_get k b)"
  by (cases op) (auto simp: bti_wf_ops bti_get_insert bti_get_compact)

lemma bti_run_get:
  "bti_wf b \<Longrightarrow> bti_wf (fold (bti_step n) ops b) \<and> (\<lambda>k. bti_get k (fold (bti_step n) ops b)) = fold map_step ops (\<lambda>k. bti_get k b)"
  by (induction ops arbitrary: b) (simp_all add: bti_step_get)

text \<open>
  C21: The balanced index is a map.  For any sequence of insertions and compactions, looking a key up in
  the unsorted table and then in the sorted runs, newest first, with pruning and binary search, returns
  the value inserted last, as a map does.
\<close>

theorem balanced_index_refines_map:
  "(\<lambda>k. bti_get k (fold (bti_step vsize) ops (bti_new config))) = fold map_step ops Map.empty"
  using bti_run_get [OF bti_wf_ops(1), of vsize ops config] by (simp add: bti_get_new)

text \<open>
  Merging and scanning bring old values back.  In the index reached by any sequence of insertions and
  compactions, a lookup prefers the newest run; but after the oldest \<open>n\<close> runs were merged it prefers the
  oldest of them, and a prefix scan prefers the oldest run of all, so both return overwritten values.
  Scan results are ascending and without repetition.
\<close>

lemma balanced_merge_prefers_oldest:
  assumes "b = fold (bti_step vsize) ops (bti_new config)" "n \<le> length (bti_sorted_runs b)"
  shows "bti_get k b = map_of (bti_memtable b @ concat (map sr_entries (rev (bti_sorted_runs b)))) k \<and>
    bti_get k (bti_merge_runs n b) =
      map_of (bti_memtable b @ concat (map sr_entries (rev (drop n (bti_sorted_runs b)))) @ concat (map sr_entries (take n (bti_sorted_runs b)))) k \<and>
    map_of (bti_scan_prefix p b) k =
      (if prefix p k then map_of (bti_memtable b @ concat (map sr_entries (bti_sorted_runs b))) k else None) \<and>
    sorted_wrt (<) (map fst (bti_scan_prefix p b))"
proof -
  have "bti_wf b" using bti_run_get [OF bti_wf_ops(1), of vsize ops config] assms(1) by simp
  then show ?thesis using bti_get_spec bti_get_merge [OF _ assms(2)] bti_scan_prefix_spec by blast
qed

end
