(* ===== verification/Cdc.thy ===== *)
theory Cdc
  imports Prelude
begin

text \<open>
  Change data capture, \<^verbatim>\<open>sochdb-storage/src/cdc.rs\<close>: a ring buffer of events (\<^verbatim>\<open>CdcLog\<close>), the emitter that numbers the events of a
  transaction and hands them over when it has committed (\<^verbatim>\<open>CdcEmitter\<close>), and subscribers that follow the buffer by sequence number
  (\<^verbatim>\<open>CdcSubscriber\<close>).  The operations are functions on the log; any number of emitters and subscribers sharing one log is a step relation
  with one rule per call.  The clock is an argument.
\<close>

subsection \<open>Events, errors, configuration\<close>

datatype CdcOperation =
    CdcInsert bytes
  | CdcUpdate "bytes option" bytes
  | CdcDelete "bytes option"
  | CdcSchemaChange string

record CdcEvent =
  ev_sequence :: u64
  ev_timestamp_us :: u64
  ev_txn_id :: u64
  ev_table :: string
  ev_key :: bytes
  ev_operation :: CdcOperation

datatype CdcError = Overrun u64 u64 | CdcShutdown | CdcTimeout

definition cdc_error_text :: "CdcError \<Rightarrow> string" where
  "cdc_error_text e =
     (case e of
        Overrun requested oldest_available \<Rightarrow>
          ''CDC overrun: requested seq '' @ show_nat (unat requested) @ '' but oldest available is '' @ show_nat (unat oldest_available)
      | CdcShutdown \<Rightarrow> ''CDC engine shut down''
      | CdcTimeout \<Rightarrow> ''Timed out waiting for CDC events'')"

record CdcConfig =
  cc_capacity :: nat
  cc_enabled :: bool

definition cdc_config_default :: CdcConfig where
  "cdc_config_default = \<lparr>cc_capacity = 65536, cc_enabled = True\<rparr>"

subsection \<open>The ring buffer\<close>

record CdcLog =
  cdc_buffer :: "CdcEvent list"
  cdc_capacity :: nat
  cdc_next_seq :: u64
  cdc_ready :: bool
  cdc_running :: u64

definition cdc_new :: "CdcConfig \<Rightarrow> CdcLog" where
  "cdc_new config = \<lparr>cdc_buffer = [], cdc_capacity = cc_capacity config, cdc_next_seq = 1, cdc_ready = False, cdc_running = 1\<rparr>"

text \<open>The body of the loop in \<^verbatim>\<open>emit\<close>: \<^verbatim>\<open>pop_front\<close> of an empty buffer does nothing.\<close>

definition ring_push :: "nat \<Rightarrow> CdcEvent \<Rightarrow> CdcEvent list \<Rightarrow> CdcEvent list" where
  "ring_push capacity event buf = (if length buf \<ge> capacity then tl buf else buf) @ [event]"

definition cdc_emit :: "CdcEvent list \<Rightarrow> CdcLog \<Rightarrow> CdcLog" where
  "cdc_emit events l =
     (if cdc_running l = 0 then l
      else if events = [] then l
      else l\<lparr>cdc_buffer := fold (ring_push (cdc_capacity l)) events (cdc_buffer l), cdc_ready := True\<rparr>)"

definition cdc_emit_one :: "CdcEvent \<Rightarrow> CdcLog \<Rightarrow> CdcLog" where
  "cdc_emit_one event l =
     (if cdc_running l = 0 then l
      else l\<lparr>cdc_buffer := ring_push (cdc_capacity l) event (cdc_buffer l), cdc_ready := True\<rparr>)"

definition next_sequence :: "CdcLog \<Rightarrow> CdcLog \<times> u64" where
  "next_sequence l = (l\<lparr>cdc_next_seq := cdc_next_seq l + 1\<rparr>, cdc_next_seq l)"

definition current_sequence :: "CdcLog \<Rightarrow> u64" where
  "current_sequence l = (if cdc_next_seq l = 0 then 0 else cdc_next_seq l - 1)"

definition read_from :: "u64 \<Rightarrow> nat \<Rightarrow> CdcLog \<Rightarrow> CdcError + CdcEvent list" where
  "read_from from_seq max_events l =
     (let buf = cdc_buffer l
      in if buf = [] then Inr []
         else let oldest_seq = ev_sequence (hd buf); newest_seq = ev_sequence (last buf)
              in if from_seq < oldest_seq then Inl (Overrun from_seq oldest_seq)
                 else if from_seq > newest_seq then Inr []
                 else let start_idx = length (takeWhile (\<lambda>e. \<not> ev_sequence e \<ge> from_seq) buf)
                      in Inr (take max_events (drop start_idx buf)))"

definition oldest_sequence :: "CdcLog \<Rightarrow> u64" where
  "oldest_sequence l = (case cdc_buffer l of [] \<Rightarrow> 0 | e # _ \<Rightarrow> ev_sequence e)"

definition cdc_len :: "CdcLog \<Rightarrow> nat" where
  "cdc_len l = length (cdc_buffer l)"

definition cdc_is_empty :: "CdcLog \<Rightarrow> bool" where
  "cdc_is_empty l \<longleftrightarrow> cdc_buffer l = []"

definition cdc_shutdown :: "CdcLog \<Rightarrow> CdcLog" where
  "cdc_shutdown l = l\<lparr>cdc_running := 0, cdc_ready := True\<rparr>"

text \<open>
  \<^verbatim>\<open>wait_for_events\<close> looks at the log once, and then once in each round of its loop; in between other threads change it.  A round is what it
  finds: the log at its head, the time elapsed, the log when it wakes up, and whether it woke by the timeout.  \<^const>\<open>None\<close>: it still waits
  after the given rounds.  The log returned is the one at the moment of the answer.
\<close>

record wait_round =
  wr_head :: CdcLog
  wr_elapsed :: nat
  wr_woken :: CdcLog
  wr_timed_out :: bool

fun wait_rounds :: "u64 \<Rightarrow> nat \<Rightarrow> nat \<Rightarrow> wait_round list \<Rightarrow> (CdcLog \<times> (CdcError + CdcEvent list)) option" where
  "wait_rounds after_seq max_events timeout [] = None"
| "wait_rounds after_seq max_events timeout (r # rs) =
     (if cdc_running (wr_head r) = 0 then Some (wr_head r, Inl CdcShutdown)
      else if timeout - wr_elapsed r = 0 then Some (wr_head r, Inl CdcTimeout)
      else case read_from (after_seq + 1) max_events (wr_woken r) of
             Inl e \<Rightarrow> Some (wr_woken r, Inl e)
           | Inr events \<Rightarrow>
               if events \<noteq> [] then Some ((wr_woken r)\<lparr>cdc_ready := False\<rparr>, Inr events)
               else if wr_timed_out r then Some (wr_woken r, Inl CdcTimeout)
               else wait_rounds after_seq max_events timeout rs)"

definition wait_for_events ::
  "u64 \<Rightarrow> nat \<Rightarrow> nat \<Rightarrow> CdcLog \<Rightarrow> wait_round list \<Rightarrow> (CdcLog \<times> (CdcError + CdcEvent list)) option" where
  "wait_for_events after_seq max_events timeout l rounds =
     (if cdc_running l = 0 then Some (l, Inl CdcShutdown)
      else case read_from (after_seq + 1) max_events l of
             Inl e \<Rightarrow> Some (l, Inl e)
           | Inr events \<Rightarrow> if events \<noteq> [] then Some (l, Inr events) else wait_rounds after_seq max_events timeout rounds)"

subsection \<open>Emitters\<close>

record CdcEmitter =
  em_txn_id :: u64
  em_pending :: "CdcEvent list"

definition em_new :: "u64 \<Rightarrow> CdcEmitter" where
  "em_new txn_id = \<lparr>em_txn_id = txn_id, em_pending = []\<rparr>"

definition em_push :: "u64 \<Rightarrow> string \<Rightarrow> bytes \<Rightarrow> CdcOperation \<Rightarrow> CdcLog \<Rightarrow> CdcEmitter \<Rightarrow> CdcLog \<times> CdcEmitter" where
  "em_push now_us tbl key operation l em =
     (case next_sequence l of
        (l', seq) \<Rightarrow>
          (l', em\<lparr>em_pending := em_pending em @
             [\<lparr>ev_sequence = seq, ev_timestamp_us = now_us, ev_txn_id = em_txn_id em, ev_table = tbl, ev_key = key, ev_operation = operation\<rparr>]\<rparr>))"

definition em_insert :: "u64 \<Rightarrow> string \<Rightarrow> bytes \<Rightarrow> bytes \<Rightarrow> CdcLog \<Rightarrow> CdcEmitter \<Rightarrow> CdcLog \<times> CdcEmitter" where
  "em_insert now_us tbl key v = em_push now_us tbl key (CdcInsert v)"

definition em_update :: "u64 \<Rightarrow> string \<Rightarrow> bytes \<Rightarrow> bytes \<Rightarrow> CdcLog \<Rightarrow> CdcEmitter \<Rightarrow> CdcLog \<times> CdcEmitter" where
  "em_update now_us tbl key new_value = em_push now_us tbl key (CdcUpdate None new_value)"

definition em_delete :: "u64 \<Rightarrow> string \<Rightarrow> bytes \<Rightarrow> CdcLog \<Rightarrow> CdcEmitter \<Rightarrow> CdcLog \<times> CdcEmitter" where
  "em_delete now_us tbl key = em_push now_us tbl key (CdcDelete None)"

definition em_schema_change :: "u64 \<Rightarrow> string \<Rightarrow> string \<Rightarrow> CdcLog \<Rightarrow> CdcEmitter \<Rightarrow> CdcLog \<times> CdcEmitter" where
  "em_schema_change now_us tbl ddl = em_push now_us tbl [] (CdcSchemaChange ddl)"

text \<open>\<^verbatim>\<open>flush\<close> and \<^verbatim>\<open>discard\<close> consume the emitter: only the log is left.\<close>

definition em_flush :: "CdcEmitter \<Rightarrow> CdcLog \<Rightarrow> CdcLog" where
  "em_flush em l = (if em_pending em \<noteq> [] then cdc_emit (em_pending em) l else l)"

definition em_discard :: "CdcEmitter \<Rightarrow> CdcLog \<Rightarrow> CdcLog" where
  "em_discard em l = l"

definition em_pending_count :: "CdcEmitter \<Rightarrow> nat" where
  "em_pending_count em = length (em_pending em)"

subsection \<open>Subscribers\<close>

record CdcSubscriber =
  sub_last_seq :: u64
  sub_table_filter :: "string list option"

definition sub_new :: "u64 \<Rightarrow> CdcSubscriber" where
  "sub_new from_seq = \<lparr>sub_last_seq = from_seq, sub_table_filter = None\<rparr>"

definition sub_from_latest :: "CdcLog \<Rightarrow> CdcSubscriber" where
  "sub_from_latest l = \<lparr>sub_last_seq = current_sequence l, sub_table_filter = None\<rparr>"

definition sub_with_tables :: "string list \<Rightarrow> CdcSubscriber \<Rightarrow> CdcSubscriber" where
  "sub_with_tables tables s = s\<lparr>sub_table_filter := Some tables\<rparr>"

definition filter_events :: "CdcSubscriber \<Rightarrow> CdcEvent list \<Rightarrow> CdcEvent list" where
  "filter_events s events =
     (case sub_table_filter s of
        Some tables \<Rightarrow> filter (\<lambda>e. list_ex (\<lambda>t. t = ev_table e) tables) events
      | None \<Rightarrow> events)"

text \<open>The common tail of \<^verbatim>\<open>poll\<close> and \<^verbatim>\<open>next_batch\<close>.\<close>

definition sub_take :: "CdcEvent list \<Rightarrow> CdcSubscriber \<Rightarrow> CdcSubscriber \<times> CdcEvent list" where
  "sub_take events s =
     (let filtered = filter_events s events
      in (if filtered = [] then s else s\<lparr>sub_last_seq := ev_sequence (last filtered)\<rparr>, filtered))"

definition sub_poll :: "nat \<Rightarrow> CdcLog \<Rightarrow> CdcSubscriber \<Rightarrow> CdcSubscriber \<times> (CdcError + CdcEvent list)" where
  "sub_poll max_events l s =
     (case read_from (sub_last_seq s + 1) max_events l of
        Inl e \<Rightarrow> (s, Inl e)
      | Inr events \<Rightarrow> (case sub_take events s of (s', filtered) \<Rightarrow> (s', Inr filtered)))"

definition sub_next_batch ::
  "nat \<Rightarrow> nat \<Rightarrow> CdcLog \<Rightarrow> wait_round list \<Rightarrow> CdcSubscriber \<Rightarrow> (CdcLog \<times> CdcSubscriber \<times> (CdcError + CdcEvent list)) option" where
  "sub_next_batch max_events timeout l rounds s =
     (case wait_for_events (sub_last_seq s) max_events timeout l rounds of
        None \<Rightarrow> None
      | Some (l', Inl e) \<Rightarrow> Some (l', s, Inl e)
      | Some (l', Inr events) \<Rightarrow> (case sub_take events s of (s', filtered) \<Rightarrow> Some (l', s', Inr filtered)))"

definition sub_position :: "CdcSubscriber \<Rightarrow> u64" where
  "sub_position s = sub_last_seq s"

subsection \<open>Emitters and subscribers sharing a log\<close>

datatype cdc_call = CallInsert string bytes bytes | CallUpdate string bytes bytes | CallDelete string bytes | CallSchema string string

fun em_call :: "u64 \<Rightarrow> cdc_call \<Rightarrow> CdcLog \<Rightarrow> CdcEmitter \<Rightarrow> CdcLog \<times> CdcEmitter" where
  "em_call now (CallInsert t k v) = em_insert now t k v"
| "em_call now (CallUpdate t k v) = em_update now t k v"
| "em_call now (CallDelete t k) = em_delete now t k"
| "em_call now (CallSchema t ddl) = em_schema_change now t ddl"

text \<open>
  \<open>sy_emitted\<close> (the events that ever reached the buffer, in that order), \<open>sy_start\<close> (where a subscriber started) and \<open>sy_got\<close> (what its polls
  have returned) are kept for the statements only.
\<close>

record cdc_system =
  sy_log :: CdcLog
  sy_open :: "nat \<Rightarrow> CdcEmitter option"
  sy_sub :: "nat \<Rightarrow> CdcSubscriber option"
  sy_emitted :: "CdcEvent list"
  sy_start :: "nat \<Rightarrow> u64"
  sy_got :: "nat \<Rightarrow> CdcEvent list"

definition cdc_start :: "CdcConfig \<Rightarrow> cdc_system" where
  "cdc_start config =
     \<lparr>sy_log = cdc_new config, sy_open = \<lambda>_. None, sy_sub = \<lambda>_. None, sy_emitted = [], sy_start = \<lambda>_. 0, sy_got = \<lambda>_. []\<rparr>"

definition answered :: "CdcError + CdcEvent list \<Rightarrow> CdcEvent list" where
  "answered r = (case r of Inl _ \<Rightarrow> [] | Inr events \<Rightarrow> events)"

inductive cdc_step :: "cdc_system \<Rightarrow> cdc_system \<Rightarrow> bool" where
  c_open: "sy_open s i = None \<Longrightarrow> cdc_step s (s\<lparr>sy_open := (sy_open s)(i \<mapsto> em_new t)\<rparr>)"
| c_record: "sy_open s i = Some em \<Longrightarrow> em_call now c (sy_log s) em = (l, em') \<Longrightarrow>
    cdc_step s (s\<lparr>sy_log := l, sy_open := (sy_open s)(i \<mapsto> em')\<rparr>)"
| c_flush: "sy_open s i = Some em \<Longrightarrow>
    cdc_step s (s\<lparr>sy_log := em_flush em (sy_log s), sy_open := (sy_open s)(i := None),
                  sy_emitted := sy_emitted s @ (if cdc_running (sy_log s) = 0 then [] else em_pending em)\<rparr>)"
| c_discard: "sy_open s i = Some em \<Longrightarrow> cdc_step s (s\<lparr>sy_log := em_discard em (sy_log s), sy_open := (sy_open s)(i := None)\<rparr>)"
| c_subscribe: "sy_sub s k = None \<Longrightarrow> sub \<in> {sub_new q, sub_from_latest (sy_log s)} \<Longrightarrow> sub' \<in> {sub, sub_with_tables tables sub} \<Longrightarrow>
    cdc_step s (s\<lparr>sy_sub := (sy_sub s)(k \<mapsto> sub'), sy_start := (sy_start s)(k := sub_last_seq sub')\<rparr>)"
| c_poll: "sy_sub s k = Some sub \<Longrightarrow> sub_poll n (sy_log s) sub = (sub', r) \<Longrightarrow>
    cdc_step s (s\<lparr>sy_sub := (sy_sub s)(k \<mapsto> sub'), sy_got := (sy_got s)(k := sy_got s k @ answered r)\<rparr>)"
| c_woken: "cdc_step s (s\<lparr>sy_log := (sy_log s)\<lparr>cdc_ready := False\<rparr>\<rparr>)"
| c_shutdown: "cdc_step s (s\<lparr>sy_log := cdc_shutdown (sy_log s)\<rparr>)"

definition cdc_reach :: "CdcConfig \<Rightarrow> cdc_system \<Rightarrow> bool" where
  "cdc_reach config s \<longleftrightarrow> cdc_step\<^sup>*\<^sup>* (cdc_start config) s"

subsection \<open>Strictly sorted lists\<close>

text \<open>The lists below are sorted strictly by a number \<open>f\<close> of their elements.\<close>

lemma sorted_dropWhile:
  fixes f :: "'a \<Rightarrow> 'b::linorder"
  assumes "sorted_wrt (<) (map f xs)"
  shows "dropWhile (\<lambda>x. \<not> f x \<ge> q) xs = filter (\<lambda>x. f x \<ge> q) xs"
  using assms
proof (induction xs)
  case (Cons x xs)
  have "filter (\<lambda>x. f x \<ge> q) xs = xs" if "f x \<ge> q"
    using Cons.prems that by (auto intro!: filter_True)
  then show ?case using Cons by auto
qed simp

lemma sorted_split_at:
  fixes f :: "'a \<Rightarrow> 'b::linorder"
  assumes "sorted_wrt (<) (map f xs)" "p \<le> q" "q \<le> r"
  shows "filter (\<lambda>x. p < f x \<and> f x \<le> r) xs = filter (\<lambda>x. p < f x \<and> f x \<le> q) xs @ filter (\<lambda>x. q < f x \<and> f x \<le> r) xs"
  using assms
proof (induction xs)
  case (Cons x xs)
  have "filter (\<lambda>x. p < f x \<and> f x \<le> q) xs = []" if "q < f x"
    using Cons.prems(1) that by (auto simp: filter_empty_conv)
  then show ?case using Cons by auto
qed simp

lemma sorted_prefix_by_last:
  fixes f :: "'a \<Rightarrow> 'b::linorder"
  assumes so: "sorted_wrt (<) (map f xs)" and M: "M = filter P (take n xs)" "M \<noteq> []"
  shows "filter (\<lambda>x. P x \<and> f x \<le> f (last M)) xs = M"
proof -
  have so': "sorted_wrt (<) (map f (take n xs))" "\<And>x y. x \<in> set (take n xs) \<Longrightarrow> y \<in> set (drop n xs) \<Longrightarrow> f x < f y"
    using so append_take_drop_id[of n xs] sorted_wrt_append[of "(<)" "map f (take n xs)" "map f (drop n xs)"]
    by (auto simp flip: map_append)
  have "sorted_wrt (<) (map f M)" using so'(1) unfolding M(1) sorted_wrt_map by (rule sorted_wrt_filter)
  then have "\<forall>x\<in>set M. f x \<le> f (last M)"
    using M(2) by (induction M rule: rev_induct) (auto simp: sorted_wrt_append)
  then have "filter (\<lambda>x. P x \<and> f x \<le> f (last M)) (take n xs) = M"
    unfolding M(1) by (intro filter_cong) auto
  moreover have "last M \<in> set (take n xs)" using last_in_set[OF M(2)] M(1) by auto
  then have "filter (\<lambda>x. P x \<and> f x \<le> f (last M)) (drop n xs) = []"
    using so'(2) by (fastforce simp: filter_empty_conv)
  ultimately show ?thesis using filter_append[of _ "take n xs" "drop n xs"] by (metis append_Nil2 append_take_drop_id)
qed

lemma dropped_hd:
  assumes "sorted_wrt (<) (map f xs)" "drop m xs \<noteq> []" "x \<in> set (take m xs)"
  shows "f x < f (hd (drop m xs))"
proof -
  have "sorted_wrt (<) (map f (take m xs) @ map f (drop m xs))" using assms(1) by (simp flip: map_append)
  then show ?thesis using assms(2,3) by (simp add: sorted_wrt_append)
qed

subsection \<open>The buffer holds the latest events\<close>

text \<open>A capacity of zero still keeps one event.\<close>

definition ring_view :: "nat \<Rightarrow> CdcEvent list \<Rightarrow> CdcEvent list" where
  "ring_view capacity history = drop (length history - max 1 capacity) history"

lemma ring_push_view: "ring_push c e (ring_view c h) = ring_view c (h @ [e])"
proof (cases "max 1 c \<le> length h")
  case True
  define k where "k = length h - max 1 c"
  have k: "Suc (length h) - max 1 c = Suc k" "Suc k \<le> length h" "length h - k = max 1 c"
    using True by (auto simp: k_def)
  then have "ring_push c e (drop k h) = drop (Suc k) h @ [e]" by (simp add: ring_push_def drop_Suc tl_drop)
  also have "\<dots> = drop (Suc k) (h @ [e])" using k(2) by simp
  finally show ?thesis using k(1) by (simp add: ring_view_def k_def)
next
  case False
  then show ?thesis by (cases c; cases h) (auto simp: ring_push_def ring_view_def)
qed

lemma ring_push_all: "fold (ring_push c) es (ring_view c h) = ring_view c (h @ es)"
  by (induction es arbitrary: h) (simp_all add: ring_push_view)

lemma em_call_log: "em_call now c l em = (l', em') \<Longrightarrow> l' = l\<lparr>cdc_next_seq := cdc_next_seq l + 1\<rparr>"
  by (cases c) (auto simp: em_insert_def em_update_def em_delete_def em_schema_change_def em_push_def next_sequence_def)

lemma em_call_pending: "em_call now c l em = (l', em') \<Longrightarrow> \<exists>e. em_pending em' = em_pending em @ [e] \<and> ev_sequence e = cdc_next_seq l"
  by (cases c) (auto simp: em_insert_def em_update_def em_delete_def em_schema_change_def em_push_def next_sequence_def)

lemma em_flush_buffer:
  assumes "cdc_buffer l = ring_view (cdc_capacity l) h"
  shows "cdc_buffer (em_flush em l) = ring_view (cdc_capacity l) (h @ (if cdc_running l = 0 then [] else em_pending em))"
  using assms by (simp add: em_flush_def cdc_emit_def ring_push_all)

lemma em_flush_fields [simp]: "cdc_capacity (em_flush em l) = cdc_capacity l" "cdc_next_seq (em_flush em l) = cdc_next_seq l"
  by (simp_all add: em_flush_def cdc_emit_def)

lemma em_discard_log [simp]: "em_discard em l = l"
  by (simp add: em_discard_def)

lemma cdc_ring_step:
  assumes "cdc_step s s'" "cdc_buffer (sy_log s) = ring_view (cdc_capacity (sy_log s)) (sy_emitted s)"
  shows "cdc_buffer (sy_log s') = ring_view (cdc_capacity (sy_log s')) (sy_emitted s') \<and> cdc_capacity (sy_log s') = cdc_capacity (sy_log s)"
  using assms by (cases rule: cdc_step.cases) (auto simp: em_flush_buffer cdc_shutdown_def dest: em_call_log)

lemma cdc_ring:
  assumes "cdc_reach config s"
  shows "cdc_buffer (sy_log s) = ring_view (cc_capacity config) (sy_emitted s) \<and> cdc_capacity (sy_log s) = cc_capacity config"
  using assms unfolding cdc_reach_def
proof induction
  case base
  show ?case by (simp add: cdc_start_def cdc_new_def ring_view_def)
next
  case (step s s')
  then show ?case using cdc_ring_step[of s s'] by simp
qed

subsection \<open>What a poll returns\<close>

text \<open>Events reach the buffer in the order of their numbers, and the counter has not wrapped around.\<close>

definition in_order :: "CdcEvent list \<Rightarrow> bool" where
  "in_order h \<longleftrightarrow> sorted_wrt (<) (0 # map ev_sequence h)"

lemma in_order_sorted: "in_order h \<Longrightarrow> sorted_wrt (<) (map ev_sequence h)"
  by (simp add: in_order_def)

lemma in_order_append: "in_order (h @ h') \<Longrightarrow> in_order h"
  by (auto simp: in_order_def sorted_wrt_append)

lemma next_number:
  assumes "(p :: u64) + 1 \<noteq> 0"
  shows "p + 1 \<le> x \<longleftrightarrow> p < x"
proof -
  have "unat (p + 1) = Suc (unat p)" using unatSuc[of p] assms by (simp add: add.commute)
  then show ?thesis by (simp add: word_le_nat_alt word_less_nat_alt Suc_le_eq)
qed

lemma number_below:
  assumes "(p :: u64) < x"
  shows "p + 1 \<noteq> 0"
proof
  assume "p + 1 = 0"
  then have "p = - 1" by (simp add: eq_neg_iff_add_eq_0)
  then show False using assms word_order.extremum[of x] by (simp add: not_le[symmetric] del: word_order.extremum)
qed

lemma ring_view_parts: "h = take (length h - max 1 c) h @ ring_view c h"
  by (simp add: ring_view_def)

lemma ring_view_Nil [simp]: "ring_view c h = [] \<longleftrightarrow> h = []"
proof -
  have "length h - max (Suc 0) c < length h" if "h \<noteq> []" using that by (cases h) auto
  then show ?thesis unfolding ring_view_def drop_eq_Nil by (cases "h = []") (simp_all add: not_le)
qed

lemma ring_view_last: "h \<noteq> [] \<Longrightarrow> last (ring_view c h) = last h"
  by (auto simp: ring_view_def last_drop)

lemma read_from_view:
  assumes h: "in_order h" and b: "cdc_buffer l = ring_view c h"
    and r: "read_from (p + 1) n l = Inr evs"
  shows "evs = take n (filter (\<lambda>e. p < ev_sequence e) h)"
proof (cases "h = []")
  case True
  then show ?thesis using b r by (simp add: read_from_def)
next
  case False
  define q where "q = p + 1"
  let ?old = "take (length h - max 1 c) h" and ?buf = "ring_view c h"
  have so: "sorted_wrt (<) (map ev_sequence h)" using h by (rule in_order_sorted)
  have ne: "?buf \<noteq> []" and le: "ev_sequence (hd ?buf) \<le> q"
    using r b False by (auto simp: read_from_def Let_def q_def not_less split: if_splits)
  have "hd ?buf \<in> set h" using hd_in_set[OF ne] by (auto simp: ring_view_def dest: in_set_dropD)
  then have "q \<noteq> 0" using h le by (auto simp: in_order_def)
  then have pq: "\<And>x. p < x \<longleftrightarrow> q \<le> x" using next_number[of p] by (simp add: q_def)
  have "filter (\<lambda>e. ev_sequence e \<ge> q) ?old = []"
    using dropped_hd[OF so, of "length h - max 1 c"] ne le
    by (fastforce simp: ring_view_def filter_empty_conv)
  then have f: "filter (\<lambda>e. ev_sequence e \<ge> q) h = filter (\<lambda>e. ev_sequence e \<ge> q) ?buf"
    by (subst ring_view_parts[of h c]) (simp del: append_take_drop_id)
  show ?thesis
  proof (cases "q > ev_sequence (last ?buf)")
    case True
    have "ev_sequence x \<le> ev_sequence (last h)" if "x \<in> set h" for x
      using so that by (induction h rule: rev_induct) (auto simp: sorted_wrt_append)
    then have "filter (\<lambda>e. ev_sequence e \<ge> q) h = []"
      using True False by (fastforce simp: ring_view_last filter_empty_conv)
    then show ?thesis using True r b ne le by (simp add: read_from_def Let_def q_def pq[unfolded q_def] split: if_splits)
  next
    case False
    have "sorted_wrt (<) (map ev_sequence ?buf)"
      using so ring_view_parts[of h c] by (metis map_append sorted_wrt_append)
    then have "drop (length (takeWhile (\<lambda>e. \<not> ev_sequence e \<ge> q) ?buf)) ?buf = filter (\<lambda>e. ev_sequence e \<ge> q) ?buf"
      by (simp add: sorted_dropWhile flip: dropWhile_eq_drop)
    then show ?thesis using False r b ne le f by (simp add: read_from_def Let_def q_def[symmetric] pq split: if_splits)
  qed
qed

lemma read_from_error: "read_from q n l = Inl e \<Longrightarrow> e = Overrun q (oldest_sequence l) \<and> q < oldest_sequence l"
  by (auto simp: read_from_def Let_def oldest_sequence_def split: if_splits list.splits)

lemma filter_events_filter:
  "filter_events s events = filter (\<lambda>e. case sub_table_filter s of None \<Rightarrow> True | Some tables \<Rightarrow> ev_table e \<in> set tables) events"
  by (auto simp: filter_events_def list_ex_iff split: option.split)

lemma filter_events_append [simp]: "filter_events s (xs @ ys) = filter_events s xs @ filter_events s ys"
  by (simp add: filter_events_filter)

lemma filter_events_moved [simp]: "filter_events (s\<lparr>sub_last_seq := q\<rparr>) = filter_events s"
  by (simp add: filter_events_def fun_eq_iff)

text \<open>The part of a history between two positions that a subscriber asks for.\<close>

definition asked_between :: "CdcSubscriber \<Rightarrow> u64 \<Rightarrow> u64 \<Rightarrow> CdcEvent list \<Rightarrow> CdcEvent list" where
  "asked_between sub p q h = filter_events sub (filter (\<lambda>e. p < ev_sequence e \<and> ev_sequence e \<le> q) h)"

lemma sub_take_exact:
  assumes h: "in_order h" and le: "p \<le> sub_last_seq sub"
    and evs: "evs = take n (filter (\<lambda>e. sub_last_seq sub < ev_sequence e) h)"
    and t: "sub_take evs sub = (sub', got)"
  shows "sub_last_seq sub \<le> sub_last_seq sub' \<and> sub_table_filter sub' = sub_table_filter sub \<and>
         asked_between sub p (sub_last_seq sub') h = asked_between sub p (sub_last_seq sub) h @ got"
proof (cases "filter_events sub evs = []")
  case True
  then show ?thesis using t by (auto simp: sub_take_def)
next
  case False
  define xs where "xs = filter (\<lambda>e. sub_last_seq sub < ev_sequence e) h"
  let ?q = "sub_last_seq sub" and ?q' = "sub_last_seq sub'"
  let ?P = "\<lambda>e. case sub_table_filter sub of None \<Rightarrow> True | Some tables \<Rightarrow> ev_table e \<in> set tables"
  have so: "sorted_wrt (<) (map ev_sequence h)" using h by (rule in_order_sorted)
  have "got = filter_events sub evs" and sub': "sub' = sub\<lparr>sub_last_seq := ev_sequence (last got)\<rparr>"
    using t False by (auto simp: sub_take_def Let_def)
  then have got: "got = filter ?P (take n xs)" "got \<noteq> []"
    using False by (simp_all only: evs xs_def filter_events_filter not_False_eq_True)
  have so_xs: "sorted_wrt (<) (map ev_sequence xs)"
    using so unfolding xs_def sorted_wrt_map by (rule sorted_wrt_filter)
  have "last got \<in> set xs" using last_in_set[OF got(2)] got(1) by (auto dest: in_set_takeD)
  then have q: "?q < ?q'" by (simp add: sub' xs_def)
  have "filter (\<lambda>e. ?P e \<and> ev_sequence e \<le> ?q') xs = got"
    using sorted_prefix_by_last[OF so_xs got] by (simp add: sub')
  then have new: "filter_events sub (filter (\<lambda>e. ?q < ev_sequence e \<and> ev_sequence e \<le> ?q') h) = got"
    by (simp add: filter_events_filter xs_def conj_ac)
  have parts: "filter (\<lambda>e. p < ev_sequence e \<and> ev_sequence e \<le> ?q') h =
        filter (\<lambda>e. p < ev_sequence e \<and> ev_sequence e \<le> ?q) h @ filter (\<lambda>e. ?q < ev_sequence e \<and> ev_sequence e \<le> ?q') h"
    using so le less_imp_le[OF q] by (rule sorted_split_at)
  have "asked_between sub p ?q' h = asked_between sub p ?q h @ got"
    unfolding asked_between_def by (simp only: parts filter_events_append new)
  moreover have "sub_table_filter sub' = sub_table_filter sub" by (simp add: sub')
  ultimately show ?thesis using less_imp_le[OF q] by blast
qed

lemma sub_poll_error: "read_from (sub_last_seq sub + 1) n l = Inl e \<Longrightarrow> sub_poll n l sub = (sub', r) \<Longrightarrow> sub' = sub \<and> r = Inl e"
  by (simp add: sub_poll_def)

lemma sub_poll_exact:
  assumes h: "in_order h" and b: "cdc_buffer l = ring_view c h" and le: "p \<le> sub_last_seq sub"
    and t: "sub_poll n l sub = (sub', r)"
  shows "sub_last_seq sub \<le> sub_last_seq sub' \<and> sub_table_filter sub' = sub_table_filter sub \<and>
         asked_between sub p (sub_last_seq sub') h = asked_between sub p (sub_last_seq sub) h @ answered r"
proof (cases "read_from (sub_last_seq sub + 1) n l")
  case (Inl e)
  then show ?thesis using sub_poll_error[OF Inl t] by (simp add: answered_def)
next
  case (Inr evs)
  then obtain got where "sub_take evs sub = (sub', got)" "r = Inr got" using t by (auto simp: sub_poll_def split: prod.splits)
  then show ?thesis using sub_take_exact[OF h le read_from_view[OF h b Inr]] by (simp add: answered_def)
qed

subsection \<open>Exactly once\<close>

lemma asked_same_filter: "sub_table_filter sub' = sub_table_filter sub \<Longrightarrow> asked_between sub' = asked_between sub"
  by (simp add: asked_between_def filter_events_def fun_eq_iff)

lemma asked_nothing [simp]: "asked_between sub p p h = []"
  by (auto simp: asked_between_def filter_events_filter filter_empty_conv)

lemma sub_poll_position:
  assumes "sub_poll n l sub = (sub', r)"
  shows "sub_last_seq sub' = sub_last_seq sub \<or> (\<exists>e\<in>set (cdc_buffer l). ev_sequence e = sub_last_seq sub')"
proof (cases "read_from (sub_last_seq sub + 1) n l")
  case (Inl e)
  then show ?thesis using assms by (simp add: sub_poll_def)
next
  case (Inr evs)
  have "set evs \<subseteq> set (cdc_buffer l)"
    using Inr by (auto simp: read_from_def Let_def split: if_splits dest!: in_set_takeD in_set_dropD)
  moreover have "last (filter_events sub evs) \<in> set evs" if "filter_events sub evs \<noteq> []"
    using last_in_set[OF that] by (auto simp: filter_events_filter)
  ultimately show ?thesis using assms Inr by (auto simp: sub_poll_def sub_take_def Let_def split: if_splits)
qed

text \<open>What a subscriber has got so far, and where it stands.\<close>

definition follows :: "cdc_system \<Rightarrow> nat \<Rightarrow> bool" where
  "follows s k \<longleftrightarrow> (case sy_sub s k of
     None \<Rightarrow> sy_got s k = []
   | Some sub \<Rightarrow>
       sy_start s k \<le> sub_last_seq sub \<and>
       (sub_last_seq sub = sy_start s k \<or> sub_last_seq sub \<in> ev_sequence ` set (sy_emitted s)) \<and>
       sy_got s k = asked_between sub (sy_start s k) (sub_last_seq sub) (sy_emitted s))"

lemma asked_grows:
  assumes "in_order (h @ h')" "q = p \<or> q \<in> ev_sequence ` set h"
  shows "asked_between sub p q (h @ h') = asked_between sub p q h"
proof -
  have "filter (\<lambda>e. p < ev_sequence e \<and> ev_sequence e \<le> q) h' = []"
    using assms by (fastforce simp: in_order_def sorted_wrt_append filter_empty_conv)
  then show ?thesis by (simp add: asked_between_def)
qed

lemma follows_same:
  assumes "follows s k" "sy_sub s' k = sy_sub s k" "sy_start s' k = sy_start s k" "sy_got s' k = sy_got s k" "sy_emitted s' = sy_emitted s"
  shows "follows s' k"
  using assms by (cases "sy_sub s k") (simp_all add: follows_def)

lemma follows_grows:
  assumes "follows s k" "sy_sub s' k = sy_sub s k" "sy_start s' k = sy_start s k" "sy_got s' k = sy_got s k"
    and h: "sy_emitted s' = sy_emitted s @ h" and o: "in_order (sy_emitted s')"
  shows "follows s' k"
  using assms(1-4) asked_grows[OF o[unfolded h]] by (cases "sy_sub s k") (auto simp: follows_def h)

lemma follows_poll:
  assumes f: "follows s k" and sub: "sy_sub s k = Some sub" and poll: "sub_poll n (sy_log s) sub = (sub', r)"
    and o: "in_order (sy_emitted s)" and b: "cdc_buffer (sy_log s) = ring_view c (sy_emitted s)"
  shows "follows (s\<lparr>sy_sub := (sy_sub s)(k \<mapsto> sub'), sy_got := (sy_got s)(k := sy_got s k @ answered r)\<rparr>) k"
proof -
  have k: "sy_start s k \<le> sub_last_seq sub" "sub_last_seq sub = sy_start s k \<or> sub_last_seq sub \<in> ev_sequence ` set (sy_emitted s)"
    "sy_got s k = asked_between sub (sy_start s k) (sub_last_seq sub) (sy_emitted s)"
    using f sub by (auto simp: follows_def)
  note e = sub_poll_exact[OF o b k(1) poll]
  have "set (cdc_buffer (sy_log s)) \<subseteq> set (sy_emitted s)" unfolding b ring_view_def by (rule set_drop_subset)
  then have "sub_last_seq sub' = sy_start s k \<or> sub_last_seq sub' \<in> ev_sequence ` set (sy_emitted s)"
    using sub_poll_position[OF poll] k(2) by (metis imageI subsetD)
  moreover have "sy_start s k \<le> sub_last_seq sub'" using k(1) e by (blast intro: order_trans)
  ultimately show ?thesis using e k asked_same_filter[of sub' sub] by (simp add: follows_def)
qed

lemma follows_step:
  assumes st: "cdc_step s s'" and f: "\<And>k. follows s k" and o: "in_order (sy_emitted s')"
    and b: "cdc_buffer (sy_log s) = ring_view c (sy_emitted s)"
  shows "follows s' k"
  using st
proof cases
  case (c_flush i em)
  show ?thesis by (rule follows_grows[OF f _ _ _ _ o]) (simp_all add: c_flush(1))
next
  case (c_subscribe k' sub q sub' tables)
  then show ?thesis using f[of k] by (cases "k = k'"; cases "sy_sub s k") (auto simp: follows_def)
next
  case (c_poll k' sub n sub' r)
  show ?thesis
  proof (cases "k = k'")
    case True
    have "in_order (sy_emitted s)" using o by (simp add: c_poll(1))
    then show ?thesis using follows_poll[OF f c_poll(2,3) _ b] by (simp add: c_poll(1) True)
  next
    case False
    show ?thesis by (rule follows_same[OF f]) (simp_all add: c_poll(1) False)
  qed
qed (rule follows_same[OF f], simp_all)+

lemma emitted_grows: "cdc_step s s' \<Longrightarrow> \<exists>new. sy_emitted s' = sy_emitted s @ new"
  by (cases rule: cdc_step.cases) auto

lemma emitted_grows_steps: "cdc_step\<^sup>*\<^sup>* s s' \<Longrightarrow> \<exists>new. sy_emitted s' = sy_emitted s @ new"
  by (induction rule: rtranclp_induct) (auto dest!: emitted_grows)

lemma cdc_follows:
  assumes "cdc_reach config s" "in_order (sy_emitted s)"
  shows "follows s k"
  using assms unfolding cdc_reach_def
proof (induction arbitrary: k)
  case base
  show ?case by (simp add: follows_def cdc_start_def)
next
  case (step s s')
  then have "in_order (sy_emitted s)" using emitted_grows[of s s'] in_order_append by metis
  moreover have "cdc_buffer (sy_log s) = ring_view (cc_capacity config) (sy_emitted s)"
    using cdc_ring step.hyps(1) by (simp add: cdc_reach_def)
  ultimately show ?case using follows_step step by blast
qed

subsection \<open>One emitter at a time\<close>

text \<open>Emitters used one after the other, without wrap-around of the counter.\<close>

definition serial_step :: "cdc_system \<Rightarrow> cdc_system \<Rightarrow> bool" where
  "serial_step s s' \<longleftrightarrow> cdc_step s s' \<and> (\<forall>i j. sy_open s' i \<noteq> None \<longrightarrow> sy_open s' j \<noteq> None \<longrightarrow> i = j) \<and>
     cdc_next_seq (sy_log s) \<le> cdc_next_seq (sy_log s')"

text \<open>Everything numbered since the history was \<open>h\<close> is above \<open>q\<close>, in order, and below the counter.\<close>

definition numbered_since :: "CdcEvent list \<Rightarrow> u64 \<Rightarrow> cdc_system \<Rightarrow> bool" where
  "numbered_since h q s \<longleftrightarrow> q < cdc_next_seq (sy_log s) \<and>
     (\<exists>new. sy_emitted s = h @ new \<and>
        sorted_wrt (<) (q # map ev_sequence new @ [cdc_next_seq (sy_log s)]) \<and>
        (\<forall>i em. sy_open s i = Some em \<longrightarrow>
           sorted_wrt (<) (q # map ev_sequence (new @ em_pending em) @ [cdc_next_seq (sy_log s)])))"

lemma sorted_snoc_later: "sorted_wrt (<) (xs @ [a :: u64]) \<Longrightarrow> a < b \<Longrightarrow> sorted_wrt (<) (xs @ [a, b]) \<and> sorted_wrt (<) (xs @ [b])"
  by (auto simp: sorted_wrt_append)

lemma serial_step_record:
  assumes n: "numbered_since h q s" and i: "sy_open s i = Some em" and c: "em_call now c (sy_log s) em = (l, em')"
    and one: "\<And>j. j \<noteq> i \<Longrightarrow> sy_open s j = None" and le: "cdc_next_seq (sy_log s) \<le> cdc_next_seq l"
  shows "numbered_since h q (s\<lparr>sy_log := l, sy_open := (sy_open s)(i \<mapsto> em')\<rparr>)"
proof -
  let ?a = "cdc_next_seq (sy_log s)" and ?b = "cdc_next_seq l"
  obtain e where e: "em_pending em' = em_pending em @ [e]" "ev_sequence e = ?a" using em_call_pending[OF c] by blast
  have b: "?b = ?a + 1" using em_call_log[OF c] by simp
  then have lt: "?a < ?b" using le by (metis add.right_neutral add_left_cancel order_less_le zero_neq_one)
  obtain new where new: "sy_emitted s = h @ new" "sorted_wrt (<) ((q # map ev_sequence new) @ [?a])"
    "sorted_wrt (<) ((q # map ev_sequence (new @ em_pending em)) @ [?a])"
    using n i by (auto simp: numbered_since_def)
  have "q < ?b" using n lt by (auto simp: numbered_since_def)
  then show ?thesis using sorted_snoc_later[OF new(2) lt] sorted_snoc_later[OF new(3) lt] new(1) e one
    by (auto simp: numbered_since_def)
qed

lemma serial_step_numbered:
  assumes st: "serial_step s s'" and one: "\<And>i j. sy_open s i \<noteq> None \<Longrightarrow> sy_open s j \<noteq> None \<Longrightarrow> i = j" and n: "numbered_since h q s"
  shows "numbered_since h q s'"
  using st[unfolded serial_step_def, THEN conjunct1]
proof cases
  case (c_open i t)
  then show ?thesis using n by (fastforce simp: numbered_since_def em_new_def)
next
  case (c_record i em now c l em')
  have le: "cdc_next_seq (sy_log s) \<le> cdc_next_seq l" using st by (simp add: serial_step_def c_record(1))
  show ?thesis unfolding c_record(1)
    by (rule serial_step_record[OF n c_record(2,3) _ le]) (use one c_record(2) in blast)
next
  case (c_flush i em)
  have "sy_open s j = None" if "j \<noteq> i" for j using one[of i j] c_flush(2) that by (metis option.distinct(1))
  then show ?thesis using n c_flush(2) by (auto simp: numbered_since_def c_flush(1))
next
  case (c_discard i em)
  then show ?thesis using n by (fastforce simp: numbered_since_def)
qed (use n in \<open>auto simp: numbered_since_def cdc_shutdown_def\<close>)

lemma serial_steps_numbered:
  assumes "serial_step\<^sup>*\<^sup>* s s'" "\<And>i j. sy_open s i \<noteq> None \<Longrightarrow> sy_open s j \<noteq> None \<Longrightarrow> i = j" "numbered_since h q s"
  shows "numbered_since h q s' \<and> (\<forall>i j. sy_open s' i \<noteq> None \<longrightarrow> sy_open s' j \<noteq> None \<longrightarrow> i = j)"
  using assms
proof induction
  case (step s' s'')
  then show ?case using serial_step_numbered[of s' s''] by (auto simp: serial_step_def)
qed auto

lemma serial_emitters_keep_order:
  assumes "serial_step\<^sup>*\<^sup>* (cdc_start config) s"
  shows "cdc_reach config s" "in_order (sy_emitted s)"
proof -
  show "cdc_reach config s"
    unfolding cdc_reach_def using assms by (rule rtranclp_mono[THEN predicate2D, rotated]) (auto simp: serial_step_def)
  have "numbered_since [] 0 (cdc_start config)" by (simp add: numbered_since_def cdc_start_def cdc_new_def)
  then have "numbered_since [] 0 s" using serial_steps_numbered[OF assms] by (simp add: cdc_start_def)
  then show "in_order (sy_emitted s)" by (auto simp: numbered_since_def in_order_def sorted_wrt_append)
qed

subsection \<open>Waiting\<close>

lemma wait_rounds_end:
  assumes "r \<in> set rounds" "wr_timed_out r \<or> timeout \<le> wr_elapsed r"
  shows "wait_rounds after_seq n timeout rounds \<noteq> None"
  using assms by (induction rounds) (auto split: sum.split)

text \<open>The wait ends at the latest in the round in which the time is over.\<close>

lemma wait_for_events_ends:
  assumes "r \<in> set rounds" "wr_timed_out r \<or> timeout \<le> wr_elapsed r"
  shows "wait_for_events after_seq n timeout l rounds \<noteq> None"
  using wait_rounds_end[OF assms] by (auto simp: wait_for_events_def split: sum.split)

lemma wait_rounds_read:
  assumes "wait_rounds after_seq n timeout rounds = Some (l', Inr evs)"
  shows "\<exists>r\<in>set rounds. read_from (after_seq + 1) n (wr_woken r) = Inr evs"
  using assms by (induction rounds) (auto split: if_splits sum.splits)

text \<open>What a blocking call returns is what a poll returns at one of its looks at the log.\<close>

lemma next_batch_is_a_poll:
  assumes "sub_next_batch n timeout l rounds sub = Some (l', sub', Inr evs)"
  shows "\<exists>look\<in>insert l (wr_woken ` set rounds). sub_poll n look sub = (sub', Inr evs)"
proof -
  obtain got where w: "wait_for_events (sub_last_seq sub) n timeout l rounds = Some (l', Inr got)" "sub_take got sub = (sub', evs)"
    using assms by (auto simp: sub_next_batch_def split: option.splits sum.splits prod.splits)
  have "\<exists>look\<in>insert l (wr_woken ` set rounds). read_from (sub_last_seq sub + 1) n look = Inr got"
    using w(1) wait_rounds_read by (fastforce simp: wait_for_events_def split: if_splits sum.splits)
  then obtain look where "look \<in> insert l (wr_woken ` set rounds)" and look: "read_from (sub_last_seq sub + 1) n look = Inr got" by blast
  moreover have "sub_poll n look sub = (sub', Inr evs)" using w(2) look by (simp add: sub_poll_def)
  ultimately show ?thesis by blast
qed

text \<open>A subscriber that was overrun stays overrun while events arrive in order: nothing moves its position.\<close>

lemma overrun_stays:
  assumes s: "cdc_reach config s" and st: "cdc_step\<^sup>*\<^sup>* s s'" and o: "in_order (sy_emitted s')"
    and over: "snd (sub_poll n (sy_log s) sub) = Inl e"
  shows "\<exists>e'. sub_poll m (sy_log s') sub = (sub, Inl e')"
proof -
  obtain new where new: "sy_emitted s' = sy_emitted s @ new"
    using emitted_grows_steps[OF st] by blast
  have s': "cdc_reach config s'" using s st by (simp add: cdc_reach_def)
  let ?v = "ring_view (cc_capacity config)"
  have b: "cdc_buffer (sy_log s) = ?v (sy_emitted s)" "cdc_buffer (sy_log s') = ?v (sy_emitted s')"
    using cdc_ring[OF s] cdc_ring[OF s'] by auto
  have lt: "?v (sy_emitted s) \<noteq> []" "sub_last_seq sub + 1 < ev_sequence (hd (?v (sy_emitted s)))"
    using over b(1) by (auto simp: sub_poll_def read_from_def Let_def split: if_splits sum.splits prod.splits)
  have ne: "sy_emitted s' \<noteq> []" using lt(1) new by auto
  have "ev_sequence (hd (?v (sy_emitted s))) \<le> ev_sequence (hd (?v (sy_emitted s')))"
  proof -
    let ?c = "max 1 (cc_capacity config)"
    let ?i = "length (sy_emitted s) - ?c" and ?j = "length (sy_emitted s') - ?c"
    have ij: "?i \<le> ?j" "?j < length (sy_emitted s')" "?i < length (sy_emitted s)"
      using new ne lt(1) by (auto simp: diff_less)
    then have "hd (?v (sy_emitted s)) = sy_emitted s' ! ?i" "hd (?v (sy_emitted s')) = sy_emitted s' ! ?j"
      by (simp_all only: ring_view_def hd_drop_conv_nth) (simp add: new nth_append)
    then show ?thesis
      using in_order_sorted[OF o] ij by (cases "?i = ?j") (auto simp: sorted_wrt_iff_nth_less intro!: less_imp_le)
  qed
  then have "sub_last_seq sub + 1 < ev_sequence (hd (?v (sy_emitted s')))" using lt(2) by (rule order_less_le_trans[rotated])
  then show ?thesis using ne b(2) by (simp add: sub_poll_def read_from_def)
qed

subsection \<open>Events flushed late\<close>

text \<open>Past its own position a subscriber reads only what follows the first event with a later number.\<close>

lemma read_past_base:
  assumes b: "cdc_buffer l = drop m (base @ new)" and base: "\<forall>e\<in>set base. ev_sequence e \<le> q" and le: "q \<le> p" "p + 1 \<noteq> 0"
    and r: "read_from (p + 1) n l = Inr evs"
  shows "set evs \<subseteq> set new"
proof -
  let ?P = "\<lambda>e. \<not> ev_sequence e \<ge> p + 1"
  have "evs = [] \<or> evs = take n (dropWhile ?P (drop m (base @ new)))"
    using r b by (auto simp: read_from_def Let_def dropWhile_eq_drop split: if_splits)
  moreover have "?P e" if "e \<in> set (drop m base)" for e
    using that base le next_number[OF le(2)] by (auto dest!: in_set_dropD)
  then have "dropWhile ?P (drop m (base @ new)) = dropWhile ?P (drop (m - length base) new)" by (simp add: dropWhile_append2)
  ultimately show ?thesis by (auto dest!: in_set_takeD set_dropWhileD in_set_dropD)
qed

text \<open>From now on subscriber \<open>k\<close>, which had got \<open>got\<close>, gets only events numbered above \<open>q\<close>.\<close>

definition only_later :: "nat \<Rightarrow> CdcEvent list \<Rightarrow> u64 \<Rightarrow> cdc_system \<Rightarrow> bool" where
  "only_later k got q s \<longleftrightarrow> (\<exists>sub more. sy_sub s k = Some sub \<and> q \<le> sub_last_seq sub \<and> sub_last_seq sub < cdc_next_seq (sy_log s) \<and>
     sy_got s k = got @ more \<and> (\<forall>e\<in>set more. q < ev_sequence e))"

lemma only_later_poll:
  assumes p: "sub_poll n (sy_log s) sub = (sub', r)" and le: "q \<le> sub_last_seq sub" "sub_last_seq sub < cdc_next_seq (sy_log s)"
    and b: "cdc_buffer (sy_log s) = ring_view c (sy_emitted s)" and n: "numbered_since base q s"
    and base: "\<forall>e\<in>set base. ev_sequence e \<le> q"
  shows "q \<le> sub_last_seq sub' \<and> sub_last_seq sub' < cdc_next_seq (sy_log s) \<and> (\<forall>e\<in>set (answered r). q < ev_sequence e)"
proof (cases "read_from (sub_last_seq sub + 1) n (sy_log s)")
  case (Inl e)
  then show ?thesis using sub_poll_error[OF Inl p] le by (simp add: answered_def)
next
  case (Inr evs)
  obtain new where new: "sy_emitted s = base @ new" "\<forall>e\<in>set new. q < ev_sequence e \<and> ev_sequence e < cdc_next_seq (sy_log s)"
    using n by (auto simp: numbered_since_def sorted_wrt_append)
  have "sub_last_seq sub + 1 \<noteq> 0" using le(2) by (rule number_below)
  then have evs: "set evs \<subseteq> set new" using read_past_base[OF b[unfolded ring_view_def new(1)] base le(1) _ Inr] by simp
  have r: "r = Inr (filter_events sub evs)"
    "sub' = (if filter_events sub evs = [] then sub else sub\<lparr>sub_last_seq := ev_sequence (last (filter_events sub evs))\<rparr>)"
    using p Inr by (auto simp: sub_poll_def sub_take_def Let_def)
  have f: "set (filter_events sub evs) \<subseteq> set new" using evs by (auto simp: filter_events_filter)
  then have "last (filter_events sub evs) \<in> set new" if "filter_events sub evs \<noteq> []" using last_in_set[OF that] by blast
  then show ?thesis using le new(2) f by (auto simp: r answered_def less_imp_le)
qed

lemma only_later_step:
  assumes st: "serial_step s s'" and o: "only_later k got q s"
    and b: "cdc_buffer (sy_log s) = ring_view c (sy_emitted s)" and n: "numbered_since base q s"
    and base: "\<forall>e\<in>set base. ev_sequence e \<le> q"
  shows "only_later k got q s'"
proof -
  obtain sub more where k: "sy_sub s k = Some sub" "q \<le> sub_last_seq sub" "sub_last_seq sub < cdc_next_seq (sy_log s)"
    "sy_got s k = got @ more" "\<forall>e\<in>set more. q < ev_sequence e"
    using o by (auto simp: only_later_def)
  have grow: "cdc_next_seq (sy_log s) \<le> cdc_next_seq (sy_log s')" using st by (simp add: serial_step_def)
  from st[unfolded serial_step_def, THEN conjunct1] show ?thesis
  proof cases
    case (c_poll k' sub1 m sub' r)
    show ?thesis
    proof (cases "k' = k")
      case True
      then have "sub_poll m (sy_log s) sub = (sub', r)" using c_poll(2,3) k(1) by simp
      note only_later_poll[OF this k(2,3) b n base]
      then show ?thesis using k(4,5) True by (auto simp: only_later_def c_poll(1))
    next
      case False
      then show ?thesis using o by (simp add: only_later_def c_poll(1))
    qed
  next
    case (c_subscribe k' sub1 p sub' tables)
    then show ?thesis using k by (auto simp: only_later_def)
  qed (use k grow in \<open>auto simp: only_later_def intro: order_less_le_trans\<close>)
qed

lemma only_later_steps:
  assumes "serial_step\<^sup>*\<^sup>* s s'" "cdc_reach config s" "only_later k got q s" "numbered_since base q s"
    and base: "\<forall>e\<in>set base. ev_sequence e \<le> q" and one: "\<And>i j. sy_open s i \<noteq> None \<Longrightarrow> sy_open s j \<noteq> None \<Longrightarrow> i = j"
  shows "only_later k got q s' \<and> cdc_reach config s'"
  using assms(1-4)
proof induction
  case (step s' s'')
  then have l: "only_later k got q s'" and r: "cdc_reach config s'" by auto
  have n: "numbered_since base q s'" using serial_steps_numbered[OF step.hyps(1) one step.prems(3)] by simp
  have b: "cdc_buffer (sy_log s') = ring_view (cc_capacity config) (sy_emitted s')" using cdc_ring[OF r] by simp
  have "cdc_reach config s''" using r step.hyps(2) by (auto simp: cdc_reach_def serial_step_def)
  then show ?case using only_later_step[OF step.hyps(2) l b n base] by simp
qed simp

subsection \<open>Runs as lists of calls\<close>

datatype cdc_act = DoOpen nat u64 | DoRecord nat u64 cdc_call | DoFlush nat | DoDiscard nat | DoSubscribe nat u64 "string list option" | DoPoll nat nat

text \<open>A call that its guard forbids does nothing.\<close>

fun cdc_do :: "cdc_act \<Rightarrow> cdc_system \<Rightarrow> cdc_system" where
  "cdc_do (DoOpen i t) s = (if sy_open s i = None then s\<lparr>sy_open := (sy_open s)(i \<mapsto> em_new t)\<rparr> else s)"
| "cdc_do (DoRecord i now c) s =
     (case sy_open s i of None \<Rightarrow> s
      | Some em \<Rightarrow> (case em_call now c (sy_log s) em of (l, em') \<Rightarrow> s\<lparr>sy_log := l, sy_open := (sy_open s)(i \<mapsto> em')\<rparr>))"
| "cdc_do (DoFlush i) s =
     (case sy_open s i of None \<Rightarrow> s
      | Some em \<Rightarrow> s\<lparr>sy_log := em_flush em (sy_log s), sy_open := (sy_open s)(i := None),
                     sy_emitted := sy_emitted s @ (if cdc_running (sy_log s) = 0 then [] else em_pending em)\<rparr>)"
| "cdc_do (DoDiscard i) s =
     (case sy_open s i of None \<Rightarrow> s | Some em \<Rightarrow> s\<lparr>sy_log := em_discard em (sy_log s), sy_open := (sy_open s)(i := None)\<rparr>)"
| "cdc_do (DoSubscribe k q tables) s =
     (if sy_sub s k = None
      then let sub = (case tables of None \<Rightarrow> sub_new q | Some ts \<Rightarrow> sub_with_tables ts (sub_new q))
           in s\<lparr>sy_sub := (sy_sub s)(k \<mapsto> sub), sy_start := (sy_start s)(k := sub_last_seq sub)\<rparr>
      else s)"
| "cdc_do (DoPoll k n) s =
     (case sy_sub s k of None \<Rightarrow> s
      | Some sub \<Rightarrow> (case sub_poll n (sy_log s) sub of
           (sub', r) \<Rightarrow> s\<lparr>sy_sub := (sy_sub s)(k \<mapsto> sub'), sy_got := (sy_got s)(k := sy_got s k @ answered r)\<rparr>))"

lemma cdc_do_step: "cdc_do a s = s \<or> cdc_step s (cdc_do a s)"
proof (cases a)
  case (DoSubscribe k q tables)
  then show ?thesis
    using c_subscribe[of s k "sub_new q" q "sub_new q" "[]"]
      c_subscribe[of s k "sub_new q" q "sub_with_tables (the tables) (sub_new q)" "the tables"]
    by (auto simp: Let_def split: option.split)
next
  case (DoFlush i)
  then show ?thesis using c_flush[of s i] by (cases "sy_open s i") (simp_all del: append.assoc)
next
  case (DoDiscard i)
  then show ?thesis using c_discard[of s i] by (cases "sy_open s i") simp_all
qed (auto split: option.split prod.split intro: cdc_step.intros)

lemma cdc_do_steps: "cdc_step\<^sup>*\<^sup>* s (fold cdc_do acts s)"
proof (induction acts arbitrary: s)
  case (Cons a acts)
  have "cdc_step\<^sup>*\<^sup>* s (cdc_do a s)" using cdc_do_step[of a s] by auto
  then show ?case using Cons[of "cdc_do a s"] by simp
qed simp

lemma cdc_do_reach: "cdc_reach config (fold cdc_do acts (cdc_start config))"
  by (simp add: cdc_reach_def cdc_do_steps)

lemmas cdc_run_defs =
  cdc_start_def cdc_new_def cdc_config_default_def em_new_def em_insert_def em_update_def em_delete_def em_schema_change_def em_push_def
  next_sequence_def em_flush_def cdc_emit_def ring_push_def sub_new_def sub_with_tables_def sub_poll_def read_from_def sub_take_def filter_events_def
  answered_def in_order_def asked_between_def oldest_sequence_def

text \<open>
  The numbers of a discarded transaction are never used, and a reader takes the gap for an eviction: nothing was dropped here, and a
  subscriber from the beginning is overrun.
\<close>

lemma discarded_numbers_overrun:
  "let s = fold cdc_do [DoOpen 1 1, DoRecord 1 0 c, DoDiscard 1, DoOpen 2 2, DoRecord 2 0 d, DoFlush 2] (cdc_start config)
   in cdc_buffer (sy_log s) = sy_emitted s \<and> length (sy_emitted s) = 1 \<and> snd (sub_poll n (sy_log s) (sub_new 0)) = Inl (Overrun 1 2)"
  by (cases c; cases d) (simp_all add: cdc_run_defs)

subsection \<open>Properties of the capture\<close>

text \<open>
  C17: As long as the events of all transactions reach the buffer in the order of their sequence numbers (which emitters used one after the
  other guarantee, \<open>serial_emitters_keep_order\<close>), every subscriber has got, each exactly once and in order, precisely the events of its tables
  between the position it started from and the one it has reached, whatever emitters, subscribers and batch sizes.  Its next poll of \<open>n\<close>
  events takes the next \<open>n\<close> events of all tables and returns those of its tables among them, possibly none although later ones wait
  (\<open>filtered_poll_starves\<close>); or, when the position is older than the buffer, it returns the overrun error with the oldest number kept.
\<close>

theorem cdc_exactly_once:
  assumes "cdc_reach config s" "in_order (sy_emitted s)" "sy_sub s k = Some sub"
  shows "sy_got s k = asked_between sub (sy_start s k) (sub_last_seq sub) (sy_emitted s) \<and>
    (case snd (sub_poll n (sy_log s) sub) of
       Inr evs \<Rightarrow> evs = filter_events sub (take n (filter (\<lambda>e. sub_last_seq sub < ev_sequence e) (sy_emitted s)))
     | Inl e \<Rightarrow> e = Overrun (sub_last_seq sub + 1) (oldest_sequence (sy_log s)) \<and> sub_last_seq sub + 1 < oldest_sequence (sy_log s))"
proof
  show "sy_got s k = asked_between sub (sy_start s k) (sub_last_seq sub) (sy_emitted s)"
    using cdc_follows[OF assms(1,2), of k] assms(3) by (simp add: follows_def)
  have b: "cdc_buffer (sy_log s) = ring_view (cc_capacity config) (sy_emitted s)" using cdc_ring[OF assms(1)] by simp
  show "case snd (sub_poll n (sy_log s) sub) of
       Inr evs \<Rightarrow> evs = filter_events sub (take n (filter (\<lambda>e. sub_last_seq sub < ev_sequence e) (sy_emitted s)))
     | Inl e \<Rightarrow> e = Overrun (sub_last_seq sub + 1) (oldest_sequence (sy_log s)) \<and> sub_last_seq sub + 1 < oldest_sequence (sy_log s)"
  proof (cases "read_from (sub_last_seq sub + 1) n (sy_log s)")
    case (Inl e)
    then show ?thesis using read_from_error[OF Inl] by (simp add: sub_poll_def)
  next
    case (Inr evs)
    then show ?thesis using read_from_view[OF assms(2) b Inr] by (simp add: sub_poll_def sub_take_def Let_def)
  qed
qed

theorem cdc_exactly_once_witness:
  "let acts = [DoSubscribe 0 0 None, DoOpen 1 7, DoRecord 1 5 (CallInsert ''t'' [1] [2]), DoRecord 1 6 (CallDelete ''u'' [3]), DoFlush 1,
               DoPoll 0 1, DoOpen 2 8, DoRecord 2 9 (CallUpdate ''t'' [1] [4]), DoFlush 2];
       s = fold cdc_do acts (cdc_start (cdc_config_default\<lparr>cc_capacity := 2\<rparr>))
   in map ev_sequence (sy_got s 0) = [1] \<and>
      (case snd (sub_poll 5 (sy_log s) (sub_new 1)) of Inr evs \<Rightarrow> map ev_sequence evs = [2, 3] | Inl e \<Rightarrow> False)"
proof -
  let ?acts = "[DoSubscribe 0 0 None, DoOpen 1 7, DoRecord 1 5 (CallInsert ''t'' [1] [2]), DoRecord 1 6 (CallDelete ''u'' [3]), DoFlush 1,
                DoPoll 0 1, DoOpen 2 8, DoRecord 2 9 (CallUpdate ''t'' [1] [4]), DoFlush 2]"
  let ?config = "cdc_config_default\<lparr>cc_capacity := 2\<rparr>"
  define s where "s = fold cdc_do ?acts (cdc_start ?config)"
  have o: "in_order (sy_emitted s)" by (simp add: s_def cdc_run_defs)
  have "sy_sub s 0 = Some (sub_new 1)" by (simp add: s_def cdc_run_defs)
  note e = cdc_exactly_once[OF cdc_do_reach[of ?config ?acts, folded s_def] o this, of 5]
  have 1: "map ev_sequence (asked_between (sub_new 1) (sy_start s 0) (sub_last_seq (sub_new 1)) (sy_emitted s)) = [1]"
    "map ev_sequence (filter_events (sub_new 1) (take 5 (filter (\<lambda>e. sub_last_seq (sub_new 1) < ev_sequence e) (sy_emitted s)))) = [2, 3]"
    "\<not> sub_last_seq (sub_new 1) + 1 < oldest_sequence (sy_log s)"
    by (simp_all add: s_def cdc_run_defs word_le_nat_alt)
  show ?thesis unfolding Let_def s_def[symmetric] using e 1 by (auto split: sum.splits)
qed

text \<open>
  C34: Sequence numbers are drawn when a change is recorded, but the events reach the buffer when the transaction is flushed.  When a subscriber
  has caught up past the numbers an open transaction holds, and that transaction then commits and flushes, its events are in the log and are never
  delivered to the subscriber, however many events follow and however often it polls, even if nothing was ever evicted and no error is reported.
\<close>

theorem late_flush_is_lost:
  assumes "cdc_reach config s" "sy_sub s k = Some sub" "sub_last_seq sub < cdc_next_seq (sy_log s)"
    and up: "\<forall>e\<in>set (sy_emitted s). ev_sequence e \<le> sub_last_seq sub"
    and em: "sy_open s i = Some em" "\<forall>e\<in>set (em_pending em). ev_sequence e \<le> sub_last_seq sub" "\<forall>j. j \<noteq> i \<longrightarrow> sy_open s j = None"
    and run: "cdc_running (sy_log s) \<noteq> 0" and later: "serial_step\<^sup>*\<^sup>* (cdc_do (DoFlush i) s) s'"
  shows "set (em_pending em) \<subseteq> set (sy_emitted s') \<and>
    (\<exists>more. sy_got s' k = sy_got s k @ more \<and> set more \<inter> set (em_pending em) = {})"
proof -
  let ?s = "cdc_do (DoFlush i) s" and ?q = "sub_last_seq sub" and ?base = "sy_emitted s @ em_pending em"
  have f: "sy_emitted ?s = ?base" "sy_open ?s = (\<lambda>_. None)" "cdc_next_seq (sy_log ?s) = cdc_next_seq (sy_log s)"
    "sy_sub ?s = sy_sub s" "sy_got ?s = sy_got s"
    using em run by (auto simp: fun_eq_iff)
  have r: "cdc_reach config ?s" using assms(1) cdc_do_step[of "DoFlush i" s] by (auto simp: cdc_reach_def)
  have n: "numbered_since ?base ?q ?s" using assms(3) f by (simp add: numbered_since_def)
  have l: "only_later k (sy_got s k) ?q ?s" using assms(2,3) f by (simp add: only_later_def)
  have "only_later k (sy_got s k) ?q s'" "numbered_since ?base ?q s'"
    using only_later_steps[OF later r l n] serial_steps_numbered[OF later _ n] up em(2) f(2) by auto
  then show ?thesis using em(2) by (fastforce simp: only_later_def numbered_since_def)
qed

theorem late_flush_is_lost_witness:
  "let acts = [DoSubscribe 0 0 None, DoOpen 1 1, DoRecord 1 0 (CallInsert ''t'' [1] [1]), DoFlush 1,
               DoOpen 2 2, DoRecord 2 0 (CallInsert ''t'' [2] [2]), DoOpen 3 3, DoRecord 3 0 (CallInsert ''t'' [3] [3]), DoFlush 3, DoPoll 0 10];
       s = cdc_do (DoFlush 2) (fold cdc_do acts (cdc_start cdc_config_default))
   in map ev_sequence (sy_emitted s) = [1, 3, 2] \<and> map ev_sequence (sy_got s 0) = [1, 3]"
proof -
  let ?acts = "[DoSubscribe 0 0 None, DoOpen 1 1, DoRecord 1 0 (CallInsert ''t'' [1] [1]), DoFlush 1,
    DoOpen 2 2, DoRecord 2 0 (CallInsert ''t'' [2] [2]), DoOpen 3 3, DoRecord 3 0 (CallInsert ''t'' [3] [3]), DoFlush 3, DoPoll 0 10]"
  define s where "s = fold cdc_do ?acts (cdc_start cdc_config_default)"
  let ?em = "\<lparr>em_txn_id = 2, em_pending = [\<lparr>ev_sequence = 2, ev_timestamp_us = 0, ev_txn_id = 2, ev_table = ''t'', ev_key = [2],
    ev_operation = CdcInsert [2]\<rparr>]\<rparr>"
  have h: "sy_sub s 0 = Some (sub_new 3)" "sub_last_seq (sub_new 3) < cdc_next_seq (sy_log s)"
    "\<forall>e\<in>set (sy_emitted s). ev_sequence e \<le> sub_last_seq (sub_new 3)" "sy_open s 2 = Some ?em"
    "\<forall>e\<in>set (em_pending ?em). ev_sequence e \<le> sub_last_seq (sub_new 3)" "cdc_running (sy_log s) \<noteq> 0"
    by (simp_all add: s_def cdc_run_defs)
  have only: "\<forall>j. j \<noteq> 2 \<longrightarrow> sy_open s j = None" by (simp add: s_def cdc_run_defs)
  note late_flush_is_lost[OF cdc_do_reach[of cdc_config_default ?acts, folded s_def] h(1-5) only h(6) rtranclp.rtrancl_refl]
  moreover have "map ev_sequence (sy_emitted (cdc_do (DoFlush 2) s)) = [1, 3, 2]" "map ev_sequence (sy_got (cdc_do (DoFlush 2) s) 0) = [1, 3]"
    by (simp_all add: s_def cdc_run_defs)
  ultimately show ?thesis unfolding Let_def s_def[symmetric] by blast
qed

text \<open>
  C35: A subscriber with a table filter advances only past events it delivers.  Once the next \<open>n\<close> events after its position belong to other
  tables, a poll for \<open>n\<close> events returns nothing and leaves its position where it is, and so does every later one, whatever is written afterwards (in the order of the numbers):
  events of its own tables behind them are never delivered.
\<close>

theorem filtered_poll_starves:
  assumes "cdc_reach config s" "cdc_step\<^sup>*\<^sup>* s s'" "in_order (sy_emitted s')"
    and batch: "batch = take n (filter (\<lambda>e. sub_last_seq sub < ev_sequence e) (sy_emitted s))" "length batch = n" "filter_events sub batch = []"
  shows "fst (sub_poll n (sy_log s') sub) = sub \<and> answered (snd (sub_poll n (sy_log s') sub)) = []"
proof (cases "read_from (sub_last_seq sub + 1) n (sy_log s')")
  case (Inl e)
  then show ?thesis by (simp add: sub_poll_def answered_def)
next
  case (Inr evs)
  have "cdc_reach config s'" using assms(1,2) by (simp add: cdc_reach_def)
  then have "evs = take n (filter (\<lambda>e. sub_last_seq sub < ev_sequence e) (sy_emitted s'))"
    using read_from_view[OF assms(3) _ Inr] cdc_ring by blast
  moreover obtain new where "sy_emitted s' = sy_emitted s @ new" using emitted_grows_steps[OF assms(2)] by blast
  ultimately have "evs = batch" using batch(1,2) by (auto simp: min_def split: if_splits)
  then show ?thesis using Inr batch(3) by (simp add: sub_poll_def sub_take_def answered_def)
qed

theorem filtered_poll_starves_witness:
  "let acts = [DoOpen 1 1, DoRecord 1 0 (CallInsert ''a'' [1] [1]), DoRecord 1 0 (CallInsert ''a'' [2] [2]), DoFlush 1];
       more = [DoOpen 2 2, DoRecord 2 0 (CallInsert ''b'' [3] [3]), DoFlush 2];
       sub = sub_with_tables [''b''] (sub_new 0);
       s' = fold cdc_do more (fold cdc_do acts (cdc_start cdc_config_default))
   in map ev_table (sy_emitted s') = [''a'', ''a'', ''b''] \<and> fst (sub_poll 2 (sy_log s') sub) = sub \<and>
      answered (snd (sub_poll 2 (sy_log s') sub)) = []"
proof -
  let ?acts = "[DoOpen 1 1, DoRecord 1 0 (CallInsert ''a'' [1] [1]), DoRecord 1 0 (CallInsert ''a'' [2] [2]), DoFlush 1]"
  let ?more = "[DoOpen 2 2, DoRecord 2 0 (CallInsert ''b'' [3] [3]), DoFlush 2]"
  let ?sub = "sub_with_tables [''b''] (sub_new 0)"
  define s where "s = fold cdc_do ?acts (cdc_start cdc_config_default)"
  let ?batch = "take 2 (filter (\<lambda>e. sub_last_seq ?sub < ev_sequence e) (sy_emitted s))"
  have h: "in_order (sy_emitted (fold cdc_do ?more s))" "length ?batch = 2" "filter_events ?sub ?batch = []"
    "map ev_table (sy_emitted (fold cdc_do ?more s)) = [''a'', ''a'', ''b'']"
    by (simp_all add: s_def cdc_run_defs)
  show ?thesis unfolding Let_def s_def[symmetric]
    using filtered_poll_starves[OF cdc_do_reach[of cdc_config_default ?acts, folded s_def] cdc_do_steps[of s ?more] h(1) refl h(2,3)] h(4) by blast
qed

end
