(* ===== verification/Commit_Window.thy ===== *)
theory Commit_Window
  imports Storage_Properties
begin

text \<open>
  A commit in its stages.  \<^verbatim>\<open>DurableStorage::commit\<close> holds no lock from its first line to its last: it flushes the data records, validates the transaction
  and draws its timestamp, writes the commit record (waiting for a sync or for the group), and only then publishes the versions in the memtable.
  Here each stage is a step of its own, and all other operations of the engine run in between.  Snapshot isolation is shown for the
  transactions that began with no earlier commit in its window, and shown to fail for the others.
\<close>

subsection \<open>Stages\<close>

datatype commit_stage = CsFlushed | CsValidated u64 "key list" | CsLogged u64 "key list"

record window_state =
  cw_store :: DurableStorage
  cw_stage :: "u64 \<Rightarrow> commit_stage option"

text \<open>\<open>WOp\<close> is any operation of the engine; its \<open>DCommit\<close> is a commit that nothing interrupts.\<close>

datatype window_op = WOp ds_op | WFlush u64 | WValidate u64 | WLog u64 | WPublish u64

definition stage_flush :: "ds_env \<Rightarrow> u64 \<Rightarrow> window_state \<Rightarrow> window_state" where
  "stage_flush E t x =
     (case cw_stage x t of
        None \<Rightarrow>
          (case ds_flush_data E t (cw_store x) of
             (s, Inl e) \<Rightarrow> x\<lparr>cw_store := s\<rparr>
           | (s, Inr _) \<Rightarrow> x\<lparr>cw_store := s, cw_stage := (cw_stage x)(t \<mapsto> CsFlushed)\<rparr>)
      | Some _ \<Rightarrow> x)"

definition stage_validate :: "ds_env \<Rightarrow> u64 \<Rightarrow> window_state \<Rightarrow> window_state" where
  "stage_validate E t x =
     (case cw_stage x t of
        Some CsFlushed \<Rightarrow>
          (case mm_commit (de_hashers E) t (ds_mvcc (cw_store x)) of
             (m, None) \<Rightarrow> x\<lparr>cw_store := (cw_store x)\<lparr>ds_mvcc := m\<rparr>, cw_stage := (cw_stage x)(t := None)\<rparr>
           | (m, Some (commit_ts, write_set)) \<Rightarrow>
               x\<lparr>cw_store := (cw_store x)\<lparr>ds_mvcc := m\<rparr>, cw_stage := (cw_stage x)(t \<mapsto> CsValidated commit_ts write_set)\<rparr>)
      | _ \<Rightarrow> x)"

definition stage_log :: "ds_env \<Rightarrow> u64 \<Rightarrow> window_state \<Rightarrow> window_state" where
  "stage_log E t x =
     (case cw_stage x t of
        Some (CsValidated commit_ts write_set) \<Rightarrow>
          (case ds_log_commit E t (cw_store x) of
             (s, Inl e) \<Rightarrow> x\<lparr>cw_store := s, cw_stage := (cw_stage x)(t := None)\<rparr>
           | (s, Inr _) \<Rightarrow> x\<lparr>cw_store := s, cw_stage := (cw_stage x)(t \<mapsto> CsLogged commit_ts write_set)\<rparr>)
      | _ \<Rightarrow> x)"

definition stage_publish :: "u64 \<Rightarrow> window_state \<Rightarrow> window_state" where
  "stage_publish t x =
     (case cw_stage x t of
        Some (CsLogged commit_ts write_set) \<Rightarrow>
          x\<lparr>cw_store := (cw_store x)\<lparr>ds_memtable := mtk_commit t commit_ts write_set (ds_memtable (cw_store x))\<rparr>,
            cw_stage := (cw_stage x)(t := None)\<rparr>
      | _ \<Rightarrow> x)"

fun cw_step :: "ds_env \<Rightarrow> window_op \<Rightarrow> window_state \<Rightarrow> window_state" where
  "cw_step E (WOp oper) x = x\<lparr>cw_store := ds_step E oper (cw_store x)\<rparr>"
| "cw_step E (WFlush t) x = stage_flush E t x"
| "cw_step E (WValidate t) x = stage_validate E t x"
| "cw_step E (WLog t) x = stage_log E t x"
| "cw_step E (WPublish t) x = stage_publish t x"

fun cw_op_txn :: "window_op \<Rightarrow> u64 option" where
  "cw_op_txn (WOp oper) = ds_op_txn oper"
| "cw_op_txn (WFlush t) = Some t"
| "cw_op_txn (WValidate t) = Some t"
| "cw_op_txn (WLog t) = Some t"
| "cw_op_txn (WPublish t) = Some t"

inductive cw_reachable :: "ds_env \<Rightarrow> window_state \<Rightarrow> bool" for E where
  opened: "ds_open E ordered kind lock keyring disk tick = Inr s \<Longrightarrow> cw_reachable E \<lparr>cw_store = s\<lparr>ds_group_commit := g\<rparr>, cw_stage = \<lambda>_. None\<rparr>"
| step: "cw_reachable E x \<Longrightarrow> ds_room (cw_store x) \<Longrightarrow> cw_reachable E (cw_step E oper x)"

fun cw_run :: "ds_env \<Rightarrow> window_op list \<Rightarrow> window_state \<Rightarrow> window_state option" where
  "cw_run E [] x = Some x"
| "cw_run E (oper # ops) x = (if ds_room (cw_store x) then cw_run E ops (cw_step E oper x) else None)"

text \<open>The timestamp of a commit that has been validated and not yet published.\<close>

definition in_window :: "window_state \<Rightarrow> u64 \<Rightarrow> u64 option" where
  "in_window x t = (case cw_stage x t of Some (CsValidated cts ws) \<Rightarrow> Some cts | Some (CsLogged cts ws) \<Rightarrow> Some cts | _ \<Rightarrow> None)"

text \<open>The stages in a row are the commit of the engine, on every branch.\<close>

lemma stages_are_commit:
  assumes "cw_stage x t = None"
  shows "fold (cw_step E) [WFlush t, WValidate t, WLog t, WPublish t] x = x\<lparr>cw_store := fst (ds_commit E t (cw_store x))\<rparr>"
proof -
  obtain s1 r where f: "ds_flush_data E t (cw_store x) = (s1, r)" by fastforce
  obtain m c where c: "mm_commit (de_hashers E) t (ds_mvcc s1) = (m, c)" by fastforce
  obtain s2 p where p: "ds_log_commit E t (s1\<lparr>ds_mvcc := m\<rparr>) = (s2, p)" by fastforce
  have none: "(cw_stage x)(t := None) = cw_stage x" using assms by auto
  show ?thesis
    using assms
    by (cases r; cases c; cases p)
      (auto simp: stage_flush_def stage_validate_def stage_log_def stage_publish_def ds_commit_eq f c p none)
qed

subsection \<open>The invariant\<close>

definition cw_wf :: "ds_env \<Rightarrow> window_state \<Rightarrow> bool" where
  "cw_wf E x \<longleftrightarrow> ds_wf E (cw_store x) \<and> (\<forall>t cts. in_window x t = Some cts \<longrightarrow> cts < mm_ts_counter (ds_mvcc (cw_store x)))"

lemma ds_step_counter:
  assumes "ds_room s"
  shows "mm_ts_counter (ds_mvcc s) \<le> mm_ts_counter (ds_mvcc (ds_step E oper s))"
proof -
  have lt: "mm_ts_counter (ds_mvcc s) < mm_ts_counter (ds_mvcc s) + 1"
    using assms by (intro u64_less_succ) (simp add: ds_room_def)
  have fold: "mm_ts_counter (ds_mvcc (fold (\<lambda>(k, v) s. ds_buffer_append E t k v (ds_record_write E t k s)) ws s)) = mm_ts_counter (ds_mvcc s)" for t ws s
    by (induction ws arbitrary: s) (auto simp: ds_buffer_append_def ds_record_write_def case_prod_unfold Let_def)
  show ?thesis
  proof (cases oper)
    case (DCommit t)
    have "ds_mvcc (fst (ds_flush_data E t s)) = ds_mvcc s" using same_core_flush_data [of s E t] by (simp add: same_core_def)
    moreover have "ds_mvcc (fst (ds_log_commit E t s')) = ds_mvcc s'" for s' using same_core_log_commit [of s' E t] by (simp add: same_core_def)
    ultimately show ?thesis
      using DCommit less_imp_le [OF lt] by (auto simp: ds_commit_eq Let_def mm_commit_counter split: sum.split option.split)
  next
    case DCheckpoint
    then show ?thesis using same_core_checkpoint [of s E] by (simp add: same_core_def)
  next
    case DRecover
    then show ?thesis
      using less_imp_le [OF lt]
      by (simp add: ds_recover_def ds_apply_recovered_def mm_alloc_commit_ts_def Let_def case_prod_unfold split: sum.split)
  next
    case (DAbort t)
    then show ?thesis by (simp add: ds_abort_def Let_def case_prod_unfold split: sum.split)
  next
    case (DBegin mode)
    then show ?thesis by (simp add: ds_begin_with_mode_def case_prod_unfold split: sum.split)
  next
    case (DBatch t ws)
    then show ?thesis by (simp add: ds_write_batch_refs_def Let_def case_prod_unfold fold [unfolded case_prod_unfold])
  qed (use same_core_maintenance [of s] in \<open>simp_all add: same_core_def ds_begin_read_only_fast_def mm_begin_read_only_def case_prod_unfold
        ds_put_fields ds_read_def ds_scan_def ds_scan_range_def ds_scan_latest_def ds_abort_read_only_fast_def ds_gc_def Let_def
        split: option.split\<close>)
qed

lemma in_window_upd:
  "in_window (x\<lparr>cw_store := s, cw_stage := (cw_stage x)(t := st)\<rparr>) u =
     (if u = t then (case st of Some (CsValidated cts ws) \<Rightarrow> Some cts | Some (CsLogged cts ws) \<Rightarrow> Some cts | _ \<Rightarrow> None) else in_window x u)"
  "in_window (x\<lparr>cw_store := s\<rparr>) u = in_window x u"
  by (simp_all add: in_window_def)

lemma in_window_logged: "cw_stage x t = Some (CsLogged cts ws) \<Longrightarrow> in_window x t = Some cts"
  by (simp add: in_window_def)

lemma cw_wf_store:
  assumes "cw_wf E x" "ds_wf E s" "mm_ts_counter (ds_mvcc (cw_store x)) \<le> mm_ts_counter (ds_mvcc s)"
    and "\<And>cts. st = Some cts \<Longrightarrow> cts < mm_ts_counter (ds_mvcc s)"
    and "in_window y = (in_window x)(t := st)" "cw_store y = s"
  shows "cw_wf E y"
  using assms by (auto simp: cw_wf_def split: if_splits intro: order_less_le_trans)

lemma cw_wf_step:
  assumes wf: "cw_wf E x" and room: "ds_room (cw_store x)"
  shows "cw_wf E (cw_step E oper x)"
proof -
  let ?s = "cw_store x"
  have ds: "ds_wf E ?s" using wf by (simp add: cw_wf_def)
  have same: "cw_wf E y" if "ds_wf E (cw_store y)" "ds_mvcc (cw_store y) = ds_mvcc ?s" "\<And>u. in_window y u = None \<or> in_window y u = in_window x u" for y
    using wf that by (auto simp: cw_wf_def) (metis option.distinct(1))
  show ?thesis
  proof (cases oper)
    case (WOp d)
    then show ?thesis
      using ds_wf_step [OF ds room, of d] wf ds_step_counter [OF room, of E d]
      by (auto simp: cw_wf_def in_window_def intro: order_less_le_trans)
  next
    case (WFlush t)
    have f: "ds_wf E (fst (ds_flush_data E t ?s))" "ds_mvcc (fst (ds_flush_data E t ?s)) = ds_mvcc ?s"
      using ds ds_wf_core [OF same_core_flush_data, of E E t ?s] same_core_flush_data [of ?s E t] by (simp_all add: same_core_def)
    show ?thesis
      using same [of "stage_flush E t x"] f wf
      by (cases "ds_flush_data E t ?s"; cases "snd (ds_flush_data E t ?s)")
        (auto simp: WFlush stage_flush_def in_window_def split: option.splits)
  next
    case (WValidate t)
    obtain m c where c: "mm_commit (de_hashers E) t (ds_mvcc ?s) = (m, c)" by fastforce
    have lt: "mm_ts_counter (ds_mvcc ?s) < mm_ts_counter (ds_mvcc ?s) + 1" using room by (intro u64_less_succ) (simp add: ds_room_def)
    have m: "mm_wf (de_hashers E) m" "mm_ts_counter m = (if c = None then mm_ts_counter (ds_mvcc ?s) else mm_ts_counter (ds_mvcc ?s) + 1)"
      using mm_wf_commit [of "de_hashers E" "ds_mvcc ?s" t] ds_wf_parts(3) [OF ds] room mm_commit_counter(1) [of "de_hashers E" t "ds_mvcc ?s"]
      by (simp_all add: c ds_room_def)
    have wf2: "ds_wf E (?s\<lparr>ds_mvcc := m\<rparr>)"
      by (rule ds_wf_mvcc [OF ds m(1)]) (use m(2) lt mm_get_commit [of _ "de_hashers E" t "ds_mvcc ?s"] in \<open>auto simp: c split: if_splits\<close>)
    show ?thesis
    proof (cases "cw_stage x t = Some CsFlushed")
      case False
      then have "stage_validate E t x = x" by (simp add: stage_validate_def split: option.split commit_stage.split)
      then show ?thesis using wf by (simp add: WValidate)
    next
      case True
      let ?st = "case c of None \<Rightarrow> None | Some (cts, ws) \<Rightarrow> Some cts"
      have "in_window (stage_validate E t x) = (in_window x)(t := ?st)" "cw_store (stage_validate E t x) = ?s\<lparr>ds_mvcc := m\<rparr>"
        using True by (cases c; auto simp: stage_validate_def c in_window_def fun_eq_iff)+
      moreover have "cts < mm_ts_counter m" if "?st = Some cts" for cts
        using that mm_commit_counter(2) [of "de_hashers E" t "ds_mvcc ?s"] m(2) lt by (auto simp: c split: option.splits)
      ultimately show ?thesis
        using cw_wf_store [OF wf wf2, of ?st "stage_validate E t x" t] m(2) less_imp_le [OF lt] by (simp add: WValidate split: if_splits)
    qed
  next
    case (WLog t)
    have f: "ds_wf E (fst (ds_log_commit E t ?s))" "ds_mvcc (fst (ds_log_commit E t ?s)) = ds_mvcc ?s"
      using ds ds_wf_core [OF same_core_log_commit, of E E t ?s] same_core_log_commit [of ?s E t] by (simp_all add: same_core_def)
    show ?thesis
      using same [of "stage_log E t x"] f wf
      by (cases "ds_log_commit E t ?s"; cases "snd (ds_log_commit E t ?s)")
        (auto simp: WLog stage_log_def in_window_def split: option.splits commit_stage.splits)
  next
    case (WPublish t)
    show ?thesis
    proof (cases "\<exists>cts ws. cw_stage x t = Some (CsLogged cts ws)")
      case False
      then have "stage_publish t x = x" by (simp add: stage_publish_def split: option.split commit_stage.split)
      then show ?thesis using wf by (simp add: WPublish)
    next
      case True
      then obtain cts ws where st: "cw_stage x t = Some (CsLogged cts ws)" by blast
      have "cts < mm_ts_counter (ds_mvcc ?s)" using wf in_window_logged [OF st] by (auto simp: cw_wf_def)
      then have "ds_wf E (?s\<lparr>ds_memtable := mtk_commit t cts ws (ds_memtable ?s)\<rparr>)"
        using ds_wf_parts(1,2) [OF ds] by (intro ds_wf_memtable [OF ds] mtk_wf_commit table_below_commit)
      then show ?thesis using same [of "stage_publish t x"] st by (simp add: WPublish stage_publish_def in_window_def)
    qed
  qed
qed

lemma cw_reachable_wf: "cw_reachable E x \<Longrightarrow> cw_wf E x"
proof (induction rule: cw_reachable.induct)
  case (opened ordered kind lock keyring disk tick s g)
  have "same_core s (s\<lparr>ds_group_commit := g\<rparr>)" by (simp add: same_core_def)
  then show ?case using ds_wf_core ds_wf_open [OF opened] by (simp add: cw_wf_def in_window_def)
qed (rule cw_wf_step)

subsection \<open>Isolation across the stages\<close>

lemma isolated_stage:
  assumes wf: "cw_wf E x" and t: "mm_get t (ds_mvcc (cw_store x)) \<noteq> None" "cw_op_txn oper \<noteq> Some t"
    and ts: "mm_get_snapshot_ts t (ds_mvcc (cw_store x)) = Some ts" "\<And>u cts. in_window x u = Some cts \<Longrightarrow> ts \<le> cts"
  shows "isolated t (cw_store x) (cw_store (cw_step E oper x))"
proof (cases oper)
  case (WOp d)
  then show ?thesis using isolated_step [of E "cw_store x" t d] wf t by (simp add: cw_wf_def)
next
  case (WFlush u)
  show ?thesis
    using isolated_core [OF same_core_flush_data, of t "cw_store x" E u]
    by (auto simp: WFlush stage_flush_def case_prod_unfold split: option.split sum.split)
next
  case (WValidate u)
  then show ?thesis
    using t(2) by (auto simp: stage_validate_def isolated_def mm_get_commit case_prod_unfold split: option.split commit_stage.split)
next
  case (WLog u)
  show ?thesis
    using isolated_core [OF same_core_log_commit, of t "cw_store x" E u]
    by (auto simp: WLog stage_log_def case_prod_unfold split: option.split sum.split commit_stage.split)
next
  case (WPublish u)
  have "isolated t (cw_store x) ((cw_store x)\<lparr>ds_memtable := mtk_commit u cts ws (ds_memtable (cw_store x))\<rparr>)"
    if "cw_stage x u = Some (CsLogged cts ws)" for cts ws
  proof (rule isolated_memtable)
    fix ts' k
    assume "mm_get_snapshot_ts t (ds_mvcc (cw_store x)) = Some ts'"
    then have "ts' \<le> cts" using ts(1) ts(2) [OF in_window_logged [OF that]] by simp
    then show "mtk_read k ts' (Some t) (mtk_commit u cts ws (ds_memtable (cw_store x))) = mtk_read k ts' (Some t) (ds_memtable (cw_store x))"
      using wf t(2) ds_wf_parts(1) [of E "cw_store x"] by (simp add: WPublish cw_wf_def kind.read_commit_later)
  qed
  then show ?thesis by (simp add: WPublish stage_publish_def split: option.split commit_stage.split)
qed

text \<open>A commit validated later draws a later timestamp than every snapshot there is.\<close>

lemma window_step:
  assumes wf: "cw_wf E x" and ts: "mm_get_snapshot_ts t (ds_mvcc (cw_store x)) = Some ts"
    and win: "\<And>u cts. in_window x u = Some cts \<Longrightarrow> ts \<le> cts" and u: "in_window (cw_step E oper x) u = Some cts"
  shows "ts \<le> cts"
proof (cases "in_window x u = Some cts")
  case True
  then show ?thesis by (rule win)
next
  case new: False
  have "oper = WValidate u \<and> (\<exists>ws. snd (mm_commit (de_hashers E) u (ds_mvcc (cw_store x))) = Some (cts, ws))"
    using new u
    by (cases oper)
      (auto simp: stage_flush_def stage_validate_def stage_log_def stage_publish_def in_window_def split: if_splits option.splits
        commit_stage.splits prod.splits sum.splits)
  then have "cts = mm_ts_counter (ds_mvcc (cw_store x))" using mm_commit_counter(2) by blast
  moreover have "ds_wf E (cw_store x)" using wf by (simp add: cw_wf_def)
  ultimately show ?thesis using snapshot_le_counter [OF _ ts] by simp
qed

lemma isolated_window_run:
  assumes "cw_wf E x" "mm_get t (ds_mvcc (cw_store x)) \<noteq> None" "mm_get_snapshot_ts t (ds_mvcc (cw_store x)) = Some ts"
    and "\<And>u cts. in_window x u = Some cts \<Longrightarrow> ts \<le> cts" "\<forall>oper \<in> set ops. cw_op_txn oper \<noteq> Some t" "cw_run E ops x = Some x'"
  shows "isolated t (cw_store x) (cw_store x') \<and> cw_wf E x'"
  using assms
proof (induction ops arbitrary: x)
  case (Cons oper ops)
  let ?y = "cw_step E oper x"
  have room: "ds_room (cw_store x)" and run: "cw_run E ops ?y = Some x'" using Cons.prems(6) by (auto split: if_splits)
  have iso: "isolated t (cw_store x) (cw_store ?y)" using isolated_stage [OF Cons.prems(1,2) _ Cons.prems(3,4)] Cons.prems(5) by simp
  have y: "mm_get t (ds_mvcc (cw_store ?y)) \<noteq> None" "mm_get_snapshot_ts t (ds_mvcc (cw_store ?y)) = Some ts"
    using iso Cons.prems(2,3) by (simp_all add: isolated_def snapshot_get)
  have "isolated t (cw_store ?y) (cw_store x') \<and> cw_wf E x'"
    by (rule Cons.IH [OF cw_wf_step [OF Cons.prems(1) room] y _ _ run])
      (use window_step [OF Cons.prems(1,3,4)] Cons.prems(5) in auto)
  then show ?case using isolated_trans [OF iso] by blast
qed simp

subsection \<open>Commits that nothing refuses\<close>

lemma cw_reachable_atomic: "ds_reachable E s \<Longrightarrow> cw_reachable E \<lparr>cw_store = s, cw_stage = \<lambda>_. None\<rparr>"
proof (induction rule: ds_reachable.induct)
  case (opened ordered kind lock keyring disk tick s)
  then have "s\<lparr>ds_group_commit := False\<rparr> = s" using ds_open_fields(5) [OF opened] by simp
  then show ?case using cw_reachable.opened [OF opened, of False] by simp
next
  case (grouped ordered kind lock keyring disk tick s)
  then show ?case using cw_reachable.opened [OF grouped, of True] by simp
next
  case (step s oper)
  then show ?case using cw_reachable.step [OF step.IH, of "WOp oper"] by simp
qed

text \<open>Without encryption and without earlier tracked commits a commit reaches the end of its window.\<close>

lemma quiet_stages:
  assumes "\<not> ee_is_enabled (wal_encryption (ds_wal (cw_store x)))" "mm_recent_commits (ds_mvcc (cw_store x)) = []"
    and "mm_get t (ds_mvcc (cw_store x)) = Some txn" "cw_stage x t = None" "ds_room (cw_store x)" "mm_ts_counter (ds_mvcc (cw_store x)) + 1 < - 1"
  shows "\<exists>y. cw_run E [WFlush t, WValidate t, WLog t] x = Some y \<and>
    cw_stage y = (cw_stage x)(t \<mapsto> CsLogged (mm_ts_counter (ds_mvcc (cw_store x))) (mt_write_set txn)) \<and>
    ds_memtable (cw_store y) = ds_memtable (cw_store x) \<and>
    ds_mvcc (cw_store y) = fst (mm_commit (de_hashers E) t (ds_mvcc (cw_store x))) \<and>
    wal_next_txn_id (ds_wal (cw_store y)) = wal_next_txn_id (ds_wal (cw_store x))"
proof -
  let ?s = "cw_store x"
  obtain s1 where f: "ds_flush_data E t ?s = (s1, Inr ())" using ds_flush_data_plain(1) [OF assms(1), of E t] by (metis prod.collapse)
  have s1: "\<not> ee_is_enabled (wal_encryption (ds_wal s1))" "same_core ?s s1"
    using ds_flush_data_plain(2) [OF assms(1), of E t] assms(1) same_core_flush_data [of ?s E t] by (simp_all add: f)
  have "snd (mm_commit (de_hashers E) t (ds_mvcc ?s)) = Some (mm_ts_counter (ds_mvcc ?s), mt_write_set txn)"
    using assms(2,3) by (auto simp: mm_commit_def mm_get_def mm_validate_ssi_def mm_alloc_commit_ts_def Let_def)
  then obtain m where c: "mm_commit (de_hashers E) t (ds_mvcc ?s) = (m, Some (mm_ts_counter (ds_mvcc ?s), mt_write_set txn))"
    by (metis prod.collapse)
  obtain s2 where p: "ds_log_commit E t (s1\<lparr>ds_mvcc := m\<rparr>) = (s2, Inr ())"
    using ds_log_commit_plain [of "s1\<lparr>ds_mvcc := m\<rparr>" E t] s1(1) by (cases "ds_log_commit E t (s1\<lparr>ds_mvcc := m\<rparr>)") simp
  show ?thesis
    using same_core_log_commit [of "s1\<lparr>ds_mvcc := m\<rparr>" E t] s1(2) assms(5,6) mm_commit_counter(1) [of "de_hashers E" t "ds_mvcc ?s"]
    by (simp add: stage_flush_def stage_validate_def stage_log_def assms(4) f c p same_core_def ds_room_def)
qed

lemma cw_run_reachable: "cw_reachable E x \<Longrightarrow> cw_run E ops x = Some y \<Longrightarrow> cw_reachable E y"
  by (induction ops arbitrary: x) (auto split: if_splits intro: cw_reachable.step)

lemma cw_run_append: "cw_run E (ops @ ops') x = Option.bind (cw_run E ops x) (cw_run E ops')"
  by (induction ops arbitrary: x) auto

text \<open>The demonstration: transaction \<open>demo_txn\<close> writes and commits, a read-only transaction is the next one to begin.\<close>

definition demo_reader :: u64 where
  "demo_reader = demo_txn + 1"

lemma demo_reader_other: "demo_reader \<noteq> demo_txn"
  by (simp add: demo_reader_def)

lemma demo_ready_clock: "mm_ts_counter (ds_mvcc demo_ready) = 1" "wal_next_txn_id (ds_wal demo_ready) = demo_reader"
proof -
  have "wal_next_txn_id demo_wal_fresh = demo_txn" by (simp add: demo_wal_fresh_def demo_txn_def)
  then show "mm_ts_counter (ds_mvcc demo_ready) = 1" "wal_next_txn_id (ds_wal demo_ready) = demo_reader"
    using demo_begin_txn wal_begin_next(1) [of demo_platform demo_wal_fresh]
    by (simp_all add: demo_ready_def demo_begun_def ds_set_sync_mode_def ds_begin_with_mode_def demo_env_def demo_store_def case_prod_unfold
        demo_reader_def) (simp add: mm_new_def)
qed

lemma demo_reader_room: "demo_reader + 1 < (- 1 :: u64)" "demo_reader < (- 1 :: u64)"
  by (simp_all add: demo_reader_def demo_txn_def word_less_nat_alt unsigned_minus_1_eq_mask mask_eq_exp_minus_1)

text \<open>A plain engine on whose clock nothing has been committed, with the writer's value pending.\<close>

lemma demo_stages:
  assumes "\<not> ee_is_enabled (wal_encryption (ds_wal s))" "mm_recent_commits (ds_mvcc s) = []" "mm_get demo_txn (ds_mvcc s) \<noteq> None"
    and "mm_ts_counter (ds_mvcc s) = 1" "ds_room s"
  shows "\<exists>y ws. cw_run demo_env [WFlush demo_txn, WValidate demo_txn, WLog demo_txn]
        \<lparr>cw_store = fst (ds_write demo_env demo_txn [1] [2] s), cw_stage = \<lambda>_. None\<rparr> = Some y \<and>
      cw_stage y = (\<lambda>_. None)(demo_txn \<mapsto> CsLogged 1 ws) \<and> [1] \<in> set ws \<and>
      ds_memtable (cw_store y) = fst (mtk_write [1] (Some [2]) demo_txn (ds_memtable s)) \<and>
      mm_ts_counter (ds_mvcc (cw_store y)) = 2 \<and> wal_next_txn_id (ds_wal (cw_store y)) = wal_next_txn_id (ds_wal s)"
proof -
  let ?s = "fst (ds_write demo_env demo_txn [1] [2] s)"
  let ?x = "\<lparr>cw_store = ?s, cw_stage = \<lambda>_. None\<rparr> :: window_state"
  obtain txn where txn: "mm_get demo_txn (ds_mvcc ?s) = Some txn" using assms(3) by (auto simp: ds_put_fields mm_get_record)
  have mm: "mm_ts_counter (ds_mvcc ?s) = 1" "mm_recent_commits (ds_mvcc ?s) = []" by (simp_all add: ds_put_fields put_quiet assms(2,4))
  have two: "(1 + 1 :: u64) < - 1" by (simp add: u64_max_numerals)
  obtain y where y: "cw_run demo_env [WFlush demo_txn, WValidate demo_txn, WLog demo_txn] ?x = Some y"
      "cw_stage y = (cw_stage ?x)(demo_txn \<mapsto> CsLogged (mm_ts_counter (ds_mvcc ?s)) (mt_write_set txn))"
      "ds_memtable (cw_store y) = ds_memtable ?s" "ds_mvcc (cw_store y) = fst (mm_commit (de_hashers demo_env) demo_txn (ds_mvcc ?s))"
      "wal_next_txn_id (ds_wal (cw_store y)) = wal_next_txn_id (ds_wal ?s)"
    using quiet_stages [of ?x demo_txn txn demo_env] assms(1,5) txn mm two by (auto simp: put_quiet ds_put_room)
  have "snd (mm_commit (de_hashers demo_env) demo_txn (ds_mvcc ?s)) \<noteq> None"
    using mm(2) txn by (auto simp: mm_commit_def mm_get_def mm_validate_ssi_def mm_alloc_commit_ts_def Let_def)
  then have "mm_ts_counter (ds_mvcc (cw_store y)) = 2" using y(4) mm(1) mm_commit_counter(1) [of "de_hashers demo_env" demo_txn "ds_mvcc ?s"] by simp
  moreover have "[1] \<in> set (mt_write_set txn)" using ds_put_write_set txn by (auto simp: ds_put_fields)
  ultimately show ?thesis using y mm(1) by (intro exI [of _ y] exI [of _ "mt_write_set txn"]) (simp add: ds_put_fields ds_put_config)
qed

definition demo_pending :: MemTableKind where
  "demo_pending = fst (mtk_write [1] (Some [2]) demo_txn (ds_memtable demo_ready))"

lemma demo_pending:
  "mtk_wf demo_pending" "bsc_committed (mtk_chain demo_pending [1]) = []" "mtk_read [1] ts None demo_pending = None"
  "\<exists>v. bsc_uncommitted (mtk_chain demo_pending [1]) = Some v \<and> ver_txn_id v = demo_txn \<and> ver_value v = Some [2]"
proof -
  have wf: "mtk_wf (ds_memtable demo_ready)" by (rule ds_wf_parts(1) [OF demo_ready_state(5)])
  then show 1: "mtk_wf demo_pending" by (simp add: demo_pending_def mtk_wf_write)
  have chain: "mtk_chain demo_pending [1] = vc_add_uncommitted (Some [2]) demo_txn vc_new"
    using kind.chain_write [OF wf, of "[1]" "Some [2]" demo_txn "[1]"] by (simp add: demo_pending_def demo_ready_empty no_conflict_new)
  then show 2: "bsc_committed (mtk_chain demo_pending [1]) = []" by (simp add: vc_add_uncommitted_fields committed_vc_new)
  show "\<exists>v. bsc_uncommitted (mtk_chain demo_pending [1]) = Some v \<and> ver_txn_id v = demo_txn \<and> ver_value v = Some [2]"
    unfolding chain using vc_add_uncommitted_fields [of "Some [2]" demo_txn vc_new] by auto
  show "mtk_read [1] ts None demo_pending = None"
    using 2 by (simp add: kind.read_eq [OF 1] chain_value_def vc_read_at_def bsc_read_at_def vec_get_def)
qed

subsection \<open>Properties\<close>

text \<open>
  C4: Snapshot isolation, with commits interleaved stage by stage.  Let a transaction be active in a reachable state in which no commit that was
  validated before its snapshot is still unpublished.  Whatever the other transactions do afterwards (begin, read, write, delete, write
  batches, scan, abort, and the four stages of their commits in any interleaving and any sync mode), and whatever maintenance runs (garbage collection,
  checkpoints, flushes, log truncation, recovery), it reads the same value of every key and its prefix scans return the same rows.
\<close>

theorem snapshot_isolation:
  assumes "cw_reachable E x" "mm_get t (ds_mvcc (cw_store x)) = Some txn"
    and "\<forall>u cts. in_window x u = Some cts \<longrightarrow> mt_snapshot_ts txn \<le> cts"
    and "cw_run E ops x = Some x'" "\<forall>oper \<in> set ops. cw_op_txn oper \<noteq> Some t"
  shows "snd (ds_read E t k (cw_store x')) = snd (ds_read E t k (cw_store x)) \<and>
    map_sum id set (snd (ds_scan t p (cw_store x'))) = map_sum id set (snd (ds_scan t p (cw_store x)))"
proof -
  let ?s = "cw_store x" and ?s' = "cw_store x'"
  have ts: "mm_get_snapshot_ts t (ds_mvcc ?s) = Some (mt_snapshot_ts txn)" using assms(2) by (simp add: snapshot_get)
  have wfx: "cw_wf E x" using cw_reachable_wf [OF assms(1)] .
  have iso: "isolated t ?s ?s'" and wfx': "cw_wf E x'"
    using isolated_window_run [OF wfx _ ts _ assms(5,4)] assms(2,3) by auto
  have wf: "ds_wf E ?s" "ds_wf E ?s'" using wfx wfx' by (simp_all add: cw_wf_def)
  have ts': "mm_get_snapshot_ts t (ds_mvcc ?s') = Some (mt_snapshot_ts txn)" using iso ts by (simp add: isolated_def snapshot_get)
  have read: "mtk_read k (mt_snapshot_ts txn) (Some t) (ds_memtable ?s') = mtk_read k (mt_snapshot_ts txn) (Some t) (ds_memtable ?s)" for k
    using iso ts by (simp add: isolated_def)
  then have "set (snd (mtk_scan_prefix p (mt_snapshot_ts txn) (Some t) (ds_memtable ?s'))) =
      set (snd (mtk_scan_prefix p (mt_snapshot_ts txn) (Some t) (ds_memtable ?s)))"
    using wf [THEN ds_wf_parts(1)] by (simp add: kind.scan_set)
  with read ts ts' show ?thesis by (simp add: ds_read_def ds_scan_def case_prod_unfold Let_def)
qed

theorem snapshot_isolation_witness:
  "\<exists>x x'. cw_reachable demo_env x \<and>
     cw_run demo_env [WOp (DWrite demo_txn [1] [2]), WFlush demo_txn, WValidate demo_txn, WLog demo_txn, WPublish demo_txn] x = Some x' \<and>
     snd (ds_read demo_env demo_reader [1] (cw_store x')) = Inr None \<and> ds_read_latest [1] (cw_store x') = Some [2]"
proof -
  define s where "s = ds_step demo_env DBeginFast demo_ready"
  let ?x = "\<lparr>cw_store = s, cw_stage = \<lambda>_. None\<rparr> :: window_state"
  let ?ops = "[WOp (DWrite demo_txn [1] [2]), WFlush demo_txn, WValidate demo_txn, WLog demo_txn, WPublish demo_txn]"
  have s: "ds_mvcc s = fst (mm_begin_with_mode demo_reader ReadOnly (ds_mvcc demo_ready))" "ds_memtable s = ds_memtable demo_ready"
    "wal_encryption (ds_wal s) = wal_encryption (ds_wal demo_ready)" "wal_next_txn_id (ds_wal s) = demo_reader + 1"
    by (simp_all add: s_def ds_begin_read_only_fast_def mm_begin_read_only_def wal_alloc_txn_id_def demo_ready_clock(2) case_prod_unfold)
  have reader: "mm_get demo_reader (ds_mvcc s) = Some (mt_with_mode demo_reader 1 ReadOnly)"
    by (simp add: s(1) mm_get_begin demo_ready_clock(1))
  have x: "cw_reachable demo_env ?x"
    unfolding s_def by (rule cw_reachable_atomic [OF ds_reachable.step [OF demo_ready_state(7,6)]])
  have room: "ds_room s" using demo_reader_room by (simp add: ds_room_def s(1,4) demo_ready_clock(1) u64_max_numerals)
  have "mm_recent_commits (ds_mvcc s) = []" using demo_ready_state(2) by (simp add: s(1) mm_begin_with_mode_def Let_def)
  from demo_stages [OF _ this _ _ room] obtain y ws where
    y: "cw_run demo_env [WFlush demo_txn, WValidate demo_txn, WLog demo_txn] (cw_step demo_env (WOp (DWrite demo_txn [1] [2])) ?x) = Some y"
      "cw_stage y = (\<lambda>_. None)(demo_txn \<mapsto> CsLogged 1 ws)" "[1] \<in> set ws"
      "ds_memtable (cw_store y) = fst (mtk_write [1] (Some [2]) demo_txn (ds_memtable s))"
      "mm_ts_counter (ds_mvcc (cw_store y)) = 2" "wal_next_txn_id (ds_wal (cw_store y)) = wal_next_txn_id (ds_wal s)"
    using demo_ready_state(1,3) demo_reader_other by (auto simp: s mm_get_begin demo_ready_clock(1))
  let ?x' = "cw_step demo_env (WPublish demo_txn) y"
  have roomy: "ds_room (cw_store y)" using y(5,6) s(4) demo_reader_room by (simp add: ds_room_def u64_max_numerals)
  have "cw_run demo_env ([WFlush demo_txn, WValidate demo_txn, WLog demo_txn] @ [WPublish demo_txn])
      (cw_step demo_env (WOp (DWrite demo_txn [1] [2])) ?x) = Some ?x'"
    unfolding cw_run_append y(1) by (simp only: Option.bind.bind_lunit cw_run.simps roomy if_True)
  then have run: "cw_run demo_env ?ops ?x = Some ?x'"
    by (simp only: cw_run.simps(2) [of demo_env "WOp (DWrite demo_txn [1] [2])"] window_state.simps room if_True append.simps)
  have "snd (ds_read demo_env demo_reader [1] (cw_store ?x')) = snd (ds_read demo_env demo_reader [1] s)"
    using snapshot_isolation [OF x, of demo_reader _ ?ops ?x' "[1]"] run reader demo_reader_other by (auto simp: in_window_def)
  moreover have "snd (ds_read demo_env demo_reader [1] s) = Inr None"
    using kind.read_eq [OF ds_wf_parts(1) [OF demo_ready_state(5)]]
    by (simp add: ds_read_def mm_get_snapshot_ts_def [symmetric] snapshot_get reader s(2) demo_ready_empty chain_value_def)
  moreover have "ds_read_latest [1] (cw_store ?x') = Some [2]"
  proof -
    have m: "ds_memtable (cw_store y) = demo_pending" using y(4) s(2) by (simp add: demo_pending_def)
    obtain v where v: "bsc_uncommitted (mtk_chain demo_pending [1]) = Some v" "ver_txn_id v = demo_txn" "ver_value v = Some [2]"
      using demo_pending(4) by blast
    from kind.read_commit_visible [OF demo_pending(1) y(3) v(1,2), of 1 2 None] show ?thesis
      using y(2,5) v(3) demo_pending(2) by (simp add: m stage_publish_def ds_read_latest_def)
  qed
  ultimately show ?thesis using x run by metis
qed

text \<open>
  C38: A transaction that begins in the window of a commit reads two values.  The commit has drawn its timestamp, so the snapshot is above it, but its versions
  are not yet in the memtable: until the publication a key of the commit reads as its committed versions have it, and afterwards, in the same
  transaction, as the commit wrote it.
\<close>

theorem commit_window_breaks_snapshot:
  assumes "cw_reachable E x" "mm_get t (ds_mvcc (cw_store x)) = Some txn" "u \<noteq> t"
    and "cw_stage x u = Some (CsLogged cts ws)" "cts < mt_snapshot_ts txn" "k \<in> set ws"
    and "bsc_uncommitted (mtk_chain (ds_memtable (cw_store x)) k) = Some v" "ver_txn_id v = u"
    and "\<forall>w \<in> set (bsc_committed (mtk_chain (ds_memtable (cw_store x)) k)). ver_commit_ts w \<le> cts"
  shows "snd (ds_read E t k (cw_store x)) = Inr (mtk_read k (mt_snapshot_ts txn) None (ds_memtable (cw_store x))) \<and>
    snd (ds_read E t k (cw_store (cw_step E (WPublish u) x))) = Inr (ver_value v)"
proof -
  let ?s = "cw_store x"
  have wf: "mtk_wf (ds_memtable ?s)" using cw_reachable_wf [OF assms(1)] ds_wf_parts(1) by (auto simp: cw_wf_def)
  have ts: "mm_get_snapshot_ts t (ds_mvcc ?s) = Some (mt_snapshot_ts txn)" using assms(2) by (simp add: snapshot_get)
  have "mtk_read k (mt_snapshot_ts txn) (Some t) (ds_memtable ?s) = mtk_read k (mt_snapshot_ts txn) None (ds_memtable ?s)"
    using assms(3,7,8) by (simp add: kind.read_eq [OF wf] chain_value_def vc_read_at_def bsc_read_at_def version_entry_def)
  moreover have "mtk_read k (mt_snapshot_ts txn) (Some t) (mtk_commit u cts ws (ds_memtable ?s)) = ver_value v"
    by (rule kind.read_commit_visible [OF wf assms(6,7,8,5,9)])
  ultimately show ?thesis using ts assms(4) by (simp add: ds_read_def stage_publish_def case_prod_unfold Let_def)
qed

theorem commit_window_breaks_snapshot_witness:
  "\<exists>x. cw_reachable demo_env x \<and> snd (ds_read demo_env demo_reader [1] (cw_store x)) = Inr None \<and>
     snd (ds_read demo_env demo_reader [1] (cw_store (cw_step demo_env (WPublish demo_txn) x))) = Inr (Some [2])"
proof -
  let ?w = "\<lparr>cw_store = ds_step demo_env (DWrite demo_txn [1] [2]) demo_ready, cw_stage = \<lambda>_. None\<rparr> :: window_state"
  from demo_stages [OF demo_ready_state(1-3) demo_ready_clock(1) demo_ready_state(6)] obtain y ws where
    y: "cw_run demo_env [WFlush demo_txn, WValidate demo_txn, WLog demo_txn] ?w = Some y"
      "cw_stage y = (\<lambda>_. None)(demo_txn \<mapsto> CsLogged 1 ws)" "[1] \<in> set ws"
      "ds_memtable (cw_store y) = fst (mtk_write [1] (Some [2]) demo_txn (ds_memtable demo_ready))"
      "mm_ts_counter (ds_mvcc (cw_store y)) = 2" "wal_next_txn_id (ds_wal (cw_store y)) = demo_reader"
    by (auto simp: demo_ready_clock(2))
  have "cw_reachable demo_env y"
    by (rule cw_run_reachable [OF cw_reachable_atomic [OF ds_reachable.step [OF demo_ready_state(7,6)]] y(1)])
  moreover have "ds_room (cw_store y)" using y(5,6) demo_reader_room by (simp add: ds_room_def u64_max_numerals)
  ultimately have x: "cw_reachable demo_env (cw_step demo_env (WOp DBeginFast) y)" (is "cw_reachable _ ?x") by (rule cw_reachable.step)
  have reader: "mm_get demo_reader (ds_mvcc (cw_store ?x)) = Some (mt_with_mode demo_reader 2 ReadOnly)"
    and mem: "ds_memtable (cw_store ?x) = demo_pending"
    and st: "cw_stage ?x demo_txn = Some (CsLogged 1 ws)"
    using y(2,4,5,6)
    by (simp_all add: demo_pending_def ds_begin_read_only_fast_def mm_begin_read_only_def wal_alloc_txn_id_def case_prod_unfold mm_get_begin)
  obtain v where v: "bsc_uncommitted (mtk_chain (ds_memtable (cw_store ?x)) [1]) = Some v" "ver_txn_id v = demo_txn" "ver_value v = Some [2]"
    using demo_pending(4) unfolding mem by blast
  have committed: "bsc_committed (mtk_chain (ds_memtable (cw_store ?x)) [1]) = []" "mtk_read [1] 2 None (ds_memtable (cw_store ?x)) = None"
    unfolding mem by (rule demo_pending)+
  with commit_window_breaks_snapshot [OF x reader demo_reader_other [symmetric] st _ y(3) v(1,2)] committed v(3) x
  show ?thesis by (intro exI [of _ ?x]) (simp add: mt_with_mode_def mt_with_capacity_def)
qed

end
