(* ===== verification/Concurrent_Mvcc.thy ===== *)
theory Concurrent_Mvcc
  imports Version_Chain
begin

text \<open>
  \<^verbatim>\<open>sochdb-storage/src/mvcc_concurrent.rs\<close>: coordination of several processes on one directory through a memory-mapped page with the
  clock, the writer lock and the table of readers, and the in-process version store.  This theory has every operation as one function on the page
  and the process's handle; \<open>Concurrent_Steps\<close> takes the lock-free ones apart into their atomic accesses.  The wall clock and
  \<^verbatim>\<open>process_exists\<close> are arguments.
\<close>

unbundle bit_operations_syntax

type_synonym u16 = "16 word"

subsection \<open>The hybrid logical clock\<close>

definition hlc_new :: "u64 \<Rightarrow> u16 \<Rightarrow> u64" where
  "hlc_new physical_ms logical = push_bit 16 physical_ms OR ucast logical"

definition hlc_physical_ms :: "u64 \<Rightarrow> u64" where
  "hlc_physical_ms ts = drop_bit 16 ts"

definition hlc_logical :: "u64 \<Rightarrow> u16" where
  "hlc_logical ts = ucast (ts AND 0xFFFF)"

definition u16_saturating_succ :: "u16 \<Rightarrow> u16" where
  "u16_saturating_succ x = (if x = 0xFFFF then 0xFFFF else x + 1)"

text \<open>What one pass through the loop of \<^verbatim>\<open>allocate_next\<close> offers to the compare-and-exchange.\<close>

definition hlc_next :: "u64 \<Rightarrow> u64 \<Rightarrow> u64" where
  "hlc_next physical_now last_val =
     (let last_phys = drop_bit 16 last_val;
          last_log = ucast (last_val AND 0xFFFF) :: u16;
          (new_phys, new_log) = (if physical_now > last_phys then (physical_now, 0) else (last_phys, u16_saturating_succ last_log))
      in push_bit 16 new_phys OR ucast new_log)"

definition allocate_next :: "u64 \<Rightarrow> u64 \<Rightarrow> u64 \<times> u64" where
  "allocate_next physical_now clock = (hlc_next physical_now clock, hlc_next physical_now clock)"

subsection \<open>Reader slots\<close>

definition MAX_READERS :: nat where
  "MAX_READERS = 1024"

definition STALE_READER_TIMEOUT_US :: u64 where
  "STALE_READER_TIMEOUT_US = 60000000"

definition GC_COMMIT_INTERVAL :: u64 where
  "GC_COMMIT_INTERVAL = 1000"

record ReaderSlot =
  rs_pid :: u32
  rs_snapshot_ts :: u64
  rs_epoch :: u32
  rs_last_heartbeat :: u64

definition reader_slot_empty :: ReaderSlot where
  "reader_slot_empty = \<lparr>rs_pid = 0, rs_snapshot_ts = 0, rs_epoch = 0, rs_last_heartbeat = 0\<rparr>"

definition rs_is_free :: "ReaderSlot \<Rightarrow> bool" where
  "rs_is_free s \<longleftrightarrow> rs_pid s = 0"

definition rs_try_claim :: "u64 \<Rightarrow> u32 \<Rightarrow> u64 \<Rightarrow> u32 \<Rightarrow> ReaderSlot \<Rightarrow> ReaderSlot \<times> bool" where
  "rs_try_claim now_us my_pid snapshot_ts epoch s =
     (if rs_pid s \<noteq> 0 \<and> rs_pid s \<noteq> my_pid then (s, False)
      else (\<lparr>rs_pid = my_pid, rs_snapshot_ts = snapshot_ts, rs_epoch = epoch, rs_last_heartbeat = now_us\<rparr>, True))"

definition rs_release :: "u32 \<Rightarrow> ReaderSlot \<Rightarrow> ReaderSlot" where
  "rs_release my_pid s = (if rs_pid s = my_pid then s\<lparr>rs_snapshot_ts := 0, rs_pid := 0\<rparr> else s)"

definition rs_heartbeat :: "u64 \<Rightarrow> ReaderSlot \<Rightarrow> ReaderSlot" where
  "rs_heartbeat now_us s = s\<lparr>rs_last_heartbeat := now_us\<rparr>"

definition u64_saturating_sub :: "u64 \<Rightarrow> u64 \<Rightarrow> u64" where
  "u64_saturating_sub a b = (if a < b then 0 else a - b)"

definition rs_is_stale :: "(u32 \<Rightarrow> bool) \<Rightarrow> u64 \<Rightarrow> ReaderSlot \<Rightarrow> bool" where
  "rs_is_stale process_exists now_us s =
     (if rs_pid s = 0 then False
      else if u64_saturating_sub now_us (rs_last_heartbeat s) > STALE_READER_TIMEOUT_US then True
      else \<not> process_exists (rs_pid s))"

subsection \<open>The shared page\<close>

definition MVCC_MAGIC :: u64 where
  "MVCC_MAGIC = 0x43435F564D484353"

definition MVCC_VERSION :: u32 where
  "MVCC_VERSION = 1"

record MvccHeader =
  mh_magic :: u64
  mh_version :: u32
  mh_page_size :: u32
  mh_num_readers :: u32
  mh_current_epoch :: u64
  mh_current_ts :: u64
  mh_writer_lock :: u32
  mh_commits_since_gc :: u64

definition mvcc_header_new :: "u64 \<Rightarrow> MvccHeader" where
  "mvcc_header_new now_ms =
     \<lparr>mh_magic = MVCC_MAGIC, mh_version = MVCC_VERSION, mh_page_size = 4096, mh_num_readers = of_nat MAX_READERS, mh_current_epoch = 1,
      mh_current_ts = hlc_new now_ms 0, mh_writer_lock = 0, mh_commits_since_gc = 0\<rparr>"

definition mvcc_header_validate :: "MvccHeader \<Rightarrow> unit result" where
  "mvcc_header_validate h =
     (if mh_magic h \<noteq> MVCC_MAGIC then Inl (Err (Corruption ''Invalid MVCC metadata magic''))
      else if mh_version h \<noteq> MVCC_VERSION
      then Inl (Err (Corruption (''Unsupported MVCC version: '' @ show_nat (unat (mh_version h)) @ '' (expected '' @ show_nat (unat MVCC_VERSION) @ '')'')))
      else Inr ())"

record SharedPage =
  sh_header :: MvccHeader
  sh_slots :: "ReaderSlot list"

subsection \<open>Versions of a key\<close>

record ConcurrentVersion =
  cv_commit_ts :: u64
  cv_txn_id :: u64
  cv_epoch :: u32
  cv_value :: "val option"

type_synonym ConcurrentChain = "ConcurrentVersion BinarySearchChain"

definition cv_is_visible_at :: "u64 \<Rightarrow> ConcurrentVersion \<Rightarrow> bool" where
  "cv_is_visible_at snapshot_ts v \<longleftrightarrow> cv_commit_ts v > 0 \<and> cv_commit_ts v < snapshot_ts"

definition concurrent_entry :: "ConcurrentVersion ChainEntry" where
  "concurrent_entry =
     \<lparr>ce_commit_ts = cv_commit_ts, ce_txn_id = cv_txn_id, ce_set_commit_ts = (\<lambda>ts v. v\<lparr>cv_commit_ts := ts\<rparr>)\<rparr>"

definition cvc_new :: ConcurrentChain where
  "cvc_new = bsc_new"

definition cvc_add_uncommitted :: "val option \<Rightarrow> u64 \<Rightarrow> u32 \<Rightarrow> ConcurrentChain \<Rightarrow> ConcurrentChain" where
  "cvc_add_uncommitted value txn_id epoch c =
     fst (bsc_set_uncommitted \<lparr>cv_commit_ts = 0, cv_txn_id = txn_id, cv_epoch = epoch, cv_value = value\<rparr> c)"

definition cvc_commit :: "u64 \<Rightarrow> u64 \<Rightarrow> ConcurrentChain \<Rightarrow> ConcurrentChain \<times> bool" where
  "cvc_commit txn_id commit_ts c = bsc_commit concurrent_entry txn_id commit_ts c"

definition cvc_abort :: "u64 \<Rightarrow> ConcurrentChain \<Rightarrow> ConcurrentChain" where
  "cvc_abort txn_id c = bsc_abort concurrent_entry txn_id c"

definition cvc_read_at :: "u64 \<Rightarrow> u64 option \<Rightarrow> ConcurrentChain \<Rightarrow> ConcurrentVersion option" where
  "cvc_read_at snapshot_ts current_txn_id c = bsc_read_at concurrent_entry snapshot_ts current_txn_id c"

definition cvc_has_write_conflict :: "u64 \<Rightarrow> ConcurrentChain \<Rightarrow> bool" where
  "cvc_has_write_conflict my_txn_id c = bsc_has_write_conflict concurrent_entry my_txn_id c"

fun gc_keep_loop :: "u32 \<Rightarrow> u64 \<Rightarrow> ConcurrentVersion list \<Rightarrow> nat" where
  "gc_keep_loop min_epoch min_snapshot_ts [] = 0"
| "gc_keep_loop min_epoch min_snapshot_ts (v # vs) =
     (if cv_epoch v \<ge> min_epoch \<or> cv_commit_ts v \<ge> min_snapshot_ts then 1 + gc_keep_loop min_epoch min_snapshot_ts vs else 0)"

definition cvc_gc :: "u32 \<Rightarrow> u64 \<Rightarrow> ConcurrentChain \<Rightarrow> ConcurrentChain \<times> nat" where
  "cvc_gc min_epoch min_snapshot_ts c =
     (let versions = bsc_committed c
      in if length versions \<le> 1 then (c, 0)
         else let keep_count = 1 + gc_keep_loop min_epoch min_snapshot_ts (drop 1 versions)
              in (c\<lparr>bsc_committed := take keep_count versions\<rparr>, length versions - length (take keep_count versions)))"

definition cvc_len :: "ConcurrentChain \<Rightarrow> nat" where
  "cvc_len c = bsc_version_count c"

definition cvc_is_empty :: "ConcurrentChain \<Rightarrow> bool" where
  "cvc_is_empty c = bsc_is_empty c"

definition cvc_get_visible :: "VisibilityContext \<Rightarrow> ConcurrentChain \<Rightarrow> val option option" where
  "cvc_get_visible ctx c = map_option cv_value (bsc_read_at concurrent_entry (ctx_snapshot_ts ctx) (Some (ctx_reader_txn_id ctx)) c)"

definition cvc_get_latest :: "ConcurrentChain \<Rightarrow> val option option" where
  "cvc_get_latest c = map_option cv_value (bsc_latest c)"

definition cvc_delete_version :: "u64 \<Rightarrow> ConcurrentChain \<Rightarrow> ConcurrentChain \<times> bool" where
  "cvc_delete_version txn_id c = (cvc_add_uncommitted None txn_id 0 c, True)"

text \<open>The size of a version in memory is an argument.\<close>

definition cvc_gc_stats :: "nat \<Rightarrow> u64 \<Rightarrow> ConcurrentChain \<Rightarrow> ConcurrentChain \<times> nat \<times> nat" where
  "cvc_gc_stats entry_size min_visible_ts c =
     (case cvc_gc 0 min_visible_ts c of (c', removed) \<Rightarrow> (c', removed, removed * entry_size))"

subsection \<open>The version store\<close>

record VersionStoreStats =
  vs_num_keys :: u64
  vs_num_versions :: u64
  vs_gc_passes :: u64
  vs_versions_reclaimed :: u64

record VersionStore =
  st_data :: "(key, ConcurrentChain) dashmap"
  st_stats :: VersionStoreStats

definition store_new :: VersionStore where
  "store_new = \<lparr>st_data = [], st_stats = \<lparr>vs_num_keys = 0, vs_num_versions = 0, vs_gc_passes = 0, vs_versions_reclaimed = 0\<rparr>\<rparr>"

text \<open>\<^verbatim>\<open>entry(key).or_insert_with(..)\<close>: the chain is there afterwards, and a new one is counted.\<close>

definition store_entry :: "key \<Rightarrow> VersionStore \<Rightarrow> VersionStore \<times> ConcurrentChain" where
  "store_entry key s =
     (case map_of (st_data s) key of
        Some c \<Rightarrow> (s, c)
      | None \<Rightarrow> (s\<lparr>st_data := dm_insert key cvc_new (st_data s), st_stats := (st_stats s)\<lparr>vs_num_keys := vs_num_keys (st_stats s) + 1\<rparr>\<rparr>, cvc_new))"

definition insert_uncommitted :: "key \<Rightarrow> val option \<Rightarrow> u64 \<Rightarrow> u32 \<Rightarrow> VersionStore \<Rightarrow> VersionStore \<times> unit result" where
  "insert_uncommitted key value txn_id epoch s =
     (case store_entry key s of
        (s1, c) \<Rightarrow>
          (if cvc_has_write_conflict txn_id c
           then (s1, Inl (Err (Internal ''Write conflict: another transaction has uncommitted write'')))
           else (s1\<lparr>st_data := dm_insert key (cvc_add_uncommitted value txn_id epoch c) (st_data s1),
                   st_stats := (st_stats s1)\<lparr>vs_num_versions := vs_num_versions (st_stats s1) + 1\<rparr>\<rparr>, Inr ())))"

definition store_commit :: "key \<Rightarrow> u64 \<Rightarrow> u64 \<Rightarrow> VersionStore \<Rightarrow> VersionStore \<times> bool" where
  "store_commit key txn_id commit_ts s =
     (case map_of (st_data s) key of
        Some c \<Rightarrow> (s\<lparr>st_data := dm_insert key (fst (cvc_commit txn_id commit_ts c)) (st_data s)\<rparr>, snd (cvc_commit txn_id commit_ts c))
      | None \<Rightarrow> (s, False))"

definition store_abort :: "key \<Rightarrow> u64 \<Rightarrow> VersionStore \<Rightarrow> VersionStore" where
  "store_abort key txn_id s =
     (case map_of (st_data s) key of
        Some c \<Rightarrow> s\<lparr>st_data := dm_insert key (cvc_abort txn_id c) (st_data s),
                   st_stats := (st_stats s)\<lparr>vs_num_versions := vs_num_versions (st_stats s) - 1\<rparr>\<rparr>
      | None \<Rightarrow> s)"

definition store_get :: "key \<Rightarrow> u64 \<Rightarrow> u64 option \<Rightarrow> VersionStore \<Rightarrow> val option" where
  "store_get key snapshot_ts current_txn_id s =
     Option.bind (map_of (st_data s) key) (\<lambda>chain. Option.bind (cvc_read_at snapshot_ts current_txn_id chain) cv_value)"

definition store_contains :: "key \<Rightarrow> u64 \<Rightarrow> VersionStore \<Rightarrow> bool" where
  "store_contains key snapshot_ts s =
     (case map_of (st_data s) key of Some chain \<Rightarrow> cvc_read_at snapshot_ts None chain \<noteq> None | None \<Rightarrow> False)"

definition store_gc :: "u32 \<Rightarrow> u64 \<Rightarrow> VersionStore \<Rightarrow> VersionStore \<times> nat" where
  "store_gc min_epoch min_snapshot_ts s =
     (let total_reclaimed = sum_list (map (\<lambda>(k, c). snd (cvc_gc min_epoch min_snapshot_ts c)) (st_data s));
          stats = st_stats s
      in (s\<lparr>st_data := dm_map (\<lambda>c. fst (cvc_gc min_epoch min_snapshot_ts c)) (st_data s),
            st_stats := stats\<lparr>vs_gc_passes := vs_gc_passes stats + 1,
                              vs_versions_reclaimed := vs_versions_reclaimed stats + of_nat total_reclaimed\<rparr>\<rparr>, total_reclaimed))"

definition store_len :: "VersionStore \<Rightarrow> nat" where
  "store_len s = length (st_data s)"

datatype MvccStoreError = MvccWriteConflict

definition mvcc_store_put :: "key \<Rightarrow> val option \<Rightarrow> u64 \<Rightarrow> VersionStore \<Rightarrow> VersionStore \<times> (MvccStoreError + unit)" where
  "mvcc_store_put key value txn_id s =
     (case store_entry key s of
        (s1, c) \<Rightarrow>
          (if cvc_has_write_conflict txn_id c then (s1, Inl MvccWriteConflict)
           else (s1\<lparr>st_data := dm_insert key (cvc_add_uncommitted value txn_id 0 c) (st_data s1),
                   st_stats := (st_stats s1)\<lparr>vs_num_versions := vs_num_versions (st_stats s1) + 1\<rparr>\<rparr>, Inr ())))"

definition mvcc_store_has_conflict :: "key \<Rightarrow> u64 \<Rightarrow> VersionStore \<Rightarrow> bool" where
  "mvcc_store_has_conflict key txn_id s =
     (case map_of (st_data s) key of Some chain \<Rightarrow> cvc_has_write_conflict txn_id chain | None \<Rightarrow> False)"

text \<open>\<^verbatim>\<open>MvccStore::mvcc_gc\<close>: the store, the number of keys scanned and the number of versions removed.\<close>

definition mvcc_store_gc :: "u64 \<Rightarrow> VersionStore \<Rightarrow> VersionStore \<times> nat \<times> nat" where
  "mvcc_store_gc min_ts s = (case store_gc 0 min_ts s of (s', removed) \<Rightarrow> (s', length (st_data s), removed))"

subsection \<open>The manager\<close>

record ConcurrentMvcc =
  cm_version_store :: VersionStore
  cm_our_pid :: u32
  cm_our_slot :: "nat option"

text \<open>
  \<^verbatim>\<open>open\<close>: the metadata file is absent, or holds a page; a file that is too short counts as the page it is after being extended with zeros.
\<close>

definition mvcc_open :: "u64 \<Rightarrow> u32 \<Rightarrow> SharedPage option \<Rightarrow> SharedPage \<times> ConcurrentMvcc result" where
  "mvcc_open now_ms our_pid file_page =
     (let m = \<lparr>cm_version_store = store_new, cm_our_pid = our_pid, cm_our_slot = None\<rparr>
      in case file_page of
           None \<Rightarrow> (\<lparr>sh_header = mvcc_header_new now_ms, sh_slots = replicate MAX_READERS reader_slot_empty\<rparr>, Inr m)
         | Some page \<Rightarrow> (page, try_bind (mvcc_header_validate (sh_header page)) (\<lambda>_. Inr m)))"

definition allocate_timestamp :: "u64 \<Rightarrow> SharedPage \<Rightarrow> SharedPage \<times> u64" where
  "allocate_timestamp now_ms page =
     (case allocate_next now_ms (mh_current_ts (sh_header page)) of
        (clock, ts) \<Rightarrow> (page\<lparr>sh_header := (sh_header page)\<lparr>mh_current_ts := clock\<rparr>\<rparr>, ts))"

fun claim_first :: "u64 \<Rightarrow> u32 \<Rightarrow> u64 \<Rightarrow> u32 \<Rightarrow> nat \<Rightarrow> ReaderSlot list \<Rightarrow> ReaderSlot list \<times> nat option" where
  "claim_first now_us pid ts epoch i [] = ([], None)"
| "claim_first now_us pid ts epoch i (s # ss) =
     (case rs_try_claim now_us pid ts epoch s of
        (s', True) \<Rightarrow> (s' # ss, Some i)
      | (s', False) \<Rightarrow> (case claim_first now_us pid ts epoch (i + 1) ss of (ss', r) \<Rightarrow> (s' # ss', r)))"

definition register_reader :: "u64 \<Rightarrow> SharedPage \<Rightarrow> ConcurrentMvcc \<Rightarrow> SharedPage \<times> ConcurrentMvcc \<times> nat result" where
  "register_reader now_us page m =
     (let snapshot_ts = mh_current_ts (sh_header page); epoch = ucast (mh_current_epoch (sh_header page)) :: u32
      in case claim_first now_us (cm_our_pid m) snapshot_ts epoch 0 (sh_slots page) of
           (slots, Some i) \<Rightarrow> (page\<lparr>sh_slots := slots\<rparr>, m\<lparr>cm_our_slot := Some i\<rparr>, Inr i)
         | (slots, None) \<Rightarrow> (page\<lparr>sh_slots := slots\<rparr>, m, Inl (Err (ResourceExhausted ''Too many concurrent readers''))))"

definition unregister_reader :: "nat \<Rightarrow> SharedPage \<Rightarrow> ConcurrentMvcc \<Rightarrow> SharedPage \<times> ConcurrentMvcc" where
  "unregister_reader slot_idx page m =
     (if slot_idx < length (sh_slots page)
      then (page\<lparr>sh_slots := (sh_slots page)[slot_idx := rs_release (cm_our_pid m) (sh_slots page ! slot_idx)]\<rparr>, m\<lparr>cm_our_slot := None\<rparr>)
      else (page, m))"

definition lock_held :: "u32 \<Rightarrow> 'a result" where
  "lock_held owner = Inl (Err (LockError (''Writer lock held by process '' @ show_nat (unat owner))))"

text \<open>
  On the page that the compare-and-exchange finds.  (A call that loaded 0 and then lost the exchange returns the same error with the loaded 0 in place of
  the winner's number in its text; the theory \<open>Concurrent_Steps\<close> has the load and the exchange as separate steps.)
\<close>

definition try_acquire_writer :: "u32 \<Rightarrow> SharedPage \<Rightarrow> SharedPage \<times> unit result" where
  "try_acquire_writer pid page =
     (let current = mh_writer_lock (sh_header page)
      in if current = 0 then (page\<lparr>sh_header := (sh_header page)\<lparr>mh_writer_lock := pid\<rparr>\<rparr>, Inr ())
         else if current = pid then (page, Inr ())
         else (page, lock_held current))"

text \<open>
  \<^verbatim>\<open>acquire_writer\<close>: the page that each attempt at \<^verbatim>\<open>try_acquire_writer\<close> finds and whether the deadline is still ahead after it; no
  answer while the loop is running.  An attempt that loses its compare-and-exchange is one that finds the winner's page.
\<close>

fun acquire_writer :: "u32 \<Rightarrow> (SharedPage \<times> bool) list \<Rightarrow> (SharedPage \<times> unit result) option" where
  "acquire_writer pid [] = None"
| "acquire_writer pid ((page, before_deadline) # later) =
     (case try_acquire_writer pid page of
        (page', Inr guard) \<Rightarrow> Some (page', Inr guard)
      | (page', Inl e) \<Rightarrow> (if before_deadline then acquire_writer pid later else Some (page', Inl e)))"

definition release_writer :: "u32 \<Rightarrow> SharedPage \<Rightarrow> SharedPage" where
  "release_writer pid page =
     (if mh_writer_lock (sh_header page) = pid then page\<lparr>sh_header := (sh_header page)\<lparr>mh_writer_lock := 0\<rparr>\<rparr> else page)"

fun min_snapshot_loop :: "u64 \<Rightarrow> ReaderSlot list \<Rightarrow> u64" where
  "min_snapshot_loop min_ts [] = min_ts"
| "min_snapshot_loop min_ts (s # ss) =
     min_snapshot_loop (if rs_pid s \<noteq> 0 \<and> rs_snapshot_ts s > 0 \<and> rs_snapshot_ts s < min_ts then rs_snapshot_ts s else min_ts) ss"

definition cm_min_active_snapshot :: "SharedPage \<Rightarrow> u64" where
  "cm_min_active_snapshot page = min_snapshot_loop (- 1) (sh_slots page)"

fun min_epoch_loop :: "u32 \<Rightarrow> ReaderSlot list \<Rightarrow> u32" where
  "min_epoch_loop min_epoch [] = min_epoch"
| "min_epoch_loop min_epoch (s # ss) =
     min_epoch_loop (if rs_pid s \<noteq> 0 \<and> rs_epoch s < min_epoch then rs_epoch s else min_epoch) ss"

definition cm_min_active_epoch :: "SharedPage \<Rightarrow> u32" where
  "cm_min_active_epoch page =
     (let min_epoch = min_epoch_loop (- 1) (sh_slots page)
      in if min_epoch = - 1 then ucast (mh_current_epoch (sh_header page)) else min_epoch)"

definition run_gc :: "SharedPage \<Rightarrow> ConcurrentMvcc \<Rightarrow> ConcurrentMvcc \<times> nat" where
  "run_gc page m =
     (case store_gc (cm_min_active_epoch page) (cm_min_active_snapshot page) (cm_version_store m) of
        (s, n) \<Rightarrow> (m\<lparr>cm_version_store := s\<rparr>, n))"

definition should_run_gc :: "SharedPage \<Rightarrow> bool" where
  "should_run_gc page \<longleftrightarrow> mh_commits_since_gc (sh_header page) \<ge> GC_COMMIT_INTERVAL"

definition on_commit :: "SharedPage \<Rightarrow> ConcurrentMvcc \<Rightarrow> SharedPage \<times> ConcurrentMvcc" where
  "on_commit page m =
     (let count = mh_commits_since_gc (sh_header page)
      in if count \<ge> GC_COMMIT_INTERVAL
         then (page\<lparr>sh_header := (sh_header page)\<lparr>mh_commits_since_gc := 0\<rparr>\<rparr>, fst (run_gc page m))
         else (page\<lparr>sh_header := (sh_header page)\<lparr>mh_commits_since_gc := count + 1\<rparr>\<rparr>, m))"

definition cleanup_stale_readers :: "(u32 \<Rightarrow> bool) \<Rightarrow> u64 \<Rightarrow> SharedPage \<Rightarrow> SharedPage \<times> nat" where
  "cleanup_stale_readers process_exists now_us page =
     (page\<lparr>sh_slots := map (\<lambda>s. if rs_is_stale process_exists now_us s then s\<lparr>rs_pid := 0\<rparr> else s) (sh_slots page)\<rparr>,
      length (filter (rs_is_stale process_exists now_us) (sh_slots page)))"

definition advance_epoch :: "SharedPage \<Rightarrow> SharedPage \<times> u64" where
  "advance_epoch page =
     (page\<lparr>sh_header := (sh_header page)\<lparr>mh_current_epoch := mh_current_epoch (sh_header page) + 1\<rparr>\<rparr>, mh_current_epoch (sh_header page) + 1)"

definition mvcc_drop :: "SharedPage \<Rightarrow> ConcurrentMvcc \<Rightarrow> SharedPage" where
  "mvcc_drop page m =
     release_writer (cm_our_pid m) (case cm_our_slot m of Some i \<Rightarrow> fst (unregister_reader i page m) | None \<Rightarrow> page)"

subsection \<open>The clock moves forward\<close>

lemma unat_bounds: "unat (x :: u64) < 18446744073709551616" "unat (l :: u16) < 65536"
proof -
  have "unat x < 2 ^ LENGTH(64)" "unat l < 2 ^ LENGTH(16)" by (rule unsigned_less)+
  then show "unat x < 18446744073709551616" "unat l < 65536" by simp_all
qed

lemma unat_hlc_physical: "unat (hlc_physical_ms ts) = unat ts div 65536"
  by (simp add: hlc_physical_ms_def drop_bit_eq_div unat_div)

lemma unat_hlc_logical: "unat (hlc_logical ts) = unat ts mod 65536"
proof -
  have "ts AND 0xFFFF = take_bit 16 ts" by (simp add: take_bit_eq_mask mask_eq_exp_minus_1)
  then have "unat (hlc_logical ts) = take_bit 16 (unat ts)" by (simp add: hlc_logical_def unsigned_ucast_eq unsigned_take_bit_eq)
  then show ?thesis by (simp add: take_bit_eq_mod)
qed

lemma unat_hlc_new:
  assumes "unat p < 281474976710656"
  shows "unat (hlc_new p l) = unat p * 65536 + unat l"
proof -
  have "push_bit 16 p AND ucast l = (0 :: u64)"
    by (rule bit_word_eqI) (auto simp: bit_simps dest: bit_imp_le_length)
  then have "hlc_new p l = push_bit 16 p + ucast l" by (simp add: hlc_new_def disjunctive_add_eq_or)
  also have "\<dots> = of_nat (unat p * 65536 + unat l)" by (simp add: push_bit_eq_mult)
  finally have h: "hlc_new p l = of_nat (unat p * 65536 + unat l)" .
  have "unat p * 65536 + unat l < 2 ^ LENGTH(64)" using assms unat_bounds(2) [of l] by simp
  then have "unat (of_nat (unat p * 65536 + unat l) :: u64) = unat p * 65536 + unat l" by (rule of_nat_inverse [OF refl])
  then show ?thesis unfolding h .
qed

lemma hlc_split: "unat ts = unat (hlc_physical_ms ts) * 65536 + unat (hlc_logical ts)"
  by (simp add: unat_hlc_physical unat_hlc_logical)

lemma hlc_physical_bound: "unat (hlc_physical_ms ts) < 281474976710656"
  using unat_bounds(1) [of ts] by (simp add: unat_hlc_physical)

lemma hlc_next_eq:
  "hlc_next now clock =
     (if now > hlc_physical_ms clock then hlc_new now 0
      else hlc_new (hlc_physical_ms clock) (u16_saturating_succ (hlc_logical clock)))"
  by (simp add: hlc_next_def hlc_new_def hlc_physical_ms_def hlc_logical_def Let_def)

text \<open>
  While the wall clock fits in 48 bits, the next timestamp is later than the one before, except when the counter is exhausted
  and the wall clock has not moved on: then it is the same one again.
\<close>

lemma hlc_next_later:
  assumes "now < 281474976710656"
  shows "clock < hlc_next now clock \<or> (hlc_next now clock = clock \<and> hlc_logical clock = 0xFFFF \<and> now \<le> hlc_physical_ms clock)"
proof (cases "now > hlc_physical_ms clock")
  case True
  have "unat now < 281474976710656" using assms by (simp add: word_less_nat_alt)
  then have "unat (hlc_next now clock) = unat now * 65536" using True by (simp add: hlc_next_eq unat_hlc_new)
  moreover have "unat (hlc_physical_ms clock) + 1 \<le> unat now" using True by (simp add: word_less_nat_alt)
  ultimately have "unat clock < unat (hlc_next now clock)"
    using hlc_split [of clock] unat_bounds(2) [of "hlc_logical clock"] by simp
  then show ?thesis by (simp add: word_less_nat_alt)
next
  case False
  note n = unat_hlc_new [OF hlc_physical_bound]
  show ?thesis
  proof (cases "hlc_logical clock = 0xFFFF")
    case True
    then have "unat (hlc_next now clock) = unat clock"
      using False hlc_split [of clock] by (simp add: hlc_next_eq u16_saturating_succ_def n)
    then show ?thesis using True False by (simp add: word_unat_eq_iff not_less)
  next
    case nt: False
    then have "unat (hlc_logical clock) \<noteq> 65535" by (simp add: word_unat_eq_iff)
    then have "unat (hlc_logical clock) + 1 < 65536" using unat_bounds(2) [of "hlc_logical clock"] by linarith
    then have "unat (hlc_logical clock + 1) = unat (hlc_logical clock) + 1" by (simp add: unat_word_ariths)
    then have "unat (hlc_next now clock) = unat clock + 1"
      using False nt hlc_split [of clock] by (simp add: hlc_next_eq u16_saturating_succ_def n)
    then show ?thesis by (simp add: word_less_nat_alt)
  qed
qed

lemma hlc_new_parts:
  assumes "p < 281474976710656"
  shows "hlc_physical_ms (hlc_new p l) = p" "hlc_logical (hlc_new p l) = l"
proof -
  have "unat p < 281474976710656" using assms by (simp add: word_less_nat_alt)
  note n = unat_hlc_new [OF this]
  show "hlc_physical_ms (hlc_new p l) = p" "hlc_logical (hlc_new p l) = l"
    using unat_bounds(2) [of l] by (simp_all add: word_unat_eq_iff unat_hlc_physical unat_hlc_logical n)
qed

subsection \<open>Chains of the store\<close>

lemma concurrent_entry_simps [simp]:
  "ce_commit_ts concurrent_entry = cv_commit_ts"
  "ce_txn_id concurrent_entry = cv_txn_id"
  "ce_set_commit_ts concurrent_entry ts v = v\<lparr>cv_commit_ts := ts\<rparr>"
  by (simp_all add: concurrent_entry_def)

interpretation con: chain_entry concurrent_entry
  by unfold_locales simp_all

definition cvc_wf :: "ConcurrentChain \<Rightarrow> bool" where
  "cvc_wf c = bsc_wf concurrent_entry c"

lemma cvc_wf_new [simp]: "cvc_wf cvc_new"
  by (simp add: cvc_wf_def cvc_new_def con.wf_new)

lemma cvc_wf_add [wf_intros]: "cvc_wf c \<Longrightarrow> cvc_wf (cvc_add_uncommitted x t e c)"
  by (simp add: cvc_wf_def cvc_add_uncommitted_def con.wf_set_uncommitted)

lemma cvc_wf_commit [wf_intros]: "cvc_wf c \<Longrightarrow> cvc_wf (fst (cvc_commit t cts c))"
  by (simp add: cvc_wf_def cvc_commit_def con.wf_commit)

lemma cvc_wf_abort [wf_intros]: "cvc_wf c \<Longrightarrow> cvc_wf (cvc_abort t c)"
  by (simp add: cvc_wf_def cvc_abort_def con.wf_abort)

lemma cvc_wf_gc [wf_intros]: "cvc_wf c \<Longrightarrow> cvc_wf (fst (cvc_gc e m c))"
  by (simp add: cvc_wf_def cvc_gc_def bsc_wf_def Let_def sorted_wrt_take)

lemma gc_keep_prefix: "\<forall>v \<in> set pre. m \<le> cv_commit_ts v \<Longrightarrow> gc_keep_loop e m (pre @ vs) = length pre + gc_keep_loop e m vs"
  by (induction pre) auto

lemma cvc_read_committed: "cvc_wf c \<Longrightarrow> cvc_read_at s None c = find (\<lambda>v. cv_commit_ts v < s) (bsc_committed c)"
  by (simp add: cvc_wf_def cvc_read_at_def con.read_at_eq)

lemma cvc_gc_committed:
  "bsc_committed (fst (cvc_gc e m c)) =
     (case bsc_committed c of [] \<Rightarrow> [] | v # vs \<Rightarrow> v # take (gc_keep_loop e m vs) vs)"
  by (auto simp: cvc_gc_def Let_def split: list.split)

lemma find_split:
  "find P xs = Some v \<Longrightarrow> \<exists>pre post. xs = pre @ v # post \<and> P v \<and> (\<forall>w \<in> set pre. \<not> P w)"
proof (induction xs)
  case (Cons x xs)
  show ?case
  proof (cases "P x")
    case True
    then show ?thesis using Cons.prems by (intro exI [of _ "[]"] exI [of _ xs]) simp
  next
    case False
    then obtain pre post where "xs = pre @ v # post" "P v" "\<forall>w \<in> set pre. \<not> P w" using Cons by auto
    then show ?thesis using False by (intro exI [of _ "x # pre"] exI [of _ post]) simp
  qed
qed simp

lemma find_append: "find P (xs @ ys) = (case find P xs of None \<Rightarrow> find P ys | Some x \<Rightarrow> Some x)"
  by (induction xs) auto

text \<open>What collection leaves of the version that a snapshot at or above the bound reads.\<close>

lemma cvc_read_gc:
  assumes wf: "cvc_wf c" and "m \<le> s" and read: "cvc_read_at s None c = Some v"
  shows "cvc_read_at s None (fst (cvc_gc e m c)) =
    (if bsc_latest_committed c = Some v \<or> e \<le> cv_epoch v \<or> m \<le> cv_commit_ts v then Some v else None)"
proof -
  obtain pre post where c: "bsc_committed c = pre @ v # post" and v: "cv_commit_ts v < s" and pre: "\<forall>w \<in> set pre. \<not> cv_commit_ts w < s"
    using find_split [OF read [unfolded cvc_read_committed [OF wf]]] by blast
  show ?thesis
  proof (cases pre)
    case Nil
    then show ?thesis using c v by (simp add: cvc_read_committed [OF cvc_wf_gc [OF wf]] cvc_gc_committed bsc_latest_committed_def)
  next
    case (Cons w ws)
    have "\<forall>u \<in> set ws. m \<le> cv_commit_ts u" using pre Cons assms(2) by auto
    then have "gc_keep_loop e m (ws @ v # post) = length ws + gc_keep_loop e m (v # post)" by (rule gc_keep_prefix)
    moreover have "w \<noteq> v" "\<not> cv_commit_ts w < s" "find (\<lambda>v. cv_commit_ts v < s) ws = None" using pre Cons v by (auto simp: find_None_iff)
    ultimately show ?thesis
      using c v Cons by (simp add: cvc_read_committed [OF cvc_wf_gc [OF wf]] cvc_gc_committed bsc_latest_committed_def find_append)
  qed
qed

lemma min_snapshot_le: "min_snapshot_loop m ss \<le> m"
  by (induction m ss rule: min_snapshot_loop.induct) (auto intro: order_trans split: if_splits)

lemma min_snapshot_reader:
  "s \<in> set ss \<Longrightarrow> rs_pid s \<noteq> 0 \<Longrightarrow> rs_snapshot_ts s > 0 \<Longrightarrow> min_snapshot_loop m ss \<le> rs_snapshot_ts s"
proof (induction m ss rule: min_snapshot_loop.induct)
  case (2 m s' ss)
  then show ?case using min_snapshot_le [of "rs_snapshot_ts s" ss] min_snapshot_le [of m ss] by (auto intro: order_trans)
qed simp

definition store_wf :: "VersionStore \<Rightarrow> bool" where
  "store_wf s \<longleftrightarrow> dm_wf (st_data s) \<and> list_all (\<lambda>(k, c). cvc_wf c) (st_data s)"

text \<open>
  Collection in the concurrent mode.  Of a version that a registered reader sees, collection keeps the newest of its key, those at or above the
  lowest snapshot and those of an epoch that some reader still has; any other is dropped, although the reader is registered so
  that it is kept.  In particular the reader with the lowest snapshot loses a version that was overwritten since, if it was written in an
  epoch before the readers'.
\<close>

lemma concurrent_gc_exact:
  assumes "store_wf (cm_version_store m)" "r \<in> set (sh_slots page)" "rs_pid r \<noteq> 0" "0 < rs_snapshot_ts r"
    and "map_of (st_data (cm_version_store m)) key = Some c" "cvc_read_at (rs_snapshot_ts r) None c = Some v"
  shows "store_get key (rs_snapshot_ts r) None (cm_version_store (fst (run_gc page m))) =
    (if bsc_latest_committed c = Some v \<or> cm_min_active_epoch page \<le> cv_epoch v \<or> cm_min_active_snapshot page \<le> cv_commit_ts v
     then cv_value v else None)"
proof -
  have "cvc_wf c" using assms(1,5) by (auto simp: store_wf_def list_all_iff dest: map_of_SomeD)
  moreover have "cm_min_active_snapshot page \<le> rs_snapshot_ts r"
    using min_snapshot_reader assms(2-4) by (simp add: cm_min_active_snapshot_def)
  ultimately show ?thesis
    using cvc_read_gc [of c "cm_min_active_snapshot page" "rs_snapshot_ts r" v "cm_min_active_epoch page"] assms(5,6)
    by (simp add: run_gc_def store_gc_def store_get_def Let_def)
qed

text \<open>A reader at snapshot 10 in epoch 2, and a key written in epoch 1 at times 5 and 20.\<close>

definition demo_reader :: ReaderSlot where
  "demo_reader = \<lparr>rs_pid = 7, rs_snapshot_ts = 10, rs_epoch = 2, rs_last_heartbeat = 0\<rparr>"

definition demo_page :: SharedPage where
  "demo_page = \<lparr>sh_header = mvcc_header_new 0, sh_slots = [demo_reader]\<rparr>"

definition demo_overwritten :: ConcurrentMvcc where
  "demo_overwritten =
     \<lparr>cm_version_store = store_new\<lparr>st_data :=
        [([1], \<lparr>bsc_committed = [\<lparr>cv_commit_ts = 20, cv_txn_id = 2, cv_epoch = 1, cv_value = Some [22]\<rparr>,
                                \<lparr>cv_commit_ts = 5, cv_txn_id = 1, cv_epoch = 1, cv_value = Some [11]\<rparr>], bsc_uncommitted = None\<rparr>)]\<rparr>,
      cm_our_pid = 9, cm_our_slot = None\<rparr>"

lemma collected_under_a_reader:
  "demo_reader \<in> set (sh_slots demo_page) \<and> store_get [1] 10 None (cm_version_store demo_overwritten) = Some [11] \<and>
   store_get [1] 10 None (cm_version_store (fst (run_gc demo_page demo_overwritten))) = None"
proof -
  let ?old = "\<lparr>cv_commit_ts = 5, cv_txn_id = 1, cv_epoch = 1, cv_value = Some [11]\<rparr> :: ConcurrentVersion"
  let ?c = "\<lparr>bsc_committed = [\<lparr>cv_commit_ts = 20, cv_txn_id = 2, cv_epoch = 1, cv_value = Some [22]\<rparr>, ?old], bsc_uncommitted = None\<rparr> :: ConcurrentChain"
  have wf: "cvc_wf ?c" by (simp add: cvc_wf_def bsc_wf_def)
  then have read: "cvc_read_at 10 None ?c = Some ?old" by (simp add: cvc_read_committed)
  have key: "map_of (st_data (cm_version_store demo_overwritten)) [1] = Some ?c" by (simp add: demo_overwritten_def)
  have "store_wf (cm_version_store demo_overwritten)" using wf by (simp add: store_wf_def demo_overwritten_def dm_wf_def)
  moreover have "\<not> (2 :: u32) \<le> 1" by (simp add: word_le_nat_alt)
  ultimately have "store_get [1] 10 None (cm_version_store (fst (run_gc demo_page demo_overwritten))) = None"
    using concurrent_gc_exact [of demo_overwritten demo_reader demo_page "[1]" ?c ?old] key read
    by (simp add: demo_reader_def demo_page_def cm_min_active_epoch_def cm_min_active_snapshot_def bsc_latest_committed_def)
  then show ?thesis using key read by (simp add: store_get_def demo_page_def)
qed

end
