(* ===== verification/Concurrent_Steps.thy ===== *)
theory Concurrent_Steps
  imports Concurrent_Mvcc
begin

text \<open>
  The lock-free parts of \<^verbatim>\<open>mvcc_concurrent.rs\<close> one atomic access at a time: the clock of \<open>HlcTimestamp::allocate_next\<close> and the
  writer lock of \<open>try_acquire_writer\<close> and \<open>release_writer\<close>.  A state holds the shared word and where each caller stands; every rule of a
  step relation is one load, store or compare-and-exchange of one caller, and the callers interleave freely.  The accesses to one
  word are totally ordered, which is what the memory model gives for a single atomic.
\<close>

subsection \<open>The clock\<close>

text \<open>Where a caller of \<^verbatim>\<open>allocate_next\<close> stands: outside, with the wall clock read, or with the clock word loaded too.\<close>

datatype clock_pc = CIdle | CLoop u64 | CLoaded u64 u64

text \<open>The log of the timestamps returned, newest first, is kept for the statements only.\<close>

record clock_state =
  ck_clock :: u64
  ck_pc :: "nat \<Rightarrow> clock_pc"
  ck_log :: "u64 list"

inductive clock_step :: "clock_state \<Rightarrow> clock_state \<Rightarrow> bool" where
  clock_enter: "ck_pc s t = CIdle \<Longrightarrow> physical_now < 281474976710656 \<Longrightarrow> clock_step s (s\<lparr>ck_pc := (ck_pc s)(t := CLoop physical_now)\<rparr>)"
| clock_load: "ck_pc s t = CLoop now \<Longrightarrow> clock_step s (s\<lparr>ck_pc := (ck_pc s)(t := CLoaded now (ck_clock s))\<rparr>)"
| clock_cas_ok:
    "ck_pc s t = CLoaded now last_val \<Longrightarrow> ck_clock s = last_val \<Longrightarrow>
     clock_step s (s\<lparr>ck_clock := hlc_next now last_val, ck_pc := (ck_pc s)(t := CIdle), ck_log := hlc_next now last_val # ck_log s\<rparr>)"
| clock_cas_fail:
    "ck_pc s t = CLoaded now last_val \<Longrightarrow> ck_clock s \<noteq> last_val \<Longrightarrow> clock_step s (s\<lparr>ck_pc := (ck_pc s)(t := CLoop now)\<rparr>)"

inductive_cases clock_stepE: "clock_step s s'"

definition clock_start :: "u64 \<Rightarrow> clock_state" where
  "clock_start clock = \<lparr>ck_clock = clock, ck_pc = (\<lambda>t. CIdle), ck_log = []\<rparr>"

text \<open>One timestamp after another: later, or the same one again with the counter exhausted.\<close>

definition stamp_after :: "u64 \<Rightarrow> u64 \<Rightarrow> bool" where
  "stamp_after new old \<longleftrightarrow> old < new \<or> (old = new \<and> hlc_logical new = 0xFFFF)"

lemma stamp_after_trans: "stamp_after c b \<Longrightarrow> stamp_after b a \<Longrightarrow> stamp_after c a"
  by (auto simp: stamp_after_def)

lemma hlc_next_after: "now < 281474976710656 \<Longrightarrow> stamp_after (hlc_next now clock) clock"
  using hlc_next_later [of now clock] by (auto simp: stamp_after_def)

definition pc_now_ok :: "clock_pc \<Rightarrow> bool" where
  "pc_now_ok pc = (case pc of CIdle \<Rightarrow> True | CLoop now \<Rightarrow> now < 281474976710656 | CLoaded now _ \<Rightarrow> now < 281474976710656)"

text \<open>The clock word is the newest timestamp, and the log with the initial clock below it is in order.\<close>

definition clock_inv :: "u64 \<Rightarrow> clock_state \<Rightarrow> bool" where
  "clock_inv clock0 s \<longleftrightarrow>
     ck_clock s = hd (ck_log s @ [clock0]) \<and> sorted_wrt stamp_after (ck_log s @ [clock0]) \<and> (\<forall>t. pc_now_ok (ck_pc s t))"

lemma clock_inv_pc: "clock_inv clock0 s \<Longrightarrow> pc_now_ok (ck_pc s t)"
  by (simp add: clock_inv_def)

lemma sorted_wrt_push:
  assumes "sorted_wrt stamp_after xs" "xs \<noteq> []" "stamp_after x (hd xs)"
  shows "sorted_wrt stamp_after (x # xs)"
  using assms by (cases xs) (auto intro: stamp_after_trans)

lemma clock_inv_step: "clock_step s s' \<Longrightarrow> clock_inv clock0 s \<Longrightarrow> clock_inv clock0 s'"
proof (induction rule: clock_step.induct)
  case (clock_cas_ok s t now last_val)
  note clock_inv_pc [OF clock_cas_ok.prems, of t]
  then have "stamp_after (hlc_next now last_val) last_val" using clock_cas_ok by (simp add: pc_now_ok_def hlc_next_after)
  then have "sorted_wrt stamp_after (hlc_next now last_val # ck_log s @ [clock0])"
    using clock_cas_ok by (intro sorted_wrt_push) (auto simp: clock_inv_def)
  then show ?case using clock_cas_ok by (simp add: clock_inv_def pc_now_ok_def)
next
  case (clock_load s t now)
  note clock_inv_pc [OF clock_load.prems, of t]
  then show ?case using clock_load by (auto simp: clock_inv_def pc_now_ok_def)
next
  case (clock_cas_fail s t now last_val)
  note clock_inv_pc [OF clock_cas_fail.prems, of t]
  then show ?case using clock_cas_fail by (auto simp: clock_inv_def pc_now_ok_def)
qed (auto simp: clock_inv_def pc_now_ok_def)

lemma clock_inv_steps: "clock_step\<^sup>*\<^sup>* s s' \<Longrightarrow> clock_inv clock0 s \<Longrightarrow> clock_inv clock0 s'"
  by (induction rule: rtranclp_induct) (auto intro: clock_inv_step)

lemma clock_inv_start: "clock_inv clock (clock_start clock)"
  by (simp add: clock_inv_def clock_start_def pc_now_ok_def)

lemma clock_reaches:
  assumes "clock_step\<^sup>*\<^sup>* (clock_start clock) s"
  shows "clock_inv clock s"
  using clock_inv_steps [OF assms clock_inv_start] .

text \<open>A caller that loses the compare-and-exchange lost it to one that took a later timestamp.\<close>

lemma clock_step_log: "clock_step s s' \<Longrightarrow> ck_clock s' = ck_clock s \<and> ck_log s' = ck_log s \<or> ck_log s' = ck_clock s' # ck_log s"
  by (auto elim!: clock_stepE)

lemma clock_progress:
  "clock_step\<^sup>*\<^sup>* s s' \<Longrightarrow>
   length (ck_log s) \<le> length (ck_log s') \<and> (ck_clock s' = ck_clock s \<or> length (ck_log s) < length (ck_log s'))"
proof (induction rule: rtranclp_induct)
  case (step y z)
  then show ?case using clock_step_log [OF step(2)] by auto
qed simp

text \<open>
  C15: the hybrid logical clock under any interleaving.  While the wall clock fits in 48 bits, the timestamps that concurrent calls of
  \<^verbatim>\<open>allocate_next\<close> return, in the order in which they take effect, are each later than all those before and than the
  clock they started from; the only exception is a timestamp whose 16-bit counter has reached its end, which is returned again
  for as long as the wall clock stands still.
\<close>

theorem stamps_increase:
  assumes "clock_step\<^sup>*\<^sup>* (clock_start clock) s" "i < j" "j < length (ck_log s)"
  shows "(ck_log s ! j < ck_log s ! i \<or> ck_log s ! j = ck_log s ! i \<and> hlc_logical (ck_log s ! i) = 0xFFFF) \<and> clock \<le> ck_log s ! j"
proof -
  have sorted: "sorted_wrt stamp_after (ck_log s @ [clock])" using clock_reaches [OF assms(1)] by (simp add: clock_inv_def)
  then have "stamp_after (ck_log s ! i) (ck_log s ! j)" using assms(2,3) by (simp add: sorted_wrt_append sorted_wrt_nth_less)
  moreover have "stamp_after (ck_log s ! j) clock" using sorted assms(3) by (simp add: sorted_wrt_append)
  ultimately show ?thesis by (auto simp: stamp_after_def)
qed

lemma clock_alone:
  assumes "ck_pc s t = CIdle" "now < 281474976710656"
  shows "clock_step\<^sup>*\<^sup>* s (s\<lparr>ck_clock := fst (allocate_next now (ck_clock s)), ck_log := snd (allocate_next now (ck_clock s)) # ck_log s\<rparr>)"
proof -
  let ?s1 = "s\<lparr>ck_pc := (ck_pc s)(t := CLoop now)\<rparr>"
  let ?s2 = "s\<lparr>ck_pc := (ck_pc s)(t := CLoaded now (ck_clock s))\<rparr>"
  have "clock_step s ?s1" using assms by (rule clock_enter)
  moreover have "clock_step ?s1 ?s2" using clock_load [of ?s1 t now] by simp
  moreover have "clock_step ?s2 (s\<lparr>ck_clock := hlc_next now (ck_clock s), ck_log := hlc_next now (ck_clock s) # ck_log s\<rparr>)"
    using clock_cas_ok [of ?s2 t now "ck_clock s"] assms(1) by (simp add: fun_upd_idem)
  ultimately show ?thesis by (simp add: allocate_next_def)
qed

theorem stamps_increase_witness:
  "\<exists>s. clock_step\<^sup>*\<^sup>* (clock_start 0) s \<and> ck_log s = [327681, 327680] \<and>
     (ck_log s ! 1 < ck_log s ! 0 \<or> ck_log s ! 1 = ck_log s ! 0 \<and> hlc_logical (ck_log s ! 0) = 0xFFFF) \<and> 0 \<le> ck_log s ! 1"
proof -
  let ?s1 = "clock_start 0\<lparr>ck_clock := 327680, ck_log := [327680]\<rparr>"
  let ?s2 = "clock_start 0\<lparr>ck_clock := 327681, ck_log := [327681, 327680]\<rparr>"
  have "clock_step\<^sup>*\<^sup>* (clock_start 0) ?s1"
    using clock_alone [of "clock_start 0" 0 5] by (simp add: clock_start_def allocate_next_def hlc_next_def)
  moreover have "clock_step\<^sup>*\<^sup>* ?s1 ?s2"
    using clock_alone [of ?s1 1 5] by (simp add: clock_start_def allocate_next_def hlc_next_def u16_saturating_succ_def)
  ultimately have r: "clock_step\<^sup>*\<^sup>* (clock_start 0) ?s2" by simp
  show ?thesis using r stamps_increase [OF r, of 0 1] by (intro exI [of _ ?s2]) simp
qed

subsection \<open>The writer lock\<close>

text \<open>
  A caller is one use of the lock, from \<^verbatim>\<open>try_acquire_writer\<close> to the drop of its guard: the process it runs in and a number
  within the process.  It is outside, has loaded the lock word, holds a guard, has loaded the word in \<^verbatim>\<open>release_writer\<close>, or its process
  is gone.
\<close>

type_synonym caller = "u32 \<times> nat"

datatype writer_pc = WIdle | WLoaded u32 | WGuard | WDrop u32 | WDead

record lock_state =
  lk_word :: u32
  lk_pc :: "caller \<Rightarrow> writer_pc"

definition set_pc :: "caller \<Rightarrow> writer_pc \<Rightarrow> lock_state \<Rightarrow> lock_state" where
  "set_pc t pc s = s\<lparr>lk_pc := (lk_pc s)(t := pc)\<rparr>"

lemma set_pc_simps [simp]: "lk_word (set_pc t pc s) = lk_word s" "lk_pc (set_pc t pc s) u = (if u = t then pc else lk_pc s u)"
  by (simp_all add: set_pc_def)

text \<open>
  \<open>lock_drop_handle\<close> is the \<^verbatim>\<open>release_writer\<close> of a handle that is closed; \<open>lock_crash\<close> is the end of a process at any point.
\<close>

inductive lock_step :: "caller set \<Rightarrow> lock_state \<Rightarrow> lock_state \<Rightarrow> bool" for callers where
  lock_load: "t \<in> callers \<Longrightarrow> lk_pc s t = WIdle \<Longrightarrow> lock_step callers s (set_pc t (WLoaded (lk_word s)) s)"
| lock_cas_ok: "t \<in> callers \<Longrightarrow> lk_pc s t = WLoaded 0 \<Longrightarrow> lk_word s = 0 \<Longrightarrow> lock_step callers s (set_pc t WGuard (s\<lparr>lk_word := fst t\<rparr>))"
| lock_cas_fail: "t \<in> callers \<Longrightarrow> lk_pc s t = WLoaded 0 \<Longrightarrow> lk_word s \<noteq> 0 \<Longrightarrow> lock_step callers s (set_pc t WIdle s)"
| lock_again: "t \<in> callers \<Longrightarrow> lk_pc s t = WLoaded c \<Longrightarrow> c \<noteq> 0 \<Longrightarrow> c = fst t \<Longrightarrow> lock_step callers s (set_pc t WGuard s)"
| lock_refused: "t \<in> callers \<Longrightarrow> lk_pc s t = WLoaded c \<Longrightarrow> c \<noteq> 0 \<Longrightarrow> c \<noteq> fst t \<Longrightarrow> lock_step callers s (set_pc t WIdle s)"
| lock_drop: "t \<in> callers \<Longrightarrow> lk_pc s t = WGuard \<Longrightarrow> lock_step callers s (set_pc t (WDrop (lk_word s)) s)"
| lock_drop_handle: "t \<in> callers \<Longrightarrow> lk_pc s t = WIdle \<Longrightarrow> lock_step callers s (set_pc t (WDrop (lk_word s)) s)"
| lock_store: "t \<in> callers \<Longrightarrow> lk_pc s t = WDrop c \<Longrightarrow> c = fst t \<Longrightarrow> lock_step callers s (set_pc t WIdle (s\<lparr>lk_word := 0\<rparr>))"
| lock_skip: "t \<in> callers \<Longrightarrow> lk_pc s t = WDrop c \<Longrightarrow> c \<noteq> fst t \<Longrightarrow> lock_step callers s (set_pc t WIdle s)"
| lock_crash: "t \<in> callers \<Longrightarrow> lock_step callers s (set_pc t WDead s)"

definition lock_start :: lock_state where
  "lock_start = \<lparr>lk_word = 0, lk_pc = (\<lambda>t. WIdle)\<rparr>"

text \<open>A caller is inside from the moment it has its guard until its release has stored zero.\<close>

definition lock_inside :: "lock_state \<Rightarrow> caller \<Rightarrow> bool" where
  "lock_inside s t \<longleftrightarrow> lk_pc s t = WGuard \<or> lk_pc s t = WDrop (fst t)"

definition one_per_process :: "caller set \<Rightarrow> bool" where
  "one_per_process callers \<longleftrightarrow> inj_on fst callers \<and> 0 \<notin> fst ` callers"

definition lock_inv :: "caller set \<Rightarrow> lock_state \<Rightarrow> bool" where
  "lock_inv callers s \<longleftrightarrow>
     (\<forall>t \<in> callers. (lock_inside s t \<longrightarrow> lk_word s = fst t) \<and> (lk_word s = fst t \<longrightarrow> lock_inside s t \<or> lk_pc s t = WDead) \<and>
                    lk_pc s t \<noteq> WLoaded (fst t))"

lemma lock_inv_start: "one_per_process callers \<Longrightarrow> lock_inv callers lock_start"
  by (auto simp: lock_inv_def lock_start_def lock_inside_def one_per_process_def image_iff)

lemma lock_inv_step:
  assumes "lock_step callers s s'" "one_per_process callers" "lock_inv callers s"
  shows "lock_inv callers s'"
  unfolding lock_inv_def
proof
  fix u assume u: "u \<in> callers"
  have inj: "fst t = fst u \<Longrightarrow> t = u" "0 < fst t" if "t \<in> callers" for t
    using assms(2) u that by (auto simp: one_per_process_def inj_on_def image_iff word_neq_0_conv)
  have inv: "lock_inside s t \<longrightarrow> lk_word s = fst t" "lk_word s = fst t \<longrightarrow> lock_inside s t \<or> lk_pc s t = WDead"
      "lk_pc s t \<noteq> WLoaded (fst t)" if "t \<in> callers" for t
    using assms(3) that by (auto simp: lock_inv_def)
  show "(lock_inside s' u \<longrightarrow> lk_word s' = fst u) \<and> (lk_word s' = fst u \<longrightarrow> lock_inside s' u \<or> lk_pc s' u = WDead) \<and> lk_pc s' u \<noteq> WLoaded (fst u)"
    using assms(1)
  proof cases
    case (lock_cas_ok t)
    then show ?thesis using inv [OF u] inj [of t] inj(2) [OF u] by (auto simp: lock_inside_def)
  next
    case (lock_store t c)
    have "lk_word s = fst t" using inv(1) [OF lock_store(2)] lock_store(3,4) by (simp add: lock_inside_def)
    then have "lock_inside s u \<Longrightarrow> t = u" using inv(1) [OF u] inj(1) [OF lock_store(2)] by simp
    then have "\<not> lock_inside s' u" using lock_store(1) by (cases "u = t") (simp_all add: lock_inside_def, metis)
    moreover have "lk_word s' = 0" "0 < fst u" using lock_store(1) inj(2) [OF u] by simp_all
    moreover have "lk_pc s' u \<noteq> WLoaded (fst u)" using lock_store(1) inv(3) [OF u] by simp
    ultimately show ?thesis by auto
  qed (use inv [OF u] in \<open>auto simp: lock_inside_def split: if_splits\<close>)
qed

lemma lock_inv_steps: "(lock_step callers)\<^sup>*\<^sup>* s s' \<Longrightarrow> one_per_process callers \<Longrightarrow> lock_inv callers s \<Longrightarrow> lock_inv callers s'"
  by (induction rule: rtranclp_induct) (auto intro: lock_inv_step)

lemma lock_reaches: "(lock_step callers)\<^sup>*\<^sup>* lock_start s \<Longrightarrow> one_per_process callers \<Longrightarrow> lock_inv callers s"
  by (rule lock_inv_steps) (auto intro: lock_inv_start)

text \<open>The steps of one caller with nobody in between.\<close>

lemma set_pc_twice [simp]: "set_pc t a (set_pc t b s) = set_pc t a s" "set_pc t a ((set_pc t b s)\<lparr>lk_word := w\<rparr>) = set_pc t a (s\<lparr>lk_word := w\<rparr>)"
  by (simp_all add: set_pc_def)

lemma lk_word_same: "lk_word s = w \<Longrightarrow> s\<lparr>lk_word := w\<rparr> = s"
  by auto

lemma lock_enter:
  assumes "t \<in> callers" "lk_pc s t = WIdle" "lk_word s = 0"
  shows "(lock_step callers)\<^sup>*\<^sup>* s (set_pc t WGuard (s\<lparr>lk_word := fst t\<rparr>))"
  using lock_load [OF assms(1,2)] lock_cas_ok [OF assms(1), of "set_pc t (WLoaded 0) s"] assms(3) by simp

lemma lock_reenter:
  assumes "t \<in> callers" "lk_pc s t = WIdle" "lk_word s = fst t" "fst t \<noteq> 0"
  shows "(lock_step callers)\<^sup>*\<^sup>* s (set_pc t WGuard s)"
  using lock_load [OF assms(1,2)] lock_again [OF assms(1), of "set_pc t (WLoaded (fst t)) s" "fst t"] assms(3,4) by simp

lemma lock_reject:
  assumes "t \<in> callers" "lk_pc s t = WIdle" "lk_word s \<noteq> fst t" "lk_word s \<noteq> 0"
  shows "(lock_step callers)\<^sup>*\<^sup>* s (set_pc t WIdle s)"
  using lock_load [OF assms(1,2)] lock_refused [OF assms(1), of "set_pc t (WLoaded (lk_word s)) s" "lk_word s"] assms(3,4) by simp

lemma lock_leave:
  assumes "t \<in> callers" "lk_pc s t = WGuard" "lk_word s = fst t"
  shows "(lock_step callers)\<^sup>*\<^sup>* s (set_pc t WIdle (s\<lparr>lk_word := 0\<rparr>))"
  using lock_drop [OF assms(1,2)] lock_store [OF assms(1), of "set_pc t (WDrop (fst t)) s" "fst t"] assms(3) by simp

lemma lock_leave_other:
  assumes "t \<in> callers" "lk_pc s t = WGuard" "lk_word s \<noteq> fst t"
  shows "(lock_step callers)\<^sup>*\<^sup>* s (set_pc t WIdle s)"
  using lock_drop [OF assms(1,2)] lock_skip [OF assms(1), of "set_pc t (WDrop (lk_word s)) s" "lk_word s"] assms(3) by simp

text \<open>They are what the operations of the model do.\<close>

lemma acquire_alone:
  assumes "t \<in> callers" "lk_pc s t = WIdle" "mh_writer_lock (sh_header page) = lk_word s" "fst t \<noteq> 0"
  shows "(lock_step callers)\<^sup>*\<^sup>* s
    (set_pc t (case snd (try_acquire_writer (fst t) page) of Inr _ \<Rightarrow> WGuard | Inl _ \<Rightarrow> WIdle)
       (s\<lparr>lk_word := mh_writer_lock (sh_header (fst (try_acquire_writer (fst t) page)))\<rparr>))"
  using lock_enter [OF assms(1,2)] lock_reenter [OF assms(1,2) _ assms(4)] lock_reject [OF assms(1,2)] assms(3)
  by (auto simp: try_acquire_writer_def Let_def lock_held_def lk_word_same)

lemma release_alone:
  assumes "t \<in> callers" "lk_pc s t = WGuard" "mh_writer_lock (sh_header page) = lk_word s"
  shows "(lock_step callers)\<^sup>*\<^sup>* s (set_pc t WIdle (s\<lparr>lk_word := mh_writer_lock (sh_header (release_writer (fst t) page))\<rparr>))"
  using lock_leave [OF assms(1,2)] lock_leave_other [OF assms(1,2)] assms(3)
  by (auto simp: release_writer_def lk_word_same)

text \<open>
  C14: at most one writer.  When every process uses the lock from one place at a time, no interleaving of loads, compare-and-exchanges
  and stores, with processes dying at any point, lets two callers be inside at once; the word then names the one that is.
\<close>

theorem one_writer_at_a_time:
  assumes "one_per_process callers" "(lock_step callers)\<^sup>*\<^sup>* lock_start s" "t \<in> callers" "lock_inside s t"
  shows "lk_word s = fst t \<and> (\<forall>u \<in> callers. lock_inside s u \<longrightarrow> u = t)"
proof -
  have inv: "\<forall>u \<in> callers. lock_inside s u \<longrightarrow> lk_word s = fst u"
    using lock_reaches [OF assms(2,1)] by (auto simp: lock_inv_def)
  have "u = t" if "u \<in> callers" "lock_inside s u" for u
  proof (rule inj_onD)
    show "inj_on fst callers" using assms(1) by (simp add: one_per_process_def)
    show "fst u = fst t" using inv assms(3,4) that by metis
  qed (use assms(3) that in simp_all)
  then show ?thesis using inv assms(3,4) by blast
qed

theorem one_writer_at_a_time_witness:
  "\<exists>s. (lock_step {(7, 0), (9, 0)})\<^sup>*\<^sup>* lock_start s \<and> lock_inside s (7, 0) \<and> lk_word s = 7 \<and> \<not> lock_inside s (9, 0)"
proof -
  let ?T = "{(7, 0), (9, 0)} :: caller set" and ?s = "set_pc (7, 0) WGuard (lock_start\<lparr>lk_word := 7\<rparr>)"
  have r: "(lock_step ?T)\<^sup>*\<^sup>* lock_start ?s" using lock_enter [of "(7, 0)" ?T lock_start] by (simp add: lock_start_def)
  moreover have "one_per_process ?T" by (simp add: one_per_process_def)
  moreover have inside: "lock_inside ?s (7, 0)" by (simp add: lock_inside_def)
  ultimately have "lk_word ?s = fst (7 :: u32, 0 :: nat) \<and> (\<forall>u \<in> ?T. lock_inside ?s u \<longrightarrow> u = (7, 0))"
    by (intro one_writer_at_a_time) auto
  then show ?thesis using r inside by (intro exI [of _ ?s]) auto
qed

text \<open>
  C33: two threads of one process break the lock.  The lock is reentrant by process and does not count: a second thread of the owner gets a guard
  too, the first one's release frees the word, and then another process is inside together with the second thread.
\<close>

theorem threads_break_the_lock:
  assumes "p \<noteq> 0" "q \<noteq> 0" "p \<noteq> q"
  shows "\<exists>s. (lock_step {(p, 0), (p, 1), (q, 0)})\<^sup>*\<^sup>* lock_start s \<and> lock_inside s (p, 1) \<and> lock_inside s (q, 0)"
proof -
  let ?T = "{(p, 0), (p, 1), (q, 0)} :: caller set"
  let ?s1 = "set_pc (p, 0) WGuard (lock_start\<lparr>lk_word := p\<rparr>)"
  let ?s2 = "set_pc (p, 1) WGuard ?s1"
  let ?s3 = "set_pc (p, 0) WIdle (?s2\<lparr>lk_word := 0\<rparr>)"
  let ?s4 = "set_pc (q, 0) WGuard (?s3\<lparr>lk_word := q\<rparr>)"
  have "(lock_step ?T)\<^sup>*\<^sup>* lock_start ?s1" using lock_enter [of "(p, 0)" ?T lock_start] by (simp add: lock_start_def)
  moreover have "(lock_step ?T)\<^sup>*\<^sup>* ?s1 ?s2" using lock_reenter [of "(p, 1)" ?T ?s1] assms by (simp add: lock_start_def)
  moreover have "(lock_step ?T)\<^sup>*\<^sup>* ?s2 ?s3" using lock_leave [of "(p, 0)" ?T ?s2] by simp
  moreover have "(lock_step ?T)\<^sup>*\<^sup>* ?s3 ?s4" using lock_enter [of "(q, 0)" ?T ?s3] assms by (simp add: lock_start_def)
  ultimately have "(lock_step ?T)\<^sup>*\<^sup>* lock_start ?s4" by (meson rtranclp_trans)
  then show ?thesis using assms by (intro exI [of _ ?s4]) (simp add: lock_inside_def)
qed

theorem threads_break_the_lock_witness:
  "\<exists>s. (lock_step {(7, 0), (7, 1), (9, 0)})\<^sup>*\<^sup>* lock_start s \<and> lock_inside s (7, 1) \<and> lock_inside s (9, 0)"
  using threads_break_the_lock [of 7 9] by simp

lemma lock_stays:
  assumes "lock_step callers s s'" "lock_inv callers s" "0 < fst t"
    and "lk_word s = fst t" "lk_pc s t = WDead" "\<forall>u \<in> callers. \<not> lock_inside s u"
  shows "lk_word s' = fst t \<and> lk_pc s' t = WDead \<and> (\<forall>u \<in> callers. \<not> lock_inside s' u)"
proof -
  have loaded: "lk_pc s u \<noteq> WLoaded (fst u)" and dead: "fst t = fst u \<Longrightarrow> lk_pc s u = WDead" if "u \<in> callers" for u
    using assms(2,4,6) that by (auto simp: lock_inv_def)
  show ?thesis using assms(1)
  proof cases
    case (lock_drop_handle u)
    then have "fst t \<noteq> fst u" using dead [of u] by auto
    then show ?thesis using lock_drop_handle assms(4-6) by (auto simp: lock_inside_def)
  qed (use assms(3-6) loaded in \<open>auto simp: lock_inside_def\<close>)
qed

text \<open>
  the lock of a process that died is never free again.  If a process ends while it holds the lock, the word keeps its number for ever: in every
  later state of every interleaving nobody is inside, because nothing but the owner's own release clears the word.
\<close>

lemma dead_writer_keeps_the_lock:
  assumes "one_per_process callers" "(lock_step callers)\<^sup>*\<^sup>* lock_start s" "t \<in> callers" "lk_pc s t = WDead" "lk_word s = fst t"
    and "(lock_step callers)\<^sup>*\<^sup>* s s'"
  shows "lk_word s' = fst t \<and> lk_pc s' t = WDead \<and> (\<forall>u \<in> callers. \<not> lock_inside s' u)"
  using assms(6)
proof (induction rule: rtranclp_induct)
  case base
  have "\<forall>u \<in> callers. lock_inside s u \<longrightarrow> u = t"
    using lock_reaches [OF assms(2,1)] assms(1,3,5) by (auto simp: lock_inv_def one_per_process_def inj_on_def)
  then show ?case using assms(4,5) by (auto simp: lock_inside_def)
next
  case (step y z)
  have "0 < fst t" using assms(1,3) by (auto simp: one_per_process_def image_iff word_neq_0_conv)
  moreover have "lock_inv callers y" using lock_reaches [OF rtranclp_trans [OF assms(2) step(1)] assms(1)] .
  ultimately show ?case using step.IH by (intro lock_stays [OF step(2)]) auto
qed

end
