(* ===== verification/Database_Query.thy ===== *)
theory Database_Query
  imports Database_Kernel
begin

text \<open>
  \<^verbatim>\<open>QueryBuilder\<close>, \<^verbatim>\<open>QueryResult\<close> and \<^verbatim>\<open>QueryRowIterator\<close> of \<^verbatim>\<open>sochdb-storage/src/database.rs\<close>: the
  materialising query, the lazy one and the value format of rows stored column by column.
\<close>

subsection \<open>Values stored one by one\<close>

text \<open>
  The debug text of the remaining constructors (\<^verbatim>\<open>format!("{:?}", value)\<close>) is the parameter \<open>dbg\<close>.
\<close>

definition serialize_value :: "(SochValue \<Rightarrow> bytes) \<Rightarrow> SochValue \<Rightarrow> bytes" where
  "serialize_value dbg v =
     (case v of
        VNull \<Rightarrow> [0]
      | VInt i \<Rightarrow> 1 # le_bytes 8 (unat i)
      | VUInt u \<Rightarrow> 2 # le_bytes 8 (unat u)
      | VFloat f \<Rightarrow> 3 # le_bytes 8 (unat f)
      | VText s \<Rightarrow> 4 # s
      | VBool b \<Rightarrow> [5, if b then 1 else 0]
      | VBinary b \<Rightarrow> 6 # b
      | _ \<Rightarrow> 4 # dbg v)"

definition deserialize_value :: "bytes \<Rightarrow> SochValue" where
  "deserialize_value bs =
     (case bs of
        [] \<Rightarrow> VNull
      | b # rest \<Rightarrow>
          if b = 0 then VNull
          else if b = 1 \<and> 9 \<le> length bs then VInt (word_of_nat (of_le_bytes (take 8 rest)))
          else if b = 2 \<and> 9 \<le> length bs then VUInt (word_of_nat (of_le_bytes (take 8 rest)))
          else if b = 3 \<and> 9 \<le> length bs then VFloat (word_of_nat (of_le_bytes (take 8 rest)))
          else if b = 4 then VText (utf8_lossy rest)
          else if b = 5 \<and> 2 \<le> length bs then VBool (rest ! 0 \<noteq> 0)
          else if b = 6 then VBinary rest
          else VText (utf8_lossy bs))"

subsection \<open>The query builder\<close>

record QueryBuilder =
  qb_txn :: TxnHandle
  qb_path_prefix :: bytes
  qb_columns :: "bytes list option"
  qb_limit :: "nat option"
  qb_offset :: "nat option"

definition qb_new :: "TxnHandle \<Rightarrow> bytes \<Rightarrow> QueryBuilder" where
  "qb_new txn path_prefix =
     \<lparr>qb_txn = txn, qb_path_prefix = path_prefix, qb_columns = None, qb_limit = None, qb_offset = None\<rparr>"

definition db_query :: "TxnHandle \<Rightarrow> bytes \<Rightarrow> QueryBuilder" where
  "db_query txn path_prefix = qb_new txn path_prefix"

definition qb_set_columns :: "bytes list \<Rightarrow> QueryBuilder \<Rightarrow> QueryBuilder" where
  "qb_set_columns cols q = q\<lparr>qb_columns := Some cols\<rparr>"

definition qb_set_limit :: "nat \<Rightarrow> QueryBuilder \<Rightarrow> QueryBuilder" where
  "qb_set_limit n q = q\<lparr>qb_limit := Some n\<rparr>"

definition qb_set_offset :: "nat \<Rightarrow> QueryBuilder \<Rightarrow> QueryBuilder" where
  "qb_set_offset n q = q\<lparr>qb_offset := Some n\<rparr>"

type_synonym row_map = "(bytes, SochValue) dashmap"

record QueryResult =
  qr_columns :: "bytes list"
  qr_rows :: "row_map list"
  qr_rows_scanned :: nat
  qr_bytes_read :: nat

text \<open>The rows of a registered table.\<close>

definition unpack_selected :: "PackedTableSchema \<Rightarrow> bytes list option \<Rightarrow> PackedRow \<Rightarrow> row_map result" where
  "unpack_selected ps cols row = (case cols of Some cs \<Rightarrow> project_row ps row cs [] | None \<Rightarrow> pr_unpack ps row)"

definition is_row_path :: "bytes \<Rightarrow> bool" where
  "is_row_path path \<longleftrightarrow> length (split_on 47 path) = 2"

fun table_rows :: "PackedTableSchema \<Rightarrow> bytes list option \<Rightarrow> (bytes \<times> val) list \<Rightarrow> (row_map list \<times> nat) result" where
  "table_rows ps cols [] = Inr ([], 0)"
| "table_rows ps cols ((path, data) # results) =
     (if \<not> is_row_path path then table_rows ps cols results
      else case pr_from_bytes data (ps_num_columns ps) of
             Inl _ \<Rightarrow> try_bind (table_rows ps cols results) (\<lambda>(rows, n). Inr (rows, length data + n))
           | Inr packed_row \<Rightarrow>
               try_bind (unpack_selected ps cols packed_row) (\<lambda>row.
               try_bind (table_rows ps cols results) (\<lambda>(rows, n).
                 Inr (if row \<noteq> [] then row # rows else rows, length data + n))))"

text \<open>Rows stored one key per column, grouped by the first two parts of the path.\<close>

fun legacy_rows :: "bytes list option \<Rightarrow> (bytes \<times> val) list \<Rightarrow> (bytes, row_map) dashmap \<times> nat \<Rightarrow> (bytes, row_map) dashmap \<times> nat" where
  "legacy_rows cols [] acc = acc"
| "legacy_rows cols ((path, data) # results) (m, n) =
     (let parts = split_on 47 path
      in if 3 \<le> length parts
         then let row_key = parts ! 0 @ [47] @ parts ! 1; col_name = join_with 47 (drop 2 parts)
              in if (case cols of Some cs \<Rightarrow> col_name \<notin> set cs | None \<Rightarrow> False) then legacy_rows cols results (m, n)
                 else let row = (case map_of m row_key of Some r \<Rightarrow> r | None \<Rightarrow> [])
                      in legacy_rows cols results (dm_insert row_key (dm_insert col_name (deserialize_value data) row) m, n + length data)
         else legacy_rows cols results (m, n))"

definition page :: "QueryBuilder \<Rightarrow> 'a list \<Rightarrow> 'a list" where
  "page q rows =
     (let rows = (case qb_offset q of Some n \<Rightarrow> drop n rows | None \<Rightarrow> rows)
      in case qb_limit q of Some n \<Rightarrow> take n rows | None \<Rightarrow> rows)"

definition query_table :: "QueryBuilder \<Rightarrow> bytes" where
  "query_table q = hd (split_on 47 (qb_path_prefix q))"

definition scan_prefix_of :: "Database \<Rightarrow> QueryBuilder \<Rightarrow> bytes" where
  "scan_prefix_of db q =
     (if map_of (db_tables db) (query_table q) \<noteq> None \<and> 47 \<notin> set (qb_path_prefix q) then qb_path_prefix q @ [47] else qb_path_prefix q)"

definition query_rows :: "Database \<Rightarrow> QueryBuilder \<Rightarrow> (bytes \<times> val) list \<Rightarrow> (row_map list \<times> nat) result" where
  "query_rows db q results =
     (case map_of (db_tables db) (query_table q) of
        Some schema \<Rightarrow>
          table_rows (case map_of (db_packed_schemas db) (query_table q) of Some ps \<Rightarrow> ps | None \<Rightarrow> to_packed_schema schema)
            (qb_columns q) results
      | None \<Rightarrow> (let (m, n) = legacy_rows (qb_columns q) results ([], 0) in Inr (map snd m, n)))"

definition qb_execute :: "QueryBuilder \<Rightarrow> Database \<Rightarrow> Database \<times> QueryResult result" where
  "qb_execute q db =
     (let db = count_query db
      in case db_scan_path (qb_txn q) (scan_prefix_of db q) db of
           (db, Inl e) \<Rightarrow> (db, Inl e)
         | (db, Inr results) \<Rightarrow>
             (db, try_bind (query_rows db q results) (\<lambda>(rows, bytes_read).
                    let rows = page q rows
                    in Inr \<lparr>qr_columns = (case qb_columns q of Some cs \<Rightarrow> cs | None \<Rightarrow> remdups (concat (map (map fst) rows))),
                            qr_rows = rows, qr_rows_scanned = length rows, qr_bytes_read = bytes_read\<rparr>)))"

subsection \<open>The lazy query\<close>

record QueryRowIterator =
  qri_results :: "(bytes \<times> val) list"
  qri_packed_schema :: "PackedTableSchema option"
  qri_columns :: "bytes list option"
  qri_offset :: nat
  qri_limit :: "nat option"
  qri_yielded :: nat
  qri_skipped :: nat

definition qb_execute_iter :: "QueryBuilder \<Rightarrow> Database \<Rightarrow> Database \<times> QueryRowIterator result" where
  "qb_execute_iter q db =
     (let db = count_query db; packed_schema = map_of (db_packed_schemas db) (query_table q)
      in case db_scan_path (qb_txn q) (qb_path_prefix q) db of
           (db, Inl e) \<Rightarrow> (db, Inl e)
         | (db, Inr results) \<Rightarrow>
             (db, Inr \<lparr>qri_results = results, qri_packed_schema = packed_schema, qri_columns = qb_columns q,
                       qri_offset = (case qb_offset q of Some n \<Rightarrow> n | None \<Rightarrow> 0), qri_limit = qb_limit q,
                       qri_yielded = 0, qri_skipped = 0\<rparr>))"

fun project_vec :: "PackedTableSchema \<Rightarrow> PackedRow \<Rightarrow> bytes list \<Rightarrow> SochValue list result" where
  "project_vec ps row [] = Inr []"
| "project_vec ps row (c # cs) =
     try_bind (get_by_name ps c row) (\<lambda>ov.
     try_bind (project_vec ps row cs) (\<lambda>vs. Inr ((case ov of Some v \<Rightarrow> v | None \<Rightarrow> VNull) # vs)))"

definition row_vec :: "PackedTableSchema \<Rightarrow> bytes list option \<Rightarrow> PackedRow \<Rightarrow> SochValue list result" where
  "row_vec ps cols row = (case cols of Some cs \<Rightarrow> project_vec ps row cs | None \<Rightarrow> unpack_to_vec ps row)"

text \<open>
  The loop of \<^verbatim>\<open>next\<close> over the remaining results: the skip counter, what is left, and the item with whether it
  counts as yielded (a row that does not decode is returned as an error without being counted).
\<close>

fun next_row ::
    "PackedTableSchema option \<Rightarrow> bytes list option \<Rightarrow> nat \<Rightarrow> nat \<Rightarrow> (bytes \<times> val) list \<Rightarrow>
     nat \<times> (bytes \<times> val) list \<times> (bool \<times> SochValue list result) option" where
  "next_row schema cols offs skipped [] = (skipped, [], None)"
| "next_row schema cols offs skipped ((path, data) # results) =
     (if \<not> is_row_path path then next_row schema cols offs skipped results
      else if skipped < offs then next_row schema cols offs (skipped + 1) results
      else (skipped, results, Some
        (case schema of
           None \<Rightarrow> (True, Inr [VBinary data])
         | Some ps \<Rightarrow>
             (case pr_from_bytes data (ps_num_columns ps) of
                Inl e \<Rightarrow> (False, Inl e)
              | Inr row \<Rightarrow> (True, row_vec ps cols row)))))"

definition qri_next :: "QueryRowIterator \<Rightarrow> QueryRowIterator \<times> SochValue list result option" where
  "qri_next it =
     (if (case qri_limit it of Some n \<Rightarrow> n \<le> qri_yielded it | None \<Rightarrow> False) then (it, None)
      else let (skipped, results, item) =
                 next_row (qri_packed_schema it) (qri_columns it) (qri_offset it) (qri_skipped it) (qri_results it);
               it = it\<lparr>qri_skipped := skipped, qri_results := results\<rparr>
           in case item of
                None \<Rightarrow> (it, None)
              | Some (counted, r) \<Rightarrow> (if counted then it\<lparr>qri_yielded := qri_yielded it + 1\<rparr> else it, Some r))"

text \<open>A client loop over the iterator: it ends because every item consumes a result of the scan.\<close>

lemma next_row_length:
  "next_row schema cols offs skipped results = (skipped', results', Some item) \<Longrightarrow> length results' < length results"
  by (induction schema cols offs skipped results arbitrary: skipped' rule: next_row.induct) (auto split: if_splits)

lemma qri_next_length: "qri_next it = (it', Some r) \<Longrightarrow> length (qri_results it') < length (qri_results it)"
  by (auto simp: qri_next_def Let_def dest!: next_row_length split: if_splits prod.splits option.splits)

function qri_collect :: "QueryRowIterator \<Rightarrow> SochValue list result list" where
  "qri_collect it = (case qri_next it of (it', Some r) \<Rightarrow> r # qri_collect it' | (_, None) \<Rightarrow> [])"
  by pat_completeness auto
termination
  by (relation "measure (\<lambda>it. length (qri_results it))") (auto dest: qri_next_length [OF sym])

declare qri_collect.simps [simp del]

end
