(* ===== verification/Database_Properties.thy ===== *)
theory Database_Properties
  imports Database_Query
begin

text \<open>
  The kernel keeps the engine's invariant and its two schema maps in step; rows that were inserted are
  read back, by the inserting transaction and after a crash; queries return the rows of their table.
\<close>

subsection \<open>Reachable databases\<close>

text \<open>
  A database is opened on some directory, tables are registered and changed, and every other operation
  is a step of the storage engine that leaves the schemas alone.
\<close>

inductive db_reachable :: "ds_env \<Rightarrow> Database \<Rightarrow> bool" for E where
  opened: "ds_open_with_policy E (cfg_default_index_policy config) (cfg_group_commit config) lock keyring disk tick = Inr s \<Longrightarrow>
     ds_room s \<Longrightarrow> db_open_with_config_and_encryption E config lock keyring disk tick = Inr db \<Longrightarrow> db_reachable E db"
| registered: "db_reachable E db \<Longrightarrow> db_reachable E (fst (db_register_table schema db))"
| updated: "db_reachable E db \<Longrightarrow> db_reachable E (fst (db_update_table_schema name schema db))"
| storage: "db_reachable E db \<Longrightarrow> ds_room (db_storage db) \<Longrightarrow> db_storage db' = ds_step E op (db_storage db) \<Longrightarrow>
     db_tables db' = db_tables db \<Longrightarrow> db_packed_schemas db' = db_packed_schemas db \<Longrightarrow> db_reachable E db'"

definition catalog_ok :: "Database \<Rightarrow> bool" where
  "catalog_ok db \<longleftrightarrow>
     (\<forall>name. map_of (db_packed_schemas db) name = map_option to_packed_schema (map_of (db_tables db) name)) \<and>
     (\<forall>name schema. map_of (db_tables db) name = Some schema \<longrightarrow> ts_name schema = name)"

lemma catalog_ok_put: "catalog_ok db \<Longrightarrow> catalog_ok (put_schema schema db)"
  by (simp add: catalog_ok_def put_schema_def)

lemma catalog_ok_remove:
  "catalog_ok db \<Longrightarrow>
     catalog_ok (db\<lparr>db_tables := dm_remove name (db_tables db), db_packed_schemas := dm_remove name (db_packed_schemas db)\<rparr>)"
  by (simp add: catalog_ok_def)

lemma db_reachable_invariant: "db_reachable E db \<Longrightarrow> ds_wf E (db_storage db) \<and> catalog_ok db"
proof (induction rule: db_reachable.induct)
  case (opened config lock keyring disk tick s db)
  let ?s = "ds_set_sync_mode (ucast (sync_to_sqlite_pragma (cfg_sync_mode config))) s"
  have "ds_wf E s" by (rule ds_reachable_wf [OF ds_open_with_policy_reachable [OF opened(1)]])
  then have "ds_wf E ?s" "ds_room ?s" using opened(2) by (simp_all add: ds_set_sync_mode_def ds_wf_def ds_room_def)
  then have "ds_wf E (fst (ds_recover E ?s))" by (rule ds_wf_recover(2))
  with opened(3) show ?case
    by (auto simp: db_open_with_config_and_encryption_def opened(1) catalog_ok_def Let_def split: prod.splits sum.splits)
next
  case (registered db schema)
  then show ?case using catalog_ok_put [of db schema] by (auto simp: db_register_table_def put_schema_def)
next
  case (updated db name schema)
  then show ?case using catalog_ok_put [OF catalog_ok_remove, of db schema name] by (auto simp: db_update_table_schema_def put_schema_def)
next
  case (storage db db' op)
  then show ?case using ds_wf_step by (simp add: catalog_ok_def)
qed

lemmas db_wf = db_reachable_invariant [THEN conjunct1]
lemmas db_catalog = db_reachable_invariant [THEN conjunct2]

subsection \<open>What the operations do to the engine\<close>

lemma on_storage_simps [simp]:
  "db_storage (fst (on_storage f db)) = fst (f (db_storage db))" "snd (on_storage f db) = snd (f (db_storage db))"
  "db_tables (fst (on_storage f db)) = db_tables db" "db_packed_schemas (fst (on_storage f db)) = db_packed_schemas db"
  by (simp_all add: on_storage_def case_prod_unfold Let_def)

lemma count_simps [simp]:
  "db_storage (count_written n db) = db_storage db" "db_tables (count_written n db) = db_tables db"
  "db_packed_schemas (count_written n db) = db_packed_schemas db"
  "db_storage (count_read n db) = db_storage db" "db_tables (count_read n db) = db_tables db"
  "db_packed_schemas (count_read n db) = db_packed_schemas db"
  "db_storage (count_query db) = db_storage db" "db_tables (count_query db) = db_tables db"
  "db_packed_schemas (count_query db) = db_packed_schemas db"
  by (simp_all add: count_written_def count_read_def count_query_def)

lemma db_put_simps [simp]:
  "db_storage (fst (db_put E txn k v db)) = fst (ds_write E (th_txn_id txn) k v (db_storage db))"
  "snd (db_put E txn k v db) = snd (ds_write E (th_txn_id txn) k v (db_storage db))"
  "db_tables (fst (db_put E txn k v db)) = db_tables db" "db_packed_schemas (fst (db_put E txn k v db)) = db_packed_schemas db"
  by (simp_all add: db_put_def ds_write_def)

lemma db_get_simps [simp]:
  "snd (db_get E txn k db) = snd (ds_read E (th_txn_id txn) k (db_storage db))"
  "db_storage (fst (db_get E txn k db)) = fst (ds_read E (th_txn_id txn) k (db_storage db))"
  "db_tables (fst (db_get E txn k db)) = db_tables db" "db_packed_schemas (fst (db_get E txn k db)) = db_packed_schemas db"
  by (auto simp: db_get_def on_storage_def case_prod_unfold Let_def split: sum.split option.split)

lemma db_scan_path_simps:
  "snd (db_scan_path txn p db) =
     (if length p < 2 then Inl (prefix_too_short (length p))
      else try_bind (snd (ds_scan (th_txn_id txn) p (db_storage db))) (\<lambda>rows. Inr (filter (\<lambda>(k, v). utf8_valid k) rows)))"
  "db_tables (fst (db_scan_path txn p db)) = db_tables db" "db_packed_schemas (fst (db_scan_path txn p db)) = db_packed_schemas db"
  by (auto simp: db_scan_path_def db_scan_def db_scan_unchecked_def counted_rows_def on_storage_def MIN_SCAN_PREFIX_LEN_def
      case_prod_unfold Let_def split: sum.splits prod.splits)

lemma db_reachable_put:
  assumes "db_reachable E db" "ds_room (db_storage db)"
  shows "db_reachable E (fst (db_put E txn k v db))"
  by (rule db_reachable.storage [OF assms, of _ "DWrite (th_txn_id txn) k v"]) simp_all

lemma db_reachable_get:
  assumes "db_reachable E db" "ds_room (db_storage db)"
  shows "db_reachable E (fst (db_get E txn k db))"
  by (rule db_reachable.storage [OF assms, of _ "DRead (th_txn_id txn) k"]) simp_all

lemma db_reachable_delete:
  assumes "db_reachable E db" "ds_room (db_storage db)"
  shows "db_reachable E (fst (db_delete E txn k db))"
  by (rule db_reachable.storage [OF assms, of _ "DDelete (th_txn_id txn) k"]) (simp_all add: db_delete_def)

lemma db_reachable_commit:
  assumes "db_reachable E db" "ds_room (db_storage db)"
  shows "db_reachable E (fst (db_commit E txn db))"
  by (rule db_reachable.storage [OF assms, of _ "DCommit (th_txn_id txn)"]) (simp_all add: db_commit_def)

lemma db_reachable_begin:
  assumes "db_reachable E db" "ds_room (db_storage db)"
  shows "db_reachable E (fst (db_begin_transaction E db))"
  by (rule db_reachable.storage [OF assms, of _ "DBegin ReadWrite"])
    (simp_all add: db_begin_transaction_def count_started_def ds_begin_transaction_def ds_begin_with_mode_def mm_begin_def)

subsection \<open>The interface the table layer relies on\<close>

text \<open>
  What one transaction sees of a key-value store: a write it was granted is read back and leaves the
  other keys alone.
\<close>

locale kv_view =
  fixes kinv :: "'s \<Rightarrow> bool"
    and kget :: "key \<Rightarrow> 's \<Rightarrow> val option result"
    and kput :: "key \<Rightarrow> val \<Rightarrow> 's \<Rightarrow> 's \<times> unit result"
  assumes kput_inv: "kinv s \<Longrightarrow> kinv (fst (kput k v s))"
    and kget_put: "kinv s \<Longrightarrow> snd (kput k v s) = Inr () \<Longrightarrow> kget k (fst (kput k v s)) = Inr (Some v)"
    and kget_put_other: "kinv s \<Longrightarrow> k' \<noteq> k \<Longrightarrow> kget k' (fst (kput k v s)) = kget k' s"
begin

text \<open>Rows are independent of each other.\<close>

lemma kget_put_row:
  assumes "kinv s" "length t1 \<le> 42" "length t2 \<le> 42" "snd (kput (row_key t1 id1) v s) = Inr ()"
  shows "kget (row_key t2 id2) (fst (kput (row_key t1 id1) v s)) =
    (if t1 = t2 \<and> id1 = id2 then Inr (Some v) else kget (row_key t2 id2) s)"
  using kget_put [OF assms(1,4)] kget_put_other [OF assms(1), of "row_key t2 id2" "row_key t1 id1" v] row_key_inject [OF assms(2,3), of id1 id2]
  by (auto simp: row_key_def)

end

lemma ds_wf_write: "ds_wf E s \<Longrightarrow> ds_wf E (fst (ds_write E t k v s))"
  using ds_wf_buffered [of E s t k v k] kind.inv_write [of "ds_memtable s" k "Some v" t]
    table_below_write [of "ds_memtable s" "mm_ts_counter (ds_mvcc s)" k "Some v" t]
  by (simp add: ds_write_def ds_write_refs_def ds_wf_def Let_def case_prod_unfold ds_buffer_append_def ds_record_write_def)

lemma ds_write_snapshot [simp]:
  "mm_get_snapshot_ts u (ds_mvcc (fst (ds_write E t k v s))) = mm_get_snapshot_ts u (ds_mvcc s)"
  by (auto simp: ds_put_fields snapshot_get mm_get_record mt_record_write_def option.map_comp comp_def)

lemma ds_read_value:
  "snd (ds_read E t k s) = (case mm_get_snapshot_ts t (ds_mvcc s) of
     None \<Rightarrow> Inl txn_not_found | Some ts \<Rightarrow> Inr (mtk_read k ts (Some t) (ds_memtable s)))"
  by (simp add: ds_read_def split: option.split)

lemma ds_read_own_write:
  assumes "ds_wf E s" "mm_get t (ds_mvcc s) \<noteq> None" "snd (ds_write E t k v s) = Inr ()"
  shows "snd (ds_read E t k (fst (ds_write E t k v s))) = Inr (Some v)"
proof -
  have "\<not> vc_has_write_conflict t (mtk_chain (ds_memtable s) k)"
    using assms(3) kind.write_result [OF ds_wf_parts(1) [OF assms(1)], of k "Some v" t] by (auto simp: ds_put_fields split: if_splits)
  from kind.read_own_write [OF ds_wf_parts(1) [OF assms(1)] this] assms(2) show ?thesis
    by (auto simp: ds_read_value ds_put_fields(1) snapshot_get [of t "ds_mvcc s"] split: option.split)
qed

lemma ds_read_write_other:
  assumes "ds_wf E s" "u \<noteq> t \<or> k' \<noteq> k"
  shows "snd (ds_read E u k' (fst (ds_write E t k v s))) = snd (ds_read E u k' s)"
proof -
  note wf = ds_wf_parts(1) [OF assms(1)]
  have "mtk_read k' ts (Some u) (fst (mtk_write k (Some v) t (ds_memtable s))) = mtk_read k' ts (Some u) (ds_memtable s)" for ts
    using assms(2) kind.read_others_write [OF wf, of "Some u" t k' ts k "Some v"]
    by (auto simp: kind.read_eq wf kind.inv_write kind.chain_write)
  then show ?thesis by (simp add: ds_read_value ds_put_fields(1) split: option.split)
qed

interpretation txn_view: kv_view
  "\<lambda>db. ds_wf E (db_storage db) \<and> mm_get (th_txn_id txn) (ds_mvcc (db_storage db)) \<noteq> None"
  "\<lambda>k db. snd (db_get E txn k db)" "db_put E txn" for E txn
  by unfold_locales (auto simp: ds_wf_write ds_read_own_write ds_read_write_other ds_put_fields(3) mm_get_record)

subsection \<open>Rows\<close>

lemma position_some: "position p xs = Some i \<Longrightarrow> i < length xs \<and> p (xs ! i)"
  by (induction xs arbitrary: i) (auto split: if_splits)

lemma position_none: "position p xs = None \<longleftrightarrow> (\<forall>x \<in> set xs. \<not> p x)"
  by (induction xs) auto

text \<open>A row fits a schema: few enough columns, values of the columns' types, less than 4 GiB in all.\<close>

definition row_fits :: "PackedTableSchema \<Rightarrow> (bytes \<Rightarrow> SochValue option) \<Rightarrow> bool" where
  "row_fits ps values \<longleftrightarrow>
     length (ps_columns ps) < 2 ^ 16 \<and> sum_list (map (\<lambda>col. value_size (values (pc_name col))) (ps_columns ps)) < 2 ^ 32 \<and>
     (\<forall>col \<in> set (ps_columns ps). value_fits (pc_type col) (values (pc_name col)))"

definition packed_row :: "PackedTableSchema \<Rightarrow> (bytes \<Rightarrow> SochValue option) \<Rightarrow> PackedRow" where
  "packed_row ps values = row_of (map (\<lambda>col. values (pc_name col)) (ps_columns ps))"

lemma pack_packed_row: "pr_pack ps values = Inr (packed_row ps values)"
  "pr_pack_slice ps (map (\<lambda>col. values (pc_name col)) (ps_columns ps)) = Inr (packed_row ps values)"
  by (simp_all add: packed_row_def pack_layout)

lemma get_by_name_packed:
  assumes "row_fits ps values"
  shows "get_by_name ps c (packed_row ps values) = Inr (if c \<in> pc_name ` set (ps_columns ps) then Some (or_null (values c)) else None)"
proof (cases "ps_column_index c ps")
  case None
  then have "c \<notin> pc_name ` set (ps_columns ps)" by (auto simp: ps_column_index_def position_none)
  with None show ?thesis by (simp add: get_by_name_def)
next
  case (Some i)
  then have i: "i < length (ps_columns ps)" "pc_name (ps_columns ps ! i) = c" by (auto simp: ps_column_index_def dest: position_some)
  then have "get_column i (pc_type (ps_columns ps ! i)) (packed_row ps values) = Inr (Some (or_null (values c)))"
    unfolding packed_row_def using assms get_column_row_of [of i "map (\<lambda>col. values (pc_name col)) (ps_columns ps)"]
    by (auto simp: row_fits_def comp_def)
  with Some i show ?thesis by (auto simp: get_by_name_def ps_column_def vec_get_def)
qed

lemma project_row_packed:
  assumes "row_fits ps values"
  shows "\<exists>m'. project_row ps (packed_row ps values) cs m = Inr m' \<and>
    (\<forall>c. map_of m' c = (if c \<in> set cs \<and> c \<in> pc_name ` set (ps_columns ps) then Some (or_null (values c)) else map_of m c))"
proof (induction cs arbitrary: m)
  case (Cons c cs)
  let ?m = "if c \<in> pc_name ` set (ps_columns ps) then dm_insert c (or_null (values c)) m else m"
  obtain m' where m': "project_row ps (packed_row ps values) cs ?m = Inr m'"
    "\<forall>c. map_of m' c = (if c \<in> set cs \<and> c \<in> pc_name ` set (ps_columns ps) then Some (or_null (values c)) else map_of ?m c)"
    using Cons.IH by blast
  have "project_row ps (packed_row ps values) (c # cs) m = Inr m'"
    using m'(1) by (simp add: get_by_name_packed [OF assms] split: if_splits)
  with m'(2) show ?case by auto
qed simp

lemma from_bytes_packed: "pr_from_bytes (pr_as_bytes (packed_row ps values)) (ps_num_columns ps) = Inr (packed_row ps values)"
  using from_bytes_row_of [of "map (\<lambda>col. values (pc_name col)) (ps_columns ps)"]
  by (simp add: packed_row_def ps_num_columns_def pr_as_bytes_def pr_into_bytes_def)

lemma decode_packed:
  assumes "row_fits ps values"
  shows "\<exists>row. decode_row ps cs (pr_as_bytes (packed_row ps values)) = Inr row \<and>
    (\<forall>c. map_of row c = (if c \<in> set cs \<and> c \<in> pc_name ` set (ps_columns ps) then Some (or_null (values c)) else None))"
  using project_row_packed [OF assms, of cs "[]"] by (simp only: decode_row_def from_bytes_packed try_bind_simps map_of.simps)

lemma packed_names [simp]: "pc_name ` set (ps_columns (to_packed_schema schema)) = cd_name ` set (ts_columns schema)"
  by (simp add: to_packed_schema_def ps_new_def image_image)

text \<open>Reading a row is reading its key.\<close>

lemma db_read_row_value:
  "snd (db_read_row E txn table row_id columns db) =
     (case map_of (db_tables db) table of
        None \<Rightarrow> Inl (table_not_found table)
      | Some schema \<Rightarrow>
          try_bind (snd (db_get E txn (row_key table row_id) db)) (\<lambda>ov.
            case ov of
              None \<Rightarrow> Inr None
            | Some data \<Rightarrow>
                (case map_of (db_packed_schemas db) table of
                   None \<Rightarrow> Inl (Err (Internal ''Packed schema not found''))
                 | Some ps \<Rightarrow>
                     try_bind (decode_row ps (case columns of Some cs \<Rightarrow> cs | None \<Rightarrow> map cd_name (ts_columns schema)) data)
                       (\<lambda>row. Inr (Some row)))))"
  using db_get_simps(4) [of E txn "row_key table row_id" db]
  by (auto simp: db_read_row_def simp del: db_get_simps split: option.split prod.split sum.split)

lemma db_read_row_cong:
  assumes "snd (db_get E txn (row_key table row_id) db') = snd (db_get E txn (row_key table row_id) db)"
    and "db_tables db' = db_tables db" "db_packed_schemas db' = db_packed_schemas db"
  shows "snd (db_read_row E txn table row_id columns db') = snd (db_read_row E txn table row_id columns db)"
  using assms by (simp only: db_read_row_value)

lemma db_insert_row_put:
  assumes "catalog_ok db" "map_of (db_tables db) table = Some schema"
  shows "db_insert_row E txn table row_id values db =
    db_put E txn (row_key table row_id) (pr_as_bytes (packed_row (to_packed_schema schema) values)) db"
  using assms by (simp add: db_insert_row_def catalog_ok_def put_row_def pack_packed_row)

lemma db_insert_row_slice_put:
  assumes "catalog_ok db" "map_of (db_tables db) table = Some schema"
  shows "db_insert_row_slice E txn table row_id (map (\<lambda>col. values (cd_name col)) (ts_columns schema)) db =
    db_insert_row E txn table row_id values db"
proof -
  have "map (\<lambda>col. values (cd_name col)) (ts_columns schema) = map (\<lambda>col. values (pc_name col)) (ps_columns (to_packed_schema schema))"
    by (simp add: to_packed_schema_def ps_new_def comp_def)
  with assms show ?thesis
    by (simp add: db_insert_row_def db_insert_row_slice_def catalog_ok_def pack_packed_row ps_num_columns_def)
qed

lemma inserted_row_value:
  assumes "db_reachable E db" "map_of (db_tables db) table = Some schema" "row_fits (to_packed_schema schema) values"
    and "mm_get (th_txn_id txn) (ds_mvcc (db_storage db)) \<noteq> None" "db_insert_row E txn table row_id values db = (db', Inr ())"
  shows "\<exists>row. snd (db_read_row E txn table row_id None db') = Inr (Some row) \<and>
    (\<forall>c. map_of row c = (if c \<in> cd_name ` set (ts_columns schema) then Some (or_null (values c)) else None))"
proof -
  let ?ps = "to_packed_schema schema"
  let ?v = "pr_as_bytes (packed_row ?ps values)"
  have db': "db' = fst (db_put E txn (row_key table row_id) ?v db)" "snd (db_put E txn (row_key table row_id) ?v db) = Inr ()"
    using assms(5) by (simp_all flip: db_insert_row_put [OF db_catalog [OF assms(1)] assms(2)])
  have get: "snd (db_get E txn (row_key table row_id) db') = Inr (Some ?v)"
    unfolding db'(1) by (rule txn_view.kget_put) (use assms(4) db_wf [OF assms(1)] db'(2) in auto)
  have "map_of (db_tables db') table = Some schema" "map_of (db_packed_schemas db') table = Some ?ps"
    using assms(2) db_catalog [OF assms(1)] by (simp_all add: db'(1) catalog_ok_def)
  with get decode_packed [OF assms(3), of "map cd_name (ts_columns schema)"] show ?thesis
    unfolding db_read_row_value by auto
qed

lemma insert_row_keeps_others:
  assumes "db_reachable E db" "map_of (db_tables db) table = Some schema" "length table \<le> 42" "length table' \<le> 42"
    and "th_txn_id txn' \<noteq> th_txn_id txn \<or> (table', id') \<noteq> (table, row_id)"
  shows "snd (db_read_row E txn' table' id' cols (fst (db_insert_row E txn table row_id values db))) =
    snd (db_read_row E txn' table' id' cols db)"
proof (rule db_read_row_cong)
  have "th_txn_id txn' \<noteq> th_txn_id txn \<or> row_key table' id' \<noteq> row_key table row_id"
    using assms(5) row_key_inject [OF assms(4,3)] by (auto simp: row_key_def)
  then show "snd (db_get E txn' (row_key table' id') (fst (db_insert_row E txn table row_id values db))) =
    snd (db_get E txn' (row_key table' id') db)"
    using ds_read_write_other [OF db_wf [OF assms(1)]] db_insert_row_put [OF db_catalog [OF assms(1)] assms(2)] by simp
qed (simp_all add: db_insert_row_put [OF db_catalog [OF assms(1)] assms(2)])

subsection \<open>Queries\<close>

lemma split_on_nonempty [simp]: "split_on c xs \<noteq> []"
  by (cases xs) (auto split: list.split)

lemma split_on_no_sep: "c \<notin> set xs \<Longrightarrow> split_on c xs = [xs]"
  by (induction xs) auto

lemma split_on_append: "c \<notin> set xs \<Longrightarrow> split_on c (xs @ c # ys) = xs # split_on c ys"
  by (induction xs) auto

lemma split_on_length: "length (split_on c xs) = Suc (count_list xs c)"
proof (induction xs)
  case (Cons x xs)
  then show ?case by (cases "split_on c xs") auto
qed simp

lemma is_row_path_of: "is_row_path path \<longleftrightarrow> count_list path 47 = 1"
  by (simp add: is_row_path_def split_on_length)

lemma row_path_under:
  assumes "47 \<notin> set table"
  shows "is_row_path (table @ 47 # rest) \<longleftrightarrow> 47 \<notin> set rest"
  using assms by (simp add: is_row_path_of count_list_0_iff)

lemma row_key_is_row_path: "length table \<le> 42 \<Longrightarrow> 47 \<notin> set table \<Longrightarrow> is_row_path (row_key table row_id)"
  by (simp add: row_key_def row_key_bytes row_path_under decimal_no_slash)

text \<open>Decoding never panics on bytes that were accepted.\<close>

lemma get_by_name_total:
  assumes "pr_from_bytes data k = Inr row"
  shows "\<exists>ov. get_by_name ps c row = Inr ov"
  using get_column_total [OF assms] by (auto simp: get_by_name_def split: option.split)

lemma unpack_map_total: "pr_from_bytes data k = Inr row \<Longrightarrow> \<exists>m'. unpack_map i cols row m = Inr m'"
proof (induction i cols row m rule: unpack_map.induct)
  case (2 i col cols row m)
  obtain ov where "get_column i (pc_type col) row = Inr ov" using get_column_total [OF 2(2)] by blast
  with 2 show ?case by auto
qed simp

lemma project_row_total: "pr_from_bytes data k = Inr row \<Longrightarrow> \<exists>m'. project_row ps row cs m = Inr m'"
proof (induction ps row cs m rule: project_row.induct)
  case (2 ps row c cs m)
  obtain ov where "get_by_name ps c row = Inr ov" using get_by_name_total [OF 2(2)] by blast
  with 2 show ?case by auto
qed simp

lemma unpack_selected_total:
  assumes "pr_from_bytes data k = Inr row"
  shows "\<exists>m'. unpack_selected ps cols row = Inr m'"
  using project_row_total [OF assms] unpack_map_total [OF assms] by (auto simp: unpack_selected_def pr_unpack_def split: option.split)

text \<open>What a query makes of the bytes stored under a row key.\<close>

definition selected_row :: "PackedTableSchema \<Rightarrow> bytes list option \<Rightarrow> bytes \<Rightarrow> row_map option" where
  "selected_row ps cols data =
     (case try_bind (pr_from_bytes data (ps_num_columns ps)) (unpack_selected ps cols) of
        Inr row \<Rightarrow> if row \<noteq> [] then Some row else None
      | Inl _ \<Rightarrow> None)"

lemma table_rows_spec:
  "\<exists>n. table_rows ps cols results = Inr (List.map_filter (\<lambda>(path, data). if is_row_path path then selected_row ps cols data else None) results, n)"
proof (induction ps cols results rule: table_rows.induct)
  case (2 ps cols path data results)
  show ?case
  proof (cases "pr_from_bytes data (ps_num_columns ps)")
    case (Inl e)
    with 2 show ?thesis by (auto simp: map_filter_simps selected_row_def)
  next
    case (Inr row)
    obtain m where "unpack_selected ps cols row = Inr m" using unpack_selected_total [OF Inr] by blast
    with Inr 2 show ?thesis by (auto simp: map_filter_simps selected_row_def)
  qed
qed (simp add: map_filter_simps)

lemma set_map_filter: "set (List.map_filter f xs) = {y. \<exists>x \<in> set xs. f x = Some y}"
  by (induction xs) (auto simp: map_filter_simps split: option.splits)

lemma ds_scan_rows:
  assumes "ds_wf E s" "mm_get t (ds_mvcc s) \<noteq> None"
  shows "\<exists>rows. snd (ds_scan t p s) = Inr rows \<and> distinct (map fst rows) \<and>
    set rows = {(k, v). prefix p k \<and> snd (ds_read E t k s) = Inr (Some v)}"
proof -
  obtain ts where ts: "mm_get_snapshot_ts t (ds_mvcc s) = Some ts" using assms(2) by (auto simp: snapshot_get)
  note wf = ds_wf_parts(1) [OF assms(1)]
  show ?thesis
    using kind.scan_set [OF wf] kind.scan_distinct [OF wf] by (simp add: ds_scan_def ds_read_value ts case_prod_unfold Let_def)
qed

lemma db_scan_path_rows:
  assumes "ds_wf E (db_storage db)" "mm_get (th_txn_id txn) (ds_mvcc (db_storage db)) \<noteq> None" "2 \<le> length p"
  shows "\<exists>rows. snd (db_scan_path txn p db) = Inr rows \<and> distinct (map fst rows) \<and>
    set rows = {(k, v). prefix p k \<and> utf8_valid k \<and> snd (db_get E txn k db) = Inr (Some v)}"
proof -
  obtain rows where "snd (ds_scan (th_txn_id txn) p (db_storage db)) = Inr rows" "distinct (map fst rows)"
    "set rows = {(k, v). prefix p k \<and> snd (ds_read E (th_txn_id txn) k (db_storage db)) = Inr (Some v)}"
    using ds_scan_rows [OF assms(1,2)] by blast
  with assms(3) show ?thesis by (auto simp: db_scan_path_simps distinct_map_filter)
qed

lemma query_rows_exact:
  assumes "catalog_ok db" "map_of (db_tables db) table = Some schema" "47 \<notin> set table" "qb_path_prefix q = table"
  shows "\<exists>n. query_rows db q results =
    Inr (List.map_filter (\<lambda>(k, v). if is_row_path k then selected_row (to_packed_schema schema) (qb_columns q) v else None) results, n)"
  using assms table_rows_spec [of "to_packed_schema schema" "qb_columns q" results]
  by (auto simp: query_rows_def query_table_def split_on_no_sep catalog_ok_def)

lemma qb_execute_value:
  "snd (qb_execute q db) =
     try_bind (snd (db_scan_path (qb_txn q) (scan_prefix_of db q) (count_query db))) (\<lambda>results.
     try_bind (query_rows db q results) (\<lambda>(rows, bytes_read).
       Inr \<lparr>qr_columns = (case qb_columns q of Some cs \<Rightarrow> cs | None \<Rightarrow> remdups (concat (map (map fst) (page q rows)))),
            qr_rows = page q rows, qr_rows_scanned = length (page q rows), qr_bytes_read = bytes_read\<rparr>))"
proof -
  obtain db' r where p: "db_scan_path (qb_txn q) (scan_prefix_of db q) (count_query db) = (db', r)" by fastforce
  then have "db_tables db' = db_tables db" "db_packed_schemas db' = db_packed_schemas db"
    using db_scan_path_simps(2,3) [of "qb_txn q" "scan_prefix_of db q" "count_query db"] by simp_all
  then have "query_rows db' q = query_rows db q" by (intro ext) (simp add: query_rows_def split: option.split)
  moreover have "scan_prefix_of (count_query db) q = scan_prefix_of db q" by (simp add: scan_prefix_of_def)
  ultimately show ?thesis using p by (cases r) (simp_all add: qb_execute_def Let_def)
qed

lemma query_exact:
  assumes "db_reachable E db" "map_of (db_tables db) table = Some schema" "table \<noteq> []" "47 \<notin> set table"
    and "mm_get (th_txn_id (qb_txn q)) (ds_mvcc (db_storage db)) \<noteq> None" "qb_path_prefix q = table"
  shows "\<exists>results r. distinct (map fst results) \<and>
    set results = {(k, v). prefix (table @ [47]) k \<and> utf8_valid k \<and> snd (db_get E (qb_txn q) k db) = Inr (Some v)} \<and>
    snd (qb_execute q db) = Inr r \<and>
    qr_rows r = page q (List.map_filter (\<lambda>(k, v). if 47 \<notin> set (drop (length table + 1) k)
      then selected_row (to_packed_schema schema) (qb_columns q) v else None) results)"
proof -
  have scan: "scan_prefix_of db q = table @ [47]"
    using assms(2,4,6) by (simp add: scan_prefix_of_def query_table_def split_on_no_sep)
  have len: "2 \<le> length (table @ [47 :: byte])" using assms(3) by (cases table) auto
  obtain results where res: "snd (db_scan_path (qb_txn q) (table @ [47]) (count_query db)) = Inr results" "distinct (map fst results)"
    "set results = {(k, v). prefix (table @ [47]) k \<and> utf8_valid k \<and> snd (db_get E (qb_txn q) k db) = Inr (Some v)}"
    using db_scan_path_rows [OF _ _ len, of E "count_query db" "qb_txn q"] db_wf [OF assms(1)] assms(5) by auto
  obtain n where n: "query_rows db q results =
    Inr (List.map_filter (\<lambda>(k, v). if is_row_path k then selected_row (to_packed_schema schema) (qb_columns q) v else None) results, n)"
    using query_rows_exact [OF db_catalog [OF assms(1)] assms(2,4,6)] by blast
  have "is_row_path k \<longleftrightarrow> 47 \<notin> set (drop (length table + 1) k)" if "(k, v) \<in> set results" for k v
    using that res(3) row_path_under [OF assms(4)] by (auto simp: prefix_def)
  then have "List.map_filter (\<lambda>(k, v). if is_row_path k then selected_row (to_packed_schema schema) (qb_columns q) v else None) results =
    List.map_filter (\<lambda>(k, v). if 47 \<notin> set (drop (length table + 1) k) then selected_row (to_packed_schema schema) (qb_columns q) v else None) results"
    unfolding List.map_filter_def by (intro arg_cong [where f = "map _"] filter_cong refl map_cong arg_cong2 [where f = map]) auto
  with n res show ?thesis by (auto simp: qb_execute_value scan)
qed

text \<open>The lazy query without limit and offset.\<close>

definition lazy_item :: "PackedTableSchema option \<Rightarrow> bytes list option \<Rightarrow> bytes \<Rightarrow> SochValue list result" where
  "lazy_item schema cols data =
     (case schema of
        None \<Rightarrow> Inr [VBinary data]
      | Some ps \<Rightarrow> try_bind (pr_from_bytes data (ps_num_columns ps)) (row_vec ps cols))"

lemma next_row_found:
  "next_row schema cols 0 n results =
     (case dropWhile (\<lambda>(k, v). \<not> is_row_path k) results of
        [] \<Rightarrow> (n, [], None)
      | (k, v) # rest \<Rightarrow> (n, rest, Some
          (case schema of None \<Rightarrow> (True, Inr [VBinary v])
           | Some ps \<Rightarrow> (case pr_from_bytes v (ps_num_columns ps) of Inl e \<Rightarrow> (False, Inl e) | Inr row \<Rightarrow> (True, row_vec ps cols row)))))"
  by (induction results) auto

lemma filter_dropWhile_not: "filter (\<lambda>(k, v). p k) xs = filter (\<lambda>(k, v). p k) (dropWhile (\<lambda>(k, v). \<not> p k) xs)"
  by (induction xs) auto

lemma qri_collect_all:
  assumes "qri_limit it = None" "qri_offset it = 0"
  shows "qri_collect it = map (\<lambda>(k, v). lazy_item (qri_packed_schema it) (qri_columns it) v) (filter (\<lambda>(k, v). is_row_path k) (qri_results it))"
  using assms
proof (induction it rule: qri_collect.induct)
  case (1 it)
  show ?case
  proof (cases "dropWhile (\<lambda>(k, v). \<not> is_row_path k) (qri_results it)")
    case Nil
    then have "filter (\<lambda>(k, v). is_row_path k) (qri_results it) = []" by (auto simp: dropWhile_eq_Nil_conv filter_empty_conv)
    moreover have "snd (qri_next it) = None" using Nil 1(2,3) by (simp only: qri_next_def next_row_found Let_def) simp
    ultimately show ?thesis by (auto simp: qri_collect.simps [of it] split: prod.split)
  next
    case (Cons kv rest)
    obtain k v where kv: "kv = (k, v)" by fastforce
    have row: "is_row_path k" using Cons kv hd_dropWhile [of "\<lambda>(k, v). \<not> is_row_path k" "qri_results it"] by auto
    have "filter (\<lambda>(k, v). is_row_path k) (qri_results it) = filter (\<lambda>(k, v). is_row_path k) (dropWhile (\<lambda>(k, v). \<not> is_row_path k) (qri_results it))"
      by (rule filter_dropWhile_not)
    then have fil: "filter (\<lambda>(k, v). is_row_path k) (qri_results it) = (k, v) # filter (\<lambda>(k, v). is_row_path k) rest"
      using Cons kv row by simp
    have step: "snd (qri_next it) = Some (lazy_item (qri_packed_schema it) (qri_columns it) v)"
      "qri_results (fst (qri_next it)) = rest" "qri_packed_schema (fst (qri_next it)) = qri_packed_schema it"
      "qri_columns (fst (qri_next it)) = qri_columns it" "qri_limit (fst (qri_next it)) = None" "qri_offset (fst (qri_next it)) = 0"
      using Cons kv 1(2,3)
      by (simp_all add: qri_next_def next_row_found lazy_item_def Let_def split: option.split sum.split prod.split)
    then obtain it' where it': "qri_next it = (it', Some (lazy_item (qri_packed_schema it) (qri_columns it) v))" by (cases "qri_next it") simp
    from 1(1) [OF it' [symmetric] refl] it' step fil show ?thesis by (simp add: qri_collect.simps [of it])
  qed
qed

lemma next_row_none: "next_row schema cols offs n results = (n', results', None) \<Longrightarrow> results' = []"
  by (induction schema cols offs n results arbitrary: n' rule: next_row.induct) (auto split: if_splits)

lemma qri_next_fused: "snd (qri_next it) = None \<Longrightarrow> snd (qri_next (fst (qri_next it))) = None"
  by (auto simp: qri_next_def Let_def dest: next_row_none split: if_splits prod.splits option.splits)

lemma qri_next_ends: "\<exists>n \<le> length (qri_results it). snd (qri_next (((\<lambda>i. fst (qri_next i)) ^^ n) it)) = None"
proof (induction "length (qri_results it)" arbitrary: it rule: less_induct)
  case less
  show ?case
  proof (cases "qri_next it")
    case (Pair it' r)
    show ?thesis
    proof (cases r)
      case None
      with Pair show ?thesis by (intro exI [of _ 0]) simp
    next
      case (Some x)
      then have len: "length (qri_results it') < length (qri_results it)" using Pair qri_next_length by simp
      obtain n where "n \<le> length (qri_results it')" "snd (qri_next (((\<lambda>i. fst (qri_next i)) ^^ n) it')) = None"
        using less [OF len] by blast
      with Pair len show ?thesis by (intro exI [of _ "Suc n"]) (simp del: funpow.simps add: funpow_Suc_right)
    qed
  qed
qed

lemma lazy_query_item:
  assumes "db_reachable E db" "map_of (db_tables db) table = Some schema" "2 \<le> length table" "47 \<notin> set table"
    and "mm_get (th_txn_id txn) (ds_mvcc (db_storage db)) \<noteq> None"
    and "snd (db_get E txn k db) = Inr (Some v)" "prefix table k" "is_row_path k" "utf8_valid k"
  shows "\<exists>it. snd (qb_execute_iter (db_query txn table) db) = Inr it \<and>
    try_bind (pr_from_bytes v (ps_num_columns (to_packed_schema schema))) (unpack_to_vec (to_packed_schema schema)) \<in> set (qri_collect it)"
proof -
  let ?q = "db_query txn table"
  have q: "query_table ?q = table" "qb_path_prefix ?q = table" "qb_txn ?q = txn" "qb_columns ?q = None" "qb_limit ?q = None" "qb_offset ?q = None"
    using assms(4) by (simp_all add: query_table_def db_query_def qb_new_def split_on_no_sep)
  obtain rows where rows: "snd (db_scan_path txn table (count_query db)) = Inr rows"
    "set rows = {(k, v). prefix table k \<and> utf8_valid k \<and> snd (db_get E txn k db) = Inr (Some v)}"
    using db_scan_path_rows [OF _ _ assms(3), of E "count_query db" txn] db_wf [OF assms(1)] assms(5) by auto
  let ?it = "\<lparr>qri_results = rows, qri_packed_schema = Some (to_packed_schema schema), qri_columns = None,
    qri_offset = 0, qri_limit = None, qri_yielded = 0, qri_skipped = 0\<rparr>"
  have "snd (qb_execute_iter ?q db) = Inr ?it"
    using rows(1) assms(2) db_catalog [OF assms(1)]
    by (cases "db_scan_path txn table (count_query db)") (simp add: qb_execute_iter_def q catalog_ok_def Let_def)
  moreover have "(k, v) \<in> set rows" using assms(6-9) rows(2) by simp
  then have "lazy_item (Some (to_packed_schema schema)) None v \<in> set (qri_collect ?it)"
    unfolding qri_collect_all [of ?it, simplified] using assms(8) by force
  ultimately show ?thesis by (auto simp: lazy_item_def row_vec_def [abs_def] cong: if_cong)
qed

lemma utf8_append: "utf8_valid xs \<Longrightarrow> utf8_valid ys \<Longrightarrow> utf8_valid (xs @ ys)"
proof (induction "length xs" arbitrary: xs rule: less_induct)
  case less
  have IH: "utf8_valid zs \<Longrightarrow> length zs < length xs \<Longrightarrow> utf8_valid (zs @ ys)" for zs using less by blast
  show ?case
  proof (cases xs)
    case (Cons b bs)
    note u = utf8_valid.simps(2) [of b]
    note val = less.prems(1) [unfolded Cons utf8_valid.simps(2) [of b]]
    show ?thesis
    proof (cases "b \<le> 0x7F")
      case True
      then show ?thesis using val Cons IH [of bs] by (simp add: u)
    next
      case ascii: False
      then obtain c1 r where bs: "bs = c1 # r" using val by (cases bs) (auto split: if_splits)
      show ?thesis
      proof (cases "0xC2 \<le> b \<and> b \<le> 0xDF")
        case True
        then show ?thesis using val ascii bs Cons IH [of r] by (simp add: u del: utf8_valid.simps)
      next
        case two: False
        then obtain c2 r2 where r: "r = c2 # r2" using val bs ascii by (cases r) (auto split: if_splits)
        show ?thesis
        proof (cases "0xE0 \<le> b \<and> b \<le> 0xEF")
          case True
          then show ?thesis using val ascii two bs r Cons IH [of r2] by (auto simp: u simp del: utf8_valid.simps)
        next
          case three: False
          then obtain c3 r3 where r2: "r2 = c3 # r3" using val bs r ascii two by (cases r2) (auto split: if_splits)
          have "0xF0 \<le> b \<and> b \<le> 0xF4" using val ascii two three by (auto split: if_splits)
          then show ?thesis using val ascii two three bs r r2 Cons IH [of r3] by (auto simp: u simp del: utf8_valid.simps)
        qed
      qed
    qed
  qed (simp add: less.prems)
qed

lemma utf8_ascii: "\<forall>b \<in> set ys. b \<le> 0x7F \<Longrightarrow> utf8_valid ys"
  by (induction ys) auto

lemma digits_ascii: "b \<in> set (digits_rev v) \<Longrightarrow> b \<le> 0x7F"
proof (induction v rule: digits_rev.induct)
  case (1 v)
  have "unat (48 + word_of_nat (v mod 10) :: byte) \<le> unat (0x7F :: byte)" using digit_byte [of "v mod 10"] by simp
  then have "(48 + word_of_nat (v mod 10) :: byte) \<le> 0x7F" by (simp only: word_le_nat_alt)
  with 1 show ?case by (auto simp: digits_rev.simps [of v] split: if_splits)
qed

lemma row_key_utf8: "utf8_valid table \<Longrightarrow> length table \<le> 42 \<Longrightarrow> utf8_valid (row_key table row_id)"
  using utf8_append [of table "[47] @ decimal row_id"] digits_ascii [of _ "unat row_id"] utf8_ascii [of "[47] @ decimal row_id"]
  by (auto simp: row_key_def row_key_bytes decimal_def)

end
