(* ===== verification/Database_Guarantees.thy ===== *)
theory Database_Guarantees
  imports Database_Properties
begin

text \<open>
  The guarantees of the database kernel, from tables down to the log, and a concrete database on which
  they are instantiated.
\<close>

subsection \<open>A concrete database\<close>

definition demo_users :: TableSchema where
  "demo_users = \<lparr>ts_name = [117, 115], ts_columns =
     [\<lparr>cd_name = [105], cd_type = CInt64, cd_nullable = False\<rparr>, \<lparr>cd_name = [110], cd_type = CText, cd_nullable = True\<rparr>]\<rparr>"

text \<open>The storage engine after opening with group commit and recovering an empty log.\<close>

definition demo_opened :: DurableStorage where
  "demo_opened = ds_step demo_env DRecover (ds_step demo_env (DSyncMode 1) (demo_store\<lparr>ds_group_commit := True\<rparr>))"

lemma demo_replay: "replay_for_recovery (de_platform demo_env) demo_wal_fresh = Inr ([], 0)"
  by (simp add: replay_for_recovery_def demo_env_def demo_wal_fresh_def wal_loop.simps read_record_def from_reader_def read_u32_short
      ee_disabled_def ee_is_enabled_def replay_start_def)

lemma demo_wal_next: "wal_next_txn_id demo_wal_fresh = demo_txn"
  by (simp add: demo_wal_fresh_def demo_txn_def)

lemma demo_opened_fields:
  "ds_mvcc demo_opened = mm_new\<lparr>mm_ts_counter := 2\<rparr>" "ds_wal demo_opened = demo_wal_fresh\<lparr>wal_next_txn_id := demo_txn + 1\<rparr>"
  "ds_memtable demo_opened = mtk_commit demo_txn 1 [] (mtk_new StandardType True)" "ds_group_commit demo_opened"
  "ds_txn_write_buffers demo_opened = []"
  "ds_recover demo_env (ds_set_sync_mode 1 (demo_store\<lparr>ds_group_commit := True\<rparr>)) =
     (demo_opened, Inr \<lparr>rs_transactions_recovered = 0, rs_writes_recovered = 0, rs_commit_ts = 1\<rparr>)"
  by (simp_all add: demo_opened_def ds_set_sync_mode_def demo_store_def ds_recover_def demo_replay ds_apply_recovered_def Let_def
      wal_alloc_txn_id_def mm_alloc_commit_ts_def mm_new_def demo_wal_next)

definition demo_database :: Database where
  "demo_database =
     put_schema demo_users \<lparr>db_storage = ds_step demo_env (DBegin ReadWrite) demo_opened, db_tables = [], db_packed_schemas = [],
       db_index_registry = tir_with_default_policy Balanced, db_config = cfg_default, db_stat = database_stats_new, db_shutdown_flag = 0\<rparr>"

definition demo_handle :: TxnHandle where
  "demo_handle = \<lparr>th_txn_id = demo_txn + 1, th_snapshot_ts = demo_txn + 1\<rparr>"

lemma demo_db_begin:
  "snd (ds_begin_with_mode demo_env ReadWrite demo_opened) = Inr (demo_txn + 1)"
  "ds_mvcc (fst (ds_begin_with_mode demo_env ReadWrite demo_opened)) = fst (mm_begin_with_mode (demo_txn + 1) ReadWrite (mm_new\<lparr>mm_ts_counter := 2\<rparr>))"
  "ds_memtable (fst (ds_begin_with_mode demo_env ReadWrite demo_opened)) = ds_memtable demo_opened"
  "wal_encryption (ds_wal (fst (ds_begin_with_mode demo_env ReadWrite demo_opened))) = ee_disabled demo_cipher"
  "ds_group_commit (fst (ds_begin_with_mode demo_env ReadWrite demo_opened))"
  by (simp_all add: ds_begin_with_mode_def demo_opened_fields wal_begin_transaction_def wal_alloc_txn_id_def cached_timestamp_us_def wal_append_def
      frame_for_write_def demo_wal_fresh_def ee_disabled_def ee_is_enabled_def Let_def demo_env_def bw_write_all_def bw_flush_def commit_record_ordinal_def)

lemma demo_database_reachable: "db_reachable demo_env demo_database"
proof -
  let ?db0 = "\<lparr>db_storage = demo_opened, db_tables = [], db_packed_schemas = [], db_index_registry = tir_with_default_policy Balanced,
    db_config = cfg_default, db_stat = database_stats_new, db_shutdown_flag = 0\<rparr>"
  let ?db1 = "?db0\<lparr>db_storage := ds_step demo_env (DBegin ReadWrite) demo_opened\<rparr>"
  have o: "ds_open_with_policy demo_env Balanced True (Inr ()) (Inr demo_keyring)
      \<lparr>dk_wal_log = [], dk_manifest = None, dk_clean_shutdown = False\<rparr> 0 = Inr (demo_store\<lparr>ds_group_commit := True\<rparr>)"
    by (simp add: ds_open_with_policy_def policy_config_def demo_open)
  have "db_reachable demo_env ?db0"
    by (rule db_reachable.opened [where config = cfg_default and lock = "Inr ()" and keyring = "Inr demo_keyring" and tick = 0 and
          disk = "\<lparr>dk_wal_log = [], dk_manifest = None, dk_clean_shutdown = False\<rparr>" and s = "demo_store\<lparr>ds_group_commit := True\<rparr>"])
      (use o demo_store_room demo_opened_fields(6) in
        \<open>simp_all add: cfg_default_def db_open_with_config_and_encryption_def ds_room_def sync_to_sqlite_pragma_def Let_def\<close>)
  moreover have "ds_room (db_storage ?db0)" by (simp add: ds_room_def demo_opened_fields demo_txn_def u64_max_numerals)
  ultimately have "db_reachable demo_env ?db1" by (rule db_reachable.storage [where op = "DBegin ReadWrite"]) simp_all
  from db_reachable.registered [OF this, of demo_users] show ?thesis by (simp add: demo_database_def db_register_table_def)
qed

lemma demo_database_state:
  "db_storage demo_database = fst (ds_begin_with_mode demo_env ReadWrite demo_opened)"
  "map_of (db_tables demo_database) [117, 115] = Some demo_users"
  "mm_get (th_txn_id demo_handle) (ds_mvcc (db_storage demo_database)) \<noteq> None"
  "mm_recent_commits (ds_mvcc (db_storage demo_database)) = []"
  "mtk_chain (ds_memtable (db_storage demo_database)) k = vc_new"
  by (simp_all add: demo_database_def put_schema_def demo_users_def demo_handle_def demo_db_begin mm_get_begin demo_opened_fields
      kind.chain_commit mtk_wf_new) (simp add: mm_begin_with_mode_def mm_new_def Let_def)

lemma demo_history: "ds_history demo_env (db_storage demo_database) [] (\<lambda>_. [])"
proof -
  have "ds_history demo_env demo_store [] (\<lambda>_. [])"
    by (rule ds_history.created [OF demo_open]) (simp add: demo_store_def demo_wal_fresh_def cipher_ok_def ee_disabled_def ee_is_enabled_def)
  from ds_history.grouped [OF this] have "ds_history demo_env (demo_store\<lparr>ds_group_commit := True\<rparr>) [] (\<lambda>_. [])" .
  from ds_history.silent [OF ds_history.silent [OF this, of "DSyncMode 1"], of DRecover] have "ds_history demo_env demo_opened [] (\<lambda>_. [])"
    by (simp add: demo_opened_def)
  moreover have "ds_begin_with_mode demo_env ReadWrite demo_opened = (db_storage demo_database, Inr (demo_txn + 1))"
    using demo_db_begin(1) by (simp add: demo_database_state(1) prod_eq_iff)
  ultimately show ?thesis using ds_history.begun [of demo_env demo_opened "[]" "\<lambda>_. []" ReadWrite] by (simp add: demo_opened_fields(5) fun_upd_idem)
qed

lemma demo_put_accepted: "snd (db_put demo_env txn k v demo_database) = Inr ()"
  using fresh_write_accepted [OF ds_wf_parts(1) [OF db_wf [OF demo_database_reachable]], of k "Some v" "th_txn_id txn"]
  by (simp add: ds_put_fields demo_database_state(5) vc_new_def bsc_new_def)

lemma demo_database_room: "ds_room (db_storage demo_database)"
proof -
  have "wal_next_txn_id (ds_wal (db_storage demo_database)) = demo_txn + 2"
    using wal_begin_next(1) [of "de_platform demo_env" "ds_wal demo_opened"]
    by (simp add: demo_database_state(1) ds_begin_with_mode_def demo_opened_fields(2) case_prod_unfold split: sum.split)
  then show ?thesis
    by (simp add: ds_room_def demo_database_state(1) demo_db_begin(2)) (simp add: demo_txn_def u64_max_numerals)
qed

subsection \<open>Properties\<close>

text \<open>
  C6: Inserted rows read back.  In every reachable database, after a row was inserted into a registered
  table (values of the columns' types, fewer than 65536 columns, less than 4 GiB, a table name of at most 42 bytes), the inserting transaction reads
  exactly the inserted values, null for missing ones; every other row of every table with such a name, and
  every row for every other transaction, reads as before.
\<close>

theorem inserted_row_reads_back:
  assumes "db_reachable E db" "map_of (db_tables db) table = Some schema" "length table \<le> 42"
    and "row_fits (to_packed_schema schema) values" "mm_get (th_txn_id txn) (ds_mvcc (db_storage db)) \<noteq> None"
    and "db_insert_row E txn table row_id values db = (db', Inr ())"
  shows "(\<exists>row. snd (db_read_row E txn table row_id None db') = Inr (Some row) \<and>
      (\<forall>c. map_of row c = (if c \<in> cd_name ` set (ts_columns schema) then Some (or_null (values c)) else None))) \<and>
    (\<forall>txn' table' id' cols. length table' \<le> 42 \<longrightarrow> th_txn_id txn' \<noteq> th_txn_id txn \<or> (table', id') \<noteq> (table, row_id) \<longrightarrow>
      snd (db_read_row E txn' table' id' cols db') = snd (db_read_row E txn' table' id' cols db))"
  using inserted_row_value [OF assms(1,2,4,5,6)] insert_row_keeps_others [OF assms(1-3)] assms(6) by (metis fst_conv)

definition demo_values :: "bytes \<Rightarrow> SochValue option" where
  "demo_values = [[105] \<mapsto> VInt 7, [110] \<mapsto> VText [97]]"

lemma demo_values_fit: "row_fits (to_packed_schema demo_users) demo_values"
  by (simp add: row_fits_def to_packed_schema_def demo_users_def ps_new_def demo_values_def value_size_def value_fits_def packed_type_def)

lemma demo_insert:
  "\<exists>db'. db_insert_row demo_env demo_handle [117, 115] 1 demo_values demo_database = (db', Inr ()) \<and>
     db' = fst (db_put demo_env demo_handle (row_key [117, 115] 1) (pr_as_bytes (packed_row (to_packed_schema demo_users) demo_values)) demo_database)"
  unfolding db_insert_row_put [OF db_catalog [OF demo_database_reachable] demo_database_state(2)]
  using demo_put_accepted by (simp add: prod_eq_iff del: db_put_simps)

theorem inserted_row_reads_back_witness:
  "\<exists>db' row. db_insert_row demo_env demo_handle [117, 115] 1 demo_values demo_database = (db', Inr ()) \<and>
     snd (db_read_row demo_env demo_handle [117, 115] 1 None db') = Inr (Some row) \<and> map_of row [105] = Some (VInt 7)"
proof -
  obtain db' where i: "db_insert_row demo_env demo_handle [117, 115] 1 demo_values demo_database = (db', Inr ())" using demo_insert by blast
  from inserted_row_reads_back [OF demo_database_reachable demo_database_state(2) _ demo_values_fit demo_database_state(3) i] obtain row where
    "snd (db_read_row demo_env demo_handle [117, 115] 1 None db') = Inr (Some row)"
    "\<forall>c. map_of row c = (if c \<in> cd_name ` set (ts_columns demo_users) then Some (or_null (demo_values c)) else None)" by auto
  with i show ?thesis by (auto simp: demo_users_def demo_values_def or_null_def)
qed

text \<open>
  C7: Committed rows survive a crash.  With a sync at every commit, or with group commit, a row that was
  inserted and whose transaction committed is found under its key by the engine restarted from any
  contents the crash may leave in the log, and decodes to the inserted values.  The engine below the
  database has a history (\<open>ds_history\<close>): it was created on an empty directory and since then used,
  truncated and restarted over its whole log, with every record within the frame limit of 512 MiB and no
  failed log write; the row's own record is within that limit too, and the crash comes before any further
  operation (a truncation, in particular, would drop the row).
\<close>

theorem committed_row_survives_crash:
  assumes "platform_ok (de_platform E)" "db_reachable E db" "ds_history E (db_storage db) W Q" "syncs_commits (db_storage db)"
    and "map_of (db_tables db) table = Some schema" "row_fits (to_packed_schema schema) values"
    and "write_fits (ds_wal (db_storage db)) (row_key table row_id, pr_as_bytes (packed_row (to_packed_schema schema) values))"
    and "db_insert_row E txn table row_id values db = (db1, Inr ())" "db_commit E txn db1 = (db2, Inr cts)"
    and "crash_image (ds_wal (db_storage db2)) img"
  shows "\<exists>s data row. ds_restart E kind ordered tick img (db_storage db2) = Inr s \<and>
    ds_read_latest (row_key table row_id) s = Some data \<and>
    decode_row (to_packed_schema schema) (map cd_name (ts_columns schema)) data = Inr row \<and>
    (\<forall>c. map_of row c = (if c \<in> cd_name ` set (ts_columns schema) then Some (or_null (values c)) else None))"
proof -
  let ?k = "row_key table row_id" and ?v = "pr_as_bytes (packed_row (to_packed_schema schema) values)" and ?t = "th_txn_id txn"
  have db1: "db_storage db1 = fst (ds_write E ?t ?k ?v (db_storage db))"
    using db_insert_row_put [OF db_catalog [OF assms(2)] assms(5), of E txn row_id "values"] assms(8) by (metis db_put_simps(1) fst_conv)
  have c: "ds_commit E ?t (db_storage db1) = (db_storage db2, Inr cts)"
    using assms(9) by (auto simp: db_commit_def on_storage_def split: prod.splits)
  have "syncs_commits (db_storage db1)" using assms(4) by (simp add: db1 syncs_commits_def ds_put_config)
  from restart_after_commit [OF assms(1) ds_history.written [OF assms(3,7), of ?t, folded db1] this c assms(10), of kind ordered tick]
  obtain s where "ds_restart E kind ordered tick img (db_storage db2) = Inr s" "ds_read_latest ?k s = Some ?v" by auto
  with decode_packed [OF assms(6), of "map cd_name (ts_columns schema)"] show ?thesis by auto
qed

lemma demo_row_fits:
  "write_fits w (row_key [117, 115] 1, pr_as_bytes (packed_row (to_packed_schema demo_users) demo_values))"
proof -
  have "length (pr_as_bytes (packed_row (to_packed_schema demo_users) demo_values)) = 22"
    using pack_length [of demo_values "to_packed_schema demo_users"]
    by (simp add: packed_row_def pr_as_bytes_def buffer_size_def to_packed_schema_def demo_users_def ps_new_def demo_values_def
        value_size_def div_ceil_def)
  moreover have "length (row_key [117, 115] 1) \<le> 23" using length_decimal [of 1] by (simp add: row_key_def row_key_bytes)
  ultimately show ?thesis
    by (simp add: write_fits_def frame_fits_def entry_len_def entry_data_def unat_MAX_WAL_FRAME_LEN HEADER_SIZE_def NONCE_SIZE_def)
qed

theorem committed_row_survives_crash_witness:
  "\<exists>db1 db2 cts s data. db_insert_row demo_env demo_handle [117, 115] 1 demo_values demo_database = (db1, Inr ()) \<and>
     db_commit demo_env demo_handle db1 = (db2, Inr cts) \<and>
     ds_restart demo_env ArenaType False 9 (wal_file (ds_wal (db_storage db2))) (db_storage db2) = Inr s \<and>
     ds_read_latest (row_key [117, 115] 1) s = Some data"
proof -
  let ?w = "(row_key [117, 115] 1, pr_as_bytes (packed_row (to_packed_schema demo_users) demo_values))"
  obtain db1 where i: "db_insert_row demo_env demo_handle [117, 115] 1 demo_values demo_database = (db1, Inr ())"
    "db_storage db1 = fst (ds_write demo_env (th_txn_id demo_handle) (fst ?w) (snd ?w) (db_storage demo_database))" using demo_insert by auto
  have "\<exists>s' cts. ds_commit demo_env (th_txn_id demo_handle) (db_storage db1) = (s', Inr cts)"
    by (rule quiet_commit) (use demo_database_state demo_db_begin(4) in
        \<open>simp_all add: i(2) put_quiet ds_put_fields mm_get_record ee_disabled_def ee_is_enabled_def\<close>)
  then obtain cts where "snd (db_commit demo_env demo_handle db1) = Inr cts" by (auto simp: db_commit_def)
  then obtain db2 where c: "db_commit demo_env demo_handle db1 = (db2, Inr cts)" by (cases "db_commit demo_env demo_handle db1") simp
  then have c2: "ds_commit demo_env (th_txn_id demo_handle) (db_storage db1) = (db_storage db2, Inr cts)"
    by (auto simp: db_commit_def on_storage_def split: prod.splits)
  have h: "ds_history demo_env (db_storage db1) [] ((\<lambda>_. [])(th_txn_id demo_handle := [] @ [?w]))"
    using ds_history.written [OF demo_history, of "fst ?w" "snd ?w" "th_txn_id demo_handle"] demo_row_fits by (simp add: i(2))
  have sync: "syncs_commits (db_storage demo_database)" using demo_db_begin(5) by (simp add: syncs_commits_def demo_database_state(1))
  from committed_row_survives_crash [OF demo_env_ok demo_database_reachable demo_history sync demo_database_state(2) demo_values_fit
      demo_row_fits i(1) c history_image [OF demo_env_ok ds_history.committed [OF h c2]], where kind = ArenaType and ordered = False and tick = 9]
    i(1) c show ?thesis by blast
qed

lemma map_filter_guard: "List.map_filter (\<lambda>x. if P x then f x else None) xs = List.map_filter f (filter P xs)"
  by (induction xs) (simp_all add: map_filter_simps split: option.split)

lemma row_key_under:
  assumes "length other \<le> 42" "row_key other row_id = table @ [47] @ rest" "47 \<notin> set rest"
  shows "other = table"
  using assms split_last_separator [of other 47 "decimal row_id" table rest] decimal_no_slash by (simp add: row_key_def row_key_bytes)

text \<open>
  C8: A table query is exact.  Querying a registered table by its name reads, once each, the visible keys
  "name/rest" that are valid UTF-8 and whose rest has no further slash, decodes (or projects) each of them,
  drops those whose bytes do not decode or that have none of the requested columns, and cuts out the
  requested page.  Every visible row of the table is among those keys when its name is valid UTF-8 of at
  most 42 bytes; no row of another table whose name has at most 42 bytes is, in particular none of a table
  whose name starts the same way.  Longer names of other tables are cut in their keys and may collide
  (\<open>long_table_names_collide\<close>).
\<close>

theorem table_query_is_exact:
  assumes "db_reachable E db" "map_of (db_tables db) table = Some schema" "table \<noteq> []" "47 \<notin> set table"
    and "mm_get (th_txn_id (qb_txn q)) (ds_mvcc (db_storage db)) \<noteq> None" "qb_path_prefix q = table"
  shows "\<exists>entries r. distinct (map fst entries) \<and>
    set entries = {(k, v). (\<exists>rest. k = table @ [47] @ rest \<and> 47 \<notin> set rest) \<and> utf8_valid k \<and>
      snd (db_get E (qb_txn q) k db) = Inr (Some v)} \<and>
    snd (qb_execute q db) = Inr r \<and>
    qr_rows r = page q (List.map_filter (\<lambda>(k, v). selected_row (to_packed_schema schema) (qb_columns q) v) entries) \<and>
    (\<forall>row_id v. length table \<le> 42 \<and> utf8_valid table \<and> snd (db_get E (qb_txn q) (row_key table row_id) db) = Inr (Some v) \<longrightarrow>
      (row_key table row_id, v) \<in> set entries) \<and>
    (\<forall>other row_id. length other \<le> 42 \<and> other \<noteq> table \<longrightarrow> row_key other row_id \<notin> fst ` set entries)"
proof -
  obtain results r where res: "distinct (map fst results)"
    "set results = {(k, v). prefix (table @ [47]) k \<and> utf8_valid k \<and> snd (db_get E (qb_txn q) k db) = Inr (Some v)}"
    "snd (qb_execute q db) = Inr r"
    "qr_rows r = page q (List.map_filter (\<lambda>(k, v). if 47 \<notin> set (drop (length table + 1) k)
      then selected_row (to_packed_schema schema) (qb_columns q) v else None) results)"
    using query_exact [OF assms] by blast
  let ?entries = "filter (\<lambda>(k, v). 47 \<notin> set (drop (length table + 1) k)) results"
  have set: "set ?entries = {(k, v). (\<exists>rest. k = table @ [47] @ rest \<and> 47 \<notin> set rest) \<and> utf8_valid k \<and>
      snd (db_get E (qb_txn q) k db) = Inr (Some v)}"
    using res(2) by (auto simp: prefix_def simp del: db_get_simps)
  have rows: "qr_rows r = page q (List.map_filter (\<lambda>(k, v). selected_row (to_packed_schema schema) (qb_columns q) v) ?entries)"
    unfolding res(4) by (simp add: case_prod_unfold map_filter_guard)
  have own: "(row_key table row_id, v) \<in> set ?entries"
    if "length table \<le> 42" "utf8_valid table" "snd (db_get E (qb_txn q) (row_key table row_id) db) = Inr (Some v)" for row_id v
    unfolding set using that row_key_utf8 [OF that(2,1), of row_id] decimal_no_slash [of row_id]
    by (auto simp: row_key_def row_key_bytes simp del: db_get_simps)
  have others: "row_key other row_id \<notin> fst ` set ?entries" if "length other \<le> 42" "other \<noteq> table" for other row_id
    unfolding set using row_key_under [OF that(1)] that(2) by (auto simp del: db_get_simps)
  show ?thesis
    using distinct_map_filter [OF res(1)] set res(3) rows own others by (intro exI [of _ ?entries] exI [of _ r]) blast
qed

lemma demo_inserted:
  assumes "db_insert_row demo_env demo_handle [117, 115] 1 demo_values demo_database = (db1, Inr ())"
  shows "db_reachable demo_env db1" "map_of (db_tables db1) [117, 115] = Some demo_users"
    "mm_get (th_txn_id demo_handle) (ds_mvcc (db_storage db1)) \<noteq> None"
    "snd (db_get demo_env demo_handle k db1) =
       Inr (if k = row_key [117, 115] 1 then Some (pr_as_bytes (packed_row (to_packed_schema demo_users) demo_values)) else None)"
proof -
  let ?k = "row_key [117, 115] 1" and ?v = "pr_as_bytes (packed_row (to_packed_schema demo_users) demo_values)"
  have db1: "db1 = fst (db_put demo_env demo_handle ?k ?v demo_database)" using demo_insert assms by auto
  have op: "db_storage db1 = ds_step demo_env (DWrite (th_txn_id demo_handle) ?k ?v) (db_storage demo_database)" by (simp add: db1)
  show "db_reachable demo_env db1"
    by (rule db_reachable.storage [OF demo_database_reachable demo_database_room op]) (simp_all add: db1)
  show "map_of (db_tables db1) [117, 115] = Some demo_users" using demo_database_state(2) by (simp add: db1)
  show "mm_get (th_txn_id demo_handle) (ds_mvcc (db_storage db1)) \<noteq> None"
    using demo_database_state(3) by (simp add: db1 ds_put_fields mm_get_record)
  have none: "snd (db_get demo_env demo_handle k demo_database) = Inr None"
    using kind.read_eq [OF ds_wf_parts(1) [OF db_wf [OF demo_database_reachable]]] demo_database_state(3)
    by (auto simp: ds_read_value demo_database_state(5) chain_value_def snapshot_get split: option.split)
  show "snd (db_get demo_env demo_handle k db1) = Inr (if k = ?k then Some ?v else None)"
  proof (cases "k = ?k")
    case True
    then show ?thesis
      using ds_read_own_write [OF db_wf [OF demo_database_reachable] demo_database_state(3), of ?k ?v] demo_put_accepted [of demo_handle ?k ?v]
      by (simp add: db1)
  next
    case False
    with none ds_read_write_other [OF db_wf [OF demo_database_reachable]] show ?thesis by (simp add: db1)
  qed
qed

lemma demo_selected:
  "\<exists>row. selected_row (to_packed_schema demo_users) (Some [[105]]) (pr_as_bytes (packed_row (to_packed_schema demo_users) demo_values)) = Some row \<and>
    map_of row [105] = Some (VInt 7)"
proof -
  obtain row where row: "decode_row (to_packed_schema demo_users) [[105]] (pr_as_bytes (packed_row (to_packed_schema demo_users) demo_values)) = Inr row"
    "map_of row [105] = Some (VInt 7)"
    using decode_packed [OF demo_values_fit, of "[[105]]"] by (auto simp: demo_users_def demo_values_def or_null_def)
  have "unpack_selected ps (Some cs) = (\<lambda>row. project_row ps row cs [])" for ps cs by (simp add: fun_eq_iff unpack_selected_def)
  with row show ?thesis by (auto simp add: selected_row_def decode_row_def simp del: project_row.simps)
qed

theorem table_query_is_exact_witness:
  "\<exists>db1 r row. db_insert_row demo_env demo_handle [117, 115] 1 demo_values demo_database = (db1, Inr ()) \<and>
     snd (qb_execute (qb_set_columns [[105]] (db_query demo_handle [117, 115])) db1) = Inr r \<and>
     qr_rows r = [row] \<and> map_of row [105] = Some (VInt 7)"
proof -
  let ?k = "row_key [117, 115] 1" and ?v = "pr_as_bytes (packed_row (to_packed_schema demo_users) demo_values)"
  let ?q = "qb_set_columns [[105]] (db_query demo_handle [117, 115])"
  obtain db1 where i: "db_insert_row demo_env demo_handle [117, 115] 1 demo_values demo_database = (db1, Inr ())" using demo_insert by blast
  have q: "qb_txn ?q = demo_handle" "qb_path_prefix ?q = [117, 115]" "qb_columns ?q = Some [[105]]" "qb_offset ?q = None" "qb_limit ?q = None"
    by (simp_all add: qb_set_columns_def db_query_def qb_new_def)
  have "utf8_valid [117, 115]" by simp
  with table_query_is_exact [OF demo_inserted(1,2) [OF i], of ?q] demo_inserted(3) [OF i]
  obtain entries r where e: "distinct (map fst entries)"
    "set entries = {(k, v). (\<exists>rest. k = [117, 115] @ [47] @ rest \<and> 47 \<notin> set rest) \<and> utf8_valid k \<and>
      snd (db_get demo_env demo_handle k db1) = Inr (Some v)}"
    "snd (qb_execute ?q db1) = Inr r"
    "qr_rows r = page ?q (List.map_filter (\<lambda>(k, v). selected_row (to_packed_schema demo_users) (Some [[105]]) v) entries)"
    "\<forall>v. snd (db_get demo_env demo_handle ?k db1) = Inr (Some v) \<longrightarrow> (?k, v) \<in> set entries"
    unfolding q by (auto simp del: db_get_simps)
  have "set entries = {(?k, ?v)}" using e(2,5) by (auto simp: demo_inserted(4) [OF i] split: if_splits simp del: db_get_simps)
  with e(1) have "entries = [(?k, ?v)]" by (cases entries rule: remdups_adj.cases) auto
  with e(3,4) demo_selected i show ?thesis by (auto simp: page_def q map_filter_simps)
qed

text \<open>
  The lazy query returns rows of other tables.  Unlike the materialising query, it scans the bare
  name: every visible row of a table whose name begins with the queried name is yielded too, decoded with
  the schema of the queried table; and a table with a name of one byte cannot be queried at all.
\<close>

lemma lazy_query_bleeds_into_siblings:
  assumes "db_reachable E db" "map_of (db_tables db) table = Some schema" "47 \<notin> set table"
    and "mm_get (th_txn_id txn) (ds_mvcc (db_storage db)) \<noteq> None"
  shows "(2 \<le> length table \<and> length (table @ rest) \<le> 42 \<and> 47 \<notin> set rest \<and> utf8_valid (table @ rest) \<and>
      snd (db_get E txn (row_key (table @ rest) row_id) db) = Inr (Some data) \<longrightarrow>
      (\<exists>it. snd (qb_execute_iter (db_query txn table) db) = Inr it \<and>
        try_bind (pr_from_bytes data (ps_num_columns (to_packed_schema schema))) (unpack_to_vec (to_packed_schema schema))
          \<in> set (qri_collect it))) \<and>
    (length table < 2 \<longrightarrow> snd (qb_execute_iter (db_query txn table) db) = Inl (prefix_too_short (length table)))"
proof -
  have "snd (qb_execute_iter (db_query txn table) db) = Inl (prefix_too_short (length table))" if "length table < 2"
    using that by (simp add: qb_execute_iter_def db_query_def qb_new_def db_scan_path_def db_scan_def MIN_SCAN_PREFIX_LEN_def Let_def)
  moreover have "prefix table (row_key (table @ rest) row_id)" if "length (table @ rest) \<le> 42"
    using that by (simp add: row_key_def row_key_bytes)
  ultimately show ?thesis
    using lazy_query_item [OF assms(1,2) _ assms(3,4)] row_key_is_row_path [of "table @ rest" row_id] row_key_utf8 [of "table @ rest" row_id]
      assms(3) by (metis UnE set_append)
qed

text \<open>
  Lazy queries end.  Every iterator, whatever its offset, limit and schema, returns no row after at most as
  many calls as the scan found keys, and from then on it keeps returning none.
\<close>

lemma lazy_query_ends:
  "(\<exists>n \<le> length (qri_results it). snd (qri_next (((\<lambda>i. fst (qri_next i)) ^^ n) it)) = None) \<and>
   (snd (qri_next it') = None \<longrightarrow> snd (qri_next (fst (qri_next it'))) = None)"
  using qri_next_ends qri_next_fused by blast

end
