(* ===== verification/Keyring.thy ===== *)
theory Keyring
  imports Storage_Properties
begin

text \<open>
  \<^verbatim>\<open>sochdb-storage/src/keyring.rs\<close>: the descriptor file that makes a database encrypted, and the
  constructors of \<^verbatim>\<open>DurableStorage\<close> that resolve it before the log is touched.  AES-GCM-SIV, HKDF, HMAC,
  the hexadecimal codec and the JSON codec are parameters (\<open>keyring_crypto\<close>), with what the code relies on
  in \<open>keyring_ok\<close>; the random bytes and the outcomes of file operations of one call are another
  (\<open>keyring_choice\<close>).  Two processes that create the keyring of one directory at once are a step relation.
\<close>

subsection \<open>The descriptor\<close>

record KeyringFile =
  kf_format_version :: u32
  kf_encrypted :: bool
  kf_db_uuid :: string
  kf_kek_source_id :: string
  kf_key_epoch :: u32
  kf_salt :: string
  kf_wrapped_dek :: string
  kf_canary :: string
  kf_mac :: string

record ActiveEncryption =
  ae_engine :: EncryptionEngine
  ae_db_uuid :: bytes
  ae_key_epoch :: u32

datatype EncryptionState = Plaintext | Encrypted ActiveEncryption

record keyring_crypto =
  kc_aes :: "bytes \<Rightarrow> aead"
  kc_hkdf :: "bytes \<Rightarrow> bytes \<Rightarrow> bytes \<Rightarrow> bytes"
  kc_hmac :: "bytes \<Rightarrow> bytes \<Rightarrow> bytes"
  kc_hex_encode :: "bytes \<Rightarrow> string"
  kc_hex_decode :: "string \<Rightarrow> bytes option"
  kc_to_json :: "KeyringFile \<Rightarrow> string + bytes"
  kc_from_json :: "bytes \<Rightarrow> string + KeyringFile"

record keyring_choice =
  rnd_db_uuid :: bytes
  rnd_salt :: bytes
  rnd_dek :: bytes
  rnd_wrap_nonce :: bytes
  rnd_canary_nonce :: bytes
  io_read :: "unit result"
  io_create_dir :: "unit result"
  io_temp_file :: "unit result"
  io_publish :: "string option"
  io_sync :: "unit result"

text \<open>The AEAD and the codecs invert; random bytes have the length that was asked for.\<close>

definition keyring_ok :: "keyring_crypto \<Rightarrow> bool" where
  "keyring_ok C \<longleftrightarrow>
     (\<forall>k. aead_ok (kc_aes C k)) \<and> (\<forall>b. kc_hex_decode C (kc_hex_encode C b) = Some b) \<and>
     (\<forall>f b. kc_to_json C f = Inr b \<longrightarrow> kc_from_json C b = Inr f)"

definition random_ok :: "keyring_choice \<Rightarrow> bool" where
  "random_ok R \<longleftrightarrow>
     length (rnd_db_uuid R) = 16 \<and> length (rnd_salt R) = 16 \<and> length (rnd_dek R) = 32 \<and>
     length (rnd_wrap_nonce R) = NONCE_SIZE \<and> length (rnd_canary_nonce R) = NONCE_SIZE"

definition char_byte :: "char \<Rightarrow> byte" where
  "char_byte c = word_of_nat (of_char c)"

definition str_bytes :: "string \<Rightarrow> bytes" where
  "str_bytes s = map char_byte s"

definition KEYRING_FORMAT_VERSION :: u32 where
  "KEYRING_FORMAT_VERSION = 1"

definition CANARY_TOKEN :: bytes where
  "CANARY_TOKEN = str_bytes ''sochdb-keyring-canary-v1''"

definition INFO_WRAP :: bytes where
  "INFO_WRAP = str_bytes ''sochdb/keyring/wrap/v1''"

definition INFO_MAC :: bytes where
  "INFO_MAC = str_bytes ''sochdb/keyring/mac/v1''"

abbreviation enc_fail :: "string \<Rightarrow> 'a result" where
  "enc_fail msg \<equiv> Inl (Err (SochDBError.Encryption msg))"

definition from_key :: "keyring_crypto \<Rightarrow> bytes \<Rightarrow> EncryptionEngine" where
  "from_key C k = ee_new (kc_aes C k)"

definition derive_subkey :: "keyring_crypto \<Rightarrow> bytes \<Rightarrow> bytes \<Rightarrow> bytes \<Rightarrow> bytes" where
  "derive_subkey C ikm salt info = kc_hkdf C ikm salt info"

subsection \<open>The resolved state\<close>

definition st_is_encrypted :: "EncryptionState \<Rightarrow> bool" where
  "st_is_encrypted st = (case st of Plaintext \<Rightarrow> False | Encrypted a \<Rightarrow> True)"

definition st_engine :: "keyring_crypto \<Rightarrow> EncryptionState \<Rightarrow> EncryptionEngine" where
  "st_engine C st = (case st of Plaintext \<Rightarrow> ee_disabled (kc_aes C (replicate 32 0)) | Encrypted a \<Rightarrow> ae_engine a)"

definition st_db_uuid :: "EncryptionState \<Rightarrow> bytes" where
  "st_db_uuid st = (case st of Plaintext \<Rightarrow> replicate 16 0 | Encrypted a \<Rightarrow> ae_db_uuid a)"

definition st_key_epoch :: "EncryptionState \<Rightarrow> u32" where
  "st_key_epoch st = (case st of Plaintext \<Rightarrow> 0 | Encrypted a \<Rightarrow> ae_key_epoch a)"

subsection \<open>Authentication\<close>

definition mac_push :: "bytes \<Rightarrow> bytes" where
  "mac_push b = u32_le (word_of_nat (length b)) @ b"

definition mac_input :: "KeyringFile \<Rightarrow> bytes" where
  "mac_input f =
     mac_push (u32_le (kf_format_version f)) @ mac_push [of_bool (kf_encrypted f)] @ mac_push (str_bytes (kf_db_uuid f))
     @ mac_push (str_bytes (kf_kek_source_id f)) @ mac_push (u32_le (kf_key_epoch f)) @ mac_push (str_bytes (kf_salt f))
     @ mac_push (str_bytes (kf_wrapped_dek f)) @ mac_push (str_bytes (kf_canary f))"

definition compute_mac :: "keyring_crypto \<Rightarrow> bytes \<Rightarrow> KeyringFile \<Rightarrow> bytes" where
  "compute_mac C mac_key f = kc_hmac C mac_key (mac_input f)"

definition wrap_aad :: "bytes \<Rightarrow> u32 \<Rightarrow> string \<Rightarrow> bytes" where
  "wrap_aad db_uuid epoch source_id = db_uuid @ u32_le epoch @ str_bytes source_id"

definition canary_aad :: "bytes \<Rightarrow> u32 \<Rightarrow> bytes" where
  "canary_aad db_uuid epoch = db_uuid @ u32_le epoch"

definition decode_fixed :: "keyring_crypto \<Rightarrow> nat \<Rightarrow> string \<Rightarrow> string \<Rightarrow> bytes result" where
  "decode_fixed C n hexstr what =
     (case kc_hex_decode C hexstr of
        None \<Rightarrow> enc_fail (''malformed keyring '' @ what)
      | Some v \<Rightarrow>
          (if length v \<noteq> n
           then enc_fail (''keyring '' @ what @ '' wrong length: '' @ show_nat (length v) @ '' != '' @ show_nat n)
           else Inr v))"

definition verify_mac :: "keyring_crypto \<Rightarrow> KeyringFile \<Rightarrow> bytes \<Rightarrow> unit result" where
  "verify_mac C f kek =
     try_bind (decode_fixed C 16 (kf_salt f) ''salt'') (\<lambda>salt.
       let mac_key = derive_subkey C kek salt INFO_MAC
       in case kc_hex_decode C (kf_mac f) of
            None \<Rightarrow> enc_fail ''malformed keyring mac''
          | Some actual \<Rightarrow>
              (if kc_hmac C mac_key (mac_input f) = actual then Inr ()
               else enc_fail ''keyring authentication failed: wrong encryption key or tampered keyring; refusing to open''))"

subsection \<open>Opening and creating\<close>

definition open_encrypted :: "keyring_crypto \<Rightarrow> KeyringFile \<Rightarrow> bytes \<Rightarrow> EncryptionState result" where
  "open_encrypted C f kek =
     try_bind (decode_fixed C 16 (kf_salt f) ''salt'') (\<lambda>salt.
     try_bind (decode_fixed C 16 (kf_db_uuid f) ''db_uuid'') (\<lambda>db_uuid.
     let epoch = kf_key_epoch f; wrap_engine = from_key C (derive_subkey C kek salt INFO_WRAP)
     in case kc_hex_decode C (kf_wrapped_dek f) of
          None \<Rightarrow> enc_fail ''malformed wrapped_dek''
        | Some wrapped_dek \<Rightarrow>
     (case decrypt_with_aad wrap_engine wrapped_dek (wrap_aad db_uuid epoch (kf_kek_source_id f)) of
        Inl _ \<Rightarrow> enc_fail ''failed to unwrap data key: wrong encryption key; refusing to open''
      | Inr dek_bytes \<Rightarrow>
     (if length dek_bytes \<noteq> 32 then enc_fail ''unwrapped DEK is not 32 bytes''
      else let dek_engine = from_key C dek_bytes
      in case kc_hex_decode C (kf_canary f) of
           None \<Rightarrow> enc_fail ''malformed canary''
         | Some canary \<Rightarrow>
      (case decrypt_with_aad dek_engine canary (canary_aad db_uuid epoch) of
         Inl _ \<Rightarrow> enc_fail ''canary decryption failed: wrong encryption key; refusing to open''
       | Inr token \<Rightarrow>
           (if token \<noteq> CANARY_TOKEN then enc_fail ''canary token mismatch; refusing to open''
            else Inr (Encrypted \<lparr>ae_engine = dek_engine, ae_db_uuid = db_uuid, ae_key_epoch = epoch\<rparr>)))))))"

definition read_keyring :: "keyring_crypto \<Rightarrow> keyring_choice \<Rightarrow> bytes option \<Rightarrow> KeyringFile result" where
  "read_keyring C R path =
     try_bind (io_read R) (\<lambda>_.
       case path of
         None \<Rightarrow> Inl (Err (Io (OtherIo ''No such file or directory'')))
       | Some content \<Rightarrow>
           (case kc_from_json C content of
              Inl e \<Rightarrow> enc_fail (''malformed keyring: '' @ e)
            | Inr f \<Rightarrow> Inr f))"

definition version_error :: "KeyringFile \<Rightarrow> string" where
  "version_error f =
     ''unsupported keyring format version '' @ show_nat (unat (kf_format_version f)) @ '' (expected ''
     @ show_nat (unat KEYRING_FORMAT_VERSION) @ '')''"

text \<open>
  The file is linked into place only if the name is free.  \<open>target\<close> is what stands under the name at that
  moment; the result says whether this call created it.
\<close>

definition write_keyring_noclobber ::
    "keyring_crypto \<Rightarrow> keyring_choice \<Rightarrow> KeyringFile \<Rightarrow> bytes option \<Rightarrow> bytes option \<times> bool result" where
  "write_keyring_noclobber C R f target =
     (case io_create_dir R of Inl e \<Rightarrow> (target, Inl e) | Inr _ \<Rightarrow>
     (case kc_to_json C f of Inl e \<Rightarrow> (target, enc_fail (''serialize keyring: '' @ e)) | Inr json \<Rightarrow>
     (case io_temp_file R of Inl e \<Rightarrow> (target, Inl e) | Inr _ \<Rightarrow>
     (case io_publish R of
        Some e \<Rightarrow> (target, enc_fail (''failed to publish keyring: '' @ e))
      | None \<Rightarrow>
          (case target of
             Some _ \<Rightarrow> (target, Inr False)
           | None \<Rightarrow> (Some json, try_bind (io_sync R) (\<lambda>_. Inr True)))))))"

text \<open>The descriptor of a new database: wrapped data key, canary, and the MAC over all other fields.\<close>

definition seal_keyring :: "keyring_crypto \<Rightarrow> keyring_choice \<Rightarrow> bytes \<Rightarrow> string \<Rightarrow> KeyringFile result" where
  "seal_keyring C R kek source_id =
     (let db_uuid = rnd_db_uuid R; salt = rnd_salt R; epoch = 0; dek = rnd_dek R;
          wrap_engine = from_key C (derive_subkey C kek salt INFO_WRAP)
      in try_bind (lift_enc (encrypt_with_aad wrap_engine (rnd_wrap_nonce R) dek (wrap_aad db_uuid epoch source_id))) (\<lambda>wrapped_dek.
         try_bind (lift_enc (encrypt_with_aad (from_key C dek) (rnd_canary_nonce R) CANARY_TOKEN (canary_aad db_uuid epoch))) (\<lambda>canary.
         let f = \<lparr>kf_format_version = KEYRING_FORMAT_VERSION, kf_encrypted = True, kf_db_uuid = kc_hex_encode C db_uuid,
                  kf_kek_source_id = source_id, kf_key_epoch = epoch, kf_salt = kc_hex_encode C salt,
                  kf_wrapped_dek = kc_hex_encode C wrapped_dek, kf_canary = kc_hex_encode C canary, kf_mac = []\<rparr>;
             mac_key = derive_subkey C kek salt INFO_MAC
         in Inr (f\<lparr>kf_mac := kc_hex_encode C (compute_mac C mac_key f)\<rparr>))))"

definition created_state :: "keyring_crypto \<Rightarrow> keyring_choice \<Rightarrow> EncryptionState" where
  "created_state C R =
     Encrypted \<lparr>ae_engine = from_key C (rnd_dek R), ae_db_uuid = rnd_db_uuid R, ae_key_epoch = 0\<rparr>"

definition create_encrypted ::
    "keyring_crypto \<Rightarrow> keyring_choice \<Rightarrow> bytes \<Rightarrow> string \<Rightarrow> bytes option \<Rightarrow> bytes option \<times> EncryptionState result" where
  "create_encrypted C R kek source_id target =
     (case seal_keyring C R kek source_id of
        Inl e \<Rightarrow> (target, Inl e)
      | Inr f \<Rightarrow>
          (case write_keyring_noclobber C R f target of
             (path, Inl e) \<Rightarrow> (path, Inl e)
           | (path, Inr True) \<Rightarrow> (path, Inr (created_state C R))
           | (path, Inr False) \<Rightarrow>
               (path,
                try_bind (read_keyring C R path) (\<lambda>existing.
                if kf_format_version existing \<noteq> KEYRING_FORMAT_VERSION then enc_fail (version_error existing)
                else try_bind (verify_mac C existing kek) (\<lambda>_. open_encrypted C existing kek)))))"

text \<open>
  \<open>found\<close> is the file when the call looks for it, \<open>target\<close> when it publishes its own: another process may
  have acted in between.  The first component of the result is the file afterwards.
\<close>

definition load_or_init ::
    "keyring_crypto \<Rightarrow> keyring_choice \<Rightarrow> bytes option \<Rightarrow> string \<Rightarrow> bool \<Rightarrow> bytes option \<Rightarrow> bytes option \<Rightarrow>
     bytes option \<times> EncryptionState result" where
  "load_or_init C R kek source_id allow_create found target =
     (if found \<noteq> None
      then (target,
            try_bind (read_keyring C R found) (\<lambda>f.
            if kf_format_version f \<noteq> KEYRING_FORMAT_VERSION then enc_fail (version_error f)
            else case kek of
              None \<Rightarrow> enc_fail ''database has a keyring (encryption configured) but no encryption key was provided (set the KEK, e.g. SOCHDB_ENCRYPTION_KEY); refusing to open''
            | Some kek \<Rightarrow>
                try_bind (verify_mac C f kek) (\<lambda>_.
                if \<not> kf_encrypted f then Inr Plaintext else open_encrypted C f kek)))
      else case kek of
        Some kek \<Rightarrow>
          (if \<not> allow_create
           then (target, enc_fail ''an encryption key was provided for a database that has no keyring (existing plaintext data must be migrated explicitly, not encrypted in place); refusing to open'')
           else create_encrypted C R kek source_id target)
      | None \<Rightarrow> (target, Inr Plaintext))"

subsection \<open>A sealed descriptor opens\<close>

lemma decrypt_from_key:
  assumes "keyring_ok C" "length n = NONCE_SIZE" "encrypt_with_aad (from_key C k) n m aad = Inr env"
  shows "decrypt_with_aad (from_key C k) env aad = Inr m"
  using decrypt_encrypt [OF _ assms(2,3)] assms(1) by (simp add: keyring_ok_def from_key_def ee_new_def)

lemma lift_enc_Inr: "lift_enc r = Inr x \<longleftrightarrow> r = Inr x"
  by (cases r) simp_all

lemma seal_opens:
  assumes "keyring_ok C" "random_ok R" "seal_keyring C R kek source_id = Inr f"
  shows "verify_mac C f kek = Inr ()" "open_encrypted C f kek = Inr (created_state C R)"
    and "kf_format_version f = KEYRING_FORMAT_VERSION" "kf_encrypted f"
proof -
  let ?w = "from_key C (derive_subkey C kek (rnd_salt R) INFO_WRAP)" and ?d = "from_key C (rnd_dek R)"
  obtain w c where
    w: "encrypt_with_aad ?w (rnd_wrap_nonce R) (rnd_dek R) (wrap_aad (rnd_db_uuid R) 0 source_id) = Inr w" and
    c: "encrypt_with_aad ?d (rnd_canary_nonce R) CANARY_TOKEN (canary_aad (rnd_db_uuid R) 0) = Inr c" and
    f: "kf_format_version f = KEYRING_FORMAT_VERSION" "kf_encrypted f" "kf_db_uuid f = kc_hex_encode C (rnd_db_uuid R)"
      "kf_kek_source_id f = source_id" "kf_key_epoch f = 0" "kf_salt f = kc_hex_encode C (rnd_salt R)"
      "kf_wrapped_dek f = kc_hex_encode C w" "kf_canary f = kc_hex_encode C c"
      "kf_mac f = kc_hex_encode C (kc_hmac C (derive_subkey C kek (rnd_salt R) INFO_MAC) (mac_input f))"
    using assms(3) by (auto simp: seal_keyring_def Let_def try_bind_eq_Inr lift_enc_Inr compute_mac_def mac_input_def)
  have hex: "kc_hex_decode C (kc_hex_encode C b) = Some b" for b using assms(1) by (simp add: keyring_ok_def)
  have len: "length (rnd_db_uuid R) = 16" "length (rnd_salt R) = 16" "length (rnd_dek R) = 32"
    "length (rnd_wrap_nonce R) = NONCE_SIZE" "length (rnd_canary_nonce R) = NONCE_SIZE"
    using assms(2) by (simp_all add: random_ok_def)
  show "verify_mac C f kek = Inr ()" by (simp add: verify_mac_def decode_fixed_def f(6,9) hex len)
  show "open_encrypted C f kek = Inr (created_state C R)"
    using decrypt_from_key [OF assms(1) len(4) w] decrypt_from_key [OF assms(1) len(5) c]
    by (simp add: open_encrypted_def decode_fixed_def f hex len created_state_def)
  show "kf_format_version f = KEYRING_FORMAT_VERSION" "kf_encrypted f" by (rule f)+
qed


text \<open>The MAC input determines every authenticated field, as long as no field reaches 4 GiB.\<close>

definition authenticated :: "KeyringFile \<Rightarrow> u32 \<times> bool \<times> string \<times> string \<times> u32 \<times> string \<times> string \<times> string" where
  "authenticated f =
     (kf_format_version f, kf_encrypted f, kf_db_uuid f, kf_kek_source_id f, kf_key_epoch f, kf_salt f, kf_wrapped_dek f, kf_canary f)"

definition fields_small :: "KeyringFile \<Rightarrow> bool" where
  "fields_small f \<longleftrightarrow>
     (\<forall>s \<in> {kf_db_uuid f, kf_kek_source_id f, kf_salt f, kf_wrapped_dek f, kf_canary f}. length s < 2 ^ 32)"

lemma u32_le_inject [simp]: "u32_le x = u32_le y \<longleftrightarrow> x = y"
  by (metis of_le_bytes_u32)

lemma str_bytes_inject [simp]: "str_bytes s = str_bytes t \<longleftrightarrow> s = t"
proof -
  have "inj char_byte"
  proof (rule injI)
    fix c d assume "char_byte c = char_byte d"
    then have "unat (word_of_nat (of_char c) :: byte) = unat (word_of_nat (of_char d) :: byte)" by (simp add: char_byte_def)
    then show "c = d" by (simp add: unat_of_nat)
  qed
  then show ?thesis by (simp add: str_bytes_def inj_map_eq_map)
qed

lemma length_str_bytes [simp]: "length (str_bytes s) = length s"
  by (simp add: str_bytes_def)

lemma mac_push_inject:
  assumes "mac_push b @ xs = mac_push c @ ys" "length b < 2 ^ 32" "length c < 2 ^ 32"
  shows "b = c \<and> xs = ys"
proof -
  have "u32_le (word_of_nat (length b)) = u32_le (word_of_nat (length c))" and rest: "b @ xs = c @ ys"
    using assms(1) by (simp_all add: mac_push_def)
  then have "unat (word_of_nat (length b) :: u32) = unat (word_of_nat (length c) :: u32)" by simp
  with assms(2,3) have "length b = length c" by (simp add: unat_of_nat take_bit_nat_eq_self)
  with rest show ?thesis by simp
qed

lemma mac_input_inject:
  assumes "mac_input f = mac_input g" "fields_small f" "fields_small g"
  shows "authenticated f = authenticated g"
proof -
  note push = mac_push_inject [where xs = "[]" and ys = "[]", simplified]
  show ?thesis
    using assms unfolding mac_input_def authenticated_def fields_small_def
    by (auto dest!: mac_push_inject push)
qed

lemma verify_macD:
  assumes "verify_mac C f kek = Inr ()"
  obtains salt where "kc_hex_decode C (kf_salt f) = Some salt" "length salt = 16"
    "kc_hex_decode C (kf_mac f) = Some (kc_hmac C (derive_subkey C kek salt INFO_MAC) (mac_input f))"
  using assms by (auto simp: verify_mac_def decode_fixed_def try_bind_eq_Inr Let_def split: option.splits if_splits)

lemma open_encrypted_not_plain: "open_encrypted C f kek \<noteq> Inr Plaintext"
  by (auto simp: open_encrypted_def Let_def try_bind_eq_Inr split: option.splits sum.splits if_splits)

lemma create_encrypted_not_plain: "snd (create_encrypted C R kek source_id target) \<noteq> Inr Plaintext"
  by (auto simp: create_encrypted_def created_state_def try_bind_eq_Inr open_encrypted_not_plain
      split: sum.splits prod.splits bool.splits if_splits)

lemma load_found:
  assumes "snd (load_or_init C R kek source_id allow (Some content) target) = Inr st"
  obtains f k where "io_read R = Inr ()" "kc_from_json C content = Inr f" "kf_format_version f = KEYRING_FORMAT_VERSION"
    "kek = Some k" "verify_mac C f k = Inr ()" "kf_encrypted f \<longrightarrow> open_encrypted C f k = Inr st" "\<not> kf_encrypted f \<longrightarrow> st = Plaintext"
  using assms
  by (auto simp: load_or_init_def read_keyring_def try_bind_eq_Inr split: sum.splits if_splits option.splits)

lemma load_sealed:
  assumes "keyring_ok C" "random_ok R" "seal_keyring C R kek source_id = Inr f" "kc_to_json C f = Inr content" "io_read R' = Inr ()"
  shows "load_or_init C R' (Some kek) source_id' allow (Some content) target = (target, Inr (created_state C R))"
  using seal_opens [OF assms(1-3)] assms(1,4,5) by (simp add: load_or_init_def read_keyring_def keyring_ok_def)

lemma create_published:
  assumes "create_encrypted C R kek source_id None = (path, Inr st)"
  obtains f content where "seal_keyring C R kek source_id = Inr f" "kc_to_json C f = Inr content" "path = Some content" "st = created_state C R"
  using assms
  by (auto simp: create_encrypted_def write_keyring_noclobber_def try_bind_eq_Inr
      split: sum.splits option.splits prod.splits bool.splits if_splits)

subsection \<open>Several processes opening one new directory\<close>

text \<open>
  Every process calls \<^verbatim>\<open>load_or_init\<close> with the same key.  Looking for the file is one step, publishing the
  own file another; the steps of different processes interleave freely and any process may stop for good.
\<close>

datatype opener = Starting | Creating | Finished "EncryptionState result"

record race =
  race_file :: "bytes option"
  race_opener :: "nat \<Rightarrow> opener"

inductive race_step :: "keyring_crypto \<Rightarrow> bytes \<Rightarrow> (nat \<Rightarrow> keyring_choice) \<Rightarrow> (nat \<Rightarrow> string) \<Rightarrow> race \<Rightarrow> race \<Rightarrow> bool"
  for C kek R src where
  found: "race_opener s i = Starting \<Longrightarrow> race_file s = Some content \<Longrightarrow>
     race_step C kek R src s
       (s\<lparr>race_opener := (race_opener s)(i := Finished (snd (load_or_init C (R i) (Some kek) (src i) True (Some content) (Some content))))\<rparr>)"
| absent: "race_opener s i = Starting \<Longrightarrow> race_file s = None \<Longrightarrow>
     race_step C kek R src s (s\<lparr>race_opener := (race_opener s)(i := Creating)\<rparr>)"
| publish: "race_opener s i = Creating \<Longrightarrow> load_or_init C (R i) (Some kek) (src i) True None (race_file s) = (path, r) \<Longrightarrow>
     race_step C kek R src s \<lparr>race_file = path, race_opener = (race_opener s)(i := Finished r)\<rparr>"

inductive race_reachable :: "keyring_crypto \<Rightarrow> bytes \<Rightarrow> (nat \<Rightarrow> keyring_choice) \<Rightarrow> (nat \<Rightarrow> string) \<Rightarrow> race \<Rightarrow> bool"
  for C kek R src where
  start: "race_reachable C kek R src \<lparr>race_file = None, race_opener = (\<lambda>_. Starting)\<rparr>"
| step: "race_reachable C kek R src s \<Longrightarrow> race_step C kek R src s s' \<Longrightarrow> race_reachable C kek R src s'"

text \<open>The file was sealed by one of the processes, and every process that succeeded has that key.\<close>

definition race_inv :: "keyring_crypto \<Rightarrow> bytes \<Rightarrow> (nat \<Rightarrow> keyring_choice) \<Rightarrow> (nat \<Rightarrow> string) \<Rightarrow> race \<Rightarrow> bool" where
  "race_inv C kek R src s \<longleftrightarrow>
     (case race_file s of
        None \<Rightarrow> \<forall>i r. race_opener s i = Finished r \<longrightarrow> (\<exists>e. r = Inl e)
      | Some content \<Rightarrow>
          \<exists>w f. seal_keyring C (R w) kek (src w) = Inr f \<and> kc_to_json C f = Inr content \<and>
            (\<forall>i st. race_opener s i = Finished (Inr st) \<longrightarrow> st = created_state C (R w)))"

lemma load_absent:
  "load_or_init C R (Some kek) source_id True None target = create_encrypted C R kek source_id target"
  by (simp add: load_or_init_def)

lemma create_over_existing:
  "create_encrypted C R kek source_id (Some content) = (Some content, r) \<Longrightarrow>
   r = Inr st \<Longrightarrow> io_read R = Inr () \<and> (\<exists>f. kc_from_json C content = Inr f \<and> open_encrypted C f kek = Inr st)"
  by (auto simp: create_encrypted_def write_keyring_noclobber_def read_keyring_def try_bind_eq_Inr
      split: sum.splits option.splits prod.splits bool.splits if_splits)

lemma create_keeps: "fst (create_encrypted C R kek source_id (Some content)) = Some content"
  by (auto simp: create_encrypted_def write_keyring_noclobber_def split: sum.splits option.splits prod.splits bool.splits)

lemma create_absent:
  assumes "create_encrypted C R kek source_id None = (path, r)"
  shows "path = None \<and> (\<exists>e. r = Inl e) \<or>
    (\<exists>f content. seal_keyring C R kek source_id = Inr f \<and> kc_to_json C f = Inr content \<and> path = Some content \<and>
       (\<forall>st. r = Inr st \<longrightarrow> st = created_state C R))"
  using assms
  by (auto simp: create_encrypted_def write_keyring_noclobber_def try_bind_eq_Inr
      split: sum.splits option.splits prod.splits bool.splits if_splits)

lemma race_inv_step:
  assumes "keyring_ok C" "\<forall>i. random_ok (R i)" "race_inv C kek R src s" "race_step C kek R src s s'"
  shows "race_inv C kek R src s'"
  using assms(4)
proof cases
  case (found i content)
  obtain w f where w: "seal_keyring C (R w) kek (src w) = Inr f" "kc_to_json C f = Inr content"
      "\<forall>i st. race_opener s i = Finished (Inr st) \<longrightarrow> st = created_state C (R w)"
    using assms(3) found(3) by (auto simp: race_inv_def)
  have "st = created_state C (R w)"
    if l: "snd (load_or_init C (R i) (Some kek) (src i) True (Some content) (Some content)) = Inr st" for st
  proof -
    from l have "io_read (R i) = Inr ()" by (rule load_found)
    with load_sealed [OF assms(1) _ w(1,2)] assms(2) l show ?thesis by (metis snd_conv sum.inject(2))
  qed
  with w found show ?thesis by (auto simp: race_inv_def intro!: exI [of _ w])
next
  case (absent i)
  with assms(3) show ?thesis by (simp add: race_inv_def)
next
  case (publish i path r)
  show ?thesis
  proof (cases "race_file s")
    case None
    with publish(3) have c: "create_encrypted C (R i) kek (src i) None = (path, r)" by (simp add: load_absent)
    from None assms(3) have "\<forall>j r. race_opener s j = Finished r \<longrightarrow> (\<exists>e. r = Inl e)" by (simp add: race_inv_def)
    with create_absent [OF c] publish(1) show ?thesis by (fastforce simp: race_inv_def)
  next
    case (Some content)
    obtain w f where w: "seal_keyring C (R w) kek (src w) = Inr f" "kc_to_json C f = Inr content"
        "\<forall>i st. race_opener s i = Finished (Inr st) \<longrightarrow> st = created_state C (R w)"
      using assms(3) Some by (auto simp: race_inv_def)
    have c: "create_encrypted C (R i) kek (src i) (Some content) = (Some content, r)" "path = Some content"
      using publish(3) create_keeps [of C "R i" kek "src i" content] by (simp_all add: load_absent Some)
    have "st = created_state C (R w)" if "r = Inr st" for st
      using create_over_existing [OF c(1) that] seal_opens(2) [OF assms(1) _ w(1)] assms(1,2) w(2) by (auto simp: keyring_ok_def)
    with w publish(1) c(2) show ?thesis by (auto simp: race_inv_def intro!: exI [of _ w])
  qed
qed

lemma race_inv_reachable:
  assumes "race_reachable C kek R src s" "keyring_ok C" "\<forall>i. random_ok (R i)"
  shows "race_inv C kek R src s"
  using assms(1)
proof induction
  case start
  then show ?case by (simp add: race_inv_def)
next
  case (step s s')
  show ?case by (rule race_inv_step [OF assms(2,3) step.IH step.hyps(2)])
qed

subsection \<open>Opening the engine\<close>

record StorageEncryption =
  se_kek :: "bytes option"
  se_source_id :: string

definition se_disabled :: StorageEncryption where
  "se_disabled = \<lparr>se_kek = None, se_source_id = ''none''\<rparr>"

definition se_with_kek :: "bytes \<Rightarrow> string \<Rightarrow> StorageEncryption" where
  "se_with_kek kek source_id = \<lparr>se_kek = Some kek, se_source_id = source_id\<rparr>"

definition se_is_enabled :: "StorageEncryption \<Rightarrow> bool" where
  "se_is_enabled se \<longleftrightarrow> se_kek se \<noteq> None"

text \<open>The files of a database directory, with the keyring; \<open>None\<close> is a missing file.\<close>

record db_dir =
  dir_keyring :: "bytes option"
  dir_wal :: "bytes option"
  dir_manifest :: "WalManifest option"
  dir_clean_shutdown :: bool

definition enc_state_of :: "keyring_crypto \<Rightarrow> EncryptionState \<Rightarrow> enc_state" where
  "enc_state_of C st =
     \<lparr>es_is_encrypted = st_is_encrypted st, es_engine = st_engine C st, es_db_uuid = st_db_uuid st, es_key_epoch = st_key_epoch st\<rparr>"

definition dir_disk :: "db_dir \<Rightarrow> ds_disk" where
  "dir_disk dir =
     \<lparr>dk_wal_log = (case dir_wal dir of None \<Rightarrow> [] | Some log \<Rightarrow> log), dk_manifest = dir_manifest dir,
      dk_clean_shutdown = dir_clean_shutdown dir\<rparr>"

text \<open>\<open>lock\<close> is the outcome of the directory lock, \<open>Inr ()\<close> when no lock is acquired.\<close>

definition open_with_full_config_internal ::
    "keyring_crypto \<Rightarrow> ds_env \<Rightarrow> keyring_choice \<Rightarrow> bool \<Rightarrow> MemTableType \<Rightarrow> unit result \<Rightarrow> StorageEncryption \<Rightarrow> db_dir \<Rightarrow> nat \<Rightarrow>
     db_dir \<times> DurableStorage result" where
  "open_with_full_config_internal C E R enable_ordered_index memtable_type lock encryption dir tick =
     (case lock of Inl e \<Rightarrow> (dir, Inl e) | Inr _ \<Rightarrow>
      let is_new_db = (dir_wal dir = None);
          (keyring, enc_state) =
            load_or_init C R (se_kek encryption) (se_source_id encryption) is_new_db (dir_keyring dir) (dir_keyring dir);
          dir = dir\<lparr>dir_keyring := keyring\<rparr>
      in case enc_state of
           Inl e \<Rightarrow> (dir, Inl e)
         | Inr st \<Rightarrow>
             (dir\<lparr>dir_wal := Some (dk_wal_log (dir_disk dir))\<rparr>,
              ds_open E enable_ordered_index memtable_type (Inr ()) (Inr (enc_state_of C st)) (dir_disk dir) tick))"

definition open_with_encryption ::
    "keyring_crypto \<Rightarrow> ds_env \<Rightarrow> keyring_choice \<Rightarrow> bool \<Rightarrow> MemTableType \<Rightarrow> unit result \<Rightarrow> StorageEncryption \<Rightarrow> db_dir \<Rightarrow> nat \<Rightarrow>
     db_dir \<times> DurableStorage result" where
  "open_with_encryption C E R enable_ordered_index memtable_type lock encryption dir tick =
     open_with_full_config_internal C E R enable_ordered_index memtable_type lock encryption dir tick"

definition open_with_full_config ::
    "keyring_crypto \<Rightarrow> ds_env \<Rightarrow> keyring_choice \<Rightarrow> bool \<Rightarrow> MemTableType \<Rightarrow> unit result \<Rightarrow> db_dir \<Rightarrow> nat \<Rightarrow> db_dir \<times> DurableStorage result" where
  "open_with_full_config C E R enable_ordered_index memtable_type lock dir tick =
     open_with_full_config_internal C E R enable_ordered_index memtable_type lock se_disabled dir tick"

definition open_with_config ::
    "keyring_crypto \<Rightarrow> ds_env \<Rightarrow> keyring_choice \<Rightarrow> bool \<Rightarrow> unit result \<Rightarrow> db_dir \<Rightarrow> nat \<Rightarrow> db_dir \<times> DurableStorage result" where
  "open_with_config C E R enable_ordered_index lock dir tick = open_with_full_config C E R enable_ordered_index StandardType lock dir tick"

definition open_plain :: "keyring_crypto \<Rightarrow> ds_env \<Rightarrow> keyring_choice \<Rightarrow> unit result \<Rightarrow> db_dir \<Rightarrow> nat \<Rightarrow> db_dir \<times> DurableStorage result" where
  "open_plain C E R lock dir tick = open_with_config C E R True lock dir tick"

definition open_with_arena :: "keyring_crypto \<Rightarrow> ds_env \<Rightarrow> keyring_choice \<Rightarrow> unit result \<Rightarrow> db_dir \<Rightarrow> nat \<Rightarrow> db_dir \<times> DurableStorage result" where
  "open_with_arena C E R lock dir tick = open_with_full_config C E R True ArenaType lock dir tick"

text \<open>\<^verbatim>\<open>open_ephemeral\<close> opens an empty temporary directory without the lock.\<close>

definition empty_dir :: db_dir where
  "empty_dir = \<lparr>dir_keyring = None, dir_wal = None, dir_manifest = None, dir_clean_shutdown = False\<rparr>"

definition open_ephemeral :: "keyring_crypto \<Rightarrow> ds_env \<Rightarrow> keyring_choice \<Rightarrow> unit result \<Rightarrow> nat \<Rightarrow> DurableStorage result" where
  "open_ephemeral C E R tempdir tick =
     try_bind tempdir (\<lambda>_.
       snd (open_with_full_config_internal C E R True StandardType (Inr ()) se_disabled empty_dir tick))"

definition open_ephemeral_with_group_commit ::
    "keyring_crypto \<Rightarrow> ds_env \<Rightarrow> keyring_choice \<Rightarrow> unit result \<Rightarrow> nat \<Rightarrow> DurableStorage result" where
  "open_ephemeral_with_group_commit C E R tempdir tick =
     try_bind tempdir (\<lambda>_.
     try_bind (snd (open_with_full_config_internal C E R True StandardType (Inr ()) se_disabled empty_dir tick)) (\<lambda>storage.
       Inr (storage\<lparr>ds_group_commit := True\<rparr>)))"

definition with_group_commit :: "db_dir \<times> DurableStorage result \<Rightarrow> db_dir \<times> DurableStorage result" where
  "with_group_commit opened = (fst opened, try_bind (snd opened) (\<lambda>storage. Inr (storage\<lparr>ds_group_commit := True\<rparr>)))"

definition open_with_group_commit_and_config ::
    "keyring_crypto \<Rightarrow> ds_env \<Rightarrow> keyring_choice \<Rightarrow> bool \<Rightarrow> unit result \<Rightarrow> db_dir \<Rightarrow> nat \<Rightarrow> db_dir \<times> DurableStorage result" where
  "open_with_group_commit_and_config C E R enable_ordered_index lock dir tick =
     with_group_commit (open_with_config C E R enable_ordered_index lock dir tick)"

definition open_with_group_commit ::
    "keyring_crypto \<Rightarrow> ds_env \<Rightarrow> keyring_choice \<Rightarrow> unit result \<Rightarrow> db_dir \<Rightarrow> nat \<Rightarrow> db_dir \<times> DurableStorage result" where
  "open_with_group_commit C E R lock dir tick = open_with_group_commit_and_config C E R True lock dir tick"

definition open_with_policy_encrypted ::
    "keyring_crypto \<Rightarrow> ds_env \<Rightarrow> keyring_choice \<Rightarrow> IndexPolicy \<Rightarrow> bool \<Rightarrow> unit result \<Rightarrow> StorageEncryption \<Rightarrow> db_dir \<Rightarrow> nat \<Rightarrow>
     db_dir \<times> DurableStorage result" where
  "open_with_policy_encrypted C E R policy group_commit lock encryption dir tick =
     (let (enable_ordered_index, memtable_type) = policy_config policy;
          opened = open_with_encryption C E R enable_ordered_index memtable_type lock encryption dir tick
      in if group_commit then with_group_commit opened else opened)"

definition open_with_policy ::
    "keyring_crypto \<Rightarrow> ds_env \<Rightarrow> keyring_choice \<Rightarrow> IndexPolicy \<Rightarrow> bool \<Rightarrow> unit result \<Rightarrow> db_dir \<Rightarrow> nat \<Rightarrow> db_dir \<times> DurableStorage result" where
  "open_with_policy C E R policy group_commit lock dir tick =
     open_with_policy_encrypted C E R policy group_commit lock se_disabled dir tick"

definition open_for_concurrent_encrypted ::
    "keyring_crypto \<Rightarrow> ds_env \<Rightarrow> keyring_choice \<Rightarrow> IndexPolicy \<Rightarrow> StorageEncryption \<Rightarrow> db_dir \<Rightarrow> nat \<Rightarrow> db_dir \<times> DurableStorage result" where
  "open_for_concurrent_encrypted C E R policy encryption dir tick =
     (let (enable_ordered_index, memtable_type) = policy_config policy
      in open_with_full_config_internal C E R enable_ordered_index memtable_type (Inr ()) encryption dir tick)"

definition open_for_concurrent ::
    "keyring_crypto \<Rightarrow> ds_env \<Rightarrow> keyring_choice \<Rightarrow> IndexPolicy \<Rightarrow> db_dir \<Rightarrow> nat \<Rightarrow> db_dir \<times> DurableStorage result" where
  "open_for_concurrent C E R policy dir tick = open_for_concurrent_encrypted C E R policy se_disabled dir tick"

record DurabilityCapabilities =
  cap_crash_recovery :: bool
  cap_at_rest_encryption :: bool
  cap_point_in_time_recovery :: bool
  cap_aries_checkpoint :: bool
  cap_wal_fencing :: bool

definition durability_capabilities :: "DurableStorage \<Rightarrow> DurabilityCapabilities" where
  "durability_capabilities s =
     \<lparr>cap_crash_recovery = True, cap_at_rest_encryption = ds_at_rest_encrypted s, cap_point_in_time_recovery = ds_pitr_enabled s,
      cap_aries_checkpoint = False, cap_wal_fencing = False\<rparr>"

definition ds_is_encrypted :: "DurableStorage \<Rightarrow> bool" where
  "ds_is_encrypted s = ds_at_rest_encrypted s"

definition ds_memtable_type :: "DurableStorage \<Rightarrow> MemTableType" where
  "ds_memtable_type s = mtk_kind (ds_memtable s)"

subsection \<open>The key of a running engine\<close>

text \<open>Nothing the engine does changes the key its log is bound to.\<close>

definition ds_key :: "DurableStorage \<Rightarrow> bool \<times> EncryptionEngine \<times> bytes \<times> u32" where
  "ds_key s = (ds_at_rest_encrypted s, wal_key (ds_wal s))"

lemma frame_key: "frame_for_write P e w = (w', r) \<Longrightarrow> wal_key w' = wal_key w"
  by (auto simp: frame_for_write_def encrypt_frame_def Let_def split: if_splits sum.splits prod.splits)

lemma commit_record_ordinal_key [simp]: "wal_key (commit_record_ordinal w) = wal_key w"
  by (simp add: commit_record_ordinal_def)

lemma wal_append_key [simp]: "wal_key (fst (wal_append P e w)) = wal_key w"
  by (auto simp: wal_append_def Let_def dest: frame_key split: prod.split sum.split)

lemma wal_append_keyD: "wal_append P e w = (w', r) \<Longrightarrow> wal_key w' = wal_key w"
  using wal_append_key [of P e w] by simp

lemma flush_frames_key: "flush_frames P buf n w = (w', r) \<Longrightarrow> wal_key w' = wal_key w"
proof (induction P buf n w rule: flush_frames.induct)
  case (1 P buf n w)
  then show ?case
    by (subst (asm) flush_frames.simps)
      (auto simp: encrypt_frame_def Let_def split: if_splits sum.splits prod.splits)
qed

lemma wal_keys [simp]:
  "wal_key (fst (wal_flush w)) = wal_key w" "wal_key (fst (wal_sync w)) = wal_key w" "wal_key (fst (wal_truncate w)) = wal_key w"
  "wal_key (fst (cached_timestamp_us P w)) = wal_key w" "wal_key (fst (wal_alloc_txn_id w)) = wal_key w"
  by (simp_all add: wal_flush_def wal_sync_def wal_truncate_def cached_timestamp_us_def wal_alloc_txn_id_def bw_flush_def wal_key_def Let_def)

lemma wal_flush_buffer_key [simp]: "wal_key (fst (wal_flush_buffer P b w)) = wal_key w"
  by (auto simp: wal_flush_buffer_def Let_def dest: flush_frames_key split: prod.split sum.split)

lemma wal_append_sync_key [simp]: "wal_key (fst (wal_append_sync P e w)) = wal_key w"
  by (auto simp: wal_append_sync_def wal_sync_def bw_flush_def wal_key_def Let_def dest!: wal_append_keyD split: prod.split sum.split)

lemma append_commits_key: "append_commits P ts w = (w', r) \<Longrightarrow> wal_key w' = wal_key w"
proof (induction ts arbitrary: w)
  case (Cons t ts)
  then show ?case
    by (auto simp: wal_append_no_flush_def cached_timestamp_us_def dest!: wal_append_keyD split: prod.splits sum.splits)
qed simp

lemma wal_batch_key [simp]: "wal_key (fst (wal_commit_durable_batch P ts w)) = wal_key w"
  by (auto simp: wal_commit_durable_batch_def wal_flush_def wal_sync_def bw_flush_def wal_key_def Let_def dest: append_commits_key
      split: prod.split sum.split)

lemma wal_control_key [simp]:
  "wal_key (fst (wal_begin_transaction P w)) = wal_key w" "wal_key (fst (wal_abort_transaction P t w)) = wal_key w"
  by (auto simp: wal_begin_transaction_def wal_abort_transaction_def wal_alloc_txn_id_def cached_timestamp_us_def
      dest!: wal_append_keyD split: prod.split sum.split)

lemma ds_key_update [simp]:
  "ds_key (s\<lparr>ds_mvcc := m\<rparr>) = ds_key s" "ds_key (s\<lparr>ds_memtable := t\<rparr>) = ds_key s" "ds_key (s\<lparr>ds_txn_write_buffers := b\<rparr>) = ds_key s"
  "ds_key (s\<lparr>ds_needs_recovery := n\<rparr>) = ds_key s" "ds_key (s\<lparr>ds_commits_since_sync := n\<rparr>) = ds_key s"
  "ds_key (s\<lparr>ds_sync_mode := n\<rparr>) = ds_key s" "ds_key (s\<lparr>ds_pitr_enabled := x\<rparr>) = ds_key s" "ds_key (s\<lparr>ds_manifest_file := f\<rparr>) = ds_key s"
  "ds_key (s\<lparr>ds_fsync_latency_us := n\<rparr>) = ds_key s" "ds_key (s\<lparr>ds_last_checkpoint_lsn := n\<rparr>) = ds_key s"
  "ds_key (s\<lparr>ds_last_commit_us := n\<rparr>) = ds_key s" "ds_key (s\<lparr>ds_arrival_rate_ema := n\<rparr>) = ds_key s"
  "ds_key (s\<lparr>ds_wal := w\<rparr>) = (fst (ds_key s), wal_key w)"
  by (simp_all add: ds_key_def)

lemma ds_key_eta [simp]: "(fst (ds_key s), wal_key (ds_wal s)) = ds_key s"
  by (simp add: ds_key_def)

lemma ds_key_buffered [simp]: "ds_key (ds_buffer_append E t k v s) = ds_key s" "ds_key (ds_record_write E t k s) = ds_key s"
  by (simp_all add: ds_buffer_append_def ds_record_write_def case_prod_unfold Let_def)

lemma ds_key_fold [simp]:
  "ds_key (fold (\<lambda>(k, v) s. ds_buffer_append E t k v (ds_record_write E t k s)) ws s) = ds_key s"
  by (induction ws arbitrary: s) auto

lemma ds_key_flush_data [simp]: "ds_key (fst (ds_flush_data E t s)) = ds_key s"
  by (simp add: ds_flush_data_def case_prod_unfold Let_def split: option.split sum.split)

lemma ds_key_arrival [simp]: "ds_key (ds_update_arrival_rate E s) = ds_key s"
  by (simp add: ds_update_arrival_rate_def case_prod_unfold Let_def)

lemma ds_key_log_commit [simp]: "ds_key (fst (ds_log_commit E t s)) = ds_key s"
proof -
  have "wal_key (ds_wal (ds_update_arrival_rate E s)) = wal_key (ds_wal s)" for s
    using ds_key_arrival [of E s] by (simp add: ds_key_def)
  then show ?thesis
    by (simp add: ds_log_commit_def ds_group_submit_def ds_direct_commit_def wal_append_no_flush_def case_prod_unfold Let_def
        split: sum.split)
qed

lemma ds_key_step: "ds_key (ds_step E op s) = ds_key s"
proof (cases op)
  case (DCommit t)
  have "ds_key (fst (ds_log_commit E t (s1\<lparr>ds_mvcc := m\<rparr>))) = ds_key s1" for s1 m by simp
  with DCommit show ?thesis
    by (simp add: ds_commit_eq case_prod_unfold Let_def split: sum.split option.split)
qed (simp_all add: ds_begin_with_mode_def ds_begin_read_only_fast_def ds_read_def ds_write_def ds_write_refs_def ds_delete_def
      ds_write_batch_refs_def ds_scan_def ds_scan_range_def ds_scan_latest_def ds_abort_def ds_abort_read_only_fast_def ds_gc_def
      ds_checkpoint_def ds_persist_pitr_manifest_def ds_flush_wal_def ds_fsync_def ds_truncate_wal_def ds_set_sync_mode_def
      ds_enable_point_in_time_recovery_def ds_recover_def ds_apply_recovered_def
      ds_key_fold [unfolded case_prod_unfold] case_prod_unfold Let_def
      split: option.split sum.split)

lemma ds_key_run: "ds_key (fold (ds_step E) ops s) = ds_key s"
  by (induction ops arbitrary: s) (simp_all add: ds_key_step)

lemma new_wal_key: "new_with_encryption P log engine uuid ep tick = Inr w \<Longrightarrow> wal_key w = (engine, uuid, ep)"
  by (auto simp: new_with_encryption_def recover_state_def wal_key_def try_bind_eq_Inr Let_def split: prod.splits)

lemma ds_key_open:
  assumes "ds_open E ordered kind lock (Inr es) disk tick = Inr s"
  shows "ds_key s = (es_is_encrypted es, es_engine es, es_db_uuid es, es_key_epoch es)"
proof -
  have "ds_at_rest_encrypted s = es_is_encrypted es"
    using assms by (auto simp: ds_open_def ds_check_recovery_needed_def try_bind_eq_Inr Let_def split: if_splits)
  with ds_open_fields(7) [OF assms] show ?thesis by (auto simp: ds_key_def dest: new_wal_key)
qed

lemma open_keyed:
  assumes "open_with_encryption C E R ordered kind lock se dir tick = (dir', Inr s)"
  obtains st where "lock = Inr ()"
    "load_or_init C R (se_kek se) (se_source_id se) (dir_wal dir = None) (dir_keyring dir) (dir_keyring dir) = (dir_keyring dir', Inr st)"
    "ds_open E ordered kind (Inr ()) (Inr (enc_state_of C st)) (dir_disk dir) tick = Inr s"
  using assms
  by (auto simp: open_with_encryption_def open_with_full_config_internal_def dir_disk_def Let_def split: sum.splits prod.splits)

lemma open_resolved:
  assumes "load_or_init C R (se_kek se) (se_source_id se) (dir_wal dir = None) (dir_keyring dir) (dir_keyring dir) = (p, Inr st)"
  shows "snd (open_with_encryption C E R ordered kind (Inr ()) se dir tick) =
    ds_open E ordered kind (Inr ()) (Inr (enc_state_of C st)) (dir_disk dir) tick"
  using assms by (simp add: open_with_encryption_def open_with_full_config_internal_def dir_disk_def Let_def)

lemma try_bind_id [simp]: "try_bind r Inr = r" "try_bind r (\<lambda>x. Inr x) = r"
  by (cases r; simp)+

lemma ds_open_refused [simp]:
  "ds_open E ordered kind (Inl e) keyring disk tick = Inl e" "ds_open E ordered kind (Inr u) (Inl e) disk tick = Inl e"
  by (simp_all add: ds_open_def)

text \<open>The keyring is all that the policy constructor adds to the engine opened with a resolved key.\<close>

lemma open_with_policy_resolves:
  "snd (open_with_policy_encrypted C E R policy gc lock se dir tick) =
   ds_open_with_policy E policy gc lock
     (try_bind (snd (load_or_init C R (se_kek se) (se_source_id se) (dir_wal dir = None) (dir_keyring dir) (dir_keyring dir)))
        (\<lambda>st. Inr (enc_state_of C st))) (dir_disk dir) tick"
proof -
  have dd: "dir_disk (dir\<lparr>dir_keyring := k\<rparr>) = dir_disk dir" for k by (simp add: dir_disk_def)
  have "\<exists>p r. load_or_init C R (se_kek se) (se_source_id se) (dir_wal dir = None) (dir_keyring dir) (dir_keyring dir) = (p, r)"
    by (rule surj_pair)
  then obtain p r where l:
    "load_or_init C R (se_kek se) (se_source_id se) (dir_wal dir = None) (dir_keyring dir) (dir_keyring dir) = (p, r)" by blast
  show ?thesis
    by (cases lock; cases r) (simp_all add: l open_with_policy_encrypted_def open_with_encryption_def
        open_with_full_config_internal_def ds_open_with_policy_def with_group_commit_def dd Let_def case_prod_unfold)
qed

lemma es_of_key:
  assumes "ds_key s = (es_is_encrypted es, es_engine es, es_db_uuid es, es_key_epoch es)"
  shows "es = \<lparr>es_is_encrypted = ds_at_rest_encrypted s, es_engine = wal_encryption (ds_wal s),
      es_db_uuid = wal_db_uuid (ds_wal s), es_key_epoch = wal_dek_epoch (ds_wal s)\<rparr>"
  using assms by (cases es) (simp add: ds_key_def wal_key_def)

lemma recovered_state:
  assumes "try_bind r (\<lambda>s1. case ds_recover E s1 of (s2, Inl e) \<Rightarrow> Inl e | (s2, Inr x) \<Rightarrow> Inr s2) = Inr s2"
  shows "\<exists>s1 x. r = Inr s1 \<and> ds_recover E s1 = (s2, Inr x)"
proof (cases r)
  case (Inr s1)
  with assms show ?thesis by (cases "ds_recover E s1"; cases "snd (ds_recover E s1)") auto
qed (use assms in simp)

text \<open>An opener without local faults: its random numbers seal, its file operations succeed.\<close>

definition opener_ok :: "keyring_crypto \<Rightarrow> bytes \<Rightarrow> keyring_choice \<Rightarrow> string \<Rightarrow> bool" where
  "opener_ok C kek R source_id \<longleftrightarrow>
     io_read R = Inr () \<and> io_create_dir R = Inr () \<and> io_temp_file R = Inr () \<and> io_publish R = None \<and> io_sync R = Inr () \<and>
     (\<exists>f json. seal_keyring C R kek source_id = Inr f \<and> kc_to_json C f = Inr json)"

lemma create_ok_absent:
  assumes "opener_ok C kek R source_id"
  shows "snd (create_encrypted C R kek source_id None) = Inr (created_state C R)"
  using assms by (auto simp: opener_ok_def create_encrypted_def write_keyring_noclobber_def)

lemma create_ok_adopts:
  assumes "opener_ok C kek R source_id" "keyring_ok C" "random_ok R'" "seal_keyring C R' kek source_id' = Inr f" "kc_to_json C f = Inr content"
  shows "snd (create_encrypted C R kek source_id (Some content)) = Inr (created_state C R')"
  using assms(1,2,5) seal_opens [OF assms(2-4)]
  by (auto simp: opener_ok_def create_encrypted_def write_keyring_noclobber_def read_keyring_def keyring_ok_def)

lemma race_ok_finishes:
  assumes "race_reachable C kek R src s" "keyring_ok C" "\<forall>i. random_ok (R i)" "opener_ok C kek (R i) (src i)"
    and "race_opener s i = Finished r"
  shows "\<exists>st. r = Inr st"
  using assms(1,5)
proof (induction)
  case (step s s')
  note inv = race_inv_reachable [OF step.hyps(1) assms(2,3)]
  from step.hyps(2) show ?case
  proof cases
    case (found j content)
    then obtain w f where w: "seal_keyring C (R w) kek (src w) = Inr f" "kc_to_json C f = Inr content"
      using inv by (auto simp: race_inv_def)
    have "io_read (R i) = Inr ()" using assms(4) by (simp add: opener_ok_def)
    from load_sealed [OF assms(2) _ w this] assms(3) step found show ?thesis by (auto split: if_splits)
  next
    case (absent j)
    with step show ?thesis by (auto split: if_splits)
  next
    case (publish j path r')
    show ?thesis
    proof (cases "j = i")
      case True
      with publish step.prems have "create_encrypted C (R i) kek (src i) (race_file s) = (path, r)" by (simp add: load_absent)
      moreover have "\<exists>st. snd (create_encrypted C (R i) kek (src i) (race_file s)) = Inr st"
        using create_ok_absent [OF assms(4)] create_ok_adopts [OF assms(4,2)] assms(3) inv
        by (cases "race_file s") (simp_all add: race_inv_def, blast)
      ultimately show ?thesis by auto
    qed (use publish step in auto)
  qed
qed simp

subsection \<open>A concrete cipher suite\<close>

text \<open>
  Toy primitives that satisfy the laws: the text codec writes each byte after a 1 and closes a field
  with a 0, the MAC is the key followed by the text.
\<close>

fun demo_field :: "bytes \<Rightarrow> bytes" where
  "demo_field [] = [0]"
| "demo_field (b # bs) = 1 # b # demo_field bs"

fun demo_unfield :: "bytes \<Rightarrow> bytes \<times> bytes" where
  "demo_unfield (x # y # r) = (if x = 0 then ([], y # r) else apfst (Cons y) (demo_unfield r))"
| "demo_unfield r = ([], [])"

lemma demo_unfield_field [simp]: "demo_unfield (demo_field bs @ r) = (bs, r)"
proof (induction bs)
  case Nil
  then show ?case by (cases r) simp_all
qed simp

definition byte_str :: "bytes \<Rightarrow> string" where
  "byte_str bs = map (\<lambda>b. char_of (unat b)) bs"

lemma byte_str_bytes [simp]: "str_bytes (byte_str bs) = bs" "byte_str (str_bytes s) = s"
proof -
  have "char_byte (char_of (unat b)) = b" for b
    using unsigned_less [of b, where ?'a = nat] by (simp add: char_byte_def)
  then show "str_bytes (byte_str bs) = bs" by (simp add: str_bytes_def byte_str_def comp_def)
  have "char_of (unat (char_byte c)) = c" for c
    by (simp add: char_byte_def unat_of_nat)
  then show "byte_str (str_bytes s) = s" by (simp add: str_bytes_def byte_str_def comp_def)
qed

definition demo_to_json :: "KeyringFile \<Rightarrow> bytes" where
  "demo_to_json f =
     demo_field (u32_le (kf_format_version f)) @ demo_field [of_bool (kf_encrypted f)] @ demo_field (str_bytes (kf_db_uuid f))
     @ demo_field (str_bytes (kf_kek_source_id f)) @ demo_field (u32_le (kf_key_epoch f)) @ demo_field (str_bytes (kf_salt f))
     @ demo_field (str_bytes (kf_wrapped_dek f)) @ demo_field (str_bytes (kf_canary f)) @ demo_field (str_bytes (kf_mac f))"

definition demo_from_json :: "bytes \<Rightarrow> KeyringFile" where
  "demo_from_json b =
     (let (version, b) = demo_unfield b; (enc, b) = demo_unfield b; (uuid, b) = demo_unfield b; (src, b) = demo_unfield b;
          (epoch, b) = demo_unfield b; (salt, b) = demo_unfield b; (wrapped, b) = demo_unfield b; (canary, b) = demo_unfield b;
          (mac, b) = demo_unfield b
      in \<lparr>kf_format_version = word_of_nat (of_le_bytes version), kf_encrypted = (enc = [1]), kf_db_uuid = byte_str uuid,
          kf_kek_source_id = byte_str src, kf_key_epoch = word_of_nat (of_le_bytes epoch), kf_salt = byte_str salt,
          kf_wrapped_dek = byte_str wrapped, kf_canary = byte_str canary, kf_mac = byte_str mac\<rparr>)"

lemma demo_json_inverse: "demo_from_json (demo_to_json f) = f"
  by (cases f) (simp add: demo_from_json_def demo_to_json_def demo_unfield_field [of _ "[]", simplified] del: demo_field.simps demo_unfield.simps)

definition demo_crypto :: keyring_crypto where
  "demo_crypto =
     \<lparr>kc_aes = (\<lambda>_. demo_cipher), kc_hkdf = (\<lambda>ikm salt info. ikm), kc_hmac = (\<lambda>k m. k @ m), kc_hex_encode = byte_str,
      kc_hex_decode = (\<lambda>s. Some (str_bytes s)), kc_to_json = (\<lambda>f. Inr (demo_to_json f)),
      kc_from_json = (\<lambda>b. Inr (demo_from_json b))\<rparr>"

definition demo_choice :: "byte \<Rightarrow> keyring_choice" where
  "demo_choice x =
     \<lparr>rnd_db_uuid = replicate 16 x, rnd_salt = replicate 16 x, rnd_dek = replicate 32 x, rnd_wrap_nonce = replicate 12 x,
      rnd_canary_nonce = replicate 12 x, io_read = Inr (), io_create_dir = Inr (), io_temp_file = Inr (), io_publish = None,
      io_sync = Inr ()\<rparr>"

lemma demo_crypto_ok: "keyring_ok demo_crypto"
  by (simp add: keyring_ok_def demo_crypto_def demo_cipher_ok demo_json_inverse)

lemma demo_choice_ok: "random_ok (demo_choice x)" "io_read (demo_choice x) = Inr ()"
  by (simp_all add: random_ok_def demo_choice_def NONCE_SIZE_def)

lemma demo_seals: "\<exists>f. seal_keyring demo_crypto (demo_choice x) kek source_id = Inr f"
  by (simp add: seal_keyring_def demo_crypto_def from_key_def ee_new_def encrypt_with_aad_def demo_cipher_def Let_def)

lemma demo_opener_ok: "opener_ok demo_crypto kek (demo_choice x) source_id"
  using demo_seals by (auto simp: opener_ok_def demo_choice_def demo_crypto_def)

lemma demo_creates:
  "\<exists>content. load_or_init demo_crypto (demo_choice x) (Some kek) source_id True None None =
     (Some content, Inr (created_state demo_crypto (demo_choice x)))"
proof -
  obtain f where "seal_keyring demo_crypto (demo_choice x) kek source_id = Inr f" using demo_seals by blast
  then show ?thesis
    by (simp add: load_absent create_encrypted_def write_keyring_noclobber_def) (simp add: demo_choice_def demo_crypto_def)
qed

lemma demo_seal_fields:
  assumes "seal_keyring demo_crypto (demo_choice x) kek source_id = Inr f"
  shows "kf_salt f = byte_str (replicate 16 x)" "length source_id < 2 ^ 32 \<longrightarrow> fields_small f"
  using assms
  by (auto simp: seal_keyring_def demo_crypto_def demo_choice_def from_key_def ee_new_def encrypt_with_aad_def demo_cipher_def
      demo_tag_def fields_small_def CANARY_TOKEN_def byte_str_def Let_def)

lemma byte_str_inject: "byte_str a = byte_str b \<longleftrightarrow> a = b"
  by (metis byte_str_bytes(1))

lemma demo_sealed_loads:
  assumes "seal_keyring demo_crypto (demo_choice x) kek source_id = Inr f"
  shows "kc_to_json demo_crypto f = Inr (demo_to_json f)" "kc_from_json demo_crypto (demo_to_json f) = Inr f"
    and "snd (load_or_init demo_crypto (demo_choice y) (Some kek) src allow (Some (demo_to_json f)) target) =
      Inr (created_state demo_crypto (demo_choice x))"
proof -
  show json: "kc_to_json demo_crypto f = Inr (demo_to_json f)" "kc_from_json demo_crypto (demo_to_json f) = Inr f"
    by (simp_all add: demo_crypto_def demo_json_inverse)
  show "snd (load_or_init demo_crypto (demo_choice y) (Some kek) src allow (Some (demo_to_json f)) target) =
      Inr (created_state demo_crypto (demo_choice x))"
    using load_sealed [OF demo_crypto_ok demo_choice_ok(1) assms json(1) demo_choice_ok(2)] by simp
qed

text \<open>Both of two processes find no keyring; the second one publishes first, the first one adopts.\<close>

lemma demo_race:
  "\<exists>s st. race_reachable demo_crypto [5] (\<lambda>i. demo_choice (word_of_nat i)) (\<lambda>i. ''env'') s \<and>
     race_opener s 0 = Finished (Inr st) \<and> race_opener s 1 = Finished (Inr st)"
proof -
  let ?R = "\<lambda>i. demo_choice (word_of_nat i)" and ?src = "\<lambda>i::nat. ''env''"
  let ?step = "race_step demo_crypto [5] ?R ?src" and ?reach = "race_reachable demo_crypto [5] ?R ?src"
  let ?st = "created_state demo_crypto (demo_choice 1)"
  obtain content where c: "load_or_init demo_crypto (?R 1) (Some [5]) (?src 1) True None None = (Some content, Inr ?st)"
    using demo_creates [of 1 "[5]" "''env''"] by auto
  have "create_encrypted demo_crypto (demo_choice 1) [5] ''env'' None = (Some content, Inr ?st)" using c by (simp add: load_absent)
  then obtain f where f: "seal_keyring demo_crypto (demo_choice 1) [5] ''env'' = Inr f" "kc_to_json demo_crypto f = Inr content"
    by (rule create_published) simp
  have "snd (create_encrypted demo_crypto (?R 0) [5] (?src 0) (Some content)) = Inr ?st"
    by (rule create_ok_adopts [OF demo_opener_ok demo_crypto_ok demo_choice_ok(1) f])
  then have d: "load_or_init demo_crypto (?R 0) (Some [5]) (?src 0) True None (Some content) = (Some content, Inr ?st)"
    using create_keeps [of demo_crypto "?R 0" "[5]" "?src 0" content] by (simp add: load_absent prod_eq_iff)
  define s0 :: race where "s0 = \<lparr>race_file = None, race_opener = (\<lambda>_. Starting)\<rparr>"
  define s1 where "s1 = s0\<lparr>race_opener := (race_opener s0)(0 := Creating)\<rparr>"
  define s2 where "s2 = s1\<lparr>race_opener := (race_opener s1)(1 := Creating)\<rparr>"
  define s3 where "s3 = \<lparr>race_file = Some content, race_opener = (race_opener s2)(1 := Finished (Inr ?st))\<rparr>"
  define s4 where "s4 = \<lparr>race_file = Some content, race_opener = (race_opener s3)(0 := Finished (Inr ?st))\<rparr>"
  note defs = s0_def s1_def s2_def s3_def s4_def
  have "?step s0 s1" unfolding s1_def by (rule race_step.absent) (simp_all add: s0_def)
  moreover have "?step s1 s2" unfolding s2_def by (rule race_step.absent) (simp_all add: s0_def s1_def)
  moreover have "?step s2 s3" unfolding s3_def by (rule race_step.publish) (use c in \<open>simp_all add: s0_def s1_def s2_def\<close>)
  moreover have "?step s3 s4" unfolding s4_def by (rule race_step.publish) (use d in \<open>simp_all add: s0_def s1_def s2_def s3_def\<close>)
  moreover have "?reach s0" unfolding s0_def by (rule race_reachable.start)
  ultimately have "?reach s4" by (blast intro: race_reachable.step)
  then show ?thesis by (intro exI [of _ s4] exI [of _ ?st]) (simp add: defs)
qed

text \<open>The engine that opening an empty directory with a key gives.\<close>

definition demo_encrypted_store :: DurableStorage where
  "demo_encrypted_store =
     demo_store\<lparr>ds_wal := demo_wal_fresh\<lparr>wal_encryption := from_key demo_crypto (replicate 32 7), wal_db_uuid := replicate 16 7\<rparr>,
       ds_at_rest_encrypted := True\<rparr>"

lemma demo_encrypted_open:
  "ds_open demo_env True StandardType (Inr ()) (Inr (enc_state_of demo_crypto (created_state demo_crypto (demo_choice 7))))
     \<lparr>dk_wal_log = [], dk_manifest = None, dk_clean_shutdown = False\<rparr> 0 = Inr demo_encrypted_store"
  by (simp add: ds_open_def demo_env_def enc_state_of_def created_state_def st_is_encrypted_def st_engine_def st_db_uuid_def
      st_key_epoch_def new_with_encryption_def recover_state_def ds_check_recovery_needed_def wm_exists_def
      demo_encrypted_store_def demo_store_def demo_wal_fresh_def demo_platform_def demo_choice_def)

text \<open>With a cipher that seals every message, logging does not fail, so an encrypted engine commits.\<close>

definition seals :: "EncryptionEngine \<Rightarrow> bool" where
  "seals e \<longleftrightarrow> (\<forall>nonce m aad. aead_encrypt (ee_cipher e) nonce m aad \<noteq> None)"

lemma encrypt_frame_seals:
  "seals (wal_encryption w) \<Longrightarrow> \<exists>f. encrypt_frame P body ord w = (w\<lparr>wal_tick := wal_tick w + 1\<rparr>, Inr f)"
  unfolding seals_def
  by (drule spec [of _ "pf_rng P (wal_tick w)"], drule spec [of _ body], drule spec [of _ "record_aad w ord"])
    (auto simp: encrypt_frame_def encrypt_with_aad_def)

lemma wal_append_seals:
  assumes "seals (wal_encryption w)"
  shows "snd (wal_append P e w) \<noteq> Inl err"
  using encrypt_frame_seals [OF assms, of P "body_bytes P e" "wal_records_in_file w"]
  by (auto simp: wal_append_def frame_for_write_def Let_def)

lemma wal_begin_seals:
  assumes "seals (wal_encryption w)"
  shows "\<exists>w'. wal_begin_transaction P w = (w', Inr (wal_next_txn_id w)) \<and> wal_encryption w' = wal_encryption w"
proof -
  let ?w = "fst (cached_timestamp_us P (fst (wal_alloc_txn_id w)))"
  have "wal_encryption ?w = wal_encryption w" by (simp add: wal_alloc_txn_id_def cached_timestamp_us_def)
  moreover have "wal_encryption (fst (wal_append P e w)) = wal_encryption w" for e w
    by (rule wal_append_encryption) (rule prod.collapse [symmetric])
  ultimately show ?thesis
    using assms wal_append_seals [of ?w]
    by (auto simp: wal_begin_transaction_def wal_alloc_txn_id_def case_prod_unfold Let_def split: sum.split)
qed

lemma flush_frames_seals:
  assumes "seals (wal_encryption w)" "\<forall>e \<in> set es. frame_fits w e"
  shows "\<exists>w' m. flush_frames P (concat (map (to_bytes P) es)) n w = (w', Inr m) \<and> wal_encryption w' = wal_encryption w"
  using assms
proof (induction es arbitrary: w n)
  case Nil
  then show ?case by (simp add: flush_frames.simps)
next
  case (Cons e es)
  obtain f where f: "encrypt_frame P (body_bytes P e) (wal_records_in_file w) w = (w\<lparr>wal_tick := wal_tick w + 1\<rparr>, Inr f)"
    using encrypt_frame_seals [OF Cons.prems(1)] by blast
  let ?w2 = "bw_write_all f (w\<lparr>wal_tick := wal_tick w + 1\<rparr>)"
  let ?w3 = "?w2\<lparr>wal_records_in_file := wal_records_in_file ?w2 + 1\<rparr>"
  have key: "wal_key ?w3 = wal_key w" by simp
  then have enc: "wal_encryption ?w3 = wal_encryption w" by (simp add: wal_key_def)
  have "\<forall>x \<in> set es. frame_fits ?w3 x" using Cons.prems(2) unfolding frame_fits_cong [OF key] by simp
  from Cons.IH [OF _ this, of "n + word_of_nat (length f)"] Cons.prems flush_frames_step [of w e P "concat (map (to_bytes P) es)" n] f enc
  show ?case by (auto simp: Let_def)
qed

lemma data_entries_fit: "\<forall>kv \<in> set ws. write_fits w kv \<Longrightarrow> \<forall>e \<in> set (data_entries t nows ws). frame_fits w e"
  by (auto simp: data_entries_def simp flip: write_fits_entry dest: set_zip_rightD)

lemma ds_flush_data_seals:
  assumes "ds_log E s es B" "seals (wal_encryption (ds_wal s))"
  shows "\<exists>s'. ds_flush_data E t s = (s', Inr ()) \<and> wal_encryption (ds_wal s') = wal_encryption (ds_wal s)"
proof (cases "map_of (ds_txn_write_buffers s) t")
  case (Some b)
  from ds_log_parts(4) [OF assms(1), of t] Some obtain nows where
    b: "tb_buffer b = concat (map (to_bytes (de_platform E)) (data_entries t nows (B t)))" "\<forall>kv \<in> set (B t). write_fits (ds_wal s) kv"
    by (auto simp: buffer_repr_def tb_repr_def)
  from flush_frames_seals [OF assms(2) data_entries_fit [OF b(2), of t nows], of "de_platform E" 0] Some b(1) show ?thesis
    by (auto simp: ds_flush_data_def wal_flush_buffer_def Let_def)
qed (simp add: ds_flush_data_def)

lemma ds_log_commit_seals:
  assumes "seals (wal_encryption (ds_wal s))"
  shows "snd (ds_log_commit E t s) = Inr ()"
proof -
  let ?s = "ds_update_arrival_rate E (s\<lparr>ds_commits_since_sync := ds_commits_since_sync s + 1\<rparr>)"
  have "seals (wal_encryption (fst (cached_timestamp_us (de_platform E) (ds_wal ?s))))"
    "seals (wal_encryption (fst (cached_timestamp_us (de_platform E) (ds_wal s))))"
    using assms by (simp_all add: ds_update_arrival_rate_wal cached_timestamp_us_def)
  from this [THEN wal_append_seals] show ?thesis
    unfolding ds_log_commit_def ds_group_submit_def ds_direct_commit_def wal_commit_durable_batch_def append_commits.simps
      wal_append_no_flush_def Let_def case_prod_unfold
    by (auto simp: as_internal_def wal_flush_def wal_sync_def Let_def split: sum.split)
qed

lemma sealed_commit:
  assumes "platform_ok (de_platform E)" "ds_history E s W Q" "seals (wal_encryption (ds_wal s))"
    and "mm_recent_commits (ds_mvcc s) = []" "mm_get t (ds_mvcc s) \<noteq> None"
  shows "\<exists>s' cts. ds_commit E t s = (s', Inr cts)"
proof -
  obtain es B where "ds_log E s es B" using ds_history_logged [OF assms(1,2)] by (auto simp: ds_logged_def)
  from ds_flush_data_seals [OF this assms(3)] obtain s1 where s1: "ds_flush_data E t s = (s1, Inr ())"
    "seals (wal_encryption (ds_wal s1))" using assms(3) by metis
  have "ds_mvcc s1 = ds_mvcc s" using same_core_flush_data [of s E t] s1(1) by (simp add: same_core_def)
  moreover have "snd (mm_commit (de_hashers E) t (ds_mvcc s)) \<noteq> None"
    using assms(4,5) by (auto simp: mm_commit_def mm_get_def mm_validate_ssi_def mm_alloc_commit_ts_def Let_def)
  moreover have "snd (ds_log_commit E t (s1\<lparr>ds_mvcc := m\<rparr>)) = Inr ()" for m
    by (rule ds_log_commit_seals) (use s1(2) in simp)
  ultimately show ?thesis unfolding ds_commit_eq Let_def s1 by auto
qed

text \<open>One transaction on the encrypted engine, with a sync at every commit.\<close>

definition demo_encrypted_ops :: "ds_op list" where
  "demo_encrypted_ops = [DSyncMode 2, DBegin ReadWrite, DWrite demo_txn [1] [2]]"

definition demo_encrypted_ready :: DurableStorage where
  "demo_encrypted_ready = fold (ds_step demo_env) demo_encrypted_ops demo_encrypted_store"

lemma demo_encrypted_history:
  "ds_history demo_env demo_encrypted_ready [] ((\<lambda>_. [])(demo_txn := [([1], [2])]))" "syncs_commits demo_encrypted_ready"
  "\<exists>s cts. ds_commit demo_env demo_txn demo_encrypted_ready = (s, Inr cts)"
proof -
  let ?s1 = "ds_step demo_env (DSyncMode 2) demo_encrypted_store"
  let ?s2 = "ds_step demo_env (DBegin ReadWrite) ?s1"
  have "ds_history demo_env demo_encrypted_store [] (\<lambda>_. [])"
    by (rule ds_history.created [OF demo_encrypted_open])
      (simp add: demo_encrypted_store_def cipher_ok_def demo_crypto_def from_key_def ee_new_def demo_cipher_ok)
  then have h1: "ds_history demo_env ?s1 [] (\<lambda>_. [])" by (rule ds_history.silent) simp
  have seals: "seals (wal_encryption (ds_wal ?s1))"
    by (simp add: ds_set_sync_mode_def demo_encrypted_store_def seals_def demo_crypto_def from_key_def ee_new_def demo_cipher_def)
  have next_id: "wal_next_txn_id (ds_wal ?s1) = demo_txn"
    by (simp add: ds_set_sync_mode_def demo_encrypted_store_def demo_wal_fresh_def demo_txn_def)
  obtain w where w: "wal_begin_transaction demo_platform (ds_wal ?s1) = (w, Inr demo_txn)" "wal_encryption w = wal_encryption (ds_wal ?s1)"
    using wal_begin_seals [OF seals, of demo_platform] next_id by auto
  have s2: "?s2 = ?s1\<lparr>ds_wal := w, ds_mvcc := fst (mm_begin_with_mode demo_txn ReadWrite (ds_mvcc ?s1))\<rparr>"
    "snd (ds_begin_with_mode demo_env ReadWrite ?s1) = Inr demo_txn"
    using w(1) by (simp_all add: ds_begin_with_mode_def demo_env_def case_prod_unfold)
  from s2(2) have "ds_begin_with_mode demo_env ReadWrite ?s1 = (?s2, Inr demo_txn)" by (simp add: prod_eq_iff)
  from ds_history.begun [OF h1 this] have h2: "ds_history demo_env ?s2 [] (\<lambda>_. [])"
    by (simp add: ds_set_sync_mode_def demo_encrypted_store_def demo_store_def fun_upd_idem)
  have ready: "demo_encrypted_ready = fst (ds_write demo_env demo_txn [1] [2] ?s2)"
    by (simp add: demo_encrypted_ready_def demo_encrypted_ops_def)
  show h3: "ds_history demo_env demo_encrypted_ready [] ((\<lambda>_. [])(demo_txn := [([1], [2])]))"
    unfolding ready using ds_history.written [OF h2 demo_fits, of "[1]" "[2]" demo_txn] by simp
  show "syncs_commits demo_encrypted_ready"
    unfolding ready s2(1) by (simp add: syncs_commits_def ds_put_config ds_set_sync_mode_def)
  show "\<exists>s cts. ds_commit demo_env demo_txn demo_encrypted_ready = (s, Inr cts)"
  proof (rule sealed_commit [OF demo_env_ok h3])
    have m: "ds_mvcc ?s2 = fst (mm_begin_with_mode demo_txn ReadWrite mm_new)"
      unfolding s2(1) by (simp add: ds_set_sync_mode_def demo_encrypted_store_def demo_store_def)
    show "seals (wal_encryption (ds_wal demo_encrypted_ready))" using seals w(2) unfolding ready put_quiet s2(1) by simp
    show "mm_recent_commits (ds_mvcc demo_encrypted_ready) = []"
      unfolding ready ds_put_fields put_quiet m by (simp add: mm_begin_with_mode_def mm_new_def Let_def)
    show "mm_get demo_txn (ds_mvcc demo_encrypted_ready) \<noteq> None"
      unfolding ready ds_put_fields mm_get_record m by (simp add: mm_get_begin)
  qed
qed

subsection \<open>Properties\<close>

text \<open>
  A new encrypted database opens again with its key.  When \<^verbatim>\<open>load_or_init\<close> creates the keyring of a
  directory, every later call with the same key encryption key (under any source name, creation allowed
  or not) leaves the file as it is and resolves the same data key, database id and key epoch.
\<close>

lemma keyring_reopens_with_its_key:
  assumes "keyring_ok C" "random_ok R" "io_read R' = Inr ()"
    and "load_or_init C R (Some kek) source_id True None None = (path, Inr st)"
  shows "st = Encrypted \<lparr>ae_engine = from_key C (rnd_dek R), ae_db_uuid = rnd_db_uuid R, ae_key_epoch = 0\<rparr> \<and>
    load_or_init C R' (Some kek) source_id' allow path path = (path, Inr st)"
proof -
  obtain f content where c: "seal_keyring C R kek source_id = Inr f" "kc_to_json C f = Inr content" "path = Some content" "st = created_state C R"
    using assms(4) create_published [of C R kek source_id path st] by (auto simp: load_absent)
  then show ?thesis using load_sealed [OF assms(1,2) c(1,2) assms(3)] by (simp add: created_state_def)
qed

text \<open>
  C12: The keyring fails closed.  A database resolves as plaintext exactly when it has no keyring and no key
  was given, or when its keyring carries a plaintext marker that authenticates under the given key; a
  directory with a keyring never opens without a key; and a key for existing data without keyring is
  refused, with nothing written.  The documentation of \<^verbatim>\<open>load_or_init\<close> lists a keyring with
  \<^verbatim>\<open>encrypted = false\<close> as a plaintext database without asking for a key; the code asks for the key and checks
  the marker's tag first, so that a forged marker cannot downgrade a database.
\<close>

theorem keyring_fails_closed:
  "(snd (load_or_init C R kek source_id allow found target) = Inr Plaintext \<longleftrightarrow>
     found = None \<and> kek = None \<or>
     (\<exists>content f k. found = Some content \<and> kek = Some k \<and> io_read R = Inr () \<and> kc_from_json C content = Inr f \<and>
        kf_format_version f = KEYRING_FORMAT_VERSION \<and> \<not> kf_encrypted f \<and> verify_mac C f k = Inr ())) \<and>
   (\<exists>e. load_or_init C R None source_id allow (Some content) target = (target, Inl e)) \<and>
   load_or_init C R (Some k) source_id False None target =
     (target, enc_fail ''an encryption key was provided for a database that has no keyring (existing plaintext data must be migrated explicitly, not encrypted in place); refusing to open'')"
proof (intro conjI)
  show "snd (load_or_init C R kek source_id allow found target) = Inr Plaintext \<longleftrightarrow>
     found = None \<and> kek = None \<or>
     (\<exists>content f k. found = Some content \<and> kek = Some k \<and> io_read R = Inr () \<and> kc_from_json C content = Inr f \<and>
        kf_format_version f = KEYRING_FORMAT_VERSION \<and> \<not> kf_encrypted f \<and> verify_mac C f k = Inr ())"
  proof (cases found)
    case None
    then show ?thesis
      using create_encrypted_not_plain by (auto simp: load_or_init_def split: option.split)
  next
    case (Some content)
    then show ?thesis
      by (auto simp: load_or_init_def read_keyring_def try_bind_eq_Inr open_encrypted_not_plain
          split: sum.splits if_splits option.splits)
  qed
  show "\<exists>e. load_or_init C R None source_id allow (Some content) target = (target, Inl e)"
    by (simp add: load_or_init_def read_keyring_def try_bind_def split: sum.split)
qed (simp add: load_or_init_def)

text \<open>
  An altered descriptor needs a forged MAC.  If a keyring file differs from the one that was sealed in
  any authenticated field (the \<^verbatim>\<open>encrypted\<close> flag, id, epoch, key source, salt, wrapped key, canary, version)
  and still opens under the key, then it carries a valid tag on a text that was never sealed; when its
  salt and tag are those of the sealed file, two different texts have the same tag under the same key.
\<close>

lemma altered_keyring_needs_forged_mac:
  assumes "keyring_ok C" "random_ok R" "seal_keyring C R kek source_id = Inr f"
    and "kc_from_json C content = Inr g" "authenticated g \<noteq> authenticated f" "fields_small f" "fields_small g"
    and "snd (load_or_init C R' (Some kek) source_id' allow (Some content) target) = Inr st"
  shows "mac_input g \<noteq> mac_input f \<and>
    (\<exists>salt. kc_hex_decode C (kf_salt g) = Some salt \<and>
      kc_hex_decode C (kf_mac g) = Some (kc_hmac C (derive_subkey C kek salt INFO_MAC) (mac_input g)) \<and>
      (kf_salt g = kf_salt f \<and> kf_mac g = kf_mac f \<longrightarrow>
         kc_hmac C (derive_subkey C kek salt INFO_MAC) (mac_input g) = kc_hmac C (derive_subkey C kek salt INFO_MAC) (mac_input f)))"
proof -
  from assms(8) obtain g' k where "kc_from_json C content = Inr g'" "Some kek = Some k" "verify_mac C g' k = Inr ()" by (rule load_found)
  then have g: "verify_mac C g kek = Inr ()" using assms(4) by simp
  from g obtain salt where salt: "kc_hex_decode C (kf_salt g) = Some salt"
      "kc_hex_decode C (kf_mac g) = Some (kc_hmac C (derive_subkey C kek salt INFO_MAC) (mac_input g))"
    by (rule verify_macD)
  from seal_opens(1) [OF assms(1-3)] obtain salt' where "kc_hex_decode C (kf_salt f) = Some salt'"
      "kc_hex_decode C (kf_mac f) = Some (kc_hmac C (derive_subkey C kek salt' INFO_MAC) (mac_input f))"
    by (rule verify_macD)
  with salt mac_input_inject [of g f] assms(5-7) show ?thesis by auto
qed

text \<open>
  C11: Concurrent creators converge on one key.  Whatever the interleaving of the processes that open one
  new directory with the same key, all that succeed hold the same data key, database id and epoch; every
  one that finished without a fault of its own succeeded; and the file left behind opens to that key.
\<close>

theorem concurrent_creators_converge:
  assumes "race_reachable C kek R src s" "keyring_ok C" "\<forall>i. random_ok (R i)" "race_opener s i = Finished (Inr st)"
  shows "(\<forall>j st'. race_opener s j = Finished (Inr st') \<longrightarrow> st' = st) \<and>
    (\<forall>j r. race_opener s j = Finished r \<and> opener_ok C kek (R j) (src j) \<longrightarrow> r = Inr st) \<and>
    (\<forall>R' source_id allow. io_read R' = Inr () \<longrightarrow>
       load_or_init C R' (Some kek) source_id allow (race_file s) (race_file s) = (race_file s, Inr st))"
proof -
  from race_inv_reachable [OF assms(1-3)] assms(4) obtain content w f where w: "race_file s = Some content"
    "seal_keyring C (R w) kek (src w) = Inr f" "kc_to_json C f = Inr content"
    and all: "\<forall>i st. race_opener s i = Finished (Inr st) \<longrightarrow> st = created_state C (R w)"
    by (auto simp: race_inv_def split: option.splits)
  have st: "st = created_state C (R w)" using all assms(4) by blast
  moreover have "r = Inr st" if "race_opener s j = Finished r" "opener_ok C kek (R j) (src j)" for j r
    using race_ok_finishes [OF assms(1-3) that(2,1)] all st that(1) by blast
  moreover have "load_or_init C R' (Some kek) source_id allow (race_file s) (race_file s) = (race_file s, Inr st)"
    if "io_read R' = Inr ()" for R' source_id allow
    using load_sealed [OF assms(2) _ w(2,3) that] assms(3) by (simp add: w(1) st)
  ultimately show ?thesis using all by blast
qed

theorem concurrent_creators_converge_witness:
  "\<exists>(s :: race) st. race_opener s 0 = Finished (Inr st) \<and> race_opener s 1 = Finished (Inr st) \<and>
     load_or_init demo_crypto (demo_choice 9) (Some [5]) ''env'' False (race_file s) (race_file s) = (race_file s, Inr st)"
proof -
  obtain s st where s: "race_reachable demo_crypto [5] (\<lambda>i. demo_choice (word_of_nat i)) (\<lambda>i. ''env'') s"
    "race_opener s 0 = Finished (Inr st)" "race_opener s 1 = Finished (Inr st)"
    using demo_race by blast
  have "\<forall>i. random_ok (demo_choice (word_of_nat i))" using demo_choice_ok(1) by blast
  from concurrent_creators_converge [OF s(1) demo_crypto_ok this s(2)]
  have "load_or_init demo_crypto (demo_choice 9) (Some [5]) ''env'' False (race_file s) (race_file s) = (race_file s, Inr st)"
    using demo_choice_ok(2) [of 9] by simp
  with s(2,3) show ?thesis by blast
qed

text \<open>
  C10: An encrypted database survives a crash and opens only with its key.  Create a database with a key
  in an empty directory, run operations whose records stay within the frame limit and are all logged, with
  truncations of the log among them (a history, see C1), and let a crash leave any image of the log.  Opening
  the directory with the key succeeds and recovery makes every key read the last value logged by the first
  \<open>m\<close> transactions acknowledged since the last truncation (all of them when the log was synced); opening
  it without a key is refused.
\<close>

theorem encrypted_database_survives_crash:
  assumes "keyring_ok C" "random_ok R" "platform_ok (de_platform E)" "io_read R' = Inr ()"
    and "open_with_encryption C E R ordered kind lock (se_with_kek kek source_id) empty_dir tick = (dir, Inr s0)"
    and "s = fold (ds_step E) ops s0" "ds_history E s W Q" "crash_image (ds_wal s) img"
    and "crashed = \<lparr>dir_keyring = dir_keyring dir, dir_wal = Some img, dir_manifest = ds_manifest_file s,
                     dir_clean_shutdown = ds_clean_shutdown_file s\<rparr>"
  shows "(\<exists>m s1 st. snd (open_with_encryption C E R' ordered' kind' (Inr ()) (se_with_kek kek source_id') crashed tick') = Inr s1 \<and>
      ds_is_encrypted s1 \<and> snd (ds_recover E s1) = Inr st \<and>
      (\<forall>k. ds_read_latest k (fst (ds_recover E s1)) = map_of (rev (concat (take m W))) k) \<and>
      (wal_all_synced (ds_wal s) \<longrightarrow> take m W = W)) \<and>
    (\<exists>e. open_with_full_config C E R' ordered' kind' (Inr ()) crashed tick' = (crashed, Inl e))"
proof -
  from assms(5) obtain st where o: "load_or_init C R (Some kek) source_id True None None = (dir_keyring dir, Inr st)"
    "ds_open E ordered kind (Inr ()) (Inr (enc_state_of C st)) (dir_disk empty_dir) tick = Inr s0"
    by (rule open_keyed) (simp add: se_with_kek_def empty_dir_def)
  from o(1) obtain f content where c: "seal_keyring C R kek source_id = Inr f" "kc_to_json C f = Inr content"
    "dir_keyring dir = Some content" "st = created_state C R"
    using create_published [of C R kek source_id "dir_keyring dir" st] by (auto simp: load_absent)
  have l: "load_or_init C R' (Some kek) source_id' False (Some content) (Some content) = (Some content, Inr st)"
    using load_sealed [OF assms(1,2) c(1,2) assms(4)] by (simp add: c(4))
  have es: "enc_state_of C st = \<lparr>es_is_encrypted = ds_at_rest_encrypted s, es_engine = wal_encryption (ds_wal s),
      es_db_uuid = wal_db_uuid (ds_wal s), es_key_epoch = wal_dek_epoch (ds_wal s)\<rparr>"
    by (rule es_of_key) (simp add: assms(6) ds_key_run ds_key_open [OF o(2)])
  let ?o = "open_with_encryption C E R' ordered' kind' (Inr ()) (se_with_kek kek source_id') crashed tick'"
  have op: "snd ?o = ds_open E ordered' kind' (Inr ()) (Inr (enc_state_of C st)) (dir_disk crashed) tick'"
    by (rule open_resolved) (use l in \<open>simp add: se_with_kek_def assms(9) c(3)\<close>)
  have restart: "ds_restart E kind' ordered' tick' img s = try_bind (snd ?o) (\<lambda>s1. case ds_recover E s1 of (s2, Inl e) \<Rightarrow> Inl e | (s2, Inr x) \<Rightarrow> Inr s2)"
    unfolding ds_restart_def op es by (simp add: dir_disk_def assms(9))
  obtain m s2 where r: "ds_restart E kind' ordered' tick' img s = Inr s2"
    "\<forall>k. ds_read_latest k s2 = map_of (rev (concat (take m W))) k" "wal_all_synced (ds_wal s) \<longrightarrow> take m W = W"
    using restart_history [OF assms(3,7,8)] by blast
  from recovered_state [OF r(1) [unfolded restart]] obtain s1 x where
    s1: "snd ?o = Inr s1" "snd (ds_recover E s1) = Inr x" "fst (ds_recover E s1) = s2" by auto
  have "ds_is_encrypted s1" using ds_key_open [OF s1(1) [unfolded op]]
    by (simp add: ds_is_encrypted_def ds_key_def enc_state_of_def c(4) created_state_def st_is_encrypted_def)
  moreover have "\<exists>e. open_with_full_config C E R' ordered' kind' (Inr ()) crashed tick' = (crashed, Inl e)"
    by (simp add: open_with_full_config_def open_with_full_config_internal_def se_disabled_def assms(9) c(3) load_or_init_def
        read_keyring_def try_bind_def split: sum.split)
  ultimately show ?thesis using s1 r(2,3) by blast
qed

theorem encrypted_database_survives_crash_witness:
  "\<exists>content s1. let s = fold (ds_step demo_env) (demo_encrypted_ops @ [DCommit demo_txn]) demo_encrypted_store;
         crashed = \<lparr>dir_keyring = Some content, dir_wal = Some (wal_file (ds_wal s)), dir_manifest = ds_manifest_file s,
           dir_clean_shutdown = ds_clean_shutdown_file s\<rparr>
     in open_with_encryption demo_crypto demo_env (demo_choice 7) True StandardType (Inr ()) (se_with_kek [5] ''env'') empty_dir 0 =
          (empty_dir\<lparr>dir_keyring := Some content, dir_wal := Some []\<rparr>, Inr demo_encrypted_store) \<and>
        snd (open_with_encryption demo_crypto demo_env (demo_choice 9) True StandardType (Inr ()) (se_with_kek [5] ''env'') crashed 1) = Inr s1 \<and>
        ds_is_encrypted s1 \<and> ds_read_latest [1] (fst (ds_recover demo_env s1)) = Some [2]"
proof -
  obtain content where l: "load_or_init demo_crypto (demo_choice 7) (Some [5]) ''env'' True None None =
      (Some content, Inr (created_state demo_crypto (demo_choice 7)))" using demo_creates by blast
  let ?dir = "empty_dir\<lparr>dir_keyring := Some content, dir_wal := Some []\<rparr>"
  have o: "open_with_encryption demo_crypto demo_env (demo_choice 7) True StandardType (Inr ()) (se_with_kek [5] ''env'') empty_dir 0 =
      (?dir, Inr demo_encrypted_store)"
    using l demo_encrypted_open by (simp add: open_with_encryption_def open_with_full_config_internal_def se_with_kek_def empty_dir_def dir_disk_def)
  obtain s cts where c: "ds_commit demo_env demo_txn demo_encrypted_ready = (s, Inr cts)" using demo_encrypted_history(3) by blast
  then have s: "s = fold (ds_step demo_env) (demo_encrypted_ops @ [DCommit demo_txn]) demo_encrypted_store"
    by (simp add: demo_encrypted_ready_def)
  note h = ds_history.committed [OF demo_encrypted_history(1) c, simplified]
  note synced = commit_syncs [OF demo_env_ok demo_encrypted_history(1,2) c]
  have crashed: "\<lparr>dir_keyring = Some content, dir_wal = Some (wal_file (ds_wal s)), dir_manifest = ds_manifest_file s,
        dir_clean_shutdown = ds_clean_shutdown_file s\<rparr> =
      \<lparr>dir_keyring = dir_keyring ?dir, dir_wal = Some (wal_file (ds_wal s)), dir_manifest = ds_manifest_file s,
        dir_clean_shutdown = ds_clean_shutdown_file s\<rparr>" by simp
  from encrypted_database_survives_crash [OF demo_crypto_ok demo_choice_ok(1) demo_env_ok demo_choice_ok(2) o s h history_image [OF demo_env_ok h]
      crashed, of 9, where kind' = StandardType and ordered' = True and tick' = 1 and source_id' = "''env''"] synced o
  show ?thesis unfolding s [symmetric] Let_def by fastforce
qed

end
