(* ===== verification/Concurrent_Database.thy ===== *)
theory Concurrent_Database
  imports Concurrent_Steps Database_Guarantees Keyring
begin

text \<open>
  The concurrent mode of the database kernel (\<^verbatim>\<open>database.rs\<close>): a database handle with a \<^verbatim>\<open>ConcurrentMvcc\<close>, whose writer lock
  \<^verbatim>\<open>put\<close>, \<^verbatim>\<open>put_batch\<close> and \<^verbatim>\<open>commit\<close> take on the page shared by the processes.  Every other operation is the one of the exclusive mode.
  The last part composes two processes on one log.
\<close>

subsection \<open>Operations\<close>

record ConcurrentDb =
  cd_db :: Database
  cd_mvcc :: ConcurrentMvcc

text \<open>
  \<^verbatim>\<open>open_concurrent_with_config_and_encryption\<close>.  An error after the manager is open drops it again.  The arguments hold both clocks,
  \<^verbatim>\<open>process_exists\<close>, the metadata page and the directory.
\<close>

definition open_concurrent_with_config_and_encryption ::
    "keyring_crypto \<Rightarrow> ds_env \<Rightarrow> keyring_choice \<Rightarrow> DatabaseConfig \<Rightarrow> StorageEncryption \<Rightarrow> u64 \<Rightarrow> u64 \<Rightarrow> (u32 \<Rightarrow> bool) \<Rightarrow>
     SharedPage option \<Rightarrow> db_dir \<Rightarrow> nat \<Rightarrow> SharedPage \<times> db_dir \<times> ConcurrentDb result" where
  "open_concurrent_with_config_and_encryption C E R config encryption now_ms now_us process_exists file_page dir tick =
     (case mvcc_open now_ms (pf_pid (de_platform E)) file_page of
        (shared, Inl e) \<Rightarrow> (shared, dir, Inl e)
      | (shared, Inr m) \<Rightarrow>
          (case open_for_concurrent_encrypted C E R (cfg_default_index_policy config) encryption dir tick of
             (dir, Inl e) \<Rightarrow> (mvcc_drop shared m, dir, Inl e)
           | (dir, Inr storage) \<Rightarrow>
               (let storage = ds_set_sync_mode (ucast (sync_to_sqlite_pragma (cfg_sync_mode config))) storage;
                    db = \<lparr>db_storage = storage, db_tables = [], db_packed_schemas = [],
                          db_index_registry = tir_with_default_policy (cfg_default_index_policy config), db_config = config,
                          db_stat = database_stats_new, db_shutdown_flag = 0\<rparr>
                in case ds_recover E storage of
                     (storage, Inl e) \<Rightarrow> (mvcc_drop shared m, dir, Inl e)
                   | (storage, Inr _) \<Rightarrow>
                       (fst (cleanup_stale_readers process_exists now_us shared), dir,
                        Inr \<lparr>cd_db = db\<lparr>db_storage := storage\<rparr>, cd_mvcc = m\<rparr>))))"

definition open_concurrent_with_config ::
    "keyring_crypto \<Rightarrow> ds_env \<Rightarrow> keyring_choice \<Rightarrow> DatabaseConfig \<Rightarrow> u64 \<Rightarrow> u64 \<Rightarrow> (u32 \<Rightarrow> bool) \<Rightarrow>
     SharedPage option \<Rightarrow> db_dir \<Rightarrow> nat \<Rightarrow> SharedPage \<times> db_dir \<times> ConcurrentDb result" where
  "open_concurrent_with_config C E R config = open_concurrent_with_config_and_encryption C E R config se_disabled"

definition open_concurrent ::
    "keyring_crypto \<Rightarrow> ds_env \<Rightarrow> keyring_choice \<Rightarrow> u64 \<Rightarrow> u64 \<Rightarrow> (u32 \<Rightarrow> bool) \<Rightarrow>
     SharedPage option \<Rightarrow> db_dir \<Rightarrow> nat \<Rightarrow> SharedPage \<times> db_dir \<times> ConcurrentDb result" where
  "open_concurrent C E R = open_concurrent_with_config C E R cfg_default"

text \<open>
  A body under the writer guard.  The answer is the page, the handle and the result, or none while \<^verbatim>\<open>acquire_writer\<close> is waiting; the guard is
  dropped when the body is left, by whatever way.
\<close>

definition under_writer_lock ::
    "(SharedPage \<times> bool) list \<Rightarrow> (SharedPage \<Rightarrow> ConcurrentDb \<Rightarrow> SharedPage \<times> ConcurrentDb \<times> 'a result) \<Rightarrow> ConcurrentDb \<Rightarrow>
     (SharedPage \<times> ConcurrentDb \<times> 'a result) option" where
  "under_writer_lock attempts body cd =
     (case acquire_writer (cm_our_pid (cd_mvcc cd)) attempts of
        None \<Rightarrow> None
      | Some (shared, Inl e) \<Rightarrow> Some (shared, cd, Inl e)
      | Some (shared, Inr guard) \<Rightarrow>
          (case body shared cd of (shared, cd, r) \<Rightarrow> Some (release_writer (cm_our_pid (cd_mvcc cd)) shared, cd, r)))"

definition on_db :: "(Database \<Rightarrow> Database \<times> 'a) \<Rightarrow> ConcurrentDb \<Rightarrow> ConcurrentDb \<times> 'a" where
  "on_db f cd = (case f (cd_db cd) of (db, r) \<Rightarrow> (cd\<lparr>cd_db := db\<rparr>, r))"

definition cdb_put ::
    "ds_env \<Rightarrow> (SharedPage \<times> bool) list \<Rightarrow> TxnHandle \<Rightarrow> key \<Rightarrow> val \<Rightarrow> ConcurrentDb \<Rightarrow> (SharedPage \<times> ConcurrentDb \<times> unit result) option" where
  "cdb_put E attempts txn k v cd =
     under_writer_lock attempts (\<lambda>shared cd. (shared, on_db (on_storage (ds_write_refs E (th_txn_id txn) k v)) cd))
       (cd\<lparr>cd_db := count_written (length k + length v) (cd_db cd)\<rparr>)"

definition cdb_put_batch ::
    "ds_env \<Rightarrow> (SharedPage \<times> bool) list \<Rightarrow> TxnHandle \<Rightarrow> (key \<times> val) list \<Rightarrow> ConcurrentDb \<Rightarrow>
     (SharedPage \<times> ConcurrentDb \<times> unit result) option" where
  "cdb_put_batch E attempts txn writes cd =
     under_writer_lock attempts (\<lambda>shared cd. (shared, on_db (on_storage (ds_write_batch_refs E (th_txn_id txn) writes)) cd))
       (cd\<lparr>cd_db := count_written (pair_bytes writes) (cd_db cd)\<rparr>)"

text \<open>What \<^verbatim>\<open>commit\<close> does with the guard: the commit of the storage engine, flush, sync and the count for the collection.\<close>

definition commit_body :: "ds_env \<Rightarrow> TxnHandle \<Rightarrow> SharedPage \<Rightarrow> ConcurrentDb \<Rightarrow> SharedPage \<times> ConcurrentDb \<times> u64 result" where
  "commit_body E txn shared cd =
     (case on_db (on_storage (ds_commit E (th_txn_id txn))) cd of
        (cd, Inl e) \<Rightarrow> (shared, cd, Inl e)
      | (cd, Inr commit_ts) \<Rightarrow>
          (case on_db (on_storage ds_flush_wal) cd of
             (cd, Inl e) \<Rightarrow> (shared, cd, Inl e)
           | (cd, Inr _) \<Rightarrow>
               (case on_db (on_storage ds_fsync) cd of
                  (cd, Inl e) \<Rightarrow> (shared, cd, Inl e)
                | (cd, Inr _) \<Rightarrow> (case on_commit shared (cd_mvcc cd) of (shared, m) \<Rightarrow> (shared, cd\<lparr>cd_mvcc := m\<rparr>, Inr commit_ts)))))"

definition count_committed :: "Database \<Rightarrow> Database" where
  "count_committed db = db\<lparr>db_stat := (db_stat db)\<lparr>stat_transactions_committed := stat_transactions_committed (db_stat db) + 1\<rparr>\<rparr>"

definition cdb_commit ::
    "ds_env \<Rightarrow> (SharedPage \<times> bool) list \<Rightarrow> TxnHandle \<Rightarrow> ConcurrentDb \<Rightarrow> (SharedPage \<times> ConcurrentDb \<times> u64 result) option" where
  "cdb_commit E attempts txn cd = under_writer_lock attempts (commit_body E txn) (cd\<lparr>cd_db := count_committed (cd_db cd)\<rparr>)"

text \<open>Closing a handle: the database, then the manager.\<close>

definition cdb_drop :: "SharedPage \<Rightarrow> ConcurrentDb \<Rightarrow> SharedPage \<times> Database" where
  "cdb_drop shared cd = (mvcc_drop shared (cd_mvcc cd), db_drop (cd_db cd))"

subsection \<open>A commit under the lock\<close>

lemma try_acquire_result:
  "try_acquire_writer pid shared = (shared', r) \<Longrightarrow> r = Inr () \<Longrightarrow> mh_writer_lock (sh_header shared') = pid"
  by (auto simp: try_acquire_writer_def Let_def lock_held_def split: if_splits)

lemma acquire_writer_owner: "acquire_writer pid attempts = Some (shared, Inr ()) \<Longrightarrow> mh_writer_lock (sh_header shared) = pid"
  by (induction pid attempts rule: acquire_writer.induct)
    (auto split: prod.splits sum.splits if_splits dest: try_acquire_result)

lemma acquire_writer_foreign:
  assumes "\<forall>(shared, before) \<in> set attempts. mh_writer_lock (sh_header shared) = owner" "owner \<noteq> 0" "owner \<noteq> pid"
    and "acquire_writer pid attempts = Some (shared', r)"
  shows "r = lock_held owner \<and> mh_writer_lock (sh_header shared') = owner"
  using assms(1,4)
proof (induction attempts)
  case (Cons a later)
  obtain p before where a: "a = (p, before)" by (cases a)
  then have "try_acquire_writer pid p = (p, lock_held owner)" "mh_writer_lock (sh_header p) = owner"
    using Cons.prems(1) assms(2,3) by (auto simp: try_acquire_writer_def Let_def)
  moreover have "\<forall>(p, before) \<in> set later. mh_writer_lock (sh_header p) = owner" using Cons.prems(1) by simp
  ultimately show ?case using Cons.IH Cons.prems(2) a by (cases before) (auto simp: lock_held_def)
qed simp

lemma on_commit_lock: "mh_writer_lock (sh_header (fst (on_commit shared m))) = mh_writer_lock (sh_header shared)"
  by (simp add: on_commit_def Let_def)

lemma on_commit_pid: "cm_our_pid (snd (on_commit shared m)) = cm_our_pid m"
  by (simp add: on_commit_def run_gc_def Let_def split: prod.splits)

lemma fsynced:
  "on_storage ds_fsync db = (db', r) \<Longrightarrow>
   wal_buf (ds_wal (db_storage db')) = [] \<and> wal_synced (ds_wal (db_storage db')) = length (wal_file (ds_wal (db_storage db')))"
  by (auto simp: on_storage_def ds_fsync_def wal_sync_def bw_flush_def Let_def)

lemma commit_body_page:
  assumes "commit_body E txn shared cd = (shared', cd', r)"
  shows "mh_writer_lock (sh_header shared') = mh_writer_lock (sh_header shared)" "cm_our_pid (cd_mvcc cd') = cm_our_pid (cd_mvcc cd)"
  using assms on_commit_lock on_commit_pid
  by (auto simp: commit_body_def on_db_def split: prod.splits sum.splits) (metis fst_conv snd_conv)+

lemma commit_body_done:
  assumes "commit_body E txn shared cd = (shared', cd', Inr ts)"
  shows "\<exists>db. on_storage (ds_commit E (th_txn_id txn)) (cd_db cd) = (db, Inr ts)"
    and "wal_buf (ds_wal (db_storage (cd_db cd'))) = []"
    and "wal_synced (ds_wal (db_storage (cd_db cd'))) = length (wal_file (ds_wal (db_storage (cd_db cd'))))"
  using assms by (auto simp: commit_body_def on_db_def split: prod.splits sum.splits dest: fsynced)

text \<open>
  C16: a commit in the concurrent mode.  When it succeeds, it returns what the commit of the exclusive mode returns, every byte of this process's log is
  on disk, whatever the sync mode, and the writer lock is free again.  While another process owns the lock, it returns no other answer than
  that error, and neither the storage engine nor the lock changes.
\<close>

theorem concurrent_commit:
  assumes "cdb_commit E attempts txn cd = Some (shared, cd', r)"
  shows "(\<forall>ts. r = Inr ts \<longrightarrow> snd (db_commit E txn (cd_db cd)) = Inr ts \<and> wal_buf (ds_wal (db_storage (cd_db cd'))) = [] \<and>
      wal_synced (ds_wal (db_storage (cd_db cd'))) = length (wal_file (ds_wal (db_storage (cd_db cd')))) \<and> mh_writer_lock (sh_header shared) = 0) \<and>
    (\<forall>owner. (\<forall>(p, before) \<in> set attempts. mh_writer_lock (sh_header p) = owner) \<and> owner \<noteq> 0 \<and> owner \<noteq> cm_our_pid (cd_mvcc cd) \<longrightarrow>
      r = lock_held owner \<and> db_storage (cd_db cd') = db_storage (cd_db cd) \<and> mh_writer_lock (sh_header shared) = owner)"
proof (intro conjI [of "\<forall>ts. P ts" "\<forall>owner. Q owner" for P Q] allI impI)
  fix ts assume "r = Inr ts"
  with assms obtain p p' where p: "acquire_writer (cm_our_pid (cd_mvcc cd)) attempts = Some (p, Inr ())"
      "commit_body E txn p (cd\<lparr>cd_db := count_committed (cd_db cd)\<rparr>) = (p', cd', Inr ts)"
      "shared = release_writer (cm_our_pid (cd_mvcc cd')) p'"
    by (auto simp: cdb_commit_def under_writer_lock_def split: option.splits prod.splits sum.splits)
  have "mh_writer_lock (sh_header p') = cm_our_pid (cd_mvcc cd')"
    using commit_body_page [OF p(2)] acquire_writer_owner [OF p(1)] by simp
  then have "mh_writer_lock (sh_header shared) = 0" using p(3) by (simp add: release_writer_def)
  then show "snd (db_commit E txn (cd_db cd)) = Inr ts \<and> wal_buf (ds_wal (db_storage (cd_db cd'))) = [] \<and>
      wal_synced (ds_wal (db_storage (cd_db cd'))) = length (wal_file (ds_wal (db_storage (cd_db cd')))) \<and> mh_writer_lock (sh_header shared) = 0"
    using commit_body_done [OF p(2)] by (auto simp: db_commit_def count_committed_def on_storage_def split: prod.splits)
next
  fix owner
  assume "(\<forall>(p, before) \<in> set attempts. mh_writer_lock (sh_header p) = owner) \<and> owner \<noteq> 0 \<and> owner \<noteq> cm_our_pid (cd_mvcc cd)"
  then have o: "\<forall>(p, before) \<in> set attempts. mh_writer_lock (sh_header p) = owner" "owner \<noteq> 0" "owner \<noteq> cm_our_pid (cd_mvcc cd)"
    by blast+
  obtain p q where p: "acquire_writer (cm_our_pid (cd_mvcc cd)) attempts = Some (p, q)"
    using assms by (auto simp: cdb_commit_def under_writer_lock_def split: option.splits)
  note foreign = acquire_writer_foreign [OF o p]
  then show "r = lock_held owner \<and> db_storage (cd_db cd') = db_storage (cd_db cd) \<and> mh_writer_lock (sh_header shared) = owner"
    using assms p by (auto simp: cdb_commit_def under_writer_lock_def lock_held_def count_committed_def split: sum.splits)
qed

text \<open>A process with one write to commit, and a page whose lock is free or taken.\<close>

definition demo_cd :: ConcurrentDb where
  "demo_cd =
     \<lparr>cd_db = \<lparr>db_storage = fst (ds_write demo_env demo_txn [1] [2] demo_ready), db_tables = [], db_packed_schemas = [],
        db_index_registry = tir_with_default_policy Balanced, db_config = cfg_default, db_stat = database_stats_new, db_shutdown_flag = 0\<rparr>,
      cd_mvcc = \<lparr>cm_version_store = store_new, cm_our_pid = 7, cm_our_slot = None\<rparr>\<rparr>"

definition locked_page :: "u32 \<Rightarrow> SharedPage" where
  "locked_page owner = \<lparr>sh_header = (mvcc_header_new 0)\<lparr>mh_writer_lock := owner\<rparr>, sh_slots = []\<rparr>"

theorem concurrent_commit_witness:
  "\<exists>shared cd' cts cd''. cdb_commit demo_env [(locked_page 0, False)] \<lparr>th_txn_id = demo_txn, th_snapshot_ts = demo_txn\<rparr> demo_cd = Some (shared, cd', Inr cts) \<and>
     wal_buf (ds_wal (db_storage (cd_db cd'))) = [] \<and> mh_writer_lock (sh_header shared) = 0 \<and>
     cdb_commit demo_env [(locked_page 9, True), (locked_page 9, False)] \<lparr>th_txn_id = demo_txn, th_snapshot_ts = demo_txn\<rparr> demo_cd =
       Some (locked_page 9, cd'', lock_held 9) \<and> db_storage (cd_db cd'') = db_storage (cd_db demo_cd)"
proof -
  let ?t = "\<lparr>th_txn_id = demo_txn, th_snapshot_ts = demo_txn\<rparr>"
  obtain s' cts where c: "ds_commit demo_env demo_txn (fst (ds_write demo_env demo_txn [1] [2] demo_ready)) = (s', Inr cts)"
    using demo_write_commit by blast
  have "\<exists>shared cd'. cdb_commit demo_env [(locked_page 0, False)] ?t demo_cd = Some (shared, cd', Inr cts)"
    using c by (simp add: cdb_commit_def under_writer_lock_def try_acquire_writer_def locked_page_def mvcc_header_new_def commit_body_def on_db_def on_storage_def
        demo_cd_def count_committed_def ds_flush_wal_def wal_flush_def ds_fsync_def wal_sync_def Let_def split: prod.split)
  then obtain shared cd' where ok: "cdb_commit demo_env [(locked_page 0, False)] ?t demo_cd = Some (shared, cd', Inr cts)" by blast
  let ?attempts = "[(locked_page 9, True), (locked_page 9, False)]"
  have refused: "cdb_commit demo_env ?attempts ?t demo_cd = Some (locked_page 9, demo_cd\<lparr>cd_db := count_committed (cd_db demo_cd)\<rparr>, lock_held 9)"
    by (simp add: cdb_commit_def under_writer_lock_def try_acquire_writer_def locked_page_def mvcc_header_new_def demo_cd_def lock_held_def)
  have "(\<forall>(p, before) \<in> set ?attempts. mh_writer_lock (sh_header p) = 9) \<and> (9 :: u32) \<noteq> 0 \<and> 9 \<noteq> cm_our_pid (cd_mvcc demo_cd)"
    by (simp add: locked_page_def demo_cd_def)
  then show ?thesis
    using concurrent_commit [OF ok] concurrent_commit [OF refused] ok refused by blast
qed

subsection \<open>Two processes on one log\<close>

text \<open>
  Both processes open the log file for appending; each keeps the number of records in the file on its own.  The file after one process
  and then the other have flushed what they appended since the image \<open>img\<close>.
\<close>

definition appended_by_both :: "bytes \<Rightarrow> TxnWal \<Rightarrow> TxnWal \<Rightarrow> bytes" where
  "appended_by_both img a b = wal_file (bw_flush a) @ drop (length img) (wal_file (bw_flush b))"

text \<open>Documented behaviour of the cipher: a ciphertext does not authenticate under other associated data, here that of another position.\<close>

definition binds_ordinal :: "TxnWal \<Rightarrow> bool" where
  "binds_ordinal w \<longleftrightarrow>
     (\<forall>nonce body i j env. length nonce = NONCE_SIZE \<and> i \<noteq> j \<and>
        encrypt_with_aad (wal_encryption w) nonce body (record_aad w i) = Inr env \<longrightarrow>
        decrypt_with_aad (wal_encryption w) env (record_aad w j) = Inl DecryptFailed)"

lemma wal_is_frame_pid: "wal_is_frame (P\<lparr>pf_pid := q\<rparr>) = wal_is_frame P"
  by (intro ext) (simp add: wal_is_frame_def body_bytes_def to_bytes_def Let_def)

lemma wal_repr_pid: "wal_repr (P\<lparr>pf_pid := q\<rparr>) w es \<longleftrightarrow> wal_repr P w es"
  by (simp add: wal_repr_def wal_is_frame_pid)

lemma reopened_log:
  assumes "wal_repr P w es" "wal_buf w = []" "wal_reopen P (wal_file w) w tick = Inr a"
  shows "wal_records_in_file a = word_of_nat (length es)" "wal_file a = wal_file w" "wal_buf a = []" "wal_key a = wal_key w"
proof -
  have "is_log (wal_is_frame P w) 0 es (wal_file w)" using assms(1,2) by (simp add: wal_repr_def)
  from wal_cut_exists [OF this prefix_order.refl] have cut: "wal_cut P w es (wal_file w) (length es)" by auto
  show "wal_key a = wal_key w" using wal_reopen_replay(3) [OF cut assms(3)] .
  show "wal_records_in_file a = word_of_nat (length es)" "wal_file a = wal_file w" "wal_buf a = []"
    using wal_reopen_cut [OF cut, of tick] assms(3) by (auto simp: wal_fresh_def)
qed

text \<open>An append to an encrypted log adds a frame with the ordinal that the process counts.\<close>

lemma appended_frame:
  assumes "platform_ok P" "cipher_ok a" "frame_fits a e" "ee_is_enabled (wal_encryption a)" "wal_append P e a = (a', Inr s)"
  shows "\<exists>f. wal_is_frame P a (wal_records_in_file a) e f \<and> wal_file (bw_flush a') = wal_file a @ wal_buf a @ f"
proof -
  obtain w1 r where w1: "encrypt_frame P (body_bytes P e) (wal_records_in_file a) a = (w1, r)" by fastforce
  with assms(4,5) obtain f where f: "r = Inr f" by (cases r) (auto simp: wal_append_def frame_for_write_def)
  have state: "w1 = a\<lparr>wal_tick := wal_tick a + 1\<rparr>" using encrypt_frame_state [of P "body_bytes P e" "wal_records_in_file a" a] w1 by simp
  have "wal_file a' @ wal_buf a' = (wal_file a @ wal_buf a) @ f"
    using assms(4,5) w1 f bw_write_all_log [of f w1]
    by (auto simp: wal_append_def frame_for_write_def state commit_record_ordinal_def Let_def split: if_splits)
  then show ?thesis
    using encrypt_frame_is_frame [OF assms(1-4)] w1 f by (intro exI [of _ f]) (simp add: bw_flush_def)
qed

lemma misplaced_frame:
  assumes "wal_is_frame P w i e f" "ee_is_enabled (wal_encryption w)" "binds_ordinal w" "i \<noteq> j"
  shows "\<exists>env. f = u32_le (word_of_nat (length env)) @ env \<and> length env \<le> unat MAX_WAL_FRAME_LEN \<and>
    decrypt_with_aad (wal_encryption w) env (record_aad w j) = Inl DecryptFailed"
proof -
  obtain nonce env where env: "length nonce = NONCE_SIZE" "aead_ok (ee_cipher (wal_encryption w))"
    "encrypt_with_aad (wal_encryption w) nonce (body_bytes P e) (record_aad w i) = Inr env"
    "f = u32_le (word_of_nat (length env)) @ env" "frame_fits w e"
    using assms(1,2) by (auto simp: wal_is_frame_def cipher_ok_def)
  have "length env = length (body_bytes P e) + HEADER_SIZE + 16"
    by (rule envelope_length) (use env assms(2) in \<open>simp_all add: ee_is_enabled_def\<close>)
  then have "length env \<le> unat MAX_WAL_FRAME_LEN" using env(5) assms(2) by (simp add: frame_fits_def)
  then show ?thesis using env assms(3,4) by (auto simp: binds_ordinal_def)
qed

text \<open>
  C32: two processes on an encrypted log make it unreadable.  Two processes open a database in the concurrent mode and each appends a record, one
  after the other.  Both give their record the ordinal that follows the image they opened, so the second one does not authenticate at its
  position: recovery and every later opening of the database fail, although nothing was damaged.
\<close>

theorem second_process_breaks_encrypted_log:
  assumes "platform_ok P" "cipher_ok w" "ee_is_enabled (wal_encryption w)" "binds_ordinal w"
    and "wal_repr P w es" "wal_buf w = []" "frame_fits w e" "frame_fits w e'"
    and "wal_reopen P (wal_file w) w tick = Inr a" "wal_append P e a = (a', Inr s)"
    and "wal_reopen (P\<lparr>pf_pid := q\<rparr>) (wal_file w) w tick' = Inr b" "wal_append (P\<lparr>pf_pid := q\<rparr>) e' b = (b', Inr s')"
  shows "replay_for_recovery P (w\<lparr>wal_file := appended_by_both (wal_file w) a' b'\<rparr>) = Inl (Err (enc_error DecryptFailed)) \<and>
    wal_reopen P (appended_by_both (wal_file w) a' b') w tick'' = Inl (Err (enc_error DecryptFailed))"
proof -
  let ?n = "word_of_nat (length es) :: u64" and ?w = "w\<lparr>wal_file := appended_by_both (wal_file w) a' b'\<rparr>"
  note a = reopened_log [OF assms(5,6,9)]
  have "wal_repr (P\<lparr>pf_pid := q\<rparr>) w es" using assms(5) by (simp add: wal_repr_pid)
  note b = reopened_log [OF this assms(6,11)]
  have okP: "platform_ok (P\<lparr>pf_pid := q\<rparr>)" using assms(1) by (simp add: platform_ok_def)
  have enc: "ee_is_enabled (wal_encryption a)" "ee_is_enabled (wal_encryption b)" using a(4) b(4) assms(3) by (auto simp: wal_key_def)
  obtain f where f: "wal_is_frame P w ?n e f" "wal_file (bw_flush a') = wal_file w @ f"
    using appended_frame [OF assms(1) _ _ enc(1) assms(10)] cipher_ok_cong [OF a(4)] frame_fits_cong [OF a(4)] wal_is_frame_cong [OF a(4), of P] a(1-3) assms(2,7)
    by auto
  obtain g where g: "wal_is_frame P w ?n e' g" "wal_file (bw_flush b') = wal_file w @ g"
    using appended_frame [OF okP _ _ enc(2) assms(12)] cipher_ok_cong [OF b(4)] frame_fits_cong [OF b(4)] wal_is_frame_cong [OF b(4), of P] b(1-3) assms(2,8)
    by (auto simp: wal_is_frame_pid)
  have "?n \<noteq> ?n + 1" by simp
  then obtain env where env: "g = u32_le (word_of_nat (length env)) @ env" "length env \<le> unat MAX_WAL_FRAME_LEN"
      "decrypt_with_aad (wal_encryption w) env (record_aad w (?n + 1)) = Inl DecryptFailed"
    using misplaced_frame [OF g(1) assms(3,4)] by blast
  have both: "appended_by_both (wal_file w) a' b' = (wal_file w @ f) @ u32_le (word_of_nat (length env)) @ env @ []"
    by (simp add: appended_by_both_def f(2) g(2) env(1))
  have log: "is_log (wal_is_frame P w) 0 (es @ [e]) (wal_file w @ f)"
    by (rule is_log_append) (use assms(5,6) f(1) in \<open>simp_all add: wal_repr_def\<close>)
  have frames: "wal_is_frame P (w\<lparr>wal_file := bs\<rparr>) = wal_is_frame P w" for bs by (rule wal_is_frame_cong) (simp add: wal_key_def)
  have fails: "wal_loop P w' body torn (wal_file ?w) 0 z = Inl (Err (enc_error DecryptFailed))"
    if "wal_key w' = wal_key ?w" "\<exists>s'. run_entries body 0 (es @ [e]) z = Continue s'" for w' body torn and z :: 'z
    by (rule encrypted_loop_fails [OF _ _ _ env(2) _ that, where bs = "wal_file w @ f" and later = "[]"])
      (use assms(3) log env(3) in \<open>simp_all add: frames both record_aad_def add.commute\<close>)
  show ?thesis
    using fails [of ?w replay_body replay_start id] fails [OF wal_key_fresh [of P "wal_file ?w" ?w tick''], of "recover_body P" "(0, 0)" id]
    by (simp add: replay_for_recovery_def run_replay wal_reopen_def new_with_encryption_def recover_state_def wal_fresh_def run_recover)
qed

lemma demo_binds: "binds_ordinal (demo_wal (ee_new demo_cipher))"
proof -
  have u: "u64_le i = u64_le j \<Longrightarrow> i = j" for i j by (metis of_le_bytes_u64)
  have "demo_tag (record_aad (demo_wal (ee_new demo_cipher)) i) \<noteq> demo_tag (record_aad (demo_wal (ee_new demo_cipher)) j)" if "i \<noteq> j" for i j
    using u that by (auto simp: demo_tag_def record_aad_def)
  then show ?thesis
    by (auto simp: binds_ordinal_def encrypt_with_aad_def decrypt_with_aad_def demo_wal_def ee_new_def demo_cipher_def demo_tag_def HEADER_SIZE_def NONCE_SIZE_def)
qed

theorem second_process_breaks_encrypted_log_witness:
  "\<exists>a a' s b b' s'. wal_reopen demo_platform [] (demo_wal (ee_new demo_cipher)) 0 = Inr a \<and> wal_append demo_platform (txn_begin 0 1) a = (a', Inr s) \<and>
     wal_reopen (demo_platform\<lparr>pf_pid := 9\<rparr>) [] (demo_wal (ee_new demo_cipher)) 0 = Inr b \<and>
     wal_append (demo_platform\<lparr>pf_pid := 9\<rparr>) (txn_begin 0 2) b = (b', Inr s') \<and>
     wal_reopen demo_platform (appended_by_both [] a' b') (demo_wal (ee_new demo_cipher)) 0 = Inl (Err (enc_error DecryptFailed))"
proof -
  let ?w = "demo_wal (ee_new demo_cipher)" and ?Q = "demo_platform\<lparr>pf_pid := 9\<rparr>"
  have open_ok: "\<exists>a. wal_reopen P [] ?w 0 = Inr a \<and> wal_encryption a = ee_new demo_cipher" for P
    by (simp add: wal_reopen_def new_with_encryption_def recover_state_def wal_loop.simps read_record_def read_u32_short demo_wal_def ee_new_def ee_is_enabled_def)
  have append_ok: "\<exists>a' s. wal_append P e a = (a', Inr s)" if "wal_encryption a = ee_new demo_cipher" for P e a
    using that by (simp add: wal_append_def frame_for_write_def encrypt_frame_def ee_new_def ee_is_enabled_def encrypt_with_aad_def demo_cipher_def Let_def)
  obtain a b where a: "wal_reopen demo_platform [] ?w 0 = Inr a" "wal_encryption a = ee_new demo_cipher"
      and b: "wal_reopen ?Q [] ?w 0 = Inr b" "wal_encryption b = ee_new demo_cipher" using open_ok by blast
  obtain a' s b' s' where a': "wal_append demo_platform (txn_begin 0 1) a = (a', Inr s)" and b': "wal_append ?Q (txn_begin 0 2) b = (b', Inr s')"
    using append_ok a(2) b(2) by blast
  have fits: "frame_fits ?w (txn_begin 0 n)" for n
    by (simp add: frame_fits_def entry_len_def txn_begin_def unat_MAX_WAL_FRAME_LEN HEADER_SIZE_def NONCE_SIZE_def)
  have w: "wal_file ?w = []" "wal_buf ?w = []" "ee_is_enabled (wal_encryption ?w)" by (simp_all add: demo_wal_def ee_new_def ee_is_enabled_def)
  have "wal_reopen demo_platform (appended_by_both (wal_file ?w) a' b') ?w 0 = Inl (Err (enc_error DecryptFailed))"
    using second_process_breaks_encrypted_log [OF demo_platform_ok demo_wal_cipher w(3) demo_binds demo_wal_repr w(2) fits fits _ a' _ b', of 0 0 0] a(1) b(1) w(1)
    by simp
  then show ?thesis using a(1) a' b(1) b' w(1) by auto
qed

end
