(* ===== verification/Group_Commit.thy ===== *)
theory Group_Commit
  imports Durable_Storage
begin

text \<open>
  \<^verbatim>\<open>EventDrivenGroupCommit\<close> of \<^verbatim>\<open>sochdb-storage/src/group_commit.rs\<close>: committing threads put their transaction in a queue and wait; one of
  them, or another thread, drains a batch, writes and syncs its commit records and notifies the waiters.  The operations on the buffer are
  functions; their interleaving is a step relation, whose rules are the critical sections and the calls of the log.  The log is
  reached through three operations (\<open>log_ops\<close>), the ones the engine's flush closure calls; what the buffer needs of them is the locale
  \<open>commit_log\<close>, interpreted on the write-ahead log.  The batch size formula (floating point) is an argument.
\<close>

subsection \<open>The buffer\<close>

record PendingCommitV2 =
  pend_txn_id :: u64
  pend_notifier :: nat

datatype CommitResult = CommitPending | CommitSuccess u64 | CommitError string

text \<open>The smoothing factor is kept as the code uses it, in thousandths.\<close>

record GroupCommitConfig =
  gcc_min_batch_size :: nat
  gcc_max_batch_size :: nat
  gcc_max_wait_us :: u64
  gcc_fsync_latency_us :: u64
  gcc_ema_alpha :: u64

definition gcc_default :: GroupCommitConfig where
  "gcc_default = \<lparr>gcc_min_batch_size = 1, gcc_max_batch_size = 1000, gcc_max_wait_us = 10000, gcc_fsync_latency_us = 5000, gcc_ema_alpha = 100\<rparr>"

record GroupCommitMetrics =
  gcm_adaptive_batch_size :: u64
  gcm_arrival_rate_ema :: u64
  gcm_fsync_latency_us :: u64
  gcm_total_commits :: u64
  gcm_total_batches :: u64
  gcm_total_fsync_time_us :: u64
  gcm_last_arrival_us :: u64

definition gcm_default :: GroupCommitMetrics where
  "gcm_default =
     \<lparr>gcm_adaptive_batch_size = 10, gcm_arrival_rate_ema = 100000, gcm_fsync_latency_us = 5000, gcm_total_commits = 0, gcm_total_batches = 0,
      gcm_total_fsync_time_us = 0, gcm_last_arrival_us = 0\<rparr>"

record EventDrivenGroupCommit =
  gc_pending :: "PendingCommitV2 list"
  gc_config :: GroupCommitConfig
  gc_metrics :: GroupCommitMetrics
  gc_running :: u64

definition gc_with_config :: "GroupCommitConfig \<Rightarrow> EventDrivenGroupCommit" where
  "gc_with_config config =
     \<lparr>gc_pending = [], gc_config = config, gc_metrics = gcm_default\<lparr>gcm_fsync_latency_us := gcc_fsync_latency_us config\<rparr>, gc_running = 0\<rparr>"

definition gc_new :: EventDrivenGroupCommit where
  "gc_new = gc_with_config gcc_default"

definition gc_start :: "EventDrivenGroupCommit \<Rightarrow> EventDrivenGroupCommit \<times> (string + unit)" where
  "gc_start g = (if gc_running g \<noteq> 0 then (g, Inl ''Already running'') else (g\<lparr>gc_running := 1\<rparr>, Inr ()))"

definition gc_stop :: "EventDrivenGroupCommit \<Rightarrow> EventDrivenGroupCommit" where
  "gc_stop g = g\<lparr>gc_running := 0\<rparr>"

definition gc_is_running :: "EventDrivenGroupCommit \<Rightarrow> bool" where
  "gc_is_running g \<longleftrightarrow> gc_running g = 1"

definition optimal_batch_size :: "(u64 \<Rightarrow> u64 \<Rightarrow> nat) \<Rightarrow> EventDrivenGroupCommit \<Rightarrow> EventDrivenGroupCommit \<times> nat" where
  "optimal_batch_size n_opt g =
     (let n = n_opt (gcm_arrival_rate_ema (gc_metrics g)) (gcm_fsync_latency_us (gc_metrics g));
          batch_size = min (max n (gcc_min_batch_size (gc_config g))) (gcc_max_batch_size (gc_config g))
      in (g\<lparr>gc_metrics := (gc_metrics g)\<lparr>gcm_adaptive_batch_size := of_nat batch_size\<rparr>\<rparr>, batch_size))"

definition gc_update_arrival_rate :: "u64 \<Rightarrow> EventDrivenGroupCommit \<Rightarrow> EventDrivenGroupCommit" where
  "gc_update_arrival_rate now_us g =
     (let m = gc_metrics g; last_us = gcm_last_arrival_us m; m1 = m\<lparr>gcm_last_arrival_us := now_us\<rparr>;
          delta_us = (if now_us < last_us then 0 else now_us - last_us)
      in g\<lparr>gc_metrics :=
           (if last_us > 0 \<and> delta_us > 0
            then let instant_rate = 1000000000 div delta_us; alpha = gcc_ema_alpha (gc_config g)
                 in m1\<lparr>gcm_arrival_rate_ema := (gcm_arrival_rate_ema m * (1000 - alpha) + instant_rate * alpha) div 1000\<rparr>
            else m1)\<rparr>)"

definition gc_update_fsync_latency :: "u64 \<Rightarrow> EventDrivenGroupCommit \<Rightarrow> EventDrivenGroupCommit" where
  "gc_update_fsync_latency latency_us g =
     (let m = gc_metrics g; alpha = gcc_ema_alpha (gc_config g)
      in g\<lparr>gc_metrics := m\<lparr>gcm_fsync_latency_us := (gcm_fsync_latency_us m * (1000 - alpha) + latency_us * alpha) div 1000\<rparr>\<rparr>)"

text \<open>The critical section of \<^verbatim>\<open>submit_and_wait\<close>, with the arrival rate updated first; whether the batch is full.\<close>

definition gc_enqueue :: "(u64 \<Rightarrow> u64 \<Rightarrow> nat) \<Rightarrow> u64 \<Rightarrow> PendingCommitV2 \<Rightarrow> EventDrivenGroupCommit \<Rightarrow> EventDrivenGroupCommit \<times> bool" where
  "gc_enqueue n_opt now_us commit g =
     (let g1 = gc_update_arrival_rate now_us g; g2 = g1\<lparr>gc_pending := gc_pending g1 @ [commit]\<rparr>
      in case optimal_batch_size n_opt g2 of (g3, batch_size) \<Rightarrow> (g3, length (gc_pending g3) \<ge> batch_size))"

text \<open>The critical section of \<^verbatim>\<open>flush_batch\<close>.\<close>

definition gc_drain :: "(u64 \<Rightarrow> u64 \<Rightarrow> nat) \<Rightarrow> EventDrivenGroupCommit \<Rightarrow> EventDrivenGroupCommit \<times> PendingCommitV2 list" where
  "gc_drain n_opt g =
     (if gc_pending g = [] then (g, [])
      else case optimal_batch_size n_opt g of
             (g1, n) \<Rightarrow> let k = min n (length (gc_pending g1)) in (g1\<lparr>gc_pending := drop k (gc_pending g1)\<rparr>, take k (gc_pending g1)))"

definition gc_record_batch :: "u64 \<Rightarrow> nat \<Rightarrow> EventDrivenGroupCommit \<Rightarrow> EventDrivenGroupCommit" where
  "gc_record_batch elapsed_us batch_size g =
     (let g1 = gc_update_fsync_latency elapsed_us g; m = gc_metrics g1
      in g1\<lparr>gc_metrics := m\<lparr>gcm_total_batches := gcm_total_batches m + 1, gcm_total_commits := gcm_total_commits m + of_nat batch_size,
                            gcm_total_fsync_time_us := gcm_total_fsync_time_us m + elapsed_us\<rparr>\<rparr>)"

definition notified_result :: "string + u64 \<Rightarrow> CommitResult" where
  "notified_result r = (case r of Inr ts \<Rightarrow> CommitSuccess ts | Inl e \<Rightarrow> CommitError e)"

definition submit_answer :: "CommitResult \<Rightarrow> string + u64" where
  "submit_answer r = (case r of CommitSuccess ts \<Rightarrow> Inr ts | CommitError e \<Rightarrow> Inl e | CommitPending \<Rightarrow> Inl ''Unexpected pending state'')"

text \<open>One pass of \<^verbatim>\<open>flush_loop\<close>, given the age of the oldest commit: flush, or wait and then flush or look again.\<close>

datatype loop_action = FlushNow | WaitThenFlush u64 | WaitThenLook u64

definition flush_loop_pass :: "(u64 \<Rightarrow> u64 \<Rightarrow> nat) \<Rightarrow> u64 \<Rightarrow> EventDrivenGroupCommit \<Rightarrow> EventDrivenGroupCommit \<times> loop_action" where
  "flush_loop_pass n_opt oldest g =
     (case optimal_batch_size n_opt g of
        (g1, batch_size) \<Rightarrow>
          (g1, if length (gc_pending g1) \<ge> batch_size then FlushNow
               else if gc_pending g1 = [] then WaitThenLook (gcc_max_wait_us (gc_config g1))
               else if oldest > gcc_max_wait_us (gc_config g1) then FlushNow
               else WaitThenFlush (gcc_max_wait_us (gc_config g1) - oldest)))"

subsection \<open>The log behind the buffer\<close>

text \<open>The calls of the flush closure: append a commit record, flush, sync; and the time it returns.\<close>

record 'w log_ops =
  lo_append :: "u64 \<Rightarrow> 'w \<Rightarrow> 'w \<times> (string + unit)"
  lo_flush :: "'w \<Rightarrow> 'w \<times> (string + unit)"
  lo_sync :: "'w \<Rightarrow> 'w \<times> (string + unit)"
  lo_now :: "'w \<Rightarrow> u64"

text \<open>\<^verbatim>\<open>map_err(|e| e.to_string())\<close>.\<close>

definition to_text :: "'a result \<Rightarrow> string + 'a" where
  "to_text r = (case r of Inr x \<Rightarrow> Inr x | Inl (Err e) \<Rightarrow> Inl (sochdb_display e) | Inl (Panic m) \<Rightarrow> Inl m)"

definition wal_ops :: "platform \<Rightarrow> TxnWal log_ops" where
  "wal_ops P =
     \<lparr>lo_append = (\<lambda>t w. case cached_timestamp_us P w of (w1, now) \<Rightarrow>
        (case wal_append_no_flush P (txn_commit now t) w1 of (w2, r) \<Rightarrow> (w2, to_text (try_bind r (\<lambda>_. Inr ()))))),
      lo_flush = (\<lambda>w. case wal_flush w of (w', r) \<Rightarrow> (w', to_text r)),
      lo_sync = (\<lambda>w. case wal_sync w of (w', r) \<Rightarrow> (w', to_text r)),
      lo_now = (\<lambda>w. pf_clock P (wal_tick w))\<rparr>"

subsection \<open>Interleavings\<close>

text \<open>
  Where a call stands.  The flag says whether it is a \<^verbatim>\<open>submit_and_wait\<close>, which waits for its own answer afterwards, or a bare \<^verbatim>\<open>flush_batch\<close> (of
  \<^verbatim>\<open>flush_loop\<close> or \<^verbatim>\<open>flush_group_commit\<close>).  \<open>GAppend\<close> holds the batch and the records still to append, \<open>GNotify\<close> the waiters still to notify.
\<close>

datatype gc_pc =
    GIdle
  | GFlush bool
  | GAppend bool "PendingCommitV2 list" "PendingCommitV2 list"
  | GLogFlush bool "PendingCommitV2 list"
  | GSync bool "PendingCommitV2 list"
  | GNotify bool "PendingCommitV2 list" "string + u64"
  | GWait
  | GDone

text \<open>\<open>gs_txn\<close> (the transaction of each call) and \<open>gs_drained\<close> (the calls taken out of the queue so far) are kept for the statements only.\<close>

record 'w gc_state =
  gs_gc :: EventDrivenGroupCommit
  gs_log :: 'w
  gs_cell :: "nat \<Rightarrow> CommitResult option"
  gs_pc :: "nat \<Rightarrow> gc_pc"
  gs_txn :: "nat \<Rightarrow> u64"
  gs_drained :: "nat list"

definition gc_at :: "nat \<Rightarrow> gc_pc \<Rightarrow> 'w gc_state \<Rightarrow> 'w gc_state" where
  "gc_at c pc s = s\<lparr>gs_pc := (gs_pc s)(c := pc)\<rparr>"

definition after_flush :: "bool \<Rightarrow> gc_pc" where
  "after_flush waits = (if waits then GWait else GIdle)"

text \<open>The batch is written: the metrics, then the notifications.\<close>

definition gc_written :: "nat \<Rightarrow> bool \<Rightarrow> PendingCommitV2 list \<Rightarrow> u64 \<Rightarrow> string + u64 \<Rightarrow> 'w gc_state \<Rightarrow> 'w gc_state" where
  "gc_written c waits batch elapsed r s = gc_at c (GNotify waits batch r) (s\<lparr>gs_gc := gc_record_batch elapsed (length batch) (gs_gc s)\<rparr>)"

inductive gc_step :: "(u64 \<Rightarrow> u64 \<Rightarrow> nat) \<Rightarrow> 'w log_ops \<Rightarrow> ('w \<Rightarrow> 'w \<Rightarrow> bool) \<Rightarrow> 'w gc_state \<Rightarrow> 'w gc_state \<Rightarrow> bool"
  for n_opt ops others where
  g_submit: "gs_pc s c = GIdle \<Longrightarrow> gc_enqueue n_opt now \<lparr>pend_txn_id = t, pend_notifier = c\<rparr> (gs_gc s) = (g, full) \<Longrightarrow>
    gc_step n_opt ops others s
      (gc_at c (if full \<and> \<not> gc_is_running g then GFlush True else GWait)
        (s\<lparr>gs_gc := g, gs_cell := (gs_cell s)(c \<mapsto> CommitPending), gs_txn := (gs_txn s)(c := t)\<rparr>))"
| g_flush_only: "gs_pc s c = GIdle \<Longrightarrow> gc_step n_opt ops others s (gc_at c (GFlush False) s)"
| g_drain: "gs_pc s c = GFlush b \<Longrightarrow> gc_drain n_opt (gs_gc s) = (g, batch) \<Longrightarrow> batch \<noteq> [] \<Longrightarrow>
    gc_step n_opt ops others s
      (gc_at c (GAppend b batch batch) (s\<lparr>gs_gc := g, gs_drained := gs_drained s @ map pend_notifier batch\<rparr>))"
| g_drain_none: "gs_pc s c = GFlush b \<Longrightarrow> gc_drain n_opt (gs_gc s) = (g, []) \<Longrightarrow> gc_step n_opt ops others s (gc_at c (after_flush b) (s\<lparr>gs_gc := g\<rparr>))"
| g_append: "gs_pc s c = GAppend b batch (x # todo) \<Longrightarrow> lo_append ops (pend_txn_id x) (gs_log s) = (w, Inr u) \<Longrightarrow>
    gc_step n_opt ops others s (gc_at c (GAppend b batch todo) (s\<lparr>gs_log := w\<rparr>))"
| g_append_fails: "gs_pc s c = GAppend b batch (x # todo) \<Longrightarrow> lo_append ops (pend_txn_id x) (gs_log s) = (w, Inl e) \<Longrightarrow>
    gc_step n_opt ops others s (gc_written c b batch elapsed (Inl e) (s\<lparr>gs_log := w\<rparr>))"
| g_appended: "gs_pc s c = GAppend b batch [] \<Longrightarrow> gc_step n_opt ops others s (gc_at c (GLogFlush b batch) s)"
| g_log_flush: "gs_pc s c = GLogFlush b batch \<Longrightarrow> lo_flush ops (gs_log s) = (w, Inr u) \<Longrightarrow>
    gc_step n_opt ops others s (gc_at c (GSync b batch) (s\<lparr>gs_log := w\<rparr>))"
| g_log_flush_fails: "gs_pc s c = GLogFlush b batch \<Longrightarrow> lo_flush ops (gs_log s) = (w, Inl e) \<Longrightarrow>
    gc_step n_opt ops others s (gc_written c b batch elapsed (Inl e) (s\<lparr>gs_log := w\<rparr>))"
| g_sync: "gs_pc s c = GSync b batch \<Longrightarrow> lo_sync ops (gs_log s) = (w, r) \<Longrightarrow>
    gc_step n_opt ops others s
      (gc_written c b batch elapsed (case r of Inr _ \<Rightarrow> Inr (lo_now ops w) | Inl e \<Rightarrow> Inl e) (s\<lparr>gs_log := w\<rparr>))"
| g_notify: "gs_pc s c = GNotify b (x # xs) r \<Longrightarrow>
    gc_step n_opt ops others s (gc_at c (GNotify b xs r) (s\<lparr>gs_cell := (gs_cell s)(pend_notifier x \<mapsto> notified_result r)\<rparr>))"
| g_notified: "gs_pc s c = GNotify b [] r \<Longrightarrow> gc_step n_opt ops others s (gc_at c (after_flush b) s)"
| g_timeout: "gs_pc s c = GWait \<Longrightarrow> gs_cell s c = Some CommitPending \<Longrightarrow> \<not> gc_is_running (gs_gc s) \<Longrightarrow> gc_step n_opt ops others s (gc_at c (GFlush True) s)"
| g_return: "gs_pc s c = GWait \<Longrightarrow> gs_cell s c \<noteq> Some CommitPending \<Longrightarrow> gc_step n_opt ops others s (gc_at c GDone s)"
| g_start: "gc_start (gs_gc s) = (g, r) \<Longrightarrow> gc_step n_opt ops others s (s\<lparr>gs_gc := g\<rparr>)"
| g_stop: "gc_step n_opt ops others s (s\<lparr>gs_gc := gc_stop (gs_gc s)\<rparr>)"
| g_others: "others (gs_log s) w \<Longrightarrow> gc_step n_opt ops others s (s\<lparr>gs_log := w\<rparr>)"

definition gc_initial :: "GroupCommitConfig \<Rightarrow> 'w \<Rightarrow> 'w gc_state" where
  "gc_initial config w =
     \<lparr>gs_gc = gc_with_config config, gs_log = w, gs_cell = (\<lambda>c. None), gs_pc = (\<lambda>c. GIdle), gs_txn = (\<lambda>c. 0), gs_drained = []\<rparr>"

lemma gc_at_simps [simp]:
  "gs_gc (gc_at c pc s) = gs_gc s" "gs_log (gc_at c pc s) = gs_log s" "gs_cell (gc_at c pc s) = gs_cell s"
  "gs_pc (gc_at c pc s) = (gs_pc s)(c := pc)" "gs_txn (gc_at c pc s) = gs_txn s" "gs_drained (gc_at c pc s) = gs_drained s"
  by (simp_all add: gc_at_def)

lemma gc_written_simps [simp]:
  "gs_log (gc_written c b batch e r s) = gs_log s" "gs_cell (gc_written c b batch e r s) = gs_cell s"
  "gs_pc (gc_written c b batch e r s) = (gs_pc s)(c := GNotify b batch r)" "gs_txn (gc_written c b batch e r s) = gs_txn s"
  "gs_drained (gc_written c b batch e r s) = gs_drained s" "gs_gc (gc_written c b batch e r s) = gc_record_batch e (length batch) (gs_gc s)"
  by (simp_all add: gc_written_def)

subsection \<open>Where a commit is\<close>

definition calls :: "PendingCommitV2 list \<Rightarrow> nat list" where
  "calls xs = map pend_notifier xs"

lemma calls_simps [simp]: "calls [] = []" "calls (x # xs) = pend_notifier x # calls xs" "calls (xs @ ys) = calls xs @ calls ys"
  by (simp_all add: calls_def)

lemma calls_take_drop: "calls (take k xs) = take k (calls xs)" "calls (drop k xs) = drop k (calls xs)"
  by (simp_all add: calls_def take_map drop_map)

text \<open>The commits that a call has drained and not notified yet.\<close>

definition items_of :: "gc_pc \<Rightarrow> PendingCommitV2 list" where
  "items_of pc =
     (case pc of GAppend b batch todo \<Rightarrow> batch | GLogFlush b batch \<Rightarrow> batch | GSync b batch \<Rightarrow> batch | GNotify b xs r \<Rightarrow> xs | _ \<Rightarrow> [])"

definition is_submit :: "gc_pc \<Rightarrow> bool" where
  "is_submit pc =
     (case pc of GIdle \<Rightarrow> False | GFlush b \<Rightarrow> b | GAppend b _ _ \<Rightarrow> b | GLogFlush b _ \<Rightarrow> b | GSync b _ \<Rightarrow> b | GNotify b _ _ \<Rightarrow> b | _ \<Rightarrow> True)"

lemma items_of_simps [simp]:
  "items_of GIdle = []" "items_of (GFlush b) = []" "items_of (GAppend b batch todo) = batch" "items_of (GLogFlush b batch) = batch"
  "items_of (GSync b batch) = batch" "items_of (GNotify b xs r) = xs" "items_of GWait = []" "items_of GDone = []" "items_of (after_flush b) = []"
  by (simp_all add: items_of_def after_flush_def)

lemma is_submit_simps [simp]:
  "\<not> is_submit GIdle" "is_submit (GFlush b) = b" "is_submit (GAppend b batch todo) = b" "is_submit (GLogFlush b batch) = b"
  "is_submit (GSync b batch) = b" "is_submit (GNotify b xs r) = b" "is_submit GWait" "is_submit GDone" "is_submit (after_flush b) = b"
  by (simp_all add: is_submit_def after_flush_def)

definition queued :: "'w gc_state \<Rightarrow> nat list" where
  "queued s = calls (gc_pending (gs_gc s))"

definition held :: "'w gc_state \<Rightarrow> nat \<Rightarrow> nat list" where
  "held s d = calls (items_of (gs_pc s d))"

text \<open>
  An unanswered commit is in the queue or in exactly one batch, once; a commit that was drained is never drained again.
\<close>

definition gc_queue_inv :: "'w gc_state \<Rightarrow> bool" where
  "gc_queue_inv s \<longleftrightarrow>
     distinct (queued s) \<and> (\<forall>d. distinct (held s d)) \<and> (\<forall>d. set (queued s) \<inter> set (held s d) = {}) \<and>
     (\<forall>d e. d \<noteq> e \<longrightarrow> set (held s d) \<inter> set (held s e) = {}) \<and>
     (\<forall>c. gs_cell s c = Some CommitPending \<longleftrightarrow> c \<in> set (queued s) \<or> (\<exists>d. c \<in> set (held s d))) \<and>
     (\<forall>c. is_submit (gs_pc s c) \<longleftrightarrow> gs_cell s c \<noteq> None) \<and>
     distinct (gs_drained s) \<and> set (gs_drained s) = {c. gs_cell s c \<noteq> None} - set (queued s)"

lemma gc_inv_initial: "gc_queue_inv (gc_initial config w)"
  by (simp add: gc_queue_inv_def gc_initial_def queued_def held_def gc_with_config_def)

lemma optimal_pending [simp]: "gc_pending (fst (optimal_batch_size n_opt g)) = gc_pending g" "gc_running (fst (optimal_batch_size n_opt g)) = gc_running g"
  "gc_config (fst (optimal_batch_size n_opt g)) = gc_config g"
  by (simp_all add: optimal_batch_size_def Let_def)

lemma gc_enqueue_pending:
  "gc_enqueue n_opt now x g = (g', full) \<Longrightarrow> gc_pending g' = gc_pending g @ [x] \<and> gc_config g' = gc_config g \<and> gc_running g' = gc_running g"
  by (auto simp: gc_enqueue_def gc_update_arrival_rate_def optimal_batch_size_def Let_def)

lemma gc_drain_pending:
  "gc_drain n_opt g = (g', batch) \<Longrightarrow> gc_pending g = batch @ gc_pending g' \<and> gc_config g' = gc_config g \<and> gc_running g' = gc_running g"
  by (auto simp: gc_drain_def optimal_batch_size_def Let_def split: if_splits)

lemma gc_record_batch_simps [simp]:
  "gc_pending (gc_record_batch e n g) = gc_pending g" "gc_config (gc_record_batch e n g) = gc_config g" "gc_running (gc_record_batch e n g) = gc_running g"
  by (simp_all add: gc_record_batch_def gc_update_fsync_latency_def Let_def)

lemma gc_start_pending: "gc_start g = (g', r) \<Longrightarrow> gc_pending g' = gc_pending g"
  by (auto simp: gc_start_def split: if_splits)

lemma gc_stop_pending [simp]: "gc_pending (gc_stop g) = gc_pending g"
  by (simp add: gc_stop_def)

lemma gc_inv_cell: "gc_queue_inv s \<Longrightarrow> gs_cell s c = Some CommitPending \<longleftrightarrow> c \<in> set (queued s) \<or> (\<exists>d. c \<in> set (held s d))"
  by (simp add: gc_queue_inv_def)

text \<open>A step that moves no commit keeps the invariant.\<close>

lemma gc_queue_inv_same:
  assumes "gc_queue_inv s" "queued s' = queued s" "\<And>d. held s' d = held s d" "gs_cell s' = gs_cell s" "gs_drained s' = gs_drained s"
    and "\<And>d. is_submit (gs_pc s' d) = is_submit (gs_pc s d)"
  shows "gc_queue_inv s'"
  using assms by (simp add: gc_queue_inv_def)

lemma queue_inv_submit:
  assumes inv: "gc_queue_inv s" and "gs_pc s c = GIdle" "queued s' = queued s @ [c]" "gs_drained s' = gs_drained s" "gs_cell s' = (gs_cell s)(c \<mapsto> CommitPending)"
    and "gs_pc s' = (gs_pc s)(c := pc)" "items_of pc = []" "is_submit pc"
  shows "gc_queue_inv s'"
proof -
  have none: "gs_cell s c = None" using inv assms(2) is_submit_simps(1) unfolding gc_queue_inv_def by metis
  have new: "c \<notin> set (queued s)" "\<And>d. c \<notin> set (held s d)" using gc_inv_cell [OF inv, of c] none by auto
  have new': "c \<notin> set (gs_drained s)" using inv none by (auto simp: gc_queue_inv_def)
  have held: "held s' d = held s d" for d using assms(2,6,7) by (simp add: held_def)
  show ?thesis unfolding gc_queue_inv_def assms(3,4) held
  proof (intro conjI)
    show "\<forall>a. gs_cell s' a = Some CommitPending \<longleftrightarrow> a \<in> set (queued s @ [c]) \<or> (\<exists>d. a \<in> set (held s d))"
      using inv by (simp add: gc_queue_inv_def assms(5))
    show "\<forall>a. is_submit (gs_pc s' a) \<longleftrightarrow> gs_cell s' a \<noteq> None" using inv assms(8) by (simp add: gc_queue_inv_def assms(5,6))
    show "set (gs_drained s) = {a. gs_cell s' a \<noteq> None} - set (queued s @ [c])"
      using inv new' by (auto simp: gc_queue_inv_def assms(5))
  qed (use inv new in \<open>auto simp: gc_queue_inv_def\<close>)
qed

lemma queue_inv_drain:
  assumes inv: "gc_queue_inv s" and "held s c = []" "queued s = calls batch @ queued s'" "gs_drained s' = gs_drained s @ calls batch" "gs_cell s' = gs_cell s"
    and "\<And>d. held s' d = (if d = c then calls batch else held s d)" "\<And>d. is_submit (gs_pc s' d) = is_submit (gs_pc s d)"
  shows "gc_queue_inv s'"
proof -
  have sub: "set (calls batch) \<subseteq> {a. gs_cell s a \<noteq> None}" using inv assms(3) by (auto simp: gc_queue_inv_def)
  have batch: "distinct (calls batch @ queued s')" "\<And>d. (set (calls batch) \<union> set (queued s')) \<inter> set (held s d) = {}"
    using inv assms(3) by (simp_all add: gc_queue_inv_def)
  show ?thesis unfolding gc_queue_inv_def assms(4-6)
  proof (intro conjI)
    show "\<forall>a. gs_cell s a = Some CommitPending \<longleftrightarrow> a \<in> set (queued s') \<or> (\<exists>d. a \<in> set (if d = c then calls batch else held s d))"
    proof
      fix a
      have "gs_cell s a = Some CommitPending \<longleftrightarrow> a \<in> set (queued s) \<or> (\<exists>d. a \<in> set (held s d))" using inv by (simp add: gc_queue_inv_def)
      then show "gs_cell s a = Some CommitPending \<longleftrightarrow> a \<in> set (queued s') \<or> (\<exists>d. a \<in> set (if d = c then calls batch else held s d))"
        using assms(2,3) by (auto split: if_splits) (metis empty_iff list.set(1))
    qed
    show "\<forall>d e. d \<noteq> e \<longrightarrow> set (if d = c then calls batch else held s d) \<inter> set (if e = c then calls batch else held s e) = {}"
      using inv batch by (auto simp: gc_queue_inv_def)
    show "distinct (gs_drained s @ calls batch)" using inv batch assms(3) by (auto simp: gc_queue_inv_def)
    show "set (gs_drained s @ calls batch) = {a. gs_cell s a \<noteq> None} - set (queued s')"
      using inv batch(1) sub assms(3) by (auto simp: gc_queue_inv_def)
    show "\<forall>a. is_submit (gs_pc s' a) \<longleftrightarrow> gs_cell s a \<noteq> None" using inv assms(7) by (simp add: gc_queue_inv_def)
  qed (use inv batch in \<open>auto simp: gc_queue_inv_def\<close>)
qed

lemma queue_inv_notify:
  assumes inv: "gc_queue_inv s" and "held s c = x # xs" "queued s' = queued s" "gs_drained s' = gs_drained s" "gs_cell s' = (gs_cell s)(x \<mapsto> r)"
    and "r \<noteq> CommitPending" "\<And>d. held s' d = (if d = c then xs else held s d)" "\<And>d. is_submit (gs_pc s' d) = is_submit (gs_pc s d)"
  shows "gc_queue_inv s'"
proof -
  have x: "x \<in> set (held s c)" "x \<notin> set xs" "x \<notin> set (queued s)" "\<And>d. d \<noteq> c \<Longrightarrow> x \<notin> set (held s d)"
    using inv assms(2) unfolding gc_queue_inv_def by (metis list.set_intros(1), metis distinct.simps(2), (metis disjoint_iff list.set_intros(1))+)
  have cell: "gs_cell s x = Some CommitPending" using inv x(1) by (auto simp: gc_queue_inv_def)
  show ?thesis unfolding gc_queue_inv_def assms(3,4,7)
  proof (intro conjI)
    show "\<forall>a. gs_cell s' a = Some CommitPending \<longleftrightarrow> a \<in> set (queued s) \<or> (\<exists>d. a \<in> set (if d = c then xs else held s d))"
    proof
      fix a
      have "gs_cell s a = Some CommitPending \<longleftrightarrow> a \<in> set (queued s) \<or> (\<exists>d. a \<in> set (held s d))" using inv by (simp add: gc_queue_inv_def)
      then show "gs_cell s' a = Some CommitPending \<longleftrightarrow> a \<in> set (queued s) \<or> (\<exists>d. a \<in> set (if d = c then xs else held s d))"
        using x assms(2,5,6) by (cases "a = x") (auto split: if_splits, (metis list.set_intros(2) set_ConsD)+)
    qed
    show "\<forall>d e. d \<noteq> e \<longrightarrow> set (if d = c then xs else held s d) \<inter> set (if e = c then xs else held s e) = {}"
    proof (intro allI impI)
      fix d e :: nat assume "d \<noteq> e"
      then have "set (held s d) \<inter> set (held s e) = {}" using inv by (simp add: gc_queue_inv_def)
      then show "set (if d = c then xs else held s d) \<inter> set (if e = c then xs else held s e) = {}" using assms(2) by auto
    qed
    show "\<forall>d. set (queued s) \<inter> set (if d = c then xs else held s d) = {}"
    proof
      fix d
      have "set (queued s) \<inter> set (held s d) = {}" using inv by (simp add: gc_queue_inv_def)
      then show "set (queued s) \<inter> set (if d = c then xs else held s d) = {}" using assms(2) by auto
    qed
    show "\<forall>d. distinct (if d = c then xs else held s d)"
    proof
      fix d
      have "distinct (held s d)" using inv by (simp add: gc_queue_inv_def)
      then show "distinct (if d = c then xs else held s d)" using assms(2) by auto
    qed
    show "\<forall>a. is_submit (gs_pc s' a) \<longleftrightarrow> gs_cell s' a \<noteq> None" using inv cell assms(5,8) by (auto simp: gc_queue_inv_def)
    show "set (gs_drained s) = {a. gs_cell s' a \<noteq> None} - set (queued s)" using inv cell assms(5) by (auto simp: gc_queue_inv_def)
  qed (use inv in \<open>auto simp: gc_queue_inv_def\<close>)
qed

lemma gc_queue_inv_step:
  assumes "gc_step n_opt ops others s s'" "gc_queue_inv s"
  shows "gc_queue_inv s'"
  using assms(1)
proof cases
  case (g_submit c now t g full)
  show ?thesis
    by (rule queue_inv_submit [OF assms(2) g_submit(2), where pc = "if full \<and> \<not> gc_is_running g then GFlush True else GWait"])
      (use g_submit gc_enqueue_pending [OF g_submit(3)] in \<open>simp_all add: queued_def\<close>)
next
  case (g_drain c b g batch)
  show ?thesis
    by (rule queue_inv_drain [OF assms(2), where c = c and batch = batch])
      (use g_drain gc_drain_pending [OF g_drain(3)] in \<open>simp_all add: queued_def held_def calls_def [symmetric]\<close>)
next
  case (g_notify c b x xs r)
  show ?thesis
    by (rule queue_inv_notify [OF assms(2), where c = c and x = "pend_notifier x" and xs = "calls xs" and r = "notified_result r"])
      (use g_notify in \<open>simp_all add: queued_def held_def notified_result_def split: sum.split\<close>)
next
  case (g_drain_none c b g)
  then show ?thesis using gc_drain_pending [OF g_drain_none(3)] by (intro gc_queue_inv_same [OF assms(2)]) (auto simp: queued_def held_def)
next
  case (g_start g r)
  then show ?thesis using gc_start_pending by (intro gc_queue_inv_same [OF assms(2)]) (auto simp: queued_def held_def)
qed ((rule gc_queue_inv_same [OF assms(2)]; auto simp: queued_def held_def)+)

lemma gc_queue_inv_steps: "(gc_step n_opt ops others)\<^sup>*\<^sup>* s s' \<Longrightarrow> gc_queue_inv s \<Longrightarrow> gc_queue_inv s'"
  by (induction rule: rtranclp_induct) (auto intro: gc_queue_inv_step)

subsection \<open>What an answer means\<close>

definition log_keeps :: "('w \<Rightarrow> bool) \<Rightarrow> ('w \<Rightarrow> u64 \<Rightarrow> bool) \<Rightarrow> ('w \<Rightarrow> u64 \<Rightarrow> bool) \<Rightarrow> 'w \<Rightarrow> 'w \<Rightarrow> bool" where
  "log_keeps good written durable w w' \<longleftrightarrow> good w' \<and> (\<forall>t. written w t \<longrightarrow> written w' t) \<and> (\<forall>t. durable w t \<longrightarrow> durable w' t)"

text \<open>
  The contract of the log with the buffer: no operation loses a record or its durability, a record is there after an append that
  succeeded, and durable after a sync that succeeded.
\<close>

locale commit_log =
  fixes ops :: "'w log_ops" and others :: "'w \<Rightarrow> 'w \<Rightarrow> bool"
    and good :: "'w \<Rightarrow> bool" and written :: "'w \<Rightarrow> u64 \<Rightarrow> bool" and durable :: "'w \<Rightarrow> u64 \<Rightarrow> bool"
  assumes append_keeps: "good w \<Longrightarrow> lo_append ops t w = (w', r) \<Longrightarrow> log_keeps good written durable w w'"
    and append_writes: "good w \<Longrightarrow> lo_append ops t w = (w', Inr u) \<Longrightarrow> written w' t"
    and flush_keeps: "good w \<Longrightarrow> lo_flush ops w = (w', r') \<Longrightarrow> log_keeps good written durable w w'"
    and sync_keeps: "good w \<Longrightarrow> lo_sync ops w = (w', r') \<Longrightarrow> log_keeps good written durable w w'"
    and sync_durable: "good w \<Longrightarrow> lo_sync ops w = (w', Inr u) \<Longrightarrow> written w t \<Longrightarrow> durable w' t"
    and others_keep: "good w \<Longrightarrow> others w w' \<Longrightarrow> log_keeps good written durable w w'"
begin

definition pc_logged :: "'w \<Rightarrow> gc_pc \<Rightarrow> bool" where
  "pc_logged w pc =
     (case pc of
        GAppend b batch todo \<Rightarrow> \<exists>finished. batch = finished @ todo \<and> (\<forall>x \<in> set finished. written w (pend_txn_id x))
      | GLogFlush b batch \<Rightarrow> \<forall>x \<in> set batch. written w (pend_txn_id x)
      | GSync b batch \<Rightarrow> \<forall>x \<in> set batch. written w (pend_txn_id x)
      | GNotify b xs r \<Rightarrow> (case r of Inr ts \<Rightarrow> \<forall>x \<in> set xs. durable w (pend_txn_id x) | Inl e \<Rightarrow> True)
      | _ \<Rightarrow> True)"

definition gc_log_inv :: "'w gc_state \<Rightarrow> bool" where
  "gc_log_inv s \<longleftrightarrow>
     good (gs_log s) \<and> (\<forall>d. pc_logged (gs_log s) (gs_pc s d)) \<and>
     (\<forall>x \<in> set (gc_pending (gs_gc s)). pend_txn_id x = gs_txn s (pend_notifier x)) \<and>
     (\<forall>d. \<forall>x \<in> set (items_of (gs_pc s d)). pend_txn_id x = gs_txn s (pend_notifier x)) \<and>
     (\<forall>c ts. gs_cell s c = Some (CommitSuccess ts) \<longrightarrow> durable (gs_log s) (gs_txn s c))"

lemma pc_logged_simps:
  "pc_logged w GIdle" "pc_logged w (GFlush b)" "pc_logged w (GAppend b batch batch)" "pc_logged w GWait" "pc_logged w GDone" "pc_logged w (after_flush b)"
  "pc_logged w (GNotify b xs (Inl e))"
  by (simp_all add: pc_logged_def after_flush_def)

lemma pc_logged_keeps: "log_keeps good written durable w w' \<Longrightarrow> pc_logged w pc \<Longrightarrow> pc_logged w' pc"
  by (auto simp: log_keeps_def pc_logged_def split: gc_pc.splits sum.splits)

text \<open>A step of the log by a call that keeps its batch.\<close>

lemma gc_log_inv_log:
  assumes "gc_log_inv s" "log_keeps good written durable (gs_log s) (gs_log s')" "gs_pc s' = (gs_pc s)(c := pc)" "pc_logged (gs_log s') pc"
    and "set (items_of pc) \<subseteq> set (items_of (gs_pc s c))" "gc_pending (gs_gc s') = gc_pending (gs_gc s)" "gs_cell s' = gs_cell s" "gs_txn s' = gs_txn s"
  shows "gc_log_inv s'"
  using assms pc_logged_keeps [OF assms(2)] by (auto simp: gc_log_inv_def log_keeps_def)

lemma gc_log_inv_same:
  assumes "gc_log_inv s" "gs_log s' = gs_log s" "gs_pc s' = (gs_pc s)(c := pc)" "pc_logged (gs_log s) pc"
    and "set (items_of pc) \<subseteq> set (items_of (gs_pc s c))" "gc_pending (gs_gc s') = gc_pending (gs_gc s)" "gs_cell s' = gs_cell s" "gs_txn s' = gs_txn s"
  shows "gc_log_inv s'"
  by (rule gc_log_inv_log [OF assms(1) _ assms(3)]) (use assms in \<open>auto simp: gc_log_inv_def log_keeps_def\<close>)

lemma gc_log_inv_step:
  assumes "gc_step n_opt ops others s s'" "gc_queue_inv s" "gc_log_inv s"
  shows "gc_log_inv s'"
proof -
  have good: "good (gs_log s)" and pcs: "\<And>d. pc_logged (gs_log s) (gs_pc s d)" using assms(3) by (auto simp: gc_log_inv_def)
  note same = gc_log_inv_same [OF assms(3)]
  show ?thesis using assms(1)
  proof cases
    case (g_submit c now t g full)
    have none: "gs_cell s c = None" using assms(2) g_submit(2) is_submit_simps(1) unfolding gc_queue_inv_def by metis
    have new: "c \<notin> set (queued s)" "\<And>d. c \<notin> set (held s d)" using gc_inv_cell [OF assms(2), of c] none by auto
    then have "pend_notifier x \<noteq> c" if "x \<in> set (gc_pending (gs_gc s)) \<or> x \<in> set (items_of (gs_pc s d))" for x d
      using that by (auto simp: queued_def held_def calls_def)
    then show ?thesis using assms(3) g_submit gc_enqueue_pending [OF g_submit(3)] pc_logged_simps
      by (auto simp: gc_log_inv_def)
  next
    case (g_drain c b g batch)
    then show ?thesis using assms(3) gc_drain_pending [OF g_drain(3)] pc_logged_simps by (auto simp: gc_log_inv_def)
  next
    case (g_drain_none c b g)
    then show ?thesis using good gc_drain_pending [OF g_drain_none(3)] pc_logged_simps by (intro same [of s' c "after_flush b"]) auto
  next
    case (g_append c b batch x todo w u)
    have keeps: "log_keeps good written durable (gs_log s) w" using append_keeps [OF good g_append(3)] .
    obtain finished where fin: "batch = finished @ x # todo" "\<forall>y \<in> set finished. written (gs_log s) (pend_txn_id y)"
      using pcs [of c] g_append(2) by (auto simp: pc_logged_def)
    have "\<forall>y \<in> set (finished @ [x]). written w (pend_txn_id y)"
      using fin(2) append_writes [OF good g_append(3)] keeps by (auto simp: log_keeps_def)
    then have "pc_logged w (GAppend b batch todo)" using fin(1) by (auto simp: pc_logged_def intro!: exI [of _ "finished @ [x]"])
    then show ?thesis using g_append keeps by (intro gc_log_inv_log [OF assms(3), of s' c "GAppend b batch todo"]) auto
  next
    case (g_append_fails c b batch x todo w e elapsed)
    then show ?thesis using append_keeps [OF good g_append_fails(3)] pc_logged_simps
      by (intro gc_log_inv_log [OF assms(3), of s' c "GNotify b batch (Inl e)"]) auto
  next
    case (g_appended c b batch)
    have "pc_logged (gs_log s) (GLogFlush b batch)" using pcs [of c] g_appended(2) by (simp add: pc_logged_def)
    then show ?thesis using good g_appended by (intro same [of s' c "GLogFlush b batch"]) auto
  next
    case (g_log_flush c b batch w u)
    have keeps: "log_keeps good written durable (gs_log s) w" using flush_keeps [OF good g_log_flush(3)] .
    then have "pc_logged w (GSync b batch)" using pcs [of c] g_log_flush(2) by (auto simp: pc_logged_def log_keeps_def)
    then show ?thesis using g_log_flush keeps by (intro gc_log_inv_log [OF assms(3), of s' c "GSync b batch"]) auto
  next
    case (g_log_flush_fails c b batch w e elapsed)
    then show ?thesis using flush_keeps [OF good g_log_flush_fails(3)] pc_logged_simps
      by (intro gc_log_inv_log [OF assms(3), of s' c "GNotify b batch (Inl e)"]) auto
  next
    case (g_sync c b batch w r elapsed)
    let ?r = "case r of Inr _ \<Rightarrow> Inr (lo_now ops w) | Inl e \<Rightarrow> Inl e"
    have "pc_logged w (GNotify b batch ?r)"
      using pcs [of c] g_sync(2) sync_durable [OF good] g_sync(3) by (cases r) (auto simp: pc_logged_def)
    then show ?thesis using sync_keeps [OF good g_sync(3)] g_sync(1,2) by (intro gc_log_inv_log [OF assms(3), of s' c "GNotify b batch ?r"]) auto
  next
    case (g_notify c b x xs r)
    have "pend_txn_id x = gs_txn s (pend_notifier x)" using assms(3) g_notify(2) unfolding gc_log_inv_def
      by (metis items_of_simps(6) list.set_intros(1))
    moreover have "pc_logged (gs_log s) (GNotify b (x # xs) r)" using pcs [of c] g_notify(2) by simp
    ultimately have "\<forall>ts. notified_result r = CommitSuccess ts \<longrightarrow> durable (gs_log s) (gs_txn s (pend_notifier x))" "pc_logged (gs_log s) (GNotify b xs r)"
      by (auto simp: pc_logged_def notified_result_def split: sum.splits)
    then show ?thesis using assms(3) g_notify(1,2) unfolding gc_log_inv_def
      by (auto split: if_splits) (metis items_of_simps(6) list.set_intros(2))+
  next
    case (g_notified c b r)
    then show ?thesis using good pc_logged_simps by (intro same [of s' c "after_flush b"]) auto
  next
    case (g_flush_only c)
    then show ?thesis using good pc_logged_simps by (intro same [of s' c "GFlush False"]) auto
  next
    case (g_timeout c)
    then show ?thesis using good pc_logged_simps by (intro same [of s' c "GFlush True"]) auto
  next
    case (g_return c)
    then show ?thesis using good pc_logged_simps by (intro same [of s' c GDone]) auto
  next
    case (g_start g r)
    then show ?thesis using assms(3) gc_start_pending by (auto simp: gc_log_inv_def)
  next
    case g_stop
    then show ?thesis using assms(3) by (auto simp: gc_log_inv_def)
  next
    case (g_others w)
    then show ?thesis using others_keep [OF good g_others(2)] pcs by (intro gc_log_inv_log [OF assms(3), of s' 0 "gs_pc s 0"]) (auto dest: pc_logged_keeps)
  qed
qed

lemma gc_inv_steps:
  "(gc_step n_opt ops others)\<^sup>*\<^sup>* s s' \<Longrightarrow> gc_queue_inv s \<Longrightarrow> gc_log_inv s \<Longrightarrow> gc_queue_inv s' \<and> gc_log_inv s'"
  by (induction rule: rtranclp_induct) (auto intro: gc_queue_inv_step gc_log_inv_step)

lemma acknowledged:
  assumes "(gc_step n_opt ops others)\<^sup>*\<^sup>* (gc_initial config w) s" "good w" "gs_cell s c = Some (CommitSuccess ts)"
  shows "durable (gs_log s) (gs_txn s c)"
proof -
  have "gc_log_inv (gc_initial config w)" using assms(2) pc_logged_simps(1) by (simp add: gc_log_inv_def gc_initial_def gc_with_config_def)
  then show ?thesis using gc_inv_steps [OF assms(1) gc_inv_initial] assms(3) by (auto simp: gc_log_inv_def)
qed

end

subsection \<open>The write-ahead log behind group commit\<close>

text \<open>What any operation on the log does to it, other transactions' records included: entries are added, nothing is taken back.\<close>

definition wal_extends :: "platform \<Rightarrow> TxnWal \<Rightarrow> TxnWal \<Rightarrow> bool" where
  "wal_extends P w w' \<longleftrightarrow>
     (\<exists>es es'. wal_repr P w es \<and> wal_repr P w' (es @ es')) \<and> wal_key w' = wal_key w \<and>
     prefix (wal_file w) (wal_file w') \<and> wal_synced w \<le> wal_synced w'"

definition wal_good :: "platform \<Rightarrow> TxnWal \<Rightarrow> bool" where
  "wal_good P w \<longleftrightarrow> platform_ok P \<and> cipher_ok w \<and> (\<exists>es. wal_repr P w es)"

definition wal_has_commit :: "platform \<Rightarrow> TxnWal \<Rightarrow> u64 \<Rightarrow> bool" where
  "wal_has_commit P w t \<longleftrightarrow> (\<exists>es now. wal_repr P w es \<and> txn_commit now t \<in> set es)"

text \<open>The synced part of the file holds a log with a commit record of the transaction.\<close>

definition durably_committed :: "platform \<Rightarrow> TxnWal \<Rightarrow> u64 \<Rightarrow> bool" where
  "durably_committed P w t \<longleftrightarrow>
     (\<exists>es bs now. is_log (wal_is_frame P w) 0 es bs \<and> prefix bs (take (wal_synced w) (wal_file w)) \<and> txn_commit now t \<in> set es)"

lemma wal_extends_same:
  assumes "wal_repr P w es" "wal_repr P w' es" "wal_key w' = wal_key w" "prefix (wal_file w) (wal_file w')" "wal_synced w \<le> wal_synced w'"
  shows "wal_extends P w w'"
  using assms unfolding wal_extends_def by (metis append_Nil2)

lemma wal_repr_unique: "wal_repr P w es \<Longrightarrow> wal_repr P w es' \<Longrightarrow> es = es'"
  by (auto simp: wal_repr_def dest: wal.log_unique)

lemma wal_commit_entry: "wal_repr P w es \<Longrightarrow> wal_has_commit P w t \<Longrightarrow> \<exists>now. txn_commit now t \<in> set es"
  unfolding wal_has_commit_def using wal_repr_unique by blast

lemma wal_extends_keeps:
  assumes "wal_good P w" "wal_extends P w w'"
  shows "log_keeps (wal_good P) (wal_has_commit P) (durably_committed P) w w'"
proof -
  obtain es es' where es: "wal_repr P w es" "wal_repr P w' (es @ es')" and key: "wal_key w' = wal_key w"
      and grows: "prefix (wal_file w) (wal_file w')" and sync: "wal_synced w \<le> wal_synced w'"
    using assms(2) by (auto simp: wal_extends_def)
  have "wal_good P w'" using assms(1) es(2) cipher_ok_cong [OF key] by (auto simp: wal_good_def)
  moreover have "wal_has_commit P w' t" if "wal_has_commit P w t" for t
  proof -
    from wal_commit_entry [OF es(1) that] obtain now where "txn_commit now t \<in> set es" ..
    then show ?thesis using es(2) unfolding wal_has_commit_def by (intro exI [of _ "es @ es'"] exI [of _ now]) simp
  qed
  moreover have "durably_committed P w' t" if "durably_committed P w t" for t
  proof -
    from that obtain ls bs now where l: "is_log (wal_is_frame P w) 0 ls bs" "prefix bs (take (wal_synced w) (wal_file w))" "txn_commit now t \<in> set ls"
      by (auto simp: durably_committed_def)
    have "wal_synced w \<le> length (wal_file w)" using es(1) by (simp add: wal_repr_def)
    then have "take (wal_synced w) (wal_file w) = take (wal_synced w) (wal_file w')" using grows by (auto simp: prefix_def)
    also have "prefix \<dots> (take (wal_synced w') (wal_file w'))" using sync by (metis min.absorb1 take_is_prefix take_take)
    finally have "prefix bs (take (wal_synced w') (wal_file w'))" using l(2) by (rule prefix_order.trans [rotated])
    then show ?thesis using l wal_is_frame_cong [OF key, of P] by (auto simp: durably_committed_def)
  qed
  ultimately show ?thesis by (simp add: log_keeps_def)
qed

lemma wal_append_file: "wal_append P e w = (w', r) \<Longrightarrow> prefix (wal_file w) (wal_file w') \<and> wal_synced w' = wal_synced w"
  using encrypt_frame_state [of P "body_bytes P e" "wal_records_in_file w" w]
    bw_write_all_file [of w] bw_write_all_file [of "w\<lparr>wal_tick := wal_tick w + 1\<rparr>"]
  by (auto simp: wal_append_def frame_for_write_def commit_record_ordinal_def Let_def split: if_splits prod.splits sum.splits)

lemma wal_append_extends:
  assumes "wal_good P w" "frame_fits w e" "wal_append P e w = (w', r)"
  shows "wal_extends P w w'" "r = Inr seq \<Longrightarrow> \<exists>es. wal_repr P w' (es @ [e])"
proof -
  obtain es where es: "wal_repr P w es" and ok: "platform_ok P" "cipher_ok w" using assms(1) by (auto simp: wal_good_def)
  have step: "wal_key w' = wal_key w \<and> (case r of Inr _ \<Rightarrow> wal_repr P w' (es @ [e]) | Inl _ \<Rightarrow> wal_repr P w' (es @ []))"
    using wal_append_repr [OF ok es assms(2)] assms(3) by (auto split: sum.splits)
  then have "\<exists>es'. wal_repr P w' (es @ es')" by (cases r) (auto intro: exI [of _ "[]"] exI [of _ "[e]"])
  then show "wal_extends P w w'" using es step wal_append_file [OF assms(3)] by (auto simp: wal_extends_def)
  show "r = Inr seq \<Longrightarrow> \<exists>es. wal_repr P w' (es @ [e])" using step by auto
qed

lemma wal_extends_tick: "wal_good P w \<Longrightarrow> wal_extends P w (w\<lparr>wal_tick := n\<rparr>)"
  using wal_repr_tick by (auto simp: wal_good_def intro: wal_extends_same)

lemma wal_extends_trans: "wal_extends P a b \<Longrightarrow> wal_extends P b c \<Longrightarrow> wal_extends P a c"
  unfolding wal_extends_def by (metis append.assoc order_trans prefix_order.trans wal_repr_unique)

lemma wal_extends_good: "wal_good P w \<Longrightarrow> wal_extends P w w' \<Longrightarrow> wal_good P w'"
  using wal_extends_keeps by (auto simp: log_keeps_def)

lemma commit_record_fits: "frame_fits w (txn_commit now t)"
  by (simp add: frame_fits_def entry_len_def txn_commit_def unat_MAX_WAL_FRAME_LEN HEADER_SIZE_def NONCE_SIZE_def)

lemma wal_ops_append:
  assumes "wal_good P w" "lo_append (wal_ops P) t w = (w', r)"
  shows "wal_extends P w w'" "r = Inr u \<Longrightarrow> wal_has_commit P w' t"
proof -
  let ?w1 = "w\<lparr>wal_tick := wal_tick w + 1\<rparr>" and ?e = "txn_commit (pf_clock P (wal_tick w)) t"
  obtain r' where a: "wal_append P ?e ?w1 = (w', r')" and r: "r = to_text (try_bind r' (\<lambda>_. Inr ()))"
    using assms(2) by (auto simp: wal_ops_def cached_timestamp_us_def wal_append_no_flush_def split: prod.splits)
  note good = wal_extends_good [OF assms(1) wal_extends_tick [OF assms(1)], of "wal_tick w + 1"]
  note app = wal_append_extends [OF good commit_record_fits a]
  show "wal_extends P w w'" using wal_extends_trans [OF wal_extends_tick [OF assms(1)] app(1)] .
  show "wal_has_commit P w' t" if "r = Inr u"
  proof -
    have "\<exists>seq. r' = Inr seq" using that r by (cases r') (auto simp: to_text_def split: failure.splits)
    then show ?thesis using app(2) by (fastforce simp: wal_has_commit_def)
  qed
qed

lemma wal_flush_extends: "wal_good P w \<Longrightarrow> wal_extends P w (bw_flush w)"
  using wal_repr_flush by (auto simp: wal_good_def bw_flush_def wal_key_def intro!: wal_extends_same)

lemma wal_sync_extends:
  assumes "wal_good P w"
  shows "wal_extends P w (fst (wal_sync w))" "wal_has_commit P w t \<Longrightarrow> durably_committed P (fst (wal_sync w)) t"
proof -
  obtain es where es: "wal_repr P w es" using assms by (auto simp: wal_good_def)
  note s = wal_sync_repr [OF es]
  have "wal_synced w \<le> length (wal_file w)" using es by (simp add: wal_repr_def)
  then show "wal_extends P w (fst (wal_sync w))" using es s by (auto intro!: wal_extends_same [OF es])
  show "durably_committed P (fst (wal_sync w)) t" if "wal_has_commit P w t"
  proof -
    from wal_commit_entry [OF es that] obtain now where "txn_commit now t \<in> set es" ..
    moreover have "is_log (wal_is_frame P (fst (wal_sync w))) 0 es (wal_file (fst (wal_sync w)))" using s(1,3) by (simp add: wal_repr_def)
    ultimately show ?thesis using s(4) unfolding durably_committed_def by (metis order.refl prefix_order.refl take_all)
  qed
qed

interpretation wal_commits: commit_log "wal_ops P" "wal_extends P" "wal_good P" "wal_has_commit P" "durably_committed P" for P
proof
  show "log_keeps (wal_good P) (wal_has_commit P) (durably_committed P) w w'" if "wal_good P w" "lo_append (wal_ops P) t w = (w', r)" for w w' t r
    using that by (intro wal_extends_keeps wal_ops_append)
  show "log_keeps (wal_good P) (wal_has_commit P) (durably_committed P) w w'" if "wal_good P w" "lo_flush (wal_ops P) w = (w', r)" for w w' r
    using that wal_flush_extends [OF that(1)] by (intro wal_extends_keeps) (auto simp: wal_ops_def wal_flush_def)
  show "log_keeps (wal_good P) (wal_has_commit P) (durably_committed P) w w'" if "wal_good P w" "lo_sync (wal_ops P) w = (w', r)" for w w' r
    using that wal_sync_extends(1) [OF that(1)] by (intro wal_extends_keeps) (auto simp: wal_ops_def split: prod.splits)
  show "durably_committed P w' t" if "wal_good P w" "lo_sync (wal_ops P) w = (w', Inr u)" "wal_has_commit P w t" for w w' t u
    using that wal_sync_extends(2) [OF that(1,3)] by (auto simp: wal_ops_def split: prod.splits)
qed (auto intro: wal_ops_append(2) wal_extends_keeps)

text \<open>One call with a log that accepts its record, from its submission to its answer.\<close>

lemma single_batch_succeeds:
  assumes "gs_pc s d = GAppend b [x] [x]" "lo_append ops (pend_txn_id x) (gs_log s) = (w1, Inr ())" "lo_flush ops w1 = (w2, Inr ())" "lo_sync ops w2 = (w3, Inr ())"
  shows "\<exists>s'. (gc_step n_opt ops others)\<^sup>*\<^sup>* s s' \<and> gs_pc s' d = after_flush b \<and> gs_log s' = w3 \<and>
    gs_cell s' = (gs_cell s)(pend_notifier x \<mapsto> CommitSuccess (lo_now ops w3)) \<and> gs_txn s' = gs_txn s"
proof -
  let ?step = "gc_step n_opt ops others"
  let ?a1 = "gc_at d (GAppend b [x] []) (s\<lparr>gs_log := w1\<rparr>)"
  let ?a2 = "gc_at d (GLogFlush b [x]) ?a1"
  let ?a3 = "gc_at d (GSync b [x]) (?a2\<lparr>gs_log := w2\<rparr>)"
  let ?a4 = "gc_written d b [x] 0 (Inr (lo_now ops w3)) (?a3\<lparr>gs_log := w3\<rparr>)"
  let ?a5 = "gc_at d (GNotify b [] (Inr (lo_now ops w3))) (?a4\<lparr>gs_cell := (gs_cell ?a4)(pend_notifier x \<mapsto> notified_result (Inr (lo_now ops w3)))\<rparr>)"
  let ?a6 = "gc_at d (after_flush b) ?a5"
  have "?step s ?a1" using assms(1,2) by (rule g_append)
  moreover have "?step ?a1 ?a2" by (rule g_appended) simp
  moreover have "?step ?a2 ?a3" by (rule g_log_flush) (use assms(3) in simp_all)
  moreover have "?step ?a3 ?a4" using g_sync [of ?a3 d b "[x]" ops w3 "Inr ()" n_opt others 0] assms(4) by simp
  moreover have "?step ?a4 ?a5" by (rule g_notify) simp
  moreover have "?step ?a5 ?a6" by (rule g_notified) simp
  ultimately have "?step\<^sup>*\<^sup>* s ?a6" by (meson converse_rtranclp_into_rtranclp rtranclp.rtrancl_refl)
  then show ?thesis by (intro exI [of _ ?a6]) (simp add: notified_result_def)
qed

lemma single_call_succeeds:
  assumes "lo_append ops t w = (w1, Inr ())" "lo_flush ops w1 = (w2, Inr ())" "lo_sync ops w2 = (w3, Inr ())"
  shows "\<exists>s. (gc_step (\<lambda>_ _. 1) ops others)\<^sup>*\<^sup>* (gc_initial gcc_default w) s \<and> gs_pc s 0 = GDone \<and>
    gs_cell s 0 = Some (CommitSuccess (lo_now ops w3)) \<and> gs_txn s 0 = t \<and> gs_log s = w3"
proof -
  let ?step = "gc_step (\<lambda>_ _. 1) ops others" and ?x = "\<lparr>pend_txn_id = t, pend_notifier = 0\<rparr>" and ?i = "gc_initial gcc_default w"
  obtain g full where g: "gc_enqueue (\<lambda>_ _. 1) 0 ?x (gs_gc ?i) = (g, full)" by fastforce
  then have g_facts: "gc_pending g = [?x]" "full" "\<not> gc_is_running g" "gc_config g = gcc_default"
    by (auto simp: gc_enqueue_def gc_update_arrival_rate_def optimal_batch_size_def Let_def gc_initial_def gc_with_config_def gcc_default_def gc_is_running_def)
  let ?s1 = "gc_at 0 (GFlush True) (?i\<lparr>gs_gc := g, gs_cell := (gs_cell ?i)(0 \<mapsto> CommitPending), gs_txn := (gs_txn ?i)(0 := t)\<rparr>)"
  have "?step ?i ?s1" using g_submit [OF _ g, of ops others] g_facts(2,3) by (simp add: gc_initial_def)
  moreover obtain g2 where g2: "gc_drain (\<lambda>_ _. 1) (gs_gc ?s1) = (g2, [?x])"
    using g_facts(1,4) by (simp add: gc_drain_def optimal_batch_size_def Let_def gcc_default_def)
  let ?s2 = "gc_at 0 (GAppend True [?x] [?x]) (?s1\<lparr>gs_gc := g2, gs_drained := gs_drained ?s1 @ map pend_notifier [?x]\<rparr>)"
  have "?step ?s1 ?s2" by (rule g_drain [OF _ g2]) simp_all
  moreover obtain s3 where s3: "?step\<^sup>*\<^sup>* ?s2 s3" "gs_pc s3 0 = GWait" "gs_log s3 = w3" "gs_cell s3 0 = Some (CommitSuccess (lo_now ops w3))" "gs_txn s3 0 = t"
    using single_batch_succeeds [of ?s2 0 True ?x ops w1 w2 w3 "\<lambda>_ _. 1" others] assms by (auto simp: gc_initial_def after_flush_def)
  moreover have "?step s3 (gc_at 0 GDone s3)" using s3(2,4) by (intro g_return) auto
  ultimately have "?step\<^sup>*\<^sup>* ?i (gc_at 0 GDone s3)"
    by (meson converse_rtranclp_into_rtranclp rtranclp.rtrancl_into_rtrancl)
  then show ?thesis using s3(3-5) by (intro exI [of _ "gc_at 0 GDone s3"]) simp
qed

text \<open>
  C3: group commit acknowledges only what is on disk.  Whatever threads submit, flush, time out and write to the log in between, and however their
  critical sections and log calls interleave: when a call of \<^verbatim>\<open>submit_and_wait\<close> has returned success, the synced part of the log file
  holds a commit record of its transaction; no call is put in two batches; and every call without an answer is in the queue or in a batch.
\<close>

theorem group_commit_acknowledges_durable:
  assumes "(gc_step n_opt (wal_ops P) (wal_extends P))\<^sup>*\<^sup>* (gc_initial config w) s" "wal_good P w"
  shows "(gs_cell s c = Some (CommitSuccess ts) \<longrightarrow> durably_committed P (gs_log s) (gs_txn s c)) \<and>
    distinct (gs_drained s) \<and>
    (gs_cell s c = Some CommitPending \<longleftrightarrow> c \<in> set (calls (gc_pending (gs_gc s))) \<or> (\<exists>d. c \<in> set (calls (items_of (gs_pc s d)))))"
proof -
  have "gc_queue_inv s" using gc_queue_inv_steps [OF assms(1) gc_inv_initial] .
  then show ?thesis using wal_commits.acknowledged [OF assms] by (simp add: gc_queue_inv_def queued_def held_def)
qed

lemma demo_wal_good: "wal_good demo_platform (demo_wal (ee_disabled demo_cipher))"
  using demo_platform_ok demo_wal_repr by (auto simp: wal_good_def cipher_ok_def demo_wal_def ee_disabled_def ee_is_enabled_def)

lemma demo_log_accepts:
  "\<exists>w1 w2 w3. lo_append (wal_ops P) t (demo_wal (ee_disabled demo_cipher)) = (w1, Inr ()) \<and> lo_flush (wal_ops P) w1 = (w2, Inr ()) \<and>
     lo_sync (wal_ops P) w2 = (w3, Inr ())"
  by (simp add: wal_ops_def cached_timestamp_us_def wal_append_no_flush_def wal_append_def frame_for_write_def demo_wal_def ee_disabled_def ee_is_enabled_def
      to_text_def wal_flush_def wal_sync_def Let_def)

theorem group_commit_acknowledges_durable_witness:
  "\<exists>s ts. (gc_step (\<lambda>_ _. 1) (wal_ops demo_platform) (wal_extends demo_platform))\<^sup>*\<^sup>* (gc_initial gcc_default (demo_wal (ee_disabled demo_cipher))) s \<and>
     gs_pc s 0 = GDone \<and> gs_cell s 0 = Some (CommitSuccess ts) \<and> durably_committed demo_platform (gs_log s) 42"
proof -
  obtain w1 w2 w3 where "lo_append (wal_ops demo_platform) 42 (demo_wal (ee_disabled demo_cipher)) = (w1, Inr ())"
      "lo_flush (wal_ops demo_platform) w1 = (w2, Inr ())" "lo_sync (wal_ops demo_platform) w2 = (w3, Inr ())"
    using demo_log_accepts by blast
  from single_call_succeeds [OF this, of "wal_extends demo_platform"] obtain s where
    s: "(gc_step (\<lambda>_ _. 1) (wal_ops demo_platform) (wal_extends demo_platform))\<^sup>*\<^sup>* (gc_initial gcc_default (demo_wal (ee_disabled demo_cipher))) s"
      "gs_pc s 0 = GDone" "gs_cell s 0 = Some (CommitSuccess (lo_now (wal_ops demo_platform) w3))" "gs_txn s 0 = 42" by blast
  then show ?thesis using group_commit_acknowledges_durable [OF s(1) demo_wal_good, of 0] by auto
qed

subsection \<open>No call is stranded\<close>

text \<open>
  The steps of one call \<open>d\<close> that is under way, alone: nobody else moves, no background thread is announced or withdrawn, and no other
  operation writes to the log.
\<close>

definition gc_moves :: "(u64 \<Rightarrow> u64 \<Rightarrow> nat) \<Rightarrow> 'w log_ops \<Rightarrow> nat \<Rightarrow> 'w gc_state \<Rightarrow> 'w gc_state \<Rightarrow> bool" where
  "gc_moves n_opt ops d s s' \<longleftrightarrow>
     gc_step n_opt ops (\<lambda>_ _. False) s s' \<and> gs_pc s d \<noteq> GIdle \<and> gs_pc s' d \<noteq> gs_pc s d \<and> (\<forall>e. e \<noteq> d \<longrightarrow> gs_pc s' e = gs_pc s e)"

lemma gc_movesI:
  "gc_step n_opt ops (\<lambda>_ _. False) s s' \<Longrightarrow> gs_pc s' = (gs_pc s)(d := pc) \<Longrightarrow> gs_pc s d \<noteq> GIdle \<Longrightarrow> gs_pc s d \<noteq> pc \<Longrightarrow> gc_moves n_opt ops d s s'"
  by (auto simp: gc_moves_def)

lemma gc_step_others: "gc_step n_opt ops (\<lambda>_ _. False) s s' \<Longrightarrow> gc_step n_opt ops others s s'"
  by (induction rule: gc_step.induct) (blast intro: gc_step.intros)+

lemma gc_moves_frame: "(gc_moves n_opt ops d)\<^sup>*\<^sup>* s s' \<Longrightarrow> e \<noteq> d \<Longrightarrow> gs_pc s' e = gs_pc s e"
  by (induction rule: rtranclp_induct) (auto simp: gc_moves_def)

lemma gc_moves_steps: "(gc_moves n_opt ops d)\<^sup>*\<^sup>* s s' \<Longrightarrow> (gc_step n_opt ops others)\<^sup>*\<^sup>* s s'"
  by (induction rule: rtranclp_induct) (auto simp: gc_moves_def dest: gc_step_others intro: rtranclp.rtrancl_into_rtrancl)

text \<open>What stays the same while one call flushes.\<close>

definition same_gc :: "'w gc_state \<Rightarrow> 'w gc_state \<Rightarrow> bool" where
  "same_gc s s' \<longleftrightarrow> gc_config (gs_gc s') = gc_config (gs_gc s) \<and> gc_running (gs_gc s') = gc_running (gs_gc s)"

lemma same_gc_refl [simp]: "same_gc s s"
  by (simp add: same_gc_def)

lemma same_gc_trans: "same_gc a b \<Longrightarrow> same_gc b c \<Longrightarrow> same_gc a c"
  by (simp add: same_gc_def)

definition answers :: "nat set \<Rightarrow> 'w gc_state \<Rightarrow> 'w gc_state \<Rightarrow> bool" where
  "answers A s s' \<longleftrightarrow> (\<forall>a. if a \<in> A then gs_cell s' a \<noteq> Some CommitPending else gs_cell s' a = gs_cell s a)"

lemma notify_all:
  assumes "gs_pc s d = GNotify b xs r"
  shows "\<exists>s'. (gc_moves n_opt ops d)\<^sup>*\<^sup>* s s' \<and> gs_pc s' = (gs_pc s)(d := after_flush b) \<and> gs_gc s' = gs_gc s \<and> answers (set (calls xs)) s s'"
  using assms
proof (induction xs arbitrary: s)
  case Nil
  have "gc_moves n_opt ops d s (gc_at d (after_flush b) s)" by (rule gc_movesI [OF g_notified [OF Nil]]) (simp, simp_all add: Nil after_flush_def)
  then show ?case by (intro exI [of _ "gc_at d (after_flush b) s"]) (auto simp: answers_def)
next
  case (Cons x xs)
  let ?s = "gc_at d (GNotify b xs r) (s\<lparr>gs_cell := (gs_cell s)(pend_notifier x \<mapsto> notified_result r)\<rparr>)"
  have "gc_moves n_opt ops d s ?s" by (rule gc_movesI [OF g_notify [OF Cons.prems]]) (simp, simp_all add: Cons.prems)
  moreover have "gs_pc ?s d = GNotify b xs r" by simp
  from Cons.IH [OF this] obtain s' where s': "(gc_moves n_opt ops d)\<^sup>*\<^sup>* ?s s'" "gs_pc s' = (gs_pc ?s)(d := after_flush b)" "gs_gc s' = gs_gc ?s"
      "answers (set (calls xs)) ?s s'" by blast
  ultimately have "(gc_moves n_opt ops d)\<^sup>*\<^sup>* s s'" by (simp add: converse_rtranclp_into_rtranclp)
  moreover have "answers (set (calls (x # xs))) s s'"
    using s'(4) by (auto simp: answers_def notified_result_def split: sum.splits if_splits)
  ultimately show ?case using s'(2,3) by (intro exI [of _ s']) auto
qed

definition writing :: "gc_pc \<Rightarrow> bool \<Rightarrow> PendingCommitV2 list \<Rightarrow> bool" where
  "writing pc b batch \<longleftrightarrow> (\<exists>todo. pc = GAppend b batch todo) \<or> pc = GLogFlush b batch \<or> pc = GSync b batch \<or> (\<exists>r. pc = GNotify b batch r)"

text \<open>The call can finish its batch: all of it is answered, and the call goes on.\<close>

definition batch_finishes ::
    "(u64 \<Rightarrow> u64 \<Rightarrow> nat) \<Rightarrow> 'w log_ops \<Rightarrow> nat \<Rightarrow> bool \<Rightarrow> PendingCommitV2 list \<Rightarrow> 'w gc_state \<Rightarrow> bool" where
  "batch_finishes n_opt ops d b batch s \<longleftrightarrow>
     (\<exists>s'. (gc_moves n_opt ops d)\<^sup>*\<^sup>* s s' \<and> gs_pc s' = (gs_pc s)(d := after_flush b) \<and>
        gc_pending (gs_gc s') = gc_pending (gs_gc s) \<and> same_gc s s' \<and> answers (set (calls batch)) s s')"

lemma batch_finishes_step:
  assumes "gc_step n_opt ops (\<lambda>_ _. False) s s1" "batch_finishes n_opt ops d b batch s1"
    and "gs_pc s1 = (gs_pc s)(d := pc)" "gs_pc s d \<noteq> pc" "gs_pc s d \<noteq> GIdle" "gc_pending (gs_gc s1) = gc_pending (gs_gc s)" "same_gc s s1" "gs_cell s1 = gs_cell s"
  shows "batch_finishes n_opt ops d b batch s"
proof -
  obtain s' where s': "(gc_moves n_opt ops d)\<^sup>*\<^sup>* s1 s'" "gs_pc s' = (gs_pc s1)(d := after_flush b)"
      "gc_pending (gs_gc s') = gc_pending (gs_gc s1)" "same_gc s1 s'" "answers (set (calls batch)) s1 s'"
    using assms(2) by (auto simp: batch_finishes_def)
  have "gc_moves n_opt ops d s s1" by (rule gc_movesI [OF assms(1,3,5,4)])
  moreover have "(gs_pc s1)(d := after_flush b) = (gs_pc s)(d := after_flush b)" using assms(3) by simp
  ultimately show ?thesis
    unfolding batch_finishes_def using assms s' same_gc_trans [of s s1 s']
    by (intro exI [of _ s'] conjI) (auto simp: answers_def intro: converse_rtranclp_into_rtranclp)
qed

lemma finishes_notify: "\<exists>r. gs_pc s d = GNotify b batch r \<Longrightarrow> batch_finishes n_opt ops d b batch s"
  unfolding batch_finishes_def using notify_all [of s d b batch _ n_opt ops] by (metis same_gc_def)

lemma finishes_sync:
  assumes "gs_pc s d = GSync b batch"
  shows "batch_finishes n_opt ops d b batch s"
proof -
  obtain w r where "lo_sync ops (gs_log s) = (w, r)" by fastforce
  from batch_finishes_step [OF g_sync [OF assms this] finishes_notify] show ?thesis by (simp add: same_gc_def assms)
qed

lemma finishes_flush:
  assumes "gs_pc s d = GLogFlush b batch"
  shows "batch_finishes n_opt ops d b batch s"
proof -
  obtain w r where w: "lo_flush ops (gs_log s) = (w, r)" by fastforce
  show ?thesis
  proof (cases r)
    case (Inl e)
    from batch_finishes_step [OF g_log_flush_fails [OF assms w [unfolded Inl]] finishes_notify] show ?thesis by (simp add: same_gc_def assms)
  next
    case (Inr u)
    from batch_finishes_step [OF g_log_flush [OF assms w [unfolded Inr]] finishes_sync] show ?thesis by (simp add: same_gc_def assms)
  qed
qed

lemma finishes_append: "gs_pc s d = GAppend b batch todo \<Longrightarrow> batch_finishes n_opt ops d b batch s"
proof (induction todo arbitrary: s)
  case Nil
  from batch_finishes_step [OF g_appended [OF Nil] finishes_flush] show ?case by (simp add: same_gc_def Nil)
next
  case (Cons x todo)
  obtain w r where w: "lo_append ops (pend_txn_id x) (gs_log s) = (w, r)" by fastforce
  show ?case
  proof (cases r)
    case (Inl e)
    from batch_finishes_step [OF g_append_fails [OF Cons.prems w [unfolded Inl]] finishes_notify] show ?thesis by (simp add: same_gc_def Cons.prems)
  next
    case (Inr u)
    from batch_finishes_step [OF g_append [OF Cons.prems w [unfolded Inr]] Cons.IH] show ?thesis by (simp add: same_gc_def Cons.prems)
  qed
qed

lemma finish_batch:
  assumes "writing (gs_pc s d) b batch"
  shows "\<exists>s'. (gc_moves n_opt ops d)\<^sup>*\<^sup>* s s' \<and> gs_pc s' = (gs_pc s)(d := after_flush b) \<and>
    gc_pending (gs_gc s') = gc_pending (gs_gc s) \<and> same_gc s s' \<and> answers (set (calls batch)) s s'"
proof -
  have "batch_finishes n_opt ops d b batch s"
    using assms unfolding writing_def by (blast intro: finishes_append finishes_flush finishes_sync finishes_notify)
  then show ?thesis by (simp add: batch_finishes_def)
qed

definition batches_ok :: "'w gc_state \<Rightarrow> bool" where
  "batches_ok s \<longleftrightarrow> 1 \<le> gcc_min_batch_size (gc_config (gs_gc s)) \<and> 1 \<le> gcc_max_batch_size (gc_config (gs_gc s))"

lemma drain_some:
  assumes "batches_ok s" "gc_pending (gs_gc s) \<noteq> []" "gc_drain n_opt (gs_gc s) = (g, batch)"
  shows "batch \<noteq> []"
  using assms by (auto simp: batches_ok_def gc_drain_def optimal_batch_size_def Let_def min_def max_def split: if_splits)

lemma flush_once:
  assumes "gs_pc s c = GFlush b" "batches_ok s" "gc_pending (gs_gc s) \<noteq> []"
  shows "\<exists>s' batch. (gc_moves n_opt ops c)\<^sup>*\<^sup>* s s' \<and> gs_pc s' = (gs_pc s)(c := after_flush b) \<and> batch \<noteq> [] \<and>
    gc_pending (gs_gc s) = batch @ gc_pending (gs_gc s') \<and> same_gc s s' \<and> answers (set (calls batch)) s s'"
proof -
  obtain g batch where g: "gc_drain n_opt (gs_gc s) = (g, batch)" by fastforce
  have ne: "batch \<noteq> []" using drain_some [OF assms(2,3) g] .
  let ?s1 = "gc_at c (GAppend b batch batch) (s\<lparr>gs_gc := g, gs_drained := gs_drained s @ map pend_notifier batch\<rparr>)"
  have step: "gc_moves n_opt ops c s ?s1" by (rule gc_movesI [OF g_drain [OF assms(1) g ne]]) (simp, simp_all add: assms(1))
  have "writing (gs_pc ?s1 c) b batch" by (simp add: writing_def)
  from finish_batch [OF this, of n_opt ops] obtain s' where s': "(gc_moves n_opt ops c)\<^sup>*\<^sup>* ?s1 s'" "gs_pc s' = (gs_pc ?s1)(c := after_flush b)"
      "gc_pending (gs_gc s') = gc_pending (gs_gc ?s1)" "same_gc ?s1 s'" "answers (set (calls batch)) ?s1 s'" by blast
  have "(gc_moves n_opt ops c)\<^sup>*\<^sup>* s s'" using step s'(1) by (rule converse_rtranclp_into_rtranclp)
  moreover have "answers (set (calls batch)) s s'" using s'(5) by (simp add: answers_def)
  ultimately show ?thesis using ne s'(2-4) gc_drain_pending [OF g] by (intro exI [of _ s'] exI [of _ batch]) (auto simp: same_gc_def)
qed

text \<open>A waiting call that flushes when it times out comes to its own commit.\<close>

lemma queued_answered:
  assumes "gs_pc s c = GWait" "gs_cell s c = Some CommitPending" "\<not> gc_is_running (gs_gc s)" "batches_ok s" "c \<in> set (queued s)"
  shows "\<exists>s'. (gc_moves n_opt ops c)\<^sup>*\<^sup>* s s' \<and> gs_pc s' c = GWait \<and> gs_cell s' c \<noteq> Some CommitPending"
  using assms
proof (induction "length (queued s)" arbitrary: s rule: less_induct)
  case less
  let ?s1 = "gc_at c (GFlush True) s"
  have step: "gc_moves n_opt ops c s ?s1" by (rule gc_movesI [OF g_timeout [OF less.prems(1-3)]]) (simp, simp_all add: less.prems(1))
  have "gc_pending (gs_gc ?s1) \<noteq> []" using less.prems(5) by (auto simp: queued_def)
  then obtain s2 batch where s2: "(gc_moves n_opt ops c)\<^sup>*\<^sup>* ?s1 s2" "gs_pc s2 = (gs_pc ?s1)(c := after_flush True)" "batch \<noteq> []"
      "gc_pending (gs_gc ?s1) = batch @ gc_pending (gs_gc s2)" "same_gc ?s1 s2" "answers (set (calls batch)) ?s1 s2"
    using flush_once [of ?s1 c True n_opt ops] less.prems(4) by (auto simp: batches_ok_def)
  have run: "(gc_moves n_opt ops c)\<^sup>*\<^sup>* s s2" using step s2(1) by (rule converse_rtranclp_into_rtranclp)
  have wait: "gs_pc s2 c = GWait" using s2(2) by (simp add: after_flush_def)
  have q: "queued s = calls batch @ queued s2" using s2(4) by (simp add: queued_def)
  show ?case
  proof (cases "gs_cell s2 c = Some CommitPending")
    case False
    then show ?thesis using run wait by blast
  next
    case True
    then have "c \<notin> set (calls batch)" using s2(6) by (auto simp: answers_def)
    then have "c \<in> set (queued s2)" using less.prems(5) q by simp
    moreover have "length (queued s2) < length (queued s)" using q s2(3) by (simp add: calls_def)
    moreover have "\<not> gc_is_running (gs_gc s2)" "batches_ok s2" using less.prems(3,4) s2(5) by (simp_all add: same_gc_def gc_is_running_def batches_ok_def)
    ultimately obtain s3 where "(gc_moves n_opt ops c)\<^sup>*\<^sup>* s2 s3" "gs_pc s3 c = GWait" "gs_cell s3 c \<noteq> Some CommitPending"
      using less.hyps [OF _ wait True] by blast
    then show ?thesis using run by (meson rtranclp_trans)
  qed
qed

lemma settle:
  assumes "is_submit (gs_pc s c)" "gs_pc s c \<noteq> GDone" "batches_ok s"
  shows "\<exists>s'. (gc_moves n_opt ops c)\<^sup>*\<^sup>* s s' \<and> gs_pc s' c = GWait \<and> same_gc s s'"
proof (cases "gs_pc s c = GWait")
  case True
  then show ?thesis by (intro exI [of _ s]) simp
next
  case nw: False
  show ?thesis
  proof (cases "gs_pc s c = GFlush True")
    case True
    show ?thesis
    proof (cases "gc_pending (gs_gc s) = []")
      case empty: True
      then have "gc_drain n_opt (gs_gc s) = (gs_gc s, [])" by (simp add: gc_drain_def)
      then have "gc_moves n_opt ops c s (gc_at c (after_flush True) (s\<lparr>gs_gc := gs_gc s\<rparr>))"
        by (intro gc_movesI [OF g_drain_none [OF True]]) (assumption, simp, simp_all add: True after_flush_def)
      then show ?thesis
        by (intro exI [of _ "gc_at c (after_flush True) (s\<lparr>gs_gc := gs_gc s\<rparr>)"]) (auto simp: after_flush_def same_gc_def)
    next
      case False
      from flush_once [OF True assms(3) False, of n_opt ops] show ?thesis by (auto simp: after_flush_def)
    qed
  next
    case False
    then have "\<exists>batch. writing (gs_pc s c) True batch" using assms(1,2) nw by (cases "gs_pc s c") (auto simp: writing_def)
    then obtain batch where "writing (gs_pc s c) True batch" by blast
    from finish_batch [OF this, of n_opt ops] show ?thesis by (auto simp: after_flush_def)
  qed
qed

lemma items_writing: "items_of pc \<noteq> [] \<Longrightarrow> \<exists>b. writing pc b (items_of pc)"
  by (cases pc) (auto simp: writing_def)

lemma gc_config_step: "gc_step n_opt ops others s s' \<Longrightarrow> gc_config (gs_gc s') = gc_config (gs_gc s)"
  by (induction rule: gc_step.induct) (auto dest: gc_enqueue_pending gc_drain_pending simp: gc_start_def gc_stop_def split: if_splits)

lemma gc_config_steps: "(gc_step n_opt ops others)\<^sup>*\<^sup>* s s' \<Longrightarrow> gc_config (gs_gc s') = gc_config (gs_gc s)"
  by (induction rule: rtranclp_induct) (auto dest: gc_config_step)

text \<open>A call that has returned has its answer.\<close>

lemma done_answered_step:
  "gc_step n_opt ops others s s' \<Longrightarrow> \<forall>c. gs_pc s c = GDone \<longrightarrow> gs_cell s c \<noteq> Some CommitPending \<Longrightarrow>
   \<forall>c. gs_pc s' c = GDone \<longrightarrow> gs_cell s' c \<noteq> Some CommitPending"
  by (induction rule: gc_step.induct) (auto simp: after_flush_def notified_result_def split: if_splits sum.splits)

lemma done_answered:
  "(gc_step n_opt ops others)\<^sup>*\<^sup>* (gc_initial config w) s \<Longrightarrow> \<forall>c. gs_pc s c = GDone \<longrightarrow> gs_cell s c \<noteq> Some CommitPending"
proof (induction rule: rtranclp_induct)
  case base
  then show ?case by (simp add: gc_initial_def)
next
  case (step y z)
  then show ?case using done_answered_step by blast
qed

text \<open>With a background thread announced, a waiting call has no step of its own: it relies on that thread.\<close>

lemma announced_call_waits:
  assumes "gc_is_running (gs_gc s)" "gs_pc s c = GWait" "gs_cell s c = Some CommitPending"
  shows "\<not> gc_moves n_opt ops c s s'"
proof
  assume "gc_moves n_opt ops c s s'"
  then have step: "gc_step n_opt ops (\<lambda>_ _. False) s s'" and moved: "gs_pc s' c \<noteq> GWait" using assms(2) by (auto simp: gc_moves_def)
  from step show False by cases (use moved assms in \<open>auto split: if_splits\<close>)
qed

text \<open>
  C13: no commit is stranded.  While no background thread has been announced and the configured batch sizes are at least one, every call of
  \<^verbatim>\<open>submit_and_wait\<close> that has no answer yet can still return with one, in every reachable state, by its own steps (\<open>gc_moves\<close>: timing out, draining the
  queue, writing and notifying) and those of the call that is already writing its batch, if there is one: nobody else has to move, whatever the log
  answers.  Once a thread is announced this fails (\<open>announced_call_waits\<close>).
\<close>

theorem waiting_commit_can_return:
  assumes "(gc_step n_opt ops others)\<^sup>*\<^sup>* (gc_initial config w) s" "1 \<le> gcc_min_batch_size config" "1 \<le> gcc_max_batch_size config"
    and "\<not> gc_is_running (gs_gc s)" "gs_cell s c = Some CommitPending"
  shows "\<exists>d s'. (d = c \<or> c \<in> set (calls (items_of (gs_pc s d)))) \<and>
    (\<lambda>x y. gc_moves n_opt ops c x y \<or> gc_moves n_opt ops d x y)\<^sup>*\<^sup>* s s' \<and> gs_pc s' c = GDone \<and> gs_cell s' c \<noteq> Some CommitPending"
proof -
  have inv: "gc_queue_inv s" using gc_queue_inv_steps [OF assms(1) gc_inv_initial] .
  have ok: "batches_ok s" using gc_config_steps [OF assms(1)] assms(2,3) by (simp add: batches_ok_def gc_initial_def gc_with_config_def)
  have "is_submit (gs_pc s c)" "gs_pc s c \<noteq> GDone" using inv assms(5) done_answered [OF assms(1)] by (auto simp: gc_queue_inv_def)
  from settle [OF this ok] obtain s1 where s1: "(gc_moves n_opt ops c)\<^sup>*\<^sup>* s s1" "gs_pc s1 c = GWait" "same_gc s s1" by blast
  have "\<exists>d s2. (d = c \<or> c \<in> set (held s d)) \<and> (gc_moves n_opt ops d)\<^sup>*\<^sup>* s1 s2 \<and> gs_pc s2 c = GWait \<and> gs_cell s2 c \<noteq> Some CommitPending"
  proof (cases "gs_cell s1 c = Some CommitPending")
    case False
    then show ?thesis using s1(2) by blast
  next
    case True
    have inv1: "gc_queue_inv s1" using gc_queue_inv_steps [OF gc_moves_steps [OF s1(1)] inv] .
    have "\<not> gc_is_running (gs_gc s1)" "batches_ok s1" using assms(4) ok s1(3) by (simp_all add: same_gc_def gc_is_running_def batches_ok_def)
    note queued = queued_answered [OF s1(2) True this]
    from True gc_inv_cell [OF inv1] consider "c \<in> set (queued s1)" | d where "c \<in> set (held s1 d)" by blast
    then show ?thesis
    proof cases
      case 1
      then show ?thesis using queued by blast
    next
      case 2
      then have "items_of (gs_pc s1 d) \<noteq> []" and "d \<noteq> c" using s1(2) by (auto simp: held_def)
      then obtain b where "writing (gs_pc s1 d) b (items_of (gs_pc s1 d))" using items_writing by blast
      from finish_batch [OF this, of n_opt ops] obtain s2 where s2: "(gc_moves n_opt ops d)\<^sup>*\<^sup>* s1 s2"
          "gs_pc s2 = (gs_pc s1)(d := after_flush b)" "answers (set (calls (items_of (gs_pc s1 d)))) s1 s2" by blast
      have "c \<in> set (held s d)" using 2 gc_moves_frame [OF s1(1) \<open>d \<noteq> c\<close>] by (simp add: held_def)
      then show ?thesis using s2 2 \<open>d \<noteq> c\<close> s1(2) by (auto simp: answers_def held_def intro!: exI [of _ d] exI [of _ s2])
    qed
  qed
  then obtain d s2 where s2: "d = c \<or> c \<in> set (held s d)" "(gc_moves n_opt ops d)\<^sup>*\<^sup>* s1 s2" "gs_pc s2 c = GWait" "gs_cell s2 c \<noteq> Some CommitPending" by blast
  let ?moves = "\<lambda>x y. gc_moves n_opt ops c x y \<or> gc_moves n_opt ops d x y"
  have last: "?moves s2 (gc_at c GDone s2)" by (rule disjI1, rule gc_movesI [OF g_return [OF s2(3,4)]]) (simp, simp_all add: s2(3))
  have "?moves\<^sup>*\<^sup>* s s1" using s1(1) by (rule rtranclp_mono [THEN predicate2D, rotated]) auto
  also have "?moves\<^sup>*\<^sup>* s1 s2" using s2(2) by (rule rtranclp_mono [THEN predicate2D, rotated]) auto
  finally have "?moves\<^sup>*\<^sup>* s (gc_at c GDone s2)" using last by (rule rtranclp.rtrancl_into_rtrancl)
  then show ?thesis using s2(1,4) by (intro exI [of _ d] exI [of _ "gc_at c GDone s2"]) (simp add: held_def)
qed

theorem waiting_commit_can_return_witness:
  "\<exists>s s'. (gc_step (\<lambda>_ _. 5) (wal_ops demo_platform) (wal_extends demo_platform))\<^sup>*\<^sup>* (gc_initial gcc_default (demo_wal (ee_disabled demo_cipher))) s \<and>
     gs_pc s 0 = GWait \<and> gs_cell s 0 = Some CommitPending \<and>
     (gc_moves (\<lambda>_ _. 5) (wal_ops demo_platform) 0)\<^sup>*\<^sup>* s s' \<and> gs_pc s' 0 = GDone \<and> gs_cell s' 0 \<noteq> Some CommitPending"
proof -
  let ?step = "gc_step (\<lambda>_ _. 5) (wal_ops demo_platform) (wal_extends demo_platform)" and ?i = "gc_initial gcc_default (demo_wal (ee_disabled demo_cipher))"
  let ?move = "gc_moves (\<lambda>_ _. 5) (wal_ops demo_platform)"
  let ?x = "\<lparr>pend_txn_id = 42, pend_notifier = 0\<rparr>"
  obtain g full where g: "gc_enqueue (\<lambda>_ _. 5) 0 ?x (gs_gc ?i) = (g, full)" by fastforce
  then have g_facts: "\<not> full" "\<not> gc_is_running g"
    by (auto simp: gc_enqueue_def gc_update_arrival_rate_def optimal_batch_size_def Let_def gc_initial_def gc_with_config_def gcc_default_def gc_is_running_def)
  let ?s = "gc_at 0 GWait (?i\<lparr>gs_gc := g, gs_cell := (gs_cell ?i)(0 \<mapsto> CommitPending), gs_txn := (gs_txn ?i)(0 := 42)\<rparr>)"
  have "?step ?i ?s" using g_submit [OF _ g, of "wal_ops demo_platform" "wal_extends demo_platform"] g_facts by (simp add: gc_initial_def)
  then have r: "?step\<^sup>*\<^sup>* ?i ?s" by simp
  have "\<exists>d s'. (d = 0 \<or> 0 \<in> set (calls (items_of (gs_pc ?s d)))) \<and> (\<lambda>x y. ?move 0 x y \<or> ?move d x y)\<^sup>*\<^sup>* ?s s' \<and>
      gs_pc s' 0 = GDone \<and> gs_cell s' 0 \<noteq> Some CommitPending"
    by (rule waiting_commit_can_return [OF r]) (use g_facts in \<open>simp_all add: gcc_default_def\<close>)
  moreover have "calls (items_of (gs_pc ?s d)) = []" for d by (simp add: gc_initial_def)
  ultimately obtain s' where "(?move 0)\<^sup>*\<^sup>* ?s s'" "gs_pc s' 0 = GDone" "gs_cell s' 0 \<noteq> Some CommitPending" by auto
  then show ?thesis using r by (intro exI [of _ ?s] exI [of _ s'] conjI) simp_all
qed

text \<open>The smoothed arrival rate stays within the thousandfold of a million per second, so none of its products overflows.\<close>

lemma ema_bounded:
  fixes a x y m :: u64
  assumes "a \<le> 1000" "x \<le> m" "y \<le> m" "m \<le> 1000000000000000"
  shows "(x * (1000 - a) + y * a) div 1000 \<le> m" "unat (x * (1000 - a) + y * a) = unat x * (1000 - unat a) + unat y * unat a"
proof -
  have a: "unat a \<le> 1000" "unat (1000 - a) = 1000 - unat a" using assms(1) by (auto simp: word_le_nat_alt unat_sub)
  have b: "unat x \<le> unat m" "unat y \<le> unat m" "unat m \<le> 1000000000000000" using assms(2-4) by (simp_all add: word_le_nat_alt)
  have "unat x * (1000 - unat a) + unat y * unat a \<le> unat m * (1000 - unat a) + unat m * unat a" using b by (intro add_mono mult_right_mono) auto
  also have "\<dots> = unat m * 1000" using a(1) by (simp flip: distrib_left)
  finally have sum: "unat x * (1000 - unat a) + unat y * unat a \<le> unat m * 1000" .
  then have small: "unat x * (1000 - unat a) + unat y * unat a < 18446744073709551616" using b(3) by simp
  show eq: "unat (x * (1000 - a) + y * a) = unat x * (1000 - unat a) + unat y * unat a"
    using small by (simp add: unat_word_ariths a(2) mod_simps)
  show "(x * (1000 - a) + y * a) div 1000 \<le> m" using sum by (simp add: word_le_nat_alt unat_div eq)
qed

lemma arrival_rate_bounded:
  assumes "gcc_ema_alpha (gc_config g) \<le> 1000" "gcm_arrival_rate_ema (gc_metrics g) \<le> 1000000000"
  shows "gcm_arrival_rate_ema (gc_metrics (gc_update_arrival_rate now g)) \<le> 1000000000"
proof -
  have "(1000000000 :: u64) div d \<le> 1000000000" for d by (simp add: word_le_nat_alt unat_div)
  then show ?thesis using assms ema_bounded(1) [of "gcc_ema_alpha (gc_config g)" _ 1000000000]
    by (simp add: gc_update_arrival_rate_def Let_def)
qed

end
