(* ===== verification/Sql_Token.thy ===== *)
theory Sql_Token
  imports Prelude
begin

text \<open>
  \<^verbatim>\<open>sochdb-query/src/sql/token.rs\<close>: tokens and keywords.  A \<^verbatim>\<open>&str\<close> is the list of its UTF-8 bytes as
  characters, a 64-bit float its bit pattern, an \<^verbatim>\<open>i64\<close> an integer.  The variants of \<^verbatim>\<open>TokenKind\<close> without a
  payload are grouped as the comments of the enumeration group them; \<open>TSelect\<close> stands for
  \<^verbatim>\<open>TokenKind::Select\<close>.
\<close>

record Span =
  sp_start :: nat
  sp_end :: nat
  sp_line :: nat
  sp_column :: nat

definition span_new :: "nat \<Rightarrow> nat \<Rightarrow> nat \<Rightarrow> nat \<Rightarrow> Span" where
  "span_new s e line column = \<lparr>sp_start = s, sp_end = e, sp_line = line, sp_column = column\<rparr>"

definition span_merge :: "Span \<Rightarrow> Span \<Rightarrow> Span" where
  "span_merge a b =
     \<lparr>sp_start = min (sp_start a) (sp_start b), sp_end = max (sp_end a) (sp_end b), sp_line = sp_line a, sp_column = sp_column a\<rparr>"

definition span_default :: Span where
  "span_default = \<lparr>sp_start = 0, sp_end = 0, sp_line = 1, sp_column = 1\<rparr>"

subsection \<open>Token kinds\<close>

datatype DdlKeyword =
    KCreate | KTable | KIndex | KDrop | KAlter | KAdd | KColumn | KRename | KTo | KCascade | KPrimary | KKey |
  KForeign | KReferences | KUnique | KDefault | KAutoIncrement | KIf | KExists

datatype UpsertKeyword =
    KIgnore | KReplace | KConflict | KDo | KNothing | KDuplicate | KAbort | KFail | KReturning

datatype DmlKeyword =
    KSelect | KInsert | KUpdate | KDelete | KInto | KValues | KSet | KFrom | KWhere | KJoin | KInner | KLeft |
  KRight | KOuter | KCross | KOn | KUsing

datatype ClauseKeyword =
    KAs | KDistinct | KAll | KGroup | KHaving | KOrder | KBy | KAsc | KDesc | KNulls | KFirst | KLast | KLimit
  | KOffset | KUnion | KIntersect | KExcept

datatype ExprKeyword =
    KAnd | KOr | KNot | KIs | KIn | KLike | KEscape | KBetween | KCase | KWhen | KThen | KElse | KEnd | KCast
  | KCollate

datatype TxnKeyword =
    KBegin | KCommit | KRollback | KTransaction | KSavepoint | KRelease

datatype TypeKeyword =
    KInt | KIntegerKw | KBigint | KSmallint | KTinyint | KFloatKw | KDouble | KReal | KDecimal | KNumeric |
  KVarchar | KChar | KText | KBlobKw | KBoolean | KBool | KDate | KTime | KTimestamp | KDatetime

datatype AggKeyword =
    KCount | KSum | KAvg | KMin | KMax

datatype ExtKeyword =
    KVector | KVectorSearch | KJsonExtract | KJsonSet | KContextWindow | KEmbedding | KCosine | KEuclidean |
  KDotProduct

datatype GraphKeyword =
    KRelate | KLive | KContent | KEvent | KDiff

datatype SecKeyword =
    KDefine | KScope | KRemove | KSession | KSignin | KSignup | KPermissions | KFor

datatype Operator =
    KPlus | KMinus | KStar | KSlash | KPercent | KEq | KNe | KLt | KLe | KGt | KGe | KConcat | KBitAnd |
  KBitOr | KBitNot | KLeftShift | KRightShift

datatype Punctuation =
    KLParen | KRParen | KLBracket | KRBracket | KComma | KSemicolon | KDot | KColon | KDoubleColon | KArrow |
  KDoubleArrow | KLeftArrow | KBiArrow | KQuestionMark | KAt

datatype TokenKind =
    TInteger int
  | TFloat u64
  | TString string
  | TBlob bytes
  | TNull
  | TTrue
  | TFalse
  | TIdentifier string
  | TQuotedIdentifier string
  | Ddl DdlKeyword
  | Upsert UpsertKeyword
  | Dml DmlKeyword
  | Clause ClauseKeyword
  | ExprKw ExprKeyword
  | TxnKw TxnKeyword
  | TypeKw TypeKeyword
  | AggKw AggKeyword
  | ExtKw ExtKeyword
  | GraphKw GraphKeyword
  | SecKw SecKeyword
  | Op Operator
  | Punct Punctuation
  | TPlaceholder u32
  | TComment string
  | TWhitespace
  | TEof
  | TInvalid string

abbreviation TCreate :: TokenKind where "TCreate \<equiv> Ddl KCreate"
abbreviation TTable :: TokenKind where "TTable \<equiv> Ddl KTable"
abbreviation TIndex :: TokenKind where "TIndex \<equiv> Ddl KIndex"
abbreviation TDrop :: TokenKind where "TDrop \<equiv> Ddl KDrop"
abbreviation TAlter :: TokenKind where "TAlter \<equiv> Ddl KAlter"
abbreviation TAdd :: TokenKind where "TAdd \<equiv> Ddl KAdd"
abbreviation TColumn :: TokenKind where "TColumn \<equiv> Ddl KColumn"
abbreviation TRename :: TokenKind where "TRename \<equiv> Ddl KRename"
abbreviation TTo :: TokenKind where "TTo \<equiv> Ddl KTo"
abbreviation TCascade :: TokenKind where "TCascade \<equiv> Ddl KCascade"
abbreviation TPrimary :: TokenKind where "TPrimary \<equiv> Ddl KPrimary"
abbreviation TKey :: TokenKind where "TKey \<equiv> Ddl KKey"
abbreviation TForeign :: TokenKind where "TForeign \<equiv> Ddl KForeign"
abbreviation TReferences :: TokenKind where "TReferences \<equiv> Ddl KReferences"
abbreviation TUnique :: TokenKind where "TUnique \<equiv> Ddl KUnique"
abbreviation TDefault :: TokenKind where "TDefault \<equiv> Ddl KDefault"
abbreviation TAutoIncrement :: TokenKind where "TAutoIncrement \<equiv> Ddl KAutoIncrement"
abbreviation TIf :: TokenKind where "TIf \<equiv> Ddl KIf"
abbreviation TExists :: TokenKind where "TExists \<equiv> Ddl KExists"
abbreviation TIgnore :: TokenKind where "TIgnore \<equiv> Upsert KIgnore"
abbreviation TReplace :: TokenKind where "TReplace \<equiv> Upsert KReplace"
abbreviation TConflict :: TokenKind where "TConflict \<equiv> Upsert KConflict"
abbreviation TDo :: TokenKind where "TDo \<equiv> Upsert KDo"
abbreviation TNothing :: TokenKind where "TNothing \<equiv> Upsert KNothing"
abbreviation TDuplicate :: TokenKind where "TDuplicate \<equiv> Upsert KDuplicate"
abbreviation TAbort :: TokenKind where "TAbort \<equiv> Upsert KAbort"
abbreviation TFail :: TokenKind where "TFail \<equiv> Upsert KFail"
abbreviation TReturning :: TokenKind where "TReturning \<equiv> Upsert KReturning"
abbreviation TSelect :: TokenKind where "TSelect \<equiv> Dml KSelect"
abbreviation TInsert :: TokenKind where "TInsert \<equiv> Dml KInsert"
abbreviation TUpdate :: TokenKind where "TUpdate \<equiv> Dml KUpdate"
abbreviation TDelete :: TokenKind where "TDelete \<equiv> Dml KDelete"
abbreviation TInto :: TokenKind where "TInto \<equiv> Dml KInto"
abbreviation TValues :: TokenKind where "TValues \<equiv> Dml KValues"
abbreviation TSet :: TokenKind where "TSet \<equiv> Dml KSet"
abbreviation TFrom :: TokenKind where "TFrom \<equiv> Dml KFrom"
abbreviation TWhere :: TokenKind where "TWhere \<equiv> Dml KWhere"
abbreviation TJoin :: TokenKind where "TJoin \<equiv> Dml KJoin"
abbreviation TInner :: TokenKind where "TInner \<equiv> Dml KInner"
abbreviation TLeft :: TokenKind where "TLeft \<equiv> Dml KLeft"
abbreviation TRight :: TokenKind where "TRight \<equiv> Dml KRight"
abbreviation TOuter :: TokenKind where "TOuter \<equiv> Dml KOuter"
abbreviation TCross :: TokenKind where "TCross \<equiv> Dml KCross"
abbreviation TOn :: TokenKind where "TOn \<equiv> Dml KOn"
abbreviation TUsing :: TokenKind where "TUsing \<equiv> Dml KUsing"
abbreviation TAs :: TokenKind where "TAs \<equiv> Clause KAs"
abbreviation TDistinct :: TokenKind where "TDistinct \<equiv> Clause KDistinct"
abbreviation TAll :: TokenKind where "TAll \<equiv> Clause KAll"
abbreviation TGroup :: TokenKind where "TGroup \<equiv> Clause KGroup"
abbreviation THaving :: TokenKind where "THaving \<equiv> Clause KHaving"
abbreviation TOrder :: TokenKind where "TOrder \<equiv> Clause KOrder"
abbreviation TBy :: TokenKind where "TBy \<equiv> Clause KBy"
abbreviation TAsc :: TokenKind where "TAsc \<equiv> Clause KAsc"
abbreviation TDesc :: TokenKind where "TDesc \<equiv> Clause KDesc"
abbreviation TNulls :: TokenKind where "TNulls \<equiv> Clause KNulls"
abbreviation TFirst :: TokenKind where "TFirst \<equiv> Clause KFirst"
abbreviation TLast :: TokenKind where "TLast \<equiv> Clause KLast"
abbreviation TLimit :: TokenKind where "TLimit \<equiv> Clause KLimit"
abbreviation TOffset :: TokenKind where "TOffset \<equiv> Clause KOffset"
abbreviation TUnion :: TokenKind where "TUnion \<equiv> Clause KUnion"
abbreviation TIntersect :: TokenKind where "TIntersect \<equiv> Clause KIntersect"
abbreviation TExcept :: TokenKind where "TExcept \<equiv> Clause KExcept"
abbreviation TAnd :: TokenKind where "TAnd \<equiv> ExprKw KAnd"
abbreviation TOr :: TokenKind where "TOr \<equiv> ExprKw KOr"
abbreviation TNot :: TokenKind where "TNot \<equiv> ExprKw KNot"
abbreviation TIs :: TokenKind where "TIs \<equiv> ExprKw KIs"
abbreviation TIn :: TokenKind where "TIn \<equiv> ExprKw KIn"
abbreviation TLike :: TokenKind where "TLike \<equiv> ExprKw KLike"
abbreviation TEscape :: TokenKind where "TEscape \<equiv> ExprKw KEscape"
abbreviation TBetween :: TokenKind where "TBetween \<equiv> ExprKw KBetween"
abbreviation TCase :: TokenKind where "TCase \<equiv> ExprKw KCase"
abbreviation TWhen :: TokenKind where "TWhen \<equiv> ExprKw KWhen"
abbreviation TThen :: TokenKind where "TThen \<equiv> ExprKw KThen"
abbreviation TElse :: TokenKind where "TElse \<equiv> ExprKw KElse"
abbreviation TEnd :: TokenKind where "TEnd \<equiv> ExprKw KEnd"
abbreviation TCast :: TokenKind where "TCast \<equiv> ExprKw KCast"
abbreviation TCollate :: TokenKind where "TCollate \<equiv> ExprKw KCollate"
abbreviation TBegin :: TokenKind where "TBegin \<equiv> TxnKw KBegin"
abbreviation TCommit :: TokenKind where "TCommit \<equiv> TxnKw KCommit"
abbreviation TRollback :: TokenKind where "TRollback \<equiv> TxnKw KRollback"
abbreviation TTransaction :: TokenKind where "TTransaction \<equiv> TxnKw KTransaction"
abbreviation TSavepoint :: TokenKind where "TSavepoint \<equiv> TxnKw KSavepoint"
abbreviation TRelease :: TokenKind where "TRelease \<equiv> TxnKw KRelease"
abbreviation TInt :: TokenKind where "TInt \<equiv> TypeKw KInt"
abbreviation TIntegerKw :: TokenKind where "TIntegerKw \<equiv> TypeKw KIntegerKw"
abbreviation TBigint :: TokenKind where "TBigint \<equiv> TypeKw KBigint"
abbreviation TSmallint :: TokenKind where "TSmallint \<equiv> TypeKw KSmallint"
abbreviation TTinyint :: TokenKind where "TTinyint \<equiv> TypeKw KTinyint"
abbreviation TFloatKw :: TokenKind where "TFloatKw \<equiv> TypeKw KFloatKw"
abbreviation TDouble :: TokenKind where "TDouble \<equiv> TypeKw KDouble"
abbreviation TReal :: TokenKind where "TReal \<equiv> TypeKw KReal"
abbreviation TDecimal :: TokenKind where "TDecimal \<equiv> TypeKw KDecimal"
abbreviation TNumeric :: TokenKind where "TNumeric \<equiv> TypeKw KNumeric"
abbreviation TVarchar :: TokenKind where "TVarchar \<equiv> TypeKw KVarchar"
abbreviation TChar :: TokenKind where "TChar \<equiv> TypeKw KChar"
abbreviation TText :: TokenKind where "TText \<equiv> TypeKw KText"
abbreviation TBlobKw :: TokenKind where "TBlobKw \<equiv> TypeKw KBlobKw"
abbreviation TBoolean :: TokenKind where "TBoolean \<equiv> TypeKw KBoolean"
abbreviation TBool :: TokenKind where "TBool \<equiv> TypeKw KBool"
abbreviation TDate :: TokenKind where "TDate \<equiv> TypeKw KDate"
abbreviation TTime :: TokenKind where "TTime \<equiv> TypeKw KTime"
abbreviation TTimestamp :: TokenKind where "TTimestamp \<equiv> TypeKw KTimestamp"
abbreviation TDatetime :: TokenKind where "TDatetime \<equiv> TypeKw KDatetime"
abbreviation TCount :: TokenKind where "TCount \<equiv> AggKw KCount"
abbreviation TSum :: TokenKind where "TSum \<equiv> AggKw KSum"
abbreviation TAvg :: TokenKind where "TAvg \<equiv> AggKw KAvg"
abbreviation TMin :: TokenKind where "TMin \<equiv> AggKw KMin"
abbreviation TMax :: TokenKind where "TMax \<equiv> AggKw KMax"
abbreviation TVector :: TokenKind where "TVector \<equiv> ExtKw KVector"
abbreviation TVectorSearch :: TokenKind where "TVectorSearch \<equiv> ExtKw KVectorSearch"
abbreviation TJsonExtract :: TokenKind where "TJsonExtract \<equiv> ExtKw KJsonExtract"
abbreviation TJsonSet :: TokenKind where "TJsonSet \<equiv> ExtKw KJsonSet"
abbreviation TContextWindow :: TokenKind where "TContextWindow \<equiv> ExtKw KContextWindow"
abbreviation TEmbedding :: TokenKind where "TEmbedding \<equiv> ExtKw KEmbedding"
abbreviation TCosine :: TokenKind where "TCosine \<equiv> ExtKw KCosine"
abbreviation TEuclidean :: TokenKind where "TEuclidean \<equiv> ExtKw KEuclidean"
abbreviation TDotProduct :: TokenKind where "TDotProduct \<equiv> ExtKw KDotProduct"
abbreviation TRelate :: TokenKind where "TRelate \<equiv> GraphKw KRelate"
abbreviation TLive :: TokenKind where "TLive \<equiv> GraphKw KLive"
abbreviation TContent :: TokenKind where "TContent \<equiv> GraphKw KContent"
abbreviation TEvent :: TokenKind where "TEvent \<equiv> GraphKw KEvent"
abbreviation TDiff :: TokenKind where "TDiff \<equiv> GraphKw KDiff"
abbreviation TDefine :: TokenKind where "TDefine \<equiv> SecKw KDefine"
abbreviation TScope :: TokenKind where "TScope \<equiv> SecKw KScope"
abbreviation TRemove :: TokenKind where "TRemove \<equiv> SecKw KRemove"
abbreviation TSession :: TokenKind where "TSession \<equiv> SecKw KSession"
abbreviation TSignin :: TokenKind where "TSignin \<equiv> SecKw KSignin"
abbreviation TSignup :: TokenKind where "TSignup \<equiv> SecKw KSignup"
abbreviation TPermissions :: TokenKind where "TPermissions \<equiv> SecKw KPermissions"
abbreviation TFor :: TokenKind where "TFor \<equiv> SecKw KFor"
abbreviation TPlus :: TokenKind where "TPlus \<equiv> Op KPlus"
abbreviation TMinus :: TokenKind where "TMinus \<equiv> Op KMinus"
abbreviation TStar :: TokenKind where "TStar \<equiv> Op KStar"
abbreviation TSlash :: TokenKind where "TSlash \<equiv> Op KSlash"
abbreviation TPercent :: TokenKind where "TPercent \<equiv> Op KPercent"
abbreviation TEq :: TokenKind where "TEq \<equiv> Op KEq"
abbreviation TNe :: TokenKind where "TNe \<equiv> Op KNe"
abbreviation TLt :: TokenKind where "TLt \<equiv> Op KLt"
abbreviation TLe :: TokenKind where "TLe \<equiv> Op KLe"
abbreviation TGt :: TokenKind where "TGt \<equiv> Op KGt"
abbreviation TGe :: TokenKind where "TGe \<equiv> Op KGe"
abbreviation TConcat :: TokenKind where "TConcat \<equiv> Op KConcat"
abbreviation TBitAnd :: TokenKind where "TBitAnd \<equiv> Op KBitAnd"
abbreviation TBitOr :: TokenKind where "TBitOr \<equiv> Op KBitOr"
abbreviation TBitNot :: TokenKind where "TBitNot \<equiv> Op KBitNot"
abbreviation TLeftShift :: TokenKind where "TLeftShift \<equiv> Op KLeftShift"
abbreviation TRightShift :: TokenKind where "TRightShift \<equiv> Op KRightShift"
abbreviation TLParen :: TokenKind where "TLParen \<equiv> Punct KLParen"
abbreviation TRParen :: TokenKind where "TRParen \<equiv> Punct KRParen"
abbreviation TLBracket :: TokenKind where "TLBracket \<equiv> Punct KLBracket"
abbreviation TRBracket :: TokenKind where "TRBracket \<equiv> Punct KRBracket"
abbreviation TComma :: TokenKind where "TComma \<equiv> Punct KComma"
abbreviation TSemicolon :: TokenKind where "TSemicolon \<equiv> Punct KSemicolon"
abbreviation TDot :: TokenKind where "TDot \<equiv> Punct KDot"
abbreviation TColon :: TokenKind where "TColon \<equiv> Punct KColon"
abbreviation TDoubleColon :: TokenKind where "TDoubleColon \<equiv> Punct KDoubleColon"
abbreviation TArrow :: TokenKind where "TArrow \<equiv> Punct KArrow"
abbreviation TDoubleArrow :: TokenKind where "TDoubleArrow \<equiv> Punct KDoubleArrow"
abbreviation TLeftArrow :: TokenKind where "TLeftArrow \<equiv> Punct KLeftArrow"
abbreviation TBiArrow :: TokenKind where "TBiArrow \<equiv> Punct KBiArrow"
abbreviation TQuestionMark :: TokenKind where "TQuestionMark \<equiv> Punct KQuestionMark"
abbreviation TAt :: TokenKind where "TAt \<equiv> Punct KAt"

record Token =
  tk_kind :: TokenKind
  tk_span :: Span
  tk_literal :: string

definition token_new :: "TokenKind \<Rightarrow> Span \<Rightarrow> string \<Rightarrow> Token" where
  "token_new kind span literal = \<lparr>tk_kind = kind, tk_span = span, tk_literal = literal\<rparr>"

text \<open>\<^verbatim>\<open>std::mem::discriminant\<close>: the variant without its payload.\<close>

fun discriminant :: "TokenKind \<Rightarrow> TokenKind" where
  "discriminant (TInteger _) = TInteger 0"
| "discriminant (TFloat _) = TFloat 0"
| "discriminant (TString _) = TString []"
| "discriminant (TBlob _) = TBlob []"
| "discriminant (TIdentifier _) = TIdentifier []"
| "discriminant (TQuotedIdentifier _) = TQuotedIdentifier []"
| "discriminant (TPlaceholder _) = TPlaceholder 0"
| "discriminant (TComment _) = TComment []"
| "discriminant (TInvalid _) = TInvalid []"
| "discriminant k = k"

subsection \<open>Keywords\<close>

definition keyword_table :: "(string \<times> TokenKind) list" where
  "keyword_table =
     [(''SELECT'', TSelect), (''INSERT'', TInsert), (''UPDATE'', TUpdate), (''DELETE'', TDelete), (''CREATE'', TCreate),
      (''TABLE'', TTable), (''DROP'', TDrop), (''ALTER'', TAlter), (''ADD'', TAdd), (''COLUMN'', TColumn), (''RENAME'',
      TRename), (''TO'', TTo), (''CASCADE'', TCascade), (''INDEX'', TIndex), (''FROM'', TFrom), (''WHERE'', TWhere),
      (''AND'', TAnd), (''OR'', TOr), (''NOT'', TNot), (''NULL'', TNull), (''TRUE'', TTrue), (''FALSE'', TFalse),
      (''IS'', TIs), (''IN'', TIn), (''LIKE'', TLike), (''ESCAPE'', TEscape), (''BETWEEN'', TBetween), (''JOIN'',
      TJoin), (''INNER'', TInner), (''LEFT'', TLeft), (''RIGHT'', TRight), (''OUTER'', TOuter), (''CROSS'', TCross),
      (''ON'', TOn), (''USING'', TUsing), (''AS'', TAs), (''DISTINCT'', TDistinct), (''ALL'', TAll), (''GROUP'',
      TGroup), (''HAVING'', THaving), (''ORDER'', TOrder), (''BY'', TBy), (''ASC'', TAsc), (''DESC'', TDesc),
      (''NULLS'', TNulls), (''FIRST'', TFirst), (''LAST'', TLast), (''LIMIT'', TLimit), (''OFFSET'', TOffset),
      (''VALUES'', TValues), (''INTO'', TInto), (''SET'', TSet), (''BEGIN'', TBegin), (''COMMIT'', TCommit),
      (''ROLLBACK'', TRollback), (''TRANSACTION'', TTransaction), (''SAVEPOINT'', TSavepoint), (''RELEASE'', TRelease),
      (''PRIMARY'', TPrimary), (''KEY'', TKey), (''FOREIGN'', TForeign), (''REFERENCES'', TReferences), (''UNIQUE'',
      TUnique), (''DEFAULT'', TDefault), (''AUTOINCREMENT'', TAutoIncrement), (''AUTO_INCREMENT'', TAutoIncrement),
      (''IF'', TIf), (''EXISTS'', TExists), (''CASE'', TCase), (''WHEN'', TWhen), (''THEN'', TThen), (''ELSE'', TElse),
      (''END'', TEnd), (''CAST'', TCast), (''COLLATE'', TCollate), (''UNION'', TUnion), (''INTERSECT'', TIntersect),
      (''EXCEPT'', TExcept), (''COUNT'', TCount), (''SUM'', TSum), (''AVG'', TAvg), (''MIN'', TMin), (''MAX'', TMax),
      (''IGNORE'', TIgnore), (''REPLACE'', TReplace), (''CONFLICT'', TConflict), (''DO'', TDo), (''NOTHING'', TNothing),
      (''DUPLICATE'', TDuplicate), (''ABORT'', TAbort), (''FAIL'', TFail), (''RETURNING'', TReturning), (''INT'', TInt),
      (''INTEGER'', TIntegerKw), (''BIGINT'', TBigint), (''SMALLINT'', TSmallint), (''TINYINT'', TTinyint), (''FLOAT'',
      TFloatKw), (''DOUBLE'', TDouble), (''REAL'', TReal), (''DECIMAL'', TDecimal), (''NUMERIC'', TNumeric),
      (''VARCHAR'', TVarchar), (''CHAR'', TChar), (''TEXT'', TText), (''BLOB'', TBlobKw), (''BOOLEAN'', TBoolean),
      (''BOOL'', TBool), (''DATE'', TDate), (''TIME'', TTime), (''TIMESTAMP'', TTimestamp), (''DATETIME'', TDatetime),
      (''VECTOR'', TVector), (''VECTOR_SEARCH'', TVectorSearch), (''JSON_EXTRACT'', TJsonExtract), (''JSON_SET'',
      TJsonSet), (''CONTEXT_WINDOW'', TContextWindow), (''EMBEDDING'', TEmbedding), (''COSINE'', TCosine),
      (''EUCLIDEAN'', TEuclidean), (''DOT_PRODUCT'', TDotProduct), (''RELATE'', TRelate), (''LIVE'', TLive),
      (''CONTENT'', TContent), (''EVENT'', TEvent), (''DIFF'', TDiff), (''DEFINE'', TDefine), (''SCOPE'', TScope),
      (''REMOVE'', TRemove), (''SESSION'', TSession), (''SIGNIN'', TSignin), (''SIGNUP'', TSignup), (''PERMISSIONS'',
      TPermissions), (''FOR'', TFor)]"

definition upper_char :: "char \<Rightarrow> char" where
  "upper_char c = (let n = of_char c :: nat in if 97 \<le> n \<and> n \<le> 122 then char_of (n - 32) else c)"

definition from_keyword :: "string \<Rightarrow> TokenKind option" where
  "from_keyword s =
     (if length s = 0 \<or> length s > 20 then None else map_of keyword_table (map upper_char s))"

definition is_keyword :: "TokenKind \<Rightarrow> bool" where
  "is_keyword k \<longleftrightarrow> k \<in> set
     [TSelect, TInsert, TUpdate, TDelete, TCreate, TDrop, TFrom, TWhere, TAnd, TOr, TNot, TJoin, TInner, TLeft, TRight,
      TOuter, TCross, TOn, TAs, TDistinct, TAll, TGroup, THaving, TOrder, TBy, TAsc, TDesc, TLimit, TOffset, TValues,
      TInto, TSet, TBegin, TCommit, TRollback, TTable, TIndex, TAlter, TTo, TCascade, TPrimary, TKey, TForeign,
      TReferences, TUnique, TDefault, TIf, TExists, TCase, TWhen, TThen, TElse, TEnd, TCast, TUnion, TIntersect,
      TExcept, TCount, TSum, TAvg, TMin, TMax, TIs, TIn, TLike, TBetween, TNull, TTrue, TFalse, TInt, TIntegerKw,
      TBigint, TSmallint, TFloatKw, TDouble, TReal, TVarchar, TChar, TText, TBlobKw, TBoolean, TBool, TDate, TTime,
      TTimestamp, TDatetime, TVector, TVectorSearch, TEmbedding, TCosine, TEuclidean, TDotProduct, TContextWindow,
      TUsing, TTransaction, TSavepoint, TRelease, TEscape, TNulls, TFirst, TLast, TAutoIncrement, TAdd, TColumn,
      TRename, TCollate, TTinyint, TDecimal, TNumeric, TJsonExtract, TJsonSet, TIgnore, TReplace, TConflict, TDo,
      TNothing, TDuplicate, TAbort, TFail, TReturning, TRelate, TLive, TContent, TEvent, TDiff]"

end
