(* ===== verification/Sql_Lexer.thy ===== *)
theory Sql_Lexer
  imports Sql_Token
begin

text \<open>
  \<^verbatim>\<open>sochdb-query/src/sql/lexer.rs\<close>: from SQL text to tokens.  A character is the list of its UTF-8 bytes.
  Rounding a decimal literal to a 64-bit float and rendering a token with \<^verbatim>\<open>{:?}\<close> are parameters; which
  literals \<^verbatim>\<open>f64::from_str\<close> accepts is modelled.
\<close>

record sql_std =
  std_f64 :: "string \<Rightarrow> u64"
  std_debug :: "TokenKind \<Rightarrow> string"

record LexError =
  le_message :: string
  le_span :: Span

record Lexer =
  lx_input :: string
  lx_pos :: nat
  lx_line :: nat
  lx_column :: nat
  lx_tokens :: "Token list"
  lx_errors :: "LexError list"
  lx_placeholder_counter :: u32

definition lexer_new :: "string \<Rightarrow> Lexer" where
  "lexer_new input =
     \<lparr>lx_input = input, lx_pos = 0, lx_line = 1, lx_column = 1, lx_tokens = [], lx_errors = [], lx_placeholder_counter = 0\<rparr>"

subsection \<open>Characters\<close>

text \<open>\<^verbatim>\<open>char::len_utf8\<close> of the character that starts with this byte.\<close>

definition utf8_len :: "char \<Rightarrow> nat" where
  "utf8_len b = (let n = of_char b :: int in if n < 128 then 1 else if n < 224 then 2 else if n < 240 then 3 else 4)"

definition next_char :: "string \<Rightarrow> string option" where
  "next_char s = (case s of [] \<Rightarrow> None | b # _ \<Rightarrow> Some (take (utf8_len b) s))"

definition lx_is_at_end :: "Lexer \<Rightarrow> bool" where
  "lx_is_at_end s \<longleftrightarrow> lx_pos s \<ge> length (lx_input s)"

definition lx_peek :: "Lexer \<Rightarrow> string option" where
  "lx_peek s = next_char (drop (lx_pos s) (lx_input s))"

definition lx_peek_next :: "Lexer \<Rightarrow> string option" where
  "lx_peek_next s =
     (case lx_peek s of None \<Rightarrow> None | Some c \<Rightarrow> next_char (drop (lx_pos s + length c) (lx_input s)))"

definition lx_advance :: "Lexer \<Rightarrow> Lexer \<times> string option" where
  "lx_advance s =
     (case lx_peek s of
        None \<Rightarrow> (s, None)
      | Some c \<Rightarrow>
          (if c = [CHR 0x0A]
           then s\<lparr>lx_pos := lx_pos s + 1, lx_line := lx_line s + 1, lx_column := 1\<rparr>
           else s\<lparr>lx_pos := lx_pos s + length c, lx_column := lx_column s + 1\<rparr>, Some c))"

abbreviation lx_step :: "Lexer \<Rightarrow> Lexer" where
  "lx_step s \<equiv> fst (lx_advance s)"

definition char_in :: "int \<Rightarrow> int \<Rightarrow> string \<Rightarrow> bool" where
  "char_in lo hi c = (case c of [x] \<Rightarrow> lo \<le> of_char x \<and> of_char x \<le> hi | _ \<Rightarrow> False)"

definition is_ascii_digit :: "string \<Rightarrow> bool" where
  "is_ascii_digit c = char_in 48 57 c"

definition is_ascii_alpha :: "string \<Rightarrow> bool" where
  "is_ascii_alpha c \<longleftrightarrow> char_in 97 122 c \<or> char_in 65 90 c"

definition is_ascii_hexdigit :: "string \<Rightarrow> bool" where
  "is_ascii_hexdigit c \<longleftrightarrow> is_ascii_digit c \<or> char_in 97 102 c \<or> char_in 65 70 c"

text \<open>\<^verbatim>\<open>char::is_whitespace\<close>: the Unicode property \<^verbatim>\<open>White_Space\<close>, in UTF-8.\<close>

definition is_whitespace :: "string \<Rightarrow> bool" where
  "is_whitespace c \<longleftrightarrow>
     char_in 9 13 c \<or> c = '' '' \<or> c \<in> set
       [[CHR 0xC2, CHR 0x85], [CHR 0xC2, CHR 0xA0], [CHR 0xE1, CHR 0x9A, CHR 0x80], [CHR 0xE2, CHR 0x80, CHR 0xA8],
        [CHR 0xE2, CHR 0x80, CHR 0xA9], [CHR 0xE2, CHR 0x80, CHR 0xAF], [CHR 0xE2, CHR 0x81, CHR 0x9F], [CHR 0xE3, CHR 0x80, CHR 0x80]] \<or>
     (\<exists>x \<in> set [128..<139]. c = [CHR 0xE2, CHR 0x80, char_of x])"

text \<open>What is left of the input: the measure of every loop.\<close>

definition lx_left :: "Lexer \<Rightarrow> nat" where
  "lx_left s = length (lx_input s) - lx_pos s"

lemma utf8_len_pos [simp]: "0 < utf8_len b"
  by (simp add: utf8_len_def Let_def)

lemma next_char_Some: "next_char s = Some c \<Longrightarrow> 0 < length c \<and> length c \<le> length s \<and> c = take (length c) s"
proof -
  assume "next_char s = Some c"
  then obtain b r where s: "s = b # r" "c = take (utf8_len b) s" by (auto simp: next_char_def split: list.splits)
  moreover have "0 < utf8_len b" by simp
  ultimately show ?thesis by (cases "utf8_len b \<le> length s") (auto simp del: utf8_len_pos)
qed

lemma lx_peek_None [simp]: "lx_peek s = None \<longleftrightarrow> lx_is_at_end s"
  by (simp add: lx_peek_def next_char_def lx_is_at_end_def split: list.split) (metis drop_eq_Nil list.distinct(1))

lemma lx_input_step [simp]: "lx_input (lx_step s) = lx_input s"
  by (simp add: lx_advance_def split: option.split)

lemma lx_left_step:
  assumes "lx_peek s = Some c"
  shows "lx_left (lx_step s) < lx_left s"
proof -
  from assms have "0 < length c" "length c \<le> length (drop (lx_pos s) (lx_input s))" unfolding lx_peek_def by (auto dest: next_char_Some)
  with assms show ?thesis by (cases "c = [CHR 0x0A]") (simp_all add: lx_left_def lx_advance_def del: length_greater_0_conv)
qed

lemma lx_left_step_le: "lx_left (lx_step s) \<le> lx_left s"
proof (cases "lx_peek s")
  case (Some c)
  then show ?thesis using lx_left_step [of s c] by simp
qed (simp only: lx_advance_def option.case fst_conv order_refl)

lemma lx_left_next:
  assumes "\<not> lx_is_at_end s"
  shows "lx_left (lx_step s) < lx_left s" "lx_left (lx_step (lx_step s)) < lx_left s"
proof -
  from assms obtain c where "lx_peek s = Some c" using lx_peek_None by blast
  then show "lx_left (lx_step s) < lx_left s" by (rule lx_left_step)
  with lx_left_step_le [of "lx_step s"] show "lx_left (lx_step (lx_step s)) < lx_left s" by simp
qed

subsection \<open>Emitting\<close>

definition make_span :: "nat \<Rightarrow> nat \<Rightarrow> nat \<Rightarrow> Lexer \<Rightarrow> Span" where
  "make_span start start_line start_col s = span_new start (lx_pos s) start_line start_col"

definition lx_literal :: "nat \<Rightarrow> Lexer \<Rightarrow> string" where
  "lx_literal start s = take (lx_pos s - start) (drop start (lx_input s))"

definition push_token :: "TokenKind \<Rightarrow> string \<Rightarrow> nat \<Rightarrow> nat \<Rightarrow> nat \<Rightarrow> Lexer \<Rightarrow> Lexer" where
  "push_token kind literal start start_line start_col s =
     s\<lparr>lx_tokens := lx_tokens s @ [token_new kind (make_span start start_line start_col s) literal]\<rparr>"

definition add_token :: "TokenKind \<Rightarrow> nat \<Rightarrow> nat \<Rightarrow> nat \<Rightarrow> Lexer \<Rightarrow> Lexer" where
  "add_token kind start start_line start_col s = push_token kind (lx_literal start s) start start_line start_col s"

definition add_error :: "string \<Rightarrow> nat \<Rightarrow> nat \<Rightarrow> nat \<Rightarrow> Lexer \<Rightarrow> Lexer" where
  "add_error message start start_line start_col s =
     s\<lparr>lx_errors := lx_errors s @ [\<lparr>le_message = message, le_span = make_span start start_line start_col s\<rparr>]\<rparr>"

subsection \<open>Scanning loops\<close>

text \<open>\<^verbatim>\<open>while let Some(c) = self.peek() { if p(c) { self.advance(); } else { break; } }\<close>\<close>

function skip_while :: "(string \<Rightarrow> bool) \<Rightarrow> Lexer \<Rightarrow> Lexer" where
  "skip_while p s =
     (case lx_peek s of
        None \<Rightarrow> s
      | Some c \<Rightarrow> if p c then skip_while p (lx_step s) else s)"
  by pat_completeness auto
termination
  by (relation "measure (\<lambda>(p, s). lx_left s)") (auto simp: lx_left_step)

declare skip_while.simps [simp del]

definition escape_char :: "string \<Rightarrow> string" where
  "escape_char c =
     (if c = ''n'' then [CHR 0x0A] else if c = ''r'' then [CHR 0x0D] else if c = ''t'' then [CHR 0x09]
      else if c = [CHR 0x5C] then [CHR 0x5C] else if c = [CHR 0x27] then [CHR 0x27] else if c = [CHR 0x22] then [CHR 0x22]
      else if c = ''0'' then [CHR 0x00] else [CHR 0x5C] @ c)"

text \<open>The loop of \<^verbatim>\<open>scan_string\<close>: \<open>None\<close> when the input ends inside the literal.\<close>

function scan_string_loop :: "string \<Rightarrow> string \<Rightarrow> Lexer \<Rightarrow> Lexer \<times> string option" where
  "scan_string_loop quote value s =
     (case lx_peek s of
        None \<Rightarrow> (s, None)
      | Some c \<Rightarrow>
          (if c = quote
           then (let s1 = lx_step s
                 in if lx_peek s1 = Some quote then scan_string_loop quote (value @ quote) (lx_step s1) else (s1, Some value))
           else if c = [CHR 0x5C]
           then (let s1 = lx_step s
                 in case lx_peek s1 of
                      Some escaped \<Rightarrow> scan_string_loop quote (value @ escape_char escaped) (lx_step s1)
                    | None \<Rightarrow> scan_string_loop quote value s1)
           else scan_string_loop quote (value @ c) (lx_step s)))"
  by pat_completeness auto
termination
  by (relation "measure (\<lambda>(q, v, s). lx_left s)") (auto simp: lx_left_step intro: less_trans lx_left_step)

declare scan_string_loop.simps [simp del]

function scan_quoted_loop :: "string \<Rightarrow> string \<Rightarrow> Lexer \<Rightarrow> Lexer \<times> string option" where
  "scan_quoted_loop quote value s =
     (case lx_peek s of
        None \<Rightarrow> (s, None)
      | Some c \<Rightarrow>
          (if c = quote
           then (let s1 = lx_step s
                 in if lx_peek s1 = Some quote then scan_quoted_loop quote (value @ quote) (lx_step s1) else (s1, Some value))
           else scan_quoted_loop quote (value @ c) (lx_step s)))"
  by pat_completeness auto
termination
  by (relation "measure (\<lambda>(q, v, s). lx_left s)") (auto simp: lx_left_step intro: less_trans lx_left_step)

declare scan_quoted_loop.simps [simp del]


text \<open>The digits, dots and exponents of a number; the flags are \<^verbatim>\<open>has_dot\<close> and \<^verbatim>\<open>has_exp\<close>.\<close>

function scan_number_loop :: "bool \<Rightarrow> bool \<Rightarrow> Lexer \<Rightarrow> Lexer \<times> bool \<times> bool" where
  "scan_number_loop has_dot has_exp s =
     (case lx_peek s of
        None \<Rightarrow> (s, has_dot, has_exp)
      | Some c \<Rightarrow>
          (if is_ascii_digit c then scan_number_loop has_dot has_exp (lx_step s)
           else if c = ''.'' \<and> \<not> has_dot \<and> \<not> has_exp
           then (if lx_peek_next s = Some ''.'' then (s, has_dot, has_exp) else scan_number_loop True has_exp (lx_step s))
           else if (c = ''e'' \<or> c = ''E'') \<and> \<not> has_exp
           then (let s1 = lx_step s
                 in if lx_peek s1 = Some ''+'' \<or> lx_peek s1 = Some ''-''
                    then scan_number_loop has_dot True (lx_step s1) else scan_number_loop has_dot True s1)
           else (s, has_dot, has_exp)))"
  by pat_completeness auto
termination
  by (relation "measure (\<lambda>(d, e, s). lx_left s)") (auto simp: lx_left_step intro: less_trans lx_left_step)

declare scan_number_loop.simps [simp del]

text \<open>The body of a block comment, which nests; the result is the remaining depth.\<close>

function comment_loop :: "nat \<Rightarrow> Lexer \<Rightarrow> Lexer \<times> nat" where
  "comment_loop depth s =
     (if depth > 0 \<and> \<not> lx_is_at_end s
      then let c = lx_peek s; next = lx_peek_next s
           in if c = Some ''*'' \<and> next = Some ''/'' then comment_loop (depth - 1) (lx_step (lx_step s))
              else if c = Some ''/'' \<and> next = Some ''*'' then comment_loop (depth + 1) (lx_step (lx_step s))
              else comment_loop depth (lx_step s)
      else (s, depth))"
  by pat_completeness auto
termination
  by (relation "measure (\<lambda>(d, s). lx_left s)") (auto simp: lx_left_next)

declare comment_loop.simps [simp del]

text \<open>The hexadecimal digits of a blob, with white space left out: \<open>None\<close> at any other character.\<close>

function scan_blob_loop :: "string \<Rightarrow> Lexer \<Rightarrow> Lexer \<times> string option" where
  "scan_blob_loop hex s =
     (case lx_peek s of
        None \<Rightarrow> (s, Some hex)
      | Some c \<Rightarrow>
          (if c = [CHR 0x27] then (lx_step s, Some hex)
           else if is_ascii_hexdigit c then scan_blob_loop (hex @ c) (lx_step s)
           else if is_whitespace c then scan_blob_loop hex (lx_step s)
           else (s, None)))"
  by pat_completeness auto
termination
  by (relation "measure (\<lambda>(h, s). lx_left s)") (auto simp: lx_left_step)

declare scan_blob_loop.simps [simp del]

subsection \<open>Literals\<close>

definition digit_value :: "char \<Rightarrow> int" where
  "digit_value c =
     (let n = of_char c in if n \<le> 57 then n - 48 else if n \<le> 70 then n - 55 else n - 87)"

definition decimal_value :: "string \<Rightarrow> int" where
  "decimal_value s = foldl (\<lambda>n c. 10 * n + digit_value c) 0 s"

definition all_digits :: "string \<Rightarrow> bool" where
  "all_digits s \<longleftrightarrow> s \<noteq> [] \<and> list_all (\<lambda>c. is_ascii_digit [c]) s"

text \<open>\<^verbatim>\<open>str::parse\<close> for \<^verbatim>\<open>i64\<close> and \<^verbatim>\<open>u32\<close> on the unsigned literals of the lexer.\<close>

definition parse_i64 :: "string \<Rightarrow> int option" where
  "parse_i64 s = (if all_digits s \<and> decimal_value s < 9223372036854775808 then Some (decimal_value s) else None)"

definition parse_u32 :: "string \<Rightarrow> u32 option" where
  "parse_u32 s = (if all_digits s \<and> decimal_value s < 4294967296 then Some (word_of_int (decimal_value s)) else None)"

text \<open>What \<^verbatim>\<open>f64::from_str\<close> accepts: digits with at most one dot, then an optional exponent with digits.\<close>

definition f64_exponent :: "string \<Rightarrow> bool" where
  "f64_exponent s =
     (case s of
        [] \<Rightarrow> True
      | e # r \<Rightarrow> (case r of [] \<Rightarrow> False | x # d \<Rightarrow> if x = CHR ''+'' \<or> x = CHR ''-'' then all_digits d else all_digits r))"

definition f64_syntax :: "string \<Rightarrow> bool" where
  "f64_syntax s =
     (let mantissa = takeWhile (\<lambda>c. c \<noteq> CHR ''e'' \<and> c \<noteq> CHR ''E'') s
      in all_digits (remove1 (CHR ''.'') mantissa) \<and> f64_exponent (drop (length mantissa) s))"

definition parse_f64 :: "sql_std \<Rightarrow> string \<Rightarrow> u64 option" where
  "parse_f64 E s = (if f64_syntax s then Some (std_f64 E s) else None)"

fun hex_bytes :: "string \<Rightarrow> bytes" where
  "hex_bytes (a # b # r) = word_of_int (16 * digit_value a + digit_value b) # hex_bytes r"
| "hex_bytes r = []"

subsection \<open>Scanners\<close>

definition scan_string :: "string \<Rightarrow> nat \<Rightarrow> nat \<Rightarrow> nat \<Rightarrow> Lexer \<Rightarrow> Lexer" where
  "scan_string quote start start_line start_col s =
     (case scan_string_loop quote [] s of
        (s1, Some value) \<Rightarrow> push_token (TString value) (lx_literal start s1) start start_line start_col s1
      | (s1, None) \<Rightarrow> add_error ''Unterminated string literal'' start start_line start_col s1)"

definition scan_quoted_identifier :: "string \<Rightarrow> nat \<Rightarrow> nat \<Rightarrow> nat \<Rightarrow> Lexer \<Rightarrow> Lexer" where
  "scan_quoted_identifier quote start start_line start_col s =
     (case scan_quoted_loop quote [] s of
        (s1, Some value) \<Rightarrow> push_token (TQuotedIdentifier value) (lx_literal start s1) start start_line start_col s1
      | (s1, None) \<Rightarrow> add_error ''Unterminated quoted identifier'' start start_line start_col s1)"

definition scan_number :: "sql_std \<Rightarrow> bool \<Rightarrow> nat \<Rightarrow> nat \<Rightarrow> nat \<Rightarrow> Lexer \<Rightarrow> Lexer" where
  "scan_number E started_with_dot start start_line start_col s =
     (let (s1, has_dot, has_exp) = scan_number_loop started_with_dot False s;
          literal = lx_literal start s1
      in if has_dot \<or> has_exp
         then (case parse_f64 E literal of
                 Some n \<Rightarrow> push_token (TFloat n) literal start start_line start_col s1
               | None \<Rightarrow> add_error ''Invalid float literal'' start start_line start_col s1)
         else (case parse_i64 literal of
                 Some n \<Rightarrow> push_token (TInteger n) literal start start_line start_col s1
               | None \<Rightarrow> add_error ''Invalid integer literal'' start start_line start_col s1))"

definition scan_identifier :: "nat \<Rightarrow> nat \<Rightarrow> nat \<Rightarrow> Lexer \<Rightarrow> Lexer" where
  "scan_identifier start start_line start_col s =
     (let s1 = skip_while (\<lambda>c. is_ascii_alpha c \<or> is_ascii_digit c \<or> c = ''_'') s;
          literal = lx_literal start s1;
          kind = (case from_keyword literal of Some k \<Rightarrow> k | None \<Rightarrow> TIdentifier literal)
      in push_token kind literal start start_line start_col s1)"

definition scan_placeholder :: "nat \<Rightarrow> nat \<Rightarrow> nat \<Rightarrow> Lexer \<Rightarrow> Lexer" where
  "scan_placeholder start start_line start_col s =
     (let s1 = skip_while is_ascii_digit s; num = lx_literal (lx_pos s) s1
      in if num = [] then add_error ''Expected number after $'' start start_line start_col s1
         else case parse_u32 num of
                Some n \<Rightarrow> push_token (TPlaceholder n) (lx_literal start s1) start start_line start_col s1
              | None \<Rightarrow> add_error ''Invalid placeholder number'' start start_line start_col s1)"

definition scan_comment :: "nat \<Rightarrow> nat \<Rightarrow> nat \<Rightarrow> Lexer \<Rightarrow> Lexer" where
  "scan_comment start start_line start_col s =
     (let s1 = lx_step s
      in if lx_peek s1 = Some ''*'' \<or> suffix ''*'' (lx_literal start s1)
         then (let (s2, depth) = comment_loop 1 s1
               in if depth > 0 then add_error ''Unterminated block comment'' start start_line start_col s2 else s2)
         else skip_while (\<lambda>c. c \<noteq> [CHR 0x0A]) s1)"

definition scan_line_comment :: "Lexer \<Rightarrow> Lexer" where
  "scan_line_comment s = skip_while (\<lambda>c. c \<noteq> [CHR 0x0A]) (lx_step s)"

definition scan_blob :: "nat \<Rightarrow> nat \<Rightarrow> nat \<Rightarrow> Lexer \<Rightarrow> Lexer" where
  "scan_blob start start_line start_col s =
     (case scan_blob_loop [] s of
        (s1, None) \<Rightarrow> add_error ''Invalid hex digit in blob literal'' start start_line start_col s1
      | (s1, Some hex) \<Rightarrow>
          (if odd (length hex)
           then add_error ''Blob literal must have even number of hex digits'' start start_line start_col s1
           else push_token (TBlob (hex_bytes hex)) (lx_literal start s1) start start_line start_col s1))"


definition unexpected_character :: "string \<Rightarrow> string" where
  "unexpected_character c = ''Unexpected character '' @ [CHR 0x27] @ c @ [CHR 0x27]"

definition scan_token :: "sql_std \<Rightarrow> Lexer \<Rightarrow> Lexer" where
  "scan_token E s0 =
     (let start = lx_pos s0; l = lx_line s0; col = lx_column s0; (s, ch) = lx_advance s0;
          tok = (\<lambda>kind s. add_token kind start l col s)
      in case ch of None \<Rightarrow> s | Some c \<Rightarrow>
      if c = '' '' \<or> c = [CHR 0x09] \<or> c = [CHR 0x0D] \<or> c = [CHR 0x0A] then s
      else if c = ''('' then tok TLParen s
      else if c = '')'' then tok TRParen s
      else if c = ''['' then tok TLBracket s
      else if c = '']'' then tok TRBracket s
      else if c = '','' then tok TComma s
      else if c = '';'' then tok TSemicolon s
      else if c = ''+'' then tok TPlus s
      else if c = ''*'' then tok TStar s
      else if c = ''/''
      then (if lx_peek s = Some ''/'' \<or> lx_peek s = Some ''*'' then scan_comment start l col s else tok TSlash s)
      else if c = ''%'' then tok TPercent s
      else if c = ''&'' then tok TBitAnd s
      else if c = ''~'' then tok TBitNot s
      else if c = ''?''
      then (let s = s\<lparr>lx_placeholder_counter := lx_placeholder_counter s + 1\<rparr>
            in push_token (TPlaceholder (lx_placeholder_counter s)) ''?'' start l col s)
      else if c = ''@'' then tok TAt s
      else if c = ''-''
      then (if lx_peek s = Some ''-'' then scan_line_comment s
            else if lx_peek s = Some ''>''
            then (let s = lx_step s in if lx_peek s = Some ''>'' then tok TDoubleArrow (lx_step s) else tok TArrow s)
            else tok TMinus s)
      else if c = ''='' then tok TEq s
      else if c = ''!''
      then (if lx_peek s = Some ''='' then tok TNe (lx_step s) else add_error (unexpected_character c) start l col s)
      else if c = ''<''
      then (if lx_peek s = Some ''='' then tok TLe (lx_step s)
            else if lx_peek s = Some ''-''
            then (let s = lx_step s in if lx_peek s = Some ''>'' then tok TBiArrow (lx_step s) else tok TLeftArrow s)
            else if lx_peek s = Some ''>'' then tok TNe (lx_step s)
            else if lx_peek s = Some ''<'' then tok TLeftShift (lx_step s)
            else tok TLt s)
      else if c = ''>''
      then (if lx_peek s = Some ''='' then tok TGe (lx_step s)
            else if lx_peek s = Some ''>'' then tok TRightShift (lx_step s)
            else tok TGt s)
      else if c = ''|'' then (if lx_peek s = Some ''|'' then tok TConcat (lx_step s) else tok TBitOr s)
      else if c = '':'' then (if lx_peek s = Some '':'' then tok TDoubleColon (lx_step s) else tok TColon s)
      else if c = ''.''
      then (if (case lx_peek s of Some d \<Rightarrow> is_ascii_digit d | None \<Rightarrow> False) then scan_number E True start l col s else tok TDot s)
      else if c = [CHR 0x27] then scan_string [CHR 0x27] start l col s
      else if c = [CHR 0x22] then scan_quoted_identifier [CHR 0x22] start l col s
      else if c = [CHR 0x60] then scan_quoted_identifier [CHR 0x60] start l col s
      else if (c = ''X'' \<or> c = ''x'') \<and> lx_peek s = Some [CHR 0x27] then scan_blob start l col (lx_step s)
      else if is_ascii_digit c then scan_number E False start l col s
      else if is_ascii_alpha c \<or> c = ''_'' then scan_identifier start l col s
      else if c = ''$'' then scan_placeholder start l col s
      else add_error (unexpected_character c) start l col s)"


subsection \<open>The token loop\<close>

lemma lx_left_emit [simp]:
  "lx_left (push_token k lit a b c s) = lx_left s" "lx_left (add_token k a b c s) = lx_left s"
  "lx_left (add_error m a b c s) = lx_left s" "lx_left (s\<lparr>lx_placeholder_counter := n\<rparr>) = lx_left s"
  by (simp_all add: lx_left_def push_token_def add_token_def add_error_def)

text \<open>A scanning loop only moves forward over characters.\<close>

definition ahead :: "Lexer \<Rightarrow> Lexer \<Rightarrow> bool" where
  "ahead s s' \<longleftrightarrow> (\<exists>n. s' = (lx_step ^^ n) s)"

lemma ahead_refl: "ahead s s"
  unfolding ahead_def by (rule exI [of _ 0]) simp

lemma ahead_step: "ahead (lx_step s) s' \<Longrightarrow> ahead s s'"
  unfolding ahead_def by (metis funpow_Suc_right o_apply)

lemma ahead_one: "ahead s (lx_step s)"
  by (rule ahead_step [OF ahead_refl])

lemma ahead_two: "ahead s (lx_step (lx_step s))"
  by (rule ahead_step [OF ahead_one])

lemma ahead_trans: "ahead s s1 \<Longrightarrow> ahead s1 s2 \<Longrightarrow> ahead s s2"
  unfolding ahead_def by (metis funpow_add o_apply)

lemma not_at_end: "lx_peek s = Some c \<Longrightarrow> \<not> lx_is_at_end s"
  by (metis lx_peek_None option.distinct(1))

text \<open>Induction for the loops: one or two characters further on the claim holds already.\<close>

lemma ahead_induct [case_names step]:
  assumes "\<And>s v. (\<And>v c. lx_peek s = Some c \<Longrightarrow> ahead s (f v (lx_step s))) \<Longrightarrow>
      (\<And>v c. lx_peek s = Some c \<Longrightarrow> ahead s (f v (lx_step (lx_step s)))) \<Longrightarrow> ahead s (f v s)"
  shows "ahead s (f v s)"
proof (induction "lx_left s" arbitrary: s v rule: less_induct)
  case less
  show ?case
  proof (rule assms)
    fix v c assume "lx_peek s = Some c"
    note n = lx_left_next [OF not_at_end [OF this]]
    show "ahead s (f v (lx_step s))" by (rule ahead_step [OF less [OF n(1)]])
    show "ahead s (f v (lx_step (lx_step s)))" by (rule ahead_step [OF ahead_step [OF less [OF n(2)]]])
  qed
qed

lemma skip_while_ahead: "ahead s (skip_while p s)"
proof (induction rule: ahead_induct [where f = "\<lambda>_::unit. skip_while p", case_names step])
  case (step s)
  show ?case by (subst skip_while.simps) (use step in \<open>simp add: ahead_refl split: option.split\<close>)
qed

lemma scan_string_loop_ahead: "ahead s (fst (scan_string_loop q v s))"
proof (induction rule: ahead_induct [where f = "\<lambda>v s. fst (scan_string_loop q v s)"])
  case (step s v)
  show ?case
    by (subst scan_string_loop.simps) (use step in \<open>simp add: Let_def ahead_refl ahead_one split: option.split\<close>)
qed

lemma scan_quoted_loop_ahead: "ahead s (fst (scan_quoted_loop q v s))"
proof (induction rule: ahead_induct [where f = "\<lambda>v s. fst (scan_quoted_loop q v s)"])
  case (step s v)
  show ?case
    by (subst scan_quoted_loop.simps) (use step in \<open>simp add: Let_def ahead_refl ahead_one split: option.split\<close>)
qed

lemma scan_number_loop_ahead: "ahead s (fst (scan_number_loop d e s))"
proof -
  have "ahead s (fst (scan_number_loop (fst de) (snd de) s))" for de
  proof (induction rule: ahead_induct [where f = "\<lambda>de s. fst (scan_number_loop (fst de) (snd de) s)"])
    case (step s de)
    have IH: "ahead s (fst (scan_number_loop d e (lx_step s)))" "ahead s (fst (scan_number_loop d e (lx_step (lx_step s))))"
      if "lx_peek s = Some c" for c d e
      using step [OF that, of "(d, e)"] by simp_all
    show ?case
      by (subst scan_number_loop.simps) (use IH in \<open>simp add: Let_def ahead_refl split: option.split\<close>)
  qed
  from this [of "(d, e)"] show ?thesis by simp
qed

lemma comment_loop_ahead: "ahead s (fst (comment_loop d s))"
proof (induction rule: ahead_induct [where f = "\<lambda>d s. fst (comment_loop d s)"])
  case (step s d)
  show ?case
  proof (cases "lx_peek s")
    case None
    then show ?thesis by (subst comment_loop.simps) (simp add: ahead_refl)
  next
    case (Some c)
    show ?thesis by (subst comment_loop.simps) (simp add: Let_def ahead_refl step [OF Some])
  qed
qed

lemma scan_blob_loop_ahead: "ahead s (fst (scan_blob_loop h s))"
proof (induction rule: ahead_induct [where f = "\<lambda>h s. fst (scan_blob_loop h s)"])
  case (step s h)
  show ?case by (subst scan_blob_loop.simps) (use step in \<open>simp add: ahead_refl ahead_one split: option.split\<close>)
qed

text \<open>
  What scanning one token leaves behind: the position moves ahead, and at most one token or one error is
  added, whose span is the text consumed.
\<close>

inductive scanned :: "nat \<Rightarrow> nat \<Rightarrow> nat \<Rightarrow> Lexer \<Rightarrow> Lexer \<Rightarrow> bool" for start l col s where
  skip: "ahead s s1 \<Longrightarrow> scanned start l col s s1"
| token: "ahead s s1 \<Longrightarrow> scanned start l col s (add_token k start l col s1)"
| placeholder: "ahead s s1 \<Longrightarrow> scanned start l col s (add_token k start l col (s1\<lparr>lx_placeholder_counter := n\<rparr>))"
| error: "ahead s s1 \<Longrightarrow> scanned start l col s (add_error m start l col s1)"

lemma scanned_push: "ahead s s1 \<Longrightarrow> scanned start l col s (push_token k (lx_literal start s1) start l col s1)"
  unfolding add_token_def [symmetric] by (rule scanned.token)

lemma scanned_if:
  "(P \<Longrightarrow> scanned start l col s a) \<Longrightarrow> (\<not> P \<Longrightarrow> scanned start l col s b) \<Longrightarrow> scanned start l col s (if P then a else b)"
  by simp

lemma scanned_scan_string: "scanned start l col s (scan_string q start l col s)"
  using scan_string_loop_ahead [of s q "[]"]
  by (simp add: scan_string_def case_prod_unfold scanned_push scanned.error split: option.split)

lemma scanned_scan_quoted: "scanned start l col s (scan_quoted_identifier q start l col s)"
  using scan_quoted_loop_ahead [of s q "[]"]
  by (simp add: scan_quoted_identifier_def case_prod_unfold scanned_push scanned.error split: option.split)

lemma scanned_scan_number: "scanned start l col s (scan_number E dot start l col s)"
  using scan_number_loop_ahead [of s dot False]
  by (simp add: scan_number_def case_prod_unfold Let_def scanned_push scanned.error split: option.split)

lemma scanned_scan_identifier: "scanned start l col s (scan_identifier start l col s)"
  by (simp add: scan_identifier_def Let_def scanned_push skip_while_ahead)

lemma scanned_scan_placeholder: "scanned start l col s (scan_placeholder start l col s)"
  by (simp add: scan_placeholder_def Let_def scanned_push scanned.error skip_while_ahead split: option.split)

lemma scanned_scan_comment: "scanned start l col s (scan_comment start l col s)"
proof -
  obtain s2 d where c: "comment_loop 1 (lx_step s) = (s2, d)" by (rule prod.exhaust)
  have s2: "ahead s s2" using ahead_step [OF comment_loop_ahead [of "lx_step s" 1]] c by simp
  have sk: "ahead s (skip_while (\<lambda>c. c \<noteq> [CHR 0x0A]) (lx_step s))" by (rule ahead_step) (rule skip_while_ahead)
  show ?thesis
    unfolding scan_comment_def Let_def c prod.case
    by (rule scanned_if, rule scanned_if, rule scanned.error [OF s2], rule scanned.skip [OF s2], rule scanned.skip [OF sk])
qed

lemma scanned_scan_line_comment: "scanned start l col s (scan_line_comment s)"
  unfolding scan_line_comment_def by (rule scanned.skip, rule ahead_step, rule skip_while_ahead)

lemma scanned_scan_blob: "scanned start l col s (scan_blob start l col (lx_step s))"
proof -
  have "ahead s (fst (scan_blob_loop [] (lx_step s)))" by (rule ahead_step, rule scan_blob_loop_ahead)
  then show ?thesis by (simp add: scan_blob_def case_prod_unfold scanned_push scanned.error split: option.split)
qed

lemmas scanned_rules = scanned_scan_string scanned_scan_quoted scanned_scan_number scanned_scan_identifier
  scanned_scan_placeholder scanned_scan_comment scanned_scan_line_comment scanned_scan_blob

lemma lx_advance_Some:
  assumes "lx_peek s = Some c"
  shows "lx_advance s = (lx_step s, Some c)" "lx_literal (lx_pos s) (lx_step s) = c" "lx_pos (lx_step s) = lx_pos s + length c"
proof -
  have "c = take (length c) (drop (lx_pos s) (lx_input s))" using assms next_char_Some unfolding lx_peek_def by blast
  then show "lx_advance s = (lx_step s, Some c)" "lx_literal (lx_pos s) (lx_step s) = c" "lx_pos (lx_step s) = lx_pos s + length c"
    using assms by (auto simp: lx_advance_def lx_literal_def)
qed

lemma scan_token_scanned:
  assumes "\<not> lx_is_at_end s"
  shows "scanned (lx_pos s) (lx_line s) (lx_column s) (lx_step s) (scan_token E s)"
proof -
  from assms obtain c where c: "lx_peek s = Some c" using lx_peek_None by blast
  define s1 where "s1 = lx_step s"
  have adv: "lx_advance s = (s1, Some c)" using lx_advance_Some(1) [OF c] by (simp add: s1_def)
  have ph: "scanned (lx_pos s) (lx_line s) (lx_column s) s1
      (push_token (TPlaceholder (lx_placeholder_counter (s1\<lparr>lx_placeholder_counter := n\<rparr>))) ''?'' (lx_pos s) (lx_line s) (lx_column s)
         (s1\<lparr>lx_placeholder_counter := n\<rparr>))" if "c = ''?''" for n
  proof -
    have "lx_literal (lx_pos s) (s1\<lparr>lx_placeholder_counter := n\<rparr>) = ''?''"
      using lx_advance_Some(2) [OF c] that by (simp add: lx_literal_def s1_def)
    then show ?thesis using scanned.placeholder [OF ahead_refl] unfolding add_token_def by metis
  qed
  have "scanned (lx_pos s) (lx_line s) (lx_column s) s1 (scan_token E s)"
    unfolding scan_token_def adv Let_def prod.case option.case
    by (intro scanned_if scanned_rules ph scanned.token scanned.error ahead_refl ahead_one ahead_two; (rule scanned.skip [OF ahead_refl])?)
  then show ?thesis unfolding s1_def .
qed


lemma ahead_induct_fields:
  assumes "ahead s s'" "P s" "\<And>t. P t \<Longrightarrow> P (lx_step t)"
  shows "P s'"
proof -
  from assms(1) obtain n where "s' = (lx_step ^^ n) s" by (auto simp: ahead_def)
  moreover have "P ((lx_step ^^ n) s)" by (induction n) (simp_all add: assms(2,3))
  ultimately show ?thesis by simp
qed

lemma ahead_left: "ahead s s' \<Longrightarrow> lx_left s' \<le> lx_left s"
  by (erule ahead_induct_fields) (simp_all add: le_trans [OF lx_left_step_le])

lemma lx_step_keeps [simp]: "lx_tokens (lx_step s) = lx_tokens s" "lx_errors (lx_step s) = lx_errors s"
  by (simp_all add: lx_advance_def split: option.split)

lemma lx_pos_step_bounds: "lx_pos s \<le> lx_pos (lx_step s)" "lx_pos s \<le> length (lx_input s) \<Longrightarrow> lx_pos (lx_step s) \<le> length (lx_input s)"
  by (auto simp: lx_advance_def lx_peek_def dest: next_char_Some split: option.split)

lemma ahead_keeps:
  assumes "ahead s s'"
  shows "lx_input s' = lx_input s" "lx_tokens s' = lx_tokens s" "lx_errors s' = lx_errors s" "lx_pos s \<le> lx_pos s'"
    "lx_pos s \<le> length (lx_input s) \<Longrightarrow> lx_pos s' \<le> length (lx_input s)"
proof -
  show "lx_input s' = lx_input s" by (rule ahead_induct_fields [OF assms]) simp_all
  show "lx_tokens s' = lx_tokens s" by (rule ahead_induct_fields [OF assms]) simp_all
  show "lx_errors s' = lx_errors s" by (rule ahead_induct_fields [OF assms]) simp_all
  show "lx_pos s \<le> lx_pos s'" by (rule ahead_induct_fields [OF assms]) (use lx_pos_step_bounds(1) le_trans in blast)+
  show "lx_pos s' \<le> length (lx_input s)" if "lx_pos s \<le> length (lx_input s)"
  proof -
    have "lx_input s' = lx_input s \<and> lx_pos s' \<le> length (lx_input s)"
      by (rule ahead_induct_fields [OF assms]) (use that lx_pos_step_bounds(2) in \<open>auto, metis\<close>)
    then show ?thesis ..
  qed
qed

lemma scan_token_left:
  assumes "\<not> lx_is_at_end s"
  shows "lx_left (scan_token E s) < lx_left s"
proof -
  have "lx_left (scan_token E s) \<le> lx_left (lx_step s)"
    using scan_token_scanned [OF assms, of E] by cases (simp_all add: ahead_left)
  with lx_left_next(1) [OF assms] show ?thesis by simp
qed

function lex_loop :: "sql_std \<Rightarrow> Lexer \<Rightarrow> Lexer" where
  "lex_loop E s = (if lx_is_at_end s then s else lex_loop E (scan_token E s))"
  by pat_completeness auto
termination
  by (relation "measure (\<lambda>(E, s). lx_left s)") (auto simp: scan_token_left)

declare lex_loop.simps [simp del]

definition tokenize :: "sql_std \<Rightarrow> string \<Rightarrow> LexError list + Token list" where
  "tokenize E input =
     (let s = lex_loop E (lexer_new input);
          tokens = lx_tokens s @ [token_new TEof (span_new (lx_pos s) (lx_pos s) (lx_line s) (lx_column s)) []]
      in if lx_errors s = [] then Inr tokens else Inl (lx_errors s))"

subsection \<open>Spans\<close>

text \<open>A token spells the input between its offsets, and the tokens follow each other without overlap.\<close>

definition spells :: "string \<Rightarrow> Token \<Rightarrow> bool" where
  "spells input t \<longleftrightarrow>
     sp_start (tk_span t) < sp_end (tk_span t) \<and> sp_end (tk_span t) \<le> length input \<and>
     tk_literal t = take (sp_end (tk_span t) - sp_start (tk_span t)) (drop (sp_start (tk_span t)) input)"

definition in_order :: "Token list \<Rightarrow> bool" where
  "in_order ts \<longleftrightarrow> sorted_wrt (\<lambda>a b. sp_end (tk_span a) \<le> sp_start (tk_span b)) ts"

definition lexed :: "string \<Rightarrow> Lexer \<Rightarrow> bool" where
  "lexed input s \<longleftrightarrow>
     lx_input s = input \<and> lx_pos s \<le> length input \<and> list_all (spells input) (lx_tokens s) \<and> in_order (lx_tokens s) \<and>
     list_all (\<lambda>t. sp_end (tk_span t) \<le> lx_pos s) (lx_tokens s) \<and>
     list_all (\<lambda>e. sp_end (le_span e) \<le> length input) (lx_errors s)"

lemma lexed_further:
  assumes "lexed input s" "lx_input s' = lx_input s" "lx_pos s \<le> lx_pos s'" "lx_pos s' \<le> length input"
    "lx_tokens s' = lx_tokens s" "lx_errors s' = lx_errors s"
  shows "lexed input s'"
  using assms by (auto simp: lexed_def list_all_iff)

lemma lexed_token:
  assumes "lexed input s'" "list_all (\<lambda>t. sp_end (tk_span t) \<le> start) (lx_tokens s')" "start < lx_pos s'"
  shows "lexed input (add_token k start l col s')"
  using assms
  by (auto simp: lexed_def add_token_def push_token_def make_span_def span_new_def token_new_def lx_literal_def spells_def in_order_def
      sorted_wrt_append list_all_iff)

lemma lexed_error: "lexed input s' \<Longrightarrow> lexed input (add_error m start l col s')"
  by (simp add: lexed_def add_error_def make_span_def span_new_def)

lemma lexed_scan_token:
  assumes "lexed input s"
  shows "lexed input (scan_token E s)"
proof (cases "lx_is_at_end s")
  case True
  then have "lx_peek s = None" by simp
  then have "scan_token E s = s" by (simp only: scan_token_def lx_advance_def option.case prod.case Let_def)
  with assms show ?thesis by simp
next
  case False
  then obtain c where c: "lx_peek s = Some c" using lx_peek_None by blast
  have pos: "lx_pos s < lx_pos (lx_step s)"
    using lx_advance_Some(3) [OF c] c next_char_Some by (auto simp: lx_peek_def)
  have mid: "lexed input s2 \<and> list_all (\<lambda>t. sp_end (tk_span t) \<le> lx_pos s) (lx_tokens s2) \<and> lx_pos s < lx_pos s2"
    if "ahead (lx_step s) s2" for s2
  proof -
    have "ahead s s2" using that by (rule ahead_step)
    note k = ahead_keeps [OF this] ahead_keeps(4) [OF that]
    have "lexed input s2" using assms k by (intro lexed_further [OF assms]) (auto simp: lexed_def)
    with k pos assms show ?thesis by (simp add: lexed_def)
  qed
  show ?thesis using scan_token_scanned [OF False, of E]
  proof cases
    case (placeholder s2 k n)
    have "lexed input (s2\<lparr>lx_placeholder_counter := n\<rparr>)" using mid [OF placeholder(2)] by (simp add: lexed_def)
    with mid [OF placeholder(2)] show ?thesis unfolding placeholder(1) by (intro lexed_token) simp_all
  qed (use mid in \<open>simp_all add: lexed_token lexed_error\<close>)
qed

lemma lexed_lex_loop: "lexed input s \<Longrightarrow> lexed input (lex_loop E s) \<and> lx_is_at_end (lex_loop E s)"
proof (induction E s rule: lex_loop.induct)
  case (1 E s)
  then show ?case by (subst (1 2) lex_loop.simps) (simp add: lexed_scan_token)
qed

lemma lexed_new: "lexed input (lexer_new input)"
  by (simp add: lexed_def lexer_new_def in_order_def)

text \<open>
  the tokens of an accepted text are slices of it.  When \<^verbatim>\<open>tokenize\<close> succeeds, its result is a list of tokens,
  each with a nonempty span whose text in the input is the literal of the token, no two of them
  overlapping and in the order of the text, followed by one \<^verbatim>\<open>Eof\<close> token at the end of the input.
\<close>

lemma tokens_spell_input:
  assumes "tokenize E input = Inr ts"
  shows "\<exists>body eof. ts = body @ [eof] \<and> tk_kind eof = TEof \<and> sp_start (tk_span eof) = length input \<and>
    sp_end (tk_span eof) = length input \<and> list_all (spells input) body \<and> in_order ts"
proof -
  define s where "s = lex_loop E (lexer_new input)"
  have s: "lexed input s" "lx_is_at_end s" using lexed_lex_loop [OF lexed_new] by (auto simp: s_def)
  then have pos: "lx_pos s = length input" by (auto simp: lexed_def lx_is_at_end_def)
  have "ts = lx_tokens s @ [token_new TEof (span_new (lx_pos s) (lx_pos s) (lx_line s) (lx_column s)) []]"
    using assms by (auto simp: tokenize_def s_def Let_def split: if_splits)
  with s pos show ?thesis
    by (auto simp: lexed_def token_new_def span_new_def in_order_def sorted_wrt_append list_all_iff)
qed


subsection \<open>String literals\<close>

text \<open>
  The quoting a caller needs: the quote and the backslash doubled.  A text is given as its characters,
  each the UTF-8 bytes its first byte announces.
\<close>

definition valid_char :: "string \<Rightarrow> bool" where
  "valid_char c \<longleftrightarrow> c \<noteq> [] \<and> length c = utf8_len (hd c)"

definition quote_char :: "string \<Rightarrow> string" where
  "quote_char c = (if c = [CHR 0x27] \<or> c = [CHR 0x5C] then c @ c else c)"

definition quote_string :: "string list \<Rightarrow> string" where
  "quote_string cs = [CHR 0x27] @ concat (map quote_char cs) @ [CHR 0x27]"

definition lx_rest :: "Lexer \<Rightarrow> string" where
  "lx_rest s = drop (lx_pos s) (lx_input s)"

lemma next_char_valid: "valid_char c \<Longrightarrow> next_char (c @ r) = Some c"
proof (cases c)
  case (Cons b d)
  assume "valid_char c"
  then have "utf8_len b = length c" using Cons by (simp add: valid_char_def)
  then have "take (utf8_len b) (c @ r) = c" by simp
  with Cons show ?thesis by (simp add: next_char_def)
qed (simp add: valid_char_def)

lemma lx_peek_rest: "lx_peek s = next_char (lx_rest s)"
  by (simp add: lx_peek_def lx_rest_def)

lemma lx_rest_step:
  assumes "lx_rest s = c @ r" "valid_char c"
  shows "lx_peek s = Some c" "lx_rest (lx_step s) = r"
proof -
  show c: "lx_peek s = Some c" using next_char_valid [OF assms(2)] assms(1) by (simp add: lx_peek_rest)
  have "lx_rest (lx_step s) = drop (length c) (lx_rest s)"
    using lx_advance_Some(3) [OF c] by (simp add: lx_rest_def add.commute)
  with assms(1) show "lx_rest (lx_step s) = r" by simp
qed

lemma valid_quote [simp]: "valid_char [CHR 0x27]" "valid_char [CHR 0x5C]"
  by (simp_all add: valid_char_def utf8_len_def)

lemma scan_string_loop_quoted:
  assumes "list_all valid_char cs" "lx_rest s = concat (map quote_char cs) @ [CHR 0x27] @ r" "next_char r \<noteq> Some [CHR 0x27]"
  shows "\<exists>s'. scan_string_loop [CHR 0x27] v s = (s', Some (v @ concat cs)) \<and> lx_rest s' = r"
  using assms(1,2)
proof (induction cs arbitrary: s v)
  case Nil
  have q: "lx_rest s = [CHR 0x27] @ r" using Nil by simp
  note s = lx_rest_step [OF q valid_quote(1)]
  show ?case using assms(3) s by (subst scan_string_loop.simps) (simp add: lx_peek_rest Let_def)
next
  case (Cons c cs)
  let ?t = "concat (map quote_char cs) @ [CHR 0x27] @ r"
  have c: "valid_char c" "list_all valid_char cs" using Cons.prems by simp_all
  show ?case
  proof (cases "c = [CHR 0x27] \<or> c = [CHR 0x5C]")
    case True
    have "quote_char c = c @ c" using True by (simp add: quote_char_def)
    then have r: "lx_rest s = c @ c @ ?t" using Cons.prems(2) by simp
    note s1 = lx_rest_step [OF r c(1)] and s2 = lx_rest_step [OF lx_rest_step(2) [OF r c(1)] c(1)]
    have "scan_string_loop [CHR 0x27] v s = scan_string_loop [CHR 0x27] (v @ c) (lx_step (lx_step s))"
      by (subst scan_string_loop.simps) (use True s1(1) s2(1) in \<open>auto simp: Let_def escape_char_def\<close>)
    with Cons.IH [OF c(2) s2(2), of "v @ c"] show ?thesis by simp
  next
    case False
    have "quote_char c = c" using False by (simp add: quote_char_def)
    then have r: "lx_rest s = c @ ?t" using Cons.prems(2) by simp
    note s1 = lx_rest_step [OF r c(1)]
    have "scan_string_loop [CHR 0x27] v s = scan_string_loop [CHR 0x27] (v @ c) (lx_step s)"
      by (subst scan_string_loop.simps) (use False s1(1) in simp)
    with Cons.IH [OF c(2) s1(2), of "v @ c"] show ?thesis by simp
  qed
qed

text \<open>
  quoting round trip.  Where the rest of the input is a text quoted by doubling its quotes and its
  backslashes, followed by anything that does not begin with another quote, scanning one token yields exactly that text as one
  string token and stops exactly behind the closing quote: no text can break out of its literal.
\<close>

lemma string_literal_roundtrip:
  assumes "list_all valid_char cs" "lx_rest s = quote_string cs @ r" "next_char r \<noteq> Some [CHR 0x27]"
  shows "\<exists>t. tk_kind t = TString (concat cs) \<and> lx_tokens (scan_token E s) = lx_tokens s @ [t] \<and>
    lx_errors (scan_token E s) = lx_errors s \<and> lx_rest (scan_token E s) = r"
proof -
  have q: "lx_rest s = [CHR 0x27] @ concat (map quote_char cs) @ [CHR 0x27] @ r" using assms(2) by (simp add: quote_string_def)
  note s1 = lx_rest_step [OF q valid_quote(1)]
  obtain s' where s': "scan_string_loop [CHR 0x27] [] (lx_step s) = (s', Some (concat cs))" "lx_rest s' = r"
    using scan_string_loop_quoted [OF assms(1) s1(2) assms(3), of "[]"] by auto
  have "ahead (lx_step s) s'" using scan_string_loop_ahead [of "lx_step s" "[CHR 0x27]" "[]"] s' by simp
  note k = ahead_keeps [OF this]
  define u where "u = lx_step s"
  have adv: "lx_advance s = (u, Some [CHR 0x27])" using lx_advance_Some(1) [OF s1(1)] by (simp add: u_def)
  have "scan_token E s = scan_string [CHR 0x27] (lx_pos s) (lx_line s) (lx_column s) u"
    unfolding scan_token_def adv Let_def prod.case option.case by simp
  then have "scan_token E s = push_token (TString (concat cs)) (lx_literal (lx_pos s) s') (lx_pos s) (lx_line s) (lx_column s) s'"
    using s'(1) by (simp add: scan_string_def u_def)
  then show ?thesis using k s'(2) by (simp add: push_token_def token_new_def lx_rest_def)
qed


definition demo_std :: sql_std where
  "demo_std = \<lparr>std_f64 = (\<lambda>s. word_of_int (decimal_value (filter (\<lambda>c. is_ascii_digit [c]) s))), std_debug = (\<lambda>k. ''token'')\<rparr>"

subsection \<open>Corners of the lexical syntax\<close>

text \<open>The kinds of the tokens, or the messages of the errors.\<close>

definition token_kinds :: "string \<Rightarrow> string list + TokenKind list" where
  "token_kinds input = map_sum (map le_message) (map tk_kind) (tokenize demo_std input)"

text \<open>
  A line comment that starts with a star is read as a block comment; a blob without its closing quote is
  accepted; doubling the quotes alone does not keep a text inside its literal; and the largest magnitude of
  \<^verbatim>\<open>i64\<close> is no literal, since the sign is another token.
\<close>

lemma line_comment_with_star: "token_kinds ''1//* a'' = Inl [''Unterminated block comment'']"
  by code_simp

lemma unterminated_blob: "token_kinds (''X'' @ [CHR 0x27] @ ''48'') = Inr [TBlob [0x48], TEof]"
  by code_simp

lemma doubled_quotes_break_out:
  "token_kinds ([CHR 0x27] @ [CHR 0x5C] @ [CHR 0x27, CHR 0x27] @ ''+'' @ [CHR 0x27]) = Inl [''Unterminated string literal'']"
  by code_simp

lemma least_i64_rejected: "token_kinds ''-9223372036854775808'' = Inl [''Invalid integer literal'']"
  by code_simp

end
