(* ===== verification/Sql_Ast.thy ===== *)
theory Sql_Ast
  imports Sql_Token
begin

text \<open>
  \<^verbatim>\<open>sochdb-query/src/sql/ast.rs\<close>: the statements and expressions the parser builds.  The mutually recursive
  structures are one datatype declaration; a structure that no expression contains is a record.  A constructor carries the name of its
  enumeration where the bare name occurs twice.
\<close>

subsection \<open>Enumerations\<close>

datatype SetOp = SetUnion | SetUnionAll | SetIntersect | SetIntersectAll | SetExcept | SetExceptAll

datatype JoinType = JoinInner | JoinLeft | JoinRight | JoinFull | JoinCross

datatype ReferentialAction = NoAction | Restrict | Cascade | SetNull | ActionSetDefault

datatype IndexType = BTree | Hash | Gin | Gist | Hnsw | Vamana

datatype SqlIsolation = ReadUncommitted | ReadCommitted | RepeatableRead | Serializable | Snapshot

datatype BinaryOperator =
    BinPlus | BinMinus | BinMultiply | BinDivide | BinModulo
  | BinEq | BinNe | BinLt | BinLe | BinGt | BinGe
  | BinAnd | BinOr
  | BinConcat | BinLike
  | BinBitAnd | BinBitOr | BinBitXor | BinLeftShift | BinRightShift
  | BinGraphRight | BinGraphLeft | BinGraphBi

datatype UnaryOperator = UnPlus | UnMinus | UnNot | UnBitNot

datatype WindowFrameKind = FrameRows | FrameRange | FrameGroups

datatype VectorMetric = Cosine | Euclidean | DotProduct | Manhattan

datatype PermissionOp = PermSelect | PermCreate | PermUpdate | PermDelete

datatype SqlDataType =
    TyTinyInt | TySmallInt | TyInt | TyBigInt | TyFloat | TyDouble
  | TyDecimal "u32 option" "u32 option"
  | TyChar "u32 option" | TyVarchar "u32 option" | TyText
  | TyBinary "u32 option" | TyVarbinary "u32 option" | TyBlob
  | TyDate | TyTime | TyTimestamp | TyDateTime | TyInterval
  | TyBoolean
  | TyJson | TyJsonb
  | TyVector u32 | TyEmbedding u32
  | TyCustom string

datatype Literal =
    LitNull | LitBoolean bool | LitInteger int | LitFloat u64 | LitString string | LitBlob bytes

record ColumnRef =
  cr_table :: "string option"
  cr_column :: string

definition column_ref_new :: "string \<Rightarrow> ColumnRef" where
  "column_ref_new column = \<lparr>cr_table = None, cr_column = column\<rparr>"

definition column_ref_qualified :: "string \<Rightarrow> string \<Rightarrow> ColumnRef" where
  "column_ref_qualified table column = \<lparr>cr_table = Some table, cr_column = column\<rparr>"

subsection \<open>Names\<close>

record ObjectName =
  on_parts :: "string list"

definition object_name_new :: "string \<Rightarrow> ObjectName" where
  "object_name_new name = \<lparr>on_parts = [name]\<rparr>"

definition object_name_qualified :: "string \<Rightarrow> string \<Rightarrow> ObjectName" where
  "object_name_qualified schema name = \<lparr>on_parts = [schema, name]\<rparr>"

definition object_name_name :: "ObjectName \<Rightarrow> string" where
  "object_name_name n = (if on_parts n = [] then [] else last (on_parts n))"

definition object_name_schema :: "ObjectName \<Rightarrow> string option" where
  "object_name_schema n = (if 1 < length (on_parts n) then Some (on_parts n ! (length (on_parts n) - 2)) else None)"

fun join_dots :: "string list \<Rightarrow> string" where
  "join_dots [] = []"
| "join_dots [p] = p"
| "join_dots (p # ps) = p @ ''.'' @ join_dots ps"

definition object_name_display :: "ObjectName \<Rightarrow> string" where
  "object_name_display n = join_dots (on_parts n)"

subsection \<open>Expressions and queries\<close>

datatype (plugins only: code) 'e WindowFrameBound =
  CurrentRow | Preceding "'e option" | Following "'e option"

datatype (plugins only: code) 'e WindowFrame =
  WindowFrame (wf_kind: WindowFrameKind) (wf_start: "'e WindowFrameBound") (wf_end: "'e WindowFrameBound option")

datatype (plugins only: code) 'e OrderByItem =
  OrderByItem (ob_expr: 'e) (ob_asc: bool) (ob_nulls_first: "bool option")

datatype (plugins only: code) 'e WindowSpec =
  WindowSpec (ws_partition_by: "'e list") (ws_order_by: "'e OrderByItem list") (ws_frame: "'e WindowFrame option")

datatype (plugins only: code) 'e FunctionCall =
  FunctionCall (fc_name: ObjectName) (fc_args: "'e list") (fc_distinct: bool) (fc_filter: "'e option") (fc_over: "'e WindowSpec option")

datatype (plugins only: code) 'e SelectItem =
  Wildcard | QualifiedWildcard string | SelectExpr 'e "string option"

datatype (plugins only: code) 'e JoinCondition =
  JoinOn 'e | JoinUsing "string list" | JoinNatural

datatype (plugins only: code) 't FromClause =
  FromClause (from_tables: "'t list")

datatype (plugins only: code) Expr =
    ELiteral Literal
  | EColumn ColumnRef
  | EBinaryOp Expr BinaryOperator Expr
  | EUnaryOp UnaryOperator Expr
  | EFunction "Expr FunctionCall"
  | ECase "Expr option" "(Expr \<times> Expr) list" "Expr option"
  | ESubquery SelectStmt
  | EExists SelectStmt
  | EInList Expr "Expr list" bool
  | EInSubquery Expr SelectStmt bool
  | EBetween Expr Expr Expr bool
  | ELike Expr Expr "Expr option" bool
  | EIsNull Expr bool
  | ECast Expr SqlDataType
  | EPlaceholder u32
  | EArray "Expr list"
  | ETuple "Expr list"
  | ESubscript Expr Expr
  | EVector "u32 list"
  | EVectorSearch Expr Expr u32 VectorMetric
  | EJsonAccess Expr Expr bool
  | EContextWindow Expr u32 "Expr option"
  | ERecordId string Expr
and TableRef =
    TableName ObjectName "string option"
  | TableSubquery SelectStmt string
  | TableJoin TableRef JoinType TableRef "Expr JoinCondition option"
  | TableFunction string "Expr list" "string option"
and SelectStmt =
    SelectStmt (sel_span: Span) (sel_distinct: bool) (sel_columns: "Expr SelectItem list") (sel_from: "TableRef FromClause option")
      (sel_where: "Expr option") (sel_group_by: "Expr list") (sel_having: "Expr option") (sel_order_by: "Expr OrderByItem list")
      (sel_limit: "Expr option") (sel_offset: "Expr option") (sel_unions: "(SetOp \<times> SelectStmt) list")

subsection \<open>Data manipulation\<close>

record Assignment =
  as_column :: string
  as_value :: Expr

datatype InsertSource =
  InsertValues "Expr list list" | InsertQuery SelectStmt | InsertDefault

datatype ConflictTarget =
  ConflictColumns "string list" | ConflictConstraint string

datatype ConflictAction =
  DoNothing | DoUpdate "Assignment list" | DoReplace | DoAbort | DoFail

record OnConflict =
  oc_target :: "ConflictTarget option"
  oc_action :: ConflictAction

record InsertStmt =
  ins_span :: Span
  ins_table :: ObjectName
  ins_columns :: "string list option"
  ins_source :: InsertSource
  ins_on_conflict :: "OnConflict option"
  ins_returning :: "Expr SelectItem list option"

record UpdateStmt =
  upd_span :: Span
  upd_table :: ObjectName
  upd_alias :: "string option"
  upd_assignments :: "Assignment list"
  upd_from :: "TableRef FromClause option"
  upd_where :: "Expr option"
  upd_returning :: "Expr SelectItem list option"

record DeleteStmt =
  del_span :: Span
  del_table :: ObjectName
  del_alias :: "string option"
  del_using :: "TableRef FromClause option"
  del_where :: "Expr option"
  del_returning :: "Expr SelectItem list option"

subsection \<open>Data definition\<close>

datatype ColumnConstraint =
    ColNotNull
  | ColNull
  | ColUnique
  | ColPrimaryKey
  | ColDefault Expr
  | ColCheck Expr
  | ColReferences ObjectName "string list" "ReferentialAction option" "ReferentialAction option"
  | ColAutoIncrement
  | ColGenerated Expr bool

datatype TableConstraint =
    TabPrimaryKey "string option" "string list"
  | TabUnique "string option" "string list"
  | TabForeignKey "string option" "string list" ObjectName "string list" "ReferentialAction option" "ReferentialAction option"
  | TabCheck "string option" Expr

record SqlColumnDef =
  cd_name :: string
  cd_data_type :: SqlDataType
  cd_constraints :: "ColumnConstraint list"

record TableOption =
  to_name :: string
  to_value :: string

record CreateTableStmt =
  ct_span :: Span
  ct_if_not_exists :: bool
  ct_name :: ObjectName
  ct_columns :: "SqlColumnDef list"
  ct_constraints :: "TableConstraint list"
  ct_options :: "TableOption list"

record DropTableStmt =
  dt_span :: Span
  dt_if_exists :: bool
  dt_names :: "ObjectName list"
  dt_cascade :: bool

datatype AlterColumnOp =
  SetType SqlDataType | SetNotNull | DropNotNull | SetDefault Expr | DropDefault

datatype AlterTableOp =
    AddColumn SqlColumnDef
  | DropColumn string bool
  | AlterColumn string AlterColumnOp
  | AddConstraint TableConstraint
  | DropConstraint string bool
  | RenameTable ObjectName
  | RenameColumn string string

record AlterTableStmt =
  at_span :: Span
  at_name :: ObjectName
  at_operations :: "AlterTableOp list"

record IndexColumn =
  ic_name :: string
  ic_asc :: bool
  ic_nulls_first :: "bool option"

record CreateIndexStmt =
  ci_span :: Span
  ci_unique :: bool
  ci_if_not_exists :: bool
  ci_name :: string
  ci_table :: ObjectName
  ci_columns :: "IndexColumn list"
  ci_where :: "Expr option"
  ci_index_type :: "IndexType option"

record DropIndexStmt =
  di_span :: Span
  di_if_exists :: bool
  di_name :: string
  di_table :: "ObjectName option"
  di_cascade :: bool

record BeginStmt =
  bg_read_only :: bool
  bg_isolation_level :: "SqlIsolation option"

subsection \<open>Security, graph and live queries\<close>

record DefineScopeStmt =
  sc_name :: string
  sc_session_duration_secs :: "u64 option"
  sc_signin :: "Expr option"
  sc_signup :: "Expr option"

record TablePermission =
  tp_operation :: PermissionOp
  tp_condition :: Expr

record DefineTablePermissionsStmt =
  dp_table :: ObjectName
  dp_permissions :: "TablePermission list"

record RelateStmt =
  rel_span :: Span
  rel_from :: Expr
  rel_edge :: ObjectName
  rel_to :: Expr
  rel_set :: "Assignment list"
  rel_content :: "Expr option"
  rel_returning :: "Expr SelectItem list option"

record LiveSelectStmt =
  lv_span :: Span
  lv_select :: SelectStmt
  lv_diff :: bool

record DefineEventStmt =
  ev_span :: Span
  ev_name :: string
  ev_table :: ObjectName
  ev_condition :: Expr
  ev_action :: Expr

subsection \<open>Statements\<close>

datatype (plugins only: code) Statement =
    StSelect SelectStmt
  | StInsert InsertStmt
  | StUpdate UpdateStmt
  | StDelete DeleteStmt
  | StCreateTable CreateTableStmt
  | StDropTable DropTableStmt
  | StAlterTable AlterTableStmt
  | StCreateIndex CreateIndexStmt
  | StDropIndex DropIndexStmt
  | StBegin BeginStmt
  | StCommit
  | StRollback "string option"
  | StSavepoint string
  | StRelease string
  | StExplain Statement
  | StDefineScope DefineScopeStmt
  | StDefineTablePermissions DefineTablePermissionsStmt
  | StRemoveScope string
  | StRelate RelateStmt
  | StLiveSelect LiveSelectStmt
  | StDefineEvent DefineEventStmt

end
