(* ===== verification/Sql_Parser.thy ===== *)
theory Sql_Parser
  imports Sql_Lexer Sql_Ast
begin

text \<open>
  \<^verbatim>\<open>sochdb-query/src/sql/parser.rs\<close>: the recursive-descent parser.  A method is a function of the parser's state that
  fails or returns a value and the new state.  The recursive calls go through a record of parsers, \<open>penv\<close>;
  \<open>parse_rec n\<close> is the parser that may nest \<open>n\<close> of them, and \<open>Unbounded\<close> is the outcome of nesting deeper or of a loop that makes no progress.
\<close>

subsection \<open>State and outcomes\<close>

record ParseError =
  pe_message :: string
  pe_span :: Span
  pe_expected :: "string list"

definition parse_error_new :: "string \<Rightarrow> Span \<Rightarrow> ParseError" where
  "parse_error_new message span = \<lparr>pe_message = message, pe_span = span, pe_expected = []\<rparr>"

definition parse_error_expected :: "string \<Rightarrow> ParseError \<Rightarrow> ParseError" where
  "parse_error_expected e err = err\<lparr>pe_expected := pe_expected err @ [e]\<rparr>"

definition MAX_EXPR_DEPTH :: nat where
  "MAX_EXPR_DEPTH = 256"

record Parser =
  ps_tokens :: "Token list"
  ps_pos :: nat
  ps_depth :: nat

definition parser_new :: "Token list \<Rightarrow> Parser" where
  "parser_new tokens = \<lparr>ps_tokens = tokens, ps_pos = 0, ps_depth = 0\<rparr>"

datatype parse_failure = Rejected ParseError | Panicked | Unbounded

type_synonym 'a parse = "Parser \<Rightarrow> parse_failure + 'a \<times> Parser"

definition p_return :: "'a \<Rightarrow> 'a parse" where
  "p_return a s = Inr (a, s)"

definition p_bind :: "'a parse \<Rightarrow> ('a \<Rightarrow> 'b parse) \<Rightarrow> 'b parse" where
  "p_bind p f s = (case p s of Inl e \<Rightarrow> Inl e | Inr (a, s') \<Rightarrow> f a s')"

definition p_map :: "('a \<Rightarrow> 'b) \<Rightarrow> 'a parse \<Rightarrow> 'b parse" where
  "p_map f p = p_bind p (\<lambda>a. p_return (f a))"

subsection \<open>Helper methods\<close>

definition peek_nth :: "nat \<Rightarrow> Token parse" where
  "peek_nth n s =
     (if ps_tokens s = [] then Inl Panicked
      else if ps_pos s + n < length (ps_tokens s) then Inr (ps_tokens s ! (ps_pos s + n), s)
      else Inr (last (ps_tokens s), s))"

definition peek :: "Token parse" where
  "peek = peek_nth 0"

definition peek_kind :: "TokenKind parse" where
  "peek_kind = p_map tk_kind peek"

definition ps_is_at_end :: "bool parse" where
  "ps_is_at_end = p_map (\<lambda>k. k = TEof) peek_kind"

definition current_span :: "Span parse" where
  "current_span = p_map tk_span peek"

definition bump :: "Parser \<Rightarrow> Parser" where
  "bump s = s\<lparr>ps_pos := ps_pos s + 1\<rparr>"

definition ps_previous :: "Token parse" where
  "ps_previous s =
     (if ps_pos s = 0 \<or> length (ps_tokens s) \<le> ps_pos s - 1 then Inl Panicked else Inr (ps_tokens s ! (ps_pos s - 1), s))"

definition ps_advance :: "Token parse" where
  "ps_advance = p_bind ps_is_at_end (\<lambda>at_end. if at_end then ps_previous else (\<lambda>s. ps_previous (bump s)))"

definition check :: "TokenKind \<Rightarrow> bool parse" where
  "check kind = p_map (\<lambda>k. discriminant k = discriminant kind) peek_kind"

definition check_keyword :: "TokenKind \<Rightarrow> bool parse" where
  "check_keyword kw = p_map (\<lambda>k. k = kw) peek_kind"

definition match_token :: "TokenKind \<Rightarrow> bool parse" where
  "match_token kind = p_bind (check kind) (\<lambda>b. if b then p_bind ps_advance (\<lambda>_. p_return True) else p_return False)"

text \<open>\<^verbatim>\<open>Err(ParseError::new(message, self.current_span()))\<close>\<close>

definition p_error :: "string \<Rightarrow> 'a parse" where
  "p_error message = p_bind current_span (\<lambda>span s. Inl (Rejected (parse_error_new message span)))"

definition p_error_expected :: "string \<Rightarrow> string \<Rightarrow> 'a parse" where
  "p_error_expected message e =
     p_bind current_span (\<lambda>span s. Inl (Rejected (parse_error_expected e (parse_error_new message span))))"

definition expect :: "sql_std \<Rightarrow> TokenKind \<Rightarrow> string \<Rightarrow> Token parse" where
  "expect E kind message =
     p_bind (check kind) (\<lambda>b. if b then ps_advance else p_error_expected message (std_debug E kind))"

definition identifier_name :: "TokenKind \<Rightarrow> string option" where
  "identifier_name k = (case k of TIdentifier name \<Rightarrow> Some name | TQuotedIdentifier name \<Rightarrow> Some name | _ \<Rightarrow> None)"

definition plain_identifier :: "TokenKind \<Rightarrow> string option" where
  "plain_identifier k = (case k of TIdentifier name \<Rightarrow> Some name | _ \<Rightarrow> None)"

definition integer_literal :: "TokenKind \<Rightarrow> int option" where
  "integer_literal k = (case k of TInteger n \<Rightarrow> Some n | _ \<Rightarrow> None)"

definition expect_identifier :: "string \<Rightarrow> string parse" where
  "expect_identifier message =
     p_bind peek_kind (\<lambda>k.
       case identifier_name k of
         Some name \<Rightarrow> p_bind ps_advance (\<lambda>_. p_return name)
       | None \<Rightarrow> p_error_expected message ''identifier'')"

subsection \<open>Control structure\<close>

text \<open>
  \<^verbatim>\<open>if self.match_token(kind) { p } else { q }\<close>; an optional clause; a loop whose body breaks with \<open>Inl\<close> and
  continues with \<open>Inr\<close>, its measure the number of tokens left; \<^verbatim>\<open>while self.match_token(kind)\<close>; a comma-separated list.
\<close>

definition p_if :: "TokenKind \<Rightarrow> 'a parse \<Rightarrow> 'a parse \<Rightarrow> 'a parse" where
  "p_if kind p q = p_bind (match_token kind) (\<lambda>b. if b then p else q)"

definition p_optional :: "TokenKind \<Rightarrow> 'a parse \<Rightarrow> 'a option parse" where
  "p_optional kind p = p_if kind (p_map Some p) (p_return None)"

definition ps_left :: "Parser \<Rightarrow> nat" where
  "ps_left s = length (ps_tokens s) - 1 - ps_pos s"

function p_loop :: "('a \<Rightarrow> ('b + 'a) parse) \<Rightarrow> 'a \<Rightarrow> 'b parse" where
  "p_loop body a s =
     (case body a s of
        Inl e \<Rightarrow> Inl e
      | Inr (Inl b, s') \<Rightarrow> Inr (b, s')
      | Inr (Inr a', s') \<Rightarrow> if ps_left s' < ps_left s then p_loop body a' s' else Inl Unbounded)"
  by pat_completeness auto
termination
  by (relation "measure (\<lambda>(body, a, s). ps_left s)") auto

declare p_loop.simps [simp del]

definition p_while :: "TokenKind \<Rightarrow> ('a \<Rightarrow> 'a parse) \<Rightarrow> 'a \<Rightarrow> 'a parse" where
  "p_while kind body a = p_loop (\<lambda>a. p_if kind (p_map Inr (body a)) (p_return (Inl a))) a"

definition p_commas :: "'a parse \<Rightarrow> 'a list parse" where
  "p_commas item = p_bind item (\<lambda>x. p_while TComma (\<lambda>xs. p_map (\<lambda>y. xs @ [y]) item) [x])"

text \<open>\<open>left op right op \<dots>\<close>, folded to the left, for the operators that \<open>f\<close> recognises.\<close>

definition p_binary :: "(TokenKind \<Rightarrow> BinaryOperator option) \<Rightarrow> Expr parse \<Rightarrow> Expr \<Rightarrow> Expr parse" where
  "p_binary f operand left =
     p_loop (\<lambda>left. p_bind peek_kind (\<lambda>k.
       case f k of
         None \<Rightarrow> p_return (Inl left)
       | Some op \<Rightarrow> p_bind ps_advance (\<lambda>_. p_map (\<lambda>right. Inr (EBinaryOp left op right)) operand))) left"

subsection \<open>The recursive calls\<close>

record penv =
  pv_std :: sql_std
  pv_expr :: "Expr parse"
  pv_not :: "Expr parse"
  pv_unary :: "Expr parse"
  pv_primary :: "Expr parse"
  pv_select :: "SelectStmt parse"

abbreviation expect_token :: "penv \<Rightarrow> TokenKind \<Rightarrow> string \<Rightarrow> Token parse" where
  "expect_token c \<equiv> expect (pv_std c)"

abbreviation debug_token :: "penv \<Rightarrow> TokenKind \<Rightarrow> string" where
  "debug_token c \<equiv> std_debug (pv_std c)"

text \<open>A text of a message that the source puts between quotes.\<close>

definition qt :: "string \<Rightarrow> string" where
  "qt s = [CHR 0x27] @ s @ [CHR 0x27]"

subsection \<open>Names and lists\<close>

definition parse_object_name :: "ObjectName parse" where
  "parse_object_name =
     p_bind (expect_identifier ''Expected identifier'') (\<lambda>first.
     p_map (\<lambda>parts. \<lparr>on_parts = parts\<rparr>)
       (p_loop (\<lambda>parts. p_if TDot
          (p_bind (check TStar) (\<lambda>star.
             if star then p_return (Inl parts)
             else p_map (\<lambda>part. Inr (parts @ [part])) (expect_identifier (''Expected identifier after '' @ qt ''.''))))
          (p_return (Inl parts))) [first]))"

definition parse_identifier_list :: "string list parse" where
  "parse_identifier_list = p_commas (expect_identifier ''Expected identifier'')"

definition parse_expr_list :: "penv \<Rightarrow> Expr list parse" where
  "parse_expr_list c = p_commas (pv_expr c)"

definition parse_order_by_item :: "penv \<Rightarrow> Expr OrderByItem parse" where
  "parse_order_by_item c =
     p_bind (pv_expr c) (\<lambda>expr.
     p_bind (p_if TDesc (p_return False) (p_map (\<lambda>_. True) (match_token TAsc))) (\<lambda>asc.
     p_bind (p_if TNulls
        (p_if TFirst (p_return (Some True)) (p_if TLast (p_return (Some False)) (p_error ''Expected FIRST or LAST after NULLS'')))
        (p_return None)) (\<lambda>nulls_first.
     p_return (OrderByItem expr asc nulls_first))))"

definition parse_order_by_list :: "penv \<Rightarrow> Expr OrderByItem list parse" where
  "parse_order_by_list c = p_commas (parse_order_by_item c)"


subsection \<open>Types\<close>

text \<open>\<^verbatim>\<open>*n as u32\<close>\<close>

definition as_u32 :: "int \<Rightarrow> u32" where
  "as_u32 n = word_of_int n"

definition parse_type_length :: "penv \<Rightarrow> u32 option parse" where
  "parse_type_length c =
     p_if TLParen
       (p_bind peek_kind (\<lambda>k.
          case integer_literal k of
            Some n \<Rightarrow>
              p_bind ps_advance (\<lambda>_.
              p_bind (expect_token c TRParen (''Expected '' @ qt '')'')) (\<lambda>_.
              p_return (Some (as_u32 n))))
          | None \<Rightarrow> p_error ''Expected integer''))
       (p_return None)"

definition simple_types :: "(TokenKind \<times> SqlDataType) list" where
  "simple_types =
     [(TInt, TyInt), (TIntegerKw, TyInt), (TBigint, TyBigInt), (TSmallint, TySmallInt), (TTinyint, TyTinyInt), (TFloatKw, TyFloat),
      (TReal, TyFloat), (TDouble, TyDouble), (TText, TyText), (TBlobKw, TyBlob), (TBoolean, TyBoolean), (TBool, TyBoolean),
      (TDate, TyDate), (TTime, TyTime), (TTimestamp, TyTimestamp), (TDatetime, TyTimestamp)]"

definition sized_types :: "(TokenKind \<times> (u32 option \<Rightarrow> SqlDataType)) list" where
  "sized_types =
     [(TVarchar, TyVarchar), (TChar, TyChar),
      (TVector, \<lambda>len. TyVector (case len of Some n \<Rightarrow> n | None \<Rightarrow> 128)),
      (TEmbedding, \<lambda>len. TyEmbedding (case len of Some n \<Rightarrow> n | None \<Rightarrow> 1536))]"

definition parse_data_type :: "penv \<Rightarrow> SqlDataType parse" where
  "parse_data_type c =
     p_bind peek_kind (\<lambda>k.
       case map_of simple_types k of
         Some ty \<Rightarrow> p_bind ps_advance (\<lambda>_. p_return ty)
       | None \<Rightarrow>
           (case map_of sized_types k of
              Some mk \<Rightarrow> p_bind ps_advance (\<lambda>_. p_map mk (parse_type_length c))
            | None \<Rightarrow>
                (case plain_identifier k of
                   Some name \<Rightarrow> p_bind ps_advance (\<lambda>_. p_return (TyCustom name))
                 | None \<Rightarrow> p_error (''Expected data type, got '' @ debug_token c k))))"

subsection \<open>Queries\<close>

definition qualified_wildcard :: "string option parse" where
  "qualified_wildcard =
     p_bind peek (\<lambda>t0. p_bind (peek_nth 1) (\<lambda>t1. p_bind (peek_nth 2) (\<lambda>t2.
       p_return (if tk_kind t1 = TDot \<and> tk_kind t2 = TStar then plain_identifier (tk_kind t0) else None))))"

definition parse_select_alias :: "string option parse" where
  "parse_select_alias =
     p_if TAs (p_map Some (expect_identifier ''Expected alias after AS''))
       (p_bind peek_kind (\<lambda>k.
          case plain_identifier k of
            Some name \<Rightarrow>
              (if k \<noteq> TFrom \<and> k \<noteq> TWhere \<and> discriminant k \<noteq> discriminant TComma \<and> k \<noteq> TOrder \<and> k \<noteq> TGroup \<and> k \<noteq> TLimit \<and> k \<noteq> TEof
               then p_bind ps_advance (\<lambda>_. p_return (Some name)) else p_return None)
          | None \<Rightarrow> p_return None))"

definition parse_select_item :: "penv \<Rightarrow> Expr SelectItem parse" where
  "parse_select_item c =
     p_if TStar (p_return Wildcard)
       (p_bind qualified_wildcard (\<lambda>w.
          case w of
            Some table \<Rightarrow>
              p_bind ps_advance (\<lambda>_. p_bind ps_advance (\<lambda>_. p_bind ps_advance (\<lambda>_. p_return (QualifiedWildcard table))))
          | None \<Rightarrow>
              p_bind (pv_expr c) (\<lambda>expr. p_map (SelectExpr expr) parse_select_alias)))"

definition parse_select_list :: "penv \<Rightarrow> Expr SelectItem list parse" where
  "parse_select_list c = p_commas (parse_select_item c)"

definition parse_table_alias :: "string option parse" where
  "parse_table_alias =
     p_if TAs (p_map Some (expect_identifier ''Expected alias after AS''))
       (p_bind peek_kind (\<lambda>k.
          case plain_identifier k of
            Some alias \<Rightarrow> if \<not> is_keyword k then p_bind ps_advance (\<lambda>_. p_return (Some alias)) else p_return None
          | None \<Rightarrow> p_return None))"

definition parse_table_primary :: "penv \<Rightarrow> TableRef parse" where
  "parse_table_primary c =
     p_if TLParen
       (p_bind (pv_select c) (\<lambda>query.
        p_bind (expect_token c TRParen (''Expected '' @ qt '')'' @ '' after subquery'')) (\<lambda>_.
        p_bind (match_token TAs) (\<lambda>_.
        p_map (TableSubquery query) (expect_identifier ''Subquery requires an alias'')))))
       (p_bind parse_object_name (\<lambda>name. p_map (TableName name) parse_table_alias))"

definition parse_join_type :: "penv \<Rightarrow> JoinType option parse" where
  "parse_join_type c =
     p_if TCross (p_map (\<lambda>_. Some JoinCross) (expect_token c TJoin ''Expected JOIN after CROSS''))
     (p_if TInner (p_map (\<lambda>_. Some JoinInner) (expect_token c TJoin ''Expected JOIN after INNER''))
     (p_if TLeft
        (p_bind (match_token TOuter) (\<lambda>_. p_map (\<lambda>_. Some JoinLeft) (expect_token c TJoin ''Expected JOIN after LEFT'')))
     (p_if TRight
        (p_bind (match_token TOuter) (\<lambda>_. p_map (\<lambda>_. Some JoinRight) (expect_token c TJoin ''Expected JOIN after RIGHT'')))
     (p_if TJoin (p_return (Some JoinInner)) (p_return None)))))"

definition parse_join_condition :: "penv \<Rightarrow> JoinType \<Rightarrow> Expr JoinCondition option parse" where
  "parse_join_condition c join_type =
     (if join_type = JoinCross then p_return None
      else p_if TOn (p_map (\<lambda>e. Some (JoinOn e)) (pv_expr c))
        (p_if TUsing
           (p_bind (expect_token c TLParen (''Expected '' @ qt ''('' @ '' after USING'')) (\<lambda>_.
            p_bind parse_identifier_list (\<lambda>columns.
            p_bind (expect_token c TRParen (''Expected '' @ qt '')'' @ '' after USING columns'')) (\<lambda>_.
            p_return (Some (JoinUsing columns))))))
           (p_error ''Expected ON or USING clause for JOIN'')))"

definition parse_table_ref :: "penv \<Rightarrow> TableRef parse" where
  "parse_table_ref c =
     p_bind (parse_table_primary c) (\<lambda>table.
       p_loop (\<lambda>table.
         p_bind (parse_join_type c) (\<lambda>j.
           case j of
             None \<Rightarrow> p_return (Inl table)
           | Some join_type \<Rightarrow>
               p_bind (parse_table_primary c) (\<lambda>right.
               p_map (\<lambda>condition. Inr (TableJoin table join_type right condition)) (parse_join_condition c join_type)))) table)"

definition parse_from_clause :: "penv \<Rightarrow> TableRef FromClause parse" where
  "parse_from_clause c = p_map FromClause (p_commas (parse_table_ref c))"

definition parse_set_op :: "SetOp option parse" where
  "parse_set_op =
     p_if TUnion (p_if TAll (p_return (Some SetUnionAll)) (p_return (Some SetUnion)))
     (p_if TIntersect (p_if TAll (p_return (Some SetIntersectAll)) (p_return (Some SetIntersect)))
     (p_if TExcept (p_if TAll (p_return (Some SetExceptAll)) (p_return (Some SetExcept)))
     (p_return None)))"

definition parse_unions :: "penv \<Rightarrow> (SetOp \<times> SelectStmt) list parse" where
  "parse_unions c =
     p_loop (\<lambda>unions.
       p_bind parse_set_op (\<lambda>op.
         case op of
           None \<Rightarrow> p_return (Inl unions)
         | Some set_op \<Rightarrow> p_map (\<lambda>right. Inr (unions @ [(set_op, right)])) (pv_select c))) []"

text \<open>\<^verbatim>\<open>if self.check_keyword(kw) { self.advance(); self.expect(By, message)?; p? } else { Vec::new() }\<close>\<close>

definition p_by_clause :: "penv \<Rightarrow> TokenKind \<Rightarrow> string \<Rightarrow> 'a list parse \<Rightarrow> 'a list parse" where
  "p_by_clause c kw message p =
     p_bind peek_kind (\<lambda>k.
       if k = kw then p_bind ps_advance (\<lambda>_. p_bind (expect_token c TBy message) (\<lambda>_. p)) else p_return [])"

definition parse_select :: "penv \<Rightarrow> SelectStmt parse" where
  "parse_select c =
     p_bind current_span (\<lambda>start_span.
     p_bind (expect_token c TSelect ''Expected SELECT'') (\<lambda>_.
     p_bind (p_if TDistinct (p_return True) (p_map (\<lambda>_. False) (match_token TAll))) (\<lambda>distinct.
     p_bind (parse_select_list c) (\<lambda>columns.
     p_bind (p_optional TFrom (parse_from_clause c)) (\<lambda>from.
     p_bind (p_optional TWhere (pv_expr c)) (\<lambda>where_clause.
     p_bind (p_by_clause c TGroup ''Expected BY after GROUP'' (parse_expr_list c)) (\<lambda>group_by.
     p_bind (p_optional THaving (pv_expr c)) (\<lambda>having.
     p_bind (p_by_clause c TOrder ''Expected BY after ORDER'' (parse_order_by_list c)) (\<lambda>order_by.
     p_bind (p_optional TLimit (pv_expr c)) (\<lambda>limit.
     p_bind (p_optional TOffset (pv_expr c)) (\<lambda>offset.
     p_bind (parse_unions c) (\<lambda>unions.
     p_bind current_span (\<lambda>end_span.
     p_return (SelectStmt (span_merge start_span end_span) distinct columns from where_clause group_by having order_by
       limit offset unions))))))))))))))"


subsection \<open>Expressions\<close>

definition enter_recursion :: "unit parse" where
  "enter_recursion s =
     (let s = s\<lparr>ps_depth := ps_depth s + 1\<rparr>
      in if ps_depth s > MAX_EXPR_DEPTH
         then p_error ''expression nesting too deep'' (s\<lparr>ps_depth := ps_depth s - 1\<rparr>)
         else Inr ((), s))"

definition exit_recursion :: "unit parse" where
  "exit_recursion s = Inr ((), s\<lparr>ps_depth := ps_depth s - 1\<rparr>)"

text \<open>\<^verbatim>\<open>self.enter_recursion()?; let r = p; self.exit_recursion(); r\<close>\<close>

definition p_deeper :: "'a parse \<Rightarrow> 'a parse" where
  "p_deeper p = p_bind enter_recursion (\<lambda>_. p_bind p (\<lambda>r. p_bind exit_recursion (\<lambda>_. p_return r)))"

definition parse_case_expr :: "penv \<Rightarrow> Expr parse" where
  "parse_case_expr c =
     p_bind (check_keyword TWhen) (\<lambda>searched.
     p_bind (if \<not> searched then p_map Some (pv_expr c) else p_return None) (\<lambda>operand.
     p_bind (p_while TWhen (\<lambda>conditions.
        p_bind (pv_expr c) (\<lambda>when_expr.
        p_bind (expect_token c TThen ''Expected THEN'') (\<lambda>_.
        p_map (\<lambda>then_expr. conditions @ [(when_expr, then_expr)]) (pv_expr c)))) []) (\<lambda>conditions.
     p_bind (p_optional TElse (pv_expr c)) (\<lambda>else_result.
     p_bind (expect_token c TEnd ''Expected END'') (\<lambda>_.
     p_return (ECase operand conditions else_result))))))"

definition parse_identifier_or_function :: "penv \<Rightarrow> Expr parse" where
  "parse_identifier_or_function c =
     p_bind parse_object_name (\<lambda>name.
       p_if TLParen
         (p_bind (check TRParen) (\<lambda>empty.
          p_bind (if empty then p_return [] else parse_expr_list c) (\<lambda>args.
          p_bind (expect_token c TRParen (''Expected '' @ qt '')'')) (\<lambda>_.
          p_return (EFunction (FunctionCall name args False None None))))))
         (case on_parts name of
            [column] \<Rightarrow> p_return (EColumn (column_ref_new column))
          | [table, column] \<Rightarrow> p_return (EColumn (column_ref_qualified table column))
          | _ \<Rightarrow> p_error ''Invalid column reference''))"

definition aggregate_names :: "(TokenKind \<times> string) list" where
  "aggregate_names = [(TCount, ''COUNT''), (TSum, ''SUM''), (TAvg, ''AVG''), (TMin, ''MIN''), (TMax, ''MAX'')]"

definition parse_aggregate_function :: "penv \<Rightarrow> Expr parse" where
  "parse_aggregate_function c =
     p_bind peek_kind (\<lambda>k.
       case map_of aggregate_names k of
         None \<Rightarrow> p_error ''Expected aggregate function''
       | Some name \<Rightarrow>
           p_bind ps_advance (\<lambda>_.
           p_bind (expect_token c TLParen (''Expected '' @ qt ''('' @ '' after aggregate function'')) (\<lambda>_.
           p_bind (match_token TDistinct) (\<lambda>distinct.
           p_bind (p_if TStar (p_return [EColumn (column_ref_new ''*'')]) (parse_expr_list c)) (\<lambda>args.
           p_bind (expect_token c TRParen (''Expected '' @ qt '')'')) (\<lambda>_.
           p_return (EFunction (FunctionCall (object_name_new name) args distinct None None))))))))"

definition parse_vector_metric :: "VectorMetric parse" where
  "parse_vector_metric =
     p_if TComma
       (p_bind peek_kind (\<lambda>k.
          if k = TCosine then p_bind ps_advance (\<lambda>_. p_return Cosine)
          else if k = TEuclidean then p_bind ps_advance (\<lambda>_. p_return Euclidean)
          else if k = TDotProduct then p_bind ps_advance (\<lambda>_. p_return DotProduct)
          else p_return Cosine))
       (p_return Cosine)"

definition parse_integer :: "string \<Rightarrow> u32 parse" where
  "parse_integer message =
     p_bind peek_kind (\<lambda>k.
       case integer_literal k of
         Some n \<Rightarrow> p_bind ps_advance (\<lambda>_. p_return (as_u32 n))
       | None \<Rightarrow> p_error message)"

definition parse_vector_search :: "penv \<Rightarrow> Expr parse" where
  "parse_vector_search c =
     p_bind (expect_token c TLParen (''Expected '' @ qt ''('' @ '' after VECTOR_SEARCH'')) (\<lambda>_.
     p_bind (pv_expr c) (\<lambda>column.
     p_bind (expect_token c TComma (''Expected '' @ qt '','')) (\<lambda>_.
     p_bind (pv_expr c) (\<lambda>query.
     p_bind (expect_token c TComma (''Expected '' @ qt '','')) (\<lambda>_.
     p_bind (parse_integer ''Expected integer k'') (\<lambda>k.
     p_bind parse_vector_metric (\<lambda>metric.
     p_bind (expect_token c TRParen (''Expected '' @ qt '')'')) (\<lambda>_.
     p_return (EVectorSearch column query k metric)))))))))"

definition parse_context_window :: "penv \<Rightarrow> Expr parse" where
  "parse_context_window c =
     p_bind (expect_token c TLParen (''Expected '' @ qt ''('' @ '' after CONTEXT_WINDOW'')) (\<lambda>_.
     p_bind (pv_expr c) (\<lambda>source.
     p_bind (expect_token c TComma (''Expected '' @ qt '','')) (\<lambda>_.
     p_bind (parse_integer ''Expected integer max_tokens'') (\<lambda>max_tokens.
     p_bind (p_optional TComma (pv_expr c)) (\<lambda>priority.
     p_bind (expect_token c TRParen (''Expected '' @ qt '')'')) (\<lambda>_.
     p_return (EContextWindow source max_tokens priority)))))))"

definition record_table :: "Expr \<Rightarrow> string option" where
  "record_table e = (case e of EColumn col \<Rightarrow> if cr_table col = None then Some (cr_column col) else None | _ \<Rightarrow> None)"

definition parse_postfix_expr :: "penv \<Rightarrow> Expr \<Rightarrow> Expr parse" where
  "parse_postfix_expr c expr =
     p_loop (\<lambda>expr.
       p_if TLBracket
         (p_bind (pv_expr c) (\<lambda>index.
          p_bind (expect_token c TRBracket (''Expected '' @ qt '']'')) (\<lambda>_.
          p_return (Inr (ESubscript expr index)))))
      (p_if TDoubleArrow (p_map (\<lambda>path. Inr (EJsonAccess expr path True)) (pv_primary c))
      (p_if TDoubleColon (p_map (\<lambda>data_type. Inr (ECast expr data_type)) (parse_data_type c))
      (p_if TColon
         (case record_table expr of
            Some table \<Rightarrow> p_map (\<lambda>id. Inr (ERecordId table id)) (pv_primary c)
          | None \<Rightarrow>
              p_error (''Unexpected '' @ qt '':'' @ '' '' @ [CHR 0xE2, CHR 0x80, CHR 0x94] @ '' record ID requires unqualified identifier on left''))
      (p_return (Inl expr)))))) expr"

definition parse_parenthesized :: "penv \<Rightarrow> Expr parse" where
  "parse_parenthesized c =
     p_bind (check_keyword TSelect) (\<lambda>sub.
       if sub
       then p_bind (pv_select c) (\<lambda>query.
            p_bind (expect_token c TRParen (''Expected '' @ qt '')'')) (\<lambda>_.
            p_return (ESubquery query)))
       else p_bind (pv_expr c) (\<lambda>expr.
            p_if TComma
              (p_bind (pv_expr c) (\<lambda>second.
               p_bind (p_while TComma (\<lambda>exprs. p_map (\<lambda>e. exprs @ [e]) (pv_expr c)) [expr, second]) (\<lambda>exprs.
               p_bind (expect_token c TRParen (''Expected '' @ qt '')'')) (\<lambda>_.
               p_return (ETuple exprs)))))
              (p_bind (expect_token c TRParen (''Expected '' @ qt '')'')) (\<lambda>_. p_return expr))))"

definition parse_exists :: "penv \<Rightarrow> Expr parse" where
  "parse_exists c =
     p_bind (expect_token c TLParen (''Expected '' @ qt ''('' @ '' after EXISTS'')) (\<lambda>_.
     p_bind (pv_select c) (\<lambda>query.
     p_bind (expect_token c TRParen (''Expected '' @ qt '')'')) (\<lambda>_.
     p_return (EExists query))))"

definition parse_cast :: "penv \<Rightarrow> Expr parse" where
  "parse_cast c =
     p_bind (expect_token c TLParen (''Expected '' @ qt ''('' @ '' after CAST'')) (\<lambda>_.
     p_bind (pv_expr c) (\<lambda>expr.
     p_bind (expect_token c TAs ''Expected AS in CAST'') (\<lambda>_.
     p_bind (parse_data_type c) (\<lambda>data_type.
     p_bind (expect_token c TRParen (''Expected '' @ qt '')'')) (\<lambda>_.
     p_return (ECast expr data_type))))))"

text \<open>The kinds that are a whole operand, and the type keywords that double as column names.\<close>

definition literal_operand :: "TokenKind \<Rightarrow> Expr option" where
  "literal_operand k =
     (case k of
        TInteger n \<Rightarrow> Some (ELiteral (LitInteger n))
      | TFloat n \<Rightarrow> Some (ELiteral (LitFloat n))
      | TString s \<Rightarrow> Some (ELiteral (LitString s))
      | TBlob b \<Rightarrow> Some (ELiteral (LitBlob b))
      | TPlaceholder n \<Rightarrow> Some (EPlaceholder n)
      | _ \<Rightarrow>
          map_of [(TTrue, ELiteral (LitBoolean True)), (TFalse, ELiteral (LitBoolean False)), (TNull, ELiteral LitNull),
            (TVector, EColumn (column_ref_new ''vector'')), (TEmbedding, EColumn (column_ref_new ''embedding'')),
            (TText, EColumn (column_ref_new ''text'')), (TBlobKw, EColumn (column_ref_new ''blob''))] k)"

definition parse_operand :: "penv \<Rightarrow> Expr parse" where
  "parse_operand c =
     p_bind peek_kind (\<lambda>k.
       case literal_operand k of
         Some e \<Rightarrow> p_bind ps_advance (\<lambda>_. p_return e)
       | None \<Rightarrow>
           (if k = TLParen then p_bind ps_advance (\<lambda>_. parse_parenthesized c)
            else if k = TCase then p_bind ps_advance (\<lambda>_. parse_case_expr c)
            else if k = TExists then p_bind ps_advance (\<lambda>_. parse_exists c)
            else if k = TCast then p_bind ps_advance (\<lambda>_. parse_cast c)
            else if k = TVectorSearch then p_bind ps_advance (\<lambda>_. parse_vector_search c)
            else if k = TContextWindow then p_bind ps_advance (\<lambda>_. parse_context_window c)
            else if k \<in> set (map fst aggregate_names) then parse_aggregate_function c
            else if identifier_name k \<noteq> None then parse_identifier_or_function c
            else p_error (''Unexpected token in expression: '' @ debug_token c k)))"

definition parse_primary_expr :: "penv \<Rightarrow> Expr parse" where
  "parse_primary_expr c = p_bind (parse_operand c) (parse_postfix_expr c)"

definition unary_op :: "TokenKind \<Rightarrow> UnaryOperator option" where
  "unary_op k = map_of [(TMinus, UnMinus), (TPlus, UnPlus), (TBitNot, UnBitNot)] k"

definition parse_unary_expr :: "penv \<Rightarrow> Expr parse" where
  "parse_unary_expr c =
     p_bind peek_kind (\<lambda>k.
       case unary_op k of
         Some op \<Rightarrow> p_bind ps_advance (\<lambda>_. p_map (EUnaryOp op) (p_deeper (pv_unary c)))
       | None \<Rightarrow> parse_primary_expr c)"

definition multiplicative_op :: "TokenKind \<Rightarrow> BinaryOperator option" where
  "multiplicative_op k = map_of [(TStar, BinMultiply), (TSlash, BinDivide), (TPercent, BinModulo)] k"

definition parse_multiplicative_expr :: "penv \<Rightarrow> Expr parse" where
  "parse_multiplicative_expr c = p_bind (parse_unary_expr c) (p_binary multiplicative_op (parse_unary_expr c))"

definition additive_op :: "TokenKind \<Rightarrow> BinaryOperator option" where
  "additive_op k = map_of [(TPlus, BinPlus), (TMinus, BinMinus), (TConcat, BinConcat)] k"

definition parse_additive_expr :: "penv \<Rightarrow> Expr parse" where
  "parse_additive_expr c = p_bind (parse_multiplicative_expr c) (p_binary additive_op (parse_multiplicative_expr c))"

definition graph_op :: "TokenKind \<Rightarrow> BinaryOperator option" where
  "graph_op k = map_of [(TArrow, BinGraphRight), (TLeftArrow, BinGraphLeft), (TBiArrow, BinGraphBi)] k"

definition parse_graph_expr :: "penv \<Rightarrow> Expr parse" where
  "parse_graph_expr c = p_bind (parse_additive_expr c) (p_binary graph_op (parse_additive_expr c))"

definition comparison_op :: "TokenKind \<Rightarrow> BinaryOperator option" where
  "comparison_op k =
     map_of [(TEq, BinEq), (TNe, BinNe), (TLt, BinLt), (TLe, BinLe), (TGt, BinGt), (TGe, BinGe)] k"

definition parse_in :: "penv \<Rightarrow> Expr \<Rightarrow> bool \<Rightarrow> Expr parse" where
  "parse_in c left negated =
     p_bind (expect_token c TLParen (''Expected '' @ qt ''('' @ '' after IN'')) (\<lambda>_.
     p_bind (check_keyword TSelect) (\<lambda>sub.
       if sub
       then p_bind (pv_select c) (\<lambda>subquery.
            p_bind (expect_token c TRParen (''Expected '' @ qt '')'')) (\<lambda>_.
            p_return (EInSubquery left subquery negated)))
       else p_bind (parse_expr_list c) (\<lambda>list.
            p_bind (expect_token c TRParen (''Expected '' @ qt '')'')) (\<lambda>_.
            p_return (EInList left list negated)))))"

definition parse_between :: "penv \<Rightarrow> Expr \<Rightarrow> bool \<Rightarrow> Expr parse" where
  "parse_between c left negated =
     p_bind (parse_graph_expr c) (\<lambda>low.
     p_bind (expect_token c TAnd ''Expected AND in BETWEEN'') (\<lambda>_.
     p_map (\<lambda>high. EBetween left low high negated) (parse_graph_expr c)))"

definition parse_like :: "penv \<Rightarrow> Expr \<Rightarrow> bool \<Rightarrow> Expr parse" where
  "parse_like c left negated =
     p_bind (parse_graph_expr c) (\<lambda>pattern.
     p_map (\<lambda>escape. ELike left pattern escape negated) (p_optional TEscape (parse_graph_expr c)))"

definition parse_comparison_expr :: "penv \<Rightarrow> Expr parse" where
  "parse_comparison_expr c =
     p_bind (parse_graph_expr c) (\<lambda>left.
       p_if TIs
         (p_bind (match_token TNot) (\<lambda>negated.
          p_bind (expect_token c TNull ''Expected NULL after IS'') (\<lambda>_.
          p_return (EIsNull left negated))))
         (p_bind (match_token TNot) (\<lambda>negated.
            p_if TIn (parse_in c left negated)
           (p_if TBetween (parse_between c left negated)
           (p_if TLike (parse_like c left negated)
           (if negated then p_error ''Expected IN, BETWEEN, or LIKE after NOT''
            else p_bind peek_kind (\<lambda>k.
              case comparison_op k of
                Some op \<Rightarrow> p_bind ps_advance (\<lambda>_. p_map (\<lambda>right. EBinaryOp left op right) (parse_graph_expr c))
              | None \<Rightarrow> p_return left)))))))"

definition parse_not_expr :: "penv \<Rightarrow> Expr parse" where
  "parse_not_expr c = p_deeper (p_if TNot (p_map (EUnaryOp UnNot) (pv_not c)) (parse_comparison_expr c))"

definition parse_and_expr :: "penv \<Rightarrow> Expr parse" where
  "parse_and_expr c =
     p_bind (parse_not_expr c) (p_while TAnd (\<lambda>left. p_map (EBinaryOp left BinAnd) (parse_not_expr c)))"

definition parse_or_expr :: "penv \<Rightarrow> Expr parse" where
  "parse_or_expr c =
     p_bind (parse_and_expr c) (p_while TOr (\<lambda>left. p_map (EBinaryOp left BinOr) (parse_and_expr c)))"

definition parse_expr :: "penv \<Rightarrow> Expr parse" where
  "parse_expr c = p_deeper (parse_or_expr c)"

text \<open>The parser whose recursive calls nest at most \<open>n\<close> deep.\<close>

primrec parse_rec :: "sql_std \<Rightarrow> nat \<Rightarrow> penv" where
  "parse_rec E 0 =
     \<lparr>pv_std = E, pv_expr = (\<lambda>s. Inl Unbounded), pv_not = (\<lambda>s. Inl Unbounded), pv_unary = (\<lambda>s. Inl Unbounded),
      pv_primary = (\<lambda>s. Inl Unbounded), pv_select = (\<lambda>s. Inl Unbounded)\<rparr>"
| "parse_rec E (Suc n) =
     \<lparr>pv_std = E, pv_expr = parse_expr (parse_rec E n), pv_not = parse_not_expr (parse_rec E n),
      pv_unary = parse_unary_expr (parse_rec E n), pv_primary = parse_primary_expr (parse_rec E n),
      pv_select = parse_select (parse_rec E n)\<rparr>"


subsection \<open>INSERT, UPDATE, DELETE\<close>

definition parse_assignments :: "penv \<Rightarrow> Assignment list parse" where
  "parse_assignments c =
     p_commas
       (p_bind (expect_identifier ''Expected column name'') (\<lambda>column.
        p_bind (expect_token c TEq (''Expected '' @ qt ''='' @ '' after column name'')) (\<lambda>_.
        p_map (\<lambda>value. \<lparr>as_column = column, as_value = value\<rparr>) (pv_expr c))))"

definition parse_values_list :: "penv \<Rightarrow> Expr list list parse" where
  "parse_values_list c =
     p_commas
       (p_bind (expect_token c TLParen (''Expected '' @ qt ''('' @ '' for VALUES row'')) (\<lambda>_.
        p_bind (parse_expr_list c) (\<lambda>row.
        p_bind (expect_token c TRParen (''Expected '' @ qt '')'' @ '' after VALUES row'')) (\<lambda>_.
        p_return row))))"

definition parse_conflict_target :: "penv \<Rightarrow> ConflictTarget option parse" where
  "parse_conflict_target c =
     p_if TLParen
       (p_bind parse_identifier_list (\<lambda>cols.
        p_bind (expect_token c TRParen (''Expected '' @ qt '')'' @ '' after conflict columns'')) (\<lambda>_.
        p_return (Some (ConflictColumns cols)))))
       (p_if TOn (p_return None) (p_return None))"

definition parse_on_conflict :: "penv \<Rightarrow> OnConflict parse" where
  "parse_on_conflict c =
     p_bind (parse_conflict_target c) (\<lambda>target.
     p_bind (expect_token c TDo ''Expected DO after ON CONFLICT'') (\<lambda>_.
     p_bind (p_if TNothing (p_return DoNothing)
        (p_if TUpdate
           (p_bind (expect_token c TSet ''Expected SET after UPDATE'') (\<lambda>_. p_map DoUpdate (parse_assignments c)))
           (p_error ''Expected NOTHING or UPDATE after DO''))) (\<lambda>action.
     p_return \<lparr>oc_target = target, oc_action = action\<rparr>)))"

definition parse_or_action :: "ConflictAction option parse" where
  "parse_or_action =
     p_if TOr
       (p_if TIgnore (p_return (Some DoNothing))
       (p_if TReplace (p_return (Some DoReplace))
       (p_if TAbort (p_return (Some DoAbort))
       (p_if TFail (p_return (Some DoFail))
       (p_error ''Expected IGNORE, REPLACE, ABORT, or FAIL after OR'')))))
       (p_return None)"

definition parse_insert_source :: "penv \<Rightarrow> InsertSource parse" where
  "parse_insert_source c =
     p_if TValues (p_map InsertValues (parse_values_list c))
       (p_bind (check_keyword TSelect) (\<lambda>sub.
          if sub then p_map InsertQuery (pv_select c)
          else p_if TDefault
                 (p_map (\<lambda>_. InsertDefault) (expect_token c TValues ''Expected VALUES after DEFAULT''))
                 (p_error ''Expected VALUES or SELECT'')))"

definition parse_insert_conflict :: "penv \<Rightarrow> bool \<Rightarrow> ConflictAction option \<Rightarrow> OnConflict option parse" where
  "parse_insert_conflict c mysql_ignore sqlite_action =
     p_if TOn
       (p_if TConflict (p_map Some (parse_on_conflict c))
       (p_if TDuplicate
          (p_bind (expect_token c TKey ''Expected KEY after DUPLICATE'') (\<lambda>_.
           p_bind (expect_token c TUpdate ''Expected UPDATE after KEY'') (\<lambda>_.
           p_map (\<lambda>a. Some \<lparr>oc_target = None, oc_action = DoUpdate a\<rparr>) (parse_assignments c))))
          (p_error ''Expected CONFLICT or DUPLICATE after ON'')))
       (p_return
          (if mysql_ignore then Some \<lparr>oc_target = None, oc_action = DoNothing\<rparr>
           else map_option (\<lambda>action. \<lparr>oc_target = None, oc_action = action\<rparr>) sqlite_action))"

definition parse_insert :: "penv \<Rightarrow> InsertStmt parse" where
  "parse_insert c =
     p_bind current_span (\<lambda>start_span.
     p_bind (expect_token c TInsert ''Expected INSERT'') (\<lambda>_.
     p_bind (match_token TIgnore) (\<lambda>mysql_ignore.
     p_bind parse_or_action (\<lambda>sqlite_action.
     p_bind (expect_token c TInto ''Expected INTO'') (\<lambda>_.
     p_bind parse_object_name (\<lambda>table.
     p_bind (p_if TLParen
        (p_bind parse_identifier_list (\<lambda>cols.
         p_bind (expect_token c TRParen (''Expected '' @ qt '')'' @ '' after column list'')) (\<lambda>_. p_return (Some cols))))
        (p_return None)) (\<lambda>columns.
     p_bind (parse_insert_source c) (\<lambda>source.
     p_bind (parse_insert_conflict c mysql_ignore sqlite_action) (\<lambda>on_conflict.
     p_bind (p_optional TReturning (parse_select_list c)) (\<lambda>returning.
     p_bind current_span (\<lambda>end_span.
     p_return \<lparr>ins_span = span_merge start_span end_span, ins_table = table, ins_columns = columns, ins_source = source,
       ins_on_conflict = on_conflict, ins_returning = returning\<rparr>)))))))))))"

definition parse_as_alias :: "string option parse" where
  "parse_as_alias = p_optional TAs (expect_identifier ''Expected alias after AS'')"

definition parse_update :: "penv \<Rightarrow> UpdateStmt parse" where
  "parse_update c =
     p_bind current_span (\<lambda>start_span.
     p_bind (expect_token c TUpdate ''Expected UPDATE'') (\<lambda>_.
     p_bind parse_object_name (\<lambda>table.
     p_bind parse_as_alias (\<lambda>alias.
     p_bind (expect_token c TSet ''Expected SET'') (\<lambda>_.
     p_bind (parse_assignments c) (\<lambda>assignments.
     p_bind (p_optional TFrom (parse_from_clause c)) (\<lambda>from.
     p_bind (p_optional TWhere (pv_expr c)) (\<lambda>where_clause.
     p_bind current_span (\<lambda>end_span.
     p_return \<lparr>upd_span = span_merge start_span end_span, upd_table = table, upd_alias = alias,
       upd_assignments = assignments, upd_from = from, upd_where = where_clause, upd_returning = None\<rparr>)))))))))"

definition parse_delete :: "penv \<Rightarrow> DeleteStmt parse" where
  "parse_delete c =
     p_bind current_span (\<lambda>start_span.
     p_bind (expect_token c TDelete ''Expected DELETE'') (\<lambda>_.
     p_bind (expect_token c TFrom ''Expected FROM'') (\<lambda>_.
     p_bind parse_object_name (\<lambda>table.
     p_bind parse_as_alias (\<lambda>alias.
     p_bind (p_optional TWhere (pv_expr c)) (\<lambda>where_clause.
     p_bind current_span (\<lambda>end_span.
     p_return \<lparr>del_span = span_merge start_span end_span, del_table = table, del_alias = alias, del_using = None,
       del_where = where_clause, del_returning = None\<rparr>)))))))"

subsection \<open>CREATE, DROP, ALTER\<close>

definition parse_if_not_exists :: "penv \<Rightarrow> bool parse" where
  "parse_if_not_exists c =
     p_if TIf
       (p_bind (expect_token c TNot ''Expected NOT after IF'') (\<lambda>_.
        p_bind (expect_token c TExists ''Expected EXISTS after IF NOT'') (\<lambda>_. p_return True)))
       (p_return False)"

definition parse_index_column :: "IndexColumn parse" where
  "parse_index_column =
     p_bind (expect_identifier ''Expected column name'') (\<lambda>col_name.
     p_bind (p_if TDesc (p_return False) (p_map (\<lambda>_. True) (match_token TAsc))) (\<lambda>asc.
     p_return \<lparr>ic_name = col_name, ic_asc = asc, ic_nulls_first = None\<rparr>))"

definition parse_create_index :: "penv \<Rightarrow> bool \<Rightarrow> CreateIndexStmt parse" where
  "parse_create_index c uniq =
     p_bind current_span (\<lambda>start_span.
     p_bind (parse_if_not_exists c) (\<lambda>if_not_exists.
     p_bind (expect_identifier ''Expected index name'') (\<lambda>name.
     p_bind (expect_token c TOn ''Expected ON after index name'') (\<lambda>_.
     p_bind parse_object_name (\<lambda>table.
     p_bind (expect_token c TLParen (''Expected '' @ qt ''('' @ '' after table name'')) (\<lambda>_.
     p_bind (p_commas parse_index_column) (\<lambda>columns.
     p_bind (expect_token c TRParen (''Expected '' @ qt '')'' @ '' after column list'')) (\<lambda>_.
     p_bind (p_optional TWhere (pv_expr c)) (\<lambda>where_clause.
     p_bind current_span (\<lambda>end_span.
     p_return \<lparr>ci_span = span_merge start_span end_span, ci_unique = uniq, ci_if_not_exists = if_not_exists, ci_name = name,
       ci_table = table, ci_columns = columns, ci_where = where_clause, ci_index_type = None\<rparr>))))))))))"

definition parse_column_constraints :: "penv \<Rightarrow> ColumnConstraint list parse" where
  "parse_column_constraints c =
     p_loop (\<lambda>cs.
       p_if TPrimary (p_map (\<lambda>_. Inr (cs @ [ColPrimaryKey])) (expect_token c TKey ''Expected KEY after PRIMARY''))
      (p_if TNot (p_map (\<lambda>_. Inr (cs @ [ColNotNull])) (expect_token c TNull ''Expected NULL after NOT''))
      (p_if TNull (p_return (Inr (cs @ [ColNull])))
      (p_if TUnique (p_return (Inr (cs @ [ColUnique])))
      (p_if TDefault (p_map (\<lambda>e. Inr (cs @ [ColDefault e])) (pv_expr c))
      (p_if TAutoIncrement (p_return (Inr (cs @ [ColAutoIncrement])))
      (p_return (Inl cs)))))))) []"

definition parse_column_def :: "penv \<Rightarrow> SqlColumnDef parse" where
  "parse_column_def c =
     p_bind (expect_identifier ''Expected column name'') (\<lambda>name.
     p_bind (parse_data_type c) (\<lambda>data_type.
     p_bind (parse_column_constraints c) (\<lambda>constraints.
     p_return \<lparr>cd_name = name, cd_data_type = data_type, cd_constraints = constraints\<rparr>)))"

definition parse_column_defs :: "penv \<Rightarrow> SqlColumnDef list parse" where
  "parse_column_defs c =
     p_loop (\<lambda>columns.
       p_bind peek_kind (\<lambda>k.
         if k = TPrimary \<or> k = TForeign \<or> k = TUnique then p_return (Inl columns)
         else if discriminant k = discriminant TRParen then p_return (Inl columns)
         else p_bind (parse_column_def c) (\<lambda>column.
              p_if TComma (p_return (Inr (columns @ [column]))) (p_return (Inl (columns @ [column])))))) []"

definition parse_create_table :: "penv \<Rightarrow> CreateTableStmt parse" where
  "parse_create_table c =
     p_bind current_span (\<lambda>start_span.
     p_bind (parse_if_not_exists c) (\<lambda>if_not_exists.
     p_bind parse_object_name (\<lambda>name.
     p_bind (expect_token c TLParen (''Expected '' @ qt ''('' @ '' after table name'')) (\<lambda>_.
     p_bind (parse_column_defs c) (\<lambda>columns.
     p_bind (expect_token c TRParen (''Expected '' @ qt '')'' @ '' after column definitions'')) (\<lambda>_.
     p_bind current_span (\<lambda>end_span.
     p_return \<lparr>ct_span = span_merge start_span end_span, ct_if_not_exists = if_not_exists, ct_name = name,
       ct_columns = columns, ct_constraints = [], ct_options = []\<rparr>)))))))"

definition parse_create :: "penv \<Rightarrow> Statement parse" where
  "parse_create c =
     p_bind (expect_token c TCreate ''Expected CREATE'') (\<lambda>_.
     p_bind (match_token TUnique) (\<lambda>uniq.
       p_if TTable (p_map StCreateTable (parse_create_table c))
      (p_if TIndex (p_map StCreateIndex (parse_create_index c uniq))
      (if uniq then p_error ''Expected INDEX after UNIQUE'' else p_error ''Expected TABLE or INDEX after CREATE''))))"

definition parse_if_exists :: "penv \<Rightarrow> bool parse" where
  "parse_if_exists c =
     p_if TIf (p_map (\<lambda>_. True) (expect_token c TExists ''Expected EXISTS after IF'')) (p_return False)"

definition parse_drop :: "penv \<Rightarrow> Statement parse" where
  "parse_drop c =
     p_bind current_span (\<lambda>start_span.
     p_bind (expect_token c TDrop ''Expected DROP'') (\<lambda>_.
       p_if TTable
         (p_bind (parse_if_exists c) (\<lambda>if_exists.
          p_bind parse_object_name (\<lambda>name.
          p_bind current_span (\<lambda>end_span.
          p_return (StDropTable \<lparr>dt_span = span_merge start_span end_span, dt_if_exists = if_exists, dt_names = [name],
            dt_cascade = False\<rparr>)))))
      (p_if TIndex
         (p_bind (parse_if_exists c) (\<lambda>if_exists.
          p_bind (expect_identifier ''Expected index name'') (\<lambda>name.
          p_bind (p_optional TOn parse_object_name) (\<lambda>table.
          p_bind current_span (\<lambda>end_span.
          p_return (StDropIndex \<lparr>di_span = span_merge start_span end_span, di_if_exists = if_exists, di_name = name,
            di_table = table, di_cascade = False\<rparr>))))))
      (p_error ''Expected TABLE or INDEX after DROP''))))"

definition parse_set_type :: "penv \<Rightarrow> AlterColumnOp parse" where
  "parse_set_type c =
     p_bind peek_kind (\<lambda>k.
       p_bind (if k = TIdentifier ''TYPE'' then p_map (\<lambda>_. ()) ps_advance else p_return ()) (\<lambda>_.
       p_map SetType (parse_data_type c)))"

definition parse_alter_column_op :: "penv \<Rightarrow> AlterColumnOp parse" where
  "parse_alter_column_op c =
     p_if TSet
       (p_if TNot (p_map (\<lambda>_. SetNotNull) (expect_token c TNull ''Expected NULL after SET NOT''))
       (p_if TDefault (p_map SetDefault (pv_expr c))
       (parse_set_type c)))
    (p_if TDrop
       (p_if TNot (p_map (\<lambda>_. DropNotNull) (expect_token c TNull ''Expected NULL after DROP NOT''))
       (p_if TDefault (p_return DropDefault)
       (p_error ''Expected NOT NULL or DEFAULT after DROP'')))
    (parse_set_type c))"

definition parse_rename_column :: "penv \<Rightarrow> string \<Rightarrow> AlterTableOp parse" where
  "parse_rename_column c message =
     p_bind (expect_identifier message) (\<lambda>old_name.
     p_bind (expect_token c TTo ''Expected TO after column name'') (\<lambda>_.
     p_map (RenameColumn old_name) (expect_identifier ''Expected new column name'')))"

definition parse_alter_table_op :: "penv \<Rightarrow> AlterTableOp parse" where
  "parse_alter_table_op c =
     p_if TAdd
       (p_bind (match_token TColumn) (\<lambda>_. p_map AddColumn (parse_column_def c)))
    (p_if TDrop
       (p_bind (match_token TColumn) (\<lambda>_.
        p_bind (expect_identifier ''Expected column name after DROP'') (\<lambda>col_name.
        p_map (DropColumn col_name) (match_token TCascade))))
    (p_if TRename
       (p_if TColumn (parse_rename_column c ''Expected old column name'')
       (p_if TTo (p_map RenameTable parse_object_name)
       (parse_rename_column c ''Expected column name or TO'')))
    (p_if TAlter
       (p_bind (match_token TColumn) (\<lambda>_.
        p_bind (expect_identifier ''Expected column name after ALTER COLUMN'') (\<lambda>col_name.
        p_map (AlterColumn col_name) (parse_alter_column_op c))))
    (p_error ''Expected ADD, DROP, RENAME, or ALTER after ALTER TABLE <name>''))))"

definition parse_alter :: "penv \<Rightarrow> Statement parse" where
  "parse_alter c =
     p_bind current_span (\<lambda>start_span.
     p_bind (expect_token c TAlter ''Expected ALTER'') (\<lambda>_.
     p_bind (expect_token c TTable ''Expected TABLE after ALTER'') (\<lambda>_.
     p_bind parse_object_name (\<lambda>name.
     p_bind (p_commas (parse_alter_table_op c)) (\<lambda>operations.
     p_bind current_span (\<lambda>end_span.
     p_return (StAlterTable \<lparr>at_span = span_merge start_span end_span, at_name = name, at_operations = operations\<rparr>)))))))"


subsection \<open>RELATE and LIVE SELECT\<close>

definition parse_relate :: "penv \<Rightarrow> RelateStmt parse" where
  "parse_relate c =
     p_bind current_span (\<lambda>start_span.
     p_bind (expect_token c TRelate ''Expected RELATE'') (\<lambda>_.
     p_bind (parse_additive_expr c) (\<lambda>from.
     p_bind (expect_token c TArrow (''Expected '' @ qt ''->'' @ '' after source record'')) (\<lambda>_.
     p_bind parse_object_name (\<lambda>edge.
     p_bind (expect_token c TArrow (''Expected '' @ qt ''->'' @ '' after edge table'')) (\<lambda>_.
     p_bind (parse_additive_expr c) (\<lambda>to.
     p_bind (p_if TSet (p_map (\<lambda>a. (a, None)) (parse_assignments c))
        (p_if TContent (p_map (\<lambda>e. ([], Some e)) (pv_expr c)) (p_return ([], None)))) (\<lambda>(sets, content).
     p_bind (p_optional TReturning (parse_select_list c)) (\<lambda>returning.
     p_bind current_span (\<lambda>end_span.
     p_return \<lparr>rel_span = span_merge start_span end_span, rel_from = from, rel_edge = edge, rel_to = to, rel_set = sets,
       rel_content = content, rel_returning = returning\<rparr>))))))))))"

definition parse_live_select :: "penv \<Rightarrow> LiveSelectStmt parse" where
  "parse_live_select c =
     p_bind current_span (\<lambda>start_span.
     p_bind (expect_token c TLive ''Expected LIVE'') (\<lambda>_.
     p_bind (match_token TDiff) (\<lambda>diff.
     p_bind (pv_select c) (\<lambda>sel.
     p_bind current_span (\<lambda>end_span.
     p_return \<lparr>lv_span = span_merge start_span end_span, lv_select = sel, lv_diff = diff\<rparr>)))))"

subsection \<open>DEFINE and REMOVE\<close>

function utf8_chars :: "string \<Rightarrow> string list" where
  "utf8_chars [] = []"
| "utf8_chars (b # r) = take (utf8_len b) (b # r) # utf8_chars (drop (utf8_len b) (b # r))"
  by pat_completeness auto
termination
  by (relation "measure length") (auto simp: utf8_len_def Let_def)

text \<open>\<^verbatim>\<open>str::trim\<close>, as characters, and \<^verbatim>\<open>str::parse\<close> for \<^verbatim>\<open>u64\<close>, which accepts a leading plus sign.\<close>

definition str_trim :: "string \<Rightarrow> string list" where
  "str_trim s = rev (dropWhile is_whitespace (rev (dropWhile is_whitespace (utf8_chars s))))"

definition parse_u64 :: "string \<Rightarrow> u64 option" where
  "parse_u64 s =
     (let d = (case s of x # r \<Rightarrow> if x = CHR ''+'' then r else s | [] \<Rightarrow> [])
      in if all_digits d \<and> decimal_value d < 18446744073709551616 then Some (word_of_int (decimal_value d)) else None)"

text \<open>The products wrap around in the release profile; \<open>None\<close> is the panic of \<^verbatim>\<open>split_at\<close> inside a character.\<close>

definition parse_duration_string :: "string \<Rightarrow> u64 option" where
  "parse_duration_string s =
     (let cs = str_trim s
      in if cs = [] then Some 0
         else case parse_u64 (concat cs) of
                Some n \<Rightarrow> Some n
              | None \<Rightarrow>
                  (if length (last cs) \<noteq> 1 then None
                   else let n = (case parse_u64 (concat (butlast cs)) of Some n \<Rightarrow> n | None \<Rightarrow> 0); suffix = last cs
                        in Some (if suffix = ''s'' then n else if suffix = ''m'' then n * 60 else if suffix = ''h'' then n * 3600
                                 else if suffix = ''d'' then n * 86400 else if suffix = ''w'' then n * 604800 else 0)))"

definition duration_text :: "TokenKind \<Rightarrow> string option" where
  "duration_text k = (case k of TIdentifier s \<Rightarrow> Some s | TString s \<Rightarrow> Some s | _ \<Rightarrow> None)"

definition parse_session :: "u64 parse" where
  "parse_session =
     p_bind peek_kind (\<lambda>k.
       case integer_literal k of
         Some n \<Rightarrow> p_bind ps_advance (\<lambda>_. p_return (word_of_int n))
       | None \<Rightarrow>
           (case duration_text k of
              Some s \<Rightarrow>
                (case parse_duration_string s of
                   None \<Rightarrow> (\<lambda>_. Inl Panicked)
                 | Some n \<Rightarrow> p_bind ps_advance (\<lambda>_. p_return n))
            | None \<Rightarrow> p_error ''Expected duration after SESSION''))"

definition parse_in_parens :: "penv \<Rightarrow> string \<Rightarrow> Expr parse" where
  "parse_in_parens c clause =
     p_bind (expect_token c TLParen (''Expected '' @ qt ''('' @ '' after '' @ clause)) (\<lambda>_.
     p_bind (pv_expr c) (\<lambda>expr.
     p_bind (expect_token c TRParen (''Expected '' @ qt '')'' @ '' after '' @ clause @ '' expression'')) (\<lambda>_.
     p_return expr)))"

definition parse_define_scope :: "penv \<Rightarrow> Statement parse" where
  "parse_define_scope c =
     p_bind (expect_identifier ''Expected scope name after DEFINE SCOPE'') (\<lambda>name.
     p_map StDefineScope
       (p_loop (\<lambda>st.
          p_if TSession (p_map (\<lambda>n. Inr (st\<lparr>sc_session_duration_secs := Some n\<rparr>)) parse_session)
         (p_if TSignin (p_map (\<lambda>e. Inr (st\<lparr>sc_signin := Some e\<rparr>)) (parse_in_parens c ''SIGNIN''))
         (p_if TSignup (p_map (\<lambda>e. Inr (st\<lparr>sc_signup := Some e\<rparr>)) (parse_in_parens c ''SIGNUP''))
         (p_return (Inl st)))))
         \<lparr>sc_name = name, sc_session_duration_secs = None, sc_signin = None, sc_signup = None\<rparr>))"

definition parse_permission_op :: "PermissionOp parse" where
  "parse_permission_op =
     p_bind peek_kind (\<lambda>k.
       case (if (case plain_identifier k of Some s \<Rightarrow> map upper_char s = ''CREATE'' | None \<Rightarrow> False) then Some PermCreate
             else map_of [(TSelect, PermSelect), (TInsert, PermCreate), (TUpdate, PermUpdate), (TDelete, PermDelete), (TCreate, PermCreate)] k) of
         Some op \<Rightarrow> p_bind ps_advance (\<lambda>_. p_return op)
       | None \<Rightarrow> p_error ''Expected SELECT, CREATE, INSERT, UPDATE, or DELETE after FOR'')"

definition parse_define_table_permissions :: "penv \<Rightarrow> Statement parse" where
  "parse_define_table_permissions c =
     p_bind parse_object_name (\<lambda>table.
     p_bind (expect_token c TPermissions ''Expected PERMISSIONS after table name'') (\<lambda>_.
     p_bind (p_while TFor (\<lambda>permissions.
        p_bind parse_permission_op (\<lambda>operation.
        p_bind (expect_token c TWhere ''Expected WHERE after FOR <operation>'') (\<lambda>_.
        p_map (\<lambda>condition. permissions @ [\<lparr>tp_operation = operation, tp_condition = condition\<rparr>]) (pv_expr c)))) []) (\<lambda>permissions.
     p_return (StDefineTablePermissions \<lparr>dp_table = table, dp_permissions = permissions\<rparr>))))"

definition parse_define_event :: "penv \<Rightarrow> Statement parse" where
  "parse_define_event c =
     p_bind current_span (\<lambda>start_span.
     p_bind (expect_identifier ''Expected event name after DEFINE EVENT'') (\<lambda>name.
     p_bind (expect_token c TOn ''Expected ON after event name'') (\<lambda>_.
     p_bind (match_token TTable) (\<lambda>_.
     p_bind parse_object_name (\<lambda>table.
     p_bind (expect_token c TWhen ''Expected WHEN'') (\<lambda>_.
     p_bind (pv_expr c) (\<lambda>condition.
     p_bind (expect_token c TThen ''Expected THEN'') (\<lambda>_.
     p_bind (pv_expr c) (\<lambda>action.
     p_bind current_span (\<lambda>end_span.
     p_return (StDefineEvent \<lparr>ev_span = span_merge start_span end_span, ev_name = name, ev_table = table,
       ev_condition = condition, ev_action = action\<rparr>)))))))))))"

definition parse_define :: "penv \<Rightarrow> Statement parse" where
  "parse_define c =
     p_bind (expect_token c TDefine ''Expected DEFINE'') (\<lambda>_.
       p_if TScope (parse_define_scope c)
      (p_if TTable (parse_define_table_permissions c)
      (p_if TEvent (parse_define_event c)
      (p_error ''Expected SCOPE, TABLE, or EVENT after DEFINE''))))"

definition parse_remove :: "penv \<Rightarrow> Statement parse" where
  "parse_remove c =
     p_bind (expect_token c TRemove ''Expected REMOVE'') (\<lambda>_.
     p_bind (expect_token c TScope ''Expected SCOPE after REMOVE'') (\<lambda>_.
     p_map StRemoveScope (expect_identifier ''Expected scope name after REMOVE SCOPE'')))"

subsection \<open>Transactions\<close>

definition parse_begin :: "penv \<Rightarrow> BeginStmt parse" where
  "parse_begin c =
     p_bind (expect_token c TBegin ''Expected BEGIN'') (\<lambda>_.
     p_bind (match_token TTransaction) (\<lambda>_.
     p_return \<lparr>bg_read_only = False, bg_isolation_level = None\<rparr>))"

definition parse_rollback :: "penv \<Rightarrow> Statement parse" where
  "parse_rollback c =
     p_bind (expect_token c TRollback ''Expected ROLLBACK'') (\<lambda>_.
     p_bind (match_token TTransaction) (\<lambda>_.
     p_return (StRollback None)))"

definition parse_savepoint :: "penv \<Rightarrow> Statement parse" where
  "parse_savepoint c =
     p_bind (expect_token c TSavepoint ''Expected SAVEPOINT'') (\<lambda>_.
     p_map StSavepoint (expect_identifier ''Expected savepoint name''))"

definition parse_release :: "penv \<Rightarrow> Statement parse" where
  "parse_release c =
     p_bind (expect_token c TRelease ''Expected RELEASE'') (\<lambda>_.
     p_bind (match_token TSavepoint) (\<lambda>_.
     p_map StRelease (expect_identifier ''Expected savepoint name'')))"

subsection \<open>Statements\<close>

definition parse_statement :: "penv \<Rightarrow> Statement parse" where
  "parse_statement c =
     p_bind peek_kind (\<lambda>k.
       if k = TSelect then p_map StSelect (parse_select c)
       else if k = TInsert then p_map StInsert (parse_insert c)
       else if k = TUpdate then p_map StUpdate (parse_update c)
       else if k = TDelete then p_map StDelete (parse_delete c)
       else if k = TCreate then parse_create c
       else if k = TDrop then parse_drop c
       else if k = TAlter then parse_alter c
       else if k = TDefine then parse_define c
       else if k = TRemove then parse_remove c
       else if k = TBegin then p_map StBegin (parse_begin c)
       else if k = TCommit then p_bind ps_advance (\<lambda>_. p_return StCommit)
       else if k = TRollback then parse_rollback c
       else if k = TSavepoint then parse_savepoint c
       else if k = TRelease then parse_release c
       else if k = TRelate then p_map StRelate (parse_relate c)
       else if k = TLive then p_map StLiveSelect (parse_live_select c)
       else p_error (''Unexpected token: '' @ debug_token c k))"

datatype 'a parsed = Parsed 'a | SyntaxErrors "ParseError list" | ParserPanic | ParserUnbounded

definition parse_outcome :: "parse_failure + 'a \<times> Parser \<Rightarrow> 'a parsed" where
  "parse_outcome r =
     (case r of
        Inr (a, _) \<Rightarrow> Parsed a
      | Inl (Rejected e) \<Rightarrow> SyntaxErrors [e]
      | Inl Panicked \<Rightarrow> ParserPanic
      | Inl Unbounded \<Rightarrow> ParserUnbounded)"

definition lex_error_to_parse :: "LexError \<Rightarrow> ParseError" where
  "lex_error_to_parse e = parse_error_new (le_message e) (le_span e)"

text \<open>
  Every recursive call comes after a token that its caller consumed, so the number of tokens bounds the nesting; three times that number leaves room
  for the estimates of the proofs.
\<close>

definition parser_parse :: "sql_std \<Rightarrow> string \<Rightarrow> Statement parsed" where
  "parser_parse E sql =
     (case tokenize E sql of
        Inl errs \<Rightarrow> SyntaxErrors (map lex_error_to_parse errs)
      | Inr tokens \<Rightarrow> parse_outcome (parse_statement (parse_rec E (3 * length tokens)) (parser_new tokens)))"

definition statements_loop :: "penv \<Rightarrow> Statement list parse" where
  "statements_loop c =
     p_loop (\<lambda>statements.
       p_bind ps_is_at_end (\<lambda>at_end.
         if at_end then p_return (Inl statements)
         else p_bind (parse_statement c) (\<lambda>stmt.
              p_bind (match_token TSemicolon) (\<lambda>_.
              p_return (Inr (statements @ [stmt])))))) []"

definition parser_parse_statements :: "sql_std \<Rightarrow> string \<Rightarrow> Statement list parsed" where
  "parser_parse_statements E sql =
     (case tokenize E sql of
        Inl errs \<Rightarrow> SyntaxErrors (map lex_error_to_parse errs)
      | Inr tokens \<Rightarrow> parse_outcome (statements_loop (parse_rec E (3 * length tokens)) (parser_new tokens)))"

end
