(* ===== verification/Sql_Like.thy ===== *)
theory Sql_Like
  imports Sql_Parser
begin

text \<open>
  \<^verbatim>\<open>sochdb-query/src/like.rs\<close>: the matcher behind every \<^verbatim>\<open>LIKE\<close>.  The loop remembers the last \<^verbatim>\<open>%\<close> and
  returns to it on a mismatch.  It is modelled index by index; the fuel of the model is the number of iterations, so that enough fuel
  is a bound on the running time.  The meaning of a pattern is the inductive relation \<open>likes\<close>.
\<close>

subsection \<open>The matcher\<close>

primrec like_loop :: "nat \<Rightarrow> string list \<Rightarrow> string list \<Rightarrow> nat \<Rightarrow> nat \<Rightarrow> nat option \<Rightarrow> nat \<Rightarrow> nat option option" where
  "like_loop 0 s p si pi star_pi star_si = (if si < length s then None else Some (Some pi))"
| "like_loop (Suc n) s p si pi star_pi star_si =
     (if si < length s
      then if pi < length p \<and> p ! pi = ''%'' then like_loop n s p si (pi + 1) (Some pi) si
           else if pi < length p \<and> (p ! pi = ''_'' \<or> p ! pi = s ! si) then like_loop n s p (si + 1) (pi + 1) star_pi star_si
           else (case star_pi of
                   Some spi \<Rightarrow> like_loop n s p (star_si + 1) (spi + 1) star_pi (star_si + 1)
                 | None \<Rightarrow> Some None)
      else Some (Some pi))"

function trailing_percents :: "string list \<Rightarrow> nat \<Rightarrow> nat" where
  "trailing_percents p pi = (if pi < length p \<and> p ! pi = ''%'' then trailing_percents p (pi + 1) else pi)"
  by pat_completeness auto
termination
  by (relation "measure (\<lambda>(p, pi). length p - pi)") auto

declare trailing_percents.simps [simp del]

definition like_iterations :: "string list \<Rightarrow> string list \<Rightarrow> nat" where
  "like_iterations s p = length s * length p + length p + 1"

definition like_match_chars :: "string list \<Rightarrow> string list \<Rightarrow> bool option" where
  "like_match_chars s p =
     (case like_loop (like_iterations s p) s p 0 0 None 0 of
        None \<Rightarrow> None
      | Some None \<Rightarrow> Some False
      | Some (Some pi) \<Rightarrow> Some (trailing_percents p pi = length p))"

definition like_match :: "string \<Rightarrow> string \<Rightarrow> bool option" where
  "like_match s pattern = like_match_chars (utf8_chars s) (utf8_chars pattern)"

subsection \<open>What a pattern means\<close>

inductive likes :: "string list \<Rightarrow> string list \<Rightarrow> bool" where
  likes_end: "likes [] []"
| likes_percent: "likes s p \<Longrightarrow> likes (u @ s) (''%'' # p)"
| likes_underscore: "likes s p \<Longrightarrow> likes (c # s) (''_'' # p)"
| likes_literal: "likes s p \<Longrightarrow> c \<noteq> ''%'' \<Longrightarrow> c \<noteq> ''_'' \<Longrightarrow> likes (c # s) (c # p)"

inductive_simps likes_Nil_right: "likes s []"
inductive_simps likes_Nil_Cons: "likes [] (c # p)"
inductive_simps likes_Cons: "likes (x # s) (c # p)"
inductive_simps likes_percent_iff: "likes s (''%'' # p)"

lemma likes_percent_drop: "likes s (''%'' # p) \<longleftrightarrow> (\<exists>j \<le> length s. likes (drop j s) p)"
proof
  assume "likes s (''%'' # p)"
  then obtain u t where "s = u @ t" "likes t p" by (auto simp: likes_percent_iff)
  then show "\<exists>j \<le> length s. likes (drop j s) p" by (intro exI [of _ "length u"]) simp
next
  assume "\<exists>j \<le> length s. likes (drop j s) p"
  then obtain j where "likes (drop j s) p" by blast
  then have "likes (take j s @ drop j s) (''%'' # p)" by (rule likes_percent)
  then show "likes s (''%'' # p)" by simp
qed

lemma likes_Cons_plain: "c \<noteq> ''%'' \<Longrightarrow> likes (x # s) (c # p) \<longleftrightarrow> (c = ''_'' \<or> c = x) \<and> likes s p"
  by (auto simp: likes_Cons)

lemma likes_empty_subject: "likes [] p \<longleftrightarrow> set p \<subseteq> {''%''}"
  by (induction p) (auto simp: likes_Nil_right likes_Nil_Cons)

text \<open>A stretch of pattern without \<^verbatim>\<open>%\<close> takes as many characters as it has.\<close>

lemma likes_plain_prefix:
  assumes "likes t (q @ r)" "''%'' \<notin> set q"
  shows "length q \<le> length t \<and> likes (drop (length q) t) r"
  using assms
proof (induction q arbitrary: t)
  case (Cons c q)
  then show ?case by (cases t) (auto simp: likes_Nil_Cons likes_Cons_plain)
qed simp

subsection \<open>The loop against the meaning\<close>

text \<open>The stretch of pattern between the last \<^verbatim>\<open>%\<close> and the current position.\<close>

abbreviation like_stretch :: "string list \<Rightarrow> nat \<Rightarrow> nat \<Rightarrow> string list" where
  "like_stretch p a b \<equiv> take (b - a) (drop a p)"

fun like_inv :: "string list \<Rightarrow> string list \<Rightarrow> nat \<Rightarrow> nat \<Rightarrow> nat option \<Rightarrow> nat \<Rightarrow> bool" where
  "like_inv s p si pi None star_si \<longleftrightarrow>
     si \<le> length s \<and> pi \<le> length p \<and> (likes s p \<longleftrightarrow> likes (drop si s) (drop pi p))"
| "like_inv s p si pi (Some spi) star_si \<longleftrightarrow>
     si \<le> length s \<and> spi < pi \<and> pi \<le> length p \<and> star_si \<le> si \<and> si - star_si = pi - (spi + 1) \<and>
     ''%'' \<notin> set (like_stretch p (spi + 1) pi) \<and>
     (likes s p \<longleftrightarrow> (\<exists>j \<ge> star_si. j \<le> length s \<and> likes (drop j s) (drop (spi + 1) p))) \<and>
     (likes (drop star_si s) (drop (spi + 1) p) \<longleftrightarrow> likes (drop si s) (drop pi p))"

fun like_potential :: "string list \<Rightarrow> string list \<Rightarrow> nat \<Rightarrow> nat option \<Rightarrow> nat \<Rightarrow> nat" where
  "like_potential s p pi None star_si = length s * length p + (length p - pi) + 1"
| "like_potential s p pi (Some spi) star_si = (length s - star_si) * (length p - spi) + (length p - pi)"

lemma like_stretch_drop:
  assumes "a \<le> b" "b \<le> length p"
  shows "drop a p = like_stretch p a b @ drop b p" "length (like_stretch p a b) = b - a"
  using assms by (simp_all, metis append_take_drop_id drop_drop le_add_diff_inverse2)

lemma like_stretch_Suc:
  assumes "a \<le> b" "b < length p"
  shows "like_stretch p a (Suc b) = like_stretch p a b @ [p ! b]"
  using assms by (simp add: Suc_diff_le take_Suc_conv_app_nth)

text \<open>Any other starting point leaves the current position at or behind it.\<close>

lemma like_later_start:
  assumes "like_inv s p si pi (Some spi) star_si" "star_si \<le> j" "j \<le> length s" "likes (drop j s) (drop (spi + 1) p)"
  defines "k \<equiv> j + (pi - (spi + 1))"
  shows "si \<le> k" "k \<le> length s" "likes (drop k s) (drop pi p)" "j = star_si \<or> si < k"
proof -
  let ?q = "like_stretch p (spi + 1) pi"
  have q: "drop (spi + 1) p = ?q @ drop pi p" "length ?q = pi - (spi + 1)" using assms(1) by (intro like_stretch_drop; simp)+
  have "length ?q \<le> length (drop j s) \<and> likes (drop (length ?q) (drop j s)) (drop pi p)"
    by (rule likes_plain_prefix) (use assms(1,4) q in auto)
  then show "likes (drop k s) (drop pi p)" "k \<le> length s" unfolding q(2) k_def using assms(3) by (auto simp: add.commute)
  show "si \<le> k" "j = star_si \<or> si < k" using assms(1,2) by (auto simp: k_def)
qed

text \<open>Recording a \<^verbatim>\<open>%\<close>, matching one character, and starting one character later.\<close>

lemma like_inv_percent:
  assumes inv: "like_inv s p si pi star star_si" and pi: "pi < length p" "p ! pi = ''%''"
  shows "like_inv s p si (pi + 1) (Some pi) si"
proof -
  have d: "drop pi p = ''%'' # drop (pi + 1) p" using pi by (simp add: Cons_nth_drop_Suc [symmetric])
  have here: "likes (drop si s) (drop pi p) \<longleftrightarrow> (\<exists>j \<ge> si. j \<le> length s \<and> likes (drop j s) (drop (pi + 1) p))" (is "_ \<longleftrightarrow> ?later")
  proof -
    have "likes (drop si s) (drop pi p) \<longleftrightarrow> (\<exists>j \<le> length s - si. likes (drop (si + j) s) (drop (pi + 1) p))"
      unfolding d likes_percent_drop by (simp add: add.commute)
    also have "\<dots> \<longleftrightarrow> ?later"
    proof
      assume "\<exists>j \<le> length s - si. likes (drop (si + j) s) (drop (pi + 1) p)"
      then obtain j where "j \<le> length s - si" "likes (drop (si + j) s) (drop (pi + 1) p)" by blast
      moreover have "si \<le> length s" using inv by (cases star) auto
      ultimately show ?later by (intro exI [of _ "si + j"]) auto
    next
      assume ?later
      then obtain j where "j \<ge> si" "j \<le> length s" "likes (drop j s) (drop (pi + 1) p)" by blast
      then show "\<exists>j \<le> length s - si. likes (drop (si + j) s) (drop (pi + 1) p)" by (intro exI [of _ "j - si"]) auto
    qed
    finally show ?thesis .
  qed
  have "likes s p \<longleftrightarrow> ?later"
  proof (cases star)
    case None
    then show ?thesis using inv here by simp
  next
    case (Some spi)
    have "?later" if "star_si \<le> j" "j \<le> length s" "likes (drop j s) (drop (spi + 1) p)" for j
    proof -
      let ?k = "j + (pi - (spi + 1))"
      note k = like_later_start [OF inv [unfolded Some] that]
      from k(3) obtain i where "i \<le> length s - ?k" "likes (drop (i + ?k) s) (drop (pi + 1) p)"
        unfolding d likes_percent_drop by auto
      then show ?later using k(1,2) by (intro exI [of _ "i + ?k"]) auto
    qed
    moreover have "star_si \<le> length s" using inv Some by simp
    ultimately show ?thesis using inv here Some by (auto simp del: drop_drop)
  qed
  with inv pi show ?thesis by (cases star) auto
qed

lemma like_inv_advance:
  assumes inv: "like_inv s p si pi star star_si" and "si < length s" "pi < length p" "p ! pi \<noteq> ''%''" "p ! pi = ''_'' \<or> p ! pi = s ! si"
  shows "like_inv s p (si + 1) (pi + 1) star star_si"
proof -
  have "likes (drop si s) (drop pi p) \<longleftrightarrow> likes (drop (si + 1) s) (drop (pi + 1) p)"
    using assms(2-) by (simp add: Cons_nth_drop_Suc [symmetric] likes_Cons_plain)
  moreover have "''%'' \<notin> set (like_stretch p (spi + 1) (pi + 1))" if "star = Some spi" for spi
    using like_stretch_Suc [of "spi + 1" pi p] inv that assms(3,4) by simp
  ultimately show ?thesis using assms by (cases star) auto
qed

lemma like_mismatch:
  assumes "si < length s" "\<not> (pi < length p \<and> p ! pi = ''%'')" "\<not> (pi < length p \<and> (p ! pi = ''_'' \<or> p ! pi = s ! si))"
  shows "\<not> likes (drop si s) (drop pi p)"
proof (cases "pi < length p")
  case True
  then show ?thesis using assms by (simp add: Cons_nth_drop_Suc [symmetric] likes_Cons_plain)
next
  case False
  then show ?thesis using assms(1) by (simp add: likes_Nil_right)
qed

lemma like_inv_backtrack:
  assumes inv: "like_inv s p si pi (Some spi) star_si" and "si < length s" "\<not> likes (drop si s) (drop pi p)"
  shows "like_inv s p (star_si + 1) (spi + 1) (Some spi) (star_si + 1)"
proof -
  have "\<not> likes (drop star_si s) (drop (spi + 1) p)" using inv assms(3) by simp
  then have "(\<exists>j \<ge> star_si. j \<le> length s \<and> likes (drop j s) (drop (spi + 1) p)) \<longleftrightarrow>
      (\<exists>j \<ge> star_si + 1. j \<le> length s \<and> likes (drop j s) (drop (spi + 1) p))"
    by (metis Suc_eq_plus1 Suc_leD le_Suc_eq le_antisym not_less_eq_eq)
  with inv assms(2) show ?thesis by auto
qed

lemma like_inv_end:
  assumes inv: "like_inv s p si pi star star_si" and "\<not> si < length s"
  shows "pi \<le> length p" "likes s p \<longleftrightarrow> set (drop pi p) \<subseteq> {''%''}"
proof -
  have si: "si = length s" using assms by (cases star) auto
  show "pi \<le> length p" using inv by (cases star) auto
  show "likes s p \<longleftrightarrow> set (drop pi p) \<subseteq> {''%''}"
  proof (cases star)
    case None
    then show ?thesis using inv si by (simp add: likes_empty_subject)
  next
    case (Some spi)
    have "j = star_si" if "star_si \<le> j" "j \<le> length s" "likes (drop j s) (drop (spi + 1) p)" for j
      using like_later_start(2,4) [OF inv [unfolded Some] that] si by auto
    then have "likes s p \<longleftrightarrow> likes (drop star_si s) (drop (spi + 1) p)" using inv Some by auto
    also have "\<dots> \<longleftrightarrow> likes [] (drop pi p)" using inv Some si by simp
    finally show ?thesis by (simp add: likes_empty_subject)
  qed
qed

lemma trailing_percents_all: "pi \<le> length p \<Longrightarrow> trailing_percents p pi = length p \<longleftrightarrow> set (drop pi p) \<subseteq> {''%''}"
proof (induction p pi rule: trailing_percents.induct)
  case (1 p pi)
  show ?case
  proof (cases "pi < length p")
    case True
    then have "drop pi p = p ! pi # drop (pi + 1) p" by (simp add: Cons_nth_drop_Suc [symmetric])
    with 1 True show ?thesis by (subst trailing_percents.simps) auto
  next
    case False
    with 1(2) show ?thesis by (subst trailing_percents.simps) auto
  qed
qed

text \<open>The potential falls with every iteration.\<close>

lemma like_inv_bounds: "like_inv s p si pi (Some spi) star_si \<Longrightarrow> spi < pi \<and> pi \<le> length p \<and> star_si \<le> si"
  by simp

lemma like_potential_percent:
  assumes "like_inv s p si pi star star_si" "si < length s" "pi < length p"
  shows "like_potential s p (pi + 1) (Some pi) si < like_potential s p pi star star_si"
proof (cases star)
  case None
  have "(length s - si) * (length p - pi) \<le> length s * length p" by (intro mult_le_mono) auto
  then show ?thesis using None assms by simp
next
  case (Some spi)
  then have "(length s - si) * (length p - pi) \<le> (length s - star_si) * (length p - spi)"
    using like_inv_bounds [of s p si pi spi star_si] assms by (intro mult_le_mono) auto
  then show ?thesis using Some assms(3) by (simp only: like_potential.simps) linarith
qed

lemma like_potential_backtrack:
  assumes "like_inv s p si pi (Some spi) star_si" "si < length s"
  shows "like_potential s p (spi + 1) (Some spi) (star_si + 1) < like_potential s p pi (Some spi) star_si"
proof -
  note b = like_inv_bounds [OF assms(1)]
  have "length s - star_si = Suc (length s - (star_si + 1))" using b assms(2) by auto
  then have "(length s - star_si) * (length p - spi) = (length s - (star_si + 1)) * (length p - spi) + (length p - spi)" by simp
  then show ?thesis using b by (simp only: like_potential.simps) linarith
qed

lemma like_loop_correct:
  assumes "like_inv s p si pi star star_si" "like_potential s p pi star star_si \<le> n"
  shows "\<exists>r. like_loop n s p si pi star star_si = Some r \<and>
    (likes s p \<longleftrightarrow> (case r of None \<Rightarrow> False | Some i \<Rightarrow> trailing_percents p i = length p))"
  using assms
proof (induction n arbitrary: si pi star star_si)
  case 0
  have "\<not> si < length s"
  proof
    assume "si < length s"
    with 0 show False
    proof (cases star)
      case (Some spi)
      then have "star_si \<le> si" "spi < length p" using like_inv_bounds [OF 0(1) [unfolded Some]] by linarith+
      with \<open>si < length s\<close> have "0 < (length s - star_si) * (length p - spi)" by simp
      with 0(2) Some show False by simp
    qed simp
  qed
  then show ?case using like_inv_end [OF 0(1)] trailing_percents_all [of pi p] by simp
next
  case (Suc n)
  note inv = Suc.prems(1)
  consider (fin) "\<not> si < length s"
    | (percent) "si < length s" "pi < length p" "p ! pi = ''%''"
    | (advance) "si < length s" "pi < length p" "p ! pi \<noteq> ''%''" "p ! pi = ''_'' \<or> p ! pi = s ! si"
    | (mismatch) "si < length s" "\<not> (pi < length p \<and> p ! pi = ''%'')" "\<not> (pi < length p \<and> (p ! pi = ''_'' \<or> p ! pi = s ! si))"
    by blast
  then show ?case
  proof cases
    case fin
    then show ?thesis using like_inv_end [OF inv fin] trailing_percents_all [of pi p] by simp
  next
    case percent
    have "like_potential s p (pi + 1) (Some pi) si \<le> n"
      using like_potential_percent [OF inv percent(1,2)] Suc.prems(2) by linarith
    from Suc.IH [OF like_inv_percent [OF inv percent(2,3)] this] percent show ?thesis by simp
  next
    case advance
    have "like_potential s p (pi + 1) star star_si \<le> n" using Suc.prems(2) advance(2) by (cases star) auto
    from Suc.IH [OF like_inv_advance [OF inv advance] this] advance show ?thesis by simp
  next
    case mismatch
    note no = like_mismatch [OF mismatch]
    have step: "like_loop (Suc n) s p si pi star star_si =
        (case star of Some spi \<Rightarrow> like_loop n s p (star_si + 1) (spi + 1) star (star_si + 1) | None \<Rightarrow> Some None)"
      using mismatch by auto
    show ?thesis
    proof (cases star)
      case None
      then show ?thesis using step no inv by simp
    next
      case (Some spi)
      have "like_potential s p (spi + 1) star (star_si + 1) \<le> n"
        using like_potential_backtrack [OF inv [unfolded Some] mismatch(1)] Suc.prems(2) Some by simp
      from Suc.IH [OF like_inv_backtrack [OF inv [unfolded Some] mismatch(1) no, folded Some] this] step Some
      show ?thesis by simp
    qed
  qed
qed

lemma like_match_chars_correct: "like_match_chars s p = Some (likes s p)"
proof -
  have "like_inv s p 0 0 None 0" "like_potential s p 0 None 0 \<le> like_iterations s p" by (simp_all add: like_iterations_def)
  from like_loop_correct [OF this] show ?thesis
    by (auto simp: like_match_chars_def split: option.splits)
qed

text \<open>
  C29: \<^verbatim>\<open>LIKE\<close>.  The matcher always answers, after at most \<open>n * m + m + 1\<close> iterations for a subject of \<open>n\<close> characters and a
  pattern of \<open>m\<close>, and its answer is the meaning of the pattern: \<^verbatim>\<open>%\<close> stands for any run of characters, \<^verbatim>\<open>_\<close> for
  exactly one, and every other character for itself.
\<close>

theorem like_match_correct: "like_match s pattern = Some (likes (utf8_chars s) (utf8_chars pattern))"
  by (simp add: like_match_def like_match_chars_correct)

end
