(* ===== verification/Sql_Value.thy ===== *)
theory Sql_Value
  imports Sql_Like Packed_Row "HOL-Library.Signed_Division"
begin

text \<open>
  \<^verbatim>\<open>sochdb-query/src/sql/mod.rs\<close>, the expressions: \<^verbatim>\<open>SqlExecutor::evaluate_expr\<close> and what it calls, and
  \<^verbatim>\<open>sochdb-query/src/sql/error.rs\<close>.  A row is the \<^verbatim>\<open>HashMap\<close> from column names to values.  An \<^verbatim>\<open>i64\<close> is a 64-bit
  word read with its sign, and its operations wrap around as in the release profile; division of the least integer by minus one
  panics in every profile.  A 64-bit float is its bit pattern: negation, absolute value and comparison are modelled on the bits; the
  rounding operations, the Unicode case tables, the \<^verbatim>\<open>{:?}\<close> renderings and what the standard library's sort makes of rows that a comparison does
  not order are parameters.
\<close>

unbundle bit_operations_syntax

subsection \<open>Errors\<close>

datatype SqlError =
    SqlParseError string nat nat
  | SqlLexError string
  | SqlTableNotFound string
  | SqlColumnNotFound string
  | SqlTypeError string
  | SqlConstraintViolation string
  | SqlTransactionError string
  | SqlNotImplemented string
  | SqlExecutionError string
  | SqlInvalidArgument string
  | SqlPermissionDenied string

definition from_parse_errors :: "ParseError list \<Rightarrow> SqlError" where
  "from_parse_errors errors =
     (case errors of
        e # _ \<Rightarrow> SqlParseError (pe_message e) (sp_line (pe_span e)) (sp_column (pe_span e))
      | [] \<Rightarrow> SqlParseError ''Unknown parse error'' 0 0)"

datatype sql_failure = SqlFail SqlError | SqlPanic string | SqlUnbounded

type_synonym 'a sql = "sql_failure + 'a"

definition sql_bind :: "'a sql \<Rightarrow> ('a \<Rightarrow> 'b sql) \<Rightarrow> 'b sql" where
  "sql_bind r f = (case r of Inl e \<Rightarrow> Inl e | Inr x \<Rightarrow> f x)"

lemma sql_bind_simps [simp]:
  "sql_bind (Inl e) f = Inl e"
  "sql_bind (Inr x) f = f x"
  by (simp_all add: sql_bind_def)

lemma sql_bind_eq_Inr: "sql_bind r f = Inr y \<longleftrightarrow> (\<exists>x. r = Inr x \<and> f x = Inr y)"
  by (cases r) auto

abbreviation type_error :: "string \<Rightarrow> 'a sql" where
  "type_error m \<equiv> Inl (SqlFail (SqlTypeError m))"

abbreviation not_implemented :: "string \<Rightarrow> 'a sql" where
  "not_implemented m \<equiv> Inl (SqlFail (SqlNotImplemented m))"

abbreviation invalid_argument :: "string \<Rightarrow> 'a sql" where
  "invalid_argument m \<equiv> Inl (SqlFail (SqlInvalidArgument m))"

subsection \<open>Numbers and text\<close>

record sql_eval_std = sql_std +
  ev_add :: "u64 \<Rightarrow> u64 \<Rightarrow> u64"
  ev_sub :: "u64 \<Rightarrow> u64 \<Rightarrow> u64"
  ev_mul :: "u64 \<Rightarrow> u64 \<Rightarrow> u64"
  ev_div :: "u64 \<Rightarrow> u64 \<Rightarrow> u64"
  ev_rem :: "u64 \<Rightarrow> u64 \<Rightarrow> u64"
  ev_i64_as_f64 :: "u64 \<Rightarrow> u64"
  ev_upper :: "string \<Rightarrow> string"
  ev_lower :: "string \<Rightarrow> string"
  ev_debug_expr :: "Expr \<Rightarrow> string"
  ev_debug_op :: "BinaryOperator \<Rightarrow> string"
  ev_unordered :: "(string \<Rightarrow> SochValue option) list \<Rightarrow> (string \<Rightarrow> SochValue option) list option"

datatype Ordering = Less | Equal | Greater

definition ord_cmp :: "'a::linorder \<Rightarrow> 'a \<Rightarrow> Ordering" where
  "ord_cmp a b = (if a < b then Less else if a = b then Equal else Greater)"

fun ord_reverse :: "Ordering \<Rightarrow> Ordering" where
  "ord_reverse Less = Greater"
| "ord_reverse Equal = Equal"
| "ord_reverse Greater = Less"

definition f64_abs :: "u64 \<Rightarrow> u64" where
  "f64_abs x = x AND 0x7FFFFFFFFFFFFFFF"

definition f64_neg :: "u64 \<Rightarrow> u64" where
  "f64_neg x = x XOR 0x8000000000000000"

definition f64_is_nan :: "u64 \<Rightarrow> bool" where
  "f64_is_nan x \<longleftrightarrow> f64_abs x > 0x7FF0000000000000"

text \<open>The bits without the sign are ordered like the magnitudes; both zeros have the key 0.\<close>

definition f64_key :: "u64 \<Rightarrow> int" where
  "f64_key x = (if x < 0x8000000000000000 then uint x else - uint (f64_abs x))"

definition f64_partial_cmp :: "u64 \<Rightarrow> u64 \<Rightarrow> Ordering option" where
  "f64_partial_cmp a b = (if f64_is_nan a \<or> f64_is_nan b then None else Some (ord_cmp (f64_key a) (f64_key b)))"

definition f64_cmp_or_equal :: "u64 \<Rightarrow> u64 \<Rightarrow> Ordering" where
  "f64_cmp_or_equal a b = (case f64_partial_cmp a b of Some c \<Rightarrow> c | None \<Rightarrow> Equal)"

definition f64_EPSILON :: u64 where
  "f64_EPSILON = 0x3CB0000000000000"

definition f64_near :: "sql_eval_std \<Rightarrow> u64 \<Rightarrow> u64 \<Rightarrow> bool" where
  "f64_near E l r \<longleftrightarrow> f64_partial_cmp (f64_abs (ev_sub E l r)) f64_EPSILON = Some Less"

definition i64_MIN :: u64 where
  "i64_MIN = 0x8000000000000000"

definition i64_cmp :: "u64 \<Rightarrow> u64 \<Rightarrow> Ordering" where
  "i64_cmp a b = ord_cmp (sint a) (sint b)"

definition i64_div :: "u64 \<Rightarrow> u64 \<Rightarrow> u64 sql" where
  "i64_div a b =
     (if b = 0 then Inr 0
      else if a = i64_MIN \<and> b = -1 then Inl (SqlPanic ''attempt to divide with overflow'')
      else Inr (word_of_int (sint a sdiv sint b)))"

definition i64_rem :: "u64 \<Rightarrow> u64 \<Rightarrow> u64 sql" where
  "i64_rem a b =
     (if b = 0 then Inr 0
      else if a = i64_MIN \<and> b = -1 then Inl (SqlPanic ''attempt to calculate the remainder with overflow'')
      else Inr (word_of_int (sint a smod sint b)))"

definition i64_abs :: "u64 \<Rightarrow> u64" where
  "i64_abs n = (if sint n < 0 then - n else n)"

text \<open>The text of a value and a text as a value.\<close>

definition text_of :: "bytes \<Rightarrow> string" where
  "text_of = map (\<lambda>b. char_of (unat b))"

definition bytes_of :: "string \<Rightarrow> bytes" where
  "bytes_of = map of_char"

lemma unat_of_char: "unat (of_char c :: byte) = of_char c"
proof -
  have "unat (of_nat (of_char c) :: byte) = of_char c" by (simp add: unat_of_nat)
  then show ?thesis by (simp add: of_nat_of_char)
qed

lemma text_of_bytes_of [simp]: "text_of (bytes_of s) = s"
  by (induction s) (simp_all add: text_of_def bytes_of_def unat_of_char)

subsection \<open>Comparison and arithmetic\<close>

definition values_equal :: "sql_eval_std \<Rightarrow> SochValue \<Rightarrow> SochValue \<Rightarrow> bool" where
  "values_equal E left right =
     (case (left, right) of
        (VNull, _) \<Rightarrow> False
      | (_, VNull) \<Rightarrow> False
      | (VInt l, VInt r) \<Rightarrow> (l = r)
      | (VFloat l, VFloat r) \<Rightarrow> f64_near E l r
      | (VInt l, VFloat r) \<Rightarrow> f64_near E (ev_i64_as_f64 E l) r
      | (VFloat l, VInt r) \<Rightarrow> f64_near E l (ev_i64_as_f64 E r)
      | (VText l, VText r) \<Rightarrow> (l = r)
      | (VBool l, VBool r) \<Rightarrow> (l = r)
      | (VBinary l, VBinary r) \<Rightarrow> (l = r)
      | (VUInt l, VUInt r) \<Rightarrow> (l = r)
      | (VInt l, VUInt r) \<Rightarrow> (sint l \<ge> 0 \<and> l = r)
      | (VUInt l, VInt r) \<Rightarrow> (sint r \<ge> 0 \<and> l = r)
      | (_, _) \<Rightarrow> False)"

definition compare_values :: "sql_eval_std \<Rightarrow> SochValue option \<Rightarrow> SochValue option \<Rightarrow> Ordering" where
  "compare_values E left right =
     (case (left, right) of
        (None, None) \<Rightarrow> Equal
      | (None, _) \<Rightarrow> Less
      | (_, None) \<Rightarrow> Greater
      | (Some VNull, _) \<Rightarrow> Equal
      | (_, Some VNull) \<Rightarrow> Equal
      | (Some (VInt l), Some (VInt r)) \<Rightarrow> i64_cmp l r
      | (Some (VFloat l), Some (VFloat r)) \<Rightarrow> f64_cmp_or_equal l r
      | (Some (VInt l), Some (VFloat r)) \<Rightarrow> f64_cmp_or_equal (ev_i64_as_f64 E l) r
      | (Some (VFloat l), Some (VInt r)) \<Rightarrow> f64_cmp_or_equal l (ev_i64_as_f64 E r)
      | (Some (VText l), Some (VText r)) \<Rightarrow> ord_cmp l r
      | (Some (VUInt l), Some (VUInt r)) \<Rightarrow> ord_cmp l r
      | (_, _) \<Rightarrow> Equal)"

definition arithmetic_op :: "sql_eval_std \<Rightarrow> (u64 \<Rightarrow> u64 \<Rightarrow> u64 sql) \<Rightarrow> (u64 \<Rightarrow> u64 \<Rightarrow> u64) \<Rightarrow> SochValue \<Rightarrow> SochValue \<Rightarrow> SochValue sql" where
  "arithmetic_op E iop fop left right =
     (case (left, right) of
        (VNull, _) \<Rightarrow> Inr VNull
      | (_, VNull) \<Rightarrow> Inr VNull
      | (VInt l, VInt r) \<Rightarrow> map_sum id VInt (iop l r)
      | (VFloat l, VFloat r) \<Rightarrow> Inr (VFloat (fop l r))
      | (VInt l, VFloat r) \<Rightarrow> Inr (VFloat (fop (ev_i64_as_f64 E l) r))
      | (VFloat l, VInt r) \<Rightarrow> Inr (VFloat (fop l (ev_i64_as_f64 E r)))
      | (VUInt l, VUInt r) \<Rightarrow> map_sum id VInt (iop l r)
      | (VInt l, VUInt r) \<Rightarrow> map_sum id VInt (iop l r)
      | (VUInt l, VInt r) \<Rightarrow> map_sum id VInt (iop l r)
      | (_, _) \<Rightarrow> type_error ''Arithmetic requires numeric operands'')"

definition sql_and :: "SochValue \<Rightarrow> SochValue \<Rightarrow> SochValue sql" where
  "sql_and left right =
     (case (left, right) of
        (VBool l, VBool r) \<Rightarrow> Inr (VBool (l \<and> r))
      | (VNull, _) \<Rightarrow> Inr VNull
      | (_, VNull) \<Rightarrow> Inr VNull
      | (_, _) \<Rightarrow> type_error ''AND requires boolean operands'')"

definition sql_or :: "SochValue \<Rightarrow> SochValue \<Rightarrow> SochValue sql" where
  "sql_or left right =
     (case (left, right) of
        (VBool l, VBool r) \<Rightarrow> Inr (VBool (l \<or> r))
      | (VBool True, _) \<Rightarrow> Inr (VBool True)
      | (_, VBool True) \<Rightarrow> Inr (VBool True)
      | (VNull, _) \<Rightarrow> Inr VNull
      | (_, VNull) \<Rightarrow> Inr VNull
      | (_, _) \<Rightarrow> type_error ''OR requires boolean operands'')"

definition sql_concat :: "SochValue \<Rightarrow> SochValue \<Rightarrow> SochValue sql" where
  "sql_concat left right =
     (case (left, right) of
        (VText l, VText r) \<Rightarrow> Inr (VText (l @ r))
      | (VNull, _) \<Rightarrow> Inr VNull
      | (_, VNull) \<Rightarrow> Inr VNull
      | (_, _) \<Rightarrow> type_error ''|| requires string operands'')"

definition evaluate_binary_op :: "sql_eval_std \<Rightarrow> SochValue \<Rightarrow> BinaryOperator \<Rightarrow> SochValue \<Rightarrow> SochValue sql" where
  "evaluate_binary_op E left op right =
     (let cmp = compare_values E (Some left) (Some right)
      in case op of
        BinEq \<Rightarrow> Inr (VBool (values_equal E left right))
      | BinNe \<Rightarrow> Inr (VBool (\<not> values_equal E left right))
      | BinLt \<Rightarrow> Inr (VBool (cmp = Less))
      | BinLe \<Rightarrow> Inr (VBool (cmp \<noteq> Greater))
      | BinGt \<Rightarrow> Inr (VBool (cmp = Greater))
      | BinGe \<Rightarrow> Inr (VBool (cmp \<noteq> Less))
      | BinAnd \<Rightarrow> sql_and left right
      | BinOr \<Rightarrow> sql_or left right
      | BinPlus \<Rightarrow> arithmetic_op E (\<lambda>a b. Inr (a + b)) (ev_add E) left right
      | BinMinus \<Rightarrow> arithmetic_op E (\<lambda>a b. Inr (a - b)) (ev_sub E) left right
      | BinMultiply \<Rightarrow> arithmetic_op E (\<lambda>a b. Inr (a * b)) (ev_mul E) left right
      | BinDivide \<Rightarrow> arithmetic_op E i64_div (ev_div E) left right
      | BinModulo \<Rightarrow> arithmetic_op E i64_rem (ev_rem E) left right
      | BinConcat \<Rightarrow> sql_concat left right
      | _ \<Rightarrow> not_implemented (''Operator '' @ ev_debug_op E op @ '' not implemented''))"

fun evaluate_unary_op :: "UnaryOperator \<Rightarrow> SochValue \<Rightarrow> SochValue sql" where
  "evaluate_unary_op UnNot (VBool b) = Inr (VBool (\<not> b))"
| "evaluate_unary_op UnNot VNull = Inr VNull"
| "evaluate_unary_op UnNot v = type_error ''NOT requires boolean operand''"
| "evaluate_unary_op UnMinus (VInt n) = Inr (VInt (- n))"
| "evaluate_unary_op UnMinus (VFloat f) = Inr (VFloat (f64_neg f))"
| "evaluate_unary_op UnMinus VNull = Inr VNull"
| "evaluate_unary_op UnMinus v = type_error ''Unary minus requires numeric operand''"
| "evaluate_unary_op UnPlus v = Inr v"
| "evaluate_unary_op UnBitNot (VInt n) = Inr (VInt (NOT n))"
| "evaluate_unary_op UnBitNot v = type_error ''~ requires integer operand''"

subsection \<open>Functions\<close>

text \<open>
  The arguments are given as the results of their evaluation; an argument that the code does not reach is not looked at.
\<close>

fun coalesce_loop :: "SochValue sql list \<Rightarrow> SochValue sql" where
  "coalesce_loop [] = Inr VNull"
| "coalesce_loop (r # rs) = sql_bind r (\<lambda>val. if val \<noteq> VNull then Inr val else coalesce_loop rs)"

definition one_argument :: "string \<Rightarrow> SochValue sql list \<Rightarrow> (SochValue \<Rightarrow> SochValue sql) \<Rightarrow> SochValue sql" where
  "one_argument name args f =
     (if length args \<noteq> 1 then invalid_argument (name @ '' requires 1 argument'') else sql_bind (args ! 0) f)"

definition fn_abs :: "SochValue \<Rightarrow> SochValue sql" where
  "fn_abs val =
     (case val of
        VInt n \<Rightarrow> Inr (VInt (i64_abs n))
      | VFloat f \<Rightarrow> Inr (VFloat (f64_abs f))
      | VNull \<Rightarrow> Inr VNull
      | _ \<Rightarrow> type_error ''ABS requires numeric argument'')"

definition fn_length :: "SochValue \<Rightarrow> SochValue sql" where
  "fn_length val =
     (case val of
        VText s \<Rightarrow> Inr (VInt (of_nat (length s)))
      | VBinary b \<Rightarrow> Inr (VInt (of_nat (length b)))
      | VNull \<Rightarrow> Inr VNull
      | _ \<Rightarrow> type_error ''LENGTH requires string argument'')"

definition fn_text :: "string \<Rightarrow> (string \<Rightarrow> string) \<Rightarrow> SochValue \<Rightarrow> SochValue sql" where
  "fn_text name f val =
     (case val of
        VText s \<Rightarrow> Inr (VText (bytes_of (f (text_of s))))
      | VNull \<Rightarrow> Inr VNull
      | _ \<Rightarrow> type_error (name @ '' requires string argument''))"

text \<open>The start is counted in characters but tested against the length in bytes; a negative length becomes a huge one.\<close>

definition fn_substr :: "SochValue \<Rightarrow> SochValue \<Rightarrow> SochValue option \<Rightarrow> SochValue sql" where
  "fn_substr val start len =
     (case (val, start) of
        (VText s, VInt start) \<Rightarrow>
          (let start = nat (max (sint start) 1 - 1)
           in if start \<ge> length s then Inr (VText [])
              else let cs = drop start (utf8_chars (text_of s))
                   in Inr (VText (bytes_of (concat (case len of Some (VInt len) \<Rightarrow> take (unat len) cs | _ \<Rightarrow> cs)))))
      | (VNull, _) \<Rightarrow> Inr VNull
      | (_, VNull) \<Rightarrow> Inr VNull
      | (_, _) \<Rightarrow> type_error ''SUBSTR requires string and integer arguments'')"

definition evaluate_function :: "sql_eval_std \<Rightarrow> SochValue sql FunctionCall \<Rightarrow> SochValue sql" where
  "evaluate_function E func =
     (let func_name = ev_upper E (object_name_name (fc_name func)); args = fc_args func
      in if func_name = ''COALESCE'' then coalesce_loop args
         else if func_name = ''NULLIF''
         then if length args \<noteq> 2 then invalid_argument ''NULLIF requires 2 arguments''
              else sql_bind (args ! 0) (\<lambda>val1. sql_bind (args ! 1) (\<lambda>val2. Inr (if values_equal E val1 val2 then VNull else val1)))
         else if func_name = ''ABS'' then one_argument ''ABS'' args fn_abs
         else if func_name = ''LENGTH'' \<or> func_name = ''LEN'' then one_argument ''LENGTH'' args fn_length
         else if func_name = ''UPPER'' then one_argument ''UPPER'' args (fn_text ''UPPER'' (ev_upper E))
         else if func_name = ''LOWER'' then one_argument ''LOWER'' args (fn_text ''LOWER'' (ev_lower E))
         else if func_name = ''TRIM'' then one_argument ''TRIM'' args (fn_text ''TRIM'' (\<lambda>s. concat (str_trim s)))
         else if func_name = ''SUBSTR'' \<or> func_name = ''SUBSTRING''
         then if length args < 2 \<or> length args > 3 then invalid_argument ''SUBSTR requires 2 or 3 arguments''
              else sql_bind (args ! 0) (\<lambda>val. sql_bind (args ! 1) (\<lambda>start.
                     if length args = 3 then sql_bind (args ! 2) (\<lambda>len. fn_substr val start (Some len)) else fn_substr val start None))
         else not_implemented (''Function '' @ func_name @ '' not implemented''))"

subsection \<open>Expressions\<close>

type_synonym sql_row = "string \<Rightarrow> SochValue option"

fun in_list_loop :: "sql_eval_std \<Rightarrow> SochValue \<Rightarrow> SochValue sql list \<Rightarrow> bool sql" where
  "in_list_loop E val [] = Inr False"
| "in_list_loop E val (r # rs) = sql_bind r (\<lambda>item_val. if values_equal E val item_val then Inr True else in_list_loop E val rs)"

fun case_loop :: "(SochValue \<Rightarrow> bool) \<Rightarrow> (SochValue sql \<times> SochValue sql) list \<Rightarrow> SochValue sql option \<Rightarrow> SochValue sql" where
  "case_loop hit [] else_result = (case else_result of Some r \<Rightarrow> r | None \<Rightarrow> Inr VNull)"
| "case_loop hit ((w, r) # cs) else_result = sql_bind w (\<lambda>when_val. if hit when_val then r else case_loop hit cs else_result)"

definition literal_to_value :: "Literal \<Rightarrow> SochValue" where
  "literal_to_value lit =
     (case lit of
        LitNull \<Rightarrow> VNull
      | LitBoolean b \<Rightarrow> VBool b
      | LitInteger n \<Rightarrow> VInt (word_of_int n)
      | LitFloat f \<Rightarrow> VFloat f
      | LitString s \<Rightarrow> VText (bytes_of s)
      | LitBlob b \<Rightarrow> VBinary b)"

definition column_value :: "sql_row \<Rightarrow> string \<Rightarrow> SochValue sql" where
  "column_value row column = (case row column of Some v \<Rightarrow> Inr v | None \<Rightarrow> Inl (SqlFail (SqlColumnNotFound column)))"

definition placeholder_value :: "SochValue list \<Rightarrow> u32 \<Rightarrow> SochValue sql" where
  "placeholder_value params n =
     (case vec_get params (unat n - 1) of
        Some v \<Rightarrow> Inr v
      | None \<Rightarrow> invalid_argument (''Parameter $'' @ show_nat (unat n) @ '' not provided''))"

definition between_value :: "sql_eval_std \<Rightarrow> SochValue \<Rightarrow> SochValue \<Rightarrow> SochValue \<Rightarrow> bool" where
  "between_value E val low high \<longleftrightarrow>
     compare_values E (Some val) (Some low) \<noteq> Less \<and> compare_values E (Some val) (Some high) \<noteq> Greater"

definition like_value :: "SochValue \<Rightarrow> SochValue \<Rightarrow> bool \<Rightarrow> SochValue sql" where
  "like_value val pat negated =
     (case (val, pat) of
        (VText s, VText p) \<Rightarrow>
          (case like_match (text_of s) (text_of p) of
             Some matches \<Rightarrow> Inr (VBool (if negated then \<not> matches else matches))
           | None \<Rightarrow> Inl SqlUnbounded)
      | _ \<Rightarrow> Inr (VBool False))"

definition unsupported :: "sql_eval_std \<Rightarrow> Expr \<Rightarrow> SochValue sql" where
  "unsupported E expr = not_implemented (''Expression type '' @ ev_debug_expr E expr @ '' not yet supported'')"

primrec evaluate_expr :: "sql_eval_std \<Rightarrow> sql_row \<Rightarrow> SochValue list \<Rightarrow> Expr \<Rightarrow> SochValue sql" where
  "evaluate_expr E row params (ELiteral lit) = Inr (literal_to_value lit)"
| "evaluate_expr E row params (EColumn col_ref) = column_value row (cr_column col_ref)"
| "evaluate_expr E row params (EPlaceholder n) = placeholder_value params n"
| "evaluate_expr E row params (EBinaryOp left op right) =
     sql_bind (evaluate_expr E row params left) (\<lambda>left_val.
     sql_bind (evaluate_expr E row params right) (\<lambda>right_val.
     evaluate_binary_op E left_val op right_val))"
| "evaluate_expr E row params (EUnaryOp op expr) = sql_bind (evaluate_expr E row params expr) (evaluate_unary_op op)"
| "evaluate_expr E row params (EIsNull expr negated) =
     sql_bind (evaluate_expr E row params expr) (\<lambda>val. Inr (VBool (if negated then val \<noteq> VNull else val = VNull)))"
| "evaluate_expr E row params (EInList expr items negated) =
     sql_bind (evaluate_expr E row params expr) (\<lambda>val.
     sql_bind (in_list_loop E val (map (evaluate_expr E row params) items)) (\<lambda>found.
     Inr (VBool (if negated then \<not> found else found))))"
| "evaluate_expr E row params (EBetween expr low high negated) =
     sql_bind (evaluate_expr E row params expr) (\<lambda>val.
     sql_bind (evaluate_expr E row params low) (\<lambda>low_val.
     sql_bind (evaluate_expr E row params high) (\<lambda>high_val.
     Inr (VBool (if negated then \<not> between_value E val low_val high_val else between_value E val low_val high_val)))))"
| "evaluate_expr E row params (ELike expr pat esc negated) =
     sql_bind (evaluate_expr E row params expr) (\<lambda>val.
     sql_bind (evaluate_expr E row params pat) (\<lambda>pattern_val.
     like_value val pattern_val negated))"
| "evaluate_expr E row params (EFunction func) = evaluate_function E (map_FunctionCall (evaluate_expr E row params) func)"
| "evaluate_expr E row params (ECase operand conditions else_result) =
     (let cs = map (map_prod (evaluate_expr E row params) (evaluate_expr E row params)) conditions;
          els = map_option (evaluate_expr E row params) else_result
      in case map_option (evaluate_expr E row params) operand of
           Some op \<Rightarrow> sql_bind op (\<lambda>op_val. case_loop (values_equal E op_val) cs els)
         | None \<Rightarrow> case_loop (\<lambda>when_val. when_val = VBool True) cs els)"
| "evaluate_expr E row params (ESubquery q) = unsupported E (ESubquery q)"
| "evaluate_expr E row params (EExists q) = unsupported E (EExists q)"
| "evaluate_expr E row params (EInSubquery e q n) = unsupported E (EInSubquery e q n)"
| "evaluate_expr E row params (ECast e t) = unsupported E (ECast e t)"
| "evaluate_expr E row params (EArray es) = unsupported E (EArray es)"
| "evaluate_expr E row params (ETuple es) = unsupported E (ETuple es)"
| "evaluate_expr E row params (ESubscript e i) = unsupported E (ESubscript e i)"
| "evaluate_expr E row params (EVector v) = unsupported E (EVector v)"
| "evaluate_expr E row params (EVectorSearch a b k m) = unsupported E (EVectorSearch a b k m)"
| "evaluate_expr E row params (EJsonAccess e p t) = unsupported E (EJsonAccess e p t)"
| "evaluate_expr E row params (EContextWindow e n p) = unsupported E (EContextWindow e n p)"
| "evaluate_expr E row params (ERecordId t e) = unsupported E (ERecordId t e)"

definition evaluate_where :: "sql_eval_std \<Rightarrow> sql_row \<Rightarrow> SochValue list \<Rightarrow> Expr \<Rightarrow> bool sql" where
  "evaluate_where E row params expr =
     sql_bind (evaluate_expr E row params expr) (\<lambda>value.
       case value of
         VBool b \<Rightarrow> Inr b
       | VNull \<Rightarrow> Inr False
       | _ \<Rightarrow> type_error ''WHERE clause must evaluate to boolean'')"

end
