(* ===== verification/Sql_Parser_Total.thy ===== *)
theory Sql_Parser_Total
  imports Sql_Parser
begin

text \<open>
  The parser always answers.  One judgement, \<open>parses R m P p\<close>, says that from every well-formed state with
  fewer than \<open>m\<close> tokens left and a current kind in \<open>P\<close>, \<open>p\<close> neither exceeds its nesting nor panics (but for the duration of a
  \<^verbatim>\<open>SESSION\<close> clause), keeps the tokens and the depth counter, never moves back, and moves forward when its
  result satisfies \<open>R\<close>.  The rules follow the control structure.
\<close>

named_theorems forward "parsers that consume a token whenever they succeed"
named_theorems steady "parsers that never move back"

definition ps_wf :: "Parser \<Rightarrow> bool" where
  "ps_wf s \<longleftrightarrow> ps_tokens s \<noteq> [] \<and> tk_kind (last (ps_tokens s)) = TEof \<and> ps_pos s < length (ps_tokens s) \<and> ps_depth s \<le> MAX_EXPR_DEPTH"

definition ps_kind :: "Parser \<Rightarrow> TokenKind" where
  "ps_kind s = tk_kind (ps_tokens s ! ps_pos s)"

definition has_session :: "Parser \<Rightarrow> bool" where
  "has_session s \<longleftrightarrow> TSession \<in> tk_kind ` set (ps_tokens s)"

definition follows :: "Parser \<Rightarrow> Parser \<Rightarrow> bool" where
  "follows s s' \<longleftrightarrow> ps_wf s' \<and> ps_tokens s' = ps_tokens s \<and> ps_depth s' = ps_depth s \<and> ps_left s' \<le> ps_left s"

definition parses :: "('a \<Rightarrow> bool) \<Rightarrow> nat \<Rightarrow> (TokenKind \<Rightarrow> bool) \<Rightarrow> 'a parse \<Rightarrow> bool" where
  "parses R m P p \<longleftrightarrow>
     (\<forall>s. ps_wf s \<and> ps_left s < m \<and> P (ps_kind s) \<longrightarrow>
        (case p s of
           Inl e \<Rightarrow> e \<noteq> Unbounded \<and> (e = Panicked \<longrightarrow> has_session s)
         | Inr (a, s') \<Rightarrow> follows s s' \<and> (R a \<longrightarrow> ps_left s' < ps_left s)))"

lemma parsesI:
  assumes "\<And>s. ps_wf s \<Longrightarrow> ps_left s < m \<Longrightarrow> P (ps_kind s) \<Longrightarrow>
    (case p s of
       Inl e \<Rightarrow> e \<noteq> Unbounded \<and> (e = Panicked \<longrightarrow> has_session s)
     | Inr (a, s') \<Rightarrow> follows s s' \<and> (R a \<longrightarrow> ps_left s' < ps_left s))"
  shows "parses R m P p"
  using assms by (simp add: parses_def)

lemma parsesD:
  assumes "parses R m P p" "ps_wf s" "ps_left s < m" "P (ps_kind s)"
  obtains e where "p s = Inl e" "e \<noteq> Unbounded" "e = Panicked \<longrightarrow> has_session s"
  | a s' where "p s = Inr (a, s')" "follows s s'" "R a \<longrightarrow> ps_left s' < ps_left s"
  using assms unfolding parses_def by (cases "p s") fastforce+

lemma follows_refl: "ps_wf s \<Longrightarrow> follows s s"
  by (simp add: follows_def)

lemma follows_trans: "follows s s1 \<Longrightarrow> follows s1 s2 \<Longrightarrow> follows s s2"
  by (auto simp: follows_def)

lemma follows_session: "follows s s' \<Longrightarrow> has_session s' = has_session s"
  by (simp add: follows_def has_session_def)

subsection \<open>Rules\<close>

lemma parses_return: "\<not> R a \<Longrightarrow> parses R m P (p_return a)"
  by (rule parsesI) (simp add: p_return_def follows_refl)

lemma parses_bind:
  assumes "parses R' m P p" "\<And>a. R' a \<Longrightarrow> parses (\<lambda>_. False) (m - 1) (\<lambda>_. True) (q a)"
    "\<And>a. \<not> R' a \<Longrightarrow> parses R m (\<lambda>_. True) (q a)"
  shows "parses R m P (p_bind p q)"
proof (rule parsesI)
  fix s assume s: "ps_wf s" "ps_left s < m" "P (ps_kind s)"
  from assms(1) s show "case p_bind p q s of
      Inl e \<Rightarrow> e \<noteq> Unbounded \<and> (e = Panicked \<longrightarrow> has_session s)
    | Inr (a, s') \<Rightarrow> follows s s' \<and> (R a \<longrightarrow> ps_left s' < ps_left s)"
  proof (cases rule: parsesD)
    case (2 a s1)
    then have w: "ps_wf s1" "ps_left s1 \<le> ps_left s" by (simp_all add: follows_def)
    show ?thesis
    proof (cases "R' a")
      case True
      then have less: "ps_left s1 < ps_left s" "ps_left s1 < m - 1" using 2 s(2) by simp_all
      from assms(2) [OF True] w(1) less(2) TrueI show ?thesis
      proof (cases rule: parsesD)
        case (2 b s2)
        then have "ps_left s2 < ps_left s" using less(1) by (simp add: follows_def)
        with 2 \<open>p s = Inr (a, s1)\<close> \<open>follows s s1\<close> show ?thesis by (auto simp: p_bind_def intro: follows_trans)
      qed (use 2 in \<open>simp add: p_bind_def follows_session\<close>)
    next
      case False
      have "ps_left s1 < m" using w(2) s(2) by simp
      from assms(3) [OF False] w(1) this TrueI show ?thesis
      proof (cases rule: parsesD)
        case (2 b s2)
        with w(2) \<open>p s = Inr (a, s1)\<close> \<open>follows s s1\<close> show ?thesis by (auto simp: p_bind_def intro: follows_trans)
      qed (use 2 in \<open>simp add: p_bind_def follows_session\<close>)
    qed
  qed (simp add: p_bind_def)
qed

lemma bind_forward:
  "parses (\<lambda>_. True) m P p \<Longrightarrow> (\<And>a. parses (\<lambda>_. False) (m - 1) (\<lambda>_. True) (q a)) \<Longrightarrow> parses R m P (p_bind p q)"
  by (erule parses_bind) simp_all

lemma bind_steady:
  "parses (\<lambda>_. False) m P p \<Longrightarrow> (\<And>a. parses R m (\<lambda>_. True) (q a)) \<Longrightarrow> parses R m P (p_bind p q)"
  by (erule parses_bind) simp_all

lemma parses_if: "(b \<Longrightarrow> parses R m P p) \<Longrightarrow> (\<not> b \<Longrightarrow> parses R m P q) \<Longrightarrow> parses R m P (if b then p else q)"
  by simp

lemma parses_option:
  "(x = None \<Longrightarrow> parses R m P p) \<Longrightarrow> (\<And>a. x = Some a \<Longrightarrow> parses R m P (q a)) \<Longrightarrow>
   parses R m P (case x of None \<Rightarrow> p | Some a \<Rightarrow> q a)"
  by (cases x) simp_all

lemma parses_prod: "(\<And>a b. parses R m P (f a b)) \<Longrightarrow> parses R m P (case x of (a, b) \<Rightarrow> f a b)"
  by (cases x) simp

lemma parses_map: "parses (\<lambda>a. R (f a)) m P p \<Longrightarrow> parses R m P (p_map f p)"
  unfolding p_map_def
  by (rule parses_bind [where R' = "\<lambda>a. R (f a)"]) (simp_all add: parses_return)

lemma parses_weaken: "parses (\<lambda>_. True) m (\<lambda>_. True) p \<Longrightarrow> parses R m P p"
  unfolding parses_def by (fastforce split: sum.splits prod.splits)

subsection \<open>Helper methods\<close>

lemma peek_wf: "ps_wf s \<Longrightarrow> peek s = Inr (ps_tokens s ! ps_pos s, s)"
  by (simp add: peek_def peek_nth_def ps_wf_def)

lemma peek_kind_wf: "ps_wf s \<Longrightarrow> peek_kind s = Inr (ps_kind s, s)"
  by (simp add: peek_kind_def p_map_def p_bind_def p_return_def peek_wf ps_kind_def)

lemma current_span_wf: "ps_wf s \<Longrightarrow> current_span s = Inr (tk_span (ps_tokens s ! ps_pos s), s)"
  by (simp add: current_span_def p_map_def p_bind_def p_return_def peek_wf)

lemma bump_wf:
  assumes "ps_wf s" "ps_kind s \<noteq> TEof"
  shows "follows s (bump s)" "ps_left (bump s) < ps_left s"
proof -
  have "ps_pos s \<noteq> length (ps_tokens s) - 1"
  proof
    assume "ps_pos s = length (ps_tokens s) - 1"
    then have "ps_kind s = tk_kind (last (ps_tokens s))" using assms(1) by (simp add: ps_kind_def ps_wf_def last_conv_nth)
    with assms show False by (simp add: ps_wf_def)
  qed
  with assms(1) show "follows s (bump s)" "ps_left (bump s) < ps_left s"
    by (auto simp: follows_def bump_def ps_wf_def ps_left_def)
qed

lemma ps_advance_wf:
  assumes "ps_wf s" "ps_kind s \<noteq> TEof"
  shows "ps_advance s = Inr (ps_tokens s ! ps_pos s, bump s)"
  using assms
  by (simp add: ps_advance_def ps_is_at_end_def p_map_def p_bind_def p_return_def peek_kind_wf ps_previous_def bump_def ps_wf_def)

lemma parses_peek_kind: "(\<And>k. P k \<Longrightarrow> parses R m ((=) k) (q k)) \<Longrightarrow> parses R m P (p_bind peek_kind q)"
  by (auto simp: parses_def p_bind_def peek_kind_wf)

lemma parses_advance [forward]:
  assumes "\<not> P TEof"
  shows "parses R m P ps_advance"
proof (rule parsesI)
  fix s assume s: "ps_wf s" "ps_left s < m" "P (ps_kind s)"
  then have "ps_kind s \<noteq> TEof" using assms by auto
  from ps_advance_wf [OF s(1) this] bump_wf [OF s(1) this]
  show "case ps_advance s of
      Inl e \<Rightarrow> e \<noteq> Unbounded \<and> (e = Panicked \<longrightarrow> has_session s)
    | Inr (a, s') \<Rightarrow> follows s s' \<and> (R a \<longrightarrow> ps_left s' < ps_left s)" by simp
qed

lemma parses_peeks [steady]:
  "parses (\<lambda>_. False) m P peek" "parses (\<lambda>_. False) m P (peek_nth n)" "parses (\<lambda>_. False) m P current_span"
  "parses (\<lambda>_. False) m P (check k)" "parses (\<lambda>_. False) m P (check_keyword k)"
  by (auto intro!: parsesI simp: peek_wf peek_nth_def current_span_wf check_def check_keyword_def p_map_def p_bind_def p_return_def
      peek_kind_wf follows_refl ps_wf_def [of s for s])

lemma parses_error [steady]: "parses R m P (p_error message)" "parses R m P (p_error_expected message e)"
  by (rule parsesI, simp add: p_error_def p_error_expected_def p_bind_def current_span_wf)+

lemma discriminant_Eof: "discriminant TEof = discriminant k \<longleftrightarrow> k = TEof"
  by (cases k) simp_all

lemma advance_same_kind:
  assumes "discriminant k' = discriminant k" "k \<noteq> TEof"
  shows "parses R m ((=) k') ps_advance"
proof (rule parses_advance)
  show "k' \<noteq> TEof" using assms discriminant_Eof [of k] by metis
qed

lemma parses_match:
  assumes "k \<noteq> TEof"
  shows "parses (\<lambda>b. b) m P (match_token k)"
proof -
  have "match_token k = p_bind peek_kind (\<lambda>k'. if discriminant k' = discriminant k then p_bind ps_advance (\<lambda>_. p_return True) else p_return False)"
    by (simp add: match_token_def check_def p_map_def p_bind_def p_return_def fun_eq_iff split: sum.split)
  moreover have "parses (\<lambda>b. b) m ((=) k')
      (if discriminant k' = discriminant k then p_bind ps_advance (\<lambda>_. p_return True) else p_return False)" for k'
    by (rule parses_if, rule bind_forward, rule advance_same_kind, assumption, rule assms)
      (rule parses_return, simp)+
  ultimately show ?thesis by (simp add: parses_peek_kind)
qed

lemma parses_match_steady [steady]: "k \<noteq> TEof \<Longrightarrow> parses (\<lambda>_. False) m P (match_token k)"
  using parses_match [of k m P] unfolding parses_def by (fastforce split: sum.splits prod.splits)

lemma parses_p_if:
  assumes "k \<noteq> TEof" "parses (\<lambda>_. False) (m - 1) (\<lambda>_. True) p" "parses R m (\<lambda>_. True) q"
  shows "parses R m P (p_if k p q)"
  unfolding p_if_def using assms by (intro parses_bind [OF parses_match]) simp_all

lemma parses_optional [steady]:
  assumes "k \<noteq> TEof" "parses (\<lambda>_. False) (m - 1) (\<lambda>_. True) p"
  shows "parses (\<lambda>_. False) m P (p_optional k p)"
  unfolding p_optional_def using assms by (intro parses_p_if parses_map parses_return) simp_all

lemma parses_expect [forward]: "k \<noteq> TEof \<Longrightarrow> parses R m P (expect E k message)"
proof -
  assume k: "k \<noteq> TEof"
  have "expect E k message = p_bind peek_kind (\<lambda>k'. if discriminant k' = discriminant k then ps_advance
      else p_error_expected message (std_debug E k))"
    by (simp add: expect_def check_def p_map_def p_bind_def p_return_def fun_eq_iff split: sum.split)
  moreover have "parses R m ((=) k') (if discriminant k' = discriminant k then ps_advance else p_error_expected message (std_debug E k))" for k'
    by (rule parses_if, rule advance_same_kind, assumption, rule k, rule parses_error)
  ultimately show ?thesis by (simp add: parses_peek_kind)
qed

lemma parses_expect_identifier [forward]: "parses R m P (expect_identifier message)"
  unfolding expect_identifier_def
  by (rule parses_peek_kind, rule parses_option, rule parses_error, rule bind_forward, rule parses_advance)
    (auto simp: identifier_name_def intro: parses_return)

lemma parses_loop:
  assumes "\<And>a. parses (\<lambda>r. \<not> isl r) m (\<lambda>_. True) (body a)"
  shows "parses (\<lambda>_. False) m P (p_loop body a)"
proof (rule parsesI)
  fix s assume "ps_wf s" "ps_left s < m"
  with assms show "case p_loop body a s of
      Inl e \<Rightarrow> e \<noteq> Unbounded \<and> (e = Panicked \<longrightarrow> has_session s)
    | Inr (b, s') \<Rightarrow> follows s s' \<and> (False \<longrightarrow> ps_left s' < ps_left s)"
  proof (induction body a s rule: p_loop.induct [case_names step])
    case (step body a s)
    from step.prems(1) [of a] step.prems(2,3) TrueI show ?case
    proof (cases rule: parsesD)
      case (1 e)
      then show ?thesis by (subst p_loop.simps) simp
    next
      case (2 r s1)
      show ?thesis
      proof (cases r)
        case (Inl b)
        with 2 show ?thesis by (subst p_loop.simps) simp
      next
        case (Inr a1)
        have less: "ps_left s1 < ps_left s" using 2(3) Inr by simp
        have "ps_wf s1" "ps_left s1 < m" using 2(2) step.prems(3) by (simp_all add: follows_def)
        from step.IH [OF 2(1) refl Inr less step.prems(1) this]
        have "case p_loop body a1 s1 of
            Inl e \<Rightarrow> e \<noteq> Unbounded \<and> (e = Panicked \<longrightarrow> has_session s)
          | Inr (b, s') \<Rightarrow> follows s1 s'" using follows_session [OF 2(2)] by (simp split: sum.splits prod.splits)
        with 2(1) Inr less show ?thesis
          by (subst p_loop.simps) (auto split: sum.splits intro: follows_trans [OF 2(2)])
      qed
    qed
  qed
qed


lemma parses_while [steady]:
  assumes "k \<noteq> TEof" "\<And>a. parses (\<lambda>_. False) (m - 1) (\<lambda>_. True) (body a)"
  shows "parses (\<lambda>_. False) m P (p_while k body a)"
  unfolding p_while_def
  by (rule parses_loop, rule parses_p_if, rule assms(1), rule parses_map, rule assms(2), rule parses_return, simp)

lemma parses_commas [forward]:
  assumes "\<And>R m' P. m' \<le> m \<Longrightarrow> parses R m' P item"
  shows "parses R m P (p_commas item)"
  unfolding p_commas_def
  by (rule bind_forward, rule assms, simp, rule parses_while, simp, rule parses_map, rule assms, simp)

lemma parses_binary [steady]:
  assumes "f TEof = None" "\<And>m'. m' \<le> m \<Longrightarrow> parses (\<lambda>_. False) m' (\<lambda>_. True) operand"
  shows "parses (\<lambda>_. False) m P (p_binary f operand left)"
  unfolding p_binary_def
  by (rule parses_loop, rule parses_peek_kind, rule parses_option, rule parses_return, simp, rule bind_forward, rule parses_advance)
    (use assms in \<open>auto intro: parses_map\<close>)

lemma bind_option:
  assumes "parses (\<lambda>x. x \<noteq> None) m P p" "parses R m (\<lambda>_. True) q"
    "\<And>a. parses (\<lambda>_. False) (m - 1) (\<lambda>_. True) (r a)"
  shows "parses R m P (p_bind p (\<lambda>x. case x of None \<Rightarrow> q | Some a \<Rightarrow> r a))"
  using assms by (intro parses_bind [OF assms(1)]) (auto split: option.split)

lemma parses_deeper:
  assumes "parses R m P p"
  shows "parses R m P (p_deeper p)"
proof (rule parsesI)
  fix s assume s: "ps_wf s" "ps_left s < m" "P (ps_kind s)"
  let ?s = "s\<lparr>ps_depth := ps_depth s + 1\<rparr>"
  show "case p_deeper p s of
      Inl e \<Rightarrow> e \<noteq> Unbounded \<and> (e = Panicked \<longrightarrow> has_session s)
    | Inr (a, s') \<Rightarrow> follows s s' \<and> (R a \<longrightarrow> ps_left s' < ps_left s)"
  proof (cases "ps_depth s < MAX_EXPR_DEPTH")
    case False
    then show ?thesis using s
      by (simp add: p_deeper_def p_bind_def enter_recursion_def Let_def p_error_def current_span_wf split: sum.split)
  next
    case True
    then have d: "ps_wf ?s" "ps_left ?s < m" "P (ps_kind ?s)" "ps_left ?s = ps_left s" "has_session ?s = has_session s"
      using s by (simp_all add: ps_wf_def ps_left_def ps_kind_def has_session_def)
    have eq: "p_deeper p s = p_bind p (\<lambda>r. p_bind exit_recursion (\<lambda>_. p_return r)) ?s"
      using True by (simp add: p_deeper_def p_bind_def enter_recursion_def)
    from assms d(1,2,3) show ?thesis
    proof (cases rule: parsesD)
      case (1 e)
      then show ?thesis using d(5) by (simp add: eq p_bind_def)
    next
      case (2 a s1)
      then show ?thesis
        by (auto simp: eq p_bind_def exit_recursion_def p_return_def follows_def ps_wf_def ps_left_def)
    qed
  qed
qed

subsection \<open>Every method\<close>

definition calls_ok :: "nat \<Rightarrow> penv \<Rightarrow> bool" where
  "calls_ok n c \<longleftrightarrow>
     (\<forall>m \<le> n. parses (\<lambda>_. True) m (\<lambda>_. True) (pv_expr c) \<and> parses (\<lambda>_. True) m (\<lambda>_. True) (pv_not c) \<and>
        parses (\<lambda>_. True) m (\<lambda>_. True) (pv_unary c) \<and> parses (\<lambda>_. True) m (\<lambda>_. True) (pv_primary c) \<and>
        parses (\<lambda>_. True) m (\<lambda>_. True) (pv_select c))"

lemma parses_calls [forward]:
  assumes "calls_ok n c" "m \<le> n"
  shows "parses R m P (pv_expr c)" "parses R' m P (pv_not c)" "parses R' m P (pv_unary c)" "parses R' m P (pv_primary c)"
    "parses R'' m P (pv_select c)"
  using assms by (simp_all add: calls_ok_def parses_weaken)

lemma payload_Eof [simp]: "identifier_name TEof = None" "plain_identifier TEof = None" "integer_literal TEof = None"
  "map_of simple_types TEof = None" "map_of sized_types TEof = None" "map_of aggregate_names TEof = None"
  "literal_operand TEof = None" "unary_op TEof = None" "multiplicative_op TEof = None" "additive_op TEof = None"
  "graph_op TEof = None" "comparison_op TEof = None" "duration_text TEof = None"
  by (simp_all add: identifier_name_def plain_identifier_def integer_literal_def simple_types_def sized_types_def
      aggregate_names_def literal_operand_def unary_op_def multiplicative_op_def additive_op_def graph_op_def
      comparison_op_def duration_text_def)

lemma parses_qualified_wildcard:
  assumes "parses R m (\<lambda>_. True) q"
  shows "parses R m P (p_bind qualified_wildcard (\<lambda>w. case w of
      Some table \<Rightarrow> p_bind ps_advance (\<lambda>_. p_bind ps_advance (\<lambda>_. p_bind ps_advance (\<lambda>_. p_return (f table))))
    | None \<Rightarrow> q))"
proof (rule parsesI)
  fix s assume s: "ps_wf s" "ps_left s < m" "P (ps_kind s)"
  let ?n = "\<lambda>i. ps_pos s + i < length (ps_tokens s)" and ?k = "\<lambda>i. tk_kind (ps_tokens s ! (ps_pos s + i))"
  have last: "tk_kind (last (ps_tokens s)) = TEof" and ne: "ps_tokens s \<noteq> []" "ps_pos s < length (ps_tokens s)"
    using s(1) by (simp_all add: ps_wf_def)
  define w where "w = (if ?n 1 \<and> ?n 2 \<and> ?k 1 = TDot \<and> ?k 2 = TStar then plain_identifier (ps_kind s) else None)"
  have q: "qualified_wildcard s = Inr (w, s)"
    using ne last by (simp add: qualified_wildcard_def p_bind_def peek_def peek_nth_def p_return_def ps_kind_def w_def)
  show "case p_bind qualified_wildcard (\<lambda>w. case w of
      Some table \<Rightarrow> p_bind ps_advance (\<lambda>_. p_bind ps_advance (\<lambda>_. p_bind ps_advance (\<lambda>_. p_return (f table))))
    | None \<Rightarrow> q) s of
      Inl e \<Rightarrow> e \<noteq> Unbounded \<and> (e = Panicked \<longrightarrow> has_session s)
    | Inr (a, s') \<Rightarrow> follows s s' \<and> (R a \<longrightarrow> ps_left s' < ps_left s)"
  proof (cases w)
    case None
    then show ?thesis using assms s by (simp add: p_bind_def q parses_def)
  next
    case (Some table)
    then have k: "?k 1 = TDot" "?k 2 = TStar" "ps_kind s \<noteq> TEof"
      by (auto simp: w_def plain_identifier_def split: if_splits)
    note a = ps_advance_wf [OF s(1) k(3)] bump_wf [OF s(1) k(3)]
    have k1: "ps_wf (bump s)" "ps_kind (bump s) \<noteq> TEof" using a(2) k(1) by (simp_all add: follows_def ps_kind_def bump_def)
    note b = ps_advance_wf [OF k1] bump_wf [OF k1]
    have k2: "ps_wf (bump (bump s))" "ps_kind (bump (bump s)) \<noteq> TEof"
      using b(2) k(2) by (simp_all add: follows_def ps_kind_def bump_def)
    note d = ps_advance_wf [OF k2] bump_wf [OF k2]
    show ?thesis using follows_trans [OF follows_trans [OF a(2) b(2)] d(2)] a(3) b(3) d(3)
      by (simp add: p_bind_def q Some a(1) b(1) d(1) p_return_def)
  qed
qed

lemmas parses_control = parses_qualified_wildcard parses_p_if parses_map parses_return parses_if parses_peek_kind parses_loop parses_option parses_prod
  parses_deeper

lemma parses_simple_forward [forward]:
  "parses R1 m P parse_object_name" "parses R2 m P parse_identifier_list" "parses R3 m P parse_index_column"
  "parses R4 m P (parse_integer msg)" "parses R5 m P parse_permission_op" "parses R6 m P (parse_data_type c)"
  "parses R7 m P (parse_rename_column c msg)" "parses R8 m P (parse_set_type c)" "parses R9 m P (parse_begin c)"
  "parses R10 m P (parse_rollback c)" "parses R10 m P (parse_savepoint c)" "parses R10 m P (parse_release c)"
  "parses R10 m P (parse_remove c)"
  unfolding parse_object_name_def parse_identifier_list_def parse_index_column_def parse_integer_def parse_permission_op_def
    parse_data_type_def parse_type_length_def parse_rename_column_def parse_set_type_def parse_begin_def parse_rollback_def
    parse_savepoint_def parse_release_def parse_remove_def
  by ((rule parses_control | (rule bind_option, rule steady) | (rule bind_forward, rule forward) | (rule bind_steady, rule steady) |
      rule bind_steady | rule forward | rule steady | assumption | (auto; fail))+)

lemma parses_simple_steady [steady]:
  "parses (\<lambda>_. False) m P parse_select_alias" "parses (\<lambda>_. False) m P parse_table_alias" "parses (\<lambda>_. False) m P parse_or_action"
  "parses (\<lambda>_. False) m P parse_as_alias" "parses (\<lambda>_. False) m P parse_vector_metric" "parses (\<lambda>_. False) m P (parse_if_not_exists c)"
  "parses (\<lambda>_. False) m P (parse_if_exists c)" "parses (\<lambda>_. False) m P (parse_conflict_target c)"
  "parses (\<lambda>x. x \<noteq> None) m P (parse_join_type c)" "parses (\<lambda>x. x \<noteq> None) m P parse_set_op"
  unfolding parse_select_alias_def parse_table_alias_def parse_or_action_def parse_as_alias_def parse_vector_metric_def
    parse_if_not_exists_def parse_if_exists_def parse_conflict_target_def parse_join_type_def parse_set_op_def
  by ((rule parses_control | (rule bind_option, rule steady) | (rule bind_forward, rule forward) | (rule bind_steady, rule steady) |
      rule bind_steady | rule forward | rule steady | assumption | (auto; fail))+)

lemma parses_after_token [forward]:
  assumes "calls_ok n c" "m \<le> n"
  shows "parses R1 m P (parse_expr_list c)" "parses R2 m P (parse_order_by_item c)" "parses R3 m P (parse_order_by_list c)"
    "parses R4 m P (parse_select_item c)" "parses R5 m P (parse_select_list c)" "parses R6 m P (parse_case_expr c)"
    "parses R6 m P (parse_parenthesized c)" "parses R7 m P (parse_insert_source c)"
  unfolding parse_expr_list_def parse_order_by_item_def parse_order_by_list_def parse_select_item_def parse_select_list_def
    parse_case_expr_def parse_parenthesized_def parse_insert_source_def parse_values_list_def
  by (insert assms, ((rule parses_control | (rule bind_option, rule steady) | (rule bind_forward, rule forward) | (rule bind_steady, rule steady) |
      rule bind_steady | rule forward | rule steady | assumption | (auto; fail))+))


lemma parses_operand_parts [forward]:
  assumes "calls_ok n c" "m \<le> Suc n"
  shows "parses R m P (parse_identifier_or_function c)" "parses R m P (parse_aggregate_function c)"
    "parses R m P (parse_vector_search c)" "parses R m P (parse_context_window c)" "parses R m P (parse_exists c)"
    "parses R m P (parse_cast c)"
proof -
  have parts: "parses R' m' (\<lambda>_. True) (case xs of
      [column] \<Rightarrow> p_return (EColumn (column_ref_new column))
    | [table, column] \<Rightarrow> p_return (EColumn (column_ref_qualified table column))
    | _ \<Rightarrow> p_error message)" if "\<And>a. \<not> R' a" for R' m' xs message
    using that by (auto intro: parses_return parses_error split: list.split)
  show "parses R m P (parse_identifier_or_function c)" "parses R m P (parse_aggregate_function c)"
    "parses R m P (parse_vector_search c)" "parses R m P (parse_context_window c)" "parses R m P (parse_exists c)"
    "parses R m P (parse_cast c)"
    unfolding parse_identifier_or_function_def parse_aggregate_function_def parse_vector_search_def parse_context_window_def
      parse_exists_def parse_cast_def
    by (insert assms, (rule parts | ((rule parses_control | (rule bind_option, rule steady) | (rule bind_forward, rule forward) | (rule bind_steady, rule steady) |
      rule bind_steady | rule forward | rule steady | assumption | (auto; fail))+))+)
qed

lemma parses_operand [forward]:
  assumes "calls_ok n c" "m \<le> Suc n"
  shows "parses R m P (parse_operand c)" "parses R7 m P (parse_assignments c)" "parses R8 m P (parse_on_conflict c)"
    "parses R9 m P (parse_table_primary c)" "parses R10 m P (parse_column_def c)"
  unfolding parse_operand_def parse_assignments_def parse_on_conflict_def parse_table_primary_def parse_column_def_def
    parse_column_constraints_def
  by (insert assms, ((rule parses_control | (rule bind_option, rule steady) | (rule bind_forward, rule forward) | (rule bind_steady, rule steady) |
      rule bind_steady | rule forward | rule steady | assumption | (auto; fail))+))

lemma parses_clauses [steady]:
  assumes "calls_ok n c" "m \<le> Suc n"
  shows "parses (\<lambda>_. False) m P (parse_postfix_expr c e)" "parses (\<lambda>_. False) m P (parse_join_condition c j)"
    "parses (\<lambda>_. False) m P (parse_unions c)" "parses (\<lambda>_. False) m P (parse_insert_conflict c b a)"
    "parses (\<lambda>_. False) m P (parse_column_defs c)"
  unfolding parse_postfix_expr_def parse_join_condition_def parse_unions_def parse_insert_conflict_def parse_column_defs_def
  by (insert assms, ((rule parses_control | (rule bind_option, rule steady) | (rule bind_forward, rule forward) | (rule bind_steady, rule steady) |
      rule bind_steady | rule forward | rule steady | assumption | (auto; fail))+))

lemma parses_by_clause [steady]:
  assumes "kw \<noteq> TEof" "parses (\<lambda>_. False) (m - 1 - 1) (\<lambda>_. True) p"
  shows "parses (\<lambda>_. False) m P (p_by_clause c kw message p)"
  unfolding p_by_clause_def
  by (rule parses_peek_kind, rule parses_if, rule bind_forward, rule parses_advance, use assms(1) in simp,
      rule bind_forward, rule parses_expect, simp, rule assms(2), rule parses_return, simp)

subsection \<open>Expressions\<close>

lemma parses_level:
  assumes "\<And>R m' P. m' \<le> m \<Longrightarrow> parses R m' P operand" "f TEof = None"
  shows "parses R m P (p_bind operand (p_binary f operand))"
  by (rule bind_forward, rule assms, simp, rule parses_binary, rule assms(2), rule assms(1), simp)

lemma parses_while_level:
  assumes "\<And>R m' P. m' \<le> m \<Longrightarrow> parses R m' P operand" "k \<noteq> TEof"
  shows "parses R m P (p_bind operand (p_while k (\<lambda>left. p_map (f left) operand)))"
  by (rule bind_forward, rule assms, simp, rule parses_while, rule assms(2), rule parses_map, rule assms(1), simp)

lemma parses_primary [forward]: "calls_ok n c \<Longrightarrow> m \<le> Suc n \<Longrightarrow> parses R m P (parse_primary_expr c)"
  unfolding parse_primary_expr_def by (rule bind_forward) (rule parses_operand parses_clauses | simp)+

lemma parses_unary [forward]:
  assumes "calls_ok n c" "m \<le> Suc n"
  shows "parses R m P (parse_unary_expr c)"
  unfolding parse_unary_expr_def
  by (insert assms, ((rule parses_control | (rule bind_option, rule steady) | (rule bind_forward, rule forward) | (rule bind_steady, rule steady) |
      rule bind_steady | rule forward | rule steady | assumption | (auto; fail))+))

lemma parses_graph [forward]:
  assumes "calls_ok n c" "m \<le> Suc n"
  shows "parses R m P (parse_additive_expr c)" "parses R m P (parse_graph_expr c)"
proof -
  have mul: "parses R' m' P' (parse_multiplicative_expr c)" if "m' \<le> m" for R' m' P'
    unfolding parse_multiplicative_expr_def by (rule parses_level, rule parses_unary [OF assms(1)]) (use that assms(2) in simp_all)
  then have add: "parses R' m' P' (parse_additive_expr c)" if "m' \<le> m" for R' m' P'
    unfolding parse_additive_expr_def by (rule parses_level) (use that in simp_all)
  then show "parses R m P (parse_additive_expr c)" "parses R m P (parse_graph_expr c)"
    unfolding parse_graph_expr_def by (simp, rule parses_level) simp_all
qed

lemma parses_not [forward]:
  assumes "calls_ok n c" "m \<le> Suc n"
  shows "parses R m P (parse_not_expr c)"
  unfolding parse_not_expr_def parse_comparison_expr_def parse_in_def parse_between_def parse_like_def
  by (insert assms, ((rule parses_control | (rule bind_option, rule steady) | (rule bind_forward, rule forward) | (rule bind_steady, rule steady) |
      rule bind_steady | rule forward | rule steady | assumption | (auto; fail))+))

lemma parses_expr [forward]:
  assumes "calls_ok n c" "m \<le> Suc n"
  shows "parses R m P (parse_expr c)"
proof -
  have "parses R' m' P' (parse_and_expr c)" if "m' \<le> m" for R' m' P'
    unfolding parse_and_expr_def by (rule parses_while_level, rule parses_not [OF assms(1)]) (use that assms(2) in simp_all)
  then show ?thesis
    unfolding parse_expr_def parse_or_expr_def by (intro parses_deeper parses_while_level) simp_all
qed

subsection \<open>Statements\<close>

lemma parses_select [forward]:
  assumes "calls_ok n c" "m \<le> Suc n"
  shows "parses R m P (parse_select c)" "parses R1 m P (parse_from_clause c)"
  unfolding parse_select_def parse_from_clause_def parse_table_ref_def
  by (insert assms, ((rule parses_control | (rule bind_option, rule steady) | (rule bind_forward, rule forward) | (rule bind_steady, rule steady) |
      rule bind_steady | rule forward | rule steady | assumption | (auto; fail))+))

lemma calls_ok_rec: "calls_ok n (parse_rec E n)"
proof (induction n)
  case 0
  show ?case by (simp add: calls_ok_def parses_def)
next
  case (Suc n)
  then show ?case
    by (simp add: calls_ok_def parses_expr [OF Suc] parses_not [OF Suc] parses_unary [OF Suc] parses_primary [OF Suc] parses_select(1) [OF Suc])
qed


lemma discriminant_session: "discriminant k = TSession \<longleftrightarrow> k = TSession"
  by (cases k) simp_all

lemma match_session:
  assumes "ps_wf s"
  shows "match_token TSession s = (if ps_kind s = TSession then Inr (True, bump s) else Inr (False, s))"
  using assms ps_advance_wf [OF assms]
  by (simp add: match_token_def check_def p_map_def p_bind_def p_return_def peek_kind_wf discriminant_session)

lemma parse_session_wf:
  assumes "ps_wf s"
  shows "case parse_session s of Inl e \<Rightarrow> e \<noteq> Unbounded | Inr (n, s') \<Rightarrow> follows s s'"
proof -
  have adv: "p_bind ps_advance (\<lambda>_. p_return n) s = Inr (n, bump s)" "follows s (bump s)" if "ps_kind s \<noteq> TEof" for n :: u64
    using ps_advance_wf [OF assms that] bump_wf [OF assms that] by (simp_all add: p_bind_def p_return_def)
  show ?thesis
  proof (cases "ps_kind s = TEof")
    case True
    then show ?thesis using assms
      by (simp add: parse_session_def p_bind_def peek_kind_wf p_error_def current_span_wf)
  next
    case False
    then show ?thesis using assms
      by (simp add: parse_session_def p_bind_def [of peek_kind] peek_kind_wf p_error_def p_bind_def [of current_span]
          current_span_wf adv split: option.split)
  qed
qed

lemma parses_session:
  assumes "parses R m (\<lambda>_. True) q"
  shows "parses R m P (p_if TSession (p_map f parse_session) q)"
proof (rule parsesI)
  fix s assume s: "ps_wf s" "ps_left s < m" "P (ps_kind s)"
  show "case p_if TSession (p_map f parse_session) q s of
      Inl e \<Rightarrow> e \<noteq> Unbounded \<and> (e = Panicked \<longrightarrow> has_session s)
    | Inr (a, s') \<Rightarrow> follows s s' \<and> (R a \<longrightarrow> ps_left s' < ps_left s)"
  proof (cases "ps_kind s = TSession")
    case True
    then have k: "ps_kind s \<noteq> TEof" by simp
    have "has_session s" using True s(1) by (auto simp: has_session_def ps_kind_def ps_wf_def intro!: image_eqI [OF _ nth_mem])
    moreover have "case parse_session (bump s) of Inl e \<Rightarrow> e \<noteq> Unbounded | Inr (n, s') \<Rightarrow> follows (bump s) s'"
      using bump_wf(1) [OF s(1) k] by (intro parse_session_wf) (simp add: follows_def)
    ultimately show ?thesis
      using bump_wf [OF s(1) k] s(1) True
      by (auto simp: p_if_def p_bind_def match_session p_map_def p_return_def follows_def split: sum.splits)
  next
    case False
    then show ?thesis using assms s by (auto simp: p_if_def p_bind_def match_session parses_def)
  qed
qed

lemmas parses_scope_control = parses_session parses_control

lemma parses_statements [forward]:
  assumes "calls_ok n c" "m \<le> Suc n"
  shows "parses R1 m P (parse_insert c)" "parses R2 m P (parse_update c)" "parses R3 m P (parse_delete c)"
    "parses R m P (parse_create c)" "parses R m P (parse_drop c)" "parses R m P (parse_alter c)"
    "parses R m P (parse_define c)" "parses R4 m P (parse_relate c)" "parses R5 m P (parse_live_select c)"
  unfolding parse_insert_def parse_update_def parse_delete_def parse_create_def parse_create_table_def parse_create_index_def
    parse_drop_def parse_alter_def parse_alter_table_op_def parse_alter_column_op_def parse_define_def parse_define_scope_def
    parse_in_parens_def parse_define_table_permissions_def parse_define_event_def parse_relate_def parse_live_select_def
  by (insert assms, (((rule parses_scope_control | (rule bind_option, rule steady) | (rule bind_forward, rule forward) | (rule bind_steady, rule steady) |
      rule bind_steady | rule forward | rule steady | assumption | (auto; fail))+)))

lemma parses_statement [forward]:
  assumes "calls_ok n c" "m \<le> Suc n"
  shows "parses R m P (parse_statement c)"
  unfolding parse_statement_def
  by (insert assms, ((rule parses_control | (rule bind_option, rule steady) | (rule bind_forward, rule forward) | (rule bind_steady, rule steady) |
      rule bind_steady | rule forward | rule steady | assumption | (auto; fail))+))


lemma parses_statements_loop:
  assumes "calls_ok n c" "m \<le> Suc n"
  shows "parses (\<lambda>_. False) m P (statements_loop c)"
proof -
  have at_end: "parses (\<lambda>_. False) m (\<lambda>_. True) ps_is_at_end"
    by (rule parsesI) (simp add: ps_is_at_end_def p_map_def p_bind_def p_return_def peek_kind_wf follows_refl)
  show ?thesis
    unfolding statements_loop_def
    by (rule parses_loop, rule bind_steady, rule at_end, rule parses_if, rule parses_return, simp, rule bind_forward,
        rule parses_statement [OF assms], rule bind_steady, rule parses_match_steady, simp, rule parses_return, simp)
qed

subsection \<open>The whole text\<close>

lemma tokenize_eof: "tokenize E sql = Inr ts \<Longrightarrow> ts \<noteq> [] \<and> tk_kind (last ts) = TEof"
  by (auto simp: tokenize_def Let_def token_new_def split: if_splits)

lemma parser_new_wf:
  assumes "tokenize E sql = Inr ts"
  shows "ps_wf (parser_new ts)" "ps_left (parser_new ts) < length ts" "has_session (parser_new ts) = (TSession \<in> tk_kind ` set ts)"
  using tokenize_eof [OF assms] by (simp_all add: ps_wf_def parser_new_def ps_left_def has_session_def MAX_EXPR_DEPTH_def)

lemma outcome_answers:
  assumes "parses R m P p" "ps_wf s" "ps_left s < m" "P (ps_kind s)"
  shows "parse_outcome (p s) \<noteq> ParserUnbounded" "parse_outcome (p s) = ParserPanic \<Longrightarrow> has_session s"
  using assms by (auto elim!: parsesD simp: parse_outcome_def split: parse_failure.splits)

lemma parser_returns:
  "parser_parse E sql \<noteq> ParserUnbounded \<and> parser_parse_statements E sql \<noteq> ParserUnbounded \<and>
   ((\<forall>ts. tokenize E sql = Inr ts \<longrightarrow> TSession \<notin> tk_kind ` set ts) \<longrightarrow>
      parser_parse E sql \<noteq> ParserPanic \<and> parser_parse_statements E sql \<noteq> ParserPanic)"
proof (cases "tokenize E sql")
  case (Inl e)
  then show ?thesis by (simp add: parser_parse_def parser_parse_statements_def)
next
  case (Inr ts)
  note w = parser_new_wf [OF Inr] and c = calls_ok_rec [of "3 * length ts" E]
  have m: "length ts \<le> Suc (3 * length ts)" by simp
  note one = outcome_answers [OF parses_statement [OF c m] w(1,2)] and all = outcome_answers [OF parses_statements_loop [OF c m] w(1,2)]
  show ?thesis using one [OF TrueI] all [OF TrueI] Inr w(3) by (auto simp: parser_parse_def parser_parse_statements_def)
qed

text \<open>
  C31: the parser answers.  On every text \<^verbatim>\<open>Parser::parse\<close> and \<^verbatim>\<open>Parser::parse_statements\<close> return: the recursive calls
  never nest deeper than three times the number of tokens (\<open>parser_parse\<close> gives them that many levels), and no loop runs without consuming one.  On a text without the keyword
  \<^verbatim>\<open>SESSION\<close> they do not panic either: the outcome is a tree or a list of errors.
\<close>

theorem parser_answers:
  "parser_parse E sql \<noteq> ParserUnbounded \<and> parser_parse_statements E sql \<noteq> ParserUnbounded \<and>
   ((\<forall>ts. tokenize E sql = Inr ts \<longrightarrow> TSession \<notin> tk_kind ` set ts) \<longrightarrow>
      parser_parse E sql \<noteq> ParserPanic \<and> parser_parse_statements E sql \<noteq> ParserPanic)"
  by (rule parser_returns)

theorem parser_answers_witness:
  "parser_parse demo_std ''COMMIT'' \<noteq> ParserUnbounded \<and> parser_parse_statements demo_std ''COMMIT'' \<noteq> ParserUnbounded \<and>
   parser_parse demo_std ''COMMIT'' \<noteq> ParserPanic \<and> parser_parse_statements demo_std ''COMMIT'' \<noteq> ParserPanic"
proof -
  have "token_kinds ''COMMIT'' = Inr [TCommit, TEof]" by code_simp
  then have "\<forall>ts. tokenize demo_std ''COMMIT'' = Inr ts \<longrightarrow> TSession \<notin> tk_kind ` set ts"
    by (auto simp: token_kinds_def simp flip: set_map)
  with parser_answers [of demo_std "''COMMIT''"] show ?thesis by blast
qed

end
