(* ===== verification/Sql_Executor.thy ===== *)
theory Sql_Executor
  imports Sql_Value Sql_Parser_Total
begin

text \<open>
  \<^verbatim>\<open>sochdb-query/src/sql/mod.rs\<close>, the statements: \<^verbatim>\<open>SqlExecutor\<close> over tables in memory.  Every statement returns the
  executor it leaves behind together with its answer, so that what a failing statement has already changed stays visible.
\<close>

subsection \<open>State and results\<close>

record TableData =
  td_columns :: "string list"
  td_column_types :: "SqlDataType list"
  td_rows :: "SochValue list list"

record SqlExecutor =
  ex_tables :: "string \<Rightarrow> TableData option"

definition executor_new :: SqlExecutor where
  "executor_new = \<lparr>ex_tables = Map.empty\<rparr>"

datatype ExecutionResult =
  ResRows "string list" "sql_row list" | ResRowsAffected nat | ResOk

definition res_rows :: "ExecutionResult \<Rightarrow> sql_row list option" where
  "res_rows r = (case r of ResRows _ rows \<Rightarrow> Some rows | _ \<Rightarrow> None)"

definition res_columns :: "ExecutionResult \<Rightarrow> string list option" where
  "res_columns r = (case r of ResRows columns _ \<Rightarrow> Some columns | _ \<Rightarrow> None)"

definition res_rows_affected :: "ExecutionResult \<Rightarrow> nat" where
  "res_rows_affected r = (case r of ResRowsAffected n \<Rightarrow> n | ResRows _ rows \<Rightarrow> length rows | ResOk \<Rightarrow> 0)"

type_synonym 'a exec = "SqlExecutor \<Rightarrow> SqlExecutor \<times> 'a sql"

definition set_rows :: "string \<Rightarrow> TableData \<Rightarrow> SochValue list list \<Rightarrow> SqlExecutor \<Rightarrow> SqlExecutor" where
  "set_rows name t rows ex = ex\<lparr>ex_tables := (ex_tables ex)(name \<mapsto> t\<lparr>td_rows := rows\<rparr>)\<rparr>"

text \<open>The row as a map: of two columns with one name the later one counts; a short row leaves the last columns out.\<close>

definition row_map :: "TableData \<Rightarrow> SochValue list \<Rightarrow> sql_row" where
  "row_map t row = map_of (rev (zip (td_columns t) row))"

definition where_matches :: "sql_eval_std \<Rightarrow> sql_row \<Rightarrow> SochValue list \<Rightarrow> Expr option \<Rightarrow> bool sql" where
  "where_matches E row params clause = (case clause of Some w \<Rightarrow> evaluate_where E row params w | None \<Rightarrow> Inr True)"

subsection \<open>SELECT\<close>

fun filter_rows :: "sql_eval_std \<Rightarrow> TableData \<Rightarrow> SochValue list \<Rightarrow> Expr option \<Rightarrow> SochValue list list \<Rightarrow> sql_row list sql" where
  "filter_rows E t params clause [] = Inr []"
| "filter_rows E t params clause (row # rows) =
     sql_bind (where_matches E (row_map t row) params clause) (\<lambda>b.
     sql_bind (filter_rows E t params clause rows) (\<lambda>rest.
     Inr (if b then row_map t row # rest else rest)))"

fun order_cmp :: "sql_eval_std \<Rightarrow> Expr OrderByItem list \<Rightarrow> sql_row \<Rightarrow> sql_row \<Rightarrow> Ordering" where
  "order_cmp E [] a b = Equal"
| "order_cmp E (item # items) a b =
     (case ob_expr item of
        EColumn col_ref \<Rightarrow>
          (let cmp = compare_values E (a (cr_column col_ref)) (b (cr_column col_ref))
           in if cmp \<noteq> Equal then if ob_asc item then cmp else ord_reverse cmp else order_cmp E items a b)
      | _ \<Rightarrow> order_cmp E items a b)"

text \<open>
  \<^verbatim>\<open>slice::sort_by\<close>.  When the comparison orders the elements (it is antisymmetric and transitive on them), the outcome is the stable
  sort, here by insertion from the left, where an element moves over its neighbours as long as it is less than they are (the
  prefix is kept in reverse).  Otherwise the standard library leaves the outcome open and may panic: \<open>unordered\<close> is what it makes of such
  a list, with \<^const>\<open>None\<close> for the panic.
\<close>

fun shift_left :: "('a \<Rightarrow> 'a \<Rightarrow> Ordering) \<Rightarrow> 'a \<Rightarrow> 'a list \<Rightarrow> 'a list" where
  "shift_left cmp x [] = [x]"
| "shift_left cmp x (y # ys) = (if cmp x y = Less then y # shift_left cmp x ys else x # y # ys)"

definition insertion_sort :: "('a \<Rightarrow> 'a \<Rightarrow> Ordering) \<Rightarrow> 'a list \<Rightarrow> 'a list" where
  "insertion_sort cmp xs = rev (foldl (\<lambda>ys x. shift_left cmp x ys) [] xs)"

definition orders :: "('a \<Rightarrow> 'a \<Rightarrow> Ordering) \<Rightarrow> 'a list \<Rightarrow> bool" where
  "orders cmp xs \<longleftrightarrow>
     (\<forall>a \<in> set xs. \<forall>b \<in> set xs. cmp b a = ord_reverse (cmp a b) \<and>
        (\<forall>c \<in> set xs. cmp a b \<noteq> Greater \<and> cmp b c \<noteq> Greater \<longrightarrow> cmp a c \<noteq> Greater))"

definition sort_panic :: sql_failure where
  "sort_panic = SqlPanic ''user-provided comparison function does not correctly implement a total order''"

definition sort_by :: "('a list \<Rightarrow> 'a list option) \<Rightarrow> ('a \<Rightarrow> 'a \<Rightarrow> Ordering) \<Rightarrow> 'a list \<Rightarrow> 'a list sql" where
  "sort_by unordered cmp xs =
     (if orders cmp xs then Inr (insertion_sort cmp xs)
      else case unordered xs of Some ys \<Rightarrow> Inr ys | None \<Rightarrow> Inl sort_panic)"

definition usize_of :: "int \<Rightarrow> nat" where
  "usize_of n = unat (word_of_int n :: u64)"

definition apply_offset :: "Expr option \<Rightarrow> 'a list \<Rightarrow> 'a list" where
  "apply_offset offset rows =
     (case offset of
        Some (ELiteral (LitInteger n)) \<Rightarrow> (if usize_of n < length rows then drop (usize_of n) rows else [])
      | _ \<Rightarrow> rows)"

definition apply_limit :: "Expr option \<Rightarrow> 'a list \<Rightarrow> 'a list" where
  "apply_limit limit rows =
     (case limit of Some (ELiteral (LitInteger n)) \<Rightarrow> take (usize_of n) rows | _ \<Rightarrow> rows)"

definition output_column :: "Expr SelectItem \<Rightarrow> string" where
  "output_column item =
     (case item of
        Wildcard \<Rightarrow> ''*''
      | QualifiedWildcard t \<Rightarrow> t @ ''.*''
      | SelectExpr expr alias \<Rightarrow>
          (case alias of
             Some a \<Rightarrow> a
           | None \<Rightarrow>
               (case expr of
                  EColumn col \<Rightarrow> cr_column col
                | EFunction func \<Rightarrow> object_name_name (fc_name func) @ ''()''
                | _ \<Rightarrow> ''?column?'')))"

fun project_items :: "sql_eval_std \<Rightarrow> SochValue list \<Rightarrow> sql_row \<Rightarrow> Expr SelectItem list \<Rightarrow> sql_row \<Rightarrow> sql_row sql" where
  "project_items E params source_row [] result_row = Inr result_row"
| "project_items E params source_row (item # items) result_row =
     (case item of
        SelectExpr expr _ \<Rightarrow>
          sql_bind (evaluate_expr E source_row params expr) (\<lambda>value.
            project_items E params source_row items (result_row(output_column item \<mapsto> value)))
      | _ \<Rightarrow> project_items E params source_row items (result_row ++ source_row))"

fun project_rows :: "sql_eval_std \<Rightarrow> SochValue list \<Rightarrow> Expr SelectItem list \<Rightarrow> sql_row list \<Rightarrow> sql_row list sql" where
  "project_rows E params items [] = Inr []"
| "project_rows E params items (row # rows) =
     sql_bind (project_items E params row items Map.empty) (\<lambda>result_row.
     sql_bind (project_rows E params items rows) (\<lambda>rest. Inr (result_row # rest)))"

definition select_table :: "SelectStmt \<Rightarrow> string sql" where
  "select_table sel =
     (case sel_from sel of
        None \<Rightarrow> invalid_argument ''SELECT requires FROM clause''
      | Some from \<Rightarrow>
          (if length (from_tables from) \<noteq> 1 then not_implemented ''Multi-table queries not yet supported''
           else case from_tables from ! 0 of
                  TableName name _ \<Rightarrow> Inr (object_name_name name)
                | _ \<Rightarrow> not_implemented ''Complex table references not yet supported''))"

definition find_table :: "string \<Rightarrow> SqlExecutor \<Rightarrow> TableData sql" where
  "find_table name ex = (case ex_tables ex name of Some t \<Rightarrow> Inr t | None \<Rightarrow> Inl (SqlFail (SqlTableNotFound name)))"

definition execute_select :: "sql_eval_std \<Rightarrow> SelectStmt \<Rightarrow> SochValue list \<Rightarrow> SqlExecutor \<Rightarrow> ExecutionResult sql" where
  "execute_select E sel params ex =
     sql_bind (select_table sel) (\<lambda>table_name.
     sql_bind (find_table table_name ex) (\<lambda>table.
     sql_bind (filter_rows E table params (sel_where sel) (td_rows table)) (\<lambda>source_rows.
     sql_bind (if sel_order_by sel \<noteq> [] then sort_by (ev_unordered E) (order_cmp E (sel_order_by sel)) source_rows else Inr source_rows) (\<lambda>sorted.
       let rows = apply_limit (sel_limit sel) (apply_offset (sel_offset sel) sorted)
       in if sel_columns sel = [Wildcard] then Inr (ResRows (td_columns table) rows)
          else sql_bind (project_rows E params (sel_columns sel) rows) (\<lambda>result_rows.
               Inr (ResRows (map output_column (sel_columns sel)) result_rows))))))"

subsection \<open>INSERT\<close>

fun index_of :: "'a \<Rightarrow> 'a list \<Rightarrow> nat option" where
  "index_of x [] = None"
| "index_of x (y # ys) = (if y = x then Some 0 else map_option Suc (index_of x ys))"

fun eval_list :: "sql_eval_std \<Rightarrow> SochValue list \<Rightarrow> Expr list \<Rightarrow> SochValue list sql" where
  "eval_list E params [] = Inr []"
| "eval_list E params (e # es) =
     sql_bind (evaluate_expr E Map.empty params e) (\<lambda>v. sql_bind (eval_list E params es) (\<lambda>vs. Inr (v # vs)))"

fun insert_by_name :: "sql_eval_std \<Rightarrow> SochValue list \<Rightarrow> string list \<Rightarrow> Expr list \<Rightarrow> string list \<Rightarrow> SochValue list sql" where
  "insert_by_name E params columns value_exprs [] = Inr []"
| "insert_by_name E params columns value_exprs (table_col # table_cols) =
     sql_bind (case index_of table_col columns of
                 Some pos \<Rightarrow> evaluate_expr E Map.empty params (value_exprs ! pos)
               | None \<Rightarrow> Inr VNull) (\<lambda>v.
     sql_bind (insert_by_name E params columns value_exprs table_cols) (\<lambda>vs. Inr (v # vs)))"

definition insert_row :: "sql_eval_std \<Rightarrow> SochValue list \<Rightarrow> string list \<Rightarrow> string list option \<Rightarrow> Expr list \<Rightarrow> SochValue list sql" where
  "insert_row E params table_columns columns value_exprs =
     (case columns of
        Some columns \<Rightarrow>
          (if length columns \<noteq> length value_exprs
           then invalid_argument (''Column count ('' @ show_nat (length columns) @ '') doesn'' @ [CHR 0x27] @ ''t match value count ('' @
                  show_nat (length value_exprs) @ '')'')
           else insert_by_name E params columns value_exprs table_columns)
      | None \<Rightarrow> eval_list E params value_exprs)"

fun insert_rows :: "sql_eval_std \<Rightarrow> SochValue list \<Rightarrow> string list \<Rightarrow> string list option \<Rightarrow> Expr list list \<Rightarrow> SochValue list list sql" where
  "insert_rows E params table_columns columns [] = Inr []"
| "insert_rows E params table_columns columns (r # rs) =
     sql_bind (insert_row E params table_columns columns r) (\<lambda>v.
     sql_bind (insert_rows E params table_columns columns rs) (\<lambda>vs. Inr (v # vs)))"

definition execute_insert :: "sql_eval_std \<Rightarrow> InsertStmt \<Rightarrow> SochValue list \<Rightarrow> ExecutionResult exec" where
  "execute_insert E ins params ex =
     (let table_name = object_name_name (ins_table ins)
      in case find_table table_name ex of
           Inl e \<Rightarrow> (ex, Inl e)
         | Inr table \<Rightarrow>
             (case ins_source ins of
                InsertValues rows \<Rightarrow>
                  (case insert_rows E params (td_columns table) (ins_columns ins) rows of
                     Inl e \<Rightarrow> (ex, Inl e)
                   | Inr new_rows \<Rightarrow> (set_rows table_name table (td_rows table @ new_rows) ex, Inr (ResRowsAffected (length rows))))
              | InsertQuery _ \<Rightarrow> (ex, not_implemented ''INSERT ... SELECT not yet supported'')
              | InsertDefault \<Rightarrow> (ex, not_implemented ''INSERT DEFAULT VALUES not yet supported'')))"

subsection \<open>UPDATE\<close>

fun row_updates :: "sql_eval_std \<Rightarrow> SochValue list \<Rightarrow> TableData \<Rightarrow> sql_row \<Rightarrow> Assignment list \<Rightarrow> (nat \<times> SochValue) list sql" where
  "row_updates E params t row [] = Inr []"
| "row_updates E params t row (a # as) =
     (case index_of (as_column a) (td_columns t) of
        Some col_idx \<Rightarrow>
          sql_bind (evaluate_expr E row params (as_value a)) (\<lambda>value.
          sql_bind (row_updates E params t row as) (\<lambda>rest. Inr ((col_idx, value) # rest)))
      | None \<Rightarrow> row_updates E params t row as)"

fun collect_updates :: "sql_eval_std \<Rightarrow> SochValue list \<Rightarrow> TableData \<Rightarrow> UpdateStmt \<Rightarrow> nat \<Rightarrow> SochValue list list
    \<Rightarrow> (nat \<times> (nat \<times> SochValue) list) list sql" where
  "collect_updates E params t upd row_idx [] = Inr []"
| "collect_updates E params t upd row_idx (row # rows) =
     sql_bind (where_matches E (row_map t row) params (upd_where upd)) (\<lambda>matches.
     sql_bind (if matches then map_sum id Some (row_updates E params t (row_map t row) (upd_assignments upd)) else Inr None) (\<lambda>u.
     sql_bind (collect_updates E params t upd (row_idx + 1) rows) (\<lambda>rest.
     Inr (case u of Some us \<Rightarrow> (row_idx, us) # rest | None \<Rightarrow> rest))))"

text \<open>\<^verbatim>\<open>table.rows[row_idx][col_idx] = value\<close> panics outside the row and leaves the assignments before it in place.\<close>

fun assign_columns :: "SochValue list \<Rightarrow> (nat \<times> SochValue) list \<Rightarrow> SochValue list \<times> bool" where
  "assign_columns row [] = (row, True)"
| "assign_columns row ((c, v) # us) = (if c < length row then assign_columns (row[c := v]) us else (row, False))"

fun apply_updates :: "SochValue list list \<Rightarrow> (nat \<times> (nat \<times> SochValue) list) list \<Rightarrow> SochValue list list \<times> bool" where
  "apply_updates rows [] = (rows, True)"
| "apply_updates rows ((i, us) # rest) =
     (if i < length rows
      then case assign_columns (rows ! i) us of
             (row, ok) \<Rightarrow> (if ok then apply_updates (rows[i := row]) rest else (rows[i := row], False))
      else if us = [] then apply_updates rows rest else (rows, False))"

definition execute_update :: "sql_eval_std \<Rightarrow> UpdateStmt \<Rightarrow> SochValue list \<Rightarrow> ExecutionResult exec" where
  "execute_update E upd params ex =
     (let table_name = object_name_name (upd_table upd)
      in case find_table table_name ex of
           Inl e \<Rightarrow> (ex, Inl e)
         | Inr table \<Rightarrow>
             (case collect_updates E params table upd 0 (td_rows table) of
                Inl e \<Rightarrow> (ex, Inl e)
              | Inr updates \<Rightarrow>
                  (case apply_updates (td_rows table) updates of
                     (rows, ok) \<Rightarrow>
                       (set_rows table_name table rows ex,
                        if ok then Inr (ResRowsAffected (length updates)) else Inl (SqlPanic ''index out of bounds'')))))"

subsection \<open>DELETE\<close>

fun collect_deletes :: "sql_eval_std \<Rightarrow> SochValue list \<Rightarrow> TableData \<Rightarrow> Expr option \<Rightarrow> nat \<Rightarrow> SochValue list list \<Rightarrow> nat list sql" where
  "collect_deletes E params t clause row_idx [] = Inr []"
| "collect_deletes E params t clause row_idx (row # rows) =
     sql_bind (where_matches E (row_map t row) params clause) (\<lambda>matches.
     sql_bind (collect_deletes E params t clause (row_idx + 1) rows) (\<lambda>rest.
     Inr (if matches then row_idx # rest else rest)))"

definition vec_remove :: "nat \<Rightarrow> 'a list \<Rightarrow> 'a list" where
  "vec_remove i xs = take i xs @ drop (i + 1) xs"

definition execute_delete :: "sql_eval_std \<Rightarrow> DeleteStmt \<Rightarrow> SochValue list \<Rightarrow> ExecutionResult exec" where
  "execute_delete E del params ex =
     (let table_name = object_name_name (del_table del)
      in case find_table table_name ex of
           Inl e \<Rightarrow> (ex, Inl e)
         | Inr table \<Rightarrow>
             (case collect_deletes E params table (del_where del) 0 (td_rows table) of
                Inl e \<Rightarrow> (ex, Inl e)
              | Inr indices \<Rightarrow>
                  (set_rows table_name table (foldl (\<lambda>rows i. vec_remove i rows) (td_rows table) (rev indices)) ex,
                   Inr (ResRowsAffected (length indices)))))"

subsection \<open>CREATE TABLE and DROP TABLE\<close>

definition execute_create_table :: "CreateTableStmt \<Rightarrow> ExecutionResult exec" where
  "execute_create_table create ex =
     (let table_name = object_name_name (ct_name create)
      in if ex_tables ex table_name \<noteq> None
         then (ex, if ct_if_not_exists create then Inr ResOk
                   else Inl (SqlFail (SqlConstraintViolation (''Table '' @ [CHR 0x27] @ table_name @ [CHR 0x27] @ '' already exists''))))
         else (ex\<lparr>ex_tables := (ex_tables ex)(table_name \<mapsto>
                 \<lparr>td_columns = map cd_name (ct_columns create), td_column_types = map cd_data_type (ct_columns create), td_rows = []\<rparr>)\<rparr>,
               Inr ResOk))"

fun drop_tables :: "bool \<Rightarrow> ObjectName list \<Rightarrow> ExecutionResult exec" where
  "drop_tables if_exists [] ex = (ex, Inr ResOk)"
| "drop_tables if_exists (name # names) ex =
     (if ex_tables ex (object_name_name name) = None \<and> \<not> if_exists
      then (ex, Inl (SqlFail (SqlTableNotFound (object_name_name name))))
      else drop_tables if_exists names (ex\<lparr>ex_tables := (ex_tables ex)(object_name_name name := None)\<rparr>))"

definition execute_drop_table :: "DropTableStmt \<Rightarrow> ExecutionResult exec" where
  "execute_drop_table drp = drop_tables (dt_if_exists drp) (dt_names drp)"

subsection \<open>Statements\<close>

definition execute_statement :: "sql_eval_std \<Rightarrow> Statement \<Rightarrow> SochValue list \<Rightarrow> ExecutionResult exec" where
  "execute_statement E stmt params ex =
     (case stmt of
        StSelect sel \<Rightarrow> (ex, execute_select E sel params ex)
      | StInsert ins \<Rightarrow> execute_insert E ins params ex
      | StUpdate upd \<Rightarrow> execute_update E upd params ex
      | StDelete del \<Rightarrow> execute_delete E del params ex
      | StCreateTable create \<Rightarrow> execute_create_table create ex
      | StDropTable drp \<Rightarrow> execute_drop_table drp ex
      | StBegin _ \<Rightarrow> (ex, Inr ResOk)
      | StCommit \<Rightarrow> (ex, Inr ResOk)
      | StRollback _ \<Rightarrow> (ex, Inr ResOk)
      | _ \<Rightarrow> (ex, not_implemented ''Statement type not yet supported''))"

definition execute_with_params :: "sql_eval_std \<Rightarrow> string \<Rightarrow> SochValue list \<Rightarrow> ExecutionResult exec" where
  "execute_with_params E sql params ex =
     (case parser_parse (sql_std.truncate E) sql of
        Parsed stmt \<Rightarrow> execute_statement E stmt params ex
      | SyntaxErrors errors \<Rightarrow> (ex, Inl (SqlFail (from_parse_errors errors)))
      | ParserPanic \<Rightarrow> (ex, Inl (SqlPanic ''parser''))
      | ParserUnbounded \<Rightarrow> (ex, Inl SqlUnbounded))"

definition sql_execute :: "sql_eval_std \<Rightarrow> string \<Rightarrow> ExecutionResult exec" where
  "sql_execute E sql = execute_with_params E sql []"

end
