(* ===== verification/Sql_Grammar.thy ===== *)
theory Sql_Grammar
  imports Sql_Parser_Total
begin

text \<open>
  The expression grammar of the parser against a reference: a printer that parenthesizes only where precedence and
  associativity demand it, and the parser, which reads back the tree that was printed.
\<close>

subsection \<open>Reference expressions\<close>

datatype sx =
    SLiteral Literal
  | SPlaceholder u32
  | SColumn string
  | SQualified string string
  | SBinary sx BinaryOperator sx
  | SNot sx
  | SUnary UnaryOperator sx
  | SIsNull sx bool
  | SInList sx sx "sx list" bool
  | SBetween sx sx sx bool
  | SLike sx sx bool
  | SCall string "sx list"
  | SSubscript sx sx

primrec sx_ast :: "sx \<Rightarrow> Expr" where
  "sx_ast (SLiteral v) = ELiteral v"
| "sx_ast (SPlaceholder n) = EPlaceholder n"
| "sx_ast (SColumn c) = EColumn (column_ref_new c)"
| "sx_ast (SQualified t c) = EColumn (column_ref_qualified t c)"
| "sx_ast (SBinary a op b) = EBinaryOp (sx_ast a) op (sx_ast b)"
| "sx_ast (SNot a) = EUnaryOp UnNot (sx_ast a)"
| "sx_ast (SUnary op a) = EUnaryOp op (sx_ast a)"
| "sx_ast (SIsNull a neg) = EIsNull (sx_ast a) neg"
| "sx_ast (SInList a x xs neg) = EInList (sx_ast a) (sx_ast x # map sx_ast xs) neg"
| "sx_ast (SBetween a l h neg) = EBetween (sx_ast a) (sx_ast l) (sx_ast h) neg"
| "sx_ast (SLike a p neg) = ELike (sx_ast a) (sx_ast p) None neg"
| "sx_ast (SCall f args) = EFunction (FunctionCall (object_name_new f) (map sx_ast args) False None None)"
| "sx_ast (SSubscript a i) = ESubscript (sx_ast a) (sx_ast i)"

primrec sx_height :: "sx \<Rightarrow> nat" where
  "sx_height (SLiteral v) = 1"
| "sx_height (SPlaceholder n) = 1"
| "sx_height (SColumn c) = 1"
| "sx_height (SQualified t c) = 1"
| "sx_height (SBinary a op b) = 1 + max (sx_height a) (sx_height b)"
| "sx_height (SNot a) = 1 + sx_height a"
| "sx_height (SUnary op a) = 1 + sx_height a"
| "sx_height (SIsNull a neg) = 1 + sx_height a"
| "sx_height (SInList a x xs neg) = 1 + foldr max (map sx_height xs) (max (sx_height a) (sx_height x))"
| "sx_height (SBetween a l h neg) = 1 + max (sx_height a) (max (sx_height l) (sx_height h))"
| "sx_height (SLike a p neg) = 1 + max (sx_height a) (sx_height p)"
| "sx_height (SCall f args) = 1 + foldr max (map sx_height args) 1"
| "sx_height (SSubscript a i) = 1 + max (sx_height a) (sx_height i)"

text \<open>The levels: \<^verbatim>\<open>OR\<close> 0, \<^verbatim>\<open>AND\<close> 1, \<^verbatim>\<open>NOT\<close> 2, comparisons 3, graph 4, additive 5, multiplicative 6, unary 7, primary 8.\<close>

definition op_table :: "(BinaryOperator \<times> nat \<times> TokenKind) list" where
  "op_table =
     [(BinOr, 0, TOr), (BinAnd, 1, TAnd), (BinEq, 3, TEq), (BinNe, 3, TNe), (BinLt, 3, TLt), (BinLe, 3, TLe), (BinGt, 3, TGt), (BinGe, 3, TGe),
      (BinGraphRight, 4, TArrow), (BinGraphLeft, 4, TLeftArrow), (BinGraphBi, 4, TBiArrow),
      (BinPlus, 5, TPlus), (BinMinus, 5, TMinus), (BinConcat, 5, TConcat),
      (BinMultiply, 6, TStar), (BinDivide, 6, TSlash), (BinModulo, 6, TPercent)]"

definition op_level :: "BinaryOperator \<Rightarrow> nat" where
  "op_level op = (case map_of op_table op of Some (l, _) \<Rightarrow> l | None \<Rightarrow> 0)"

definition op_token :: "BinaryOperator \<Rightarrow> TokenKind" where
  "op_token op = (case map_of op_table op of Some (_, k) \<Rightarrow> k | None \<Rightarrow> TEof)"

definition unary_token :: "UnaryOperator \<Rightarrow> TokenKind" where
  "unary_token op = (case op of UnPlus \<Rightarrow> TPlus | UnMinus \<Rightarrow> TMinus | UnBitNot \<Rightarrow> TBitNot | UnNot \<Rightarrow> TNot)"

definition literal_token :: "Literal \<Rightarrow> TokenKind" where
  "literal_token v =
     (case v of LitNull \<Rightarrow> TNull | LitBoolean b \<Rightarrow> (if b then TTrue else TFalse) | LitInteger n \<Rightarrow> TInteger n | LitFloat n \<Rightarrow> TFloat n
      | LitString s \<Rightarrow> TString s | LitBlob b \<Rightarrow> TBlob b)"

primrec sx_level :: "sx \<Rightarrow> nat" where
  "sx_level (SLiteral v) = 8"
| "sx_level (SPlaceholder n) = 8"
| "sx_level (SColumn c) = 8"
| "sx_level (SQualified t c) = 8"
| "sx_level (SBinary a op b) = op_level op"
| "sx_level (SNot a) = 2"
| "sx_level (SUnary op a) = 7"
| "sx_level (SIsNull a neg) = 3"
| "sx_level (SInList a x xs neg) = 3"
| "sx_level (SBetween a l h neg) = 3"
| "sx_level (SLike a p neg) = 3"
| "sx_level (SCall f args) = 8"
| "sx_level (SSubscript a i) = 8"

definition negation :: "bool \<Rightarrow> TokenKind list" where
  "negation neg = (if neg then [TNot] else [])"

fun sep_commas :: "TokenKind list list \<Rightarrow> TokenKind list" where
  "sep_commas [] = []"
| "sep_commas (x # xs) = x @ concat (map ((#) TComma) xs)"

definition parens :: "bool \<Rightarrow> TokenKind list \<Rightarrow> TokenKind list" where
  "parens b ks = (if b then [TLParen] @ ks @ [TRParen] else ks)"

primrec sx_print :: "sx \<Rightarrow> nat \<Rightarrow> TokenKind list" where
  "sx_print (SLiteral v) l = [literal_token v]"
| "sx_print (SPlaceholder n) l = [TPlaceholder n]"
| "sx_print (SColumn c) l = [TIdentifier c]"
| "sx_print (SQualified t c) l = [TIdentifier t, TDot, TIdentifier c]"
| "sx_print (SBinary a op b) l =
     parens (op_level op < l)
       (sx_print a (if op_level op = 3 then 4 else op_level op) @ [op_token op] @ sx_print b (op_level op + 1))"
| "sx_print (SNot a) l = parens (2 < l) ([TNot] @ sx_print a 2)"
| "sx_print (SUnary op a) l = parens (7 < l) ([unary_token op] @ sx_print a 7)"
| "sx_print (SIsNull a neg) l = parens (3 < l) (sx_print a 4 @ [TIs] @ negation neg @ [TNull])"
| "sx_print (SInList a x xs neg) l =
     parens (3 < l) (sx_print a 4 @ negation neg @ [TIn, TLParen] @ sep_commas (sx_print x 0 # map (\<lambda>y. sx_print y 0) xs) @ [TRParen])"
| "sx_print (SBetween a lo hi neg) l =
     parens (3 < l) (sx_print a 4 @ negation neg @ [TBetween] @ sx_print lo 4 @ [TAnd] @ sx_print hi 4)"
| "sx_print (SLike a p neg) l = parens (3 < l) (sx_print a 4 @ negation neg @ [TLike] @ sx_print p 4)"
| "sx_print (SCall f args) l = [TIdentifier f, TLParen] @ sep_commas (map (\<lambda>y. sx_print y 0) args) @ [TRParen]"
| "sx_print (SSubscript a i) l = sx_print a 8 @ [TLBracket] @ sx_print i 0 @ [TRBracket]"

primrec sx_ok :: "sx \<Rightarrow> bool" where
  "sx_ok (SLiteral v) = True"
| "sx_ok (SPlaceholder n) = True"
| "sx_ok (SColumn c) = True"
| "sx_ok (SQualified t c) = True"
| "sx_ok (SBinary a op b) = (op \<in> fst ` set op_table \<and> sx_ok a \<and> sx_ok b)"
| "sx_ok (SNot a) = sx_ok a"
| "sx_ok (SUnary op a) = (op \<noteq> UnNot \<and> sx_ok a)"
| "sx_ok (SIsNull a neg) = sx_ok a"
| "sx_ok (SInList a x xs neg) = (sx_ok a \<and> sx_ok x \<and> list_all sx_ok xs)"
| "sx_ok (SBetween a l h neg) = (sx_ok a \<and> sx_ok l \<and> sx_ok h)"
| "sx_ok (SLike a p neg) = (sx_ok a \<and> sx_ok p)"
| "sx_ok (SCall f args) = list_all sx_ok args"
| "sx_ok (SSubscript a i) = (sx_ok a \<and> sx_ok i)"


subsection \<open>Running the parser on known tokens\<close>

declare parse_rec.simps [simp del]

lemma parse_rec_std [simp]: "pv_std (parse_rec E n) = E"
  by (cases n) (simp_all add: parse_rec.simps)

lemma parse_rec_calls [simp]:
  "pv_expr (parse_rec E (Suc n)) = parse_expr (parse_rec E n)" "pv_not (parse_rec E (Suc n)) = parse_not_expr (parse_rec E n)"
  "pv_unary (parse_rec E (Suc n)) = parse_unary_expr (parse_rec E n)"
  "pv_primary (parse_rec E (Suc n)) = parse_primary_expr (parse_rec E n)"
  by (simp_all add: parse_rec.simps)

definition skip :: "nat \<Rightarrow> Parser \<Rightarrow> Parser" where
  "skip n s = s\<lparr>ps_pos := ps_pos s + n\<rparr>"

definition reading :: "Parser \<Rightarrow> TokenKind list \<Rightarrow> bool" where
  "reading s ks \<longleftrightarrow> ps_wf s \<and> map tk_kind (drop (ps_pos s) (ps_tokens s)) = ks"

lemma skip_skip [simp]: "skip m (skip n s) = skip (n + m) s"
  by (simp add: skip_def add.assoc)

lemma skip_0 [simp]: "skip 0 s = s"
  by (simp add: skip_def)

lemma skip_depth [simp]: "ps_depth (skip n s) = ps_depth s" "(skip n s)\<lparr>ps_depth := d\<rparr> = skip n (s\<lparr>ps_depth := d\<rparr>)"
  by (simp_all add: skip_def)

lemma bump_skip: "bump s = skip (Suc 0) s"
  by (simp add: bump_def skip_def)

lemma reading_depth: "reading s ks \<Longrightarrow> d \<le> MAX_EXPR_DEPTH \<Longrightarrow> reading (s\<lparr>ps_depth := d\<rparr>) ks"
  by (simp add: reading_def ps_wf_def)

lemma reading_wf: "reading s ks \<Longrightarrow> ps_wf s"
  by (simp add: reading_def)

lemma reading_kind: "reading s (k # ks) \<Longrightarrow> ps_kind s = k"
  by (auto simp: reading_def ps_kind_def ps_wf_def Cons_nth_drop_Suc [symmetric])

lemma reading_skip:
  assumes "reading s (xs @ ks)" "ks \<noteq> []"
  shows "reading (skip (length xs) s) ks"
proof -
  have "drop (length xs) (map tk_kind (drop (ps_pos s) (ps_tokens s))) = ks" using assms by (simp add: reading_def)
  then have ks: "map tk_kind (drop (ps_pos s + length xs) (ps_tokens s)) = ks" by (simp add: drop_map add.commute)
  then have "ps_pos s + length xs < length (ps_tokens s)" using assms(2) by (metis drop_all list.map_disc_iff not_le)
  with ks assms(1) show ?thesis by (simp add: reading_def skip_def ps_wf_def)
qed

lemma reading_Cons: "reading s (k # ks) \<Longrightarrow> ks \<noteq> [] \<Longrightarrow> reading (skip (Suc 0) s) ks"
  using reading_skip [of s "[k]" ks] by simp

lemma run_kind: "reading s (k # ks) \<Longrightarrow> p_bind peek_kind q s = q k s"
  using reading_kind reading_wf by (fastforce simp: p_bind_def peek_kind_wf)

lemma run_advance: "reading s (k # ks) \<Longrightarrow> k \<noteq> TEof \<Longrightarrow> p_bind ps_advance (\<lambda>_. q) s = q (skip (Suc 0) s)"
  by (simp add: p_bind_def ps_advance_wf reading_wf reading_kind bump_skip)

lemma run_match:
  assumes "reading s (k # ks)" "k' \<noteq> TEof"
  shows "match_token k' s = (if discriminant k = discriminant k' then Inr (True, skip (Suc 0) s) else Inr (False, s))"
proof -
  have "k \<noteq> TEof" if "discriminant k = discriminant k'" using that assms(2) discriminant_Eof [of k'] by metis
  then show ?thesis using assms(1)
    by (simp add: match_token_def check_def p_map_def p_bind_def p_return_def peek_kind_wf reading_wf reading_kind ps_advance_wf bump_skip)
qed

lemma run_if:
  assumes "reading s (k # ks)" "k' \<noteq> TEof"
  shows "p_if k' p q s = (if discriminant k = discriminant k' then p (skip (Suc 0) s) else q s)"
  using run_match [OF assms] by (simp add: p_if_def p_bind_def)

lemma run_bind_match:
  assumes "reading s (k # ks)" "k' \<noteq> TEof"
  shows "p_bind (match_token k') q s = (if discriminant k = discriminant k' then q True (skip (Suc 0) s) else q False s)"
  using run_match [OF assms] by (simp add: p_bind_def)

lemma run_expect:
  assumes "reading s (k # ks)" "k \<noteq> TEof"
  shows "p_bind (expect E k m) (\<lambda>_. q) s = q (skip (Suc 0) s)"
  using assms by (simp add: expect_def check_def p_map_def p_bind_def p_return_def peek_kind_wf reading_wf reading_kind ps_advance_wf bump_skip)

lemma run_check: "reading s (k # ks) \<Longrightarrow> p_bind (check k') q s = q (discriminant k = discriminant k') s"
  by (simp add: check_def p_map_def p_bind_def p_return_def peek_kind_wf reading_wf reading_kind)

lemma run_check_keyword: "reading s (k # ks) \<Longrightarrow> p_bind (check_keyword k') q s = q (k = k') s"
  by (simp add: check_keyword_def p_map_def p_bind_def p_return_def peek_kind_wf reading_wf reading_kind)

lemma run_bind: "p s = Inr (a, s') \<Longrightarrow> p_bind p q s = q a s'"
  by (simp add: p_bind_def)

lemma run_return: "p_bind (p_return a) q s = q a s"
  by (simp add: p_bind_def p_return_def)

lemma run_map: "p s = Inr (a, s') \<Longrightarrow> p_map f p s = Inr (f a, s')"
  by (simp add: p_map_def p_bind_def p_return_def)

lemma run_loop:
  assumes "body a s = Inr (Inr a', skip n s)" "0 < n" "ps_wf (skip n s)"
  shows "p_loop body a s = p_loop body a' (skip n s)"
proof -
  have "ps_left (skip n s) < ps_left s" using assms(2,3) by (auto simp: ps_left_def skip_def ps_wf_def)
  then show ?thesis using assms(1) by (subst p_loop.simps) simp
qed

lemma run_loop_break: "body a s = Inr (Inl b, s') \<Longrightarrow> p_loop body a s = Inr (b, s')"
  by (subst p_loop.simps) simp

lemma run_deeper:
  assumes "p (s\<lparr>ps_depth := Suc (ps_depth s)\<rparr>) = Inr (a, skip n (s\<lparr>ps_depth := Suc (ps_depth s)\<rparr>))" "ps_depth s < MAX_EXPR_DEPTH"
  shows "p_deeper p s = Inr (a, skip n s)"
  using assms by (simp add: p_deeper_def p_bind_def enter_recursion_def exit_recursion_def p_return_def skip_def)

subsection \<open>Levels\<close>

definition cont_table :: "(TokenKind \<times> nat) list" where
  "cont_table =
     [(TOr, 0), (TAnd, 1), (TIs, 3), (TNot, 3), (TIn, 3), (TBetween, 3), (TLike, 3), (TEscape, 3), (TEq, 3), (TNe, 3), (TLt, 3),
      (TLe, 3), (TGt, 3), (TGe, 3), (TArrow, 4), (TLeftArrow, 4), (TBiArrow, 4), (TPlus, 5), (TMinus, 5), (TConcat, 5), (TStar, 6),
      (TSlash, 6), (TPercent, 6), (TLBracket, 8), (TDoubleArrow, 8), (TDoubleColon, 8), (TColon, 8), (TDot, 9), (TLParen, 9)]"

text \<open>The token does not continue an expression of this level.\<close>

definition stops :: "nat \<Rightarrow> TokenKind \<Rightarrow> bool" where
  "stops l k \<longleftrightarrow> (case map_of cont_table k of None \<Rightarrow> True | Some m \<Rightarrow> m < l)"

definition level_parser :: "penv \<Rightarrow> nat \<Rightarrow> Expr parse" where
  "level_parser c l =
     (if l = 0 then parse_or_expr c else if l = 1 then parse_and_expr c else if l = 2 then parse_not_expr c
      else if l = 3 then parse_comparison_expr c else if l = 4 then parse_graph_expr c else if l = 5 then parse_additive_expr c
      else if l = 6 then parse_multiplicative_expr c else if l = 7 then parse_unary_expr c else parse_primary_expr c)"

text \<open>What a level does after its first operand.\<close>

definition level_loop :: "penv \<Rightarrow> nat \<Rightarrow> Expr \<Rightarrow> Expr parse" where
  "level_loop c l e =
     (if l = 0 then p_while TOr (\<lambda>left. p_map (EBinaryOp left BinOr) (parse_and_expr c)) e
      else if l = 1 then p_while TAnd (\<lambda>left. p_map (EBinaryOp left BinAnd) (parse_not_expr c)) e
      else if l = 4 then p_binary graph_op (parse_additive_expr c) e
      else if l = 5 then p_binary additive_op (parse_multiplicative_expr c) e
      else if l = 6 then p_binary multiplicative_op (parse_unary_expr c) e
      else if l = 8 then parse_postfix_expr c e
      else p_return e)"

definition margin :: "nat \<Rightarrow> nat" where
  "margin l = (if l = 2 \<or> l = 3 \<or> l = 7 then l else l + 1)"

lemma stops_mono: "stops l k \<Longrightarrow> l \<le> l' \<Longrightarrow> stops l' k"
  by (auto simp: stops_def split: option.splits)

lemma stops_margin: "stops l k \<Longrightarrow> stops (margin l) k"
  by (erule stops_mono) (simp add: margin_def)

text \<open>From a state that reads \<open>ks\<close> and then a token that stops this level, the parser of the level arrives behind \<open>ks\<close> with \<open>e\<close>.\<close>

definition reads :: "sql_std \<Rightarrow> nat \<Rightarrow> Expr \<Rightarrow> TokenKind list \<Rightarrow> nat \<Rightarrow> nat \<Rightarrow> bool" where
  "reads E n e ks l d \<longleftrightarrow>
     (\<forall>s k rest. reading s (ks @ k # rest) \<and> d \<le> n \<and> ps_depth s + d \<le> MAX_EXPR_DEPTH \<and> stops (margin l) k \<longrightarrow>
        level_parser (parse_rec E n) l s = level_loop (parse_rec E n) l e (skip (length ks) s))"


lemma discriminant_keyword [simp]:
  "discriminant k = Ddl a \<longleftrightarrow> k = Ddl a" "discriminant k = Dml b \<longleftrightarrow> k = Dml b" "discriminant k = Clause x \<longleftrightarrow> k = Clause x"
  "discriminant k = ExprKw d \<longleftrightarrow> k = ExprKw d" "discriminant k = Punct e \<longleftrightarrow> k = Punct e" "discriminant k = Op f \<longleftrightarrow> k = Op f"
  by (cases k; simp)+

lemma stops_ops:
  "stops 4 k \<Longrightarrow> graph_op k = None" "stops 5 k \<Longrightarrow> additive_op k = None" "stops 6 k \<Longrightarrow> multiplicative_op k = None"
  "stops 3 k \<Longrightarrow> comparison_op k = None"
  by (auto simp: stops_def cont_table_def graph_op_def additive_op_def multiplicative_op_def comparison_op_def split: if_splits)

lemma stops_tokens:
  "stops 0 k \<Longrightarrow> k \<noteq> TOr" "stops 1 k \<Longrightarrow> k \<noteq> TAnd" "stops 3 k \<Longrightarrow> k \<noteq> TIs" "stops 3 k \<Longrightarrow> k \<noteq> TNot" "stops 3 k \<Longrightarrow> k \<noteq> TIn"
  "stops 3 k \<Longrightarrow> k \<noteq> TBetween" "stops 3 k \<Longrightarrow> k \<noteq> TLike" "stops 3 k \<Longrightarrow> k \<noteq> TEscape" "stops 8 k \<Longrightarrow> k \<noteq> TLBracket"
  "stops 8 k \<Longrightarrow> k \<noteq> TDoubleArrow" "stops 8 k \<Longrightarrow> k \<noteq> TDoubleColon" "stops 8 k \<Longrightarrow> k \<noteq> TColon" "stops 9 k \<Longrightarrow> k \<noteq> TDot"
  "stops 9 k \<Longrightarrow> k \<noteq> TLParen"
  by (auto simp: stops_def cont_table_def)

lemma run_binary_stop:
  assumes "reading s (k # rest)" "f k = None"
  shows "p_binary f operand e s = Inr (e, s)"
  unfolding p_binary_def using assms by (intro run_loop_break) (simp add: run_kind p_return_def)

lemma run_while_stop:
  assumes "reading s (k # rest)" "k' \<noteq> TEof" "discriminant k \<noteq> discriminant k'"
  shows "p_while k' body e s = Inr (e, s)"
  unfolding p_while_def using assms by (intro run_loop_break) (simp add: run_if p_return_def)

lemma run_postfix_stop:
  assumes "reading s (k # rest)" "stops 8 k"
  shows "parse_postfix_expr c e s = Inr (e, s)"
  unfolding parse_postfix_expr_def using assms stops_tokens(9-12) [OF assms(2)]
  by (intro run_loop_break) (simp add: run_if [OF assms(1)] p_return_def)

lemma level_loop_stops:
  assumes "reading s (k # rest)" "stops l k"
  shows "level_loop c l e s = Inr (e, s)"
  using assms stops_tokens(1,2) [of k] stops_ops [of k]
  by (auto simp: level_loop_def run_while_stop [OF assms(1)] run_binary_stop [OF assms(1)] run_postfix_stop [OF assms(1)] p_return_def)

lemma reads_done:
  assumes "reads E n e ks l d" "reading s (ks @ k # rest)" "d \<le> n" "ps_depth s + d \<le> MAX_EXPR_DEPTH" "stops l k"
  shows "level_parser (parse_rec E n) l s = Inr (e, skip (length ks) s)"
proof -
  have "level_parser (parse_rec E n) l s = level_loop (parse_rec E n) l e (skip (length ks) s)"
    using assms stops_margin unfolding reads_def by blast
  also have "\<dots> = Inr (e, skip (length ks) s)"
    by (rule level_loop_stops) (use reading_skip [OF assms(2)] assms(5) in simp_all)
  finally show ?thesis .
qed

lemma readsD:
  assumes "reads E n e ks l d" "reading s (ks @ k # rest)" "d \<le> n" "ps_depth s + d \<le> MAX_EXPR_DEPTH" "stops (margin l) k"
  shows "level_parser (parse_rec E n) l s = level_loop (parse_rec E n) l e (skip (length ks) s)"
  using assms unfolding reads_def by blast

lemma reads_weaken:
  assumes "reads E n e ks l d" "d \<le> d'"
  shows "reads E n e ks l d'"
  unfolding reads_def
proof (intro allI impI, elim conjE)
  fix s k rest
  assume "reading s (ks @ k # rest)" "d' \<le> n" "ps_depth s + d' \<le> MAX_EXPR_DEPTH" "stops (margin l) k"
  moreover from this have "d \<le> n" "ps_depth s + d \<le> MAX_EXPR_DEPTH" using assms(2) by simp_all
  ultimately show "level_parser (parse_rec E n) l s = level_loop (parse_rec E n) l e (skip (length ks) s)"
    using assms(1) unfolding reads_def by blast
qed

text \<open>One level down: an operand of the level above is an operand of this one.\<close>

lemma reads_down:
  assumes "reads E n e ks (Suc l) d" "l < 8" "ks \<noteq> []" "l = 2 \<Longrightarrow> hd ks \<noteq> TNot" "l = 7 \<Longrightarrow> unary_op (hd ks) = None"
  shows "reads E n e ks l (if l = 2 then d + 1 else d)"
  unfolding reads_def
proof (intro allI impI, elim conjE)
  fix s k rest
  let ?c = "parse_rec E n" and ?s = "skip (length ks) s"
  assume r: "reading s (ks @ k # rest)" and d: "(if l = 2 then d + 1 else d) \<le> n"
    "ps_depth s + (if l = 2 then d + 1 else d) \<le> MAX_EXPR_DEPTH" and st: "stops (margin l) k"
  have st1: "stops (Suc l) k" using st by (rule stops_mono) (simp add: margin_def)
  have r1: "reading s (hd ks # tl ks @ k # rest)" using r assms(3) by (cases ks) simp_all
  have rk: "reading ?s (k # rest)" using reading_skip [OF r] by simp
  have up: "level_parser ?c (Suc l) s = Inr (e, ?s)" if "l \<noteq> 2"
    by (rule reads_done [OF assms(1) r]) (use d st1 that in simp_all)
  consider "l = 0" | "l = 1" | "l = 2" | "l = 3" | "l = 4" | "l = 5" | "l = 6" | "l = 7" using assms(2) by linarith
  then show "level_parser ?c l s = level_loop ?c l e ?s"
  proof cases
    case 3
    let ?t = "s\<lparr>ps_depth := Suc (ps_depth s)\<rparr>"
    have t: "reading ?t (ks @ k # rest)" using r d 3 by (intro reading_depth) simp_all
    have "level_parser ?c 3 ?t = Inr (e, skip (length ks) ?t)"
      by (rule reads_done [OF _ t]) (use assms(1) d st1 3 in \<open>simp_all add: numeral_3_eq_3 numeral_2_eq_2\<close>)
    then have "p_if TNot (p_map (EUnaryOp UnNot) (pv_not ?c)) (parse_comparison_expr ?c) ?t = Inr (e, skip (length ks) ?t)"
      using t assms(3,4) 3 by (cases ks) (simp_all add: run_if level_parser_def)
    then have "parse_not_expr ?c s = Inr (e, ?s)" unfolding parse_not_expr_def by (rule run_deeper) (use d 3 in simp)
    then show ?thesis by (simp add: 3 level_parser_def level_loop_def p_return_def)
  next
    case 4
    have "stops 3 k" using st by (simp add: 4 margin_def)
    note stop = stops_tokens(3-7) [OF this] stops_ops(4) [OF this]
    have "parse_graph_expr ?c s = Inr (e, ?s)" using up by (simp add: 4 level_parser_def)
    then show ?thesis using stop
      by (simp add: 4 level_parser_def level_loop_def parse_comparison_expr_def run_bind run_if [OF rk] run_bind_match [OF rk] run_kind [OF rk])
  next
    case 8
    then show ?thesis using up assms(5)
      by (simp add: level_parser_def level_loop_def parse_unary_expr_def run_kind [OF r1] p_return_def)
  qed (use up in \<open>simp_all add: level_parser_def level_loop_def parse_or_expr_def parse_and_expr_def parse_graph_expr_def
      parse_additive_expr_def parse_multiplicative_expr_def run_bind\<close>)
qed


lemma reads_lower:
  assumes "reads E n e ks v d" "l \<le> v" "v \<le> 8" "ks \<noteq> []" "3 \<le> v \<Longrightarrow> hd ks \<noteq> TNot" "v = 8 \<Longrightarrow> unary_op (hd ks) = None"
  shows "reads E n e ks l (if l \<le> 2 \<and> 3 \<le> v then d + 1 else d)"
  using assms(2)
proof (induction l rule: inc_induct)
  case base
  have "\<not> (v \<le> 2 \<and> 3 \<le> v)" by simp
  then show ?case using assms(1) by (simp only: if_False)
next
  case (step l)
  have "reads E n e ks l (if l = 2 then (if Suc l \<le> 2 \<and> 3 \<le> v then d + 1 else d) + 1 else (if Suc l \<le> 2 \<and> 3 \<le> v then d + 1 else d))"
    by (rule reads_down [OF step.IH]) (use step.hyps assms in auto)
  then show ?case by (rule reads_weaken) (use step.hyps in auto)
qed

lemma run_expr:
  assumes "reads E n e ks 0 d" "reading s (ks @ k # rest)" "d \<le> n" "ps_depth s + d < MAX_EXPR_DEPTH" "stops 0 k"
  shows "parse_expr (parse_rec E n) s = Inr (e, skip (length ks) s)"
proof -
  let ?t = "s\<lparr>ps_depth := Suc (ps_depth s)\<rparr>"
  have "reading ?t (ks @ k # rest)" using assms(2,4) by (intro reading_depth) simp_all
  from reads_done [OF assms(1) this] have "parse_or_expr (parse_rec E n) ?t = Inr (e, skip (length ks) ?t)"
    using assms(3-5) by (simp add: level_parser_def)
  then show ?thesis using assms(4) by (simp add: parse_expr_def run_deeper)
qed

lemma stops_close [simp]: "stops l TRParen" "stops l TComma" "stops l TRBracket" "stops l TNull" "stops l TEof"
  by (simp_all add: stops_def cont_table_def)

lemma run_paren:
  assumes "reads E n e ks 0 d" "reading s (TLParen # ks @ TRParen # k # rest)" "d \<le> n" "ps_depth s + d < MAX_EXPR_DEPTH"
    "ks \<noteq> []" "hd ks \<noteq> TSelect"
  shows "parse_operand (parse_rec E (Suc n)) s = Inr (e, skip (length ks + 2) s)"
proof -
  let ?c = "parse_rec E (Suc n)"
  have r1: "reading (skip (Suc 0) s) (ks @ TRParen # k # rest)" using assms(2) by (rule reading_Cons) simp
  then have r1': "reading (skip (Suc 0) s) (hd ks # tl ks @ TRParen # k # rest)" using assms(5) by (cases ks) simp_all
  have r2: "reading (skip (Suc (length ks)) s) (TRParen # k # rest)" using reading_skip [OF r1] by simp
  have e: "p_bind (parse_expr (parse_rec E n)) q (skip (Suc 0) s) = q e (skip (Suc (length ks)) s)" for q :: "Expr \<Rightarrow> Expr parse"
    using run_expr [OF assms(1) r1 assms(3)] assms(4) by (simp add: run_bind)
  have "parse_parenthesized ?c (skip (Suc 0) s) = Inr (e, skip (length ks + 2) s)"
    using assms(6) by (simp add: parse_parenthesized_def run_check_keyword [OF r1'] e run_if [OF r2] run_expect [OF r2] p_return_def)
  then show ?thesis
    by (simp add: parse_operand_def run_kind [OF assms(2)] run_advance [OF assms(2)] literal_operand_def)
qed

lemma reads_paren:
  assumes "\<And>n. reads E n e ks 0 d" "ks \<noteq> []" "hd ks \<noteq> TSelect"
  shows "reads E n e ([TLParen] @ ks @ [TRParen]) 8 (d + 1)"
  unfolding reads_def
proof (intro allI impI, elim conjE)
  fix s k rest
  assume r: "reading s (([TLParen] @ ks @ [TRParen]) @ k # rest)" and d: "d + 1 \<le> n" "ps_depth s + (d + 1) \<le> MAX_EXPR_DEPTH"
  then obtain n' where n: "n = Suc n'" by (cases n) auto
  have "parse_operand (parse_rec E n) s = Inr (e, skip (length ks + 2) s)"
    unfolding n by (rule run_paren [OF assms(1)]) (use r d n assms in simp_all)
  then show "level_parser (parse_rec E n) 8 s = level_loop (parse_rec E n) 8 e (skip (length ([TLParen] @ ks @ [TRParen])) s)"
    by (simp add: level_parser_def level_loop_def parse_primary_expr_def run_bind)
qed

text \<open>The tokens an expression may start with.\<close>

definition starts :: "nat \<Rightarrow> TokenKind list \<Rightarrow> bool" where
  "starts l ks \<longleftrightarrow> ks \<noteq> [] \<and> hd ks \<notin> {TSelect, TRParen, TEof} \<and> (3 \<le> l \<longrightarrow> hd ks \<noteq> TNot) \<and> (8 \<le> l \<longrightarrow> unary_op (hd ks) = None)"

lemma reads_level:
  assumes "\<And>n. reads E n e ks v (3 * h - 3)" "v \<le> 8" "l \<le> 8" "starts v ks" "1 \<le> h"
  shows "reads E n e (parens (v < l) ks) l (3 * h - 1)"
proof -
  note st = assms(4)[unfolded starts_def]
  have low: "reads E n e ks m (if m \<le> 2 \<and> 3 \<le> v then 3 * h - 3 + 1 else 3 * h - 3)" if "m \<le> v" for n m
    by (rule reads_lower [OF assms(1)]) (use that assms(2) st in auto)
  show ?thesis
  proof (cases "v < l")
    case False
    then have "reads E n e ks l (3 * h - 1)" by (intro reads_weaken [OF low]) (use assms(5) in auto)
    with False show ?thesis by (simp add: parens_def)
  next
    case True
    define d where "d = (if 3 \<le> v then 3 * h - 3 + 1 else 3 * h - 3)"
    have "reads E n e ([TLParen] @ ks @ [TRParen]) 8 (d + 1)" by (rule reads_paren) (use low [of 0] st in \<open>auto simp: d_def\<close>)
    then have "reads E n e ([TLParen] @ ks @ [TRParen]) l (if l \<le> 2 \<and> 3 \<le> (8::nat) then d + 1 + 1 else d + 1)"
      by (rule reads_lower) (use assms(3) in \<open>simp_all add: unary_op_def\<close>)
    then have "reads E n e ([TLParen] @ ks @ [TRParen]) l (3 * h - 1)"
      by (rule reads_weaken) (use True assms(5) in \<open>auto simp: d_def\<close>)
    with True show ?thesis by (simp add: parens_def)
  qed
qed


subsection \<open>Operands\<close>

lemma readsI:
  assumes "\<And>s k rest. reading s (ks @ k # rest) \<Longrightarrow> d \<le> n \<Longrightarrow> ps_depth s + d \<le> MAX_EXPR_DEPTH \<Longrightarrow> stops (margin l) k \<Longrightarrow>
    level_parser (parse_rec E n) l s = level_loop (parse_rec E n) l e (skip (length ks) s)"
  shows "reads E n e ks l d"
  using assms unfolding reads_def by blast

lemma reads_operand:
  assumes "\<And>s k rest. reading s (ks @ k # rest) \<Longrightarrow> d \<le> n \<Longrightarrow> ps_depth s + d \<le> MAX_EXPR_DEPTH \<Longrightarrow> stops 9 k \<Longrightarrow>
    parse_operand (parse_rec E n) s = Inr (e, skip (length ks) s)"
  shows "reads E n e ks 8 d"
  by (rule readsI) (simp add: level_parser_def level_loop_def parse_primary_expr_def run_bind assms margin_def)

lemma reads_literal:
  assumes "literal_operand k = Some e"
  shows "reads E n e [k] 8 0"
proof (rule reads_operand)
  fix s k' rest assume "reading s ([k] @ k' # rest)"
  then have r: "reading s (k # k' # rest)" by simp
  have "k \<noteq> TEof" using assms by auto
  then show "parse_operand (parse_rec E n) s = Inr (e, skip (length [k]) s)"
    using assms by (simp add: parse_operand_def run_kind [OF r] run_advance [OF r] p_return_def)
qed

lemma run_identifier: "reading s (TIdentifier a # ks) \<Longrightarrow> expect_identifier m s = Inr (a, skip (Suc 0) s)"
  by (simp add: expect_identifier_def run_kind run_advance identifier_name_def p_return_def)

definition name_body :: "string list \<Rightarrow> (string list + string list) parse" where
  "name_body parts = p_if TDot
     (p_bind (check TStar) (\<lambda>star.
        if star then p_return (Inl parts)
        else p_map (\<lambda>part. Inr (parts @ [part])) (expect_identifier (''Expected identifier after '' @ qt ''.''))))
     (p_return (Inl parts))"

lemma parse_object_name_eq:
  assumes "reading s (TIdentifier a # ks)"
  shows "parse_object_name s = p_map (\<lambda>parts. \<lparr>on_parts = parts\<rparr>) (p_loop name_body [a]) (skip (Suc 0) s)"
  using run_identifier [OF assms] by (simp add: parse_object_name_def p_bind_def name_body_def [abs_def])

lemma name_body_stop: "reading s (k # ks) \<Longrightarrow> k \<noteq> TDot \<Longrightarrow> p_loop name_body parts s = Inr (parts, s)"
  by (rule run_loop_break) (simp add: name_body_def run_if p_return_def)

lemma run_object_name:
  assumes "reading s (TIdentifier a # k # ks)" "k \<noteq> TDot"
  shows "parse_object_name s = Inr (object_name_new a, skip (Suc 0) s)"
  using name_body_stop [OF reading_Cons [OF assms(1)] assms(2)]
  by (simp add: parse_object_name_eq [OF assms(1)] run_map object_name_new_def)

lemma run_qualified_name:
  assumes "reading s (TIdentifier a # TDot # TIdentifier b # k # ks)" "k \<noteq> TDot"
  shows "parse_object_name s = Inr (object_name_qualified a b, skip 3 s)"
proof -
  have r1: "reading (skip (Suc 0) s) (TDot # TIdentifier b # k # ks)" using assms(1) by (rule reading_Cons) simp
  have r2: "reading (skip 2 s) (TIdentifier b # k # ks)" using reading_Cons [OF r1] by (simp add: numeral_2_eq_2)
  have r3: "reading (skip 3 s) (k # ks)" using reading_Cons [OF r2] by (simp add: numeral_3_eq_3)
  have "name_body [a] (skip (Suc 0) s) = Inr (Inr [a, b], skip 2 (skip (Suc 0) s))"
    using r2 run_identifier [OF r2] by (simp add: name_body_def run_if [OF r1] numeral_2_eq_2 run_check run_map)
  then have "p_loop name_body [a] (skip (Suc 0) s) = p_loop name_body [a, b] (skip 2 (skip (Suc 0) s))"
    by (rule run_loop) (use reading_wf [OF r3] in \<open>simp_all add: numeral_3_eq_3 numeral_2_eq_2\<close>)
  then show ?thesis
    using name_body_stop [OF r3 assms(2)]
    by (simp add: parse_object_name_eq [OF assms(1)] run_map object_name_qualified_def numeral_3_eq_3 numeral_2_eq_2)
qed

lemma operand_identifier:
  assumes "reading s (TIdentifier a # ks)"
  shows "parse_operand (parse_rec E n) s = parse_identifier_or_function (parse_rec E n) s"
  by (simp add: parse_operand_def run_kind [OF assms] literal_operand_def aggregate_names_def identifier_name_def)

lemma reads_column: "reads E n (EColumn (column_ref_new a)) [TIdentifier a] 8 0"
proof (rule reads_operand)
  fix s k rest assume r: "reading s ([TIdentifier a] @ k # rest)" and k: "stops 9 k"
  note k = stops_tokens(13,14) [OF k]
  have r0: "reading s (TIdentifier a # k # rest)" using r by simp
  have r1: "reading (skip (Suc 0) s) (k # rest)" using reading_Cons [OF r0] by simp
  show "parse_operand (parse_rec E n) s = Inr (EColumn (column_ref_new a), skip (length [TIdentifier a]) s)"
    using k run_object_name [OF r0 k(1)]
    by (simp add: operand_identifier [OF r0] parse_identifier_or_function_def run_bind run_if [OF r1] object_name_new_def p_return_def)
qed

lemma reads_qualified: "reads E n (EColumn (column_ref_qualified t a)) [TIdentifier t, TDot, TIdentifier a] 8 0"
proof (rule reads_operand)
  fix s k rest assume r: "reading s ([TIdentifier t, TDot, TIdentifier a] @ k # rest)" and k: "stops 9 k"
  note k = stops_tokens(13,14) [OF k]
  have r0: "reading s (TIdentifier t # TDot # TIdentifier a # k # rest)" using r by simp
  have r1: "reading (skip (Suc (Suc (Suc 0))) s) (k # rest)" using reading_skip [OF r] by simp
  show "parse_operand (parse_rec E n) s = Inr (EColumn (column_ref_qualified t a), skip (length [TIdentifier t, TDot, TIdentifier a]) s)"
    using k run_qualified_name [OF r0 k(1)]
    by (simp add: operand_identifier [OF r0] parse_identifier_or_function_def run_bind run_if [OF r1] object_name_qualified_def p_return_def
        numeral_3_eq_3)
qed

subsection \<open>Lists\<close>

lemma run_comma_tail:
  assumes "list_all2 (\<lambda>e ks. reads E n e ks 0 d \<and> ks \<noteq> []) es kss" "d \<le> n"
    "reading s (concat (map ((#) TComma) kss) @ TRParen # rest)" "ps_depth s + d < MAX_EXPR_DEPTH"
  shows "p_while TComma (\<lambda>xs. p_map (\<lambda>y. xs @ [y]) (parse_expr (parse_rec E n))) acc s =
    Inr (acc @ es, skip (length (concat (map ((#) TComma) kss))) s)"
  using assms
proof (induction es kss arbitrary: s acc rule: list_all2_induct)
  case Nil
  then show ?case by (simp add: run_while_stop)
next
  case (Cons e es ks kss)
  let ?t = "concat (map ((#) TComma) kss) @ TRParen # rest" and ?s = "skip (Suc (length ks)) s"
  have r0: "reading s (TComma # ks @ ?t)" using Cons.prems(2) by simp
  have r1: "reading (skip (Suc 0) s) (ks @ ?t)" using r0 by (rule reading_Cons) simp
  have r2: "reading ?s ?t" using reading_skip [OF r1] by simp
  obtain k u where t: "?t = k # u" "stops 0 k" by (cases kss) auto
  have e: "parse_expr (parse_rec E n) (skip (Suc 0) s) = Inr (e, ?s)"
    using run_expr [of E n e ks d "skip (Suc 0) s" k u] Cons.hyps(1) Cons.prems r1 t by simp
  have "p_while TComma (\<lambda>xs. p_map (\<lambda>y. xs @ [y]) (parse_expr (parse_rec E n))) acc s =
      p_while TComma (\<lambda>xs. p_map (\<lambda>y. xs @ [y]) (parse_expr (parse_rec E n))) (acc @ [e]) ?s"
    unfolding p_while_def
    by (rule run_loop) (use e reading_wf [OF r2] in \<open>simp_all add: run_if [OF r0] run_map\<close>)
  with Cons.IH [OF Cons.prems(1) r2] Cons.prems show ?case by simp
qed

lemma run_expr_list:
  assumes "list_all2 (\<lambda>e ks. reads E n e ks 0 d \<and> ks \<noteq> []) es kss" "es \<noteq> []" "d \<le> n"
    "reading s (sep_commas kss @ TRParen # rest)" "ps_depth s + d < MAX_EXPR_DEPTH"
  shows "parse_expr_list (parse_rec E (Suc n)) s = Inr (es, skip (length (sep_commas kss)) s)"
proof -
  obtain e es' ks kss' where eq: "es = e # es'" "kss = ks # kss'" using assms(1,2) by (cases es; cases kss) auto
  let ?t = "concat (map ((#) TComma) kss') @ TRParen # rest"
  have r0: "reading s (ks @ ?t)" using assms(4) eq by simp
  have r1: "reading (skip (length ks) s) ?t" using reading_skip [OF r0] by simp
  obtain k u where t: "?t = k # u" "stops 0 k" by (cases kss') auto
  have e: "parse_expr (parse_rec E n) s = Inr (e, skip (length ks) s)"
    using run_expr [of E n e ks d s k u] assms eq r0 t by simp
  show ?thesis
    using run_comma_tail [of E n d es' kss' "skip (length ks) s" rest "[e]"] assms eq r1
    by (simp add: parse_expr_list_def p_commas_def run_bind [where p = "parse_expr (parse_rec E n)", OF e])
qed


subsection \<open>One constructor at a time\<close>

lemma reads_call:
  assumes "\<And>n. list_all2 (\<lambda>e ks. reads E n e ks 0 d \<and> ks \<noteq> [] \<and> hd ks \<noteq> TRParen) es kss"
  shows "reads E n (EFunction (FunctionCall (object_name_new f) es False None None)) ([TIdentifier f, TLParen] @ sep_commas kss @ [TRParen]) 8 (d + 1)"
proof (rule reads_operand)
  fix s k rest
  let ?c = "parse_rec E n" and ?m = "length (sep_commas kss)"
  assume r: "reading s (([TIdentifier f, TLParen] @ sep_commas kss @ [TRParen]) @ k # rest)" and d: "d + 1 \<le> n"
    "ps_depth s + (d + 1) \<le> MAX_EXPR_DEPTH"
  obtain n' where n: "n = Suc n'" using d by (cases n) auto
  have r0: "reading s (TIdentifier f # TLParen # sep_commas kss @ TRParen # k # rest)" using r by simp
  have r1: "reading (skip (Suc 0) s) (TLParen # sep_commas kss @ TRParen # k # rest)" using r0 by (rule reading_Cons) simp
  have r2: "reading (skip (Suc (Suc 0)) s) (sep_commas kss @ TRParen # k # rest)" using reading_Cons [OF r1] by simp
  have r3: "reading (skip (Suc (Suc ?m)) s) (TRParen # k # rest)" using reading_skip [OF r2] by simp
  note l = assms [of n']
  have args: "p_bind (check TRParen) (\<lambda>empty. p_bind (if empty then p_return [] else parse_expr_list ?c) q) (skip (Suc (Suc 0)) s) =
      q es (skip (Suc (Suc ?m)) s)" for q :: "Expr list \<Rightarrow> Expr parse"
  proof (cases kss)
    case Nil
    then have "es = []" using l by simp
    then show ?thesis using Nil r2 by (simp add: run_check run_return)
  next
    case (Cons ks kss')
    then obtain e es' where es: "es = e # es'" using l by (cases es) auto
    have "ks \<noteq> []" "hd ks \<noteq> TRParen" using l Cons es by auto
    then obtain k0 u where k0: "sep_commas kss @ TRParen # k # rest = k0 # u" "k0 \<noteq> TRParen" using Cons by (cases ks) auto
    have "parse_expr_list ?c (skip (Suc (Suc 0)) s) = Inr (es, skip ?m (skip (Suc (Suc 0)) s))"
      unfolding n by (rule run_expr_list [OF _ _ _ r2]) (use l es d n in \<open>auto elim!: list_all2_mono\<close>)
    then show ?thesis using r2 k0 by (simp add: run_check run_bind)
  qed
  show "parse_operand ?c s = Inr (EFunction (FunctionCall (object_name_new f) es False None None),
      skip (length ([TIdentifier f, TLParen] @ sep_commas kss @ [TRParen])) s)"
    using run_object_name [OF r0]
    by (simp add: operand_identifier [OF r0] parse_identifier_or_function_def run_bind run_if [OF r1] args run_expect [OF r3] p_return_def)
qed

lemma reads_subscript:
  assumes "\<And>n. reads E n a ka 8 d" "\<And>n. reads E n i ki 0 d" "ki \<noteq> []"
  shows "reads E n (ESubscript a i) (ka @ [TLBracket] @ ki @ [TRBracket]) 8 (d + 1)"
proof (rule readsI)
  fix s k rest
  let ?c = "parse_rec E n" and ?s = "skip (length ka) s"
  assume r: "reading s ((ka @ [TLBracket] @ ki @ [TRBracket]) @ k # rest)" and d: "d + 1 \<le> n" "ps_depth s + (d + 1) \<le> MAX_EXPR_DEPTH"
  obtain n' where n: "n = Suc n'" using d by (cases n) auto
  have r0: "reading s (ka @ TLBracket # ki @ TRBracket # k # rest)" using r by simp
  have r1: "reading ?s (TLBracket # ki @ TRBracket # k # rest)" using reading_skip [OF r0] by simp
  have r2: "reading (skip (Suc 0) ?s) (ki @ TRBracket # k # rest)" using r1 by (rule reading_Cons) simp
  have r3: "reading (skip (length ki) (skip (Suc 0) ?s)) (TRBracket # k # rest)" using reading_skip [OF r2] by simp
  have r4: "reading (skip (Suc (Suc (length ki))) ?s) (k # rest)" using reading_Cons [OF r3] by simp
  have "level_parser ?c 8 s = parse_postfix_expr ?c a ?s"
    using readsD [OF assms(1) r0, of n] d by (simp add: level_loop_def margin_def stops_def cont_table_def)
  also have "\<dots> = parse_postfix_expr ?c (ESubscript a i) (skip (Suc (Suc (length ki))) ?s)"
  proof -
    have e: "parse_expr (parse_rec E n') (skip (Suc 0) ?s) = Inr (i, skip (length ki) (skip (Suc 0) ?s))"
      by (rule run_expr [OF assms(2) r2]) (use d n in simp_all)
    show ?thesis
      unfolding parse_postfix_expr_def
      by (rule run_loop) (use e reading_wf [OF r4] r3 n in \<open>simp_all add: run_if [OF r1] run_bind run_expect p_return_def\<close>)
  qed
  finally show "level_parser ?c 8 s = level_loop ?c 8 (ESubscript a i) (skip (length (ka @ [TLBracket] @ ki @ [TRBracket])) s)"
    by (simp add: level_loop_def)
qed

lemma reads_unary:
  assumes "\<And>n. reads E n a ka 7 d" "op \<noteq> UnNot"
  shows "reads E n (EUnaryOp op a) ([unary_token op] @ ka) 7 (d + 1)"
proof (rule readsI)
  fix s k rest
  let ?c = "parse_rec E n"
  assume r: "reading s (([unary_token op] @ ka) @ k # rest)" and d: "d + 1 \<le> n" "ps_depth s + (d + 1) \<le> MAX_EXPR_DEPTH" and st: "stops (margin 7) k"
  obtain n' where n: "n = Suc n'" using d by (cases n) auto
  have u: "unary_op (unary_token op) = Some op" "unary_token op \<noteq> TEof"
    using assms(2) by (cases op; simp add: unary_token_def unary_op_def)+
  have r0: "reading s (unary_token op # ka @ k # rest)" using r by simp
  let ?t = "(skip (Suc 0) s)\<lparr>ps_depth := Suc (ps_depth s)\<rparr>"
  have "reading ?t (ka @ k # rest)" using reading_Cons [OF r0] d by (intro reading_depth) simp_all
  from reads_done [OF assms(1) this, of n'] have "parse_unary_expr (parse_rec E n') ?t = Inr (a, skip (length ka) ?t)"
    using d n st by (simp add: level_parser_def margin_def)
  then have "p_deeper (parse_unary_expr (parse_rec E n')) (skip (Suc 0) s) = Inr (a, skip (length ka) (skip (Suc 0) s))"
    by (intro run_deeper) (use d in simp_all)
  then show "level_parser ?c 7 s = level_loop ?c 7 (EUnaryOp op a) (skip (length ([unary_token op] @ ka)) s)"
    using u by (simp add: level_parser_def level_loop_def parse_unary_expr_def run_kind [OF r0] run_advance [OF r0] n run_map p_return_def)
qed

lemma reads_not:
  assumes "\<And>n. reads E n a ka 2 d"
  shows "reads E n (EUnaryOp UnNot a) ([TNot] @ ka) 2 (d + 1)"
proof (rule readsI)
  fix s k rest
  let ?c = "parse_rec E n"
  assume r: "reading s (([TNot] @ ka) @ k # rest)" and d: "d + 1 \<le> n" "ps_depth s + (d + 1) \<le> MAX_EXPR_DEPTH" and st: "stops (margin 2) k"
  obtain n' where n: "n = Suc n'" using d by (cases n) auto
  let ?t = "s\<lparr>ps_depth := Suc (ps_depth s)\<rparr>"
  have r0: "reading ?t (TNot # ka @ k # rest)" using r d by (intro reading_depth) simp_all
  from reads_done [OF assms reading_Cons [OF r0], of n'] have "parse_not_expr (parse_rec E n') (skip (Suc 0) ?t) = Inr (a, skip (Suc (length ka)) ?t)"
    using d n st by (simp add: level_parser_def margin_def)
  then have "p_if TNot (p_map (EUnaryOp UnNot) (pv_not ?c)) (parse_comparison_expr ?c) ?t = Inr (EUnaryOp UnNot a, skip (Suc (length ka)) ?t)"
    by (simp add: run_if [OF r0] n run_map)
  then have "parse_not_expr ?c s = Inr (EUnaryOp UnNot a, skip (Suc (length ka)) s)"
    unfolding parse_not_expr_def by (rule run_deeper) (use d in simp)
  then show "level_parser ?c 2 s = level_loop ?c 2 (EUnaryOp UnNot a) (skip (length ([TNot] @ ka)) s)"
    by (simp add: level_parser_def level_loop_def p_return_def)
qed


lemma op_table_cases:
  assumes "op \<in> fst ` set op_table"
  obtains "op_level op = 0" "op = BinOr" "op_token op = TOr" | "op_level op = 1" "op = BinAnd" "op_token op = TAnd"
  | "op_level op = 3" "comparison_op (op_token op) = Some op"
  | "op_level op = 4" "graph_op (op_token op) = Some op"
  | "op_level op = 5" "additive_op (op_token op) = Some op"
  | "op_level op = 6" "multiplicative_op (op_token op) = Some op"
  using assms
  by (auto simp: op_table_def op_level_def op_token_def comparison_op_def graph_op_def additive_op_def multiplicative_op_def)

lemma op_token_stops:
  assumes "op \<in> fst ` set op_table"
  shows "stops (Suc (op_level op)) (op_token op)" "op_token op \<noteq> TEof"
    "op_level op = 3 \<Longrightarrow> op_token op \<notin> {TIs, TNot, TIn, TBetween, TLike}" "op_level op \<noteq> 2" "op_level op \<noteq> 7" "op_level op \<le> 6"
  using assms by (auto simp: op_table_def op_level_def op_token_def stops_def cont_table_def)

lemma run_binary:
  assumes "reading s (k # ks @ k' # rest)" "f k = Some op" "k \<noteq> TEof" "operand (skip (Suc 0) s) = Inr (b, skip (length ks) (skip (Suc 0) s))"
  shows "p_binary f operand a s = p_binary f operand (EBinaryOp a op b) (skip (Suc (length ks)) s)"
proof -
  have "ps_wf (skip (Suc (length ks)) s)" using reading_skip [of s "k # ks" "k' # rest"] assms(1) by (simp add: reading_wf)
  then show ?thesis
    unfolding p_binary_def
    by (intro run_loop) (use assms(2-4) in \<open>simp_all add: run_kind [OF assms(1)] run_advance [OF assms(1)] run_map\<close>)
qed

lemma run_while:
  assumes "reading s (k # ks @ k' # rest)" "k \<noteq> TEof" "operand (skip (Suc 0) s) = Inr (b, skip (length ks) (skip (Suc 0) s))"
  shows "p_while k (\<lambda>a. p_map (g a) operand) a s = p_while k (\<lambda>a. p_map (g a) operand) (g a b) (skip (Suc (length ks)) s)"
proof -
  have "ps_wf (skip (Suc (length ks)) s)" using reading_skip [of s "k # ks" "k' # rest"] assms(1) by (simp add: reading_wf)
  then show ?thesis
    unfolding p_while_def
    by (intro run_loop) (use assms(2,3) in \<open>simp_all add: run_if [OF assms(1)] run_map\<close>)
qed

lemma reads_binary:
  assumes a: "\<And>n. reads E n a ka (if op_level op = 3 then 4 else op_level op) d" and b: "\<And>n. reads E n b kb (Suc (op_level op)) d"
    and op: "op \<in> fst ` set op_table"
  shows "reads E n (EBinaryOp a op b) (ka @ [op_token op] @ kb) (op_level op) d"
proof (rule readsI)
  fix s k rest
  let ?c = "parse_rec E n" and ?s = "skip (length ka) s" and ?l = "op_level op"
  assume r: "reading s ((ka @ [op_token op] @ kb) @ k # rest)" and d: "d \<le> n" "ps_depth s + d \<le> MAX_EXPR_DEPTH" and st: "stops (margin ?l) k"
  have r0: "reading s (ka @ op_token op # kb @ k # rest)" using r by simp
  have r1: "reading ?s (op_token op # kb @ k # rest)" using reading_skip [OF r0] by simp
  have r2: "reading (skip (Suc 0) ?s) (kb @ k # rest)" using r1 by (rule reading_Cons) simp
  have st1: "stops (Suc ?l) k" using st by (rule stops_mono) (simp add: margin_def)
  have right: "level_parser ?c (Suc ?l) (skip (Suc 0) ?s) = Inr (b, skip (length kb) (skip (Suc 0) ?s))"
    by (rule reads_done [OF b r2]) (use d st1 in simp_all)
  note tok = op_token_stops [OF op]
  have left: "level_parser ?c (if ?l = 3 then 4 else ?l) s = level_loop ?c (if ?l = 3 then 4 else ?l) a ?s"
    by (rule readsD [OF a r0]) (use d tok(4,5) stops_mono [OF tok(1)] in \<open>auto simp: margin_def\<close>)
  have w: "p_while (op_token op) (\<lambda>a. p_map (g a) operand) a ?s = p_while (op_token op) (\<lambda>a. p_map (g a) operand) (g a b) (skip (Suc (length kb)) ?s)"
    if "operand = level_parser ?c (Suc ?l)" for g and operand :: "Expr parse"
    using run_while [OF r1 tok(2)] right that by simp
  from op show "level_parser ?c ?l s = level_loop ?c ?l (EBinaryOp a op b) (skip (length (ka @ [op_token op] @ kb)) s)"
  proof (cases rule: op_table_cases)
    case 1
    then show ?thesis using left w [of "parse_and_expr ?c" "\<lambda>x. EBinaryOp x BinOr"] by (simp add: level_parser_def level_loop_def)
  next
    case 2
    then show ?thesis using left w [of "parse_not_expr ?c" "\<lambda>x. EBinaryOp x BinAnd"] by (simp add: level_parser_def level_loop_def)
  next
    case 3
    have "level_parser ?c 4 s = Inr (a, ?s)" using left 3 level_loop_stops [OF r1, of 4] tok(1) by simp
    then have "parse_graph_expr ?c s = Inr (a, ?s)" by (simp add: level_parser_def)
    with right 3 tok show ?thesis
      by (simp add: level_parser_def level_loop_def parse_comparison_expr_def run_bind run_if [OF r1] run_bind_match [OF r1] run_kind [OF r1]
          run_advance [OF r1] run_map p_return_def)
  qed (use left right tok in \<open>simp_all add: level_parser_def level_loop_def run_binary [OF r1]\<close>)
qed


text \<open>The predicates of the comparison level share their first operand and the optional \<^verbatim>\<open>NOT\<close>.\<close>

lemma reads_predicate:
  assumes a: "\<And>n. reads E n a ka 4 d" and t: "t \<in> {TIn, TBetween, TLike}"
    and rest: "\<And>n s k rest. reading s (t # kt @ k # rest) \<Longrightarrow> d + 1 \<le> n \<Longrightarrow> ps_depth s + (d + 1) \<le> MAX_EXPR_DEPTH \<Longrightarrow> stops 3 k \<Longrightarrow>
      (if t = TIn then parse_in (parse_rec E n) a neg else if t = TBetween then parse_between (parse_rec E n) a neg
       else parse_like (parse_rec E n) a neg) (skip (Suc 0) s) = Inr (e, skip (Suc (length kt)) s)"
  shows "reads E n e (ka @ negation neg @ [t] @ kt) 3 (d + 1)"
proof (rule readsI)
  fix s k rest'
  let ?c = "parse_rec E n" and ?s = "skip (length ka) s" and ?q = "negation neg @ t # kt @ k # rest'"
  let ?s1 = "skip (length (negation neg)) ?s"
  assume r: "reading s ((ka @ negation neg @ [t] @ kt) @ k # rest')" and d: "d + 1 \<le> n" "ps_depth s + (d + 1) \<le> MAX_EXPR_DEPTH"
    and st: "stops (margin 3) k"
  have r0: "reading s (ka @ ?q)" using r by simp
  define k0 where "k0 = (if neg then TNot else t)"
  have k0: "stops 4 k0" "k0 \<noteq> TIs" using t by (auto simp: k0_def stops_def cont_table_def)
  obtain u where u: "?q = k0 # u" by (cases neg) (simp_all add: k0_def negation_def)
  have "level_parser ?c 4 s = Inr (a, ?s)" by (rule reads_done [OF a, of s k0 u n]) (use r0 u k0 d in auto)
  then have left: "parse_graph_expr ?c s = Inr (a, ?s)" by (simp add: level_parser_def)
  have r1: "reading ?s ?q" using reading_skip [OF r0] by simp
  then have rk: "reading ?s (k0 # u)" using u by simp
  have r2: "reading ?s1 (t # kt @ k # rest')" using reading_skip [OF r1] by simp
  have neg: "p_bind (match_token TNot) q ?s = q neg ?s1" for q :: "bool \<Rightarrow> Expr parse"
    using r1 t by (cases neg) (auto simp: run_bind_match negation_def)
  have "(if t = TIn then parse_in ?c a neg else if t = TBetween then parse_between ?c a neg else parse_like ?c a neg) (skip (Suc 0) ?s1)
      = Inr (e, skip (Suc (length kt)) ?s1)"
    by (rule rest [OF r2]) (use d st in \<open>simp_all add: margin_def\<close>)
  then show "level_parser ?c 3 s = level_loop ?c 3 e (skip (length (ka @ negation neg @ [t] @ kt)) s)"
    using t k0(2)
    by (auto simp: level_parser_def level_loop_def parse_comparison_expr_def run_bind [where p = "parse_graph_expr ?c", OF left] run_if [OF rk]
        neg run_if [OF r2] p_return_def add.assoc simp del: skip_skip) (simp_all add: add.assoc)
qed

lemma reads_is_null:
  assumes "\<And>n. reads E n a ka 4 d"
  shows "reads E n (EIsNull a neg) (ka @ [TIs] @ negation neg @ [TNull]) 3 d"
proof (rule readsI)
  fix s k rest
  let ?c = "parse_rec E n" and ?s = "skip (length ka) s"
  assume r: "reading s ((ka @ [TIs] @ negation neg @ [TNull]) @ k # rest)" and d: "d \<le> n" "ps_depth s + d \<le> MAX_EXPR_DEPTH"
  have r0: "reading s (ka @ TIs # negation neg @ TNull # k # rest)" using r by simp
  have "level_parser ?c 4 s = Inr (a, ?s)" by (rule reads_done [OF assms r0]) (use d in \<open>simp_all add: stops_def cont_table_def\<close>)
  then have left: "parse_graph_expr ?c s = Inr (a, ?s)" by (simp add: level_parser_def)
  have r1: "reading ?s (TIs # negation neg @ TNull # k # rest)" using reading_skip [OF r0] by simp
  have r2: "reading (skip (Suc 0) ?s) (negation neg @ TNull # k # rest)" using r1 by (rule reading_Cons) simp
  have r3: "reading (skip (length (negation neg)) (skip (Suc 0) ?s)) (TNull # k # rest)" using reading_skip [OF r2] by simp
  have neg: "p_bind (match_token TNot) q (skip (Suc 0) ?s) = q neg (skip (length (negation neg)) (skip (Suc 0) ?s))" for q :: "bool \<Rightarrow> Expr parse"
    using r2 by (cases neg) (auto simp: run_bind_match negation_def)
  show "level_parser ?c 3 s = level_loop ?c 3 (EIsNull a neg) (skip (length (ka @ [TIs] @ negation neg @ [TNull])) s)"
    by (simp add: level_parser_def level_loop_def parse_comparison_expr_def run_bind [where p = "parse_graph_expr ?c", OF left] run_if [OF r1]
        neg run_expect [OF r3] p_return_def add.assoc del: skip_skip) simp
qed


lemma reads_in_list:
  assumes "\<And>n. reads E n a ka 4 d" "\<And>n. list_all2 (\<lambda>e ks. reads E n e ks 0 d \<and> ks \<noteq> [] \<and> hd ks \<noteq> TSelect) es kss" "es \<noteq> []"
  shows "reads E n (EInList a es neg) (ka @ negation neg @ [TIn] @ TLParen # sep_commas kss @ [TRParen]) 3 (d + 1)"
proof (rule reads_predicate [OF assms(1)])
  fix n s k rest
  let ?c = "parse_rec E n" and ?m = "length (sep_commas kss)"
  assume r: "reading s (TIn # (TLParen # sep_commas kss @ [TRParen]) @ k # rest)" and d: "d + 1 \<le> n" "ps_depth s + (d + 1) \<le> MAX_EXPR_DEPTH"
  obtain n' where n: "n = Suc n'" using d by (cases n) auto
  have r1: "reading (skip (Suc 0) s) (TLParen # sep_commas kss @ TRParen # k # rest)" using reading_Cons [OF r] by simp
  have r2: "reading (skip (Suc (Suc 0)) s) (sep_commas kss @ TRParen # k # rest)" using reading_Cons [OF r1] by simp
  have r3: "reading (skip (Suc (Suc ?m)) s) (TRParen # k # rest)" using reading_skip [OF r2] by simp
  note l = assms(2) [of n']
  obtain e es' ks kss' where eq: "es = e # es'" "kss = ks # kss'" "ks \<noteq> []" "hd ks \<noteq> TSelect"
    using l assms(3) by (cases es; cases kss) auto
  then obtain k0 u where k0: "sep_commas kss @ TRParen # k # rest = k0 # u" "k0 \<noteq> TSelect" by (cases ks) auto
  have sel: "p_bind (check_keyword TSelect) q (skip (Suc (Suc 0)) s) = q False (skip (Suc (Suc 0)) s)" for q :: "bool \<Rightarrow> Expr parse"
    using r2 k0 by (simp add: run_check_keyword)
  have "parse_expr_list ?c (skip (Suc (Suc 0)) s) = Inr (es, skip ?m (skip (Suc (Suc 0)) s))"
    unfolding n by (rule run_expr_list [OF _ assms(3) _ r2]) (use l d n in \<open>auto elim!: list_all2_mono\<close>)
  then have "parse_in ?c a neg (skip (Suc 0) s) = Inr (EInList a es neg, skip (Suc (Suc (Suc ?m))) s)"
    by (simp add: parse_in_def run_expect [OF r1] sel run_bind run_expect [OF r3] p_return_def)
  then show "(if TIn = TIn then parse_in ?c a neg else if TIn = TBetween then parse_between ?c a neg else parse_like ?c a neg) (skip (Suc 0) s)
      = Inr (EInList a es neg, skip (Suc (length (TLParen # sep_commas kss @ [TRParen]))) s)" by simp
qed simp

lemma reads_between:
  assumes "\<And>n. reads E n a ka 4 d" "\<And>n. reads E n lo kl 4 d" "\<And>n. reads E n hi kh 4 d"
  shows "reads E n (EBetween a lo hi neg) (ka @ negation neg @ [TBetween] @ kl @ TAnd # kh) 3 (d + 1)"
proof (rule reads_predicate [OF assms(1)])
  fix n s k rest
  let ?c = "parse_rec E n"
  assume r: "reading s (TBetween # (kl @ TAnd # kh) @ k # rest)" and d: "d + 1 \<le> n" "ps_depth s + (d + 1) \<le> MAX_EXPR_DEPTH" and st: "stops 3 k"
  have r1: "reading (skip (Suc 0) s) (kl @ TAnd # kh @ k # rest)" using reading_Cons [OF r] by simp
  have r2: "reading (skip (Suc (length kl)) s) (TAnd # kh @ k # rest)" using reading_skip [OF r1] by simp
  have r3: "reading (skip (Suc (Suc (length kl))) s) (kh @ k # rest)" using reading_Cons [OF r2] by simp
  have "level_parser ?c 4 (skip (Suc 0) s) = Inr (lo, skip (length kl) (skip (Suc 0) s))"
    by (rule reads_done [OF assms(2) r1]) (use d in \<open>simp_all add: stops_def cont_table_def\<close>)
  moreover have "level_parser ?c 4 (skip (Suc (Suc (length kl))) s) = Inr (hi, skip (length kh) (skip (Suc (Suc (length kl))) s))"
    by (rule reads_done [OF assms(3) r3]) (use d stops_mono [OF st] in simp_all)
  ultimately have "parse_between ?c a neg (skip (Suc 0) s) = Inr (EBetween a lo hi neg, skip (Suc (Suc (length kl + length kh))) s)"
    by (simp add: level_parser_def parse_between_def run_bind run_expect [OF r2] run_map)
  then show "(if TBetween = TIn then parse_in ?c a neg else if TBetween = TBetween then parse_between ?c a neg else parse_like ?c a neg) (skip (Suc 0) s)
      = Inr (EBetween a lo hi neg, skip (Suc (length (kl @ TAnd # kh))) s)" by simp
qed simp

lemma reads_like:
  assumes "\<And>n. reads E n a ka 4 d" "\<And>n. reads E n p kp 4 d"
  shows "reads E n (ELike a p None neg) (ka @ negation neg @ [TLike] @ kp) 3 (d + 1)"
proof (rule reads_predicate [OF assms(1)])
  fix n s k rest
  let ?c = "parse_rec E n"
  assume r: "reading s (TLike # kp @ k # rest)" and d: "d + 1 \<le> n" "ps_depth s + (d + 1) \<le> MAX_EXPR_DEPTH" and st: "stops 3 k"
  have r1: "reading (skip (Suc 0) s) (kp @ k # rest)" using reading_Cons [OF r] by simp
  have r2: "reading (skip (Suc (length kp)) s) (k # rest)" using reading_skip [OF r1] by simp
  have "level_parser ?c 4 (skip (Suc 0) s) = Inr (p, skip (length kp) (skip (Suc 0) s))"
    by (rule reads_done [OF assms(2) r1]) (use d stops_mono [OF st] in simp_all)
  then have "parse_like ?c a neg (skip (Suc 0) s) = Inr (ELike a p None neg, skip (Suc (length kp)) s)"
    using stops_tokens(8) [OF st]
    by (simp add: level_parser_def parse_like_def run_bind p_optional_def run_map run_if [OF r2] p_return_def)
  then show "(if TLike = TIn then parse_in ?c a neg else if TLike = TBetween then parse_between ?c a neg else parse_like ?c a neg) (skip (Suc 0) s)
      = Inr (ELike a p None neg, skip (Suc (length kp)) s)" by simp
qed simp

subsection \<open>Every expression\<close>

lemma starts_append: "starts l ks \<Longrightarrow> starts l (ks @ xs)"
  by (auto simp: starts_def)

lemma starts_mono: "starts l ks \<Longrightarrow> l' \<le> l \<Longrightarrow> starts l' ks"
  by (auto simp: starts_def)

lemma starts_parens: "starts v ks \<Longrightarrow> starts l (parens (v < l) ks)"
  by (auto simp: parens_def starts_def unary_op_def)

lemma starts_predicate: "starts 4 ks \<Longrightarrow> starts l (parens (3 < l) (ks @ xs))"
  by (intro starts_parens starts_append) (erule starts_mono, simp)

lemma starts_print: "sx_ok x \<Longrightarrow> starts l (sx_print x l)"
proof (induction x arbitrary: l)
  case (SLiteral v)
  then show ?case by (cases v) (auto simp: starts_def literal_token_def unary_op_def)
next
  case (SBinary a op b)
  have "starts (op_level op) (sx_print a (if op_level op = 3 then 4 else op_level op))"
    using SBinary.IH(1) SBinary.prems by (intro starts_mono [OF SBinary.IH(1)]) auto
  then show ?case by (simp only: sx_print.simps) (intro starts_parens starts_append)
next
  case (SUnary op a)
  have "starts 7 ([unary_token op] @ sx_print a 7)" using SUnary.prems by (cases op) (auto simp: starts_def unary_token_def)
  then show ?case by (simp only: sx_print.simps) (rule starts_parens)
next
  case (SNot a)
  have "starts 2 ([TNot] @ sx_print a 2)" by (simp add: starts_def)
  then show ?case by (simp only: sx_print.simps) (rule starts_parens)
next
  case (SSubscript a i)
  then have "starts 8 (sx_print a 8)" by simp
  then have "starts l (sx_print a 8)" by (auto simp: starts_def)
  then show ?case by (simp only: sx_print.simps) (rule starts_append)
qed (simp_all add: starts_predicate, simp_all add: starts_def unary_op_def)


lemma foldr_max_le: "(m::nat) \<le> z \<Longrightarrow> m \<le> foldr max ys z" "y \<in> set ys \<Longrightarrow> y \<le> foldr max ys z"
  by (induction ys) auto

lemma sx_height_pos: "1 \<le> sx_height x"
  by (cases x) simp_all

lemma reads_items:
  assumes "\<And>y n. y \<in> set ys \<Longrightarrow> reads E n (sx_ast y) (sx_print y 0) 0 d" "list_all sx_ok ys"
  shows "list_all2 (\<lambda>e ks. reads E n e ks 0 d \<and> ks \<noteq> [] \<and> hd ks \<noteq> TSelect) (map sx_ast ys) (map (\<lambda>y. sx_print y 0) ys)"
    "list_all2 (\<lambda>e ks. reads E n e ks 0 d \<and> ks \<noteq> [] \<and> hd ks \<noteq> TRParen) (map sx_ast ys) (map (\<lambda>y. sx_print y 0) ys)"
proof -
  have "starts 0 (sx_print y 0)" if "y \<in> set ys" for y using that assms(2) by (intro starts_print) (simp add: list_all_iff)
  then show "list_all2 (\<lambda>e ks. reads E n e ks 0 d \<and> ks \<noteq> [] \<and> hd ks \<noteq> TSelect) (map sx_ast ys) (map (\<lambda>y. sx_print y 0) ys)"
    "list_all2 (\<lambda>e ks. reads E n e ks 0 d \<and> ks \<noteq> [] \<and> hd ks \<noteq> TRParen) (map sx_ast ys) (map (\<lambda>y. sx_print y 0) ys)"
    using assms(1) by (auto simp: list_all2_conv_all_nth starts_def)
qed

lemma reads_own:
  assumes "\<And>n. reads E n e ks v d" "d \<le> 3 * h - 3" "v \<le> 8" "l \<le> 8" "starts v ks" "1 \<le> h"
  shows "reads E n e (parens (v < l) ks) l (3 * h - 1)"
  by (rule reads_level) (use assms reads_weaken in blast)+

lemma reads_atom:
  assumes "\<And>n. reads E n e ks 8 d" "d \<le> 3 * h - 3" "l \<le> 8" "starts 8 ks" "1 \<le> h"
  shows "reads E n e ks l (3 * h - 1)"
  using reads_own [OF assms(1,2) order_refl assms(3-5)] assms(3) by (simp add: parens_def)

lemma sx_reads: "sx_ok x \<Longrightarrow> l \<le> 8 \<Longrightarrow> reads E n (sx_ast x) (sx_print x l) l (3 * sx_height x - 1)"
proof (induction x arbitrary: l n)
  case (SLiteral v)
  have "literal_operand (literal_token v) = Some (ELiteral v)" by (cases v) (simp_all add: literal_operand_def literal_token_def)
  then have "reads E n (ELiteral v) [literal_token v] l (3 * 1 - 1)"
    by (intro reads_atom [OF reads_literal]) (use SLiteral starts_print [of "SLiteral v" 8] in simp_all)
  then show ?case by simp
next
  case (SPlaceholder m)
  then have "reads E n (EPlaceholder m) [TPlaceholder m] l (3 * 1 - 1)"
    by (intro reads_atom [OF reads_literal]) (use starts_print [of "SPlaceholder m" 8] in \<open>simp_all add: literal_operand_def\<close>)
  then show ?case by simp
next
  case (SColumn c)
  then have "reads E n (EColumn (column_ref_new c)) [TIdentifier c] l (3 * 1 - 1)"
    by (intro reads_atom [OF reads_column]) (use starts_print [of "SColumn c" 8] in simp_all)
  then show ?case by simp
next
  case (SQualified t c)
  then have "reads E n (EColumn (column_ref_qualified t c)) [TIdentifier t, TDot, TIdentifier c] l (3 * 1 - 1)"
    by (intro reads_atom [OF reads_qualified]) (use starts_print [of "SQualified t c" 8] in simp_all)
  then show ?case by simp
next
  case (SBinary a op b)
  let ?h = "sx_height (SBinary a op b)" and ?la = "if op_level op = 3 then 4 else op_level op"
  have op: "op \<in> fst ` set op_table" "op_level op \<le> 6" using SBinary.prems op_token_stops(6) by auto
  have a: "reads E n (sx_ast a) (sx_print a ?la) ?la (3 * ?h - 4)" for n
    by (rule reads_weaken [OF SBinary.IH(1)]) (use SBinary.prems op in auto)
  have b: "reads E n (sx_ast b) (sx_print b (Suc (op_level op))) (Suc (op_level op)) (3 * ?h - 4)" for n
    by (rule reads_weaken [OF SBinary.IH(2)]) (use SBinary.prems op in auto)
  have st: "starts (op_level op) (sx_print (SBinary a op b) (op_level op))" using SBinary.prems(1) by (rule starts_print)
  have "reads E n (sx_ast (SBinary a op b)) (parens (op_level op < l) (sx_print a ?la @ [op_token op] @ sx_print b (Suc (op_level op)))) l (3 * ?h - 1)"
    unfolding sx_ast.simps by (rule reads_own [OF reads_binary [OF a b op(1)]]) (use op(2) SBinary.prems(2) st in \<open>simp_all add: parens_def\<close>)
  then show ?case by simp
next
  case (SNot a)
  have a: "reads E n (sx_ast a) (sx_print a 2) 2 (3 * sx_height a - 1)" for n using SNot by simp
  have "reads E n (sx_ast (SNot a)) (parens (2 < l) ([TNot] @ sx_print a 2)) l (3 * sx_height (SNot a) - 1)"
    unfolding sx_ast.simps by (rule reads_own [OF reads_not [OF a]]) (use SNot.prems sx_height_pos [of a] in \<open>simp_all add: starts_def\<close>)
  then show ?case by simp
next
  case (SUnary op a)
  have a: "reads E n (sx_ast a) (sx_print a 7) 7 (3 * sx_height a - 1)" for n using SUnary by simp
  have st: "starts 7 ([unary_token op] @ sx_print a 7)" using SUnary.prems by (cases op) (auto simp: starts_def unary_token_def)
  have "reads E n (sx_ast (SUnary op a)) (parens (7 < l) ([unary_token op] @ sx_print a 7)) l (3 * sx_height (SUnary op a) - 1)"
    unfolding sx_ast.simps by (rule reads_own [OF reads_unary [OF a]]) (use SUnary.prems sx_height_pos [of a] st in simp_all)
  then show ?case by simp
next
  case (SIsNull a neg)
  have a: "reads E n (sx_ast a) (sx_print a 4) 4 (3 * sx_height a - 1)" for n using SIsNull by simp
  have st: "starts 3 (sx_print a 4)" using SIsNull.prems by (intro starts_mono [OF starts_print]) simp_all
  have "reads E n (sx_ast (SIsNull a neg)) (parens (3 < l) (sx_print a 4 @ [TIs] @ negation neg @ [TNull])) l (3 * sx_height (SIsNull a neg) - 1)"
    unfolding sx_ast.simps by (rule reads_own [OF reads_is_null [OF a]]) (use SIsNull.prems sx_height_pos [of a] starts_append [OF st] in simp_all)
  then show ?case by simp
next
  case (SInList a x xs neg)
  let ?h = "sx_height (SInList a x xs neg)"
  have h: "sx_height y \<le> ?h - 1" if "y = a \<or> y = x \<or> y \<in> set xs" for y
    using that foldr_max_le [of "sx_height y"] by auto
  have d: "reads E n (sx_ast y) (sx_print y m) m (3 * ?h - 4)" if "y = a \<or> y = x \<or> y \<in> set xs" "m \<le> 4" for y m n
    by (rule reads_weaken [where d = "3 * sx_height y - 1"]) (use that SInList.IH SInList.prems h [OF that(1)] in \<open>auto simp: list_all_iff\<close>)
  have items: "list_all2 (\<lambda>e ks. reads E n e ks 0 (3 * ?h - 4) \<and> ks \<noteq> [] \<and> hd ks \<noteq> TSelect) (map sx_ast (x # xs)) (map (\<lambda>y. sx_print y 0) (x # xs))" for n
    by (rule reads_items) (use d SInList.prems in auto)
  have st: "starts 3 (sx_print a 4)" using SInList.prems by (intro starts_mono [OF starts_print]) simp_all
  have "reads E n (EInList (sx_ast a) (map sx_ast (x # xs)) neg)
      (parens (3 < l) (sx_print a 4 @ negation neg @ [TIn] @ TLParen # sep_commas (map (\<lambda>y. sx_print y 0) (x # xs)) @ [TRParen])) l (3 * ?h - 1)"
    by (rule reads_own [OF reads_in_list [OF d items]]) (use SInList.prems h [of a] sx_height_pos [of a] starts_append [OF st] in simp_all)
  then show ?case by simp
next
  case (SBetween a lo hi neg)
  let ?h = "sx_height (SBetween a lo hi neg)"
  have d: "reads E n (sx_ast y) (sx_print y 4) 4 (3 * ?h - 4)" if "y = a \<or> y = lo \<or> y = hi" for y n
    by (rule reads_weaken [where d = "3 * sx_height y - 1"]) (use that SBetween.IH SBetween.prems in auto)
  have st: "starts 3 (sx_print a 4)" using SBetween.prems by (intro starts_mono [OF starts_print]) simp_all
  have "reads E n (sx_ast (SBetween a lo hi neg)) (parens (3 < l) (sx_print a 4 @ negation neg @ [TBetween] @ sx_print lo 4 @ TAnd # sx_print hi 4)) l (3 * ?h - 1)"
    unfolding sx_ast.simps
    by (rule reads_own [OF reads_between [OF d d d]]) (use SBetween.prems sx_height_pos [of a] starts_append [OF st] in simp_all)
  then show ?case by simp
next
  case (SLike a p neg)
  let ?h = "sx_height (SLike a p neg)"
  have d: "reads E n (sx_ast y) (sx_print y 4) 4 (3 * ?h - 4)" if "y = a \<or> y = p" for y n
    by (rule reads_weaken [where d = "3 * sx_height y - 1"]) (use that SLike.IH SLike.prems in auto)
  have st: "starts 3 (sx_print a 4)" using SLike.prems by (intro starts_mono [OF starts_print]) simp_all
  have "reads E n (sx_ast (SLike a p neg)) (parens (3 < l) (sx_print a 4 @ negation neg @ [TLike] @ sx_print p 4)) l (3 * ?h - 1)"
    unfolding sx_ast.simps
    by (rule reads_own [OF reads_like [OF d d]]) (use SLike.prems sx_height_pos [of a] starts_append [OF st] in simp_all)
  then show ?case by simp
next
  case (SCall f args)
  let ?h = "sx_height (SCall f args)"
  have d: "reads E n (sx_ast y) (sx_print y 0) 0 (3 * ?h - 4)" if "y \<in> set args" for y n
    by (rule reads_weaken [where d = "3 * sx_height y - 1"])
      (use that SCall.IH SCall.prems foldr_max_le(2) [of "sx_height y" "map sx_height args" 1] in \<open>auto simp: list_all_iff\<close>)
  have items: "list_all2 (\<lambda>e ks. reads E n e ks 0 (3 * ?h - 4) \<and> ks \<noteq> [] \<and> hd ks \<noteq> TRParen) (map sx_ast args) (map (\<lambda>y. sx_print y 0) args)" for n
    by (rule reads_items) (use d SCall.prems in auto)
  have "reads E n (sx_ast (SCall f args)) ([TIdentifier f, TLParen] @ sep_commas (map (\<lambda>y. sx_print y 0) args) @ [TRParen]) l (3 * ?h - 1)"
    unfolding sx_ast.simps
    by (intro reads_atom [OF reads_call [OF items]]) (use SCall.prems starts_print [of "SCall f args" 8] foldr_max_le(1) [of 1 1 "map sx_height args"] in simp_all)
  then show ?case by simp
next
  case (SSubscript a i)
  let ?h = "sx_height (SSubscript a i)"
  have a: "reads E n (sx_ast a) (sx_print a 8) 8 (3 * ?h - 4)" for n
    by (rule reads_weaken [OF SSubscript.IH(1)]) (use SSubscript.prems in auto)
  have i: "reads E n (sx_ast i) (sx_print i 0) 0 (3 * ?h - 4)" for n
    by (rule reads_weaken [OF SSubscript.IH(2)]) (use SSubscript.prems in auto)
  have "sx_print i 0 \<noteq> []" using starts_print [of i 0] SSubscript.prems by (simp add: starts_def)
  then have "reads E n (sx_ast (SSubscript a i)) (sx_print a 8 @ [TLBracket] @ sx_print i 0 @ [TRBracket]) l (3 * ?h - 1)"
    unfolding sx_ast.simps
    by (intro reads_atom [OF reads_subscript [OF a i]]) (use SSubscript.prems sx_height_pos [of a] starts_print [of "SSubscript a i" 8] in simp_all)
  then show ?case by simp
qed


text \<open>
  C30: the expression grammar.  An expression printed with the parentheses that precedence (\<^verbatim>\<open>OR\<close>, \<^verbatim>\<open>AND\<close>, \<^verbatim>\<open>NOT\<close>,
  comparisons and predicates, graph steps, sums, products, signs, subscripts) and left associativity require, and no others, is read back by \<^verbatim>\<open>parse_expr\<close> as
  the tree it was printed from, up to the token that ends it, as long as the nesting at the start plus three times the height of the tree is at most 256
  (each level costs at most three nested calls; the operators of a left-associative chain are levels of the tree).
\<close>

theorem expression_roundtrip:
  assumes "sx_ok x" "3 * sx_height x \<le> n" "ps_wf s" "ps_depth s + 3 * sx_height x \<le> MAX_EXPR_DEPTH"
    "map tk_kind (drop (ps_pos s) (ps_tokens s)) = sx_print x 0 @ k # rest" "stops 0 k"
  shows "parse_expr (parse_rec E n) s = Inr (sx_ast x, s\<lparr>ps_pos := ps_pos s + length (sx_print x 0)\<rparr>)"
proof -
  have "reading s (sx_print x 0 @ k # rest)" using assms(3,5) by (simp add: reading_def)
  from run_expr [OF sx_reads [OF assms(1)] this] show ?thesis
    using assms(2,4,6) sx_height_pos [of x] by (simp add: skip_def)
qed


definition demo_tokens :: "TokenKind list \<Rightarrow> Token list" where
  "demo_tokens ks = map (\<lambda>k. token_new k span_default []) ks"

definition demo_expr :: sx where
  "demo_expr =
     SBinary (SNot (SBinary (SBinary (SColumn ''a'') BinOr (SColumn ''b'')) BinAnd (SIsNull (SColumn ''c'') True))) BinOr
       (SBinary (SBinary (SLiteral (LitInteger 1)) BinMinus (SBinary (SColumn ''x'') BinPlus (SColumn ''y''))) BinLt (SCall ''f'' [SColumn ''z'']))"

lemma demo_kinds: "map tk_kind (demo_tokens ks) = ks"
  by (simp add: demo_tokens_def token_new_def comp_def)

theorem expression_roundtrip_witness:
  "sx_print demo_expr 0 =
     [TNot, TLParen, TLParen, TIdentifier ''a'', TOr, TIdentifier ''b'', TRParen, TAnd, TIdentifier ''c'', TIs, TNot, TNull, TRParen, TOr,
      TInteger 1, TMinus, TLParen, TIdentifier ''x'', TPlus, TIdentifier ''y'', TRParen, TLt, TIdentifier ''f'', TLParen, TIdentifier ''z'', TRParen] \<and>
   parse_expr (parse_rec demo_std 15) (parser_new (demo_tokens (sx_print demo_expr 0 @ [TEof]))) =
     Inr (sx_ast demo_expr, parser_new (demo_tokens (sx_print demo_expr 0 @ [TEof]))\<lparr>ps_pos := length (sx_print demo_expr 0)\<rparr>)"
proof
  show "sx_print demo_expr 0 =
     [TNot, TLParen, TLParen, TIdentifier ''a'', TOr, TIdentifier ''b'', TRParen, TAnd, TIdentifier ''c'', TIs, TNot, TNull, TRParen, TOr,
      TInteger 1, TMinus, TLParen, TIdentifier ''x'', TPlus, TIdentifier ''y'', TRParen, TLt, TIdentifier ''f'', TLParen, TIdentifier ''z'', TRParen]"
    by code_simp
  have h: "sx_ok demo_expr" "3 * sx_height demo_expr \<le> 15" by code_simp+
  let ?s = "parser_new (demo_tokens (sx_print demo_expr 0 @ [TEof]))"
  have w: "ps_wf ?s" "map tk_kind (drop (ps_pos ?s) (ps_tokens ?s)) = sx_print demo_expr 0 @ TEof # []" "ps_depth ?s = 0"
    by (simp_all add: ps_wf_def parser_new_def demo_kinds) (simp_all add: demo_tokens_def token_new_def)
  show "parse_expr (parse_rec demo_std 15) ?s = Inr (sx_ast demo_expr, ?s\<lparr>ps_pos := length (sx_print demo_expr 0)\<rparr>)"
    using expression_roundtrip [OF h w(1) _ w(2) stops_close(5), of demo_std] h(2) w(3) by (simp add: MAX_EXPR_DEPTH_def parser_new_def)
qed

end
