(* ===== verification/Sql_Statements.thy ===== *)
theory Sql_Statements
  imports Sql_Grammar
begin

text \<open>
  Whole statements: what \<^verbatim>\<open>Parser::parse\<close> makes of \<^verbatim>\<open>DELETE\<close>, what it does with the tokens behind the statement it
  recognises, and the recursion that its depth counter does not see.
\<close>

subsection \<open>DELETE\<close>

lemma foldr_max_bound: "(z::nat) \<le> b \<Longrightarrow> (\<And>y. y \<in> set ys \<Longrightarrow> y \<le> b) \<Longrightarrow> foldr max ys z \<le> b"
  by (induction ys) auto

lemma length_sep_commas: "ks \<in> set kss \<Longrightarrow> length ks \<le> length (sep_commas kss)"
  by (cases kss) (auto simp: length_concat intro: member_le_sum_list order_trans [OF le_SucI] dest!: split_list)

lemma length_parens: "length ks \<le> length (parens b ks)"
  by (simp add: parens_def)

lemma sx_height_length: "sx_height x \<le> length (sx_print x l)"
proof (induction x arbitrary: l)
  case (SInList a x xs neg)
  let ?p = "\<lambda>y. sx_print y 0"
  define L where "L = length (sep_commas (map ?p (x # xs)))"
  have item: "sx_height y \<le> L" if "y \<in> set (x # xs)" for y
    unfolding L_def by (rule order_trans [OF _ length_sep_commas [of "?p y"]]) (use that SInList.IH(2,3) in auto)
  have "foldr max (map sx_height xs) (max (sx_height a) (sx_height x)) \<le> length (sx_print a 4) + L"
    using item SInList.IH(1) [of 4] by (intro foldr_max_bound) (auto intro: trans_le_add1 trans_le_add2)
  then show ?case by (auto simp: L_def intro!: order_trans [OF _ length_parens])
next
  case (SCall f args)
  let ?p = "\<lambda>y. sx_print y 0"
  have "sx_height y \<le> length (sep_commas (map ?p args))" if "y \<in> set args" for y
    by (rule order_trans [OF _ length_sep_commas [of "?p y"]]) (use that SCall.IH in auto)
  then have "foldr max (map sx_height args) 1 \<le> 1 + length (sep_commas (map ?p args))"
    by (intro foldr_max_bound) (auto intro: le_SucI)
  then show ?case by simp
qed (auto intro!: order_trans [OF _ length_parens], (blast intro: le_SucI trans_le_add1 trans_le_add2)+)


lemma parser_new_reading:
  assumes "map tk_kind ts = ks @ [TEof]"
  shows "reading (parser_new ts) (ks @ [TEof])"
proof -
  have ne: "ts \<noteq> []" using assms by auto
  then have "tk_kind (last ts) = last (map tk_kind ts)" by (simp add: last_map)
  with ne assms show ?thesis by (simp add: reading_def ps_wf_def parser_new_def MAX_EXPR_DEPTH_def)
qed

lemma run_span: "reading s ks \<Longrightarrow> p_bind current_span q s = q (tk_span (ps_tokens s ! ps_pos s)) s"
  by (simp add: p_bind_def current_span_wf reading_wf)

lemma run_optional:
  assumes "reading s (k # ks)" "k' \<noteq> TEof"
  shows "p_optional k' p s = (if discriminant k = discriminant k' then p_map Some p (skip (Suc 0) s) else Inr (None, s))"
  using assms by (simp add: p_optional_def run_if p_return_def)

text \<open>The common beginning of \<^verbatim>\<open>DELETE FROM t\<close>.\<close>

lemma run_delete:
  assumes "reading s (TDelete # TFrom # TIdentifier t # k # ks)" "k \<noteq> TDot" "k \<noteq> TAs"
    and where_run: "p_optional TWhere (pv_expr c) (skip 3 s) = Inr (w, s')" and s': "ps_wf s'"
  shows "\<exists>d. parse_statement c s = Inr (StDelete d, s') \<and> on_parts (del_table d) = [t] \<and> del_alias d = None \<and> del_where d = w"
proof -
  have r1: "reading (skip (Suc 0) s) (TFrom # TIdentifier t # k # ks)" using assms(1) by (rule reading_Cons) simp
  have r2: "reading (skip (Suc (Suc 0)) s) (TIdentifier t # k # ks)" using reading_Cons [OF r1] by simp
  have r3: "reading (skip (Suc (Suc (Suc 0))) s) (k # ks)" using reading_Cons [OF r2] by simp
  have n: "parse_object_name (skip (Suc (Suc 0)) s) = Inr (object_name_new t, skip (Suc (Suc (Suc 0))) s)"
    using run_object_name [OF r2 assms(2)] by simp
  have al: "parse_as_alias (skip (Suc (Suc (Suc 0))) s) = Inr (None, skip (Suc (Suc (Suc 0))) s)"
    using assms(3) by (simp add: parse_as_alias_def run_optional [OF r3])
  have sp: "current_span s' = Inr (tk_span (ps_tokens s' ! ps_pos s'), s')" using s' by (rule current_span_wf)
  have e: "expect E' k' m u = Inr (ps_tokens u ! ps_pos u, skip (Suc 0) u)" if "reading u (k' # us)" "k' \<noteq> TEof" for E' k' m u us
    using that by (simp add: expect_def check_def p_map_def p_bind_def p_return_def peek_kind_wf reading_wf reading_kind ps_advance_wf bump_skip)
  show ?thesis
    using where_run assms(1) r1 n al sp
    by (simp add: parse_statement_def run_kind p_map_def parse_delete_def p_bind_def [where p = "parse_delete c"]
        run_span run_bind e p_return_def object_name_new_def numeral_3_eq_3)
qed


text \<open>
  \<^verbatim>\<open>DELETE FROM t WHERE x\<close>.  The statement is read whole, with the table and exactly the condition that was
  printed, and the parser stops at the end of the text.
\<close>

lemma delete_where_parsed:
  assumes "map tk_kind ts = [TDelete, TFrom, TIdentifier t, TWhere] @ sx_print x 0 @ [TEof]" "sx_ok x" "3 * sx_height x \<le> MAX_EXPR_DEPTH"
  shows "\<exists>d s'. parse_statement (parse_rec E (3 * length ts)) (parser_new ts) = Inr (StDelete d, s') \<and>
    on_parts (del_table d) = [t] \<and> del_where d = Some (sx_ast x) \<and> ps_left s' = 0"
proof -
  let ?s = "parser_new ts" and ?p = "sx_print x 0"
  have len: "length ts = length ?p + 5" using arg_cong [OF assms(1), of length] by simp
  have r: "reading ?s (TDelete # TFrom # TIdentifier t # TWhere # ?p @ [TEof])" using parser_new_reading [of ts "[TDelete, TFrom, TIdentifier t, TWhere] @ ?p"] assms(1) by simp
  have r3: "reading (skip 3 ?s) (TWhere # ?p @ [TEof])" using reading_skip [of ?s "[TDelete, TFrom, TIdentifier t]"] r by (simp add: numeral_3_eq_3)
  have r4: "reading (skip 4 ?s) (?p @ [TEof])" using reading_Cons [OF r3] by simp
  have r5: "reading (skip (4 + length ?p) ?s) [TEof]" using reading_skip [OF r4] by simp
  have "sx_height x \<le> length ?p" by (rule sx_height_length)
  then have n: "3 * length ts = Suc (3 * length ts - 1)" "3 * sx_height x \<le> 3 * length ts - 1" using len by linarith+
  have "parse_expr (parse_rec E (3 * length ts - 1)) (skip 4 ?s) = Inr (sx_ast x, skip (length ?p) (skip 4 ?s))"
    by (rule run_expr [OF sx_reads [OF assms(2)] r4]) (use n(2) assms(3) sx_height_pos [of x] in \<open>simp_all add: parser_new_def\<close>)
  then have "p_optional TWhere (pv_expr (parse_rec E (3 * length ts))) (skip 3 ?s) = Inr (Some (sx_ast x), skip (4 + length ?p) ?s)"
    by (subst n(1)) (simp add: run_optional [OF r3] run_map add.commute)
  from run_delete [OF r _ _ this reading_wf [OF r5]]
  obtain d where "parse_statement (parse_rec E (3 * length ts)) ?s = Inr (StDelete d, skip (4 + length ?p) ?s)"
    "on_parts (del_table d) = [t]" "del_where d = Some (sx_ast x)" by auto
  moreover have "ps_left (skip (4 + length ?p) ?s) = 0" using len by (simp add: ps_left_def skip_def parser_new_def)
  ultimately show ?thesis by blast
qed

text \<open>
  an alias without \<^verbatim>\<open>AS\<close> loses the condition.  \<^verbatim>\<open>DELETE FROM t u \<dots>\<close>, where the alias is the second identifier, is accepted
  whatever follows, as a \<^verbatim>\<open>DELETE\<close> of \<open>t\<close> without a condition: \<^verbatim>\<open>Parser::parse\<close> does not check that it has read the whole text, so the
  rest, a \<^verbatim>\<open>WHERE\<close> clause included, is ignored.
\<close>

lemma delete_alias_drops_where:
  assumes "map tk_kind ts = [TDelete, TFrom, TIdentifier t, TIdentifier u] @ ks @ [TEof]"
  shows "\<exists>d s'. parse_statement c (parser_new ts) = Inr (StDelete d, s') \<and> on_parts (del_table d) = [t] \<and> del_where d = None \<and>
    ps_left s' = length ks + 1"
proof -
  let ?s = "parser_new ts"
  have len: "length ts = length ks + 5" using arg_cong [OF assms, of length] by simp
  have r: "reading ?s (TDelete # TFrom # TIdentifier t # TIdentifier u # ks @ [TEof])"
    using parser_new_reading [of ts "[TDelete, TFrom, TIdentifier t, TIdentifier u] @ ks"] assms by simp
  have r3: "reading (skip 3 ?s) (TIdentifier u # ks @ [TEof])" using reading_skip [of ?s "[TDelete, TFrom, TIdentifier t]"] r by (simp add: numeral_3_eq_3)
  have "p_optional TWhere (pv_expr c) (skip 3 ?s) = Inr (None, skip 3 ?s)" by (simp add: run_optional [OF r3])
  from run_delete [OF r _ _ this reading_wf [OF r3]]
  obtain d where "parse_statement c ?s = Inr (StDelete d, skip 3 ?s)" "on_parts (del_table d) = [t]" "del_where d = None" by auto
  moreover have "ps_left (skip 3 ?s) = length ks + 1" using len by (simp add: ps_left_def skip_def parser_new_def)
  ultimately show ?thesis by blast
qed

subsection \<open>Recursion outside the depth counter\<close>

text \<open>\<^verbatim>\<open>a ->> a ->> \<dots>\<close> with \<open>n\<close> operators, and the tree it becomes.\<close>

definition json_tokens :: "string \<Rightarrow> nat \<Rightarrow> TokenKind list" where
  "json_tokens a n = concat (replicate n [TIdentifier a, TDoubleArrow]) @ [TIdentifier a]"

primrec json_tree :: "string \<Rightarrow> nat \<Rightarrow> Expr" where
  "json_tree a 0 = EColumn (column_ref_new a)"
| "json_tree a (Suc n) = EJsonAccess (EColumn (column_ref_new a)) (json_tree a n) True"

lemma json_tokens_Suc: "json_tokens a (Suc n) = TIdentifier a # TDoubleArrow # json_tokens a n"
  by (simp add: json_tokens_def)

lemma json_tokens_cons: "\<exists>ks. json_tokens a n = TIdentifier a # ks"
  by (cases n) (simp_all add: json_tokens_def)

lemma length_json_tokens: "length (json_tokens a n) = 2 * n + 1"
  by (induction n) (simp_all add: json_tokens_Suc, simp add: json_tokens_def)

lemma run_column_operand:
  assumes "reading s (TIdentifier a # k # ks)" "k \<noteq> TDot" "k \<noteq> TLParen"
  shows "parse_operand (parse_rec E m) s = Inr (EColumn (column_ref_new a), skip (Suc 0) s)"
  using run_object_name [OF assms(1,2)] reading_Cons [OF assms(1)] assms(3)
  by (simp add: operand_identifier [OF assms(1)] parse_identifier_or_function_def run_bind run_if object_name_new_def p_return_def)

lemma json_primary:
  assumes "reading s (json_tokens a n @ k # rest)" "stops 8 k" "stops 9 k"
  shows "parse_primary_expr (parse_rec E m) s = (if n \<le> m then Inr (json_tree a n, skip (2 * n + 1) s) else Inl Unbounded)"
  using assms(1)
proof (induction n arbitrary: s m)
  case 0
  then have r: "reading s (TIdentifier a # k # rest)" by (simp add: json_tokens_def)
  show ?case
    using run_column_operand [OF r] stops_tokens(13,14) [OF assms(3)] run_postfix_stop [OF reading_Cons [OF r] assms(2)]
    by (simp add: parse_primary_expr_def run_bind)
next
  case (Suc n)
  have r: "reading s (TIdentifier a # TDoubleArrow # json_tokens a n @ k # rest)" using Suc.prems by (simp add: json_tokens_Suc)
  have r1: "reading (skip (Suc 0) s) (TDoubleArrow # json_tokens a n @ k # rest)" using r by (rule reading_Cons) simp
  have r2: "reading (skip (Suc (Suc 0)) s) (json_tokens a n @ k # rest)" using reading_Cons [OF r1] by simp
  have r3: "reading (skip (2 * Suc n + 1) s) (k # rest)" using reading_skip [OF r2] by (simp add: length_json_tokens)
  have op: "parse_primary_expr (parse_rec E m) s = parse_postfix_expr (parse_rec E m) (EColumn (column_ref_new a)) (skip (Suc 0) s)"
    using run_column_operand [OF r] by (simp add: parse_primary_expr_def run_bind)
  show ?case
  proof (cases m)
    case 0
    then show ?thesis unfolding op parse_postfix_expr_def
      by (subst p_loop.simps) (simp add: run_if [OF r1] p_map_def p_bind_def parse_rec.simps)
  next
    case (Suc m')
    note IH = Suc.IH [OF r2, of m']
    show ?thesis
    proof (cases "n \<le> m'")
      case False
      then show ?thesis using IH \<open>m = Suc m'\<close> unfolding op parse_postfix_expr_def
        by (subst p_loop.simps) (simp add: run_if [OF r1] p_map_def p_bind_def)
    next
      case True
      have "parse_postfix_expr (parse_rec E m) (EColumn (column_ref_new a)) (skip (Suc 0) s) =
          parse_postfix_expr (parse_rec E m) (json_tree a (Suc n)) (skip (2 * n + 2) (skip (Suc 0) s))"
        unfolding parse_postfix_expr_def
        by (rule run_loop) (use IH True \<open>m = Suc m'\<close> reading_wf [OF r3] in \<open>simp_all add: run_if [OF r1] run_map\<close>)
      with op run_postfix_stop [OF r3 assms(2)] True \<open>m = Suc m'\<close> show ?thesis by simp
    qed
  qed
qed


lemma reads_json:
  assumes "n \<le> m"
  shows "reads E m (json_tree a n) (json_tokens a n) 0 1"
proof -
  obtain ks where ks: "json_tokens a n = TIdentifier a # ks" using json_tokens_cons by blast
  have "length ks = 2 * n" using length_json_tokens [of a n] ks by simp
  note ks = ks this
  have "reads E m (json_tree a n) (json_tokens a n) 7 0"
  proof (rule readsI)
    fix s k rest
    assume r: "reading s (json_tokens a n @ k # rest)" and st: "stops (margin 7) k"
    have "stops 8 k" "stops 9 k" using stops_mono [OF st] by (simp_all add: margin_def)
    then show "level_parser (parse_rec E m) 7 s = level_loop (parse_rec E m) 7 (json_tree a n) (skip (length (json_tokens a n)) s)"
      using r json_primary [OF r] assms
      by (simp add: level_parser_def level_loop_def parse_unary_expr_def ks run_kind unary_op_def p_return_def length_json_tokens)
  qed
  from reads_lower [OF this, of 0] show ?thesis by (simp add: ks)
qed

text \<open>
  chains of \<^verbatim>\<open>->>\<close> nest without a limit, to the right.  The tokens of \<^verbatim>\<open>a ->> a ->> \<dots> ->> a\<close> with any number \<open>n\<close> of operators are
  accepted and give a tree in which every operator is the right operand of the one before; the depth counter stays at its
  start, and the recursion is \<open>n\<close> calls deep: a parser that may nest fewer of them than \<open>n\<close> does not get through.  The limit
  of 256 that the comment on \<^verbatim>\<open>MAX_EXPR_DEPTH\<close> promises does not hold for this chain.
\<close>

lemma json_chain_unlimited:
  assumes "map tk_kind ts = json_tokens a n @ [TEof]"
  shows "parse_expr (parse_rec E (n + 1)) (parser_new ts) = Inr (json_tree a n, parser_new ts\<lparr>ps_pos := 2 * n + 1\<rparr>) \<and>
    (\<forall>m < n. parse_primary_expr (parse_rec E m) (parser_new ts) = Inl Unbounded)"
proof -
  have r: "reading (parser_new ts) (json_tokens a n @ TEof # [])" using parser_new_reading [OF assms] by simp
  have "parse_expr (parse_rec E (n + 1)) (parser_new ts) = Inr (json_tree a n, skip (length (json_tokens a n)) (parser_new ts))"
    by (rule run_expr [OF reads_json r]) (simp_all add: parser_new_def MAX_EXPR_DEPTH_def)
  moreover have "parse_primary_expr (parse_rec E m) (parser_new ts) = Inl Unbounded" if "m < n" for m
    using json_primary [OF r, of E m] that by simp
  ultimately show ?thesis by (simp add: length_json_tokens skip_def parser_new_def)
qed

end
