(* ===== verification/Sql_Execution.thy ===== *)
theory Sql_Execution
  imports Sql_Executor Sql_Statements "HOL-Library.Multiset"
begin

text \<open>
  What the SQL executor guarantees: which rows a statement touches, what it leaves alone, in which order a query returns its rows,
  and that every text is answered.
\<close>

subsection \<open>Evaluation always answers\<close>

definition division_panic :: "sql_failure \<Rightarrow> bool" where
  "division_panic f \<longleftrightarrow>
     f = SqlPanic ''attempt to divide with overflow'' \<or> f = SqlPanic ''attempt to calculate the remainder with overflow''"

text \<open>The failures of an expression: an error value, or the overflow of a division.\<close>

definition tame :: "'a sql \<Rightarrow> bool" where
  "tame r \<longleftrightarrow> (case r of Inl (SqlFail e) \<Rightarrow> True | Inl f \<Rightarrow> division_panic f | Inr x \<Rightarrow> True)"

lemma tame_Inr [simp]: "tame (Inr x)"
  by (simp add: tame_def)

lemma tame_SqlFail [simp]: "tame (Inl (SqlFail e))"
  by (simp add: tame_def)

lemma tame_bind [intro!]: "tame r \<Longrightarrow> (\<And>x. r = Inr x \<Longrightarrow> tame (f x)) \<Longrightarrow> tame (sql_bind r f)"
  by (cases r) (auto simp: tame_def split: sql_failure.splits)

lemma tame_map [simp]: "tame (map_sum id g r) \<longleftrightarrow> tame r"
  by (cases r) (simp_all add: tame_def)

lemma tame_division [simp]: "tame (i64_div a b)" "tame (i64_rem a b)"
  by (simp_all add: i64_div_def i64_rem_def tame_def division_panic_def)

lemma tame_arithmetic: "(\<And>a b. tame (iop a b)) \<Longrightarrow> tame (arithmetic_op E iop fop l r)"
  by (simp add: arithmetic_op_def split: SochValue.split)

lemma tame_binary_op [simp]: "tame (evaluate_binary_op E l op r)"
  by (cases op)
    (simp_all add: evaluate_binary_op_def tame_arithmetic sql_and_def sql_or_def sql_concat_def split: SochValue.split bool.split)

lemma tame_unary_op [simp]: "tame (evaluate_unary_op op v)"
  by (cases op; cases v) simp_all

lemma tame_like [simp]: "tame (like_value v p n)"
  by (simp add: like_value_def like_match_def like_match_chars_correct split: SochValue.split)

lemma tame_in_list: "(\<And>r. r \<in> set rs \<Longrightarrow> tame r) \<Longrightarrow> tame (in_list_loop E v rs)"
  by (induction rs) auto

lemma tame_coalesce: "(\<And>r. r \<in> set rs \<Longrightarrow> tame r) \<Longrightarrow> tame (coalesce_loop rs)"
  by (induction rs) auto

lemma tame_case:
  assumes "\<And>w r. (w, r) \<in> set cs \<Longrightarrow> tame w \<and> tame r" "\<And>r. els = Some r \<Longrightarrow> tame r"
  shows "tame (case_loop hit cs els)"
  using assms(1)
proof (induction cs)
  case Nil
  then show ?case using assms(2) by (auto split: option.split)
next
  case (Cons c cs)
  obtain w r where c: "c = (w, r)" by fastforce
  with Cons have "tame w" "tame r" "tame (case_loop hit cs els)" by auto
  with c show ?case by auto
qed

lemma tame_one_argument:
  "(\<And>r. r \<in> set args \<Longrightarrow> tame r) \<Longrightarrow> (\<And>v. tame (f v)) \<Longrightarrow> tame (one_argument n args f)"
  by (auto simp: one_argument_def)

lemma tame_functions [simp]: "tame (fn_abs v)" "tame (fn_length v)" "tame (fn_text n f v)" "tame (fn_substr v s l)"
  by (simp_all add: fn_abs_def fn_length_def fn_text_def fn_substr_def Let_def split: SochValue.split option.split)

lemma tame_evaluate_function:
  assumes "\<And>r. r \<in> set (fc_args func) \<Longrightarrow> tame r"
  shows "tame (evaluate_function E func)"
proof -
  have "tame (fc_args func ! 0)" "tame (fc_args func ! 1)" if "\<not> length (fc_args func) < 2"
    by (rule assms, rule nth_mem, use that in linarith)+
  moreover have "tame (fc_args func ! 2)" if "length (fc_args func) = 3" using that assms by simp
  ultimately show ?thesis unfolding evaluate_function_def Let_def
    using assms by (auto simp: tame_coalesce tame_one_argument)
qed

lemma tame_evaluate: "tame (evaluate_expr E row params e)"
proof (induction e rule: Expr.induct [where ?P2.0 = "\<lambda>_. True" and ?P3.0 = "\<lambda>_. True"])
  case (EFunction x)
  then show ?case by (cases x) (auto intro!: tame_evaluate_function)
next
  case (EInList e l n)
  then show ?case by (auto intro!: tame_in_list)
next
  case (ECase x1 x2 x3)
  let ?ev = "evaluate_expr E row params"
  have cs: "tame w \<and> tame r" if "(w, r) \<in> set (map (map_prod ?ev ?ev) x2)" for w r
    using that ECase.IH(2,3) by fastforce
  have els: "tame r" if "map_option ?ev x3 = Some r" for r
    using that ECase.IH(4) by auto
  show ?case
    using ECase.IH(1) by (cases x1) (auto simp: Let_def intro!: tame_case [OF cs els])
qed (auto simp: column_value_def placeholder_value_def unsupported_def split: option.split)

lemma tame_evaluate_where: "tame (evaluate_where E row params e)"
  by (auto simp: evaluate_where_def tame_evaluate split: SochValue.split)

lemma tame_where: "tame (where_matches E row params w)"
  by (simp add: where_matches_def tame_evaluate_where split: option.split)

subsection \<open>DELETE\<close>

text \<open>A condition that evaluates on every row of a table, and the rows it selects.\<close>

definition decides :: "sql_eval_std \<Rightarrow> SochValue list \<Rightarrow> TableData \<Rightarrow> Expr option \<Rightarrow> (SochValue list \<Rightarrow> bool) \<Rightarrow> bool" where
  "decides E params t w P \<longleftrightarrow> (\<forall>row \<in> set (td_rows t). where_matches E (row_map t row) params w = Inr (P row))"

lemma decides_no_condition: "decides E params t None (\<lambda>_. True)"
  by (simp add: decides_def where_matches_def)

lemma collect_deletes_exact:
  assumes "\<forall>row \<in> set rows. where_matches E (row_map t row) params w = Inr (P row)"
  shows "collect_deletes E params t w k rows = Inr (map fst (filter (P \<circ> snd) (enumerate k rows)))"
  using assms by (induction rows arbitrary: k) auto

lemma remove_in_reverse:
  "foldl (\<lambda>rows i. vec_remove i rows) (pre @ rows) (rev (map fst (filter (P \<circ> snd) (enumerate (length pre) rows)))) =
     pre @ filter (\<lambda>r. \<not> P r) rows"
proof (induction rows arbitrary: pre)
  case (Cons r rows)
  from Cons.IH [of "pre @ [r]"] show ?case by (simp add: vec_remove_def)
qed simp

lemma length_filter_enumerate: "length (filter (P \<circ> snd) (enumerate k rows)) = length (filter P rows)"
  by (induction rows arbitrary: k) auto

lemma execute_delete_exact:
  assumes "find_table (object_name_name (del_table d)) ex = Inr t" "decides E params t (del_where d) P"
  shows "execute_delete E d params ex =
    (set_rows (object_name_name (del_table d)) t (filter (\<lambda>row. \<not> P row) (td_rows t)) ex, Inr (ResRowsAffected (length (filter P (td_rows t)))))"
  using assms(1) collect_deletes_exact [OF assms(2) [unfolded decides_def]] remove_in_reverse [of "[]" "td_rows t" P]
  by (simp add: execute_delete_def length_filter_enumerate)

subsection \<open>UPDATE\<close>

lemma index_of_SomeD: "index_of x xs = Some i \<Longrightarrow> i < length xs \<and> xs ! i = x"
  by (induction xs arbitrary: i) (auto split: if_splits)

lemma index_of_None: "index_of x xs = None \<longleftrightarrow> x \<notin> set xs"
  by (induction xs) auto

lemma assign_columns_wide:
  "list_all (\<lambda>(c, v). c < length row) us \<Longrightarrow> assign_columns row us = (foldl (\<lambda>r (c, v). r[c := v]) row us, True)"
  by (induction us arbitrary: row) auto

lemma length_assign_columns [simp]: "length (fst (assign_columns row us)) = length row"
  by (induction row us rule: assign_columns.induct) auto

lemma row_updates_wide: "row_updates E params t row as = Inr us \<Longrightarrow> list_all (\<lambda>(c, v). c < length (td_columns t)) us"
  by (induction as arbitrary: us) (auto simp: sql_bind_eq_Inr dest: index_of_SomeD split: option.splits)

text \<open>The assignments of one row, with the values that they have in the row before the update.\<close>

definition assigned_value :: "TableData \<Rightarrow> Assignment list \<Rightarrow> (Expr \<Rightarrow> SochValue) \<Rightarrow> SochValue list \<Rightarrow> nat \<Rightarrow> SochValue" where
  "assigned_value t as V row c =
     (case find (\<lambda>a. index_of (as_column a) (td_columns t) = Some c) (rev as) of
        Some a \<Rightarrow> V (as_value a)
      | None \<Rightarrow> row ! c)"

lemma row_updates_exact:
  assumes "\<forall>a \<in> set as. as_column a \<in> set (td_columns t) \<longrightarrow> evaluate_expr E rm params (as_value a) = Inr (V (as_value a))"
  shows "row_updates E params t rm as =
    Inr (List.map_filter (\<lambda>a. map_option (\<lambda>c. (c, V (as_value a))) (index_of (as_column a) (td_columns t))) as)"
  using assms
proof (induction as)
  case (Cons a as)
  show ?case
  proof (cases "index_of (as_column a) (td_columns t)")
    case (Some c)
    then have "as_column a \<in> set (td_columns t)" using index_of_None [of "as_column a" "td_columns t"] by auto
    with Cons Some show ?thesis by (simp add: List.map_filter_simps)
  qed (use Cons in \<open>simp add: List.map_filter_simps\<close>)
qed (simp add: List.map_filter_simps)

lemma nth_foldl_assign:
  assumes "c < length row"
  shows "foldl (\<lambda>r (c, v). r[c := v]) row (List.map_filter (\<lambda>a. map_option (\<lambda>c. (c, V (as_value a))) (index_of (as_column a) (td_columns t))) as) ! c =
    assigned_value t as V row c"
  using assms
proof (induction as rule: rev_induct)
  case (snoc a as)
  have len: "length (foldl (\<lambda>r (c, v). r[c := v]) row us) = length row" for us :: "(nat \<times> SochValue) list"
    by (induction us rule: rev_induct) auto
  from snoc show ?case
    by (cases "index_of (as_column a) (td_columns t)")
      (auto simp: List.map_filter_def assigned_value_def nth_list_update len)
qed (simp add: List.map_filter_simps assigned_value_def)

lemma collect_updates_exact:
  assumes "\<forall>row \<in> set rows. where_matches E (row_map t row) params (upd_where u) = Inr (P row)"
    and "\<forall>row \<in> set rows. P row \<longrightarrow> row_updates E params t (row_map t row) (upd_assignments u) = Inr (us row)"
  shows "collect_updates E params t u k rows = Inr (map (\<lambda>(i, row). (i, us row)) (filter (P \<circ> snd) (enumerate k rows)))"
  using assms by (induction rows arbitrary: k) auto

lemma apply_updates_exact:
  assumes "\<forall>row \<in> set rows. P row \<longrightarrow> list_all (\<lambda>(c, v). c < length row) (us row)"
  shows "apply_updates (pre @ rows) (map (\<lambda>(i, row). (i, us row)) (filter (P \<circ> snd) (enumerate (length pre) rows))) =
    (pre @ map (\<lambda>row. if P row then foldl (\<lambda>r (c, v). r[c := v]) row (us row) else row) rows, True)"
  using assms
proof (induction rows arbitrary: pre)
  case (Cons row rows)
  let ?row = "if P row then foldl (\<lambda>r (c, v). r[c := v]) row (us row) else row"
  from Cons.IH [of "pre @ [?row]"] Cons.prems show ?case
    by (cases "P row") (simp_all add: assign_columns_wide)
qed simp

text \<open>
  C28: \<^verbatim>\<open>UPDATE\<close> assigns simultaneously.  When every row of the table has a value for each column, the condition decides every
  row and the assigned expressions evaluate on the selected ones, the statement changes exactly the selected rows, in place; a column
  gets the value that its last assignment has in the row before the update, so one assignment never sees another, and a column that is
  not assigned keeps its value.
\<close>

theorem update_assigns_simultaneously:
  fixes u :: UpdateStmt and V :: "SochValue list \<Rightarrow> Expr \<Rightarrow> SochValue"
  assumes "find_table (object_name_name (upd_table u)) ex = Inr t" "decides E params t (upd_where u) P"
    and wide: "\<forall>row \<in> set (td_rows t). length row = length (td_columns t)"
    and val: "\<forall>row \<in> set (td_rows t). P row \<longrightarrow> (\<forall>a \<in> set (upd_assignments u). as_column a \<in> set (td_columns t) \<longrightarrow>
      evaluate_expr E (row_map t row) params (as_value a) = Inr (V row (as_value a)))"
  shows "\<exists>rows. execute_update E u params ex =
      (set_rows (object_name_name (upd_table u)) t rows ex, Inr (ResRowsAffected (length (filter P (td_rows t))))) \<and>
    list_all2 (\<lambda>row row'. if P row
        then length row' = length row \<and> (\<forall>c < length row. row' ! c = assigned_value t (upd_assignments u) (V row) row c)
        else row' = row) (td_rows t) rows"
proof -
  let ?us = "\<lambda>row. List.map_filter (\<lambda>a. map_option (\<lambda>c. (c, V row (as_value a))) (index_of (as_column a) (td_columns t))) (upd_assignments u)"
  let ?new = "\<lambda>row. if P row then foldl (\<lambda>r (c, v). r[c := v]) row (?us row) else row"
  have us: "\<forall>row \<in> set (td_rows t). P row \<longrightarrow> row_updates E params t (row_map t row) (upd_assignments u) = Inr (?us row)"
    using val by (intro ballI impI row_updates_exact) blast
  have w: "\<forall>row \<in> set (td_rows t). P row \<longrightarrow> list_all (\<lambda>(c, v). c < length row) (?us row)"
  proof (intro ballI impI)
    fix row
    assume "row \<in> set (td_rows t)" "P row"
    with us wide row_updates_wide [of E params t "row_map t row" "upd_assignments u" "?us row"]
    show "list_all (\<lambda>(c, v). c < length row) (?us row)" by simp
  qed
  have "execute_update E u params ex =
      (set_rows (object_name_name (upd_table u)) t (map ?new (td_rows t)) ex, Inr (ResRowsAffected (length (filter P (td_rows t)))))"
    using assms(1) collect_updates_exact [OF assms(2) [unfolded decides_def] us, of 0] apply_updates_exact [OF w, of "[]"]
    by (simp add: execute_update_def length_filter_enumerate)
  moreover have "length (foldl (\<lambda>r (c, v). r[c := v]) row vs) = length row" for row and vs :: "(nat \<times> SochValue) list"
    by (induction vs rule: rev_induct) auto
  then have "list_all2 (\<lambda>row row'. if P row
        then length row' = length row \<and> (\<forall>c < length row. row' ! c = assigned_value t (upd_assignments u) (V row) row c)
        else row' = row) (td_rows t) (map ?new (td_rows t))"
    by (simp add: list_all2_map2 list_all2_same nth_foldl_assign)
  ultimately show ?thesis by blast
qed

subsection \<open>INSERT\<close>

lemma eval_list_length: "eval_list E params es = Inr vs \<Longrightarrow> length vs = length es"
  by (induction es arbitrary: vs) (auto simp: sql_bind_eq_Inr)

lemma insert_by_name_length: "insert_by_name E params cols es tcols = Inr vs \<Longrightarrow> length vs = length tcols"
  by (induction tcols arbitrary: vs) (auto simp: sql_bind_eq_Inr)

lemma insert_by_name_exact:
  assumes "\<forall>e \<in> set es. evaluate_expr E Map.empty params e = Inr (V e)" "length cols = length es"
  shows "insert_by_name E params cols es tcols = Inr (map (\<lambda>c. case index_of c cols of Some i \<Rightarrow> V (es ! i) | None \<Rightarrow> VNull) tcols)"
  using assms by (induction tcols) (auto dest!: index_of_SomeD split: option.split)

lemma row_map_nth:
  assumes "distinct (td_columns t)" "length row = length (td_columns t)" "i < length row"
  shows "row_map t row (td_columns t ! i) = Some (row ! i)"
proof -
  have "distinct (map fst (rev (zip (td_columns t) row)))" using assms(1,2) by (simp add: rev_map [symmetric])
  moreover have "(td_columns t ! i, row ! i) \<in> set (rev (zip (td_columns t) row))"
    using assms(2,3) by (simp add: in_set_zip) blast
  ultimately show ?thesis unfolding row_map_def by (rule map_of_is_SomeI)
qed

lemma row_map_of_map:
  assumes "distinct (td_columns t)" "c \<in> set (td_columns t)"
  shows "row_map t (map f (td_columns t)) c = Some (f c)"
proof -
  obtain i where "i < length (td_columns t)" "c = td_columns t ! i" using assms(2) by (auto simp: in_set_conv_nth)
  with row_map_nth [OF assms(1), of "map f (td_columns t)" i] show ?thesis by simp
qed

lemma insert_rows_exact:
  assumes "\<forall>es \<in> set ess. length cols = length es \<and> (\<forall>e \<in> set es. evaluate_expr E Map.empty params e = Inr (V e))"
  shows "insert_rows E params tcols (Some cols) ess =
    Inr (map (\<lambda>es. map (\<lambda>c. case index_of c cols of Some i \<Rightarrow> V (es ! i) | None \<Rightarrow> VNull) tcols) ess)"
  using assms
proof (induction ess)
  case (Cons es ess)
  then show ?case using insert_by_name_exact [of es E params V cols tcols] by (simp add: insert_row_def)
qed simp

lemma filter_rows_all: "filter_rows E t params None rows = Inr (map (row_map t) rows)"
  by (induction rows) (simp_all add: where_matches_def)

text \<open>\<^verbatim>\<open>SELECT * FROM name\<close>, without any other clause.\<close>

definition selects_all :: "string \<Rightarrow> SelectStmt \<Rightarrow> bool" where
  "selects_all name sel \<longleftrightarrow>
     select_table sel = Inr name \<and> sel_columns sel = [Wildcard] \<and> sel_where sel = None \<and> sel_order_by sel = [] \<and>
     sel_limit sel = None \<and> sel_offset sel = None"

lemma select_all_rows:
  assumes "selects_all name sel" "find_table name ex = Inr t"
  shows "execute_select E sel params ex = Inr (ResRows (td_columns t) (map (row_map t) (td_rows t)))"
  using assms by (simp add: selects_all_def execute_select_def filter_rows_all apply_limit_def apply_offset_def)

lemma find_set_rows: "find_table name (set_rows name t rows ex) = Inr (t\<lparr>td_rows := rows\<rparr>)"
  by (simp add: find_table_def set_rows_def)

text \<open>
  \<^verbatim>\<open>INSERT INTO t (cols) VALUES \<dots>\<close> and \<^verbatim>\<open>SELECT * FROM t\<close>.  When the table's column names are distinct, every row of values has as
  many expressions as there are columns listed, and the expressions evaluate, all rows are added behind the old ones; a query
  returns the old rows followed by the new ones, each with the given value in every column of the table that is listed and
  \<^verbatim>\<open>NULL\<close> in every other.
\<close>

lemma inserted_rows_are_selected:
  fixes ins :: InsertStmt and sel :: SelectStmt
  assumes "find_table (object_name_name (ins_table ins)) ex = Inr t" "distinct (td_columns t)"
    and "ins_columns ins = Some cols" "ins_source ins = InsertValues ess"
    and "\<forall>es \<in> set ess. length cols = length es \<and> (\<forall>e \<in> set es. evaluate_expr E Map.empty params e = Inr (V e))"
    and "selects_all (object_name_name (ins_table ins)) sel"
  shows "\<exists>ex' new. execute_insert E ins params ex = (ex', Inr (ResRowsAffected (length ess))) \<and>
    execute_select E sel params' ex' = Inr (ResRows (td_columns t) (map (row_map t) (td_rows t) @ new)) \<and>
    list_all2 (\<lambda>es row. \<forall>c \<in> set (td_columns t). row c = Some (case index_of c cols of Some i \<Rightarrow> V (es ! i) | None \<Rightarrow> VNull)) ess new"
proof -
  let ?row = "\<lambda>es. map (\<lambda>c. case index_of c cols of Some i \<Rightarrow> V (es ! i) | None \<Rightarrow> VNull) (td_columns t)"
  let ?ex = "set_rows (object_name_name (ins_table ins)) t (td_rows t @ map ?row ess) ex"
  have "execute_insert E ins params ex = (?ex, Inr (ResRowsAffected (length ess)))"
    using assms(1,3,4) insert_rows_exact [OF assms(5)] by (simp add: execute_insert_def)
  moreover have "row_map (t\<lparr>td_rows := rows\<rparr>) = row_map t" for rows by (simp add: row_map_def fun_eq_iff)
  then have "execute_select E sel params' ?ex = Inr (ResRows (td_columns t) (map (row_map t) (td_rows t) @ map (row_map t \<circ> ?row) ess))"
    using select_all_rows [OF assms(6) find_set_rows] by simp
  moreover have "list_all2 (\<lambda>es row. \<forall>c \<in> set (td_columns t). row c = Some (case index_of c cols of Some i \<Rightarrow> V (es ! i) | None \<Rightarrow> VNull))
      ess (map (row_map t \<circ> ?row) ess)"
    by (simp add: list_all2_map2 list_all2_same row_map_of_map [OF assms(2)])
  ultimately show ?thesis by blast
qed

subsection \<open>Failures\<close>

lemma drop_one_table:
  "length names \<le> 1 \<Longrightarrow> drop_tables b names ex = (ex', Inl f) \<Longrightarrow> ex' = ex"
  by (cases names) (auto split: if_splits)

text \<open>
  C26: a failing statement changes nothing.  Whatever error an \<^verbatim>\<open>INSERT\<close>, an \<^verbatim>\<open>UPDATE\<close>, a \<^verbatim>\<open>DELETE\<close>, a definition or a query ends with, and also
  when a division overflows, the tables are as before: all expressions are evaluated before the first row changes.  The exceptions are a
  \<^verbatim>\<open>DROP TABLE\<close> with several names, which keeps the tables dropped before the unknown one, and the panic of an \<^verbatim>\<open>UPDATE\<close> on a row that is
  too short.
\<close>

theorem failed_statement_changes_nothing:
  assumes "execute_statement E stmt params ex = (ex', Inl f)" "f \<noteq> SqlPanic ''index out of bounds''"
    and "\<forall>d. stmt = StDropTable d \<longrightarrow> length (dt_names d) \<le> 1"
  shows "ex' = ex"
  using assms
  by (auto simp: execute_statement_def execute_insert_def execute_update_def execute_delete_def execute_create_table_def
      execute_drop_table_def Let_def drop_one_table
      split: Statement.splits InsertSource.splits sum.splits prod.splits if_splits)

text \<open>Every row of every table has a value for each column.\<close>

definition well_shaped :: "SqlExecutor \<Rightarrow> bool" where
  "well_shaped ex \<longleftrightarrow> (\<forall>name t. ex_tables ex name = Some t \<longrightarrow> (\<forall>row \<in> set (td_rows t). length row = length (td_columns t)))"

text \<open>An \<^verbatim>\<open>INSERT\<close> without a column list gives a value for each column.\<close>

definition insert_fits :: "SqlExecutor \<Rightarrow> Statement \<Rightarrow> bool" where
  "insert_fits ex stmt =
     (case stmt of
        StInsert ins \<Rightarrow>
          (case (ex_tables ex (object_name_name (ins_table ins)), ins_columns ins, ins_source ins) of
             (Some t, None, InsertValues ess) \<Rightarrow> list_all (\<lambda>es. length es = length (td_columns t)) ess
           | _ \<Rightarrow> True)
      | _ \<Rightarrow> True)"

lemma find_table_Inr: "find_table name ex = Inr t \<longleftrightarrow> ex_tables ex name = Some t"
  by (simp add: find_table_def split: option.split)

lemma well_shapedD: "well_shaped ex \<Longrightarrow> find_table name ex = Inr t \<Longrightarrow> \<forall>row \<in> set (td_rows t). length row = length (td_columns t)"
  by (auto simp: well_shaped_def find_table_Inr)

lemma well_shaped_set_rows:
  "well_shaped ex \<Longrightarrow> \<forall>row \<in> set rows. length row = length (td_columns t) \<Longrightarrow> well_shaped (set_rows name t rows ex)"
  by (simp add: well_shaped_def set_rows_def)

lemma tame_find_table: "tame (find_table name ex)"
  by (simp add: find_table_def split: option.split)

lemma tame_filter_rows: "tame (filter_rows E t params w rows)"
  by (induction rows) (auto simp: tame_where)

lemma tame_project: "tame (project_items E params row items r)" "tame (project_rows E params items rows)"
proof -
  show "tame (project_items E params row items r)" for row r
    by (induction items arbitrary: r) (auto simp: tame_evaluate split: SelectItem.split)
  then show "tame (project_rows E params items rows)" by (induction rows) auto
qed

text \<open>The query whose selected rows the \<^verbatim>\<open>ORDER BY\<close> comparison does not order, and for which the library's sort panics.\<close>

definition order_panic :: "sql_eval_std \<Rightarrow> SochValue list \<Rightarrow> SqlExecutor \<Rightarrow> Statement \<Rightarrow> bool" where
  "order_panic E params ex stmt \<longleftrightarrow>
     (case stmt of
        StSelect sel \<Rightarrow>
          (case sql_bind (select_table sel) (\<lambda>name. sql_bind (find_table name ex) (\<lambda>t. filter_rows E t params (sel_where sel) (td_rows t))) of
             Inr rows \<Rightarrow> sel_order_by sel \<noteq> [] \<and> \<not> orders (order_cmp E (sel_order_by sel)) rows \<and> ev_unordered E rows = None
           | Inl _ \<Rightarrow> False)
      | _ \<Rightarrow> False)"

lemma tame_select_table: "tame (select_table sel)"
  by (simp add: select_table_def split: option.split TableRef.split)

lemma tame_select:
  assumes "\<not> order_panic E params ex (StSelect sel)"
  shows "tame (execute_select E sel params ex)"
proof -
  have "tame (if sel_order_by sel \<noteq> [] then sort_by (ev_unordered E) (order_cmp E (sel_order_by sel)) rows else Inr rows)"
    if "select_table sel = Inr name" "find_table name ex = Inr t" "filter_rows E t params (sel_where sel) (td_rows t) = Inr rows" for name t rows
    using assms that by (auto simp: order_panic_def sort_by_def split: option.split)
  then show ?thesis by (auto simp: execute_select_def tame_select_table tame_find_table tame_filter_rows tame_project Let_def)
qed

lemma order_panic_fails:
  assumes "order_panic E params ex stmt"
  shows "execute_statement E stmt params ex = (ex, Inl sort_panic)"
proof -
  obtain sel name t rows where "stmt = StSelect sel" "select_table sel = Inr name" "find_table name ex = Inr t"
    "filter_rows E t params (sel_where sel) (td_rows t) = Inr rows" "sel_order_by sel \<noteq> []"
    "\<not> orders (order_cmp E (sel_order_by sel)) rows" "ev_unordered E rows = None"
    using assms by (auto simp: order_panic_def sql_bind_eq_Inr split: Statement.splits sum.splits)
  then show ?thesis by (simp add: execute_statement_def execute_select_def sort_by_def)
qed

lemma tame_insert_rows: "tame (insert_rows E params tcols cols ess)"
proof -
  have "tame (eval_list E params es)" for es by (induction es) (auto simp: tame_evaluate)
  moreover have "tame (insert_by_name E params cs es tcols)" for cs es
    by (induction tcols) (auto simp: tame_evaluate split: option.split)
  ultimately have "tame (insert_row E params tcols cols es)" for es by (simp add: insert_row_def split: option.split)
  then show ?thesis by (induction ess) auto
qed

lemma tame_collect_deletes: "tame (collect_deletes E params t w k rows)"
  by (induction rows arbitrary: k) (auto simp: tame_where)

lemma tame_collect_updates: "tame (collect_updates E params t u k rows)"
proof -
  have "tame (row_updates E params t rm as)" for rm as by (induction as) (auto simp: tame_evaluate split: option.split)
  then show ?thesis by (induction rows arbitrary: k) (auto simp: tame_where)
qed

lemma insert_rows_shape:
  assumes "insert_rows E params tcols cols ess = Inr new" "cols = None \<longrightarrow> list_all (\<lambda>es. length es = length tcols) ess"
  shows "\<forall>row \<in> set new. length row = length tcols"
  using assms
proof (induction ess arbitrary: new)
  case (Cons es ess)
  then obtain v vs where v: "insert_row E params tcols cols es = Inr v" "insert_rows E params tcols cols ess = Inr vs" "new = v # vs"
    by (auto simp: sql_bind_eq_Inr)
  have "length v = length tcols"
    using v(1) Cons.prems(2) by (auto simp: insert_row_def dest: eval_list_length insert_by_name_length split: option.splits if_splits)
  with Cons v show ?case by auto
qed auto

lemma apply_updates_shape:
  assumes "collect_updates E params t u k rows = Inr us" "\<forall>row \<in> set (pre @ rows). length row = length (td_columns t)" "k = length pre"
  shows "snd (apply_updates (pre @ rows) us) \<and> (\<forall>row \<in> set (fst (apply_updates (pre @ rows) us)). length row = length (td_columns t))"
  using assms
proof (induction rows arbitrary: k us pre)
  case (Cons row rows)
  obtain m r rest where m: "where_matches E (row_map t row) params (upd_where u) = Inr m"
    "(if m then map_sum id Some (row_updates E params t (row_map t row) (upd_assignments u)) else Inr None) = Inr r"
    "collect_updates E params t u (k + 1) rows = Inr rest" "us = (case r of Some us \<Rightarrow> (k, us) # rest | None \<Rightarrow> rest)"
    using Cons.prems(1) by (auto simp: sql_bind_eq_Inr)
  show ?case
  proof (cases r)
    case None
    then show ?thesis using Cons.IH [OF m(3), of "pre @ [row]"] Cons.prems m(4) by simp
  next
    case (Some vs)
    then have "row_updates E params t (row_map t row) (upd_assignments u) = Inr vs"
      using m(2) by (cases "row_updates E params t (row_map t row) (upd_assignments u)") (auto split: if_splits)
    then have wide: "list_all (\<lambda>(c, v). c < length row) vs" using row_updates_wide Cons.prems(2) by fastforce
    obtain row' where a: "assign_columns row vs = (row', True)" using assign_columns_wide [OF wide] by blast
    have "length row' = length row" using length_assign_columns [of row vs] a by simp
    then have shape: "\<forall>r \<in> set ((pre @ [row']) @ rows). length r = length (td_columns t)" using Cons.prems(2) by auto
    have step: "apply_updates (pre @ row # rows) us = apply_updates ((pre @ [row']) @ rows) rest"
      using a Some m(4) Cons.prems(3) by simp
    show ?thesis unfolding step by (rule Cons.IH [OF m(3) shape]) (simp add: Cons.prems(3))
  qed
qed simp

lemma drop_tables_shape: "well_shaped ex \<Longrightarrow> well_shaped (fst (drop_tables b names ex)) \<and> tame (snd (drop_tables b names ex))"
proof (induction names arbitrary: ex)
  case (Cons n names)
  have "well_shaped (ex\<lparr>ex_tables := (ex_tables ex)(object_name_name n := None)\<rparr>)"
    using Cons.prems by (simp add: well_shaped_def)
  from Cons.IH [OF this] Cons.prems show ?case by simp
qed simp

lemma insert_shape:
  assumes "well_shaped ex" "insert_fits ex (StInsert ins)"
  shows "well_shaped (fst (execute_insert E ins params ex)) \<and> tame (snd (execute_insert E ins params ex))"
proof (cases "find_table (object_name_name (ins_table ins)) ex")
  case (Inl e)
  then show ?thesis using assms tame_find_table [of "object_name_name (ins_table ins)" ex] by (simp add: execute_insert_def tame_def)
next
  case (Inr t)
  show ?thesis
  proof (cases "\<exists>ess new. ins_source ins = InsertValues ess \<and> insert_rows E params (td_columns t) (ins_columns ins) ess = Inr new")
    case True
    then obtain ess new where s: "ins_source ins = InsertValues ess" "insert_rows E params (td_columns t) (ins_columns ins) ess = Inr new" by blast
    have "\<forall>row \<in> set new. length row = length (td_columns t)"
      by (rule insert_rows_shape [OF s(2)]) (use assms(2) Inr s(1) in \<open>auto simp: insert_fits_def find_table_Inr\<close>)
    with well_shapedD [OF assms(1) Inr] have "well_shaped (set_rows (object_name_name (ins_table ins)) t (td_rows t @ new) ex)"
      by (intro well_shaped_set_rows [OF assms(1)]) auto
    with s Inr show ?thesis by (simp add: execute_insert_def)
  next
    case False
    have "tame (insert_rows E params (td_columns t) (ins_columns ins) ess)" for ess by (rule tame_insert_rows)
    then have t: "tame (Inl e :: ExecutionResult sql)" if "insert_rows E params (td_columns t) (ins_columns ins) ess = Inl e" for e ess
      using that by (metis tame_def sum.case(1))
    show ?thesis
    proof (cases "ins_source ins")
      case (InsertValues ess)
      with False obtain e where "insert_rows E params (td_columns t) (ins_columns ins) ess = Inl e"
        by (cases "insert_rows E params (td_columns t) (ins_columns ins) ess") auto
      with t InsertValues Inr assms(1) show ?thesis by (simp add: execute_insert_def)
    qed (use Inr assms(1) in \<open>simp_all add: execute_insert_def\<close>)
  qed
qed

lemma update_shape:
  assumes "well_shaped ex"
  shows "well_shaped (fst (execute_update E u params ex)) \<and> tame (snd (execute_update E u params ex))"
proof (cases "find_table (object_name_name (upd_table u)) ex")
  case (Inl e)
  then show ?thesis using assms tame_find_table [of "object_name_name (upd_table u)" ex] by (simp add: execute_update_def tame_def)
next
  case (Inr t)
  note shape = well_shapedD [OF assms Inr]
  show ?thesis
  proof (cases "collect_updates E params t u 0 (td_rows t)")
    case (Inl e)
    then show ?thesis using assms Inr tame_collect_updates [of E params t u 0 "td_rows t"] by (simp add: execute_update_def tame_def)
  next
    case us: (Inr us)
    obtain rows ok where a: "apply_updates (td_rows t) us = (rows, ok)" by fastforce
    with apply_updates_shape [OF us, of "[]"] shape have "ok" "\<forall>row \<in> set rows. length row = length (td_columns t)" by auto
    then show ?thesis using Inr us a well_shaped_set_rows [OF assms] by (simp add: execute_update_def)
  qed
qed

lemma delete_shape:
  assumes "well_shaped ex"
  shows "well_shaped (fst (execute_delete E d params ex)) \<and> tame (snd (execute_delete E d params ex))"
proof (cases "find_table (object_name_name (del_table d)) ex")
  case (Inl e)
  then show ?thesis using assms tame_find_table [of "object_name_name (del_table d)" ex] by (simp add: execute_delete_def tame_def)
next
  case (Inr t)
  have "set (foldl (\<lambda>rows i. vec_remove i rows) rows ix) \<subseteq> set rows" for rows :: "SochValue list list" and ix
  proof (induction ix arbitrary: rows)
    case (Cons i ix)
    have "set (vec_remove i rows) \<subseteq> set rows" by (auto simp: vec_remove_def dest: in_set_takeD in_set_dropD)
    with Cons show ?case by fastforce
  qed simp
  then have "well_shaped (set_rows (object_name_name (del_table d)) t (foldl (\<lambda>rows i. vec_remove i rows) (td_rows t) ix) ex)" for ix
    using well_shapedD [OF assms Inr] by (intro well_shaped_set_rows [OF assms]) blast
  then show ?thesis
    using assms Inr tame_collect_deletes [of E params t "del_where d" 0 "td_rows t"]
    by (auto simp: execute_delete_def tame_def split: sum.split)
qed

lemma statement_shape:
  assumes "well_shaped ex" "insert_fits ex stmt" "\<not> order_panic E params ex stmt"
  shows "well_shaped (fst (execute_statement E stmt params ex)) \<and> tame (snd (execute_statement E stmt params ex))"
proof (cases stmt)
  case (StCreateTable c)
  then show ?thesis using assms(1) by (auto simp: execute_statement_def execute_create_table_def Let_def well_shaped_def)
qed (use assms in \<open>simp_all add: execute_statement_def execute_drop_table_def tame_select insert_shape update_shape delete_shape drop_tables_shape\<close>)

text \<open>
  C25: every text is answered.  On an executor in which every row has a value for each column, a text that does not contain the keyword
  \<^verbatim>\<open>SESSION\<close> and whose \<^verbatim>\<open>INSERT\<close>, if it is one without a column list, gives a value for each column, is executed to the end or refused with an error, and
  the rows keep that shape.  There are two ways to panic: a division of the least integer by minus one, and, in a query with \<^verbatim>\<open>ORDER BY\<close>, selected rows
  that the comparison does not order (a \<^verbatim>\<open>NULL\<close>, a NaN or values of two kinds in a column of the clause, see \<open>orderable_orders\<close>), if the standard
  library's sort then panics, which leaves the tables alone.
\<close>

theorem executor_answers:
  assumes "well_shaped ex" "\<forall>ts. tokenize (sql_std.truncate E) sql = Inr ts \<longrightarrow> TSession \<notin> tk_kind ` set ts"
    and "\<forall>stmt. parser_parse (sql_std.truncate E) sql = Parsed stmt \<longrightarrow> insert_fits ex stmt"
  shows "well_shaped (fst (execute_with_params E sql params ex)) \<and>
    (case snd (execute_with_params E sql params ex) of
       Inr _ \<Rightarrow> True
     | Inl f \<Rightarrow> (\<exists>e. f = SqlFail e) \<or> division_panic f \<or>
         f = sort_panic \<and> (\<exists>stmt. parser_parse (sql_std.truncate E) sql = Parsed stmt \<and> order_panic E params ex stmt))"
proof (cases "\<exists>stmt. parser_parse (sql_std.truncate E) sql = Parsed stmt \<and> order_panic E params ex stmt")
  case True
  then show ?thesis using assms(1) order_panic_fails [of E params ex] by (auto simp: execute_with_params_def)
next
  case False
  have "parser_parse (sql_std.truncate E) sql \<noteq> ParserUnbounded" "parser_parse (sql_std.truncate E) sql \<noteq> ParserPanic"
    using parser_returns [of "sql_std.truncate E" sql] assms(2) by blast+
  then have "well_shaped (fst (execute_with_params E sql params ex)) \<and> tame (snd (execute_with_params E sql params ex))"
    using False assms(1,3) statement_shape [of ex] by (cases "parser_parse (sql_std.truncate E) sql") (auto simp: execute_with_params_def)
  then show ?thesis by (auto simp: tame_def split: sum.splits sql_failure.splits)
qed

text \<open>
  The two exceptions, and the clauses that the executor does not look at: a query is answered without regard to \<^verbatim>\<open>DISTINCT\<close>, \<^verbatim>\<open>GROUP BY\<close>,
  \<^verbatim>\<open>HAVING\<close> and \<^verbatim>\<open>UNION\<close>.
\<close>

lemma drop_keeps_earlier_drops:
  assumes "ex_tables ex (object_name_name b) = None" "object_name_name a \<noteq> object_name_name b" "ex_tables ex (object_name_name a) \<noteq> None"
  shows "drop_tables False [a, b] ex =
    (ex\<lparr>ex_tables := (ex_tables ex)(object_name_name a := None)\<rparr>, Inl (SqlFail (SqlTableNotFound (object_name_name b))))"
  using assms by simp

lemma short_row_update_panics:
  assumes "find_table (object_name_name (upd_table u)) ex = Inr t" "td_rows t = [row]" "upd_where u = None" "upd_assignments u = [a]"
    and "index_of (as_column a) (td_columns t) = Some c" "length row \<le> c" "evaluate_expr E (row_map t row) params (as_value a) = Inr v"
  shows "snd (execute_update E u params ex) = Inl (SqlPanic ''index out of bounds'')"
  using assms by (simp add: execute_update_def where_matches_def)

lemma select_ignores_clauses:
  "execute_select E (SelectStmt sp dist cols from w grp hav ord lim off un) params ex =
   execute_select E (SelectStmt sp' dist' cols from w grp' hav' ord lim off un') params ex"
  by (simp only: execute_select_def select_table_def SelectStmt.sel)

subsection \<open>From the text\<close>

text \<open>
  C24: \<^verbatim>\<open>DELETE FROM t WHERE x\<close>, from the tokens to the rows.  Take a text whose tokens are these, with a well-formed condition printed with only the
  parentheses it needs, and whose height, times three, is within the nesting limit of 256 (operators of one chain count towards the height, so a
  flat chain of 86 operands is already beyond the theorem; deeper conditions may be refused by the parser).  When the condition decides every row
  of the table, executing the text removes exactly the rows that satisfy it, keeps the others in their order, and reports how many it removed.
\<close>

theorem delete_text_is_exact:
  assumes "tokenize (sql_std.truncate E) sql = Inr ts"
    and "map tk_kind ts = [TDelete, TFrom, TIdentifier name, TWhere] @ sx_print x 0 @ [TEof]" "sx_ok x" "3 * sx_height x \<le> MAX_EXPR_DEPTH"
    and "find_table name ex = Inr t" "decides E params t (Some (sx_ast x)) P"
  shows "execute_with_params E sql params ex =
    (set_rows name t (filter (\<lambda>row. \<not> P row) (td_rows t)) ex, Inr (ResRowsAffected (length (filter P (td_rows t)))))"
proof -
  obtain d s' where d: "parse_statement (parse_rec (sql_std.truncate E) (3 * length ts)) (parser_new ts) = Inr (StDelete d, s')"
    "on_parts (del_table d) = [name]" "del_where d = Some (sx_ast x)"
    using delete_where_parsed [OF assms(2-4)] by blast
  then have "object_name_name (del_table d) = name" by (simp add: object_name_name_def)
  with execute_delete_exact [of d ex t E params P] assms(5,6) d assms(1) show ?thesis
    by (simp add: execute_with_params_def parser_parse_def parse_outcome_def execute_statement_def)
qed

text \<open>
  C36: \<^verbatim>\<open>DELETE FROM t u WHERE \<dots>\<close> deletes every row.  With an alias that is not introduced by \<^verbatim>\<open>AS\<close>, whatever follows it is ignored, and executing
  the text empties the table.
\<close>

theorem delete_alias_empties_table:
  assumes "tokenize (sql_std.truncate E) sql = Inr ts"
    and "map tk_kind ts = [TDelete, TFrom, TIdentifier name, TIdentifier u] @ ks @ [TEof]" "find_table name ex = Inr t"
  shows "execute_with_params E sql params ex = (set_rows name t [] ex, Inr (ResRowsAffected (length (td_rows t))))"
proof -
  obtain d s' where d: "parse_statement (parse_rec (sql_std.truncate E) (3 * length ts)) (parser_new ts) = Inr (StDelete d, s')"
    "on_parts (del_table d) = [name]" "del_where d = None"
    using delete_alias_drops_where [OF assms(2)] by blast
  then have "object_name_name (del_table d) = name" by (simp add: object_name_name_def)
  with execute_delete_exact [of d ex t E params "\<lambda>_. True"] decides_no_condition assms(3) d assms(1) show ?thesis
    by (simp add: execute_with_params_def parser_parse_def parse_outcome_def execute_statement_def)
qed

subsection \<open>NULL\<close>

text \<open>
  C37: comparisons with \<^verbatim>\<open>NULL\<close> select rows.  In a row whose column is \<^verbatim>\<open>NULL\<close>, the conditions that it differs from, is at most, is at least or
  lies between any values all hold, where SQL has them unknown and leaves the row out; only equality and the two strict comparisons
  do not hold.
\<close>

theorem null_comparisons_match:
  assumes "row (cr_column c) = Some VNull" "evaluate_expr E row params e = Inr v" "evaluate_expr E row params e' = Inr v'"
  shows "evaluate_where E row params (EBinaryOp (EColumn c) BinNe e) = Inr True \<and>
    evaluate_where E row params (EBinaryOp (EColumn c) BinLe e) = Inr True \<and>
    evaluate_where E row params (EBinaryOp (EColumn c) BinGe e) = Inr True \<and>
    evaluate_where E row params (EBetween (EColumn c) e e' False) = Inr True \<and>
    evaluate_where E row params (EBinaryOp (EColumn c) BinEq e) = Inr False \<and>
    evaluate_where E row params (EBinaryOp (EColumn c) BinLt e) = Inr False \<and>
    evaluate_where E row params (EBinaryOp (EColumn c) BinGt e) = Inr False"
proof -
  have "compare_values E (Some VNull) (Some w) = Equal" for w by (simp add: compare_values_def split: SochValue.split)
  moreover have "\<not> values_equal E VNull v" by (simp add: values_equal_def)
  ultimately show ?thesis using assms by (simp add: evaluate_where_def evaluate_binary_op_def column_value_def between_value_def)
qed

subsection \<open>Instances\<close>

definition demo_eval :: sql_eval_std where
  "demo_eval =
     \<lparr>std_f64 = std_f64 demo_std, std_debug = std_debug demo_std, ev_add = (+), ev_sub = (-), ev_mul = (*), ev_div = (div), ev_rem = (mod),
      ev_i64_as_f64 = id, ev_upper = map upper_char, ev_lower = id, ev_debug_expr = (\<lambda>e. ''expr''), ev_debug_op = (\<lambda>op. ''op''),
      ev_unordered = (\<lambda>rows. None)\<rparr>"

lemma demo_eval_std [simp]: "sql_std.truncate demo_eval = demo_std"
  by (simp add: demo_eval_def sql_std.truncate_def)

definition demo_table :: TableData where
  "demo_table =
     \<lparr>td_columns = [''a'', ''b''], td_column_types = [TyInt, TyInt],
      td_rows = [[VInt 1, VInt 10], [VInt 2, VInt 20], [VInt 1, VNull]]\<rparr>"

definition demo_executor :: SqlExecutor where
  "demo_executor = \<lparr>ex_tables = [''t'' \<mapsto> demo_table]\<rparr>"

lemma demo_find [simp]: "find_table ''t'' demo_executor = Inr demo_table"
  by (simp add: find_table_def demo_executor_def)

definition a_is_one :: Expr where
  "a_is_one = EBinaryOp (EColumn (column_ref_new ''a'')) BinEq (ELiteral (LitInteger 1))"

lemma demo_decides: "decides demo_eval [] demo_table (Some a_is_one) (\<lambda>row. hd row = VInt 1)"
  by (simp add: decides_def demo_table_def where_matches_def evaluate_where_def a_is_one_def column_value_def row_map_def column_ref_new_def
      literal_to_value_def evaluate_binary_op_def values_equal_def)

lemma demo_lexed:
  assumes "token_kinds sql = Inr ks"
  obtains ts where "tokenize (sql_std.truncate demo_eval) sql = Inr ts" "map tk_kind ts = ks"
  using assms by (cases "tokenize demo_std sql") (auto simp: token_kinds_def)

theorem delete_text_is_exact_witness:
  "execute_with_params demo_eval ''DELETE FROM t WHERE a = 1'' [] demo_executor =
    (set_rows ''t'' demo_table [[VInt 2, VInt 20]] demo_executor, Inr (ResRowsAffected 2))"
proof -
  let ?x = "SBinary (SColumn ''a'') BinEq (SLiteral (LitInteger 1))"
  have "token_kinds ''DELETE FROM t WHERE a = 1'' = Inr ([TDelete, TFrom, TIdentifier ''t'', TWhere] @ sx_print ?x 0 @ [TEof])" by code_simp
  then obtain ts where ts: "tokenize (sql_std.truncate demo_eval) ''DELETE FROM t WHERE a = 1'' = Inr ts"
    "map tk_kind ts = [TDelete, TFrom, TIdentifier ''t'', TWhere] @ sx_print ?x 0 @ [TEof]" by (rule demo_lexed)
  have x: "sx_ok ?x" "3 * sx_height ?x \<le> MAX_EXPR_DEPTH" by code_simp+
  have "sx_ast ?x = a_is_one" by (simp add: a_is_one_def)
  with delete_text_is_exact [OF ts x demo_find] demo_decides show ?thesis by (simp add: demo_table_def)
qed

theorem delete_alias_empties_table_witness:
  "execute_with_params demo_eval ''DELETE FROM t u WHERE a = 1'' [] demo_executor =
    (set_rows ''t'' demo_table [] demo_executor, Inr (ResRowsAffected 3))"
proof -
  have "token_kinds ''DELETE FROM t u WHERE a = 1'' =
      Inr ([TDelete, TFrom, TIdentifier ''t'', TIdentifier ''u''] @ [TWhere, TIdentifier ''a'', TEq, TInteger 1] @ [TEof])" by code_simp
  then obtain ts where ts: "tokenize (sql_std.truncate demo_eval) ''DELETE FROM t u WHERE a = 1'' = Inr ts"
    "map tk_kind ts = [TDelete, TFrom, TIdentifier ''t'', TIdentifier ''u''] @ [TWhere, TIdentifier ''a'', TEq, TInteger 1] @ [TEof]" by (rule demo_lexed)
  from delete_alias_empties_table [OF ts demo_find] show ?thesis by (simp add: demo_table_def)
qed

theorem null_comparisons_match_witness:
  "evaluate_where demo_eval [''b'' \<mapsto> VNull] [] (EBinaryOp (EColumn (column_ref_new ''b'')) BinGe (ELiteral (LitInteger 5))) = Inr True \<and>
   evaluate_where demo_eval [''b'' \<mapsto> VNull] [] (EBetween (EColumn (column_ref_new ''b'')) (ELiteral (LitInteger 5)) (ELiteral (LitInteger 7)) False) = Inr True"
  using null_comparisons_match [of "[''b'' \<mapsto> VNull]" "column_ref_new ''b''" demo_eval "[]" "ELiteral (LitInteger 5)" "VInt 5" "ELiteral (LitInteger 7)" "VInt 7"]
  by (simp add: column_ref_new_def literal_to_value_def)

definition demo_swap :: UpdateStmt where
  "demo_swap =
     \<lparr>upd_span = span_default, upd_table = object_name_new ''t'', upd_alias = None,
      upd_assignments = [\<lparr>as_column = ''a'', as_value = EColumn (column_ref_new ''b'')\<rparr>, \<lparr>as_column = ''b'', as_value = EColumn (column_ref_new ''a'')\<rparr>],
      upd_from = None, upd_where = Some a_is_one, upd_returning = None\<rparr>"

text \<open>\<^verbatim>\<open>UPDATE t SET a = b, b = a WHERE a = 1\<close> exchanges the two columns.\<close>

theorem update_assigns_simultaneously_witness:
  "\<exists>rows. execute_update demo_eval demo_swap [] demo_executor = (set_rows ''t'' demo_table rows demo_executor, Inr (ResRowsAffected 2)) \<and>
    rows ! 0 ! 0 = VInt 10 \<and> rows ! 0 ! 1 = VInt 1 \<and> rows ! 1 = [VInt 2, VInt 20]"
proof -
  let ?V = "\<lambda>row e. projr (evaluate_expr demo_eval (row_map demo_table row) [] e)"
  have n: "object_name_name (upd_table demo_swap) = ''t''" by (simp add: demo_swap_def object_name_new_def object_name_name_def)
  have "\<exists>rows. execute_update demo_eval demo_swap [] demo_executor =
      (set_rows (object_name_name (upd_table demo_swap)) demo_table rows demo_executor,
       Inr (ResRowsAffected (length (filter (\<lambda>row. hd row = VInt 1) (td_rows demo_table))))) \<and>
    list_all2 (\<lambda>row row'. if hd row = VInt 1
        then length row' = length row \<and> (\<forall>c < length row. row' ! c = assigned_value demo_table (upd_assignments demo_swap) (?V row) row c)
        else row' = row) (td_rows demo_table) rows"
    by (rule update_assigns_simultaneously)
      (use n demo_decides in \<open>simp_all add: demo_swap_def demo_table_def column_value_def row_map_def column_ref_new_def\<close>)
  then obtain rows where r: "execute_update demo_eval demo_swap [] demo_executor =
      (set_rows (object_name_name (upd_table demo_swap)) demo_table rows demo_executor,
       Inr (ResRowsAffected (length (filter (\<lambda>row. hd row = VInt 1) (td_rows demo_table)))))"
    "list_all2 (\<lambda>row row'. if hd row = VInt 1
        then length row' = length row \<and> (\<forall>c < length row. row' ! c = assigned_value demo_table (upd_assignments demo_swap) (?V row) row c)
        else row' = row) (td_rows demo_table) rows" by blast
  have "rows ! 0 ! c = assigned_value demo_table (upd_assignments demo_swap) (?V [VInt 1, VInt 10]) [VInt 1, VInt 10] c" if "c < 2" for c
    using list_all2_nthD [OF r(2), of 0] that by (simp add: demo_table_def)
  moreover have "rows ! 1 = [VInt 2, VInt 20]" using list_all2_nthD [OF r(2), of 1] by (simp add: demo_table_def)
  ultimately show ?thesis using r(1) n
    by (intro exI [of _ rows]) (simp add: assigned_value_def demo_swap_def demo_table_def column_value_def row_map_def column_ref_new_def)
qed

definition demo_select :: SelectStmt where
  "demo_select =
     SelectStmt span_default False [Wildcard] (Some (FromClause [TableName (object_name_new ''t'') None])) None [] None [] None None []"

definition demo_insert :: "Expr list list \<Rightarrow> InsertStmt" where
  "demo_insert ess =
     \<lparr>ins_span = span_default, ins_table = object_name_new ''t'', ins_columns = Some [''b''], ins_source = InsertValues ess,
      ins_on_conflict = None, ins_returning = None\<rparr>"

theorem failed_statement_changes_nothing_witness:
  "fst (execute_statement demo_eval (StInsert (demo_insert [[ELiteral (LitInteger 7)], [EColumn (column_ref_new ''x'')]])) [] demo_executor) =
    demo_executor"
proof (rule failed_statement_changes_nothing)
  show "execute_statement demo_eval (StInsert (demo_insert [[ELiteral (LitInteger 7)], [EColumn (column_ref_new ''x'')]])) [] demo_executor =
      (fst (execute_statement demo_eval (StInsert (demo_insert [[ELiteral (LitInteger 7)], [EColumn (column_ref_new ''x'')]])) [] demo_executor),
       Inl (SqlFail (SqlColumnNotFound ''x'')))"
    by (simp add: execute_statement_def execute_insert_def demo_insert_def object_name_new_def object_name_name_def demo_table_def
        insert_row_def column_value_def column_ref_new_def literal_to_value_def)
qed simp_all

theorem executor_answers_witness:
  "well_shaped (fst (execute_with_params demo_eval ''DELETE FROM t u WHERE a = 1'' [] demo_executor)) \<and>
    (case snd (execute_with_params demo_eval ''DELETE FROM t u WHERE a = 1'' [] demo_executor) of
       Inr _ \<Rightarrow> True
     | Inl f \<Rightarrow> (\<exists>e. f = SqlFail e) \<or> division_panic f \<or>
         f = sort_panic \<and> (\<exists>stmt. parser_parse (sql_std.truncate demo_eval) ''DELETE FROM t u WHERE a = 1'' = Parsed stmt \<and>
           order_panic demo_eval [] demo_executor stmt))"
proof (rule executor_answers)
  show "well_shaped demo_executor" by (simp add: well_shaped_def demo_executor_def demo_table_def)
  have "token_kinds ''DELETE FROM t u WHERE a = 1'' =
      Inr ([TDelete, TFrom, TIdentifier ''t'', TIdentifier ''u''] @ [TWhere, TIdentifier ''a'', TEq, TInteger 1] @ [TEof])" by code_simp
  then obtain ts where ts: "tokenize (sql_std.truncate demo_eval) ''DELETE FROM t u WHERE a = 1'' = Inr ts"
    "map tk_kind ts = [TDelete, TFrom, TIdentifier ''t'', TIdentifier ''u''] @ [TWhere, TIdentifier ''a'', TEq, TInteger 1] @ [TEof]" by (rule demo_lexed)
  show "\<forall>ts. tokenize (sql_std.truncate demo_eval) ''DELETE FROM t u WHERE a = 1'' = Inr ts \<longrightarrow> TSession \<notin> tk_kind ` set ts"
    using ts by (simp flip: set_map)
  show "\<forall>stmt. parser_parse (sql_std.truncate demo_eval) ''DELETE FROM t u WHERE a = 1'' = Parsed stmt \<longrightarrow> insert_fits demo_executor stmt"
    using delete_alias_drops_where [OF ts(2), of "parse_rec (sql_std.truncate demo_eval) (3 * length ts)"] ts(1)
    by (auto simp: parser_parse_def parse_outcome_def insert_fits_def)
qed

end
