(* ===== verification/Sql_Order.thy ===== *)
theory Sql_Order
  imports Sql_Execution
begin

text \<open>
  \<^verbatim>\<open>ORDER BY\<close>.  What a comparison owes the sorting routine is the locale \<open>comparison\<close>; it is met by the comparison of rows when every
  column in the clause holds values of one kind and no \<^verbatim>\<open>NULL\<close>.  With \<^verbatim>\<open>NULL\<close> it is not: the value is equal to every other
  one.
\<close>

subsection \<open>Sorting by a comparison\<close>

lemma ord_reverse_iff: "ord_reverse x = Less \<longleftrightarrow> x = Greater" "ord_reverse x = Greater \<longleftrightarrow> x = Less" "ord_reverse x = Equal \<longleftrightarrow> x = Equal"
  by (cases x; simp)+

locale comparison =
  fixes cmp :: "'a \<Rightarrow> 'a \<Rightarrow> Ordering" and ok :: "'a \<Rightarrow> bool"
  assumes flip: "ok a \<Longrightarrow> ok b \<Longrightarrow> cmp b a = ord_reverse (cmp a b)"
    and trans: "ok a \<Longrightarrow> ok b \<Longrightarrow> ok c \<Longrightarrow> cmp a b \<noteq> Greater \<Longrightarrow> cmp b c \<noteq> Greater \<Longrightarrow> cmp a c \<noteq> Greater"
begin

lemma less_flip: "ok a \<Longrightarrow> ok b \<Longrightarrow> cmp b a = Greater \<longleftrightarrow> cmp a b = Less"
  using flip [of a b] by (simp add: ord_reverse_iff)

lemma equal_iff: "ok a \<Longrightarrow> ok b \<Longrightarrow> cmp a b = Equal \<longleftrightarrow> cmp a b \<noteq> Greater \<and> cmp b a \<noteq> Greater"
  by (metis Ordering.distinct Ordering.exhaust less_flip)

lemma equal_trans: "ok a \<Longrightarrow> ok b \<Longrightarrow> ok c \<Longrightarrow> cmp a c = Equal \<Longrightarrow> cmp b c = Equal \<Longrightarrow> cmp a b = Equal"
  using equal_iff trans by blast

lemma mset_shift_left: "mset (shift_left cmp x ys) = add_mset x (mset ys)"
  by (induction ys) auto

lemma set_shift_left: "set (shift_left cmp x ys) = insert x (set ys)"
  using mset_shift_left [of x ys] by (metis set_mset_add_mset_insert set_mset_mset)

lemma shift_left_sorted:
  assumes "list_all ok (x # ys)" "sorted_wrt (\<lambda>a b. cmp b a \<noteq> Greater) ys"
  shows "sorted_wrt (\<lambda>a b. cmp b a \<noteq> Greater) (shift_left cmp x ys)"
  using assms
proof (induction ys)
  case (Cons y ys)
  show ?case
  proof (cases "cmp x y = Less")
    case True
    then show ?thesis using Cons by (auto simp: set_shift_left)
  next
    case False
    then have "cmp y x \<noteq> Greater" using Cons.prems less_flip by simp
    then have "cmp z x \<noteq> Greater" if "z \<in> set ys" for z
      using that Cons.prems trans [of z y x] by (auto simp: list_all_iff)
    then show ?thesis using False Cons.prems \<open>cmp y x \<noteq> Greater\<close> by simp
  qed
qed simp

lemma shift_left_stable:
  assumes "list_all ok (x # ys)" "ok z"
  shows "filter (\<lambda>y. cmp y z = Equal) (shift_left cmp x ys) = filter (\<lambda>y. cmp y z = Equal) (x # ys)"
  using assms by (induction ys) (auto dest: equal_trans)

lemma sort_by_fold:
  assumes "list_all ok (ys @ xs)" "sorted_wrt (\<lambda>a b. cmp b a \<noteq> Greater) ys" "ok z"
  shows "mset (foldl (\<lambda>ys x. shift_left cmp x ys) ys xs) = mset ys + mset xs \<and>
    sorted_wrt (\<lambda>a b. cmp b a \<noteq> Greater) (foldl (\<lambda>ys x. shift_left cmp x ys) ys xs) \<and>
    filter (\<lambda>y. cmp y z = Equal) (foldl (\<lambda>ys x. shift_left cmp x ys) ys xs) = filter (\<lambda>y. cmp y z = Equal) (rev xs @ ys)"
  using assms
proof (induction xs arbitrary: ys)
  case (Cons x xs)
  have "list_all ok (shift_left cmp x ys @ xs)" using Cons.prems(1) by (simp add: list_all_iff set_shift_left)
  from Cons.IH [OF this shift_left_sorted] Cons.prems show ?case
    by (simp add: mset_shift_left shift_left_stable)
qed simp

text \<open>The outcome is a sorted, stable permutation.\<close>

lemma insertion_sort_correct:
  assumes "list_all ok xs"
  shows "mset (insertion_sort cmp xs) = mset xs" "sorted_wrt (\<lambda>a b. cmp a b \<noteq> Greater) (insertion_sort cmp xs)"
    "ok z \<Longrightarrow> filter (\<lambda>y. cmp y z = Equal) (insertion_sort cmp xs) = filter (\<lambda>y. cmp y z = Equal) xs"
proof -
  have *: "ok z \<Longrightarrow> mset (insertion_sort cmp xs) = mset xs \<and> sorted_wrt (\<lambda>a b. cmp a b \<noteq> Greater) (insertion_sort cmp xs) \<and>
      filter (\<lambda>y. cmp y z = Equal) (insertion_sort cmp xs) = filter (\<lambda>y. cmp y z = Equal) xs" for z
    using sort_by_fold [of "[]" xs z] assms by (simp add: insertion_sort_def sorted_wrt_rev flip: rev_filter)
  show "ok z \<Longrightarrow> filter (\<lambda>y. cmp y z = Equal) (insertion_sort cmp xs) = filter (\<lambda>y. cmp y z = Equal) xs" using * by blast
  show "mset (insertion_sort cmp xs) = mset xs" "sorted_wrt (\<lambda>a b. cmp a b \<noteq> Greater) (insertion_sort cmp xs)"
    using * [of "hd xs"] assms by (cases xs; simp add: insertion_sort_def)+
qed

text \<open>The comparison orders such elements, so the library's sort returns the outcome.\<close>

lemma orders_ok: "list_all ok xs \<Longrightarrow> orders cmp xs"
  using flip trans unfolding orders_def list_all_iff by blast

lemma sort_by_ok: "list_all ok xs \<Longrightarrow> sort_by unordered cmp xs = Inr (insertion_sort cmp xs)"
  by (simp add: sort_by_def orders_ok)

end

subsection \<open>Comparing rows\<close>

lemma comparison_key: "comparison (\<lambda>a b. ord_cmp (f a) (f b)) ok"
  by unfold_locales (auto simp: ord_cmp_def split: if_splits)

lemma comparison_reverse:
  assumes "comparison cmp ok"
  shows "comparison (\<lambda>a b. ord_reverse (cmp a b)) ok"
proof -
  have "ord_reverse (ord_reverse x) = x" for x by (cases x) simp_all
  then show ?thesis
    using assms comparison.less_flip [OF assms] comparison.trans [OF assms]
    unfolding comparison_def ord_reverse_iff by metis
qed

lemma comparison_lex:
  assumes "comparison c1 ok" "comparison c2 ok"
  shows "comparison (\<lambda>a b. if c1 a b \<noteq> Equal then c1 a b else c2 a b) ok"
proof
  fix a b
  assume d: "ok a" "ok b"
  show "(if c1 b a \<noteq> Equal then c1 b a else c2 b a) = ord_reverse (if c1 a b \<noteq> Equal then c1 a b else c2 a b)"
    using comparison.flip [OF assms(1) d] comparison.flip [OF assms(2) d] ord_reverse_iff by auto
next
  fix a b c
  assume d: "ok a" "ok b" "ok c"
    and ab: "(if c1 a b \<noteq> Equal then c1 a b else c2 a b) \<noteq> Greater" and bc: "(if c1 b c \<noteq> Equal then c1 b c else c2 b c) \<noteq> Greater"
  have t1: "c1 a c \<noteq> Greater" using comparison.trans [OF assms(1) d] ab bc by (auto split: if_splits)
  show "(if c1 a c \<noteq> Equal then c1 a c else c2 a c) \<noteq> Greater"
  proof (cases "c1 a c = Equal")
    case True
    then have "c1 c a \<noteq> Greater" using comparison.equal_iff [OF assms(1) d(1,3)] by simp
    then have "c1 b a \<noteq> Greater" "c1 c b \<noteq> Greater"
      using comparison.trans [OF assms(1) d(2,3,1)] comparison.trans [OF assms(1) d(3,1,2)] ab bc by (auto split: if_splits)
    then have "c1 a b = Equal" "c1 b c = Equal"
      using comparison.equal_iff [OF assms(1)] d ab bc by (auto split: if_splits)
    then show ?thesis using True comparison.trans [OF assms(2) d] ab bc by simp
  qed (use t1 in simp)
qed

text \<open>The kinds of values that are comparable among themselves.\<close>

datatype column_kind = KindInt | KindUInt | KindFloat | KindText | KindOther

fun has_kind :: "column_kind \<Rightarrow> SochValue option \<Rightarrow> bool" where
  "has_kind k None = True"
| "has_kind KindInt (Some v) = (case v of VInt _ \<Rightarrow> True | _ \<Rightarrow> False)"
| "has_kind KindUInt (Some v) = (case v of VUInt _ \<Rightarrow> True | _ \<Rightarrow> False)"
| "has_kind KindFloat (Some v) = (case v of VFloat f \<Rightarrow> \<not> f64_is_nan f | _ \<Rightarrow> False)"
| "has_kind KindText (Some v) = (case v of VText _ \<Rightarrow> True | _ \<Rightarrow> False)"
| "has_kind KindOther (Some v) = (case v of VBool _ \<Rightarrow> True | VBinary _ \<Rightarrow> True | VArray _ \<Rightarrow> True | VObject _ \<Rightarrow> True | VRef _ _ \<Rightarrow> True | _ \<Rightarrow> False)"

lemma ord_cmp_swap: "ord_cmp b a = ord_reverse (ord_cmp a b)"
  by (auto simp: ord_cmp_def)

lemma ord_cmp_le: "ord_cmp a b \<noteq> Greater \<longleftrightarrow> a \<le> b"
  by (auto simp: ord_cmp_def)

lemma comparison_values: "comparison (compare_values E) (has_kind k)"
proof
  fix a b
  assume "has_kind k a" "has_kind k b"
  then show "compare_values E b a = ord_reverse (compare_values E a b)"
    by (cases k; cases a; cases b)
      (auto simp: compare_values_def i64_cmp_def f64_cmp_or_equal_def f64_partial_cmp_def split: SochValue.splits intro: ord_cmp_swap)
next
  fix a b c
  assume k: "has_kind k a" "has_kind k b" "has_kind k c" and "compare_values E a b \<noteq> Greater" "compare_values E b c \<noteq> Greater"
  then show "compare_values E a c \<noteq> Greater"
    by (cases k; cases a; cases b; cases c)
      (auto simp: compare_values_def i64_cmp_def f64_cmp_or_equal_def f64_partial_cmp_def ord_cmp_le split: SochValue.splits intro: order_trans)
qed

lemma comparison_on:
  assumes "comparison cmp ok" "\<And>a. ok' a \<Longrightarrow> ok (f a)"
  shows "comparison (\<lambda>a b. cmp (f a) (f b)) ok'"
  using assms unfolding comparison_def by blast

text \<open>A row whose values in the columns of the clause have the expected kinds.\<close>

definition orderable :: "(string \<Rightarrow> column_kind) \<Rightarrow> Expr OrderByItem list \<Rightarrow> sql_row \<Rightarrow> bool" where
  "orderable kinds items row \<longleftrightarrow>
     list_all (\<lambda>item. case ob_expr item of EColumn c \<Rightarrow> has_kind (kinds (cr_column c)) (row (cr_column c)) | _ \<Rightarrow> True) items"

lemma comparison_rows: "comparison (order_cmp E items) (orderable kinds items)"
proof (induction items)
  case Nil
  then show ?case by unfold_locales simp_all
next
  case (Cons item items)
  have rest: "comparison (order_cmp E items) (orderable kinds (item # items))"
    by (rule comparison_on [OF Cons.IH, where f = "\<lambda>a. a"]) (simp add: orderable_def)
  show ?case
  proof (cases "\<exists>c. ob_expr item = EColumn c")
    case False
    then have "order_cmp E (item # items) = order_cmp E items" by (intro ext) (simp split: Expr.split)
    then show ?thesis using rest by simp
  next
    case True
    then obtain c where c: "ob_expr item = EColumn c" by blast
    let ?v = "\<lambda>a b. compare_values E (a (cr_column c)) (b (cr_column c))"
    have v: "comparison ?v (orderable kinds (item # items))"
      by (rule comparison_on [OF comparison_values [of E "kinds (cr_column c)"]]) (use c in \<open>simp add: orderable_def\<close>)
    have "comparison (\<lambda>a b. if ob_asc item then ?v a b else ord_reverse (?v a b)) (orderable kinds (item # items))"
      using v comparison_reverse [OF v] by (cases "ob_asc item") simp_all
    from comparison_lex [OF this rest]
    have "comparison (\<lambda>a b. if (if ob_asc item then ?v a b else ord_reverse (?v a b)) \<noteq> Equal
        then if ob_asc item then ?v a b else ord_reverse (?v a b) else order_cmp E items a b) (orderable kinds (item # items))" .
    moreover have "order_cmp E (item # items) a b = (if (if ob_asc item then ?v a b else ord_reverse (?v a b)) \<noteq> Equal
        then if ob_asc item then ?v a b else ord_reverse (?v a b) else order_cmp E items a b)" for a b
      using c by (simp add: Let_def ord_reverse_iff)
    ultimately show ?thesis by presburger
  qed
qed

interpretation row_order: comparison "order_cmp E items" "orderable kinds items" for E items kinds
  by (rule comparison_rows)

subsection \<open>SELECT\<close>

lemma filter_rows_exact:
  assumes "\<forall>row \<in> set rows. where_matches E (row_map t row) params w = Inr (P row)"
  shows "filter_rows E t params w rows = Inr (map (row_map t) (filter P rows))"
  using assms by (induction rows) auto

text \<open>
  C27: \<^verbatim>\<open>SELECT * FROM t WHERE \<dots> ORDER BY \<dots> OFFSET \<dots> LIMIT \<dots>\<close>.  When the condition decides every row and the columns of the
  clause hold values of one kind without \<^verbatim>\<open>NULL\<close>, the answer is cut out of a list that holds exactly the selected rows, each as often as the
  table has it, in the order that the clause asks for, and with rows that the clause does not tell apart in the order of the table.
\<close>

theorem select_is_exact_and_sorted:
  fixes sel :: SelectStmt
  assumes "select_table sel = Inr name" "find_table name ex = Inr t" "decides E params t (sel_where sel) P"
    and "sel_columns sel = [Wildcard]" "list_all (orderable kinds (sel_order_by sel)) (map (row_map t) (filter P (td_rows t)))"
  shows "\<exists>rows. execute_select E sel params ex =
      Inr (ResRows (td_columns t) (apply_limit (sel_limit sel) (apply_offset (sel_offset sel) rows))) \<and>
    mset rows = image_mset (row_map t) (filter_mset P (mset (td_rows t))) \<and>
    sorted_wrt (\<lambda>a b. order_cmp E (sel_order_by sel) a b \<noteq> Greater) rows \<and>
    (\<forall>r \<in> set rows. filter (\<lambda>y. order_cmp E (sel_order_by sel) y r = Equal) rows =
      filter (\<lambda>y. order_cmp E (sel_order_by sel) y r = Equal) (map (row_map t) (filter P (td_rows t))))"
proof -
  let ?rows = "map (row_map t) (filter P (td_rows t))" and ?cmp = "order_cmp E (sel_order_by sel)"
  let ?s = "if sel_order_by sel \<noteq> [] then insertion_sort ?cmp ?rows else ?rows"
  note s = row_order.insertion_sort_correct [where E = E, OF assms(5)]
  have m: "mset ?s = mset ?rows" using s(1) by simp
  have "sorted_wrt (\<lambda>a b. ?cmp a b \<noteq> Greater) ?s"
  proof (cases "sel_order_by sel")
    case Nil
    have "sorted_wrt (\<lambda>a b. True) xs" for xs :: "sql_row list" by (induction xs) auto
    with Nil show ?thesis by simp
  qed (use s(2) in auto)
  moreover have "filter (\<lambda>y. ?cmp y r = Equal) ?s = filter (\<lambda>y. ?cmp y r = Equal) ?rows" if "r \<in> set ?s" for r
  proof -
    have "r \<in> set ?rows" using that m by (metis mset_eq_setD)
    then have "orderable kinds (sel_order_by sel) r" using assms(5) by (auto simp: list_all_iff)
    then show ?thesis using s(3) by simp
  qed
  moreover have "execute_select E sel params ex =
      Inr (ResRows (td_columns t) (apply_limit (sel_limit sel) (apply_offset (sel_offset sel) ?s)))"
    using assms(1,2,4) filter_rows_exact [OF assms(3) [unfolded decides_def]]
    by (simp add: execute_select_def Let_def row_order.sort_by_ok [OF assms(5)])
  moreover have "mset ?s = image_mset (row_map t) (filter_mset P (mset (td_rows t)))" using m by (simp add: mset_filter)
  ultimately show ?thesis by blast
qed

definition demo_ordered_select :: SelectStmt where
  "demo_ordered_select =
     SelectStmt span_default False [Wildcard] (Some (FromClause [TableName (object_name_new ''t'') None])) None [] None
       [OrderByItem (EColumn (column_ref_new ''a'')) False None] (Some (ELiteral (LitInteger 2))) None []"

theorem select_is_exact_and_sorted_witness:
  "\<exists>rows. execute_select demo_eval demo_ordered_select [] demo_executor =
      Inr (ResRows [''a'', ''b''] (apply_limit (sel_limit demo_ordered_select) (apply_offset (sel_offset demo_ordered_select) rows))) \<and>
    mset rows = image_mset (row_map demo_table) (mset (td_rows demo_table)) \<and>
    sorted_wrt (\<lambda>a b. order_cmp demo_eval (sel_order_by demo_ordered_select) a b \<noteq> Greater) rows"
proof -
  let ?sel = demo_ordered_select
  have "\<exists>rows. execute_select demo_eval ?sel [] demo_executor =
      Inr (ResRows (td_columns demo_table) (apply_limit (sel_limit ?sel) (apply_offset (sel_offset ?sel) rows))) \<and>
    mset rows = image_mset (row_map demo_table) (filter_mset (\<lambda>_. True) (mset (td_rows demo_table))) \<and>
    sorted_wrt (\<lambda>a b. order_cmp demo_eval (sel_order_by ?sel) a b \<noteq> Greater) rows \<and>
    (\<forall>r \<in> set rows. filter (\<lambda>y. order_cmp demo_eval (sel_order_by ?sel) y r = Equal) rows =
      filter (\<lambda>y. order_cmp demo_eval (sel_order_by ?sel) y r = Equal) (map (row_map demo_table) (filter (\<lambda>_. True) (td_rows demo_table))))"
  proof (rule select_is_exact_and_sorted)
    show "select_table ?sel = Inr ''t''" by (simp add: demo_ordered_select_def select_table_def object_name_new_def object_name_name_def)
    show "decides demo_eval [] demo_table (sel_where ?sel) (\<lambda>_. True)" by (simp add: demo_ordered_select_def decides_no_condition)
    show "list_all (orderable (\<lambda>_. KindInt) (sel_order_by ?sel)) (map (row_map demo_table) (filter (\<lambda>_. True) (td_rows demo_table)))"
      by (simp add: demo_ordered_select_def orderable_def demo_table_def row_map_def column_ref_new_def)
  qed (simp_all add: demo_ordered_select_def)
  then show ?thesis by (simp add: demo_table_def) blast
qed

text \<open>A query whose ordered columns hold values of one kind each, without \<^verbatim>\<open>NULL\<close>, does not panic in the sort.\<close>

lemma orderable_orders: "list_all (orderable kinds items) rows \<Longrightarrow> orders (order_cmp E items) rows"
  by (rule row_order.orders_ok)

subsection \<open>NULL in an ordered column\<close>

text \<open>
  \<^verbatim>\<open>NULL\<close> is equal to every value, so the comparison of rows is not transitive.  The library's sort may panic on such a list; sorting it by insertion
  leaves rows that differ out of order when a \<^verbatim>\<open>NULL\<close> stands between them.
\<close>

lemma null_breaks_the_order:
  "compare_values E (Some (VInt 2)) (Some VNull) = Equal" "compare_values E (Some VNull) (Some (VInt 1)) = Equal"
  "compare_values E (Some (VInt 2)) (Some (VInt 1)) = Greater"
  "insertion_sort (compare_values E) [Some (VInt 2), Some VNull, Some (VInt 1)] = [Some (VInt 2), Some VNull, Some (VInt 1)]"
  "\<not> orders (compare_values E) [Some (VInt 2), Some VNull, Some (VInt 1)]"
  by (simp_all add: compare_values_def i64_cmp_def ord_cmp_def insertion_sort_def orders_def)

lemma no_comparison_with_null: "\<not> comparison (compare_values E) (\<lambda>_. True)"
proof
  assume "comparison (compare_values E) (\<lambda>_. True)"
  from comparison.trans [OF this, of "Some (VInt 2)" "Some VNull" "Some (VInt 1)"] null_breaks_the_order(1-3) [of E]
  show False by simp
qed

end
