(* ===== verification/Spec2Isabelle.thy ===== *)
theory Spec2Isabelle
  imports Balanced_Index Cdc Commit_Window Concurrent_Database Group_Commit Sql_Order
begin

text \<open>
  \<^bold>\<open>SochDB: the transactional storage engine, the database kernel over it, and the SQL front end and executor.\<close>

  The program is a Rust workspace.  Its core is the crate \<^verbatim>\<open>sochdb-storage\<close>: a database kernel
  (\<^verbatim>\<open>database.rs\<close>) over a storage engine (\<^verbatim>\<open>durable_storage.rs\<close>) that combines multi-version concurrency
  control, an in-memory table of version chains and a write-ahead log (\<^verbatim>\<open>txn_wal.rs\<close>), with helpers from
  \<^verbatim>\<open>sochdb-core\<close> (\<^verbatim>\<open>version_chain.rs\<close>, \<^verbatim>\<open>txn.rs\<close>, \<^verbatim>\<open>error.rs\<close>, \<^verbatim>\<open>soch.rs\<close>).  A client begins a transaction, reads
  and writes keys, paths or table rows, and commits; a write goes to the transaction's log buffer and, as an
  uncommitted version, to the memtable; commit validates the transaction, flushes its buffer and a commit
  record to the log, syncs it according to the sync mode, and stamps the versions.  Opening a database
  resolves its data key from the keyring (\<^verbatim>\<open>keyring.rs\<close>) and replays the log.  In the concurrent mode several processes
  open one database and coordinate through a mapped page with a clock, a writer lock and a table of readers (\<^verbatim>\<open>mvcc_concurrent.rs\<close>).
  Changes can be published to subscribers through a log of events (\<^verbatim>\<open>cdc.rs\<close>).
  The crate \<^verbatim>\<open>sochdb-query\<close> turns SQL text into statements (\<^verbatim>\<open>sql/lexer.rs\<close>, \<^verbatim>\<open>sql/parser.rs\<close>) and executes them on
  tables in memory (\<^verbatim>\<open>sql/mod.rs\<close>, \<^verbatim>\<open>like.rs\<close>).

  \<^bold>\<open>How the code is modelled.\<close>  Structs are records, enums datatypes, functions that mutate a struct take and
  return it; \<open>failure + 'a\<close> holds both the errors of the code and its panics (slice bounds, arithmetic), so
  every early return and every panic is a branch.  Machine integers that the code lets wrap are words;
  \<^verbatim>\<open>usize\<close> sums of lengths of data in memory are natural numbers.  A concurrent map is an association list
  whose order stands for the unspecified iteration order, and an operation on one entry is atomic; a public
  operation of the engine is one atomic step, so interleavings are sequences of operations.  Finer steps are taken where
  the code waits or retries: the four stages of a commit, between which it holds no lock, the group commit buffer, the log of changes and the lock-free protocols of the
  shared page, with one rule per stage, call, critical section, log call or atomic access, whose accesses to one word are totally ordered.  A disk file is
  a byte list with a count of synced bytes; a crash leaves any prefix that contains them.
  Third-party code is a parameter with the behaviour relied on as a named hypothesis: \<open>platform\<close> (checksum,
  clock, process id), \<open>hashers\<close> (the hash functions of the Bloom filter), the AEAD cipher (\<open>cipher_ok\<close>), the key derivation, codecs and
  file outcomes of the keyring, the group-commit batch size formula, \<open>sql_std\<close> (rounding of decimal literals, debug rendering) and
  \<open>sql_eval_std\<close> (rounding arithmetic on floating-point numbers, Unicode case mapping, and the outcome that the standard library leaves open when a
  comparison does not order the rows to sort).

  \<^bold>\<open>The theories, from the bottom up.\<close>

    \<^item> \<open>Prelude\<close>: result type, binary search and slices of the standard library, little-endian bytes, maps.
    \<^item> \<open>Version_Chain\<close>: \<^verbatim>\<open>BinarySearchChain\<close>, \<^verbatim>\<open>VersionChain\<close>: visibility by timestamp, commit, abort, collection.
    \<^item> \<open>Ssi_Bloom\<close>, \<open>Mvcc_Manager\<close>: the Bloom filter (locale \<open>approximate_set\<close>: no false negatives) and the
      transaction manager: snapshots, read and write sets, validation against concurrent commits.  The optimised
      validation is shown equal to a specification on key sets; the watermark is safe.
    \<^item> \<open>Deferred_Index\<close>, \<open>Mem_Table\<close>, \<open>Arena_Table\<close>: key indexes (locale \<open>ordered_index\<close>, met by the deferred index and
      the skip list), the memtable with its scans, streaming iterator, epochs and collection, the arena
      variant and the enum over both (locale \<open>mvcc_table\<close>).  The arena table refines the standard one, up to the
      collections after a refused batch.
    \<^item> \<open>Encryption\<close>, \<open>Wal_Record\<close>, \<open>Txn_Wal\<close>, \<open>Wal_Replay\<close>, \<open>Wal_Properties\<close>: the encryption envelope, record formats,
      the log writer with its buffer (locale \<open>framing\<close>: a reader of frames stops cleanly at a cut), the four
      readers of the log; what they return for every crash image.
    \<^item> \<open>Durable_Storage\<close>, \<open>Storage_Isolation\<close>, \<open>Storage_Durability\<close>, \<open>Storage_Properties\<close>: the engine with all its
      operations; its invariant along reachable states and what each operation leaves alone for an active
      transaction; the log of any history of operations (\<open>ds_history\<close>: from an empty directory, with truncations and
      restarts of the whole log) and what a restarted engine reads.
    \<^item> \<open>Commit_Window\<close>: the commit in its stages, interleaved with everything else: snapshot isolation for transactions that
      begin outside the window of an earlier commit, and its failure inside.
    \<^item> \<open>Group_Commit\<close>: the commit buffer of \<^verbatim>\<open>group_commit.rs\<close>: queue, batches and notification, and the interleaving of any number of
      calls as a step relation.  What it needs of the log is the locale \<open>commit_log\<close>, interpreted on the write-ahead log: an acknowledged commit is
      on disk, and no waiting call is stranded.
    \<^item> \<open>Keyring\<close>: the key descriptor, its creation, authentication and opening, the race of several creators as a step
      relation, and every constructor of the engine with the keyring resolved first.
    \<^item> \<open>Packed_Row\<close>, \<open>Key_Buffer\<close>: the row format (three writers, readers, builder) and row keys.
    \<^item> \<open>Database_Kernel\<close>, \<open>Database_Query\<close>, \<open>Database_Properties\<close>, \<open>Database_Guarantees\<close>: configuration, transactions, keys,
      paths, tables, maintenance; the query builder and its iterator.  The table layer is proved against the
      locale \<open>kv_view\<close> (what a transaction sees of a key-value store), interpreted on \<open>db_get\<close> and \<open>db_put\<close>; rows read
      back, are independent of each other and survive crashes; table queries are exact.
    \<^item> \<open>Concurrent_Mvcc\<close>, \<open>Concurrent_Steps\<close>, \<open>Concurrent_Database\<close>: the shared page, the version store and the manager of the concurrent
      mode, each operation as a function (the chains interpret \<open>chain_entry\<close> a second time); the clock and the writer lock access by access: timestamps increase under
      every interleaving, one process at a time is inside the lock; the kernel's \<^verbatim>\<open>put\<close> and \<^verbatim>\<open>commit\<close> under the lock, and two
      processes on one log.
    \<^item> \<open>Balanced_Index\<close>: sorted runs, compaction and k-way merge of the balanced index policy, refining a map.
    \<^item> \<open>Cdc\<close>: change data capture (\<^verbatim>\<open>cdc.rs\<close>): ring buffer, emitters and subscribers, and any number of them on one log as a step
      relation.  The buffer is the end of the history; with events in order every subscriber gets the events of its tables exactly once.
    \<^item> \<open>Sql_Token\<close>, \<open>Sql_Lexer\<close>: the tokens and the lexer; its tokens are the slices of the text that their spans name, and quoted
      strings cannot be left from inside.
    \<^item> \<open>Sql_Ast\<close>, \<open>Sql_Parser\<close>: the syntax tree and the recursive-descent parser, a state-and-failure function per method.
    \<^item> \<open>Sql_Parser_Total\<close>, \<open>Sql_Grammar\<close>, \<open>Sql_Statements\<close>: the parser answers on every text; it inverts a printer that
      uses no needless parentheses; what it makes of \<^verbatim>\<open>DELETE\<close> and of chains outside its depth counter.
    \<^item> \<open>Sql_Like\<close>, \<open>Sql_Value\<close>, \<open>Sql_Executor\<close>: the \<^verbatim>\<open>LIKE\<close> matcher, equal to the meaning of patterns; values, comparisons, functions and
      the evaluation of expressions; the statements of the executor with the state each failure leaves.
    \<^item> \<open>Sql_Execution\<close>, \<open>Sql_Order\<close>: the executor answers every text, with the two panics it has, and keeps the shape of its tables; \<^verbatim>\<open>INSERT\<close>, \<^verbatim>\<open>UPDATE\<close> and \<^verbatim>\<open>DELETE\<close>
      do what they say, from the text to the rows; \<^verbatim>\<open>SELECT\<close> with \<^verbatim>\<open>ORDER BY\<close> is exact, sorted and stable (locale \<open>comparison\<close>,
      interpreted on the comparison of rows).

  \<^bold>\<open>Bounds and fuel.\<close>  The loops are structural recursions or have termination proofs
  (the merge of runs by the entries left plus the heap size, the read and scan loops by the bytes left, the loops of the parser by the tokens
  left).  The recursive calls of the parser are bounded by a number, three times the tokens; no text needs more
  than the tokens, and beyond it the outcome is a value of its own.  The loop of the \<^verbatim>\<open>LIKE\<close> matcher has \<open>n * m + m + 1\<close>
  iterations for \<open>n\<close> characters and a pattern of \<open>m\<close>, which is shown to be enough.  Timestamps of the concurrent mode assume a wall clock
  below \<open>2 ^ 48\<close> milliseconds.  Reachable
  states of the engine exclude an exhausted 64-bit clock or transaction counter (\<open>ds_room\<close>); histories assume
  records within the 512 MiB frame limit (\<open>write_fits\<close>), log writes that succeed and no restart over a torn tail, count writes by what
  the log holds, and start over at a truncation; rows assume fewer than 65536 columns and 4 GiB, and table
  names of at most 42 bytes.  Where the code misbehaves beyond such a bound, a theorem says so (oversized
  records, long table names).

  \<^bold>\<open>Deviations shown.\<close>  Theorems state where the code does not do what its comments or tests intend: write skew of
  single-key transactions, reversed range bounds, epoch collection that skips pinned versions, keys missing
  from the index, records hidden behind a torn or an oversized one, deleted keys that return after a restart,
  refused writes that are recovered, refused commits that lock their keys, colliding row keys, lazy queries
  that reach sibling tables, merges that bring overwritten values back, \<^verbatim>\<open>WHERE\<close> clauses dropped behind an alias, recursion
  that the depth limit of the parser does not see, conditions that \<^verbatim>\<open>NULL\<close> satisfies, a writer lock that two threads of one process break and
  that a dead process keeps for ever, timestamps that repeat when their counter is full, versions collected under a registered reader, an encrypted log
  that a second process makes unreadable, a flush thread that is announced and never started, and change events that overlapping transactions or
  a table filter keep from a subscriber, snapshots taken in the window of a commit that see it appear, and rows with \<^verbatim>\<open>NULL\<close> that the sort cannot order.

  \<^bold>\<open>Not modelled.\<close>  The remaining crates (index structures for vectors and graphs, context queries and query
  planning, aggregates and dialects of SQL, client, server, bindings, tools) and the storage modules outside the path described above
  (page and columnar storage, compaction to disk);
  floating-point formulas, which are parameters where they are used;
  raw-memory arenas; textual output formats; file locks and the failure of file operations other than the
  ones the log handles.
\<close>

end
